(* ===== verification/Go_Prelude.thy ===== *)
theory Go_Prelude
  imports Main "HOL-Library.Word"
begin

unbundle bit_operations_syntax

text \<open>
  What every theory of the development shares: Go's byte slices, the error values of the client,
  the result type of its fallible functions, checked slice accesses (an access out of range is a
  run-time panic), the fixed-width little- and big-endian codecs of \<^verbatim>\<open>encoding/binary\<close>, and the
  lemma collections that carry the component proofs:
  \<^item> \<open>go_simps\<close>: the definitions that a proof about control flow unfolds;
  \<^item> \<open>codec_rt\<close>: the round-trip equations of the byte-level codecs.
\<close>

named_theorems go_simps
named_theorems codec_rt

section \<open>Bytes, errors, results\<close>

type_synonym byte = "8 word"
type_synonym bytes = "byte list"

text \<open>
  Error values up to \<^verbatim>\<open>errors.Is\<close>: the sentinel a Go error wraps, not its message. An error made
  by \<^verbatim>\<open>errors.New\<close> inside a function has no sentinel and is identified by its text
  (\<open>Plain\<close>). \<^verbatim>\<open>context.Canceled\<close>, \<^verbatim>\<open>context.DeadlineExceeded\<close> and the errors of \<^verbatim>\<open>io\<close> are the
  standard library's; \<open>NetError\<close> is any error that implements \<^verbatim>\<open>net.Error\<close>; \<open>ErrTransportClosed\<close>,
  \<open>ErrFrameTooLarge\<close> and \<open>ErrMalformed\<close> are the sentinels of \<^verbatim>\<open>internal/transport\<close>. \<open>RemoteError\<close> has
  a code and a message; the sentinels met less often are grouped under \<open>Sentinel\<close>. \<open>ServerError\<close> has the fields of the struct of \<^verbatim>\<open>errors.go\<close> (code, name, message,
  API key, endpoint, retriable, category). \<open>Joined\<close> is an error that wraps two
  (\<^verbatim>\<open>errors.Join\<close>, or \<^verbatim>\<open>fmt.Errorf\<close> with two \<^verbatim>\<open>%w\<close>). \<open>Panic\<close> stands for a run-time panic (an index out of range, a nil
  dereference, a failed type assertion): a fallible function never returns it as a Go error, so
  a theorem that excludes it is a memory-safety theorem.
\<close>

datatype sentinel =
    UnsupportedAPI | Authentication | ServerFailure | Authorization | Timeout | StorageFailure
  | SequenceFailure | RecordFailure | ValidationFailure | ServerType | InvalidArgument | UnknownAPIKey
  | UnsupportedVersion | PrivateAPI | MalformedMessage | TransportClosed | FrameTooLarge | Malformed
  | UnexpectedEOF | ClosedPipe | ShortWrite

datatype go_error =
    ErrInvalidConfig
  | ErrInvalidSchema
  | ErrInvalidRow
  | ErrTableKind
  | ErrMalformedRow
  | ErrMalformedRecordBatch
  | ErrMetadata
  | ErrUnknownTable
  | ErrUnknownPartition
  | ErrUnknownBucket
  | ErrNoBucketLeader
  | ErrWriterState
  | ErrClosed
  | ErrCanceled
  | ErrDeadlineExceeded
  | EOF
  | Sentinel sentinel
  | NetError string
  | RemoteError int string
  | ServerError int string string int string bool go_error
  | Joined go_error go_error
  | Plain string
  | Panic string

abbreviation ErrUnsupportedAPI :: go_error where "ErrUnsupportedAPI \<equiv> Sentinel UnsupportedAPI"
abbreviation ErrAuthentication :: go_error where "ErrAuthentication \<equiv> Sentinel Authentication"
abbreviation ErrServerFailure :: go_error where "ErrServerFailure \<equiv> Sentinel ServerFailure"
abbreviation ErrAuthorization :: go_error where "ErrAuthorization \<equiv> Sentinel Authorization"
abbreviation ErrTimeout :: go_error where "ErrTimeout \<equiv> Sentinel Timeout"
abbreviation ErrStorage :: go_error where "ErrStorage \<equiv> Sentinel StorageFailure"
abbreviation ErrSequence :: go_error where "ErrSequence \<equiv> Sentinel SequenceFailure"
abbreviation ErrRecord :: go_error where "ErrRecord \<equiv> Sentinel RecordFailure"
abbreviation ErrValidation :: go_error where "ErrValidation \<equiv> Sentinel ValidationFailure"
abbreviation ErrServerType :: go_error where "ErrServerType \<equiv> Sentinel ServerType"
abbreviation ErrInvalidArgument :: go_error where "ErrInvalidArgument \<equiv> Sentinel InvalidArgument"
abbreviation ErrUnknownAPIKey :: go_error where "ErrUnknownAPIKey \<equiv> Sentinel UnknownAPIKey"
abbreviation ErrUnsupportedVersion :: go_error where "ErrUnsupportedVersion \<equiv> Sentinel UnsupportedVersion"
abbreviation ErrPrivateAPI :: go_error where "ErrPrivateAPI \<equiv> Sentinel PrivateAPI"
abbreviation ErrMalformedMessage :: go_error where "ErrMalformedMessage \<equiv> Sentinel MalformedMessage"
abbreviation ErrTransportClosed :: go_error where "ErrTransportClosed \<equiv> Sentinel TransportClosed"
abbreviation ErrFrameTooLarge :: go_error where "ErrFrameTooLarge \<equiv> Sentinel FrameTooLarge"
abbreviation ErrMalformed :: go_error where "ErrMalformed \<equiv> Sentinel Malformed"
abbreviation ErrUnexpectedEOF :: go_error where "ErrUnexpectedEOF \<equiv> Sentinel UnexpectedEOF"
abbreviation ErrClosedPipe :: go_error where "ErrClosedPipe \<equiv> Sentinel ClosedPipe"
abbreviation ErrShortWrite :: go_error where "ErrShortWrite \<equiv> Sentinel ShortWrite"

type_synonym 'a result = "go_error + 'a"

text \<open>Go's \<^verbatim>\<open>v, err := f(); if err != nil { return err }\<close>: the first error is the result.\<close>

definition andThen :: "'a result \<Rightarrow> ('a \<Rightarrow> 'b result) \<Rightarrow> 'b result" where
  "andThen m f = (case m of Inl e \<Rightarrow> Inl e | Inr x \<Rightarrow> f x)"

text \<open>\<^verbatim>\<open>if cond { return err }\<close> before the rest of a function.\<close>

definition guardE :: "bool \<Rightarrow> go_error \<Rightarrow> 'b result \<Rightarrow> 'b result" where
  "guardE c e m = (if c then Inl e else m)"

text \<open>\<^verbatim>\<open>fmt.Errorf("%w: ...: %v", sentinel, err)\<close>: the sentinel replaces the class of the error
  (a panic stays a panic).\<close>

definition rewrap :: "go_error \<Rightarrow> 'a result \<Rightarrow> 'a result" where
  "rewrap s m = (case m of Inl (Panic p) \<Rightarrow> Inl (Panic p) | Inl e \<Rightarrow> Inl s | Inr x \<Rightarrow> Inr x)"

definition is_panic :: "'a result \<Rightarrow> bool" where
  "is_panic m = (case m of Inl (Panic _) \<Rightarrow> True | _ \<Rightarrow> False)"

definition is_ok :: "'a result \<Rightarrow> bool" where
  "is_ok m = (case m of Inl _ \<Rightarrow> False | Inr _ \<Rightarrow> True)"

text \<open>A loop that collects the results of \<open>f\<close> and returns at the first error.\<close>

fun mapResult :: "('a \<Rightarrow> 'b result) \<Rightarrow> 'a list \<Rightarrow> 'b list result" where
  "mapResult f [] = Inr []"
| "mapResult f (x # xs) = andThen (f x) (\<lambda>y. andThen (mapResult f xs) (\<lambda>ys. Inr (y # ys)))"

text \<open>Evaluation unfolds both, so that only the branch taken is computed.\<close>

declare andThen_def [code_unfold] guardE_def [code_unfold]

lemma andThen_simps [simp]:
  "andThen (Inl e) f = Inl e"
  "andThen (Inr x) f = f x"
  by (simp_all add: andThen_def)

lemma andThen_cong [fundef_cong]:
  assumes "m = m'" "\<And>x. m' = Inr x \<Longrightarrow> f x = g x"
  shows "andThen m f = andThen m' g"
  using assms by (cases m') auto

lemma andThen_Inr_iff [simp]:
  "andThen m f = Inr y \<longleftrightarrow> (\<exists>x. m = Inr x \<and> f x = Inr y)"
  by (cases m) auto

lemma andThen_Inr_E [elim!]:
  assumes "andThen m f = Inr y"
  obtains x where "m = Inr x" "f x = Inr y"
  using assms by auto

lemma mapResult_map: "(\<And>x. f (g x) = Inr x) \<Longrightarrow> mapResult f (map g xs) = Inr xs"
  by (induction xs) simp_all

lemma mapResult_Inr_iff: "mapResult f xs = Inr ys \<longleftrightarrow> list_all2 (\<lambda>x y. f x = Inr y) xs ys"
  by (induction xs arbitrary: ys) (auto simp: list_all2_Cons1)

lemma andThen_assoc: "andThen (andThen m f) g = andThen m (\<lambda>x. andThen (f x) g)"
  by (cases m) auto

lemma guardE_Inr_iff [simp]: "guardE c e m = Inr y \<longleftrightarrow> \<not> c \<and> m = Inr y"
  by (simp add: guardE_def)

lemma andThen_guardE: "andThen (guardE c e m) f = guardE c e (andThen m f)"
  by (simp add: guardE_def)

lemma guardE_simps [simp]:
  "guardE True e m = Inl e"
  "guardE False e m = m"
  by (simp_all add: guardE_def)

lemma guardE_cong [fundef_cong]:
  assumes "c = c'" "e = e'" "\<not> c' \<Longrightarrow> m = m'"
  shows "guardE c e m = guardE c' e' m'"
  using assms by (auto simp: guardE_def)

lemma rewrap_simps [simp]:
  "rewrap s (Inr x) = Inr x"
  "rewrap s (Inl (Panic p)) = Inl (Panic p)"
  by (simp_all add: rewrap_def)

lemma rewrap_Inr_iff [simp]: "rewrap s m = Inr x \<longleftrightarrow> m = Inr x"
  by (auto simp: rewrap_def split: sum.splits go_error.splits)

lemma is_panic_simps [simp]:
  "\<not> is_panic (Inr x)"
  "is_panic (Inl (Panic p))"
  "is_panic (Inl e) \<longleftrightarrow> (\<exists>p. e = Panic p)"
  by (auto simp: is_panic_def split: go_error.splits)

lemma is_panic_andThen [simp]:
  "is_panic (andThen m f) \<longleftrightarrow> is_panic m \<or> (\<exists>x. m = Inr x \<and> is_panic (f x))"
  by (cases m) auto

lemma is_panic_guardE [simp]:
  "is_panic (guardE c e m) \<longleftrightarrow> (if c then \<exists>p. e = Panic p else is_panic m)"
  by (simp add: guardE_def)

lemma is_panic_rewrap [simp]:
  "(\<forall>p. s \<noteq> Panic p) \<Longrightarrow> is_panic (rewrap s m) \<longleftrightarrow> is_panic m"
  by (auto simp: rewrap_def is_panic_def split: sum.splits go_error.splits)

lemma is_ok_simps [simp]: "is_ok (Inr x)" "\<not> is_ok (Inl e)"
  by (simp_all add: is_ok_def)

lemma is_ok_iff: "is_ok m \<longleftrightarrow> (\<exists>x. m = Inr x)"
  by (cases m) auto

lemma not_is_ok_iff: "\<not> is_ok m \<longleftrightarrow> (\<exists>e. m = Inl e)"
  by (cases m) auto

section \<open>Slices\<close>

text \<open>\<^verbatim>\<open>s[i]\<close>, \<^verbatim>\<open>s[lo:hi]\<close> and \<^verbatim>\<open>copy(s[off:], v)\<close> over byte slices; indices are Go's \<^verbatim>\<open>int\<close>.
  All slices here have a length far below the range of \<^verbatim>\<open>int\<close>, so indices are integers.\<close>

definition go_index :: "'a list \<Rightarrow> int \<Rightarrow> 'a result" where
  "go_index xs i = (if 0 \<le> i \<and> i < int (length xs) then Inr (xs ! nat i)
                    else Inl (Panic ''index out of range''))"

definition go_slice :: "'a list \<Rightarrow> int \<Rightarrow> int \<Rightarrow> 'a list result" where
  "go_slice xs lo hi = (if 0 \<le> lo \<and> lo \<le> hi \<and> hi \<le> int (length xs)
                        then Inr (take (nat (hi - lo)) (drop (nat lo) xs))
                        else Inl (Panic ''slice bounds out of range''))"

definition go_set :: "'a list \<Rightarrow> int \<Rightarrow> 'a \<Rightarrow> 'a list result" where
  "go_set xs i v = (if 0 \<le> i \<and> i < int (length xs) then Inr (xs[nat i := v])
                    else Inl (Panic ''index out of range''))"

text \<open>Overwriting a run of elements in place (the effect of \<^verbatim>\<open>copy\<close> and of \<^verbatim>\<open>PutUint\<close>).\<close>

definition overwrite :: "'a list \<Rightarrow> nat \<Rightarrow> 'a list \<Rightarrow> 'a list" where
  "overwrite xs off vs = take off xs @ vs @ drop (off + length vs) xs"

lemma length_overwrite [simp]:
  "off + length vs \<le> length xs \<Longrightarrow> length (overwrite xs off vs) = length xs"
  by (simp add: overwrite_def)

lemma overwrite_append1 [simp]:
  "off + length vs \<le> length xs \<Longrightarrow> overwrite (xs @ ys) off vs = overwrite xs off vs @ ys"
  by (simp add: overwrite_def)

lemma overwrite_append2:
  "overwrite (xs @ ys) (length xs + off) vs = xs @ overwrite ys off vs"
  by (simp add: overwrite_def)

lemma overwrite_exact:
  "length ys = length vs \<Longrightarrow> overwrite (xs @ ys @ zs) (length xs) vs = xs @ vs @ zs"
  by (simp add: overwrite_def)

lemma go_index_append [simp]: "go_index (xs @ y # ys) (int (length xs)) = Inr y"
  by (simp add: go_index_def)

lemma go_slice_append [simp]:
  "n = int (length ys) \<Longrightarrow>
   go_slice (xs @ ys @ zs) (int (length xs)) (int (length xs) + n) = Inr ys"
  by (simp add: go_slice_def)

lemma go_index_ok: "0 \<le> i \<Longrightarrow> i < int (length xs) \<Longrightarrow> go_index xs i = Inr (xs ! nat i)"
  by (simp add: go_index_def)

lemma go_slice_ok:
  "0 \<le> lo \<Longrightarrow> lo \<le> hi \<Longrightarrow> hi \<le> int (length xs) \<Longrightarrow>
   go_slice xs lo hi = Inr (take (nat (hi - lo)) (drop (nat lo) xs))"
  by (simp add: go_slice_def)

lemma is_panic_go_index [simp]:
  "is_panic (go_index xs i) \<longleftrightarrow> \<not> (0 \<le> i \<and> i < int (length xs))"
  by (auto simp: go_index_def)

lemma is_panic_go_slice [simp]:
  "is_panic (go_slice xs lo hi) \<longleftrightarrow> \<not> (0 \<le> lo \<and> lo \<le> hi \<and> hi \<le> int (length xs))"
  by (auto simp: go_slice_def)

lemma go_slice_Inr_D:
  assumes "go_slice xs lo hi = Inr ys"
  shows "0 \<le> lo \<and> lo \<le> hi \<and> hi \<le> int (length xs) \<and> int (length ys) = hi - lo
         \<and> ys = take (nat (hi - lo)) (drop (nat lo) xs)"
  using assms by (auto simp: go_slice_def split: if_splits)

section \<open>Fixed-width integers in bytes\<close>

text \<open>\<^verbatim>\<open>binary.LittleEndian\<close>: byte \<open>i\<close> of the encoding holds bits \<open>8 i\<close> to \<open>8 i + 7\<close>.\<close>

primrec le_bytes :: "nat \<Rightarrow> 'a::len word \<Rightarrow> bytes" where
  "le_bytes 0 w = []"
| "le_bytes (Suc n) w = ucast w # le_bytes n (drop_bit 8 w)"

primrec le_word :: "bytes \<Rightarrow> 'a::len word" where
  "le_word [] = 0"
| "le_word (b # bs) = ucast b OR push_bit 8 (le_word bs)"

definition be_bytes :: "nat \<Rightarrow> 'a::len word \<Rightarrow> bytes" where
  "be_bytes n w = rev (le_bytes n w)"

definition be_word :: "bytes \<Rightarrow> 'a::len word" where
  "be_word bs = le_word (rev bs)"

lemma length_le_bytes [simp]: "length (le_bytes n w) = n"
  by (induction n arbitrary: w) auto

lemma length_be_bytes [simp]: "length (be_bytes n w) = n"
  by (simp add: be_bytes_def)

lemma le_word_le_bytes_take: "le_word (le_bytes n w) = take_bit (8 * n) w"
proof (induction n arbitrary: w)
  case 0
  then show ?case by simp
next
  case (Suc n)
  show ?case
    by (rule bit_word_eqI)
      (auto simp: Suc bit_or_iff bit_push_bit_iff bit_take_bit_iff bit_drop_bit_eq
        bit_ucast_iff not_less)
qed

lemma le_word_le_bytes [codec_rt]:
  "LENGTH('a) \<le> 8 * n \<Longrightarrow> le_word (le_bytes n (w :: 'a::len word)) = w"
  by (simp add: le_word_le_bytes_take take_bit_word_eq_self)

lemma be_word_be_bytes [codec_rt]:
  "LENGTH('a) \<le> 8 * n \<Longrightarrow> be_word (be_bytes n (w :: 'a::len word)) = w"
  by (simp add: be_word_def be_bytes_def codec_rt)

lemma le_bytes_le_word [codec_rt]:
  assumes "n = length bs" and "8 * length bs \<le> LENGTH('a)"
  shows "le_bytes n (le_word bs :: 'a::len word) = bs"
  using assms(2) unfolding assms(1)
proof (induction bs)
  case Nil
  then show ?case by simp
next
  case (Cons b bs)
  have hd: "ucast (ucast b OR push_bit 8 (le_word bs :: 'a word)) = b"
    using Cons.prems
    by (intro bit_word_eqI) (auto simp: bit_or_iff bit_push_bit_iff bit_ucast_iff)
  have len: "8 * length bs + 8 \<le> LENGTH('a)"
    using Cons.prems by simp
  have low: "\<not> bit (ucast b :: 'a word) (n + 8)" for n
    by (auto simp: bit_ucast_iff dest: bit_imp_le_length)
  have bound: "bit (le_word bs :: 'a word) k \<Longrightarrow> k < 8 * length bs" for k bs
  proof (induction bs arbitrary: k)
    case Nil
    then show ?case by simp
  next
    case (Cons b bs)
    from Cons.prems consider "bit (ucast b :: 'a word) k"
      | "8 \<le> k" "bit (le_word bs :: 'a word) (k - 8)"
      by (auto simp: bit_or_iff bit_push_bit_iff)
    then show ?case
    proof cases
      case 1
      then show ?thesis by (auto simp: bit_ucast_iff dest: bit_imp_le_length)
    next
      case 2
      with Cons.IH [of "k - 8"] show ?thesis by simp
    qed
  qed
  have tl: "drop_bit 8 (ucast b OR push_bit 8 (le_word bs :: 'a word)) = le_word bs"
  proof (rule bit_word_eqI)
    fix n assume "n < LENGTH('a)"
    show "bit (drop_bit 8 (ucast b OR push_bit 8 (le_word bs :: 'a word))) n
            = bit (le_word bs :: 'a word) n"
      using bound [of bs n] len low [of n]
      by (auto simp: bit_drop_bit_eq bit_or_iff bit_push_bit_iff add.commute)
  qed
  show ?case
    using Cons hd tl by simp
qed

lemma le_bytes_inj:
  assumes "LENGTH('a) \<le> 8 * n" and "le_bytes n (v :: 'a::len word) = le_bytes n w"
  shows "v = w"
  using assms by (metis le_word_le_bytes)

text \<open>Reading and writing at an offset: a slice shorter than the width is a panic.\<close>

definition le_get :: "nat \<Rightarrow> bytes \<Rightarrow> int \<Rightarrow> 'a::len word result" where
  "le_get n bs off = andThen (go_slice bs off (off + int n)) (\<lambda>s. Inr (le_word s))"

definition le_put :: "nat \<Rightarrow> bytes \<Rightarrow> int \<Rightarrow> 'a::len word \<Rightarrow> bytes result" where
  "le_put n bs off w =
     (if 0 \<le> off \<and> off + int n \<le> int (length bs)
      then Inr (overwrite bs (nat off) (le_bytes n w))
      else Inl (Panic ''index out of range''))"

lemma is_panic_le_get [simp]:
  "is_panic (le_get n bs off) \<longleftrightarrow> \<not> (0 \<le> off \<and> off + int n \<le> int (length bs))"
  by (auto simp: le_get_def)

lemma le_get_append [codec_rt]:
  "LENGTH('a) \<le> 8 * n \<Longrightarrow>
   le_get n (xs @ le_bytes n w @ ys) (int (length xs)) = Inr (w :: 'a::len word)"
  by (simp add: le_get_def codec_rt)

lemma le_get_prefix [codec_rt]:
  "LENGTH('a) \<le> 8 * n \<Longrightarrow> le_get n (le_bytes n w @ ys) 0 = Inr (w :: 'a::len word)"
  "LENGTH('a) \<le> 8 * n \<Longrightarrow> le_get n (le_bytes n w) 0 = Inr (w :: 'a::len word)"
  using le_get_append [of n "[]" w ys] le_get_append [of n "[]" w "[]"] by simp_all

lemma le_get_ok:
  "0 \<le> off \<Longrightarrow> off + int n \<le> int (length bs) \<Longrightarrow>
   le_get n bs off = Inr (le_word (take n (drop (nat off) bs)))"
  by (simp add: le_get_def go_slice_def)

end
