(* ===== verification/Byte_Codec.thy ===== *)
theory Byte_Codec
  imports Go_Prelude
begin

text \<open>
  The byte-level codec at the end of \<^verbatim>\<open>pkg/fgo/row_codec.go\<close>: fixed-width reads, little-endian
  appends, unsigned varints and length-delimited byte strings. Every codec has a round-trip
  equation in \<open>codec_rt\<close>, and every reader a lemma that it never panics and that it consumes
  bytes of its input only.
\<close>

section \<open>Definitions\<close>

definition maxRowBytes :: int where
  "maxRowBytes = 16777216"

definition readFixed :: "bytes \<Rightarrow> int \<Rightarrow> int \<Rightarrow> (bytes \<times> int) result" where
  "readFixed encoded position len =
     (if position < 0 \<or> len < 0 \<or> position > int (length encoded)
         \<or> int (length encoded) - position < len
      then Inl (Plain ''truncated value'')
      else andThen (go_slice encoded position (position + len))
             (\<lambda>v. Inr (v, position + len)))"

definition appendLittle :: "bytes \<Rightarrow> 64 word \<Rightarrow> nat \<Rightarrow> bytes" where
  "appendLittle dst value width = dst @ take width (le_bytes 8 value)"

text \<open>The varint loop: seven bits per byte, least significant first, the high bit set on every
  byte but the last.\<close>

lemma unat_drop_bit7: "unat (drop_bit 7 (v :: 64 word)) = unat v div 2 ^ 7"
  by (simp only: unat_drop_bit_eq) (simp only: drop_bit_eq_div)

lemma drop_bit7_less: "0x7f < (v :: 64 word) \<Longrightarrow> unat (drop_bit 7 v) < unat v"
proof -
  assume "0x7f < v"
  then have "0x7f < unat v"
    by (simp add: word_less_nat_alt)
  then show ?thesis
    by (simp add: unat_drop_bit7)
qed

function appendVar64 :: "bytes \<Rightarrow> 64 word \<Rightarrow> bytes" where
  "appendVar64 dst value =
     (if value > 0x7f
      then appendVar64 (dst @ [ucast value OR 0x80]) (drop_bit 7 value)
      else dst @ [ucast value])"
  by pat_completeness auto
termination
  by (relation "measure (\<lambda>(dst, value). unat value)") (auto simp: drop_bit7_less)

declare appendVar64.simps [simp del]

definition appendVar32 :: "bytes \<Rightarrow> 32 word \<Rightarrow> bytes" where
  "appendVar32 dst value = appendVar64 dst (ucast value)"

fun readVarLoop :: "bytes \<Rightarrow> int \<Rightarrow> 64 word \<Rightarrow> nat \<Rightarrow> nat \<Rightarrow> (64 word \<times> int) result" where
  "readVarLoop encoded position value i 0 = Inl (Plain ''overlong varint'')"
| "readVarLoop encoded position value i (Suc remaining) =
     (if position \<ge> int (length encoded) then Inl (Plain ''truncated varint'')
      else andThen (go_index encoded position) (\<lambda>part.
        (let value' = value OR push_bit (7 * i) (ucast (part AND 0x7f)) in
         if part AND 0x80 = 0 then Inr (value', position + 1)
         else readVarLoop encoded (position + 1) value' (Suc i) remaining)))"

definition readVar :: "bytes \<Rightarrow> int \<Rightarrow> nat \<Rightarrow> (64 word \<times> int) result" where
  "readVar encoded position maximum = readVarLoop encoded position 0 0 maximum"

definition appendLengthBytes :: "bytes \<Rightarrow> bytes \<Rightarrow> bytes result" where
  "appendLengthBytes dst value =
     (if int (length value) > maxRowBytes then Inl (Plain ''value exceeds limit'')
      else Inr (appendVar32 dst (of_nat (length value)) @ value))"

definition readLengthBytes :: "bytes \<Rightarrow> int \<Rightarrow> (bytes \<times> int) result" where
  "readLengthBytes encoded position =
     (case readVar encoded position 5 of
        Inl (Panic p) \<Rightarrow> Inl (Panic p)
      | Inl _ \<Rightarrow> Inl (Plain ''invalid byte length'')
      | Inr (len, nxt) \<Rightarrow>
          (if uint len > maxRowBytes \<or> nxt > int (length encoded)
              \<or> uint len > int (length encoded) - nxt
           then Inl (Plain ''invalid byte length'')
           else andThen (go_slice encoded nxt (nxt + uint len))
                  (\<lambda>v. Inr (v, nxt + uint len))))"

section \<open>Fixed-width reads\<close>

lemma readFixed_append [codec_rt]:
  "n = int (length v) \<Longrightarrow>
   readFixed (pre @ v @ suf) (int (length pre)) n = Inr (v, int (length pre) + n)"
  by (simp add: readFixed_def)

lemma readFixed_Inr_D:
  assumes "readFixed encoded position len = Inr (v, nxt)"
  shows "0 \<le> position" "0 \<le> len" "int (length v) = len" "nxt = position + len"
    "nxt \<le> int (length encoded)" "v = take (nat len) (drop (nat position) encoded)"
  using assms by (auto simp: readFixed_def dest: go_slice_Inr_D split: if_splits)

lemma readFixed_no_panic [simp]: "\<not> is_panic (readFixed encoded position len)"
  by (auto simp: readFixed_def)

lemma appendLittle_eq: "width \<le> 8 \<Longrightarrow> length (appendLittle dst v width) = length dst + width"
  by (simp add: appendLittle_def)

lemma take_le_bytes: "m \<le> n \<Longrightarrow> take m (le_bytes n w) = le_bytes m w"
  by (induction n arbitrary: m w) (auto simp: take_Cons split: nat.splits)

lemma nth_le_bytes: "i < n \<Longrightarrow> le_bytes n w ! i = ucast (drop_bit (8 * i) w)"
proof (induction n arbitrary: i w)
  case 0
  then show ?case by simp
next
  case (Suc n)
  then show ?case
    by (cases i) (auto simp: add.commute)
qed

lemma le_bytes_ucast:
  assumes "8 * n \<le> LENGTH('a)" and "8 * n \<le> LENGTH('b)"
  shows "le_bytes n (ucast (w :: 'a::len word) :: 'b::len word) = le_bytes n w"
proof (rule nth_equalityI)
  fix i assume "i < length (le_bytes n (ucast w :: 'b word))"
  then have i: "i < n" by simp
  have "(ucast (drop_bit (8 * i) (ucast w :: 'b word)) :: byte) = ucast (drop_bit (8 * i) w)"
    using assms i by (intro bit_word_eqI) (auto simp: bit_ucast_iff bit_drop_bit_eq)
  then show "le_bytes n (ucast w :: 'b word) ! i = le_bytes n w ! i"
    using i by (simp add: nth_le_bytes)
qed simp

lemma appendLittle_le_bytes:
  assumes "8 * n \<le> LENGTH('a)" "n \<le> 8"
  shows "appendLittle dst (ucast (w :: 'a::len word)) n = dst @ le_bytes n w"
  using assms by (simp add: appendLittle_def take_le_bytes le_bytes_ucast)

lemma appendLittle_8: "appendLittle dst w 8 = dst @ le_bytes 8 w"
  by (simp add: appendLittle_def)

section \<open>Varints\<close>

lemma appendVar64_append: "appendVar64 dst v = dst @ appendVar64 [] v"
proof (induction v arbitrary: dst rule: measure_induct_rule [of unat])
  case (less v)
  show ?case
  proof (cases "v > 0x7f")
    case True
    note IH = less [OF drop_bit7_less [OF True]]
    have "appendVar64 dst v = (dst @ [ucast v OR 0x80]) @ appendVar64 [] (drop_bit 7 v)"
      using True IH [of "dst @ [ucast v OR 0x80]"] by (simp add: appendVar64.simps [of dst v])
    moreover have "appendVar64 [] v = [ucast v OR 0x80] @ appendVar64 [] (drop_bit 7 v)"
      using True IH [of "[ucast v OR 0x80]"] by (simp add: appendVar64.simps [of "[]" v])
    ultimately show ?thesis by simp
  next
    case False
    then show ?thesis
      by (simp add: appendVar64.simps [of dst v] appendVar64.simps [of "[]" v])
  qed
qed

lemma appendVar64_more:
  "v > 0x7f \<Longrightarrow> appendVar64 [] v = (ucast v OR 0x80) # appendVar64 [] (drop_bit 7 v)"
  by (subst appendVar64.simps) (simp add: appendVar64_append [of "[_]"])

lemma appendVar64_last: "\<not> v > 0x7f \<Longrightarrow> appendVar64 [] v = [ucast v]"
  by (subst appendVar64.simps) simp

lemma appendVar64_not_Nil: "appendVar64 [] v \<noteq> []"
  by (cases "v > 0x7f") (simp_all add: appendVar64_more appendVar64_last)

text \<open>A value below \<open>2 ^ (7 k)\<close> takes at most \<open>k\<close> bytes.\<close>

lemma length_appendVar64_le:
  "unat v < 2 ^ (7 * Suc k) \<Longrightarrow> length (appendVar64 [] v) \<le> Suc k"
proof (induction k arbitrary: v)
  case 0
  then have "\<not> v > 0x7f"
    by (simp add: word_less_nat_alt not_less)
  then show ?case by (simp add: appendVar64_last)
next
  case (Suc k)
  show ?case
  proof (cases "v > 0x7f")
    case True
    have "unat v < 2 ^ (7 * Suc k) * 2 ^ 7"
      using Suc.prems by (simp add: power_add mult.assoc)
    then have "unat (drop_bit 7 v) < 2 ^ (7 * Suc k)"
      unfolding unat_drop_bit7 by (rule less_mult_imp_div_less)
    then have "length (appendVar64 [] (drop_bit 7 v)) \<le> Suc k"
      by (rule Suc.IH)
    with True show ?thesis by (simp add: appendVar64_more)
  qed (simp add: appendVar64_last)
qed

lemma length_appendVar64_10: "length (appendVar64 [] v) \<le> 10"
proof -
  have "unat v < 2 ^ 64"
    using unsigned_less [of v] by simp
  then have "unat v < 2 ^ (7 * Suc 9)"
    by (rule less_le_trans) simp
  from length_appendVar64_le [OF this] show ?thesis by simp
qed

lemma length_appendVar32_5: "length (appendVar32 [] v) \<le> 5"
proof -
  have "unat (ucast v :: 64 word) = unat v"
    by (simp add: unsigned_ucast_eq take_bit_nat_eq_self unsigned_less [THEN order.strict_trans])
  moreover have "unat v < 2 ^ 32"
    using unsigned_less [of v] by simp
  ultimately have "unat (ucast v :: 64 word) < 2 ^ (7 * Suc 4)"
    by simp
  from length_appendVar64_le [OF this] show ?thesis
    by (simp add: appendVar32_def)
qed

lemma appendVar32_append: "appendVar32 dst v = dst @ appendVar32 [] v"
  by (simp add: appendVar32_def appendVar64_append [of dst])

text \<open>The reader undoes the writer, from any accumulator and in any context.\<close>

lemma byte_and_7f: "(b :: byte) AND 0x7f = take_bit 7 b"
  by (simp add: take_bit_eq_mask mask_eq_exp_minus_1)

lemma bit_0x80: "bit (0x80 :: byte) n \<longleftrightarrow> n = 7"
proof -
  have "bit (push_bit 7 (1 :: byte)) n \<longleftrightarrow> n = 7"
    by (simp only: bit_push_bit_iff bit_1_iff) auto
  then show ?thesis by simp
qed

lemma byte_and_80: "(b :: byte) AND 0x80 = 0 \<longleftrightarrow> \<not> bit b 7"
proof
  assume "\<not> bit b 7"
  then show "b AND 0x80 = 0"
    by (intro bit_word_eqI) (simp only: bit_and_iff bit_0x80 bit_0_eq, auto)
next
  assume "b AND 0x80 = 0"
  then have "\<not> bit (b AND 0x80) 7" by simp
  then show "\<not> bit b 7" by (simp only: bit_and_iff bit_0x80) simp
qed

lemma continuation_bit: "(b OR 0x80 :: byte) AND 0x80 \<noteq> 0"
  unfolding byte_and_80 by (simp only: bit_or_iff bit_0x80) simp

lemma word_le_7f: "\<not> (v :: 64 word) > 0x7f \<longleftrightarrow> take_bit 7 v = v"
proof -
  have "take_bit 7 v = v \<longleftrightarrow> unat v < 2 ^ 7"
    by (simp add: word_eq_iff_unsigned [where 'a = nat] unsigned_take_bit_eq
        take_bit_nat_eq_self_iff)
  then show ?thesis by (auto simp: word_less_nat_alt)
qed

lemma last_bit: "take_bit 7 (v :: 64 word) = v \<Longrightarrow> (ucast v :: byte) AND 0x80 = 0"
  unfolding byte_and_80
  by (metis bit_take_bit_iff bit_ucast_iff less_irrefl)

lemma readVarLoop_appendVar64:
  assumes "length (appendVar64 [] v) \<le> n"
  shows "readVarLoop (pre @ appendVar64 [] v @ suf) (int (length pre)) acc i n
           = Inr (acc OR push_bit (7 * i) v, int (length pre + length (appendVar64 [] v)))"
  using assms
proof (induction n arbitrary: v pre acc i)
  case 0
  then show ?case by (simp add: appendVar64_not_Nil)
next
  case (Suc n)
  show ?case
  proof (cases "v > 0x7f")
    case True
    let ?b = "ucast v OR 0x80 :: byte"
    have low: "ucast (?b AND 0x7f) = take_bit 7 v"
      unfolding byte_and_7f
      by (intro bit_word_eqI)
        (simp only: bit_take_bit_iff bit_ucast_iff bit_or_iff bit_0x80, auto)
    have glue: "(acc OR push_bit (7 * i) (take_bit 7 v)) OR push_bit (7 * Suc i) (drop_bit 7 v)
                  = acc OR push_bit (7 * i) v"
    proof (rule bit_word_eqI)
      fix n
      have "7 + (n - (7 + 7 * i)) = n - 7 * i" if "\<not> n - 7 * i < 7"
        using that by simp
      moreover have "7 * Suc i \<le> n" if "\<not> n - 7 * i < 7"
        using that by simp
      ultimately show "bit ((acc OR push_bit (7 * i) (take_bit 7 v))
                   OR push_bit (7 * Suc i) (drop_bit 7 v)) n = bit (acc OR push_bit (7 * i) v) n"
        by (cases "n - 7 * i < 7") (auto simp: bit_simps)
    qed
    have "length (appendVar64 [] (drop_bit 7 v)) \<le> n"
      using Suc.prems True by (simp add: appendVar64_more)
    from Suc.IH [OF this, of "pre @ [?b]" "acc OR push_bit (7 * i) (take_bit 7 v)" "Suc i"] glue
    have "readVarLoop (pre @ ?b # appendVar64 [] (drop_bit 7 v) @ suf) (int (length pre) + 1)
            (acc OR push_bit (7 * i) (take_bit 7 v)) (Suc i) n
          = Inr (acc OR push_bit (7 * i) v,
                 int (length pre) + int (length (appendVar64 [] (drop_bit 7 v))) + 1)"
      by (simp add: add.commute)
    with True show ?thesis
      by (simp add: appendVar64_more continuation_bit low)
  next
    case False
    then have small: "take_bit 7 v = v"
      by (simp add: word_le_7f)
    have "ucast ((ucast v :: byte) AND 0x7f) = take_bit 7 v"
      unfolding byte_and_7f
      by (intro bit_word_eqI) (auto simp: bit_take_bit_iff bit_ucast_iff)
    with False small show ?thesis
      by (simp add: appendVar64_last last_bit)
  qed
qed

lemma readVar_appendVar64 [codec_rt]:
  "readVar (pre @ appendVar64 [] v @ suf) (int (length pre)) 10
     = Inr (v, int (length pre + length (appendVar64 [] v)))"
  unfolding readVar_def
  using readVarLoop_appendVar64 [OF length_appendVar64_10, of pre v suf 0 0] by simp

lemma readVar_appendVar32 [codec_rt]:
  "readVar (pre @ appendVar32 [] v @ suf) (int (length pre)) 5
     = Inr (ucast v, int (length pre + length (appendVar32 [] v)))"
  unfolding readVar_def appendVar32_def
  using readVarLoop_appendVar64 [OF length_appendVar32_5 [unfolded appendVar32_def],
      of pre v suf 0 0] by simp

lemma readVarLoop_Inr_D:
  "readVarLoop encoded position acc i n = Inr (v, nxt) \<Longrightarrow> 0 \<le> position \<Longrightarrow>
   position < nxt \<and> nxt \<le> int (length encoded) \<and> nxt \<le> position + int n"
proof (induction n arbitrary: position acc i)
  case (Suc n)
  then obtain part where part: "go_index encoded position = Inr part"
    and pos: "position < int (length encoded)"
    by (auto split: if_splits)
  show ?case
  proof (cases "part AND 0x80 = 0")
    case True
    with Suc.prems part pos show ?thesis by auto
  next
    case False
    let ?acc = "acc OR push_bit (7 * i) (ucast (part AND 0x7f))"
    have "readVarLoop encoded (position + 1) ?acc (Suc i) n = Inr (v, nxt)"
      using Suc.prems(1) False part pos by simp
    from Suc.IH [OF this] Suc.prems(2) show ?thesis by simp
  qed
qed simp

lemma readVar_Inr_D:
  assumes "readVar encoded position m = Inr (v, nxt)" "0 \<le> position"
  shows "position < nxt" "nxt \<le> int (length encoded)" "nxt \<le> position + int m"
  using readVarLoop_Inr_D [of encoded position 0 0 m v nxt] assms by (auto simp: readVar_def)

lemma readVarLoop_no_panic:
  "0 \<le> position \<Longrightarrow> \<not> is_panic (readVarLoop encoded position acc i n)"
  by (induction n arbitrary: position acc i) (simp_all add: Let_def)

lemma readVar_no_panic [simp]: "0 \<le> position \<Longrightarrow> \<not> is_panic (readVar encoded position m)"
  by (simp add: readVar_def readVarLoop_no_panic)

section \<open>Length-delimited byte strings\<close>

lemma appendLengthBytes_append:
  "appendLengthBytes dst v = andThen (appendLengthBytes [] v) (\<lambda>b. Inr (dst @ b))"
  by (simp add: appendLengthBytes_def appendVar32_append [of dst])

lemma readLengthBytes_append [codec_rt]:
  assumes "appendLengthBytes [] v = Inr b"
  shows "readLengthBytes (pre @ b @ suf) (int (length pre)) = Inr (v, int (length pre + length b))"
proof -
  let ?n = "of_nat (length v) :: 32 word"
  from assms have b: "b = appendVar32 [] ?n @ v" and max: "int (length v) \<le> maxRowBytes"
    by (auto simp: appendLengthBytes_def split: if_splits)
  have "uint ?n = int (length v)"
    using max by (simp add: maxRowBytes_def unsigned_of_nat take_bit_nat_eq_self)
  then have n: "uint (ucast ?n :: 64 word) = int (length v)"
    using max by (simp add: maxRowBytes_def unsigned_ucast_eq take_bit_int_eq_self)
  show ?thesis
    using readVar_appendVar32 [of pre ?n "v @ suf"] max n
      go_slice_append [of "int (length v)" v "pre @ appendVar32 [] ?n" suf]
    by (simp add: readLengthBytes_def b algebra_simps)
qed

lemma readLengthBytes_Inr_D:
  assumes "readLengthBytes encoded position = Inr (v, nxt)" "0 \<le> position"
  shows "position < nxt" "nxt \<le> int (length encoded)" "length v \<le> length encoded"
    "int (length v) \<le> maxRowBytes"
  using assms readVar_Inr_D [of encoded position 5]
  by (force simp: readLengthBytes_def dest: go_slice_Inr_D
      split: sum.splits go_error.splits prod.splits if_splits)+

lemma readLengthBytes_no_panic [simp]:
  assumes pos: "0 \<le> position"
  shows "\<not> is_panic (readLengthBytes encoded position)"
proof (cases "readVar encoded position 5")
  case (Inl e)
  then have "\<not> (\<exists>p. e = Panic p)"
    using readVar_no_panic [OF pos, of encoded 5] by simp
  with Inl show ?thesis
    by (cases e) (auto simp: readLengthBytes_def)
next
  case (Inr r)
  then obtain len nxt where r: "readVar encoded position 5 = Inr (len, nxt)"
    by (cases r) auto
  from readVar_Inr_D [OF r pos] pos have "0 \<le> nxt" by simp
  with r show ?thesis
    by (simp add: readLengthBytes_def)
qed

section \<open>Self-delimiting codecs\<close>

text \<open>
  A writer and a reader that undo one another in any context: the bytes written tell where they
  end. Such a codec is injective up to \<open>norm\<close>, and its values can be concatenated.
\<close>

locale self_delimiting =
  fixes put :: "'a \<Rightarrow> bytes result"
    and get :: "bytes \<Rightarrow> int \<Rightarrow> ('b \<times> int) result"
    and norm :: "'a \<Rightarrow> 'b"
    and valid :: "'a \<Rightarrow> bool"
  assumes get_put: "valid v \<Longrightarrow> put v = Inr b \<Longrightarrow>
    get (pre @ b @ suf) (int (length pre)) = Inr (norm v, int (length pre + length b))"
begin

lemma prefix_free:
  assumes "valid v" "put v = Inr a" "valid w" "put w = Inr b" "a @ x = b @ y"
  shows "norm v = norm w" "a = b" "x = y"
proof -
  have "get (a @ x) 0 = Inr (norm v, int (length a))"
    using get_put [OF assms(1,2), of "[]" x] by simp
  moreover have "get (b @ y) 0 = Inr (norm w, int (length b))"
    using get_put [OF assms(3,4), of "[]" y] by simp
  ultimately have "norm v = norm w \<and> length a = length b" using assms(5) by simp
  with assms(5) show "norm v = norm w" "a = b" "x = y" by auto
qed

lemma put_inj:
  assumes "valid v" "put v = Inr b" "valid w" "put w = Inr b"
  shows "norm v = norm w"
  using prefix_free(1) [OF assms, of "[]" "[]"] by simp

end

interpretation varint64: self_delimiting
    "\<lambda>v. Inr (appendVar64 [] v)" "\<lambda>e p. readVar e p 10" "\<lambda>v. v" "\<lambda>_. True"
  by unfold_locales (auto simp: codec_rt)

interpretation varint32: self_delimiting
    "\<lambda>v. Inr (appendVar32 [] v)" "\<lambda>e p. readVar e p 5" "\<lambda>v. ucast v" "\<lambda>_. True"
  by unfold_locales (auto simp: codec_rt)

interpretation lengthBytes: self_delimiting
    "appendLengthBytes []" readLengthBytes "\<lambda>v. v" "\<lambda>_. True"
  by unfold_locales (auto simp: codec_rt)

end
