(* ===== verification/Schema_Model.thy ===== *)
theory Schema_Model
  imports Complex_Main Go_Prelude "HOL-Library.List_Lexorder"
begin

text \<open>
  The table model: \<^verbatim>\<open>pkg/fgo/logical_type.go\<close>, the schema and row part of
  \<^verbatim>\<open>pkg/fgo/model.go\<close> and \<^verbatim>\<open>pkg/fgo/records.go\<close>. A Go value of type \<^verbatim>\<open>any\<close> is a
  \<open>go_value\<close>: the dynamic type is the constructor. Integers are words of their width (the
  signed reading is \<^const>\<open>sint\<close>), floating-point numbers are their IEEE bit patterns
  (\<^verbatim>\<open>math.Float32bits\<close> and its inverse are then the identity), a \<^verbatim>\<open>time.Time\<close> is its Unix second,
  its nanosecond and the offset of its zone, a \<^verbatim>\<open>*big.Rat\<close> is a rational. A Go map is an
  association list with distinct keys; the code only ever reads it through a sort of its keys.
\<close>

section \<open>Types and values\<close>

text \<open>\<^verbatim>\<open>type DataType string\<close> with its constants; \<open>OtherType\<close> is any other string.\<close>

datatype data_type =
    BoolType | CharType | IntType | TinyIntType | SmallIntType | BigIntType
  | FloatType | DoubleType | StringType | BinaryType | BytesType | DecimalType
  | DateType | TimeType | TimestampType | TimestampLTZType
  | ArrayType | MapType | RowType | OtherType string

text \<open>The conversion \<^verbatim>\<open>DataType(s)\<close>.\<close>

definition DataType :: "string \<Rightarrow> data_type" where
  "DataType s =
     (if s = ''BOOLEAN'' then BoolType
      else if s = ''CHAR'' then CharType
      else if s = ''INT'' then IntType
      else if s = ''TINYINT'' then TinyIntType
      else if s = ''SMALLINT'' then SmallIntType
      else if s = ''BIGINT'' then BigIntType
      else if s = ''FLOAT'' then FloatType
      else if s = ''DOUBLE'' then DoubleType
      else if s = ''STRING'' then StringType
      else if s = ''BINARY'' then BinaryType
      else if s = ''BYTES'' then BytesType
      else if s = ''DECIMAL'' then DecimalType
      else if s = ''DATE'' then DateType
      else if s = ''TIME_WITHOUT_TIME_ZONE'' then TimeType
      else if s = ''TIMESTAMP'' then TimestampType
      else if s = ''TIMESTAMP_WITH_LOCAL_TIME_ZONE'' then TimestampLTZType
      else if s = ''ARRAY'' then ArrayType
      else if s = ''MAP'' then MapType
      else if s = ''ROW'' then RowType
      else OtherType s)"

text \<open>The conversion \<^verbatim>\<open>string(t)\<close>.\<close>

fun dataTypeString :: "data_type \<Rightarrow> string" where
  "dataTypeString BoolType = ''BOOLEAN''"
| "dataTypeString CharType = ''CHAR''"
| "dataTypeString IntType = ''INT''"
| "dataTypeString TinyIntType = ''TINYINT''"
| "dataTypeString SmallIntType = ''SMALLINT''"
| "dataTypeString BigIntType = ''BIGINT''"
| "dataTypeString FloatType = ''FLOAT''"
| "dataTypeString DoubleType = ''DOUBLE''"
| "dataTypeString StringType = ''STRING''"
| "dataTypeString BinaryType = ''BINARY''"
| "dataTypeString BytesType = ''BYTES''"
| "dataTypeString DecimalType = ''DECIMAL''"
| "dataTypeString DateType = ''DATE''"
| "dataTypeString TimeType = ''TIME_WITHOUT_TIME_ZONE''"
| "dataTypeString TimestampType = ''TIMESTAMP''"
| "dataTypeString TimestampLTZType = ''TIMESTAMP_WITH_LOCAL_TIME_ZONE''"
| "dataTypeString ArrayType = ''ARRAY''"
| "dataTypeString MapType = ''MAP''"
| "dataTypeString RowType = ''ROW''"
| "dataTypeString (OtherType s) = s"

text \<open>\<^verbatim>\<open>type LogicalType struct\<close> and \<^verbatim>\<open>type LogicalField struct\<close>; a nil pointer is \<open>None\<close>.\<close>

datatype logical_type =
  LogicalType (ltRoot: string) (ltNullable: bool) (ltLength: int) (ltPrecision: int)
    (ltScale: int) (ltElement: "logical_type option") (ltKey: "logical_type option")
    (ltValue: "logical_type option") (ltFields: "logical_field list")
and logical_field =
  LogicalField (fieldName: string) (fieldType: logical_type) (fieldDescription: string)
    (fieldID: int)

record column =
  colName :: string
  colType :: data_type
  colNullable :: bool
  colLogicalType :: "logical_type option"
  colDescription :: string
  colID :: int

record schema =
  Columns :: "column list"
  PrimaryKey :: "string list"
  BucketKey :: "string list"
  PartitionKey :: "string list"
  AutoIncrement :: "string list"
  HighestFieldID :: int

record go_time =
  unixSec :: int
  nanosecond :: int
  zoneOffset :: int

datatype go_value =
    VNil
  | VBool bool
  | VInt8 "8 word"
  | VInt16 "16 word"
  | VInt32 "32 word"
  | VInt64 "64 word"
  | VFloat32 "32 word"
  | VFloat64 "64 word"
  | VString bytes
  | VBytes bytes
  | VTime go_time
  | VRat rat
  | VArray "go_value list"
  | VMap "(go_value \<times> go_value) list"
  | VStringMap "(bytes \<times> go_value) list"
  | VRow "go_value list"
  | VOther string

type_synonym row = "go_value list"

section \<open>Logical types\<close>

text \<open>\<^verbatim>\<open>strings.TrimSpace\<close> over UTF-8 bytes: the encodings of the Unicode white-space characters.\<close>

definition spaceRunes :: "string list" where
  "spaceRunes =
     [[CHR 0x09], [CHR 0x0A], [CHR 0x0B], [CHR 0x0C], [CHR 0x0D], [CHR 0x20],
      [CHR 0xC2, CHR 0x85], [CHR 0xC2, CHR 0xA0], [CHR 0xE1, CHR 0x9A, CHR 0x80],
      [CHR 0xE2, CHR 0x80, CHR 0x80], [CHR 0xE2, CHR 0x80, CHR 0x81],
      [CHR 0xE2, CHR 0x80, CHR 0x82], [CHR 0xE2, CHR 0x80, CHR 0x83],
      [CHR 0xE2, CHR 0x80, CHR 0x84], [CHR 0xE2, CHR 0x80, CHR 0x85],
      [CHR 0xE2, CHR 0x80, CHR 0x86], [CHR 0xE2, CHR 0x80, CHR 0x87],
      [CHR 0xE2, CHR 0x80, CHR 0x88], [CHR 0xE2, CHR 0x80, CHR 0x89],
      [CHR 0xE2, CHR 0x80, CHR 0x8A], [CHR 0xE2, CHR 0x80, CHR 0xA8],
      [CHR 0xE2, CHR 0x80, CHR 0xA9], [CHR 0xE2, CHR 0x80, CHR 0xAF],
      [CHR 0xE2, CHR 0x81, CHR 0x9F], [CHR 0xE3, CHR 0x80, CHR 0x80]]"

definition hasPrefix :: "string \<Rightarrow> string \<Rightarrow> bool" where
  "hasPrefix s p \<longleftrightarrow> take (length p) s = p"

function trimLeft :: "string list \<Rightarrow> string \<Rightarrow> string" where
  "trimLeft runes s =
     (case find (\<lambda>p. p \<noteq> [] \<and> hasPrefix s p) runes of
        None \<Rightarrow> s
      | Some p \<Rightarrow> trimLeft runes (drop (length p) s))"
  by pat_completeness auto
termination
proof (relation "measure (\<lambda>(runes, s). length s)")
  fix runes s p
  assume "find (\<lambda>p. p \<noteq> [] \<and> hasPrefix s p) runes = Some p"
  then have "p \<noteq> []" and "hasPrefix s p"
    by (auto simp: find_Some_iff)
  moreover from this have "s \<noteq> []"
    by (auto simp: hasPrefix_def)
  ultimately show "((runes, drop (length p) s), (runes, s)) \<in> measure (\<lambda>(runes, s). length s)"
    by simp
qed simp

declare trimLeft.simps [simp del]

definition TrimSpace :: "string \<Rightarrow> string" where
  "TrimSpace s = rev (trimLeft (map rev spaceRunes) (rev (trimLeft spaceRunes s)))"

definition dataTypeForLogicalType :: "logical_type \<Rightarrow> data_type" where
  "dataTypeForLogicalType lt =
     (if ltRoot lt = ''INTEGER'' then IntType
      else if ltRoot lt = ''TIMESTAMP_WITHOUT_TIME_ZONE'' then TimestampType
      else DataType (ltRoot lt))"

definition logicalRoot :: "data_type \<Rightarrow> string" where
  "logicalRoot t = (case t of IntType \<Rightarrow> ''INTEGER''
     | TimestampType \<Rightarrow> ''TIMESTAMP_WITHOUT_TIME_ZONE'' | _ \<Rightarrow> dataTypeString t)"

definition logicalTypeForColumn :: "column \<Rightarrow> logical_type" where
  "logicalTypeForColumn c =
     (case colLogicalType c of Some lt \<Rightarrow> lt
      | None \<Rightarrow> LogicalType (logicalRoot (colType c)) (colNullable c) 0 0 0 None None None [])"

definition DataType_Validate :: "data_type \<Rightarrow> unit result" where
  "DataType_Validate t = (case t of OtherType s \<Rightarrow> Inl ErrInvalidSchema | _ \<Rightarrow> Inr ())"

definition validateLength :: "logical_type \<Rightarrow> unit result" where
  "validateLength t = (if ltLength t < 1 then Inl ErrInvalidSchema else Inr ())"

definition validateDecimal :: "logical_type \<Rightarrow> unit result" where
  "validateDecimal t =
     (if ltPrecision t < 1 \<or> ltPrecision t > 38 \<or> ltScale t < 0 \<or> ltScale t > ltPrecision t
      then Inl ErrInvalidSchema else Inr ())"

definition validateTemporal :: "logical_type \<Rightarrow> unit result" where
  "validateTemporal t =
     (if ltPrecision t < 0 \<or> ltPrecision t > 9 then Inl ErrInvalidSchema else Inr ())"

lemma size_ltElement: "ltElement t = Some e \<Longrightarrow> size e < size t"
  by (cases t) auto

lemma size_ltKey: "ltKey t = Some e \<Longrightarrow> size e < size t"
  by (cases t) auto

lemma size_ltValue: "ltValue t = Some e \<Longrightarrow> size e < size t"
  by (cases t) auto

lemma size_ltFields: "size_list size (ltFields t) < size t"
  by (cases t) auto

lemma size_fieldType: "size (fieldType f) < size f"
  by (cases f) auto

lemma size_field_in: "f \<in> set fs \<Longrightarrow> size (fieldType f) < size_list size fs"
  using size_list_estimation' [of f fs "size f" size] size_fieldType [of f] by force

lemma size_field_type: "f \<in> set (ltFields t) \<Longrightarrow> size (fieldType f) < size t"
  using size_field_in [of f "ltFields t"] size_ltFields [of t] by linarith

lemmas lt_size = size_ltElement size_ltKey size_ltValue size_field_type

text \<open>Termination: a helper gets the same type as its caller, so the caller weighs one more.\<close>

lemma weigh_fields: "Suc (2 * size_list size (ltFields t)) < 2 * size t"
  using size_ltFields [of t] by linarith
lemma weigh_field: "2 * size (fieldType f) \<le> Suc (2 * size f + n)"
  using size_fieldType [of f] by linarith

function LogicalType_Validate :: "logical_type \<Rightarrow> unit result"
  and validateArray :: "logical_type \<Rightarrow> unit result"
  and validateMap :: "logical_type \<Rightarrow> unit result"
  and validateRow :: "logical_type \<Rightarrow> unit result"
  and validateFields :: "logical_field list \<Rightarrow> unit result" where
  "LogicalType_Validate t =
     (if ltRoot t \<in> set [''BOOLEAN'', ''TINYINT'', ''SMALLINT'', ''INTEGER'', ''BIGINT'',
           ''FLOAT'', ''DOUBLE'', ''DATE'', ''STRING'', ''BYTES''] then Inr ()
      else if ltRoot t \<in> set [''CHAR'', ''BINARY''] then validateLength t
      else if ltRoot t = ''DECIMAL'' then validateDecimal t
      else if ltRoot t \<in> set [''TIME_WITHOUT_TIME_ZONE'', ''TIMESTAMP_WITHOUT_TIME_ZONE'',
           ''TIMESTAMP_WITH_LOCAL_TIME_ZONE''] then validateTemporal t
      else if ltRoot t = ''ARRAY'' then validateArray t
      else if ltRoot t = ''MAP'' then validateMap t
      else if ltRoot t = ''ROW'' then validateRow t
      else Inl ErrInvalidSchema)"
| "validateArray t =
     (case ltElement t of None \<Rightarrow> Inl ErrInvalidSchema | Some e \<Rightarrow> LogicalType_Validate e)"
| "validateMap t =
     (case ltKey t of None \<Rightarrow> Inl ErrInvalidSchema
      | Some k \<Rightarrow> (case ltValue t of None \<Rightarrow> Inl ErrInvalidSchema
         | Some v \<Rightarrow> andThen (LogicalType_Validate k) (\<lambda>_. LogicalType_Validate v)))"
| "validateRow t =
     (if ltFields t = [] then Inl ErrInvalidSchema else validateFields (ltFields t))"
| "validateFields [] = Inr ()"
| "validateFields (f # fs) =
     (if fieldName f = [] then Inl ErrInvalidSchema
      else andThen (LogicalType_Validate (fieldType f)) (\<lambda>_. validateFields fs))"
  by pat_completeness auto
termination
  by (relation "measure (\<lambda>s. case s of Inl (Inl t) \<Rightarrow> 2 * size t + 1 | Inl (Inr t) \<Rightarrow> 2 * size t
      | Inr (Inl t) \<Rightarrow> 2 * size t | Inr (Inr (Inl t)) \<Rightarrow> 2 * size t
      | Inr (Inr (Inr fs)) \<Rightarrow> 2 * size_list size fs + 1)")
    (auto dest: size_ltElement size_ltKey size_ltValue
      simp: weigh_fields weigh_field less_Suc_eq_le)

declare LogicalType_Validate.simps [simp del] validateArray.simps [simp del]
  validateMap.simps [simp del] validateRow.simps [simp del]

section \<open>Schemas\<close>

text \<open>The loop of \<^verbatim>\<open>validateColumns\<close>: names are present, trimmed and unique, types are valid. The
  result is the map from names to columns.\<close>

fun validateColumnsLoop :: "(string \<rightharpoonup> column) \<Rightarrow> column list \<Rightarrow> (string \<rightharpoonup> column) result" where
  "validateColumnsLoop columns [] = Inr columns"
| "validateColumnsLoop columns (c # cs) =
     guardE (colName c = [] \<or> TrimSpace (colName c) \<noteq> colName c) ErrInvalidSchema
       (guardE (columns (colName c) \<noteq> None) ErrInvalidSchema
         (andThen (case colLogicalType c of Some lt \<Rightarrow> LogicalType_Validate lt
                   | None \<Rightarrow> DataType_Validate (colType c))
            (\<lambda>_. validateColumnsLoop (columns(colName c \<mapsto> c)) cs)))"

definition validateColumns :: "schema \<Rightarrow> (string \<rightharpoonup> column) result" where
  "validateColumns s = validateColumnsLoop Map.empty (Columns s)"

definition validateSchemaKeys :: "(string \<rightharpoonup> column) \<Rightarrow> string list \<Rightarrow> unit result" where
  "validateSchemaKeys columns keys =
     (if \<exists>key \<in> set keys. columns key = None then Inl ErrInvalidSchema else Inr ())"

definition Schema_Validate :: "schema \<Rightarrow> unit result" where
  "Schema_Validate s =
     guardE (Columns s = []) ErrInvalidSchema
       (andThen (validateColumns s) (\<lambda>columns.
          andThen (validateSchemaKeys columns (PrimaryKey s)) (\<lambda>_.
          andThen (validateSchemaKeys columns (BucketKey s)) (\<lambda>_.
          validateSchemaKeys columns (PartitionKey s)))))"

definition selectedColumns :: "schema \<Rightarrow> string list \<Rightarrow> string list" where
  "selectedColumns s columns = (if columns \<noteq> [] then columns else map colName (Columns s))"

text \<open>\<^verbatim>\<open>columnsByName\<close>: a later column of the same name wins.\<close>

definition columnsByName :: "schema \<Rightarrow> string \<rightharpoonup> column" where
  "columnsByName s = map_of (rev (map (\<lambda>c. (colName c, c)) (Columns s)))"

section \<open>Rows\<close>

definition mapEntries :: "go_value \<Rightarrow> (go_value \<times> go_value) list option" where
  "mapEntries v = (case v of
       VMap es \<Rightarrow> Some es
     | VStringMap kvs \<Rightarrow>
         Some (map (\<lambda>k. (VString k, (case map_of kvs k of Some x \<Rightarrow> x | None \<Rightarrow> VNil)))
                   (sort (map fst kvs)))
     | _ \<Rightarrow> None)"

text \<open>Type assertions \<^verbatim>\<open>value.(T)\<close>: a panic when the dynamic type is another.\<close>

definition asBool :: "go_value \<Rightarrow> (bool) result" where
  "asBool v = (case v of VBool x \<Rightarrow> Inr x | _ \<Rightarrow> Inl (Panic ''interface conversion''))"

definition asInt8 :: "go_value \<Rightarrow> (8 word) result" where
  "asInt8 v = (case v of VInt8 x \<Rightarrow> Inr x | _ \<Rightarrow> Inl (Panic ''interface conversion''))"

definition asInt16 :: "go_value \<Rightarrow> (16 word) result" where
  "asInt16 v = (case v of VInt16 x \<Rightarrow> Inr x | _ \<Rightarrow> Inl (Panic ''interface conversion''))"

definition asInt32 :: "go_value \<Rightarrow> (32 word) result" where
  "asInt32 v = (case v of VInt32 x \<Rightarrow> Inr x | _ \<Rightarrow> Inl (Panic ''interface conversion''))"

definition asInt64 :: "go_value \<Rightarrow> (64 word) result" where
  "asInt64 v = (case v of VInt64 x \<Rightarrow> Inr x | _ \<Rightarrow> Inl (Panic ''interface conversion''))"

definition asFloat32 :: "go_value \<Rightarrow> (32 word) result" where
  "asFloat32 v = (case v of VFloat32 x \<Rightarrow> Inr x | _ \<Rightarrow> Inl (Panic ''interface conversion''))"

definition asFloat64 :: "go_value \<Rightarrow> (64 word) result" where
  "asFloat64 v = (case v of VFloat64 x \<Rightarrow> Inr x | _ \<Rightarrow> Inl (Panic ''interface conversion''))"

definition asString :: "go_value \<Rightarrow> (bytes) result" where
  "asString v = (case v of VString x \<Rightarrow> Inr x | _ \<Rightarrow> Inl (Panic ''interface conversion''))"

definition asBytes :: "go_value \<Rightarrow> (bytes) result" where
  "asBytes v = (case v of VBytes x \<Rightarrow> Inr x | _ \<Rightarrow> Inl (Panic ''interface conversion''))"

definition asTime :: "go_value \<Rightarrow> (go_time) result" where
  "asTime v = (case v of VTime x \<Rightarrow> Inr x | _ \<Rightarrow> Inl (Panic ''interface conversion''))"

definition asRat :: "go_value \<Rightarrow> (rat) result" where
  "asRat v = (case v of VRat x \<Rightarrow> Inr x | _ \<Rightarrow> Inl (Panic ''interface conversion''))"

definition asArray :: "go_value \<Rightarrow> (go_value list) result" where
  "asArray v = (case v of VArray x \<Rightarrow> Inr x | _ \<Rightarrow> Inl (Panic ''interface conversion''))"

definition asRow :: "go_value \<Rightarrow> (go_value list) result" where
  "asRow v = (case v of VRow x \<Rightarrow> Inr x | _ \<Rightarrow> Inl (Panic ''interface conversion''))"

lemmas assert_defs = asBool_def asInt8_def asInt16_def asInt32_def asInt64_def asFloat32_def asFloat64_def asString_def asBytes_def asTime_def asRat_def asArray_def asRow_def

lemma assert_Inr_iff [simp]:
  "asBool v = Inr x0 \<longleftrightarrow> v = VBool x0"
  "asInt8 v = Inr x1 \<longleftrightarrow> v = VInt8 x1"
  "asInt16 v = Inr x2 \<longleftrightarrow> v = VInt16 x2"
  "asInt32 v = Inr x3 \<longleftrightarrow> v = VInt32 x3"
  "asInt64 v = Inr x4 \<longleftrightarrow> v = VInt64 x4"
  "asFloat32 v = Inr x5 \<longleftrightarrow> v = VFloat32 x5"
  "asFloat64 v = Inr x6 \<longleftrightarrow> v = VFloat64 x6"
  "asString v = Inr x7 \<longleftrightarrow> v = VString x7"
  "asBytes v = Inr x8 \<longleftrightarrow> v = VBytes x8"
  "asTime v = Inr x9 \<longleftrightarrow> v = VTime x9"
  "asRat v = Inr x10 \<longleftrightarrow> v = VRat x10"
  "asArray v = Inr x11 \<longleftrightarrow> v = VArray x11"
  "asRow v = Inr x12 \<longleftrightarrow> v = VRow x12"
  by (auto simp: assert_defs split: go_value.splits)

definition validUntypedValue :: "data_type \<Rightarrow> go_value \<Rightarrow> bool" where
  "validUntypedValue kind value = (case kind of
       BoolType \<Rightarrow> is_ok (asBool value)
     | IntType \<Rightarrow> is_ok (asInt32 value)
     | TinyIntType \<Rightarrow> is_ok (asInt8 value)
     | SmallIntType \<Rightarrow> is_ok (asInt16 value)
     | BigIntType \<Rightarrow> is_ok (asInt64 value)
     | FloatType \<Rightarrow> is_ok (asFloat32 value)
     | DoubleType \<Rightarrow> is_ok (asFloat64 value)
     | StringType \<Rightarrow> is_ok (asString value)
     | CharType \<Rightarrow> is_ok (asString value)
     | BinaryType \<Rightarrow> is_ok (asBytes value)
     | BytesType \<Rightarrow> is_ok (asBytes value)
     | DecimalType \<Rightarrow> is_ok (asRat value)
     | DateType \<Rightarrow> is_ok (asTime value)
     | TimeType \<Rightarrow> is_ok (asTime value)
     | TimestampType \<Rightarrow> is_ok (asTime value)
     | TimestampLTZType \<Rightarrow> is_ok (asTime value)
     | ArrayType \<Rightarrow> is_ok (asArray value)
     | MapType \<Rightarrow> mapEntries value \<noteq> None
     | RowType \<Rightarrow> is_ok (asRow value)
     | OtherType _ \<Rightarrow> False)"

definition optSize :: "logical_type option \<Rightarrow> nat" where
  "optSize x = (case x of None \<Rightarrow> 0 | Some t \<Rightarrow> Suc (size t))"

lemma optSize_simps [simp]: "optSize None = 0" "optSize (Some t) = Suc (size t)"
  by (simp_all add: optSize_def)

lemma optSize_le:
  "optSize (ltElement t) \<le> size t" "optSize (ltKey t) \<le> size t" "optSize (ltValue t) \<le> size t"
  by (cases t; auto simp: optSize_def split: option.splits)+

lemma weigh_helpers:
  "2 * optSize (ltElement t) < Suc (2 * size t)"
  "2 * max (optSize (ltKey t)) (optSize (ltValue t)) < Suc (2 * size t)"
  "2 * size_list size (ltFields t) < Suc (2 * size t)"
  "(f, x) \<in> set (zip fs r) \<Longrightarrow> Suc (2 * size (fieldType f)) < 2 * size_list size fs"
  using optSize_le [of t] size_ltFields [of t] size_field_in [of f fs]
  by (auto dest: set_zip_leftD)

function validLogicalValue :: "logical_type \<Rightarrow> go_value \<Rightarrow> bool"
  and validLogicalArray :: "logical_type option \<Rightarrow> go_value \<Rightarrow> bool"
  and validLogicalMap :: "logical_type option \<Rightarrow> logical_type option \<Rightarrow> go_value \<Rightarrow> bool"
  and validLogicalRow :: "logical_field list \<Rightarrow> go_value \<Rightarrow> bool" where
  "validLogicalValue lt value =
     (if value = VNil then ltNullable lt
      else case dataTypeForLogicalType lt of
        ArrayType \<Rightarrow> validLogicalArray (ltElement lt) value
      | MapType \<Rightarrow> validLogicalMap (ltKey lt) (ltValue lt) value
      | RowType \<Rightarrow> validLogicalRow (ltFields lt) value
      | kind \<Rightarrow> validUntypedValue kind value)"
| "validLogicalArray elementType value =
     (case value of
        VArray vs \<Rightarrow> (case elementType of None \<Rightarrow> False
           | Some e \<Rightarrow> list_all (validLogicalValue e) vs)
      | _ \<Rightarrow> False)"
| "validLogicalMap keyType valueType value =
     (case keyType of None \<Rightarrow> False
      | Some k \<Rightarrow> (case valueType of None \<Rightarrow> False
         | Some v \<Rightarrow> (case mapEntries value of None \<Rightarrow> False
            | Some es \<Rightarrow> list_all (\<lambda>(x, y). validLogicalValue k x \<and> validLogicalValue v y) es)))"
| "validLogicalRow fs value =
     (case value of
        VRow r \<Rightarrow> length r = length fs
          \<and> list_all (\<lambda>(f, x). validLogicalValue (fieldType f) x) (zip fs r)
      | _ \<Rightarrow> False)"
  by pat_completeness auto
termination
  by (relation "measure (\<lambda>s. case s of Inl (Inl (lt, v)) \<Rightarrow> 2 * size lt + 1
      | Inl (Inr (e, v)) \<Rightarrow> 2 * optSize e
      | Inr (Inl (k, e, v)) \<Rightarrow> 2 * max (optSize k) (optSize e)
      | Inr (Inr (fs, v)) \<Rightarrow> 2 * size_list size fs)") (auto simp: weigh_helpers)

declare validLogicalValue.simps [simp del] validLogicalArray.simps [simp del]
  validLogicalMap.simps [simp del] validLogicalRow.simps [simp del]

definition validateColumnValue :: "column \<Rightarrow> go_value \<Rightarrow> unit result" where
  "validateColumnValue c value =
     (if value = VNil then (if colNullable c then Inr () else Inl ErrInvalidRow)
      else if colLogicalType c = None \<and> validUntypedValue (colType c) value then Inr ()
      else if (case colLogicalType c of Some lt \<Rightarrow> validLogicalValue lt value | None \<Rightarrow> False)
        then Inr ()
      else Inl ErrInvalidRow)"

text \<open>The loop of \<^verbatim>\<open>ValidateRow\<close>; the lengths agree when it starts.\<close>

fun validateRowLoop :: "(string \<rightharpoonup> column) \<Rightarrow> string list \<Rightarrow> row \<Rightarrow> unit result" where
  "validateRowLoop byName [] row = Inr ()"
| "validateRowLoop byName (name # names) [] = Inl (Panic ''index out of range'')"
| "validateRowLoop byName (name # names) (v # row) =
     (case byName name of None \<Rightarrow> Inl ErrInvalidRow
      | Some c \<Rightarrow> andThen (validateColumnValue c v) (\<lambda>_. validateRowLoop byName names row))"

definition ValidateRow :: "schema \<Rightarrow> row \<Rightarrow> string list \<Rightarrow> unit result" where
  "ValidateRow s row columns =
     andThen (Schema_Validate s) (\<lambda>_.
       guardE (length row \<noteq> length (selectedColumns s columns)) ErrInvalidRow
         (validateRowLoop (columnsByName s) (selectedColumns s columns) row))"

definition ValidatePrimaryKey :: "schema \<Rightarrow> row \<Rightarrow> unit result" where
  "ValidatePrimaryKey s key = ValidateRow s key (PrimaryKey s)"

text \<open>\<^verbatim>\<open>RowFromNamed\<close>: the values of a named row in column order. A \<^verbatim>\<open>NamedRow\<close> is a Go map, an
  association list with distinct keys.\<close>

fun namedValues :: "(string \<times> go_value) list \<Rightarrow> column list \<Rightarrow> row result" where
  "namedValues named [] = Inr []"
| "namedValues named (c # cs) =
     (case map_of named (colName c) of None \<Rightarrow> Inl ErrInvalidRow
      | Some v \<Rightarrow> andThen (namedValues named cs) (\<lambda>vs. Inr (v # vs)))"

definition RowFromNamed :: "schema \<Rightarrow> (string \<times> go_value) list \<Rightarrow> row result" where
  "RowFromNamed s named =
     andThen (Schema_Validate s) (\<lambda>_.
       guardE (length named \<noteq> length (Columns s)) ErrInvalidRow
         (andThen (namedValues named (Columns s)) (\<lambda>values.
            andThen (ValidateRow s values []) (\<lambda>_. Inr values))))"

section \<open>Records\<close>

text \<open>\<^verbatim>\<open>type ChangeType int8\<close>: any eight-bit value; the constants are 0 to 4.\<close>

type_synonym change_type = "8 word"

definition Append :: change_type where "Append = 0"
definition Insert :: change_type where "Insert = 1"
definition UpdateBefore :: change_type where "UpdateBefore = 2"
definition UpdateAfter :: change_type where "UpdateAfter = 3"
definition Delete :: change_type where "Delete = 4"

lemmas change_type_defs = Append_def Insert_def UpdateBefore_def UpdateAfter_def Delete_def

definition ChangeType_Validate :: "change_type \<Rightarrow> unit result" where
  "ChangeType_Validate c =
     (if sint c < sint Append \<or> sint c > sint Delete then Inl ErrInvalidRow else Inr ())"

record go_record =
  recKey :: row
  recValue :: row
  recChange :: change_type
  recTimestamp :: go_time
  recOffset :: "64 word"

definition Record_Validate :: "schema \<Rightarrow> go_record \<Rightarrow> unit result" where
  "Record_Validate s r =
     andThen (ChangeType_Validate (recChange r)) (\<lambda>_.
       guardE (sint (recOffset r) < -1) ErrInvalidRow
         (andThen (ValidatePrimaryKey s (recKey r)) (\<lambda>_.
            if recChange r \<noteq> Delete then ValidateRow s (recValue r) [] else Inr ())))"

section \<open>Validated schemas and rows\<close>

lemma validateColumnsLoop_Inr_D:
  assumes "validateColumnsLoop m cs = Inr m'"
  shows "distinct (map colName cs) \<and> (\<forall>c \<in> set cs. m (colName c) = None)
    \<and> m' = m ++ map_of (rev (map (\<lambda>c. (colName c, c)) cs))
    \<and> (\<forall>c \<in> set cs. (case colLogicalType c of Some lt \<Rightarrow> LogicalType_Validate lt
                   | None \<Rightarrow> DataType_Validate (colType c)) = Inr ())"
  using assms
proof (induction cs arbitrary: m)
  case (Cons c cs)
  from Cons.prems have none: "m (colName c) = None"
    and lt: "(case colLogicalType c of Some lt \<Rightarrow> LogicalType_Validate lt
                   | None \<Rightarrow> DataType_Validate (colType c)) = Inr ()"
    and rest: "validateColumnsLoop (m(colName c \<mapsto> c)) cs = Inr m'"
    by auto
  note IH = Cons.IH [OF rest]
  then have new: "colName c \<notin> colName ` set cs"
    by (metis (no_types, lifting) fun_upd_same image_iff option.distinct(1))
  moreover have "\<forall>x \<in> set cs. m (colName x) = None"
    using IH new by (metis fun_upd_other image_eqI)
  moreover have "m(colName c \<mapsto> c) ++ map_of (rev (map (\<lambda>c. (colName c, c)) cs))
      = m ++ map_of (rev (map (\<lambda>c. (colName c, c)) (c # cs)))"
    by (simp add: map_of_append map_add_assoc [symmetric]) 
  ultimately show ?case
    using IH none lt by (auto simp: fun_upd_def)
qed simp

lemma Schema_Validate_Inr_D:
  assumes "Schema_Validate s = Inr ()"
  shows "distinct (map colName (Columns s))" "Columns s \<noteq> []"
    "\<forall>name \<in> set (PrimaryKey s) \<union> set (BucketKey s) \<union> set (PartitionKey s).
       columnsByName s name \<noteq> None"
    "\<forall>c \<in> set (Columns s). (case colLogicalType c of Some lt \<Rightarrow> LogicalType_Validate lt
       | None \<Rightarrow> DataType_Validate (colType c)) = Inr ()"
proof -
  from assms obtain m where m: "validateColumnsLoop Map.empty (Columns s) = Inr m"
    and keys: "validateSchemaKeys m (PrimaryKey s) = Inr ()"
      "validateSchemaKeys m (BucketKey s) = Inr ()" "validateSchemaKeys m (PartitionKey s) = Inr ()"
    and "Columns s \<noteq> []"
    by (auto simp: Schema_Validate_def validateColumns_def)
  note D = validateColumnsLoop_Inr_D [OF m]
  show "distinct (map colName (Columns s))" using D by blast
  show "Columns s \<noteq> []" by fact
  have "m = columnsByName s" using D by (simp add: columnsByName_def)
  with keys show "\<forall>name \<in> set (PrimaryKey s) \<union> set (BucketKey s) \<union> set (PartitionKey s).
       columnsByName s name \<noteq> None"
    by (auto simp: validateSchemaKeys_def split: if_splits)
  show "\<forall>c \<in> set (Columns s). (case colLogicalType c of Some lt \<Rightarrow> LogicalType_Validate lt
       | None \<Rightarrow> DataType_Validate (colType c)) = Inr ()"
    using D by blast
qed

lemma columnsByName_Some:
  assumes "distinct (map colName (Columns s))" "c \<in> set (Columns s)"
  shows "columnsByName s (colName c) = Some c"
  using assms by (auto simp: columnsByName_def map_of_eq_Some_iff comp_def rev_map [symmetric])

lemma validateRowLoop_Inr_D:
  "validateRowLoop m names row = Inr () \<Longrightarrow> length row = length names \<Longrightarrow>
   list_all2 (\<lambda>name v. \<exists>c. m name = Some c \<and> validateColumnValue c v = Inr ()) names row"
  by (induction m names row rule: validateRowLoop.induct) (auto split: option.splits)

lemma ValidateRow_Inr_D:
  assumes "ValidateRow s row [] = Inr ()"
  shows "Schema_Validate s = Inr ()"
    "list_all2 (\<lambda>c v. validateColumnValue c v = Inr ()) (Columns s) row"
proof -
  show val: "Schema_Validate s = Inr ()" using assms by (auto simp: ValidateRow_def)
  have "list_all2 (\<lambda>name v. \<exists>c. columnsByName s name = Some c \<and> validateColumnValue c v = Inr ())
          (map colName (Columns s)) row"
    using assms by (intro validateRowLoop_Inr_D) (auto simp: ValidateRow_def selectedColumns_def)
  then show "list_all2 (\<lambda>c v. validateColumnValue c v = Inr ()) (Columns s) row"
    using columnsByName_Some [OF Schema_Validate_Inr_D(1) [OF val]]
    by (auto simp: list_all2_conv_all_nth)
qed

end
