(* ===== verification/Value_Codec.thy ===== *)
theory Value_Codec
  imports Byte_Codec Schema_Model "HOL-Library.Signed_Division"
begin

text \<open>
  The leaves of the row codec, the lower half of \<^verbatim>\<open>pkg/fgo/row_value_codec.go\<close>: dates, times and
  timestamps, exact decimals, minimal two's-complement byte strings, and the widths of the indexed
  layout. Go's integer division truncates: \<open>sdiv\<close> and \<open>smod\<close>. The civil date
  \<^verbatim>\<open>(year, month, day)\<close> of a time is represented by its day number since 1970-01-01 in the zone of
  the time, which the proleptic Gregorian calendar of \<^verbatim>\<open>time.Date\<close> puts in bijection with it.
\<close>

section \<open>Times\<close>

definition millisPerDay :: int where
  "millisPerDay = 86400000"

text \<open>\<^verbatim>\<open>time.Unix(sec, nsec).UTC()\<close>: the nanoseconds are normalised into one second.\<close>

definition timeUnix :: "int \<Rightarrow> int \<Rightarrow> go_time" where
  "timeUnix sec nsec =
     \<lparr>unixSec = sec + nsec div 1000000000, nanosecond = nsec mod 1000000000, zoneOffset = 0\<rparr>"

definition wallSec :: "go_time \<Rightarrow> int" where
  "wallSec t = unixSec t + zoneOffset t"

text \<open>\<^verbatim>\<open>value.Date()\<close> as a day number, and the fields of \<^verbatim>\<open>value.Clock()\<close>.\<close>

definition civilDay :: "go_time \<Rightarrow> int" where
  "civilDay t = wallSec t div 86400"

definition Hour :: "go_time \<Rightarrow> int" where
  "Hour t = (wallSec t mod 86400) div 3600"

definition Minute :: "go_time \<Rightarrow> int" where
  "Minute t = (wallSec t mod 3600) div 60"

definition Second :: "go_time \<Rightarrow> int" where
  "Second t = wallSec t mod 60"

text \<open>\<^verbatim>\<open>time.Date(year, month, day, 0, 0, 0, 0, time.UTC).Unix()\<close>.\<close>

definition midnightUnix :: "int \<Rightarrow> int" where
  "midnightUnix day = day * 86400"

definition nanoOfDay :: "go_time \<Rightarrow> int" where
  "nanoOfDay t = Hour t * 3600000000000 + Minute t * 60000000000 + Second t * 1000000000
     + nanosecond t"

definition temporalInt :: "data_type \<Rightarrow> go_time \<Rightarrow> 32 word" where
  "temporalInt kind t =
     (if kind = DateType then word_of_int (midnightUnix (civilDay t) sdiv 86400)
      else word_of_int (nanoOfDay t sdiv 1000000))"

definition temporalTime :: "data_type \<Rightarrow> 32 word \<Rightarrow> go_time" where
  "temporalTime kind v =
     (if kind = DateType then timeUnix (sint v * 86400) 0
      else timeUnix 0 (sint v * 1000000))"

definition timestampParts :: "data_type \<Rightarrow> go_time \<Rightarrow> 64 word \<times> 32 word" where
  "timestampParts kind t =
     (if kind = TimestampLTZType
      then (word_of_int (unixSec t * 1000 + nanosecond t sdiv 1000000),
            word_of_int (nanosecond t smod 1000000))
      else (word_of_int (midnightUnix (civilDay t) sdiv 86400 * millisPerDay
              + nanoOfDay t sdiv 1000000),
            word_of_int (nanoOfDay t smod 1000000)))"

definition timestampTime :: "data_type \<Rightarrow> 64 word \<Rightarrow> 32 word \<Rightarrow> go_time" where
  "timestampTime kind millis nanos =
     (if kind = TimestampLTZType
      then timeUnix (sint millis sdiv 1000) (sint millis smod 1000 * 1000000 + sint nanos)
      else
        (let days = sint millis sdiv millisPerDay; withinDay = sint millis smod millisPerDay;
             days' = (if withinDay < 0 then days - 1 else days);
             withinDay' = (if withinDay < 0 then withinDay + millisPerDay else withinDay)
         in timeUnix (days' * 86400) (withinDay' * 1000000 + sint nanos)))"

section \<open>Decimals\<close>

text \<open>The length of \<^verbatim>\<open>(*big.Int).String()\<close> of a natural number.\<close>

fun decimalDigits :: "nat \<Rightarrow> nat" where
  "decimalDigits n = (if n < 10 then 1 else Suc (decimalDigits (n div 10)))"

declare decimalDigits.simps [simp del]

definition decimalUnscaled :: "rat \<Rightarrow> logical_type \<Rightarrow> int result" where
  "decimalUnscaled v lt =
     guardE (ltPrecision lt < 1 \<or> ltScale lt < 0) ErrInvalidSchema
       (let scaled = v * of_int (10 ^ nat (ltScale lt)) in
        guardE (snd (quotient_of scaled) \<noteq> 1) (Plain ''decimal has more fractional digits than its scale'')
          (let unscaled = fst (quotient_of scaled) in
           guardE (int (decimalDigits (nat \<bar>unscaled\<bar>)) > ltPrecision lt)
             (Plain ''decimal exceeds declared precision'') (Inr unscaled)))"

definition scaledRat :: "int \<Rightarrow> int \<Rightarrow> rat" where
  "scaledRat unscaled scale = of_int unscaled / of_int (10 ^ nat scale)"

text \<open>\<^verbatim>\<open>(*big.Int).Bytes()\<close>, \<^verbatim>\<open>SetBytes\<close> and \<^verbatim>\<open>BitLen\<close> of a non-negative number.\<close>

function natBytes :: "nat \<Rightarrow> bytes" where
  "natBytes n = (if n = 0 then [] else natBytes (n div 256) @ [of_nat (n mod 256)])"
  by pat_completeness auto
termination
  by (relation "measure id") auto

declare natBytes.simps [simp del]

definition bytesNat :: "bytes \<Rightarrow> nat" where
  "bytesNat bs = foldl (\<lambda>n b. n * 256 + unat b) 0 bs"

function bitLen :: "nat \<Rightarrow> nat" where
  "bitLen n = (if n = 0 then 0 else Suc (bitLen (n div 2)))"
  by pat_completeness auto
termination
  by (relation "measure id") auto

declare bitLen.simps [simp del]

definition signedBigEndian :: "int \<Rightarrow> bytes" where
  "signedBigEndian v =
     (if v \<ge> 0 then
        (case natBytes (nat v) of
           [] \<Rightarrow> [0]
         | b # bs \<Rightarrow> (if b AND 0x80 \<noteq> 0 then 0 # b # bs else b # bs))
      else
        (let width = (bitLen (nat \<bar>v\<bar>) + 8) div 8;
             bs = natBytes (nat (2 ^ (width * 8) + v));
             bs' = (if length bs < width then replicate (width - length bs) 0 @ bs else bs)
         in case bs' of
              [] \<Rightarrow> []
            | b # _ \<Rightarrow> (if b AND 0x80 = 0 then natBytes (nat (2 ^ (Suc width * 8) + v)) else bs')))"

definition signedBigInt :: "bytes \<Rightarrow> int" where
  "signedBigInt bs = (case bs of
       [] \<Rightarrow> 0
     | b # _ \<Rightarrow> (if b AND 0x80 \<noteq> 0 then int (bytesNat bs) - 2 ^ (length bs * 8)
                 else int (bytesNat bs)))"

section \<open>Widths of the indexed layout\<close>

definition indexedFixed :: "logical_type \<Rightarrow> bool" where
  "indexedFixed lt =
     (let kind = dataTypeForLogicalType lt in
      if kind \<in> {BoolType, TinyIntType, SmallIntType, IntType, BigIntType, FloatType, DoubleType,
                 DateType, TimeType, CharType, BinaryType, TimestampType, TimestampLTZType}
      then ltRoot lt \<noteq> [] \<and> (ltLength lt > 0 \<or> (kind \<noteq> CharType \<and> kind \<noteq> BinaryType))
      else if kind = DecimalType then ltPrecision lt > 0 \<and> ltPrecision lt \<le> 18
      else False)"

definition indexedLength :: "logical_type \<Rightarrow> int" where
  "indexedLength lt = (case dataTypeForLogicalType lt of
       BoolType \<Rightarrow> 1 | TinyIntType \<Rightarrow> 1 | SmallIntType \<Rightarrow> 2
     | IntType \<Rightarrow> 4 | FloatType \<Rightarrow> 4 | DateType \<Rightarrow> 4 | TimeType \<Rightarrow> 4
     | BigIntType \<Rightarrow> 8 | DoubleType \<Rightarrow> 8 | DecimalType \<Rightarrow> 8
     | TimestampType \<Rightarrow> (if ltPrecision lt > 3 then 12 else 8)
     | TimestampLTZType \<Rightarrow> (if ltPrecision lt > 3 then 12 else 8)
     | CharType \<Rightarrow> ltLength lt | BinaryType \<Rightarrow> ltLength lt
     | _ \<Rightarrow> -1)"

definition appendFixed :: "bytes \<Rightarrow> bytes \<Rightarrow> int \<Rightarrow> bytes result" where
  "appendFixed dst v len =
     (if len < 1 \<or> int (length v) > len
      then Inl (Plain ''fixed-width value exceeds declared length'')
      else Inr (dst @ overwrite (replicate (nat len) 0) 0 v))"

function trimZero :: "bytes \<Rightarrow> bytes" where
  "trimZero v = (if v \<noteq> [] \<and> last v = 0 then trimZero (butlast v) else v)"
  by pat_completeness auto
termination
  by (relation "measure length") auto

declare trimZero.simps [simp del]

end
