(* ===== verification/Row_Codec.thy ===== *)
theory Row_Codec
  imports Value_Codec
begin

text \<open>
  The row codec: \<^verbatim>\<open>pkg/fgo/row_codec.go\<close>, the value encoders of
  \<^verbatim>\<open>pkg/fgo/row_value_codec.go\<close> and \<^verbatim>\<open>pkg/fgo/binary_array_codec.go\<close>. Rows, arrays and maps
  nest, so the encoders are mutually recursive over the logical type, and so are the decoders.
  This theory holds the definitions and their termination; the round trip is proved in
  \<open>Row_Roundtrip\<close> and the absence of panics in \<open>Row_Safety\<close>.
\<close>

datatype row_encoding = CompactedEncoding | IndexedEncoding

section \<open>Layout helpers\<close>

definition nestedSchema :: "logical_type \<Rightarrow> schema" where
  "nestedSchema lt =
     \<lparr>Columns = map (\<lambda>f. \<lparr>colName = fieldName f, colType = dataTypeForLogicalType (fieldType f),
          colNullable = ltNullable (fieldType f), colLogicalType = Some (fieldType f),
          colDescription = fieldDescription f, colID = fieldID f\<rparr>) (ltFields lt),
      PrimaryKey = [], BucketKey = [], PartitionKey = [], AutoIncrement = [], HighestFieldID = 0\<rparr>"

definition nullBitmapBytes :: "schema \<Rightarrow> int" where
  "nullBitmapBytes s = (int (length (Columns s)) + 7) div 8"

definition rowHeaderBytes :: "schema \<Rightarrow> row_encoding \<Rightarrow> int" where
  "rowHeaderBytes s enc =
     nullBitmapBytes s +
     (if enc \<noteq> IndexedEncoding then 0
      else sum_list (map (\<lambda>c. if indexedFixed (logicalTypeForColumn c) then 0 else 4) (Columns s)))"

text \<open>\<^verbatim>\<open>encoded[base+i/8] |= 1 << (i % 8)\<close> and \<^verbatim>\<open>encoded[base+i/8]&(1<<(i%8)) != 0\<close>.\<close>

definition setNullBit :: "bytes \<Rightarrow> int \<Rightarrow> nat \<Rightarrow> bytes result" where
  "setNullBit encoded base i =
     andThen (go_index encoded (base + int i div 8)) (\<lambda>b.
       go_set encoded (base + int i div 8) (b OR push_bit (i mod 8) 1))"

definition getNullBit :: "bytes \<Rightarrow> int \<Rightarrow> nat \<Rightarrow> bool result" where
  "getNullBit encoded base i =
     andThen (go_index encoded (base + int i div 8)) (\<lambda>b.
       Inr (b AND push_bit (i mod 8) 1 \<noteq> 0))"

definition arraySlotSize :: "logical_type \<Rightarrow> int" where
  "arraySlotSize lt = (case dataTypeForLogicalType lt of
       BoolType \<Rightarrow> 1 | TinyIntType \<Rightarrow> 1 | SmallIntType \<Rightarrow> 2
     | IntType \<Rightarrow> 4 | FloatType \<Rightarrow> 4 | DateType \<Rightarrow> 4 | TimeType \<Rightarrow> 4
     | _ \<Rightarrow> 8)"

text \<open>\<^verbatim>\<open>(value + 7) &^ 7\<close>.\<close>

definition align8 :: "int \<Rightarrow> int" where
  "align8 n = (n + 7) AND NOT 7"

definition putOffsetSize :: "bytes \<Rightarrow> int \<Rightarrow> int \<Rightarrow> int \<Rightarrow> bytes result" where
  "putOffsetSize encoded slot offset n =
     le_put 8 encoded slot
       (push_bit 32 (ucast (word_of_int offset :: 32 word)) OR ucast (word_of_int n :: 32 word)
        :: 64 word)"

definition offsetSize :: "bytes \<Rightarrow> int \<Rightarrow> (int \<times> int) result" where
  "offsetSize encoded slot =
     andThen (le_get 8 encoded slot) (\<lambda>w :: 64 word.
       Inr (uint (drop_bit 32 w), uint (ucast w :: 32 word)))"

definition appendArrayVariable :: "bytes \<Rightarrow> int \<Rightarrow> bytes \<Rightarrow> int \<Rightarrow> bytes result" where
  "appendArrayVariable encoded slot v reserved =
     (if reserved < int (length v) \<or> reserved > maxRowBytes - int (length encoded)
      then Inl (Plain ''invalid array variable length'')
      else putOffsetSize (encoded @ overwrite (replicate (nat reserved) 0) 0 v)
             slot (int (length encoded)) (int (length v)))"

definition arrayVariable :: "bytes \<Rightarrow> int \<Rightarrow> bytes result" where
  "arrayVariable encoded slot =
     andThen (offsetSize encoded slot) (\<lambda>(offset, n).
       andThen (readFixed encoded offset n) (\<lambda>(v, _). Inr v))"

text \<open>The inline form of short byte strings: bit 63 set, the length in bits 56 to 62, the bytes
  from bit 0 on.\<close>

fun packBytes :: "nat \<Rightarrow> bytes \<Rightarrow> 64 word \<Rightarrow> 64 word" where
  "packBytes i [] packed = packed"
| "packBytes i (b # bs) packed = packBytes (Suc i) bs (packed OR push_bit (8 * i) (ucast b))"

definition appendPackedArrayBytes :: "bytes \<Rightarrow> int \<Rightarrow> bytes \<Rightarrow> bytes result" where
  "appendPackedArrayBytes encoded slot v =
     (if length v \<le> 7
      then le_put 8 encoded slot (packBytes 0 v (push_bit 56 (of_nat (length v) OR 0x80)))
      else appendArrayVariable encoded slot v (align8 (int (length v))))"

definition unpackedArrayBytes :: "bytes \<Rightarrow> int \<Rightarrow> bytes result" where
  "unpackedArrayBytes encoded slot =
     andThen (le_get 8 encoded slot) (\<lambda>packed :: 64 word.
       if drop_bit 63 packed \<noteq> 0 then
         (let n = unat (ucast (drop_bit 56 packed AND 0x7f) :: byte) in
          if n > 7 then Inl (Plain ''invalid packed array length'')
          else Inr (map (\<lambda>i. ucast (drop_bit (8 * i) packed)) [0..<n]))
       else arrayVariable encoded slot)"

section \<open>Encoders\<close>

text \<open>Termination: the logical type shrinks at every nesting; below it a fixed order of the helpers,
  and the rest of the list for the two loops.\<close>

definition columnsWeight :: "column list \<Rightarrow> nat" where
  "columnsWeight cs = sum_list (map (\<lambda>c. size (logicalTypeForColumn c)) cs)"

lemma columnsWeight_simps [simp]:
  "columnsWeight [] = 0"
  "columnsWeight (c # cs) = size (logicalTypeForColumn c) + columnsWeight cs"
  by (simp_all add: columnsWeight_def)

lemma columnsWeight_nested: "columnsWeight (Columns (nestedSchema lt)) < size lt"
proof -
  have "columnsWeight (map (\<lambda>f. \<lparr>colName = fieldName f,
          colType = dataTypeForLogicalType (fieldType f), colNullable = ltNullable (fieldType f),
          colLogicalType = Some (fieldType f), colDescription = fieldDescription f,
          colID = fieldID f\<rparr>) fs) \<le> size_list size fs" for fs
  proof (induction fs)
    case (Cons f fs)
    then show ?case
      using size_fieldType [of f] by (simp add: logicalTypeForColumn_def)
  qed simp
  from this [of "ltFields lt"] size_ltFields [of lt] show ?thesis
    by (simp add: nestedSchema_def)
qed

function encodeRow :: "schema \<Rightarrow> row \<Rightarrow> row_encoding \<Rightarrow> bytes result"
  and encodeColumns :: "row_encoding \<Rightarrow> nat \<Rightarrow> column list \<Rightarrow> row \<Rightarrow> bytes \<Rightarrow> int \<Rightarrow> bytes result"
  and encodeRowValue :: "logical_type \<Rightarrow> go_value \<Rightarrow> row_encoding \<Rightarrow> bytes result"
  and appendCompactedValue :: "bytes \<Rightarrow> logical_type \<Rightarrow> go_value \<Rightarrow> bytes result"
  and appendIndexedValue :: "bytes \<Rightarrow> logical_type \<Rightarrow> go_value \<Rightarrow> bytes result"
  and encodeBinaryArray :: "logical_type \<Rightarrow> go_value list \<Rightarrow> row_encoding \<Rightarrow> bytes result"
  and encodeElements :: "logical_type \<Rightarrow> row_encoding \<Rightarrow> int \<Rightarrow> nat \<Rightarrow> go_value list \<Rightarrow> bytes
        \<Rightarrow> bytes result"
  and encodeBinaryMap :: "logical_type \<Rightarrow> go_value \<Rightarrow> row_encoding \<Rightarrow> bytes result"
  and writeArrayElement :: "bytes \<Rightarrow> int \<Rightarrow> logical_type \<Rightarrow> go_value \<Rightarrow> row_encoding
        \<Rightarrow> bytes result" where
  "encodeRow schema row enc =
     andThen (ValidateRow schema row []) (\<lambda>_.
       encodeColumns enc 0 (Columns schema) row
         (replicate (nat (rowHeaderBytes schema enc)) 0) (nullBitmapBytes schema))"
| "encodeColumns enc i [] row encoded lengthPosition = Inr encoded"
| "encodeColumns enc i (c # cs) [] encoded lengthPosition = Inl (Panic ''index out of range'')"
| "encodeColumns enc i (c # cs) (v # row) encoded lengthPosition =
     (if v = VNil then
        andThen (setNullBit encoded 0 i) (\<lambda>encoded'.
          encodeColumns enc (Suc i) cs row encoded' lengthPosition)
      else
        andThen (encodeRowValue (logicalTypeForColumn c) v enc) (\<lambda>val.
        andThen (if enc = IndexedEncoding \<and> \<not> indexedFixed (logicalTypeForColumn c)
                 then andThen (le_put 4 encoded lengthPosition (of_nat (length val) :: 32 word))
                        (\<lambda>encoded'. Inr (encoded', lengthPosition + 4))
                 else Inr (encoded, lengthPosition)) (\<lambda>(encoded', lengthPosition').
        guardE (int (length val) > maxRowBytes - int (length encoded')) ErrMalformedRow
          (encodeColumns enc (Suc i) cs row (encoded' @ val) lengthPosition'))))"
| "encodeRowValue lt value enc =
     (if enc = CompactedEncoding then appendCompactedValue [] lt value
      else appendIndexedValue [] lt value)"
| "appendCompactedValue dst lt value =
     (case dataTypeForLogicalType lt of
        BoolType \<Rightarrow> andThen (asBool value) (\<lambda>b. Inr (dst @ [if b then 1 else 0]))
      | TinyIntType \<Rightarrow> andThen (asInt8 value) (\<lambda>x. Inr (dst @ [x]))
      | SmallIntType \<Rightarrow> andThen (asInt16 value) (\<lambda>x. Inr (appendLittle dst (ucast x) 2))
      | IntType \<Rightarrow> andThen (asInt32 value) (\<lambda>x. Inr (appendVar32 dst x))
      | BigIntType \<Rightarrow> andThen (asInt64 value) (\<lambda>x. Inr (appendVar64 dst x))
      | FloatType \<Rightarrow> andThen (asFloat32 value) (\<lambda>x. Inr (appendLittle dst (ucast x) 4))
      | DoubleType \<Rightarrow> andThen (asFloat64 value) (\<lambda>x. Inr (appendLittle dst x 8))
      | StringType \<Rightarrow> andThen (asString value) (appendLengthBytes dst)
      | CharType \<Rightarrow> andThen (asString value) (appendLengthBytes dst)
      | BytesType \<Rightarrow> andThen (asBytes value) (appendLengthBytes dst)
      | BinaryType \<Rightarrow> andThen (asBytes value) (appendLengthBytes dst)
      | DateType \<Rightarrow> andThen (asTime value) (\<lambda>t. Inr (appendVar32 dst (temporalInt DateType t)))
      | TimeType \<Rightarrow> andThen (asTime value) (\<lambda>t. Inr (appendVar32 dst (temporalInt TimeType t)))
      | TimestampType \<Rightarrow> andThen (asTime value) (\<lambda>t.
          (let (millis, nanos) = timestampParts TimestampType t; dst' = appendVar64 dst millis in
           Inr (if ltPrecision lt > 3 then appendVar32 dst' nanos else dst')))
      | TimestampLTZType \<Rightarrow> andThen (asTime value) (\<lambda>t.
          (let (millis, nanos) = timestampParts TimestampLTZType t; dst' = appendVar64 dst millis in
           Inr (if ltPrecision lt > 3 then appendVar32 dst' nanos else dst')))
      | DecimalType \<Rightarrow> andThen (asRat value) (\<lambda>r. andThen (decimalUnscaled r lt) (\<lambda>unscaled.
          if ltPrecision lt \<le> 18 then Inr (appendVar64 dst (word_of_int unscaled))
          else appendLengthBytes dst (signedBigEndian unscaled)))
      | ArrayType \<Rightarrow> (case ltElement lt of
            None \<Rightarrow> Inl (Panic ''nil pointer dereference'')
          | Some e \<Rightarrow> andThen (asArray value) (\<lambda>vs.
              andThen (encodeBinaryArray e vs CompactedEncoding) (appendLengthBytes dst)))
      | MapType \<Rightarrow> andThen (encodeBinaryMap lt value CompactedEncoding) (appendLengthBytes dst)
      | RowType \<Rightarrow> andThen (asRow value) (\<lambda>r.
          andThen (encodeRow (nestedSchema lt) r CompactedEncoding) (appendLengthBytes dst))
      | OtherType _ \<Rightarrow> Inl (Plain ''unsupported compacted type''))"
| "appendIndexedValue dst lt value =
     (case dataTypeForLogicalType lt of
        IntType \<Rightarrow> andThen (asInt32 value) (\<lambda>x. Inr (appendLittle dst (ucast x) 4))
      | BigIntType \<Rightarrow> andThen (asInt64 value) (\<lambda>x. Inr (appendLittle dst x 8))
      | DateType \<Rightarrow> andThen (asTime value) (\<lambda>t.
          Inr (appendLittle dst (ucast (temporalInt DateType t)) 4))
      | TimeType \<Rightarrow> andThen (asTime value) (\<lambda>t.
          Inr (appendLittle dst (ucast (temporalInt TimeType t)) 4))
      | TimestampType \<Rightarrow> andThen (asTime value) (\<lambda>t.
          (let (millis, nanos) = timestampParts TimestampType t;
               dst' = appendLittle dst millis 8 in
           Inr (if ltPrecision lt > 3 then appendLittle dst' (ucast nanos) 4 else dst')))
      | TimestampLTZType \<Rightarrow> andThen (asTime value) (\<lambda>t.
          (let (millis, nanos) = timestampParts TimestampLTZType t;
               dst' = appendLittle dst millis 8 in
           Inr (if ltPrecision lt > 3 then appendLittle dst' (ucast nanos) 4 else dst')))
      | StringType \<Rightarrow> andThen (asString value) (\<lambda>s. Inr (dst @ s))
      | CharType \<Rightarrow> andThen (asString value) (\<lambda>s.
          if ltLength lt = 0 then Inr (dst @ s) else appendFixed dst s (ltLength lt))
      | BytesType \<Rightarrow> andThen (asBytes value) (\<lambda>s. Inr (dst @ s))
      | BinaryType \<Rightarrow> andThen (asBytes value) (\<lambda>s.
          if ltLength lt = 0 then Inr (dst @ s) else appendFixed dst s (ltLength lt))
      | DecimalType \<Rightarrow> andThen (asRat value) (\<lambda>r. andThen (decimalUnscaled r lt) (\<lambda>unscaled.
          if ltPrecision lt \<le> 18 then Inr (appendLittle dst (word_of_int unscaled) 8)
          else Inr (dst @ signedBigEndian unscaled)))
      | ArrayType \<Rightarrow> (case ltElement lt of
            None \<Rightarrow> Inl (Panic ''nil pointer dereference'')
          | Some e \<Rightarrow> andThen (asArray value) (\<lambda>vs.
              andThen (encodeBinaryArray e vs IndexedEncoding) (\<lambda>b. Inr (dst @ b))))
      | MapType \<Rightarrow> andThen (encodeBinaryMap lt value IndexedEncoding) (\<lambda>b. Inr (dst @ b))
      | RowType \<Rightarrow> andThen (asRow value) (\<lambda>r.
          andThen (encodeRow (nestedSchema lt) r IndexedEncoding) (\<lambda>b. Inr (dst @ b)))
      | _ \<Rightarrow> appendCompactedValue dst lt value)"
| "encodeBinaryArray elementType values enc =
     guardE (int (length values) > maxRowBytes div 8)
       (Plain ''array element count exceeds allocation limit'')
       (let n = int (length values); slotSize = arraySlotSize elementType;
            nullBytes = ((n + 31) div 32) * 4; fixedBytes = align8 (4 + nullBytes + slotSize * n) in
        guardE (fixedBytes > maxRowBytes)
          (Plain ''array fixed region exceeds allocation limit'')
          (andThen (le_put 4 (replicate (nat fixedBytes) 0) 0 (of_nat (length values) :: 32 word))
             (\<lambda>encoded. encodeElements elementType enc nullBytes 0 values encoded)))"
| "encodeElements elementType enc nullBytes i [] encoded = Inr encoded"
| "encodeElements elementType enc nullBytes i (v # values) encoded =
     (if v = VNil then
        guardE (\<not> ltNullable elementType) (Plain ''array element is not nullable'')
          (andThen (setNullBit encoded 4 i) (\<lambda>encoded'.
             encodeElements elementType enc nullBytes (Suc i) values encoded'))
      else guardE (\<not> validLogicalValue elementType v) (Plain ''array element has invalid value'')
        (andThen (writeArrayElement encoded (4 + nullBytes + arraySlotSize elementType * int i)
                    elementType v enc) (\<lambda>encoded'.
           guardE (int (length encoded') > maxRowBytes) (Plain ''array exceeds allocation limit'')
             (encodeElements elementType enc nullBytes (Suc i) values encoded'))))"
| "encodeBinaryMap lt value enc =
     (case mapEntries value of
        None \<Rightarrow> Inl (Plain ''invalid map value'')
      | Some entries \<Rightarrow>
          (case ltKey lt of None \<Rightarrow> Inl (Panic ''nil pointer dereference'')
           | Some k \<Rightarrow> andThen (encodeBinaryArray k (map fst entries) enc) (\<lambda>keyBytes.
              (case ltValue lt of None \<Rightarrow> Inl (Panic ''nil pointer dereference'')
               | Some v \<Rightarrow> andThen (encodeBinaryArray v (map snd entries) enc) (\<lambda>valueBytes.
                   Inr (le_bytes 4 (of_nat (length keyBytes) :: 32 word)
                          @ keyBytes @ valueBytes))))))"
| "writeArrayElement encoded slot lt value enc =
     (case dataTypeForLogicalType lt of
        BoolType \<Rightarrow> andThen (asBool value) (\<lambda>b. if b then go_set encoded slot 1 else Inr encoded)
      | TinyIntType \<Rightarrow> andThen (asInt8 value) (\<lambda>x. go_set encoded slot x)
      | SmallIntType \<Rightarrow> andThen (asInt16 value) (\<lambda>x. le_put 2 encoded slot x)
      | IntType \<Rightarrow> andThen (asInt32 value) (\<lambda>x. le_put 4 encoded slot x)
      | DateType \<Rightarrow> andThen (asTime value) (\<lambda>t. le_put 4 encoded slot (temporalInt DateType t))
      | TimeType \<Rightarrow> andThen (asTime value) (\<lambda>t. le_put 4 encoded slot (temporalInt TimeType t))
      | FloatType \<Rightarrow> andThen (asFloat32 value) (\<lambda>x. le_put 4 encoded slot x)
      | BigIntType \<Rightarrow> andThen (asInt64 value) (\<lambda>x. le_put 8 encoded slot x)
      | DoubleType \<Rightarrow> andThen (asFloat64 value) (\<lambda>x. le_put 8 encoded slot x)
      | DecimalType \<Rightarrow> andThen (asRat value) (\<lambda>r. andThen (decimalUnscaled r lt) (\<lambda>unscaled.
          if ltPrecision lt \<le> 18 then le_put 8 encoded slot (word_of_int unscaled :: 64 word)
          else appendArrayVariable encoded slot (signedBigEndian unscaled) 16))
      | TimestampType \<Rightarrow> andThen (asTime value) (\<lambda>t.
          (let (millis, nanos) = timestampParts TimestampType t in
           if ltPrecision lt \<le> 3 then le_put 8 encoded slot millis
           else putOffsetSize (appendLittle encoded millis 8) slot (int (length encoded))
                  (sint nanos)))
      | TimestampLTZType \<Rightarrow> andThen (asTime value) (\<lambda>t.
          (let (millis, nanos) = timestampParts TimestampLTZType t in
           if ltPrecision lt \<le> 3 then le_put 8 encoded slot millis
           else putOffsetSize (appendLittle encoded millis 8) slot (int (length encoded))
                  (sint nanos)))
      | StringType \<Rightarrow> andThen (asString value) (appendPackedArrayBytes encoded slot)
      | CharType \<Rightarrow> andThen (asString value) (appendPackedArrayBytes encoded slot)
      | BytesType \<Rightarrow> andThen (asBytes value) (appendPackedArrayBytes encoded slot)
      | BinaryType \<Rightarrow> andThen (asBytes value) (appendPackedArrayBytes encoded slot)
      | ArrayType \<Rightarrow> (case ltElement lt of
            None \<Rightarrow> Inl (Panic ''nil pointer dereference'')
          | Some e \<Rightarrow> andThen (asArray value) (\<lambda>vs.
              andThen (encodeBinaryArray e vs enc) (\<lambda>b.
                appendArrayVariable encoded slot b (align8 (int (length b))))))
      | MapType \<Rightarrow> andThen (encodeBinaryMap lt value enc) (\<lambda>b.
          appendArrayVariable encoded slot b (align8 (int (length b))))
      | RowType \<Rightarrow> andThen (asRow value) (\<lambda>r.
          andThen (encodeRow (nestedSchema lt) r enc) (\<lambda>b.
            appendArrayVariable encoded slot b (align8 (int (length b)))))
      | OtherType _ \<Rightarrow> Inl (Plain ''unsupported array element type''))"
  by pat_completeness auto
termination
  by (relation "measures
    [\<lambda>s. case s of
       Inl (Inl (Inl (schema, row, enc))) \<Rightarrow> columnsWeight (Columns schema)
     | Inl (Inl (Inr (enc, i, cs, row, encoded, pos))) \<Rightarrow> columnsWeight cs
     | Inl (Inr (Inl (lt, v, enc))) \<Rightarrow> size lt
     | Inl (Inr (Inr (dst, lt, v))) \<Rightarrow> size lt
     | Inr (Inl (Inl (dst, lt, v))) \<Rightarrow> size lt
     | Inr (Inl (Inr (e, vs, enc))) \<Rightarrow> size e
     | Inr (Inr (Inl (e, enc, nb, i, vs, encoded))) \<Rightarrow> size e
     | Inr (Inr (Inr (Inl (lt, v, enc)))) \<Rightarrow> size lt
     | Inr (Inr (Inr (Inr (encoded, slot, lt, v, enc)))) \<Rightarrow> size lt,
     \<lambda>s. case s of
       Inl (Inl (Inl _)) \<Rightarrow> 6
     | Inl (Inl (Inr _)) \<Rightarrow> 5
     | Inl (Inr (Inl _)) \<Rightarrow> 4
     | Inr (Inl (Inl _)) \<Rightarrow> 3
     | Inl (Inr (Inr _)) \<Rightarrow> 2
     | Inr (Inl (Inr _)) \<Rightarrow> 4
     | Inr (Inr (Inl _)) \<Rightarrow> 3
     | Inr (Inr (Inr (Inr _))) \<Rightarrow> 2
     | Inr (Inr (Inr (Inl _))) \<Rightarrow> 1,
     \<lambda>s. case s of
       Inl (Inl (Inr (enc, i, cs, row, encoded, pos))) \<Rightarrow> length cs
     | Inr (Inr (Inl (e, enc, nb, i, vs, encoded))) \<Rightarrow> length vs
     | _ \<Rightarrow> 0]")
   (auto simp: lt_size columnsWeight_nested)

section \<open>Decoders: the leaves\<close>

definition compactedFixedWidth :: "data_type \<Rightarrow> bool" where
  "compactedFixedWidth kind \<longleftrightarrow> kind \<in> {BoolType, TinyIntType, SmallIntType, FloatType, DoubleType}"

definition readCompactedFixed :: "bytes \<Rightarrow> int \<Rightarrow> data_type \<Rightarrow> (go_value \<times> int) result" where
  "readCompactedFixed encoded position kind = (case kind of
       BoolType \<Rightarrow> andThen (rewrap (Plain ''invalid boolean'') (readFixed encoded position 1))
         (\<lambda>(v, nxt). andThen (go_index v 0) (\<lambda>b.
            guardE (b > 1) (Plain ''invalid boolean'') (Inr (VBool (b = 1), nxt))))
     | TinyIntType \<Rightarrow> andThen (readFixed encoded position 1) (\<lambda>(v, nxt).
         andThen (go_index v 0) (\<lambda>b. Inr (VInt8 b, nxt)))
     | SmallIntType \<Rightarrow> andThen (readFixed encoded position 2) (\<lambda>(v, nxt).
         andThen (le_get 2 v 0) (\<lambda>x. Inr (VInt16 x, nxt)))
     | FloatType \<Rightarrow> andThen (readFixed encoded position 4) (\<lambda>(v, nxt).
         andThen (le_get 4 v 0) (\<lambda>x. Inr (VFloat32 x, nxt)))
     | DoubleType \<Rightarrow> andThen (readFixed encoded position 8) (\<lambda>(v, nxt).
         andThen (le_get 8 v 0) (\<lambda>x. Inr (VFloat64 x, nxt)))
     | _ \<Rightarrow> Inl (Plain ''unsupported compacted fixed type''))"

definition readCompactedTimestamp :: "bytes \<Rightarrow> int \<Rightarrow> logical_type \<Rightarrow> (go_value \<times> int) result" where
  "readCompactedTimestamp encoded position lt =
     andThen (readVar encoded position 10) (\<lambda>(millis, nxt).
     andThen (if ltPrecision lt > 3
              then andThen (rewrap (Plain ''invalid timestamp nanos'') (readVar encoded nxt 5))
                     (\<lambda>(nanos, nxt'). guardE (nanos > 999999) (Plain ''invalid timestamp nanos'')
                        (Inr (nanos, nxt')))
              else Inr (0, nxt)) (\<lambda>(nanos, nxt').
       Inr (VTime (timestampTime (dataTypeForLogicalType lt) millis (ucast nanos)), nxt')))"

definition readCompactedDecimal :: "bytes \<Rightarrow> int \<Rightarrow> logical_type \<Rightarrow> (go_value \<times> int) result" where
  "readCompactedDecimal encoded position lt =
     (if ltPrecision lt \<le> 18
      then andThen (readVar encoded position 10) (\<lambda>(v, nxt).
             Inr (VRat (scaledRat (sint v) (ltScale lt)), nxt))
      else andThen (readLengthBytes encoded position) (\<lambda>(v, nxt).
             Inr (VRat (scaledRat (signedBigInt v) (ltScale lt)), nxt)))"

definition readIndexedTimestamp :: "bytes \<Rightarrow> int \<Rightarrow> logical_type \<Rightarrow> (go_value \<times> int) result" where
  "readIndexedTimestamp encoded position lt =
     (let width = indexedLength lt in
      andThen (readFixed encoded position width) (\<lambda>(v, nxt).
      andThen (if width = 12
               then andThen (le_get 4 v 8) (\<lambda>nanos :: 32 word.
                      guardE (sint nanos > 999999) (Plain ''invalid timestamp nanos'') (Inr nanos))
               else Inr 0) (\<lambda>nanos.
      andThen (le_get 8 v 0) (\<lambda>millis.
        Inr (VTime (timestampTime (dataTypeForLogicalType lt) millis nanos), nxt)))))"

definition arrayPrimitive :: "data_type \<Rightarrow> bool" where
  "arrayPrimitive kind \<longleftrightarrow>
     kind \<in> {BoolType, TinyIntType, SmallIntType, IntType, FloatType, BigIntType, DoubleType}"

definition readArrayPrimitive :: "bytes \<Rightarrow> int \<Rightarrow> data_type \<Rightarrow> go_value result" where
  "readArrayPrimitive encoded slot kind = (case kind of
       BoolType \<Rightarrow> andThen (go_index encoded slot) (\<lambda>b.
         guardE (b > 1) (Plain ''invalid boolean'') (Inr (VBool (b = 1))))
     | TinyIntType \<Rightarrow> andThen (go_index encoded slot) (\<lambda>b. Inr (VInt8 b))
     | SmallIntType \<Rightarrow> andThen (le_get 2 encoded slot) (\<lambda>x. Inr (VInt16 x))
     | IntType \<Rightarrow> andThen (le_get 4 encoded slot) (\<lambda>x. Inr (VInt32 x))
     | FloatType \<Rightarrow> andThen (le_get 4 encoded slot) (\<lambda>x. Inr (VFloat32 x))
     | BigIntType \<Rightarrow> andThen (le_get 8 encoded slot) (\<lambda>x. Inr (VInt64 x))
     | DoubleType \<Rightarrow> andThen (le_get 8 encoded slot) (\<lambda>x. Inr (VFloat64 x))
     | _ \<Rightarrow> Inl (Plain ''unsupported array primitive''))"

definition readArrayDecimal :: "bytes \<Rightarrow> int \<Rightarrow> logical_type \<Rightarrow> go_value result" where
  "readArrayDecimal encoded slot lt =
     (if ltPrecision lt \<le> 18
      then andThen (le_get 8 encoded slot) (\<lambda>x :: 64 word.
             Inr (VRat (scaledRat (sint x) (ltScale lt))))
      else andThen (arrayVariable encoded slot) (\<lambda>v.
             Inr (VRat (scaledRat (signedBigInt v) (ltScale lt)))))"

definition readArrayTimestamp :: "bytes \<Rightarrow> int \<Rightarrow> logical_type \<Rightarrow> go_value result" where
  "readArrayTimestamp encoded slot lt =
     (if ltPrecision lt \<le> 3
      then andThen (le_get 8 encoded slot) (\<lambda>millis.
             Inr (VTime (timestampTime (dataTypeForLogicalType lt) millis 0)))
      else andThen (offsetSize encoded slot) (\<lambda>(offset, nanos).
           andThen (rewrap (Plain ''invalid timestamp array value'') (readFixed encoded offset 8))
             (\<lambda>(v, _).
           guardE (nanos > 999999) (Plain ''invalid timestamp array value'')
             (andThen (le_get 8 v 0) (\<lambda>millis.
                Inr (VTime (timestampTime (dataTypeForLogicalType lt) millis
                       (word_of_int nanos))))))))"

definition indexedValueLength ::
    "bytes \<Rightarrow> int \<Rightarrow> logical_type \<Rightarrow> row_encoding \<Rightarrow> bool \<Rightarrow> (int \<times> int) result" where
  "indexedValueLength encoded position lt enc isNull =
     (if enc \<noteq> IndexedEncoding \<or> indexedFixed lt \<or> isNull then Inr (-1, position)
      else andThen (le_get 4 encoded position) (\<lambda>n :: 32 word. Inr (uint n, position + 4)))"

section \<open>Decoders: the recursion\<close>

function decodeRow :: "schema \<Rightarrow> bytes \<Rightarrow> row_encoding \<Rightarrow> row result"
  and decodeColumns :: "bytes \<Rightarrow> row_encoding \<Rightarrow> nat \<Rightarrow> column list \<Rightarrow> int \<Rightarrow> int
        \<Rightarrow> (row \<times> int) result"
  and decodeRowValue :: "bytes \<Rightarrow> int \<Rightarrow> logical_type \<Rightarrow> row_encoding \<Rightarrow> int
        \<Rightarrow> (go_value \<times> int) result"
  and readCompactedValue :: "bytes \<Rightarrow> int \<Rightarrow> logical_type \<Rightarrow> (go_value \<times> int) result"
  and readCompactedNested :: "bytes \<Rightarrow> int \<Rightarrow> logical_type \<Rightarrow> (go_value \<times> int) result"
  and readIndexedValue :: "bytes \<Rightarrow> int \<Rightarrow> logical_type \<Rightarrow> int \<Rightarrow> (go_value \<times> int) result"
  and readIndexedVariable :: "bytes \<Rightarrow> int \<Rightarrow> logical_type \<Rightarrow> int \<Rightarrow> (go_value \<times> int) result"
  and readIndexedFixed :: "bytes \<Rightarrow> int \<Rightarrow> logical_type \<Rightarrow> (go_value \<times> int) result"
  and decodeBinaryArray :: "logical_type \<Rightarrow> bytes \<Rightarrow> row_encoding \<Rightarrow> go_value list result"
  and decodeElements :: "logical_type \<Rightarrow> bytes \<Rightarrow> row_encoding \<Rightarrow> int \<Rightarrow> nat \<Rightarrow> nat
        \<Rightarrow> go_value list result"
  and decodeBinaryMap :: "logical_type \<Rightarrow> bytes \<Rightarrow> row_encoding
        \<Rightarrow> (go_value \<times> go_value) list result"
  and readArrayElement :: "bytes \<Rightarrow> int \<Rightarrow> logical_type \<Rightarrow> row_encoding \<Rightarrow> go_value result"
  and readArrayNested :: "bytes \<Rightarrow> int \<Rightarrow> logical_type \<Rightarrow> row_encoding \<Rightarrow> go_value result" where
  "decodeRow schema encoded enc =
     andThen (Schema_Validate schema) (\<lambda>_.
       guardE (int (length encoded) > maxRowBytes \<or> int (length encoded) < rowHeaderBytes schema enc)
         ErrMalformedRow
         (andThen (decodeColumns encoded enc 0 (Columns schema) (rowHeaderBytes schema enc)
                     (nullBitmapBytes schema)) (\<lambda>(row, position).
            guardE (position \<noteq> int (length encoded)) ErrMalformedRow (Inr row))))"
| "decodeColumns encoded enc i [] position lengthPosition = Inr ([], position)"
| "decodeColumns encoded enc i (c # cs) position lengthPosition =
     andThen (getNullBit encoded 0 i) (\<lambda>isNull.
     andThen (indexedValueLength encoded lengthPosition (logicalTypeForColumn c) enc isNull)
       (\<lambda>(len, lengthPosition').
     if isNull then
       guardE (\<not> colNullable c) ErrMalformedRow
         (andThen (decodeColumns encoded enc (Suc i) cs position lengthPosition')
            (\<lambda>(row, position'). Inr (VNil # row, position')))
     else
       andThen (rewrap ErrMalformedRow
                  (decodeRowValue encoded position (logicalTypeForColumn c) enc len))
         (\<lambda>(v, nxt).
       andThen (decodeColumns encoded enc (Suc i) cs nxt lengthPosition')
         (\<lambda>(row, position'). Inr (v # row, position')))))"
| "decodeRowValue encoded position lt enc len =
     (if enc = CompactedEncoding then readCompactedValue encoded position lt
      else readIndexedValue encoded position lt len)"
| "readCompactedValue encoded position lt =
     (let kind = dataTypeForLogicalType lt in
      if compactedFixedWidth kind then readCompactedFixed encoded position kind
      else case kind of
        IntType \<Rightarrow> andThen (readVar encoded position 5) (\<lambda>(v, nxt). Inr (VInt32 (ucast v), nxt))
      | BigIntType \<Rightarrow> andThen (readVar encoded position 10) (\<lambda>(v, nxt). Inr (VInt64 v, nxt))
      | StringType \<Rightarrow> andThen (readLengthBytes encoded position) (\<lambda>(v, nxt). Inr (VString v, nxt))
      | CharType \<Rightarrow> andThen (readLengthBytes encoded position) (\<lambda>(v, nxt). Inr (VString v, nxt))
      | BytesType \<Rightarrow> andThen (readLengthBytes encoded position) (\<lambda>(v, nxt). Inr (VBytes v, nxt))
      | BinaryType \<Rightarrow> andThen (readLengthBytes encoded position) (\<lambda>(v, nxt). Inr (VBytes v, nxt))
      | DateType \<Rightarrow> andThen (readVar encoded position 5) (\<lambda>(v, nxt).
          Inr (VTime (temporalTime DateType (ucast v)), nxt))
      | TimeType \<Rightarrow> andThen (readVar encoded position 5) (\<lambda>(v, nxt).
          Inr (VTime (temporalTime TimeType (ucast v)), nxt))
      | TimestampType \<Rightarrow> readCompactedTimestamp encoded position lt
      | TimestampLTZType \<Rightarrow> readCompactedTimestamp encoded position lt
      | DecimalType \<Rightarrow> readCompactedDecimal encoded position lt
      | ArrayType \<Rightarrow> readCompactedNested encoded position lt
      | MapType \<Rightarrow> readCompactedNested encoded position lt
      | RowType \<Rightarrow> readCompactedNested encoded position lt
      | _ \<Rightarrow> Inl (Plain ''unsupported compacted type''))"
| "readCompactedNested encoded position lt =
     andThen (readLengthBytes encoded position) (\<lambda>(v, nxt).
       case dataTypeForLogicalType lt of
         ArrayType \<Rightarrow> (case ltElement lt of
             None \<Rightarrow> Inl (Panic ''nil pointer dereference'')
           | Some e \<Rightarrow> andThen (decodeBinaryArray e v CompactedEncoding)
               (\<lambda>xs. Inr (VArray xs, nxt)))
       | MapType \<Rightarrow> andThen (decodeBinaryMap lt v CompactedEncoding) (\<lambda>m. Inr (VMap m, nxt))
       | RowType \<Rightarrow> andThen (decodeRow (nestedSchema lt) v CompactedEncoding)
           (\<lambda>r. Inr (VRow r, nxt))
       | _ \<Rightarrow> Inl (Plain ''unsupported compacted type''))"
| "readIndexedValue encoded position lt len =
     (if \<not> indexedFixed lt then readIndexedVariable encoded position lt len
      else readIndexedFixed encoded position lt)"
| "readIndexedVariable encoded position lt len =
     andThen (readFixed encoded position len) (\<lambda>(v, nxt).
       case dataTypeForLogicalType lt of
         StringType \<Rightarrow> Inr (VString v, nxt)
       | CharType \<Rightarrow> Inr (VString v, nxt)
       | BytesType \<Rightarrow> Inr (VBytes v, nxt)
       | BinaryType \<Rightarrow> Inr (VBytes v, nxt)
       | DecimalType \<Rightarrow> Inr (VRat (scaledRat (signedBigInt v) (ltScale lt)), nxt)
       | ArrayType \<Rightarrow> (case ltElement lt of
             None \<Rightarrow> Inl (Panic ''nil pointer dereference'')
           | Some e \<Rightarrow> andThen (decodeBinaryArray e v IndexedEncoding)
               (\<lambda>xs. Inr (VArray xs, nxt)))
       | MapType \<Rightarrow> andThen (decodeBinaryMap lt v IndexedEncoding) (\<lambda>m. Inr (VMap m, nxt))
       | RowType \<Rightarrow> andThen (decodeRow (nestedSchema lt) v IndexedEncoding)
           (\<lambda>r. Inr (VRow r, nxt))
       | _ \<Rightarrow> Inl (Plain ''unsupported indexed variable type''))"
| "readIndexedFixed encoded position lt =
     (case dataTypeForLogicalType lt of
        IntType \<Rightarrow> andThen (readFixed encoded position 4) (\<lambda>(v, nxt).
          andThen (le_get 4 v 0) (\<lambda>x. Inr (VInt32 x, nxt)))
      | BigIntType \<Rightarrow> andThen (readFixed encoded position 8) (\<lambda>(v, nxt).
          andThen (le_get 8 v 0) (\<lambda>x. Inr (VInt64 x, nxt)))
      | DateType \<Rightarrow> andThen (readFixed encoded position 4) (\<lambda>(v, nxt).
          andThen (le_get 4 v 0) (\<lambda>x. Inr (VTime (temporalTime DateType x), nxt)))
      | TimeType \<Rightarrow> andThen (readFixed encoded position 4) (\<lambda>(v, nxt).
          andThen (le_get 4 v 0) (\<lambda>x. Inr (VTime (temporalTime TimeType x), nxt)))
      | TimestampType \<Rightarrow> readIndexedTimestamp encoded position lt
      | TimestampLTZType \<Rightarrow> readIndexedTimestamp encoded position lt
      | CharType \<Rightarrow> andThen (readFixed encoded position (ltLength lt)) (\<lambda>(v, nxt).
          Inr (VString (trimZero v), nxt))
      | BinaryType \<Rightarrow> andThen (readFixed encoded position (ltLength lt)) (\<lambda>(v, nxt).
          Inr (VBytes (trimZero v), nxt))
      | DecimalType \<Rightarrow> andThen (readFixed encoded position 8) (\<lambda>(v, nxt).
          andThen (le_get 8 v 0) (\<lambda>x :: 64 word.
            Inr (VRat (scaledRat (sint x) (ltScale lt)), nxt)))
      | _ \<Rightarrow> readCompactedValue encoded position lt)"
| "decodeBinaryArray elementType encoded enc =
     guardE (length encoded < 4 \<or> int (length encoded) > maxRowBytes)
       (Plain ''invalid binary array length'')
       (andThen (le_get 4 encoded 0) (\<lambda>count32 :: 32 word.
        guardE (uint count32 > maxRowBytes div 8)
          (Plain ''array element count exceeds allocation limit'')
          (let count = uint count32; nullBytes = ((count + 31) div 32) * 4;
               fixedBytes = align8 (4 + nullBytes + arraySlotSize elementType * count) in
           guardE (fixedBytes > int (length encoded)) (Plain ''truncated binary array'')
             (decodeElements elementType encoded enc nullBytes 0 (nat count)))))"
| "decodeElements elementType encoded enc nullBytes i 0 = Inr []"
| "decodeElements elementType encoded enc nullBytes i (Suc n) =
     andThen (getNullBit encoded 4 i) (\<lambda>isNull.
     if isNull then
       guardE (\<not> ltNullable elementType) (Plain ''non-nullable array element is null'')
         (andThen (decodeElements elementType encoded enc nullBytes (Suc i) n)
            (\<lambda>vs. Inr (VNil # vs)))
     else
       andThen (readArrayElement encoded (4 + nullBytes + arraySlotSize elementType * int i)
                  elementType enc) (\<lambda>v.
       andThen (decodeElements elementType encoded enc nullBytes (Suc i) n)
         (\<lambda>vs. Inr (v # vs))))"
| "decodeBinaryMap lt encoded enc =
     guardE (length encoded < 4) (Plain ''truncated binary map'')
       (andThen (le_get 4 encoded 0) (\<lambda>keyLength32 :: 32 word.
        let keyLength = uint keyLength32 in
        guardE (keyLength > int (length encoded) - 4) (Plain ''invalid binary map key length'')
          (case ltKey lt of None \<Rightarrow> Inl (Panic ''nil pointer dereference'')
           | Some k \<Rightarrow>
               andThen (go_slice encoded 4 (4 + keyLength)) (\<lambda>keyBytes.
               andThen (decodeBinaryArray k keyBytes enc) (\<lambda>keys.
               (case ltValue lt of None \<Rightarrow> Inl (Panic ''nil pointer dereference'')
                | Some v \<Rightarrow>
                    andThen (go_slice encoded (4 + keyLength) (int (length encoded)))
                      (\<lambda>valueBytes.
                    andThen (decodeBinaryArray v valueBytes enc) (\<lambda>values.
                      guardE (length keys \<noteq> length values)
                        (Plain ''binary map key/value count mismatch'')
                        (Inr (zip keys values))))))))))"
| "readArrayElement encoded slot lt enc =
     (let kind = dataTypeForLogicalType lt in
      guardE (slot < 0 \<or> arraySlotSize lt > int (length encoded) - slot)
        (Plain ''truncated array slot'')
        (if arrayPrimitive kind then readArrayPrimitive encoded slot kind
         else case kind of
           DateType \<Rightarrow> andThen (le_get 4 encoded slot) (\<lambda>x. Inr (VTime (temporalTime DateType x)))
         | TimeType \<Rightarrow> andThen (le_get 4 encoded slot) (\<lambda>x. Inr (VTime (temporalTime TimeType x)))
         | DecimalType \<Rightarrow> readArrayDecimal encoded slot lt
         | TimestampType \<Rightarrow> readArrayTimestamp encoded slot lt
         | TimestampLTZType \<Rightarrow> readArrayTimestamp encoded slot lt
         | StringType \<Rightarrow> andThen (unpackedArrayBytes encoded slot) (\<lambda>v. Inr (VString v))
         | CharType \<Rightarrow> andThen (unpackedArrayBytes encoded slot) (\<lambda>v. Inr (VString v))
         | BytesType \<Rightarrow> andThen (unpackedArrayBytes encoded slot) (\<lambda>v. Inr (VBytes v))
         | BinaryType \<Rightarrow> andThen (unpackedArrayBytes encoded slot) (\<lambda>v. Inr (VBytes v))
         | ArrayType \<Rightarrow> readArrayNested encoded slot lt enc
         | MapType \<Rightarrow> readArrayNested encoded slot lt enc
         | RowType \<Rightarrow> readArrayNested encoded slot lt enc
         | _ \<Rightarrow> Inl (Plain ''unsupported array element type'')))"
| "readArrayNested encoded slot lt enc =
     andThen (arrayVariable encoded slot) (\<lambda>v.
       case dataTypeForLogicalType lt of
         ArrayType \<Rightarrow> (case ltElement lt of
             None \<Rightarrow> Inl (Panic ''nil pointer dereference'')
           | Some e \<Rightarrow> andThen (decodeBinaryArray e v enc) (\<lambda>xs. Inr (VArray xs)))
       | MapType \<Rightarrow> andThen (decodeBinaryMap lt v enc) (\<lambda>m. Inr (VMap m))
       | RowType \<Rightarrow> andThen (decodeRow (nestedSchema lt) v enc) (\<lambda>r. Inr (VRow r))
       | _ \<Rightarrow> Inl (Plain ''unsupported nested array element type''))"
  by pat_completeness auto

termination
  by (relation "measures
    [\<lambda>s. case s of
       Inl (Inl (Inl (schema, encoded, enc))) \<Rightarrow> columnsWeight (Columns schema)
     | Inl (Inl (Inr (Inl (encoded, enc, i, cs, p, lp)))) \<Rightarrow> columnsWeight cs
     | Inl (Inl (Inr (Inr (encoded, p, lt, enc, len)))) \<Rightarrow> size lt
     | Inl (Inr (Inl (encoded, p, lt))) \<Rightarrow> size lt
     | Inl (Inr (Inr (Inl (encoded, p, lt)))) \<Rightarrow> size lt
     | Inl (Inr (Inr (Inr (encoded, p, lt, len)))) \<Rightarrow> size lt
     | Inr (Inl (Inl (encoded, p, lt, len))) \<Rightarrow> size lt
     | Inr (Inl (Inr (Inl (encoded, p, lt)))) \<Rightarrow> size lt
     | Inr (Inl (Inr (Inr (e, encoded, enc)))) \<Rightarrow> size e
     | Inr (Inr (Inl (Inl (e, encoded, enc, nb, i, n)))) \<Rightarrow> size e
     | Inr (Inr (Inl (Inr (lt, encoded, enc)))) \<Rightarrow> size lt
     | Inr (Inr (Inr (Inl (encoded, slot, lt, enc)))) \<Rightarrow> size lt
     | Inr (Inr (Inr (Inr (encoded, slot, lt, enc)))) \<Rightarrow> size lt,
     \<lambda>s. case s of
       Inl (Inl (Inl _)) \<Rightarrow> 7
     | Inl (Inl (Inr (Inl _))) \<Rightarrow> 6
     | Inl (Inl (Inr (Inr _))) \<Rightarrow> 5
     | Inl (Inr (Inl _)) \<Rightarrow> 2
     | Inl (Inr (Inr (Inl _))) \<Rightarrow> 1
     | Inl (Inr (Inr (Inr _))) \<Rightarrow> 4
     | Inr (Inl (Inl _)) \<Rightarrow> 3
     | Inr (Inl (Inr (Inl _))) \<Rightarrow> 3
     | Inr (Inl (Inr (Inr _))) \<Rightarrow> 4
     | Inr (Inr (Inl (Inl _))) \<Rightarrow> 3
     | Inr (Inr (Inl (Inr _))) \<Rightarrow> 0
     | Inr (Inr (Inr (Inl _))) \<Rightarrow> 2
     | Inr (Inr (Inr (Inr _))) \<Rightarrow> 1,
     \<lambda>s. case s of
       Inl (Inl (Inr (Inl (encoded, enc, i, cs, p, lp)))) \<Rightarrow> length cs
     | Inr (Inr (Inl (Inl (e, encoded, enc, nb, i, n)))) \<Rightarrow> n
     | _ \<Rightarrow> 0]")
   (auto simp: lt_size columnsWeight_nested)

declare encodeRow.simps [simp del] encodeRowValue.simps [simp del]
  appendCompactedValue.simps [simp del] appendIndexedValue.simps [simp del]
  encodeBinaryArray.simps [simp del] encodeBinaryMap.simps [simp del]
  writeArrayElement.simps [simp del] encodeElements.simps [simp del] encodeColumns.simps [simp del]

declare decodeRow.simps [simp del] decodeRowValue.simps [simp del]
  readCompactedValue.simps [simp del] readCompactedNested.simps [simp del]
  readIndexedValue.simps [simp del] readIndexedVariable.simps [simp del]
  readIndexedFixed.simps [simp del] decodeBinaryArray.simps [simp del]
  decodeBinaryMap.simps [simp del] readArrayElement.simps [simp del]
  readArrayNested.simps [simp del] decodeColumns.simps [simp del] decodeElements.simps [simp del]

section \<open>The public entry points\<close>

definition EncodeCompactedRow :: "schema \<Rightarrow> row \<Rightarrow> bytes result" where
  "EncodeCompactedRow s row = encodeRow s row CompactedEncoding"

definition DecodeCompactedRow :: "schema \<Rightarrow> bytes \<Rightarrow> row result" where
  "DecodeCompactedRow s encoded = decodeRow s encoded CompactedEncoding"

definition EncodeIndexedRow :: "schema \<Rightarrow> row \<Rightarrow> bytes result" where
  "EncodeIndexedRow s row = encodeRow s row IndexedEncoding"

definition DecodeIndexedRow :: "schema \<Rightarrow> bytes \<Rightarrow> row result" where
  "DecodeIndexedRow s encoded = decodeRow s encoded IndexedEncoding"

text \<open>The loop of \<^verbatim>\<open>projectSchema\<close>, with the names already seen.\<close>

fun projectColumns :: "(string \<rightharpoonup> column) \<Rightarrow> string list \<Rightarrow> string list \<Rightarrow> column list result" where
  "projectColumns byName seen [] = Inr []"
| "projectColumns byName seen (name # names) =
     (case byName name of None \<Rightarrow> Inl ErrInvalidSchema
      | Some c \<Rightarrow> guardE (name \<in> set seen) ErrInvalidSchema
          (andThen (projectColumns byName (name # seen) names) (\<lambda>cs. Inr (c # cs))))"

definition projectSchema :: "schema \<Rightarrow> string list \<Rightarrow> schema result" where
  "projectSchema s names =
     andThen (Schema_Validate s) (\<lambda>_.
       guardE (names = []) ErrInvalidSchema
         (andThen (projectColumns (columnsByName s) [] names) (\<lambda>cs.
            Inr \<lparr>Columns = cs, PrimaryKey = [], BucketKey = [], PartitionKey = [],
                 AutoIncrement = [], HighestFieldID = 0\<rparr>)))"

definition EncodeCompactedProjectedRow :: "schema \<Rightarrow> string list \<Rightarrow> row \<Rightarrow> bytes result" where
  "EncodeCompactedProjectedRow s columns row =
     andThen (projectSchema s columns) (\<lambda>p. encodeRow p row CompactedEncoding)"

definition DecodeCompactedProjectedRow :: "schema \<Rightarrow> string list \<Rightarrow> bytes \<Rightarrow> row result" where
  "DecodeCompactedProjectedRow s columns encoded =
     andThen (projectSchema s columns) (\<lambda>p. decodeRow p encoded CompactedEncoding)"

definition EncodeIndexedProjectedRow :: "schema \<Rightarrow> string list \<Rightarrow> row \<Rightarrow> bytes result" where
  "EncodeIndexedProjectedRow s columns row =
     andThen (projectSchema s columns) (\<lambda>p. encodeRow p row IndexedEncoding)"

definition DecodeIndexedProjectedRow :: "schema \<Rightarrow> string list \<Rightarrow> bytes \<Rightarrow> row result" where
  "DecodeIndexedProjectedRow s columns encoded =
     andThen (projectSchema s columns) (\<lambda>p. decodeRow p encoded IndexedEncoding)"

text \<open>Keys: the compacted values of the key columns, without a bitmap.\<close>

fun encodeKeyLoop :: "(string \<rightharpoonup> column) \<Rightarrow> string list \<Rightarrow> row \<Rightarrow> bytes \<Rightarrow> bytes result" where
  "encodeKeyLoop byName [] vs encoded = Inr encoded"
| "encodeKeyLoop byName (name # names) [] encoded = Inl (Panic ''index out of range'')"
| "encodeKeyLoop byName (name # names) (v # vs) encoded =
     guardE (v = VNil) ErrInvalidRow
       (case byName name of
          None \<Rightarrow> Inl (Plain ''unsupported compacted type'')
        | Some c \<Rightarrow> andThen (appendCompactedValue encoded (logicalTypeForColumn c) v)
            (\<lambda>encoded'. encodeKeyLoop byName names vs encoded'))"

definition encodeKeyColumns :: "schema \<Rightarrow> string list \<Rightarrow> row \<Rightarrow> bytes result" where
  "encodeKeyColumns s names vs =
     andThen (ValidateRow s vs names) (\<lambda>_.
       andThen (encodeKeyLoop (columnsByName s) names vs []) (\<lambda>encoded.
         guardE (int (length encoded) > maxRowBytes) ErrMalformedRow (Inr encoded)))"

definition EncodePrimaryKey :: "schema \<Rightarrow> row \<Rightarrow> bytes result" where
  "EncodePrimaryKey s key =
     andThen (ValidatePrimaryKey s key) (\<lambda>_. encodeKeyColumns s (PrimaryKey s) key)"

definition EncodeLookupKey :: "schema \<Rightarrow> row \<Rightarrow> 16 word \<Rightarrow> bytes result" where
  "EncodeLookupKey s key version =
     guardE (version \<noteq> 0 \<and> version \<noteq> 1) ErrInvalidConfig (EncodePrimaryKey s key)"

definition EncodePrefixKey :: "schema \<Rightarrow> row \<Rightarrow> bytes result" where
  "EncodePrefixKey s prefix =
     guardE (prefix = [] \<or> length prefix > length (PrimaryKey s)) ErrInvalidRow
       (encodeKeyColumns s (take (length prefix) (PrimaryKey s)) prefix)"

definition EncodePrefixLookupKey :: "schema \<Rightarrow> row \<Rightarrow> 16 word \<Rightarrow> bytes result" where
  "EncodePrefixLookupKey s prefix version =
     guardE (version \<noteq> 0 \<and> version \<noteq> 1) ErrInvalidConfig (EncodePrefixKey s prefix)"

end
