(* ===== verification/Leaf_Roundtrip.thy ===== *)
theory Leaf_Roundtrip
  imports Row_Codec
begin

text \<open>
  Lemmas on the leaves of the row codec that its round trip needs: null bitmaps, fields overwritten
  in place, exact decimals, the two's-complement byte strings of wide decimals, and the 64-bit
  slots of a binary array (inline bytes, or an offset and a size).
\<close>

section \<open>Null bits\<close>

definition nullBit :: "bytes \<Rightarrow> nat \<Rightarrow> nat \<Rightarrow> bool" where
  "nullBit bs base i = bit (bs ! (base + i div 8)) (i mod 8)"

lemma int_div8 [simp]: "int i div 8 = int (i div 8)"
  by simp

lemma bit_byte_exp: "bit (2 ^ k :: byte) n \<longleftrightarrow> n = k \<and> k < 8"
  by (auto simp: bit_exp_iff)

lemma and_push_bit_1: "(b :: byte) AND push_bit k 1 \<noteq> 0 \<longleftrightarrow> bit b k"
proof
  assume "b AND push_bit k 1 \<noteq> 0"
  then obtain n where "bit (b AND push_bit k 1) n"
    by (auto simp: bit_eq_iff)
  then show "bit b k"
    by (auto simp: bit_and_iff bit_byte_exp)
next
  assume b: "bit b k"
  then have "k < 8" using bit_imp_le_length [OF b] by simp
  with b have "bit (b AND push_bit k 1) k"
    by (simp add: bit_and_iff bit_byte_exp)
  then show "b AND push_bit k 1 \<noteq> 0" by auto
qed

lemma getNullBit_ok:
  "base + i div 8 < length bs \<Longrightarrow> getNullBit bs (int base) i = Inr (nullBit bs base i)"
  using and_push_bit_1 [of "bs ! (base + i div 8)" "i mod 8"]
  by (simp add: getNullBit_def go_index_def nullBit_def nat_add_distrib)

lemma setNullBit_ok:
  "base + i div 8 < length bs \<Longrightarrow>
   setNullBit bs (int base) i =
     Inr (bs[base + i div 8 := bs ! (base + i div 8) OR push_bit (i mod 8) 1])"
  by (simp add: setNullBit_def go_index_def go_set_def nat_add_distrib)

lemma setNullBit_Inr_D:
  assumes "setNullBit bs (int base) i = Inr bs'"
  shows "base + i div 8 < length bs" "length bs' = length bs"
    "nullBit bs' base k = (k = i \<or> nullBit bs base k)"
    "j \<noteq> base + i div 8 \<Longrightarrow> bs' ! j = bs ! j"
proof -
  have r: "base + i div 8 < length bs"
    using assms by (auto simp: setNullBit_def go_index_def split: if_splits)
  with assms have bs': "bs' = bs[base + i div 8 := bs ! (base + i div 8) OR push_bit (i mod 8) 1]"
    by (simp add: setNullBit_ok)
  show "base + i div 8 < length bs" by (rule r)
  show "length bs' = length bs" by (simp add: bs')
  show "j \<noteq> base + i div 8 \<Longrightarrow> bs' ! j = bs ! j" by (simp add: bs')
  have eq: "k = i \<longleftrightarrow> k div 8 = i div 8 \<and> k mod 8 = i mod 8"
    by (metis div_mult_mod_eq)
  show "nullBit bs' base k = (k = i \<or> nullBit bs base k)"
    unfolding eq nullBit_def bs' using r
    by (cases "k div 8 = i div 8") (simp_all add: bit_or_iff bit_byte_exp, auto)
qed

section \<open>Reading and writing in place\<close>

lemma nth_overwrite:
  "off + length vs \<le> length xs \<Longrightarrow> j < length xs \<Longrightarrow>
   overwrite xs off vs ! j = (if off \<le> j \<and> j < off + length vs then vs ! (j - off) else xs ! j)"
  by (auto simp: overwrite_def nth_append)

lemma take_drop_eqI:
  assumes "length bs \<ge> off + length vs"
    and "\<And>j. off \<le> j \<Longrightarrow> j < off + length vs \<Longrightarrow> bs ! j = vs ! (j - off)"
  shows "take (length vs) (drop off bs) = vs"
  using assms by (intro nth_equalityI) auto

lemma le_get_at:
  assumes "length bs \<ge> off + n" "LENGTH('a) \<le> 8 * n"
    and "\<And>j. off \<le> j \<Longrightarrow> j < off + n \<Longrightarrow> bs ! j = le_bytes n w ! (j - off)"
  shows "le_get n bs (int off) = Inr (w :: 'a::len word)"
proof -
  have "take n (drop off bs) = le_bytes n w"
    using take_drop_eqI [of off "le_bytes n w" bs] assms by simp
  then show ?thesis
    using assms by (simp add: le_get_ok codec_rt)
qed

lemma le_put_Inr_D:
  assumes "le_put n bs (int off) (w :: 'a::len word) = Inr bs'"
  shows "off + n \<le> length bs" "length bs' = length bs"
    "j < length bs \<Longrightarrow> bs' ! j = (if off \<le> j \<and> j < off + n then le_bytes n w ! (j - off) else bs ! j)"
  using assms by (auto simp: le_put_def nth_overwrite split: if_splits)

lemma readFixed_at:
  assumes "length bs \<ge> off + length vs"
    and "\<And>j. off \<le> j \<Longrightarrow> j < off + length vs \<Longrightarrow> bs ! j = vs ! (j - off)"
  shows "readFixed bs (int off) (int (length vs)) = Inr (vs, int off + int (length vs))"
  using take_drop_eqI [OF assms] assms(1) by (simp add: readFixed_def go_slice_def)

section \<open>Decimals and big integers\<close>

lemma decimalDigits_bound: "n < 10 ^ decimalDigits n"
proof (induction n rule: decimalDigits.induct)
  case (1 n)
  show ?case
  proof (cases "n < 10")
    case True
    then show ?thesis by (simp add: decimalDigits.simps [of n])
  next
    case False
    with 1 have "n div 10 < 10 ^ decimalDigits (n div 10)" by simp
    then have "n < 10 * 10 ^ decimalDigits (n div 10)" by simp
    with False show ?thesis by (simp add: decimalDigits.simps [of n])
  qed
qed

lemma decimalUnscaled_Inr_D:
  assumes "decimalUnscaled v lt = Inr u"
  shows "scaledRat u (ltScale lt) = v" "\<bar>u\<bar> < 10 ^ nat (ltPrecision lt)" "0 < ltPrecision lt"
    "0 \<le> ltScale lt"
proof -
  let ?f = "10 ^ nat (ltScale lt) :: int"
  let ?q = "quotient_of (v * of_int ?f)"
  from assms have 1: "snd ?q = 1" and u: "u = fst ?q" and p: "0 < ltPrecision lt"
    and sc: "0 \<le> ltScale lt"
    and d: "int (decimalDigits (nat \<bar>u\<bar>)) \<le> ltPrecision lt"
    by (auto simp: decimalUnscaled_def Let_def)
  have "?q = (u, 1)" using 1 u by (metis prod.collapse)
  then have "v * of_int ?f = of_int u" using quotient_of_div by fastforce
  then show "scaledRat u (ltScale lt) = v"
    by (simp add: scaledRat_def field_simps)
  have "nat \<bar>u\<bar> < 10 ^ decimalDigits (nat \<bar>u\<bar>)" by (rule decimalDigits_bound)
  also have "\<dots> \<le> (10 :: nat) ^ nat (ltPrecision lt)"
    using d by (intro power_increasing) auto
  finally have "int (nat \<bar>u\<bar>) < int (10 ^ nat (ltPrecision lt))"
    by (simp only: of_nat_less_iff)
  then show "\<bar>u\<bar> < 10 ^ nat (ltPrecision lt)" by simp
  show "0 < ltPrecision lt" "0 \<le> ltScale lt" by (rule p, rule sc)
qed

lemma sint_unscaled:
  assumes "decimalUnscaled v lt = Inr u" "ltPrecision lt \<le> 18"
  shows "sint (word_of_int u :: 64 word) = u"
proof -
  have "\<bar>u\<bar> < 10 ^ nat (ltPrecision lt)" using decimalUnscaled_Inr_D [OF assms(1)] by simp
  also have "\<dots> \<le> (10 :: int) ^ 18"
    using assms(2) by (intro power_increasing) auto
  finally have "\<bar>u\<bar> < 10 ^ 18" .
  then show ?thesis
    by (simp add: signed_of_int signed_take_bit_int_eq_self)
qed

lemma bytesNat_foldl: "foldl (\<lambda>n b. n * 256 + unat b) a bs = a * 256 ^ length bs + bytesNat bs"
proof (induction bs arbitrary: a)
  case Nil
  then show ?case by (simp add: bytesNat_def)
next
  case (Cons b bs)
  have "bytesNat (b # bs) = unat b * 256 ^ length bs + bytesNat bs"
    using Cons [of "unat b"] by (simp add: bytesNat_def)
  with Cons [of "a * 256 + unat b"] show ?case
    by (simp add: algebra_simps)
qed

lemma bytesNat_Cons: "bytesNat (b # bs) = unat b * 256 ^ length bs + bytesNat bs"
  using bytesNat_foldl [of "unat b" bs] by (simp add: bytesNat_def)

lemma bytesNat_snoc: "bytesNat (bs @ [b]) = bytesNat bs * 256 + unat b"
  by (simp add: bytesNat_def)

lemma bytesNat_Nil [simp]: "bytesNat [] = 0"
  by (simp add: bytesNat_def)

lemma unat_byte_less: "unat (b :: byte) < 256"
  using unsigned_less [of b] by simp

lemma bytesNat_less: "bytesNat bs < 256 ^ length bs"
proof (induction bs)
  case (Cons b bs)
  have "unat b * 256 ^ length bs + bytesNat bs < unat b * 256 ^ length bs + 256 ^ length bs"
    using Cons by simp
  also have "\<dots> = (unat b + 1) * 256 ^ length bs" by simp
  also have "\<dots> \<le> 256 * 256 ^ length bs"
    using unat_byte_less [of b] by (intro mult_right_mono) auto
  finally show ?case by (simp add: bytesNat_Cons)
qed simp

lemma bytesNat_natBytes: "bytesNat (natBytes n) = n"
proof (induction n rule: natBytes.induct)
  case (1 n)
  show ?case
  proof (cases "n = 0")
    case True
    then show ?thesis by (simp add: natBytes.simps)
  next
    case False
    have "unat (of_nat (n mod 256) :: byte) = n mod 256"
      by (simp add: unsigned_of_nat take_bit_eq_mod)
    with False 1 show ?thesis
      by (simp add: natBytes.simps [of n] bytesNat_snoc)
  qed
qed

lemma length_natBytes_le: "n < 256 ^ w \<Longrightarrow> length (natBytes n) \<le> w"
proof (induction w arbitrary: n)
  case 0
  then show ?case by (simp add: natBytes.simps)
next
  case (Suc w)
  then have "n div 256 < 256 ^ w" by (simp add: less_mult_imp_div_less mult.commute)
  then have "length (natBytes (n div 256)) \<le> w" by (rule Suc.IH)
  then show ?case by (simp add: natBytes.simps [of n])
qed

lemma length_natBytes_ge: "256 ^ w \<le> n \<Longrightarrow> Suc w \<le> length (natBytes n)"
proof (rule ccontr)
  assume "256 ^ w \<le> n" "\<not> Suc w \<le> length (natBytes n)"
  then have "(256 :: nat) ^ length (natBytes n) \<le> 256 ^ w"
    by (intro power_increasing) auto
  with \<open>256 ^ w \<le> n\<close> show False
    using bytesNat_less [of "natBytes n"] bytesNat_natBytes [of n] by simp
qed

lemma byte_bit7: "bit (b :: byte) 7 \<longleftrightarrow> 128 \<le> unat b"
proof -
  have "bit (unat b) 7 = bit b 7" by (simp add: bit_unsigned_iff)
  moreover have "bit (unat b) 7 = odd (unat b div 128)" by (simp add: bit_iff_odd)
  moreover have "unat b div 128 = 0 \<or> unat b div 128 = 1"
    using unat_byte_less [of b] by linarith
  ultimately show ?thesis by auto
qed

lemma natBytes_top:
  assumes "128 * 256 ^ w \<le> n" "n < 256 ^ Suc w"
  obtains b bs where "natBytes n = b # bs" "length bs = w" "bit b 7"
proof -
  have "256 ^ w \<le> n" using assms(1) by (rule order_trans [rotated]) simp
  then have len: "length (natBytes n) = Suc w"
    using length_natBytes_le [OF assms(2)] length_natBytes_ge [of w n] by simp
  then obtain b bs where b: "natBytes n = b # bs" "length bs = w"
    by (cases "natBytes n") auto
  have "n = unat b * 256 ^ w + bytesNat bs"
    using bytesNat_natBytes [of n] b by (simp add: bytesNat_Cons)
  also have "\<dots> < (unat b + 1) * 256 ^ w"
    using bytesNat_less [of bs] b by simp
  finally have "128 * 256 ^ w < (unat b + 1) * 256 ^ w"
    using assms(1) by linarith
  then have "128 < unat b + 1" by (rule mult_right_less_imp_less) simp
  then have "bit b 7" by (simp add: byte_bit7)
  with b that show thesis by blast
qed

lemma bitLen_bound: "n < 2 ^ bitLen n"
proof (induction n rule: bitLen.induct)
  case (1 n)
  show ?case
  proof (cases "n = 0")
    case True
    then show ?thesis by (simp add: bitLen.simps)
  next
    case False
    with 1 have "n div 2 < 2 ^ bitLen (n div 2)" by simp
    then have "n < 2 * 2 ^ bitLen (n div 2)" by simp
    with False show ?thesis by (simp add: bitLen.simps [of n])
  qed
qed

lemma bitLen_le: "n < 2 ^ k \<Longrightarrow> bitLen n \<le> k"
proof (induction k arbitrary: n)
  case 0
  then show ?case by (simp add: bitLen.simps)
next
  case (Suc k)
  then have "n div 2 < 2 ^ k" by (simp add: less_mult_imp_div_less mult.commute)
  then have "bitLen (n div 2) \<le> k" by (rule Suc.IH)
  then show ?case by (simp add: bitLen.simps [of n])
qed

lemma width_bound: "Suc w = (l + 8) div 8 \<Longrightarrow> (l :: nat) < 8 * Suc w"
  using dividend_less_div_times [of 8 "l + 8"] by simp

lemma pow256: "(2 :: nat) ^ (w * 8) = 256 ^ w"
  by (subst mult.commute) (simp add: power_mult)

text \<open>The negative branch: the width always leaves room for the sign bit, so the padding and the
  widening of the code are never taken.\<close>

lemma signedBigEndian_neg:
  assumes "v < 0" and w: "Suc w = (bitLen (nat \<bar>v\<bar>) + 8) div 8"
  obtains b bs where "signedBigEndian v = b # bs" "length bs = w" "bit b 7"
    "natBytes (nat (2 ^ (Suc w * 8) + v)) = b # bs"
proof -
  let ?n = "nat (2 ^ (Suc w * 8) + v)"
  have "nat \<bar>v\<bar> < 2 ^ bitLen (nat \<bar>v\<bar>)" by (rule bitLen_bound)
  also have "\<dots> \<le> 2 ^ (w * 8 + 7)"
  proof -
    have "bitLen (nat \<bar>v\<bar>) < 8 * Suc w"
      using w by (rule width_bound)
    then show ?thesis by (intro power_increasing) auto
  qed
  finally have "nat \<bar>v\<bar> < 2 ^ (w * 8 + 7)" .
  then have "int (nat \<bar>v\<bar>) < int (2 ^ (w * 8 + 7))" by (simp only: of_nat_less_iff)
  then have a: "- v < 2 ^ (w * 8 + 7)" using assms(1) by simp
  have p: "(2 :: int) ^ (Suc w * 8) = 2 * 2 ^ (w * 8 + 7)"
    by (simp add: power_add)
  have ge: "2 ^ (w * 8 + 7) \<le> 2 ^ (Suc w * 8) + v" using a p by linarith
  have "(0 :: int) \<le> 2 ^ (w * 8 + 7)" by simp
  with ge have "0 \<le> 2 ^ (Suc w * 8) + v" by (rule order_trans [rotated])
  with ge have "int (2 ^ (w * 8 + 7)) \<le> int ?n" by simp
  then have lo: "128 * 256 ^ w \<le> ?n"
    by (simp only: of_nat_le_iff power_add pow256) simp
  have "int ?n < int (2 ^ (Suc w * 8))" using assms(1) a p by simp
  then have hi: "?n < 256 ^ Suc w"
    by (simp only: of_nat_less_iff pow256)
  obtain b bs where b: "natBytes ?n = b # bs" "length bs = w" "bit b 7"
    by (rule natBytes_top [OF lo hi])
  have "signedBigEndian v = b # bs"
    using assms b by (simp add: signedBigEndian_def Let_def w [symmetric] byte_and_80)
  with b that show thesis by blast
qed

theorem signedBigInt_signedBigEndian: "signedBigInt (signedBigEndian v) = v"
proof (cases "v < 0")
  case True
  define w where "w = (bitLen (nat \<bar>v\<bar>) + 8) div 8 - 1"
  have w: "Suc w = (bitLen (nat \<bar>v\<bar>) + 8) div 8" by (simp add: w_def)
  obtain b bs where b: "signedBigEndian v = b # bs" "length bs = w" "bit b 7"
    "natBytes (nat (2 ^ (Suc w * 8) + v)) = b # bs"
    by (rule signedBigEndian_neg [OF True w])
  have "nat \<bar>v\<bar> < 2 ^ (Suc w * 8)"
  proof -
    have "bitLen (nat \<bar>v\<bar>) \<le> Suc w * 8" using width_bound [OF w] by simp
    then show ?thesis
      by (meson bitLen_bound less_le_trans one_le_numeral power_increasing)
  qed
  then have "int (nat \<bar>v\<bar>) < int (2 ^ (Suc w * 8))" by (simp only: of_nat_less_iff)
  then have "int (bytesNat (b # bs)) = 2 ^ (Suc w * 8) + v"
    using True bytesNat_natBytes [of "nat (2 ^ (Suc w * 8) + v)"] b(4) by simp
  with b show ?thesis
    by (simp add: signedBigInt_def byte_and_80)
next
  case False
  show ?thesis
  proof (cases "natBytes (nat v)")
    case Nil
    then have "v = 0"
      using bytesNat_natBytes [of "nat v"] False by simp
    with Nil False show ?thesis
      by (simp add: signedBigEndian_def signedBigInt_def bytesNat_def)
  next
    case (Cons b bs)
    then have "bytesNat (b # bs) = nat v"
      using bytesNat_natBytes [of "nat v"] by simp
    with Cons False show ?thesis
      by (auto simp: signedBigEndian_def signedBigInt_def byte_and_80 bytesNat_Cons [of 0])
  qed
qed

section \<open>Packed and variable array slots\<close>

lemma bit_le_word:
  "bit (le_word bs :: 'a::len word) k \<longleftrightarrow>
     k < LENGTH('a) \<and> k < 8 * length bs \<and> bit (bs ! (k div 8)) (k mod 8)"
proof (induction bs arbitrary: k)
  case Nil
  then show ?case by simp
next
  case (Cons b bs)
  show ?case
  proof (cases "k < 8")
    case True
    then show ?thesis
      by (auto simp: bit_or_iff bit_push_bit_iff bit_ucast_iff dest: bit_imp_le_length)
  next
    case False
    then have k: "k div 8 = Suc ((k - 8) div 8)" "k mod 8 = (k - 8) mod 8"
      by (auto simp: le_div_geq le_mod_geq)
    have nb: "\<not> bit b k"
      using False bit_imp_le_length [of b k] by auto
    from False show ?thesis
      by (auto simp: bit_or_iff bit_push_bit_iff bit_ucast_iff Cons k nb)
  qed
qed

lemma packBytes_eq: "packBytes i bs p = p OR push_bit (8 * i) (le_word bs)"
proof (induction bs arbitrary: i p)
  case Nil
  then show ?case by simp
next
  case (Cons b bs)
  have "push_bit (8 * i) (ucast b :: 64 word) OR push_bit (8 * Suc i) (le_word bs)
          = push_bit (8 * i) (le_word (b # bs))"
    by (simp add: push_bit_or push_bit_push_bit add.commute)
  then show ?case
    by (simp add: Cons or.assoc)
qed

lemma packed_fields:
  assumes n: "length v \<le> 7"
    and p: "packed = packBytes 0 v (push_bit 56 (of_nat (length v) OR 0x80 :: 64 word))"
  shows "drop_bit 63 packed \<noteq> 0"
    and "unat (ucast (drop_bit 56 packed AND 0x7f) :: byte) = length v"
    and "map (\<lambda>i. ucast (drop_bit (8 * i) packed)) [0..<length v] = v"
proof -
  let ?h = "of_nat (length v) OR 0x80 :: 64 word"
  have b80: "bit (0x80 :: 64 word) k \<longleftrightarrow> k = 7" for k
  proof -
    have "bit (push_bit 7 (1 :: 64 word)) k \<longleftrightarrow> k = 7"
      by (simp only: bit_push_bit_iff bit_1_iff) auto
    then show ?thesis by simp
  qed
  have len: "bit (of_nat (length v) :: 64 word) k \<longleftrightarrow> k < 3 \<and> bit (length v) k" for k
  proof (cases "k < 3")
    case True
    then show ?thesis by (simp add: bit_of_nat_iff)
  next
    case False
    have "length v < 2 ^ k"
      using n power_increasing [of 3 k "2 :: nat"] False by simp
    then have "\<not> bit (length v) k"
      by (simp add: bit_iff_odd)
    then show ?thesis by (simp add: bit_of_nat_iff)
  qed
  have bit: "bit packed k \<longleftrightarrow>
      (k = 63 \<or> 56 \<le> k \<and> k < 59 \<and> bit (length v) (k - 56)) \<or> bit (le_word v :: 64 word) k" for k
    unfolding p packBytes_eq
    by (simp only: bit_or_iff bit_push_bit_iff b80 len) (auto simp: bit_le_word)
  have "bit (drop_bit 63 packed) 0"
    by (simp add: bit_drop_bit_eq bit)
  then show "drop_bit 63 packed \<noteq> 0" by auto
  have m: "(w :: 64 word) AND 0x7f = take_bit 7 w" for w
    by (simp add: take_bit_eq_mask mask_eq_exp_minus_1)
  have "(ucast (drop_bit 56 packed AND 0x7f) :: byte) = of_nat (length v)"
  proof (rule bit_word_eqI)
    fix k assume "k < LENGTH(8)"
    have "bit (of_nat (length v) :: byte) k \<longleftrightarrow> k < 3 \<and> bit (length v) k"
    proof (cases "k < 3")
      case False
      have "length v < 2 ^ k"
        using n power_increasing [of 3 k "2 :: nat"] False by simp
      then have "\<not> bit (length v) k" by (simp add: bit_iff_odd)
      then show ?thesis by (simp add: bit_of_nat_iff)
    qed (simp add: bit_of_nat_iff)
    moreover have "\<not> bit (le_word v :: 64 word) (56 + k)"
      using n by (simp add: bit_le_word)
    ultimately show "bit (ucast (drop_bit 56 packed AND 0x7f) :: byte) k
        = bit (of_nat (length v) :: byte) k"
      unfolding m by (auto simp: bit_ucast_iff bit_take_bit_iff bit_drop_bit_eq bit)
  qed
  then show "unat (ucast (drop_bit 56 packed AND 0x7f) :: byte) = length v"
    using n by (simp add: unsigned_of_nat take_bit_nat_eq_self)
  show "map (\<lambda>i. ucast (drop_bit (8 * i) packed)) [0..<length v] = v"
  proof (rule nth_equalityI)
    fix i assume "i < length (map (\<lambda>i. ucast (drop_bit (8 * i) packed) :: byte) [0..<length v])"
    then have i: "i < length v" by simp
    have "(ucast (drop_bit (8 * i) packed) :: byte) = v ! i"
    proof (rule bit_word_eqI)
      fix k assume "k < LENGTH(8)"
      then have k: "k < 8" by simp
      have e: "(8 * i + k) div 8 = i" "(8 * i + k) mod 8 = k" using k by simp_all
      have "8 * i + k < 8 * length v" using i k by simp
      moreover from this have "8 * i + k < 56" using n by simp
      ultimately show "bit (ucast (drop_bit (8 * i) packed) :: byte) k = bit (v ! i) k"
        using k by (simp add: bit_ucast_iff bit_drop_bit_eq bit bit_le_word e add.commute)
    qed
    with i show "map (\<lambda>i. ucast (drop_bit (8 * i) packed)) [0..<length v] ! i = v ! i" by simp
  qed simp
qed

definition slotWord :: "int \<Rightarrow> int \<Rightarrow> 64 word" where
  "slotWord offset n =
     (push_bit 32 (ucast (word_of_int offset :: 32 word)) OR ucast (word_of_int n :: 32 word))"

lemma slotWord_fields:
  assumes "0 \<le> offset" "offset < 2 ^ 32" "0 \<le> n" "n < 2 ^ 32"
  shows "uint (drop_bit 32 (slotWord offset n)) = offset"
    and "uint (ucast (slotWord offset n) :: 32 word) = n"
proof -
  have "drop_bit 32 (slotWord offset n) = ucast (word_of_int offset :: 32 word)"
    by (intro bit_word_eqI)
      (auto simp: slotWord_def bit_drop_bit_eq bit_or_iff bit_push_bit_iff bit_ucast_iff
        dest: bit_imp_le_length)
  then show "uint (drop_bit 32 (slotWord offset n)) = offset"
    using assms by (simp add: unsigned_ucast_eq unsigned_of_int take_bit_int_eq_self)
  have "(ucast (slotWord offset n) :: 32 word) = word_of_int n"
    by (intro bit_word_eqI)
      (auto simp: slotWord_def bit_or_iff bit_push_bit_iff bit_ucast_iff)
  then show "uint (ucast (slotWord offset n) :: 32 word) = n"
    using assms by (simp add: unsigned_of_int take_bit_int_eq_self)
qed

lemma slotWord_not_packed:
  assumes "0 \<le> offset" "offset < 2 ^ 31"
  shows "drop_bit 63 (slotWord offset n) = 0"
proof (rule bit_word_eqI)
  fix k
  have "\<not> bit offset 31"
    using assms by (simp add: bit_iff_odd div_pos_pos_trivial)
  then have "\<not> bit (slotWord offset n) 63"
    by (auto simp: slotWord_def bit_or_iff bit_push_bit_iff bit_ucast_iff bit_word_of_int_iff
        dest: bit_imp_le_length)
  then show "bit (drop_bit 63 (slotWord offset n)) k = bit (0 :: 64 word) k"
    by (cases "k = 0") (auto simp: bit_drop_bit_eq dest: bit_imp_le_length)
qed

end
