(* ===== verification/Array_Roundtrip.thy ===== *)
theory Array_Roundtrip
  imports Leaf_Roundtrip
begin

text \<open>
  Decoding inverts encoding for binary arrays and maps: the value a decoder returns (\<open>canon\<close>), what
  one array slot keeps, what a slot write leaves alone, and the element loop. The contracts
  \<open>array_rt\<close>, \<open>map_rt\<close> and \<open>row_rt\<close> state the round trip of one routine of the codec; each is
  proved from the contracts of the routines it calls, and \<open>Row_Roundtrip\<close> closes the recursion.
\<close>

section \<open>Well-formed values and canonical values\<close>

text \<open>What every \<^verbatim>\<open>time.Time\<close> satisfies: the nanosecond is within its second.\<close>

fun wfValue :: "go_value \<Rightarrow> bool" where
  "wfValue (VTime t) \<longleftrightarrow> 0 \<le> nanosecond t \<and> nanosecond t < 1000000000"
| "wfValue (VArray vs) \<longleftrightarrow> (\<forall>v \<in> set vs. wfValue v)"
| "wfValue (VRow vs) \<longleftrightarrow> (\<forall>v \<in> set vs. wfValue v)"
| "wfValue (VMap es) \<longleftrightarrow> (\<forall>(k, v) \<in> set es. wfValue k \<and> wfValue v)"
| "wfValue (VStringMap es) \<longleftrightarrow> (\<forall>(k, v) \<in> set es. wfValue v)"
| "wfValue _ \<longleftrightarrow> True"

text \<open>
  The value a decoder returns for an encoded value: times lose what the type does not keep, fixed
  CHAR and BINARY columns of the indexed layout lose trailing zeros (\<open>arr\<close> is false at a
  column, true at an array element), Go maps become ordered maps.
\<close>

function canon :: "bool \<Rightarrow> row_encoding \<Rightarrow> logical_type \<Rightarrow> go_value \<Rightarrow> go_value" where
  "canon arr enc lt value = (case value of
       VTime t \<Rightarrow> (case dataTypeForLogicalType lt of
           DateType \<Rightarrow> VTime (temporalTime DateType (temporalInt DateType t))
         | TimeType \<Rightarrow> VTime (temporalTime TimeType (temporalInt TimeType t))
         | kind \<Rightarrow> VTime (timestampTime kind (fst (timestampParts kind t))
             (if ltPrecision lt > 3 then snd (timestampParts kind t) else 0)))
     | VString s \<Rightarrow> VString (if \<not> arr \<and> enc = IndexedEncoding \<and> ltLength lt \<noteq> 0
           \<and> dataTypeForLogicalType lt = CharType then trimZero s else s)
     | VBytes s \<Rightarrow> VBytes (if \<not> arr \<and> enc = IndexedEncoding \<and> ltLength lt \<noteq> 0
           \<and> dataTypeForLogicalType lt = BinaryType then trimZero s else s)
     | VArray vs \<Rightarrow> (case ltElement lt of None \<Rightarrow> value
         | Some e \<Rightarrow> VArray (map (canon True enc e) vs))
     | VRow r \<Rightarrow> VRow (map (\<lambda>(f, x). canon False enc (fieldType f) x) (zip (ltFields lt) r))
     | _ \<Rightarrow> (case mapEntries value of None \<Rightarrow> value
         | Some es \<Rightarrow> (case ltKey lt of None \<Rightarrow> value
            | Some kt \<Rightarrow> (case ltValue lt of None \<Rightarrow> value
               | Some vt \<Rightarrow> VMap (map (\<lambda>(k, v). (canon True enc kt k, canon True enc vt v)) es)))))"
  by pat_completeness auto
termination
  by (relation "measure (\<lambda>(arr, enc, lt, v). size lt)")
    (auto simp: lt_size dest: set_zip_leftD)

declare canon.simps [simp del]

definition canonRow :: "row_encoding \<Rightarrow> column list \<Rightarrow> row \<Rightarrow> row" where
  "canonRow enc cs row = map (\<lambda>(c, v). canon False enc (logicalTypeForColumn c) v) (zip cs row)"

lemma canonRow_simps [simp]:
  "canonRow enc [] row = []"
  "canonRow enc (c # cs) (v # row) = canon False enc (logicalTypeForColumn c) v # canonRow enc cs row"
  by (simp_all add: canonRow_def)

lemma canon_VNil [simp]: "canon arr enc lt VNil = VNil"
  by (simp add: canon.simps mapEntries_def)

section \<open>One array slot\<close>

lemma slot_prim:
  assumes "le_put n encoded (int slot) w = Inr R" "LENGTH('a) \<le> 8 * n"
    and "slot + n \<le> length X" and "\<And>j. slot \<le> j \<Longrightarrow> j < slot + n \<Longrightarrow> X ! j = R ! j"
  shows "le_get n X (int slot) = Inr (w :: 'a::len word)"
  using le_put_Inr_D [OF assms(1)] assms(2-4) by (intro le_get_at) auto

lemma slot_variable:
  assumes app: "appendArrayVariable encoded (int slot) v reserved = Inr R"
    and slot: "slot + 8 \<le> length encoded"
    and len: "length R \<le> length X"
    and slotX: "\<And>j. slot \<le> j \<Longrightarrow> j < slot + 8 \<Longrightarrow> X ! j = R ! j"
    and tailX: "\<And>j. length encoded \<le> j \<Longrightarrow> j < length R \<Longrightarrow> X ! j = R ! j"
  shows "length encoded \<le> length R"
    and "le_get 8 X (int slot) = Inr (slotWord (int (length encoded)) (int (length v)))"
    and "int (length encoded) \<le> maxRowBytes"
    and "arrayVariable X (int slot) = Inr v"
proof -
  let ?ext = "encoded @ overwrite (replicate (nat reserved) 0) 0 v"
  have r: "int (length v) \<le> reserved" "reserved \<le> maxRowBytes - int (length encoded)"
    and put: "le_put 8 ?ext (int slot) (slotWord (int (length encoded)) (int (length v))) = Inr R"
    using app by (auto simp: appendArrayVariable_def putOffsetSize_def slotWord_def
        split: if_splits)
  have rn: "length v \<le> nat reserved" using r by simp
  have lenR: "length R = length encoded + nat reserved"
    using le_put_Inr_D(2) [OF put] rn by simp
  then show "length encoded \<le> length R" by simp
  show get: "le_get 8 X (int slot) = Inr (slotWord (int (length encoded)) (int (length v)))"
    using put slotX len lenR slot by (intro slot_prim [where R = R]) auto
  show max: "int (length encoded) \<le> maxRowBytes"
    using r by linarith
  have offs: "0 \<le> int (length encoded)" "int (length encoded) < 2 ^ 32"
    "0 \<le> int (length v)" "int (length v) < 2 ^ 32"
    using r max by (auto simp: maxRowBytes_def)
  have "readFixed X (int (length encoded)) (int (length v))
          = Inr (v, int (length encoded) + int (length v))"
  proof (rule readFixed_at)
    show "length encoded + length v \<le> length X" using len lenR rn by simp
    fix j assume j: "length encoded \<le> j" "j < length encoded + length v"
    have "R ! j = ?ext ! j"
      using j rn slot le_put_Inr_D(3) [OF put, of j] by simp
    also have "\<dots> = v ! (j - length encoded)"
    proof -
      have "j - length encoded < length v" using j by linarith
      with j rn show ?thesis by (simp add: nth_append nth_overwrite)
    qed
    finally show "X ! j = v ! (j - length encoded)"
      using tailX [of j] j lenR rn by simp
  qed
  then show "arrayVariable X (int slot) = Inr v"
    by (simp add: arrayVariable_def offsetSize_def get slotWord_fields [OF offs])
qed

lemma slot_bytes:
  assumes app: "appendPackedArrayBytes encoded (int slot) v = Inr R"
    and slot: "slot + 8 \<le> length encoded"
    and len: "length R \<le> length X"
    and slotX: "\<And>j. slot \<le> j \<Longrightarrow> j < slot + 8 \<Longrightarrow> X ! j = R ! j"
    and tailX: "\<And>j. length encoded \<le> j \<Longrightarrow> j < length R \<Longrightarrow> X ! j = R ! j"
  shows "unpackedArrayBytes X (int slot) = Inr v"
proof (cases "length v \<le> 7")
  case True
  let ?p = "packBytes 0 v (push_bit 56 (of_nat (length v) OR 0x80))"
  from True app have put: "le_put 8 encoded (int slot) ?p = Inr R"
    by (simp add: appendPackedArrayBytes_def)
  then have "le_get 8 X (int slot) = Inr ?p"
    using slotX slot len le_put_Inr_D(2) [OF put] by (intro slot_prim [where R = R]) auto
  then show ?thesis
    using packed_fields [OF True refl] True by (simp add: unpackedArrayBytes_def)
next
  case False
  with app have "appendArrayVariable encoded (int slot) v (align8 (int (length v))) = Inr R"
    by (simp add: appendPackedArrayBytes_def)
  note var = slot_variable [OF this slot len slotX tailX]
  have "drop_bit 63 (slotWord (int (length encoded)) (int (length v))) = 0"
    using var(3) by (intro slotWord_not_packed) (auto simp: maxRowBytes_def)
  with var show ?thesis
    by (simp add: unpackedArrayBytes_def)
qed

lemma slot_timestamp:
  assumes put: "putOffsetSize (appendLittle encoded millis 8) (int slot) (int (length encoded)) n
                  = Inr R"
    and n: "0 \<le> n" "n \<le> 999999"
    and slot: "slot + 8 \<le> length encoded"
    and len: "length R \<le> length X" "int (length R) \<le> maxRowBytes"
    and slotX: "\<And>j. slot \<le> j \<Longrightarrow> j < slot + 8 \<Longrightarrow> X ! j = R ! j"
    and tailX: "\<And>j. length encoded \<le> j \<Longrightarrow> j < length R \<Longrightarrow> X ! j = R ! j"
  shows "offsetSize X (int slot) = Inr (int (length encoded), n)"
    and "\<exists>nxt. readFixed X (int (length encoded)) 8 = Inr (le_bytes 8 millis, nxt)"
proof -
  let ?ext = "encoded @ le_bytes 8 millis"
  from put have put': "le_put 8 ?ext (int slot) (slotWord (int (length encoded)) n) = Inr R"
    by (simp add: putOffsetSize_def slotWord_def appendLittle_def)
  have lenR: "length R = length encoded + 8"
    using le_put_Inr_D(2) [OF put'] by simp
  have get: "le_get 8 X (int slot) = Inr (slotWord (int (length encoded)) n)"
    using put' slotX len lenR slot by (intro slot_prim [where R = R]) auto
  have offs: "0 \<le> int (length encoded)" "int (length encoded) < 2 ^ 32" "0 \<le> n" "n < 2 ^ 32"
    using n len lenR by (auto simp: maxRowBytes_def)
  show "offsetSize X (int slot) = Inr (int (length encoded), n)"
    by (simp add: offsetSize_def get slotWord_fields [OF offs])
  have "readFixed X (int (length encoded)) (int (length (le_bytes 8 millis)))
          = Inr (le_bytes 8 millis, int (length encoded) + int (length (le_bytes 8 millis)))"
  proof (rule readFixed_at)
    show "length encoded + length (le_bytes 8 millis) \<le> length X" using len lenR by simp
    fix j assume j: "length encoded \<le> j" "j < length encoded + length (le_bytes 8 millis)"
    then have "R ! j = le_bytes 8 millis ! (j - length encoded)"
      using slot le_put_Inr_D(3) [OF put', of j] by (simp add: nth_append)
    then show "X ! j = le_bytes 8 millis ! (j - length encoded)"
      using tailX [of j] j lenR by simp
  qed
  then show "\<exists>nxt. readFixed X (int (length encoded)) 8 = Inr (le_bytes 8 millis, nxt)"
    by auto
qed

section \<open>Frames: what a slot write leaves alone\<close>

lemma le_put_frame:
  assumes "le_put n bs (int slot) w = Inr R"
  shows "length bs \<le> length R"
    and "j < length bs \<Longrightarrow> \<not> (slot \<le> j \<and> j < slot + n) \<Longrightarrow> R ! j = bs ! j"
  using le_put_Inr_D [OF assms] by auto

lemma putOffsetSize_frame:
  assumes "putOffsetSize (bs @ ys) (int slot) a b = Inr R"
  shows "length bs \<le> length R"
    and "j < length bs \<Longrightarrow> \<not> (slot \<le> j \<and> j < slot + 8) \<Longrightarrow> R ! j = bs ! j"
  using le_put_frame [OF assms [unfolded putOffsetSize_def]] by (auto simp: nth_append)

lemma appendArrayVariable_frame:
  assumes "appendArrayVariable bs (int slot) v reserved = Inr R"
  shows "length bs \<le> length R"
    and "j < length bs \<Longrightarrow> \<not> (slot \<le> j \<and> j < slot + 8) \<Longrightarrow> R ! j = bs ! j"
  using assms by (auto simp: appendArrayVariable_def dest: putOffsetSize_frame split: if_splits)

lemma appendPackedArrayBytes_frame:
  assumes "appendPackedArrayBytes bs (int slot) v = Inr R"
  shows "length bs \<le> length R"
    and "j < length bs \<Longrightarrow> \<not> (slot \<le> j \<and> j < slot + 8) \<Longrightarrow> R ! j = bs ! j"
  using assms by (auto simp: appendPackedArrayBytes_def
      dest: le_put_frame appendArrayVariable_frame split: if_splits)

lemma go_set_frame:
  assumes "go_set bs (int slot) b = Inr R"
  shows "length R = length bs" "slot < length bs" "R ! slot = b"
    and "j \<noteq> slot \<Longrightarrow> R ! j = bs ! j"
  using assms by (auto simp: go_set_def split: if_splits)

lemma writeArrayElement_frame:
  assumes "writeArrayElement bs (int slot) lt v enc = Inr R"
  shows "length bs \<le> length R"
    and "j < length bs \<Longrightarrow> \<not> (slot \<le> j \<and> j < slot + nat (arraySlotSize lt)) \<Longrightarrow> R ! j = bs ! j"
proof -
  note frames = le_put_frame putOffsetSize_frame appendArrayVariable_frame
    appendPackedArrayBytes_frame
  show "length bs \<le> length R"
    using assms
    by (cases "dataTypeForLogicalType lt")
      (auto simp: writeArrayElement.simps Let_def case_prod_beta appendLittle_def
        dest: frames go_set_frame split: if_splits option.splits)
  assume "j < length bs" "\<not> (slot \<le> j \<and> j < slot + nat (arraySlotSize lt))"
  then show "R ! j = bs ! j"
    using assms
    by (cases "dataTypeForLogicalType lt")
      (auto simp: writeArrayElement.simps arraySlotSize_def Let_def case_prod_beta
        appendLittle_def
        dest: frames go_set_frame split: if_splits option.splits)
qed

section \<open>Sub-millisecond nanoseconds\<close>

lemma nanoOfDay_nonneg: "0 \<le> nanosecond t \<Longrightarrow> 0 \<le> nanoOfDay t"
  by (simp add: nanoOfDay_def Hour_def Minute_def Second_def)

lemma smod_nonneg: "0 \<le> (a :: int) \<Longrightarrow> 0 < b \<Longrightarrow> a smod b = a mod b"
  by (cases "a = 0") (simp_all add: smod_int_alt_def)

lemma sdiv_nonneg: "0 \<le> (a :: int) \<Longrightarrow> 0 < b \<Longrightarrow> a sdiv b = a div b"
  by (cases "a = 0") (simp_all add: signed_divide_int_def)

lemma timestampParts_nanos:
  assumes "0 \<le> nanosecond t"
  shows "0 \<le> sint (snd (timestampParts kind t))" "sint (snd (timestampParts kind t)) \<le> 999999"
    "uint (snd (timestampParts kind t)) = sint (snd (timestampParts kind t))"
proof -
  have "\<exists>m. 0 \<le> m \<and> m < 1000000 \<and> snd (timestampParts kind t) = word_of_int m"
    using assms nanoOfDay_nonneg [OF assms]
    by (auto simp: timestampParts_def smod_nonneg intro: exI [where x = "_ mod 1000000"])
  then obtain m where m: "0 \<le> m" "m < 1000000" "snd (timestampParts kind t) = word_of_int m"
    by blast
  have s: "sint (word_of_int m :: 32 word) = m"
    using m by (simp add: signed_of_int signed_take_bit_int_eq_self)
  have u: "uint (word_of_int m :: 32 word) = m"
    using m by (simp add: unsigned_of_int take_bit_int_eq_self)
  show "0 \<le> sint (snd (timestampParts kind t))" "sint (snd (timestampParts kind t)) \<le> 999999"
    "uint (snd (timestampParts kind t)) = sint (snd (timestampParts kind t))"
    using m s u by simp_all
qed

section \<open>Canonical values, by kind\<close>

lemma canon_prim [simp]:
  "canon arr enc lt (VBool b) = VBool b"
  "canon arr enc lt (VInt8 x8) = VInt8 x8"
  "canon arr enc lt (VInt16 x16) = VInt16 x16"
  "canon arr enc lt (VInt32 x32) = VInt32 x32"
  "canon arr enc lt (VInt64 x64) = VInt64 x64"
  "canon arr enc lt (VFloat32 f32) = VFloat32 f32"
  "canon arr enc lt (VFloat64 f64) = VFloat64 f64"
  "canon arr enc lt (VRat q) = VRat q"
  by (subst canon.simps; simp add: mapEntries_def)+

lemma canon_bytes:
  "canon True enc lt (VString s) = VString s"
  "canon True enc lt (VBytes s) = VBytes s"
  "canon False enc lt (VString s) = VString (if enc = IndexedEncoding \<and> ltLength lt \<noteq> 0
     \<and> dataTypeForLogicalType lt = CharType then trimZero s else s)"
  "canon False enc lt (VBytes s) = VBytes (if enc = IndexedEncoding \<and> ltLength lt \<noteq> 0
     \<and> dataTypeForLogicalType lt = BinaryType then trimZero s else s)"
  by (subst canon.simps; simp)+

lemma canon_time:
  "dataTypeForLogicalType lt = DateType \<Longrightarrow>
   canon arr enc lt (VTime t) = VTime (temporalTime DateType (temporalInt DateType t))"
  "dataTypeForLogicalType lt = TimeType \<Longrightarrow>
   canon arr enc lt (VTime t) = VTime (temporalTime TimeType (temporalInt TimeType t))"
  "dataTypeForLogicalType lt = TimestampType \<Longrightarrow>
   canon arr enc lt (VTime t) = VTime (timestampTime TimestampType (fst (timestampParts TimestampType t))
     (if ltPrecision lt > 3 then snd (timestampParts TimestampType t) else 0))"
  "dataTypeForLogicalType lt = TimestampLTZType \<Longrightarrow>
   canon arr enc lt (VTime t) = VTime (timestampTime TimestampLTZType
     (fst (timestampParts TimestampLTZType t))
     (if ltPrecision lt > 3 then snd (timestampParts TimestampLTZType t) else 0))"
  by (subst canon.simps; simp)+

lemma canon_array:
  "ltElement lt = Some e \<Longrightarrow> canon arr enc lt (VArray vs) = VArray (map (canon True enc e) vs)"
  by (subst canon.simps) simp

lemma canon_map:
  "mapEntries v = Some es \<Longrightarrow> ltKey lt = Some kt \<Longrightarrow> ltValue lt = Some vt \<Longrightarrow>
   canon arr enc lt v = VMap (map (\<lambda>(k, v). (canon True enc kt k, canon True enc vt v)) es)"
  by (subst canon.simps) (auto simp: mapEntries_def split: go_value.splits)

lemma canon_nested_row:
  "canon arr enc lt (VRow r) = VRow (canonRow enc (Columns (nestedSchema lt)) r)"
  by (subst canon.simps) (simp add: canonRow_def nestedSchema_def zip_map1 case_prod_beta
      logicalTypeForColumn_def)

lemmas canon_eqs = canon_bytes canon_time canon_array canon_map canon_nested_row

section \<open>Round-trip contracts\<close>

definition array_rt :: "logical_type \<Rightarrow> row_encoding \<Rightarrow> bool" where
  "array_rt e enc \<longleftrightarrow> (\<forall>vs bytes. (\<forall>v \<in> set vs. wfValue v) \<longrightarrow>
     encodeBinaryArray e vs enc = Inr bytes \<longrightarrow>
     decodeBinaryArray e bytes enc = Inr (map (canon True enc e) vs))"

definition map_rt :: "logical_type \<Rightarrow> row_encoding \<Rightarrow> bool" where
  "map_rt lt enc \<longleftrightarrow> (\<forall>v bytes arr. wfValue v \<longrightarrow> encodeBinaryMap lt v enc = Inr bytes \<longrightarrow>
     (\<exists>m. decodeBinaryMap lt bytes enc = Inr m \<and> canon arr enc lt v = VMap m))"

definition row_rt :: "schema \<Rightarrow> row_encoding \<Rightarrow> bool" where
  "row_rt s enc \<longleftrightarrow> (\<forall>row bytes. (\<forall>v \<in> set row. wfValue v) \<longrightarrow>
     encodeRow s row enc = Inr bytes \<longrightarrow> int (length bytes) \<le> maxRowBytes \<longrightarrow>
     decodeRow s bytes enc = Inr (canonRow enc (Columns s) row))"

definition nested_rt :: "logical_type \<Rightarrow> row_encoding \<Rightarrow> bool" where
  "nested_rt lt enc \<longleftrightarrow> (\<forall>e. ltElement lt = Some e \<longrightarrow> array_rt e enc) \<and> map_rt lt enc
     \<and> row_rt (nestedSchema lt) enc"

definition value_rt :: "logical_type \<Rightarrow> row_encoding \<Rightarrow> bool" where
  "value_rt lt enc \<longleftrightarrow> (\<forall>v bytes pre suf. wfValue v \<longrightarrow>
     encodeRowValue lt v enc = Inr bytes \<longrightarrow> int (length bytes) \<le> maxRowBytes \<longrightarrow>
     decodeRowValue (pre @ bytes @ suf) (int (length pre)) lt enc
       (if enc = IndexedEncoding \<and> \<not> indexedFixed lt then int (length bytes) else -1)
     = Inr (canon False enc lt v, int (length pre + length bytes)))"

section \<open>Array elements\<close>

definition slotFrame :: "bytes \<Rightarrow> nat \<Rightarrow> logical_type \<Rightarrow> bytes \<Rightarrow> bytes \<Rightarrow> bool" where
  "slotFrame encoded slot lt R X \<longleftrightarrow>
     slot + nat (arraySlotSize lt) \<le> length encoded \<and> length encoded \<le> length R
     \<and> length R \<le> length X \<and> int (length R) \<le> maxRowBytes
     \<and> (\<forall>j. slot \<le> j \<longrightarrow> j < slot + nat (arraySlotSize lt) \<longrightarrow> X ! j = R ! j)
     \<and> (\<forall>j. length encoded \<le> j \<longrightarrow> j < length R \<longrightarrow> X ! j = R ! j)"

lemma slotFrame_guard:
  "slotFrame encoded slot lt R X \<Longrightarrow> arraySlotSize lt \<le> int (length X) - int slot"
  by (auto simp: slotFrame_def arraySlotSize_def split: data_type.splits)

lemma slotFrame_put:
  assumes "slotFrame encoded slot lt R X" "le_put n encoded (int slot) (w :: 'a::len word) = Inr R"
    "arraySlotSize lt = int n" "LENGTH('a) = 8 * n"
  shows "le_get n X (int slot) = Inr w"
  using assms by (intro slot_prim [where R = R]) (auto simp: slotFrame_def)

lemma slotFrame_variable:
  assumes "slotFrame encoded slot lt R X" "arraySlotSize lt = 8"
    "appendArrayVariable encoded (int slot) v reserved = Inr R"
  shows "arrayVariable X (int slot) = Inr v" "int (length v) \<le> maxRowBytes"
proof -
  show "arrayVariable X (int slot) = Inr v"
    using assms by (intro slot_variable(4) [where R = R]) (auto simp: slotFrame_def)
  show "int (length v) \<le> maxRowBytes"
    using assms(3) by (auto simp: appendArrayVariable_def split: if_splits)
qed

lemma slotFrame_bytes:
  assumes "slotFrame encoded slot lt R X" "arraySlotSize lt = 8"
    "appendPackedArrayBytes encoded (int slot) v = Inr R"
  shows "unpackedArrayBytes X (int slot) = Inr v"
  using assms by (intro slot_bytes [where R = R]) (auto simp: slotFrame_def)

lemma slotFrame_timestamp:
  assumes "slotFrame encoded slot lt R X" "arraySlotSize lt = 8"
    "putOffsetSize (appendLittle encoded millis 8) (int slot) (int (length encoded)) n = Inr R"
    "0 \<le> n" "n \<le> 999999"
  shows "offsetSize X (int slot) = Inr (int (length encoded), n)"
    and "\<exists>nxt. readFixed X (int (length encoded)) 8 = Inr (le_bytes 8 millis, nxt)"
  using assms by (intro slot_timestamp [where R = R]; auto simp: slotFrame_def)+

definition element_rt :: "logical_type \<Rightarrow> row_encoding \<Rightarrow> bool" where
  "element_rt lt enc \<longleftrightarrow> (\<forall>v encoded slot R X. wfValue v \<longrightarrow>
     writeArrayElement encoded (int slot) lt v enc = Inr R \<longrightarrow> slotFrame encoded slot lt R X \<longrightarrow>
     encoded ! slot = 0 \<longrightarrow> readArrayElement X (int slot) lt enc = Inr (canon True enc lt v))"

lemmas element_eqs = readArrayElement.simps writeArrayElement.simps Let_def arrayPrimitive_def
  readArrayPrimitive_def

lemma element_small:
  assumes w: "writeArrayElement encoded (int slot) lt v enc = Inr R"
    and fr: "slotFrame encoded slot lt R X" and zero: "encoded ! slot = 0"
    and kind: "dataTypeForLogicalType lt \<in> {BoolType, TinyIntType}"
  shows "readArrayElement X (int slot) lt enc = Inr (canon True enc lt v)"
proof -
  have size: "arraySlotSize lt = 1" using kind by (auto simp: arraySlotSize_def)
  have X: "slot < length X" "X ! slot = R ! slot"
    using fr size by (auto simp: slotFrame_def)
  show ?thesis
  proof (cases "dataTypeForLogicalType lt = BoolType")
    case True
    then obtain b where v: "v = VBool b"
      and b: "(if b then go_set encoded (int slot) 1 else Inr encoded) = Inr R"
      using w by (auto simp: writeArrayElement.simps assert_Inr_iff)
    have "X ! slot = (if b then 1 else 0)"
      using b X zero go_set_frame(3) [of encoded slot 1 R] by (cases b) simp_all
    with True v X(1) size show ?thesis by (simp add: element_eqs go_index_def)
  next
    case False
    with kind have k: "dataTypeForLogicalType lt = TinyIntType" by simp
    then obtain x where v: "v = VInt8 x" and b: "go_set encoded (int slot) x = Inr R"
      using w by (auto simp: element_eqs assert_Inr_iff)
    with k X size go_set_frame(3) [OF b] show ?thesis by (simp add: element_eqs go_index_def)
  qed
qed

lemma element_prim:
  assumes w: "writeArrayElement encoded (int slot) lt v enc = Inr R"
    and fr: "slotFrame encoded slot lt R X"
    and kind: "dataTypeForLogicalType lt \<in> {SmallIntType, IntType, BigIntType, FloatType, DoubleType,
                 DateType, TimeType}"
  shows "readArrayElement X (int slot) lt enc = Inr (canon True enc lt v)"
proof -
  let ?k = "dataTypeForLogicalType lt"
  have get2: "le_get 2 X (int slot) = Inr x"
    if "le_put 2 encoded (int slot) x = Inr R" "?k = SmallIntType" for x :: "16 word"
    using that by (intro slotFrame_put [OF fr]) (simp_all add: arraySlotSize_def)
  have get4: "le_get 4 X (int slot) = Inr x"
    if "le_put 4 encoded (int slot) x = Inr R"
      "?k = IntType \<or> ?k = FloatType \<or> ?k = DateType \<or> ?k = TimeType" for x :: "32 word"
    using that by (intro slotFrame_put [OF fr]) (auto simp: arraySlotSize_def)
  have get8: "le_get 8 X (int slot) = Inr x"
    if "le_put 8 encoded (int slot) x = Inr R" "?k = BigIntType \<or> ?k = DoubleType" for x :: "64 word"
    using that by (intro slotFrame_put [OF fr]) (auto simp: arraySlotSize_def)
  show ?thesis
    using w kind slotFrame_guard [OF fr]
    by (auto simp: element_eqs assert_Inr_iff canon_time) (use get2 get4 get8 in blast)+
qed

lemma element_decimal:
  assumes w: "writeArrayElement encoded (int slot) lt v enc = Inr R"
    and fr: "slotFrame encoded slot lt R X"
    and kind: "dataTypeForLogicalType lt = DecimalType"
  shows "readArrayElement X (int slot) lt enc = Inr (canon True enc lt v)"
proof -
  have size: "arraySlotSize lt = 8" using kind by (simp add: arraySlotSize_def)
  from w kind obtain q u where v: "v = VRat q" and u: "decimalUnscaled q lt = Inr u"
    and put: "if ltPrecision lt \<le> 18 then le_put 8 encoded (int slot) (word_of_int u :: 64 word) = Inr R
              else appendArrayVariable encoded (int slot) (signedBigEndian u) 16 = Inr R"
    by (auto simp: element_eqs assert_Inr_iff andThen_Inr_iff split: if_splits)
  note q = decimalUnscaled_Inr_D(1) [OF u]
  show ?thesis
  proof (cases "ltPrecision lt \<le> 18")
    case True
    with put size have "le_get 8 X (int slot) = Inr (word_of_int u :: 64 word)"
      by (intro slotFrame_put [OF fr]) auto
    with True v kind q sint_unscaled [OF u True] slotFrame_guard [OF fr] show ?thesis
      by (simp add: element_eqs readArrayDecimal_def)
  next
    case False
    with put have "arrayVariable X (int slot) = Inr (signedBigEndian u)"
      using slotFrame_variable(1) [OF fr size] by simp
    with False v kind q slotFrame_guard [OF fr] show ?thesis
      by (simp add: element_eqs readArrayDecimal_def signedBigInt_signedBigEndian)
  qed
qed

lemma element_timestamp:
  assumes w: "writeArrayElement encoded (int slot) lt v enc = Inr R"
    and wf: "wfValue v"
    and fr: "slotFrame encoded slot lt R X"
    and kind: "dataTypeForLogicalType lt \<in> {TimestampType, TimestampLTZType}"
  shows "readArrayElement X (int slot) lt enc = Inr (canon True enc lt v)"
proof -
  let ?k = "dataTypeForLogicalType lt"
  have size: "arraySlotSize lt = 8" using kind by (auto simp: arraySlotSize_def)
  from w kind obtain t where v: "v = VTime t"
    and put: "if ltPrecision lt \<le> 3 then le_put 8 encoded (int slot) (fst (timestampParts ?k t)) = Inr R
              else putOffsetSize (appendLittle encoded (fst (timestampParts ?k t)) 8) (int slot)
                (int (length encoded)) (sint (snd (timestampParts ?k t))) = Inr R"
    by (auto simp: element_eqs assert_Inr_iff case_prod_beta split: if_splits)
  have canon: "canon True enc lt v = VTime (timestampTime ?k (fst (timestampParts ?k t))
     (if ltPrecision lt > 3 then snd (timestampParts ?k t) else 0))"
    using v kind canon_time by auto
  from wf v have "0 \<le> nanosecond t" by simp
  note nanos = timestampParts_nanos [OF this, of ?k]
  show ?thesis
  proof (cases "ltPrecision lt \<le> 3")
    case True
    with put size have "le_get 8 X (int slot) = Inr (fst (timestampParts ?k t))"
      by (intro slotFrame_put [OF fr]) auto
    with True kind canon slotFrame_guard [OF fr] show ?thesis
      by (auto simp: element_eqs readArrayTimestamp_def)
  next
    case False
    with put nanos have "offsetSize X (int slot) = Inr (int (length encoded), sint (snd (timestampParts ?k t)))"
      and "\<exists>nxt. readFixed X (int (length encoded)) 8 = Inr (le_bytes 8 (fst (timestampParts ?k t)), nxt)"
      using slotFrame_timestamp [OF fr size] by auto
    with False kind canon nanos slotFrame_guard [OF fr] show ?thesis
      by (auto simp: element_eqs readArrayTimestamp_def codec_rt)
  qed
qed

lemma element_bytes:
  assumes w: "writeArrayElement encoded (int slot) lt v enc = Inr R"
    and fr: "slotFrame encoded slot lt R X"
    and kind: "dataTypeForLogicalType lt \<in> {StringType, CharType, BytesType, BinaryType}"
  shows "readArrayElement X (int slot) lt enc = Inr (canon True enc lt v)"
proof -
  have "arraySlotSize lt = 8" using kind by (auto simp: arraySlotSize_def)
  note get = slotFrame_bytes [OF fr this]
  show ?thesis
    using w kind slotFrame_guard [OF fr]
    by (auto simp: element_eqs assert_Inr_iff canon_bytes dest!: get)
qed

lemma element_nested:
  assumes w: "writeArrayElement encoded (int slot) lt v enc = Inr R"
    and fr: "slotFrame encoded slot lt R X" and wf: "wfValue v" and nested: "nested_rt lt enc"
    and kind: "dataTypeForLogicalType lt \<in> {ArrayType, MapType, RowType}"
  shows "readArrayElement X (int slot) lt enc = Inr (canon True enc lt v)"
proof -
  have "arraySlotSize lt = 8" using kind by (auto simp: arraySlotSize_def)
  note get = slotFrame_variable [OF fr this]
  note nest = nested [unfolded nested_rt_def array_rt_def map_rt_def row_rt_def]
  have eq: "readArrayElement X (int slot) lt enc = readArrayNested X (int slot) lt enc"
    using kind slotFrame_guard [OF fr] by (auto simp: element_eqs)
  consider e vs b where "dataTypeForLogicalType lt = ArrayType" "ltElement lt = Some e" "v = VArray vs"
      "encodeBinaryArray e vs enc = Inr b" "arrayVariable X (int slot) = Inr b"
    | b where "dataTypeForLogicalType lt = MapType" "encodeBinaryMap lt v enc = Inr b"
      "arrayVariable X (int slot) = Inr b"
    | r b where "dataTypeForLogicalType lt = RowType" "v = VRow r"
      "encodeRow (nestedSchema lt) r enc = Inr b" "arrayVariable X (int slot) = Inr b"
      "int (length b) \<le> maxRowBytes"
    using w kind get
    by (auto simp: writeArrayElement.simps assert_Inr_iff split: option.splits)
  then show ?thesis
  proof cases
    case 1
    with nest wf show ?thesis by (simp add: eq readArrayNested.simps canon_array)
  next
    case 2
    with nest wf obtain m where "decodeBinaryMap lt b enc = Inr m" "canon True enc lt v = VMap m"
      by blast
    with 2 show ?thesis by (simp add: eq readArrayNested.simps)
  next
    case 3
    with nest wf show ?thesis by (simp add: eq readArrayNested.simps canon_nested_row)
  qed
qed

lemma element_rtI:
  assumes "nested_rt lt enc"
  shows "element_rt lt enc"
  unfolding element_rt_def
proof (intro allI impI)
  fix v encoded slot R X
  assume w: "writeArrayElement encoded (int slot) lt v enc = Inr R"
    and "wfValue v" "slotFrame encoded slot lt R X" "encoded ! slot = 0"
  then show "readArrayElement X (int slot) lt enc = Inr (canon True enc lt v)"
    using assms element_small [OF w] element_prim [OF w] element_decimal [OF w]
      element_timestamp [OF w] element_bytes [OF w] element_nested [OF w]
    by (cases "dataTypeForLogicalType lt") (simp_all add: writeArrayElement.simps)
qed

section \<open>Arrays\<close>

definition slotAt :: "nat \<Rightarrow> logical_type \<Rightarrow> nat \<Rightarrow> nat" where
  "slotAt nullBytes e i = 4 + nullBytes + nat (arraySlotSize e) * i"

lemma arraySlotSize_pos: "0 < arraySlotSize e"
  by (auto simp: arraySlotSize_def split: data_type.splits)

lemma slotAt_int: "4 + int nb + arraySlotSize e * int i = int (slotAt nb e i)"
  using arraySlotSize_pos [of e] by (simp add: slotAt_def)

lemma slotAt_Suc: "slotAt nb e (Suc i) = slotAt nb e i + nat (arraySlotSize e)"
  by (simp add: slotAt_def)

lemma slotAt_le: "i \<le> k \<Longrightarrow> slotAt nb e i \<le> slotAt nb e k"
  by (simp add: slotAt_def)

lemma slotAt_ge: "4 + nb \<le> slotAt nb e i"
  by (simp add: slotAt_def)

text \<open>One step of the element loop: the part of the array it may change.\<close>

definition elementStep :: "logical_type \<Rightarrow> row_encoding \<Rightarrow> nat \<Rightarrow> nat \<Rightarrow> go_value \<Rightarrow> bytes
    \<Rightarrow> bytes result" where
  "elementStep e enc nb i v encoded =
     (if v = VNil then guardE (\<not> ltNullable e) (Plain ''array element is not nullable'')
          (setNullBit encoded 4 i)
      else guardE (\<not> validLogicalValue e v) (Plain ''array element has invalid value'')
        (andThen (writeArrayElement encoded (int (slotAt nb e i)) e v enc) (\<lambda>encoded'.
           guardE (int (length encoded') > maxRowBytes) (Plain ''array exceeds allocation limit'')
             (Inr encoded'))))"

lemma encodeElements_Cons:
  "encodeElements e enc (int nb) i (v # vs) encoded =
     andThen (elementStep e enc nb i v encoded) (encodeElements e enc (int nb) (Suc i) vs)"
  by (simp add: encodeElements.simps elementStep_def slotAt_int andThen_assoc andThen_guardE)

lemma elementStep_frame:
  assumes step: "elementStep e enc nb i v encoded = Inr R"
    and "i < 8 * nb" "slotAt nb e (Suc i) \<le> length encoded" "int (length encoded) \<le> maxRowBytes"
  shows "length encoded \<le> length R" "int (length R) \<le> maxRowBytes"
    and "j < length encoded \<Longrightarrow> \<not> (4 \<le> j \<and> j < 4 + nb) \<Longrightarrow>
         \<not> (slotAt nb e i \<le> j \<and> j < slotAt nb e (Suc i)) \<Longrightarrow> R ! j = encoded ! j"
    and "k < 8 * nb \<Longrightarrow> nullBit R 4 k = (nullBit encoded 4 k \<or> k = i \<and> v = VNil)"
proof -
  have i: "i div 8 < nb" using assms(2) by (simp add: less_mult_imp_div_less mult.commute)
  have in_nulls: "4 + k div 8 < length encoded \<and> 4 + k div 8 < slotAt nb e i" if "k < 8 * nb" for k
  proof -
    have "k div 8 < nb" using that by (simp add: less_mult_imp_div_less mult.commute)
    then show ?thesis using assms(3) slotAt_ge [of nb e i] slotAt_Suc [of nb e i] by linarith
  qed
  show "length encoded \<le> length R" "int (length R) \<le> maxRowBytes"
    using step assms(4) setNullBit_Inr_D(2) [of encoded 4 i R]
    by (auto simp: elementStep_def dest: writeArrayElement_frame split: if_splits)
  show "j < length encoded \<Longrightarrow> \<not> (4 \<le> j \<and> j < 4 + nb) \<Longrightarrow>
         \<not> (slotAt nb e i \<le> j \<and> j < slotAt nb e (Suc i)) \<Longrightarrow> R ! j = encoded ! j"
    using step i setNullBit_Inr_D(4) [of encoded 4 i R j]
    by (auto simp: elementStep_def slotAt_Suc dest: writeArrayElement_frame split: if_splits)
  show "k < 8 * nb \<Longrightarrow> nullBit R 4 k = (nullBit encoded 4 k \<or> k = i \<and> v = VNil)"
    using step in_nulls [of k] setNullBit_Inr_D(3) [of encoded 4 i R k]
    by (auto simp: elementStep_def nullBit_def dest: writeArrayElement_frame split: if_splits)
qed

lemma encodeElements_frame:
  assumes "encodeElements e enc (int nb) i vs encoded = Inr R"
    and "i + length vs \<le> 8 * nb" "slotAt nb e (i + length vs) \<le> length encoded"
    and "int (length encoded) \<le> maxRowBytes"
  shows "length encoded \<le> length R \<and> int (length R) \<le> maxRowBytes
    \<and> (\<forall>j. j < length encoded \<longrightarrow> \<not> (4 \<le> j \<and> j < 4 + nb) \<longrightarrow>
         \<not> (slotAt nb e i \<le> j \<and> j < slotAt nb e (i + length vs)) \<longrightarrow> R ! j = encoded ! j)
    \<and> (\<forall>k < i. nullBit R 4 k = nullBit encoded 4 k)"
  using assms
proof (induction vs arbitrary: i encoded)
  case Nil
  then show ?case by (simp add: encodeElements.simps)
next
  case (Cons v vs)
  from Cons.prems(1) obtain M where step: "elementStep e enc nb i v encoded = Inr M"
    and rest: "encodeElements e enc (int nb) (Suc i) vs M = Inr R"
    by (auto simp: encodeElements_Cons)
  have le: "slotAt nb e (Suc i) \<le> length encoded"
    using Cons.prems(3) slotAt_le [of "Suc i" "i + length (v # vs)" nb e] by simp
  have "i < 8 * nb" using Cons.prems(2) by simp
  note fr = elementStep_frame [OF step this le Cons.prems(4)]
  have "slotAt nb e (Suc i + length vs) \<le> length M"
    using Cons.prems(3) fr(1) by simp
  with Cons.IH [OF rest] Cons.prems(2) fr(2)
  have IH: "length M \<le> length R" "int (length R) \<le> maxRowBytes"
    "\<And>j. j < length M \<Longrightarrow> \<not> (4 \<le> j \<and> j < 4 + nb) \<Longrightarrow>
       \<not> (slotAt nb e (Suc i) \<le> j \<and> j < slotAt nb e (Suc i + length vs)) \<Longrightarrow> R ! j = M ! j"
    "\<And>k. k < Suc i \<Longrightarrow> nullBit R 4 k = nullBit M 4 k"
    by simp_all
  have "R ! j = encoded ! j"
    if "j < length encoded" "\<not> (4 \<le> j \<and> j < 4 + nb)"
      "\<not> (slotAt nb e i \<le> j \<and> j < slotAt nb e (i + length (v # vs)))" for j
    using that fr(1) fr(3) [of j] IH(3) [of j] slotAt_le [of "Suc i" "Suc i + length vs" nb e]
      slotAt_le [of i "Suc i" nb e] by auto
  moreover have "nullBit R 4 k = nullBit encoded 4 k" if "k < i" for k
    using that IH(4) [of k] fr(4) [of k] Cons.prems(2) by auto
  ultimately show ?case using IH fr by auto
qed

lemma encodeElements_rt:
  assumes elt: "element_rt e enc"
    and "encodeElements e enc (int nb) i vs encoded = Inr R" "\<forall>v \<in> set vs. wfValue v"
    and "i + length vs \<le> 8 * nb" "slotAt nb e (i + length vs) \<le> length encoded"
    and "int (length encoded) \<le> maxRowBytes"
    and "\<forall>j. slotAt nb e i \<le> j \<longrightarrow> j < slotAt nb e (i + length vs) \<longrightarrow> encoded ! j = 0"
    and "\<forall>k \<ge> i. k < i + length vs \<longrightarrow> \<not> nullBit encoded 4 k"
  shows "decodeElements e R enc (int nb) i (length vs) = Inr (map (canon True enc e) vs)"
  using assms(2-)
proof (induction vs arbitrary: i encoded)
  case Nil
  then show ?case by (simp add: decodeElements.simps)
next
  case (Cons v vs)
  from Cons.prems(1) obtain M where step: "elementStep e enc nb i v encoded = Inr M"
    and rest: "encodeElements e enc (int nb) (Suc i) vs M = Inr R"
    by (auto simp: encodeElements_Cons)
  have slots: "slotAt nb e i < slotAt nb e (Suc i)" "slotAt nb e (Suc i) \<le> slotAt nb e (i + length (v # vs))"
    using arraySlotSize_pos [of e] by (simp_all add: slotAt_Suc slotAt_le)
  have i: "i < 8 * nb" and le: "slotAt nb e (Suc i) \<le> length encoded"
    using Cons.prems(3,4) slots by simp_all
  note fr = elementStep_frame [OF step i le Cons.prems(5)]
  have M: "slotAt nb e (Suc i + length vs) \<le> length M" "Suc i + length vs \<le> 8 * nb"
    using Cons.prems(3,4) fr(1) by simp_all
  note frR = encodeElements_frame [OF rest M(2,1) fr(2)]
  have IH: "decodeElements e R enc (int nb) (Suc i) (length vs) = Inr (map (canon True enc e) vs)"
  proof (rule Cons.IH [OF rest _ M(2,1) fr(2)])
    show "\<forall>v \<in> set vs. wfValue v" using Cons.prems(2) by simp
    show "\<forall>j. slotAt nb e (Suc i) \<le> j \<longrightarrow> j < slotAt nb e (Suc i + length vs) \<longrightarrow> M ! j = 0"
      using Cons.prems(4,6) fr(3) slots slotAt_ge [of nb e "Suc i"] by (auto dest!: spec)
    show "\<forall>k \<ge> Suc i. k < Suc i + length vs \<longrightarrow> \<not> nullBit M 4 k"
      using Cons.prems(3,7) fr(4) by auto
  qed
  have bit: "getNullBit R 4 i = Inr (v = VNil)"
  proof -
    have "4 + i div 8 < length R"
      using i le slotAt_ge [of nb e "Suc i"] fr(1) frR less_mult_imp_div_less [of i nb 8] by simp
    then have "getNullBit R (int 4) i = Inr (nullBit R 4 i)" by (rule getNullBit_ok)
    moreover have "nullBit R 4 i = (v = VNil)"
      using frR fr(4) [OF i] Cons.prems(7) by auto
    ultimately show ?thesis by simp
  qed
  show ?case
  proof (cases "v = VNil")
    case True
    with step bit IH show ?thesis
      by (auto simp: decodeElements.simps elementStep_def)
  next
    case False
    then have w: "writeArrayElement encoded (int (slotAt nb e i)) e v enc = Inr M"
      using step by (auto simp: elementStep_def)
    have "slotFrame encoded (slotAt nb e i) e M R"
      unfolding slotFrame_def
      using fr(1,2) frR le slots slotAt_ge [of nb e i] Cons.prems(4)
      by (auto simp: slotAt_Suc [symmetric])
    then have "readArrayElement R (int (slotAt nb e i)) e enc = Inr (canon True enc e v)"
      using elt w Cons.prems(2,6) slots unfolding element_rt_def by (auto dest!: spec)
    with False bit IH show ?thesis
      by (simp add: decodeElements.simps slotAt_int)
  qed
qed

lemma and_not_add_and: "(x AND NOT m) + (x AND m) = (x :: int)"
proof -
  have "(x AND NOT m) + (x AND m) = (x AND NOT m) OR (x AND m)"
    by (rule disjunctive_add) (auto simp: bit_and_iff bit_not_iff)
  also have "\<dots> = x"
    by (rule bit_eqI) (auto simp: bit_and_iff bit_or_iff bit_not_iff)
  finally show ?thesis .
qed

lemma align8_eq: "align8 n = (n + 7) - (n + 7) mod 8"
proof -
  have "(n + 7) AND 7 = take_bit 3 (n + 7)"
    by (simp add: take_bit_eq_mask mask_eq_exp_minus_1)
  then have "(n + 7) AND 7 = (n + 7) mod 8"
    by (simp add: take_bit_eq_mod)
  then show ?thesis
    unfolding align8_def using and_not_add_and [of "n + 7" 7] by linarith
qed

lemma align8_ge: "n \<le> align8 n"
  using pos_mod_bound [of 8 "n + 7"] by (simp add: align8_eq)

definition arrayNullBytes :: "nat \<Rightarrow> nat" where
  "arrayNullBytes n = (n + 31) div 32 * 4"

lemma arrayNullBytes_int: "(int n + 31) div 32 * 4 = int (arrayNullBytes n)"
  by (simp add: arrayNullBytes_def zdiv_int)

lemma arrayNullBytes_room: "n \<le> 8 * arrayNullBytes n"
  using dividend_less_div_times [of 32 "n + 31"] by (simp add: arrayNullBytes_def)

lemma uint_of_nat_count:
  assumes "int n \<le> maxRowBytes"
  shows "uint (of_nat n :: 32 word) = int n" "unat (of_nat n :: 32 word) = n"
proof -
  have "n < 2 ^ 32" using assms by (simp add: maxRowBytes_def)
  then show "uint (of_nat n :: 32 word) = int n" "unat (of_nat n :: 32 word) = n"
    by (simp_all add: unsigned_of_nat take_bit_nat_eq_self)
qed

text \<open>What a successful array encoding went through: the zeroed fixed region with the count, then
  the element loop.\<close>

lemma encodeBinaryArray_Inr_D:
  assumes "encodeBinaryArray e vs enc = Inr bytes"
  obtains A where "int (length vs) \<le> maxRowBytes div 8"
    "encodeElements e enc (int (arrayNullBytes (length vs))) 0 vs A = Inr bytes"
    "slotAt (arrayNullBytes (length vs)) e (0 + length vs) \<le> length A"
    "int (length A) \<le> maxRowBytes"
    "int (length A) = align8 (4 + int (arrayNullBytes (length vs)) + arraySlotSize e * int (length vs))"
    "4 \<le> length A"
    "\<And>j. j < 4 \<Longrightarrow> A ! j = le_bytes 4 (of_nat (length vs) :: 32 word) ! j"
    "\<And>j. 4 \<le> j \<Longrightarrow> j < length A \<Longrightarrow> A ! j = 0"
proof -
  let ?n = "length vs"
  let ?fixed = "align8 (4 + int (arrayNullBytes ?n) + arraySlotSize e * int ?n)"
  from assms obtain A where n: "int ?n \<le> maxRowBytes div 8" and fixed: "?fixed \<le> maxRowBytes"
    and put: "le_put 4 (replicate (nat ?fixed) 0) (int 0) (of_nat ?n :: 32 word) = Inr A"
    and elems: "encodeElements e enc (int (arrayNullBytes ?n)) 0 vs A = Inr bytes"
    by (auto simp: encodeBinaryArray.simps Let_def arrayNullBytes_int)
  note A = le_put_Inr_D [OF put]
  have "int (slotAt (arrayNullBytes ?n) e ?n) \<le> ?fixed"
    using align8_ge [of "int (slotAt (arrayNullBytes ?n) e ?n)"] by (simp add: slotAt_int)
  then have len: "slotAt (arrayNullBytes ?n) e (0 + ?n) \<le> length A" "int (length A) \<le> maxRowBytes"
    "int (length A) = ?fixed"
    using A(2) fixed by simp_all
  show thesis
    by (rule that [OF n elems len]) (use A in auto)
qed

lemma array_rtI:
  assumes elt: "element_rt e enc"
  shows "array_rt e enc"
  unfolding array_rt_def
proof (intro allI impI)
  fix vs bytes
  assume wf: "\<forall>v \<in> set vs. wfValue v" and enc: "encodeBinaryArray e vs enc = Inr bytes"
  let ?n = "length vs" let ?nb = "arrayNullBytes (length vs)"
  obtain A where n: "int ?n \<le> maxRowBytes div 8"
    and elems: "encodeElements e enc (int ?nb) 0 vs A = Inr bytes"
    and lenA: "slotAt ?nb e (0 + ?n) \<le> length A" "int (length A) \<le> maxRowBytes"
      "int (length A) = align8 (4 + int ?nb + arraySlotSize e * int ?n)"
    and A: "4 \<le> length A" "\<And>j. j < 4 \<Longrightarrow> A ! j = le_bytes 4 (of_nat ?n :: 32 word) ! j"
    and zero: "\<And>j. 4 \<le> j \<Longrightarrow> j < length A \<Longrightarrow> A ! j = 0"
    using encodeBinaryArray_Inr_D [OF enc] by metis
  have room: "0 + ?n \<le> 8 * ?nb" using arrayNullBytes_room [of ?n] by simp
  note fr = encodeElements_frame [OF elems room lenA(1,2)]
  have dec: "decodeElements e bytes enc (int ?nb) 0 ?n = Inr (map (canon True enc e) vs)"
  proof (rule encodeElements_rt [OF elt elems wf room lenA(1,2)])
    show "\<forall>j. slotAt ?nb e 0 \<le> j \<longrightarrow> j < slotAt ?nb e (0 + ?n) \<longrightarrow> A ! j = 0"
      using zero lenA(1) slotAt_ge [of ?nb e 0] by auto
    show "\<forall>k \<ge> 0. k < 0 + ?n \<longrightarrow> \<not> nullBit A 4 k"
    proof (intro allI impI)
      fix k assume "k < 0 + ?n"
      with room have "k div 8 < ?nb" by (simp add: less_mult_imp_div_less mult.commute)
      then have "A ! (4 + k div 8) = 0"
        using zero lenA(1) slotAt_ge [of ?nb e ?n] by auto
      then show "\<not> nullBit A 4 k" by (simp add: nullBit_def)
    qed
  qed
  have "le_get 4 bytes (int 0) = Inr (of_nat ?n :: 32 word)"
    using fr A by (intro le_get_at) (auto simp: slotAt_def)
  moreover have "uint (of_nat ?n :: 32 word) = int ?n" "unat (of_nat ?n :: 32 word) = ?n"
    using n by (intro uint_of_nat_count; simp add: maxRowBytes_def)+
  ultimately show "decodeBinaryArray e bytes enc = Inr (map (canon True enc e) vs)"
    using n fr dec lenA A(1)
    by (auto simp: decodeBinaryArray.simps Let_def arrayNullBytes_int)
qed

section \<open>Maps\<close>

lemma encodeBinaryArray_length:
  assumes "encodeBinaryArray e vs enc = Inr bytes"
  shows "4 \<le> length bytes" "int (length bytes) \<le> maxRowBytes"
proof -
  obtain A where elems: "encodeElements e enc (int (arrayNullBytes (length vs))) 0 vs A = Inr bytes"
    and lenA: "slotAt (arrayNullBytes (length vs)) e (0 + length vs) \<le> length A"
      "int (length A) \<le> maxRowBytes" and "4 \<le> length A"
    using encodeBinaryArray_Inr_D [OF assms] by metis
  have "0 + length vs \<le> 8 * arrayNullBytes (length vs)"
    using arrayNullBytes_room [of "length vs"] by simp
  note fr = encodeElements_frame [OF elems this lenA]
  show "4 \<le> length bytes" "int (length bytes) \<le> maxRowBytes"
    using fr \<open>4 \<le> length A\<close> by auto
qed

lemma wfValue_mapEntries:
  "wfValue v \<Longrightarrow> mapEntries v = Some es \<Longrightarrow>
   (\<forall>k \<in> set (map fst es). wfValue k) \<and> (\<forall>x \<in> set (map snd es). wfValue x)"
  by (cases v) (fastforce simp: mapEntries_def split: option.splits dest!: map_of_SomeD)+

lemma map_rtI:
  assumes key: "\<And>k. ltKey lt = Some k \<Longrightarrow> array_rt k enc"
    and val: "\<And>v. ltValue lt = Some v \<Longrightarrow> array_rt v enc"
  shows "map_rt lt enc"
  unfolding map_rt_def
proof (intro allI impI)
  fix v bytes arr
  assume wf: "wfValue v" and enc: "encodeBinaryMap lt v enc = Inr bytes"
  from enc obtain es kt vt kb vb where es: "mapEntries v = Some es" and kt: "ltKey lt = Some kt"
    and vt: "ltValue lt = Some vt"
    and kb: "encodeBinaryArray kt (map fst es) enc = Inr kb"
    and vb: "encodeBinaryArray vt (map snd es) enc = Inr vb"
    and bytes: "bytes = le_bytes 4 (of_nat (length kb) :: 32 word) @ kb @ vb"
    by (auto simp: encodeBinaryMap.simps split: option.splits)
  have dk: "decodeBinaryArray kt kb enc = Inr (map (canon True enc kt) (map fst es))"
    using key [OF kt] wfValue_mapEntries [OF wf es] kb unfolding array_rt_def by blast
  have dv: "decodeBinaryArray vt vb enc = Inr (map (canon True enc vt) (map snd es))"
    using val [OF vt] wfValue_mapEntries [OF wf es] vb unfolding array_rt_def by blast
  have get: "le_get 4 bytes 0 = Inr (of_nat (length kb) :: 32 word)"
    unfolding bytes by (simp add: codec_rt)
  have count: "uint (of_nat (length kb) :: 32 word) = int (length kb)"
    using encodeBinaryArray_length [OF kb] by (intro uint_of_nat_count)
  have "go_slice bytes 4 (4 + int (length kb)) = Inr kb"
    "go_slice bytes (4 + int (length kb)) (int (length bytes)) = Inr vb"
    by (simp_all add: bytes go_slice_def nat_add_distrib)
  with dk dv get count kt vt
  have "decodeBinaryMap lt bytes enc
        = Inr (zip (map (canon True enc kt) (map fst es)) (map (canon True enc vt) (map snd es)))"
    by (simp add: decodeBinaryMap.simps Let_def bytes del: map_map)
  moreover have "canon arr enc lt v
      = VMap (zip (map (canon True enc kt) (map fst es)) (map (canon True enc vt) (map snd es)))"
    by (simp add: canon_map [OF es kt vt] zip_map_map zip_map1 zip_map2 zip_same_conv_map
        case_prod_beta)
  ultimately show "\<exists>m. decodeBinaryMap lt bytes enc = Inr m \<and> canon arr enc lt v = VMap m"
    by blast
qed

end
