(* ===== verification/Row_Roundtrip.thy ===== *)
theory Row_Roundtrip
  imports Array_Roundtrip
begin

text \<open>
  Decoding inverts encoding for column values and rows, in both layouts, and the induction over the
  nesting of rows, arrays and maps that joins the contracts.
\<close>

section \<open>Rows\<close>

definition variableColumn :: "row_encoding \<Rightarrow> column \<Rightarrow> bool" where
  "variableColumn enc c \<longleftrightarrow> enc = IndexedEncoding \<and> \<not> indexedFixed (logicalTypeForColumn c)"

definition lengthArea :: "row_encoding \<Rightarrow> column list \<Rightarrow> nat" where
  "lengthArea enc cs = 4 * length (filter (variableColumn enc) cs)"

lemma lengthArea_simps [simp]:
  "lengthArea enc [] = 0"
  "lengthArea enc (c # cs) = (if variableColumn enc c then 4 else 0) + lengthArea enc cs"
  by (simp_all add: lengthArea_def)

text \<open>One step of the column loop.\<close>

definition columnStep :: "row_encoding \<Rightarrow> nat \<Rightarrow> column \<Rightarrow> go_value \<Rightarrow> bytes \<Rightarrow> nat
    \<Rightarrow> (bytes \<times> nat) result" where
  "columnStep enc i c v encoded lp =
     (if v = VNil then andThen (setNullBit encoded (int 0) i) (\<lambda>encoded'. Inr (encoded', lp))
      else andThen (encodeRowValue (logicalTypeForColumn c) v enc) (\<lambda>val.
        andThen (if variableColumn enc c
                 then andThen (le_put 4 encoded (int lp) (of_nat (length val) :: 32 word))
                        (\<lambda>encoded'. Inr (encoded', lp + 4))
                 else Inr (encoded, lp)) (\<lambda>(encoded', lp').
        guardE (int (length val) > maxRowBytes - int (length encoded')) ErrMalformedRow
          (Inr (encoded' @ val, lp')))))"

lemma encodeColumns_Cons:
  "encodeColumns enc i (c # cs) (v # row) encoded (int lp) =
     andThen (columnStep enc i c v encoded lp)
       (\<lambda>(encoded', lp'). encodeColumns enc (Suc i) cs row encoded' (int lp'))"
  by (cases "variableColumn enc c")
    (simp_all add: encodeColumns.simps columnStep_def variableColumn_def [symmetric] andThen_assoc
      andThen_guardE case_prod_beta add.commute)

text \<open>A step either sets a null bit or writes a length and appends the value.\<close>

lemma columnStep_null:
  assumes "columnStep enc i c VNil encoded lp = Inr (M, lp')" "k < 8 * nb" "nb \<le> length encoded"
  shows "lp' = lp" "length M = length encoded" "nb \<le> j \<Longrightarrow> i < 8 * nb \<Longrightarrow> M ! j = encoded ! j"
    "nullBit M 0 k = (k = i \<or> nullBit encoded 0 k)"
proof -
  from assms have set: "setNullBit encoded (int 0) i = Inr M" and "lp' = lp"
    by (auto simp: columnStep_def)
  show "lp' = lp" by fact
  show "length M = length encoded" "nullBit M 0 k = (k = i \<or> nullBit encoded 0 k)"
    using setNullBit_Inr_D [OF set] by simp_all
  assume "nb \<le> j" "i < 8 * nb"
  then have "j \<noteq> 0 + i div 8" using less_mult_imp_div_less [of i nb 8] by (simp add: mult.commute)
  then show "M ! j = encoded ! j" by (rule setNullBit_Inr_D(4) [OF set])
qed

lemma columnStep_value:
  assumes "columnStep enc i c v encoded lp = Inr (M, lp')" "v \<noteq> VNil"
  obtains val E where "encodeRowValue (logicalTypeForColumn c) v enc = Inr val" "M = E @ val"
    "length E = length encoded" "lp' = lp + (if variableColumn enc c then 4 else 0)"
    "int (length val) \<le> maxRowBytes - int (length encoded)"
    "\<And>j. j < length encoded \<Longrightarrow> \<not> (variableColumn enc c \<and> lp \<le> j \<and> j < lp + 4) \<Longrightarrow> E ! j = encoded ! j"
    "variableColumn enc c \<Longrightarrow> lp + 4 \<le> length encoded"
    "\<And>j. variableColumn enc c \<Longrightarrow> lp \<le> j \<Longrightarrow> j < lp + 4 \<Longrightarrow>
       E ! j = le_bytes 4 (of_nat (length val) :: 32 word) ! (j - lp)"
proof -
  from assms obtain val E where val: "encodeRowValue (logicalTypeForColumn c) v enc = Inr val"
    and E: "(if variableColumn enc c then le_put 4 encoded (int lp) (of_nat (length val) :: 32 word)
             else Inr encoded) = Inr E"
    and M: "M = E @ val" "lp' = lp + (if variableColumn enc c then 4 else 0)"
    and len: "int (length val) \<le> maxRowBytes - int (length E)"
    by (auto simp: columnStep_def split: if_splits)
  show thesis
  proof (cases "variableColumn enc c")
    case True
    with E have "le_put 4 encoded (int lp) (of_nat (length val) :: 32 word) = Inr E" by simp
    note D = le_put_Inr_D [OF this]
    show thesis by (rule that [OF val M(1)]) (use D M(2) len True in auto)
  next
    case False
    with E show thesis by (intro that [OF val M(1)]) (use M(2) len in auto)
  qed
qed

lemma nullBit_cong:
  assumes "k < 8 * nb" "\<And>j. j < base + nb \<Longrightarrow> bs' ! j = bs ! j"
  shows "nullBit bs' base k = nullBit bs base k"
  using assms less_mult_imp_div_less [of k nb 8] by (simp add: nullBit_def mult.commute)

lemma columnStep_frame:
  assumes step: "columnStep enc i c v encoded lp = Inr (M, lp')"
    and "i < 8 * nb" "nb \<le> lp" "lp \<le> length encoded"
  shows "length encoded \<le> length M" "lp \<le> lp'"
    "lp' \<le> lp + (if variableColumn enc c then 4 else 0)"
    "j < length encoded \<Longrightarrow> nb \<le> j \<Longrightarrow>
       \<not> (lp \<le> j \<and> j < lp + (if variableColumn enc c then 4 else 0)) \<Longrightarrow> M ! j = encoded ! j"
    "j < length encoded \<Longrightarrow> nb \<le> j \<Longrightarrow> j < lp \<or> lp' \<le> j \<Longrightarrow> M ! j = encoded ! j"
    "k < 8 * nb \<Longrightarrow> nullBit M 0 k = (nullBit encoded 0 k \<or> k = i \<and> v = VNil)"
proof -
  have nb: "nb \<le> length encoded" using assms by simp
  have "length encoded \<le> length M \<and> lp \<le> lp' \<and> lp' \<le> lp + (if variableColumn enc c then 4 else 0)
    \<and> (\<forall>j. j < length encoded \<longrightarrow> nb \<le> j \<longrightarrow> j < lp \<or> lp' \<le> j \<longrightarrow> M ! j = encoded ! j)
    \<and> (\<forall>k. k < 8 * nb \<longrightarrow> nullBit M 0 k = (nullBit encoded 0 k \<or> k = i \<and> v = VNil))"
  proof (cases "v = VNil")
    case True
    note step' = step [unfolded True]
    show ?thesis
      using columnStep_null [OF step' assms(2) nb] columnStep_null(4) [OF step' _ nb] assms(2) True
      by auto
  next
    case False
    obtain val E where M: "M = E @ val" "length E = length encoded"
      "lp' = lp + (if variableColumn enc c then 4 else 0)"
      and E: "\<And>j. j < length encoded \<Longrightarrow> \<not> (variableColumn enc c \<and> lp \<le> j \<and> j < lp + 4) \<Longrightarrow>
        E ! j = encoded ! j"
      using columnStep_value [OF step False] by metis
    have "nullBit M 0 k = nullBit encoded 0 k" if "k < 8 * nb" for k
      using that assms(3,4) M E by (intro nullBit_cong [of k nb]) (auto simp: nth_append)
    with False M E show ?thesis by (auto simp: nth_append)
  qed
  then show "length encoded \<le> length M" "lp \<le> lp'"
    "lp' \<le> lp + (if variableColumn enc c then 4 else 0)"
    "j < length encoded \<Longrightarrow> nb \<le> j \<Longrightarrow>
       \<not> (lp \<le> j \<and> j < lp + (if variableColumn enc c then 4 else 0)) \<Longrightarrow> M ! j = encoded ! j"
    "j < length encoded \<Longrightarrow> nb \<le> j \<Longrightarrow> j < lp \<or> lp' \<le> j \<Longrightarrow> M ! j = encoded ! j"
    "k < 8 * nb \<Longrightarrow> nullBit M 0 k = (nullBit encoded 0 k \<or> k = i \<and> v = VNil)"
    by auto
qed

lemma encodeColumns_frame:
  assumes "encodeColumns enc i cs row encoded (int lp) = Inr R"
    and "i + length cs \<le> 8 * nb" "nb \<le> lp" "lp + lengthArea enc cs \<le> length encoded"
  shows "length encoded \<le> length R
    \<and> (\<forall>j. j < length encoded \<longrightarrow> nb \<le> j \<longrightarrow> j < lp \<or> lp + lengthArea enc cs \<le> j \<longrightarrow>
         R ! j = encoded ! j)
    \<and> (\<forall>k < i. nullBit R 0 k = nullBit encoded 0 k)"
  using assms
proof (induction cs arbitrary: i row encoded lp)
  case Nil
  then show ?case by (simp add: encodeColumns.simps)
next
  case (Cons c cs)
  from Cons.prems(1) obtain v row' where row: "row = v # row'"
    by (cases row) (auto simp: encodeColumns.simps)
  with Cons.prems(1) obtain M lp' where step: "columnStep enc i c v encoded lp = Inr (M, lp')"
    and rest: "encodeColumns enc (Suc i) cs row' M (int lp') = Inr R"
    by (auto simp: encodeColumns_Cons)
  have "i < 8 * nb" "lp \<le> length encoded" using Cons.prems by simp_all
  note fr = columnStep_frame [OF step this(1) Cons.prems(3) this(2)]
  have "Suc i + length cs \<le> 8 * nb" "nb \<le> lp'" "lp' + lengthArea enc cs \<le> length M"
    using Cons.prems(2-4) fr(1-3) by (auto split: if_splits)
  from Cons.IH [OF rest this]
  have IH: "length M \<le> length R"
    "\<And>j. j < length M \<Longrightarrow> nb \<le> j \<Longrightarrow> j < lp' \<or> lp' + lengthArea enc cs \<le> j \<Longrightarrow> R ! j = M ! j"
    "\<And>k. k < Suc i \<Longrightarrow> nullBit R 0 k = nullBit M 0 k"
    by blast+
  have "R ! j = encoded ! j" if "j < length encoded" "nb \<le> j"
      "j < lp \<or> lp + lengthArea enc (c # cs) \<le> j" for j
    using that fr(1-3) fr(5) [of j] IH(2) [of j] by (auto split: if_splits)
  moreover have "nullBit R 0 k = nullBit encoded 0 k" if "k < i" for k
    using that IH(3) [of k] fr(6) [of k] Cons.prems(2) by auto
  ultimately show ?case using IH(1) fr(1) by auto
qed

lemma split_at:
  assumes "length pre = n" "\<And>j. n \<le> j \<Longrightarrow> j < n + length val \<Longrightarrow> R ! j = val ! (j - n)"
    "n + length val \<le> length R"
  shows "R = take n R @ val @ drop (n + length val) R"
proof -
  have "take (length val) (drop n R) = val"
    using assms(2,3) by (intro take_drop_eqI) auto
  then show ?thesis
    by (metis append_take_drop_id drop_drop add.commute)
qed

lemma encodeColumns_rt:
  assumes "encodeColumns enc i cs row encoded (int lp) = Inr R"
    and "\<forall>c \<in> set cs. value_rt (logicalTypeForColumn c) enc"
    and "list_all2 (\<lambda>c v. (v = VNil \<longrightarrow> colNullable c) \<and> wfValue v) cs row"
    and "i + length cs \<le> 8 * nb" "nb \<le> lp" "lp + lengthArea enc cs \<le> hdr" "hdr \<le> length encoded"
    and "\<forall>k \<ge> i. k < i + length cs \<longrightarrow> \<not> nullBit encoded 0 k"
  shows "decodeColumns R enc i cs (int (length encoded)) (int lp)
         = Inr (canonRow enc cs row, int (length R))"
  using assms
proof (induction cs arbitrary: i row encoded lp)
  case Nil
  then show ?case by (simp add: encodeColumns.simps decodeColumns.simps)
next
  case (Cons c cs)
  from Cons.prems(3) obtain v row' where row: "row = v # row'" by (cases row) auto
  with Cons.prems(1) obtain M lp' where step: "columnStep enc i c v encoded lp = Inr (M, lp')"
    and rest: "encodeColumns enc (Suc i) cs row' M (int lp') = Inr R"
    by (auto simp: encodeColumns_Cons)
  have i: "i < 8 * nb" "lp \<le> length encoded" using Cons.prems by simp_all
  note fr = columnStep_frame [OF step i(1) Cons.prems(5) i(2)]
  have pre: "Suc i + length cs \<le> 8 * nb" "nb \<le> lp'" "lp' + lengthArea enc cs \<le> hdr"
    "hdr \<le> length M" "lp' + lengthArea enc cs \<le> length M"
    using Cons.prems(4-7) fr(1-3) by (auto split: if_splits)
  note frR = encodeColumns_frame [OF rest pre(1,2,5)]
  have IH: "decodeColumns R enc (Suc i) cs (int (length M)) (int lp')
         = Inr (canonRow enc cs row', int (length R))"
  proof (rule Cons.IH [OF rest _ _ pre(1-4)])
    show "\<forall>c \<in> set cs. value_rt (logicalTypeForColumn c) enc"
      "list_all2 (\<lambda>c v. (v = VNil \<longrightarrow> colNullable c) \<and> wfValue v) cs row'"
      using Cons.prems(2,3) row by simp_all
    show "\<forall>k \<ge> Suc i. k < Suc i + length cs \<longrightarrow> \<not> nullBit M 0 k"
      using Cons.prems(4,8) fr(6) by auto
  qed
  have "i div 8 < nb" using i less_mult_imp_div_less [of i nb 8] by (simp add: mult.commute)
  then have "getNullBit R (int 0) i = Inr (nullBit R 0 i)"
    using Cons.prems(5) i fr(1) frR by (intro getNullBit_ok) auto
  moreover have "nullBit R 0 i = (v = VNil)"
    using frR fr(6) [OF i(1)] Cons.prems(8) by auto
  ultimately have bit: "getNullBit R 0 i = Inr (v = VNil)" by simp
  show ?case
  proof (cases "v = VNil")
    case True
    have "lp' = lp" "length M = length encoded"
      using columnStep_null [OF step [unfolded True] i(1)] Cons.prems(5) i(2) by auto
    with True bit IH Cons.prems(3) row show ?thesis
      by (simp add: decodeColumns.simps indexedValueLength_def)
  next
    case False
    let ?lt = "logicalTypeForColumn c"
    obtain val E where val: "encodeRowValue ?lt v enc = Inr val" and M: "M = E @ val"
      and E: "length E = length encoded" "lp' = lp + (if variableColumn enc c then 4 else 0)"
        "int (length val) \<le> maxRowBytes - int (length encoded)"
      and var: "variableColumn enc c \<Longrightarrow> lp + 4 \<le> length encoded"
        "\<And>j. variableColumn enc c \<Longrightarrow> lp \<le> j \<Longrightarrow> j < lp + 4 \<Longrightarrow>
           E ! j = le_bytes 4 (of_nat (length val) :: 32 word) ! (j - lp)"
      using columnStep_value [OF step False] by metis
    have len: "indexedValueLength R (int lp) ?lt enc False
        = Inr (if enc = IndexedEncoding \<and> \<not> indexedFixed ?lt then int (length val) else -1, int lp')"
    proof (cases "variableColumn enc c")
      case True
      then have "le_get 4 R (int lp) = Inr (of_nat (length val) :: 32 word)"
        using var frR M E Cons.prems(5)
        by (intro le_get_at) (auto simp: nth_append)
      moreover have "int (length val) \<le> maxRowBytes" using E(3) by simp
      ultimately show ?thesis
        using True E(2) uint_of_nat_count [of "length val"]
        by (auto simp: indexedValueLength_def variableColumn_def)
    next
      case False
      with E(2) show ?thesis by (auto simp: indexedValueLength_def variableColumn_def)
    qed
    have R: "R = take (length encoded) R @ val @ drop (length encoded + length val) R"
      using frR M E pre Cons.prems(5-7) by (intro split_at) (auto simp: nth_append)
    have pre_len: "length (take (length encoded) R) = length encoded" using frR M E by simp
    have "wfValue v" "value_rt ?lt enc" "int (length val) \<le> maxRowBytes"
      using Cons.prems(2,3) row E(3) by simp_all
    with val have "decodeRowValue (take (length encoded) R @ val @ drop (length encoded + length val) R)
        (int (length (take (length encoded) R))) ?lt enc
        (if enc = IndexedEncoding \<and> \<not> indexedFixed ?lt then int (length val) else -1)
        = Inr (canon False enc ?lt v, int (length (take (length encoded) R) + length val))"
      unfolding value_rt_def by blast
    then have "decodeRowValue R (int (length encoded)) ?lt enc
        (if enc = IndexedEncoding \<and> \<not> indexedFixed ?lt then int (length val) else -1)
        = Inr (canon False enc ?lt v, int (length M))"
      unfolding pre_len R [symmetric] using M E(1) by simp
    with False bit len IH row show ?thesis
      by (simp add: decodeColumns.simps)
  qed
qed

lemma rowHeaderBytes_eq:
  "rowHeaderBytes s enc = nullBitmapBytes s + int (lengthArea enc (Columns s))"
proof -
  have "sum_list (map (\<lambda>c. if indexedFixed (logicalTypeForColumn c) then 0 else 4) cs)
          = int (lengthArea IndexedEncoding cs)" for cs
    by (induction cs) (simp_all add: variableColumn_def)
  moreover have "enc \<noteq> IndexedEncoding \<Longrightarrow> lengthArea enc cs = 0" for cs
    by (induction cs) (simp_all add: variableColumn_def)
  ultimately show ?thesis by (simp add: rowHeaderBytes_def)
qed

lemma row_rtI:
  assumes vals: "\<forall>c \<in> set (Columns s). value_rt (logicalTypeForColumn c) enc"
  shows "row_rt s enc"
  unfolding row_rt_def
proof (intro allI impI)
  fix row bytes
  assume wf: "\<forall>v \<in> set row. wfValue v" and enc: "encodeRow s row enc = Inr bytes"
    and max: "int (length bytes) \<le> maxRowBytes"
  let ?cs = "Columns s" let ?nb = "(length ?cs + 7) div 8"
  let ?hdr = "?nb + lengthArea enc ?cs"
  have nb: "nullBitmapBytes s = int ?nb" by (simp add: nullBitmapBytes_def zdiv_int)
  have hdr: "rowHeaderBytes s enc = int ?hdr" by (simp add: rowHeaderBytes_eq nb)
  from enc have valid: "ValidateRow s row [] = Inr ()"
    and cols: "encodeColumns enc 0 ?cs row (replicate ?hdr 0) (int ?nb) = Inr bytes"
    by (auto simp: encodeRow.simps hdr nb simp del: of_nat_add)
  note V = ValidateRow_Inr_D [OF valid]
  have rows: "list_all2 (\<lambda>c v. (v = VNil \<longrightarrow> colNullable c) \<and> wfValue v) ?cs row"
    using V(2) wf by (auto simp: list_all2_conv_all_nth validateColumnValue_def split: if_splits)
  have room: "0 + length ?cs \<le> 8 * ?nb"
    using dividend_less_div_times [of 8 "length ?cs + 7"] by simp
  have zero: "\<forall>k \<ge> 0. k < 0 + length ?cs \<longrightarrow> \<not> nullBit (replicate ?hdr 0) 0 k"
  proof (intro allI impI)
    fix k assume "k < 0 + length ?cs"
    then have "k div 8 < ?nb" using room by (simp add: less_mult_imp_div_less mult.commute)
    then show "\<not> nullBit (replicate ?hdr 0) 0 k" by (simp add: nullBit_def)
  qed
  have "decodeColumns bytes enc 0 ?cs (int (length (replicate ?hdr (0 :: byte)))) (int ?nb)
      = Inr (canonRow enc ?cs row, int (length bytes))"
    by (rule encodeColumns_rt [OF cols vals rows room _ _ _ zero, where hdr = ?hdr]) simp_all
  moreover have "?hdr \<le> length bytes"
    using encodeColumns_frame [OF cols room] by simp
  ultimately show "decodeRow s bytes enc = Inr (canonRow enc ?cs row)"
    using V(1) max by (simp add: decodeRow.simps hdr nb del: of_nat_add)
qed

section \<open>Column values\<close>

lemma appendLengthBytes_bound:
  "appendLengthBytes dst v = Inr b \<Longrightarrow> int (length v) \<le> maxRowBytes"
  by (simp add: appendLengthBytes_def split: if_splits)

lemma readFixed_le_bytes [codec_rt]:
  "k = int n \<Longrightarrow> readFixed (pre @ le_bytes n w @ suf) (int (length pre)) k
     = Inr (le_bytes n w, int (length pre + n))"
  using readFixed_append [of k "le_bytes n w" pre suf] by simp

lemma ucast_ucast_var32: "ucast (ucast (x :: 32 word) :: 64 word) = x"
  by (rule bit_word_eqI) (simp add: bit_ucast_iff)

definition compacted_rt :: "logical_type \<Rightarrow> bool" where
  "compacted_rt lt \<longleftrightarrow> (\<forall>v bytes pre suf. wfValue v \<longrightarrow> appendCompactedValue [] lt v = Inr bytes \<longrightarrow>
     readCompactedValue (pre @ bytes @ suf) (int (length pre)) lt
     = Inr (canon False CompactedEncoding lt v, int (length pre + length bytes)))"

lemmas compacted_eqs = appendCompactedValue.simps readCompactedValue.simps Let_def
  compactedFixedWidth_def readCompactedFixed_def assert_Inr_iff

lemma compacted_fixed:
  assumes w: "appendCompactedValue [] lt v = Inr bytes"
    and kind: "compactedFixedWidth (dataTypeForLogicalType lt)"
  shows "readCompactedValue (pre @ bytes @ suf) (int (length pre)) lt
     = Inr (canon arr enc lt v, int (length pre + length bytes))"
proof -
  have hd: "go_index (x # xs) 0 = Inr x" for x :: byte and xs
    by (simp add: go_index_def)
  note b = readFixed_append [of 1 "[_]" pre suf, simplified]
  show ?thesis
    using w kind
    by (auto simp: compacted_eqs appendLittle_le_bytes appendLittle_8 codec_rt b hd)
qed

lemma compacted_plain:
  assumes w: "appendCompactedValue [] lt v = Inr bytes"
    and kind: "dataTypeForLogicalType lt \<in> {IntType, BigIntType, StringType, CharType, BytesType,
                 BinaryType, DateType, TimeType}"
  shows "readCompactedValue (pre @ bytes @ suf) (int (length pre)) lt
     = Inr (canon False CompactedEncoding lt v, int (length pre + length bytes))"
  using w kind
  by (auto simp: compacted_eqs codec_rt canon_bytes canon_time ucast_ucast_var32)

lemma compacted_decimal:
  assumes w: "appendCompactedValue [] lt v = Inr bytes"
    and kind: "dataTypeForLogicalType lt = DecimalType"
  shows "readCompactedValue (pre @ bytes @ suf) (int (length pre)) lt
     = Inr (canon False CompactedEncoding lt v, int (length pre + length bytes))"
proof -
  from w kind obtain q u where v: "v = VRat q" and u: "decimalUnscaled q lt = Inr u"
    and b: "if ltPrecision lt \<le> 18 then bytes = appendVar64 [] (word_of_int u)
              else appendLengthBytes [] (signedBigEndian u) = Inr bytes"
    by (auto simp: compacted_eqs split: if_splits)
  note q = decimalUnscaled_Inr_D(1) [OF u]
  have eq: "readCompactedValue (pre @ bytes @ suf) (int (length pre)) lt
      = readCompactedDecimal (pre @ bytes @ suf) (int (length pre)) lt"
    using kind by (simp add: compacted_eqs)
  show ?thesis
  proof (cases "ltPrecision lt \<le> 18")
    case True
    with b v q sint_unscaled [OF u True] show ?thesis
      unfolding eq by (simp add: readCompactedDecimal_def codec_rt)
  next
    case False
    with b v q show ?thesis
      unfolding eq by (simp add: readCompactedDecimal_def codec_rt signedBigInt_signedBigEndian)
  qed
qed

lemma compacted_timestamp:
  assumes w: "appendCompactedValue [] lt v = Inr bytes" and wf: "wfValue v"
    and kind: "dataTypeForLogicalType lt \<in> {TimestampType, TimestampLTZType}"
  shows "readCompactedValue (pre @ bytes @ suf) (int (length pre)) lt
     = Inr (canon False CompactedEncoding lt v, int (length pre + length bytes))"
proof -
  let ?k = "dataTypeForLogicalType lt"
  from w kind obtain t where v: "v = VTime t"
    and b: "bytes = (if ltPrecision lt > 3
        then appendVar64 [] (fst (timestampParts ?k t)) @ appendVar32 [] (snd (timestampParts ?k t))
        else appendVar64 [] (fst (timestampParts ?k t)))"
    by (auto simp: compacted_eqs case_prod_beta appendVar32_append [of "appendVar64 _ _"])
  have canon: "canon False CompactedEncoding lt v = VTime (timestampTime ?k (fst (timestampParts ?k t))
     (if ltPrecision lt > 3 then snd (timestampParts ?k t) else 0))"
    using v kind canon_time by auto
  from wf v have "0 \<le> nanosecond t" by simp
  note nanos = timestampParts_nanos [OF this, of ?k]
  have small: "\<not> ucast (snd (timestampParts ?k t)) > (999999 :: 64 word)"
    using nanos by (simp add: word_less_def unsigned_ucast_eq take_bit_int_eq_self)
  have eq: "readCompactedValue (pre @ bytes @ suf) (int (length pre)) lt
      = readCompactedTimestamp (pre @ bytes @ suf) (int (length pre)) lt"
    using kind by (auto simp: compacted_eqs)
  show ?thesis
  proof (cases "ltPrecision lt > 3")
    case True
    let ?m = "fst (timestampParts ?k t)" let ?n = "snd (timestampParts ?k t)"
    have "readVar (pre @ bytes @ suf) (int (length pre)) 10
        = Inr (?m, int (length (pre @ appendVar64 [] ?m)))"
      using readVar_appendVar64 [of pre ?m "appendVar32 [] ?n @ suf"] True b by simp
    moreover have "readVar (pre @ bytes @ suf) (int (length (pre @ appendVar64 [] ?m))) 5
        = Inr (ucast ?n, int (length pre + length bytes))"
      using readVar_appendVar32 [of "pre @ appendVar64 [] ?m" ?n suf] True b by simp
    ultimately show ?thesis
      unfolding eq using True canon small
      by (simp add: readCompactedTimestamp_def ucast_ucast_var32 del: length_append)
  next
    case False
    with b canon show ?thesis
      unfolding eq by (simp add: readCompactedTimestamp_def codec_rt)
  qed
qed

lemma compacted_nested:
  assumes w: "appendCompactedValue [] lt v = Inr bytes" and wf: "wfValue v"
    and nested: "nested_rt lt CompactedEncoding"
    and kind: "dataTypeForLogicalType lt \<in> {ArrayType, MapType, RowType}"
  shows "readCompactedValue (pre @ bytes @ suf) (int (length pre)) lt
     = Inr (canon False CompactedEncoding lt v, int (length pre + length bytes))"
proof -
  note nest = nested [unfolded nested_rt_def array_rt_def map_rt_def row_rt_def]
  have eq: "readCompactedValue (pre @ bytes @ suf) (int (length pre)) lt
      = readCompactedNested (pre @ bytes @ suf) (int (length pre)) lt"
    using kind by (auto simp: compacted_eqs)
  consider e vs b where "dataTypeForLogicalType lt = ArrayType" "ltElement lt = Some e" "v = VArray vs"
      "encodeBinaryArray e vs CompactedEncoding = Inr b" "appendLengthBytes [] b = Inr bytes"
    | b where "dataTypeForLogicalType lt = MapType" "encodeBinaryMap lt v CompactedEncoding = Inr b"
      "appendLengthBytes [] b = Inr bytes"
    | r b where "dataTypeForLogicalType lt = RowType" "v = VRow r"
      "encodeRow (nestedSchema lt) r CompactedEncoding = Inr b" "appendLengthBytes [] b = Inr bytes"
    using w kind by (auto simp: compacted_eqs split: option.splits)
  then show ?thesis
  proof cases
    case 1
    with nest wf show ?thesis
      unfolding eq by (simp add: readCompactedNested.simps canon_array codec_rt)
  next
    case 2
    with nest wf obtain m where "decodeBinaryMap lt b CompactedEncoding = Inr m"
      "canon False CompactedEncoding lt v = VMap m"
      by blast
    with 2 show ?thesis
      unfolding eq by (simp add: readCompactedNested.simps codec_rt)
  next
    case 3
    with nest wf appendLengthBytes_bound [OF 3(4)] show ?thesis
      unfolding eq by (simp add: readCompactedNested.simps canon_nested_row codec_rt)
  qed
qed

lemma compacted_rtI:
  assumes "nested_rt lt CompactedEncoding"
  shows "compacted_rt lt"
  unfolding compacted_rt_def
proof (intro allI impI)
  fix v bytes pre suf
  assume "wfValue v" and w: "appendCompactedValue [] lt v = Inr bytes"
  then show "readCompactedValue (pre @ bytes @ suf) (int (length pre)) lt
     = Inr (canon False CompactedEncoding lt v, int (length pre + length bytes))"
    using assms compacted_fixed [OF w] compacted_plain [OF w] compacted_decimal [OF w]
      compacted_timestamp [OF w] compacted_nested [OF w]
    by (cases "dataTypeForLogicalType lt")
      (simp_all add: compactedFixedWidth_def appendCompactedValue.simps)
qed

lemma trimZero_padded: "trimZero (v @ replicate k 0) = trimZero v"
proof (induction k)
  case (Suc k)
  have "v @ replicate (Suc k) 0 = (v @ replicate k 0) @ [0 :: byte]"
    by (simp add: replicate_append_same)
  then show ?case
    using Suc by (subst trimZero.simps) (simp del: replicate.simps append_assoc)
qed simp

lemma appendFixed_Inr_D:
  assumes "appendFixed [] s n = Inr bytes"
  shows "trimZero bytes = trimZero s" "int (length bytes) = n" "0 < n"
  using assms by (auto simp: appendFixed_def overwrite_def trimZero_padded split: if_splits)

lemma ltRoot_known: "dataTypeForLogicalType lt \<noteq> OtherType [] \<Longrightarrow> ltRoot lt \<noteq> []"
  by (auto simp: dataTypeForLogicalType_def DataType_def)

lemma indexedFixed_kinds:
  "dataTypeForLogicalType lt \<in> {BoolType, TinyIntType, SmallIntType, IntType, BigIntType, FloatType,
     DoubleType, DateType, TimeType, TimestampType, TimestampLTZType} \<Longrightarrow> indexedFixed lt"
  "dataTypeForLogicalType lt \<in> {CharType, BinaryType} \<Longrightarrow> indexedFixed lt = (ltLength lt > 0)"
  "dataTypeForLogicalType lt = DecimalType \<Longrightarrow> indexedFixed lt = (0 < ltPrecision lt \<and> ltPrecision lt \<le> 18)"
  "dataTypeForLogicalType lt \<in> {StringType, BytesType, ArrayType, MapType, RowType} \<Longrightarrow> \<not> indexedFixed lt"
  using ltRoot_known [of lt] by (auto simp: indexedFixed_def Let_def)

definition indexed_rt :: "logical_type \<Rightarrow> bool" where
  "indexed_rt lt \<longleftrightarrow> (\<forall>v bytes pre suf. wfValue v \<longrightarrow> appendIndexedValue [] lt v = Inr bytes \<longrightarrow>
     int (length bytes) \<le> maxRowBytes \<longrightarrow>
     readIndexedValue (pre @ bytes @ suf) (int (length pre)) lt
       (if indexedFixed lt then -1 else int (length bytes))
     = Inr (canon False IndexedEncoding lt v, int (length pre + length bytes)))"

lemmas indexed_eqs = appendIndexedValue.simps readIndexedValue.simps readIndexedVariable.simps
  readIndexedFixed.simps assert_Inr_iff readFixed_append

lemma indexed_plain:
  assumes w: "appendIndexedValue [] lt v = Inr bytes"
    and kind: "dataTypeForLogicalType lt \<in> {IntType, BigIntType, DateType, TimeType, StringType, BytesType}"
  shows "readIndexedValue (pre @ bytes @ suf) (int (length pre)) lt
       (if indexedFixed lt then -1 else int (length bytes))
     = Inr (canon False IndexedEncoding lt v, int (length pre + length bytes))"
  using w kind indexedFixed_kinds [of lt]
  by (auto simp: indexed_eqs appendLittle_le_bytes appendLittle_8 codec_rt canon_bytes canon_time)

lemma indexed_fixed_string:
  assumes w: "appendIndexedValue [] lt v = Inr bytes"
    and kind: "dataTypeForLogicalType lt \<in> {CharType, BinaryType}"
  shows "readIndexedValue (pre @ bytes @ suf) (int (length pre)) lt
       (if indexedFixed lt then -1 else int (length bytes))
     = Inr (canon False IndexedEncoding lt v, int (length pre + length bytes))"
proof -
  have read: "readFixed (pre @ bytes @ suf) (int (length pre)) (ltLength lt)
      = Inr (bytes, int (length pre) + int (length bytes)) \<and> trimZero bytes = trimZero s
      \<and> indexedFixed lt"
    if "appendFixed [] s (ltLength lt) = Inr bytes" for s
    using appendFixed_Inr_D [OF that] indexedFixed_kinds(2) [OF kind]
    by (simp add: readFixed_append)
  show ?thesis
    using w kind indexedFixed_kinds(2) [OF kind]
    by (auto simp: indexed_eqs canon_bytes dest!: read split: if_splits)
qed

lemma indexed_compacted:
  assumes w: "appendIndexedValue [] lt v = Inr bytes"
    and kind: "compactedFixedWidth (dataTypeForLogicalType lt)"
  shows "readIndexedValue (pre @ bytes @ suf) (int (length pre)) lt
       (if indexedFixed lt then -1 else int (length bytes))
     = Inr (canon False IndexedEncoding lt v, int (length pre + length bytes))"
proof -
  have "indexedFixed lt" using kind by (intro indexedFixed_kinds) (auto simp: compactedFixedWidth_def)
  moreover have "appendCompactedValue [] lt v = Inr bytes"
    using w kind by (auto simp: compactedFixedWidth_def appendIndexedValue.simps)
  ultimately show ?thesis
    using kind compacted_fixed [of lt v bytes pre suf False IndexedEncoding]
    by (auto simp: readIndexedValue.simps readIndexedFixed.simps compactedFixedWidth_def)
qed

lemma indexed_decimal:
  assumes w: "appendIndexedValue [] lt v = Inr bytes"
    and kind: "dataTypeForLogicalType lt = DecimalType"
  shows "readIndexedValue (pre @ bytes @ suf) (int (length pre)) lt
       (if indexedFixed lt then -1 else int (length bytes))
     = Inr (canon False IndexedEncoding lt v, int (length pre + length bytes))"
proof -
  from w kind obtain q u where v: "v = VRat q" and u: "decimalUnscaled q lt = Inr u"
    and b: "bytes = (if ltPrecision lt \<le> 18 then le_bytes 8 (word_of_int u :: 64 word)
              else signedBigEndian u)"
    by (auto simp: indexed_eqs appendLittle_8 split: if_splits)
  note D = decimalUnscaled_Inr_D [OF u]
  show ?thesis
    using b v D indexedFixed_kinds(3) [OF kind] sint_unscaled [OF u] kind
    by (auto simp: indexed_eqs codec_rt signedBigInt_signedBigEndian)
qed

lemma indexed_timestamp:
  assumes w: "appendIndexedValue [] lt v = Inr bytes" and wf: "wfValue v"
    and kind: "dataTypeForLogicalType lt \<in> {TimestampType, TimestampLTZType}"
  shows "readIndexedValue (pre @ bytes @ suf) (int (length pre)) lt
       (if indexedFixed lt then -1 else int (length bytes))
     = Inr (canon False IndexedEncoding lt v, int (length pre + length bytes))"
proof -
  let ?k = "dataTypeForLogicalType lt"
  from w kind obtain t where v: "v = VTime t"
    and b: "bytes = le_bytes 8 (fst (timestampParts ?k t)) @
        (if ltPrecision lt > 3 then le_bytes 4 (snd (timestampParts ?k t)) else [])"
    by (auto simp: indexed_eqs case_prod_beta Let_def appendLittle_le_bytes appendLittle_8)
  have canon: "canon False IndexedEncoding lt v = VTime (timestampTime ?k (fst (timestampParts ?k t))
     (if ltPrecision lt > 3 then snd (timestampParts ?k t) else 0))"
    using v kind canon_time by auto
  from wf v have "0 \<le> nanosecond t" by simp
  note nanos = timestampParts_nanos [OF this, of ?k]
  have eq: "readIndexedValue (pre @ bytes @ suf) (int (length pre)) lt
       (if indexedFixed lt then -1 else int (length bytes))
      = readIndexedTimestamp (pre @ bytes @ suf) (int (length pre)) lt"
    using kind indexedFixed_kinds(1) [of lt] by (auto simp: readIndexedValue.simps readIndexedFixed.simps)
  have len: "indexedLength lt = int (length bytes)" using kind b by (auto simp: indexedLength_def)
  have millis: "le_get 8 bytes 0 = Inr (fst (timestampParts ?k t))" unfolding b by (simp add: codec_rt)
  have "le_get 4 bytes 8 = Inr (snd (timestampParts ?k t))" if "ltPrecision lt > 3"
    using le_get_append [of 4 "le_bytes 8 (fst (timestampParts ?k t))" "snd (timestampParts ?k t)" "[]"]
      that b by simp
  moreover have "length bytes = 12 \<longleftrightarrow> ltPrecision lt > 3" by (simp add: b)
  ultimately show ?thesis
    using canon nanos len millis
    unfolding eq readIndexedTimestamp_def by (simp add: readFixed_append Let_def)
qed

lemma indexed_nested:
  assumes w: "appendIndexedValue [] lt v = Inr bytes" and wf: "wfValue v"
    and nested: "nested_rt lt IndexedEncoding" and max: "int (length bytes) \<le> maxRowBytes"
    and kind: "dataTypeForLogicalType lt \<in> {ArrayType, MapType, RowType}"
  shows "readIndexedValue (pre @ bytes @ suf) (int (length pre)) lt
       (if indexedFixed lt then -1 else int (length bytes))
     = Inr (canon False IndexedEncoding lt v, int (length pre + length bytes))"
proof -
  note nest = nested [unfolded nested_rt_def array_rt_def map_rt_def row_rt_def]
  have fixed: "\<not> indexedFixed lt" using kind by (intro indexedFixed_kinds) auto
  consider e vs where "dataTypeForLogicalType lt = ArrayType" "ltElement lt = Some e" "v = VArray vs"
      "encodeBinaryArray e vs IndexedEncoding = Inr bytes"
    | "dataTypeForLogicalType lt = MapType" "encodeBinaryMap lt v IndexedEncoding = Inr bytes"
    | r where "dataTypeForLogicalType lt = RowType" "v = VRow r"
      "encodeRow (nestedSchema lt) r IndexedEncoding = Inr bytes"
    using w kind by (auto simp: indexed_eqs split: option.splits)
  then show ?thesis
  proof cases
    case 1
    with nest wf fixed show ?thesis by (simp add: indexed_eqs canon_array)
  next
    case 2
    with nest wf obtain m where "decodeBinaryMap lt bytes IndexedEncoding = Inr m"
      "canon False IndexedEncoding lt v = VMap m"
      by blast
    with 2 fixed show ?thesis by (simp add: indexed_eqs)
  next
    case 3
    with nest wf max fixed show ?thesis by (simp add: indexed_eqs canon_nested_row)
  qed
qed

lemma indexed_rtI:
  assumes "nested_rt lt IndexedEncoding"
  shows "indexed_rt lt"
  unfolding indexed_rt_def
proof (intro allI impI)
  fix v bytes pre suf
  assume "wfValue v" "int (length bytes) \<le> maxRowBytes" and w: "appendIndexedValue [] lt v = Inr bytes"
  then show "readIndexedValue (pre @ bytes @ suf) (int (length pre)) lt
       (if indexedFixed lt then -1 else int (length bytes))
     = Inr (canon False IndexedEncoding lt v, int (length pre + length bytes))"
    using assms indexed_plain [OF w] indexed_fixed_string [OF w] indexed_decimal [OF w]
      indexed_timestamp [OF w] indexed_nested [OF w] indexed_compacted [OF w]
    by (cases "dataTypeForLogicalType lt")
      (simp_all add: compactedFixedWidth_def appendIndexedValue.simps appendCompactedValue.simps)
qed

section \<open>The induction over the nesting\<close>

lemma value_rtI: "nested_rt lt enc \<Longrightarrow> value_rt lt enc"
  using compacted_rtI [of lt] indexed_rtI [of lt]
  by (cases enc) (auto simp: value_rt_def compacted_rt_def indexed_rt_def encodeRowValue.simps
      decodeRowValue.simps)

lemma nested_rt_all: "nested_rt lt enc"
proof (induction lt rule: measure_induct_rule [of size])
  case (less lt)
  have element: "array_rt e enc" if "size e < size lt" for e
    using less that by (intro array_rtI element_rtI)
  show ?case
    unfolding nested_rt_def
  proof (intro conjI allI impI)
    show "array_rt e enc" if "ltElement lt = Some e" for e
      using that by (intro element) (auto simp: lt_size)
    show "map_rt lt enc"
      by (intro map_rtI element) (auto simp: lt_size)
    have "size (logicalTypeForColumn c) < size lt" if "c \<in> set (Columns (nestedSchema lt))" for c
      using that by (auto simp: nestedSchema_def logicalTypeForColumn_def lt_size)
    then show "row_rt (nestedSchema lt) enc"
      using less by (intro row_rtI ballI value_rtI) blast
  qed
qed

lemma decodeRow_encodeRow:
  assumes "\<forall>v \<in> set row. wfValue v" "encodeRow s row enc = Inr bytes"
    "int (length bytes) \<le> maxRowBytes"
  shows "decodeRow s bytes enc = Inr (canonRow enc (Columns s) row)"
proof -
  have "row_rt s enc" by (intro row_rtI ballI value_rtI nested_rt_all)
  with assms show ?thesis unfolding row_rt_def by blast
qed

end
