(* ===== verification/Key_Codec.thy ===== *)
theory Key_Codec
  imports Row_Roundtrip
begin

text \<open>
  Key encoding (\<^verbatim>\<open>EncodePrimaryKey\<close> and its relatives in \<^verbatim>\<open>pkg/fgo/row_codec.go\<close>): compacted values
  are self-delimiting, so the bytes of a key determine it, and the bytes of a prefix key start the
  bytes of every key with that prefix.
\<close>

interpretation compacted: self_delimiting
    "appendCompactedValue [] lt" "\<lambda>e p. readCompactedValue e p lt"
    "canon False CompactedEncoding lt" wfValue
  for lt
  by unfold_locales (use compacted_rtI [OF nested_rt_all] in \<open>auto simp: compacted_rt_def\<close>)

section \<open>Keys\<close>

lemma appendCompactedValue_append:
  "appendCompactedValue dst lt v = andThen (appendCompactedValue [] lt v) (\<lambda>b. Inr (dst @ b))"
proof -
  have len: "appendLengthBytes dst = (\<lambda>v. andThen (appendLengthBytes [] v) (\<lambda>b. Inr (dst @ b)))"
    by (rule ext) (rule appendLengthBytes_append)
  note app = len appendVar32_append [of dst] appendVar64_append [of dst]
    appendVar32_append [of "appendVar64 _ _"] appendVar32_append [of "_ @ appendVar64 _ _"]
  have if_andThen: "andThen (if c then m else m') f = (if c then andThen m f else andThen m' f)"
    for c and m m' :: "bytes result" and f :: "bytes \<Rightarrow> bytes result"
    by simp
  show ?thesis
    by (cases "ltPrecision lt > 3"; cases "ltPrecision lt \<le> 18"; cases "dataTypeForLogicalType lt")
      (simp_all add: appendCompactedValue.simps andThen_assoc app appendLittle_def Let_def
        case_prod_beta if_andThen split: option.split)
qed


text \<open>The key loop writes the compacted values of the key columns one after the other.\<close>

lemma encodeKeyLoop_Cons_D:
  assumes "encodeKeyLoop m (name # names) vs encoded = Inr b"
  obtains v vs' c p where "vs = v # vs'" "v \<noteq> VNil" "m name = Some c"
    "appendCompactedValue [] (logicalTypeForColumn c) v = Inr p"
    "encodeKeyLoop m names vs' (encoded @ p) = Inr b"
proof (cases vs)
  case (Cons v vs')
  with assms obtain c where "v \<noteq> VNil" "m name = Some c"
    and rest: "andThen (appendCompactedValue encoded (logicalTypeForColumn c) v)
      (encodeKeyLoop m names vs') = Inr b"
    by (auto split: option.splits)
  moreover from rest obtain p where "appendCompactedValue [] (logicalTypeForColumn c) v = Inr p"
    "encodeKeyLoop m names vs' (encoded @ p) = Inr b"
    by (subst (asm) appendCompactedValue_append) (auto simp: andThen_assoc)
  ultimately show thesis using Cons by (intro that)
qed (use assms in simp)

lemma encodeKeyLoop_context:
  "encodeKeyLoop m names vs encoded = Inr b \<Longrightarrow>
   \<exists>t. b = encoded @ t \<and> (\<forall>dst. encodeKeyLoop m names vs dst = Inr (dst @ t))"
proof (induction names arbitrary: vs encoded)
  case (Cons name names)
  from encodeKeyLoop_Cons_D [OF Cons.prems] obtain v vs' c p where
    vs: "vs = v # vs'" "v \<noteq> VNil" "m name = Some c"
    and p: "appendCompactedValue [] (logicalTypeForColumn c) v = Inr p"
    and rest: "encodeKeyLoop m names vs' (encoded @ p) = Inr b" .
  from Cons.IH [OF rest] obtain t where t: "b = (encoded @ p) @ t"
    "\<forall>dst. encodeKeyLoop m names vs' dst = Inr (dst @ t)" by blast
  have "encodeKeyLoop m (name # names) vs dst = Inr (dst @ p @ t)" for dst
    using vs p t(2) by (simp add: appendCompactedValue_append [of dst])
  with t(1) show ?case by (intro exI [of _ "p @ t"]) simp
qed simp

fun canonKey :: "(string \<rightharpoonup> column) \<Rightarrow> string list \<Rightarrow> row \<Rightarrow> row" where
  "canonKey m (name # names) (v # vs) =
     (case m name of None \<Rightarrow> v
      | Some c \<Rightarrow> canon False CompactedEncoding (logicalTypeForColumn c) v) # canonKey m names vs"
| "canonKey m _ _ = []"

lemma encodeKeyLoop_prefix_free:
  assumes "encodeKeyLoop m names vs [] = Inr a" "\<forall>v \<in> set vs. wfValue v"
    "encodeKeyLoop m names ws [] = Inr b" "\<forall>v \<in> set ws. wfValue v" "a @ x = b @ y"
  shows "canonKey m names vs = canonKey m names ws \<and> x = y"
  using assms
proof (induction names arbitrary: vs ws a b)
  case (Cons name names)
  from encodeKeyLoop_Cons_D [OF Cons.prems(1)] obtain v vs' c p where
    v: "vs = v # vs'" "m name = Some c"
    and p: "appendCompactedValue [] (logicalTypeForColumn c) v = Inr p"
    and restv: "encodeKeyLoop m names vs' ([] @ p) = Inr a" .
  from encodeKeyLoop_Cons_D [OF Cons.prems(3)] obtain w ws' c' q where
    w: "ws = w # ws'" "m name = Some c'"
    and q: "appendCompactedValue [] (logicalTypeForColumn c') w = Inr q"
    and restw: "encodeKeyLoop m names ws' ([] @ q) = Inr b" .
  from encodeKeyLoop_context [OF restv] obtain t where
    t: "a = p @ t" "encodeKeyLoop m names vs' [] = Inr t" by fastforce
  from encodeKeyLoop_context [OF restw] obtain u where
    u: "b = q @ u" "encodeKeyLoop m names ws' [] = Inr u" by fastforce
  have c: "c' = c" using v(2) w(2) by simp
  have wf: "wfValue v" "wfValue w" using Cons.prems(2,4) v w by simp_all
  have "p @ t @ x = q @ u @ y" using Cons.prems(5) t(1) u(1) by simp
  note pf = compacted.prefix_free [OF wf(1) p wf(2) q [unfolded c] this]
  have "canonKey m names vs' = canonKey m names ws' \<and> x = y"
    using Cons.prems(2,4) v w by (intro Cons.IH [OF t(2) _ u(2) _ pf(3)]) simp_all
  with v w pf(1) c show ?case by simp
qed simp

text \<open>Two primary keys with the same bytes are the same key, up to what the types keep.\<close>

lemma EncodePrimaryKey_inj:
  assumes "EncodePrimaryKey s k = Inr b" "\<forall>v \<in> set k. wfValue v"
    "EncodePrimaryKey s k' = Inr b" "\<forall>v \<in> set k'. wfValue v"
  shows "canonKey (columnsByName s) (PrimaryKey s) k = canonKey (columnsByName s) (PrimaryKey s) k'"
  using assms encodeKeyLoop_prefix_free [of "columnsByName s" "PrimaryKey s" k b k' b "[]" "[]"]
  by (auto simp: EncodePrimaryKey_def encodeKeyColumns_def)

text \<open>A prefix key is a byte prefix of every full key that starts with its values.\<close>

lemma encodeKeyLoop_take:
  assumes "encodeKeyLoop m names vs encoded = Inr b" "n \<le> length names"
  shows "\<exists>p t. encodeKeyLoop m (take n names) (take n vs) encoded = Inr p \<and> b = p @ t"
  using assms
proof (induction n arbitrary: names vs encoded)
  case 0
  then show ?case using encodeKeyLoop_context [OF 0(1)] by auto
next
  case (Suc n)
  then obtain name names' where names: "names = name # names'" by (cases names) auto
  from encodeKeyLoop_Cons_D [OF Suc.prems(1) [unfolded names]] obtain v vs' c p where
    vs: "vs = v # vs'" "v \<noteq> VNil" "m name = Some c"
    and p: "appendCompactedValue [] (logicalTypeForColumn c) v = Inr p"
    and rest: "encodeKeyLoop m names' vs' (encoded @ p) = Inr b" .
  from Suc.IH [OF rest] Suc.prems(2) names obtain q t where
    "encodeKeyLoop m (take n names') (take n vs') (encoded @ p) = Inr q" "b = q @ t" by auto
  then show ?case
    using vs names p by (auto simp: appendCompactedValue_append [of encoded])
qed

end
