(* ===== verification/Time_Values.thy ===== *)
theory Time_Values
  imports Row_Roundtrip
begin

text \<open>
  What a decoded date, time or timestamp keeps of the encoded one: the time helpers at the end of
  \<^verbatim>\<open>pkg/fgo/row_value_codec.go\<close>.
\<close>

section \<open>What a decoded time keeps\<close>

definition totalNanos :: "go_time \<Rightarrow> int" where
  "totalNanos t = unixSec t * 1000000000 + nanosecond t"

lemma timeUnix_total:
  "timeUnix sec nsec = \<lparr>unixSec = (sec * 1000000000 + nsec) div 1000000000,
     nanosecond = (sec * 1000000000 + nsec) mod 1000000000, zoneOffset = 0\<rparr>"
  by (simp add: timeUnix_def)

lemma nanoOfDay_wall: "nanoOfDay t = (wallSec t mod 86400) * 1000000000 + nanosecond t"
proof -
  let ?w = "wallSec t mod 86400"
  have m: "wallSec t mod 3600 = ?w mod 3600" "wallSec t mod 60 = ?w mod 60"
    by (simp_all add: mod_mod_cancel)
  have "?w = ?w div 3600 * 3600 + ?w mod 3600" by simp
  moreover have "?w mod 3600 = ?w mod 3600 div 60 * 60 + ?w mod 3600 mod 60" by simp
  moreover have "?w mod 3600 mod 60 = ?w mod 60" by (simp add: mod_mod_cancel)
  ultimately have "?w = ?w div 3600 * 3600 + ?w mod 3600 div 60 * 60 + ?w mod 60" by linarith
  then show ?thesis
    unfolding nanoOfDay_def Hour_def Minute_def Second_def m by linarith
qed

text \<open>The instant a timestamp type keeps: the wall clock for TIMESTAMP, the UTC instant for
  TIMESTAMP_LTZ.\<close>

definition keptNanos :: "data_type \<Rightarrow> go_time \<Rightarrow> int" where
  "keptNanos kind t =
     (if kind = TimestampLTZType then totalNanos t
      else wallSec t * 1000000000 + nanosecond t)"

lemma floor_mod_split: "(a :: int) sdiv b * b + a smod b = a"
  by (rule sdiv_mult_smod_eq)

lemma timestampParts_kept:
  assumes "0 \<le> nanosecond t" "nanosecond t < 1000000000"
  shows "timestampParts kind t = (word_of_int (keptNanos kind t div 1000000),
    word_of_int (keptNanos kind t mod 1000000))"
proof (cases "kind = TimestampLTZType")
  case True
  have "(unixSec t * 1000000000 + nanosecond t) div 1000000
      = unixSec t * 1000 + nanosecond t div 1000000"
    using div_mult_self4 [of 1000000 "unixSec t * 1000" "nanosecond t"] by (simp add: algebra_simps)
  moreover have "(unixSec t * 1000000000 + nanosecond t) mod 1000000 = nanosecond t mod 1000000"
    using mod_mult_self4 [of 1000000 "unixSec t * 1000" "nanosecond t"] by (simp add: algebra_simps)
  ultimately show ?thesis
    using True assms by (simp add: timestampParts_def keptNanos_def totalNanos_def sdiv_nonneg smod_nonneg)
next
  case False
  let ?w = "wallSec t"
  have day: "midnightUnix (civilDay t) sdiv 86400 = ?w div 86400"
    by (simp add: midnightUnix_def civilDay_def signed_divide_int_def sgn_mult abs_mult mult_sgn_abs)
  have w: "?w * 1000000000 = ?w div 86400 * 86400 * 1000000000 + ?w mod 86400 * 1000000000"
    using div_mult_mod_eq [of ?w 86400] by linarith
  have n0: "0 \<le> nanoOfDay t" using assms(1) by (rule nanoOfDay_nonneg)
  have kept: "keptNanos kind t = 1000000 * (?w div 86400 * millisPerDay) + nanoOfDay t"
    using False w by (simp add: keptNanos_def nanoOfDay_wall millisPerDay_def)
  show ?thesis
    using False n0 unfolding kept by (simp add: timestampParts_def day sdiv_nonneg smod_nonneg)
qed

lemma timestampTime_total:
  "timestampTime kind millis nanos
     = timeUnix 0 (sint millis * 1000000 + sint nanos)"
proof (cases "kind = TimestampLTZType")
  case True
  have "sint millis sdiv 1000 * 1000000000 + (sint millis smod 1000 * 1000000 + sint nanos)
      = (sint millis sdiv 1000 * 1000 + sint millis smod 1000) * 1000000 + sint nanos"
    by simp
  then show ?thesis
    using True by (simp only: timestampTime_def if_True timeUnix_total floor_mod_split) simp
next
  case False
  let ?d = "sint millis sdiv millisPerDay" and ?m = "sint millis smod millisPerDay"
  have s: "sint millis = ?d * millisPerDay + ?m" by (simp add: floor_mod_split)
  have "(if ?m < 0 then ?d - 1 else ?d) * 86400 * 1000000000
        + ((if ?m < 0 then ?m + millisPerDay else ?m) * 1000000 + sint nanos)
      = (?d * millisPerDay + ?m) * 1000000 + sint nanos"
    by (simp add: millisPerDay_def)
  then show ?thesis
    using False by (simp only: timestampTime_def if_False Let_def timeUnix_total s [symmetric]) simp
qed

text \<open>The time that a timestamp column of sufficient precision gives back.\<close>

lemma timestamp_kept:
  assumes t: "0 \<le> nanosecond t" "nanosecond t < 1000000000"
    and range: "- (2 ^ 63) \<le> keptNanos kind t div 1000000" "keptNanos kind t div 1000000 < 2 ^ 63"
  shows "timestampTime kind (fst (timestampParts kind t)) (snd (timestampParts kind t))
         = timeUnix 0 (keptNanos kind t)"
    and "timestampTime kind (fst (timestampParts kind t)) 0
         = timeUnix 0 (keptNanos kind t div 1000000 * 1000000)"
proof -
  have m: "sint (word_of_int (keptNanos kind t div 1000000) :: 64 word) = keptNanos kind t div 1000000"
    using range by (simp add: signed_of_int signed_take_bit_int_eq_self)
  have "0 \<le> keptNanos kind t mod 1000000" "keptNanos kind t mod 1000000 < 1000000" by simp_all
  then have n: "sint (word_of_int (keptNanos kind t mod 1000000) :: 32 word) = keptNanos kind t mod 1000000"
    by (simp add: signed_of_int signed_take_bit_int_eq_self)
  show "timestampTime kind (fst (timestampParts kind t)) (snd (timestampParts kind t))
         = timeUnix 0 (keptNanos kind t)"
    by (simp add: timestampTime_total timestampParts_kept [OF t] m n)
  show "timestampTime kind (fst (timestampParts kind t)) 0
         = timeUnix 0 (keptNanos kind t div 1000000 * 1000000)"
    by (simp add: timestampTime_total timestampParts_kept [OF t] m)
qed

lemma date_kept:
  assumes "- (2 ^ 31) \<le> civilDay t" "civilDay t < 2 ^ 31"
  shows "temporalTime DateType (temporalInt DateType t) = timeUnix (civilDay t * 86400) 0"
proof -
  have "midnightUnix (civilDay t) sdiv 86400 = civilDay t"
    by (simp add: midnightUnix_def signed_divide_int_def sgn_mult abs_mult mult_sgn_abs)
  moreover have "sint (word_of_int (civilDay t) :: 32 word) = civilDay t"
    using assms by (simp add: signed_of_int signed_take_bit_int_eq_self)
  ultimately show ?thesis by (simp add: temporalTime_def temporalInt_def)
qed

lemma time_kept:
  assumes "0 \<le> nanosecond t" "nanosecond t < 1000000000"
  shows "temporalTime TimeType (temporalInt TimeType t)
         = timeUnix 0 (nanoOfDay t div 1000000 * 1000000)"
proof -
  have "nanoOfDay t \<le> 86399 * 1000000000 + 999999999"
    using assms pos_mod_bound [of 86400 "wallSec t"] by (simp add: nanoOfDay_wall)
  then have "nanoOfDay t div 1000000 \<le> 86399999" by simp
  moreover have n: "0 \<le> nanoOfDay t" using assms by (intro nanoOfDay_nonneg)
  ultimately have "sint (word_of_int (nanoOfDay t div 1000000) :: 32 word) = nanoOfDay t div 1000000"
    by (simp add: signed_of_int signed_take_bit_int_eq_self)
  with n show ?thesis by (simp add: temporalTime_def temporalInt_def sdiv_nonneg)
qed

end
