(* ===== verification/Row_Safety.thy ===== *)
theory Row_Safety
  imports Row_Roundtrip
begin

text \<open>
  The decoders never panic: every index and slice of \<^verbatim>\<open>row_codec.go\<close>, \<^verbatim>\<open>row_value_codec.go\<close> and
  \<^verbatim>\<open>binary_array_codec.go\<close> is in bounds for arbitrary input bytes, provided that no ARRAY or MAP
  column lacks its logical type (there the code dereferences a nil pointer).
\<close>

section \<open>Reads that stay inside the buffer\<close>

text \<open>A reader at a position: it does not panic, and the position it returns is a position.\<close>

definition safeRead :: "('a \<times> int) result \<Rightarrow> bool" where
  "safeRead m \<longleftrightarrow> \<not> is_panic m \<and> (\<forall>v nxt. m = Inr (v, nxt) \<longrightarrow> 0 \<le> nxt)"

lemma safeRead_Plain [simp]: "safeRead (Inl (Plain s))"
  by (simp add: safeRead_def)

lemma safeRead_readFixed: "safeRead (readFixed encoded position n)"
proof -
  have "0 \<le> nxt" if "readFixed encoded position n = Inr (v, nxt)" for v nxt
    using readFixed_Inr_D(1,2,4) [OF that] by simp
  then show ?thesis by (auto simp: safeRead_def)
qed

lemma safeRead_readVar: "0 \<le> position \<Longrightarrow> safeRead (readVar encoded position n)"
  by (force simp: safeRead_def dest: readVar_Inr_D)

lemma safeRead_readLengthBytes: "0 \<le> position \<Longrightarrow> safeRead (readLengthBytes encoded position)"
  by (force simp: safeRead_def dest: readLengthBytes_Inr_D)

lemma safeRead_rewrap: "safeRead m \<Longrightarrow> (\<forall>p. e \<noteq> Panic p) \<Longrightarrow> safeRead (rewrap e m)"
  by (auto simp: safeRead_def rewrap_def split: sum.splits go_error.splits)

lemma safeRead_andThen:
  assumes "safeRead m" "\<And>v nxt. m = Inr (v, nxt) \<Longrightarrow> 0 \<le> nxt \<Longrightarrow> safeRead (f (v, nxt))"
  shows "safeRead (andThen m f)"
  using assms by (auto simp: safeRead_def)

lemma safeRead_value:
  "safeRead m \<Longrightarrow> (\<And>v nxt. m = Inr (v, nxt) \<Longrightarrow> \<not> is_panic (f v)) \<Longrightarrow>
   safeRead (andThen m (\<lambda>(v, nxt). andThen (f v) (\<lambda>x. Inr (g x, nxt))))"
  by (auto simp: safeRead_def)

lemma safeRead_Inr: "safeRead m \<Longrightarrow> safeRead (andThen m (\<lambda>(v, nxt). Inr (g v, nxt)))"
  by (auto simp: safeRead_def)

lemma readFixed_get_no_panic:
  "readFixed encoded position (int n) = Inr (v, nxt) \<Longrightarrow> k + int m \<le> int n \<Longrightarrow> 0 \<le> k \<Longrightarrow>
   \<not> is_panic (le_get m v k)"
  using readFixed_Inr_D(3) [of encoded position "int n" v nxt] by simp

section \<open>Types a decoder can follow\<close>

definition safeType :: "logical_type \<Rightarrow> bool" where
  "safeType lt \<longleftrightarrow> LogicalType_Validate lt = Inr ()
     \<or> dataTypeForLogicalType lt \<noteq> ArrayType \<and> dataTypeForLogicalType lt \<noteq> MapType \<and> ltFields lt = []"

lemma dataType_roots:
  "dataTypeForLogicalType lt = ArrayType \<longleftrightarrow> ltRoot lt = ''ARRAY''"
  "dataTypeForLogicalType lt = MapType \<longleftrightarrow> ltRoot lt = ''MAP''"
  "dataTypeForLogicalType lt = RowType \<longleftrightarrow> ltRoot lt = ''ROW''"
  by (simp_all add: dataTypeForLogicalType_def DataType_def)

lemma validateFields_iff:
  "validateFields fs = Inr () \<longleftrightarrow>
     (\<forall>f \<in> set fs. fieldName f \<noteq> [] \<and> LogicalType_Validate (fieldType f) = Inr ())"
  by (induction fs) auto

lemma LogicalType_Validate_roots:
  "ltRoot t = ''ARRAY'' \<Longrightarrow> LogicalType_Validate t = validateArray t"
  "ltRoot t = ''MAP'' \<Longrightarrow> LogicalType_Validate t = validateMap t"
  "ltRoot t = ''ROW'' \<Longrightarrow> LogicalType_Validate t = validateRow t"
  by (subst LogicalType_Validate.simps; simp)+

lemma safeType_array:
  "safeType lt \<Longrightarrow> dataTypeForLogicalType lt = ArrayType \<Longrightarrow> \<exists>e. ltElement lt = Some e \<and> safeType e"
  by (auto simp: safeType_def dataType_roots LogicalType_Validate_roots validateArray.simps
      split: option.splits)

lemma safeType_map:
  "safeType lt \<Longrightarrow> dataTypeForLogicalType lt = MapType \<Longrightarrow>
   \<exists>k v. ltKey lt = Some k \<and> ltValue lt = Some v \<and> safeType k \<and> safeType v"
  by (auto simp: safeType_def dataType_roots LogicalType_Validate_roots validateMap.simps
      split: option.splits)

lemma safeType_row:
  "safeType lt \<Longrightarrow> dataTypeForLogicalType lt = RowType \<Longrightarrow> f \<in> set (ltFields lt) \<Longrightarrow>
   safeType (fieldType f)"
  by (auto simp: safeType_def dataType_roots LogicalType_Validate_roots validateRow.simps
      validateFields_iff split: if_splits)

section \<open>Contracts\<close>

definition array_safe :: "logical_type \<Rightarrow> row_encoding \<Rightarrow> bool" where
  "array_safe e enc \<longleftrightarrow> (\<forall>bytes. \<not> is_panic (decodeBinaryArray e bytes enc))"

definition row_safe :: "schema \<Rightarrow> row_encoding \<Rightarrow> bool" where
  "row_safe s enc \<longleftrightarrow> (\<forall>bytes. \<not> is_panic (decodeRow s bytes enc))"

definition nested_safe :: "logical_type \<Rightarrow> row_encoding \<Rightarrow> bool" where
  "nested_safe lt enc \<longleftrightarrow>
     (dataTypeForLogicalType lt = ArrayType \<longrightarrow> (\<exists>e. ltElement lt = Some e \<and> array_safe e enc))
   \<and> (dataTypeForLogicalType lt = MapType \<longrightarrow>
        (\<exists>k v. ltKey lt = Some k \<and> ltValue lt = Some v \<and> array_safe k enc \<and> array_safe v enc))
   \<and> (dataTypeForLogicalType lt = RowType \<longrightarrow> row_safe (nestedSchema lt) enc)"

definition value_safe :: "logical_type \<Rightarrow> row_encoding \<Rightarrow> bool" where
  "value_safe lt enc \<longleftrightarrow> (\<forall>encoded position len. 0 \<le> position \<longrightarrow>
     safeRead (decodeRowValue encoded position lt enc len))"

definition element_safe :: "logical_type \<Rightarrow> row_encoding \<Rightarrow> bool" where
  "element_safe lt enc \<longleftrightarrow> (\<forall>encoded slot. \<not> is_panic (readArrayElement encoded slot lt enc))"

lemma decodeBinaryMap_safe:
  assumes "nested_safe lt enc" "dataTypeForLogicalType lt = MapType"
  shows "\<not> is_panic (decodeBinaryMap lt bytes enc)"
  using assms by (auto simp: nested_safe_def array_safe_def decodeBinaryMap.simps Let_def
      split: if_splits)

section \<open>Array elements\<close>

lemma arrayVariable_safe:
  "0 \<le> slot \<Longrightarrow> slot + 8 \<le> int (length encoded) \<Longrightarrow> \<not> is_panic (arrayVariable encoded slot)"
  by (auto simp: arrayVariable_def offsetSize_def)

lemma unpackedArrayBytes_safe:
  "0 \<le> slot \<Longrightarrow> slot + 8 \<le> int (length encoded) \<Longrightarrow> \<not> is_panic (unpackedArrayBytes encoded slot)"
  by (auto simp: unpackedArrayBytes_def arrayVariable_safe Let_def)

lemma readArrayDecimal_safe:
  "0 \<le> slot \<Longrightarrow> slot + 8 \<le> int (length encoded) \<Longrightarrow> \<not> is_panic (readArrayDecimal encoded slot lt)"
  by (auto simp: readArrayDecimal_def arrayVariable_safe)

lemma readArrayTimestamp_safe:
  "0 \<le> slot \<Longrightarrow> slot + 8 \<le> int (length encoded) \<Longrightarrow> \<not> is_panic (readArrayTimestamp encoded slot lt)"
  by (auto simp: readArrayTimestamp_def offsetSize_def dest: readFixed_Inr_D(3) split: if_splits)

lemma readArrayNested_safe:
  assumes "nested_safe lt enc" "0 \<le> slot" "slot + 8 \<le> int (length encoded)"
  shows "\<not> is_panic (readArrayNested encoded slot lt enc)"
  using assms arrayVariable_safe [OF assms(2,3)] decodeBinaryMap_safe [OF assms(1)]
  by (cases "dataTypeForLogicalType lt")
    (auto simp: readArrayNested.simps nested_safe_def array_safe_def row_safe_def)

lemma element_safeI:
  assumes "nested_safe lt enc"
  shows "element_safe lt enc"
  unfolding element_safe_def
proof (intro allI)
  fix encoded slot
  show "\<not> is_panic (readArrayElement encoded slot lt enc)"
    using readArrayDecimal_safe [of slot encoded] readArrayTimestamp_safe [of slot encoded]
      unpackedArrayBytes_safe [of slot encoded] readArrayNested_safe [OF assms, of slot encoded]
    by (cases "dataTypeForLogicalType lt")
      (auto simp: readArrayElement.simps Let_def arraySlotSize_def arrayPrimitive_def
        readArrayPrimitive_def)
qed

lemma decodeElements_safe:
  assumes "element_safe e enc" "4 + (int i + int n + 7) div 8 \<le> int (length encoded)"
  shows "\<not> is_panic (decodeElements e encoded enc nb i n)"
  using assms(2)
proof (induction n arbitrary: i)
  case 0
  then show ?case by (simp add: decodeElements.simps)
next
  case (Suc n)
  have "int i div 8 < (int i + int (Suc n) + 7) div 8" by simp
  with Suc.prems have bit: "\<not> is_panic (getNullBit encoded 4 i)"
    by (auto simp: getNullBit_def)
  have "\<not> is_panic (decodeElements e encoded enc nb (Suc i) n)"
    using Suc.prems by (intro Suc.IH) (simp add: algebra_simps)
  with bit assms(1) show ?case
    by (auto simp: decodeElements.simps element_safe_def split: if_splits)
qed

lemma array_safeI:
  assumes "element_safe e enc"
  shows "array_safe e enc"
  unfolding array_safe_def
proof (intro allI)
  fix bytes
  show "\<not> is_panic (decodeBinaryArray e bytes enc)"
  proof -
    have "4 + (int 0 + int (nat (uint w)) + 7) div 8 \<le> int (length bytes)"
      if "\<not> align8 (4 + (uint w + 31) div 32 * 4 + arraySlotSize e * uint w) > int (length bytes)"
      for w :: "32 word"
    proof -
      have "(uint w + 7) div 8 \<le> (uint w + 31) div 32 * 4" by presburger
      moreover have "0 \<le> arraySlotSize e * uint w" using arraySlotSize_pos [of e] by simp
      ultimately show ?thesis
        using that align8_ge [of "4 + (uint w + 31) div 32 * 4 + arraySlotSize e * uint w"] by simp
    qed
    then show ?thesis
      using decodeElements_safe [OF assms, of 0 _ bytes]
      by (auto simp: decodeBinaryArray.simps Let_def)
  qed
qed

section \<open>Column values\<close>

lemmas safeRead_leaf = safeRead_readFixed safeRead_readVar safeRead_readLengthBytes

lemma readCompactedFixed_safe: "safeRead (readCompactedFixed encoded position kind)"
proof -
  have get: "\<not> is_panic (le_get m v 0)" if "readFixed encoded position (int m) = Inr (v, nxt)"
    for m :: nat and v nxt
    using readFixed_get_no_panic [OF that, of 0 m] by simp
  have hd: "\<not> is_panic (go_index v 0)" if "readFixed encoded position 1 = Inr (v, nxt)" for v nxt
    using readFixed_Inr_D(3) [OF that] by simp
  have bool: "safeRead (andThen (rewrap (Plain ''invalid boolean'') (readFixed encoded position 1))
         (\<lambda>(v, nxt). andThen (go_index v 0) (\<lambda>b.
            guardE (b > 1) (Plain ''invalid boolean'') (Inr (VBool (b = 1), nxt)))))"
    using hd safeRead_readFixed [of encoded position 1]
    by (auto simp: safeRead_def split: if_splits)
  show ?thesis
    unfolding readCompactedFixed_def
    using bool get [of 2] get [of 4] get [of 8] hd
    by (cases kind) (auto intro!: safeRead_value safeRead_readFixed)
qed

lemma readCompactedTimestamp_safe:
  assumes "0 \<le> position"
  shows "safeRead (readCompactedTimestamp encoded position lt)"
  unfolding readCompactedTimestamp_def
  by (rule safeRead_andThen [OF safeRead_readVar [OF assms]])
    (use safeRead_readVar [of _ encoded 5] in \<open>auto simp: safeRead_def split: if_splits\<close>)

lemma readCompactedDecimal_safe:
  "0 \<le> position \<Longrightarrow> safeRead (readCompactedDecimal encoded position lt)"
  by (simp add: readCompactedDecimal_def safeRead_Inr safeRead_leaf)

lemma readIndexedTimestamp_safe:
  assumes "dataTypeForLogicalType lt \<in> {TimestampType, TimestampLTZType}"
  shows "safeRead (readIndexedTimestamp encoded position lt)"
proof -
  have w: "indexedLength lt = (if ltPrecision lt > 3 then int 12 else int 8)"
    using assms by (auto simp: indexedLength_def)
  have "\<not> is_panic (le_get 8 v 0 :: 64 word result) \<and>
      (indexedLength lt = 12 \<longrightarrow> \<not> is_panic (le_get 4 v 8 :: 32 word result))"
    if "readFixed encoded position (indexedLength lt) = Inr (v, nxt)" for v nxt
    using readFixed_Inr_D(3) [OF that] w by (auto split: if_splits)
  then show ?thesis
    unfolding readIndexedTimestamp_def Let_def
    using safeRead_readFixed [of encoded position "indexedLength lt"]
    by (intro safeRead_andThen) (auto simp: safeRead_def split: if_splits)
qed

lemma readCompactedNested_safe:
  assumes "nested_safe lt CompactedEncoding" "0 \<le> position"
  shows "safeRead (readCompactedNested encoded position lt)"
  unfolding readCompactedNested.simps
  by (rule safeRead_andThen [OF safeRead_readLengthBytes [OF assms(2)]],
      cases "dataTypeForLogicalType lt")
    (use assms(1) decodeBinaryMap_safe [OF assms(1)] in
      \<open>auto simp: safeRead_def nested_safe_def array_safe_def row_safe_def\<close>)

lemma readIndexedVariable_safe:
  assumes "nested_safe lt IndexedEncoding"
  shows "safeRead (readIndexedVariable encoded position lt len)"
  unfolding readIndexedVariable.simps
  by (rule safeRead_andThen [OF safeRead_readFixed], cases "dataTypeForLogicalType lt")
    (use assms decodeBinaryMap_safe [OF assms] in
      \<open>auto simp: safeRead_def nested_safe_def array_safe_def row_safe_def\<close>)

lemma readCompactedValue_safe:
  assumes "nested_safe lt CompactedEncoding \<or> compactedFixedWidth (dataTypeForLogicalType lt)"
    "0 \<le> position"
  shows "safeRead (readCompactedValue encoded position lt)"
  using assms readCompactedNested_safe [of lt position encoded]
  by (cases "dataTypeForLogicalType lt")
    (auto simp: readCompactedValue.simps Let_def readCompactedFixed_safe compactedFixedWidth_def
      readCompactedTimestamp_safe readCompactedDecimal_safe safeRead_Inr safeRead_leaf)


lemma indexedFixed_not_nested:
  "indexedFixed lt \<Longrightarrow> dataTypeForLogicalType lt \<notin> {ArrayType, MapType, RowType}"
  by (auto simp: indexedFixed_def Let_def)

lemma readIndexedFixed_safe:
  assumes "indexedFixed lt" "0 \<le> position"
  shows "safeRead (readIndexedFixed encoded position lt)"
proof -
  have get: "\<not> is_panic (le_get m v 0)" if "readFixed encoded position (int m) = Inr (v, nxt)"
    for m :: nat and v nxt
    using readFixed_get_no_panic [OF that, of 0 m] by simp
  have "safeRead (readCompactedValue encoded position lt)"
    if "dataTypeForLogicalType lt \<noteq> ArrayType" "dataTypeForLogicalType lt \<noteq> MapType"
      "dataTypeForLogicalType lt \<noteq> RowType"
    using that assms(2) by (intro readCompactedValue_safe) (auto simp: nested_safe_def)
  then show ?thesis
    using indexedFixed_not_nested [OF assms(1)] get [of 4] get [of 8]
      readIndexedTimestamp_safe [of lt encoded position]
    by (cases "dataTypeForLogicalType lt")
      (auto simp: readIndexedFixed.simps safeRead_Inr safeRead_readFixed
        intro!: safeRead_value safeRead_readFixed)
qed

lemma value_safeI:
  assumes "nested_safe lt enc"
  shows "value_safe lt enc"
  using assms readCompactedValue_safe [of lt] readIndexedFixed_safe [of lt]
    readIndexedVariable_safe [of lt]
  by (cases enc) (auto simp: value_safe_def decodeRowValue.simps readIndexedValue.simps)

section \<open>Rows\<close>

lemma decodeColumns_safe:
  assumes "\<forall>c \<in> set cs. value_safe (logicalTypeForColumn c) enc"
    and "i + length cs \<le> 8 * nb" "nb \<le> length encoded"
    and "0 \<le> lp" "lp + int (lengthArea enc cs) \<le> int (length encoded)" "0 \<le> position"
  shows "safeRead (decodeColumns encoded enc i cs position lp)"
  using assms
proof (induction cs arbitrary: i lp position)
  case Nil
  then show ?case by (simp add: decodeColumns.simps safeRead_def)
next
  case (Cons c cs)
  let ?lt = "logicalTypeForColumn c"
  have "i div 8 < nb" using Cons.prems(2) by (simp add: less_mult_imp_div_less mult.commute)
  then have bit: "\<not> is_panic (getNullBit encoded 0 i)"
    using Cons.prems(3) by (auto simp: getNullBit_def)
  have len: "\<not> is_panic (indexedValueLength encoded lp ?lt enc isNull)" for isNull
    using Cons.prems(4,5) by (auto simp: indexedValueLength_def variableColumn_def split: if_splits)
  have lp': "0 \<le> lp' \<and> lp' + int (lengthArea enc cs) \<le> int (length encoded)"
    if "indexedValueLength encoded lp ?lt enc isNull = Inr (n, lp')" for n lp' isNull
    using that Cons.prems(4,5) by (auto simp: indexedValueLength_def variableColumn_def split: if_splits)
  have IH: "safeRead (decodeColumns encoded enc (Suc i) cs position' lp')"
    if "indexedValueLength encoded lp ?lt enc isNull = Inr (n, lp')" "0 \<le> position'"
    for n lp' isNull position'
    using Cons.prems(1-3) lp' [OF that(1)] that(2) by (intro Cons.IH) auto
  have val: "safeRead (decodeRowValue encoded position ?lt enc n)" for n
    using Cons.prems(1,6) by (simp add: value_safe_def)
  show ?case
    using bit len IH Cons.prems(6) val
    unfolding decodeColumns.simps safeRead_def
    by (fastforce split: if_splits)
qed

lemma LogicalType_Validate_no_panic:
  "\<not> is_panic (LogicalType_Validate t)" "\<not> is_panic (validateArray t)" "\<not> is_panic (validateMap t)"
  "\<not> is_panic (validateRow t)" "\<not> is_panic (validateFields fs)"
proof (induction t and t and t and t and fs
    rule: LogicalType_Validate_validateArray_validateMap_validateRow_validateFields.induct)
  case (1 t)
  then show ?case
    by (subst LogicalType_Validate.simps)
      (simp add: validateLength_def validateDecimal_def validateTemporal_def)
next
  case (2 t)
  then show ?case by (subst validateArray.simps) (simp split: option.split)
next
  case (3 t)
  then show ?case by (subst validateMap.simps) (auto split: option.split)
next
  case (4 t)
  then show ?case by (subst validateRow.simps) simp
qed auto

lemma validateColumnsLoop_no_panic: "\<not> is_panic (validateColumnsLoop m cs)"
proof (induction cs arbitrary: m)
  case (Cons c cs)
  have "\<not> is_panic (case colLogicalType c of Some lt \<Rightarrow> LogicalType_Validate lt
                   | None \<Rightarrow> DataType_Validate (colType c))"
    by (auto simp: LogicalType_Validate_no_panic DataType_Validate_def
        split: option.split data_type.split)
  with Cons.IH [of "m(colName c \<mapsto> c)"] show ?case
    by (auto split: if_splits simp del: fun_upd_apply)
qed simp

lemma Schema_Validate_no_panic: "\<not> is_panic (Schema_Validate s)"
  using validateColumnsLoop_no_panic [of Map.empty "Columns s"]
  by (auto simp: Schema_Validate_def validateColumns_def validateSchemaKeys_def split: if_splits)

lemma row_safeI:
  assumes "Schema_Validate s = Inr () \<Longrightarrow>
    \<forall>c \<in> set (Columns s). value_safe (logicalTypeForColumn c) enc"
  shows "row_safe s enc"
  unfolding row_safe_def
proof (intro allI)
  fix bytes
  let ?cs = "Columns s" let ?nb = "(length ?cs + 7) div 8"
  have nb: "nullBitmapBytes s = int ?nb" by (simp add: nullBitmapBytes_def zdiv_int)
  have room: "0 + length ?cs \<le> 8 * ?nb"
    using dividend_less_div_times [of 8 "length ?cs + 7"] by simp
  have "safeRead (decodeColumns bytes enc 0 ?cs (rowHeaderBytes s enc) (nullBitmapBytes s))"
    if "Schema_Validate s = Inr ()" "\<not> int (length bytes) < rowHeaderBytes s enc"
    using that room by (intro decodeColumns_safe [OF assms]) (auto simp: rowHeaderBytes_eq nb)
  then show "\<not> is_panic (decodeRow s bytes enc)"
    by (auto simp: decodeRow.simps Schema_Validate_no_panic safeRead_def split: if_splits)
qed


section \<open>The induction over the nesting\<close>

lemma nested_safe_all: "safeType lt \<Longrightarrow> nested_safe lt enc"
proof (induction lt rule: measure_induct_rule [of size])
  case (less lt)
  have array: "array_safe e enc" if "size e < size lt" "safeType e" for e
    using less that by (intro array_safeI element_safeI)
  have "row_safe (nestedSchema lt) enc" if row: "dataTypeForLogicalType lt = RowType"
  proof (rule row_safeI, rule ballI)
    fix c assume "c \<in> set (Columns (nestedSchema lt))"
    then obtain f where f: "f \<in> set (ltFields lt)" "logicalTypeForColumn c = fieldType f"
      by (auto simp: nestedSchema_def logicalTypeForColumn_def)
    then have "size (fieldType f) < size lt" by (auto simp: lt_size)
    with f less safeType_row [OF less.prems row f(1)]
    show "value_safe (logicalTypeForColumn c) enc" by (simp add: value_safeI)
  qed
  then show ?case
    unfolding nested_safe_def
    using safeType_array [OF less.prems] safeType_map [OF less.prems] array
    by (auto simp: lt_size)
qed

lemma safeType_column:
  assumes "Schema_Validate s = Inr ()" "c \<in> set (Columns s)"
    "colLogicalType c = None \<longrightarrow> colType c \<notin> {ArrayType, MapType}"
  shows "safeType (logicalTypeForColumn c)"
proof (cases "colLogicalType c")
  case None
  with Schema_Validate_Inr_D(4) [OF assms(1)] assms(2)
  have "DataType_Validate (colType c) = Inr ()" by auto
  with None assms(3) show ?thesis
    by (cases "colType c")
      (auto simp: safeType_def logicalTypeForColumn_def dataType_roots logicalRoot_def
        DataType_Validate_def)
next
  case (Some lt)
  with Schema_Validate_Inr_D(4) [OF assms(1)] assms(2) show ?thesis
    by (auto simp: safeType_def logicalTypeForColumn_def)
qed

lemma decodeRow_no_panic:
  assumes "\<forall>c \<in> set (Columns s). colLogicalType c = None \<longrightarrow> colType c \<notin> {ArrayType, MapType}"
  shows "\<not> is_panic (decodeRow s bytes enc)"
proof -
  have "row_safe s enc"
    using assms by (intro row_safeI ballI value_safeI nested_safe_all safeType_column) auto
  then show ?thesis by (simp add: row_safe_def)
qed

end
