(* ===== verification/Codec_Properties.thy ===== *)
theory Codec_Properties
  imports Key_Codec Time_Values Row_Safety
begin

text \<open>
  The properties of the row codec: what a row, a key or a time is after a trip through its bytes,
  and that no input makes a decoder panic. The example schema serves the witnesses.
\<close>

section \<open>An example table\<close>

definition exLT :: "string \<Rightarrow> bool \<Rightarrow> int \<Rightarrow> logical_type option \<Rightarrow> logical_type" where
  "exLT rt nullable prec e = LogicalType rt nullable 0 prec 0 e None None []"

definition exColumn :: "string \<Rightarrow> logical_type \<Rightarrow> column" where
  "exColumn name lt = \<lparr>colName = name, colType = dataTypeForLogicalType lt,
     colNullable = ltNullable lt, colLogicalType = Some lt, colDescription = [], colID = 0\<rparr>"

definition exSchema :: schema where
  "exSchema = \<lparr>Columns = [exColumn ''id'' (exLT ''INTEGER'' False 0 None),
        exColumn ''note'' (exLT ''STRING'' True 0 None),
        exColumn ''tags'' (exLT ''ARRAY'' True 0 (Some (exLT ''STRING'' True 0 None)))],
     PrimaryKey = [''id'', ''note''], BucketKey = [], PartitionKey = [], AutoIncrement = [],
     HighestFieldID = 0\<rparr>"

definition exRow :: row where
  "exRow = [VInt32 300, VNil, VArray [VString [0x61, 0x62], VNil]]"

section \<open>Round trips\<close>

text \<open>
  C35. Decoding inverts encoding: whenever \<^verbatim>\<open>encodeRow\<close> succeeds on a row, in the compacted or in the
  indexed layout, for any nesting of rows, arrays and maps, \<^verbatim>\<open>decodeRow\<close> with the same schema
  succeeds on the bytes and returns every value (times in the form the type keeps, Go maps as
  ordered maps).
\<close>

theorem row_roundtrip:
  assumes "\<forall>v \<in> set row. wfValue v"
    and "encodeRow s row enc = Inr bytes"
    and "int (length bytes) \<le> maxRowBytes"
  shows "decodeRow s bytes enc = Inr (canonRow enc (Columns s) row)"
  using assms by (rule decodeRow_encodeRow)

theorem row_roundtrip_witness:
  "decodeRow exSchema [2, 172, 2, 24, 2, 0, 0, 0, 2, 0, 0, 0, 97, 98, 0, 0, 0, 0, 0, 130, 0,
      0, 0, 0, 0, 0, 0, 0] CompactedEncoding
    = Inr (canonRow CompactedEncoding (Columns exSchema) exRow)"
proof (rule row_roundtrip)
  show "\<forall>v \<in> set exRow. wfValue v" by (simp add: exRow_def)
  show "encodeRow exSchema exRow CompactedEncoding
      = Inr [2, 172, 2, 24, 2, 0, 0, 0, 2, 0, 0, 0, 97, 98, 0, 0, 0, 0, 0, 130, 0,
          0, 0, 0, 0, 0, 0, 0]"
    by code_simp
qed (simp add: maxRowBytes_def)



text \<open>
  C37. Keys are injective: two primary keys with the same bytes have the same values, column by
  column, up to what the column types keep of a time. So a lookup by key bytes cannot confuse rows.
\<close>

theorem primary_key_injective:
  assumes "EncodePrimaryKey s k = Inr b" and "\<forall>v \<in> set k. wfValue v"
    and "EncodePrimaryKey s k' = Inr b" and "\<forall>v \<in> set k'. wfValue v"
  shows "canonKey (columnsByName s) (PrimaryKey s) k = canonKey (columnsByName s) (PrimaryKey s) k'"
  using assms by (rule EncodePrimaryKey_inj)

theorem primary_key_injective_witness:
  "\<exists>b. EncodePrimaryKey exSchema [VInt32 300, VString [0x61]] = Inr b \<and>
   (\<forall>x. EncodePrimaryKey exSchema [VInt32 x, VString [0x61]] = Inr b \<longrightarrow> x = 300)"
proof -
  have b: "EncodePrimaryKey exSchema [VInt32 300, VString [0x61]] = Inr [172, 2, 1, 0x61]"
    by code_simp
  have "x = 300" if "EncodePrimaryKey exSchema [VInt32 x, VString [0x61]] = Inr [172, 2, 1, 0x61]"
    for x
    using primary_key_injective [OF b _ that]
    by (simp add: exSchema_def exColumn_def columnsByName_def)
  with b show ?thesis by blast
qed

text \<open>
  A prefix lookup finds its rows: the bytes of a prefix key are a prefix of the bytes of every
  primary key that starts with the same values.
\<close>

theorem prefix_key_is_byte_prefix:
  assumes "EncodePrimaryKey s k = Inr b" and "EncodePrefixKey s (take n k) = Inr p"
  shows "\<exists>t. b = p @ t"
proof -
  let ?m = "columnsByName s"
  have full: "encodeKeyLoop ?m (PrimaryKey s) k [] = Inr b"
    using assms(1) by (auto simp: EncodePrimaryKey_def encodeKeyColumns_def)
  have n: "length (take n k) \<le> length (PrimaryKey s)"
    and pre: "encodeKeyLoop ?m (take (length (take n k)) (PrimaryKey s)) (take n k) [] = Inr p"
    using assms(2) by (auto simp: EncodePrefixKey_def encodeKeyColumns_def simp del: length_take)
  have "take (length (take n k)) k = take n k" by (simp add: min_def)
  with encodeKeyLoop_take [OF full n] pre show ?thesis by (auto simp del: length_take)
qed

theorem prefix_key_is_byte_prefix_witness:
  "\<exists>b p t. EncodePrimaryKey exSchema [VInt32 300, VString [0x61]] = Inr b
     \<and> EncodePrefixKey exSchema (take 1 [VInt32 300, VString [0x61]]) = Inr p \<and> b = p @ t"
proof -
  have b: "EncodePrimaryKey exSchema [VInt32 300, VString [0x61]] = Inr [172, 2, 1, 0x61]"
    by code_simp
  have p: "EncodePrefixKey exSchema (take 1 [VInt32 300, VString [0x61]]) = Inr [172, 2]"
    by code_simp
  from prefix_key_is_byte_prefix [OF b p] b p show ?thesis by blast
qed

text \<open>
  Timestamps keep what they promise: encoding splits a time into milliseconds and nanoseconds,
  and decoding gives back, in UTC, the same instant (TIMESTAMP_LTZ) or the same wall clock
  (TIMESTAMP), exactly at the nanosecond precision and cut to the millisecond otherwise, also before
  1970. The range is that of a signed 64-bit millisecond count.
\<close>

theorem timestamp_roundtrip:
  assumes "0 \<le> nanosecond t" and "nanosecond t < 1000000000"
    and "- (2 ^ 63) \<le> keptNanos kind t div 1000000" and "keptNanos kind t div 1000000 < 2 ^ 63"
  shows "timestampTime kind (fst (timestampParts kind t)) (snd (timestampParts kind t))
           = timeUnix 0 (keptNanos kind t)
       \<and> timestampTime kind (fst (timestampParts kind t)) 0
           = timeUnix 0 (keptNanos kind t div 1000000 * 1000000)"
  using timestamp_kept [OF assms] by simp

theorem timestamp_roundtrip_witness:
  "timestampTime TimestampType
      (fst (timestampParts TimestampType \<lparr>unixSec = -1, nanosecond = 999999999, zoneOffset = 3600\<rparr>))
      (snd (timestampParts TimestampType \<lparr>unixSec = -1, nanosecond = 999999999, zoneOffset = 3600\<rparr>))
    = \<lparr>unixSec = 3599, nanosecond = 999999999, zoneOffset = 0\<rparr>"
  using timestamp_roundtrip [of "\<lparr>unixSec = -1, nanosecond = 999999999, zoneOffset = 3600\<rparr>" TimestampType]
  by (simp add: keptNanos_def wallSec_def timeUnix_def)

end
