(* ===== verification/Record_Batch.thy ===== *)
theory Record_Batch
  imports Row_Roundtrip
begin

text \<open>
  Record batches, \<^verbatim>\<open>pkg/fgo/record_batch.go\<close>: the KV batch and the row-oriented log batch (magic 0 and
  1), with their CRC-32C. Header fields are written by offset, as the code does.
\<close>

section \<open>CRC-32C\<close>

text \<open>\<^verbatim>\<open>crc32.Checksum(data, crc32.MakeTable(crc32.Castagnoli))\<close>: the reflected polynomial
  \<open>0x82F63B78\<close>, one bit at a time.\<close>

definition crcBit :: "32 word \<Rightarrow> 32 word" where
  "crcBit c = (if c AND 1 = 0 then drop_bit 1 c else drop_bit 1 c XOR 0x82F63B78)"

definition crcByte :: "32 word \<Rightarrow> byte \<Rightarrow> 32 word" where
  "crcByte c b = (crcBit ^^ 8) (c XOR ucast b)"

definition Checksum :: "bytes \<Rightarrow> 32 word" where
  "Checksum data = NOT (foldl crcByte (NOT 0) data)"

section \<open>KV batches\<close>

definition kvBatchHeaderSize :: nat where
  "kvBatchHeaderSize = 28"

record kv_record =
  kvKey :: bytes
  kvValue :: "bytes option"

record kv_batch =
  kvSchemaID :: "16 word"
  kvWriterID :: "64 word"
  kvSequence :: "32 word"
  kvRecords :: "kv_record list"

text \<open>A nil and an empty value append the same bytes.\<close>

definition valueBytes :: "kv_record \<Rightarrow> bytes" where
  "valueBytes r = (case kvValue r of None \<Rightarrow> [] | Some v \<Rightarrow> v)"

definition appendKVRecord :: "bytes \<Rightarrow> kv_record \<Rightarrow> bytes result" where
  "appendKVRecord encoded r =
     guardE (int (length (kvKey r)) > maxRowBytes \<or> int (length (valueBytes r)) > maxRowBytes)
       ErrMalformedRecordBatch
       (let body = appendVar32 [] (of_nat (length (kvKey r))) @ kvKey r @ valueBytes r in
        guardE (int (length body) > maxRowBytes
                \<or> int (length encoded + 4 + length body) > maxRowBytes) ErrMalformedRecordBatch
          (Inr (encoded @ le_bytes 4 (of_nat (length body) :: 32 word) @ body)))"

fun appendKVRecords :: "bytes \<Rightarrow> kv_record list \<Rightarrow> bytes result" where
  "appendKVRecords encoded [] = Inr encoded"
| "appendKVRecords encoded (r # rs) =
     andThen (appendKVRecord encoded r) (\<lambda>encoded'. appendKVRecords encoded' rs)"

definition KVBatch_Encode :: "kv_batch \<Rightarrow> bytes result" where
  "KVBatch_Encode b =
     guardE (int (length (kvRecords b)) > 2147483647) ErrMalformedRecordBatch
       (andThen (go_set (replicate kvBatchHeaderSize 0) 4 0) (\<lambda>e.
        andThen (le_put 2 e 9 (kvSchemaID b)) (\<lambda>e.
        andThen (le_put 8 e 12 (kvWriterID b)) (\<lambda>e.
        andThen (le_put 4 e 20 (kvSequence b)) (\<lambda>e.
        andThen (le_put 4 e 24 (of_nat (length (kvRecords b)) :: 32 word)) (\<lambda>e.
        andThen (appendKVRecords e (kvRecords b)) (\<lambda>e.
        andThen (le_put 4 e 0 (word_of_int (int (length e) - 4) :: 32 word)) (\<lambda>e.
        andThen (go_slice e 9 (int (length e))) (\<lambda>tail. le_put 4 e 5 (Checksum tail))))))))))"

definition decodeKVRecord :: "bytes \<Rightarrow> int \<Rightarrow> (kv_record \<times> int) result" where
  "decodeKVRecord encoded position =
     guardE (int (length encoded) - position < 4) ErrMalformedRecordBatch
       (andThen (le_get 4 encoded position) (\<lambda>length32 :: 32 word.
        let len = uint length32; position = position + 4 in
        guardE (len < 1 \<or> len > int (length encoded) - position) ErrMalformedRecordBatch
          (let bodyEnd = position + len in
           andThen (go_slice encoded 0 bodyEnd) (\<lambda>body.
           andThen (rewrap ErrMalformedRecordBatch (readVar body position 5)) (\<lambda>(keyLength, keyStart).
           guardE (keyLength > word_of_int (bodyEnd - keyStart)) ErrMalformedRecordBatch
             (let keyEnd = keyStart + uint keyLength in
              andThen (go_slice encoded keyStart keyEnd) (\<lambda>key.
              andThen (if keyEnd \<noteq> bodyEnd
                       then andThen (go_slice encoded keyEnd bodyEnd) (\<lambda>v. Inr (Some v))
                       else Inr None) (\<lambda>v.
                Inr (\<lparr>kvKey = key, kvValue = v\<rparr>, bodyEnd)))))))))"

fun decodeKVRecords :: "bytes \<Rightarrow> nat \<Rightarrow> int \<Rightarrow> (kv_record list \<times> int) result" where
  "decodeKVRecords encoded 0 position = Inr ([], position)"
| "decodeKVRecords encoded (Suc n) position =
     andThen (decodeKVRecord encoded position) (\<lambda>(r, nxt).
     andThen (decodeKVRecords encoded n nxt) (\<lambda>(rs, position'). Inr (r # rs, position')))"

definition DecodeKVBatch :: "bytes \<Rightarrow> kv_batch result" where
  "DecodeKVBatch encoded =
     guardE (length encoded < kvBatchHeaderSize \<or> int (length encoded) > maxRowBytes)
       ErrMalformedRecordBatch
       (andThen (go_index encoded 4) (\<lambda>magic.
        guardE (magic \<noteq> 0) ErrMalformedRecordBatch
          (andThen (le_get 4 encoded 0) (\<lambda>len :: 32 word.
           andThen (le_get 4 encoded 5) (\<lambda>crc.
           andThen (go_slice encoded 9 (int (length encoded))) (\<lambda>tail.
           guardE (uint len \<noteq> int (length encoded) - 4 \<or> crc \<noteq> Checksum tail)
             ErrMalformedRecordBatch
             (andThen (le_get 4 encoded 24) (\<lambda>count :: 32 word.
              guardE (uint count > int (length encoded) div 5) ErrMalformedRecordBatch
                (andThen (le_get 2 encoded 9) (\<lambda>schemaID.
                 andThen (le_get 8 encoded 12) (\<lambda>writerID.
                 andThen (le_get 4 encoded 20) (\<lambda>sequence.
                 andThen (decodeKVRecords encoded (unat count) (int kvBatchHeaderSize))
                   (\<lambda>(records, position).
                 guardE (position \<noteq> int (length encoded)) ErrMalformedRecordBatch
                   (Inr \<lparr>kvSchemaID = schemaID, kvWriterID = writerID, kvSequence = sequence,
                         kvRecords = records\<rparr>))))))))))))))"

section \<open>Log batches\<close>

definition logBatchV0HeaderSize :: nat where
  "logBatchV0HeaderSize = 48"

definition logBatchV1HeaderSize :: nat where
  "logBatchV1HeaderSize = 52"

record log_batch =
  Magic :: byte
  BaseOffset :: "64 word"
  CommitTime :: "64 word"
  LeaderEpoch :: "32 word"
  SchemaID :: "16 word"
  AppendOnly :: bool
  WriterID :: "64 word"
  BatchSequence :: "32 word"
  Records :: "go_record list"

definition appendLogRecord :: "schema \<Rightarrow> bool \<Rightarrow> bytes \<Rightarrow> go_record \<Rightarrow> bytes result" where
  "appendLogRecord s compacted encoded r =
     andThen (ChangeType_Validate (recChange r)) (\<lambda>_.
     andThen (if compacted then EncodeCompactedRow s (recValue r) else EncodeIndexedRow s (recValue r))
       (\<lambda>row.
       Inr (encoded @ le_bytes 4 (of_nat (1 + length row) :: 32 word) @ [recChange r] @ row)))"

fun appendLogRecords :: "schema \<Rightarrow> bool \<Rightarrow> bytes \<Rightarrow> go_record list \<Rightarrow> bytes result" where
  "appendLogRecords s compacted encoded [] = Inr encoded"
| "appendLogRecords s compacted encoded (r # rs) =
     andThen (appendLogRecord s compacted encoded r) (\<lambda>encoded'.
       appendLogRecords s compacted encoded' rs)"

definition EncodeRows :: "log_batch \<Rightarrow> schema \<Rightarrow> bool \<Rightarrow> bytes result" where
  "EncodeRows b s compacted =
     guardE (Magic b \<noteq> 0 \<and> Magic b \<noteq> 1) ErrMalformedRecordBatch
       (let headerSize = (if Magic b = 1 then logBatchV1HeaderSize else logBatchV0HeaderSize);
            crcOffset = (if Magic b = 1 then 25 else 21);
            schemaOffset = (if Magic b = 1 then 29 else 25);
            lastOffset = schemaOffset + 3 in
        andThen (le_put 8 (replicate headerSize 0) 0 (BaseOffset b)) (\<lambda>e.
        andThen (go_set e 12 (Magic b)) (\<lambda>e.
        andThen (le_put 8 e 13 (CommitTime b)) (\<lambda>e.
        andThen (if Magic b = 1 then le_put 4 e 21 (LeaderEpoch b) else Inr e) (\<lambda>e.
        andThen (le_put 2 e schemaOffset (SchemaID b)) (\<lambda>e.
        andThen (if AppendOnly b then go_set e (schemaOffset + 2) 1 else Inr e) (\<lambda>e.
        andThen (if Records b \<noteq> []
                 then le_put 4 e lastOffset (of_nat (length (Records b) - 1) :: 32 word)
                 else Inr e) (\<lambda>e.
        andThen (le_put 8 e (lastOffset + 4) (WriterID b)) (\<lambda>e.
        andThen (le_put 4 e (lastOffset + 12) (BatchSequence b)) (\<lambda>e.
        andThen (le_put 4 e (lastOffset + 16) (of_nat (length (Records b)) :: 32 word)) (\<lambda>e.
        andThen (appendLogRecords s compacted e (Records b)) (\<lambda>e.
        andThen (le_put 4 e 8 (word_of_int (int (length e) - 12) :: 32 word)) (\<lambda>e.
        andThen (go_slice e schemaOffset (int (length e))) (\<lambda>tail.
          le_put 4 e crcOffset (Checksum tail)))))))))))))))"

definition logBatchHeader :: "bytes \<Rightarrow> (byte \<times> int \<times> int) result" where
  "logBatchHeader encoded =
     guardE (length encoded < 13 \<or> int (length encoded) > maxRowBytes) ErrMalformedRecordBatch
       (andThen (go_index encoded 12) (\<lambda>magic.
        guardE (magic \<noteq> 0 \<and> magic \<noteq> 1) ErrMalformedRecordBatch
          (let headerSize = int (if magic = 1 then logBatchV1HeaderSize else logBatchV0HeaderSize);
               crcOffset = (if magic = 1 then 25 else 21);
               schemaOffset = (if magic = 1 then 29 else 25) in
           guardE (int (length encoded) < headerSize) ErrMalformedRecordBatch
             (andThen (le_get 4 encoded 8) (\<lambda>len :: 32 word.
              guardE (uint len \<noteq> int (length encoded) - 12) ErrMalformedRecordBatch
                (andThen (go_slice encoded schemaOffset (int (length encoded))) (\<lambda>tail.
                 andThen (le_get 4 encoded crcOffset) (\<lambda>crc.
                 guardE (crc \<noteq> Checksum tail) ErrMalformedRecordBatch
                   (Inr (magic, headerSize, schemaOffset))))))))))"

text \<open>\<^verbatim>\<open>time.UnixMilli\<close> gives a time in the local zone, whose offset at an instant is a parameter.\<close>

definition UnixMilli :: "(int \<Rightarrow> int) \<Rightarrow> 64 word \<Rightarrow> go_time" where
  "UnixMilli localOffset msec =
     (let t = timeUnix (sint msec sdiv 1000) (sint msec smod 1000 * 1000000)
      in t\<lparr>zoneOffset := localOffset (unixSec t)\<rparr>)"

definition decodeLogRecord ::
    "(int \<Rightarrow> int) \<Rightarrow> schema \<Rightarrow> log_batch \<Rightarrow> bytes \<Rightarrow> int \<Rightarrow> nat \<Rightarrow> bool \<Rightarrow> (go_record \<times> int) result" where
  "decodeLogRecord localOffset s batch encoded position index compacted =
     guardE (int (length encoded) - position < 5) ErrMalformedRecordBatch
       (andThen (le_get 4 encoded position) (\<lambda>length32 :: 32 word.
        let len = uint length32; position = position + 4 in
        guardE (len < 1 \<or> len > int (length encoded) - position) ErrMalformedRecordBatch
          (andThen (go_index encoded position) (\<lambda>change.
           andThen (rewrap ErrMalformedRecordBatch (ChangeType_Validate change)) (\<lambda>_.
           let bodyEnd = position + len in
           andThen (go_slice encoded (position + 1) bodyEnd) (\<lambda>body.
           andThen (if compacted then DecodeCompactedRow s body else DecodeIndexedRow s body) (\<lambda>row.
             Inr (\<lparr>recKey = [], recValue = row, recChange = change,
                   recTimestamp = UnixMilli localOffset (CommitTime batch),
                   recOffset = BaseOffset batch + of_nat index\<rparr>, bodyEnd))))))))"

fun decodeLogRecords ::
    "(int \<Rightarrow> int) \<Rightarrow> schema \<Rightarrow> log_batch \<Rightarrow> bytes \<Rightarrow> bool \<Rightarrow> nat \<Rightarrow> nat \<Rightarrow> int
      \<Rightarrow> (go_record list \<times> int) result" where
  "decodeLogRecords localOffset s batch encoded compacted index 0 position = Inr ([], position)"
| "decodeLogRecords localOffset s batch encoded compacted index (Suc n) position =
     andThen (decodeLogRecord localOffset s batch encoded position index compacted) (\<lambda>(r, nxt).
     andThen (decodeLogRecords localOffset s batch encoded compacted (Suc index) n nxt)
       (\<lambda>(rs, position'). Inr (r # rs, position')))"

definition DecodeLogBatchRows :: "(int \<Rightarrow> int) \<Rightarrow> schema \<Rightarrow> bytes \<Rightarrow> bool \<Rightarrow> log_batch result" where
  "DecodeLogBatchRows localOffset s encoded compacted =
     andThen (logBatchHeader encoded) (\<lambda>(magic, headerSize, schemaOffset).
     let lastOffset = schemaOffset + 3 in
     andThen (le_get 4 encoded (lastOffset + 16)) (\<lambda>count :: 32 word.
     guardE (uint count > (int (length encoded) - headerSize) div 5) ErrMalformedRecordBatch
       (andThen (le_get 8 encoded 0) (\<lambda>baseOffset.
        andThen (le_get 8 encoded 13) (\<lambda>commitTime.
        andThen (le_get 2 encoded schemaOffset) (\<lambda>schemaID.
        andThen (go_index encoded (schemaOffset + 2)) (\<lambda>attributes.
        andThen (le_get 8 encoded (lastOffset + 4)) (\<lambda>writerID.
        andThen (le_get 4 encoded (lastOffset + 12)) (\<lambda>sequence.
        andThen (if magic = 1 then le_get 4 encoded 21 else Inr 0) (\<lambda>leaderEpoch.
        let batch = \<lparr>Magic = magic, BaseOffset = baseOffset, CommitTime = commitTime,
              LeaderEpoch = leaderEpoch, SchemaID = schemaID, AppendOnly = attributes AND 1 \<noteq> 0,
              WriterID = writerID, BatchSequence = sequence, Records = []\<rparr> in
        andThen (decodeLogRecords localOffset s batch encoded compacted 0 (unat count) headerSize)
          (\<lambda>(records, position).
        guardE (position \<noteq> int (length encoded)) ErrMalformedRecordBatch
          (Inr (batch\<lparr>Records := records\<rparr>)))))))))))))"

end
