(* ===== verification/Batch_Properties.thy ===== *)
theory Batch_Properties
  imports Record_Batch Codec_Properties
begin

text \<open>
  Record batches round trip and detect corruption. The checksum lemmas come first: one step of the
  CRC is injective in its state and in its byte, so two messages that differ in one byte have
  different checksums. Then the layouts that the encoders produce, and the decoders on them.
\<close>

section \<open>The checksum notices a changed byte\<close>

lemma bit_crc_poly_31: "bit (0x82F63B78 :: 32 word) 31"
  by code_simp

lemma bit_crcBit_31: "bit (crcBit c) 31 \<longleftrightarrow> odd c"
proof -
  have "\<not> bit (drop_bit 1 c) 31"
    using bit_imp_le_length [of c 32] by (auto simp: bit_drop_bit_eq)
  moreover have "c AND 1 = 0 \<longleftrightarrow> even c" by (simp add: and_one_eq even_iff_mod_2_eq_zero)
  ultimately show ?thesis
    using bit_crc_poly_31 by (simp only: crcBit_def split: if_split) (simp only: bit_xor_iff, simp)
qed

lemma drop_bit_1_odd_eq:
  assumes "drop_bit 1 c = drop_bit 1 d" "odd c = odd (d :: 'a::len word)"
  shows "c = d"
proof (rule bit_eqI)
  fix n
  show "bit c n = bit d n"
  proof (cases n)
    case 0
    then show ?thesis using assms(2) by (simp add: bit_0)
  next
    case (Suc m)
    have "bit (drop_bit 1 c) m = bit (drop_bit 1 d) m" using assms(1) by simp
    then show ?thesis using Suc by (simp add: bit_drop_bit_eq)
  qed
qed

lemma xor_cancel:
  "(a XOR c :: 'a::len word) = b XOR c \<longleftrightarrow> a = b"
  "(c XOR a :: 'a::len word) = c XOR b \<longleftrightarrow> a = b"
  by (auto simp: bit_eq_iff bit_xor_iff)

lemma crcBit_inj: "crcBit c = crcBit d \<Longrightarrow> c = d"
proof -
  assume eq: "crcBit c = crcBit d"
  then have "odd c = odd d" using bit_crcBit_31 [of c] bit_crcBit_31 [of d] by simp
  moreover have "c AND 1 = 0 \<longleftrightarrow> even c" "d AND 1 = 0 \<longleftrightarrow> even d"
    by (simp_all add: and_one_eq even_iff_mod_2_eq_zero)
  ultimately have "drop_bit 1 c = drop_bit 1 d"
    using eq by (simp add: crcBit_def xor_cancel split: if_splits)
  then show ?thesis using \<open>odd c = odd d\<close> by (rule drop_bit_1_odd_eq)
qed

lemma crcBits_inj: "(crcBit ^^ n) c = (crcBit ^^ n) d \<Longrightarrow> c = d"
  by (induction n) (auto dest: crcBit_inj)

lemma crcByte_inj_state: "crcByte c b = crcByte d b \<Longrightarrow> c = d"
proof -
  assume "crcByte c b = crcByte d b"
  then have "c XOR ucast b = d XOR ucast b" unfolding crcByte_def by (rule crcBits_inj)
  then show ?thesis by (simp only: xor_cancel)
qed

lemma crcByte_inj_byte: "crcByte c b = crcByte c b' \<Longrightarrow> b = b'"
proof -
  assume "crcByte c b = crcByte c b'"
  then have "c XOR ucast b = c XOR ucast b'" unfolding crcByte_def by (rule crcBits_inj)
  then have "(ucast b :: 32 word) = ucast b'" by (simp only: xor_cancel)
  then have "ucast (ucast b :: 32 word) = (ucast (ucast b' :: 32 word) :: byte)" by simp
  moreover have "ucast (ucast x :: 32 word) = x" for x :: byte
    by (rule bit_word_eqI) (simp add: bit_ucast_iff)
  ultimately show ?thesis by simp
qed

lemma foldl_crc_inj: "foldl crcByte c bs = foldl crcByte d bs \<Longrightarrow> c = d"
  by (induction bs arbitrary: c d) (auto dest: crcByte_inj_state)

lemma Checksum_update:
  assumes "i < length bs" "x \<noteq> bs ! i"
  shows "Checksum (bs[i := x]) \<noteq> Checksum bs"
proof
  assume eq: "Checksum (bs[i := x]) = Checksum bs"
  let ?s = "foldl crcByte (NOT 0) (take i bs)"
  have "NOT (foldl crcByte (NOT 0) (bs[i := x])) = NOT (foldl crcByte (NOT 0) bs)"
    using eq by (simp add: Checksum_def)
  then have "foldl crcByte (NOT 0) (bs[i := x]) = foldl crcByte (NOT 0) bs"
    by (metis bit.double_compl)
  moreover have "foldl crcByte (NOT 0) bs = foldl crcByte (crcByte ?s (bs ! i)) (drop (Suc i) bs)"
    using assms(1) by (subst id_take_nth_drop [of i bs]) simp_all
  moreover have "foldl crcByte (NOT 0) (bs[i := x]) = foldl crcByte (crcByte ?s x) (drop (Suc i) bs)"
    using assms(1) by (simp add: upd_conv_take_nth_drop)
  ultimately have "crcByte ?s x = crcByte ?s (bs ! i)" by (metis foldl_crc_inj)
  then show False using assms(2) crcByte_inj_byte by blast
qed

section \<open>Fields at fixed offsets\<close>

lemma le_put_block:
  "off = int (length xs) \<Longrightarrow> length ys = n \<Longrightarrow>
   le_put n (xs @ ys @ zs) off w = Inr (xs @ le_bytes n w @ zs)"
  by (simp add: le_put_def overwrite_exact)

lemma le_get_block:
  "off = int (length xs) \<Longrightarrow> LENGTH('a) \<le> 8 * n \<Longrightarrow>
   le_get n (xs @ le_bytes n w @ zs) off = Inr (w :: 'a::len word)"
  by (simp add: le_get_append)

lemma le_bytes_zero: "le_bytes n (0 :: 'a::len word) = replicate n 0"
  by (induction n) simp_all

section \<open>KV batches\<close>

definition kvTail :: "kv_batch \<Rightarrow> bytes \<Rightarrow> bytes" where
  "kvTail b body = le_bytes 2 (kvSchemaID b) @ [0] @ le_bytes 8 (kvWriterID b)
     @ le_bytes 4 (kvSequence b) @ le_bytes 4 (of_nat (length (kvRecords b)) :: 32 word) @ body"

definition kvLayout :: "32 word \<Rightarrow> 32 word \<Rightarrow> bytes \<Rightarrow> bytes" where
  "kvLayout len crc tail = le_bytes 4 len @ [0] @ le_bytes 4 crc @ tail"

lemma length_kvLayout [simp]: "length (kvLayout len crc tail) = 9 + length tail"
  by (simp add: kvLayout_def)

lemma length_kvTail [simp]: "length (kvTail b body) = 19 + length body"
  by (simp add: kvTail_def)

lemma kv_header:
  "andThen (go_set (replicate kvBatchHeaderSize 0) 4 0) (\<lambda>e.
     andThen (le_put 2 e 9 (kvSchemaID b)) (\<lambda>e.
     andThen (le_put 8 e 12 (kvWriterID b)) (\<lambda>e.
     andThen (le_put 4 e 20 (kvSequence b)) (\<lambda>e.
     andThen (le_put 4 e 24 (of_nat (length (kvRecords b)) :: 32 word)) f))))
   = f (kvLayout 0 0 (kvTail b []))"
proof -
  let ?z = "replicate 9 (0 :: byte)"
  have start: "go_set (replicate kvBatchHeaderSize 0) 4 0
      = Inr (?z @ replicate 2 0 @ [0] @ replicate 8 0 @ replicate 4 0 @ replicate 4 (0 :: byte))"
    by (simp add: go_set_def kvBatchHeaderSize_def numeral_eq_Suc)
  note p1 = le_put_block [of 9 ?z "replicate 2 0" 2 "[0] @ replicate 8 0 @ replicate 4 0 @ replicate 4 0"
      "kvSchemaID b"]
  note p2 = le_put_block [of 12 "?z @ le_bytes 2 (kvSchemaID b) @ [0]" "replicate 8 0" 8
      "replicate 4 0 @ replicate 4 0" "kvWriterID b"]
  note p3 = le_put_block [of 20 "?z @ le_bytes 2 (kvSchemaID b) @ [0] @ le_bytes 8 (kvWriterID b)"
      "replicate 4 0" 4 "replicate 4 0" "kvSequence b"]
  note p4 = le_put_block [of 24 "?z @ le_bytes 2 (kvSchemaID b) @ [0] @ le_bytes 8 (kvWriterID b)
      @ le_bytes 4 (kvSequence b)" "replicate 4 0" 4 "[]" "of_nat (length (kvRecords b)) :: 32 word"]
  have z: "?z = le_bytes 4 (0 :: 32 word) @ [0] @ le_bytes 4 (0 :: 32 word)"
    by (simp add: le_bytes_zero numeral_eq_Suc)
  have "kvLayout 0 0 (kvTail b []) = ?z @ le_bytes 2 (kvSchemaID b) @ [0] @ le_bytes 8 (kvWriterID b)
      @ le_bytes 4 (kvSequence b) @ le_bytes 4 (of_nat (length (kvRecords b)) :: 32 word)"
    by (simp add: kvLayout_def kvTail_def z)
  then show ?thesis
    using p1 p2 p3 p4 by (simp add: start)
qed

definition kvRecordBytes :: "kv_record \<Rightarrow> bytes" where
  "kvRecordBytes r = (let body = appendVar32 [] (of_nat (length (kvKey r))) @ kvKey r @ valueBytes r
     in le_bytes 4 (of_nat (length body) :: 32 word) @ body)"

lemma appendKVRecords_Inr_D:
  "appendKVRecords encoded rs = Inr e \<Longrightarrow>
   e = encoded @ concat (map kvRecordBytes rs) \<and>
   (\<forall>r \<in> set rs. int (length (kvKey r)) \<le> maxRowBytes
      \<and> int (length (kvRecordBytes r)) \<le> maxRowBytes)
   \<and> (rs \<noteq> [] \<longrightarrow> int (length e) \<le> maxRowBytes)"
proof (induction rs arbitrary: encoded)
  case (Cons r rs)
  from Cons.prems obtain e' where r: "appendKVRecord encoded r = Inr e'"
    and rest: "appendKVRecords e' rs = Inr e" by auto
  have e': "e' = encoded @ kvRecordBytes r" "int (length (kvKey r)) \<le> maxRowBytes"
    "int (length e') \<le> maxRowBytes"
    using r by (auto simp: appendKVRecord_def kvRecordBytes_def Let_def)
  moreover have "int (length (kvRecordBytes r)) \<le> maxRowBytes" using e' by simp
  moreover have "int (length e) \<le> maxRowBytes"
    using Cons.IH [OF rest] rest e'(3) by (cases "rs = []") auto
  ultimately show ?case
    using Cons.IH [OF rest] by auto
qed simp

lemma KVBatch_Encode_layout:
  assumes "KVBatch_Encode b = Inr bytes"
  obtains body where "body = concat (map kvRecordBytes (kvRecords b))"
    "bytes = kvLayout (word_of_int (int (length bytes) - 4)) (Checksum (kvTail b body)) (kvTail b body)"
    "\<forall>r \<in> set (kvRecords b). int (length (kvKey r)) \<le> maxRowBytes
       \<and> int (length (kvRecordBytes r)) \<le> maxRowBytes"
    "int (length bytes) \<le> maxRowBytes"
proof -
  from assms [unfolded KVBatch_Encode_def kv_header] obtain e e2 tail where
    recs: "appendKVRecords (kvLayout 0 0 (kvTail b [])) (kvRecords b) = Inr e"
    and len: "le_put 4 e 0 (word_of_int (int (length e) - 4) :: 32 word) = Inr e2"
    and tail: "go_slice e2 9 (int (length e2)) = Inr tail"
    and crc: "le_put 4 e2 5 (Checksum tail) = Inr bytes"
    by auto
  let ?body = "concat (map kvRecordBytes (kvRecords b))"
  note D = appendKVRecords_Inr_D [OF recs]
  have e: "e = kvLayout 0 0 (kvTail b ?body)"
    using D by (simp add: kvLayout_def kvTail_def)
  have e2: "e2 = kvLayout (word_of_int (int (length e) - 4)) 0 (kvTail b ?body)"
    using len le_put_block [of 0 "[]" "le_bytes 4 (0 :: 32 word)" 4 "[0] @ le_bytes 4 (0 :: 32 word) @ kvTail b ?body"
        "word_of_int (int (length e) - 4) :: 32 word"]
    by (simp add: e kvLayout_def)
  have lenE: "length e2 = length e" by (simp add: e2 e)
  have tail': "tail = kvTail b ?body"
    using tail by (simp add: e2 go_slice_def kvLayout_def)
  have bytes: "bytes = kvLayout (word_of_int (int (length e) - 4)) (Checksum (kvTail b ?body)) (kvTail b ?body)"
    using crc le_put_block [of 5 "le_bytes 4 (word_of_int (int (length e) - 4) :: 32 word) @ [0]"
        "le_bytes 4 (0 :: 32 word)" 4 "kvTail b ?body" "Checksum tail"]
    by (simp add: e2 kvLayout_def tail')
  have lenB: "length bytes = length e" by (simp add: bytes e)
  have max: "int (length bytes) \<le> maxRowBytes"
    using D by (cases "kvRecords b") (auto simp: lenB e maxRowBytes_def)
  show thesis
    using that [of ?body] bytes D max by (simp add: lenB)
qed

definition normKV :: "kv_record \<Rightarrow> kv_record" where
  "normKV r = \<lparr>kvKey = kvKey r, kvValue = (if valueBytes r = [] then None else Some (valueBytes r))\<rparr>"

lemma decodeKVRecord_append:
  assumes key: "int (length (kvKey r)) \<le> maxRowBytes"
    and len: "int (length (kvRecordBytes r)) \<le> maxRowBytes"
  shows "decodeKVRecord (pre @ kvRecordBytes r @ suf) (int (length pre))
    = Inr (normKV r, int (length pre + length (kvRecordBytes r)))"
proof -
  let ?kl = "of_nat (length (kvKey r)) :: 32 word"
  let ?var = "appendVar32 [] ?kl"
  let ?body = "?var @ kvKey r @ valueBytes r"
  let ?enc = "pre @ kvRecordBytes r @ suf"
  let ?p = "int (length pre) + 4"
  have kb: "kvRecordBytes r = le_bytes 4 (of_nat (length ?body) :: 32 word) @ ?body"
    by (simp add: kvRecordBytes_def Let_def)
  have body: "int (length ?body) \<le> maxRowBytes" "1 \<le> length ?body"
    using len appendVar64_not_Nil [of "ucast ?kl"] by (auto simp: kb appendVar32_def Suc_le_eq)
  note cnt = uint_of_nat_count [OF body(1)] uint_of_nat_count [OF key]
  have get: "le_get 4 ?enc (int (length pre)) = Inr (of_nat (length ?body) :: 32 word)"
    unfolding kb by (simp add: codec_rt)
  have slice: "go_slice ?enc 0 (?p + int (length ?body))
      = Inr ((pre @ le_bytes 4 (of_nat (length ?body) :: 32 word)) @ ?var @ (kvKey r @ valueBytes r))"
    by (simp add: kb go_slice_def nat_add_distrib)
  have var: "readVar ((pre @ le_bytes 4 (of_nat (length ?body) :: 32 word)) @ ?var @ (kvKey r @ valueBytes r)) ?p 5
      = Inr (ucast ?kl, ?p + int (length ?var))"
    using readVar_appendVar32 [of "pre @ le_bytes 4 (of_nat (length ?body) :: 32 word)" ?kl
        "kvKey r @ valueBytes r"] by (simp add: algebra_simps)
  have ukl: "uint (ucast ?kl :: 64 word) = int (length (kvKey r))"
    using cnt key by (simp add: unsigned_ucast_eq take_bit_int_eq_self maxRowBytes_def)
  let ?d = "int (length (kvKey r)) + int (length (valueBytes r))"
  have d: "?p + int (length ?body) - (?p + int (length ?var)) = ?d" by simp
  have "uint (word_of_int ?d :: 64 word) = ?d"
    using body(1) by (simp add: unsigned_of_int take_bit_int_eq_self maxRowBytes_def del: of_int_add)
  then have room: "\<not> (ucast ?kl :: 64 word) > word_of_int (?p + int (length ?body) - (?p + int (length ?var)))"
    unfolding d word_less_def ukl by simp
  have key': "go_slice ?enc (?p + int (length ?var)) (?p + int (length ?var) + int (length (kvKey r)))
      = Inr (kvKey r)"
    using go_slice_append [of "int (length (kvKey r))" "kvKey r"
        "pre @ le_bytes 4 (of_nat (length ?body) :: 32 word) @ ?var" "valueBytes r @ suf"]
    by (simp add: kb algebra_simps)
  have val: "go_slice ?enc (?p + int (length ?var) + int (length (kvKey r))) (?p + int (length ?body))
      = Inr (valueBytes r)"
    using go_slice_append [of "int (length (valueBytes r))" "valueBytes r"
        "pre @ le_bytes 4 (of_nat (length ?body) :: 32 word) @ ?var @ kvKey r" suf]
    by (simp add: kb algebra_simps)
  have ends: "?p + int (length ?var) + int (length (kvKey r)) \<noteq> ?p + int (length ?body) \<longleftrightarrow> valueBytes r \<noteq> []"
    by simp
  show ?thesis
    unfolding decodeKVRecord_def Let_def get
    by (simp only: andThen_simps cnt slice var rewrap_simps prod.case room ukl key' val)
      (use body(2) in \<open>simp add: kb normKV_def\<close>)
qed

lemma decodeKVRecords_append:
  assumes "\<forall>r \<in> set rs. int (length (kvKey r)) \<le> maxRowBytes
       \<and> int (length (kvRecordBytes r)) \<le> maxRowBytes"
  shows "decodeKVRecords (pre @ concat (map kvRecordBytes rs)) (length rs) (int (length pre))
    = Inr (map normKV rs, int (length pre + length (concat (map kvRecordBytes rs))))"
  using assms
proof (induction rs arbitrary: pre)
  case (Cons r rs)
  have "decodeKVRecord (pre @ kvRecordBytes r @ concat (map kvRecordBytes rs)) (int (length pre))
      = Inr (normKV r, int (length (pre @ kvRecordBytes r)))"
    using Cons.prems by (simp add: decodeKVRecord_append)
  moreover have "decodeKVRecords ((pre @ kvRecordBytes r) @ concat (map kvRecordBytes rs)) (length rs)
      (int (length (pre @ kvRecordBytes r)))
      = Inr (map normKV rs, int (length (pre @ kvRecordBytes r) + length (concat (map kvRecordBytes rs))))"
    using Cons.prems by (intro Cons.IH) simp
  ultimately show ?case by simp
qed simp

lemma length_kvRecordBytes: "5 \<le> length (kvRecordBytes r)"
  using appendVar64_not_Nil [of "ucast (of_nat (length (kvKey r)) :: 32 word)"]
  by (auto simp: kvRecordBytes_def Let_def appendVar32_def Suc_le_eq)

lemma length_kvRecords: "5 * length rs \<le> length (concat (map kvRecordBytes rs))"
proof (induction rs)
  case (Cons r rs)
  then show ?case using length_kvRecordBytes [of r] by simp
qed simp

lemma kv_fields:
  fixes len crc :: "32 word" and body :: bytes and b :: kv_batch
  defines "bs \<equiv> kvLayout len crc (kvTail b body)"
  shows "le_get 4 bs 0 = Inr len" "go_index bs 4 = Inr 0" "le_get 4 bs 5 = Inr crc"
    "go_slice bs 9 (int (length bs)) = Inr (kvTail b body)"
    "le_get 2 bs 9 = Inr (kvSchemaID b)" "le_get 8 bs 12 = Inr (kvWriterID b)"
    "le_get 4 bs 20 = Inr (kvSequence b)"
    "le_get 4 bs 24 = Inr (of_nat (length (kvRecords b)) :: 32 word)"
proof -
  let ?n = "of_nat (length (kvRecords b)) :: 32 word"
  note unf = bs_def kvLayout_def kvTail_def
  show "le_get 4 bs 0 = Inr len" unfolding unf by (simp add: codec_rt)
  show "go_index bs 4 = Inr 0"
    using go_index_append [of "le_bytes 4 len" 0] unfolding unf by simp
  show "le_get 4 bs 5 = Inr crc"
    using le_get_block [of 5 "le_bytes 4 len @ [0]" 4 crc] unfolding unf by simp
  show "go_slice bs 9 (int (length bs)) = Inr (kvTail b body)"
    by (simp add: go_slice_def bs_def kvLayout_def)
  show "le_get 2 bs 9 = Inr (kvSchemaID b)"
    using le_get_block [of 9 "le_bytes 4 len @ [0] @ le_bytes 4 crc" 2 "kvSchemaID b"]
    unfolding unf by simp
  show "le_get 8 bs 12 = Inr (kvWriterID b)"
    using le_get_block [of 12 "le_bytes 4 len @ [0] @ le_bytes 4 crc @ le_bytes 2 (kvSchemaID b) @ [0]"
        8 "kvWriterID b"] unfolding unf by simp
  show "le_get 4 bs 20 = Inr (kvSequence b)"
    using le_get_block [of 20 "le_bytes 4 len @ [0] @ le_bytes 4 crc @ le_bytes 2 (kvSchemaID b) @ [0]
        @ le_bytes 8 (kvWriterID b)" 4 "kvSequence b"] unfolding unf by simp
  show "le_get 4 bs 24 = Inr ?n"
    using le_get_block [of 24 "le_bytes 4 len @ [0] @ le_bytes 4 crc @ le_bytes 2 (kvSchemaID b) @ [0]
        @ le_bytes 8 (kvWriterID b) @ le_bytes 4 (kvSequence b)" 4 ?n] unfolding unf by simp
qed

lemma uint_of_int_count: "0 \<le> n \<Longrightarrow> n \<le> maxRowBytes \<Longrightarrow> uint (word_of_int n :: 32 word) = n"
  by (simp add: unsigned_of_int take_bit_int_eq_self maxRowBytes_def)

lemma DecodeKVBatch_Encode:
  assumes enc: "KVBatch_Encode b = Inr bytes"
  shows "DecodeKVBatch bytes = Inr (b\<lparr>kvRecords := map normKV (kvRecords b)\<rparr>)"
proof -
  obtain body where body: "body = concat (map kvRecordBytes (kvRecords b))"
    and layout: "bytes = kvLayout (word_of_int (int (length bytes) - 4)) (Checksum (kvTail b body)) (kvTail b body)"
    and recs: "\<forall>r \<in> set (kvRecords b). int (length (kvKey r)) \<le> maxRowBytes
       \<and> int (length (kvRecordBytes r)) \<le> maxRowBytes"
    and max: "int (length bytes) \<le> maxRowBytes"
    using KVBatch_Encode_layout [OF enc] by metis
  have len: "length bytes = 28 + length body" using arg_cong [OF layout, of length] by simp
  note fields = kv_fields [of "word_of_int (int (length bytes) - 4)" "Checksum (kvTail b body)" b body,
      folded layout]
  have ulen: "uint (word_of_int (int (length bytes) - 4) :: 32 word) = int (length bytes) - 4"
    using max len by (intro uint_of_int_count) simp_all
  have five: "5 * length (kvRecords b) \<le> length body" unfolding body by (rule length_kvRecords)
  have cnt: "uint (of_nat (length (kvRecords b)) :: 32 word) = int (length (kvRecords b))"
    "unat (of_nat (length (kvRecords b)) :: 32 word) = length (kvRecords b)"
    using five max len by (intro uint_of_nat_count; simp)+
  obtain pre where pre: "length pre = 28" "bytes = pre @ body"
  proof
    let ?pre = "kvLayout (word_of_int (int (length bytes) - 4)) (Checksum (kvTail b body)) (kvTail b [])"
    show "length ?pre = 28" by simp
    show "bytes = ?pre @ body" using layout by (simp add: kvLayout_def kvTail_def)
  qed
  have dec: "decodeKVRecords bytes (length (kvRecords b)) (int kvBatchHeaderSize)
      = Inr (map normKV (kvRecords b), int (length bytes))"
    using decodeKVRecords_append [OF recs, of pre] pre body by (simp add: kvBatchHeaderSize_def)
  have lim: "int (length (kvRecords b)) \<le> int (length bytes) div 5" using five len by simp
  have "\<not> length bytes < kvBatchHeaderSize" by (simp add: len kvBatchHeaderSize_def)
  moreover have "\<lparr>kvSchemaID = kvSchemaID b, kvWriterID = kvWriterID b, kvSequence = kvSequence b,
      kvRecords = rs\<rparr> = b\<lparr>kvRecords := rs\<rparr>" for rs
    by (cases b) simp
  ultimately show ?thesis
    unfolding DecodeKVBatch_def
    using max ulen lim by (simp add: fields cnt dec)
qed


section \<open>Corrupted KV batches\<close>

lemma le_word_update:
  assumes "8 * length bs \<le> LENGTH('a)" "i < length bs" "x \<noteq> bs ! i"
  shows "(le_word (bs[i := x]) :: 'a::len word) \<noteq> le_word bs"
proof
  assume eq: "(le_word (bs[i := x]) :: 'a word) = le_word bs"
  have "le_bytes (length bs) (le_word (bs[i := x]) :: 'a word) = bs[i := x]"
    "le_bytes (length bs) (le_word bs :: 'a word) = bs"
    using assms(1) by (simp_all add: le_bytes_le_word)
  with eq have "bs[i := x] = bs" by simp
  then show False using assms(2,3) by (metis nth_list_update_eq)
qed

lemma le_get_update:
  assumes "le_get n bs (int off) = Inr (w :: 'a::len word)" "8 * n \<le> LENGTH('a)"
    "off \<le> i" "i < off + n" "x \<noteq> bs ! i"
  shows "\<exists>w'. le_get n (bs[i := x]) (int off) = Inr (w' :: 'a word) \<and> w' \<noteq> w"
proof -
  have len: "off + n \<le> length bs"
    using assms(1) by (auto simp: le_get_def go_slice_def split: if_splits)
  let ?f = "take n (drop off bs)"
  have w: "w = le_word ?f" using assms(1) len by (simp add: le_get_def go_slice_def)
  have "take n (drop off (bs[i := x])) = ?f[i - off := x]"
    using assms(3,4) len by (simp add: drop_update_swap take_update_swap)
  then have get: "le_get n (bs[i := x]) (int off) = Inr (le_word (?f[i - off := x]) :: 'a word)"
    using len by (simp add: le_get_def go_slice_def)
  have "(le_word (?f[i - off := x]) :: 'a word) \<noteq> le_word ?f"
    using assms(2-5) len by (intro le_word_update) auto
  with get w show ?thesis by blast
qed

lemma le_get_update_other:
  assumes "\<not> (off \<le> i \<and> i < off + n)"
  shows "le_get n (bs[i := x]) (int off) = le_get n bs (int off)"
  using assms by (auto simp: le_get_def go_slice_def drop_update_swap take_update_cancel)

lemma DecodeKVBatch_corrupt:
  assumes dec: "DecodeKVBatch bs = Inr b" and i: "i < length bs" "x \<noteq> bs ! i"
  shows "DecodeKVBatch (bs[i := x]) = Inl ErrMalformedRecordBatch"
proof -
  from dec obtain len crc tail where hdr: "28 \<le> length bs" "int (length bs) \<le> maxRowBytes"
    and magic: "bs ! 4 = 0" and len: "le_get 4 bs (int 0) = Inr (len :: 32 word)"
      "uint len = int (length bs) - 4"
    and crc: "le_get 4 bs (int 5) = Inr crc" and tail: "tail = drop 9 bs" and sum: "crc = Checksum tail"
    by (auto simp: DecodeKVBatch_def kvBatchHeaderSize_def go_index_def go_slice_def split: if_splits)
  let ?bs = "bs[i := x]"
  have slice: "go_slice ?bs 9 (int (length ?bs)) = Inr (drop 9 ?bs)"
    using hdr by (simp add: go_slice_def)
  have idx: "go_index ?bs 4 = Inr (?bs ! 4)" using hdr by (simp add: go_index_def)
  obtain len' crc' where get: "le_get 4 ?bs (int 0) = Inr (len' :: 32 word)" "le_get 4 ?bs (int 5) = Inr (crc' :: 32 word)"
    using hdr by (simp add: le_get_def go_slice_def)
  consider "i < 4" | "i = 4" | "5 \<le> i" "i < 9" | "9 \<le> i" by linarith
  then have "?bs ! 4 \<noteq> 0 \<or> uint len' \<noteq> int (length ?bs) - 4 \<or> crc' \<noteq> Checksum (drop 9 ?bs)"
  proof cases
    case 1
    then have "len' \<noteq> len" using le_get_update [OF len(1), of i x] i get(1) by auto
    then show ?thesis using len(2) by (simp add: word_uint_eq_iff)
  next
    case 2
    then show ?thesis using i magic hdr by simp
  next
    case 3
    then have "crc' \<noteq> crc" using le_get_update [OF crc, of i x] i get(2) by auto
    then show ?thesis using 3 sum tail by simp
  next
    case 4
    then have "crc' = crc" using le_get_update_other [where 'a = 32, of 5 i 4 bs x] crc get(2) by simp
    moreover have "drop 9 ?bs = (drop 9 bs)[i - 9 := x]" using 4 by (simp add: drop_update_swap)
    moreover have "Checksum ((drop 9 bs)[i - 9 := x]) \<noteq> Checksum (drop 9 bs)"
      using 4 i by (intro Checksum_update) auto
    ultimately show ?thesis using sum tail by simp
  qed
  then show ?thesis
    using hdr get slice idx
    by (auto simp: DecodeKVBatch_def kvBatchHeaderSize_def guardE_def)
qed

section \<open>Log batches\<close>

lemma go_set_block: "off = int (length xs) \<Longrightarrow> go_set (xs @ y # zs) off v = Inr (xs @ v # zs)"
  by (simp add: go_set_def)

definition logTail :: "log_batch \<Rightarrow> bytes \<Rightarrow> bytes" where
  "logTail b body = le_bytes 2 (SchemaID b) @ (if AppendOnly b then 1 else 0)
     # le_bytes 4 (of_nat (length (Records b) - 1) :: 32 word) @ le_bytes 8 (WriterID b)
     @ le_bytes 4 (BatchSequence b) @ le_bytes 4 (of_nat (length (Records b)) :: 32 word) @ body"

definition logEpoch :: "log_batch \<Rightarrow> bytes" where
  "logEpoch b = (if Magic b = 1 then le_bytes 4 (LeaderEpoch b) else [])"

definition logLayout :: "log_batch \<Rightarrow> 32 word \<Rightarrow> 32 word \<Rightarrow> bytes \<Rightarrow> bytes" where
  "logLayout b len crc tail = le_bytes 8 (BaseOffset b) @ le_bytes 4 len @ Magic b
     # le_bytes 8 (CommitTime b) @ logEpoch b @ le_bytes 4 crc @ tail"

lemma length_logTail [simp]: "length (logTail b body) = 23 + length body"
  by (simp add: logTail_def)

lemma length_logEpoch: "length (logEpoch b) = (if Magic b = 1 then 4 else 0)"
  by (simp add: logEpoch_def)

lemma length_logLayout [simp]:
  "length (logLayout b len crc tail) = (if Magic b = 1 then 29 else 25) + length tail"
  by (simp add: logLayout_def length_logEpoch)

definition crcOffset :: "log_batch \<Rightarrow> int" where
  "crcOffset b = (if Magic b = 1 then 25 else 21)"

definition schemaOffset :: "log_batch \<Rightarrow> int" where
  "schemaOffset b = (if Magic b = 1 then 29 else 25)"

text \<open>The header, field by field.\<close>

lemma log_front:
  assumes "Magic b = 0 \<or> Magic b = 1"
  shows "andThen (le_put 8 (replicate (if Magic b = 1 then logBatchV1HeaderSize else logBatchV0HeaderSize) 0) 0 (BaseOffset b)) (\<lambda>e.
     andThen (go_set e 12 (Magic b)) (\<lambda>e.
     andThen (le_put 8 e 13 (CommitTime b)) (\<lambda>e.
     andThen (if Magic b = 1 then le_put 4 e 21 (LeaderEpoch b) else Inr e) f)))
   = f (logLayout b 0 0 (replicate 23 0))"
proof -
  let ?ep = "replicate (if Magic b = 1 then 4 else 0) (0 :: byte)"
  let ?t = "replicate 4 (0 :: byte) @ replicate 23 0"
  have z: "replicate (if Magic b = 1 then logBatchV1HeaderSize else logBatchV0HeaderSize) (0 :: byte)
      = replicate 8 0 @ replicate 4 0 @ 0 # replicate 8 0 @ ?ep @ ?t"
    by (simp add: logBatchV0HeaderSize_def logBatchV1HeaderSize_def numeral_eq_Suc)
  note p1 = le_put_block [of 0 "[]" "replicate 8 0" 8 "replicate 4 0 @ 0 # replicate 8 0 @ ?ep @ ?t" "BaseOffset b"]
  note p2 = go_set_block [of 12 "le_bytes 8 (BaseOffset b) @ replicate 4 0" 0 "replicate 8 0 @ ?ep @ ?t" "Magic b"]
  note p3 = le_put_block [of 13 "le_bytes 8 (BaseOffset b) @ replicate 4 0 @ [Magic b]" "replicate 8 0" 8 "?ep @ ?t" "CommitTime b"]
  note p4 = le_put_block [of 21 "le_bytes 8 (BaseOffset b) @ replicate 4 0 @ [Magic b] @ le_bytes 8 (CommitTime b)"
      "replicate 4 0" 4 ?t "LeaderEpoch b"]
  have l: "logLayout b 0 0 (replicate 23 0) = le_bytes 8 (BaseOffset b) @ replicate 4 0 @ Magic b
     # le_bytes 8 (CommitTime b) @ logEpoch b @ ?t"
    by (simp add: logLayout_def le_bytes_zero)
  show ?thesis
    using p1 p2 p3 p4 unfolding z l by (cases "Magic b = 1") (simp_all add: logEpoch_def)
qed

lemma log_back:
  assumes "Magic b = 0 \<or> Magic b = 1"
  shows "andThen (le_put 2 (logLayout b 0 0 (replicate 23 0)) (schemaOffset b) (SchemaID b)) (\<lambda>e.
     andThen (if AppendOnly b then go_set e (schemaOffset b + 2) 1 else Inr e) (\<lambda>e.
     andThen (if Records b \<noteq> []
              then le_put 4 e (schemaOffset b + 3) (of_nat (length (Records b) - 1) :: 32 word)
              else Inr e) (\<lambda>e.
     andThen (le_put 8 e (schemaOffset b + 3 + 4) (WriterID b)) (\<lambda>e.
     andThen (le_put 4 e (schemaOffset b + 3 + 12) (BatchSequence b)) (\<lambda>e.
     andThen (le_put 4 e (schemaOffset b + 3 + 16) (of_nat (length (Records b)) :: 32 word)) f)))))
   = f (logLayout b 0 0 (logTail b []))"
proof -
  let ?a = "if AppendOnly b then 1 else 0 :: byte"
  let ?l = "of_nat (length (Records b) - 1) :: 32 word"
  obtain h where h: "int (length h) = schemaOffset b" and app: "\<And>t. logLayout b 0 0 t = h @ t"
  proof
    show "int (length (logLayout b 0 0 [])) = schemaOffset b" by (simp add: schemaOffset_def)
    show "logLayout b 0 0 t = logLayout b 0 0 [] @ t" for t by (simp add: logLayout_def)
  qed
  have z: "replicate 23 (0 :: byte) = replicate 2 0 @ 0 # replicate 4 0 @ replicate 8 0 @ replicate 4 0 @ replicate 4 0"
    by (simp add: numeral_eq_Suc)
  note p1 = le_put_block [of "schemaOffset b" h "replicate 2 0" 2
      "0 # replicate 4 0 @ replicate 8 0 @ replicate 4 0 @ replicate 4 0" "SchemaID b"]
  note p2 = go_set_block [of "schemaOffset b + 2" "h @ le_bytes 2 (SchemaID b)" 0
      "replicate 4 0 @ replicate 8 0 @ replicate 4 0 @ replicate 4 0" 1]
  note p3 = le_put_block [of "schemaOffset b + 3" "h @ le_bytes 2 (SchemaID b) @ [?a]" "replicate 4 0" 4
      "replicate 8 0 @ replicate 4 0 @ replicate 4 0" ?l]
  note p4 = le_put_block [of "schemaOffset b + 3 + 4" "h @ le_bytes 2 (SchemaID b) @ [?a] @ le_bytes 4 ?l" "replicate 8 0" 8
      "replicate 4 0 @ replicate 4 0" "WriterID b"]
  note p5 = le_put_block [of "schemaOffset b + 3 + 12" "h @ le_bytes 2 (SchemaID b) @ [?a] @ le_bytes 4 ?l
      @ le_bytes 8 (WriterID b)" "replicate 4 0" 4 "replicate 4 0" "BatchSequence b"]
  note p6 = le_put_block [of "schemaOffset b + 3 + 16" "h @ le_bytes 2 (SchemaID b) @ [?a] @ le_bytes 4 ?l
      @ le_bytes 8 (WriterID b) @ le_bytes 4 (BatchSequence b)" "replicate 4 0" 4 "[]"
      "of_nat (length (Records b)) :: 32 word"]
  show ?thesis
    using p1 p2 p3 p4 p5 p6 h
    unfolding app z logTail_def
    by (cases "AppendOnly b"; cases "Records b = []") (simp_all add: le_bytes_zero)
qed

definition logRecordBytes :: "schema \<Rightarrow> bool \<Rightarrow> go_record \<Rightarrow> bytes \<Rightarrow> bool" where
  "logRecordBytes s compacted r bs \<longleftrightarrow> ChangeType_Validate (recChange r) = Inr () \<and>
     (\<exists>row. encodeRow s (recValue r) (if compacted then CompactedEncoding else IndexedEncoding) = Inr row
        \<and> bs = le_bytes 4 (of_nat (1 + length row) :: 32 word) @ [recChange r] @ row)"

lemma appendLogRecords_Inr_D:
  "appendLogRecords s compacted encoded rs = Inr e \<Longrightarrow>
   \<exists>parts. list_all2 (logRecordBytes s compacted) rs parts \<and> e = encoded @ concat parts"
proof (induction rs arbitrary: encoded)
  case (Cons r rs)
  from Cons.prems obtain e' where r: "appendLogRecord s compacted encoded r = Inr e'"
    and rest: "appendLogRecords s compacted e' rs = Inr e" by auto
  from r obtain p where "logRecordBytes s compacted r p" "e' = encoded @ p"
    by (cases compacted)
      (auto simp: appendLogRecord_def logRecordBytes_def EncodeCompactedRow_def EncodeIndexedRow_def)
  moreover from Cons.IH [OF rest] obtain parts where
    "list_all2 (logRecordBytes s compacted) rs parts" "e = e' @ concat parts" by blast
  ultimately show ?case by (intro exI [of _ "p # parts"]) simp
qed simp

text \<open>The length and the checksum are written last, over the complete batch.\<close>

lemma log_seal:
  fixes b :: log_batch and t :: bytes
  defines "n \<equiv> word_of_int (int (length (logLayout b 0 0 t)) - 12) :: 32 word"
  shows "andThen (le_put 4 (logLayout b 0 0 t) 8 n) (\<lambda>e.
     andThen (go_slice e (schemaOffset b) (int (length e))) (\<lambda>tail. le_put 4 e (crcOffset b) (Checksum tail)))
   = Inr (logLayout b n (Checksum t) t)"
proof -
  have 1: "le_put 4 (logLayout b 0 0 t) 8 n = Inr (logLayout b n 0 t)"
    using le_put_block [of 8 "le_bytes 8 (BaseOffset b)" "le_bytes 4 (0 :: 32 word)" 4
        "Magic b # le_bytes 8 (CommitTime b) @ logEpoch b @ le_bytes 4 (0 :: 32 word) @ t" n]
    by (simp add: logLayout_def)
  have 2: "go_slice (logLayout b n 0 t) (schemaOffset b) (int (length (logLayout b n 0 t))) = Inr t"
    by (simp add: go_slice_def logLayout_def schemaOffset_def length_logEpoch)
  have 3: "le_put 4 (logLayout b n 0 t) (crcOffset b) (Checksum t) = Inr (logLayout b n (Checksum t) t)"
    using le_put_block [of "crcOffset b" "le_bytes 8 (BaseOffset b) @ le_bytes 4 n @ Magic b
        # le_bytes 8 (CommitTime b) @ logEpoch b" "le_bytes 4 (0 :: 32 word)" 4 t "Checksum t"]
    by (cases "Magic b = 1") (simp_all add: logLayout_def crcOffset_def length_logEpoch)
  show ?thesis unfolding 1 2 3 andThen_simps ..
qed

lemma EncodeRows_layout:
  assumes "EncodeRows b s compacted = Inr bytes"
  obtains parts where "Magic b = 0 \<or> Magic b = 1"
    "list_all2 (logRecordBytes s compacted) (Records b) parts"
    "bytes = logLayout b (word_of_int (int (length bytes) - 12)) (Checksum (logTail b (concat parts)))
       (logTail b (concat parts))"
proof -
  have magic: "Magic b = 0 \<or> Magic b = 1" using assms by (auto simp: EncodeRows_def)
  from assms obtain e where
    recs: "appendLogRecords s compacted (logLayout b 0 0 (logTail b [])) (Records b) = Inr e"
    and seal: "andThen (le_put 4 e 8 (word_of_int (int (length e) - 12) :: 32 word)) (\<lambda>e.
       andThen (go_slice e (schemaOffset b) (int (length e))) (\<lambda>tail. le_put 4 e (crcOffset b) (Checksum tail)))
     = Inr bytes"
    unfolding EncodeRows_def Let_def schemaOffset_def [symmetric] crcOffset_def [symmetric]
      log_front [OF magic] log_back [OF magic] by auto
  from appendLogRecords_Inr_D [OF recs] obtain parts where
    parts: "list_all2 (logRecordBytes s compacted) (Records b) parts"
    and e: "e = logLayout b 0 0 (logTail b []) @ concat parts" by blast
  let ?t = "logTail b (concat parts)"
  have e': "e = logLayout b 0 0 ?t" by (simp add: e logLayout_def logTail_def)
  have bytes: "bytes = logLayout b (word_of_int (int (length e) - 12)) (Checksum ?t) ?t"
    using seal unfolding e' log_seal by simp
  have "length bytes = length e" by (simp add: bytes e')
  with bytes parts magic show thesis by (intro that) simp_all
qed

definition rowLayout :: "bool \<Rightarrow> row_encoding" where
  "rowLayout compacted = (if compacted then CompactedEncoding else IndexedEncoding)"

text \<open>What a decoded log record carries: the row, the change, the offset from the base offset and
  the commit time; the key, the offset and the time of the encoded record are not in the bytes.\<close>

definition logRecordAt :: "(int \<Rightarrow> int) \<Rightarrow> schema \<Rightarrow> bool \<Rightarrow> log_batch \<Rightarrow> nat \<Rightarrow> go_record \<Rightarrow> go_record" where
  "logRecordAt localOffset s compacted batch index r =
     \<lparr>recKey = [], recValue = canonRow (rowLayout compacted) (Columns s) (recValue r),
      recChange = recChange r, recTimestamp = UnixMilli localOffset (CommitTime batch),
      recOffset = BaseOffset batch + of_nat index\<rparr>"

lemma length_logRecordBytes: "logRecordBytes s compacted r bs \<Longrightarrow> 5 \<le> length bs"
  by (auto simp: logRecordBytes_def)

lemma decodeLogRecord_append:
  assumes bs: "logRecordBytes s compacted r bs" and wf: "\<forall>v \<in> set (recValue r). wfValue v"
    and max: "int (length bs) \<le> maxRowBytes"
  shows "decodeLogRecord localOffset s batch (pre @ bs @ suf) (int (length pre)) index compacted
    = Inr (logRecordAt localOffset s compacted batch index r, int (length pre + length bs))"
proof -
  from bs obtain row where change: "ChangeType_Validate (recChange r) = Inr ()"
    and row: "encodeRow s (recValue r) (rowLayout compacted) = Inr row"
    and b: "bs = le_bytes 4 (of_nat (1 + length row) :: 32 word) @ [recChange r] @ row"
    by (auto simp: logRecordBytes_def rowLayout_def)
  let ?enc = "pre @ bs @ suf" let ?p = "int (length pre) + 4"
  have len: "int (1 + length row) \<le> maxRowBytes" "int (length row) \<le> maxRowBytes"
    using max b by simp_all
  have dec: "(if compacted then DecodeCompactedRow s row else DecodeIndexedRow s row)
      = Inr (canonRow (rowLayout compacted) (Columns s) (recValue r))"
    using decodeRow_encodeRow [OF wf row len(2)]
    by (cases compacted) (simp_all add: DecodeCompactedRow_def DecodeIndexedRow_def rowLayout_def)
  have get: "le_get 4 ?enc (int (length pre)) = Inr (of_nat (1 + length row) :: 32 word)"
    unfolding b by (simp add: codec_rt del: of_nat_Suc of_nat_add)
  have idx: "go_index ?enc ?p = Inr (recChange r)"
    using go_index_append [of "pre @ le_bytes 4 (of_nat (1 + length row) :: 32 word)" "recChange r" "row @ suf"]
    by (simp add: b)
  have slice: "go_slice ?enc (?p + 1) (?p + int (1 + length row)) = Inr row"
    using go_slice_append [of "int (length row)" row
        "pre @ le_bytes 4 (of_nat (1 + length row) :: 32 word) @ [recChange r]" suf]
    by (simp add: b algebra_simps)
  show ?thesis
    unfolding decodeLogRecord_def Let_def get andThen_simps uint_of_nat_count(1) [OF len(1)]
      idx change rewrap_simps slice dec
    by (simp add: b logRecordAt_def)
qed

lemma decodeLogRecords_append:
  assumes "list_all2 (logRecordBytes s compacted) rs parts"
    "\<forall>r \<in> set rs. \<forall>v \<in> set (recValue r). wfValue v" "int (length (concat parts)) \<le> maxRowBytes"
  shows "decodeLogRecords localOffset s batch (pre @ concat parts) compacted index (length rs) (int (length pre))
    = Inr (map (\<lambda>(i, r). logRecordAt localOffset s compacted batch i r) (zip [index..<index + length rs] rs),
           int (length pre + length (concat parts)))"
  using assms
proof (induction rs parts arbitrary: pre index)
  case (Cons r rs p parts)
  have "decodeLogRecord localOffset s batch (pre @ p @ concat parts) (int (length pre)) index compacted
      = Inr (logRecordAt localOffset s compacted batch index r, int (length (pre @ p)))"
    using Cons.hyps Cons.prems by (simp add: decodeLogRecord_append)
  moreover have "decodeLogRecords localOffset s batch ((pre @ p) @ concat parts) compacted (Suc index)
        (length rs) (int (length (pre @ p)))
      = Inr (map (\<lambda>(i, r). logRecordAt localOffset s compacted batch i r)
          (zip [Suc index..<Suc index + length rs] rs), int (length (pre @ p) + length (concat parts)))"
    using Cons.prems by (intro Cons.IH) simp_all
  moreover have "[index..<index + length (r # rs)] = index # [Suc index..<Suc index + length rs]"
    by (subst upt_conv_Cons) simp_all
  ultimately show ?case by simp
qed simp

lemma log_fields:
  fixes len crc :: "32 word" and body :: bytes and b :: log_batch
  assumes magic: "Magic b = 0 \<or> Magic b = 1" and layout: "bs = logLayout b len crc (logTail b body)"
  defines "so \<equiv> schemaOffset b"
  shows "le_get 8 bs 0 = Inr (BaseOffset b)" "le_get 4 bs 8 = Inr len" "go_index bs 12 = Inr (Magic b)"
    "le_get 8 bs 13 = Inr (CommitTime b)"
    "(if Magic b = 1 then le_get 4 bs 21 else Inr 0) = Inr (if Magic b = 1 then LeaderEpoch b else 0)"
    "le_get 4 bs (crcOffset b) = Inr crc"
    "go_slice bs so (int (length bs)) = Inr (logTail b body)"
    "le_get 2 bs so = Inr (SchemaID b)" "go_index bs (so + 2) = Inr (if AppendOnly b then 1 else 0)"
    "le_get 8 bs (so + 3 + 4) = Inr (WriterID b)" "le_get 4 bs (so + 3 + 12) = Inr (BatchSequence b)"
    "le_get 4 bs (so + 3 + 16) = Inr (of_nat (length (Records b)) :: 32 word)"
proof -
  let ?front = "le_bytes 8 (BaseOffset b) @ le_bytes 4 len @ [Magic b] @ le_bytes 8 (CommitTime b)"
  let ?h = "?front @ logEpoch b @ le_bytes 4 crc"
  let ?a = "if AppendOnly b then 1 else 0 :: byte"
  let ?l = "of_nat (length (Records b) - 1) :: 32 word"
  have h: "int (length ?h) = so" by (simp add: so_def schemaOffset_def length_logEpoch)
  have front: "bs = ?front @ logEpoch b @ le_bytes 4 crc @ logTail b body"
    by (simp add: layout logLayout_def)
  obtain h x where h': "int (length h) = so" and x: "x = ?a"
    and bs: "bs = h @ le_bytes 2 (SchemaID b) @ [x] @ le_bytes 4 ?l @ le_bytes 8 (WriterID b)
      @ le_bytes 4 (BatchSequence b) @ le_bytes 4 (of_nat (length (Records b)) :: 32 word) @ body"
    using h by (intro that [of ?h ?a]) (simp_all add: front logTail_def)
  show "le_get 8 bs 0 = Inr (BaseOffset b)" unfolding front by (simp add: codec_rt)
  show "le_get 4 bs 8 = Inr len"
    using le_get_block [of 8 "le_bytes 8 (BaseOffset b)" 4 len] unfolding front by simp
  show "go_index bs 12 = Inr (Magic b)"
    using go_index_append [of "le_bytes 8 (BaseOffset b) @ le_bytes 4 len" "Magic b"] unfolding front by simp
  show "le_get 8 bs 13 = Inr (CommitTime b)"
    using le_get_block [of 13 "le_bytes 8 (BaseOffset b) @ le_bytes 4 len @ [Magic b]" 8 "CommitTime b"]
    unfolding front by simp
  show "(if Magic b = 1 then le_get 4 bs 21 else Inr 0) = Inr (if Magic b = 1 then LeaderEpoch b else 0)"
    using le_get_block [of 21 ?front 4 "LeaderEpoch b"] unfolding front logEpoch_def
    by (cases "Magic b = 1") simp_all
  show "le_get 4 bs (crcOffset b) = Inr crc"
    using le_get_block [of "crcOffset b" "?front @ logEpoch b" 4 crc] unfolding front
    by (cases "Magic b = 1") (simp_all add: crcOffset_def length_logEpoch)
  show "go_slice bs so (int (length bs)) = Inr (logTail b body)"
    using go_slice_append [of "int (length (logTail b body))" "logTail b body" ?h "[]"]
    unfolding h by (simp add: front h [symmetric])
  let ?t = "h @ le_bytes 2 (SchemaID b) @ [x] @ le_bytes 4 ?l"
  show "le_get 2 bs so = Inr (SchemaID b)"
    using le_get_block [of so h 2 "SchemaID b"] h' unfolding bs by simp
  show "go_index bs (so + 2) = Inr ?a"
    using go_index_append [of "h @ le_bytes 2 (SchemaID b)" x] h' unfolding bs x [symmetric]
    by (simp add: add.commute)
  show "le_get 8 bs (so + 3 + 4) = Inr (WriterID b)"
    using le_get_block [of "so + 3 + 4" ?t 8 "WriterID b"] h' unfolding bs by simp
  show "le_get 4 bs (so + 3 + 12) = Inr (BatchSequence b)"
    using le_get_block [of "so + 3 + 12" "?t @ le_bytes 8 (WriterID b)" 4 "BatchSequence b"] h'
    unfolding bs by simp
  show "le_get 4 bs (so + 3 + 16) = Inr (of_nat (length (Records b)) :: 32 word)"
    using le_get_block [of "so + 3 + 16" "?t @ le_bytes 8 (WriterID b) @ le_bytes 4 (BatchSequence b)"
        4 "of_nat (length (Records b)) :: 32 word"] h'
    unfolding bs by simp
qed

lemma logBatchHeader_layout:
  assumes magic: "Magic b = 0 \<or> Magic b = 1"
    and bytes: "bytes = logLayout b (word_of_int (int (length bytes) - 12))
      (Checksum (logTail b body)) (logTail b body)"
    and max: "int (length bytes) \<le> maxRowBytes"
  shows "logBatchHeader bytes = Inr (Magic b, schemaOffset b + 23, schemaOffset b)"
proof -
  let ?n = "word_of_int (int (length bytes) - 12) :: 32 word"
  have len: "length bytes = (if Magic b = 1 then 52 else 48) + length body"
    using arg_cong [OF bytes, of length] by simp
  have ulen: "uint ?n = int (length bytes) - 12"
    using max len by (intro uint_of_int_count) simp_all
  note fields = log_fields [OF magic bytes]
  have hs: "int (if Magic b = 1 then logBatchV1HeaderSize else logBatchV0HeaderSize) = schemaOffset b + 23"
    by (simp add: logBatchV0HeaderSize_def logBatchV1HeaderSize_def schemaOffset_def)
  have "\<not> length bytes < 13" "\<not> int (length bytes) < schemaOffset b + 23"
    using len by (simp_all add: schemaOffset_def)
  then show ?thesis
    unfolding logBatchHeader_def Let_def fields(3) andThen_simps schemaOffset_def [symmetric]
      crcOffset_def [symmetric] fields(2,6,7) ulen hs
    using magic max by auto
qed

lemma length_logParts:
  "list_all2 (logRecordBytes s compacted) rs parts \<Longrightarrow> 5 * length rs \<le> length (concat parts)"
proof (induction rs parts rule: list_all2_induct)
  case (Cons r rs p ps)
  then show ?case using length_logRecordBytes [of s compacted r p] by simp
qed simp

lemma DecodeLogBatchRows_EncodeRows:
  assumes enc: "EncodeRows b s compacted = Inr bytes"
    and wf: "\<forall>r \<in> set (Records b). \<forall>v \<in> set (recValue r). wfValue v"
    and max: "int (length bytes) \<le> maxRowBytes"
  shows "DecodeLogBatchRows localOffset s bytes compacted
    = Inr (b\<lparr>LeaderEpoch := (if Magic b = 1 then LeaderEpoch b else 0),
            Records := map (\<lambda>(i, r). logRecordAt localOffset s compacted b i r)
              (zip [0..<length (Records b)] (Records b))\<rparr>)"
proof -
  obtain parts where magic: "Magic b = 0 \<or> Magic b = 1"
    and parts: "list_all2 (logRecordBytes s compacted) (Records b) parts"
    and bytes: "bytes = logLayout b (word_of_int (int (length bytes) - 12))
      (Checksum (logTail b (concat parts))) (logTail b (concat parts))"
    using EncodeRows_layout [OF enc] by metis
  let ?body = "concat parts" let ?n = "length (Records b)"
  let ?batch = "\<lparr>Magic = Magic b, BaseOffset = BaseOffset b, CommitTime = CommitTime b,
      LeaderEpoch = (if Magic b = 1 then LeaderEpoch b else 0), SchemaID = SchemaID b,
      AppendOnly = AppendOnly b, WriterID = WriterID b, BatchSequence = BatchSequence b, Records = []\<rparr>"
  note fields = log_fields [OF magic bytes]
  have len: "int (length bytes) = schemaOffset b + 23 + int (length ?body)"
    using arg_cong [OF bytes, of length] by (simp add: schemaOffset_def)
  have so: "0 \<le> schemaOffset b" by (simp add: schemaOffset_def)
  have five: "5 * ?n \<le> length ?body" by (rule length_logParts [OF parts])
  have cnt: "uint (of_nat ?n :: 32 word) = int ?n" "unat (of_nat ?n :: 32 word) = ?n"
    using five max len so by (intro uint_of_nat_count; simp)+
  obtain pre where pre: "int (length pre) = schemaOffset b + 23" "bytes = pre @ ?body"
  proof
    let ?pre = "logLayout b (word_of_int (int (length bytes) - 12)) (Checksum (logTail b ?body)) (logTail b [])"
    show "int (length ?pre) = schemaOffset b + 23" by (simp add: schemaOffset_def)
    show "bytes = ?pre @ ?body" using bytes by (simp add: logLayout_def logTail_def)
  qed
  have "int (length ?body) \<le> maxRowBytes" using max len so by simp
  from decodeLogRecords_append [OF parts wf this, of localOffset ?batch pre 0]
  have dec: "decodeLogRecords localOffset s ?batch bytes compacted 0 ?n (schemaOffset b + 23)
      = Inr (map (\<lambda>(i, r). logRecordAt localOffset s compacted b i r) (zip [0..<?n] (Records b)),
             int (length bytes))"
    unfolding pre(1) [symmetric] using pre(2) by (simp add: logRecordAt_def)
  have lim: "\<not> int ?n > (int (length bytes) - (schemaOffset b + 23)) div 5" using five len by simp
  have attr: "((if AppendOnly b then 1 else 0 :: byte) AND 1 \<noteq> 0) = AppendOnly b" by simp
  show ?thesis
    unfolding DecodeLogBatchRows_def logBatchHeader_layout [OF magic bytes max] andThen_simps
      prod.case Let_def fields cnt attr
    using lim dec by (cases b) simp
qed


text \<open>A changed byte in the length, the checksum or the checksummed part is noticed.\<close>

lemma logBatchHeader_corrupt:
  assumes hdr: "logBatchHeader bs = Inr (magic, hs, so)" and i: "i < length bs" "x \<noteq> bs ! i"
    and place: "8 \<le> i \<and> i < 12 \<or> so \<le> int i + 4"
  shows "logBatchHeader (bs[i := x]) = Inl ErrMalformedRecordBatch"
proof -
  let ?bs = "bs[i := x]"
  from hdr obtain len where len13: "\<not> length bs < 13" "\<not> int (length bs) > maxRowBytes"
    and magic: "magic = bs ! 12" "magic = 0 \<or> magic = 1" and so: "so = (if magic = 1 then 29 else 25)"
    and hs: "hs = int (if magic = 1 then logBatchV1HeaderSize else logBatchV0HeaderSize)"
    and size: "hs \<le> int (length bs)"
    and len: "le_get 4 bs (int 8) = Inr (len :: 32 word)" "uint len = int (length bs) - 12"
    and crc: "le_get 4 bs (int (nat (so - 4))) = Inr (Checksum (drop (nat so) bs))"
    by (auto simp: logBatchHeader_def Let_def go_index_def go_slice_def split: if_splits)
  have so48: "so + 19 \<le> int (length bs)" "25 \<le> so"
    using size by (auto simp: so hs logBatchV0HeaderSize_def logBatchV1HeaderSize_def split: if_splits)
  have "i \<noteq> 12" using place so48(2) by auto
  then have magic': "?bs ! 12 = magic" using magic by simp
  have idx: "go_index ?bs 12 = Inr magic" using len13 magic' by (simp add: go_index_def)
  have slice: "go_slice ?bs so (int (length ?bs)) = Inr (drop (nat so) ?bs)"
    using so48 by (simp add: go_slice_def)
  obtain len' crc' where get: "le_get 4 ?bs (int 8) = Inr (len' :: 32 word)"
      "le_get 4 ?bs (int (nat (so - 4))) = Inr (crc' :: 32 word)"
    using len13 so48 by (simp add: le_get_def go_slice_def)
  consider "8 \<le> i" "i < 12" | "so \<le> int i + 4" "int i < so" | "so \<le> int i" using place by linarith
  then have bad: "uint len' \<noteq> int (length bs) - 12 \<or> crc' \<noteq> Checksum (drop (nat so) ?bs)"
  proof cases
    case 1
    then have "len' \<noteq> len" using le_get_update [OF len(1), of i x] i get(1) by auto
    then show ?thesis using len(2) by (simp add: word_uint_eq_iff)
  next
    case 2
    then have "crc' \<noteq> Checksum (drop (nat so) bs)"
      using le_get_update [OF crc, of i x] i get(2) so48 by auto
    moreover have "drop (nat so) ?bs = drop (nat so) bs" using 2 by (simp add: nat_less_iff)
    ultimately show ?thesis by simp
  next
    case 3
    have "\<not> (nat (so - 4) \<le> i \<and> i < nat (so - 4) + 4)" using 3 so48(2) by arith
    then have "crc' = Checksum (drop (nat so) bs)"
      using le_get_update_other [where 'a = 32, of "nat (so - 4)" i 4 bs x] crc get(2) by simp
    moreover have "drop (nat so) ?bs = (drop (nat so) bs)[i - nat so := x]"
      using 3 by (simp add: drop_update_swap nat_le_iff)
    moreover have "Checksum ((drop (nat so) bs)[i - nat so := x]) \<noteq> Checksum (drop (nat so) bs)"
      using 3 i so48 by (intro Checksum_update) auto
    ultimately show ?thesis by simp
  qed
  have crcOff: "(if magic = 1 then 25 else 21) = so - 4" by (simp add: so)
  have get': "le_get 4 ?bs 8 = Inr len'" "le_get 4 ?bs (so - 4) = Inr crc'" using get so48 by simp_all
  show ?thesis
    unfolding logBatchHeader_def Let_def idx andThen_simps hs [symmetric] crcOff so [symmetric] slice get'
    using bad len13 magic size by (auto simp: guardE_def)
qed

section \<open>Properties\<close>

definition exKV :: kv_batch where
  "exKV = \<lparr>kvSchemaID = 9, kvWriterID = 7, kvSequence = 13,
     kvRecords = [\<lparr>kvKey = [42], kvValue = Some [1, 2]\<rparr>, \<lparr>kvKey = [43], kvValue = None\<rparr>]\<rparr>"

definition exLog :: log_batch where
  "exLog = \<lparr>Magic = 1, BaseOffset = 100, CommitTime = 5000, LeaderEpoch = 3, SchemaID = 9,
     AppendOnly = False, WriterID = 7, BatchSequence = 13,
     Records = [\<lparr>recKey = [], recValue = exRow, recChange = UpdateAfter,
       recTimestamp = timeUnix 0 0, recOffset = 0\<rparr>]\<rparr>"

text \<open>Both encode; the checksum stays symbolic.\<close>

lemma exKV_encode: "\<exists>bytes. KVBatch_Encode exKV = Inr bytes \<and> length bytes = 42"
proof -
  have v: "appendVar32 [] (1 :: 32 word) = [1]" by code_simp
  have "appendKVRecords e (kvRecords exKV)
      = Inr (e @ le_bytes 4 (4 :: 32 word) @ [1, 42, 1, 2] @ le_bytes 4 (2 :: 32 word) @ [1, 43])"
    if "length e < 100" for e
    using that by (simp add: exKV_def appendKVRecord_def valueBytes_def Let_def v maxRowBytes_def)
  then show ?thesis
    unfolding KVBatch_Encode_def kv_header
    by (simp add: le_put_def go_slice_def) (simp add: exKV_def)
qed

lemma exLog_encode: "\<exists>bytes. EncodeRows exLog exSchema True = Inr bytes \<and> length bytes = 85"
proof -
  let ?row = "[2, 172, 2, 24, 2, 0, 0, 0, 2, 0, 0, 0, 97, 98, 0, 0, 0, 0, 0, 130, 0, 0, 0, 0, 0, 0, 0, 0] :: bytes"
  have row: "EncodeCompactedRow exSchema exRow = Inr ?row" by code_simp
  have change: "ChangeType_Validate UpdateAfter = Inr ()" by code_simp
  have magic: "Magic exLog = 0 \<or> Magic exLog = 1" "Magic exLog = 1" by (simp_all add: exLog_def)
  have "appendLogRecords exSchema True e (Records exLog)
      = Inr (e @ le_bytes 4 (29 :: 32 word) @ [UpdateAfter] @ ?row)" for e
    by (simp add: exLog_def appendLogRecord_def row change)
  then show ?thesis
    unfolding EncodeRows_def Let_def schemaOffset_def [symmetric] crcOffset_def [symmetric]
      log_front [OF magic(1)] log_back [OF magic(1)]
    by (simp add: le_put_def go_slice_def magic(2) schemaOffset_def crcOffset_def)
qed

text \<open>
  A KV batch survives the wire: decoding the encoding of a batch gives the schema, the writer
  identity, the sequence and every record in order; a delete stays a delete. (An empty value is
  encoded like a nil one and comes back as a delete.)
\<close>

theorem kv_batch_roundtrip:
  assumes "KVBatch_Encode b = Inr bytes"
  shows "DecodeKVBatch bytes = Inr (b\<lparr>kvRecords := map normKV (kvRecords b)\<rparr>)"
  using assms by (rule DecodeKVBatch_Encode)

theorem kv_batch_roundtrip_witness:
  "\<exists>bytes. KVBatch_Encode exKV = Inr bytes \<and> DecodeKVBatch bytes = Inr exKV"
proof -
  obtain bytes where b: "KVBatch_Encode exKV = Inr bytes" using exKV_encode by blast
  have "exKV\<lparr>kvRecords := map normKV (kvRecords exKV)\<rparr> = exKV"
    by (simp add: exKV_def normKV_def valueBytes_def)
  with kv_batch_roundtrip [OF b] b show ?thesis by auto
qed

text \<open>
  C38. Corruption of a KV batch is detected: changing any single byte of a batch that decodes, header
  or record, makes the decoder return \<^verbatim>\<open>ErrMalformedRecordBatch\<close>.
\<close>

theorem kv_batch_corruption_rejected:
  assumes "DecodeKVBatch bs = Inr b" and "i < length bs" and "x \<noteq> bs ! i"
  shows "DecodeKVBatch (bs[i := x]) = Inl ErrMalformedRecordBatch"
  using assms by (rule DecodeKVBatch_corrupt)

theorem kv_batch_corruption_rejected_witness:
  "\<exists>bytes. KVBatch_Encode exKV = Inr bytes
     \<and> DecodeKVBatch (bytes[30 := bytes ! 30 + 1]) = Inl ErrMalformedRecordBatch"
proof -
  obtain bytes where b: "KVBatch_Encode exKV = Inr bytes" "length bytes = 42"
    using exKV_encode by blast
  have "DecodeKVBatch (bytes[30 := bytes ! 30 + 1]) = Inl ErrMalformedRecordBatch"
    by (rule kv_batch_corruption_rejected [OF DecodeKVBatch_Encode [OF b(1)]]) (simp_all add: b)
  with b show ?thesis by blast
qed

text \<open>
  C39. A log batch survives the wire, in both magics and both row layouts: the header fields and, per
  record, the row and the change type come back; offsets count up from the base offset and every
  record carries the commit time. The leader epoch exists in magic 1 only.
\<close>

theorem log_batch_roundtrip:
  assumes "EncodeRows b s compacted = Inr bytes"
    and "\<forall>r \<in> set (Records b). \<forall>v \<in> set (recValue r). wfValue v"
    and "int (length bytes) \<le> maxRowBytes"
  shows "DecodeLogBatchRows localOffset s bytes compacted
    = Inr (b\<lparr>LeaderEpoch := (if Magic b = 1 then LeaderEpoch b else 0),
            Records := map (\<lambda>(i, r). logRecordAt localOffset s compacted b i r)
              (zip [0..<length (Records b)] (Records b))\<rparr>)"
  using assms by (rule DecodeLogBatchRows_EncodeRows)

theorem log_batch_roundtrip_witness:
  "\<exists>bytes b. EncodeRows exLog exSchema True = Inr bytes
     \<and> DecodeLogBatchRows (\<lambda>_. 0) exSchema bytes True = Inr b
     \<and> BaseOffset b = 100 \<and> map recChange (Records b) = [UpdateAfter]"
proof -
  obtain bytes where b: "EncodeRows exLog exSchema True = Inr bytes" "length bytes = 85"
    using exLog_encode by blast
  have "DecodeLogBatchRows (\<lambda>_. 0) exSchema bytes True
      = Inr (exLog\<lparr>LeaderEpoch := (if Magic exLog = 1 then LeaderEpoch exLog else 0),
            Records := map (\<lambda>(i, r). logRecordAt (\<lambda>_. 0) exSchema True exLog i r)
              (zip [0..<length (Records exLog)] (Records exLog))\<rparr>)"
    by (rule log_batch_roundtrip [OF b(1)]) (simp_all add: exLog_def exRow_def b maxRowBytes_def)
  with b show ?thesis by (simp add: exLog_def logRecordAt_def)
qed

text \<open>
  Corruption of a log batch is detected where the checksum reaches: changing a byte of the length
  field, of the checksum or of anything from the schema identifier on makes the decoder return
  \<^verbatim>\<open>ErrMalformedRecordBatch\<close> before it looks at a record. (The base offset, the commit time and the
  leader epoch, which the server fills in, are outside.)
\<close>

theorem log_batch_corruption_rejected:
  assumes "logBatchHeader bs = Inr (magic, headerSize, schemaOff)" and "i < length bs" and "x \<noteq> bs ! i"
    and "8 \<le> i \<and> i < 12 \<or> schemaOff \<le> int i + 4"
  shows "DecodeLogBatchRows localOffset s (bs[i := x]) compacted = Inl ErrMalformedRecordBatch"
  using logBatchHeader_corrupt [OF assms] by (simp add: DecodeLogBatchRows_def)

theorem log_batch_corruption_rejected_witness:
  "\<exists>bytes. EncodeRows exLog exSchema True = Inr bytes
     \<and> DecodeLogBatchRows (\<lambda>_. 0) exSchema (bytes[60 := bytes ! 60 + 1]) True
         = Inl ErrMalformedRecordBatch"
proof -
  obtain bytes where b: "EncodeRows exLog exSchema True = Inr bytes" "length bytes = 85"
    using exLog_encode by blast
  obtain parts where magic: "Magic exLog = 0 \<or> Magic exLog = 1"
    and l: "bytes = logLayout exLog (word_of_int (int (length bytes) - 12))
      (Checksum (logTail exLog (concat parts))) (logTail exLog (concat parts))"
    using EncodeRows_layout [OF b(1)] by metis
  have "logBatchHeader bytes = Inr (Magic exLog, schemaOffset exLog + 23, schemaOffset exLog)"
    using b by (intro logBatchHeader_layout [OF magic l]) (simp add: maxRowBytes_def)
  then have "DecodeLogBatchRows (\<lambda>_. 0) exSchema (bytes[60 := bytes ! 60 + 1]) True
      = Inl ErrMalformedRecordBatch"
    by (rule log_batch_corruption_rejected) (simp_all add: b schemaOffset_def)
  with b show ?thesis by blast
qed

end
