(* ===== verification/Bucketing.thy ===== *)
theory Bucketing
  imports Go_Prelude "HOL-Library.Multiset"
begin

text \<open>
  Bucket assignment, \<^verbatim>\<open>pkg/fgo/bucket.go\<close>: the Murmur3 variant of Fluss on 32-bit words, the bucket of
  a key, and the sorted list of the bucket identifiers of a table.
\<close>

section \<open>The hash\<close>

text \<open>\<^verbatim>\<open>bits.RotateLeft32\<close>.\<close>

definition RotateLeft32 :: "32 word \<Rightarrow> nat \<Rightarrow> 32 word" where
  "RotateLeft32 x k = push_bit k x OR drop_bit (32 - k) x"

definition murmurMixHash :: "32 word \<Rightarrow> 32 word \<Rightarrow> 32 word" where
  "murmurMixHash hash v =
     (let v = v * 0xcc9e2d51; v = RotateLeft32 v 15; v = v * 0x1b873593;
          hash = hash XOR v; hash = RotateLeft32 hash 13
      in hash * 5 + 0xe6546b64)"

definition murmurFinal :: "32 word \<Rightarrow> 32 word" where
  "murmurFinal hash =
     (let hash = hash XOR drop_bit 16 hash; hash = hash * 0x85ebca6b;
          hash = hash XOR drop_bit 13 hash; hash = hash * 0xc2b2ae35
      in hash XOR drop_bit 16 hash)"

text \<open>The loop over whole little-endian words, then the one over the tail, whose bytes are
  sign-extended: \<^verbatim>\<open>uint32(int32(int8(tail)))\<close>.\<close>

fun murmurWords :: "bytes \<Rightarrow> 32 word \<Rightarrow> 32 word" where
  "murmurWords (a # b # c # d # rest) hash =
     murmurWords rest (murmurMixHash hash (le_word [a, b, c, d]))"
| "murmurWords _ hash = hash"

definition murmurTail :: "bytes \<Rightarrow> 32 word \<Rightarrow> 32 word" where
  "murmurTail tail hash = fold (\<lambda>b h. murmurMixHash h (scast b)) tail hash"

definition murmurBytes :: "bytes \<Rightarrow> 32 word \<Rightarrow> 32 word" where
  "murmurBytes v seed =
     (let aligned = length v - length v mod 4;
          hash = murmurTail (drop aligned v) (murmurWords (take aligned v) seed)
      in murmurFinal (hash XOR of_nat (length v)))"

definition murmurInt :: "32 word \<Rightarrow> 32 word" where
  "murmurInt v =
     (let hash = murmurFinal (murmurMixHash 0 v XOR 4)
      in if 0 \<le> sint hash then hash else if hash = 0x80000000 then 0 else - hash)"

text \<open>\<^verbatim>\<open>uint32(bucketCount)\<close> may wrap to zero for a count of \<open>2 ^ 32\<close>, and the modulus panics there.\<close>

definition flussBucket :: "bytes \<Rightarrow> int \<Rightarrow> 32 word result" where
  "flussBucket key bucketCount =
     (if key = [] \<or> bucketCount \<le> 0 then Inl ErrInvalidConfig
      else
        (let hash = murmurInt (murmurBytes key 42); n = word_of_int bucketCount :: 32 word
         in if n = 0 then Inl (Panic ''integer divide by zero'') else Inr (hash mod n)))"

section \<open>Bucket identifiers\<close>

text \<open>The keys of the bucket map in the order of its iteration; \<^verbatim>\<open>slices.Sort\<close> makes the result
  independent of it. Identifiers are \<^verbatim>\<open>int32\<close>.\<close>

definition sortedBuckets :: "int list \<Rightarrow> int list result" where
  "sortedBuckets ids =
     (if ids = [] then Inl ErrMetadata
      else if \<exists>id \<in> set ids. id < 0 then Inl ErrMetadata
      else Inr (sort ids))"

section \<open>Lemmas\<close>

lemma sint_small: "uint (w :: 32 word) < 2 ^ 31 \<Longrightarrow> sint w = uint w"
proof -
  assume "uint w < 2 ^ 31"
  moreover have "- (2 ^ 31) \<le> uint w" by (rule order_trans [of _ 0]) simp_all
  ultimately show ?thesis using signed_take_bit_int_eq_self [of 31 "uint w"] by (simp add: sint_uint)
qed

lemma sint_nonneg_iff: "0 \<le> sint (w :: 32 word) \<longleftrightarrow> uint w < 2 ^ 31"
proof (cases "uint w < 2 ^ 31")
  case True
  then show ?thesis by (simp add: sint_small)
next
  case False
  then have "sint w \<le> uint w - 2 ^ 32"
    using signed_take_bit_int_less_eq [of 31 "uint w"] by (simp add: sint_uint)
  with False uint_bounded [of w] show ?thesis by simp
qed

lemma murmurInt_nonneg: "0 \<le> sint (murmurInt v)"
proof -
  have "0 \<le> sint (- h)" if "\<not> 0 \<le> sint h" "h \<noteq> 0x80000000" for h :: "32 word"
  proof -
    have h: "2 ^ 31 \<le> uint h" "uint h < 2 ^ 32" using that(1) uint_bounded [of h] by (auto simp: sint_nonneg_iff)
    have "uint h \<noteq> 2 ^ 31" using that(2) by (auto simp: word_uint_eq_iff)
    with h have "2 ^ 31 < uint h" by simp
    moreover have "uint (- h) = (- uint h) mod 2 ^ 32" by (simp add: uint_word_ariths)
    moreover have "(- uint h) mod 2 ^ 32 = 2 ^ 32 - uint h"
      using h by (simp add: zmod_zminus1_eq_if)
    ultimately show ?thesis by (simp add: sint_nonneg_iff)
  qed
  then show ?thesis by (auto simp: murmurInt_def Let_def)
qed

lemma flussBucket_range:
  assumes "key \<noteq> []" "0 < n" "n < 2 ^ 31"
  shows "\<exists>b. flussBucket key n = Inr b \<and> 0 \<le> sint b \<and> sint b < n"
proof -
  let ?h = "murmurInt (murmurBytes key 42)" and ?n = "word_of_int n :: 32 word"
  have n: "uint ?n = n" using assms by (simp add: unsigned_of_int take_bit_int_eq_self)
  have "uint (?h mod ?n) = uint ?h mod n" by (simp add: uint_mod n)
  then have m: "uint (?h mod ?n) < n" using assms by simp
  then have u: "uint (?h mod ?n) < 2 ^ 31" using assms(3) by linarith
  then have "sint (?h mod ?n) = uint (?h mod ?n)"
    by (rule sint_small)
  moreover have "?n \<noteq> 0" using n assms(2) by auto
  ultimately show ?thesis
    using assms m by (auto simp: flussBucket_def Let_def)
qed

lemma sortedBuckets_Inr:
  assumes "sortedBuckets ids = Inr bs"
  shows "bs = sort ids" "ids \<noteq> []" "\<forall>id \<in> set ids. 0 \<le> id"
  using assms by (auto simp: sortedBuckets_def not_less split: if_splits)

text \<open>The sorted identifiers do not depend on the order in which the map is iterated.\<close>

lemma sortedBuckets_perm:
  assumes "mset ids = mset ids'"
  shows "sortedBuckets ids = sortedBuckets ids'"
proof -
  have "set ids = set ids'" "sort ids = sort ids'"
    using assms by (metis set_mset_mset, metis properties_for_sort mset_sort sorted_sort)
  then show ?thesis by (auto simp: sortedBuckets_def)
qed

section \<open>Property\<close>

text \<open>
  Bucket assignment is total and in range: with the sorted bucket identifiers of a table, every
  non-empty key hashes to an index that is inside the slice, so \<^verbatim>\<open>w.buckets[int(bucket)]\<close> never
  panics and names a bucket of the table; and the assignment is the same whatever the order in which
  the bucket map was iterated.
\<close>

theorem bucket_assignment_in_range:
  assumes "sortedBuckets ids = Inr bs" and "key \<noteq> []" and "int (length ids) < 2 ^ 31"
  shows "\<exists>h b. flussBucket key (int (length bs)) = Inr h \<and> go_index bs (sint h) = Inr b \<and> b \<in> set ids
    \<and> (\<forall>ids'. mset ids' = mset ids \<longrightarrow> sortedBuckets ids' = Inr bs)"
proof -
  note s = sortedBuckets_Inr [OF assms(1)]
  have "0 < int (length bs)" "int (length bs) < 2 ^ 31" using s assms(3) by auto
  from flussBucket_range [OF assms(2) this] obtain h where
    h: "flussBucket key (int (length bs)) = Inr h" "0 \<le> sint h" "sint h < int (length bs)" by blast
  then have "go_index bs (sint h) = Inr (bs ! nat (sint h))" by (simp add: go_index_def)
  moreover have "bs ! nat (sint h) \<in> set ids"
    using h nth_mem [of "nat (sint h)" bs] by (simp add: s(1) nat_less_iff del: nth_mem)
  moreover have "\<forall>ids'. mset ids' = mset ids \<longrightarrow> sortedBuckets ids' = Inr bs"
    using assms(1) sortedBuckets_perm by metis
  ultimately show ?thesis using h(1) by blast
qed

theorem bucket_assignment_in_range_witness:
  "\<exists>h b. flussBucket [1, 2, 3] (int (length [0 :: int, 1, 2])) = Inr h
     \<and> go_index [0 :: int, 1, 2] (sint h) = Inr b \<and> b \<in> set [2, 0, 1]"
proof -
  have "sortedBuckets [2, 0, 1] = Inr [0, 1, 2]" by code_simp
  from bucket_assignment_in_range [OF this, of "[1, 2, 3]"] show ?thesis by auto
qed

end
