(* ===== verification/Table_Paths.thy ===== *)
theory Table_Paths
  imports Schema_Model
begin

text \<open>
  Table identity: logical and physical table paths (\<^verbatim>\<open>pkg/fgo/metadata.go\<close>, \<^verbatim>\<open>pkg/fgo/records.go\<close>) and
  the table handle of \<^verbatim>\<open>pkg/fgo/model.go\<close>.
\<close>

record table_path =
  Database :: string
  TableName :: string

definition TablePath_String :: "table_path \<Rightarrow> string" where
  "TablePath_String p = Database p @ ''.'' @ TableName p"

definition TablePath_Validate :: "table_path \<Rightarrow> unit result" where
  "TablePath_Validate p = (if Database p = [] \<or> TableName p = [] then Inl ErrInvalidConfig else Inr ())"

record physical_path =
  ppTable :: table_path
  Partition :: string

definition PhysicalTablePath_Validate :: "physical_path \<Rightarrow> unit result" where
  "PhysicalTablePath_Validate p =
     andThen (TablePath_Validate (ppTable p)) (\<lambda>_.
     guardE (Partition p \<noteq> [] \<and> TrimSpace (Partition p) = []) ErrInvalidConfig (Inr ()))"

definition PhysicalTablePath_String :: "physical_path \<Rightarrow> string" where
  "PhysicalTablePath_String p =
     (if Partition p = [] then TablePath_String (ppTable p)
      else TablePath_String (ppTable p) @ ''(p='' @ Partition p @ '')'')"

definition physicalTableKey :: "physical_path \<Rightarrow> string" where
  "physicalTableKey p = PhysicalTablePath_String p"

datatype table_kind = LogTable | PrimaryKeyTable | OtherKind string

record table =
  tblID :: int
  tblSchemaID :: int
  tblPath :: table_path
  tblKind :: table_kind
  tblSchema :: schema
  tblBucketCount :: int
  tblProperties :: "(string \<times> string) list"

definition RequireLog :: "table \<Rightarrow> unit result" where
  "RequireLog t = (if tblKind t \<noteq> LogTable then Inl ErrTableKind else Inr ())"

definition RequirePrimaryKey :: "table \<Rightarrow> unit result" where
  "RequirePrimaryKey t = (if tblKind t \<noteq> PrimaryKeyTable then Inl ErrTableKind else Inr ())"

section \<open>Lemmas\<close>

text \<open>Within one table the key of a partition determines it.\<close>

lemma physicalTableKey_partition:
  assumes "physicalTableKey p = physicalTableKey q" "ppTable p = ppTable q"
  shows "p = q"
  using assms by (auto simp: physicalTableKey_def PhysicalTablePath_String_def split: if_splits)

text \<open>Across tables it does not: a dot in a database or table name moves the boundary.\<close>

lemma physicalTableKey_collision:
  "physicalTableKey \<lparr>ppTable = \<lparr>Database = ''a'', TableName = ''b.c''\<rparr>, Partition = ''p''\<rparr>
   = physicalTableKey \<lparr>ppTable = \<lparr>Database = ''a.b'', TableName = ''c''\<rparr>, Partition = ''p''\<rparr>"
  by (simp add: physicalTableKey_def PhysicalTablePath_String_def TablePath_String_def)

end
