(* ===== verification/Server_Errors.thy ===== *)
theory Server_Errors
  imports Go_Prelude
begin

text \<open>
  Error classification: \<^verbatim>\<open>errors.Is\<close> and \<^verbatim>\<open>errors.As\<close> over the error values of the prelude, the server
  errors of \<^verbatim>\<open>pkg/fgo/errors.go\<close> with the generated table of protocol error codes
  (\<^verbatim>\<open>pkg/fmsg/api_keys_gen.go\<close>), and the connection errors of \<^verbatim>\<open>pkg/fgo/client.go\<close>.
\<close>

section \<open>Inspecting errors\<close>

text \<open>\<^verbatim>\<open>errors.Is(err, target)\<close> for a sentinel target. \<^verbatim>\<open>ServerError.Is\<close> is consulted for a server
  error; a joined error is searched in both branches.\<close>

fun errorsIs :: "go_error \<Rightarrow> go_error \<Rightarrow> bool" where
  "errorsIs (ServerError code name msg api endpoint retriable category) target \<longleftrightarrow>
     target = ErrServerFailure \<or> target = category"
| "errorsIs (Joined a b) target \<longleftrightarrow> errorsIs a target \<or> errorsIs b target"
| "errorsIs e target \<longleftrightarrow> e = target"

text \<open>\<^verbatim>\<open>errors.As(err, &server)\<close>: the code and the retriable flag of the first server error in the tree;
  \<^verbatim>\<open>errors.As(err, &remote)\<close>: the code and the message of the first remote error;
  \<^verbatim>\<open>errors.As(err, &networkError)\<close>: whether some error of the tree implements \<^verbatim>\<open>net.Error\<close>, which
  \<^verbatim>\<open>context.DeadlineExceeded\<close> does.\<close>

fun asServer :: "go_error \<Rightarrow> (int \<times> bool) option" where
  "asServer (ServerError code name msg api endpoint retriable category) = Some (code, retriable)"
| "asServer (Joined a b) = (case asServer a of Some s \<Rightarrow> Some s | None \<Rightarrow> asServer b)"
| "asServer _ = None"

fun asRemote :: "go_error \<Rightarrow> (int \<times> string) option" where
  "asRemote (RemoteError code msg) = Some (code, msg)"
| "asRemote (Joined a b) = (case asRemote a of Some s \<Rightarrow> Some s | None \<Rightarrow> asRemote b)"
| "asRemote _ = None"

fun isNetError :: "go_error \<Rightarrow> bool" where
  "isNetError (NetError _) = True"
| "isNetError ErrDeadlineExceeded = True"
| "isNetError (Joined a b) \<longleftrightarrow> isNetError a \<or> isNetError b"
| "isNetError _ = False"

section \<open>Protocol error codes\<close>

definition generatedErrors :: "(int \<times> string) list" where
  "generatedErrors =
    [
     (-1, ''UNKNOWN_SERVER_ERROR''), (0, ''NONE''), (1, ''NETWORK_EXCEPTION''),
     (2, ''UNSUPPORTED_VERSION''), (3, ''CORRUPT_MESSAGE''), (4, ''DATABASE_NOT_EXIST''),
     (5, ''DATABASE_NOT_EMPTY''), (6, ''DATABASE_ALREADY_EXIST''), (7, ''TABLE_NOT_EXIST''),
     (8, ''TABLE_ALREADY_EXIST''), (9, ''SCHEMA_NOT_EXIST''), (10, ''LOG_STORAGE_EXCEPTION''),
     (11, ''KV_STORAGE_EXCEPTION''), (12, ''NOT_LEADER_OR_FOLLOWER''),
     (13, ''RECORD_TOO_LARGE_EXCEPTION''), (14, ''CORRUPT_RECORD_EXCEPTION''),
     (15, ''INVALID_TABLE_EXCEPTION''), (16, ''INVALID_DATABASE_EXCEPTION''),
     (17, ''INVALID_REPLICATION_FACTOR''), (18, ''INVALID_REQUIRED_ACKS''),
     (19, ''LOG_OFFSET_OUT_OF_RANGE_EXCEPTION''), (20, ''NON_PRIMARY_KEY_TABLE_EXCEPTION''),
     (21, ''UNKNOWN_TABLE_OR_BUCKET_EXCEPTION''), (22, ''INVALID_UPDATE_VERSION_EXCEPTION''),
     (23, ''INVALID_COORDINATOR_EXCEPTION''), (24, ''FENCED_LEADER_EPOCH_EXCEPTION''),
     (25, ''REQUEST_TIME_OUT''), (26, ''STORAGE_EXCEPTION''),
     (27, ''OPERATION_NOT_ATTEMPTED_EXCEPTION''),
     (28, ''NOT_ENOUGH_REPLICAS_AFTER_APPEND_EXCEPTION''), (29, ''NOT_ENOUGH_REPLICAS_EXCEPTION''),
     (30, ''SECURITY_TOKEN_EXCEPTION''), (31, ''OUT_OF_ORDER_SEQUENCE_EXCEPTION''),
     (32, ''DUPLICATE_SEQUENCE_EXCEPTION''), (33, ''UNKNOWN_WRITER_ID_EXCEPTION''),
     (34, ''INVALID_COLUMN_PROJECTION''), (35, ''INVALID_TARGET_COLUMN''),
     (36, ''PARTITION_NOT_EXISTS''), (37, ''TABLE_NOT_PARTITIONED_EXCEPTION''),
     (38, ''INVALID_TIMESTAMP_EXCEPTION''), (39, ''INVALID_CONFIG_EXCEPTION''),
     (40, ''LAKE_STORAGE_NOT_CONFIGURED_EXCEPTION''), (41, ''KV_SNAPSHOT_NOT_EXIST''),
     (42, ''PARTITION_ALREADY_EXISTS''), (43, ''PARTITION_SPEC_INVALID_EXCEPTION''),
     (44, ''LEADER_NOT_AVAILABLE_EXCEPTION''), (45, ''PARTITION_MAX_NUM_EXCEPTION''),
     (46, ''AUTHENTICATE_EXCEPTION''), (47, ''SECURITY_DISABLED_EXCEPTION''),
     (48, ''AUTHORIZATION_EXCEPTION''), (49, ''BUCKET_MAX_NUM_EXCEPTION''),
     (50, ''FENCED_TIERING_EPOCH_EXCEPTION''), (51, ''RETRIABLE_AUTHENTICATE_EXCEPTION''),
     (52, ''INVALID_SERVER_RACK_INFO_EXCEPTION''), (53, ''LAKE_SNAPSHOT_NOT_EXIST''),
     (54, ''LAKE_TABLE_ALREADY_EXIST''), (55, ''INELIGIBLE_REPLICA_EXCEPTION''),
     (56, ''INVALID_ALTER_TABLE_EXCEPTION''), (57, ''DELETION_DISABLED_EXCEPTION''),
     (58, ''SERVER_NOT_EXIST_EXCEPTION''), (59, ''SEVER_TAG_ALREADY_EXIST_EXCEPTION''),
     (60, ''SEVER_TAG_NOT_EXIST_EXCEPTION''), (61, ''REBALANCE_FAILURE_EXCEPTION''),
     (62, ''NO_REBALANCE_IN_PROGRESS_EXCEPTION''), (63, ''INVALID_PRODUCER_ID_EXCEPTION''),
     (64, ''CONFIG_EXCEPTION''), (65, ''NOT_COORDINATOR_LEADER_EXCEPTION''),
     (66, ''SCANNER_EXPIRED''), (67, ''UNKNOWN_SCANNER_ID''), (68, ''INVALID_SCAN_REQUEST''),
     (69, ''TOO_MANY_SCANNERS''), (70, ''DISK_WRITE_LOCKED''),
     (71, ''INSUFFICIENT_KV_LEADER_REPLICA_CAPACITY''), (72, ''STORAGE_BACKPRESSURE_EXCEPTION''),
     (73, ''HISTORICAL_PARTITION_THROTTLED''), (74, ''INVALID_BUCKET_ROUTING'')]"

definition LookupErrorCode :: "int \<Rightarrow> (int \<times> string) option" where
  "LookupErrorCode code = find (\<lambda>(c, _). c = code) generatedErrors"

definition errorCategory :: "int \<Rightarrow> go_error" where
  "errorCategory code =
     (if code \<in> {46, 51} then ErrAuthentication
      else (if code \<in> {48, 47, 30} then ErrAuthorization
      else (if code \<in> {36} then ErrUnknownPartition
      else (if code \<in> {12, 21, 23, 24, 44, 58, 65, 74} then ErrMetadata
      else (if code \<in> {25, 1} then ErrTimeout
      else (if code \<in> {10, 11, 26, 70, 72} then ErrStorage
      else (if code \<in> {31, 32, 33} then ErrSequence
      else (if code \<in> {13, 14} then ErrRecord
      else ErrValidation))))))))"

definition retriableErrorCode :: "int \<Rightarrow> bool" where
  "retriableErrorCode code \<longleftrightarrow> code \<in> {1, 12, 23, 25, 27, 28, 29, 44, 51, 55, 65, 74, 70, 72}"

text \<open>The error of an RPC envelope and the one of a response body (none for the code \<^verbatim>\<open>NONE\<close>).
  Codes are \<^verbatim>\<open>int32\<close>, API keys \<^verbatim>\<open>int16\<close>.\<close>

definition serverErrorOf :: "int \<Rightarrow> string \<Rightarrow> int \<Rightarrow> string \<Rightarrow> go_error" where
  "serverErrorOf code message api endpoint =
     (let (known, name, typed) =
        (case LookupErrorCode code of Some (c, n) \<Rightarrow> (True, n, c)
         | None \<Rightarrow> (False, ''UNKNOWN_FUTURE_ERROR'', code))
      in ServerError typed name message api endpoint (known \<and> retriableErrorCode typed) (errorCategory typed))"

definition serverError :: "go_error \<Rightarrow> int \<Rightarrow> string \<Rightarrow> go_error" where
  "serverError err api endpoint =
     (case asRemote err of None \<Rightarrow> err | Some (code, message) \<Rightarrow> serverErrorOf code message api endpoint)"

definition responseServerError :: "int \<Rightarrow> string \<Rightarrow> int \<Rightarrow> go_error option" where
  "responseServerError code message api =
     (if code = 0 then None else Some (serverErrorOf code message api []))"

definition shouldReplaceConnection :: "go_error \<Rightarrow> bool" where
  "shouldReplaceConnection err =
     (if errorsIs err ErrClosed \<or> errorsIs err ErrTransportClosed \<or> errorsIs err EOF
         \<or> errorsIs err ErrClosedPipe then True
      else if errorsIs err ErrCanceled \<or> errorsIs err ErrDeadlineExceeded then False
      else isNetError err)"

section \<open>Lemmas\<close>

lemma LookupErrorCode_Some:
  assumes "LookupErrorCode code = Some (c, n)"
  shows "c = code"
  using assms by (auto simp: LookupErrorCode_def find_Some_iff)

lemma known_codes: "fst ` set generatedErrors = {-1..74}"
proof -
  have "map fst generatedErrors = [-1..74]" by code_simp
  then show ?thesis by (metis set_map set_upto)
qed

lemma LookupErrorCode_None_iff: "LookupErrorCode code = None \<longleftrightarrow> code < -1 \<or> 74 < code"
proof -
  have "LookupErrorCode code = None \<longleftrightarrow> code \<notin> fst ` set generatedErrors"
    by (force simp: LookupErrorCode_def find_None_iff)
  then show ?thesis by (auto simp: known_codes)
qed

lemma serverErrorOf_eq:
  "\<exists>name. serverErrorOf code message api endpoint =
     ServerError code name message api endpoint
       (-1 \<le> code \<and> code \<le> 74 \<and> retriableErrorCode code) (errorCategory code)"
proof (cases "LookupErrorCode code")
  case None
  then show ?thesis using LookupErrorCode_None_iff [of code] by (auto simp: serverErrorOf_def)
next
  case (Some cn)
  moreover obtain c n where "cn = (c, n)" by (cases cn)
  moreover have "-1 \<le> code \<and> code \<le> 74" using Some LookupErrorCode_None_iff [of code] by auto
  ultimately show ?thesis using LookupErrorCode_Some [of code c n] by (auto simp: serverErrorOf_def)
qed

lemma asServer_serverErrorOf:
  "asServer (serverErrorOf code message api endpoint) =
     Some (code, -1 \<le> code \<and> code \<le> 74 \<and> retriableErrorCode code)"
  using serverErrorOf_eq [of code message api endpoint] by auto

lemma errorsIs_serverErrorOf:
  "errorsIs (serverErrorOf code message api endpoint) target \<longleftrightarrow>
     target = ErrServerFailure \<or> target = errorCategory code"
  using serverErrorOf_eq [of code message api endpoint] by auto

end
