(* ===== verification/Writer_Retry.thy ===== *)
theory Writer_Retry
  imports Server_Errors
begin

text \<open>
  What both writers share: the retry policy of \<^verbatim>\<open>pkg/fgo/writer_retry.go\<close>, the context-aware wait of
  \<^verbatim>\<open>pkg/fgo/partition.go\<close> and the write-once future of \<^verbatim>\<open>pkg/fgo/write_future.go\<close>. Durations are
  \<^verbatim>\<open>int64\<close> nanoseconds; every one here is at most a minute, so they are integers.
\<close>

section \<open>Delays\<close>

definition millisecond :: int where "millisecond = 1000000"
definition second :: int where "second = 1000000000"

text \<open>\<^verbatim>\<open>for current := 1; current < attempt && delay < time.Second; current++ { delay *= 2 }\<close>: the first
  argument is the number of rounds left by the counter.\<close>

fun doubleDelay :: "nat \<Rightarrow> int \<Rightarrow> int" where
  "doubleDelay 0 delay = delay"
| "doubleDelay (Suc n) delay = (if delay < second then doubleDelay n (delay * 2) else delay)"

definition cappedDelay :: "int \<Rightarrow> int \<Rightarrow> int" where
  "cappedDelay base attempt =
     (let delay = doubleDelay (nat (attempt - 1)) base in if delay > second then second else delay)"

text \<open>\<^verbatim>\<open>waitContext\<close>: \<open>selected\<close> is what the select yields, \<^verbatim>\<open>None\<close> for the timer and the error of the
  context otherwise; a delay that is not positive does not wait.\<close>

definition waitContext :: "go_error option \<Rightarrow> int \<Rightarrow> go_error option" where
  "waitContext selected delay = (if delay \<le> 0 then None else selected)"

section \<open>The retry policy\<close>

definition maxWriterAttempts :: int where "maxWriterAttempts = 100"

record retry_policy =
  MaxAttempts :: int
  Backoff :: "(int \<Rightarrow> int) option"

definition defaultWriterRetryPolicy :: retry_policy where
  "defaultWriterRetryPolicy = \<lparr>MaxAttempts = 1, Backoff = Some (cappedDelay (100 * millisecond))\<rparr>"

definition validateWriterRetryPolicy :: "retry_policy \<Rightarrow> int \<Rightarrow> unit result" where
  "validateWriterRetryPolicy policy acks =
     guardE (MaxAttempts policy < 1 \<or> MaxAttempts policy > maxWriterAttempts) ErrInvalidConfig (
     guardE (MaxAttempts policy > 1 \<and> acks \<noteq> -1) ErrInvalidConfig (
     Inr ()))"

definition writerRetryable :: "go_error \<Rightarrow> bool" where
  "writerRetryable err =
     (case asServer err of Some (_, retriable) \<Rightarrow> retriable | None \<Rightarrow> shouldReplaceConnection err)"

definition duplicateWriterSequence :: "go_error \<Rightarrow> bool" where
  "duplicateWriterSequence err = (case asServer err of Some (code, _) \<Rightarrow> code = 32 | None \<Rightarrow> False)"

section \<open>The attempt loop\<close>

text \<open>The environment of one request, indexed by the attempt: what the call returned (offset, whether
  it is known, error), what \<^verbatim>\<open>ctx.Err()\<close> returned after it, and what ended the wait.\<close>

record attempt_env =
  callAt :: "int \<Rightarrow> 64 word \<times> bool \<times> go_error option"
  ctxErrAt :: "int \<Rightarrow> go_error option"
  waitAt :: "int \<Rightarrow> go_error option"

record attempt_result =
  arOffset :: "64 word"
  arOffsetKnown :: bool
  arAttempts :: int
  arErr :: "go_error option"

fun attemptLoop :: "attempt_env \<Rightarrow> retry_policy \<Rightarrow> nat \<Rightarrow> int \<Rightarrow> attempt_result" where
  "attemptLoop env policy 0 attempt =
     \<lparr>arOffset = 0, arOffsetKnown = False, arAttempts = 0, arErr = Some ErrInvalidConfig\<rparr>"
| "attemptLoop env policy (Suc n) attempt =
     (case callAt env attempt of (offset, offsetKnown, err) \<Rightarrow>
        (case err of
           None \<Rightarrow> \<lparr>arOffset = offset, arOffsetKnown = offsetKnown, arAttempts = attempt, arErr = None\<rparr>
         | Some e \<Rightarrow>
             if duplicateWriterSequence e then
               \<lparr>arOffset = offset, arOffsetKnown = offsetKnown, arAttempts = attempt, arErr = None\<rparr>
             else if attempt = MaxAttempts policy \<or> \<not> writerRetryable e \<or> ctxErrAt env attempt \<noteq> None then
               \<lparr>arOffset = offset, arOffsetKnown = offsetKnown, arAttempts = attempt, arErr = Some e\<rparr>
             else
               (let delay = (case Backoff policy of None \<Rightarrow> 0 | Some f \<Rightarrow> f attempt)
                in case waitContext (waitAt env attempt) delay of
                     Some w \<Rightarrow> \<lparr>arOffset = 0, arOffsetKnown = False, arAttempts = attempt, arErr = Some w\<rparr>
                   | None \<Rightarrow> attemptLoop env policy n (attempt + 1))))"

definition executeWriterAttempts :: "attempt_env \<Rightarrow> retry_policy \<Rightarrow> attempt_result" where
  "executeWriterAttempts env policy = attemptLoop env policy (nat (MaxAttempts policy)) 1"

text \<open>\<^verbatim>\<open>executeWriterRequest\<close>: \<open>expired\<close> is \<^verbatim>\<open>requestCtx.Err()\<close> after the loop; it replaces the error of
  the last attempt.\<close>

definition executeWriterRequest :: "attempt_env \<Rightarrow> go_error option \<Rightarrow> retry_policy \<Rightarrow> attempt_result" where
  "executeWriterRequest env expired policy =
     (let r = executeWriterAttempts env policy
      in if arErr r \<noteq> None \<and> expired \<noteq> None then r\<lparr>arErr := expired\<rparr> else r)"

section \<open>Futures\<close>

record write_result =
  wrBucket :: int
  wrBaseOffset :: "64 word"
  wrOffsetKnown :: bool
  wrRecords :: int
  wrPressure :: "32 word"
  wrPressureKnown :: bool
  wrErr :: "go_error option"

definition errorResult :: "go_error \<Rightarrow> write_result" where
  "errorResult e = \<lparr>wrBucket = 0, wrBaseOffset = 0, wrOffsetKnown = False, wrRecords = 0,
     wrPressure = 0, wrPressureKnown = False, wrErr = Some e\<rparr>"

text \<open>A future: the result once \<^verbatim>\<open>done\<close> is closed, and whether completing it releases a slot.\<close>

record write_future =
  futData :: "write_result option"
  futRelease :: bool

definition newWriteFuture :: write_future where
  "newWriteFuture = \<lparr>futData = None, futRelease = False\<rparr>"

text \<open>\<^verbatim>\<open>complete\<close> returns the future and the number of slots it released.\<close>

definition complete :: "write_result \<Rightarrow> write_future \<Rightarrow> write_future \<times> nat" where
  "complete result f =
     (case futData f of
        Some _ \<Rightarrow> (f, 0)
      | None \<Rightarrow> (f\<lparr>futData := Some result\<rparr>, if futRelease f then 1 else 0))"

text \<open>\<^verbatim>\<open>Await\<close>: \<open>ctxDone\<close> is the error of the context when the select takes that branch; it can only
  be taken when the context is done, and the other only when the future is. \<^verbatim>\<open>None\<close> is an \<^verbatim>\<open>Await\<close>
  that still waits.\<close>

definition Await :: "write_future option \<Rightarrow> go_error option \<Rightarrow> write_result option" where
  "Await f ctxDone =
     (case f of None \<Rightarrow> Some (errorResult ErrInvalidConfig)
      | Some f \<Rightarrow> (case ctxDone of Some e \<Rightarrow> Some (errorResult e) | None \<Rightarrow> futData f))"

section \<open>Lemmas\<close>

lemma doubleDelay_closed:
  assumes "0 < d"
  shows "min second (doubleDelay n d) = min second (d * 2 ^ n)"
  using assms
proof (induction n arbitrary: d)
  case (Suc n)
  have "(1 :: int) \<le> 2 ^ Suc n" by (rule one_le_power) simp
  then have "d * 1 \<le> d * 2 ^ Suc n" using Suc.prems by (intro mult_left_mono) simp_all
  then have le: "d \<le> d * 2 ^ Suc n" by simp
  have eq: "d * 2 * 2 ^ n = d * 2 ^ Suc n" by simp
  show ?case
  proof (cases "d < second")
    case True
    then have "doubleDelay (Suc n) d = doubleDelay n (d * 2)" by simp
    moreover have "0 < d * 2" using Suc.prems by simp
    ultimately show ?thesis using Suc.IH [of "d * 2"] eq by (simp del: power_Suc)
  next
    case False
    then have "doubleDelay (Suc n) d = d" "second \<le> d" by auto
    moreover from this(2) le have "second \<le> d * 2 ^ Suc n" by (rule order_trans)
    ultimately show ?thesis by (simp only: min_absorb1)
  qed
qed simp

lemma cappedDelay_min: "cappedDelay base attempt = min second (doubleDelay (nat (attempt - 1)) base)"
  by (simp add: cappedDelay_def Let_def min_def)

lemma cappedDelay_closed:
  "0 < base \<Longrightarrow> cappedDelay base attempt = min second (base * 2 ^ nat (attempt - 1))"
  by (simp add: cappedDelay_min doubleDelay_closed)

lemma doubleDelay_zero: "doubleDelay n 0 = 0"
  by (induction n) auto

lemma cappedDelay_bounds:
  assumes "0 \<le> base"
  shows "0 \<le> cappedDelay base attempt" "cappedDelay base attempt \<le> second"
proof -
  show "cappedDelay base attempt \<le> second" by (simp add: cappedDelay_min)
  show "0 \<le> cappedDelay base attempt"
  proof (cases "base = 0")
    case True
    then show ?thesis by (simp add: cappedDelay_min doubleDelay_zero second_def)
  next
    case False
    with assms have "0 < base" by simp
    then show ?thesis by (simp add: cappedDelay_closed second_def)
  qed
qed

lemma validateWriterRetryPolicy_iff:
  "validateWriterRetryPolicy p acks = Inr () \<longleftrightarrow>
     1 \<le> MaxAttempts p \<and> MaxAttempts p \<le> maxWriterAttempts \<and> (MaxAttempts p > 1 \<longrightarrow> acks = -1)"
  by (auto simp: validateWriterRetryPolicy_def)

text \<open>The outcome of an attempt counts as an acknowledgement.\<close>

definition acknowledged :: "64 word \<times> bool \<times> go_error option \<Rightarrow> bool" where
  "acknowledged r = (case snd (snd r) of None \<Rightarrow> True | Some e \<Rightarrow> duplicateWriterSequence e)"

text \<open>An attempt that the loop follows with another one.\<close>

definition retriedAttempt :: "attempt_env \<Rightarrow> retry_policy \<Rightarrow> int \<Rightarrow> bool" where
  "retriedAttempt env policy j =
     (\<not> acknowledged (callAt env j) \<and> ctxErrAt env j = None \<and> j < MaxAttempts policy
      \<and> (\<exists>e. snd (snd (callAt env j)) = Some e \<and> writerRetryable e))"

lemma attemptLoop_spec:
  assumes "attempt + int n = MaxAttempts policy + 1" "0 < n"
  shows "\<exists>k. attempt \<le> k \<and> k \<le> MaxAttempts policy
    \<and> arAttempts (attemptLoop env policy n attempt) = k
    \<and> (\<forall>j. attempt \<le> j \<and> j < k \<longrightarrow> retriedAttempt env policy j)
    \<and> (arErr (attemptLoop env policy n attempt) = None \<longleftrightarrow> acknowledged (callAt env k))
    \<and> (acknowledged (callAt env k) \<longrightarrow>
         arOffset (attemptLoop env policy n attempt) = fst (callAt env k)
         \<and> arOffsetKnown (attemptLoop env policy n attempt) = fst (snd (callAt env k)))"
  using assms
proof (induction n arbitrary: attempt)
  case (Suc n)
  obtain off known err where c: "callAt env attempt = (off, known, err)" by (cases "callAt env attempt")
  consider (stop) "arAttempts (attemptLoop env policy (Suc n) attempt) = attempt"
      "arErr (attemptLoop env policy (Suc n) attempt) = None \<longleftrightarrow> acknowledged (callAt env attempt)"
      "acknowledged (callAt env attempt) \<longrightarrow>
         arOffset (attemptLoop env policy (Suc n) attempt) = off
         \<and> arOffsetKnown (attemptLoop env policy (Suc n) attempt) = known"
    | (more) "attemptLoop env policy (Suc n) attempt = attemptLoop env policy n (attempt + 1)"
      "retriedAttempt env policy attempt" "attempt < MaxAttempts policy"
  proof (cases err)
    case None
    then show ?thesis by (intro stop) (simp_all add: c acknowledged_def)
  next
    case (Some e)
    let ?delay = "case Backoff policy of None \<Rightarrow> 0 | Some f \<Rightarrow> f attempt"
    consider "duplicateWriterSequence e"
      | "\<not> duplicateWriterSequence e" "attempt = MaxAttempts policy \<or> \<not> writerRetryable e \<or> ctxErrAt env attempt \<noteq> None"
      | w where "\<not> duplicateWriterSequence e" "waitContext (waitAt env attempt) ?delay = Some w"
          "attempt \<noteq> MaxAttempts policy" "writerRetryable e" "ctxErrAt env attempt = None"
      | "\<not> duplicateWriterSequence e" "waitContext (waitAt env attempt) ?delay = None"
          "attempt \<noteq> MaxAttempts policy" "writerRetryable e" "ctxErrAt env attempt = None"
      by (cases "waitContext (waitAt env attempt) ?delay") blast+
    then show ?thesis
    proof cases
      case 4
      then show ?thesis using Suc.prems
        by (intro more) (simp_all add: c Some acknowledged_def retriedAttempt_def)
    qed (rule stop; simp add: c Some acknowledged_def)+
  qed
  then show ?case
  proof cases
    case stop
    then show ?thesis using Suc.prems c by (intro exI [of _ attempt]) auto
  next
    case more
    have "attempt + 1 + int n = MaxAttempts policy + 1" "0 < n" using Suc.prems more(3) by auto
    from Suc.IH [OF this] obtain k where k: "attempt + 1 \<le> k" "k \<le> MaxAttempts policy"
      "arAttempts (attemptLoop env policy n (attempt + 1)) = k"
      "\<forall>j. attempt + 1 \<le> j \<and> j < k \<longrightarrow> retriedAttempt env policy j"
      "arErr (attemptLoop env policy n (attempt + 1)) = None \<longleftrightarrow> acknowledged (callAt env k)"
      "acknowledged (callAt env k) \<longrightarrow>
         arOffset (attemptLoop env policy n (attempt + 1)) = fst (callAt env k)
         \<and> arOffsetKnown (attemptLoop env policy n (attempt + 1)) = fst (snd (callAt env k))"
      by (elim exE conjE) (rule that; assumption)
    have "\<forall>j. attempt \<le> j \<and> j < k \<longrightarrow> retriedAttempt env policy j"
      using k(4) more(2) by (metis antisym_conv2 zless_imp_add1_zle)
    moreover have "attempt \<le> k" using k(1) by simp
    ultimately show ?thesis unfolding more(1) by (intro exI [of _ k] conjI k(2,3,5,6))
  qed
qed simp

lemma complete_once:
  "fst (complete r2 (fst (complete r1 f))) = fst (complete r1 f)"
  "snd (complete r2 (fst (complete r1 f))) = 0"
  by (auto simp: complete_def split: option.splits)

lemma code_retriable_known: "retriableErrorCode code \<Longrightarrow> -1 \<le> code \<and> code \<le> 74"
  by (auto simp: retriableErrorCode_def)

section \<open>Properties\<close>

text \<open>
  C40. Retries are bounded and stop where they must: under a policy that validation accepts, the loop
  makes between one and the configured number of attempts (at most 100, exactly one unless
  \<^verbatim>\<open>acks = -1\<close>); every attempt but the last failed with a retriable error while the context was live;
  and the result is a success, with the offset of that attempt, exactly when the last attempt was
  acknowledged (or reported the batch as a duplicate).
\<close>

theorem writer_attempts_bounded:
  assumes "validateWriterRetryPolicy policy acks = Inr ()" and "executeWriterAttempts env policy = r"
  shows "1 \<le> arAttempts r \<and> arAttempts r \<le> MaxAttempts policy \<and> arAttempts r \<le> 100
    \<and> (acks \<noteq> -1 \<longrightarrow> arAttempts r = 1)
    \<and> (\<forall>j. 1 \<le> j \<and> j < arAttempts r \<longrightarrow> retriedAttempt env policy j)
    \<and> (arErr r = None \<longleftrightarrow> acknowledged (callAt env (arAttempts r)))
    \<and> (arErr r = None \<longrightarrow> arOffset r = fst (callAt env (arAttempts r)))"
proof -
  have p: "1 \<le> MaxAttempts policy" "MaxAttempts policy \<le> 100" "MaxAttempts policy > 1 \<longrightarrow> acks = -1"
    using assms(1) by (auto simp: validateWriterRetryPolicy_iff maxWriterAttempts_def)
  have "1 + int (nat (MaxAttempts policy)) = MaxAttempts policy + 1" "0 < nat (MaxAttempts policy)"
    using p by auto
  from attemptLoop_spec [OF this, of env] show ?thesis
    unfolding executeWriterAttempts_def [symmetric] assms(2) using p by auto
qed

definition exAttempts :: attempt_env where
  "exAttempts = \<lparr>callAt = (\<lambda>i. if i < 3 then (0, False, Some EOF) else (7, True, None)),
     ctxErrAt = (\<lambda>_. None), waitAt = (\<lambda>_. None)\<rparr>"

theorem writer_attempts_bounded_witness:
  "arAttempts (executeWriterAttempts exAttempts (defaultWriterRetryPolicy\<lparr>MaxAttempts := 5\<rparr>)) = 3
   \<and> retriedAttempt exAttempts (defaultWriterRetryPolicy\<lparr>MaxAttempts := 5\<rparr>) 2"
proof -
  let ?p = "defaultWriterRetryPolicy\<lparr>MaxAttempts := 5\<rparr>"
  have "validateWriterRetryPolicy ?p (-1) = Inr ()" by code_simp
  note b = writer_attempts_bounded [OF this, of exAttempts]
  have a: "arAttempts (executeWriterAttempts exAttempts ?p) = 3" by code_simp
  then show ?thesis using b [OF refl] by auto
qed

text \<open>
  Classification of server errors: an error of a response body always matches
  \<^verbatim>\<open>ErrServerFailure\<close> and the category of its code, and no other sentinel; a code outside the generated
  table is a validation failure that is never retried, and a writer retries a server error only for one
  of the retriable codes of the table.
\<close>

theorem server_error_classified:
  assumes "responseServerError code message apiKey = Some e"
  shows "(\<forall>target. errorsIs e target \<longleftrightarrow> target = ErrServerFailure \<or> target = errorCategory code)
    \<and> (LookupErrorCode code = None \<longrightarrow> errorCategory code = ErrValidation \<and> \<not> writerRetryable e)
    \<and> (writerRetryable e \<longleftrightarrow> retriableErrorCode code)
    \<and> (duplicateWriterSequence e \<longleftrightarrow> code = 32)"
proof -
  have e: "e = serverErrorOf code message apiKey []"
    using assms by (auto simp: responseServerError_def split: if_splits)
  have "writerRetryable e \<longleftrightarrow> retriableErrorCode code"
    using code_retriable_known [of code] by (auto simp: e writerRetryable_def asServer_serverErrorOf)
  moreover have "duplicateWriterSequence e \<longleftrightarrow> code = 32"
    by (simp add: e duplicateWriterSequence_def asServer_serverErrorOf)
  moreover have "errorCategory code = ErrValidation \<and> \<not> retriableErrorCode code" if "LookupErrorCode code = None"
  proof -
    have c: "code < -1 \<or> 74 < code" using that by (simp add: LookupErrorCode_None_iff)
    then have "\<not> retriableErrorCode code" using code_retriable_known by force
    moreover have "errorCategory code = ErrValidation" using c by (auto simp: errorCategory_def)
    ultimately show ?thesis by blast
  qed
  ultimately show ?thesis using errorsIs_serverErrorOf [of code message apiKey "[]"] e by blast
qed

theorem server_error_classified_witness:
  "\<exists>e e'. responseServerError 12 ''moved'' 1014 = Some e \<and> errorsIs e ErrMetadata \<and> writerRetryable e
     \<and> responseServerError 900 [] 1014 = Some e' \<and> \<not> writerRetryable e'"
proof -
  obtain e where e: "responseServerError 12 ''moved'' 1014 = Some e" by (simp add: responseServerError_def)
  obtain e' where e': "responseServerError 900 [] 1014 = Some e'" by (simp add: responseServerError_def)
  have "errorCategory 12 = ErrMetadata" "retriableErrorCode 12" "\<not> retriableErrorCode 900" by code_simp+
  then show ?thesis using server_error_classified [OF e] server_error_classified [OF e'] e e' by auto
qed

end
