(* ===== verification/Partitions.thy ===== *)
theory Partitions
  imports Table_Paths Writer_Retry "HOL-Library.List_Lexorder" "HOL-Library.Char_ord"
begin

text \<open>
  Partition names and dynamic partition creation, \<^verbatim>\<open>pkg/fgo/partition.go\<close>. A partition spec is a Go map
  from key to value: an association list here, read through \<^const>\<open>map_of\<close>, with distinct keys.
\<close>

section \<open>Names\<close>

type_synonym partition_spec = "(string \<times> string) list"

definition partitionValueSeparator :: char where
  "partitionValueSeparator = CHR ''$''"

text \<open>\<^verbatim>\<open>strings.Split\<close> and \<^verbatim>\<open>strings.Join\<close> with a one-byte separator.\<close>

fun splitOn :: "char \<Rightarrow> string \<Rightarrow> string list" where
  "splitOn c [] = [[]]"
| "splitOn c (x # xs) =
     (if x = c then [] # splitOn c xs
      else (case splitOn c xs of [] \<Rightarrow> [[x]] | y # ys \<Rightarrow> (x # y) # ys))"

fun joinWith :: "char \<Rightarrow> string list \<Rightarrow> string" where
  "joinWith c [] = []"
| "joinWith c [x] = x"
| "joinWith c (x # y # ys) = x @ c # joinWith c (y # ys)"

fun partitionValues :: "partition_spec \<Rightarrow> string list \<Rightarrow> string list result" where
  "partitionValues spec [] = Inr []"
| "partitionValues spec (key # keys) =
     (case map_of spec key of
        None \<Rightarrow> Inl ErrInvalidConfig
      | Some v \<Rightarrow>
          if v = [] \<or> partitionValueSeparator \<in> set v then Inl ErrInvalidConfig
          else andThen (partitionValues spec keys) (\<lambda>vs. Inr (v # vs)))"

definition PartitionName :: "schema \<Rightarrow> partition_spec \<Rightarrow> string result" where
  "PartitionName s spec =
     guardE (PartitionKey s = []) ErrInvalidSchema (
     guardE (length spec \<noteq> length (PartitionKey s)) ErrInvalidConfig (
     andThen (partitionValues spec (PartitionKey s)) (\<lambda>vals.
     Inr (joinWith partitionValueSeparator vals))))"

fun specLoop :: "string list \<Rightarrow> string list \<Rightarrow> partition_spec \<Rightarrow> partition_spec result" where
  "specLoop (key # keys) (v # vals) spec =
     (if key = [] \<or> v = [] then Inl ErrInvalidConfig
      else if map_of spec key \<noteq> None then Inl ErrInvalidConfig
      else specLoop keys vals (spec @ [(key, v)]))"
| "specLoop _ _ spec = Inr spec"

definition PartitionSpecFromName :: "string list \<Rightarrow> string \<Rightarrow> partition_spec result" where
  "PartitionSpecFromName keys name =
     guardE (keys = [] \<or> name = []) ErrInvalidConfig (
     let vals = splitOn partitionValueSeparator name
     in guardE (length vals \<noteq> length keys) ErrInvalidConfig (
        specLoop keys vals []))"

fun collectNames :: "schema \<Rightarrow> partition_spec list \<Rightarrow> string list result" where
  "collectNames s [] = Inr []"
| "collectNames s (spec # specs) =
     andThen (PartitionName s spec) (\<lambda>name.
     andThen (collectNames s specs) (\<lambda>names. Inr (name # names)))"

definition PartitionNames :: "schema \<Rightarrow> partition_spec list \<Rightarrow> string list result" where
  "PartitionNames s specs =
     guardE (specs = []) ErrInvalidConfig (
     andThen (collectNames s specs) (\<lambda>names. Inr (sort (remdups names))))"

text \<open>The protobuf form: key/value pairs in key order.\<close>

definition partitionSpecProto :: "partition_spec \<Rightarrow> (string \<times> string) list" where
  "partitionSpecProto spec = map (\<lambda>key. (key, the (map_of spec key))) (sort (map fst spec))"

section \<open>Dynamic creation\<close>

record dynamic_config =
  MetadataAttempts :: int
  RetryBackoff :: int

definition WithDynamicPartitionCreation :: "dynamic_config \<Rightarrow> dynamic_config result" where
  "WithDynamicPartitionCreation settings =
     (let settings = (if MetadataAttempts settings = 0 then settings\<lparr>MetadataAttempts := 3\<rparr> else settings);
          settings = (if RetryBackoff settings = 0 then settings\<lparr>RetryBackoff := 25 * millisecond\<rparr> else settings)
      in if MetadataAttempts settings < 1 \<or> MetadataAttempts settings > 10 \<or>
            RetryBackoff settings < 0 \<or> RetryBackoff settings > 60 * second
         then Inl ErrInvalidConfig else Inr settings)"

definition pendingPartitionMetadata :: "go_error \<Rightarrow> bool" where
  "pendingPartitionMetadata err \<longleftrightarrow>
     errorsIs err ErrUnknownPartition \<or> errorsIs err ErrNoBucketLeader \<or> errorsIs err ErrMetadata"

definition retryDelay :: "dynamic_config \<Rightarrow> int \<Rightarrow> int" where
  "retryDelay settings attempt = cappedDelay (RetryBackoff settings) attempt"

text \<open>The environment of one run of \<^verbatim>\<open>ensure\<close>: the answers of \<^verbatim>\<open>checkPartition\<close> (number 0 is the first
  check, number \<open>i\<close> the one of attempt \<open>i\<close>), the answer of \<^verbatim>\<open>createPartition\<close>, and what ended the waits.
  The result counts the partitions that were asked to be created and the checks made.\<close>

record ensure_env =
  checkAt :: "int \<Rightarrow> go_error option"
  createAns :: "go_error option"
  ensureWaitAt :: "int \<Rightarrow> go_error option"

record ensure_result =
  erErr :: "go_error option"
  erCreates :: nat
  erChecks :: int

fun ensureLoop :: "ensure_env \<Rightarrow> dynamic_config \<Rightarrow> nat \<Rightarrow> int \<Rightarrow> go_error option \<Rightarrow> go_error option \<times> int" where
  "ensureLoop env settings 0 attempt err = (err, attempt)"
| "ensureLoop env settings (Suc n) attempt err =
     (case checkAt env attempt of
        None \<Rightarrow> (None, attempt + 1)
      | Some e \<Rightarrow>
          if \<not> pendingPartitionMetadata e \<or> attempt = MetadataAttempts settings then (Some e, attempt + 1)
          else (case waitContext (ensureWaitAt env attempt) (retryDelay settings attempt) of
                  Some w \<Rightarrow> (Some w, attempt + 1)
                | None \<Rightarrow> ensureLoop env settings n (attempt + 1) (Some e)))"

definition ensure :: "ensure_env \<Rightarrow> dynamic_config \<Rightarrow> ensure_result" where
  "ensure env settings =
     (case checkAt env 0 of
        None \<Rightarrow> \<lparr>erErr = None, erCreates = 0, erChecks = 1\<rparr>
      | Some err \<Rightarrow>
          (let missing = errorsIs err ErrUnknownPartition
           in if \<not> missing \<and> \<not> pendingPartitionMetadata err
              then \<lparr>erErr = Some err, erCreates = 0, erChecks = 1\<rparr>
              else if missing \<and> createAns env \<noteq> None
              then \<lparr>erErr = createAns env, erCreates = 1, erChecks = 1\<rparr>
              else
                (let (result, checks) =
                   ensureLoop env settings (nat (MetadataAttempts settings)) 1 (Some err)
                 in \<lparr>erErr = result, erCreates = (if missing then 1 else 0), erChecks = checks\<rparr>)))"

text \<open>\<^verbatim>\<open>Ensure\<close>: what it does before it hands \<^verbatim>\<open>ensure\<close> to the coalescer. \<open>Inr None\<close> returns at once
  without an error; \<open>Inr (Some (key, spec))\<close> runs the flight of that key.\<close>

definition Ensure :: "dynamic_config option \<Rightarrow> physical_path \<Rightarrow> string list \<Rightarrow> (string \<times> partition_spec) option result" where
  "Ensure creator path partitionKeys =
     (if creator = None then Inr None
      else andThen (PhysicalTablePath_Validate path) (\<lambda>_.
        if Partition path = [] then Inr None
        else andThen (PartitionSpecFromName partitionKeys (Partition path)) (\<lambda>spec.
          Inr (Some (physicalTableKey path, spec)))))"

section \<open>Lemmas\<close>

lemma splitOn_ne [simp]: "splitOn c xs \<noteq> []"
  by (induction xs) (auto split: list.splits)

lemma splitOn_plain: "c \<notin> set x \<Longrightarrow> splitOn c x = [x]"
  by (induction x) auto

lemma splitOn_append: "c \<notin> set x \<Longrightarrow> splitOn c (x @ c # ys) = x # splitOn c ys"
  by (induction x) auto

lemma splitOn_joinWith:
  assumes "vs \<noteq> []" "\<forall>v \<in> set vs. c \<notin> set v"
  shows "splitOn c (joinWith c vs) = vs"
  using assms by (induction c vs rule: joinWith.induct) (auto simp: splitOn_plain splitOn_append)

lemma joinWith_splitOn: "joinWith c (splitOn c xs) = xs"
proof (induction xs)
  case (Cons x xs)
  then show ?case by (cases "splitOn c xs"; cases "tl (splitOn c xs)") auto
qed simp

lemma splitOn_no_sep: "\<forall>v \<in> set (splitOn c xs). c \<notin> set v"
  by (induction xs) (auto split: list.splits)

lemma partitionValues_Inr:
  assumes "partitionValues spec keys = Inr vs"
  shows "length vs = length keys" "\<forall>v \<in> set vs. v \<noteq> [] \<and> partitionValueSeparator \<notin> set v"
    "map (map_of spec) keys = map Some vs"
  using assms by (induction keys arbitrary: vs) (auto split: option.splits if_splits)

lemma specLoop_Inr_iff:
  assumes "length vals = length keys"
  shows "specLoop keys vals spec = Inr r \<longleftrightarrow>
    r = spec @ zip keys vals \<and> [] \<notin> set keys \<and> [] \<notin> set vals
    \<and> distinct keys \<and> set keys \<inter> dom (map_of spec) = {}"
  using assms
proof (induction keys arbitrary: vals spec)
  case (Cons key keys)
  then obtain v vs where "vals = v # vs" "length vs = length keys" by (cases vals) auto
  then show ?case
    using Cons.IH [of vs "spec @ [(key, v)]"] by (auto simp: map_add_def dom_def split: option.splits)
qed auto

lemma joinWith_Nil_iff: "joinWith c vs = [] \<longleftrightarrow> vs = [] \<or> vs = [[]]"
  by (induction c vs rule: joinWith.induct) auto

lemma map_of_zip_self:
  assumes "map (map_of spec) keys = map Some vs" "distinct keys" "k \<in> set keys"
  shows "map_of (zip keys vs) k = map_of spec k"
  using assms
proof (induction keys arbitrary: vs)
  case (Cons key keys)
  then show ?case by (cases vs) auto
qed simp

lemma PartitionName_SpecFromName:
  assumes "PartitionName s spec = Inr name" "distinct (map fst spec)"
    and "distinct (PartitionKey s)" "[] \<notin> set (PartitionKey s)"
  shows "\<exists>spec'. PartitionSpecFromName (PartitionKey s) name = Inr spec' \<and> map_of spec' = map_of spec"
proof -
  obtain vs where ne: "PartitionKey s \<noteq> []" and len: "length spec = length (PartitionKey s)"
    and vs: "partitionValues spec (PartitionKey s) = Inr vs" and name: "name = joinWith partitionValueSeparator vs"
    using assms(1) by (auto simp: PartitionName_def)
  note v = partitionValues_Inr [OF vs]
  have split: "splitOn partitionValueSeparator name = vs"
    unfolding name using v ne by (intro splitOn_joinWith) auto
  have "name \<noteq> []" unfolding name using v ne by (auto simp: joinWith_Nil_iff)
  moreover have "specLoop (PartitionKey s) vs [] = Inr (zip (PartitionKey s) vs)"
    using v assms(3,4) by (subst specLoop_Inr_iff) auto
  ultimately have "PartitionSpecFromName (PartitionKey s) name = Inr (zip (PartitionKey s) vs)"
    using ne v(1) by (simp add: PartitionSpecFromName_def split)
  moreover have "map_of (zip (PartitionKey s) vs) k = map_of spec k" for k
  proof (cases "k \<in> set (PartitionKey s)")
    case True
    then show ?thesis using v(3) assms(3) by (intro map_of_zip_self)
  next
    case False
    have sub: "set (PartitionKey s) \<subseteq> fst ` set spec"
    proof
      fix x assume "x \<in> set (PartitionKey s)"
      then obtain i where "i < length (PartitionKey s)" "PartitionKey s ! i = x" by (auto simp: in_set_conv_nth)
      then have "map_of spec x = Some (vs ! i)" using v(1,3) by (metis length_map nth_map)
      then show "x \<in> fst ` set spec" by (force dest: map_of_SomeD)
    qed
    have "card (fst ` set spec) = length spec" using assms(2) by (metis distinct_card length_map list.set_map)
    moreover have "card (set (PartitionKey s)) = length (PartitionKey s)" using assms(3) by (rule distinct_card)
    ultimately have "set (PartitionKey s) = fst ` set spec"
      using sub len by (intro card_subset_eq) auto
    with False have "map_of spec k = None" by (auto simp: map_of_eq_None_iff)
    moreover have "map_of (zip (PartitionKey s) vs) k = None" using False v(1) by simp
    ultimately show ?thesis by simp
  qed
  ultimately show ?thesis by blast
qed

lemma SpecFromName_PartitionName:
  assumes "PartitionSpecFromName (PartitionKey s) name = Inr spec"
  shows "PartitionName s spec = Inr name"
proof -
  let ?vs = "splitOn partitionValueSeparator name"
  have ne: "PartitionKey s \<noteq> []" and len: "length ?vs = length (PartitionKey s)"
    and loop: "specLoop (PartitionKey s) ?vs [] = Inr spec"
    using assms by (auto simp: PartitionSpecFromName_def Let_def)
  have spec: "spec = zip (PartitionKey s) ?vs" "[] \<notin> set ?vs" "distinct (PartitionKey s)"
    using loop len by (auto simp: specLoop_Inr_iff)
  have "partitionValues spec keys = Inr vs"
    if "map (map_of spec) keys = map Some vs" "\<forall>v \<in> set vs. v \<noteq> [] \<and> partitionValueSeparator \<notin> set v"
    for keys vs
    using that by (induction keys arbitrary: vs) (auto simp: map_eq_Cons_conv Cons_eq_map_conv)
  moreover have "map (map_of spec) (PartitionKey s) = map Some ?vs"
    unfolding spec(1) using len spec(3) by (intro nth_equalityI) (simp_all add: map_of_zip_nth)
  moreover have "\<forall>v \<in> set ?vs. v \<noteq> [] \<and> partitionValueSeparator \<notin> set v"
    using spec(2) splitOn_no_sep by metis
  ultimately have "partitionValues spec (PartitionKey s) = Inr ?vs" by blast
  then show ?thesis using ne len spec(1) by (simp add: PartitionName_def joinWith_splitOn)
qed

lemma collectNames_Inr: "collectNames s specs = Inr names \<Longrightarrow> map (PartitionName s) specs = map Inr names"
  by (induction specs arbitrary: names) auto

lemma WithDynamicPartitionCreation_Inr:
  assumes "WithDynamicPartitionCreation cfg = Inr settings"
  shows "1 \<le> MetadataAttempts settings" "MetadataAttempts settings \<le> 10"
    "0 \<le> RetryBackoff settings" "RetryBackoff settings \<le> 60 * second"
  using assms by (auto simp: WithDynamicPartitionCreation_def Let_def split: if_splits)

text \<open>The loop makes at most the attempts left and reports success exactly when its last check succeeded.\<close>

lemma ensureLoop_spec:
  assumes "ensureLoop env settings n attempt err = (result, checks)" "err \<noteq> None"
    and "checkAt env (attempt - 1) \<noteq> None"
  shows "attempt \<le> checks \<and> checks \<le> attempt + int n \<and> (result = None \<longleftrightarrow> checkAt env (checks - 1) = None)"
  using assms
proof (induction n arbitrary: attempt err)
  case (Suc n)
  show ?case
  proof (cases "checkAt env attempt")
    case None
    with Suc.prems show ?thesis by auto
  next
    case (Some e)
    show ?thesis
    proof (cases "\<not> pendingPartitionMetadata e \<or> attempt = MetadataAttempts settings
        \<or> waitContext (ensureWaitAt env attempt) (retryDelay settings attempt) \<noteq> None")
      case True
      then show ?thesis using Suc.prems(1) Some by (auto split: option.splits if_splits)
    next
      case False
      then have "ensureLoop env settings n (attempt + 1) (Some e) = (result, checks)"
        using Suc.prems(1) Some by simp
      from Suc.IH [OF this] Some show ?thesis by auto
    qed
  qed
qed auto

section \<open>Properties\<close>

text \<open>
  Partition names and specs are inverse to each other: the name of a spec decodes, with the same
  keys, to that spec, and the spec decoded from a name is named by it.
\<close>

theorem partition_name_roundtrip:
  assumes "distinct (PartitionKey s)" and "[] \<notin> set (PartitionKey s)" and "distinct (map fst spec)"
  shows "(PartitionName s spec = Inr name \<longrightarrow>
       (\<exists>spec'. PartitionSpecFromName (PartitionKey s) name = Inr spec' \<and> map_of spec' = map_of spec))
    \<and> (PartitionSpecFromName (PartitionKey s) name = Inr spec \<longrightarrow> PartitionName s spec = Inr name)"
  using PartitionName_SpecFromName [OF _ assms(3,1,2)] SpecFromName_PartitionName by blast

definition exPartitioned :: schema where
  "exPartitioned = \<lparr>Columns = [], PrimaryKey = [], BucketKey = [], PartitionKey = [''dt'', ''hour''],
     AutoIncrement = [], HighestFieldID = 0\<rparr>"

theorem partition_name_roundtrip_witness:
  "PartitionName exPartitioned [(''hour'', ''08''), (''dt'', ''20250102'')] = Inr ''20250102$08''
   \<and> (\<exists>spec'. PartitionSpecFromName [''dt'', ''hour''] ''20250102$08'' = Inr spec'
        \<and> map_of spec' = map_of [(''hour'', ''08''), (''dt'', ''20250102'')])"
proof -
  have name: "PartitionName exPartitioned [(''hour'', ''08''), (''dt'', ''20250102'')] = Inr ''20250102$08''"
    by code_simp
  have keys: "PartitionKey exPartitioned = [''dt'', ''hour'']" by (simp add: exPartitioned_def)
  have "distinct (PartitionKey exPartitioned)" "[] \<notin> set (PartitionKey exPartitioned)" by (simp_all add: keys)
  from partition_name_roundtrip [OF this, of "[(''hour'', ''08''), (''dt'', ''20250102'')]" "''20250102$08''"]
  show ?thesis using name by (simp only: keys) simp
qed

text \<open>
  Dynamic creation is bounded: with settings that the option accepts, \<^verbatim>\<open>ensure\<close> asks for at most one
  creation, and only after a check that reported the partition missing; it makes at most eleven checks,
  succeeds exactly when its last check did, and every delay between checks is at most a second.
\<close>

theorem dynamic_partition_bounded:
  assumes "WithDynamicPartitionCreation cfg = Inr settings" and "ensure env settings = r"
  shows "erCreates r \<le> 1
    \<and> (erCreates r = 1 \<longrightarrow> (\<exists>e. checkAt env 0 = Some e \<and> errorsIs e ErrUnknownPartition))
    \<and> 1 \<le> erChecks r \<and> erChecks r \<le> 1 + MetadataAttempts settings \<and> erChecks r \<le> 11
    \<and> (erErr r = None \<longleftrightarrow> checkAt env (erChecks r - 1) = None)
    \<and> 0 \<le> retryDelay settings attempt \<and> retryDelay settings attempt \<le> second"
proof -
  note s = WithDynamicPartitionCreation_Inr [OF assms(1)]
  have d: "0 \<le> retryDelay settings attempt \<and> retryDelay settings attempt \<le> second"
    using cappedDelay_bounds [OF s(3)] by (simp add: retryDelay_def)
  obtain result checks where
    l: "ensureLoop env settings (nat (MetadataAttempts settings)) 1 (checkAt env 0) = (result, checks)"
    by fastforce
  show ?thesis
  proof (cases "checkAt env 0")
    case None
    then show ?thesis using assms(2) s d by (auto simp: ensure_def)
  next
    case (Some e)
    then have "1 \<le> checks \<and> checks \<le> 1 + MetadataAttempts settings \<and> (result = None \<longleftrightarrow> checkAt env (checks - 1) = None)"
      using ensureLoop_spec [OF l] s by simp
    then show ?thesis using assms(2) s d Some l by (auto simp: ensure_def Let_def split: if_splits)
  qed
qed

theorem dynamic_partition_bounded_witness:
  "\<exists>settings. WithDynamicPartitionCreation \<lparr>MetadataAttempts = 0, RetryBackoff = 0\<rparr> = Inr settings
     \<and> erCreates (ensure \<lparr>checkAt = (\<lambda>i. if i < 2 then Some ErrUnknownPartition else None),
          createAns = None, ensureWaitAt = (\<lambda>_. None)\<rparr> settings) \<le> 1"
proof -
  have "WithDynamicPartitionCreation \<lparr>MetadataAttempts = 0, RetryBackoff = 0\<rparr>
      = Inr \<lparr>MetadataAttempts = 3, RetryBackoff = 25 * millisecond\<rparr>" by code_simp
  from dynamic_partition_bounded [OF this refl] this show ?thesis by blast
qed

end
