(* ===== verification/Protocol.thy ===== *)
theory Protocol
  imports Server_Errors
begin

text \<open>
  The protocol layer: the generated table of API keys with their version ranges
  (\<^verbatim>\<open>pkg/fmsg/api_keys_gen.go\<close>), construction and versioning of messages (\<^verbatim>\<open>pkg/fmsg/protocol.go\<close>), and
  the part of \<^verbatim>\<open>pkg/fgo/client.go\<close> that negotiates versions, sends a request on one connection and
  closes it. The generated protobuf messages and their wire format are parameters.
\<close>

section \<open>API keys\<close>

record api_metadata =
  apiKey :: int
  apiName :: string
  MinVersion :: int
  MaxVersion :: int
  apiPublic :: bool
  RequestName :: string
  ResponseName :: string

definition api :: "int \<Rightarrow> string \<Rightarrow> int \<Rightarrow> int \<Rightarrow> bool \<Rightarrow> string \<Rightarrow> string \<Rightarrow> api_metadata" where
  "api k n lo hi p req res = \<lparr>apiKey = k, apiName = n, MinVersion = lo, MaxVersion = hi, apiPublic = p,
     RequestName = req, ResponseName = res\<rparr>"

definition generatedAPIs :: "api_metadata list" where
  "generatedAPIs =
    [
     api 1000 ''API_VERSIONS'' 0 0 True
       ''ApiVersionsRequest'' ''ApiVersionsResponse'',
     api 1001 ''CREATE_DATABASE'' 0 0 True
       ''CreateDatabaseRequest'' ''CreateDatabaseResponse'',
     api 1002 ''DROP_DATABASE'' 0 0 True
       ''DropDatabaseRequest'' ''DropDatabaseResponse'',
     api 1003 ''LIST_DATABASES'' 0 0 True
       ''ListDatabasesRequest'' ''ListDatabasesResponse'',
     api 1004 ''DATABASE_EXISTS'' 0 0 True
       ''DatabaseExistsRequest'' ''DatabaseExistsResponse'',
     api 1005 ''CREATE_TABLE'' 0 0 True
       ''CreateTableRequest'' ''CreateTableResponse'',
     api 1006 ''DROP_TABLE'' 0 0 True
       ''DropTableRequest'' ''DropTableResponse'',
     api 1007 ''GET_TABLE_INFO'' 0 0 True
       ''GetTableInfoRequest'' ''GetTableInfoResponse'',
     api 1008 ''LIST_TABLES'' 0 0 True
       ''ListTablesRequest'' ''ListTablesResponse'',
     api 1009 ''LIST_PARTITION_INFOS'' 0 0 True
       ''ListPartitionInfosRequest'' ''ListPartitionInfosResponse'',
     api 1010 ''TABLE_EXISTS'' 0 0 True
       ''TableExistsRequest'' ''TableExistsResponse'',
     api 1011 ''GET_TABLE_SCHEMA'' 0 0 True
       ''GetTableSchemaRequest'' ''GetTableSchemaResponse'',
     api 1012 ''GET_METADATA'' 0 0 True
       ''MetadataRequest'' ''MetadataResponse'',
     api 1013 ''UPDATE_METADATA'' 0 0 False
       ''UpdateMetadataRequest'' ''UpdateMetadataResponse'',
     api 1014 ''PRODUCE_LOG'' 0 1 True
       ''ProduceLogRequest'' ''ProduceLogResponse'',
     api 1015 ''FETCH_LOG'' 0 0 True
       ''FetchLogRequest'' ''FetchLogResponse'',
     api 1016 ''PUT_KV'' 0 3 True
       ''PutKvRequest'' ''PutKvResponse'',
     api 1017 ''LOOKUP'' 0 1 True
       ''LookupRequest'' ''LookupResponse'',
     api 1018 ''NOTIFY_LEADER_AND_ISR'' 0 0 False
       ''NotifyLeaderAndIsrRequest'' ''NotifyLeaderAndIsrResponse'',
     api 1019 ''STOP_REPLICA'' 0 0 False
       ''StopReplicaRequest'' ''StopReplicaResponse'',
     api 1020 ''ADJUST_ISR'' 0 0 False
       ''AdjustIsrRequest'' ''AdjustIsrResponse'',
     api 1021 ''LIST_OFFSETS'' 0 0 True
       ''ListOffsetsRequest'' ''ListOffsetsResponse'',
     api 1022 ''COMMIT_KV_SNAPSHOT'' 0 0 False
       ''CommitKvSnapshotRequest'' ''CommitKvSnapshotResponse'',
     api 1023 ''GET_LATEST_KV_SNAPSHOTS'' 0 0 True
       ''GetLatestKvSnapshotsRequest'' ''GetLatestKvSnapshotsResponse'',
     api 1024 ''GET_KV_SNAPSHOT_METADATA'' 0 1 True
       ''GetKvSnapshotMetadataRequest'' ''GetKvSnapshotMetadataResponse'',
     api 1025 ''GET_FILESYSTEM_SECURITY_TOKEN'' 0 0 True
       ''GetFileSystemSecurityTokenRequest'' ''GetFileSystemSecurityTokenResponse'',
     api 1026 ''INIT_WRITER'' 0 0 True
       ''InitWriterRequest'' ''InitWriterResponse'',
     api 1027 ''COMMIT_REMOTE_LOG_MANIFEST'' 0 0 False
       ''CommitRemoteLogManifestRequest'' ''CommitRemoteLogManifestResponse'',
     api 1028 ''NOTIFY_REMOTE_LOG_OFFSETS'' 0 0 False
       ''NotifyRemoteLogOffsetsRequest'' ''NotifyRemoteLogOffsetsResponse'',
     api 1029 ''NOTIFY_KV_SNAPSHOT_OFFSET'' 0 0 False
       ''NotifyKvSnapshotOffsetRequest'' ''NotifyKvSnapshotOffsetResponse'',
     api 1030 ''COMMIT_LAKE_TABLE_SNAPSHOT'' 0 0 False
       ''CommitLakeTableSnapshotRequest'' ''CommitLakeTableSnapshotResponse'',
     api 1031 ''NOTIFY_LAKE_TABLE_OFFSET'' 0 0 False
       ''NotifyLakeTableOffsetRequest'' ''NotifyLakeTableOffsetResponse'',
     api 1032 ''GET_LAKE_SNAPSHOT'' 0 0 True
       ''GetLakeSnapshotRequest'' ''GetLakeSnapshotResponse'',
     api 1033 ''LIMIT_SCAN'' 0 0 True
       ''LimitScanRequest'' ''LimitScanResponse'',
     api 1034 ''PREFIX_LOOKUP'' 0 1 True
       ''PrefixLookupRequest'' ''PrefixLookupResponse'',
     api 1035 ''GET_DATABASE_INFO'' 0 0 True
       ''GetDatabaseInfoRequest'' ''GetDatabaseInfoResponse'',
     api 1036 ''CREATE_PARTITION'' 0 0 True
       ''CreatePartitionRequest'' ''CreatePartitionResponse'',
     api 1037 ''DROP_PARTITION'' 0 0 True
       ''DropPartitionRequest'' ''DropPartitionResponse'',
     api 1038 ''AUTHENTICATE'' 0 0 True
       ''AuthenticateRequest'' ''AuthenticateResponse'',
     api 1039 ''CREATE_ACLS'' 0 0 True
       ''CreateAclsRequest'' ''CreateAclsResponse'',
     api 1040 ''LIST_ACLS'' 0 0 True
       ''ListAclsRequest'' ''ListAclsResponse'',
     api 1041 ''DROP_ACLS'' 0 0 True
       ''DropAclsRequest'' ''DropAclsResponse'',
     api 1042 ''LAKE_TIERING_HEARTBEAT'' 0 0 False
       ''LakeTieringHeartbeatRequest'' ''LakeTieringHeartbeatResponse'',
     api 1043 ''CONTROLLED_SHUTDOWN'' 0 0 False
       ''ControlledShutdownRequest'' ''ControlledShutdownResponse'',
     api 1044 ''ALTER_TABLE'' 0 1 True
       ''AlterTableRequest'' ''AlterTableResponse'',
     api 1045 ''DESCRIBE_CLUSTER_CONFIGS'' 0 0 True
       ''DescribeClusterConfigsRequest'' ''DescribeClusterConfigsResponse'',
     api 1046 ''ALTER_CLUSTER_CONFIGS'' 0 0 True
       ''AlterClusterConfigsRequest'' ''AlterClusterConfigsResponse'',
     api 1047 ''ADD_SERVER_TAG'' 0 0 True
       ''AddServerTagRequest'' ''AddServerTagResponse'',
     api 1048 ''REMOVE_SERVER_TAG'' 0 0 True
       ''RemoveServerTagRequest'' ''RemoveServerTagResponse'',
     api 1049 ''REBALANCE'' 0 0 True
       ''RebalanceRequest'' ''RebalanceResponse'',
     api 1050 ''LIST_REBALANCE_PROGRESS'' 0 0 True
       ''ListRebalanceProgressRequest'' ''ListRebalanceProgressResponse'',
     api 1051 ''CANCEL_REBALANCE'' 0 0 True
       ''CancelRebalanceRequest'' ''CancelRebalanceResponse'',
     api 1052 ''PREPARE_LAKE_TABLE_SNAPSHOT'' 0 0 False
       ''PrepareLakeTableSnapshotRequest'' ''PrepareLakeTableSnapshotResponse'',
     api 1053 ''REGISTER_PRODUCER_OFFSETS'' 0 0 True
       ''RegisterProducerOffsetsRequest'' ''RegisterProducerOffsetsResponse'',
     api 1054 ''GET_PRODUCER_OFFSETS'' 0 0 True
       ''GetProducerOffsetsRequest'' ''GetProducerOffsetsResponse'',
     api 1055 ''DELETE_PRODUCER_OFFSETS'' 0 0 True
       ''DeleteProducerOffsetsRequest'' ''DeleteProducerOffsetsResponse'',
     api 1056 ''ACQUIRE_KV_SNAPSHOT_LEASE'' 0 0 True
       ''AcquireKvSnapshotLeaseRequest'' ''AcquireKvSnapshotLeaseResponse'',
     api 1057 ''RELEASE_KV_SNAPSHOT_LEASE'' 0 0 True
       ''ReleaseKvSnapshotLeaseRequest'' ''ReleaseKvSnapshotLeaseResponse'',
     api 1058 ''DROP_KV_SNAPSHOT_LEASE'' 0 0 True
       ''DropKvSnapshotLeaseRequest'' ''DropKvSnapshotLeaseResponse'',
     api 1059 ''GET_TABLE_STATS'' 0 0 True
       ''GetTableStatsRequest'' ''GetTableStatsResponse'',
     api 1060 ''ALTER_DATABASE'' 0 0 True
       ''AlterDatabaseRequest'' ''AlterDatabaseResponse'',
     api 1061 ''SCAN_KV'' 0 0 True
       ''ScanKvRequest'' ''ScanKvResponse'',
     api 1062 ''GET_CLUSTER_HEALTH'' 0 0 True
       ''GetClusterHealthRequest'' ''GetClusterHealthResponse'',
     api 1063 ''LIST_REMOTE_LOG_MANIFESTS'' 0 0 True
       ''ListRemoteLogManifestsRequest'' ''ListRemoteLogManifestsResponse'',
     api 1064 ''LIST_KV_SNAPSHOTS'' 0 0 True
       ''ListKvSnapshotsRequest'' ''ListKvSnapshotsResponse'',
     api 1065 ''ADD_SERVER_TAG_BY_RACK'' 0 0 True
       ''AddServerTagByRackRequest'' ''AddServerTagByRackResponse'',
     api 1066 ''REMOVE_SERVER_TAG_BY_RACK'' 0 0 True
       ''RemoveServerTagByRackRequest'' ''RemoveServerTagByRackResponse'']"

definition APIKeyApiVersions :: int where
  "APIKeyApiVersions = 1000"

definition LookupAPIKey :: "int \<Rightarrow> api_metadata option" where
  "LookupAPIKey key =
     (let index = key - 1000
      in if index < 0 \<or> index \<ge> int (length generatedAPIs) then None
         else Some (generatedAPIs ! nat index))"

definition validateAPI :: "int \<Rightarrow> int \<Rightarrow> bool \<Rightarrow> api_metadata result" where
  "validateAPI key version allowPrivate =
     (case LookupAPIKey key of None \<Rightarrow> Inl ErrUnknownAPIKey
      | Some a \<Rightarrow>
          if \<not> allowPrivate \<and> \<not> apiPublic a then Inl ErrPrivateAPI
          else if version < MinVersion a \<or> version > MaxVersion a then Inl ErrUnsupportedVersion
          else Inr a)"

section \<open>Messages\<close>

text \<open>A request and a response hold the metadata of their API, the wire version and the protobuf
  message, a parameter \<open>'m\<close>; \<^verbatim>\<open>None\<close> is a nil message. The constructors of empty messages and
  \<^verbatim>\<open>proto.Marshal\<close>/\<^verbatim>\<open>proto.Unmarshal\<close> are arguments. A nil receiver is the option's \<^verbatim>\<open>None\<close>.\<close>

record 'm message =
  msgAPI :: api_metadata
  msgVersion :: int
  msgMessage :: "'m option"

definition NewRequest :: "(int \<Rightarrow> 'm option) \<Rightarrow> int \<Rightarrow> int \<Rightarrow> 'm message result" where
  "NewRequest newRequestProto key version =
     andThen (validateAPI key version False) (\<lambda>a.
     Inr \<lparr>msgAPI = a, msgVersion = version, msgMessage = newRequestProto key\<rparr>)"

definition NewResponse :: "(int \<Rightarrow> 'm option) \<Rightarrow> int \<Rightarrow> int \<Rightarrow> 'm message result" where
  "NewResponse newResponseProto key version =
     andThen (validateAPI key version True) (\<lambda>a.
     Inr \<lparr>msgAPI = a, msgVersion = version, msgMessage = newResponseProto key\<rparr>)"

definition MessageRequest_NewResponse :: "(int \<Rightarrow> 'm option) \<Rightarrow> 'm message option \<Rightarrow> 'm message option" where
  "MessageRequest_NewResponse newResponseProto r =
     map_option (\<lambda>r. \<lparr>msgAPI = msgAPI r, msgVersion = msgVersion r,
       msgMessage = newResponseProto (apiKey (msgAPI r))\<rparr>) r"

definition APIKeyOf :: "'m message option \<Rightarrow> int" where
  "APIKeyOf r = (case r of None \<Rightarrow> 0 | Some r \<Rightarrow> apiKey (msgAPI r))"

definition VersionOf :: "'m message option \<Rightarrow> int" where
  "VersionOf r = (case r of None \<Rightarrow> 0 | Some r \<Rightarrow> msgVersion r)"

definition SetVersion :: "'m message option \<Rightarrow> int \<Rightarrow> 'm message result" where
  "SetVersion r version =
     (case r of None \<Rightarrow> Inl ErrInvalidArgument
      | Some r \<Rightarrow> andThen (validateAPI (apiKey (msgAPI r)) version False) (\<lambda>_.
                  Inr (r\<lparr>msgVersion := version\<rparr>)))"

definition Marshal :: "('m \<Rightarrow> bytes option) \<Rightarrow> 'm message option \<Rightarrow> bytes result" where
  "Marshal protoMarshal r =
     (case r of None \<Rightarrow> Inl ErrInvalidArgument
      | Some r \<Rightarrow> (case msgMessage r of None \<Rightarrow> Inl ErrInvalidArgument
          | Some m \<Rightarrow> (case protoMarshal m of None \<Rightarrow> Inl ErrMalformedMessage | Some body \<Rightarrow> Inr body)))"

definition Unmarshal :: "(bytes \<Rightarrow> 'm option) \<Rightarrow> bytes \<Rightarrow> 'm message option \<Rightarrow> 'm message result" where
  "Unmarshal protoUnmarshal body r =
     (case r of None \<Rightarrow> Inl ErrInvalidArgument
      | Some r \<Rightarrow> (case msgMessage r of None \<Rightarrow> Inl ErrInvalidArgument
          | Some _ \<Rightarrow> (case protoUnmarshal body of None \<Rightarrow> Inl ErrMalformedMessage
              | Some m \<Rightarrow> Inr (r\<lparr>msgMessage := Some m\<rparr>))))"

section \<open>One connection\<close>

text \<open>The fields of \<^verbatim>\<open>Client\<close> that concern one physical connection.\<close>

record physical_client =
  pcClosed :: bool
  pcVersions :: "int \<Rightarrow> int option"
  pcServerTypeID :: int
  pcAddress :: string

definition newPhysicalClient :: "string \<Rightarrow> physical_client" where
  "newPhysicalClient address =
     \<lparr>pcClosed = False, pcVersions = Map.empty, pcServerTypeID = 0, pcAddress = address\<rparr>"

text \<open>One \<^verbatim>\<open>PbApiVersion\<close> of the server: the key and the version range, all \<^verbatim>\<open>int32\<close>.\<close>

record server_api =
  saKey :: int
  saMin :: int
  saMax :: int

text \<open>Conversion to \<^verbatim>\<open>int16\<close> truncates.\<close>

definition int16 :: "int \<Rightarrow> int" where
  "int16 k = sint (word_of_int k :: 16 word)"

definition negotiateOne :: "server_api \<Rightarrow> (int \<Rightarrow> int option) \<Rightarrow> (int \<Rightarrow> int option)" where
  "negotiateOne server negotiated =
     (case LookupAPIKey (int16 (saKey server)) of None \<Rightarrow> negotiated
      | Some a \<Rightarrow>
          if saMax server < MinVersion a \<or> saMin server > MaxVersion a then negotiated
          else negotiated(apiKey a \<mapsto> int16 (min (MaxVersion a) (saMax server))))"

text \<open>\<^verbatim>\<open>negotiate\<close>, after the request was sent: \<open>response\<close> is the answer of the requester, the list of
  the server's versions with its type, or \<^verbatim>\<open>None\<close> for a message of another type.\<close>

definition negotiate ::
  "(server_api list \<times> int) option result \<Rightarrow> physical_client \<Rightarrow> physical_client result" where
  "negotiate response c =
     (case response of
        Inl e \<Rightarrow> Inl e
      | Inr None \<Rightarrow> Inl (Plain ''negotiate API versions: unexpected response'')
      | Inr (Some (servers, serverType)) \<Rightarrow>
          (let negotiated = fold negotiateOne servers Map.empty
           in if negotiated APIKeyApiVersions = None then Inl ErrUnsupportedAPI
              else Inr (c\<lparr>pcVersions := negotiated, pcServerTypeID := serverType\<rparr>)))"

text \<open>\<^verbatim>\<open>Client.request\<close>: \<open>send\<close> is the requester. The request is mutated by \<^verbatim>\<open>SetVersion\<close>.\<close>

definition client_request ::
  "('m message \<Rightarrow> 'r result) \<Rightarrow> physical_client \<Rightarrow> 'm message option \<Rightarrow> 'r result" where
  "client_request send c request =
     (if request = None then Inl ErrInvalidArgument
      else if pcClosed c then Inl ErrClosed
      else case pcVersions c (APIKeyOf request) of None \<Rightarrow> Inl ErrUnsupportedAPI
      | Some version \<Rightarrow>
          andThen (SetVersion request version) (\<lambda>r.
            case send r of
              Inl e \<Rightarrow> Inl (serverError e (apiKey (msgAPI r)) (pcAddress c))
            | Inr response \<Rightarrow> Inr response))"

definition ensureOpen :: "physical_client \<Rightarrow> unit result" where
  "ensureOpen c = (if pcClosed c then Inl ErrClosed else Inr ())"

definition markClosed :: "physical_client \<Rightarrow> bool \<times> physical_client" where
  "markClosed c = (if pcClosed c then (False, c) else (True, c\<lparr>pcClosed := True\<rparr>))"

text \<open>\<^verbatim>\<open>shutdown\<close>: the transport is closed by the first call only. The result says whether
  \<^verbatim>\<open>closeTransport\<close> ran.\<close>

definition shutdown :: "physical_client \<Rightarrow> bool \<times> physical_client" where
  "shutdown c = (let (first, c) = markClosed c in if \<not> first then (False, c) else (True, c))"

section \<open>Lemmas\<close>

lemma generatedAPIs_keys: "map apiKey generatedAPIs = [1000..1000 + int (length generatedAPIs) - 1]"
  by code_simp

lemma generatedAPIs_ranges: "\<forall>a \<in> set generatedAPIs. 0 \<le> MinVersion a \<and> MinVersion a \<le> MaxVersion a \<and> MaxVersion a \<le> 3"
  by code_simp

lemma LookupAPIKey_Some:
  assumes "LookupAPIKey k = Some a"
  shows "apiKey a = k" "a \<in> set generatedAPIs" "0 \<le> MinVersion a" "MinVersion a \<le> MaxVersion a" "MaxVersion a \<le> 3"
proof -
  have k: "0 \<le> k - 1000" "k - 1000 < int (length generatedAPIs)" and a: "a = generatedAPIs ! nat (k - 1000)"
    using assms by (auto simp: LookupAPIKey_def Let_def split: if_splits)
  then show "a \<in> set generatedAPIs" by (simp add: nat_less_iff)
  then show "0 \<le> MinVersion a" "MinVersion a \<le> MaxVersion a" "MaxVersion a \<le> 3"
    using generatedAPIs_ranges by auto
  have "apiKey a = map apiKey generatedAPIs ! nat (k - 1000)"
    using k by (simp add: a nat_less_iff)
  also have "\<dots> = [1000..1000 + int (length generatedAPIs) - 1] ! nat (k - 1000)"
    by (simp only: generatedAPIs_keys)
  also have "\<dots> = k" using k by (subst nth_upto) simp_all
  finally show "apiKey a = k" .
qed

lemma validateAPI_Inr_iff:
  "validateAPI k v p = Inr a \<longleftrightarrow>
     LookupAPIKey k = Some a \<and> (p \<or> apiPublic a) \<and> MinVersion a \<le> v \<and> v \<le> MaxVersion a"
  by (auto simp: validateAPI_def split: option.splits if_splits)

lemma int16_id: "- 32768 \<le> v \<Longrightarrow> v < 32768 \<Longrightarrow> int16 v = v"
  using signed_take_bit_int_eq_self [of 15 v] by (simp add: int16_def sint_sbintrunc')

text \<open>What the negotiated table promises of one key: the version is one both sides support, and the
  highest such.\<close>

definition versionAgreed :: "server_api list \<Rightarrow> int \<Rightarrow> int \<Rightarrow> bool" where
  "versionAgreed servers k v =
     (\<exists>a. LookupAPIKey k = Some a \<and> MinVersion a \<le> v \<and> v \<le> MaxVersion a \<and>
       (\<exists>s \<in> set servers. int16 (saKey s) = k \<and> v \<le> saMax s \<and> saMin s \<le> MaxVersion a \<and>
          (saMin s \<le> saMax s \<longrightarrow> saMin s \<le> v) \<and>
          (\<forall>w. MinVersion a \<le> w \<and> w \<le> MaxVersion a \<and> saMin s \<le> w \<and> w \<le> saMax s \<longrightarrow> w \<le> v)))"

lemma negotiateOne_agreed:
  assumes "negotiateOne s m k = Some v" "m k \<noteq> Some v"
  shows "versionAgreed [s] k v"
proof -
  obtain a where a: "LookupAPIKey (int16 (saKey s)) = Some a"
    and g: "\<not> (saMax s < MinVersion a \<or> saMin s > MaxVersion a)"
    and k: "k = apiKey a" and v: "v = int16 (min (MaxVersion a) (saMax s))"
    using assms by (auto simp: negotiateOne_def split: option.splits if_splits)
  note l = LookupAPIKey_Some [OF a]
  have "v = min (MaxVersion a) (saMax s)" unfolding v using g l by (intro int16_id) linarith+
  then show ?thesis
    using a g l(1,3,4) by (auto simp: versionAgreed_def k)
qed

lemma versionAgreed_mono: "versionAgreed ss k v \<Longrightarrow> set ss \<subseteq> set ss' \<Longrightarrow> versionAgreed ss' k v"
  unfolding versionAgreed_def by (meson subsetD)

lemma fold_negotiateOne_agreed:
  assumes "fold negotiateOne servers m k = Some v" "m k = None"
  shows "versionAgreed servers k v"
  using assms
proof (induction servers arbitrary: v rule: rev_induct)
  case (snoc s servers)
  show ?case
  proof (cases "fold negotiateOne servers m k = Some v")
    case True
    with snoc show ?thesis by (intro versionAgreed_mono [OF snoc.IH]) auto
  next
    case False
    with snoc show ?thesis by (intro versionAgreed_mono [OF negotiateOne_agreed]) auto
  qed
qed simp

lemma negotiate_agreed:
  assumes "negotiate (Inr (Some (servers, t))) c = Inr c'" "pcVersions c' k = Some v"
  shows "versionAgreed servers k v"
proof -
  have "pcVersions c' = fold negotiateOne servers Map.empty"
    using assms(1) by (auto simp: negotiate_def Let_def split: if_splits)
  with assms(2) show ?thesis by (intro fold_negotiateOne_agreed) auto
qed

section \<open>Property\<close>

text \<open>
  Version negotiation agrees with both sides: after a successful \<^verbatim>\<open>negotiate\<close>, the version of every
  key is one that the client and the server support, and the highest such. A request for that key is
  sent once, with exactly that version, and an error of the server comes back classified; the request
  can fail before it is sent only because the client is closed or the API is private.
\<close>

theorem negotiated_versions_agree:
  assumes "negotiate (Inr (Some (servers, t))) c = Inr c'" and "pcVersions c' k = Some v"
    and "LookupAPIKey k = Some (msgAPI r)" and "apiPublic (msgAPI r)" and "\<not> pcClosed c'"
  shows "versionAgreed servers k v
    \<and> client_request send c' (Some r) =
        (case send (r\<lparr>msgVersion := v\<rparr>) of
           Inl e \<Rightarrow> Inl (serverError e k (pcAddress c')) | Inr response \<Rightarrow> Inr response)"
proof -
  have agreed: "versionAgreed servers k v" by (rule negotiate_agreed [OF assms(1,2)])
  note key = LookupAPIKey_Some(1) [OF assms(3)]
  have "validateAPI k v False = Inr (msgAPI r)"
    using agreed assms(3,4) by (auto simp: validateAPI_Inr_iff versionAgreed_def)
  then have "SetVersion (Some r) v = Inr (r\<lparr>msgVersion := v\<rparr>)" by (simp add: SetVersion_def key)
  then have "client_request send c' (Some r) =
      (case send (r\<lparr>msgVersion := v\<rparr>) of
         Inl e \<Rightarrow> Inl (serverError e k (pcAddress c')) | Inr response \<Rightarrow> Inr response)"
    using assms(2,5) by (simp add: client_request_def APIKeyOf_def key split: sum.split)
  with agreed show ?thesis by blast
qed

definition exServers :: "server_api list" where
  "exServers = [\<lparr>saKey = 1000, saMin = 0, saMax = 0\<rparr>, \<lparr>saKey = 1016, saMin = 1, saMax = 9\<rparr>,
     \<lparr>saKey = 2000, saMin = 0, saMax = 0\<rparr>]"

theorem negotiated_versions_agree_witness:
  "\<exists>c' a. negotiate (Inr (Some (exServers, 1))) (newPhysicalClient ''host'') = Inr c'
     \<and> LookupAPIKey 1016 = Some a \<and> versionAgreed exServers 1016 3
     \<and> client_request (\<lambda>m. Inr (msgVersion m)) c'
         (Some \<lparr>msgAPI = a, msgVersion = 0, msgMessage = Some ()\<rparr>) = Inr 3"
proof -
  define m where "m = fold negotiateOne exServers Map.empty"
  define c' where "c' = newPhysicalClient ''host''\<lparr>pcVersions := m, pcServerTypeID := 1\<rparr>"
  have m: "m 1000 = Some 0" "m 1016 = Some 3" unfolding m_def by code_simp+
  have n: "negotiate (Inr (Some (exServers, 1))) (newPhysicalClient ''host'') = Inr c'"
    using m(1) by (simp add: negotiate_def m_def [symmetric] c'_def APIKeyApiVersions_def)
  obtain a where a: "LookupAPIKey 1016 = Some a" "apiPublic a"
  proof -
    have "LookupAPIKey 1016 = Some (generatedAPIs ! 16)" by code_simp
    moreover have "apiPublic (generatedAPIs ! 16)" by code_simp
    ultimately show thesis by (rule that)
  qed
  let ?r = "\<lparr>msgAPI = a, msgVersion = 0, msgMessage = Some ()\<rparr>"
  have v: "pcVersions c' 1016 = Some 3" "\<not> pcClosed c'"
    using m(2) by (simp_all add: c'_def newPhysicalClient_def)
  have "versionAgreed exServers 1016 3 \<and> client_request (\<lambda>m. Inr (msgVersion m)) c' (Some ?r) = Inr 3"
    using negotiated_versions_agree [OF n v(1), of ?r "\<lambda>m. Inr (msgVersion m)"] a v(2) by simp
  with n a(1) show ?thesis by blast
qed

end
