(* ===== verification/Append_Config.thy ===== *)
theory Append_Config
  imports Partitions Record_Batch Bucketing
begin

text \<open>
  Configuration and construction of an append writer: \<^verbatim>\<open>pkg/fgo/append_writer_options.go\<close> and the first
  part of \<^verbatim>\<open>pkg/fgo/log_writer.go\<close>. An option is a function on configurations that may fail; \<^verbatim>\<open>None\<close> in a
  list of options is a nil one. What the backend answers while a writer is made is an argument.
\<close>

section \<open>Options\<close>

record append_config =
  acMaxBatchBytes :: int
  acMaxBatchRecords :: int
  acMaxBuffered :: int
  acMaxConcurrentRequests :: int
  acBatchTimeout :: int
  acRequestTimeout :: int
  acAcks :: int
  acRetryPolicy :: retry_policy
  acNoKeyAssigner :: string
  acPartition :: string
  acFormat :: string
  acArrowCompressionType :: int
  acArrowCompressionSet :: bool

type_synonym append_option = "append_config \<Rightarrow> append_config result"

definition NoKeyAssignerSticky :: string where "NoKeyAssignerSticky = ''sticky''"
definition NoKeyAssignerRoundRobin :: string where "NoKeyAssignerRoundRobin = ''round-robin''"
definition LogFormatAuto :: string where "LogFormatAuto = ''auto''"
definition LogFormatArrow :: string where "LogFormatArrow = ''arrow''"
definition LogFormatIndexed :: string where "LogFormatIndexed = ''indexed''"
definition LogFormatCompacted :: string where "LogFormatCompacted = ''compacted''"

definition WithAppendBatchLimits :: "int \<Rightarrow> int \<Rightarrow> append_option" where
  "WithAppendBatchLimits bytes records config =
     guardE (bytes \<le> int logBatchV0HeaderSize \<or> bytes > maxRowBytes \<or> records \<le> 0) ErrInvalidConfig (
     Inr (config\<lparr>acMaxBatchBytes := bytes, acMaxBatchRecords := records\<rparr>))"

definition WithAppendBuffer :: "int \<Rightarrow> append_option" where
  "WithAppendBuffer records config =
     guardE (records \<le> 0) ErrInvalidConfig (Inr (config\<lparr>acMaxBuffered := records\<rparr>))"

definition WithAppendConcurrency :: "int \<Rightarrow> append_option" where
  "WithAppendConcurrency requests config =
     guardE (requests < 1 \<or> requests > 64) ErrInvalidConfig (
     Inr (config\<lparr>acMaxConcurrentRequests := requests\<rparr>))"

definition WithAppendBatchTimeout :: "int \<Rightarrow> append_option" where
  "WithAppendBatchTimeout timeout config =
     guardE (timeout < 0) ErrInvalidConfig (Inr (config\<lparr>acBatchTimeout := timeout\<rparr>))"

definition maxInt32 :: int where "maxInt32 = 2147483647"

definition WithAppendRequest :: "int \<Rightarrow> int \<Rightarrow> append_option" where
  "WithAppendRequest timeout acks config =
     guardE (timeout \<le> 0 \<or> timeout div millisecond > maxInt32 \<or> (acks \<noteq> 0 \<and> acks \<noteq> 1 \<and> acks \<noteq> -1))
       ErrInvalidConfig (
     Inr (config\<lparr>acRequestTimeout := timeout, acAcks := acks\<rparr>))"

definition WithAppendRetryPolicy :: "retry_policy \<Rightarrow> append_option" where
  "WithAppendRetryPolicy policy config = Inr (config\<lparr>acRetryPolicy := policy\<rparr>)"

definition WithAppendNoKeyAssigner :: "string \<Rightarrow> append_option" where
  "WithAppendNoKeyAssigner assigner config =
     (if assigner \<in> {NoKeyAssignerSticky, NoKeyAssignerRoundRobin}
      then Inr (config\<lparr>acNoKeyAssigner := assigner\<rparr>) else Inl ErrInvalidConfig)"

definition WithAppendPartition :: "string \<Rightarrow> append_option" where
  "WithAppendPartition part config =
     andThen (PhysicalTablePath_Validate
       \<lparr>ppTable = \<lparr>Database = ''d'', TableName = ''t''\<rparr>, Partition = part\<rparr>) (\<lambda>_.
     Inr (config\<lparr>acPartition := part\<rparr>))"

definition WithAppendPartitionSpec :: "schema \<Rightarrow> partition_spec \<Rightarrow> append_option" where
  "WithAppendPartitionSpec s spec config =
     andThen (PartitionName s spec) (\<lambda>part. Inr (config\<lparr>acPartition := part\<rparr>))"

definition WithAppendLogFormat :: "string \<Rightarrow> append_option" where
  "WithAppendLogFormat format config =
     (if format \<in> {LogFormatAuto, LogFormatArrow, LogFormatIndexed, LogFormatCompacted}
      then Inr (config\<lparr>acFormat := format\<rparr>) else Inl ErrInvalidConfig)"

definition WithAppendArrowCompression :: "int \<Rightarrow> append_option" where
  "WithAppendArrowCompression compression config =
     (if compression \<in> {0, 1, 2}
      then Inr (config\<lparr>acArrowCompressionType := compression, acArrowCompressionSet := True\<rparr>)
      else Inl ErrInvalidConfig)"

definition defaultAppendConfig :: append_config where
  "defaultAppendConfig =
     \<lparr>acMaxBatchBytes = 1048576, acMaxBatchRecords = 1000, acMaxBuffered = 10000,
      acMaxConcurrentRequests = 4, acBatchTimeout = 5 * millisecond, acRequestTimeout = 30 * second,
      acAcks = -1, acRetryPolicy = defaultWriterRetryPolicy, acNoKeyAssigner = [], acPartition = [],
      acFormat = LogFormatAuto, acArrowCompressionType = 0, acArrowCompressionSet = False\<rparr>"

fun applyOptions :: "('c \<Rightarrow> 'c result) option list \<Rightarrow> 'c \<Rightarrow> 'c result" where
  "applyOptions [] config = Inr config"
| "applyOptions (None # options) config = Inl ErrInvalidConfig"
| "applyOptions (Some opt # options) config = andThen (opt config) (applyOptions options)"

definition appendWriterConfig :: "append_option option list \<Rightarrow> append_config result" where
  "appendWriterConfig options =
     andThen (applyOptions options defaultAppendConfig) (\<lambda>config.
     andThen (validateWriterRetryPolicy (acRetryPolicy config) (acAcks config)) (\<lambda>_.
     Inr config))"

section \<open>Construction\<close>

definition validateAppendWriterTable :: "table \<Rightarrow> unit result" where
  "validateAppendWriterTable t =
     andThen (RequireLog t) (\<lambda>_.
     andThen (Schema_Validate (tblSchema t)) (\<lambda>_.
     guardE (tblSchemaID t < 0 \<or> tblSchemaID t > 32767) ErrInvalidSchema (Inr ())))"

text \<open>\<^verbatim>\<open>strings.EqualFold\<close> against a format name: these hold ASCII letters only, none of which (\<^verbatim>\<open>k\<close>, \<^verbatim>\<open>s\<close>)
  has a non-ASCII character that folds to it.\<close>

definition asciiLower :: "char \<Rightarrow> char" where
  "asciiLower c = (if 65 \<le> (of_char c :: nat) \<and> (of_char c :: nat) \<le> 90 then char_of ((of_char c :: nat) + 32) else c)"

definition equalFold :: "string \<Rightarrow> string \<Rightarrow> bool" where
  "equalFold a b \<longleftrightarrow> map asciiLower a = map asciiLower b"

definition validateAppendWriterFormat :: "table \<Rightarrow> append_config \<Rightarrow> unit result" where
  "validateAppendWriterFormat t config =
     guardE (acArrowCompressionSet config \<and> acFormat config \<noteq> LogFormatAuto \<and> acFormat config \<noteq> LogFormatArrow)
       ErrInvalidConfig (
     let configured = TrimSpace (case map_of (tblProperties t) ''table.log.format'' of None \<Rightarrow> [] | Some v \<Rightarrow> v)
     in guardE (configured \<noteq> [] \<and> acFormat config \<noteq> LogFormatAuto \<and> \<not> equalFold configured (acFormat config))
          ErrInvalidConfig (Inr ()))"

text \<open>What the backend answers: \<^verbatim>\<open>ensurePartition\<close> (the error, if any; a backend without that method never
  fails), \<^verbatim>\<open>metadata\<close> (the physical identifier and the bucket identifiers), \<^verbatim>\<open>initWriter\<close>.\<close>

record writer_backend =
  ensurePartitionAns :: "go_error option"
  metadataAns :: "(int \<times> int list) result"
  initWriterAns :: "int \<Rightarrow> int result"

text \<open>The fields of \<^verbatim>\<open>AppendWriter\<close> that do not change after construction.\<close>

record append_static =
  awTable :: table
  awPath :: physical_path
  awConfig :: append_config
  awTableID :: int
  awPartitionID :: int
  awWriterID :: int
  awBuckets :: "int list"

definition newAppendWriter :: "writer_backend \<Rightarrow> table \<Rightarrow> append_option option list \<Rightarrow> append_static result" where
  "newAppendWriter backend t options =
     andThen (validateAppendWriterTable t) (\<lambda>_.
     andThen (appendWriterConfig options) (\<lambda>config.
     andThen (validateAppendWriterFormat t config) (\<lambda>_.
     let path = \<lparr>ppTable = tblPath t, Partition = acPartition config\<rparr>
     in case ensurePartitionAns backend of
          Some e \<Rightarrow> Inl e
        | None \<Rightarrow>
            andThen (metadataAns backend) (\<lambda>(physicalID, locations).
            guardE (Partition path = [] \<and> physicalID \<noteq> tblID t) ErrMetadata (
            andThen (sortedBuckets locations) (\<lambda>buckets.
            guardE (tblBucketCount t \<noteq> 0 \<and> tblBucketCount t \<noteq> int (length buckets)) ErrMetadata (
            andThen (go_index buckets 0) (\<lambda>first.
            andThen (initWriterAns backend first) (\<lambda>writerID.
            Inr \<lparr>awTable = t, awPath = path, awConfig = config, awTableID = tblID t,
                 awPartitionID = (if Partition path \<noteq> [] then physicalID else -1),
                 awWriterID = writerID, awBuckets = buckets\<rparr>)))))))))"

section \<open>What a constructed writer satisfies\<close>

text \<open>The bounds every option keeps.\<close>

definition validAppendConfig :: "append_config \<Rightarrow> bool" where
  "validAppendConfig config \<longleftrightarrow>
     0 < acMaxBatchBytes config \<and> acMaxBatchBytes config \<le> maxRowBytes
     \<and> 0 < acMaxBatchRecords config \<and> 0 < acMaxBuffered config
     \<and> 1 \<le> acMaxConcurrentRequests config \<and> acMaxConcurrentRequests config \<le> 64
     \<and> 0 \<le> acBatchTimeout config \<and> 0 < acRequestTimeout config
     \<and> acRequestTimeout config div millisecond \<le> maxInt32
     \<and> acAcks config \<in> {-1, 0, 1} \<and> acNoKeyAssigner config \<in> {[], NoKeyAssignerSticky, NoKeyAssignerRoundRobin}
     \<and> acFormat config \<in> {LogFormatAuto, LogFormatArrow, LogFormatIndexed, LogFormatCompacted}"

text \<open>The options of the package.\<close>

inductive packageOption :: "append_option \<Rightarrow> bool" where
  "packageOption (WithAppendBatchLimits bytes records)"
| "packageOption (WithAppendBuffer records)"
| "packageOption (WithAppendConcurrency requests)"
| "packageOption (WithAppendBatchTimeout timeout)"
| "packageOption (WithAppendRequest timeout acks)"
| "packageOption (WithAppendRetryPolicy policy)"
| "packageOption (WithAppendNoKeyAssigner assigner)"
| "packageOption (WithAppendPartition part)"
| "packageOption (WithAppendPartitionSpec s spec)"
| "packageOption (WithAppendLogFormat format)"
| "packageOption (WithAppendArrowCompression compression)"

lemma validAppendConfig_default: "validAppendConfig defaultAppendConfig"
  by code_simp

lemmas append_option_defs =
  WithAppendBatchLimits_def WithAppendBuffer_def WithAppendConcurrency_def WithAppendBatchTimeout_def
  WithAppendRequest_def WithAppendRetryPolicy_def WithAppendNoKeyAssigner_def WithAppendPartition_def
  WithAppendPartitionSpec_def WithAppendLogFormat_def WithAppendArrowCompression_def

lemma packageOption_valid:
  assumes "packageOption opt" "opt config = Inr config'" "validAppendConfig config"
  shows "validAppendConfig config'"
  using assms
  by (induction rule: packageOption.induct)
    (clarsimp simp: append_option_defs not_le not_less split: if_splits; simp add: validAppendConfig_def)+

lemma applyOptions_invariant:
  assumes "applyOptions options config = Inr config'" "P config"
    and "\<And>opt c c'. Some opt \<in> set options \<Longrightarrow> opt c = Inr c' \<Longrightarrow> P c \<Longrightarrow> P c'"
  shows "P config'"
  using assms
proof (induction options config rule: applyOptions.induct)
  case (3 opt options config)
  then obtain c where c: "opt config = Inr c" "applyOptions options c = Inr config'" by auto
  have "P c" using "3.prems"(3) [of opt config c] c(1) "3.prems"(2) by simp
  then show ?case using "3.IH" [OF c(1,2)] "3.prems"(3) by (meson list.set_intros(2))
qed auto

text \<open>What the loop relies on.\<close>

definition validAppendStatic :: "append_static \<Rightarrow> bool" where
  "validAppendStatic w \<longleftrightarrow>
     awBuckets w \<noteq> [] \<and> distinct (awBuckets w) \<and> int (length (awBuckets w)) < 2 ^ 31
     \<and> 0 < acMaxBuffered (awConfig w) \<and> 0 < acMaxBatchRecords (awConfig w)
     \<and> 1 \<le> acMaxConcurrentRequests (awConfig w) \<and> Schema_Validate (tblSchema (awTable w)) = Inr ()"

lemma newAppendWriter_valid:
  assumes "newAppendWriter backend t options = Inr w"
    and "\<forall>opt. Some opt \<in> set options \<longrightarrow> packageOption opt"
    and "\<forall>i ids. metadataAns backend = Inr (i, ids) \<longrightarrow> distinct ids \<and> int (length ids) < 2 ^ 31"
  shows "validAppendStatic w \<and> validAppendConfig (awConfig w)
    \<and> validateWriterRetryPolicy (acRetryPolicy (awConfig w)) (acAcks (awConfig w)) = Inr ()"
proof -
  obtain config physicalID locations where c: "appendWriterConfig options = Inr config"
    and s: "Schema_Validate (tblSchema t) = Inr ()" and m: "metadataAns backend = Inr (physicalID, locations)"
    and b: "sortedBuckets locations = Inr (awBuckets w)" and w: "awTable w = t" "awConfig w = config"
    using assms(1)
    by (auto simp: newAppendWriter_def validateAppendWriterTable_def Let_def split: option.splits prod.splits)
  have "applyOptions options defaultAppendConfig = Inr config"
    and r: "validateWriterRetryPolicy (acRetryPolicy config) (acAcks config) = Inr ()"
    using c by (auto simp: appendWriterConfig_def)
  then have v: "validAppendConfig config"
    using applyOptions_invariant [of options defaultAppendConfig config validAppendConfig]
      validAppendConfig_default assms(2) packageOption_valid by blast
  have "distinct (awBuckets w)" "awBuckets w \<noteq> []" "int (length (awBuckets w)) < 2 ^ 31"
    using sortedBuckets_Inr [OF b] assms(3) m by (auto dest: arg_cong [of _ _ length])
  then show ?thesis using v r s by (simp add: validAppendStatic_def w validAppendConfig_def)
qed

end
