(* ===== verification/Batch_Scheduler.thy ===== *)
theory Batch_Scheduler
  imports Go_Prelude
begin

text \<open>
  The scheduling core of the two writer loops (\<^verbatim>\<open>appendWriterLoop\<close> of \<^verbatim>\<open>pkg/fgo/log_writer.go\<close> and
  \<^verbatim>\<open>upsertWriterLoop\<close> of \<^verbatim>\<open>pkg/fgo/kv_writer.go\<close>), over an arbitrary type \<open>'b\<close> of batches: queues of full
  batches per bucket, the buckets with a request in flight, the sequence number of the next batch of
  each bucket, and the buckets that an error has poisoned.

  The state of the loop is a record. Two fields are not variables of the program: \<open>running\<close> holds the
  \<^verbatim>\<open>executeBatch\<close> goroutines whose completion the loop has not handled yet, with their arguments, and
  \<open>dispatched\<close> is the history of all goroutines started, oldest first.
\<close>

type_synonym 'b request = "int \<times> 'b \<times> 32 word"

record 'b scheduler =
  pending :: "int \<Rightarrow> 'b list"
  active :: "int \<Rightarrow> bool"
  sequences :: "int \<Rightarrow> 32 word"
  poisoned :: "int \<Rightarrow> go_error option"
  inFlight :: int
  running :: "'b request list"
  dispatched :: "'b request list"

definition newScheduler :: "'b scheduler" where
  "newScheduler = \<lparr>pending = (\<lambda>_. []), active = (\<lambda>_. False), sequences = (\<lambda>_. 0), poisoned = (\<lambda>_. None),
     inFlight = 0, running = [], dispatched = []\<rparr>"

section \<open>Dispatch\<close>

text \<open>The body of the inner loop of \<^verbatim>\<open>dispatch\<close> for a bucket that has work and is idle.\<close>

definition startBatch :: "int \<Rightarrow> 'b scheduler \<Rightarrow> 'b scheduler" where
  "startBatch bucket l =
     (case pending l bucket of [] \<Rightarrow> l
      | batch # rest \<Rightarrow>
          (let request = (bucket, batch, sequences l bucket)
           in l\<lparr>pending := (pending l)(bucket := rest), active := (active l)(bucket := True),
                inFlight := inFlight l + 1, running := running l @ [request],
                dispatched := dispatched l @ [request]\<rparr>))"

fun dispatchPass :: "int \<Rightarrow> int list \<Rightarrow> bool \<Rightarrow> 'b scheduler \<Rightarrow> bool \<times> 'b scheduler" where
  "dispatchPass limit [] started l = (started, l)"
| "dispatchPass limit (bucket # buckets) started l =
     (if active l bucket \<or> pending l bucket = [] then dispatchPass limit buckets started l
      else
        (let l = startBatch bucket l
         in if inFlight l = limit then (True, l) else dispatchPass limit buckets True l))"

lemma inFlight_startBatch: "pending l b \<noteq> [] \<Longrightarrow> inFlight (startBatch b l) = inFlight l + 1"
  by (auto simp: startBatch_def Let_def split: list.splits)

lemma dispatchPass_inFlight:
  assumes "dispatchPass limit buckets started l = (d, l')"
  shows "inFlight l \<le> inFlight l'" "d \<Longrightarrow> started \<or> inFlight l < inFlight l'"
  using assms
  by (induction limit buckets started l rule: dispatchPass.induct)
    (force simp: Let_def inFlight_startBatch split: if_splits)+

function dispatch :: "int \<Rightarrow> int list \<Rightarrow> 'b scheduler \<Rightarrow> 'b scheduler" where
  "dispatch limit buckets l =
     (if inFlight l < limit
      then (case dispatchPass limit buckets False l of
              (started, l') \<Rightarrow> if \<not> started then l' else dispatch limit buckets l')
      else l)"
  by pat_completeness auto

termination dispatch
proof (relation "measure (\<lambda>(limit, _, l). nat (limit - inFlight l))")
  fix limit :: int and buckets and l l' :: "'b scheduler" and started
  assume "inFlight l < limit" "(started, l') = dispatchPass limit buckets False l" "\<not> \<not> started"
  then have "inFlight l < inFlight l'" using dispatchPass_inFlight(2) [of limit buckets False l started l'] by simp
  then show "((limit, buckets, l'), (limit, buckets, l)) \<in> measure (\<lambda>(limit, _, l). nat (limit - inFlight l))"
    using \<open>inFlight l < limit\<close> by simp
qed simp

declare dispatch.simps [simp del]

section \<open>Queueing and completing\<close>

text \<open>The tail of \<^verbatim>\<open>flushBucket\<close> for a bucket that is not poisoned.\<close>

definition enqueueBatch :: "int \<Rightarrow> int list \<Rightarrow> int \<Rightarrow> 'b \<Rightarrow> 'b scheduler \<Rightarrow> 'b scheduler" where
  "enqueueBatch limit buckets bucket batch l =
     dispatch limit buckets (l\<lparr>pending := (pending l)(bucket := pending l bucket @ [batch])\<rparr>)"

text \<open>The scheduling part of \<^verbatim>\<open>handleCompletion\<close>: the batches of the queue that a failure takes down are
  returned, to be completed with the error. The goroutine of the bucket leaves \<open>running\<close>.\<close>

definition finishBatch ::
  "int \<Rightarrow> int list \<Rightarrow> int \<Rightarrow> go_error option \<Rightarrow> 'b scheduler \<Rightarrow> 'b list \<times> 'b scheduler" where
  "finishBatch limit buckets bucket err l =
     (let l = l\<lparr>active := (active l)(bucket := False), inFlight := inFlight l - 1,
                running := filter (\<lambda>r. fst r \<noteq> bucket) (running l)\<rparr>
      in case err of
           Some e \<Rightarrow>
             (pending l bucket,
              dispatch limit buckets
                (l\<lparr>poisoned := (poisoned l)(bucket := Some e), pending := (pending l)(bucket := [])\<rparr>))
         | None \<Rightarrow>
             ([], dispatch limit buckets
                    (l\<lparr>sequences := (sequences l)(bucket := sequences l bucket + 1)\<rparr>)))"

section \<open>What dispatch does\<close>

text \<open>Every change that dispatch makes is a start of some idle bucket with work while the limit is not
  reached: an invariant of such starts is one of dispatch.\<close>

lemma dispatchPass_invariant:
  assumes "P l" "inFlight l < limit"
    and "\<And>l b. P l \<Longrightarrow> inFlight l < limit \<Longrightarrow> b \<in> set buckets \<Longrightarrow> \<not> active l b \<Longrightarrow> pending l b \<noteq> []
           \<Longrightarrow> P (startBatch b l)"
  shows "P (snd (dispatchPass limit buckets started l))
    \<and> inFlight (snd (dispatchPass limit buckets started l)) \<le> limit"
  using assms
proof (induction limit buckets started l rule: dispatchPass.induct)
  case (2 limit b bs started l)
  note start = "2.prems"(3)
  show ?case
  proof (cases "active l b \<or> pending l b = []")
    case True
    have "P (snd (dispatchPass limit bs started l)) \<and> inFlight (snd (dispatchPass limit bs started l)) \<le> limit"
      by (rule "2.IH"(1) [OF True "2.prems"(1,2)]) (rule start; simp)
    with True show ?thesis by simp
  next
    case False
    let ?l = "startBatch b l"
    have P: "P ?l" using False "2.prems" by (intro start) simp_all
    have i: "inFlight ?l = inFlight l + 1" using False by (simp add: inFlight_startBatch)
    show ?thesis
    proof (cases "inFlight ?l = limit")
      case True
      with False P show ?thesis by (simp add: Let_def)
    next
      case neq: False
      have "P (snd (dispatchPass limit bs True ?l)) \<and> inFlight (snd (dispatchPass limit bs True ?l)) \<le> limit"
      proof (rule "2.IH"(2) [OF False refl neq P])
        show "inFlight ?l < limit" using neq i "2.prems"(2) by simp
      qed (rule start; simp)
      with False neq show ?thesis by (simp add: Let_def)
    qed
  qed
qed simp

lemma dispatch_invariant:
  assumes "P l"
    and "\<And>l b. P l \<Longrightarrow> inFlight l < limit \<Longrightarrow> b \<in> set buckets \<Longrightarrow> \<not> active l b \<Longrightarrow> pending l b \<noteq> []
           \<Longrightarrow> P (startBatch b l)"
  shows "P (dispatch limit buckets l)"
  using assms
proof (induction limit buckets l rule: dispatch.induct)
  case (1 limit buckets l)
  show ?case
  proof (cases "inFlight l < limit")
    case True
    obtain d l' where d: "dispatchPass limit buckets False l = (d, l')" by (cases "dispatchPass limit buckets False l")
    have "P l'" using dispatchPass_invariant [of P l limit buckets False] "1.prems" True d by auto
    then show ?thesis
      using "1.IH" [OF True d [symmetric] _ _ "1.prems"(2)] True d
      by (subst dispatch.simps) auto
  qed (use "1.prems" in \<open>simp add: dispatch.simps\<close>)
qed

text \<open>A pass that starts nothing leaves no idle bucket with work behind.\<close>

lemma dispatchPass_started: "fst (dispatchPass limit buckets True l)"
  by (induction buckets arbitrary: l) (auto simp: Let_def)

lemma dispatchPass_idle:
  "\<not> fst (dispatchPass limit buckets False l) \<Longrightarrow>
     snd (dispatchPass limit buckets False l) = l \<and> (\<forall>b \<in> set buckets. active l b \<or> pending l b = [])"
proof (induction buckets)
  case (Cons b bs)
  have "active l b \<or> pending l b = []"
  proof (rule ccontr)
    assume "\<not> (active l b \<or> pending l b = [])"
    then have "fst (dispatchPass limit (b # bs) False l)" by (simp add: Let_def dispatchPass_started)
    with Cons.prems show False by simp
  qed
  with Cons show ?case by simp
qed simp

lemma dispatch_work_conserving:
  assumes "inFlight l \<le> limit"
  shows "(\<forall>b \<in> set buckets. active (dispatch limit buckets l) b \<or> pending (dispatch limit buckets l) b = [])
    \<or> inFlight (dispatch limit buckets l) = limit"
  using assms
proof (induction limit buckets l rule: dispatch.induct)
  case (1 limit buckets l)
  show ?case
  proof (cases "inFlight l < limit")
    case True
    obtain d l' where d: "dispatchPass limit buckets False l = (d, l')" by (cases "dispatchPass limit buckets False l")
    have le: "inFlight l' \<le> limit"
      using dispatchPass_invariant [of "\<lambda>_. True" l limit buckets False] True d by auto
    show ?thesis
    proof (cases d)
      case started: True
      have "dispatch limit buckets l = dispatch limit buckets l'"
        using True d started by (subst dispatch.simps) simp
      with "1.IH" [OF True d [symmetric] _ le] started show ?thesis by simp
    next
      case False
      then have "dispatch limit buckets l = l'" using True d by (subst dispatch.simps) simp
      with dispatchPass_idle [of limit buckets l] d False show ?thesis by simp
    qed
  next
    case False
    with "1.prems" show ?thesis by (simp add: dispatch.simps)
  qed
qed

end
