(* ===== verification/Scheduler_Invariants.thy ===== *)
theory Scheduler_Invariants
  imports Batch_Scheduler "HOL-Library.Multiset"
begin

text \<open>
  What the scheduling core guarantees, whatever the batches are: its operations as a step relation, the
  invariant of those steps, the order in which batches leave, the batches still inside, and an
  interface (a locale) that hands all of it to any writer loop built on the core.
\<close>

section \<open>Steps\<close>

inductive sched_step :: "int \<Rightarrow> int list \<Rightarrow> 'b scheduler \<Rightarrow> 'b scheduler \<Rightarrow> bool"
  for limit :: int and buckets :: "int list" where
  enqueue: "b \<in> set buckets \<Longrightarrow> poisoned l b = None \<Longrightarrow>
     sched_step limit buckets l (enqueueBatch limit buckets b batch l)"
| finish: "active l b \<Longrightarrow> sched_step limit buckets l (snd (finishBatch limit buckets b err l))"

section \<open>The invariant\<close>

definition requestsOf :: "'b scheduler \<Rightarrow> int \<Rightarrow> 'b request list" where
  "requestsOf l b = filter (\<lambda>r. fst r = b) (dispatched l)"

definition seqsOf :: "'b scheduler \<Rightarrow> int \<Rightarrow> 32 word list" where
  "seqsOf l b = map (snd \<circ> snd) (requestsOf l b)"

definition sentOf :: "'b scheduler \<Rightarrow> int \<Rightarrow> 'b list" where
  "sentOf l b = map (fst \<circ> snd) (requestsOf l b)"

text \<open>The running requests are one per active bucket and as many as counted.\<close>

definition running_ok :: "int \<Rightarrow> 'b scheduler \<Rightarrow> bool" where
  "running_ok limit l \<longleftrightarrow> inFlight l = int (length (running l)) \<and> inFlight l \<le> limit
     \<and> distinct (map fst (running l)) \<and> (\<forall>b. active l b \<longleftrightarrow> b \<in> fst ` set (running l))"

text \<open>Only known buckets that no error has poisoned have work.\<close>

definition work_ok :: "int list \<Rightarrow> 'b scheduler \<Rightarrow> bool" where
  "work_ok buckets l \<longleftrightarrow> (\<forall>b. active l b \<or> pending l b \<noteq> [] \<longrightarrow> b \<in> set buckets \<and> poisoned l b = None)"

text \<open>The requests of a bucket are numbered from zero without a gap, and the sequence of the loop is the
  number of the last request while it is outstanding (or failed), and of the next one otherwise.\<close>

definition seq_ok :: "'b scheduler \<Rightarrow> bool" where
  "seq_ok l \<longleftrightarrow> (\<forall>b. seqsOf l b = map of_nat [0..<length (seqsOf l b)]
     \<and> (if active l b \<or> poisoned l b \<noteq> None
        then seqsOf l b \<noteq> [] \<and> sequences l b = of_nat (length (seqsOf l b) - 1)
        else sequences l b = of_nat (length (seqsOf l b))))"

text \<open>No bucket waits while a slot for a request is free.\<close>

definition busy :: "int \<Rightarrow> int list \<Rightarrow> 'b scheduler \<Rightarrow> bool" where
  "busy limit buckets l \<longleftrightarrow>
     (\<forall>b \<in> set buckets. active l b \<or> pending l b = []) \<or> inFlight l = limit"

definition core_inv :: "int \<Rightarrow> int list \<Rightarrow> 'b scheduler \<Rightarrow> bool" where
  "core_inv limit buckets l \<longleftrightarrow> running_ok limit l \<and> work_ok buckets l \<and> seq_ok l"

definition sched_inv :: "int \<Rightarrow> int list \<Rightarrow> 'b scheduler \<Rightarrow> bool" where
  "sched_inv limit buckets l \<longleftrightarrow> core_inv limit buckets l \<and> busy limit buckets l"

lemma startBatch_eq:
  assumes "pending l b = batch # rest"
  shows "startBatch b l =
    l\<lparr>pending := (pending l)(b := rest), active := (active l)(b := True), inFlight := inFlight l + 1,
      running := running l @ [(b, batch, sequences l b)],
      dispatched := dispatched l @ [(b, batch, sequences l b)]\<rparr>"
  using assms by (simp add: startBatch_def Let_def)

lemma seq_ok_startBatch:
  assumes "seq_ok l" "\<not> active l b" "poisoned l b = None" "pending l b \<noteq> []"
  shows "seq_ok (startBatch b l)"
proof -
  obtain batch rest where p: "pending l b = batch # rest" using assms(4) by (cases "pending l b") auto
  let ?l = "startBatch b l"
  have s: "seqsOf ?l c = seqsOf l c @ (if c = b then [sequences l b] else [])" for c
    by (simp add: startBatch_eq [OF p] seqsOf_def requestsOf_def)
  have b: "seqsOf l b = map of_nat [0..<length (seqsOf l b)]" "sequences l b = of_nat (length (seqsOf l b))"
    using assms unfolding seq_ok_def by (metis option.distinct(1))+
  have "seqsOf ?l b = map of_nat [0..<Suc (length (seqsOf l b))]"
    unfolding s upt_Suc_append [OF le0] map_append using b by simp
  moreover have f: "active ?l = (active l)(b := True)" "poisoned ?l = poisoned l" "sequences ?l = sequences l"
    by (simp_all add: startBatch_eq [OF p])
  moreover have "length (seqsOf ?l b) = Suc (length (seqsOf l b))" by (simp add: s)
  ultimately show ?thesis
    unfolding seq_ok_def using assms(1) b(2) by (auto simp: f s seq_ok_def simp del: upt_Suc)
qed

lemma core_inv_startBatch:
  assumes "core_inv limit buckets l" "inFlight l < limit" "b \<in> set buckets" "\<not> active l b" "pending l b \<noteq> []"
  shows "core_inv limit buckets (startBatch b l)"
proof -
  obtain batch rest where p: "pending l b = batch # rest" using assms(5) by (cases "pending l b") auto
  have w: "poisoned l b = None" using assms unfolding core_inv_def work_ok_def by blast
  have "running_ok limit (startBatch b l)"
    using assms unfolding core_inv_def running_ok_def by (auto simp: startBatch_eq [OF p])
  moreover have "work_ok buckets (startBatch b l)"
    using assms w unfolding core_inv_def work_ok_def by (auto simp: startBatch_eq [OF p])
  moreover have "seq_ok (startBatch b l)"
    using assms w by (intro seq_ok_startBatch) (auto simp: core_inv_def)
  ultimately show ?thesis by (simp add: core_inv_def)
qed

lemma sched_inv_dispatch:
  assumes "core_inv limit buckets l"
  shows "sched_inv limit buckets (dispatch limit buckets l)"
proof -
  have "core_inv limit buckets (dispatch limit buckets l)"
    using assms by (rule dispatch_invariant) (rule core_inv_startBatch)
  moreover have "inFlight l \<le> limit" using assms by (simp add: core_inv_def running_ok_def)
  then have "busy limit buckets (dispatch limit buckets l)"
    unfolding busy_def by (rule dispatch_work_conserving)
  ultimately show ?thesis by (simp add: sched_inv_def)
qed

lemma sched_inv_newScheduler: "0 \<le> limit \<Longrightarrow> sched_inv limit buckets newScheduler"
  by (simp add: sched_inv_def core_inv_def running_ok_def work_ok_def seq_ok_def busy_def newScheduler_def
      seqsOf_def requestsOf_def)

lemma sched_inv_enqueueBatch:
  assumes "sched_inv limit buckets l" "b \<in> set buckets" "poisoned l b = None"
  shows "sched_inv limit buckets (enqueueBatch limit buckets b batch l)"
proof -
  let ?l = "l\<lparr>pending := (pending l)(b := pending l b @ [batch])\<rparr>"
  have "seqsOf ?l = seqsOf l" by (simp add: seqsOf_def requestsOf_def fun_eq_iff)
  then have "core_inv limit buckets ?l"
    using assms by (auto simp: sched_inv_def core_inv_def running_ok_def work_ok_def seq_ok_def)
  then show ?thesis unfolding enqueueBatch_def by (rule sched_inv_dispatch)
qed

text \<open>The state of the core when a completion has been taken and the next dispatch not yet been made.\<close>

definition finished :: "int \<Rightarrow> go_error option \<Rightarrow> 'b scheduler \<Rightarrow> 'b scheduler" where
  "finished b err l =
     l\<lparr>active := (active l)(b := False), inFlight := inFlight l - 1,
       running := filter (\<lambda>r. fst r \<noteq> b) (running l),
       poisoned := (if err = None then poisoned l else (poisoned l)(b := err)),
       pending := (if err = None then pending l else (pending l)(b := [])),
       sequences := (if err = None then (sequences l)(b := sequences l b + 1) else sequences l)\<rparr>"

lemma finishBatch_eq:
  "finishBatch limit buckets b err l =
     (if err = None then [] else pending l b, dispatch limit buckets (finished b err l))"
  by (cases err) (simp_all add: finishBatch_def finished_def Let_def)

lemma running_split:
  assumes "running_ok limit l" "active l b"
  shows "\<exists>batch s xs ys. running l = xs @ (b, batch, s) # ys
    \<and> filter (\<lambda>r. fst r \<noteq> b) (running l) = xs @ ys \<and> b \<notin> fst ` set xs \<and> b \<notin> fst ` set ys"
proof -
  have "b \<in> fst ` set (running l)" using assms by (simp add: running_ok_def)
  then obtain batch s where "(b, batch, s) \<in> set (running l)" by auto
  then obtain xs ys where r: "running l = xs @ (b, batch, s) # ys" by (meson split_list)
  have d: "b \<notin> fst ` set xs" "b \<notin> fst ` set ys" using assms by (auto simp: running_ok_def r)
  then have "filter (\<lambda>r. fst r \<noteq> b) (running l) = xs @ ys"
    by (auto simp: r image_iff intro!: arg_cong2 [of _ _ _ _ append] filter_True)
  with r d show ?thesis by blast
qed

lemma core_inv_finished:
  assumes "core_inv limit buckets l" "active l b"
  shows "core_inv limit buckets (finished b err l)"
proof -
  have r: "running_ok limit l" and w: "work_ok buckets l" and s: "seq_ok l"
    using assms(1) by (simp_all add: core_inv_def)
  obtain batch sq xs ys where split: "running l = xs @ (b, batch, sq) # ys"
    "filter (\<lambda>r. fst r \<noteq> b) (running l) = xs @ ys" "b \<notin> fst ` set xs" "b \<notin> fst ` set ys"
    using running_split [OF r assms(2)] by blast
  have "running_ok limit (finished b err l)"
    using r split unfolding running_ok_def finished_def by (auto simp: split(2))
  moreover have "work_ok buckets (finished b err l)"
    using w by (auto simp: work_ok_def finished_def)
  moreover have "seq_ok (finished b err l)"
  proof -
    have same: "seqsOf (finished b err l) c = seqsOf l c" for c
      by (simp add: seqsOf_def requestsOf_def finished_def)
    have "seqsOf l b \<noteq> []" "sequences l b = of_nat (length (seqsOf l b) - 1)"
      using s assms(2) unfolding seq_ok_def by metis+
    moreover from this have "sequences l b + 1 = of_nat (length (seqsOf l b))"
      by (cases "length (seqsOf l b)") (simp_all add: add.commute)
    moreover have "poisoned l b = None" using w assms(2) by (auto simp: work_ok_def)
    ultimately show ?thesis
      using s unfolding seq_ok_def same by (auto simp: finished_def)
  qed
  ultimately show ?thesis by (simp add: core_inv_def)
qed

lemma sched_inv_finishBatch:
  assumes "sched_inv limit buckets l" "active l b"
  shows "sched_inv limit buckets (snd (finishBatch limit buckets b err l))"
  unfolding finishBatch_eq snd_conv
  using assms by (intro sched_inv_dispatch core_inv_finished) (auto simp: sched_inv_def)

lemma sched_inv_step: "sched_step limit buckets l l' \<Longrightarrow> sched_inv limit buckets l \<Longrightarrow> sched_inv limit buckets l'"
  by (induction rule: sched_step.induct) (auto intro: sched_inv_enqueueBatch sched_inv_finishBatch)

lemma sched_inv_steps:
  "(sched_step limit buckets)\<^sup>*\<^sup>* l l' \<Longrightarrow> sched_inv limit buckets l \<Longrightarrow> sched_inv limit buckets l'"
  by (induction rule: rtranclp_induct) (auto intro: sched_inv_step)

section \<open>Order\<close>

text \<open>Sent and waiting batches of a bucket, oldest first: a start does not change the line.\<close>

definition lineOf :: "'b scheduler \<Rightarrow> int \<Rightarrow> 'b list" where
  "lineOf l b = sentOf l b @ pending l b"

lemma lineOf_startBatch: "lineOf (startBatch b l) c = lineOf l c"
proof (cases "pending l b")
  case Nil
  then show ?thesis by (simp add: startBatch_def)
next
  case (Cons batch rest)
  then show ?thesis by (simp add: startBatch_eq lineOf_def sentOf_def requestsOf_def)
qed

lemma lineOf_dispatch: "lineOf (dispatch limit buckets l) = lineOf l"
  by (rule dispatch_invariant [where P = "\<lambda>l'. lineOf l' = lineOf l"]) (auto simp: lineOf_startBatch)

lemma lineOf_enqueueBatch:
  "lineOf (enqueueBatch limit buckets b batch l) c = lineOf l c @ (if c = b then [batch] else [])"
  by (simp add: enqueueBatch_def lineOf_dispatch) (simp add: lineOf_def sentOf_def requestsOf_def)

lemma lineOf_finishBatch:
  "lineOf (snd (finishBatch limit buckets b err l)) c =
     (if c = b \<and> err \<noteq> None then sentOf l b else lineOf l c)"
  by (cases err) (simp_all add: finishBatch_eq lineOf_dispatch lineOf_def sentOf_def requestsOf_def finished_def)

section \<open>Poison\<close>

lemma poisoned_dispatch [simp]: "poisoned (dispatch limit buckets l) = poisoned l"
  by (rule dispatch_invariant [where P = "\<lambda>l'. poisoned l' = poisoned l"])
    (auto simp: startBatch_def Let_def split: list.splits)

lemma poisoned_enqueueBatch [simp]: "poisoned (enqueueBatch limit buckets b batch l) = poisoned l"
  by (simp add: enqueueBatch_def)

lemma poisoned_finishBatch:
  "poisoned (snd (finishBatch limit buckets b err l)) =
     (if err = None then poisoned l else (poisoned l)(b := err))"
  by (simp add: finishBatch_eq finished_def)

section \<open>What is inside\<close>

text \<open>The batches that wait or run, as a multiset.\<close>

definition inside :: "int list \<Rightarrow> 'b scheduler \<Rightarrow> 'b multiset" where
  "inside buckets l = mset (map (fst \<circ> snd) (running l)) + (\<Sum>b \<in> set buckets. mset (pending l b))"

lemma sum_mset_pending_upd:
  assumes "b \<in> set buckets"
  shows "(\<Sum>c \<in> set buckets. mset (if c = b then xs else f c)) = mset xs + (\<Sum>c \<in> set buckets - {b}. mset (f c))"
  using assms by (subst sum.remove [of _ b]) (auto intro: sum.cong)

lemma sum_mset_pending:
  assumes "b \<in> set buckets"
  shows "(\<Sum>c \<in> set buckets. mset (f c)) = mset (f b) + (\<Sum>c \<in> set buckets - {b}. mset (f c))"
  using assms by (subst sum.remove [of _ b]) auto

lemma inside_startBatch:
  assumes "b \<in> set buckets" "pending l b \<noteq> []"
  shows "inside buckets (startBatch b l) = inside buckets l"
proof -
  obtain batch rest where p: "pending l b = batch # rest" using assms(2) by (cases "pending l b") auto
  show ?thesis
    using assms(1) by (simp add: inside_def startBatch_eq [OF p] sum_mset_pending_upd sum_mset_pending [of b] p)
qed

lemma inside_dispatch: "inside buckets (dispatch limit buckets l) = inside buckets l"
  by (rule dispatch_invariant [where P = "\<lambda>l'. inside buckets l' = inside buckets l"])
    (auto simp: inside_startBatch)

lemma inside_enqueueBatch:
  "b \<in> set buckets \<Longrightarrow> inside buckets (enqueueBatch limit buckets b batch l) = add_mset batch (inside buckets l)"
  by (simp add: enqueueBatch_def inside_dispatch)
    (simp add: inside_def sum_mset_pending_upd sum_mset_pending [of b buckets "pending l"])

lemma inside_finishBatch:
  assumes "core_inv limit buckets l" "(b, batch, s) \<in> set (running l)"
  shows "inside buckets l = add_mset batch
    (mset (fst (finishBatch limit buckets b err l)) + inside buckets (snd (finishBatch limit buckets b err l)))"
proof -
  have r: "running_ok limit l" using assms(1) by (simp add: core_inv_def)
  have a: "active l b" using r assms(2) by (force simp: running_ok_def)
  then have b: "b \<in> set buckets" using assms(1) by (auto simp: core_inv_def work_ok_def)
  obtain batch' s' xs ys where split: "running l = xs @ (b, batch', s') # ys"
    "filter (\<lambda>r. fst r \<noteq> b) (running l) = xs @ ys" "b \<notin> fst ` set xs" "b \<notin> fst ` set ys"
    using running_split [OF r a] by blast
  then have "batch' = batch" using assms(2) by (force simp: image_iff)
  then have "mset (map (fst \<circ> snd) (running l)) = add_mset batch (mset (map (fst \<circ> snd) (xs @ ys)))"
    by (simp add: split(1))
  then show ?thesis
    using b by (cases err; simp add: finishBatch_eq inside_dispatch)
      (simp_all add: inside_def finished_def split(2) sum_mset_pending_upd sum_mset_pending [of b buckets "pending l"])
qed

text \<open>An idle scheduler is empty: with no request in flight, nothing waits.\<close>

lemma inside_idle:
  assumes "sched_inv limit buckets l" "0 < limit" "inFlight l \<le> 0"
  shows "inside buckets l = {#}" "running l = []" "\<forall>b. pending l b = []"
proof -
  have r: "running_ok limit l" and w: "work_ok buckets l" and b: "busy limit buckets l"
    using assms(1) by (simp_all add: sched_inv_def core_inv_def)
  show run: "running l = []" using r assms(3) by (simp add: running_ok_def)
  then have "\<not> active l c" for c using r by (simp add: running_ok_def)
  then have "\<forall>c \<in> set buckets. pending l c = []" using b assms(2,3) by (auto simp: busy_def)
  then show p: "\<forall>c. pending l c = []" using w by (auto simp: work_ok_def)
  show "inside buckets l = {#}" by (simp add: inside_def run p)
qed

section \<open>The interface of a writer loop\<close>

text \<open>A loop over the core: its states carry a scheduler, start with a new one, and change it by steps
  of the core only; \<open>inv\<close> is what the loop itself keeps for that.\<close>

locale writer_loop =
  fixes limit :: int and buckets :: "int list"
    and init :: "'s \<Rightarrow> bool" and step :: "'s \<Rightarrow> 's \<Rightarrow> bool" and inv :: "'s \<Rightarrow> bool" and sched :: "'s \<Rightarrow> 'b scheduler"
  assumes init_sched: "init s \<Longrightarrow> sched s = newScheduler \<and> 0 \<le> limit \<and> inv s"
    and step_inv: "step s s' \<Longrightarrow> inv s \<Longrightarrow> sched_inv limit buckets (sched s) \<Longrightarrow> inv s'"
    and step_sched: "step s s' \<Longrightarrow> inv s \<Longrightarrow> sched_inv limit buckets (sched s) \<Longrightarrow>
      (sched_step limit buckets)\<^sup>*\<^sup>* (sched s) (sched s')"
begin

lemma run_inv:
  assumes "step\<^sup>*\<^sup>* s s'" "init s"
  shows "inv s' \<and> sched_inv limit buckets (sched s')"
  using assms
proof (induction rule: rtranclp_induct)
  case base
  then show ?case using init_sched sched_inv_newScheduler by metis
next
  case (step y z)
  then show ?case using step_inv step_sched sched_inv_steps by blast
qed

lemma run_sched_inv:
  assumes "step\<^sup>*\<^sup>* s s'" "init s"
  shows "sched_inv limit buckets (sched s')"
  using run_inv [OF assms] by blast

text \<open>Per bucket at most one request is outstanding, over all at most the limit; the requests sent for
  a bucket carry the sequence numbers 0, 1, 2 and so on.\<close>

lemma run_one_per_bucket:
  assumes "step\<^sup>*\<^sup>* s s'" "init s"
  shows "distinct (map fst (running (sched s'))) \<and> int (length (running (sched s'))) \<le> limit"
  using run_sched_inv [OF assms] by (simp add: sched_inv_def core_inv_def running_ok_def)

lemma run_sequences:
  assumes "step\<^sup>*\<^sup>* s s'" "init s"
  shows "seqsOf (sched s') b = map of_nat [0..<length (seqsOf (sched s') b)]"
  using run_sched_inv [OF assms] by (simp add: sched_inv_def core_inv_def seq_ok_def)

lemma run_work_conserving:
  assumes "step\<^sup>*\<^sup>* s s'" "init s" "b \<in> set buckets" "pending (sched s') b \<noteq> []"
  shows "active (sched s') b \<or> int (length (running (sched s'))) = limit"
  using run_sched_inv [OF assms(1,2)] assms(3,4)
  by (auto simp: sched_inv_def core_inv_def running_ok_def busy_def)

end

end
