(* ===== verification/Append_Writer.thy ===== *)
theory Append_Writer
  imports Append_Config Scheduler_Invariants
begin

text \<open>
  The append writer of \<^verbatim>\<open>pkg/fgo/log_writer.go\<close>: the callers' side (\<^verbatim>\<open>Append\<close>, \<^verbatim>\<open>AppendArrow\<close>, \<^verbatim>\<open>Flush\<close>,
  \<^verbatim>\<open>Close\<close>), the loop goroutine (\<^verbatim>\<open>add\<close>, \<^verbatim>\<open>flushBucket\<close>, \<^verbatim>\<open>handleCompletion\<close>, \<^verbatim>\<open>flushAll\<close>), and the
  \<^verbatim>\<open>executeBatch\<close> goroutines. An Arrow record batch is a value of the parameter \<open>'a\<close>.

  The state is one record. A future is an index into \<open>asFutures\<close>; a channel is its content:
  \<open>asCommands\<close> the queued commands, \<open>asSlots\<close> the number of tokens in \<^verbatim>\<open>slots\<close>. \<open>asEntering\<close> holds the
  callers that have a slot and have not reached the command queue yet. \<open>asMode\<close> is where the loop is:
  serving, inside \<^verbatim>\<open>flushAll\<close> for a flush or for a close (with the error joined so far), or returned.
  \<open>asAccepted\<close> is a history: the items that entered a batch, by bucket. Metrics are left out.
\<close>

section \<open>State\<close>

record 'a pending_write =
  pwRow :: row
  pwArrow :: "'a option"
  pwChanges :: "change_type list"
  pwBucket :: "int option"
  pwSize :: int
  pwFuture :: nat

record 'a bucket_batch =
  bbItems :: "'a pending_write list"
  bbRecords :: "go_record list"
  bbBytes :: int

definition emptyBatch :: "'a bucket_batch" where
  "emptyBatch = \<lparr>bbItems = [], bbRecords = [], bbBytes = 0\<rparr>"

datatype 'a writer_command = CmdItem "'a pending_write" | CmdFlush | CmdClose

datatype loop_mode = Serving | Flushing "go_error option" | Closing "go_error option" | Stopped

record 'a append_state =
  asBatches :: "int \<Rightarrow> 'a bucket_batch option"
  asSched :: "'a bucket_batch scheduler"
  asTimer :: bool
  asRoundRobin :: int
  asStickyIndex :: int
  asFutures :: "nat \<Rightarrow> write_future"
  asNext :: nat
  asSlots :: nat
  asEntering :: "'a pending_write list"
  asCommands :: "'a writer_command list"
  asClosed :: bool
  asCloseErr :: "go_error option"
  asMode :: loop_mode
  asAccepted :: "int \<Rightarrow> 'a pending_write list"

definition newAppendState :: "'a append_state" where
  "newAppendState = \<lparr>asBatches = (\<lambda>_. None), asSched = newScheduler, asTimer = False, asRoundRobin = 0,
     asStickyIndex = -1, asFutures = (\<lambda>_. newWriteFuture), asNext = 0, asSlots = 0, asEntering = [],
     asCommands = [], asClosed = False, asCloseErr = None, asMode = Serving, asAccepted = (\<lambda>_. [])\<rparr>"

section \<open>Futures\<close>

text \<open>\<^verbatim>\<open>item.future.complete(result)\<close> on the state: the first result stays, and a slot is given back.\<close>

definition completeFuture :: "nat \<Rightarrow> write_result \<Rightarrow> 'a append_state \<Rightarrow> 'a append_state" where
  "completeFuture f result s =
     (let (future, released) = complete result (asFutures s f)
      in s\<lparr>asFutures := (asFutures s)(f := future), asSlots := asSlots s - released\<rparr>)"

fun completeItems :: "'a pending_write list \<Rightarrow> int \<Rightarrow> 64 word \<Rightarrow> bool \<Rightarrow> go_error option \<Rightarrow>
  'a append_state \<Rightarrow> 'a append_state" where
  "completeItems [] bucket offset offsetKnown err s = s"
| "completeItems (item # items) bucket offset offsetKnown err s =
     (let count = (if pwArrow item \<noteq> None then length (pwChanges item) else 1);
          s = completeFuture (pwFuture item)
                \<lparr>wrBucket = bucket, wrBaseOffset = offset, wrOffsetKnown = offsetKnown,
                 wrRecords = int count, wrPressure = 0, wrPressureKnown = False, wrErr = err\<rparr> s
      in completeItems items bucket (if offsetKnown then offset + of_nat count else offset) offsetKnown err s)"

definition completeBatch :: "'a bucket_batch \<Rightarrow> int \<Rightarrow> 64 word \<Rightarrow> bool \<Rightarrow> go_error option \<Rightarrow>
  'a append_state \<Rightarrow> 'a append_state" where
  "completeBatch batch bucket baseOffset offsetKnown err s =
     completeItems (bbItems batch) bucket baseOffset offsetKnown err s"

section \<open>Routing\<close>

definition effectiveNoKeyAssigner :: "append_static \<Rightarrow> string" where
  "effectiveNoKeyAssigner w =
     (if BucketKey (tblSchema (awTable w)) \<noteq> [] then []
      else if acNoKeyAssigner (awConfig w) = [] then NoKeyAssignerSticky
      else acNoKeyAssigner (awConfig w))"

text \<open>\<^verbatim>\<open>positions\<close> maps a column name to its last index.\<close>

definition columnPositions :: "schema \<Rightarrow> string \<Rightarrow> nat option" where
  "columnPositions s = map_of (rev (zip (map colName (Columns s)) [0..<length (Columns s)]))"

fun bucketKeyValues :: "schema \<Rightarrow> row \<Rightarrow> string list \<Rightarrow> row result" where
  "bucketKeyValues s row [] = Inr []"
| "bucketKeyValues s row (name # names) =
     (case columnPositions s name of
        None \<Rightarrow> Inl ErrInvalidRow
      | Some position \<Rightarrow>
          andThen (go_index row (int position)) (\<lambda>v.
          guardE (v = VNil) ErrInvalidRow (
          andThen (bucketKeyValues s row names) (\<lambda>vs. Inr (v # vs)))))"

definition keyedBucket :: "append_static \<Rightarrow> row \<Rightarrow> int result" where
  "keyedBucket w row =
     (let s = tblSchema (awTable w)
      in andThen (bucketKeyValues s row (BucketKey s)) (\<lambda>vals.
         andThen (encodeKeyColumns s (BucketKey s) vals) (\<lambda>key.
         andThen (flussBucket key (int (length (awBuckets w)))) (\<lambda>bucket.
         go_index (awBuckets w) (sint bucket)))))"

definition assignBucket :: "append_static \<Rightarrow> 'a pending_write \<Rightarrow> 'a append_state \<Rightarrow> int result \<times> 'a append_state" where
  "assignBucket w item s =
     (case pwBucket item of
        Some bucket \<Rightarrow> (Inr bucket, s)
      | None \<Rightarrow>
          if BucketKey (tblSchema (awTable w)) \<noteq> [] then (keyedBucket w (pwRow item), s)
          else if effectiveNoKeyAssigner w = NoKeyAssignerRoundRobin then
            (if awBuckets w = [] then (Inl (Panic ''integer divide by zero''), s)
             else (go_index (awBuckets w) (asRoundRobin s mod int (length (awBuckets w))),
                   s\<lparr>asRoundRobin := asRoundRobin s + 1\<rparr>))
          else
            (let s = (if asStickyIndex s < 0 then s\<lparr>asStickyIndex := 0\<rparr> else s)
             in (go_index (awBuckets w) (asStickyIndex s), s)))"

definition advanceSticky :: "append_static \<Rightarrow> 'a append_state \<Rightarrow> 'a append_state" where
  "advanceSticky w s =
     (if length (awBuckets w) > 1
      then s\<lparr>asStickyIndex := (asStickyIndex s + 1) mod int (length (awBuckets w))\<rparr> else s)"

definition hasBucket :: "append_static \<Rightarrow> int \<Rightarrow> bool" where
  "hasBucket w bucket \<longleftrightarrow> bucket \<in> set (awBuckets w)"

section \<open>Batches\<close>

definition batchFull :: "append_static \<Rightarrow> 'a bucket_batch \<Rightarrow> bool" where
  "batchFull w batch \<longleftrightarrow>
     int (length (bbItems batch)) \<ge> acMaxBatchRecords (awConfig w) \<or> bbBytes batch \<ge> acMaxBatchBytes (awConfig w)"

definition batchFullWith :: "append_static \<Rightarrow> 'a bucket_batch \<Rightarrow> 'a pending_write \<Rightarrow> bool" where
  "batchFullWith w batch item \<longleftrightarrow>
     int (length (bbItems batch)) \<ge> acMaxBatchRecords (awConfig w)
     \<or> bbBytes batch + pwSize item > acMaxBatchBytes (awConfig w)"

definition batchOf :: "int \<Rightarrow> 'a append_state \<Rightarrow> 'a bucket_batch \<times> 'a append_state" where
  "batchOf bucket s =
     (case asBatches s bucket of
        Some batch \<Rightarrow> (batch, s)
      | None \<Rightarrow> (emptyBatch, s\<lparr>asBatches := (asBatches s)(bucket \<mapsto> emptyBatch)\<rparr>))"

abbreviation limitOf :: "append_static \<Rightarrow> int" where
  "limitOf w \<equiv> acMaxConcurrentRequests (awConfig w)"

definition flushBucket :: "append_static \<Rightarrow> int \<Rightarrow> 'a append_state \<Rightarrow> go_error option \<times> 'a append_state" where
  "flushBucket w bucket s =
     (case asBatches s bucket of
        None \<Rightarrow> (None, s)
      | Some batch \<Rightarrow>
          if bbItems batch = [] then (None, s)
          else
            (let s = s\<lparr>asBatches := (asBatches s)(bucket := None)\<rparr>
             in if poisoned (asSched s) bucket \<noteq> None
                then (Some ErrWriterState, completeBatch batch bucket 0 False (Some ErrWriterState) s)
                else (None, s\<lparr>asSched := enqueueBatch (limitOf w) (awBuckets w) bucket batch (asSched s)\<rparr>)))"

definition armTimer :: "append_static \<Rightarrow> 'a append_state \<Rightarrow> 'a append_state" where
  "armTimer w s = (if \<not> asTimer s \<and> acBatchTimeout (awConfig w) > 0 then s\<lparr>asTimer := True\<rparr> else s)"

definition stopTimer :: "'a append_state \<Rightarrow> 'a append_state" where
  "stopTimer s = s\<lparr>asTimer := False\<rparr>"

definition joinErr :: "go_error option \<Rightarrow> go_error option \<Rightarrow> go_error option" where
  "joinErr a b = (case a of None \<Rightarrow> b | Some x \<Rightarrow> (case b of None \<Rightarrow> Some x | Some y \<Rightarrow> Some (Joined x y)))"

fun queueBuckets :: "append_static \<Rightarrow> int list \<Rightarrow> go_error option \<Rightarrow> 'a append_state \<Rightarrow>
  go_error option \<times> 'a append_state" where
  "queueBuckets w [] joined s = (joined, s)"
| "queueBuckets w (bucket # buckets) joined s =
     (let (err, s) = flushBucket w bucket s in queueBuckets w buckets (joinErr joined err) s)"

definition queueAll :: "append_static \<Rightarrow> 'a append_state \<Rightarrow> go_error option \<times> 'a append_state" where
  "queueAll w s = queueBuckets w (awBuckets w) None (stopTimer s)"

text \<open>\<^verbatim>\<open>availableBatch\<close>: the bucket and the batch for an item; \<^verbatim>\<open>None\<close> when the item was completed with an
  error. The batch returned is the one stored for the bucket.\<close>

definition availableBatch :: "append_static \<Rightarrow> int \<Rightarrow> 'a pending_write \<Rightarrow> 'a append_state \<Rightarrow>
  (int \<times> 'a bucket_batch) option \<times> 'a append_state" where
  "availableBatch w bucket item s =
     (let (batch, s) = batchOf bucket s
      in if bbItems batch = [] \<or> \<not> batchFullWith w batch item then (Some (bucket, batch), s)
         else
           (let s = snd (flushBucket w bucket s)
            in if effectiveNoKeyAssigner w \<noteq> NoKeyAssignerSticky
               then (let (batch, s) = batchOf bucket s in (Some (bucket, batch), s))
               else
                 (let s = advanceSticky w s
                  in case assignBucket w item s of
                       (Inl e, s) \<Rightarrow> (None, completeFuture (pwFuture item) (errorResult e) s)
                     | (Inr following, s) \<Rightarrow>
                         (let (batch, s) = batchOf following s in (Some (following, batch), s)))))"

definition appendRecord :: "row \<Rightarrow> go_record" where
  "appendRecord row = \<lparr>recKey = [], recValue = row, recChange = Append,
     recTimestamp = \<lparr>unixSec = -62135596800, nanosecond = 0, zoneOffset = 0\<rparr>, recOffset = -1\<rparr>"

text \<open>The item joins the batch of its bucket (history: it is accepted there).\<close>

definition putBatch :: "int \<Rightarrow> 'a bucket_batch \<Rightarrow> 'a pending_write \<Rightarrow> 'a append_state \<Rightarrow> 'a append_state" where
  "putBatch bucket batch item s =
     s\<lparr>asBatches := (asBatches s)(bucket \<mapsto> batch),
       asAccepted := (asAccepted s)(bucket := asAccepted s bucket @ [item])\<rparr>"

definition addRow :: "append_static \<Rightarrow> int \<Rightarrow> 'a pending_write \<Rightarrow> 'a append_state \<Rightarrow> 'a append_state" where
  "addRow w bucket item s =
     (case availableBatch w bucket item s of
        (None, s) \<Rightarrow> s
      | (Some (bucket, batch), s) \<Rightarrow>
          (let batch = \<lparr>bbItems = bbItems batch @ [item],
                        bbRecords = bbRecords batch @ [appendRecord (pwRow item)],
                        bbBytes = bbBytes batch + pwSize item\<rparr>;
               s = putBatch bucket batch item s
           in if batchFull w batch \<or> acBatchTimeout (awConfig w) = 0
              then (let s = snd (flushBucket w bucket s)
                    in if effectiveNoKeyAssigner w = NoKeyAssignerSticky then advanceSticky w s else s)
              else armTimer w s))"

definition addArrow :: "append_static \<Rightarrow> int \<Rightarrow> 'a pending_write \<Rightarrow> 'a append_state \<Rightarrow> 'a append_state" where
  "addArrow w bucket item s =
     (let s = snd (flushBucket w bucket s);
          s = putBatch bucket \<lparr>bbItems = [item], bbRecords = [], bbBytes = 0\<rparr> item s
      in snd (flushBucket w bucket s))"

text \<open>\<^verbatim>\<open>add\<close>; \<open>ctxErr\<close> is what \<^verbatim>\<open>item.ctx.Err()\<close> returns.\<close>

definition add :: "append_static \<Rightarrow> go_error option \<Rightarrow> 'a pending_write \<Rightarrow> 'a append_state \<Rightarrow> 'a append_state" where
  "add w ctxErr item s =
     (case ctxErr of
        Some e \<Rightarrow> completeFuture (pwFuture item) (errorResult e) s
      | None \<Rightarrow>
          (case assignBucket w item s of
             (Inl e, s) \<Rightarrow> completeFuture (pwFuture item) (errorResult e) s
           | (Inr bucket, s) \<Rightarrow>
               if pwArrow item \<noteq> None then addArrow w bucket item s else addRow w bucket item s))"

section \<open>Requests\<close>

text \<open>\<^verbatim>\<open>encodeBatch\<close>; \<open>encodeArrow\<close> stands for \<^verbatim>\<open>EncodeArrowLogBatch\<close> on the writer's fields.\<close>

definition encodeRowsBatch :: "append_static \<Rightarrow> 'a bucket_batch \<Rightarrow> 32 word \<Rightarrow> bytes result" where
  "encodeRowsBatch w batch sequence =
     EncodeRows \<lparr>Magic = 0, BaseOffset = -1, CommitTime = 0, LeaderEpoch = 0,
       SchemaID = word_of_int (tblSchemaID (awTable w)), AppendOnly = True,
       WriterID = word_of_int (awWriterID w), BatchSequence = sequence, Records = bbRecords batch\<rparr>
       (tblSchema (awTable w)) (acFormat (awConfig w) \<noteq> LogFormatIndexed)"

definition encodeBatch :: "('a \<Rightarrow> change_type list \<Rightarrow> 32 word \<Rightarrow> bytes result) \<Rightarrow> append_static \<Rightarrow>
  'a bucket_batch \<Rightarrow> 32 word \<Rightarrow> bytes result" where
  "encodeBatch encodeArrow w batch sequence =
     (case bbItems batch of
        [item] \<Rightarrow>
          (case pwArrow item of
             Some recordBatch \<Rightarrow> encodeArrow recordBatch (pwChanges item) sequence
           | None \<Rightarrow> encodeRowsBatch w batch sequence)
      | _ \<Rightarrow> encodeRowsBatch w batch sequence)"

text \<open>What the backend and the clock answer during one request: \<^verbatim>\<open>produce\<close> per attempt (offset and error),
  the context after an attempt, the end of a wait, and the request context at the end.\<close>

record produce_env =
  produceAt :: "int \<Rightarrow> 64 word \<times> go_error option"
  produceCtxErr :: "int \<Rightarrow> go_error option"
  produceWait :: "int \<Rightarrow> go_error option"
  produceExpired :: "go_error option"

definition produceAttempts :: "produce_env \<Rightarrow> attempt_env" where
  "produceAttempts env =
     \<lparr>callAt = (\<lambda>i. case produceAt env i of (offset, err) \<Rightarrow> (offset, err = None, err)),
      ctxErrAt = produceCtxErr env, waitAt = produceWait env\<rparr>"

record 'a completion =
  cpBucket :: int
  cpBatch :: "'a bucket_batch"
  cpBaseOffset :: "64 word"
  cpOffsetKnown :: bool
  cpErr :: "go_error option"

definition executeBatch :: "('a \<Rightarrow> change_type list \<Rightarrow> 32 word \<Rightarrow> bytes result) \<Rightarrow> append_static \<Rightarrow>
  produce_env \<Rightarrow> 'a bucket_batch request \<Rightarrow> 'a completion" where
  "executeBatch encodeArrow w env request =
     (case request of (bucket, batch, sequence) \<Rightarrow>
        (case encodeBatch encodeArrow w batch sequence of
           Inl e \<Rightarrow> \<lparr>cpBucket = bucket, cpBatch = batch, cpBaseOffset = 0, cpOffsetKnown = False, cpErr = Some e\<rparr>
         | Inr encoded \<Rightarrow>
             (let r = executeWriterRequest (produceAttempts env) (produceExpired env) (acRetryPolicy (awConfig w))
              in \<lparr>cpBucket = bucket, cpBatch = batch, cpBaseOffset = arOffset r,
                  cpOffsetKnown = arOffsetKnown r, cpErr = arErr r\<rparr>)))"

fun completeBatches :: "'a bucket_batch list \<Rightarrow> int \<Rightarrow> go_error option \<Rightarrow> 'a append_state \<Rightarrow> 'a append_state" where
  "completeBatches [] bucket err s = s"
| "completeBatches (batch # batches) bucket err s =
     completeBatches batches bucket err (completeBatch batch bucket 0 False err s)"

text \<open>\<^verbatim>\<open>handleCompletion\<close>. Completing futures and scheduling touch different parts of the state, so the
  dispatch that ends the Go function is done inside \<^const>\<open>finishBatch\<close>.\<close>

definition handleCompletion :: "append_static \<Rightarrow> 'a completion \<Rightarrow> 'a append_state \<Rightarrow> 'a append_state" where
  "handleCompletion w cp s =
     (let (failed, sched) =
        finishBatch (limitOf w) (awBuckets w) (cpBucket cp) (cpErr cp) (asSched s);
        s = s\<lparr>asSched := sched\<rparr>
      in case cpErr cp of
           Some e \<Rightarrow>
             completeBatches failed (cpBucket cp) (Some ErrWriterState)
               (completeBatch (cpBatch cp) (cpBucket cp) 0 False (Some e) s)
         | None \<Rightarrow> completeBatch (cpBatch cp) (cpBucket cp) (cpBaseOffset cp) (cpOffsetKnown cp) None s)"

section \<open>Callers\<close>

text \<open>The checks of \<^verbatim>\<open>Append\<close> and of \<^verbatim>\<open>AppendArrow\<close> and the item they queue. \<open>checkArrow\<close> stands for the
  conversion of the schema to an Arrow schema and its comparison with the one of the batch, \<open>numRows\<close> for
  \<^verbatim>\<open>batch.NumRows()\<close>; a nil batch is \<^verbatim>\<open>None\<close>.\<close>

definition prepareAppend :: "append_static \<Rightarrow> bool \<Rightarrow> row \<Rightarrow> nat \<Rightarrow> 'a pending_write result" where
  "prepareAppend w nilCtx row future =
     guardE nilCtx ErrInvalidConfig (
     guardE (acFormat (awConfig w) = LogFormatArrow) ErrInvalidConfig (
     andThen (ValidateRow (tblSchema (awTable w)) row []) (\<lambda>_.
     andThen (EncodeCompactedRow (tblSchema (awTable w)) row) (\<lambda>encoded.
     Inr \<lparr>pwRow = row, pwArrow = None, pwChanges = [], pwBucket = None,
          pwSize = int (length encoded) + 5, pwFuture = future\<rparr>))))"

fun validateChanges :: "change_type list \<Rightarrow> unit result" where
  "validateChanges [] = Inr ()"
| "validateChanges (change # changes) = andThen (ChangeType_Validate change) (\<lambda>_. validateChanges changes)"

definition prepareArrow :: "('a \<Rightarrow> unit result) \<Rightarrow> ('a \<Rightarrow> int) \<Rightarrow> append_static \<Rightarrow> bool \<Rightarrow> int \<Rightarrow>
  'a option \<Rightarrow> change_type list \<Rightarrow> nat \<Rightarrow> 'a pending_write result" where
  "prepareArrow checkArrow numRows w nilCtx bucket batch changes future =
     (case batch of
        None \<Rightarrow> Inl ErrInvalidConfig
      | Some b \<Rightarrow>
          guardE nilCtx ErrInvalidConfig (
          guardE (acFormat (awConfig w) = LogFormatIndexed \<or> acFormat (awConfig w) = LogFormatCompacted)
            ErrInvalidConfig (
          andThen (checkArrow b) (\<lambda>_.
          guardE (\<not> hasBucket w bucket \<or> int (length changes) \<noteq> numRows b) ErrInvalidRow (
          andThen (validateChanges changes) (\<lambda>_.
          Inr \<lparr>pwRow = [], pwArrow = Some b, pwChanges = changes, pwBucket = Some bucket,
               pwSize = numRows b, pwFuture = future\<rparr>))))))"

text \<open>A call that fails before it has a slot completes its own future.\<close>

definition rejectCall :: "go_error \<Rightarrow> 'a append_state \<Rightarrow> 'a append_state" where
  "rejectCall e s =
     completeFuture (asNext s) (errorResult e)
       (s\<lparr>asNext := asNext s + 1, asFutures := (asFutures s)(asNext s := newWriteFuture)\<rparr>)"

text \<open>The first select of \<^verbatim>\<open>enqueue\<close>, taken with a slot.\<close>

definition takeSlot :: "'a pending_write \<Rightarrow> 'a append_state \<Rightarrow> 'a append_state" where
  "takeSlot item s =
     s\<lparr>asNext := asNext s + 1,
       asFutures := (asFutures s)(asNext s := newWriteFuture\<lparr>futRelease := True\<rparr>),
       asSlots := asSlots s + 1, asEntering := asEntering s @ [item]\<rparr>"

text \<open>The rest of \<^verbatim>\<open>enqueue\<close>, under the mutex: refused, or into the queue.\<close>

definition leaveEntering :: "'a pending_write \<Rightarrow> 'a append_state \<Rightarrow> 'a append_state" where
  "leaveEntering item s = s\<lparr>asEntering := remove1 item (asEntering s)\<rparr>"

definition refuseItem :: "go_error \<Rightarrow> 'a pending_write \<Rightarrow> 'a append_state \<Rightarrow> 'a append_state" where
  "refuseItem e item s = completeFuture (pwFuture item) (errorResult e) (leaveEntering item s)"

definition queueItem :: "'a pending_write \<Rightarrow> 'a append_state \<Rightarrow> 'a append_state" where
  "queueItem item s = (leaveEntering item s)\<lparr>asCommands := asCommands s @ [CmdItem item]\<rparr>"

definition queueFull :: "append_static \<Rightarrow> 'a append_state \<Rightarrow> bool" where
  "queueFull w s \<longleftrightarrow> int (length (asCommands s)) \<ge> acMaxBuffered (awConfig w)"

section \<open>Steps\<close>

text \<open>One step of a caller, of the loop or of a request. \<open>call\<close> stands for the arguments of one call of
  \<^verbatim>\<open>Append\<close> or \<^verbatim>\<open>AppendArrow\<close> with the answers of the Arrow library, evaluated to the item for a future.\<close>

definition preparedBy :: "append_static \<Rightarrow> (nat \<Rightarrow> 'a pending_write result) \<Rightarrow> bool" where
  "preparedBy w call \<longleftrightarrow>
     (\<exists>nilCtx row. call = prepareAppend w nilCtx row)
     \<or> (\<exists>check numRows nilCtx bucket batch changes.
          call = prepareArrow check numRows w nilCtx bucket batch changes)"

inductive append_step :: "('a \<Rightarrow> change_type list \<Rightarrow> 32 word \<Rightarrow> bytes result) \<Rightarrow> append_static \<Rightarrow>
  'a append_state \<Rightarrow> 'a append_state \<Rightarrow> bool"
  for encodeArrow :: "'a \<Rightarrow> change_type list \<Rightarrow> 32 word \<Rightarrow> bytes result" and w :: append_static where
  call_invalid: "preparedBy w (call :: nat \<Rightarrow> 'a pending_write result) \<Longrightarrow> call (asNext s) = Inl e \<Longrightarrow>
     append_step encodeArrow w s (rejectCall e s)"
| call_cancelled: "preparedBy w (call :: nat \<Rightarrow> 'a pending_write result) \<Longrightarrow> call (asNext s) = Inr item \<Longrightarrow>
     e \<in> {ErrCanceled, ErrDeadlineExceeded} \<or> e = ErrClosed \<and> asMode s = Stopped \<Longrightarrow>
     append_step encodeArrow w s (rejectCall e s)"
| call_slot: "preparedBy w call \<Longrightarrow> call (asNext s) = Inr item \<Longrightarrow>
     int (asSlots s) < acMaxBuffered (awConfig w) \<Longrightarrow>
     append_step encodeArrow w s (takeSlot item s)"
| enter_closed: "item \<in> set (asEntering s) \<Longrightarrow> asClosed s \<Longrightarrow>
     append_step encodeArrow w s (refuseItem ErrClosed item s)"
| enter_cancelled: "item \<in> set (asEntering s) \<Longrightarrow> \<not> asClosed s \<Longrightarrow>
     e \<in> {ErrCanceled, ErrDeadlineExceeded} \<or> e = ErrClosed \<and> asMode s = Stopped \<Longrightarrow>
     append_step encodeArrow w s (refuseItem e item s)"
| enter_queue: "item \<in> set (asEntering s) \<Longrightarrow> \<not> asClosed s \<Longrightarrow> \<not> queueFull w s \<Longrightarrow>
     append_step encodeArrow w s (queueItem item s)"
| flush_call: "\<not> asClosed s \<Longrightarrow> \<not> queueFull w s \<Longrightarrow>
     append_step encodeArrow w s (s\<lparr>asCommands := asCommands s @ [CmdFlush]\<rparr>)"
| close_call: "\<not> asClosed s \<Longrightarrow> \<not> queueFull w s \<Longrightarrow>
     append_step encodeArrow w s (s\<lparr>asClosed := True, asCommands := asCommands s @ [CmdClose]\<rparr>)"
| loop_item: "asMode s = Serving \<Longrightarrow> asCommands s = CmdItem item # rest \<Longrightarrow>
     append_step encodeArrow w s (add w ctxErr item (s\<lparr>asCommands := rest\<rparr>))"
| loop_flush: "asMode s = Serving \<Longrightarrow> asCommands s = CmdFlush # rest \<Longrightarrow>
     queueAll w (stopTimer (s\<lparr>asCommands := rest\<rparr>)) = (err, s') \<Longrightarrow>
     append_step encodeArrow w s (s'\<lparr>asMode := Flushing err\<rparr>)"
| loop_close: "asMode s = Serving \<Longrightarrow> asCommands s = CmdClose # rest \<Longrightarrow>
     queueAll w (stopTimer (s\<lparr>asCommands := rest\<rparr>)) = (err, s') \<Longrightarrow>
     append_step encodeArrow w s (s'\<lparr>asMode := Closing err\<rparr>)"
| loop_timer: "asMode s = Serving \<Longrightarrow> asTimer s \<Longrightarrow>
     append_step encodeArrow w s (snd (queueAll w (s\<lparr>asTimer := False\<rparr>)))"
| loop_completion: "asMode s = Serving \<Longrightarrow> request \<in> set (running (asSched s)) \<Longrightarrow>
     append_step encodeArrow w s (handleCompletion w (executeBatch encodeArrow w env request) s)"
| flush_completion: "asMode s = Flushing err \<Longrightarrow> request \<in> set (running (asSched s)) \<Longrightarrow>
     cp = executeBatch encodeArrow w env request \<Longrightarrow>
     append_step encodeArrow w s
       ((handleCompletion w cp s)\<lparr>asMode := Flushing (joinErr err (cpErr cp))\<rparr>)"
| close_completion: "asMode s = Closing err \<Longrightarrow> request \<in> set (running (asSched s)) \<Longrightarrow>
     cp = executeBatch encodeArrow w env request \<Longrightarrow>
     append_step encodeArrow w s
       ((handleCompletion w cp s)\<lparr>asMode := Closing (joinErr err (cpErr cp))\<rparr>)"
| flush_done: "asMode s = Flushing err \<Longrightarrow> \<not> inFlight (asSched s) > 0 \<Longrightarrow>
     append_step encodeArrow w s (s\<lparr>asMode := Serving\<rparr>)"
| close_done: "asMode s = Closing err \<Longrightarrow> \<not> inFlight (asSched s) > 0 \<Longrightarrow>
     append_step encodeArrow w s (s\<lparr>asMode := Stopped, asCloseErr := err\<rparr>)"

definition append_reachable :: "('a \<Rightarrow> change_type list \<Rightarrow> 32 word \<Rightarrow> bytes result) \<Rightarrow> append_static \<Rightarrow>
  'a append_state \<Rightarrow> bool" where
  "append_reachable encodeArrow w s \<longleftrightarrow> (append_step encodeArrow w)\<^sup>*\<^sup>* newAppendState s"

end
