(* ===== verification/Append_Invariants.thy ===== *)
theory Append_Invariants
  imports Append_Writer
begin

text \<open>
  Invariants of the append writer: routing stays inside the buckets of the table, the scheduling core
  moves by its own steps, and every future that waits is in exactly one place.
\<close>

section \<open>Completing a future changes futures and slots only\<close>

lemma completeFuture_frame [simp]:
  "asBatches (completeFuture f r s) = asBatches s"
  "asSched (completeFuture f r s) = asSched s"
  "asTimer (completeFuture f r s) = asTimer s"
  "asRoundRobin (completeFuture f r s) = asRoundRobin s"
  "asStickyIndex (completeFuture f r s) = asStickyIndex s"
  "asNext (completeFuture f r s) = asNext s"
  "asEntering (completeFuture f r s) = asEntering s"
  "asCommands (completeFuture f r s) = asCommands s"
  "asClosed (completeFuture f r s) = asClosed s"
  "asCloseErr (completeFuture f r s) = asCloseErr s"
  "asMode (completeFuture f r s) = asMode s"
  "asAccepted (completeFuture f r s) = asAccepted s"
  by (simp_all add: completeFuture_def Let_def split: prod.split)

lemma completeItems_frame [simp]:
  "asBatches (completeItems items b off known err s) = asBatches s"
  "asSched (completeItems items b off known err s) = asSched s"
  "asTimer (completeItems items b off known err s) = asTimer s"
  "asRoundRobin (completeItems items b off known err s) = asRoundRobin s"
  "asStickyIndex (completeItems items b off known err s) = asStickyIndex s"
  "asNext (completeItems items b off known err s) = asNext s"
  "asEntering (completeItems items b off known err s) = asEntering s"
  "asCommands (completeItems items b off known err s) = asCommands s"
  "asClosed (completeItems items b off known err s) = asClosed s"
  "asCloseErr (completeItems items b off known err s) = asCloseErr s"
  "asMode (completeItems items b off known err s) = asMode s"
  "asAccepted (completeItems items b off known err s) = asAccepted s"
  by (induction items b off known err s rule: completeItems.induct) (simp_all add: Let_def)

lemma completeBatch_frame [simp]:
  "asBatches (completeBatch bt b off known err s) = asBatches s"
  "asSched (completeBatch bt b off known err s) = asSched s"
  "asTimer (completeBatch bt b off known err s) = asTimer s"
  "asRoundRobin (completeBatch bt b off known err s) = asRoundRobin s"
  "asStickyIndex (completeBatch bt b off known err s) = asStickyIndex s"
  "asNext (completeBatch bt b off known err s) = asNext s"
  "asEntering (completeBatch bt b off known err s) = asEntering s"
  "asCommands (completeBatch bt b off known err s) = asCommands s"
  "asClosed (completeBatch bt b off known err s) = asClosed s"
  "asCloseErr (completeBatch bt b off known err s) = asCloseErr s"
  "asMode (completeBatch bt b off known err s) = asMode s"
  "asAccepted (completeBatch bt b off known err s) = asAccepted s"
  by (simp_all add: completeBatch_def)

lemma completeBatches_frame [simp]:
  "asBatches (completeBatches bs b err s) = asBatches s"
  "asSched (completeBatches bs b err s) = asSched s"
  "asTimer (completeBatches bs b err s) = asTimer s"
  "asRoundRobin (completeBatches bs b err s) = asRoundRobin s"
  "asStickyIndex (completeBatches bs b err s) = asStickyIndex s"
  "asNext (completeBatches bs b err s) = asNext s"
  "asEntering (completeBatches bs b err s) = asEntering s"
  "asCommands (completeBatches bs b err s) = asCommands s"
  "asClosed (completeBatches bs b err s) = asClosed s"
  "asCloseErr (completeBatches bs b err s) = asCloseErr s"
  "asMode (completeBatches bs b err s) = asMode s"
  "asAccepted (completeBatches bs b err s) = asAccepted s"
  by (induction bs b err s rule: completeBatches.induct) simp_all

section \<open>What the operations of the loop leave alone\<close>

lemma flushBucket_frame [simp]:
  "asTimer (snd (flushBucket w b s)) = asTimer s"
  "asRoundRobin (snd (flushBucket w b s)) = asRoundRobin s"
  "asStickyIndex (snd (flushBucket w b s)) = asStickyIndex s"
  "asNext (snd (flushBucket w b s)) = asNext s"
  "asEntering (snd (flushBucket w b s)) = asEntering s"
  "asCommands (snd (flushBucket w b s)) = asCommands s"
  "asClosed (snd (flushBucket w b s)) = asClosed s"
  "asCloseErr (snd (flushBucket w b s)) = asCloseErr s"
  "asMode (snd (flushBucket w b s)) = asMode s"
  "asAccepted (snd (flushBucket w b s)) = asAccepted s"
  by (simp_all add: flushBucket_def Let_def split: option.split)

lemma batchOf_frame [simp]:
  "asSched (snd (batchOf b s)) = asSched s"
  "asTimer (snd (batchOf b s)) = asTimer s"
  "asRoundRobin (snd (batchOf b s)) = asRoundRobin s"
  "asStickyIndex (snd (batchOf b s)) = asStickyIndex s"
  "asFutures (snd (batchOf b s)) = asFutures s"
  "asSlots (snd (batchOf b s)) = asSlots s"
  "asNext (snd (batchOf b s)) = asNext s"
  "asEntering (snd (batchOf b s)) = asEntering s"
  "asCommands (snd (batchOf b s)) = asCommands s"
  "asClosed (snd (batchOf b s)) = asClosed s"
  "asCloseErr (snd (batchOf b s)) = asCloseErr s"
  "asMode (snd (batchOf b s)) = asMode s"
  "asAccepted (snd (batchOf b s)) = asAccepted s"
  by (simp_all add: batchOf_def split: option.split)

lemma advanceSticky_frame [simp]:
  "asBatches (advanceSticky w s) = asBatches s"
  "asSched (advanceSticky w s) = asSched s"
  "asTimer (advanceSticky w s) = asTimer s"
  "asRoundRobin (advanceSticky w s) = asRoundRobin s"
  "asFutures (advanceSticky w s) = asFutures s"
  "asSlots (advanceSticky w s) = asSlots s"
  "asNext (advanceSticky w s) = asNext s"
  "asEntering (advanceSticky w s) = asEntering s"
  "asCommands (advanceSticky w s) = asCommands s"
  "asClosed (advanceSticky w s) = asClosed s"
  "asCloseErr (advanceSticky w s) = asCloseErr s"
  "asMode (advanceSticky w s) = asMode s"
  "asAccepted (advanceSticky w s) = asAccepted s"
  by (simp_all add: advanceSticky_def)

lemma assignBucket_frame [simp]:
  "asBatches (snd (assignBucket w i s)) = asBatches s"
  "asSched (snd (assignBucket w i s)) = asSched s"
  "asTimer (snd (assignBucket w i s)) = asTimer s"
  "asFutures (snd (assignBucket w i s)) = asFutures s"
  "asSlots (snd (assignBucket w i s)) = asSlots s"
  "asNext (snd (assignBucket w i s)) = asNext s"
  "asEntering (snd (assignBucket w i s)) = asEntering s"
  "asCommands (snd (assignBucket w i s)) = asCommands s"
  "asClosed (snd (assignBucket w i s)) = asClosed s"
  "asCloseErr (snd (assignBucket w i s)) = asCloseErr s"
  "asMode (snd (assignBucket w i s)) = asMode s"
  "asAccepted (snd (assignBucket w i s)) = asAccepted s"
  by (simp_all add: assignBucket_def Let_def split: option.split)

lemma armTimer_frame [simp]:
  "asBatches (armTimer w s) = asBatches s"
  "asSched (armTimer w s) = asSched s"
  "asRoundRobin (armTimer w s) = asRoundRobin s"
  "asStickyIndex (armTimer w s) = asStickyIndex s"
  "asFutures (armTimer w s) = asFutures s"
  "asSlots (armTimer w s) = asSlots s"
  "asNext (armTimer w s) = asNext s"
  "asEntering (armTimer w s) = asEntering s"
  "asCommands (armTimer w s) = asCommands s"
  "asClosed (armTimer w s) = asClosed s"
  "asCloseErr (armTimer w s) = asCloseErr s"
  "asMode (armTimer w s) = asMode s"
  "asAccepted (armTimer w s) = asAccepted s"
  by (simp_all add: armTimer_def)

lemma putBatch_frame [simp]:
  "asSched (putBatch b bt i s) = asSched s"
  "asRoundRobin (putBatch b bt i s) = asRoundRobin s"
  "asStickyIndex (putBatch b bt i s) = asStickyIndex s"
  "asFutures (putBatch b bt i s) = asFutures s"
  "asSlots (putBatch b bt i s) = asSlots s"
  "asNext (putBatch b bt i s) = asNext s"
  "asEntering (putBatch b bt i s) = asEntering s"
  "asCommands (putBatch b bt i s) = asCommands s"
  "asClosed (putBatch b bt i s) = asClosed s"
  "asMode (putBatch b bt i s) = asMode s"
  "asBatches (putBatch b bt i s) = (asBatches s)(b \<mapsto> bt)"
  "asAccepted (putBatch b bt i s) = (asAccepted s)(b := asAccepted s b @ [i])"
  by (simp_all add: putBatch_def)

section \<open>Routing\<close>

text \<open>The buckets named by items, by open batches and by the sticky counter are buckets of the table; an
  item without an Arrow batch carries a row of the schema.\<close>

definition item_ok :: "append_static \<Rightarrow> 'a pending_write \<Rightarrow> bool" where
  "item_ok w item \<longleftrightarrow>
     (case pwBucket item of None \<Rightarrow> pwArrow item = None | Some b \<Rightarrow> pwArrow item \<noteq> None \<and> b \<in> set (awBuckets w))
     \<and> (pwArrow item = None \<longrightarrow> ValidateRow (tblSchema (awTable w)) (pwRow item) [] = Inr ())"

definition counters_ok :: "append_static \<Rightarrow> 'a append_state \<Rightarrow> bool" where
  "counters_ok w s \<longleftrightarrow> 0 \<le> asRoundRobin s \<and> -1 \<le> asStickyIndex s \<and> asStickyIndex s < int (length (awBuckets w))"

definition batches_ok :: "append_static \<Rightarrow> 'a append_state \<Rightarrow> bool" where
  "batches_ok w s \<longleftrightarrow> (\<forall>b. asBatches s b \<noteq> None \<longrightarrow> b \<in> set (awBuckets w))"

definition commandItems :: "'a writer_command list \<Rightarrow> 'a pending_write list" where
  "commandItems cs = List.map_filter (\<lambda>c. case c of CmdItem i \<Rightarrow> Some i | _ \<Rightarrow> None) cs"

definition route_inv :: "append_static \<Rightarrow> 'a append_state \<Rightarrow> bool" where
  "route_inv w s \<longleftrightarrow> validAppendStatic w \<and> counters_ok w s \<and> batches_ok w s
     \<and> (\<forall>item \<in> set (asEntering s) \<union> set (commandItems (asCommands s)). item_ok w item)"

lemma commandItems_simps [simp]:
  "commandItems [] = []"
  "commandItems (CmdItem i # cs) = i # commandItems cs"
  "commandItems (CmdFlush # cs) = commandItems cs"
  "commandItems (CmdClose # cs) = commandItems cs"
  "commandItems (cs @ cs') = commandItems cs @ commandItems cs'"
  by (simp_all add: commandItems_def List.map_filter_def)

lemma prepared_item_ok:
  assumes "preparedBy w call" "call f = Inr item"
  shows "item_ok w item" "pwFuture item = f"
  using assms
  by (auto simp: preparedBy_def prepareAppend_def prepareArrow_def item_ok_def hasBucket_def split: option.splits)

lemma assignBucket_counters:
  assumes "counters_ok w s" "awBuckets w \<noteq> []"
  shows "counters_ok w (snd (assignBucket w i s))"
  using assms by (auto simp: counters_ok_def assignBucket_def Let_def split: option.split)

lemma advanceSticky_counters:
  assumes "counters_ok w s" "awBuckets w \<noteq> []"
  shows "counters_ok w (advanceSticky w s)"
  using assms by (auto simp: counters_ok_def advanceSticky_def add_nonneg_eq_0_iff
      intro: order_trans [OF _ pos_mod_sign])

lemma assignBucket_in:
  assumes "assignBucket w i s = (Inr b, s')" "item_ok w i"
  shows "b \<in> set (awBuckets w)"
proof -
  have idx: "x \<in> set xs" if "go_index xs j = Inr x" for xs :: "int list" and j x
    using that by (auto simp: go_index_def nat_less_iff split: if_splits)
  show ?thesis
    using assms
    by (auto simp: assignBucket_def item_ok_def keyedBucket_def Let_def split: option.splits if_splits intro: idx)
qed

section \<open>The core moves by its own steps\<close>

abbreviation core_steps :: "append_static \<Rightarrow> 'a append_state \<Rightarrow> 'a append_state \<Rightarrow> bool" where
  "core_steps w s s' \<equiv> (sched_step (limitOf w) (awBuckets w))\<^sup>*\<^sup>* (asSched s) (asSched s')"

lemma flushBucket_batches:
  "asBatches (snd (flushBucket w b s)) =
     (case asBatches s b of None \<Rightarrow> asBatches s
      | Some bt \<Rightarrow> if bbItems bt = [] then asBatches s else (asBatches s)(b := None))"
  by (simp add: flushBucket_def Let_def split: option.split)

lemma flushBucket_batches_ok: "batches_ok w s \<Longrightarrow> batches_ok w (snd (flushBucket w b s))"
  by (auto simp: batches_ok_def flushBucket_batches split: option.splits if_splits)

lemma flushBucket_core:
  assumes "batches_ok w s"
  shows "core_steps w s (snd (flushBucket w b s))"
proof (cases "asBatches s b")
  case None
  then show ?thesis by (simp add: flushBucket_def)
next
  case (Some bt)
  then have "b \<in> set (awBuckets w)" using assms by (auto simp: batches_ok_def)
  then show ?thesis
    using Some by (auto simp: flushBucket_def Let_def intro: r_into_rtranclp sched_step.enqueue)
qed

lemma queueBuckets_core:
  assumes "batches_ok w s" "queueBuckets w bs joined s = (err, s')"
  shows "core_steps w s s' \<and> batches_ok w s' \<and> counters_ok w s' = counters_ok w s
    \<and> asEntering s' = asEntering s \<and> asCommands s' = asCommands s \<and> asMode s' = asMode s
    \<and> asClosed s' = asClosed s \<and> asAccepted s' = asAccepted s \<and> asNext s' = asNext s"
  using assms
proof (induction bs arbitrary: joined s)
  case (Cons b bs)
  let ?s = "snd (flushBucket w b s)"
  have "queueBuckets w bs (joinErr joined (fst (flushBucket w b s))) ?s = (err, s')"
    using Cons.prems(2) by (simp add: Let_def split_beta)
  note ih = Cons.IH [OF flushBucket_batches_ok [OF Cons.prems(1)] this]
  show ?case
    using ih flushBucket_core [OF Cons.prems(1), of b] by (auto simp: counters_ok_def intro: rtranclp_trans)
qed (simp add: counters_ok_def)

lemma batchOf_batches_ok: "batches_ok w s \<Longrightarrow> b \<in> set (awBuckets w) \<Longrightarrow> batches_ok w (snd (batchOf b s))"
  by (auto simp: batches_ok_def batchOf_def split: option.split)

text \<open>What the route invariant needs of an operation of the loop.\<close>

definition loop_op_ok :: "append_static \<Rightarrow> 'a append_state \<Rightarrow> 'a append_state \<Rightarrow> bool" where
  "loop_op_ok w s s' \<longleftrightarrow> core_steps w s s' \<and> batches_ok w s' \<and> counters_ok w s'
     \<and> asEntering s' = asEntering s \<and> asCommands s' = asCommands s \<and> asMode s' = asMode s \<and> asClosed s' = asClosed s"

lemma loop_op_ok_trans: "loop_op_ok w s s' \<Longrightarrow> loop_op_ok w s' s'' \<Longrightarrow> loop_op_ok w s s''"
  by (auto simp: loop_op_ok_def intro: rtranclp_trans)

lemma loop_op_ok_flushBucket:
  "batches_ok w s \<Longrightarrow> counters_ok w s \<Longrightarrow> loop_op_ok w s (snd (flushBucket w b s))"
  by (simp add: loop_op_ok_def flushBucket_core flushBucket_batches_ok) (simp add: counters_ok_def)

lemma loop_op_ok_batchOf:
  "batches_ok w s \<Longrightarrow> counters_ok w s \<Longrightarrow> b \<in> set (awBuckets w) \<Longrightarrow> loop_op_ok w s (snd (batchOf b s))"
  by (simp add: loop_op_ok_def batchOf_batches_ok) (simp add: counters_ok_def)

lemma loop_op_ok_putBatch:
  "batches_ok w s \<Longrightarrow> counters_ok w s \<Longrightarrow> b \<in> set (awBuckets w) \<Longrightarrow> loop_op_ok w s (putBatch b bt i s)"
  by (auto simp: loop_op_ok_def batches_ok_def counters_ok_def)

lemma loop_op_ok_completeFuture:
  "batches_ok w s \<Longrightarrow> counters_ok w s \<Longrightarrow> loop_op_ok w s (completeFuture f r s)"
  by (auto simp: loop_op_ok_def batches_ok_def counters_ok_def)

lemma loop_op_ok_advanceSticky:
  "batches_ok w s \<Longrightarrow> counters_ok w s \<Longrightarrow> awBuckets w \<noteq> [] \<Longrightarrow> loop_op_ok w s (advanceSticky w s)"
  by (simp add: loop_op_ok_def advanceSticky_counters) (simp add: batches_ok_def)

lemma loop_op_ok_assignBucket:
  "batches_ok w s \<Longrightarrow> counters_ok w s \<Longrightarrow> awBuckets w \<noteq> [] \<Longrightarrow> loop_op_ok w s (snd (assignBucket w i s))"
  by (simp add: loop_op_ok_def assignBucket_counters) (simp add: batches_ok_def)

lemma loop_op_ok_armTimer: "batches_ok w s \<Longrightarrow> counters_ok w s \<Longrightarrow> loop_op_ok w s (armTimer w s)"
  by (auto simp: loop_op_ok_def batches_ok_def counters_ok_def)

section \<open>Futures are in one place\<close>

definition openItems :: "'a append_state \<Rightarrow> int \<Rightarrow> 'a pending_write list" where
  "openItems s b = (case asBatches s b of None \<Rightarrow> [] | Some bt \<Rightarrow> bbItems bt)"

definition futs :: "'a bucket_batch \<Rightarrow> nat multiset" where
  "futs bt = mset (map pwFuture (bbItems bt))"

definition openFutures :: "append_static \<Rightarrow> 'a append_state \<Rightarrow> nat multiset" where
  "openFutures w s = (\<Sum>b \<in> set (awBuckets w). mset (map pwFuture (openItems s b)))"

definition coreFutures :: "append_static \<Rightarrow> 'a append_state \<Rightarrow> nat multiset" where
  "coreFutures w s = \<Sum>\<^sub># (image_mset futs (inside (awBuckets w) (asSched s)))"

text \<open>The futures of the items on their way: entering, queued, in an open batch, waiting or running.\<close>

definition outstanding :: "append_static \<Rightarrow> 'a append_state \<Rightarrow> nat multiset" where
  "outstanding w s = mset (map pwFuture (asEntering s)) + mset (map pwFuture (commandItems (asCommands s)))
     + openFutures w s + coreFutures w s"

text \<open>A multiset of futures is exactly the set of issued futures without a result, each holds a slot, and
  there are no other slots.\<close>

definition futures_ok :: "append_static \<Rightarrow> nat multiset \<Rightarrow> 'a append_state \<Rightarrow> bool" where
  "futures_ok w M s \<longleftrightarrow>
     (\<forall>f. count M f = (if f < asNext s \<and> futData (asFutures s f) = None then 1 else 0))
     \<and> (\<forall>f \<in># M. futRelease (asFutures s f)) \<and> asSlots s = size M
     \<and> int (size M) \<le> acMaxBuffered (awConfig w)"

lemma futures_ok_cong:
  "asFutures s = asFutures s' \<Longrightarrow> asNext s = asNext s' \<Longrightarrow> asSlots s = asSlots s' \<Longrightarrow>
     futures_ok w M s = futures_ok w M s'"
  by (simp add: futures_ok_def)

lemma futures_ok_completeFuture:
  assumes "futures_ok w (add_mset f M) s"
  shows "futures_ok w M (completeFuture f r s)"
proof -
  have c: "count (add_mset f M) g = (if g < asNext s \<and> futData (asFutures s g) = None then 1 else 0)" for g
    using assms by (simp add: futures_ok_def)
  have f: "f < asNext s" "futData (asFutures s f) = None" "count M f = 0" using c [of f] by (auto split: if_splits)
  have rel: "futRelease (asFutures s f)" using assms by (simp add: futures_ok_def)
  have s': "completeFuture f r s = s\<lparr>asFutures := (asFutures s)(f := (asFutures s f)\<lparr>futData := Some r\<rparr>),
      asSlots := asSlots s - 1\<rparr>"
    using f rel by (simp add: completeFuture_def complete_def)
  have "count M g = (if g < asNext s \<and> futData (((asFutures s)(f := (asFutures s f)\<lparr>futData := Some r\<rparr>)) g) = None
      then 1 else 0)" for g
    using c [of g] f by (auto split: if_splits)
  moreover have "\<forall>g \<in># M. futRelease (((asFutures s)(f := (asFutures s f)\<lparr>futData := Some r\<rparr>)) g)"
    using assms rel by (auto simp: futures_ok_def)
  ultimately show ?thesis using assms by (simp add: futures_ok_def s')
qed

lemma futures_ok_completeItems:
  "futures_ok w (mset (map pwFuture items) + M) s \<Longrightarrow> futures_ok w M (completeItems items b off known err s)"
proof (induction items b off known err s rule: completeItems.induct)
  case (2 item items b off known err s)
  show ?case
    unfolding completeItems.simps Let_def
    by (rule "2.IH" [OF refl refl]) (rule futures_ok_completeFuture, use "2.prems" in simp)
qed simp

lemma futures_ok_completeBatch:
  "futures_ok w (futs bt + M) s \<Longrightarrow> futures_ok w M (completeBatch bt b off known err s)"
  unfolding completeBatch_def futs_def by (rule futures_ok_completeItems)

lemma futures_ok_completeBatches:
  "futures_ok w (\<Sum>\<^sub># (image_mset futs (mset bts)) + M) s \<Longrightarrow> futures_ok w M (completeBatches bts b err s)"
proof (induction bts b err s rule: completeBatches.induct)
  case (2 bt bts b err s)
  show ?case
    unfolding completeBatches.simps
    by (rule "2.IH", rule futures_ok_completeBatch) (use "2.prems" in \<open>simp add: ac_simps\<close>)
qed simp

lemma futures_ok_takeSlot:
  assumes "futures_ok w M s" "pwFuture item = asNext s" "int (asSlots s) < acMaxBuffered (awConfig w)"
  shows "futures_ok w (add_mset (pwFuture item) M) (takeSlot item s)"
proof -
  have c: "count M g = (if g < asNext s \<and> futData (asFutures s g) = None then 1 else 0)" for g
    using assms by (simp add: futures_ok_def)
  have "asNext s \<notin># M" using c [of "asNext s"] by (simp add: count_eq_zero_iff [symmetric] del: count_eq_zero_iff)
  then show ?thesis
    using assms c by (auto simp: futures_ok_def takeSlot_def newWriteFuture_def)
qed

lemma futures_ok_rejectCall:
  assumes "futures_ok w M s"
  shows "futures_ok w M (rejectCall e s)"
proof -
  have c: "count M g = (if g < asNext s \<and> futData (asFutures s g) = None then 1 else 0)" for g
    using assms by (simp add: futures_ok_def)
  have "asNext s \<notin># M" using c [of "asNext s"] by (simp add: count_eq_zero_iff [symmetric] del: count_eq_zero_iff)
  then show ?thesis
    using assms c
    by (auto simp: futures_ok_def rejectCall_def completeFuture_def complete_def newWriteFuture_def less_Suc_eq)
qed

text \<open>Updating the open batch of one bucket.\<close>

lemma openFutures_upd:
  assumes "b \<in> set (awBuckets w)"
    and "\<And>c. c \<noteq> b \<Longrightarrow> openItems s' c = openItems s c"
  shows "openFutures w s' + mset (map pwFuture (openItems s b)) = openFutures w s + mset (map pwFuture (openItems s' b))"
proof -
  have "(\<Sum>c \<in> set (awBuckets w) - {b}. mset (map pwFuture (openItems s' c)))
      = (\<Sum>c \<in> set (awBuckets w) - {b}. mset (map pwFuture (openItems s c)))"
    using assms(2) by (intro sum.cong) auto
  then show ?thesis
    unfolding openFutures_def using assms(1) by (simp add: sum.remove [of _ b] ac_simps)
qed

lemma openItems_flushBucket:
  "openItems (snd (flushBucket w b s)) c = (if c = b then [] else openItems s c)"
  by (auto simp: openItems_def flushBucket_batches split: option.splits)

end
