(* ===== verification/Append_Loop.thy ===== *)
theory Append_Loop
  imports Append_Invariants "HOL-Library.Sublist"
begin

text \<open>
  The invariant of the append loop: futures, order of the items of a bucket, limits of the batches. It is
  proved for every primitive operation and carried through \<^const>\<open>add\<close>, \<^const>\<open>queueAll\<close> and
  \<^const>\<open>handleCompletion\<close>.
\<close>

section \<open>Batches\<close>

definition row_batch :: "append_static \<Rightarrow> 'a bucket_batch \<Rightarrow> bool" where
  "row_batch w bt \<longleftrightarrow> (\<forall>i \<in> set (bbItems bt). pwArrow i = None)
     \<and> bbRecords bt = map (appendRecord \<circ> pwRow) (bbItems bt) \<and> bbBytes bt = sum_list (map pwSize (bbItems bt))
     \<and> int (length (bbItems bt)) \<le> acMaxBatchRecords (awConfig w)
     \<and> (bbBytes bt \<le> acMaxBatchBytes (awConfig w) \<or> length (bbItems bt) \<le> 1)"

definition arrow_batch :: "'a bucket_batch \<Rightarrow> bool" where
  "arrow_batch bt \<longleftrightarrow> (\<exists>i. pwArrow i \<noteq> None \<and> bt = \<lparr>bbItems = [i], bbRecords = [], bbBytes = 0\<rparr>)"

definition batch_ok :: "append_static \<Rightarrow> 'a bucket_batch \<Rightarrow> bool" where
  "batch_ok w bt \<longleftrightarrow> row_batch w bt \<or> arrow_batch bt"

definition limits_inv :: "append_static \<Rightarrow> 'a append_state \<Rightarrow> bool" where
  "limits_inv w s \<longleftrightarrow> (\<forall>b bt. asBatches s b = Some bt \<or> bt \<in> set (lineOf (asSched s) b) \<longrightarrow> batch_ok w bt)"

text \<open>The open batches hold rows, and under the sticky assigner only the current bucket has one.\<close>

definition open_rows :: "append_static \<Rightarrow> 'a append_state \<Rightarrow> bool" where
  "open_rows w s \<longleftrightarrow> (\<forall>b bt. asBatches s b = Some bt \<longrightarrow> row_batch w bt
     \<and> (effectiveNoKeyAssigner w = NoKeyAssignerSticky \<and> bbItems bt \<noteq> [] \<longrightarrow>
          0 \<le> asStickyIndex s \<and> b = awBuckets w ! nat (asStickyIndex s)))"

section \<open>Order\<close>

definition order_inv :: "'a append_state \<Rightarrow> bool" where
  "order_inv s \<longleftrightarrow> (\<forall>b.
     if poisoned (asSched s) b = None
     then concat (map bbItems (lineOf (asSched s) b)) @ openItems s b = asAccepted s b
     else prefix (concat (map bbItems (lineOf (asSched s) b))) (asAccepted s b))"

definition loop_inv :: "append_static \<Rightarrow> nat multiset \<Rightarrow> 'a append_state \<Rightarrow> bool" where
  "loop_inv w X s \<longleftrightarrow> batches_ok w s \<and> counters_ok w s \<and> sched_inv (limitOf w) (awBuckets w) (asSched s)
     \<and> futures_ok w (X + outstanding w s) s \<and> order_inv s \<and> limits_inv w s"

lemma loop_invD:
  assumes "loop_inv w X s"
  shows "batches_ok w s" "counters_ok w s" "sched_inv (limitOf w) (awBuckets w) (asSched s)"
    "futures_ok w (X + outstanding w s) s" "order_inv s" "limits_inv w s"
  using assms by (simp_all add: loop_inv_def)

section \<open>Primitive operations\<close>

lemma openItems_cong: "asBatches s = asBatches s' \<Longrightarrow> openItems s = openItems s'"
  by (simp add: openItems_def fun_eq_iff)

lemma outstanding_cong:
  assumes "asEntering s = asEntering s'" "asCommands s = asCommands s'" "asSched s = asSched s'"
    and "openItems s = openItems s'"
  shows "outstanding w s = outstanding w s'"
  using assms by (simp add: outstanding_def openFutures_def coreFutures_def)

text \<open>An operation that touches neither the open items, the core, the history nor the queues keeps the
  invariant as far as the futures do.\<close>

lemma loop_inv_frame:
  assumes "loop_inv w X s" "batches_ok w s'" "counters_ok w s'" "asSched s' = asSched s" "openItems s' = openItems s"
    and "asAccepted s' = asAccepted s" "asEntering s' = asEntering s" "asCommands s' = asCommands s"
    and "futures_ok w (Y + outstanding w s) s'" "\<And>b bt. asBatches s' b = Some bt \<Longrightarrow> batch_ok w bt"
  shows "loop_inv w Y s'"
proof -
  have "outstanding w s' = outstanding w s" by (rule outstanding_cong) (simp_all add: assms)
  then show ?thesis
    using assms by (auto simp: loop_inv_def order_inv_def limits_inv_def)
qed

lemma loop_inv_completeFuture:
  assumes "loop_inv w (add_mset f X) s"
  shows "loop_inv w X (completeFuture f r s)"
proof (rule loop_inv_frame [OF assms])
  show "futures_ok w (X + outstanding w s) (completeFuture f r s)"
    by (rule futures_ok_completeFuture) (use loop_invD(4) [OF assms] in simp)
qed (use loop_invD [OF assms] in \<open>auto simp: batches_ok_def counters_ok_def limits_inv_def intro: openItems_cong\<close>)

lemma row_batch_empty: "0 < acMaxBatchRecords (awConfig w) \<Longrightarrow> row_batch w emptyBatch"
  by (simp add: row_batch_def emptyBatch_def)

lemma loop_inv_batchOf:
  assumes "loop_inv w X s" "b \<in> set (awBuckets w)" "validAppendStatic w"
  shows "loop_inv w X (snd (batchOf b s))"
proof (rule loop_inv_frame [OF assms(1)])
  show "futures_ok w (X + outstanding w s) (snd (batchOf b s))"
    using loop_invD(4) [OF assms(1)] by (simp add: futures_ok_def)
  show "batches_ok w (snd (batchOf b s))"
    using loop_invD(1) [OF assms(1)] assms(2) by (rule batchOf_batches_ok)
  show "openItems (snd (batchOf b s)) = openItems s"
    by (auto simp: openItems_def batchOf_def emptyBatch_def fun_eq_iff split: option.split)
  show "batch_ok w bt" if "asBatches (snd (batchOf b s)) c = Some bt" for c bt
    using that loop_invD(6) [OF assms(1)] row_batch_empty [of w] assms(3)
    by (auto simp: batchOf_def limits_inv_def batch_ok_def validAppendStatic_def split: option.splits if_splits)
qed (use loop_invD [OF assms(1)] in \<open>auto simp: counters_ok_def\<close>)

lemma loop_inv_neutral:
  assumes "loop_inv w X s" "counters_ok w s'" "asBatches s' = asBatches s" "asSched s' = asSched s"
    and "asAccepted s' = asAccepted s" "asEntering s' = asEntering s" "asCommands s' = asCommands s"
    and "asFutures s' = asFutures s" "asNext s' = asNext s" "asSlots s' = asSlots s"
  shows "loop_inv w X s'"
proof (rule loop_inv_frame [OF assms(1)])
  show "futures_ok w (X + outstanding w s) s'"
    using loop_invD(4) [OF assms(1)] assms(8-10) by (simp add: futures_ok_def)
qed (use loop_invD [OF assms(1)] assms in \<open>auto simp: batches_ok_def limits_inv_def intro: openItems_cong\<close>)

lemma loop_inv_advanceSticky:
  "loop_inv w X s \<Longrightarrow> validAppendStatic w \<Longrightarrow> loop_inv w X (advanceSticky w s)"
  by (rule loop_inv_neutral, assumption, rule advanceSticky_counters)
    (auto simp: validAppendStatic_def loop_inv_def)

lemma loop_inv_assignBucket:
  "loop_inv w X s \<Longrightarrow> validAppendStatic w \<Longrightarrow> loop_inv w X (snd (assignBucket w i s))"
  by (rule loop_inv_neutral, assumption, rule assignBucket_counters)
    (auto simp: validAppendStatic_def loop_inv_def)

lemma loop_inv_armTimer: "loop_inv w X s \<Longrightarrow> loop_inv w X (armTimer w s)"
  by (rule loop_inv_neutral, assumption) (auto simp: loop_inv_def counters_ok_def)

lemma loop_inv_stopTimer: "loop_inv w X s \<Longrightarrow> loop_inv w X (stopTimer s)"
  by (rule loop_inv_neutral, assumption) (auto simp: loop_inv_def counters_ok_def stopTimer_def)

text \<open>An item joins the open batch of a bucket.\<close>

lemma loop_inv_putBatch:
  assumes "loop_inv w (add_mset (pwFuture i) X) s" "b \<in> set (awBuckets w)"
    and "bbItems bt = openItems s b @ [i]" "batch_ok w bt"
  shows "loop_inv w X (putBatch b bt i s)"
proof -
  let ?s = "putBatch b bt i s"
  note d = loop_invD [OF assms(1)]
  have o: "openItems ?s c = (if c = b then openItems s b @ [i] else openItems s c)" for c
    using assms(3) by (simp add: openItems_def)
  have "openFutures w ?s + mset (map pwFuture (openItems s b))
      = openFutures w s + mset (map pwFuture (openItems ?s b))"
    by (rule openFutures_upd [OF assms(2)]) (simp add: o)
  then have "openFutures w ?s = add_mset (pwFuture i) (openFutures w s)" by (simp add: o)
  then have "outstanding w ?s = add_mset (pwFuture i) (outstanding w s)"
    by (simp add: outstanding_def coreFutures_def)
  then have "futures_ok w (X + outstanding w ?s) ?s" using d(4) by (simp add: futures_ok_def)
  moreover have "order_inv ?s"
    using d(5) unfolding order_inv_def by (auto simp: o)
  moreover have "limits_inv w ?s" using d(6) assms(4) by (auto simp: limits_inv_def)
  ultimately show ?thesis
    using d(1,2,3) assms(2) by (auto simp: loop_inv_def batches_ok_def counters_ok_def)
qed

text \<open>An open batch is handed to the core, or completed when the bucket is poisoned.\<close>

lemma loop_inv_flushBucket:
  assumes "loop_inv w X s"
  shows "loop_inv w X (snd (flushBucket w b s))"
proof (cases "openItems s b = []")
  case True
  then have "snd (flushBucket w b s) = s"
    by (auto simp: flushBucket_def openItems_def split: option.splits)
  with assms show ?thesis by simp
next
  case False
  note d = loop_invD [OF assms]
  obtain bt where bt: "asBatches s b = Some bt" "bbItems bt \<noteq> []" "openItems s b = bbItems bt"
    using False by (auto simp: openItems_def split: option.splits)
  have b: "b \<in> set (awBuckets w)" using d(1) bt(1) by (auto simp: batches_ok_def)
  let ?s = "snd (flushBucket w b s)"
  let ?t = "s\<lparr>asBatches := (asBatches s)(b := None)\<rparr>"
  have o: "openItems ?s c = (if c = b then [] else openItems s c)" for c by (rule openItems_flushBucket)
  have "openFutures w ?s + mset (map pwFuture (openItems s b)) = openFutures w s + mset (map pwFuture (openItems ?s b))"
    by (rule openFutures_upd [OF b]) (simp add: o)
  then have open': "openFutures w s = openFutures w ?s + futs bt" by (simp add: o bt(3) futs_def)
  have ok: "batch_ok w bt" using d(6) bt(1) by (auto simp: limits_inv_def)
  have frame: "batches_ok w ?s" "counters_ok w ?s"
    using d(1,2) by (simp_all add: flushBucket_batches_ok) (simp add: counters_ok_def)
  show ?thesis
  proof (cases "poisoned (asSched s) b = None")
    case False
    then have s: "?s = completeBatch bt b 0 False (Some ErrWriterState) ?t"
      using bt by (auto simp: flushBucket_def)
    have core: "asSched ?s = asSched s" by (simp add: s)
    have eq: "X + outstanding w s = futs bt + (X + outstanding w ?s)"
      using open' core by (simp add: outstanding_def coreFutures_def ac_simps)
    have "futures_ok w (X + outstanding w s) ?t"
      using d(4) by (subst futures_ok_cong [of _ s]) simp_all
    then have "futures_ok w (futs bt + (X + outstanding w ?s)) ?t" by (simp only: eq)
    then have "futures_ok w (X + outstanding w ?s) ?s"
      unfolding s by (rule futures_ok_completeBatch)
    moreover have "order_inv ?s" using d(5) False by (auto simp: order_inv_def core o)
    moreover have "limits_inv w ?s"
      using d(6) bt by (auto simp: limits_inv_def core flushBucket_batches)
    ultimately show ?thesis using frame d(3) core by (simp add: loop_inv_def)
  next
    case True
    let ?core = "enqueueBatch (limitOf w) (awBuckets w) b bt (asSched s)"
    have s: "?s = ?t\<lparr>asSched := ?core\<rparr>" using bt True by (auto simp: flushBucket_def)
    have core: "asSched ?s = ?core" by (simp add: s)
    have "coreFutures w ?s = futs bt + coreFutures w s"
      using b by (simp add: coreFutures_def core inside_enqueueBatch)
    then have "outstanding w ?s = outstanding w s"
      using open' by (simp add: outstanding_def ac_simps)
    then have "futures_ok w (X + outstanding w ?s) ?s" using d(4) by (simp add: futures_ok_def s)
    moreover have "concat (map bbItems (lineOf (asSched s) b)) @ bbItems bt = asAccepted s b"
      using d(5) True bt(3) unfolding order_inv_def by (metis (full_types))
    then have "order_inv ?s"
      using d(5) True unfolding order_inv_def core by (auto simp: o lineOf_enqueueBatch)
    moreover have "limits_inv w ?s"
      using d(6) ok by (auto simp: limits_inv_def core lineOf_enqueueBatch flushBucket_batches bt split: if_splits)
    moreover have "sched_inv (limitOf w) (awBuckets w) ?core"
      using d(3) b True by (rule sched_inv_enqueueBatch)
    ultimately show ?thesis using frame core by (simp add: loop_inv_def)
  qed
qed

section \<open>Open batches\<close>

abbreviation sticky :: "append_static \<Rightarrow> bool" where
  "sticky w \<equiv> effectiveNoKeyAssigner w = NoKeyAssignerSticky"

definition current :: "append_static \<Rightarrow> int \<Rightarrow> 'a append_state \<Rightarrow> bool" where
  "current w b s \<longleftrightarrow> (sticky w \<longrightarrow> 0 \<le> asStickyIndex s \<and> b = awBuckets w ! nat (asStickyIndex s))"

lemma open_rows_flushBucket: "open_rows w s \<Longrightarrow> open_rows w (snd (flushBucket w b s))"
  by (auto simp: open_rows_def flushBucket_batches split: option.splits if_splits)

lemma open_rows_completeFuture: "open_rows w (completeFuture f r s) = open_rows w s"
  by (simp add: open_rows_def)

lemma open_rows_batchOf: "open_rows w s \<Longrightarrow> validAppendStatic w \<Longrightarrow> open_rows w (snd (batchOf b s))"
  using row_batch_empty [of w]
  by (auto simp: open_rows_def batchOf_def emptyBatch_def validAppendStatic_def split: option.splits if_splits)

lemma open_rows_assignBucket: "open_rows w s \<Longrightarrow> open_rows w (snd (assignBucket w i s))"
  by (fastforce simp: open_rows_def assignBucket_def Let_def split: option.splits if_splits)

lemma flushBucket_current_empty:
  assumes "open_rows w s" "current w b s" "sticky w"
  shows "openItems (snd (flushBucket w b s)) c = []"
proof (cases "c = b")
  case False
  then have "openItems s c = []"
    using assms unfolding open_rows_def current_def openItems_def by (auto split: option.splits)
  with False show ?thesis by (simp add: openItems_flushBucket)
qed (simp add: openItems_flushBucket)

lemma open_rows_advanceSticky:
  assumes "open_rows w s" "sticky w \<Longrightarrow> \<forall>c. openItems s c = []"
  shows "open_rows w (advanceSticky w s)"
proof -
  have "bbItems bt = []" if "sticky w" "asBatches s b = Some bt" for b bt
    using assms(2) [OF that(1)] that(2) unfolding openItems_def by (auto dest: spec [of _ b])
  with assms(1) show ?thesis unfolding open_rows_def by auto
qed

lemma assignBucket_current:
  assumes "assignBucket w i s = (Inr b, s')" "pwBucket i = None"
  shows "current w b s'"
proof -
  have ne: "NoKeyAssignerSticky \<noteq> NoKeyAssignerRoundRobin" "NoKeyAssignerSticky \<noteq> []"
    by (simp_all add: NoKeyAssignerSticky_def NoKeyAssignerRoundRobin_def)
  have "BucketKey (tblSchema (awTable w)) = []" if "sticky w"
    using that ne(2) by (auto simp: effectiveNoKeyAssigner_def split: if_splits)
  then show ?thesis
    using assms ne by (auto simp: current_def assignBucket_def go_index_def Let_def split: if_splits)
qed

lemma row_batch_add:
  assumes "row_batch w bt" "bbItems bt = [] \<or> \<not> batchFullWith w bt i" "pwArrow i = None" "validAppendStatic w"
  shows "row_batch w \<lparr>bbItems = bbItems bt @ [i], bbRecords = bbRecords bt @ [appendRecord (pwRow i)],
    bbBytes = bbBytes bt + pwSize i\<rparr>"
  using assms by (auto simp: row_batch_def batchFullWith_def validAppendStatic_def)

section \<open>Adding an item\<close>

text \<open>What \<^const>\<open>availableBatch\<close> hands to \<^const>\<open>addRow\<close>.\<close>

definition batch_ready :: "append_static \<Rightarrow> nat multiset \<Rightarrow> 'a pending_write \<Rightarrow> int \<Rightarrow> 'a bucket_batch \<Rightarrow>
  'a append_state \<Rightarrow> bool" where
  "batch_ready w X i b bt s \<longleftrightarrow> loop_inv w (add_mset (pwFuture i) X) s \<and> open_rows w s \<and> b \<in> set (awBuckets w)
     \<and> current w b s \<and> asBatches s b = Some bt \<and> (bbItems bt = [] \<or> \<not> batchFullWith w bt i)"

lemma batch_readyI:
  assumes "loop_inv w (add_mset (pwFuture i) X) s" "open_rows w s" "b \<in> set (awBuckets w)" "current w b s"
    and "validAppendStatic w" "batchOf b s = (bt, s')" "openItems s b = [] \<or> \<not> batchFullWith w bt i"
  shows "batch_ready w X i b bt s'"
proof -
  have s': "s' = snd (batchOf b s)" and bt: "bt = fst (batchOf b s)" using assms(6) by simp_all
  have "asBatches s' b = Some bt" by (auto simp: s' bt batchOf_def split: option.splits)
  moreover have "bbItems bt = openItems s b"
    by (auto simp: bt batchOf_def openItems_def emptyBatch_def split: option.splits)
  then have "bbItems bt = [] \<or> \<not> batchFullWith w bt i" using assms(7) by (simp only:)
  moreover have "loop_inv w (add_mset (pwFuture i) X) s'" "open_rows w s'"
    using loop_inv_batchOf [OF assms(1,3,5)] open_rows_batchOf [OF assms(2,5)] by (simp_all only: s')
  moreover have "current w b s'" using assms(4) by (simp add: current_def s')
  ultimately show ?thesis using assms(3) unfolding batch_ready_def by blast
qed

lemma availableBatch_ready:
  assumes "loop_inv w (add_mset (pwFuture i) X) s" "open_rows w s" "b \<in> set (awBuckets w)" "current w b s"
    and v: "validAppendStatic w" and i: "item_ok w i" "pwArrow i = None"
  shows "case availableBatch w b i s of
      (None, s') \<Rightarrow> loop_inv w X s' \<and> open_rows w s'
    | (Some (b', bt), s') \<Rightarrow> batch_ready w X i b' bt s'"
proof -
  obtain bt s1 where b1: "batchOf b s = (bt, s1)" by (cases "batchOf b s")
  then have s1: "s1 = snd (batchOf b s)" and o1: "bbItems bt = openItems s b"
    by (auto simp: batchOf_def openItems_def emptyBatch_def split: option.splits)
  have none: "pwBucket i = None" using i by (auto simp: item_ok_def split: option.splits)
  have inv1: "loop_inv w (add_mset (pwFuture i) X) s1" "open_rows w s1" "current w b s1"
    using loop_inv_batchOf [OF assms(1,3) v] open_rows_batchOf [OF assms(2) v] assms(4)
    by (simp_all add: s1 current_def)
  show ?thesis
  proof (cases "bbItems bt = [] \<or> \<not> batchFullWith w bt i")
    case True
    then have "batch_ready w X i b bt s1"
      using batch_readyI [OF assms(1-4) v b1] o1 by simp
    with True show ?thesis by (simp add: availableBatch_def b1)
  next
    case full: False
    let ?s2 = "snd (flushBucket w b s1)"
    have inv2: "loop_inv w (add_mset (pwFuture i) X) ?s2" "open_rows w ?s2" "current w b ?s2" "openItems ?s2 b = []"
      using loop_inv_flushBucket [OF inv1(1)] open_rows_flushBucket [OF inv1(2)] inv1(3)
      by (simp_all add: current_def openItems_flushBucket)
    show ?thesis
    proof (cases "sticky w")
      case False
      obtain bt' s3 where b3: "batchOf b ?s2 = (bt', s3)" by (cases "batchOf b ?s2")
      have "batch_ready w X i b bt' s3"
        using batch_readyI [OF inv2(1,2) assms(3) inv2(3) v b3] inv2(4) by simp
      with full False show ?thesis by (simp add: availableBatch_def b1 b3)
    next
      case st: True
      let ?s3 = "advanceSticky w ?s2"
      have empty: "openItems ?s2 c = []" for c
        using flushBucket_current_empty [OF inv1(2,3) st] .
      have inv3: "loop_inv w (add_mset (pwFuture i) X) ?s3" "open_rows w ?s3"
        using loop_inv_advanceSticky [OF inv2(1) v] open_rows_advanceSticky [OF inv2(2)] empty by auto
      obtain r s4 where a: "assignBucket w i ?s3 = (r, s4)" by (cases "assignBucket w i ?s3")
      then have s4: "s4 = snd (assignBucket w i ?s3)" by simp
      have inv4: "loop_inv w (add_mset (pwFuture i) X) s4" "open_rows w s4"
        using loop_inv_assignBucket [OF inv3(1) v] open_rows_assignBucket [OF inv3(2)] by (simp_all add: s4)
      show ?thesis
      proof (cases r)
        case (Inl e)
        then show ?thesis
          using full st inv4 loop_inv_completeFuture [OF inv4(1)]
          by (simp add: availableBatch_def b1 a open_rows_completeFuture)
      next
        case (Inr b')
        have "b' \<in> set (awBuckets w)" "current w b' s4"
          using assignBucket_in [OF a [unfolded Inr] i(1)] assignBucket_current [OF a [unfolded Inr] none] by auto
        moreover obtain bt' s5 where b5: "batchOf b' s4 = (bt', s5)" by (cases "batchOf b' s4")
        moreover have "openItems s4 b' = []"
          using empty openItems_cong [of s4 ?s2] by (simp add: s4)
        ultimately have "batch_ready w X i b' bt' s5"
          using batch_readyI [OF inv4 _ _ v b5] by simp
        then show ?thesis using full st by (simp add: availableBatch_def b1 a Inr b5)
      qed
    qed
  qed
qed

lemma loop_inv_addRow:
  assumes "loop_inv w (add_mset (pwFuture i) X) s" "open_rows w s" "b \<in> set (awBuckets w)" "current w b s"
    and v: "validAppendStatic w" and i: "item_ok w i" "pwArrow i = None"
  shows "loop_inv w X (addRow w b i s) \<and> open_rows w (addRow w b i s)"
proof -
  note av = availableBatch_ready [OF assms]
  obtain r s1 where a: "availableBatch w b i s = (r, s1)" by (cases "availableBatch w b i s")
  show ?thesis
  proof (cases r)
    case None
    then show ?thesis using av by (simp add: addRow_def a)
  next
    case (Some bb)
    obtain b' bt where bb: "bb = (b', bt)" by (cases bb)
    have "batch_ready w X i b' bt s1" using av by (simp add: a Some bb)
    then have r: "loop_inv w (add_mset (pwFuture i) X) s1" "open_rows w s1" "b' \<in> set (awBuckets w)" "current w b' s1"
      "asBatches s1 b' = Some bt" "bbItems bt = [] \<or> \<not> batchFullWith w bt i"
      by (simp_all add: batch_ready_def)
    let ?bt = "\<lparr>bbItems = bbItems bt @ [i], bbRecords = bbRecords bt @ [appendRecord (pwRow i)],
      bbBytes = bbBytes bt + pwSize i\<rparr>"
    let ?s2 = "putBatch b' ?bt i s1"
    have row: "row_batch w ?bt" using r(2,5,6) i(2) v by (intro row_batch_add) (auto simp: open_rows_def)
    have inv2: "loop_inv w X ?s2"
      by (rule loop_inv_putBatch [OF r(1,3)]) (use row r(5) in \<open>auto simp: openItems_def batch_ok_def\<close>)
    have open2: "open_rows w ?s2" "current w b' ?s2"
      using r(2,4) row by (auto simp: open_rows_def current_def)
    let ?s3 = "snd (flushBucket w b' ?s2)"
    have inv3: "loop_inv w X ?s3" "open_rows w ?s3"
      using loop_inv_flushBucket [OF inv2] open_rows_flushBucket [OF open2(1)] by auto
    have inv4: "loop_inv w X (advanceSticky w ?s3)" "open_rows w (advanceSticky w ?s3)" if "sticky w"
      using loop_inv_advanceSticky [OF inv3(1) v] open_rows_advanceSticky [OF inv3(2)]
        flushBucket_current_empty [OF open2 that] by auto
    have inv5: "loop_inv w X (armTimer w ?s2)" "open_rows w (armTimer w ?s2)"
      using loop_inv_armTimer [OF inv2] open2(1) by (auto simp: open_rows_def)
    show ?thesis using inv3 inv4 inv5 by (simp add: addRow_def a Some bb Let_def)
  qed
qed

lemma loop_inv_addArrow:
  assumes "loop_inv w (add_mset (pwFuture i) X) s" "open_rows w s" "b \<in> set (awBuckets w)" "pwArrow i \<noteq> None"
  shows "loop_inv w X (addArrow w b i s) \<and> open_rows w (addArrow w b i s)"
proof -
  let ?bt = "\<lparr>bbItems = [i], bbRecords = [], bbBytes = 0\<rparr>"
  let ?s1 = "snd (flushBucket w b s)"
  let ?s2 = "putBatch b ?bt i ?s1"
  have inv1: "loop_inv w (add_mset (pwFuture i) X) ?s1" "open_rows w ?s1" "openItems ?s1 b = []"
    using loop_inv_flushBucket [OF assms(1)] open_rows_flushBucket [OF assms(2)] by (auto simp: openItems_flushBucket)
  have "loop_inv w X ?s2"
    by (rule loop_inv_putBatch [OF inv1(1) assms(3)]) (use inv1(3) assms(4) in \<open>auto simp: batch_ok_def arrow_batch_def\<close>)
  then have "loop_inv w X (snd (flushBucket w b ?s2))" by (rule loop_inv_flushBucket)
  moreover have "open_rows w (snd (flushBucket w b ?s2))"
    using inv1(2) unfolding open_rows_def by (simp add: flushBucket_batches)
  ultimately show ?thesis by (simp add: addArrow_def Let_def)
qed

lemma loop_inv_add:
  assumes "loop_inv w (add_mset (pwFuture i) X) s" "open_rows w s"
    and v: "validAppendStatic w" and i: "item_ok w i"
  shows "loop_inv w X (add w ctxErr i s) \<and> open_rows w (add w ctxErr i s)"
proof (cases ctxErr)
  case (Some e)
  then show ?thesis
    using loop_inv_completeFuture [OF assms(1)] assms(2) by (simp add: add_def open_rows_completeFuture)
next
  case None
  obtain r s1 where a: "assignBucket w i s = (r, s1)" by (cases "assignBucket w i s")
  then have s1: "s1 = snd (assignBucket w i s)" by simp
  have inv1: "loop_inv w (add_mset (pwFuture i) X) s1" "open_rows w s1"
    using loop_inv_assignBucket [OF assms(1) v] open_rows_assignBucket [OF assms(2)] by (simp_all add: s1)
  show ?thesis
  proof (cases r)
    case (Inl e)
    then show ?thesis
      using None a loop_inv_completeFuture [OF inv1(1)] inv1(2) by (simp add: add_def open_rows_completeFuture)
  next
    case (Inr b)
    have b: "b \<in> set (awBuckets w)" using assignBucket_in [OF a [unfolded Inr] i] .
    show ?thesis
    proof (cases "pwArrow i = None")
      case True
      then have "pwBucket i = None" using i by (auto simp: item_ok_def split: option.splits)
      then have "current w b s1" using assignBucket_current [OF a [unfolded Inr]] by simp
      then show ?thesis using loop_inv_addRow [OF inv1 b _ v i True] None a Inr True by (simp add: add_def)
    next
      case False
      then show ?thesis using loop_inv_addArrow [OF inv1 b False] None a Inr by (simp add: add_def)
    qed
  qed
qed

section \<open>Queueing every bucket\<close>

lemma loop_inv_queueBuckets:
  assumes "loop_inv w X s" "open_rows w s" "queueBuckets w bs joined s = (err, s')"
  shows "loop_inv w X s' \<and> open_rows w s' \<and> (\<forall>b. openItems s' b = (if b \<in> set bs then [] else openItems s b))"
  using assms
proof (induction bs arbitrary: joined s)
  case (Cons b bs)
  let ?s = "snd (flushBucket w b s)"
  have q: "queueBuckets w bs (joinErr joined (fst (flushBucket w b s))) ?s = (err, s')"
    using Cons.prems(3) by (simp add: Let_def split_beta)
  show ?case
    using Cons.IH [OF loop_inv_flushBucket [OF Cons.prems(1)] open_rows_flushBucket [OF Cons.prems(2)] q]
    by (simp add: openItems_flushBucket)
qed auto

lemma openItems_outside: "batches_ok w s \<Longrightarrow> b \<notin> set (awBuckets w) \<Longrightarrow> openItems s b = []"
  by (auto simp: openItems_def batches_ok_def split: option.split)

lemma loop_inv_queueAll:
  assumes "loop_inv w X s" "open_rows w s" "queueAll w s = (err, s')"
  shows "loop_inv w X s' \<and> open_rows w s' \<and> (\<forall>b. openItems s' b = [])"
proof -
  have o: "open_rows w (stopTimer s)" using assms(2) by (simp add: open_rows_def stopTimer_def)
  have "loop_inv w X s' \<and> open_rows w s'
      \<and> (\<forall>b. openItems s' b = (if b \<in> set (awBuckets w) then [] else openItems (stopTimer s) b))"
    using loop_inv_queueBuckets [OF loop_inv_stopTimer [OF assms(1)] o] assms(3) by (simp add: queueAll_def)
  then show ?thesis using openItems_outside [of w s'] loop_invD(1) [of w X s'] by metis
qed

lemma queueAll_frame:
  assumes "queueAll w s = (err, s')"
  shows "asEntering s' = asEntering s \<and> asCommands s' = asCommands s \<and> asMode s' = asMode s
    \<and> asClosed s' = asClosed s \<and> asNext s' = asNext s"
proof -
  have "asEntering s' = asEntering s \<and> asCommands s' = asCommands s \<and> asMode s' = asMode s
      \<and> asClosed s' = asClosed s \<and> asNext s' = asNext s" if "queueBuckets w bs joined s = (err, s')" for bs joined s
    using that by (induction bs arbitrary: joined s) (force simp: Let_def split_beta)+
  then show ?thesis using assms by (fastforce simp: queueAll_def stopTimer_def)
qed

section \<open>Completions\<close>

lemma sentOf_prefix_accepted:
  assumes "order_inv s"
  shows "prefix (concat (map bbItems (sentOf (asSched s) b))) (asAccepted s b)"
proof -
  have "prefix (concat (map bbItems (sentOf (asSched s) b))) (concat (map bbItems (lineOf (asSched s) b)))"
    by (simp add: lineOf_def)
  moreover have "prefix (concat (map bbItems (lineOf (asSched s) b))) (asAccepted s b)"
    using assms unfolding order_inv_def by (metis prefixI)
  ultimately show ?thesis by (rule prefix_order.trans)
qed

lemma loop_inv_handleCompletion:
  assumes "loop_inv w X s" "(b, bt, sq) \<in> set (running (asSched s))" "cpBucket cp = b" "cpBatch cp = bt"
  shows "loop_inv w X (handleCompletion w cp s)"
proof -
  note d = loop_invD [OF assms(1)]
  let ?l = "asSched s"
  let ?fin = "finishBatch (limitOf w) (awBuckets w) b (cpErr cp) ?l"
  let ?s1 = "s\<lparr>asSched := snd ?fin\<rparr>"
  let ?s2 = "handleCompletion w cp s"
  have core: "core_inv (limitOf w) (awBuckets w) ?l" using d(3) by (simp add: sched_inv_def)
  have act: "active ?l b" using core assms(2) by (force simp: core_inv_def running_ok_def)
  have unp: "poisoned ?l b = None" using core act by (auto simp: core_inv_def work_ok_def)
  have frame: "asBatches ?s2 = asBatches s" "asSched ?s2 = snd ?fin" "asAccepted ?s2 = asAccepted s"
    "asEntering ?s2 = asEntering s" "asCommands ?s2 = asCommands s" "asRoundRobin ?s2 = asRoundRobin s"
    "asStickyIndex ?s2 = asStickyIndex s" "asNext ?s2 = asNext s"
    by (simp_all add: handleCompletion_def Let_def split_beta assms(3) split: option.split)
  have o: "openItems ?s2 = openItems s" by (rule openItems_cong) (rule frame(1))
  have "coreFutures w s = futs bt + \<Sum>\<^sub># (image_mset futs (mset (fst ?fin))) + coreFutures w ?s2"
    by (simp add: coreFutures_def frame(2) inside_finishBatch [OF core assms(2), of "cpErr cp"])
  then have eq: "X + outstanding w s = futs bt + (\<Sum>\<^sub># (image_mset futs (mset (fst ?fin))) + (X + outstanding w ?s2))"
    using o by (simp add: outstanding_def openFutures_def frame ac_simps)
  have "futures_ok w (X + outstanding w s) ?s1" using d(4) by (subst futures_ok_cong [of _ s]) simp_all
  then have f1: "futures_ok w (futs bt + (\<Sum>\<^sub># (image_mset futs (mset (fst ?fin))) + (X + outstanding w ?s2))) ?s1"
    by (simp only: eq)
  have "futures_ok w (X + outstanding w ?s2) ?s2"
  proof (cases "cpErr cp")
    case None
    then have "?s2 = completeBatch bt b (cpBaseOffset cp) (cpOffsetKnown cp) None ?s1"
      by (simp add: handleCompletion_def Let_def split_beta assms)
    moreover have "fst ?fin = []" using None by (simp add: finishBatch_eq)
    ultimately show ?thesis using futures_ok_completeBatch [OF f1] by simp
  next
    case (Some e)
    then have "?s2 = completeBatches (fst ?fin) b (Some ErrWriterState)
        (completeBatch bt b 0 False (Some e) ?s1)"
      by (simp add: handleCompletion_def Let_def split_beta assms)
    then show ?thesis using futures_ok_completeBatches [OF futures_ok_completeBatch [OF f1]] by metis
  qed
  moreover have "order_inv ?s2"
  proof -
    have "prefix (concat (map bbItems (sentOf ?l b))) (asAccepted s b)" by (rule sentOf_prefix_accepted [OF d(5)])
    then show ?thesis
      using d(5) unp unfolding order_inv_def frame o poisoned_finishBatch lineOf_finishBatch
      by (auto split: if_splits)
  qed
  moreover have "limits_inv w ?s2"
  proof -
    have "set (lineOf (snd ?fin) c) \<subseteq> set (lineOf ?l c)" for c
      unfolding lineOf_finishBatch by (auto simp: lineOf_def)
    then show ?thesis using d(6) unfolding limits_inv_def frame by blast
  qed
  moreover have "sched_inv (limitOf w) (awBuckets w) (snd ?fin)" using d(3) act by (rule sched_inv_finishBatch)
  ultimately show ?thesis
    using d(1,2) by (simp add: loop_inv_def frame batches_ok_def counters_ok_def)
qed

lemma executeBatch_request:
  "cpBucket (executeBatch enc w env (b, bt, sq)) = b" "cpBatch (executeBatch enc w env (b, bt, sq)) = bt"
  by (simp_all add: executeBatch_def Let_def split: sum.split)

lemma handleCompletion_frame [simp]:
  "asBatches (handleCompletion w cp s) = asBatches s"
  "asEntering (handleCompletion w cp s) = asEntering s"
  "asCommands (handleCompletion w cp s) = asCommands s"
  "asClosed (handleCompletion w cp s) = asClosed s"
  "asMode (handleCompletion w cp s) = asMode s"
  "asStickyIndex (handleCompletion w cp s) = asStickyIndex s"
  "asRoundRobin (handleCompletion w cp s) = asRoundRobin s"
  "asSched (handleCompletion w cp s) =
     snd (finishBatch (limitOf w) (awBuckets w) (cpBucket cp) (cpErr cp) (asSched s))"
  by (simp_all add: handleCompletion_def Let_def split_beta split: option.split)

end
