(* ===== verification/Append_Steps.thy ===== *)
theory Append_Steps
  imports Append_Loop
begin

text \<open>
  Every step of the append writer keeps the invariant and moves the scheduling core by its own steps;
  the properties of the writer follow.
\<close>

section \<open>The invariant of a step\<close>

definition close_inv :: "'a append_state \<Rightarrow> bool" where
  "close_inv s \<longleftrightarrow>
     (case asMode s of
        Closing _ \<Rightarrow> asClosed s \<and> asCommands s = []
      | Stopped \<Rightarrow> asClosed s \<and> asCommands s = []
      | _ \<Rightarrow> if asClosed s then \<exists>cs. asCommands s = cs @ [CmdClose] \<and> CmdClose \<notin> set cs
             else CmdClose \<notin> set (asCommands s))"

definition mode_inv :: "'a append_state \<Rightarrow> bool" where
  "mode_inv s \<longleftrightarrow> (asMode s \<noteq> Serving \<longrightarrow> (\<forall>b. openItems s b = []))
     \<and> (asMode s = Stopped \<longrightarrow> inFlight (asSched s) \<le> 0)"

definition append_inv :: "append_static \<Rightarrow> 'a append_state \<Rightarrow> bool" where
  "append_inv w s \<longleftrightarrow> validAppendStatic w \<and> loop_inv w {#} s \<and> open_rows w s \<and> close_inv s \<and> mode_inv s
     \<and> (\<forall>item \<in> set (asEntering s) \<union> set (commandItems (asCommands s)). item_ok w item)"

text \<open>A step that only moves items between the queues, or changes the mode.\<close>

lemma loop_inv_queues:
  assumes "loop_inv w X s" "asBatches s' = asBatches s" "asSched s' = asSched s" "asAccepted s' = asAccepted s"
    and "asFutures s' = asFutures s" "asNext s' = asNext s" "asSlots s' = asSlots s"
    and "asRoundRobin s' = asRoundRobin s" "asStickyIndex s' = asStickyIndex s"
    and "Y + mset (map pwFuture (asEntering s' @ commandItems (asCommands s')))
       = X + mset (map pwFuture (asEntering s @ commandItems (asCommands s)))"
  shows "loop_inv w Y s'"
proof -
  have o: "openItems s' = openItems s" by (rule openItems_cong) (rule assms(2))
  have "Y + outstanding w s' = X + outstanding w s"
    using assms(10) by (simp add: outstanding_def openFutures_def coreFutures_def o assms(3) flip: add.assoc)
  moreover have "futures_ok w (X + outstanding w s) s'"
    using loop_invD(4) [OF assms(1)] assms(5-7) by (simp add: futures_ok_def)
  ultimately have "futures_ok w (Y + outstanding w s') s'" by simp
  then show ?thesis
    using loop_invD [OF assms(1)] assms
    by (simp add: loop_inv_def batches_ok_def counters_ok_def order_inv_def limits_inv_def o)
qed

lemma open_rows_cong:
  "asBatches s' = asBatches s \<Longrightarrow> asStickyIndex s' = asStickyIndex s \<Longrightarrow> open_rows w s' = open_rows w s"
  by (simp add: open_rows_def)

lemma close_inv_cong:
  "asMode s' = asMode s \<Longrightarrow> asClosed s' = asClosed s \<Longrightarrow> asCommands s' = asCommands s \<Longrightarrow> close_inv s' = close_inv s"
  by (simp add: close_inv_def split: loop_mode.split)

lemma mode_inv_cong:
  "asMode s' = asMode s \<Longrightarrow> asBatches s' = asBatches s \<Longrightarrow> asSched s' = asSched s \<Longrightarrow> mode_inv s' = mode_inv s"
  by (simp add: mode_inv_def openItems_def)

lemma rejectCall_frame [simp]:
  "asBatches (rejectCall e s) = asBatches s" "asSched (rejectCall e s) = asSched s"
  "asRoundRobin (rejectCall e s) = asRoundRobin s" "asStickyIndex (rejectCall e s) = asStickyIndex s"
  "asEntering (rejectCall e s) = asEntering s" "asCommands (rejectCall e s) = asCommands s"
  "asClosed (rejectCall e s) = asClosed s" "asMode (rejectCall e s) = asMode s"
  "asAccepted (rejectCall e s) = asAccepted s"
  by (simp_all add: rejectCall_def)

lemma append_inv_rejectCall: "append_inv w s \<Longrightarrow> append_inv w (rejectCall e s)"
  unfolding append_inv_def
proof (elim conjE, intro conjI)
  assume "loop_inv w {#} s"
  then show "loop_inv w {#} (rejectCall e s)"
  proof (rule loop_inv_frame)
    show "futures_ok w ({#} + outstanding w s) (rejectCall e s)"
      by (rule futures_ok_rejectCall) (use loop_invD(4) [OF \<open>loop_inv w {#} s\<close>] in simp)
  qed (use loop_invD [OF \<open>loop_inv w {#} s\<close>] in
      \<open>auto simp: batches_ok_def counters_ok_def limits_inv_def intro: openItems_cong\<close>)
qed (simp_all add: open_rows_cong [of "rejectCall e s" s] close_inv_cong [of "rejectCall e s" s]
    mode_inv_cong [of "rejectCall e s" s])

lemma append_inv_takeSlot:
  assumes "append_inv w s" "item_ok w item" "pwFuture item = asNext s" "int (asSlots s) < acMaxBuffered (awConfig w)"
  shows "append_inv w (takeSlot item s)"
proof -
  note d = assms(1) [unfolded append_inv_def]
  let ?s = "takeSlot item s"
  have frame: "asBatches ?s = asBatches s" "asSched ?s = asSched s" "asRoundRobin ?s = asRoundRobin s"
    "asStickyIndex ?s = asStickyIndex s" "asCommands ?s = asCommands s" "asClosed ?s = asClosed s" "asMode ?s = asMode s"
    "asAccepted ?s = asAccepted s" "asEntering ?s = asEntering s @ [item]"
    by (simp_all add: takeSlot_def)
  have o: "openItems ?s = openItems s" by (rule openItems_cong) (rule frame(1))
  have l: "loop_inv w {#} s" using d by blast
  have "outstanding w ?s = add_mset (pwFuture item) (outstanding w s)"
    by (simp add: outstanding_def openFutures_def coreFutures_def o frame)
  moreover have "futures_ok w (add_mset (pwFuture item) (outstanding w s)) ?s"
    by (rule futures_ok_takeSlot [OF _ assms(3,4)]) (use loop_invD(4) [OF l] in simp)
  ultimately have "loop_inv w {#} ?s"
    using loop_invD [OF l] by (simp add: loop_inv_def batches_ok_def counters_ok_def order_inv_def limits_inv_def o frame)
  then show ?thesis
    using d assms(2) open_rows_cong [of ?s s w] close_inv_cong [of ?s s] mode_inv_cong [of ?s s]
    by (auto simp: append_inv_def frame)
qed

lemma mset_remove1_future:
  "item \<in> set xs \<Longrightarrow> mset (map pwFuture xs) = add_mset (pwFuture item) (mset (map pwFuture (remove1 item xs)))"
  by (induction xs) auto

lemma append_inv_leaveEntering:
  assumes "append_inv w s" "item \<in> set (asEntering s)"
  shows "loop_inv w {#pwFuture item#} (leaveEntering item s)"
proof (rule loop_inv_queues [where X = "{#}"])
  show "loop_inv w {#} s" using assms(1) by (simp add: append_inv_def)
qed (use mset_remove1_future [OF assms(2)] in \<open>auto simp: leaveEntering_def\<close>)

lemma append_inv_refuseItem:
  assumes "append_inv w s" "item \<in> set (asEntering s)"
  shows "append_inv w (refuseItem e item s)"
proof -
  let ?s = "refuseItem e item s"
  have "loop_inv w {#} ?s"
    unfolding refuseItem_def by (rule loop_inv_completeFuture) (use append_inv_leaveEntering [OF assms] in simp)
  moreover have "asBatches ?s = asBatches s" "asSched ?s = asSched s" "asStickyIndex ?s = asStickyIndex s"
    "asCommands ?s = asCommands s" "asClosed ?s = asClosed s" "asMode ?s = asMode s"
    "set (asEntering ?s) \<subseteq> set (asEntering s)"
    using set_remove1_subset [of item "asEntering s"] by (auto simp: refuseItem_def leaveEntering_def)
  ultimately show ?thesis
    using assms(1) open_rows_cong [of ?s s w] close_inv_cong [of ?s s] mode_inv_cong [of ?s s]
    by (auto simp: append_inv_def)
qed

lemma append_inv_queueItem:
  assumes "append_inv w s" "item \<in> set (asEntering s)" "\<not> asClosed s"
  shows "append_inv w (queueItem item s)"
proof -
  let ?s = "queueItem item s"
  have frame: "asBatches ?s = asBatches s" "asSched ?s = asSched s" "asStickyIndex ?s = asStickyIndex s"
    "asClosed ?s = asClosed s" "asMode ?s = asMode s" "asEntering ?s = remove1 item (asEntering s)"
    "asCommands ?s = asCommands s @ [CmdItem item]"
    by (simp_all add: queueItem_def leaveEntering_def)
  have "loop_inv w {#} ?s"
    by (rule loop_inv_queues [OF append_inv_leaveEntering [OF assms(1,2)]])
      (simp_all add: queueItem_def leaveEntering_def)
  moreover have "close_inv ?s"
    using assms(1,3) by (auto simp: append_inv_def close_inv_def frame split: loop_mode.splits)
  ultimately show ?thesis
    using assms(1,2) open_rows_cong [of ?s s w] mode_inv_cong [of ?s s] set_remove1_subset [of item "asEntering s"]
    by (auto simp: append_inv_def frame)
qed

lemma append_inv_call:
  assumes "append_inv w s" "\<not> asClosed s" "cmd \<in> {CmdFlush, CmdClose}"
  shows "append_inv w (s\<lparr>asClosed := (cmd = CmdClose), asCommands := asCommands s @ [cmd]\<rparr>)" (is "append_inv w ?s")
proof -
  have "loop_inv w {#} ?s"
    by (rule loop_inv_queues [where s = s and X = "{#}"]) (use assms in \<open>auto simp: append_inv_def\<close>)
  moreover have "close_inv ?s"
    using assms by (auto simp: append_inv_def close_inv_def split: loop_mode.splits)
  moreover have "mode_inv ?s" "open_rows w ?s"
    using assms(1) by (simp_all add: append_inv_def mode_inv_def open_rows_def openItems_def)
  ultimately show ?thesis using assms by (auto simp: append_inv_def)
qed

lemma availableBatch_frame:
  assumes "availableBatch w b i s = (r, s')"
  shows "asEntering s' = asEntering s" "asCommands s' = asCommands s" "asClosed s' = asClosed s" "asMode s' = asMode s"
  using assms
  by (auto simp: availableBatch_def Let_def split_beta split: if_splits sum.splits prod.splits)

lemma add_frame:
  "asEntering (add w ctx i s) = asEntering s" "asCommands (add w ctx i s) = asCommands s"
  "asClosed (add w ctx i s) = asClosed s" "asMode (add w ctx i s) = asMode s"
proof -
  have row: "asEntering (addRow w b i s) = asEntering s \<and> asCommands (addRow w b i s) = asCommands s
      \<and> asClosed (addRow w b i s) = asClosed s \<and> asMode (addRow w b i s) = asMode s" for b s
    using availableBatch_frame [of w b i s]
    by (cases "availableBatch w b i s") (auto simp: addRow_def Let_def split: option.splits)
  have arrow: "asEntering (addArrow w b i s) = asEntering s \<and> asCommands (addArrow w b i s) = asCommands s
      \<and> asClosed (addArrow w b i s) = asClosed s \<and> asMode (addArrow w b i s) = asMode s" for b s
    by (simp add: addArrow_def Let_def)
  obtain r s1 where a: "assignBucket w i s = (r, s1)" by (cases "assignBucket w i s")
  have f: "asEntering s1 = asEntering s" "asCommands s1 = asCommands s" "asClosed s1 = asClosed s" "asMode s1 = asMode s"
    using assignBucket_frame [of w i s] by (simp_all add: a)
  show "asEntering (add w ctx i s) = asEntering s" "asCommands (add w ctx i s) = asCommands s"
    "asClosed (add w ctx i s) = asClosed s" "asMode (add w ctx i s) = asMode s"
    using row arrow f by (auto simp: add_def a split: option.splits sum.splits)
qed

lemma append_inv_loop_item:
  assumes "append_inv w s" "asMode s = Serving" "asCommands s = CmdItem item # rest"
  shows "append_inv w (add w ctx item (s\<lparr>asCommands := rest\<rparr>))"
proof -
  note d = assms(1) [unfolded append_inv_def]
  let ?s1 = "s\<lparr>asCommands := rest\<rparr>"
  have "loop_inv w (add_mset (pwFuture item) {#}) ?s1"
    by (rule loop_inv_queues [where s = s and X = "{#}"]) (use d assms(3) in auto)
  moreover have "open_rows w ?s1" using d by (simp add: open_rows_def)
  moreover have "item_ok w item" using d assms(3) by simp
  ultimately have "loop_inv w {#} (add w ctx item ?s1) \<and> open_rows w (add w ctx item ?s1)"
    using d by (intro loop_inv_add) auto
  moreover have "close_inv (add w ctx item ?s1)"
    using d assms(2,3) by (auto simp: close_inv_def add_frame Cons_eq_append_conv)
  moreover have "mode_inv (add w ctx item ?s1)" using assms(2) by (simp add: mode_inv_def add_frame)
  ultimately show ?thesis using d assms(3) by (auto simp: append_inv_def add_frame)
qed

lemma append_inv_queueAll:
  assumes "append_inv w s" "asMode s = Serving" "queueAll w (s\<lparr>asCommands := cmds, asTimer := False\<rparr>) = (err, s')"
    and "asCommands s = cmds \<or> asCommands s = CmdFlush # cmds \<or> asCommands s = CmdClose # cmds"
  shows "loop_inv w {#} s' \<and> open_rows w s' \<and> (\<forall>b. openItems s' b = []) \<and> asCommands s' = cmds
    \<and> asEntering s' = asEntering s \<and> asClosed s' = asClosed s \<and> asMode s' = Serving
    \<and> (\<forall>item \<in> set (asEntering s') \<union> set (commandItems cmds). item_ok w item)"
proof -
  note d = assms(1) [unfolded append_inv_def]
  let ?s1 = "s\<lparr>asCommands := cmds, asTimer := False\<rparr>"
  have "loop_inv w {#} ?s1"
    by (rule loop_inv_queues [where s = s and X = "{#}"]) (use d assms(4) in auto)
  moreover have "open_rows w ?s1" using d by (simp add: open_rows_def)
  ultimately show ?thesis
    using loop_inv_queueAll [OF _ _ assms(3)] queueAll_frame [OF assms(3)] d assms(2,4) by auto
qed

lemma append_inv_completion:
  assumes "append_inv w s" "request \<in> set (running (asSched s))" "asMode s = Stopped \<Longrightarrow> False"
    and "m = Serving \<and> asMode s = Serving \<or> m = Flushing e \<and> asMode s = Flushing e' \<or> m = Closing e \<and> asMode s = Closing e'"
  shows "append_inv w ((handleCompletion w (executeBatch enc w env request) s)\<lparr>asMode := m\<rparr>)" (is "append_inv w ?s")
proof -
  note d = assms(1) [unfolded append_inv_def]
  obtain b bt sq where r: "request = (b, bt, sq)" by (cases request)
  let ?cp = "executeBatch enc w env request"
  have l: "loop_inv w {#} (handleCompletion w ?cp s)"
    by (rule loop_inv_handleCompletion) (use d assms(2) in \<open>auto simp: r executeBatch_request\<close>)
  have "loop_inv w {#} ?s" by (rule loop_inv_queues [OF l]) simp_all
  moreover have "open_rows w ?s" using d by (simp add: open_rows_def)
  moreover have "close_inv ?s" using d assms(4) by (auto simp: close_inv_def)
  moreover have "mode_inv ?s" using d assms(4) by (auto simp: mode_inv_def openItems_def)
  ultimately show ?thesis using d by (simp add: append_inv_def)
qed

lemma asMode_same: "asMode s = m \<Longrightarrow> s\<lparr>asMode := m\<rparr> = s"
  by (cases s) simp

lemma append_inv_step: "append_step enc w s s' \<Longrightarrow> append_inv w s \<Longrightarrow> append_inv w s'"
proof (induction rule: append_step.induct)
  case (call_slot call s item)
  then show ?case using prepared_item_ok [OF call_slot(1,2)] by (intro append_inv_takeSlot) auto
next
  case (flush_call s)
  then have eq: "s\<lparr>asClosed := False, asCommands := asCommands s @ [CmdFlush]\<rparr> = s\<lparr>asCommands := asCommands s @ [CmdFlush]\<rparr>"
    by (cases s) simp
  have "append_inv w (s\<lparr>asClosed := False, asCommands := asCommands s @ [CmdFlush]\<rparr>)"
    using flush_call append_inv_call [of w s CmdFlush] by simp
  then show ?case by (simp only: eq)
next
  case (close_call s)
  then show ?case using append_inv_call [of w s CmdClose] by simp
next
  case (loop_flush s rest err s')
  have q: "queueAll w (s\<lparr>asCommands := rest, asTimer := False\<rparr>) = (err, s')"
    using loop_flush(3) by (simp add: stopTimer_def)
  note f = append_inv_queueAll [OF loop_flush(4,1) q]
  have "loop_inv w {#} (s'\<lparr>asMode := Flushing err\<rparr>)"
    by (rule loop_inv_queues [where s = s' and X = "{#}"]) (use f loop_flush(2) in auto)
  then show ?case
    using f loop_flush
    by (auto simp: append_inv_def open_rows_def mode_inv_def close_inv_def openItems_def Cons_eq_append_conv)
next
  case (loop_close s rest err s')
  have q: "queueAll w (s\<lparr>asCommands := rest, asTimer := False\<rparr>) = (err, s')"
    using loop_close(3) by (simp add: stopTimer_def)
  note f = append_inv_queueAll [OF loop_close(4,1) q]
  have "loop_inv w {#} (s'\<lparr>asMode := Closing err\<rparr>)"
    by (rule loop_inv_queues [where s = s' and X = "{#}"]) (use f loop_close(2) in auto)
  then show ?case
    using f loop_close
    by (auto simp: append_inv_def open_rows_def mode_inv_def close_inv_def openItems_def Cons_eq_append_conv split: if_splits)
next
  case (loop_timer s)
  obtain err s' where q: "queueAll w (s\<lparr>asTimer := False\<rparr>) = (err, s')" by (cases "queueAll w (s\<lparr>asTimer := False\<rparr>)")
  then have "queueAll w (s\<lparr>asCommands := asCommands s, asTimer := False\<rparr>) = (err, s')" by simp
  note f = append_inv_queueAll [OF loop_timer(3,1) this]
  then show ?case
    using loop_timer by (auto simp: append_inv_def mode_inv_def close_inv_def q)
next
  case (loop_completion s request env)
  let ?s = "handleCompletion w (executeBatch enc w env request) s"
  have "append_inv w (?s\<lparr>asMode := Serving\<rparr>)"
    using loop_completion append_inv_completion [of w s request Serving _ _ enc env] by simp
  moreover have "?s\<lparr>asMode := Serving\<rparr> = ?s" using loop_completion(1) by (intro asMode_same) simp
  ultimately show ?case by (simp only:)
next
  case (flush_completion s err request cp env)
  then show ?case using append_inv_completion [of w s request "Flushing (joinErr err (cpErr cp))"] by auto
next
  case (close_completion s err request cp env)
  then show ?case using append_inv_completion [of w s request "Closing (joinErr err (cpErr cp))"] by auto
next
  case (flush_done s err)
  have "loop_inv w {#} (s\<lparr>asMode := Serving\<rparr>)"
    by (rule loop_inv_queues [where s = s and X = "{#}"]) (use flush_done in \<open>auto simp: append_inv_def\<close>)
  then show ?case using flush_done by (auto simp: append_inv_def open_rows_def mode_inv_def close_inv_def)
next
  case (close_done s err)
  have "loop_inv w {#} (s\<lparr>asMode := Stopped, asCloseErr := err\<rparr>)"
    by (rule loop_inv_queues [where s = s and X = "{#}"]) (use close_done in \<open>auto simp: append_inv_def\<close>)
  then show ?case using close_done by (auto simp: append_inv_def open_rows_def mode_inv_def close_inv_def openItems_def)
qed (auto intro: append_inv_rejectCall append_inv_refuseItem append_inv_queueItem append_inv_loop_item)

lemma append_inv_init: "validAppendStatic w \<Longrightarrow> append_inv w newAppendState"
  by (simp add: append_inv_def loop_inv_def newAppendState_def batches_ok_def counters_ok_def sched_inv_newScheduler
      validAppendStatic_def futures_ok_def outstanding_def openFutures_def coreFutures_def openItems_def inside_def
      order_inv_def limits_inv_def open_rows_def close_inv_def mode_inv_def lineOf_def sentOf_def requestsOf_def)
    (simp add: newScheduler_def)

section \<open>The loop refines the scheduling core\<close>

lemma loop_op_ok_then:
  assumes "loop_op_ok w s s1" "batches_ok w s1 \<Longrightarrow> counters_ok w s1 \<Longrightarrow> loop_op_ok w s1 s2"
  shows "loop_op_ok w s s2"
  using assms by (meson loop_op_ok_def loop_op_ok_trans)

lemma loop_op_ok_availableBatch:
  assumes "batches_ok w s" "counters_ok w s" "b \<in> set (awBuckets w)" "item_ok w i" "availableBatch w b i s = (r, s')"
  shows "loop_op_ok w s s' \<and> (\<forall>b' bt. r = Some (b', bt) \<longrightarrow> b' \<in> set (awBuckets w))"
proof -
  have ne: "awBuckets w \<noteq> []" using assms(3) by auto
  let ?s1 = "snd (batchOf b s)"
  let ?s2 = "snd (flushBucket w b ?s1)"
  let ?s3 = "snd (assignBucket w i (advanceSticky w ?s2))"
  have op1: "loop_op_ok w s ?s1" by (rule loop_op_ok_batchOf [OF assms(1-3)])
  have op2: "loop_op_ok w s ?s2"
    by (rule loop_op_ok_then [OF op1]) (rule loop_op_ok_flushBucket)
  have "loop_op_ok w s (advanceSticky w ?s2)"
    by (rule loop_op_ok_then [OF op2]) (rule loop_op_ok_advanceSticky [OF _ _ ne])
  then have op3: "loop_op_ok w s ?s3"
    by (rule loop_op_ok_then) (rule loop_op_ok_assignBucket [OF _ _ ne])
  have op4: "loop_op_ok w s (snd (batchOf b ?s2))"
    by (rule loop_op_ok_then [OF op2]) (rule loop_op_ok_batchOf [OF _ _ assms(3)])
  have op5: "loop_op_ok w s (completeFuture f e ?s3)" for f e
    by (rule loop_op_ok_then [OF op3]) (rule loop_op_ok_completeFuture)
  have op6: "loop_op_ok w s (snd (batchOf b' ?s3))" if "b' \<in> set (awBuckets w)" for b'
    by (rule loop_op_ok_then [OF op3]) (rule loop_op_ok_batchOf [OF _ _ that])
  have b': "b' \<in> set (awBuckets w)" if "fst (assignBucket w i (advanceSticky w ?s2)) = Inr b'" for b'
    using that assignBucket_in [OF _ assms(4)] by (metis prod.collapse)
  show ?thesis
    using assms(3,5) op1 op4 op5 op6 b'
    by (auto simp: availableBatch_def Let_def split_beta split: if_splits sum.splits prod.splits)
qed

lemma loop_op_ok_addRow:
  assumes "batches_ok w s" "counters_ok w s" "b \<in> set (awBuckets w)" "item_ok w i"
  shows "loop_op_ok w s (addRow w b i s)"
proof -
  have ne: "awBuckets w \<noteq> []" using assms(3) by auto
  obtain r s1 where a: "availableBatch w b i s = (r, s1)" by (cases "availableBatch w b i s")
  note op1 = loop_op_ok_availableBatch [OF assms a]
  show ?thesis
  proof (cases r)
    case None
    then show ?thesis using op1 by (simp add: addRow_def a)
  next
    case (Some bb)
    obtain b' bt where bb: "bb = (b', bt)" by (cases bb)
    let ?bt = "\<lparr>bbItems = bbItems bt @ [i], bbRecords = bbRecords bt @ [appendRecord (pwRow i)],
      bbBytes = bbBytes bt + pwSize i\<rparr>"
    let ?s2 = "putBatch b' ?bt i s1"
    have b': "b' \<in> set (awBuckets w)" using op1 by (simp add: Some bb)
    have op2: "loop_op_ok w s ?s2"
      by (rule loop_op_ok_then [OF conjunct1 [OF op1]]) (rule loop_op_ok_putBatch [OF _ _ b'])
    have op3: "loop_op_ok w s (snd (flushBucket w b' ?s2))"
      by (rule loop_op_ok_then [OF op2]) (rule loop_op_ok_flushBucket)
    moreover have "loop_op_ok w s (advanceSticky w (snd (flushBucket w b' ?s2)))"
      by (rule loop_op_ok_then [OF op3]) (rule loop_op_ok_advanceSticky [OF _ _ ne])
    moreover have "loop_op_ok w s (armTimer w ?s2)"
      by (rule loop_op_ok_then [OF op2]) (rule loop_op_ok_armTimer)
    ultimately show ?thesis by (simp add: addRow_def a Some bb Let_def)
  qed
qed

lemma loop_op_ok_add:
  assumes "batches_ok w s" "counters_ok w s" "awBuckets w \<noteq> []" "item_ok w i"
  shows "loop_op_ok w s (add w ctx i s)"
proof -
  obtain r s1 where a: "assignBucket w i s = (r, s1)" by (cases "assignBucket w i s")
  have op1: "loop_op_ok w s s1" using loop_op_ok_assignBucket [OF assms(1-3), of i] by (simp add: a)
  have "loop_op_ok w s (completeFuture f e s)" "loop_op_ok w s (completeFuture f e s1)" for f e
    by (rule loop_op_ok_completeFuture [OF assms(1,2)], rule loop_op_ok_then [OF op1]) (rule loop_op_ok_completeFuture)
  moreover have "loop_op_ok w s (addRow w b i s1)" if "r = Inr b" for b
    by (rule loop_op_ok_then [OF op1])
      (rule loop_op_ok_addRow [OF _ _ assignBucket_in [OF a [unfolded that] assms(4)] assms(4)])
  moreover have "loop_op_ok w s (addArrow w b i s1)" if "r = Inr b" for b
  proof -
    have b: "b \<in> set (awBuckets w)" using assignBucket_in [OF a [unfolded that] assms(4)] .
    have "loop_op_ok w s (snd (flushBucket w b s1))"
      by (rule loop_op_ok_then [OF op1]) (rule loop_op_ok_flushBucket)
    then have "loop_op_ok w s (putBatch b bt i (snd (flushBucket w b s1)))" for bt
      by (rule loop_op_ok_then) (rule loop_op_ok_putBatch [OF _ _ b])
    then show ?thesis
      unfolding addArrow_def Let_def by (rule loop_op_ok_then) (rule loop_op_ok_flushBucket)
  qed
  ultimately show ?thesis by (auto simp: add_def a split: option.splits sum.splits)
qed

lemma queueAll_core:
  assumes "batches_ok w s" "queueAll w s = (err, s')"
  shows "core_steps w s s'"
proof -
  have "batches_ok w (stopTimer s)" using assms(1) by (simp add: batches_ok_def stopTimer_def)
  from queueBuckets_core [OF this assms(2) [unfolded queueAll_def]] show ?thesis by (simp add: stopTimer_def)
qed

lemma append_step_core:
  "append_step enc w s s' \<Longrightarrow> append_inv w s \<Longrightarrow> core_steps w s s'"
proof (induction rule: append_step.induct)
  case (loop_item s item rest ctxErr)
  then have "loop_op_ok w (s\<lparr>asCommands := rest\<rparr>) (add w ctxErr item (s\<lparr>asCommands := rest\<rparr>))"
    by (intro loop_op_ok_add)
      (auto simp: append_inv_def loop_inv_def batches_ok_def counters_ok_def validAppendStatic_def)
  then show ?case by (simp add: loop_op_ok_def)
next
  case (loop_flush s rest err s')
  have "batches_ok w (stopTimer (s\<lparr>asCommands := rest\<rparr>))"
    using loop_flush(4) by (simp add: append_inv_def loop_inv_def batches_ok_def stopTimer_def)
  from queueAll_core [OF this loop_flush(3)] show ?case by (simp add: stopTimer_def)
next
  case (loop_close s rest err s')
  have "batches_ok w (stopTimer (s\<lparr>asCommands := rest\<rparr>))"
    using loop_close(4) by (simp add: append_inv_def loop_inv_def batches_ok_def stopTimer_def)
  from queueAll_core [OF this loop_close(3)] show ?case by (simp add: stopTimer_def)
next
  case (loop_timer s)
  obtain err s' where q: "queueAll w (s\<lparr>asTimer := False\<rparr>) = (err, s')" by (cases "queueAll w (s\<lparr>asTimer := False\<rparr>)")
  have "batches_ok w (s\<lparr>asTimer := False\<rparr>)"
    using loop_timer(3) by (simp add: append_inv_def loop_inv_def batches_ok_def)
  from queueAll_core [OF this q] show ?case by (simp add: q)
next
  case (loop_completion s request env)
  then have "active (asSched s) (cpBucket (executeBatch enc w env request))"
    by (cases request) (force simp: append_inv_def loop_inv_def sched_inv_def core_inv_def running_ok_def executeBatch_request)
  then show ?case by (auto intro: r_into_rtranclp sched_step.finish)
next
  case (flush_completion s err request cp env)
  then have "active (asSched s) (cpBucket (executeBatch enc w env request))"
    by (cases request) (force simp: append_inv_def loop_inv_def sched_inv_def core_inv_def running_ok_def executeBatch_request)
  then show ?case using flush_completion by (auto intro: r_into_rtranclp sched_step.finish)
next
  case (close_completion s err request cp env)
  then have "active (asSched s) (cpBucket (executeBatch enc w env request))"
    by (cases request) (force simp: append_inv_def loop_inv_def sched_inv_def core_inv_def running_ok_def executeBatch_request)
  then show ?case using close_completion by (auto intro: r_into_rtranclp sched_step.finish)
qed (simp_all add: takeSlot_def refuseItem_def leaveEntering_def queueItem_def)

interpretation append: writer_loop "limitOf w" "awBuckets w" "\<lambda>s. validAppendStatic w \<and> s = newAppendState"
  "append_step enc w" "append_inv w" asSched for enc w
proof unfold_locales
  fix s :: "'a append_state"
  assume "validAppendStatic w \<and> s = newAppendState"
  then show "asSched s = newScheduler \<and> 0 \<le> limitOf w \<and> append_inv w s"
    using append_inv_init by (auto simp: newAppendState_def validAppendStatic_def)
qed (auto intro: append_inv_step append_step_core)

lemma append_reachable_inv:
  assumes "append_reachable enc w s" "validAppendStatic w"
  shows "append_inv w s"
  using append.run_inv [of enc w newAppendState s] assms by (simp add: append_reachable_def)

end
