(* ===== verification/Append_Properties.thy ===== *)
theory Append_Properties
  imports Append_Steps Codec_Properties
begin

text \<open>
  The properties of the append writer, over every interleaving of callers, loop and requests. The example
  writer serves the witnesses.
\<close>

section \<open>An example run\<close>

definition exTable :: table where
  "exTable = \<lparr>tblID = 5, tblSchemaID = 1, tblPath = \<lparr>Database = ''db'', TableName = ''t''\<rparr>, tblKind = LogTable,
     tblSchema = exSchema, tblBucketCount = 2, tblProperties = []\<rparr>"

definition exStatic :: append_static where
  "exStatic = \<lparr>awTable = exTable, awPath = \<lparr>ppTable = tblPath exTable, Partition = []\<rparr>,
     awConfig = defaultAppendConfig\<lparr>acBatchTimeout := 0\<rparr>, awTableID = 5, awPartitionID = -1, awWriterID = 9,
     awBuckets = [0, 1]\<rparr>"

definition exItem :: "nat \<Rightarrow> unit pending_write" where
  "exItem f = \<lparr>pwRow = exRow, pwArrow = None, pwChanges = [], pwBucket = None, pwSize = 33, pwFuture = f\<rparr>"

definition exQueued :: "unit append_state" where
  "exQueued = queueItem (exItem 0) (takeSlot (exItem 0) newAppendState)"

definition exSent :: "unit append_state" where
  "exSent = add exStatic None (exItem 0) (exQueued\<lparr>asCommands := []\<rparr>)"

abbreviation noArrow :: "unit \<Rightarrow> change_type list \<Rightarrow> 32 word \<Rightarrow> bytes result" where
  "noArrow \<equiv> (\<lambda>_ _ _. Inl ErrInvalidConfig)"

lemma exStatic_valid: "validAppendStatic exStatic"
proof -
  have "Schema_Validate exSchema = Inr ()" by code_simp
  then show ?thesis by (simp add: validAppendStatic_def exStatic_def exTable_def defaultAppendConfig_def)
qed

lemma exQueued_reachable: "append_reachable noArrow exStatic exQueued"
proof -
  let ?s1 = "takeSlot (exItem 0) (newAppendState :: unit append_state)"
  have "prepareAppend exStatic False exRow 0 = (Inr (exItem 0) :: unit pending_write result)" by code_simp
  then have "append_step noArrow exStatic newAppendState ?s1"
    by (intro append_step.call_slot [where call = "prepareAppend exStatic False exRow"])
      (auto simp: preparedBy_def newAppendState_def exStatic_def defaultAppendConfig_def)
  moreover have "append_step noArrow exStatic ?s1 exQueued"
    unfolding exQueued_def by (intro append_step.enter_queue)
      (simp_all add: takeSlot_def newAppendState_def queueFull_def exStatic_def defaultAppendConfig_def)
  ultimately show ?thesis unfolding append_reachable_def by (meson r_into_rtranclp rtranclp_trans)
qed

lemma exSent_reachable: "append_reachable noArrow exStatic exSent"
proof -
  have "append_step noArrow exStatic exQueued exSent"
    unfolding exSent_def
    by (rule append_step.loop_item)
      (simp_all add: exQueued_def queueItem_def leaveEntering_def takeSlot_def newAppendState_def)
  with exQueued_reachable show ?thesis unfolding append_reachable_def by simp
qed

lemma exSent_running:
  "running (asSched exSent) = [(0, \<lparr>bbItems = [exItem 0], bbRecords = [appendRecord exRow], bbBytes = 33\<rparr>, 0)]"
  by code_simp

section \<open>Requests\<close>

text \<open>
  C1. Requests of the append writer, in every reachable state: at most one is outstanding per bucket and
  at most \<^verbatim>\<open>MaxConcurrentRequests\<close> overall; the requests ever sent for a bucket carry the sequence numbers
  0, 1, 2, ... (modulo 2^32) without a gap; a bucket that has failed is sent nothing more; and no bucket
  with a full batch waits while a request slot is free.
\<close>

theorem append_requests_sequenced:
  assumes "append_reachable enc w s" and "validAppendStatic w"
  shows "distinct (map fst (running (asSched s)))
    \<and> int (length (running (asSched s))) \<le> acMaxConcurrentRequests (awConfig w)
    \<and> seqsOf (asSched s) b = map of_nat [0..<length (seqsOf (asSched s) b)]
    \<and> (poisoned (asSched s) b \<noteq> None \<longrightarrow> b \<notin> fst ` set (running (asSched s)) \<and> pending (asSched s) b = [])
    \<and> (pending (asSched s) b \<noteq> [] \<longrightarrow> b \<in> fst ` set (running (asSched s))
         \<or> int (length (running (asSched s))) = acMaxConcurrentRequests (awConfig w))"
proof -
  have run: "(append_step enc w)\<^sup>*\<^sup>* newAppendState s" using assms(1) by (simp add: append_reachable_def)
  have init: "validAppendStatic w \<and> newAppendState = newAppendState" using assms(2) by simp
  note inv = append.run_sched_inv [OF run init]
  have act: "active (asSched s) b \<longleftrightarrow> b \<in> fst ` set (running (asSched s))"
    using inv by (simp add: sched_inv_def core_inv_def running_ok_def)
  have work: "active (asSched s) b \<or> pending (asSched s) b \<noteq> [] \<longrightarrow>
      b \<in> set (awBuckets w) \<and> poisoned (asSched s) b = None"
    using inv by (simp add: sched_inv_def core_inv_def work_ok_def)
  show ?thesis
  proof (intro conjI)
    show "poisoned (asSched s) b \<noteq> None \<longrightarrow> b \<notin> fst ` set (running (asSched s)) \<and> pending (asSched s) b = []"
      using act work by metis
  qed (use append.run_one_per_bucket [OF run init] append.run_sequences [OF run init, of b]
      append.run_work_conserving [OF run init, of b] act work in auto)
qed

theorem append_requests_sequenced_witness:
  "append_reachable noArrow exStatic exSent \<and> length (running (asSched exSent)) = 1
   \<and> seqsOf (asSched exSent) 0 = map of_nat [0..<length (seqsOf (asSched exSent) 0)]"
  using append_requests_sequenced [OF exSent_reachable exStatic_valid, of 0] exSent_reachable
  by (simp add: exSent_running)

text \<open>
  C2. No append is lost and none is answered twice: in every reachable state a future that was issued
  and has no result belongs to exactly one item on its way (entering, queued, in an open batch, waiting
  or in a request), every such item's future has no result yet, and the slots in use are exactly those
  items, at most \<^verbatim>\<open>MaxBuffered\<close>.
\<close>

theorem append_futures_conserved:
  assumes "append_reachable enc w s" and "validAppendStatic w"
  shows "(\<forall>f. count (outstanding w s) f = (if f < asNext s \<and> futData (asFutures s f) = None then 1 else 0))
    \<and> asSlots s = size (outstanding w s) \<and> int (asSlots s) \<le> acMaxBuffered (awConfig w)"
  using append_reachable_inv [OF assms] by (simp add: append_inv_def loop_inv_def futures_ok_def)

theorem append_futures_conserved_witness:
  "count (outstanding exStatic exSent) 0 = 1 \<and> asSlots exSent = 1"
proof -
  have "asNext exSent = 1" "futData (asFutures exSent 0) = None" "asSlots exSent = 1" by code_simp+
  then show ?thesis using append_futures_conserved [OF exSent_reachable exStatic_valid] by simp
qed

text \<open>
  C3. Order: for every bucket, the items of the requests sent, in the order sent, are a prefix of the items
  the loop accepted for that bucket, in the order accepted; while the bucket has not failed, the items
  sent, the items of the waiting batches and those of the open batch together are exactly the accepted ones.
\<close>

theorem append_order_preserved:
  assumes "append_reachable enc w s" and "validAppendStatic w"
  shows "prefix (concat (map bbItems (sentOf (asSched s) b))) (asAccepted s b)
    \<and> (poisoned (asSched s) b = None \<longrightarrow>
         concat (map bbItems (sentOf (asSched s) b)) @ concat (map bbItems (pending (asSched s) b)) @ openItems s b
           = asAccepted s b)"
proof -
  have o: "order_inv s" using append_reachable_inv [OF assms] by (simp add: append_inv_def loop_inv_def)
  then have "poisoned (asSched s) b = None \<longrightarrow>
      concat (map bbItems (lineOf (asSched s) b)) @ openItems s b = asAccepted s b"
    unfolding order_inv_def by metis
  with sentOf_prefix_accepted [OF o] show ?thesis by (simp add: lineOf_def)
qed

theorem append_order_preserved_witness:
  "prefix (concat (map bbItems (sentOf (asSched exSent) 0))) [exItem 0] \<and> asAccepted exSent 0 = [exItem 0]"
proof -
  have "asAccepted exSent 0 = [exItem 0]" by code_simp
  then show ?thesis using append_order_preserved [OF exSent_reachable exStatic_valid, of 0] by simp
qed



section \<open>Flush and close\<close>

lemma append_idle_outstanding:
  assumes "append_inv w s" "\<forall>b. openItems s b = []" "\<not> inFlight (asSched s) > 0"
  shows "outstanding w s = mset (map pwFuture (asEntering s)) + mset (map pwFuture (commandItems (asCommands s)))"
proof -
  have "inside (awBuckets w) (asSched s) = {#}"
    using assms(1,3) inside_idle(1) [of "limitOf w" "awBuckets w" "asSched s"]
    by (simp add: append_inv_def loop_inv_def validAppendStatic_def not_less)
  then show ?thesis using assms(2) by (simp add: outstanding_def openFutures_def coreFutures_def)
qed

text \<open>
  A flush is complete: when the loop answers a flush or a close (it is in \<^verbatim>\<open>flushAll\<close> and no request is in
  flight), every future without a result belongs to an item that has not been taken from the queue; and
  once the writer has stopped, only a call that has not been let in yet can still be without one.
\<close>

theorem append_flush_complete:
  assumes "append_reachable enc w s" and "validAppendStatic w"
    and "asMode s = Flushing err \<or> asMode s = Closing err \<or> asMode s = Stopped" and "\<not> inFlight (asSched s) > 0"
    and "f < asNext s" and "futData (asFutures s f) = None"
  shows "f \<in> pwFuture ` (set (asEntering s) \<union> set (commandItems (asCommands s)))
    \<and> (asMode s \<noteq> Flushing err \<longrightarrow> f \<in> pwFuture ` set (asEntering s))"
proof -
  note inv = append_reachable_inv [OF assms(1,2)]
  have "\<forall>b. openItems s b = []" using inv assms(3) by (auto simp: append_inv_def mode_inv_def)
  then have out: "outstanding w s = mset (map pwFuture (asEntering s)) + mset (map pwFuture (commandItems (asCommands s)))"
    using append_idle_outstanding [OF inv] assms(4) by simp
  have "count (outstanding w s) f = 1"
    using inv assms(5,6) by (simp add: append_inv_def loop_inv_def futures_ok_def)
  then have "f \<in># outstanding w s" by (metis count_inI zero_neq_one)
  then have f: "f \<in> pwFuture ` (set (asEntering s) \<union> set (commandItems (asCommands s)))" by (auto simp: out)
  moreover have "asCommands s = []" if "asMode s \<noteq> Flushing err"
    using inv assms(3) that by (auto simp: append_inv_def close_inv_def)
  ultimately show ?thesis by auto
qed

definition exStopped :: "unit append_state" where
  "exStopped = takeSlot (exItem 0)
     (newAppendState\<lparr>asClosed := True, asMode := Stopped\<rparr>)"

lemma exStopped_reachable: "append_reachable noArrow exStatic exStopped"
proof -
  let ?s1 = "newAppendState\<lparr>asClosed := True, asCommands := [CmdClose]\<rparr> :: unit append_state"
  let ?s2 = "newAppendState\<lparr>asClosed := True, asMode := Closing None\<rparr> :: unit append_state"
  let ?s3 = "newAppendState\<lparr>asClosed := True, asMode := Stopped\<rparr> :: unit append_state"
  have "append_step noArrow exStatic newAppendState ?s1"
    using append_step.close_call [of newAppendState exStatic noArrow]
    by (simp add: newAppendState_def queueFull_def exStatic_def defaultAppendConfig_def)
  moreover have "append_step noArrow exStatic ?s1 ?s2"
    using append_step.loop_close [of ?s1 "[]" exStatic None "newAppendState\<lparr>asClosed := True\<rparr>" noArrow]
    by (simp add: newAppendState_def queueAll_def stopTimer_def exStatic_def flushBucket_def joinErr_def)
  moreover have "append_step noArrow exStatic ?s2 ?s3"
    using append_step.close_done [of ?s2 None noArrow exStatic] by (simp add: newAppendState_def newScheduler_def)
  moreover have "append_step noArrow exStatic ?s3 exStopped"
  proof -
    have "prepareAppend exStatic False exRow 0 = (Inr (exItem 0) :: unit pending_write result)" by code_simp
    then show ?thesis
      unfolding exStopped_def by (intro append_step.call_slot [where call = "prepareAppend exStatic False exRow"])
        (auto simp: preparedBy_def newAppendState_def exStatic_def defaultAppendConfig_def)
  qed
  ultimately show ?thesis
    unfolding append_reachable_def by (meson converse_rtranclp_into_rtranclp rtranclp.rtrancl_refl)
qed

theorem append_flush_complete_witness:
  "asMode exStopped = Stopped \<and> 0 \<in> pwFuture ` set (asEntering exStopped)"
proof -
  have m: "asMode exStopped = Stopped" "\<not> inFlight (asSched exStopped) > 0" "0 < asNext exStopped"
    "futData (asFutures exStopped 0) = None" by code_simp+
  then show ?thesis using append_flush_complete [OF exStopped_reachable exStatic_valid _ m(2-4), of None] by simp
qed

lemma append_flush_less:
  assumes "append_inv w s" "request \<in> set (running (asSched s))"
  shows "size (inside (awBuckets w) (asSched (handleCompletion w (executeBatch enc w env request) s)))
    < size (inside (awBuckets w) (asSched s))"
proof -
  obtain b bt sq where r: "request = (b, bt, sq)" by (cases request)
  have "core_inv (limitOf w) (awBuckets w) (asSched s)"
    using assms(1) by (simp add: append_inv_def loop_inv_def sched_inv_def)
  from inside_finishBatch [OF this assms(2) [unfolded r], of "cpErr (executeBatch enc w env request)"]
  show ?thesis by (simp add: r executeBatch_request)
qed

lemma append_running_some:
  assumes "append_inv w s" "0 < inFlight (asSched s)"
  shows "running (asSched s) \<noteq> []"
  using assms by (auto simp: append_inv_def loop_inv_def sched_inv_def core_inv_def running_ok_def)

text \<open>Where a run of completions from a flush ends, for any answers \<open>env\<close> of the requests.\<close>

definition flushed :: "append_static \<Rightarrow> 'a append_state \<Rightarrow> 'a append_state \<Rightarrow> bool" where
  "flushed w s s' \<longleftrightarrow> asMode s' = Serving \<and> outstanding w s' =
     mset (map pwFuture (asEntering s)) + mset (map pwFuture (commandItems (asCommands s)))"

lemma flushed_done:
  assumes "append_inv w s" "asMode s = Flushing err" "\<not> 0 < inFlight (asSched s)"
  shows "append_step enc w s (s\<lparr>asMode := Serving\<rparr>)" "flushed w s (s\<lparr>asMode := Serving\<rparr>)"
proof -
  show step: "append_step enc w s (s\<lparr>asMode := Serving\<rparr>)" using append_step.flush_done [OF assms(2,3)] .
  have "\<forall>b. openItems s b = []" using assms(1,2) by (auto simp: append_inv_def mode_inv_def)
  then show "flushed w s (s\<lparr>asMode := Serving\<rparr>)"
    using append_idle_outstanding [OF append_inv_step [OF step assms(1)]] assms(3)
    by (simp add: flushed_def openItems_def)
qed

lemma append_flush_run:
  assumes "append_inv w s" "asMode s = Flushing err" "size (inside (awBuckets w) (asSched s)) \<le> k"
  shows "\<exists>n s'. n \<le> k + 1 \<and> (append_step enc w ^^ n) s s' \<and> flushed w s s'"
  using assms
proof (induction k arbitrary: s err rule: less_induct)
  case (less k)
  show ?case
  proof (cases "0 < inFlight (asSched s)")
    case False
    then have "(append_step enc w ^^ 1) s (s\<lparr>asMode := Serving\<rparr>)" "flushed w s (s\<lparr>asMode := Serving\<rparr>)"
      using flushed_done [OF less.prems(1,2)] by (auto simp del: One_nat_def)
    then show ?thesis by (intro exI [of _ 1]) auto
  next
    case True
    then obtain request where r: "request \<in> set (running (asSched s))"
      using append_running_some [OF less.prems(1)] by (meson list.set_sel(1))
    define cp where cp: "cp = executeBatch enc w
      \<lparr>produceAt = (\<lambda>_. (0, None)), produceCtxErr = (\<lambda>_. None), produceWait = (\<lambda>_. None), produceExpired = None\<rparr> request"
    let ?s1 = "(handleCompletion w cp s)\<lparr>asMode := Flushing (joinErr err (cpErr cp))\<rparr>"
    have step: "append_step enc w s ?s1" using append_step.flush_completion [OF less.prems(2) r cp] .
    let ?k = "size (inside (awBuckets w) (asSched ?s1))"
    have "?k < size (inside (awBuckets w) (asSched s))"
      using append_flush_less [OF less.prems(1) r] by (simp only: cp) simp
    then have "?k < k" using less.prems(3) by simp
    then obtain n s' where n: "n \<le> ?k + 1" "(append_step enc w ^^ n) ?s1 s'" "flushed w ?s1 s'"
      using less.IH [OF _ append_inv_step [OF step less.prems(1)] _ order_refl, of "joinErr err (cpErr cp)"] by auto
    have "(append_step enc w ^^ Suc n) s s'" using step n(2) by (rule relpowp_Suc_I2)
    moreover have "Suc n \<le> k + 1" using n(1) \<open>?k < k\<close> by simp
    moreover have "flushed w s s'" using n(3) by (simp add: flushed_def)
    ultimately show ?thesis by blast
  qed
qed

text \<open>
  C5. A flush ends: while the loop is in \<^verbatim>\<open>flushAll\<close> with requests in flight, some request is running, and
  handling any completion, whatever it answers, leaves strictly fewer batches inside; and at most one step
  more than there are batches inside brings the loop back to serving, with every item it had taken completed.
\<close>

theorem append_flush_terminates:
  assumes "append_reachable enc w s" and "validAppendStatic w" and "asMode s = Flushing err"
  shows "(0 < inFlight (asSched s) \<longrightarrow> running (asSched s) \<noteq> [])
    \<and> (\<forall>request env. request \<in> set (running (asSched s)) \<longrightarrow>
         size (inside (awBuckets w) (asSched (handleCompletion w (executeBatch enc w env request) s)))
           < size (inside (awBuckets w) (asSched s)))
    \<and> (\<exists>n s'. n \<le> size (inside (awBuckets w) (asSched s)) + 1 \<and> (append_step enc w ^^ n) s s' \<and> flushed w s s')"
  using append_running_some append_flush_less append_flush_run [OF _ assms(3) order_refl]
    append_reachable_inv [OF assms(1,2)] by blast

definition exFlushing :: "unit append_state" where
  "exFlushing = exSent\<lparr>asTimer := False, asMode := Flushing None\<rparr>"

lemma exFlushing_reachable: "append_reachable noArrow exStatic exFlushing"
proof -
  let ?s1 = "exSent\<lparr>asCommands := [CmdFlush]\<rparr>"
  have f: "asClosed exSent = False" "asCommands exSent = []" "asMode exSent = Serving" "asBatches exSent 0 = None"
    "asBatches exSent 1 = None" by code_simp+
  have "append_step noArrow exStatic exSent ?s1"
    using append_step.flush_call [of exSent exStatic noArrow] f
    by (simp add: queueFull_def exStatic_def defaultAppendConfig_def)
  moreover have "append_step noArrow exStatic ?s1 exFlushing"
  proof -
    have "exSent\<lparr>asCommands := [], asTimer := False\<rparr> = exSent\<lparr>asTimer := False\<rparr>" using f(2) by (cases exSent) simp
    then have "queueAll exStatic (stopTimer (?s1\<lparr>asCommands := []\<rparr>)) = (None, exSent\<lparr>asTimer := False\<rparr>)"
      using f(4,5) by (simp add: queueAll_def stopTimer_def exStatic_def flushBucket_def joinErr_def)
    then show ?thesis
      using append_step.loop_flush [of ?s1 "[]" exStatic None "exSent\<lparr>asTimer := False\<rparr>" noArrow] f(3)
      by (simp add: exFlushing_def)
  qed
  ultimately show ?thesis
    using exSent_reachable unfolding append_reachable_def by (meson rtranclp.rtrancl_into_rtrancl)
qed

theorem append_flush_terminates_witness:
  "\<exists>n s'. (append_step noArrow exStatic ^^ n) exFlushing s' \<and> flushed exStatic exFlushing s'"
proof -
  have "asMode exFlushing = Flushing None" by (simp add: exFlushing_def)
  from append_flush_terminates [OF exFlushing_reachable exStatic_valid this] show ?thesis by blast
qed

end
