(* ===== verification/Upsert_Config.thy ===== *)
theory Upsert_Config
  imports Append_Config
begin

text \<open>
  Configuration and construction of an upsert writer: \<^verbatim>\<open>pkg/fgo/upsert_writer_options.go\<close> and the first part
  of \<^verbatim>\<open>pkg/fgo/kv_writer.go\<close>. Options and the backend's answers are modelled as for the append writer.
\<close>

section \<open>Options\<close>

record upsert_config =
  ucMaxBatchBytes :: int
  ucMaxBatchRecords :: int
  ucMaxBuffered :: int
  ucMaxConcurrentRequests :: int
  ucBatchTimeout :: int
  ucRequestTimeout :: int
  ucAcks :: int
  ucRetryPolicy :: retry_policy
  ucBackpressureMaxThrottle :: int
  ucPartition :: string
  ucMergeMode :: int

type_synonym upsert_option = "upsert_config \<Rightarrow> upsert_config result"

definition MergeModeDefault :: int where "MergeModeDefault = 0"
definition MergeModeOverwrite :: int where "MergeModeOverwrite = 1"

definition MergeMode_valid :: "int \<Rightarrow> bool" where
  "MergeMode_valid m \<longleftrightarrow> m = MergeModeDefault \<or> m = MergeModeOverwrite"

definition WithUpsertMergeMode :: "int \<Rightarrow> upsert_option" where
  "WithUpsertMergeMode mode config =
     guardE (\<not> MergeMode_valid mode) ErrInvalidConfig (Inr (config\<lparr>ucMergeMode := mode\<rparr>))"

definition WithUpsertBatchLimits :: "int \<Rightarrow> int \<Rightarrow> upsert_option" where
  "WithUpsertBatchLimits bytes records config =
     guardE (bytes \<le> int kvBatchHeaderSize \<or> bytes > maxRowBytes \<or> records \<le> 0) ErrInvalidConfig (
     Inr (config\<lparr>ucMaxBatchBytes := bytes, ucMaxBatchRecords := records\<rparr>))"

definition WithUpsertBuffer :: "int \<Rightarrow> upsert_option" where
  "WithUpsertBuffer records config =
     guardE (records \<le> 0) ErrInvalidConfig (Inr (config\<lparr>ucMaxBuffered := records\<rparr>))"

definition WithUpsertConcurrency :: "int \<Rightarrow> upsert_option" where
  "WithUpsertConcurrency requests config =
     guardE (requests < 1 \<or> requests > 64) ErrInvalidConfig (
     Inr (config\<lparr>ucMaxConcurrentRequests := requests\<rparr>))"

definition WithUpsertBatchTimeout :: "int \<Rightarrow> upsert_option" where
  "WithUpsertBatchTimeout timeout config =
     guardE (timeout < 0) ErrInvalidConfig (Inr (config\<lparr>ucBatchTimeout := timeout\<rparr>))"

definition WithUpsertRequest :: "int \<Rightarrow> int \<Rightarrow> upsert_option" where
  "WithUpsertRequest timeout acks config =
     guardE (timeout \<le> 0 \<or> timeout div millisecond > maxInt32 \<or> (acks \<noteq> 0 \<and> acks \<noteq> 1 \<and> acks \<noteq> -1))
       ErrInvalidConfig (
     Inr (config\<lparr>ucRequestTimeout := timeout, ucAcks := acks\<rparr>))"

definition WithUpsertRetryPolicy :: "retry_policy \<Rightarrow> upsert_option" where
  "WithUpsertRetryPolicy policy config = Inr (config\<lparr>ucRetryPolicy := policy\<rparr>)"

definition minute :: int where "minute = 60 * second"

definition WithUpsertBackpressureMaxThrottle :: "int \<Rightarrow> upsert_option" where
  "WithUpsertBackpressureMaxThrottle maximum config =
     guardE (maximum < 0 \<or> maximum > minute) ErrInvalidConfig (
     Inr (config\<lparr>ucBackpressureMaxThrottle := maximum\<rparr>))"

definition WithUpsertPartition :: "string \<Rightarrow> upsert_option" where
  "WithUpsertPartition part config =
     andThen (PhysicalTablePath_Validate
       \<lparr>ppTable = \<lparr>Database = ''d'', TableName = ''t''\<rparr>, Partition = part\<rparr>) (\<lambda>_.
     Inr (config\<lparr>ucPartition := part\<rparr>))"

definition WithUpsertPartitionSpec :: "schema \<Rightarrow> partition_spec \<Rightarrow> upsert_option" where
  "WithUpsertPartitionSpec s spec config =
     andThen (PartitionName s spec) (\<lambda>part. Inr (config\<lparr>ucPartition := part\<rparr>))"

definition defaultUpsertConfig :: upsert_config where
  "defaultUpsertConfig =
     \<lparr>ucMaxBatchBytes = 1048576, ucMaxBatchRecords = 1000, ucMaxBuffered = 10000,
      ucMaxConcurrentRequests = 4, ucBatchTimeout = 5 * millisecond, ucRequestTimeout = 30 * second,
      ucAcks = -1, ucRetryPolicy = defaultWriterRetryPolicy, ucBackpressureMaxThrottle = second,
      ucPartition = [], ucMergeMode = MergeModeDefault\<rparr>"

definition upsertWriterConfig :: "upsert_option option list \<Rightarrow> upsert_config result" where
  "upsertWriterConfig options =
     andThen (applyOptions options defaultUpsertConfig) (\<lambda>config.
     andThen (validateWriterRetryPolicy (ucRetryPolicy config) (ucAcks config)) (\<lambda>_.
     Inr config))"

section \<open>Construction\<close>

definition validateUpsertWriterTable :: "table \<Rightarrow> unit result" where
  "validateUpsertWriterTable t =
     andThen (RequirePrimaryKey t) (\<lambda>_.
     andThen (Schema_Validate (tblSchema t)) (\<lambda>_.
     guardE (tblSchemaID t < 0 \<or> tblSchemaID t > 32767) ErrInvalidSchema (
     guardE (PrimaryKey (tblSchema t) = []) ErrInvalidSchema (
     guardE (\<exists>name \<in> set (BucketKey (tblSchema t)). name \<notin> set (PrimaryKey (tblSchema t))) ErrInvalidSchema (
     Inr ())))))"

text \<open>The fields of \<^verbatim>\<open>UpsertWriter\<close> that do not change after construction.\<close>

record upsert_static =
  uwTable :: table
  uwPath :: physical_path
  uwConfig :: upsert_config
  uwTableID :: int
  uwPartitionID :: int
  uwWriterID :: int
  uwBuckets :: "int list"

text \<open>\<open>nilProperties\<close>: the properties of the table are a nil map, which is not checked for a merge engine.\<close>

definition newUpsertWriter :: "writer_backend \<Rightarrow> table \<Rightarrow> bool \<Rightarrow> upsert_option option list \<Rightarrow> upsert_static result" where
  "newUpsertWriter backend t nilProperties options =
     andThen (validateUpsertWriterTable t) (\<lambda>_.
     andThen (upsertWriterConfig options) (\<lambda>config.
     guardE (ucMergeMode config = MergeModeOverwrite \<and> \<not> nilProperties
       \<and> TrimSpace (case map_of (tblProperties t) ''table.merge-engine'' of None \<Rightarrow> [] | Some v \<Rightarrow> v) = [])
       ErrInvalidConfig (
     let path = \<lparr>ppTable = tblPath t, Partition = ucPartition config\<rparr>
     in case ensurePartitionAns backend of
          Some e \<Rightarrow> Inl e
        | None \<Rightarrow>
            andThen (metadataAns backend) (\<lambda>(physicalID, locations).
            guardE (Partition path = [] \<and> physicalID \<noteq> tblID t) ErrMetadata (
            andThen (sortedBuckets locations) (\<lambda>buckets.
            andThen (go_index buckets 0) (\<lambda>first.
            andThen (initWriterAns backend first) (\<lambda>writerID.
            Inr \<lparr>uwTable = t, uwPath = path, uwConfig = config, uwTableID = tblID t,
                 uwPartitionID = (if Partition path \<noteq> [] then physicalID else -1),
                 uwWriterID = writerID, uwBuckets = buckets\<rparr>))))))))"

section \<open>What a constructed writer satisfies\<close>

definition validUpsertConfig :: "upsert_config \<Rightarrow> bool" where
  "validUpsertConfig config \<longleftrightarrow>
     0 < ucMaxBatchBytes config \<and> ucMaxBatchBytes config \<le> maxRowBytes
     \<and> 0 < ucMaxBatchRecords config \<and> 0 < ucMaxBuffered config
     \<and> 1 \<le> ucMaxConcurrentRequests config \<and> ucMaxConcurrentRequests config \<le> 64
     \<and> 0 \<le> ucBatchTimeout config \<and> 0 < ucRequestTimeout config
     \<and> ucRequestTimeout config div millisecond \<le> maxInt32 \<and> ucAcks config \<in> {-1, 0, 1}
     \<and> 0 \<le> ucBackpressureMaxThrottle config \<and> ucBackpressureMaxThrottle config \<le> minute
     \<and> MergeMode_valid (ucMergeMode config)"

text \<open>The options of the package.\<close>

inductive upsertOption :: "upsert_option \<Rightarrow> bool" where
  "upsertOption (WithUpsertMergeMode mode)"
| "upsertOption (WithUpsertBatchLimits bytes records)"
| "upsertOption (WithUpsertBuffer records)"
| "upsertOption (WithUpsertConcurrency requests)"
| "upsertOption (WithUpsertBatchTimeout timeout)"
| "upsertOption (WithUpsertRequest timeout acks)"
| "upsertOption (WithUpsertRetryPolicy policy)"
| "upsertOption (WithUpsertBackpressureMaxThrottle maximum)"
| "upsertOption (WithUpsertPartition part)"
| "upsertOption (WithUpsertPartitionSpec s spec)"

lemma validUpsertConfig_default: "validUpsertConfig defaultUpsertConfig"
  by code_simp

lemmas upsert_option_defs =
  WithUpsertMergeMode_def WithUpsertBatchLimits_def WithUpsertBuffer_def WithUpsertConcurrency_def
  WithUpsertBatchTimeout_def WithUpsertRequest_def WithUpsertRetryPolicy_def
  WithUpsertBackpressureMaxThrottle_def WithUpsertPartition_def WithUpsertPartitionSpec_def

lemma upsertOption_valid:
  assumes "upsertOption opt" "opt config = Inr config'" "validUpsertConfig config"
  shows "validUpsertConfig config'"
  using assms
  by (induction rule: upsertOption.induct)
    (clarsimp simp: upsert_option_defs not_le not_less split: if_splits; simp add: validUpsertConfig_def)+

text \<open>What the loop relies on.\<close>

definition validUpsertStatic :: "upsert_static \<Rightarrow> bool" where
  "validUpsertStatic w \<longleftrightarrow>
     uwBuckets w \<noteq> [] \<and> distinct (uwBuckets w) \<and> int (length (uwBuckets w)) < 2 ^ 31
     \<and> validUpsertConfig (uwConfig w) \<and> Schema_Validate (tblSchema (uwTable w)) = Inr ()
     \<and> PrimaryKey (tblSchema (uwTable w)) \<noteq> []
     \<and> set (BucketKey (tblSchema (uwTable w))) \<subseteq> set (PrimaryKey (tblSchema (uwTable w)))"

lemma newUpsertWriter_valid:
  assumes "newUpsertWriter backend t nilProperties options = Inr w"
    and "\<forall>opt. Some opt \<in> set options \<longrightarrow> upsertOption opt"
    and "\<forall>i ids. metadataAns backend = Inr (i, ids) \<longrightarrow> distinct ids \<and> int (length ids) < 2 ^ 31"
  shows "validUpsertStatic w \<and> validateWriterRetryPolicy (ucRetryPolicy (uwConfig w)) (ucAcks (uwConfig w)) = Inr ()"
proof -
  obtain config physicalID locations where c: "upsertWriterConfig options = Inr config"
    and s: "validateUpsertWriterTable t = Inr ()" and m: "metadataAns backend = Inr (physicalID, locations)"
    and b: "sortedBuckets locations = Inr (uwBuckets w)" and w: "uwTable w = t" "uwConfig w = config"
    using assms(1) by (auto simp: newUpsertWriter_def Let_def split: option.splits prod.splits)
  have "applyOptions options defaultUpsertConfig = Inr config"
    and r: "validateWriterRetryPolicy (ucRetryPolicy config) (ucAcks config) = Inr ()"
    using c by (auto simp: upsertWriterConfig_def)
  then have v: "validUpsertConfig config"
    using applyOptions_invariant [of options defaultUpsertConfig config validUpsertConfig]
      validUpsertConfig_default assms(2) upsertOption_valid by blast
  have "Schema_Validate (tblSchema t) = Inr ()" "PrimaryKey (tblSchema t) \<noteq> []"
    "set (BucketKey (tblSchema t)) \<subseteq> set (PrimaryKey (tblSchema t))"
    using s by (auto simp: validateUpsertWriterTable_def split: if_splits)
  moreover have "distinct (uwBuckets w)" "uwBuckets w \<noteq> []" "int (length (uwBuckets w)) < 2 ^ 31"
    using sortedBuckets_Inr [OF b] assms(3) m by (auto dest: arg_cong [of _ _ length])
  ultimately show ?thesis using v r by (simp add: validUpsertStatic_def w)
qed

end
