(* ===== verification/Backpressure.thy ===== *)
theory Backpressure
  imports Upsert_Config "HOL-Library.Word"
begin

text \<open>
  The back-pressure signal of a KV put: a \<^verbatim>\<open>float32\<close>, given by its bits, and the delay that
  \<^verbatim>\<open>handleCompletion\<close> of \<^verbatim>\<open>pkg/fgo/kv_writer.go\<close> computes from it in \<^verbatim>\<open>float64\<close> arithmetic. A non-negative
  double is a pair \<open>(m, k)\<close> for \<open>m / 2^k\<close>; a product is rounded to 53 significant bits, half to even. No
  product here comes near the ends of the exponent range of a double.
\<close>

unbundle bit_operations_syntax

section \<open>Single precision\<close>

definition f32_exp :: "32 word \<Rightarrow> nat" where
  "f32_exp p = unat (drop_bit 23 p AND 255)"

definition f32_frac :: "32 word \<Rightarrow> nat" where
  "f32_frac p = unat (p AND 8388607)"

definition f32_sign :: "32 word \<Rightarrow> bool" where
  "f32_sign p = bit p 31"

definition f32_isNaN :: "32 word \<Rightarrow> bool" where
  "f32_isNaN p \<longleftrightarrow> f32_exp p = 255 \<and> f32_frac p \<noteq> 0"

definition f32_zero :: "32 word \<Rightarrow> bool" where
  "f32_zero p \<longleftrightarrow> f32_exp p = 0 \<and> f32_frac p = 0"

text \<open>The comparisons \<^verbatim>\<open>p < 0\<close>, \<^verbatim>\<open>p > 0\<close>, \<^verbatim>\<open>p >= 1\<close>, false on a NaN.\<close>

definition f32_neg :: "32 word \<Rightarrow> bool" where
  "f32_neg p \<longleftrightarrow> \<not> f32_isNaN p \<and> f32_sign p \<and> \<not> f32_zero p"

definition f32_pos :: "32 word \<Rightarrow> bool" where
  "f32_pos p \<longleftrightarrow> \<not> f32_isNaN p \<and> \<not> f32_sign p \<and> \<not> f32_zero p"

definition f32_ge1 :: "32 word \<Rightarrow> bool" where
  "f32_ge1 p \<longleftrightarrow> \<not> f32_isNaN p \<and> \<not> f32_sign p \<and> f32_exp p \<ge> 127"

text \<open>A finite non-negative number below one: \<open>m / 2^k\<close>.\<close>

definition f32_mant :: "32 word \<Rightarrow> nat" where
  "f32_mant p = (if f32_exp p = 0 then f32_frac p else f32_frac p + 8388608)"

definition f32_scale :: "32 word \<Rightarrow> nat" where
  "f32_scale p = 150 - max 1 (f32_exp p)"

text \<open>The check of the put response (\<^verbatim>\<open>put\<close> of \<^verbatim>\<open>pkg/fgo/upsert_writer_backend.go\<close>).\<close>

definition invalidPressure :: "32 word option \<Rightarrow> bool" where
  "invalidPressure pressure \<longleftrightarrow>
     (case pressure of None \<Rightarrow> False | Some p \<Rightarrow> f32_isNaN p \<or> f32_neg p \<or> f32_ge1 p)"

section \<open>Double precision\<close>

definition round53 :: "nat \<Rightarrow> nat" where
  "round53 m =
     (if bitLen m \<le> 53 then m
      else
        (let s = bitLen m - 53; q = m div 2 ^ s; r = m mod 2 ^ s
         in (if 2 * r > 2 ^ s \<or> 2 * r = 2 ^ s \<and> odd q then q + 1 else q) * 2 ^ s))"

text \<open>\<^verbatim>\<open>time.Duration(float64(maximum) * float64(pressure) * float64(pressure))\<close>: two rounded products, then
  the fraction is cut off.\<close>

definition pressureDelay :: "int \<Rightarrow> 32 word \<Rightarrow> int" where
  "pressureDelay maximum p =
     (let k = f32_scale p;
          first = round53 (nat maximum * f32_mant p);
          product = round53 (first * f32_mant p)
      in int (product div 2 ^ (k + k)))"

section \<open>Bounds\<close>

lemma bitLen_lower: "n \<noteq> 0 \<Longrightarrow> 2 ^ (bitLen n - 1) \<le> n"
proof (induction n rule: bitLen.induct)
  case (1 n)
  have step: "bitLen n = Suc (bitLen (n div 2))" using "1.prems" by (subst bitLen.simps) simp
  show ?case
  proof (cases "n div 2 = 0")
    case True
    then show ?thesis using "1.prems" step by (simp add: bitLen.simps [of 0])
  next
    case False
    then have "2 ^ (bitLen (n div 2) - 1) \<le> n div 2" using "1.IH" "1.prems" by simp
    moreover have "bitLen (n div 2) \<noteq> 0" using False by (subst bitLen.simps) simp
    then have "2 ^ bitLen (n div 2) = 2 * (2 :: nat) ^ (bitLen (n div 2) - 1)" by (simp flip: power_Suc)
    ultimately show ?thesis by (simp add: step)
  qed
qed

text \<open>Rounding never passes a number that a double can hold.\<close>

lemma round53_le:
  assumes "m \<le> M * 2 ^ k" "M < 2 ^ 53"
  shows "round53 m \<le> M * 2 ^ k"
proof (cases "bitLen m \<le> 53")
  case True
  then show ?thesis using assms(1) by (simp add: round53_def)
next
  case False
  define s where "s = bitLen m - 53"
  let ?q = "m div 2 ^ s" and ?r = "m mod 2 ^ s"
  have "m \<noteq> 0" using False by (metis bitLen.simps zero_le)
  then have "2 ^ (bitLen m - 1) \<le> M * 2 ^ k" using bitLen_lower [of m] assms(1) by linarith
  also have "\<dots> < 2 ^ (53 + k)" using assms(2) by (simp add: power_add)
  finally have "bitLen m - 1 < 53 + k" by (rule power_less_imp_less_exp [rotated]) simp
  then have "s \<le> k" using False by (simp add: s_def)
  then obtain c where c: "M * 2 ^ k = c * 2 ^ s"
    by (metis le_add_diff_inverse mult.assoc mult.commute power_add)
  have m: "m = ?q * 2 ^ s + ?r" by (simp add: div_mult_mod_eq)
  have q: "?q * 2 ^ s \<le> c * 2 ^ s" using m assms(1) c by linarith
  have up: "(?q + 1) * 2 ^ s \<le> c * 2 ^ s" if "0 < ?r"
  proof -
    have "?q * 2 ^ s < c * 2 ^ s" using m assms(1) c that by linarith
    then have "?q < c" by simp
    then show ?thesis by (intro mult_le_mono1) simp
  qed
  have "round53 m = (if 2 * ?r > 2 ^ s \<or> 2 * ?r = 2 ^ s \<and> odd ?q then ?q + 1 else ?q) * 2 ^ s"
    using False by (simp add: round53_def s_def Let_def)
  moreover have "0 < ?r" if "2 * ?r > 2 ^ s \<or> 2 * ?r = 2 ^ s \<and> odd ?q"
    using that by (cases "?r = 0") auto
  ultimately have "round53 m \<le> c * 2 ^ s" using q up by presburger
  then show ?thesis by (simp only: c)
qed

lemma f32_frac_bound: "f32_frac p < 2 ^ 23"
proof -
  have "p AND 8388607 = take_bit 23 p" by (simp add: take_bit_eq_mask mask_eq_exp_minus_1)
  then have "unat (p AND 8388607) = take_bit 23 (unat p)" by (simp add: unsigned_take_bit_eq)
  then show ?thesis unfolding f32_frac_def using take_bit_nat_less_exp [of 23 "unat p"] by (simp only:)
qed

lemma f32_below_one:
  assumes "\<not> invalidPressure (Some p)" "f32_pos p"
  shows "f32_mant p \<le> 2 ^ f32_scale p" "f32_scale p \<le> 149"
proof -
  have e: "f32_exp p < 127" using assms by (auto simp: invalidPressure_def f32_pos_def f32_ge1_def)
  have "f32_mant p < 2 ^ 24" using f32_frac_bound [of p] by (simp add: f32_mant_def)
  also have "(2 :: nat) ^ 24 \<le> 2 ^ f32_scale p" using e by (intro power_increasing) (simp_all add: f32_scale_def)
  finally show "f32_mant p \<le> 2 ^ f32_scale p" by simp
  show "f32_scale p \<le> 149" by (simp add: f32_scale_def)
qed

lemma pressureDelay_bounds:
  assumes "0 \<le> maximum" "maximum \<le> minute" "\<not> invalidPressure (Some p)" "f32_pos p"
  shows "0 \<le> pressureDelay maximum p \<and> pressureDelay maximum p \<le> maximum"
proof -
  let ?k = "f32_scale p" and ?m = "f32_mant p" and ?M = "nat maximum"
  let ?first = "round53 (?M * ?m)"
  have M: "?M < 2 ^ 53" using assms(2) by (simp add: minute_def second_def nat_less_iff)
  have "?M * ?m \<le> ?M * 2 ^ ?k" using f32_below_one(1) [OF assms(3,4)] by simp
  then have "?first \<le> ?M * 2 ^ ?k" using M by (rule round53_le)
  then have "?first * ?m \<le> ?M * 2 ^ ?k * 2 ^ ?k" using f32_below_one(1) [OF assms(3,4)] by (rule mult_le_mono)
  then have "?first * ?m \<le> ?M * 2 ^ (?k + ?k)" by (simp add: power_add mult.assoc)
  then have "round53 (?first * ?m) \<le> ?M * 2 ^ (?k + ?k)" using M by (rule round53_le)
  then have "round53 (?first * ?m) div 2 ^ (?k + ?k) \<le> ?M" by (metis div_le_mono div_mult_self_is_m pos2 zero_less_power)
  then show ?thesis using assms(1) by (simp add: pressureDelay_def Let_def le_nat_iff)
qed

end
