(* ===== verification/Go_Strings.thy ===== *)
theory Go_Strings
  imports Go_Prelude
begin

text \<open>
  Decimal numbers in strings: \<^verbatim>\<open>strconv.FormatInt\<close> in base ten, which the client uses to build keys, and
  that such keys determine the numbers they were built from.
\<close>

definition digitChar :: "nat \<Rightarrow> char" where
  "digitChar d = char_of (48 + d)"

function digitsOf :: "nat \<Rightarrow> string" where
  "digitsOf n = (if n < 10 then [digitChar n] else digitsOf (n div 10) @ [digitChar (n mod 10)])"
  by pat_completeness auto
termination digitsOf
  by (relation "measure id") auto

declare digitsOf.simps [simp del]

definition FormatInt :: "int \<Rightarrow> string" where
  "FormatInt i = (if i < 0 then CHR ''-'' # digitsOf (nat (- i)) else digitsOf (nat i))"

definition digitValue :: "char \<Rightarrow> nat" where
  "digitValue c = of_char c - 48"

definition parseDigits :: "string \<Rightarrow> nat" where
  "parseDigits cs = foldl (\<lambda>a c. a * 10 + digitValue c) 0 cs"

lemma of_char_digitChar: "d < 10 \<Longrightarrow> of_char (digitChar d) = 48 + d"
  by (simp add: digitChar_def)

lemma digitsOf_chars: "c \<in> set (digitsOf n) \<Longrightarrow> 48 \<le> (of_char c :: nat) \<and> (of_char c :: nat) \<le> 57"
proof (induction n rule: digitsOf.induct)
  case (1 n)
  then show ?case
    by (subst (asm) (2) digitsOf.simps) (auto simp: of_char_digitChar split: if_splits)
qed

lemma parseDigits_digitsOf: "parseDigits (digitsOf n) = n"
proof (induction n rule: digitsOf.induct)
  case (1 n)
  show ?case
  proof (cases "n < 10")
    case True
    then show ?thesis by (simp add: digitsOf.simps [of n] parseDigits_def digitValue_def of_char_digitChar)
  next
    case False
    then have "parseDigits (digitsOf n) = parseDigits (digitsOf (n div 10)) * 10 + n mod 10"
      by (simp add: digitsOf.simps [of n] parseDigits_def digitValue_def of_char_digitChar)
    then show ?thesis using 1 False by simp
  qed
qed

lemma FormatInt_chars: "c \<in> set (FormatInt i) \<Longrightarrow> c = CHR ''-'' \<or> 48 \<le> (of_char c :: nat) \<and> (of_char c :: nat) \<le> 57"
  using digitsOf_chars by (auto simp: FormatInt_def split: if_splits)

lemma FormatInt_inject: "FormatInt i = FormatInt j \<longleftrightarrow> i = j"
proof
  assume eq: "FormatInt i = FormatInt j"
  have minus: "CHR ''-'' # cs \<noteq> digitsOf n" for cs n
  proof
    assume "CHR ''-'' # cs = digitsOf n"
    then have "CHR ''-'' \<in> set (digitsOf n)" by (metis list.set_intros(1))
    then show False using digitsOf_chars [of "CHR ''-''" n] by simp
  qed
  have dig: "n = m" if "digitsOf n = digitsOf m" for n m
    using arg_cong [OF that, of parseDigits] by (simp add: parseDigits_digitsOf)
  show "i = j"
  proof (cases "i < 0"; cases "j < 0")
    assume "i < 0" "j < 0"
    then show ?thesis using dig [of "nat (- i)" "nat (- j)"] eq by (simp add: FormatInt_def)
  next
    assume "i < 0" "\<not> j < 0"
    then show ?thesis using eq minus by (simp add: FormatInt_def)
  next
    assume "\<not> i < 0" "j < 0"
    then show ?thesis using eq minus by (metis FormatInt_def)
  next
    assume "\<not> i < 0" "\<not> j < 0"
    then show ?thesis using dig [of "nat i" "nat j"] eq by (simp add: FormatInt_def)
  qed
qed simp

lemma FormatInt_no:
  assumes "c \<noteq> CHR ''-''" "(of_char c :: nat) < 48 \<or> 57 < (of_char c :: nat)"
  shows "c \<notin> set (FormatInt i)"
  using FormatInt_chars [of c i] assms by auto

text \<open>A word without a separator, followed by the separator, is read off the front.\<close>

lemma separated_inject:
  assumes "xs @ c # us = ys @ c # vs" "c \<notin> set xs" "c \<notin> set ys"
  shows "xs = ys \<and> us = vs"
proof -
  have word: "takeWhile (\<lambda>d. d \<noteq> c) (zs @ c # ws) = zs" if "c \<notin> set zs" for zs ws
    using that by (induction zs) auto
  have "xs = ys" using word [OF assms(2), of us] word [OF assms(3), of vs] assms(1) by metis
  then show ?thesis using assms(1) by simp
qed

end
