(* ===== verification/Upsert_Writer.thy ===== *)
theory Upsert_Writer
  imports Backpressure Go_Strings Append_Writer
begin

text \<open>
  The upsert writer of \<^verbatim>\<open>pkg/fgo/kv_writer.go\<close>: the callers' side (\<^verbatim>\<open>Upsert\<close>, \<^verbatim>\<open>PartialUpsert\<close>, \<^verbatim>\<open>Delete\<close>,
  \<^verbatim>\<open>Flush\<close>, \<^verbatim>\<open>Close\<close>), the loop goroutine and the \<^verbatim>\<open>executeBatch\<close> goroutines. The state is laid out as for the
  append writer; times are integers (nanoseconds), \<open>clock n\<close> is the time at which the loop starts the \<open>n\<close>-th
  request, and \<^verbatim>\<open>kcDelays\<close> is the history of the delays handed to the requests. Waiting out a delay, and
  cutting it short when the writer closes, are the time a request takes: a request may complete at any step.
\<close>

section \<open>State\<close>

record pending_kv_write =
  kwRecord :: kv_record
  kwBucket :: int
  kwTargets :: "int list"
  kwSize :: int
  kwFuture :: nat

record kv_pending_batch =
  kbItems :: "pending_kv_write list"
  kbRecords :: "kv_record list"
  kbTargets :: "int list"
  kbBytes :: int

datatype upsert_command = UCmdItem pending_kv_write | UCmdFlush | UCmdClose

record kv_core =
  kcSched :: "kv_pending_batch scheduler"
  kcThrottle :: "int \<Rightarrow> int option"
  kcDelays :: "int list"

record upsert_state =
  usBatches :: "int \<Rightarrow> kv_pending_batch option"
  usCore :: kv_core
  usTimer :: bool
  usFutures :: "nat \<Rightarrow> write_future"
  usNext :: nat
  usSlots :: nat
  usEntering :: "pending_kv_write list"
  usCommands :: "upsert_command list"
  usClosed :: bool
  usCloseErr :: "go_error option"
  usMode :: loop_mode
  usAccepted :: "int \<Rightarrow> pending_kv_write list"

definition newUpsertState :: upsert_state where
  "newUpsertState = \<lparr>usBatches = (\<lambda>_. None),
     usCore = \<lparr>kcSched = newScheduler, kcThrottle = (\<lambda>_. None), kcDelays = []\<rparr>, usTimer = False,
     usFutures = (\<lambda>_. newWriteFuture), usNext = 0, usSlots = 0, usEntering = [], usCommands = [],
     usClosed = False, usCloseErr = None, usMode = Serving, usAccepted = (\<lambda>_. [])\<rparr>"

abbreviation usSched :: "upsert_state \<Rightarrow> kv_pending_batch scheduler" where
  "usSched s \<equiv> kcSched (usCore s)"

section \<open>Mutations\<close>

text \<open>A Go map from column names to values; a missing name reads as nil.\<close>

definition valueOf :: "(string \<rightharpoonup> go_value) \<Rightarrow> string \<Rightarrow> go_value" where
  "valueOf vals name = (case vals name of None \<Rightarrow> VNil | Some v \<Rightarrow> v)"

definition rowValues :: "schema \<Rightarrow> row \<Rightarrow> string list \<Rightarrow> (string \<rightharpoonup> go_value) result" where
  "rowValues s row columns =
     (let columns = (if columns = [] then selectedColumns s [] else columns)
      in guardE (length row < length columns) (Panic ''index out of range'')
           (Inr (map_of (rev (zip columns row)))))"

definition bucketNames :: "schema \<Rightarrow> string list" where
  "bucketNames s = (if BucketKey s = [] then PrimaryKey s else BucketKey s)"

text \<open>\<^verbatim>\<open>enqueueMutation\<close> up to the item it queues.\<close>

definition enqueueMutation :: "upsert_static \<Rightarrow> (string \<rightharpoonup> go_value) \<Rightarrow> bytes option \<Rightarrow> int list \<Rightarrow> nat \<Rightarrow>
  pending_kv_write result" where
  "enqueueMutation w vals value targets future =
     (let s = tblSchema (uwTable w)
      in andThen (EncodePrimaryKey s (map (valueOf vals) (PrimaryKey s))) (\<lambda>key.
         andThen (encodeKeyColumns s (bucketNames s) (map (valueOf vals) (bucketNames s))) (\<lambda>bucketKey.
         andThen (flussBucket bucketKey (int (length (uwBuckets w)))) (\<lambda>hashBucket.
         andThen (go_index (uwBuckets w) (sint hashBucket)) (\<lambda>bucket.
         Inr \<lparr>kwRecord = \<lparr>kvKey = key, kvValue = value\<rparr>, kwBucket = bucket, kwTargets = targets,
              kwSize = int (length key) + int (length (case value of None \<Rightarrow> [] | Some v \<Rightarrow> v)) + 8,
              kwFuture = future\<rparr>)))))"

definition prepareUpsert :: "upsert_static \<Rightarrow> bool \<Rightarrow> row \<Rightarrow> nat \<Rightarrow> pending_kv_write result" where
  "prepareUpsert w nilCtx row future =
     (let s = tblSchema (uwTable w)
      in guardE nilCtx ErrInvalidConfig (
         guardE (AutoIncrement s \<noteq> []) ErrInvalidRow (
         andThen (ValidateRow s row []) (\<lambda>_.
         andThen (EncodeCompactedRow s row) (\<lambda>value.
         andThen (rowValues s row []) (\<lambda>vals.
         enqueueMutation w vals (Some value) [] future))))))"

text \<open>\<^verbatim>\<open>positions[name]\<close>: the last index of the name, or zero.\<close>

definition positionOf :: "schema \<Rightarrow> string \<Rightarrow> int" where
  "positionOf s name = (case columnPositions s name of None \<Rightarrow> 0 | Some i \<Rightarrow> int i)"

definition validatePartialSelection :: "schema \<Rightarrow> string set \<Rightarrow> unit result" where
  "validatePartialSelection s selected =
     guardE (\<exists>name \<in> set (PrimaryKey s). name \<notin> selected) ErrInvalidRow (
     guardE (\<exists>name \<in> set (AutoIncrement s). name \<in> selected) ErrInvalidRow (
     guardE (\<exists>c \<in> set (Columns s). colName c \<notin> selected \<and> \<not> colNullable c
       \<and> colName c \<notin> set (PrimaryKey s) \<and> colName c \<notin> set (AutoIncrement s)) ErrInvalidRow (
     Inr ())))"

definition validatePartial :: "schema \<Rightarrow> string list \<Rightarrow> row \<Rightarrow> int list result" where
  "validatePartial s columns vals =
     guardE (columns = [] \<or> length columns \<noteq> length vals) ErrInvalidRow (
     andThen (ValidateRow s vals columns) (\<lambda>_.
     guardE (\<not> distinct columns) ErrInvalidRow (
     andThen (validatePartialSelection s (set columns)) (\<lambda>_.
     Inr (map (positionOf s) columns)))))"

fun placeValues :: "schema \<Rightarrow> row \<Rightarrow> (string \<times> go_value) list \<Rightarrow> row result" where
  "placeValues s full [] = Inr full"
| "placeValues s full ((column, v) # rest) =
     andThen (go_set full (positionOf s column) v) (\<lambda>full. placeValues s full rest)"

definition preparePartial :: "upsert_static \<Rightarrow> bool \<Rightarrow> string list \<Rightarrow> row \<Rightarrow> nat \<Rightarrow> pending_kv_write result" where
  "preparePartial w nilCtx columns vals future =
     (let s = tblSchema (uwTable w)
      in guardE nilCtx ErrInvalidConfig (
         andThen (validatePartial s columns vals) (\<lambda>targets.
         andThen (placeValues s (replicate (length (Columns s)) VNil) (zip columns vals)) (\<lambda>full.
         andThen (EncodeCompactedRow s full) (\<lambda>value.
         andThen (rowValues s vals columns) (\<lambda>named.
         enqueueMutation w named (Some value) targets future))))))"

definition prepareDelete :: "upsert_static \<Rightarrow> bool \<Rightarrow> row \<Rightarrow> nat \<Rightarrow> pending_kv_write result" where
  "prepareDelete w nilCtx key future =
     (let s = tblSchema (uwTable w)
      in guardE nilCtx ErrInvalidConfig (
         andThen (ValidatePrimaryKey s key) (\<lambda>_.
         guardE (length key < length (PrimaryKey s)) (Panic ''index out of range'') (
         enqueueMutation w (map_of (rev (zip (PrimaryKey s) key))) None [] future))))"

section \<open>Futures\<close>

definition completeKV :: "nat \<Rightarrow> write_result \<Rightarrow> upsert_state \<Rightarrow> upsert_state" where
  "completeKV f result s =
     (let (future, released) = complete result (usFutures s f)
      in s\<lparr>usFutures := (usFutures s)(f := future), usSlots := usSlots s - released\<rparr>)"

text \<open>The results of a batch, one per item: \<^verbatim>\<open>first + int64(index)\<close> wraps as \<^verbatim>\<open>int64\<close> does.\<close>

definition kvResults :: "kv_pending_batch \<Rightarrow> int \<Rightarrow> 64 word \<Rightarrow> bool \<Rightarrow> 32 word \<Rightarrow> bool \<Rightarrow> go_error option \<Rightarrow>
  (nat \<times> write_result) list" where
  "kvResults batch bucket logEnd offsetKnown pressure pressureKnown err =
     (let first = (if offsetKnown then logEnd - of_nat (length (kbItems batch)) else 0)
      in map (\<lambda>(index, item). (kwFuture item,
           \<lparr>wrBucket = bucket, wrBaseOffset = first + of_nat index, wrOffsetKnown = offsetKnown, wrRecords = 1,
            wrPressure = pressure, wrPressureKnown = pressureKnown, wrErr = err\<rparr>))
         (zip [0..<length (kbItems batch)] (kbItems batch)))"

definition completeAllKV :: "(nat \<times> write_result) list \<Rightarrow> upsert_state \<Rightarrow> upsert_state" where
  "completeAllKV rs s = fold (\<lambda>(f, r). completeKV f r) rs s"

definition completeKVBatch :: "kv_pending_batch \<Rightarrow> int \<Rightarrow> 64 word \<Rightarrow> bool \<Rightarrow> 32 word \<Rightarrow> bool \<Rightarrow> go_error option \<Rightarrow>
  upsert_state \<Rightarrow> upsert_state" where
  "completeKVBatch batch bucket logEnd offsetKnown pressure pressureKnown err s =
     completeAllKV (kvResults batch bucket logEnd offsetKnown pressure pressureKnown err) s"

section \<open>Dispatch with throttling\<close>

text \<open>The body of the inner loop of \<^verbatim>\<open>dispatch\<close>: the delay of a request is what is left of the throttle of its
  bucket; a throttle that is over is forgotten.\<close>

definition kvStart :: "(nat \<Rightarrow> int) \<Rightarrow> int \<Rightarrow> kv_core \<Rightarrow> kv_core" where
  "kvStart clock bucket c =
     (let now = clock (length (dispatched (kcSched c)));
          delay = (case kcThrottle c bucket of None \<Rightarrow> 0 | Some t \<Rightarrow> t - now)
      in if delay \<le> 0
         then c\<lparr>kcSched := startBatch bucket (kcSched c), kcThrottle := (kcThrottle c)(bucket := None),
                kcDelays := kcDelays c @ [0]\<rparr>
         else c\<lparr>kcSched := startBatch bucket (kcSched c), kcDelays := kcDelays c @ [delay]\<rparr>)"

fun kvDispatchPass :: "int \<Rightarrow> (nat \<Rightarrow> int) \<Rightarrow> int list \<Rightarrow> bool \<Rightarrow> kv_core \<Rightarrow> bool \<times> kv_core" where
  "kvDispatchPass limit clock [] started c = (started, c)"
| "kvDispatchPass limit clock (bucket # buckets) started c =
     (if active (kcSched c) bucket \<or> pending (kcSched c) bucket = []
      then kvDispatchPass limit clock buckets started c
      else
        (let c = kvStart clock bucket c
         in if inFlight (kcSched c) = limit then (True, c) else kvDispatchPass limit clock buckets True c))"

lemma kvStart_sched [simp]: "kcSched (kvStart clock b c) = startBatch b (kcSched c)"
  by (simp add: kvStart_def Let_def)

lemma kvDispatchPass_sched:
  "dispatchPass limit buckets started (kcSched c) =
     (fst (kvDispatchPass limit clock buckets started c), kcSched (snd (kvDispatchPass limit clock buckets started c)))"
  by (induction limit clock buckets started c rule: kvDispatchPass.induct) (simp_all add: Let_def)

function kvDispatch :: "int \<Rightarrow> (nat \<Rightarrow> int) \<Rightarrow> int list \<Rightarrow> kv_core \<Rightarrow> kv_core" where
  "kvDispatch limit clock buckets c =
     (if inFlight (kcSched c) < limit
      then (case kvDispatchPass limit clock buckets False c of
              (started, c') \<Rightarrow> if \<not> started then c' else kvDispatch limit clock buckets c')
      else c)"
  by pat_completeness auto
termination kvDispatch
proof (relation "measure (\<lambda>(limit, _, _, c). nat (limit - inFlight (kcSched c)))")
  fix limit :: int and clock buckets and c c' :: kv_core and started
  assume "inFlight (kcSched c) < limit" "(started, c') = kvDispatchPass limit clock buckets False c" "\<not> \<not> started"
  then have "inFlight (kcSched c) < inFlight (kcSched c')"
    using dispatchPass_inFlight(2) [of limit buckets False "kcSched c" started "kcSched c'"]
      kvDispatchPass_sched [of limit buckets False c clock] by (metis fst_conv snd_conv)
  then show "((limit, clock, buckets, c'), (limit, clock, buckets, c))
      \<in> measure (\<lambda>(limit, _, _, c). nat (limit - inFlight (kcSched c)))"
    using \<open>inFlight (kcSched c) < limit\<close> by simp
qed simp

declare kvDispatch.simps [simp del]

text \<open>The scheduling part of \<^verbatim>\<open>handleCompletion\<close>; \<open>now\<close> is the time at which a new throttle starts.\<close>

definition kvFinish :: "upsert_static \<Rightarrow> (nat \<Rightarrow> int) \<Rightarrow> int \<Rightarrow> int \<Rightarrow> go_error option \<Rightarrow> 32 word \<Rightarrow> bool \<Rightarrow> kv_core \<Rightarrow>
  kv_pending_batch list \<times> kv_core" where
  "kvFinish w clock now bucket err pressure pressureKnown c =
     (let limit = ucMaxConcurrentRequests (uwConfig w); maximum = ucBackpressureMaxThrottle (uwConfig w);
          l = kcSched c;
          l = l\<lparr>active := (active l)(bucket := False), inFlight := inFlight l - 1,
                running := filter (\<lambda>r. fst r \<noteq> bucket) (running l)\<rparr>
      in case err of
           Some e \<Rightarrow>
             (pending l bucket,
              kvDispatch limit clock (uwBuckets w)
                (c\<lparr>kcSched := l\<lparr>poisoned := (poisoned l)(bucket := Some e), pending := (pending l)(bucket := [])\<rparr>\<rparr>))
         | None \<Rightarrow>
             ([], kvDispatch limit clock (uwBuckets w)
                    (c\<lparr>kcSched := l\<lparr>sequences := (sequences l)(bucket := sequences l bucket + 1)\<rparr>,
                       kcThrottle :=
                         (if pressureKnown \<and> f32_pos pressure \<and> maximum > 0
                          then (kcThrottle c)(bucket \<mapsto> now + pressureDelay maximum pressure)
                          else if pressureKnown then (kcThrottle c)(bucket := None)
                          else kcThrottle c)\<rparr>)))"

section \<open>Batches\<close>

definition targetKey :: "int list \<Rightarrow> string" where
  "targetKey targets = concat (map (\<lambda>t. FormatInt t @ '','') targets)"

definition kvBatchFull :: "upsert_static \<Rightarrow> kv_pending_batch \<Rightarrow> bool" where
  "kvBatchFull w batch \<longleftrightarrow>
     int (length (kbItems batch)) \<ge> ucMaxBatchRecords (uwConfig w) \<or> kbBytes batch \<ge> ucMaxBatchBytes (uwConfig w)"

definition kvBatchFullWith :: "upsert_static \<Rightarrow> kv_pending_batch \<Rightarrow> pending_kv_write \<Rightarrow> bool" where
  "kvBatchFullWith w batch item \<longleftrightarrow>
     int (length (kbItems batch)) \<ge> ucMaxBatchRecords (uwConfig w)
     \<or> kbBytes batch + kwSize item > ucMaxBatchBytes (uwConfig w)"

definition newKVBatch :: "pending_kv_write \<Rightarrow> upsert_state \<Rightarrow> kv_pending_batch \<times> upsert_state" where
  "newKVBatch item s =
     (let batch = \<lparr>kbItems = [], kbRecords = [], kbTargets = kwTargets item, kbBytes = 0\<rparr>
      in (batch, s\<lparr>usBatches := (usBatches s)(kwBucket item \<mapsto> batch)\<rparr>))"

definition flushKVBucket :: "upsert_static \<Rightarrow> (nat \<Rightarrow> int) \<Rightarrow> int \<Rightarrow> upsert_state \<Rightarrow> go_error option \<times> upsert_state" where
  "flushKVBucket w clock bucket s =
     (case usBatches s bucket of
        None \<Rightarrow> (None, s)
      | Some batch \<Rightarrow>
          if kbItems batch = [] then (None, s)
          else
            (let s = s\<lparr>usBatches := (usBatches s)(bucket := None)\<rparr>; l = usSched s
             in if poisoned l bucket \<noteq> None
                then (Some ErrWriterState, completeKVBatch batch bucket 0 False 0 False (Some ErrWriterState) s)
                else (None, s\<lparr>usCore := kvDispatch (ucMaxConcurrentRequests (uwConfig w)) clock (uwBuckets w)
                       ((usCore s)\<lparr>kcSched := l\<lparr>pending := (pending l)(bucket := pending l bucket @ [batch])\<rparr>\<rparr>)\<rparr>)))"

definition compatibleBatch :: "upsert_static \<Rightarrow> (nat \<Rightarrow> int) \<Rightarrow> pending_kv_write \<Rightarrow> upsert_state \<Rightarrow>
  kv_pending_batch \<times> upsert_state" where
  "compatibleBatch w clock item s =
     (case usBatches s (kwBucket item) of
        None \<Rightarrow> newKVBatch item s
      | Some batch \<Rightarrow>
          if targetKey (kbTargets batch) \<noteq> targetKey (kwTargets item)
          then newKVBatch item (snd (flushKVBucket w clock (kwBucket item) s))
          else (batch, s))"

definition armKVTimer :: "upsert_static \<Rightarrow> upsert_state \<Rightarrow> upsert_state" where
  "armKVTimer w s = (if \<not> usTimer s \<and> ucBatchTimeout (uwConfig w) > 0 then s\<lparr>usTimer := True\<rparr> else s)"

definition stopKVTimer :: "upsert_state \<Rightarrow> upsert_state" where
  "stopKVTimer s = s\<lparr>usTimer := False\<rparr>"

text \<open>The item joins the batch of its bucket (history: it is accepted there).\<close>

definition putKV :: "kv_pending_batch \<Rightarrow> pending_kv_write \<Rightarrow> upsert_state \<Rightarrow> upsert_state" where
  "putKV batch item s =
     s\<lparr>usBatches := (usBatches s)(kwBucket item \<mapsto> batch),
       usAccepted := (usAccepted s)(kwBucket item := usAccepted s (kwBucket item) @ [item])\<rparr>"

definition addKV :: "upsert_static \<Rightarrow> (nat \<Rightarrow> int) \<Rightarrow> go_error option \<Rightarrow> pending_kv_write \<Rightarrow> upsert_state \<Rightarrow> upsert_state" where
  "addKV w clock ctxErr item s =
     (case ctxErr of
        Some e \<Rightarrow> completeKV (kwFuture item) (errorResult e) s
      | None \<Rightarrow>
          (let (batch, s) = compatibleBatch w clock item s;
               (batch, s) =
                 (if kbItems batch \<noteq> [] \<and> kvBatchFullWith w batch item
                  then newKVBatch item (snd (flushKVBucket w clock (kwBucket item) s)) else (batch, s));
               batch = batch\<lparr>kbItems := kbItems batch @ [item], kbRecords := kbRecords batch @ [kwRecord item],
                             kbBytes := kbBytes batch + kwSize item\<rparr>;
               s = putKV batch item s
           in if kvBatchFull w batch \<or> ucBatchTimeout (uwConfig w) = 0
              then snd (flushKVBucket w clock (kwBucket item) s) else armKVTimer w s))"

fun queueKVBuckets :: "upsert_static \<Rightarrow> (nat \<Rightarrow> int) \<Rightarrow> int list \<Rightarrow> go_error option \<Rightarrow> upsert_state \<Rightarrow>
  go_error option \<times> upsert_state" where
  "queueKVBuckets w clock [] joined s = (joined, s)"
| "queueKVBuckets w clock (bucket # buckets) joined s =
     (let (err, s) = flushKVBucket w clock bucket s in queueKVBuckets w clock buckets (joinErr joined err) s)"

definition queueAllKV :: "upsert_static \<Rightarrow> (nat \<Rightarrow> int) \<Rightarrow> upsert_state \<Rightarrow> go_error option \<times> upsert_state" where
  "queueAllKV w clock s = queueKVBuckets w clock (uwBuckets w) None (stopKVTimer s)"

section \<open>Requests\<close>

text \<open>What the backend and the clock answer during one request: \<^verbatim>\<open>put\<close> per attempt (log end offset, pressure if
  any, error), the context after an attempt, the end of a wait, and the request context at the end.\<close>

record put_env =
  putAt :: "int \<Rightarrow> 64 word \<times> 32 word option \<times> go_error option"
  putCtxErr :: "int \<Rightarrow> go_error option"
  putWait :: "int \<Rightarrow> go_error option"
  putExpired :: "go_error option"

definition putAttempts :: "put_env \<Rightarrow> attempt_env" where
  "putAttempts env =
     \<lparr>callAt = (\<lambda>i. case putAt env i of (logEnd, _, err) \<Rightarrow> (logEnd, err = None, err)),
      ctxErrAt = putCtxErr env, waitAt = putWait env\<rparr>"

text \<open>\<^verbatim>\<open>pressure\<close> and \<^verbatim>\<open>pressureKnown\<close> are set by an attempt without an error, which is the last one.\<close>

definition pressureAfter :: "put_env \<Rightarrow> attempt_result \<Rightarrow> 32 word option" where
  "pressureAfter env r =
     (case putAt env (arAttempts r) of (_, pressure, err) \<Rightarrow> if err = None then pressure else None)"

record kv_completion =
  kpBucket :: int
  kpBatch :: kv_pending_batch
  kpLogEnd :: "64 word"
  kpOffsetKnown :: bool
  kpPressure :: "32 word"
  kpPressureKnown :: bool
  kpErr :: "go_error option"

definition encodeKVBatch :: "upsert_static \<Rightarrow> kv_pending_batch \<Rightarrow> 32 word \<Rightarrow> bytes result" where
  "encodeKVBatch w batch sequence =
     KVBatch_Encode \<lparr>kvSchemaID = word_of_int (tblSchemaID (uwTable w)), kvWriterID = word_of_int (uwWriterID w),
       kvSequence = sequence, kvRecords = kbRecords batch\<rparr>"

definition executeKVBatch :: "upsert_static \<Rightarrow> put_env \<Rightarrow> kv_pending_batch request \<Rightarrow> kv_completion" where
  "executeKVBatch w env request =
     (case request of (bucket, batch, sequence) \<Rightarrow>
        (case encodeKVBatch w batch sequence of
           Inl e \<Rightarrow> \<lparr>kpBucket = bucket, kpBatch = batch, kpLogEnd = 0, kpOffsetKnown = False, kpPressure = 0,
                     kpPressureKnown = False, kpErr = Some e\<rparr>
         | Inr encoded \<Rightarrow>
             (let r = executeWriterRequest (putAttempts env) (putExpired env) (ucRetryPolicy (uwConfig w));
                  pressure = pressureAfter env r
              in \<lparr>kpBucket = bucket, kpBatch = batch, kpLogEnd = arOffset r, kpOffsetKnown = arOffsetKnown r,
                  kpPressure = (case pressure of None \<Rightarrow> 0 | Some p \<Rightarrow> p), kpPressureKnown = pressure \<noteq> None,
                  kpErr = arErr r\<rparr>)))"

definition failKVBatches :: "kv_pending_batch list \<Rightarrow> int \<Rightarrow> upsert_state \<Rightarrow> upsert_state" where
  "failKVBatches batches bucket s =
     fold (\<lambda>batch. completeKVBatch batch bucket 0 False 0 False (Some ErrWriterState)) batches s"

definition handleKVCompletion :: "upsert_static \<Rightarrow> (nat \<Rightarrow> int) \<Rightarrow> int \<Rightarrow> kv_completion \<Rightarrow> upsert_state \<Rightarrow> upsert_state" where
  "handleKVCompletion w clock now cp s =
     (let (failed, core) =
        kvFinish w clock now (kpBucket cp) (kpErr cp) (kpPressure cp) (kpPressureKnown cp) (usCore s);
        s = s\<lparr>usCore := core\<rparr>
      in case kpErr cp of
           Some e \<Rightarrow>
             failKVBatches failed (kpBucket cp)
               (completeKVBatch (kpBatch cp) (kpBucket cp) 0 False 0 False (Some e) s)
         | None \<Rightarrow>
             completeKVBatch (kpBatch cp) (kpBucket cp) (kpLogEnd cp) (kpOffsetKnown cp)
               (kpPressure cp) (kpPressureKnown cp) None s)"

section \<open>Callers\<close>

definition rejectKV :: "go_error \<Rightarrow> upsert_state \<Rightarrow> upsert_state" where
  "rejectKV e s =
     completeKV (usNext s) (errorResult e)
       (s\<lparr>usNext := usNext s + 1, usFutures := (usFutures s)(usNext s := newWriteFuture)\<rparr>)"

definition takeKVSlot :: "pending_kv_write \<Rightarrow> upsert_state \<Rightarrow> upsert_state" where
  "takeKVSlot item s =
     s\<lparr>usNext := usNext s + 1,
       usFutures := (usFutures s)(usNext s := newWriteFuture\<lparr>futRelease := True\<rparr>),
       usSlots := usSlots s + 1, usEntering := usEntering s @ [item]\<rparr>"

definition refuseKV :: "go_error \<Rightarrow> pending_kv_write \<Rightarrow> upsert_state \<Rightarrow> upsert_state" where
  "refuseKV e item s =
     completeKV (kwFuture item) (errorResult e) (s\<lparr>usEntering := remove1 item (usEntering s)\<rparr>)"

definition queueKV :: "pending_kv_write \<Rightarrow> upsert_state \<Rightarrow> upsert_state" where
  "queueKV item s =
     s\<lparr>usEntering := remove1 item (usEntering s), usCommands := usCommands s @ [UCmdItem item]\<rparr>"

definition kvQueueFull :: "upsert_static \<Rightarrow> upsert_state \<Rightarrow> bool" where
  "kvQueueFull w s \<longleftrightarrow> int (length (usCommands s)) \<ge> ucMaxBuffered (uwConfig w)"

section \<open>Steps\<close>

definition mutationBy :: "upsert_static \<Rightarrow> (nat \<Rightarrow> pending_kv_write result) \<Rightarrow> bool" where
  "mutationBy w call \<longleftrightarrow>
     (\<exists>nilCtx row. call = prepareUpsert w nilCtx row)
     \<or> (\<exists>nilCtx columns vals. call = preparePartial w nilCtx columns vals)
     \<or> (\<exists>nilCtx key. call = prepareDelete w nilCtx key)"

inductive upsert_step :: "upsert_static \<Rightarrow> upsert_state \<Rightarrow> upsert_state \<Rightarrow> bool" for w :: upsert_static where
  call_invalid: "mutationBy w call \<Longrightarrow> call (usNext s) = Inl e \<Longrightarrow> upsert_step w s (rejectKV e s)"
| call_cancelled: "mutationBy w call \<Longrightarrow> call (usNext s) = Inr item \<Longrightarrow>
     e \<in> {ErrCanceled, ErrDeadlineExceeded} \<or> e = ErrClosed \<and> usMode s = Stopped \<Longrightarrow>
     upsert_step w s (rejectKV e s)"
| call_slot: "mutationBy w call \<Longrightarrow> call (usNext s) = Inr item \<Longrightarrow>
     int (usSlots s) < ucMaxBuffered (uwConfig w) \<Longrightarrow> upsert_step w s (takeKVSlot item s)"
| enter_closed: "item \<in> set (usEntering s) \<Longrightarrow> usClosed s \<Longrightarrow> upsert_step w s (refuseKV ErrClosed item s)"
| enter_cancelled: "item \<in> set (usEntering s) \<Longrightarrow> \<not> usClosed s \<Longrightarrow>
     e \<in> {ErrCanceled, ErrDeadlineExceeded} \<or> e = ErrClosed \<and> usMode s = Stopped \<Longrightarrow>
     upsert_step w s (refuseKV e item s)"
| enter_queue: "item \<in> set (usEntering s) \<Longrightarrow> \<not> usClosed s \<Longrightarrow> \<not> kvQueueFull w s \<Longrightarrow>
     upsert_step w s (queueKV item s)"
| flush_call: "\<not> usClosed s \<Longrightarrow> \<not> kvQueueFull w s \<Longrightarrow>
     upsert_step w s (s\<lparr>usCommands := usCommands s @ [UCmdFlush]\<rparr>)"
| close_call: "\<not> usClosed s \<Longrightarrow> \<not> kvQueueFull w s \<Longrightarrow>
     upsert_step w s (s\<lparr>usClosed := True, usCommands := usCommands s @ [UCmdClose]\<rparr>)"
| loop_item: "usMode s = Serving \<Longrightarrow> usCommands s = UCmdItem item # rest \<Longrightarrow>
     upsert_step w s (addKV w clock ctxErr item (s\<lparr>usCommands := rest\<rparr>))"
| loop_flush: "usMode s = Serving \<Longrightarrow> usCommands s = UCmdFlush # rest \<Longrightarrow>
     queueAllKV w clock (stopKVTimer (s\<lparr>usCommands := rest\<rparr>)) = (err, s') \<Longrightarrow>
     upsert_step w s (s'\<lparr>usMode := Flushing err\<rparr>)"
| loop_close: "usMode s = Serving \<Longrightarrow> usCommands s = UCmdClose # rest \<Longrightarrow>
     queueAllKV w clock (stopKVTimer (s\<lparr>usCommands := rest\<rparr>)) = (err, s') \<Longrightarrow>
     upsert_step w s (s'\<lparr>usMode := Closing err\<rparr>)"
| loop_timer: "usMode s = Serving \<Longrightarrow> usTimer s \<Longrightarrow>
     upsert_step w s (snd (queueAllKV w clock (s\<lparr>usTimer := False\<rparr>)))"
| loop_completion: "usMode s = Serving \<Longrightarrow> request \<in> set (running (usSched s)) \<Longrightarrow>
     upsert_step w s (handleKVCompletion w clock now (executeKVBatch w env request) s)"
| flush_completion: "usMode s = Flushing err \<Longrightarrow> request \<in> set (running (usSched s)) \<Longrightarrow>
     cp = executeKVBatch w env request \<Longrightarrow>
     upsert_step w s ((handleKVCompletion w clock now cp s)\<lparr>usMode := Flushing (joinErr err (kpErr cp))\<rparr>)"
| close_completion: "usMode s = Closing err \<Longrightarrow> request \<in> set (running (usSched s)) \<Longrightarrow>
     cp = executeKVBatch w env request \<Longrightarrow>
     upsert_step w s ((handleKVCompletion w clock now cp s)\<lparr>usMode := Closing (joinErr err (kpErr cp))\<rparr>)"
| flush_done: "usMode s = Flushing err \<Longrightarrow> \<not> inFlight (usSched s) > 0 \<Longrightarrow>
     upsert_step w s (s\<lparr>usMode := Serving\<rparr>)"
| close_done: "usMode s = Closing err \<Longrightarrow> \<not> inFlight (usSched s) > 0 \<Longrightarrow>
     upsert_step w s (s\<lparr>usMode := Stopped, usCloseErr := err\<rparr>)"

definition upsert_reachable :: "upsert_static \<Rightarrow> upsert_state \<Rightarrow> bool" where
  "upsert_reachable w s \<longleftrightarrow> (upsert_step w)\<^sup>*\<^sup>* newUpsertState s"

end
