(* ===== verification/Writer_Spec.thy ===== *)
theory Writer_Spec
  imports Scheduler_Invariants Writer_Retry "HOL-Library.Sublist"
begin

text \<open>
  What a batching writer promises, as an abstract machine: where an item is (entering, queued, held by the
  loop, in the open batch of a bucket, in a batch that waits or runs), which future it owns, and how it
  moves. The two writers of the client refine it; the order of the items, the conservation of futures and
  slots and the shape of the batches are proved here once, and an interface (a locale) hands them to a writer.
\<close>

section \<open>The abstract machine\<close>

text \<open>\<open>vHeld\<close> is the item the loop has taken from the queue and not placed yet; \<open>vAccepted\<close> is the history of
  the items placed, by bucket.\<close>

record ('i, 'b) writer_view =
  vSched :: "'b scheduler"
  vOpen :: "int \<Rightarrow> 'i list"
  vHeld :: "'i list"
  vEntering :: "'i list"
  vQueued :: "'i list"
  vFutures :: "nat \<Rightarrow> write_future"
  vNext :: nat
  vSlots :: nat
  vAccepted :: "int \<Rightarrow> 'i list"

text \<open>The parameters of a writer: requests at a time, buckets, slots, the items of a batch, the future of an
  item, and the batches it may send.\<close>

record ('i, 'b) writer_params =
  wpLimit :: int
  wpBuckets :: "int list"
  wpCap :: int
  wpItems :: "'b \<Rightarrow> 'i list"
  wpFuture :: "'i \<Rightarrow> nat"
  wpGood :: "'b \<Rightarrow> bool"

definition newView :: "('i, 'b) writer_view" where
  "newView = \<lparr>vSched = newScheduler, vOpen = (\<lambda>_. []), vHeld = [], vEntering = [], vQueued = [],
     vFutures = (\<lambda>_. newWriteFuture), vNext = 0, vSlots = 0, vAccepted = (\<lambda>_. [])\<rparr>"

definition vComplete :: "nat \<Rightarrow> write_result \<Rightarrow> ('i, 'b) writer_view \<Rightarrow> ('i, 'b) writer_view" where
  "vComplete f r v =
     (let (future, released) = complete r (vFutures v f)
      in v\<lparr>vFutures := (vFutures v)(f := future), vSlots := vSlots v - released\<rparr>)"

definition vCompleteAll :: "(nat \<times> write_result) list \<Rightarrow> ('i, 'b) writer_view \<Rightarrow> ('i, 'b) writer_view" where
  "vCompleteAll rs v = fold (\<lambda>(f, r). vComplete f r) rs v"

text \<open>Starting a future without a slot, and with one.\<close>

definition vIssue :: "bool \<Rightarrow> ('i, 'b) writer_view \<Rightarrow> ('i, 'b) writer_view" where
  "vIssue slot v = v\<lparr>vNext := vNext v + 1, vFutures := (vFutures v)(vNext v := newWriteFuture\<lparr>futRelease := slot\<rparr>),
     vSlots := vSlots v + (if slot then 1 else 0)\<rparr>"

inductive spec_step :: "('i, 'b) writer_params \<Rightarrow> ('i, 'b) writer_view \<Rightarrow> ('i, 'b) writer_view \<Rightarrow> bool"
  for p :: "('i, 'b) writer_params" where
  reject: "wrErr r \<noteq> None \<Longrightarrow> spec_step p v (vComplete (vNext v) r (vIssue False v))"
| take: "wpFuture p i = vNext v \<Longrightarrow> int (vSlots v) < wpCap p \<Longrightarrow>
     spec_step p v ((vIssue True v)\<lparr>vEntering := vEntering v @ [i]\<rparr>)"
| refuse: "i \<in> set (vEntering v) \<Longrightarrow> wrErr r \<noteq> None \<Longrightarrow>
     spec_step p v (vComplete (wpFuture p i) r (v\<lparr>vEntering := remove1 i (vEntering v)\<rparr>))"
| queue: "i \<in> set (vEntering v) \<Longrightarrow>
     spec_step p v (v\<lparr>vEntering := remove1 i (vEntering v), vQueued := vQueued v @ [i]\<rparr>)"
| hold: "vQueued v = i # rest \<Longrightarrow> vHeld v = [] \<Longrightarrow> spec_step p v (v\<lparr>vQueued := rest, vHeld := [i]\<rparr>)"
| drop: "vHeld v = [i] \<Longrightarrow> wrErr r \<noteq> None \<Longrightarrow> spec_step p v (vComplete (wpFuture p i) r (v\<lparr>vHeld := []\<rparr>))"
| place: "vHeld v = [i] \<Longrightarrow> b \<in> set (wpBuckets p) \<Longrightarrow>
     spec_step p v (v\<lparr>vHeld := [], vOpen := (vOpen v)(b := vOpen v b @ [i]),
       vAccepted := (vAccepted v)(b := vAccepted v b @ [i])\<rparr>)"
| send: "b \<in> set (wpBuckets p) \<Longrightarrow> poisoned (vSched v) b = None \<Longrightarrow> vOpen v b = wpItems p bt \<Longrightarrow> wpGood p bt \<Longrightarrow>
     spec_step p v (v\<lparr>vOpen := (vOpen v)(b := []), vSched := enqueueBatch (wpLimit p) (wpBuckets p) b bt (vSched v)\<rparr>)"
| fail: "b \<in> set (wpBuckets p) \<Longrightarrow> poisoned (vSched v) b \<noteq> None \<Longrightarrow> map fst rs = map (wpFuture p) (vOpen v b) \<Longrightarrow>
     (\<forall>r \<in> snd ` set rs. wrErr r \<noteq> None) \<Longrightarrow> spec_step p v (vCompleteAll rs (v\<lparr>vOpen := (vOpen v)(b := [])\<rparr>))"
| finish: "(b, bt, sq) \<in> set (running (vSched v)) \<Longrightarrow>
     finishBatch (wpLimit p) (wpBuckets p) b err (vSched v) = (failed, sched) \<Longrightarrow>
     map fst rs = map (wpFuture p) (concat (map (wpItems p) (bt # failed))) \<Longrightarrow>
     (\<forall>r \<in> snd ` set rs. (wrErr r = None) = (err = None)) \<Longrightarrow>
     spec_step p v (vCompleteAll rs (v\<lparr>vSched := sched\<rparr>))"

section \<open>Futures\<close>

definition futuresOf :: "('i, 'b) writer_params \<Rightarrow> 'i list \<Rightarrow> nat multiset" where
  "futuresOf p items = mset (map (wpFuture p) items)"

lemma futuresOf_simps [simp]:
  "futuresOf p [] = {#}" "futuresOf p (i # is) = add_mset (wpFuture p i) (futuresOf p is)"
  "futuresOf p (is @ js) = futuresOf p is + futuresOf p js"
  by (simp_all add: futuresOf_def)

lemma futuresOf_remove1: "i \<in> set is \<Longrightarrow> futuresOf p is = add_mset (wpFuture p i) (futuresOf p (remove1 i is))"
  by (induction "is") auto

definition openFuturesOf :: "('i, 'b) writer_params \<Rightarrow> (int \<Rightarrow> 'i list) \<Rightarrow> nat multiset" where
  "openFuturesOf p f = (\<Sum>b \<in> set (wpBuckets p). futuresOf p (f b))"

definition coreFuturesOf :: "('i, 'b) writer_params \<Rightarrow> 'b scheduler \<Rightarrow> nat multiset" where
  "coreFuturesOf p l = \<Sum>\<^sub># (image_mset (futuresOf p \<circ> wpItems p) (inside (wpBuckets p) l))"

text \<open>The futures of every item on its way.\<close>

definition waiting :: "('i, 'b) writer_params \<Rightarrow> ('i, 'b) writer_view \<Rightarrow> nat multiset" where
  "waiting p v = futuresOf p (vHeld v) + futuresOf p (vEntering v) + futuresOf p (vQueued v)
     + openFuturesOf p (vOpen v) + coreFuturesOf p (vSched v)"

definition futures_inv :: "int \<Rightarrow> nat multiset \<Rightarrow> ('i, 'b) writer_view \<Rightarrow> bool" where
  "futures_inv cap M v \<longleftrightarrow>
     (\<forall>f. count M f = (if f < vNext v \<and> futData (vFutures v f) = None then 1 else 0))
     \<and> (\<forall>f \<in># M. futRelease (vFutures v f)) \<and> vSlots v = size M \<and> int (size M) \<le> cap"

lemma futures_inv_count:
  "futures_inv cap M v \<Longrightarrow> count M f = (if f < vNext v \<and> futData (vFutures v f) = None then 1 else 0)"
  by (simp add: futures_inv_def)

lemma futures_inv_next: "futures_inv cap M v \<Longrightarrow> vNext v \<notin># M"
  using futures_inv_count [of cap M v "vNext v"] by (simp add: count_eq_zero_iff [symmetric] del: count_eq_zero_iff)

lemma futures_inv_complete:
  assumes "futures_inv cap (add_mset f M) v"
  shows "futures_inv cap M (vComplete f r v)"
proof -
  note c = futures_inv_count [OF assms]
  have f: "f < vNext v" "futData (vFutures v f) = None" "count M f = 0" using c [of f] by (auto split: if_splits)
  have rel: "futRelease (vFutures v f)" using assms by (simp add: futures_inv_def)
  let ?F = "(vFutures v)(f := (vFutures v f)\<lparr>futData := Some r\<rparr>)"
  have v': "vComplete f r v = v\<lparr>vFutures := ?F, vSlots := vSlots v - 1\<rparr>"
    using f rel by (simp add: vComplete_def complete_def)
  have "count M g = (if g < vNext v \<and> futData (?F g) = None then 1 else 0)" for g
    using c [of g] f by (auto split: if_splits)
  moreover have "\<forall>g \<in># M. futRelease (?F g)" using assms rel by (auto simp: futures_inv_def)
  ultimately show ?thesis using assms by (simp add: futures_inv_def v')
qed

lemma futures_inv_completeAll:
  "futures_inv cap (mset (map fst rs) + M) v \<Longrightarrow> futures_inv cap M (vCompleteAll rs v)"
proof (induction rs arbitrary: v)
  case (Cons fr rs)
  then show ?case
    using futures_inv_complete [of cap "fst fr" "mset (map fst rs) + M" v "snd fr"]
    by (simp add: vCompleteAll_def split_beta)
qed (simp add: vCompleteAll_def)

lemma futures_inv_reject:
  assumes "futures_inv cap M v"
  shows "futures_inv cap M (vComplete (vNext v) r (vIssue False v))"
  using assms futures_inv_next [OF assms] futures_inv_count [OF assms]
  by (auto simp: futures_inv_def vIssue_def vComplete_def complete_def newWriteFuture_def less_Suc_eq)

lemma futures_inv_issue:
  assumes "futures_inv cap M v" "int (vSlots v) < cap"
  shows "futures_inv cap (add_mset (vNext v) M) (vIssue True v)"
  using assms futures_inv_next [OF assms(1)] futures_inv_count [OF assms(1)]
  by (auto simp: futures_inv_def vIssue_def newWriteFuture_def)

lemma futures_inv_cong:
  "vFutures v' = vFutures v \<Longrightarrow> vNext v' = vNext v \<Longrightarrow> vSlots v' = vSlots v \<Longrightarrow> futures_inv cap M v' = futures_inv cap M v"
  by (simp add: futures_inv_def)

lemma completeAll_frame [simp]:
  "vSched (vCompleteAll rs v) = vSched v" "vOpen (vCompleteAll rs v) = vOpen v" "vHeld (vCompleteAll rs v) = vHeld v"
  "vEntering (vCompleteAll rs v) = vEntering v" "vQueued (vCompleteAll rs v) = vQueued v"
  "vAccepted (vCompleteAll rs v) = vAccepted v" "vNext (vCompleteAll rs v) = vNext v"
  unfolding vCompleteAll_def
  by (induction rs arbitrary: v) (simp_all add: vComplete_def split_beta)

lemma complete_frame [simp]:
  "vSched (vComplete f r v) = vSched v" "vOpen (vComplete f r v) = vOpen v" "vHeld (vComplete f r v) = vHeld v"
  "vEntering (vComplete f r v) = vEntering v" "vQueued (vComplete f r v) = vQueued v"
  "vAccepted (vComplete f r v) = vAccepted v" "vNext (vComplete f r v) = vNext v"
  by (simp_all add: vComplete_def split_beta)

lemma issue_frame [simp]:
  "vSched (vIssue slot v) = vSched v" "vOpen (vIssue slot v) = vOpen v" "vHeld (vIssue slot v) = vHeld v"
  "vEntering (vIssue slot v) = vEntering v" "vQueued (vIssue slot v) = vQueued v"
  "vAccepted (vIssue slot v) = vAccepted v"
  by (simp_all add: vIssue_def)

section \<open>Items\<close>

text \<open>Order: what was sent, what waits and what is open is what was accepted, until the bucket fails.\<close>

definition order_ok :: "('i, 'b) writer_params \<Rightarrow> ('i, 'b) writer_view \<Rightarrow> bool" where
  "order_ok p v \<longleftrightarrow> (\<forall>b.
     if poisoned (vSched v) b = None
     then concat (map (wpItems p) (lineOf (vSched v) b)) @ vOpen v b = vAccepted v b
     else prefix (concat (map (wpItems p) (lineOf (vSched v) b))) (vAccepted v b))"

definition shape_ok :: "('i, 'b) writer_params \<Rightarrow> ('i, 'b) writer_view \<Rightarrow> bool" where
  "shape_ok p v \<longleftrightarrow> (\<forall>b. (\<forall>bt \<in> set (lineOf (vSched v) b). wpGood p bt) \<and> (b \<notin> set (wpBuckets p) \<longrightarrow> vOpen v b = []))"

definition spec_inv :: "('i, 'b) writer_params \<Rightarrow> ('i, 'b) writer_view \<Rightarrow> bool" where
  "spec_inv p v \<longleftrightarrow> sched_inv (wpLimit p) (wpBuckets p) (vSched v) \<and> futures_inv (wpCap p) (waiting p v) v
     \<and> order_ok p v \<and> shape_ok p v"

lemma spec_inv_newView: "0 \<le> wpLimit p \<Longrightarrow> 0 \<le> wpCap p \<Longrightarrow> spec_inv p newView"
  using sched_inv_newScheduler [of "wpLimit p" "wpBuckets p"]
  by (simp add: spec_inv_def newView_def futures_inv_def waiting_def openFuturesOf_def coreFuturesOf_def inside_def
      order_ok_def shape_ok_def lineOf_def sentOf_def requestsOf_def) (simp add: newScheduler_def)

lemma openFuturesOf_upd:
  assumes "b \<in> set (wpBuckets p)"
  shows "openFuturesOf p (f(b := xs)) + futuresOf p (f b) = openFuturesOf p f + futuresOf p xs"
proof -
  have "(\<Sum>c \<in> set (wpBuckets p) - {b}. futuresOf p ((f(b := xs)) c)) = (\<Sum>c \<in> set (wpBuckets p) - {b}. futuresOf p (f c))"
    by (intro sum.cong) auto
  then show ?thesis unfolding openFuturesOf_def using assms by (simp add: sum.remove [of _ b] ac_simps)
qed

lemma openFuturesOf_append:
  assumes "b \<in> set (wpBuckets p)"
  shows "openFuturesOf p (f(b := f b @ xs)) = openFuturesOf p f + futuresOf p xs"
  using openFuturesOf_upd [OF assms, of f "f b @ xs"] by simp

lemma openFuturesOf_clear:
  assumes "b \<in> set (wpBuckets p)"
  shows "openFuturesOf p f = openFuturesOf p (f(b := [])) + futuresOf p (f b)"
  using openFuturesOf_upd [OF assms, of f "[]"] by simp

text \<open>A step that leaves the core, the open batches and the history alone.\<close>

lemma spec_inv_queues:
  assumes "spec_inv p v" "vSched v' = vSched v" "vOpen v' = vOpen v" "vAccepted v' = vAccepted v"
    and "futures_inv (wpCap p) (waiting p v') v'"
  shows "spec_inv p v'"
  using assms by (simp add: spec_inv_def order_ok_def shape_ok_def)

lemma spec_inv_place:
  assumes "spec_inv p v" "vHeld v = [i]" "b \<in> set (wpBuckets p)"
  shows "spec_inv p (v\<lparr>vHeld := [], vOpen := (vOpen v)(b := vOpen v b @ [i]),
    vAccepted := (vAccepted v)(b := vAccepted v b @ [i])\<rparr>)" (is "spec_inv p ?v")
proof -
  have "waiting p ?v = waiting p v" using assms(2) by (simp add: waiting_def openFuturesOf_append [OF assms(3)] ac_simps)
  then have "futures_inv (wpCap p) (waiting p ?v) ?v" using assms(1) by (simp add: spec_inv_def futures_inv_def)
  moreover have "order_ok p ?v" using assms(1) by (auto simp: spec_inv_def order_ok_def)
  ultimately show ?thesis using assms(1,3) by (auto simp: spec_inv_def shape_ok_def)
qed

lemma spec_inv_send:
  assumes "spec_inv p v" "b \<in> set (wpBuckets p)" "poisoned (vSched v) b = None" "vOpen v b = wpItems p bt" "wpGood p bt"
  shows "spec_inv p (v\<lparr>vOpen := (vOpen v)(b := []),
    vSched := enqueueBatch (wpLimit p) (wpBuckets p) b bt (vSched v)\<rparr>)" (is "spec_inv p ?v")
proof -
  have "waiting p ?v = waiting p v"
    using openFuturesOf_clear [OF assms(2), of "vOpen v"] assms(4)
    by (simp add: waiting_def coreFuturesOf_def inside_enqueueBatch [OF assms(2)] ac_simps)
  then have "futures_inv (wpCap p) (waiting p ?v) ?v" using assms(1) by (simp add: spec_inv_def futures_inv_def)
  moreover have "concat (map (wpItems p) (lineOf (vSched v) b)) @ wpItems p bt = vAccepted v b"
    using assms(1,3,4) unfolding spec_inv_def order_ok_def by (metis (full_types))
  then have "order_ok p ?v" using assms(1,3) by (auto simp: spec_inv_def order_ok_def lineOf_enqueueBatch)
  moreover have "shape_ok p ?v" using assms(1,5) by (auto simp: spec_inv_def shape_ok_def lineOf_enqueueBatch)
  ultimately show ?thesis using assms(1-3) by (simp add: spec_inv_def sched_inv_enqueueBatch)
qed

lemma spec_inv_fail:
  assumes "spec_inv p v" "b \<in> set (wpBuckets p)" "poisoned (vSched v) b \<noteq> None" "map fst rs = map (wpFuture p) (vOpen v b)"
  shows "spec_inv p (vCompleteAll rs (v\<lparr>vOpen := (vOpen v)(b := [])\<rparr>))" (is "spec_inv p (vCompleteAll rs ?v)")
proof -
  have "waiting p v = mset (map fst rs) + waiting p ?v"
    using openFuturesOf_clear [OF assms(2), of "vOpen v"]
    by (simp add: waiting_def assms(4) futuresOf_def ac_simps)
  moreover have "futures_inv (wpCap p) (waiting p v) ?v" using assms(1) by (simp add: spec_inv_def futures_inv_def)
  ultimately have "futures_inv (wpCap p) (waiting p ?v) (vCompleteAll rs ?v)" by (simp add: futures_inv_completeAll)
  moreover have "waiting p (vCompleteAll rs ?v) = waiting p ?v" by (simp add: waiting_def)
  moreover have "order_ok p (vCompleteAll rs ?v)" using assms(1,3) by (auto simp: spec_inv_def order_ok_def)
  ultimately show ?thesis using assms(1) by (simp add: spec_inv_def shape_ok_def)
qed

lemma running_active: "sched_inv limit buckets l \<Longrightarrow> (b, bt, sq) \<in> set (running l) \<Longrightarrow> active l b"
  by (force simp: sched_inv_def core_inv_def running_ok_def)

lemma sentOf_prefix:
  assumes "order_ok p v"
  shows "prefix (concat (map (wpItems p) (sentOf (vSched v) b))) (vAccepted v b)"
proof -
  have "prefix (concat (map (wpItems p) (sentOf (vSched v) b))) (concat (map (wpItems p) (lineOf (vSched v) b)))"
    by (simp add: lineOf_def)
  moreover have "prefix (concat (map (wpItems p) (lineOf (vSched v) b))) (vAccepted v b)"
    using assms unfolding order_ok_def by (metis prefixI)
  ultimately show ?thesis by (rule prefix_order.trans)
qed

lemma spec_inv_finish:
  assumes "spec_inv p v" "(b, bt, sq) \<in> set (running (vSched v))"
    and "finishBatch (wpLimit p) (wpBuckets p) b err (vSched v) = (failed, sched)"
    and "map fst rs = map (wpFuture p) (concat (map (wpItems p) (bt # failed)))"
  shows "spec_inv p (vCompleteAll rs (v\<lparr>vSched := sched\<rparr>))" (is "spec_inv p (vCompleteAll rs ?v)")
proof -
  have si: "sched_inv (wpLimit p) (wpBuckets p) (vSched v)" and oi: "order_ok p v" using assms(1) by (simp_all add: spec_inv_def)
  then have core: "core_inv (wpLimit p) (wpBuckets p) (vSched v)" by (simp add: sched_inv_def)
  note act = running_active [OF si assms(2)]
  have unp: "poisoned (vSched v) b = None" using core act by (auto simp: core_inv_def work_ok_def)
  have f: "failed = fst (finishBatch (wpLimit p) (wpBuckets p) b err (vSched v))"
    "sched = snd (finishBatch (wpLimit p) (wpBuckets p) b err (vSched v))" using assms(3) by simp_all
  have batches: "\<Sum>\<^sub># (image_mset (futuresOf p \<circ> wpItems p) (mset bts)) = futuresOf p (concat (map (wpItems p) bts))" for bts
    by (induction bts) simp_all
  have "coreFuturesOf p (vSched v) = mset (map fst rs) + coreFuturesOf p sched"
    using inside_finishBatch [OF core assms(2), of err] batches [of failed]
    by (simp add: coreFuturesOf_def f [symmetric] assms(4)) (simp add: futuresOf_def)
  then have "waiting p v = mset (map fst rs) + waiting p ?v" by (simp add: waiting_def ac_simps)
  moreover have "futures_inv (wpCap p) (waiting p v) ?v" using assms(1) by (simp add: spec_inv_def futures_inv_def)
  ultimately have "futures_inv (wpCap p) (waiting p ?v) (vCompleteAll rs ?v)" by (simp add: futures_inv_completeAll)
  moreover have "waiting p (vCompleteAll rs ?v) = waiting p ?v" by (simp add: waiting_def)
  moreover have "order_ok p (vCompleteAll rs ?v)"
    using oi unp sentOf_prefix [OF oi, of b] unfolding order_ok_def f(2)
    by (auto simp: poisoned_finishBatch lineOf_finishBatch split: if_splits)
  moreover have "set (lineOf sched c) \<subseteq> set (lineOf (vSched v) c)" for c
    unfolding f(2) lineOf_finishBatch by (auto simp: lineOf_def)
  then have "shape_ok p (vCompleteAll rs ?v)" using assms(1) unfolding spec_inv_def shape_ok_def by auto
  ultimately show ?thesis using sched_inv_finishBatch [OF si act, of err] by (simp add: spec_inv_def f)
qed

lemma spec_inv_step: "spec_step p v v' \<Longrightarrow> spec_inv p v \<Longrightarrow> spec_inv p v'"
proof (induction rule: spec_step.induct)
  case (reject r v)
  then have "futures_inv (wpCap p) (waiting p v) (vComplete (vNext v) r (vIssue False v))"
    by (intro futures_inv_reject) (simp add: spec_inv_def)
  then show ?case by (intro spec_inv_queues [OF reject(2)]) (simp_all add: waiting_def)
next
  case (take i v)
  let ?v = "(vIssue True v)\<lparr>vEntering := vEntering v @ [i]\<rparr>"
  have "futures_inv (wpCap p) (add_mset (vNext v) (waiting p v)) (vIssue True v)"
    using take by (intro futures_inv_issue) (simp_all add: spec_inv_def)
  then have "futures_inv (wpCap p) (waiting p ?v) ?v"
    using take(1) by (simp add: waiting_def futures_inv_cong [of ?v "vIssue True v"])
  then show ?case by (rule spec_inv_queues [OF take(3), rotated 3]) simp_all
next
  case (refuse i v r)
  let ?v = "v\<lparr>vEntering := remove1 i (vEntering v)\<rparr>"
  have "futures_inv (wpCap p) (add_mset (wpFuture p i) (waiting p ?v)) ?v"
    using refuse(3) futuresOf_remove1 [OF refuse(1), of p] by (simp add: spec_inv_def waiting_def futures_inv_def)
  then have "futures_inv (wpCap p) (waiting p ?v) (vComplete (wpFuture p i) r ?v)" by (rule futures_inv_complete)
  then show ?case by (intro spec_inv_queues [OF refuse(3)]) (simp_all add: waiting_def)
next
  case (queue i v)
  then show ?case
    by (intro spec_inv_queues [OF queue(2)])
      (simp_all add: spec_inv_def waiting_def futures_inv_def futuresOf_remove1 [OF queue(1), of p])
next
  case (hold v i rest)
  then show ?case
    by (intro spec_inv_queues [OF hold(3)]) (simp_all add: spec_inv_def waiting_def futures_inv_def)
next
  case (drop v i r)
  let ?v = "v\<lparr>vHeld := []\<rparr>"
  have "futures_inv (wpCap p) (add_mset (wpFuture p i) (waiting p ?v)) ?v"
    using drop(1,3) by (simp add: spec_inv_def waiting_def futures_inv_def)
  then have "futures_inv (wpCap p) (waiting p ?v) (vComplete (wpFuture p i) r ?v)" by (rule futures_inv_complete)
  then show ?case by (intro spec_inv_queues [OF drop(3)]) (simp_all add: waiting_def)
qed (auto intro: spec_inv_place spec_inv_send spec_inv_fail spec_inv_finish)

lemma spec_inv_steps: "(spec_step p)\<^sup>*\<^sup>* v v' \<Longrightarrow> spec_inv p v \<Longrightarrow> spec_inv p v'"
  by (induction rule: rtranclp_induct) (auto intro: spec_inv_step)

text \<open>A step of the machine moves the core by at most one step of its own.\<close>

lemma spec_step_core:
  assumes "spec_step p v v'" "spec_inv p v"
  shows "(sched_step (wpLimit p) (wpBuckets p))\<^sup>*\<^sup>* (vSched v) (vSched v')"
  using assms
proof (induction rule: spec_step.induct)
  case (send b v bt)
  then show ?case by (auto intro: r_into_rtranclp sched_step.enqueue)
next
  case (finish b bt sq v err failed sched rs)
  then have "active (vSched v) b" by (intro running_active) (auto simp: spec_inv_def)
  from sched_step.finish [OF this] show ?case using finish(2) by (metis completeAll_frame(1) r_into_rtranclp snd_conv
        writer_view.select_convs(1) writer_view.surjective writer_view.update_convs(1))
qed simp_all

section \<open>Results\<close>

text \<open>A request that ends gives every item of its batch, and of the batches that fail with it, its result: the
  futures are all different and have none yet.\<close>

lemma vCompleteAll_other: "f \<notin> fst ` set rs \<Longrightarrow> vFutures (vCompleteAll rs v) f = vFutures v f"
  unfolding vCompleteAll_def
  by (induction rs arbitrary: v) (auto simp: vComplete_def split_beta)

lemma vCompleteAll_result:
  assumes "(f, r) \<in> set rs" "distinct (map fst rs)" "futData (vFutures v f) = None"
  shows "futData (vFutures (vCompleteAll rs v) f) = Some r"
  using assms
proof (induction rs arbitrary: v)
  case (Cons fr rs)
  let ?v = "vComplete (fst fr) (snd fr) v"
  have step: "vCompleteAll (fr # rs) v = vCompleteAll rs ?v" by (simp add: vCompleteAll_def split_beta)
  show ?case
  proof (cases "fr = (f, r)")
    case True
    then have "f \<notin> fst ` set rs" using Cons.prems(2) by auto
    then show ?thesis
      unfolding step using True Cons.prems(3) by (simp add: vCompleteAll_other) (simp add: vComplete_def complete_def)
  next
    case False
    then have "(f, r) \<in> set rs" "fst fr \<noteq> f" using Cons.prems(1,2) by (auto simp: image_iff)
    then show ?thesis unfolding step using Cons by (simp add: vComplete_def split_beta)
  qed
qed simp

lemma futuresOf_inside:
  assumes "spec_inv p v" "(b, bt, sq) \<in> set (running (vSched v))"
    and "finishBatch (wpLimit p) (wpBuckets p) b err (vSched v) = (failed, sched)"
  shows "distinct (map (wpFuture p) (concat (map (wpItems p) (bt # failed))))"
    "i \<in> set (concat (map (wpItems p) (bt # failed))) \<Longrightarrow> futData (vFutures v (wpFuture p i)) = None"
proof -
  let ?items = "concat (map (wpItems p) (bt # failed))"
  have batches: "\<Sum>\<^sub># (image_mset (futuresOf p \<circ> wpItems p) (mset bts)) = futuresOf p (concat (map (wpItems p) bts))" for bts
    by (induction bts) simp_all
  have "core_inv (wpLimit p) (wpBuckets p) (vSched v)" using assms(1) by (simp add: spec_inv_def sched_inv_def)
  from inside_finishBatch [OF this assms(2), of err]
  have sub: "futuresOf p ?items \<subseteq># waiting p v"
    using batches [of failed] by (simp add: waiting_def coreFuturesOf_def assms(3) subset_mset.add_increasing)
  have fi: "futures_inv (wpCap p) (waiting p v) v" using assms(1) by (simp add: spec_inv_def)
  have le: "count (futuresOf p ?items) f \<le> (if f < vNext v \<and> futData (vFutures v f) = None then 1 else 0)" for f
    using mset_subset_eq_count [OF sub, of f] unfolding futures_inv_count [OF fi, of f] .
  have "count (mset xs) f \<le> 1 \<Longrightarrow> count (mset xs) f = (if f \<in> set xs then 1 else 0)" for xs :: "nat list" and f
    by (auto simp: le_Suc_eq)
  moreover have "count (mset (map (wpFuture p) ?items)) f \<le> 1" for f
    using le [of f] by (simp add: futuresOf_def split: if_splits)
  ultimately show "distinct (map (wpFuture p) ?items)" unfolding distinct_count_atmost_1 by blast
  show "futData (vFutures v (wpFuture p i)) = None" if "i \<in> set ?items"
  proof -
    have "wpFuture p i \<in># futuresOf p ?items" using that by (auto simp: futuresOf_def)
    then have "0 < count (futuresOf p ?items) (wpFuture p i)" by (simp only: count_greater_zero_iff)
    from less_le_trans [OF this le] show ?thesis by (simp split: if_splits)
  qed
qed


section \<open>The interface of a refinement\<close>

text \<open>A writer refines the machine: its states have a view, a start state the empty one, and every step of
  the writer is a sequence of steps of the machine; \<open>inv\<close> is what the writer itself keeps for that.\<close>

locale writer_refinement =
  fixes p :: "('i, 'b) writer_params" and init :: "'s \<Rightarrow> bool" and step :: "'s \<Rightarrow> 's \<Rightarrow> bool"
    and inv :: "'s \<Rightarrow> bool" and view :: "'s \<Rightarrow> ('i, 'b) writer_view"
  assumes init_view: "init s \<Longrightarrow> view s = newView \<and> 0 \<le> wpLimit p \<and> 0 \<le> wpCap p \<and> inv s"
    and step_keeps: "step s s' \<Longrightarrow> inv s \<Longrightarrow> spec_inv p (view s) \<Longrightarrow> inv s'"
    and step_refines: "step s s' \<Longrightarrow> inv s \<Longrightarrow> spec_inv p (view s) \<Longrightarrow> (spec_step p)\<^sup>*\<^sup>* (view s) (view s')"
begin

lemma run_refines:
  assumes "step\<^sup>*\<^sup>* s s'" "init s"
  shows "(spec_step p)\<^sup>*\<^sup>* newView (view s') \<and> inv s' \<and> spec_inv p (view s')"
  using assms
proof (induction rule: rtranclp_induct)
  case base
  then show ?case using init_view [of s] spec_inv_newView [of p] by simp
next
  case (step y z)
  then have y: "(spec_step p)\<^sup>*\<^sup>* newView (view y)" "inv y" "spec_inv p (view y)" by simp_all
  have yz: "(spec_step p)\<^sup>*\<^sup>* (view y) (view z)" by (rule step_refines [OF step.hyps(2) y(2,3)])
  then show ?case
    using rtranclp_trans [OF y(1) yz] step_keeps [OF step.hyps(2) y(2,3)] spec_inv_steps [OF yz y(3)] by blast
qed

lemma run_conserves:
  assumes "step\<^sup>*\<^sup>* s s'" "init s"
  shows "(\<forall>f. count (waiting p (view s')) f = (if f < vNext (view s') \<and> futData (vFutures (view s') f) = None then 1 else 0))
    \<and> vSlots (view s') = size (waiting p (view s')) \<and> int (vSlots (view s')) \<le> wpCap p"
  using run_refines [OF assms] by (simp add: spec_inv_def futures_inv_def)

lemma run_order:
  assumes "step\<^sup>*\<^sup>* s s'" "init s"
  shows "prefix (concat (map (wpItems p) (sentOf (vSched (view s')) b))) (vAccepted (view s') b)
    \<and> (poisoned (vSched (view s')) b = None \<longrightarrow>
         concat (map (wpItems p) (sentOf (vSched (view s')) b)) @ concat (map (wpItems p) (pending (vSched (view s')) b))
           @ vOpen (view s') b = vAccepted (view s') b)"
proof -
  have o: "order_ok p (view s')" using run_refines [OF assms] by (simp add: spec_inv_def)
  then have "poisoned (vSched (view s')) b = None \<longrightarrow>
      concat (map (wpItems p) (lineOf (vSched (view s')) b)) @ vOpen (view s') b = vAccepted (view s') b"
    unfolding order_ok_def by metis
  with sentOf_prefix [OF o] show ?thesis by (simp add: lineOf_def)
qed

lemma run_good:
  assumes "step\<^sup>*\<^sup>* s s'" "init s" "(b, bt, sq) \<in> set (dispatched (vSched (view s')))"
  shows "wpGood p bt"
proof -
  have "bt \<in> set (lineOf (vSched (view s')) b)" using assms(3) by (force simp: lineOf_def sentOf_def requestsOf_def)
  then show ?thesis using run_refines [OF assms(1,2)] by (auto simp: spec_inv_def shape_ok_def)
qed

text \<open>With nothing held or open and no request in flight, only items that have not been taken wait.\<close>

lemma run_idle:
  assumes "step\<^sup>*\<^sup>* s s'" "init s" "vHeld (view s') = []" "\<forall>b. vOpen (view s') b = []"
    and "\<not> 0 < inFlight (vSched (view s'))" "0 < wpLimit p"
  shows "waiting p (view s') = futuresOf p (vEntering (view s')) + futuresOf p (vQueued (view s'))"
proof -
  have "inside (wpBuckets p) (vSched (view s')) = {#}"
    using run_refines [OF assms(1,2)] assms(5,6) by (intro inside_idle(1)) (auto simp: spec_inv_def)
  then show ?thesis using assms(3,4) by (simp add: waiting_def openFuturesOf_def coreFuturesOf_def)
qed

end

text \<open>A refinement of the machine is a loop over the scheduling core.\<close>

sublocale writer_refinement \<subseteq> loop: writer_loop "wpLimit p" "wpBuckets p" init step
  "\<lambda>s. inv s \<and> spec_inv p (view s)" "\<lambda>s. vSched (view s)"
proof unfold_locales
  fix s assume "init s"
  then show "vSched (view s) = newScheduler \<and> 0 \<le> wpLimit p \<and> inv s \<and> spec_inv p (view s)"
    using init_view [of s] spec_inv_newView [of p] by (simp add: newView_def)
next
  fix s s' assume "step s s'" "inv s \<and> spec_inv p (view s)"
  then show "inv s' \<and> spec_inv p (view s')"
    using step_keeps step_refines [of s s'] spec_inv_steps by blast
next
  fix s s' assume st: "step s s'" "inv s \<and> spec_inv p (view s)"
  have "(sched_step (wpLimit p) (wpBuckets p))\<^sup>*\<^sup>* (vSched v) (vSched v')"
    if "(spec_step p)\<^sup>*\<^sup>* v v'" "spec_inv p v" for v v'
    using that
  proof (induction rule: rtranclp_induct)
    case (step y z)
    then show ?case using spec_step_core [OF step.hyps(2) spec_inv_steps [OF step.hyps(1)]] by (meson rtranclp_trans)
  qed simp
  then show "(sched_step (wpLimit p) (wpBuckets p))\<^sup>*\<^sup>* (vSched (view s)) (vSched (view s'))"
    using step_refines [of s s'] st by blast
qed

end
