(* ===== verification/Upsert_Refinement.thy ===== *)
theory Upsert_Refinement
  imports Upsert_Writer Writer_Spec
begin

text \<open>
  The upsert writer refines the abstract batching writer: dispatch with throttling moves the scheduling core
  as dispatch without, every operation of the loop is a sequence of moves of the abstract machine, and so is
  every step of the writer. The batches it sends hold mutations of one set of target columns.
\<close>

section \<open>Throttling does not change the schedule\<close>

lemma kvDispatch_sched: "kcSched (kvDispatch limit clock buckets c) = dispatch limit buckets (kcSched c)"
proof (induction limit clock buckets c rule: kvDispatch.induct)
  case (1 limit clock buckets c)
  obtain started c' where p: "kvDispatchPass limit clock buckets False c = (started, c')"
    by (cases "kvDispatchPass limit clock buckets False c")
  then have d: "dispatchPass limit buckets False (kcSched c) = (started, kcSched c')"
    using kvDispatchPass_sched [of limit buckets False c clock] by simp
  show ?case
    using "1.IH" p d by (subst kvDispatch.simps, subst dispatch.simps) auto
qed

lemma kvFinish_sched:
  "finishBatch (ucMaxConcurrentRequests (uwConfig w)) (uwBuckets w) b err (kcSched c) =
     (fst (kvFinish w clock now b err pr known c), kcSched (snd (kvFinish w clock now b err pr known c)))"
  by (cases err) (simp_all add: finishBatch_def kvFinish_def Let_def kvDispatch_sched)

section \<open>The view\<close>

definition openKV :: "upsert_state \<Rightarrow> int \<Rightarrow> pending_kv_write list" where
  "openKV s b = (case usBatches s b of None \<Rightarrow> [] | Some bt \<Rightarrow> kbItems bt)"

lemma openKV_upd [simp]:
  "openKV (s\<lparr>usEntering := x1\<rparr>) = openKV s" "openKV (s\<lparr>usCommands := x2\<rparr>) = openKV s"
  "openKV (s\<lparr>usMode := x3\<rparr>) = openKV s" "openKV (s\<lparr>usTimer := x4\<rparr>) = openKV s"
  "openKV (s\<lparr>usFutures := x5\<rparr>) = openKV s" "openKV (s\<lparr>usSlots := x6\<rparr>) = openKV s"
  "openKV (s\<lparr>usNext := x7\<rparr>) = openKV s" "openKV (s\<lparr>usCore := x8\<rparr>) = openKV s"
  "openKV (s\<lparr>usClosed := x9\<rparr>) = openKV s" "openKV (s\<lparr>usCloseErr := x10\<rparr>) = openKV s"
  by (simp_all add: openKV_def fun_eq_iff)

definition kvItemsOf :: "upsert_command list \<Rightarrow> pending_kv_write list" where
  "kvItemsOf cs = List.map_filter (\<lambda>c. case c of UCmdItem i \<Rightarrow> Some i | _ \<Rightarrow> None) cs"

lemma kvItemsOf_simps [simp]:
  "kvItemsOf [] = []" "kvItemsOf (UCmdItem i # cs) = i # kvItemsOf cs" "kvItemsOf (UCmdFlush # cs) = kvItemsOf cs"
  "kvItemsOf (UCmdClose # cs) = kvItemsOf cs" "kvItemsOf (cs @ cs') = kvItemsOf cs @ kvItemsOf cs'"
  by (simp_all add: kvItemsOf_def List.map_filter_def)

definition kvView :: "pending_kv_write list \<Rightarrow> upsert_state \<Rightarrow> (pending_kv_write, kv_pending_batch) writer_view" where
  "kvView held s = \<lparr>vSched = usSched s, vOpen = openKV s, vHeld = held, vEntering = usEntering s,
     vQueued = kvItemsOf (usCommands s), vFutures = usFutures s, vNext = usNext s, vSlots = usSlots s,
     vAccepted = usAccepted s\<rparr>"

text \<open>A batch the writer may send.\<close>

definition kv_batch_ok :: "upsert_static \<Rightarrow> kv_pending_batch \<Rightarrow> bool" where
  "kv_batch_ok w bt \<longleftrightarrow> kbRecords bt = map kwRecord (kbItems bt) \<and> kbBytes bt = sum_list (map kwSize (kbItems bt))
     \<and> (\<forall>i \<in> set (kbItems bt). kwTargets i = kbTargets bt)
     \<and> int (length (kbItems bt)) \<le> ucMaxBatchRecords (uwConfig w)
     \<and> (kbBytes bt \<le> ucMaxBatchBytes (uwConfig w) \<or> length (kbItems bt) \<le> 1)"

definition upsertParams :: "upsert_static \<Rightarrow> (pending_kv_write, kv_pending_batch) writer_params" where
  "upsertParams w = \<lparr>wpLimit = ucMaxConcurrentRequests (uwConfig w), wpBuckets = uwBuckets w,
     wpCap = ucMaxBuffered (uwConfig w), wpItems = kbItems, wpFuture = kwFuture, wpGood = kv_batch_ok w\<rparr>"

lemma upsertParams_simps [simp]:
  "wpLimit (upsertParams w) = ucMaxConcurrentRequests (uwConfig w)" "wpBuckets (upsertParams w) = uwBuckets w"
  "wpCap (upsertParams w) = ucMaxBuffered (uwConfig w)" "wpItems (upsertParams w) = kbItems"
  "wpFuture (upsertParams w) = kwFuture" "wpGood (upsertParams w) = kv_batch_ok w"
  by (simp_all add: upsertParams_def)

lemma kvView_simps [simp]:
  "vSched (kvView h s) = usSched s" "vOpen (kvView h s) = openKV s" "vHeld (kvView h s) = h"
  "vEntering (kvView h s) = usEntering s" "vQueued (kvView h s) = kvItemsOf (usCommands s)"
  "vFutures (kvView h s) = usFutures s" "vNext (kvView h s) = usNext s" "vSlots (kvView h s) = usSlots s"
  "vAccepted (kvView h s) = usAccepted s"
  by (simp_all add: kvView_def)

lemma kvView_upd [simp]:
  "kvView h (s\<lparr>usMode := m\<rparr>) = kvView h s" "kvView h (s\<lparr>usTimer := t\<rparr>) = kvView h s"
  "kvView h (s\<lparr>usClosed := c\<rparr>) = kvView h s" "kvView h (s\<lparr>usCloseErr := e\<rparr>) = kvView h s"
  by (simp_all add: kvView_def)

lemma kvView_complete: "kvView h (completeKV f r s) = vComplete f r (kvView h s)"
  by (simp add: kvView_def completeKV_def vComplete_def split_beta)

lemma kvView_completeAll: "kvView h (completeAllKV rs s) = vCompleteAll rs (kvView h s)"
  unfolding completeAllKV_def vCompleteAll_def
  by (induction rs arbitrary: s) (simp_all add: kvView_complete split_beta)

lemma kvView_failBatches:
  "kvView h (failKVBatches bts b s) =
     vCompleteAll (concat (map (\<lambda>bt. kvResults bt b 0 False 0 False (Some ErrWriterState)) bts)) (kvView h s)"
  unfolding failKVBatches_def
  by (induction bts arbitrary: s) (simp_all add: completeKVBatch_def kvView_completeAll vCompleteAll_def)

lemma kvResults_futures: "map fst (kvResults bt b e known pr prKnown err) = map kwFuture (kbItems bt)"
proof -
  have "map fst (kvResults bt b e known pr prKnown err)
      = map kwFuture (map snd (zip [0..<length (kbItems bt)] (kbItems bt)))"
    unfolding map_map by (simp add: kvResults_def Let_def split_beta)
  then show ?thesis by (simp only: map_snd_zip length_upt diff_zero)
qed

lemma kvResults_err: "r \<in> snd ` set (kvResults bt b e known pr prKnown err) \<Longrightarrow> wrErr r = err"
  by (auto simp: kvResults_def Let_def)

section \<open>Frames\<close>

lemma completeKV_frame [simp]:
  "usBatches (completeKV f r s) = usBatches s" "usCore (completeKV f r s) = usCore s"
  "usEntering (completeKV f r s) = usEntering s" "usCommands (completeKV f r s) = usCommands s"
  "usClosed (completeKV f r s) = usClosed s" "usMode (completeKV f r s) = usMode s"
  by (simp_all add: completeKV_def split_beta)

lemma completeAllKV_frame [simp]:
  "usBatches (completeAllKV rs s) = usBatches s" "usCore (completeAllKV rs s) = usCore s"
  "usEntering (completeAllKV rs s) = usEntering s" "usCommands (completeAllKV rs s) = usCommands s"
  "usClosed (completeAllKV rs s) = usClosed s" "usMode (completeAllKV rs s) = usMode s"
  unfolding completeAllKV_def by (induction rs arbitrary: s) (simp_all add: split_beta)

lemma failKVBatches_frame [simp]:
  "usBatches (failKVBatches bts b s) = usBatches s" "usCore (failKVBatches bts b s) = usCore s"
  "usEntering (failKVBatches bts b s) = usEntering s" "usCommands (failKVBatches bts b s) = usCommands s"
  "usClosed (failKVBatches bts b s) = usClosed s" "usMode (failKVBatches bts b s) = usMode s"
  unfolding failKVBatches_def by (induction bts arbitrary: s) (simp_all add: completeKVBatch_def)

lemma flushKVBucket_frame [simp]:
  "usEntering (snd (flushKVBucket w clock b s)) = usEntering s" "usCommands (snd (flushKVBucket w clock b s)) = usCommands s"
  "usClosed (snd (flushKVBucket w clock b s)) = usClosed s" "usMode (snd (flushKVBucket w clock b s)) = usMode s"
  by (simp_all add: flushKVBucket_def Let_def completeKVBatch_def split: option.split)

lemma flushKVBucket_batches:
  "usBatches (snd (flushKVBucket w clock b s)) =
     (if openKV s b = [] then usBatches s else (usBatches s)(b := None))"
  by (auto simp: flushKVBucket_def Let_def completeKVBatch_def openKV_def split: option.split)

lemma openKV_flush: "openKV (snd (flushKVBucket w clock b s)) c = (if c = b then [] else openKV s c)"
  using flushKVBucket_batches [of w clock b s] by (auto simp: openKV_def)

section \<open>Operations of the loop\<close>

definition batches_good :: "upsert_static \<Rightarrow> upsert_state \<Rightarrow> bool" where
  "batches_good w s \<longleftrightarrow> (\<forall>b bt. usBatches s b = Some bt \<longrightarrow> b \<in> set (uwBuckets w) \<and> kv_batch_ok w bt)"

abbreviation kv_steps :: "upsert_static \<Rightarrow> (pending_kv_write, kv_pending_batch) writer_view \<Rightarrow>
    (pending_kv_write, kv_pending_batch) writer_view \<Rightarrow> bool" where
  "kv_steps w \<equiv> (spec_step (upsertParams w))\<^sup>*\<^sup>*"

lemma flushKVBucket_refines:
  assumes "batches_good w s"
  shows "kv_steps w (kvView h s) (kvView h (snd (flushKVBucket w clock b s)))"
proof (cases "openKV s b = []")
  case True
  then have "snd (flushKVBucket w clock b s) = s" by (auto simp: flushKVBucket_def openKV_def split: option.splits)
  then show ?thesis by simp
next
  case False
  then obtain bt where bt: "usBatches s b = Some bt" "kbItems bt \<noteq> []" "openKV s b = kbItems bt"
    by (auto simp: openKV_def split: option.splits)
  have b: "b \<in> set (uwBuckets w)" "kv_batch_ok w bt" using assms bt(1) by (auto simp: batches_good_def)
  let ?t = "s\<lparr>usBatches := (usBatches s)(b := None)\<rparr>"
  have t: "kvView h ?t = (kvView h s)\<lparr>vOpen := (vOpen (kvView h s))(b := [])\<rparr>"
    by (simp add: kvView_def openKV_def fun_eq_iff)
  show ?thesis
  proof (cases "poisoned (usSched s) b = None")
    case True
    let ?l = "usSched s" and ?limit = "ucMaxConcurrentRequests (uwConfig w)"
    let ?core = "kvDispatch ?limit clock (uwBuckets w)
      ((usCore s)\<lparr>kcSched := ?l\<lparr>pending := (pending ?l)(b := pending ?l b @ [bt])\<rparr>\<rparr>)"
    have s: "snd (flushKVBucket w clock b s) = ?t\<lparr>usCore := ?core\<rparr>"
      using bt True by (simp add: flushKVBucket_def Let_def)
    have "kcSched ?core = enqueueBatch ?limit (uwBuckets w) b bt ?l"
      by (simp add: kvDispatch_sched enqueueBatch_def)
    then have "kvView h (?t\<lparr>usCore := ?core\<rparr>) =
        (kvView h ?t)\<lparr>vSched := enqueueBatch ?limit (uwBuckets w) b bt ?l\<rparr>"
      by (simp add: kvView_def openKV_def fun_eq_iff)
    then show ?thesis
      using spec_step.send [of b "upsertParams w" "kvView h s" bt] b bt(3) True by (simp add: s t r_into_rtranclp)
  next
    case False
    let ?rs = "kvResults bt b 0 False 0 False (Some ErrWriterState)"
    have s: "snd (flushKVBucket w clock b s) = completeAllKV ?rs ?t"
      using bt False by (simp add: flushKVBucket_def Let_def completeKVBatch_def)
    have "spec_step (upsertParams w) (kvView h s) (vCompleteAll ?rs ((kvView h s)\<lparr>vOpen := (vOpen (kvView h s))(b := [])\<rparr>))"
      using b(1) bt(3) False by (intro spec_step.fail) (auto simp: kvResults_futures kvResults_err)
    then show ?thesis by (simp add: s kvView_completeAll t r_into_rtranclp)
  qed
qed

lemma batches_good_flush: "batches_good w s \<Longrightarrow> batches_good w (snd (flushKVBucket w clock b s))"
  by (simp add: batches_good_def flushKVBucket_batches)

lemma newKVBatch_refines:
  assumes "openKV s (kwBucket item) = []"
  shows "kvView h (snd (newKVBatch item s)) = kvView h s"
  using assms by (auto simp: newKVBatch_def Let_def kvView_def openKV_def fun_eq_iff split: option.splits)

lemma targetKey_inject: "targetKey xs = targetKey ys \<longleftrightarrow> xs = ys"
proof
  show "targetKey xs = targetKey ys \<Longrightarrow> xs = ys"
  proof (induction xs arbitrary: ys)
    case Nil
    then show ?case by (cases ys) (auto simp: targetKey_def)
  next
    case (Cons x xs)
    then obtain y ys' where ys: "ys = y # ys'" by (cases ys) (auto simp: targetKey_def)
    have "FormatInt x @ CHR '','' # targetKey xs = FormatInt y @ CHR '','' # targetKey ys'"
      using Cons.prems by (simp add: targetKey_def ys)
    then have "FormatInt x = FormatInt y \<and> targetKey xs = targetKey ys'"
      by (rule separated_inject) (rule FormatInt_no; simp)+
    then show ?case using Cons.IH by (simp add: ys FormatInt_inject)
  qed
qed simp

text \<open>A batch that is ready for an item, after its moves.\<close>

definition kv_ready :: "upsert_static \<Rightarrow> pending_kv_write list \<Rightarrow> upsert_state \<Rightarrow> pending_kv_write \<Rightarrow>
  kv_pending_batch \<times> upsert_state \<Rightarrow> bool" where
  "kv_ready w h s item r \<longleftrightarrow> (case r of (bt, s') \<Rightarrow>
     kv_steps w (kvView h s) (kvView h s') \<and> batches_good w s' \<and> usBatches s' (kwBucket item) = Some bt
     \<and> kbTargets bt = kwTargets item \<and> usCommands s' = usCommands s \<and> usEntering s' = usEntering s
     \<and> usClosed s' = usClosed s \<and> usMode s' = usMode s)"

lemma newKVBatch_ready:
  assumes "batches_good w s" "kwBucket item \<in> set (uwBuckets w)" "validUpsertStatic w"
  shows "kv_ready w h s item (newKVBatch item (snd (flushKVBucket w clock (kwBucket item) s)))"
proof -
  let ?s = "snd (flushKVBucket w clock (kwBucket item) s)"
  have "kv_batch_ok w \<lparr>kbItems = [], kbRecords = [], kbTargets = kwTargets item, kbBytes = 0\<rparr>"
    using assms(3) by (simp add: kv_batch_ok_def validUpsertStatic_def validUpsertConfig_def)
  then have "batches_good w (snd (newKVBatch item ?s))"
    using batches_good_flush [OF assms(1), of clock "kwBucket item"] assms(2)
    by (auto simp: batches_good_def newKVBatch_def Let_def)
  moreover have "kvView h (snd (newKVBatch item ?s)) = kvView h ?s" by (rule newKVBatch_refines) (simp add: openKV_flush)
  ultimately show ?thesis
    using flushKVBucket_refines [OF assms(1), of h clock "kwBucket item"]
    by (simp add: kv_ready_def newKVBatch_def Let_def)
qed

lemma flushKVBucket_none: "usBatches s b = None \<Longrightarrow> snd (flushKVBucket w clock b s) = s"
  by (simp add: flushKVBucket_def)

lemma compatibleBatch_ready:
  assumes "batches_good w s" "kwBucket item \<in> set (uwBuckets w)" "validUpsertStatic w"
  shows "kv_ready w h s item (compatibleBatch w clock item s)"
proof (cases "usBatches s (kwBucket item)")
  case None
  then show ?thesis
    using newKVBatch_ready [OF assms, of h clock] flushKVBucket_none [OF None, of w clock]
    by (simp add: compatibleBatch_def)
next
  case (Some bt)
  then show ?thesis
    using newKVBatch_ready [OF assms, of h clock] assms(1)
    by (auto simp: compatibleBatch_def kv_ready_def targetKey_inject)
qed

lemma kv_batch_add:
  assumes "kv_batch_ok w bt" "kbTargets bt = kwTargets item" "kbItems bt = [] \<or> \<not> kvBatchFullWith w bt item"
    and "validUpsertStatic w"
  shows "kv_batch_ok w (bt\<lparr>kbItems := kbItems bt @ [item], kbRecords := kbRecords bt @ [kwRecord item],
    kbBytes := kbBytes bt + kwSize item\<rparr>)"
  using assms by (auto simp: kv_batch_ok_def kvBatchFullWith_def validUpsertStatic_def validUpsertConfig_def)

text \<open>What an operation of the loop keeps of the queues and the mode.\<close>

definition kv_op :: "upsert_static \<Rightarrow> pending_kv_write list \<Rightarrow> pending_kv_write list \<Rightarrow> upsert_state \<Rightarrow> upsert_state \<Rightarrow> bool" where
  "kv_op w h h' s s' \<longleftrightarrow> kv_steps w (kvView h s) (kvView h' s') \<and> batches_good w s'
     \<and> usCommands s' = usCommands s \<and> usEntering s' = usEntering s \<and> usClosed s' = usClosed s \<and> usMode s' = usMode s"

lemma kv_op_flush: "batches_good w s \<Longrightarrow> kv_op w h h s (snd (flushKVBucket w clock b s))"
  by (simp add: kv_op_def flushKVBucket_refines batches_good_flush)

lemma kv_op_trans: "kv_op w h h' s s' \<Longrightarrow> kv_op w h' h'' s' s'' \<Longrightarrow> kv_op w h h'' s s''"
  by (auto simp: kv_op_def intro: rtranclp_trans)

lemma kv_op_put:
  assumes "batches_good w s" "usBatches s (kwBucket item) = Some bt" "kbTargets bt = kwTargets item"
    and "kbItems bt = [] \<or> \<not> kvBatchFullWith w bt item" "kwBucket item \<in> set (uwBuckets w)" "validUpsertStatic w"
  shows "kv_op w [item] [] s (putKV (bt\<lparr>kbItems := kbItems bt @ [item], kbRecords := kbRecords bt @ [kwRecord item],
    kbBytes := kbBytes bt + kwSize item\<rparr>) item s)" (is "kv_op w _ _ s ?s")
proof -
  let ?b = "kwBucket item"
  have "spec_step (upsertParams w) (kvView [item] s) ((kvView [item] s)\<lparr>vHeld := [],
      vOpen := (vOpen (kvView [item] s))(?b := vOpen (kvView [item] s) ?b @ [item]),
      vAccepted := (vAccepted (kvView [item] s))(?b := vAccepted (kvView [item] s) ?b @ [item])\<rparr>)"
    using assms(5) by (intro spec_step.place) simp_all
  also have "\<dots> = kvView [] ?s"
    using assms(2) by (simp add: kvView_def putKV_def) (simp add: openKV_def fun_eq_iff)
  finally have "kv_steps w (kvView [item] s) (kvView [] ?s)" by (rule r_into_rtranclp)
  moreover have "kv_batch_ok w bt" using assms(1,2) by (auto simp: batches_good_def)
  then have "batches_good w ?s" using kv_batch_add [OF _ assms(3,4,6)] assms(1,5) by (auto simp: batches_good_def putKV_def)
  ultimately show ?thesis by (simp add: kv_op_def putKV_def)
qed

lemma kv_op_drop: "batches_good w s \<Longrightarrow> kv_op w [item] [] s (completeKV (kwFuture item) (errorResult e) s)"
proof -
  assume g: "batches_good w s"
  have "spec_step (upsertParams w) (kvView [item] s)
      (vComplete (wpFuture (upsertParams w) item) (errorResult e) ((kvView [item] s)\<lparr>vHeld := []\<rparr>))"
    by (intro spec_step.drop) (simp_all add: errorResult_def)
  moreover have "(kvView [item] s)\<lparr>vHeld := []\<rparr> = kvView [] s" by (simp add: kvView_def)
  ultimately have "kv_steps w (kvView [item] s) (kvView [] (completeKV (kwFuture item) (errorResult e) s))"
    by (simp add: kvView_complete r_into_rtranclp)
  then show ?thesis using g by (simp add: kv_op_def batches_good_def)
qed

lemma kv_op_arm: "batches_good w s \<Longrightarrow> kv_op w h h s (armKVTimer w s)"
proof -
  assume g: "batches_good w s"
  have "openKV (armKVTimer w s) = openKV s" by (simp add: openKV_def armKVTimer_def fun_eq_iff)
  then have "kvView h (armKVTimer w s) = kvView h s" by (simp add: kvView_def) (simp add: armKVTimer_def)
  then show ?thesis using g by (simp add: kv_op_def) (simp add: armKVTimer_def batches_good_def)
qed

lemma addKV_refines:
  assumes "batches_good w s" "kwBucket item \<in> set (uwBuckets w)" "validUpsertStatic w"
  shows "kv_op w [item] [] s (addKV w clock ctxErr item s)"
proof (cases ctxErr)
  case (Some e)
  then show ?thesis using kv_op_drop [OF assms(1)] by (simp add: addKV_def)
next
  case None
  obtain bt1 s1 where c1: "compatibleBatch w clock item s = (bt1, s1)" by (cases "compatibleBatch w clock item s")
  have r1: "kv_ready w [item] s item (bt1, s1)" using compatibleBatch_ready [OF assms, of "[item]" clock] by (simp add: c1)
  define bs where "bs = (if kbItems bt1 \<noteq> [] \<and> kvBatchFullWith w bt1 item
    then newKVBatch item (snd (flushKVBucket w clock (kwBucket item) s1)) else (bt1, s1))"
  obtain bt s2 where bs2: "bs = (bt, s2)" by (cases bs)
  have "kv_ready w [item] s1 item bs" if "kbItems bt1 \<noteq> [] \<and> kvBatchFullWith w bt1 item"
    using that newKVBatch_ready [OF _ assms(2,3), of s1 "[item]" clock] r1 by (simp add: bs_def kv_ready_def)
  then have r2: "kv_ready w [item] s item bs"
    using r1 by (auto simp: bs_def kv_ready_def intro: rtranclp_trans)
  have full: "kbItems bt = [] \<or> \<not> kvBatchFullWith w bt item"
    using bs2 by (auto simp: bs_def newKVBatch_def Let_def split: if_splits)
  let ?bt = "bt\<lparr>kbItems := kbItems bt @ [item], kbRecords := kbRecords bt @ [kwRecord item], kbBytes := kbBytes bt + kwSize item\<rparr>"
  let ?s3 = "putKV ?bt item s2"
  have ready: "kv_op w [item] [item] s s2" "usBatches s2 (kwBucket item) = Some bt" "kbTargets bt = kwTargets item" "batches_good w s2"
    using r2 by (simp_all add: bs2 kv_ready_def kv_op_def)
  have put: "kv_op w [item] [] s ?s3"
    by (rule kv_op_trans [OF ready(1) kv_op_put [OF ready(4,2,3) full assms(2,3)]])
  then have "batches_good w ?s3" by (simp add: kv_op_def)
  then have "kv_op w [item] [] s (snd (flushKVBucket w clock (kwBucket item) ?s3))" "kv_op w [item] [] s (armKVTimer w ?s3)"
    using kv_op_trans [OF put kv_op_flush] kv_op_trans [OF put kv_op_arm] by auto
  moreover have "addKV w clock ctxErr item s =
      (if kvBatchFull w ?bt \<or> ucBatchTimeout (uwConfig w) = 0
       then snd (flushKVBucket w clock (kwBucket item) ?s3) else armKVTimer w ?s3)"
    using None c1 bs2 by (simp add: addKV_def bs_def [symmetric] Let_def)
  ultimately show ?thesis by simp
qed

lemma queueKVBuckets_refines:
  assumes "batches_good w s" "queueKVBuckets w clock bs joined s = (err, s')"
  shows "kv_op w h h s s' \<and> (\<forall>b. openKV s' b = (if b \<in> set bs then [] else openKV s b))"
  using assms
proof (induction bs arbitrary: joined s)
  case Nil
  then show ?case by (simp add: kv_op_def)
next
  case (Cons b bs)
  let ?s = "snd (flushKVBucket w clock b s)"
  have q: "queueKVBuckets w clock bs (joinErr joined (fst (flushKVBucket w clock b s))) ?s = (err, s')"
    using Cons.prems(2) by (simp add: Let_def split_beta)
  note ih = Cons.IH [OF batches_good_flush [OF Cons.prems(1)] q]
  show ?case
    using ih kv_op_trans [OF kv_op_flush [OF Cons.prems(1)]] by (auto simp: openKV_flush)
qed

lemma queueAllKV_refines:
  assumes "batches_good w s" "queueAllKV w clock s = (err, s')"
  shows "kv_op w h h s s'" "openKV s' b = []"
proof -
  have g: "batches_good w (stopKVTimer s)" using assms(1) by (simp add: batches_good_def stopKVTimer_def)
  have "openKV (stopKVTimer s) = openKV s" by (simp add: openKV_def stopKVTimer_def fun_eq_iff)
  then have v: "kvView h (stopKVTimer s) = kvView h s" by (simp add: kvView_def) (simp add: stopKVTimer_def)
  have q: "queueKVBuckets w clock (uwBuckets w) None (stopKVTimer s) = (err, s')" using assms(2) by (simp add: queueAllKV_def)
  note r = queueKVBuckets_refines [OF g q, of h]
  then show op: "kv_op w h h s s'" by (simp add: kv_op_def v) (simp add: stopKVTimer_def)
  show "openKV s' b = []"
  proof (cases "b \<in> set (uwBuckets w)")
    case True
    then show ?thesis using r by simp
  next
    case False
    then show ?thesis using op by (auto simp: kv_op_def batches_good_def openKV_def split: option.split)
  qed
qed

lemma handleKVCompletion_frame [simp]:
  "usBatches (handleKVCompletion w clock now cp s) = usBatches s"
  "usEntering (handleKVCompletion w clock now cp s) = usEntering s"
  "usCommands (handleKVCompletion w clock now cp s) = usCommands s"
  "usClosed (handleKVCompletion w clock now cp s) = usClosed s"
  "usMode (handleKVCompletion w clock now cp s) = usMode s"
  "usCore (handleKVCompletion w clock now cp s) =
     snd (kvFinish w clock now (kpBucket cp) (kpErr cp) (kpPressure cp) (kpPressureKnown cp) (usCore s))"
  by (simp_all add: handleKVCompletion_def Let_def split_beta completeKVBatch_def split: option.split)

text \<open>The results that handling a completion gives out, with the batches that fail with it.\<close>

definition completionResults :: "kv_completion \<Rightarrow> kv_pending_batch list \<Rightarrow> (nat \<times> write_result) list" where
  "completionResults cp failed =
     (case kpErr cp of
        Some e \<Rightarrow> kvResults (kpBatch cp) (kpBucket cp) 0 False 0 False (Some e)
          @ concat (map (\<lambda>bt. kvResults bt (kpBucket cp) 0 False 0 False (Some ErrWriterState)) failed)
      | None \<Rightarrow> kvResults (kpBatch cp) (kpBucket cp) (kpLogEnd cp) (kpOffsetKnown cp) (kpPressure cp) (kpPressureKnown cp) None)"

lemma completionResults_futures:
  assumes "kpErr cp = None \<Longrightarrow> failed = []"
  shows "map fst (completionResults cp failed) = map kwFuture (concat (map kbItems (kpBatch cp # failed)))"
  using assms by (cases "kpErr cp") (simp_all add: completionResults_def kvResults_futures map_concat comp_def)

lemma completionResults_err:
  assumes "r \<in> snd ` set (completionResults cp failed)"
  shows "(wrErr r = None) = (kpErr cp = None)"
  using assms by (cases "kpErr cp") (auto simp: completionResults_def dest: kvResults_err [OF imageI, unfolded snd_conv])

lemma handleKVCompletion_view:
  assumes "kvFinish w clock now (kpBucket cp) (kpErr cp) (kpPressure cp) (kpPressureKnown cp) (usCore s) = (failed, core)"
  shows "kvView h (handleKVCompletion w clock now cp s) =
    vCompleteAll (completionResults cp failed) ((kvView h s)\<lparr>vSched := kcSched core\<rparr>)"
proof -
  have v: "kvView h (s\<lparr>usCore := core\<rparr>) = (kvView h s)\<lparr>vSched := kcSched core\<rparr>" by (simp add: kvView_def)
  show ?thesis
    using assms by (cases "kpErr cp") (simp_all add: handleKVCompletion_def completionResults_def completeKVBatch_def
        kvView_completeAll kvView_failBatches vCompleteAll_def v)
qed

lemma handleKVCompletion_refines:
  assumes "(b, bt, sq) \<in> set (running (usSched s))" "kpBucket cp = b" "kpBatch cp = bt" "batches_good w s"
  shows "kv_op w h h s (handleKVCompletion w clock now cp s)"
proof -
  obtain failed core where f: "kvFinish w clock now b (kpErr cp) (kpPressure cp) (kpPressureKnown cp) (usCore s) = (failed, core)"
    by (cases "kvFinish w clock now b (kpErr cp) (kpPressure cp) (kpPressureKnown cp) (usCore s)")
  have none: "failed = []" if "kpErr cp = None" using f that by (auto simp: kvFinish_def Let_def)
  have "spec_step (upsertParams w) (kvView h s)
      (vCompleteAll (completionResults cp failed) ((kvView h s)\<lparr>vSched := kcSched core\<rparr>))"
  proof (rule spec_step.finish)
    show "(b, bt, sq) \<in> set (running (vSched (kvView h s)))" using assms(1) by simp
    show "finishBatch (wpLimit (upsertParams w)) (wpBuckets (upsertParams w)) b (kpErr cp) (vSched (kvView h s))
        = (failed, kcSched core)"
      unfolding kvView_simps upsertParams_simps
        kvFinish_sched [of w b "kpErr cp" "usCore s" clock now "kpPressure cp" "kpPressureKnown cp"] f by simp
    show "map fst (completionResults cp failed) = map (wpFuture (upsertParams w)) (concat (map (wpItems (upsertParams w)) (bt # failed)))"
      using completionResults_futures [OF none] assms(3) by simp
    show "\<forall>r \<in> snd ` set (completionResults cp failed). (wrErr r = None) = (kpErr cp = None)"
      by (intro ballI completionResults_err)
  qed
  then show ?thesis
    using assms(4) handleKVCompletion_view [of w clock now cp s failed core h] f assms(2)
    by (simp add: kv_op_def batches_good_def r_into_rtranclp)
qed

end
