(* ===== verification/Upsert_Steps.thy ===== *)
theory Upsert_Steps
  imports Upsert_Refinement
begin

text \<open>
  Every step of the upsert writer is a sequence of moves of the abstract writer, so that what the abstract
  machine promises holds of it.
\<close>

section \<open>Steps\<close>

definition kv_close_inv :: "upsert_state \<Rightarrow> bool" where
  "kv_close_inv s \<longleftrightarrow>
     (case usMode s of
        Closing _ \<Rightarrow> usClosed s \<and> usCommands s = []
      | Stopped \<Rightarrow> usClosed s \<and> usCommands s = []
      | _ \<Rightarrow> if usClosed s then \<exists>cs. usCommands s = cs @ [UCmdClose] \<and> UCmdClose \<notin> set cs
             else UCmdClose \<notin> set (usCommands s))"

definition kv_mode_inv :: "upsert_state \<Rightarrow> bool" where
  "kv_mode_inv s \<longleftrightarrow> (usMode s \<noteq> Serving \<longrightarrow> (\<forall>b. openKV s b = []))"

definition upsert_inv :: "upsert_static \<Rightarrow> upsert_state \<Rightarrow> bool" where
  "upsert_inv w s \<longleftrightarrow> validUpsertStatic w \<and> batches_good w s \<and> kv_close_inv s \<and> kv_mode_inv s
     \<and> (\<forall>item \<in> set (usEntering s) \<union> set (kvItemsOf (usCommands s)). kwBucket item \<in> set (uwBuckets w))"

lemma go_index_mem: "go_index xs i = Inr x \<Longrightarrow> x \<in> set xs"
  by (auto simp: go_index_def nat_less_iff split: if_splits)

lemma enqueueMutation_item:
  assumes "enqueueMutation w vals value targets f = Inr item"
  shows "kwBucket item \<in> set (uwBuckets w)" "kwFuture item = f"
  using assms by (auto simp: enqueueMutation_def Let_def dest: go_index_mem)

lemma mutation_item:
  assumes "mutationBy w call" "call f = Inr item"
  shows "kwBucket item \<in> set (uwBuckets w)" "kwFuture item = f"
  using assms enqueueMutation_item
  by (fastforce simp: mutationBy_def prepareUpsert_def preparePartial_def prepareDelete_def Let_def)+

lemma kvView_issue:
  "kvView h (s\<lparr>usNext := Suc (usNext s), usFutures := (usFutures s)(usNext s := newWriteFuture)\<rparr>) = vIssue False (kvView h s)"
  by (simp add: kvView_def vIssue_def newWriteFuture_def openKV_def fun_eq_iff)

lemma errorResult_err [simp]: "wrErr (errorResult e) = Some e"
  by (simp add: errorResult_def)

lemma rejectKV_refines: "kv_steps w (kvView h s) (kvView h (rejectKV e s))"
  using spec_step.reject [of "errorResult e" "upsertParams w" "kvView h s"]
  by (simp add: rejectKV_def kvView_complete kvView_issue r_into_rtranclp)

lemma takeKVSlot_refines:
  assumes "kwFuture item = usNext s" "int (usSlots s) < ucMaxBuffered (uwConfig w)"
  shows "kv_steps w (kvView h s) (kvView h (takeKVSlot item s))"
proof -
  have "spec_step (upsertParams w) (kvView h s) ((vIssue True (kvView h s))\<lparr>vEntering := vEntering (kvView h s) @ [item]\<rparr>)"
    using assms by (intro spec_step.take) simp_all
  also have "\<dots> = kvView h (takeKVSlot item s)"
    by (simp add: kvView_def vIssue_def takeKVSlot_def openKV_def fun_eq_iff)
  finally show ?thesis by (rule r_into_rtranclp)
qed

lemma refuseKV_refines:
  assumes "item \<in> set (usEntering s)"
  shows "kv_steps w (kvView h s) (kvView h (refuseKV e item s))"
proof -
  have "spec_step (upsertParams w) (kvView h s) (vComplete (wpFuture (upsertParams w) item) (errorResult e)
      ((kvView h s)\<lparr>vEntering := remove1 item (vEntering (kvView h s))\<rparr>))"
    using assms by (intro spec_step.refuse) simp_all
  also have "\<dots> = kvView h (refuseKV e item s)"
    by (simp add: refuseKV_def kvView_complete) (simp add: kvView_def)
  finally show ?thesis by (rule r_into_rtranclp)
qed

lemma queueKV_refines:
  assumes "item \<in> set (usEntering s)"
  shows "kv_steps w (kvView h s) (kvView h (queueKV item s))"
proof -
  have "spec_step (upsertParams w) (kvView h s) ((kvView h s)\<lparr>vEntering := remove1 item (vEntering (kvView h s)),
      vQueued := vQueued (kvView h s) @ [item]\<rparr>)"
    using assms by (intro spec_step.queue) simp_all
  also have "\<dots> = kvView h (queueKV item s)" by (simp add: queueKV_def kvView_def openKV_def fun_eq_iff)
  finally show ?thesis by (rule r_into_rtranclp)
qed

text \<open>Taking a command from the queue.\<close>

lemma takeKVItem_refines:
  assumes "usCommands s = UCmdItem item # rest"
  shows "kv_steps w (kvView [] s) (kvView [item] (s\<lparr>usCommands := rest\<rparr>))"
proof -
  have "spec_step (upsertParams w) (kvView [] s) ((kvView [] s)\<lparr>vQueued := kvItemsOf rest, vHeld := [item]\<rparr>)"
    using assms by (intro spec_step.hold) simp_all
  also have "\<dots> = kvView [item] (s\<lparr>usCommands := rest\<rparr>)" by (simp add: kvView_def openKV_def fun_eq_iff)
  finally show ?thesis by (rule r_into_rtranclp)
qed

text \<open>A flush or a close command is not seen.\<close>

lemma kvView_commands: "kvItemsOf cs = kvItemsOf (usCommands s) \<Longrightarrow> kvView h (s\<lparr>usCommands := cs\<rparr>) = kvView h s"
  by (simp add: kvView_def)

lemma executeKVBatch_request:
  "kpBucket (executeKVBatch w env (b, bt, sq)) = b" "kpBatch (executeKVBatch w env (b, bt, sq)) = bt"
  by (simp_all add: executeKVBatch_def Let_def split: sum.split)

lemma completion_op:
  assumes "request \<in> set (running (usSched s))" "batches_good w s"
  shows "kv_op w h h s (handleKVCompletion w clock now (executeKVBatch w env request) s)"
proof -
  obtain b bt sq where r: "request = (b, bt, sq)" by (cases request)
  show ?thesis using handleKVCompletion_refines [of b bt sq s] assms by (simp add: r executeKVBatch_request)
qed

lemma upsert_step_refines:
  assumes "upsert_step w s s'" "upsert_inv w s"
  shows "kv_steps w (kvView [] s) (kvView [] s')"
  using assms
proof (induction rule: upsert_step.induct)
  case (call_slot call s item)
  then show ?case using mutation_item(2) [OF call_slot(1,2)] by (intro takeKVSlot_refines)
next
  case (flush_call s)
  show ?case by (subst kvView_commands) simp_all
next
  case (close_call s)
  show ?case by (subst kvView_commands) simp_all
next
  case (loop_item s item rest clock ctxErr)
  have "kv_op w [item] [] (s\<lparr>usCommands := rest\<rparr>) (addKV w clock ctxErr item (s\<lparr>usCommands := rest\<rparr>))"
    using loop_item by (intro addKV_refines) (auto simp: upsert_inv_def batches_good_def)
  then show ?case
    using takeKVItem_refines [OF loop_item(2), of w] by (auto simp: kv_op_def intro: rtranclp_trans)
next
  case (loop_flush s rest clock err s')
  let ?t = "stopKVTimer (s\<lparr>usCommands := rest\<rparr>)"
  have "kv_op w [] [] ?t s'"
    using loop_flush(3,4) by (intro queueAllKV_refines(1)) (auto simp: upsert_inv_def batches_good_def stopKVTimer_def)
  then show ?case by (simp add: kv_op_def stopKVTimer_def kvView_commands loop_flush(2))
next
  case (loop_close s rest clock err s')
  let ?t = "stopKVTimer (s\<lparr>usCommands := rest\<rparr>)"
  have "kv_op w [] [] ?t s'"
    using loop_close(3,4) by (intro queueAllKV_refines(1)) (auto simp: upsert_inv_def batches_good_def stopKVTimer_def)
  then show ?case by (simp add: kv_op_def stopKVTimer_def kvView_commands loop_close(2))
next
  case (loop_timer s clock)
  obtain err s' where q: "queueAllKV w clock (s\<lparr>usTimer := False\<rparr>) = (err, s')"
    by (cases "queueAllKV w clock (s\<lparr>usTimer := False\<rparr>)")
  have "kv_op w [] [] (s\<lparr>usTimer := False\<rparr>) s'"
    using loop_timer(3) by (intro queueAllKV_refines(1) [OF _ q]) (auto simp: upsert_inv_def batches_good_def)
  then show ?case by (simp add: kv_op_def q)
next
  case (loop_completion s request clock now env)
  then show ?case using completion_op [OF loop_completion(2)] by (simp add: kv_op_def upsert_inv_def)
next
  case (flush_completion s err request cp env clock now)
  then show ?case
    using flush_completion completion_op [OF flush_completion(2)] by (simp add: kv_op_def upsert_inv_def)
next
  case (close_completion s err request cp env clock now)
  then show ?case
    using close_completion completion_op [OF close_completion(2)] by (simp add: kv_op_def upsert_inv_def)
qed (auto intro: rejectKV_refines refuseKV_refines queueKV_refines)

section \<open>The invariant\<close>

lemma upsert_inv_op:
  assumes "upsert_inv w s" "kv_op w h h' t s'" "usCommands t = usCommands s" "usEntering t = usEntering s"
    and "usClosed t = usClosed s" "usMode t = Serving" "usMode s = Serving"
  shows "upsert_inv w s'"
  using assms by (simp add: upsert_inv_def kv_op_def kv_close_inv_def kv_mode_inv_def)

lemma upsert_inv_frame:
  assumes "upsert_inv w s" "usBatches s' = usBatches s" "set (usEntering s') \<subseteq> set (usEntering s)"
    and "usCommands s' = usCommands s" "usClosed s' = usClosed s" "usMode s' = usMode s"
  shows "upsert_inv w s'"
  using assms
  by (auto simp: upsert_inv_def batches_good_def kv_close_inv_def kv_mode_inv_def openKV_def split: loop_mode.splits)

lemma upsert_inv_flushing:
  assumes "upsert_inv w s" "usMode s = Serving" "usCommands s = cmd # rest" "cmd \<in> {UCmdFlush, UCmdClose}"
    and "queueAllKV w clock (stopKVTimer (s\<lparr>usCommands := rest\<rparr>)) = (err, s')"
    and "m = (if cmd = UCmdFlush then Flushing err else Closing err)"
  shows "upsert_inv w (s'\<lparr>usMode := m\<rparr>)"
proof -
  let ?t = "stopKVTimer (s\<lparr>usCommands := rest\<rparr>)"
  have g: "batches_good w ?t" using assms(1) by (simp add: upsert_inv_def batches_good_def stopKVTimer_def)
  note op = queueAllKV_refines(1) [OF g assms(5), of "[]"]
  have frame: "usCommands s' = rest" "usEntering s' = usEntering s" "usClosed s' = usClosed s" "batches_good w s'"
    using op by (simp_all add: kv_op_def stopKVTimer_def)
  have "kv_close_inv (s'\<lparr>usMode := m\<rparr>)"
    using assms(1-4,6) by (auto simp: upsert_inv_def kv_close_inv_def frame Cons_eq_append_conv split: if_splits)
  moreover have "kv_mode_inv (s'\<lparr>usMode := m\<rparr>)"
    using queueAllKV_refines(2) [OF g assms(5)] by (simp add: kv_mode_inv_def)
  ultimately show ?thesis
    using assms(1,3,4) frame by (auto simp: upsert_inv_def batches_good_def)
qed

lemma upsert_inv_completion:
  assumes "upsert_inv w s" "request \<in> set (running (usSched s))"
    and "m = usMode s \<or> (\<exists>e e'. m = Flushing e \<and> usMode s = Flushing e') \<or> (\<exists>e e'. m = Closing e \<and> usMode s = Closing e')"
  shows "upsert_inv w ((handleKVCompletion w clock now (executeKVBatch w env request) s)\<lparr>usMode := m\<rparr>)"
proof -
  have "batches_good w s" using assms(1) by (simp add: upsert_inv_def)
  note completion_op [OF assms(2) this, of "[]" clock now env]
  then show ?thesis
    using assms(1,3) by (auto simp: upsert_inv_def kv_op_def batches_good_def kv_close_inv_def kv_mode_inv_def openKV_def
        split: loop_mode.splits)
qed

lemma usMode_same: "usMode s = m \<Longrightarrow> s\<lparr>usMode := m\<rparr> = s"
  by (cases s) simp

lemma upsert_inv_step:
  assumes "upsert_step w s s'" "upsert_inv w s"
  shows "upsert_inv w s'"
  using assms
proof (induction rule: upsert_step.induct)
  case (call_slot call s item)
  then show ?case
    using mutation_item(1) [OF call_slot(1,2)]
    by (auto simp: takeKVSlot_def upsert_inv_def batches_good_def kv_close_inv_def kv_mode_inv_def split: loop_mode.splits)
next
  case (enter_queue item s)
  then show ?case
    using set_remove1_subset [of item "usEntering s"]
    by (auto simp: queueKV_def upsert_inv_def batches_good_def kv_close_inv_def kv_mode_inv_def split: loop_mode.splits)
next
  case (flush_call s)
  then show ?case
    by (auto simp: upsert_inv_def batches_good_def kv_close_inv_def kv_mode_inv_def split: loop_mode.splits)
next
  case (close_call s)
  then show ?case
    by (auto simp: upsert_inv_def batches_good_def kv_close_inv_def kv_mode_inv_def split: loop_mode.splits)
next
  case (loop_item s item rest clock ctxErr)
  let ?t = "s\<lparr>usCommands := rest\<rparr>"
  have t: "upsert_inv w ?t"
    using loop_item by (auto simp: upsert_inv_def batches_good_def kv_close_inv_def kv_mode_inv_def Cons_eq_append_conv split: if_splits)
  have "kv_op w [item] [] ?t (addKV w clock ctxErr item ?t)"
    using loop_item by (intro addKV_refines) (auto simp: upsert_inv_def batches_good_def)
  then show ?case by (rule upsert_inv_op [OF t]) (simp_all add: loop_item(1))
next
  case (loop_flush s rest clock err s')
  then show ?case by (intro upsert_inv_flushing [OF loop_flush(4,1,2) _ loop_flush(3)]) simp_all
next
  case (loop_close s rest clock err s')
  then show ?case by (intro upsert_inv_flushing [OF loop_close(4,1,2) _ loop_close(3)]) simp_all
next
  case (loop_timer s clock)
  obtain err s' where q: "queueAllKV w clock (s\<lparr>usTimer := False\<rparr>) = (err, s')"
    by (cases "queueAllKV w clock (s\<lparr>usTimer := False\<rparr>)")
  have "kv_op w [] [] (s\<lparr>usTimer := False\<rparr>) s'"
    using loop_timer(3) by (intro queueAllKV_refines(1) [OF _ q]) (auto simp: upsert_inv_def batches_good_def)
  then show ?case unfolding q snd_conv by (rule upsert_inv_op [OF loop_timer(3)]) (simp_all add: loop_timer(1))
next
  case (loop_completion s request clock now env)
  let ?s = "handleKVCompletion w clock now (executeKVBatch w env request) s"
  have "upsert_inv w (?s\<lparr>usMode := Serving\<rparr>)"
    using loop_completion by (intro upsert_inv_completion) simp_all
  moreover have "?s\<lparr>usMode := Serving\<rparr> = ?s" using loop_completion(1) by (intro usMode_same) simp
  ultimately show ?case by (simp only:)
next
  case (flush_completion s err request cp env clock now)
  then show ?case using upsert_inv_completion [of w s request "Flushing (joinErr err (kpErr cp))"] by simp
next
  case (close_completion s err request cp env clock now)
  then show ?case using upsert_inv_completion [of w s request "Closing (joinErr err (kpErr cp))"] by simp
next
  case (flush_done s err)
  then show ?case by (auto simp: upsert_inv_def batches_good_def kv_close_inv_def kv_mode_inv_def)
next
  case (close_done s err)
  then show ?case by (auto simp: upsert_inv_def batches_good_def kv_close_inv_def kv_mode_inv_def openKV_def)
qed (rule upsert_inv_frame; simp add: rejectKV_def refuseKV_def set_remove1_subset)+

text \<open>The upsert writer is a refinement of the abstract writer.\<close>

interpretation upsert: writer_refinement "upsertParams w" "\<lambda>s. validUpsertStatic w \<and> s = newUpsertState"
  "upsert_step w" "upsert_inv w" "kvView []"
  for w
proof unfold_locales
  fix s assume "validUpsertStatic w \<and> s = newUpsertState"
  then show "kvView [] s = newView \<and> 0 \<le> wpLimit (upsertParams w) \<and> 0 \<le> wpCap (upsertParams w) \<and> upsert_inv w s"
    by (auto simp: newUpsertState_def kvView_def newView_def openKV_def upsert_inv_def batches_good_def kv_close_inv_def
        kv_mode_inv_def validUpsertStatic_def validUpsertConfig_def)
qed (auto intro: upsert_inv_step upsert_step_refines)

end
