(* ===== verification/Upsert_Properties.thy ===== *)
theory Upsert_Properties
  imports Upsert_Steps Append_Properties
begin

text \<open>
  The properties of the upsert writer, over every interleaving of callers, loop and requests: what it takes
  from the abstract writer, the results of a request, the throttle, and where mutations of a key go. The
  example writer serves the witnesses.
\<close>

section \<open>An example run\<close>

definition exKVTable :: table where
  "exKVTable = exTable\<lparr>tblKind := PrimaryKeyTable\<rparr>"

definition exKVStatic :: upsert_static where
  "exKVStatic = \<lparr>uwTable = exKVTable, uwPath = \<lparr>ppTable = tblPath exKVTable, Partition = []\<rparr>,
     uwConfig = defaultUpsertConfig\<lparr>ucBatchTimeout := 0\<rparr>, uwTableID = 5, uwPartitionID = -1, uwWriterID = 9,
     uwBuckets = [0, 1]\<rparr>"

definition exKVRow :: row where
  "exKVRow = [VInt32 300, VString [0x61], VNil]"

definition exKVItem :: pending_kv_write where
  "exKVItem = \<lparr>kwRecord = \<lparr>kvKey = [172, 2, 1, 97], kvValue = Some [4, 172, 2, 1, 97]\<rparr>, kwBucket = 0,
     kwTargets = [], kwSize = 17, kwFuture = 0\<rparr>"

definition exKVBatch :: kv_pending_batch where
  "exKVBatch = \<lparr>kbItems = [exKVItem], kbRecords = [kwRecord exKVItem], kbTargets = [], kbBytes = 17\<rparr>"

definition exKVQueued :: upsert_state where
  "exKVQueued = queueKV exKVItem (takeKVSlot exKVItem newUpsertState)"

definition exKVSent :: upsert_state where
  "exKVSent = addKV exKVStatic (\<lambda>_. 0) None exKVItem (exKVQueued\<lparr>usCommands := []\<rparr>)"

lemma exKVStatic_valid: "validUpsertStatic exKVStatic"
proof -
  have "Schema_Validate exSchema = Inr ()" by code_simp
  moreover have "validUpsertConfig (defaultUpsertConfig\<lparr>ucBatchTimeout := 0\<rparr>)" by code_simp
  ultimately show ?thesis
    by (simp add: validUpsertStatic_def exKVStatic_def exKVTable_def exTable_def) (simp add: exSchema_def)
qed

lemma exKVSent_reachable: "upsert_reachable exKVStatic exKVSent"
proof -
  let ?s1 = "takeKVSlot exKVItem newUpsertState"
  have "prepareUpsert exKVStatic False exKVRow 0 = Inr exKVItem" by code_simp
  then have "upsert_step exKVStatic newUpsertState ?s1"
    by (intro upsert_step.call_slot [where call = "prepareUpsert exKVStatic False exKVRow"])
      (auto simp: mutationBy_def newUpsertState_def exKVStatic_def defaultUpsertConfig_def)
  moreover have "upsert_step exKVStatic ?s1 exKVQueued"
    unfolding exKVQueued_def by (intro upsert_step.enter_queue)
      (simp_all add: takeKVSlot_def newUpsertState_def kvQueueFull_def exKVStatic_def defaultUpsertConfig_def)
  moreover have "upsert_step exKVStatic exKVQueued exKVSent"
    unfolding exKVSent_def
    by (rule upsert_step.loop_item) (simp_all add: exKVQueued_def queueKV_def takeKVSlot_def newUpsertState_def)
  ultimately show ?thesis
    unfolding upsert_reachable_def by (meson converse_rtranclp_into_rtranclp rtranclp.rtrancl_refl)
qed

lemma exKVSent_running: "running (usSched exKVSent) = [(0, exKVBatch, 0)]"
  by code_simp

lemma upsert_run:
  assumes "upsert_reachable w s" "validUpsertStatic w"
  shows "(upsert_step w)\<^sup>*\<^sup>* newUpsertState s" "validUpsertStatic w \<and> newUpsertState = newUpsertState"
  using assms by (simp_all add: upsert_reachable_def)

section \<open>The contract\<close>

text \<open>
  C7. The upsert writer refines the abstract batching writer: what it does, seen through the view that
  forgets timers, throttles, encodings and modes, is a run of the abstract machine, from the empty state.
\<close>

theorem upsert_refines_writer:
  assumes "upsert_reachable w s" and "validUpsertStatic w"
  shows "(spec_step (upsertParams w))\<^sup>*\<^sup>* newView (kvView [] s)"
  using upsert.run_refines [OF upsert_run [OF assms]] by blast

theorem upsert_refines_writer_witness:
  "(spec_step (upsertParams exKVStatic))\<^sup>*\<^sup>* newView (kvView [] exKVSent)"
  by (rule upsert_refines_writer [OF exKVSent_reachable exKVStatic_valid])



text \<open>
  C8. No mutation is lost, answered twice or reordered: a future without a result belongs to exactly one
  mutation on its way, the slots in use are exactly those; and per bucket the mutations sent are a prefix of
  those accepted, and until the bucket fails sent, waiting and open ones together are exactly those accepted.
\<close>

theorem upsert_mutations_conserved:
  assumes "upsert_reachable w s" and "validUpsertStatic w"
  shows "(\<forall>f. count (waiting (upsertParams w) (kvView [] s)) f =
        (if f < usNext s \<and> futData (usFutures s f) = None then 1 else 0))
    \<and> usSlots s = size (waiting (upsertParams w) (kvView [] s)) \<and> int (usSlots s) \<le> ucMaxBuffered (uwConfig w)
    \<and> prefix (concat (map kbItems (sentOf (usSched s) b))) (usAccepted s b)
    \<and> (poisoned (usSched s) b = None \<longrightarrow>
         concat (map kbItems (sentOf (usSched s) b)) @ concat (map kbItems (pending (usSched s) b)) @ openKV s b
           = usAccepted s b)"
  using upsert.run_conserves [OF upsert_run [OF assms]] upsert.run_order [OF upsert_run [OF assms], of b] by simp

theorem upsert_mutations_conserved_witness:
  "count (waiting (upsertParams exKVStatic) (kvView [] exKVSent)) 0 = 1 \<and> usSlots exKVSent = 1"
proof -
  have "usNext exKVSent = 1" "futData (usFutures exKVSent 0) = None" "usSlots exKVSent = 1" by code_simp+
  then show ?thesis using upsert_mutations_conserved [OF exKVSent_reachable exKVStatic_valid] by simp
qed

section \<open>Results\<close>

text \<open>
  C10. What a request answers reaches its callers: when the completion of a request is handled, the future of
  the \<open>k\<close>-th mutation of its batch, which had no result, gets one, with the error of the request if it has
  one, and otherwise with its bucket, the pressure and the offset \<^verbatim>\<open>logEnd - len + k\<close> (on 64 bits); and when
  the request failed, every mutation that waits behind it in the bucket gets \<^verbatim>\<open>ErrWriterState\<close>.
\<close>

theorem upsert_results_delivered:
  assumes "upsert_reachable w s" and "validUpsertStatic w" and "(b, bt, sq) \<in> set (running (usSched s))"
    and "cp = executeKVBatch w env (b, bt, sq)" and "k < length (kbItems bt)"
    and "s' = handleKVCompletion w clock now cp s" and "ok \<longleftrightarrow> kpErr cp = None"
  shows "futData (usFutures s (kwFuture (kbItems bt ! k))) = None
    \<and> futData (usFutures s' (kwFuture (kbItems bt ! k))) = Some
        \<lparr>wrBucket = b, wrBaseOffset = (if ok \<and> kpOffsetKnown cp then kpLogEnd cp - of_nat (length (kbItems bt)) else 0) + of_nat k,
         wrOffsetKnown = (ok \<and> kpOffsetKnown cp), wrRecords = 1, wrPressure = (if ok then kpPressure cp else 0),
         wrPressureKnown = (ok \<and> kpPressureKnown cp), wrErr = kpErr cp\<rparr>
    \<and> (\<not> ok \<longrightarrow> (\<forall>behind \<in> set (pending (usSched s) b). \<forall>i \<in> set (kbItems behind).
         \<exists>r. futData (usFutures s' (kwFuture i)) = Some r \<and> wrErr r = Some ErrWriterState))"
proof -
  let ?p = "upsertParams w" and ?v = "kvView [] s"
  have cp: "kpBucket cp = b" "kpBatch cp = bt" by (simp_all add: assms(4) executeKVBatch_request)
  obtain failed core where f: "kvFinish w clock now b (kpErr cp) (kpPressure cp) (kpPressureKnown cp) (usCore s) = (failed, core)"
    by (cases "kvFinish w clock now b (kpErr cp) (kpPressure cp) (kpPressureKnown cp) (usCore s)")
  have none: "failed = []" if "kpErr cp = None" using f that by (auto simp: kvFinish_def Let_def)
  have fin: "finishBatch (wpLimit ?p) (wpBuckets ?p) b (kpErr cp) (vSched ?v) = (failed, kcSched core)"
    unfolding kvView_simps upsertParams_simps
      kvFinish_sched [of w b "kpErr cp" "usCore s" clock now "kpPressure cp" "kpPressureKnown cp"] f by simp
  have inv: "spec_inv ?p ?v" using upsert.run_refines [OF upsert_run [OF assms(1,2)]] by blast
  have run: "(b, bt, sq) \<in> set (running (vSched ?v))" using assms(3) by simp
  note fut = futuresOf_inside [OF inv run fin]
  let ?rs = "completionResults cp failed"
  have dist: "distinct (map fst ?rs)" using completionResults_futures [OF none] fut(1) cp by simp
  have view: "usFutures s' = vFutures (vCompleteAll ?rs (?v\<lparr>vSched := kcSched core\<rparr>))"
    using handleKVCompletion_view [of w clock now cp s failed core "[]"] f cp assms(6) by (metis kvView_simps(6))
  have deliver: "futData (usFutures s' g) = Some r" if "(g, r) \<in> set ?rs" "futData (usFutures s g) = None" for g r
    unfolding view by (rule vCompleteAll_result [OF that(1) dist]) (simp add: that(2))
  let ?i = "kbItems bt ! k"
  have free: "futData (usFutures s (kwFuture ?i)) = None" using fut(2) [of ?i] assms(5) by simp
  have "(k, ?i) \<in> set (zip [0..<length (kbItems bt)] (kbItems bt))"
    using assms(5) by (force simp: set_zip)
  then have "(kwFuture ?i,
      \<lparr>wrBucket = b, wrBaseOffset = (if ok \<and> kpOffsetKnown cp then kpLogEnd cp - of_nat (length (kbItems bt)) else 0) + of_nat k,
       wrOffsetKnown = (ok \<and> kpOffsetKnown cp), wrRecords = 1, wrPressure = (if ok then kpPressure cp else 0),
       wrPressureKnown = (ok \<and> kpPressureKnown cp), wrErr = kpErr cp\<rparr>) \<in> set ?rs"
    using assms(7) by (cases "kpErr cp") (force simp: completionResults_def kvResults_def cp Let_def)+
  moreover have "\<exists>r. futData (usFutures s' (kwFuture i)) = Some r \<and> wrErr r = Some ErrWriterState"
    if "\<not> ok" "behind \<in> set (pending (usSched s) b)" "i \<in> set (kbItems behind)" for behind i
  proof -
    obtain e where e: "kpErr cp = Some e" using \<open>\<not> ok\<close> assms(7) by auto
    have failed: "failed = pending (usSched s) b" using fin e by (auto simp: finishBatch_def)
    have "kwFuture i \<in> fst ` set (kvResults behind b 0 False 0 False (Some ErrWriterState))"
      using that(3) kvResults_futures [of behind b 0 False 0 False "Some ErrWriterState"] by (metis image_eqI image_set)
    then obtain r where r: "(kwFuture i, r) \<in> set (kvResults behind b 0 False 0 False (Some ErrWriterState))" by auto
    then have "(kwFuture i, r) \<in> set ?rs" using that(2) by (auto simp: completionResults_def e cp failed)
    moreover have "futData (usFutures s (kwFuture i)) = None" using fut(2) [of i] that(2,3) by (auto simp: failed)
    moreover have "wrErr r = Some ErrWriterState" using kvResults_err [of r] r by (metis image_eqI snd_conv)
    ultimately show ?thesis using deliver by blast
  qed
  ultimately show ?thesis using deliver free by blast
qed

definition exPutEnv :: put_env where
  "exPutEnv = \<lparr>putAt = (\<lambda>_. (8, None, None)), putCtxErr = (\<lambda>_. None), putWait = (\<lambda>_. None), putExpired = None\<rparr>"

theorem upsert_results_delivered_witness:
  "\<exists>r. futData (usFutures (handleKVCompletion exKVStatic (\<lambda>_. 0) 0
      (executeKVBatch exKVStatic exPutEnv (0, exKVBatch, 0)) exKVSent) 0) = Some r \<and> wrBucket r = 0 \<and> wrRecords r = 1"
proof -
  have r: "(0, exKVBatch, 0) \<in> set (running (usSched exKVSent))" by (simp add: exKVSent_running)
  have "kbItems exKVBatch = [exKVItem]" "kwFuture exKVItem = 0" by (simp_all add: exKVBatch_def exKVItem_def)
  then show ?thesis
    using upsert_results_delivered [OF exKVSent_reachable exKVStatic_valid r refl _ refl refl,
        where env = exPutEnv and k = 0 and clock = "\<lambda>_. 0" and now = 0] by simp
qed

section \<open>Throttling\<close>

definition deadlines_within :: "int \<Rightarrow> kv_core \<Rightarrow> bool" where
  "deadlines_within latest c \<longleftrightarrow> (\<forall>b t. kcThrottle c b = Some t \<longrightarrow> t \<le> latest)"

definition delays_added :: "int \<Rightarrow> kv_core \<Rightarrow> kv_core \<Rightarrow> bool" where
  "delays_added maximum c c' \<longleftrightarrow> (\<exists>ds. kcDelays c' = kcDelays c @ ds \<and> (\<forall>d \<in> set ds. 0 \<le> d \<and> d \<le> maximum))"

lemma kvStart_delays:
  assumes "deadlines_within (now + maximum) c" "\<forall>n. now \<le> clock n" "0 \<le> maximum"
  shows "deadlines_within (now + maximum) (kvStart clock b c) \<and> delays_added maximum c (kvStart clock b c)"
proof -
  have "t - clock n \<le> maximum" if "kcThrottle c b = Some t" for t n
    using assms(1,2) that unfolding deadlines_within_def by (smt (verit))
  then show ?thesis
    using assms(1,3) by (auto simp: deadlines_within_def delays_added_def kvStart_def Let_def split: option.split)
qed

lemma delays_added_trans: "delays_added m c c' \<Longrightarrow> delays_added m c' c'' \<Longrightarrow> delays_added m c c''"
  by (fastforce simp: delays_added_def)

lemma kvDispatchPass_delays:
  assumes "deadlines_within (now + maximum) c" "\<forall>n. now \<le> clock n" "0 \<le> maximum"
  shows "deadlines_within (now + maximum) (snd (kvDispatchPass limit clock buckets started c))
    \<and> delays_added maximum c (snd (kvDispatchPass limit clock buckets started c))"
  using assms
proof (induction limit clock buckets started c rule: kvDispatchPass.induct)
  case (1 limit clock started c)
  then show ?case by (simp add: delays_added_def)
next
  case (2 limit clock b bs started c)
  note start = kvStart_delays [OF "2.prems", of b]
  show ?case
    using "2.IH"(1) [OF _ "2.prems"] "2.IH"(2) [OF _ refl _ _ "2.prems"(2,3)] start "2.prems"(1)
    by (auto simp: Let_def intro: delays_added_trans)
qed

lemma kvDispatch_delays:
  assumes "deadlines_within (now + maximum) c" "\<forall>n. now \<le> clock n" "0 \<le> maximum"
  shows "deadlines_within (now + maximum) (kvDispatch limit clock buckets c)
    \<and> delays_added maximum c (kvDispatch limit clock buckets c)"
  using assms
proof (induction limit clock buckets c rule: kvDispatch.induct)
  case (1 limit clock buckets c)
  obtain started c' where p: "kvDispatchPass limit clock buckets False c = (started, c')"
    by (cases "kvDispatchPass limit clock buckets False c")
  have c': "deadlines_within (now + maximum) c'" "delays_added maximum c c'"
    using kvDispatchPass_delays [OF "1.prems", of limit buckets False] p by simp_all
  have refl: "delays_added maximum c c" by (simp add: delays_added_def)
  show ?case
    using "1.IH" [OF _ p [symmetric] _ c'(1) "1.prems"(2,3)] c' refl "1.prems"(1) p
    by (subst (1 2) kvDispatch.simps) (auto intro: delays_added_trans)
qed

text \<open>
  Back-pressure is bounded: a successful completion with a pressure that \<^verbatim>\<open>put\<close> accepts sets a deadline at
  most \<^verbatim>\<open>BackpressureMaxThrottle\<close> after the present; while every deadline is that near, every request that the
  completion starts, of this bucket or of another, is delayed by at least nothing and at most
  \<^verbatim>\<open>BackpressureMaxThrottle\<close>, and all deadlines stay that near.
\<close>

theorem upsert_throttle_bounded:
  assumes "validUpsertConfig (uwConfig w)" and "\<not> invalidPressure (if known then Some pr else None)"
    and "maximum = ucBackpressureMaxThrottle (uwConfig w)"
    and "deadlines_within (now + maximum) c" and "\<forall>n. now \<le> clock n"
  shows "deadlines_within (now + maximum) (snd (kvFinish w clock now b err pr known c))
    \<and> delays_added maximum c (snd (kvFinish w clock now b err pr known c))
    \<and> (known \<and> f32_pos pr \<longrightarrow> 0 \<le> pressureDelay maximum pr \<and> pressureDelay maximum pr \<le> maximum)"
proof -
  have m: "0 \<le> maximum" "maximum \<le> minute" using assms(1,3) by (simp_all add: validUpsertConfig_def)
  have delay: "0 \<le> pressureDelay maximum pr \<and> pressureDelay maximum pr \<le> maximum" if "known \<and> f32_pos pr"
    using assms(2) that by (intro pressureDelay_bounds m) simp_all
  let ?finish = "\<lambda>l th. kvDispatch (ucMaxConcurrentRequests (uwConfig w)) clock (uwBuckets w) (c\<lparr>kcSched := l, kcThrottle := th\<rparr>)"
  have core: "deadlines_within (now + maximum) (?finish l th) \<and> delays_added maximum c (?finish l th)"
    if "deadlines_within (now + maximum) (c\<lparr>kcThrottle := th\<rparr>)" for l th
  proof -
    have "deadlines_within (now + maximum) (c\<lparr>kcSched := l, kcThrottle := th\<rparr>)" using that by (simp add: deadlines_within_def)
    from kvDispatch_delays [OF this assms(5) m(1)] show ?thesis by (simp add: delays_added_def)
  qed
  have "c\<lparr>kcSched := l, kcThrottle := kcThrottle c\<rparr> = c\<lparr>kcSched := l\<rparr>" for l by simp
  moreover have "deadlines_within (now + maximum) (c\<lparr>kcThrottle := kcThrottle c\<rparr>)" using assms(4) by simp
  ultimately have unthrottled: "deadlines_within (now + maximum) (kvDispatch (ucMaxConcurrentRequests (uwConfig w)) clock (uwBuckets w) (c\<lparr>kcSched := l\<rparr>))
      \<and> delays_added maximum c (kvDispatch (ucMaxConcurrentRequests (uwConfig w)) clock (uwBuckets w) (c\<lparr>kcSched := l\<rparr>))" for l
    using core [of "kcThrottle c" l] by (simp only:)
  have "deadlines_within (now + maximum) (snd (kvFinish w clock now b err pr known c))
      \<and> delays_added maximum c (snd (kvFinish w clock now b err pr known c))"
  proof (cases err)
    case None
    show ?thesis
      unfolding kvFinish_def Let_def None option.case snd_conv
      by (rule core) (use assms(3,4) delay in \<open>auto simp: deadlines_within_def\<close>)
  next
    case (Some e)
    show ?thesis
      unfolding kvFinish_def Let_def Some option.case snd_conv by (rule unthrottled)
  qed
  then show ?thesis using delay by blast
qed

theorem upsert_throttle_bounded_witness:
  "delays_added second ((usCore exKVSent)\<lparr>kcThrottle := \<lambda>_. None\<rparr>)
     (snd (kvFinish exKVStatic (\<lambda>_. 0) 0 0 None 0x3F000000 True ((usCore exKVSent)\<lparr>kcThrottle := \<lambda>_. None\<rparr>)))"
proof -
  let ?c = "(usCore exKVSent)\<lparr>kcThrottle := \<lambda>_. None\<rparr>"
  have v: "validUpsertConfig (uwConfig exKVStatic)" using exKVStatic_valid by (simp add: validUpsertStatic_def)
  have p: "\<not> invalidPressure (if True then Some 0x3F000000 else None)" by code_simp
  have m: "second = ucBackpressureMaxThrottle (uwConfig exKVStatic)" by code_simp
  have "deadlines_within (0 + second) ?c" by (simp add: deadlines_within_def)
  from upsert_throttle_bounded [OF v p m this, of "\<lambda>_. 0" 0 None]
  show ?thesis by simp
qed

section \<open>Mutations of a key\<close>

text \<open>The bytes of a key are the bytes of its columns; equal bytes are equal column by column.\<close>

lemma encodeKeyLoop_map_D:
  assumes "encodeKeyLoop m (n # names) (map f (n # names)) dst = Inr b"
  shows "\<exists>d p. m n = Some d \<and> appendCompactedValue [] (logicalTypeForColumn d) (f n) = Inr p
    \<and> encodeKeyLoop m names (map f names) (dst @ p) = Inr b"
  by (rule encodeKeyLoop_Cons_D [OF assms]) auto

lemma encodeKeyLoop_column_bytes:
  assumes "encodeKeyLoop m names (map f names) [] = Inr b" "\<forall>name. wfValue (f name)"
    and "encodeKeyLoop m names (map g names) [] = Inr b'" "\<forall>name. wfValue (g name)" "b @ x = b' @ y"
    and "name \<in> set names" "m name = Some c"
  shows "appendCompactedValue [] (logicalTypeForColumn c) (f name) = appendCompactedValue [] (logicalTypeForColumn c) (g name)"
  using assms(1,3,5,6)
proof (induction names arbitrary: b b')
  case (Cons n names)
  from encodeKeyLoop_map_D [OF Cons.prems(1)] obtain d p where d: "m n = Some d"
    and p: "appendCompactedValue [] (logicalTypeForColumn d) (f n) = Inr p"
    and restf: "encodeKeyLoop m names (map f names) ([] @ p) = Inr b" by auto
  from encodeKeyLoop_map_D [OF Cons.prems(2)] d obtain q where
    q: "appendCompactedValue [] (logicalTypeForColumn d) (g n) = Inr q"
    and restg: "encodeKeyLoop m names (map g names) ([] @ q) = Inr b'" by auto
  from encodeKeyLoop_context [OF restf] obtain t where t: "b = p @ t" "encodeKeyLoop m names (map f names) [] = Inr t" by fastforce
  from encodeKeyLoop_context [OF restg] obtain u where u: "b' = q @ u" "encodeKeyLoop m names (map g names) [] = Inr u" by fastforce
  have "p @ t @ x = q @ u @ y" using Cons.prems(3) t(1) u(1) by simp
  note pf = compacted.prefix_free [OF spec [OF assms(2)] p spec [OF assms(4)] q this]
  show ?case
  proof (cases "name = n")
    case True
    then show ?thesis using p q pf(2) d assms(7) by simp
  next
    case False
    then show ?thesis using Cons.IH [OF t(2) u(2) pf(3)] Cons.prems(4) by simp
  qed
qed simp

lemma encodeKeyLoop_cong_bytes:
  assumes "encodeKeyLoop m names (map f names) dst = Inr b" "encodeKeyLoop m names (map g names) dst = Inr b'"
    and "\<forall>name \<in> set names. \<forall>c. m name = Some c \<longrightarrow>
      appendCompactedValue [] (logicalTypeForColumn c) (f name) = appendCompactedValue [] (logicalTypeForColumn c) (g name)"
  shows "b = b'"
  using assms
proof (induction names arbitrary: dst)
  case (Cons n names)
  from encodeKeyLoop_map_D [OF Cons.prems(1)] obtain d p where d: "m n = Some d"
    and p: "appendCompactedValue [] (logicalTypeForColumn d) (f n) = Inr p"
    and restf: "encodeKeyLoop m names (map f names) (dst @ p) = Inr b" by auto
  from encodeKeyLoop_map_D [OF Cons.prems(2)] d obtain q where
    q: "appendCompactedValue [] (logicalTypeForColumn d) (g n) = Inr q"
    and restg: "encodeKeyLoop m names (map g names) (dst @ q) = Inr b'" by auto
  have "p = q" using p q d Cons.prems(3) by simp
  then show ?case using Cons.IH [OF restf] restg Cons.prems(3) by simp
qed simp

text \<open>
  C11. All mutations of one key go the same way: two mutations (full upserts, partial upserts or deletes) of
  one writer whose encoded primary keys are equal are put in the same bucket, also when the table is
  bucketed by a part of its primary key. With the order of a bucket, the last mutation accepted for a key is
  the last one sent for it.
\<close>

theorem mutations_of_key_same_bucket:
  assumes "enqueueMutation w vals value targets f = Inr i" and "enqueueMutation w vals' value' targets' f' = Inr i'"
    and "validUpsertStatic w" and "\<forall>name. wfValue (valueOf vals name)" and "\<forall>name. wfValue (valueOf vals' name)"
    and "kvKey (kwRecord i) = kvKey (kwRecord i')"
  shows "kwBucket i = kwBucket i' \<and> kwBucket i \<in> set (uwBuckets w)"
proof -
  let ?s = "tblSchema (uwTable w)" and ?f = "valueOf vals" and ?g = "valueOf vals'"
  let ?m = "columnsByName ?s"
  obtain k1 h1 where e1: "encodeKeyLoop ?m (PrimaryKey ?s) (map ?f (PrimaryKey ?s)) [] = Inr (kvKey (kwRecord i))"
    "encodeKeyLoop ?m (bucketNames ?s) (map ?f (bucketNames ?s)) [] = Inr k1" "flussBucket k1 (int (length (uwBuckets w))) = Inr h1"
    "go_index (uwBuckets w) (sint h1) = Inr (kwBucket i)"
    using assms(1) by (auto simp: enqueueMutation_def EncodePrimaryKey_def encodeKeyColumns_def Let_def)
  obtain k2 h2 where e2: "encodeKeyLoop ?m (PrimaryKey ?s) (map ?g (PrimaryKey ?s)) [] = Inr (kvKey (kwRecord i'))"
    "encodeKeyLoop ?m (bucketNames ?s) (map ?g (bucketNames ?s)) [] = Inr k2" "flussBucket k2 (int (length (uwBuckets w))) = Inr h2"
    "go_index (uwBuckets w) (sint h2) = Inr (kwBucket i')"
    using assms(2) by (auto simp: enqueueMutation_def EncodePrimaryKey_def encodeKeyColumns_def Let_def)
  have sub: "set (bucketNames ?s) \<subseteq> set (PrimaryKey ?s)" using assms(3) by (simp add: validUpsertStatic_def bucketNames_def)
  have "k1 = k2"
    by (rule encodeKeyLoop_cong_bytes [OF e1(2) e2(2)])
      (use encodeKeyLoop_column_bytes [OF e1(1) assms(4) e2(1) assms(5), of "[]" "[]"] assms(6) sub in auto)
  then show ?thesis using e1(3,4) e2(3,4) by (auto dest: go_index_mem)
qed

theorem mutations_of_key_same_bucket_witness:
  "\<exists>i i'. prepareUpsert exKVStatic False exKVRow 0 = Inr i
     \<and> prepareDelete exKVStatic False [VInt32 300, VString [0x61]] 1 = Inr i' \<and> kwBucket i = kwBucket i'"
proof -
  let ?v = "map_of (rev (zip [''id'', ''note'', ''tags''] exKVRow))"
  let ?v' = "map_of (rev (zip [''id'', ''note''] [VInt32 300, VString [0x61]]))"
  let ?i' = "\<lparr>kwRecord = \<lparr>kvKey = [172, 2, 1, 97], kvValue = None\<rparr>, kwBucket = 0, kwTargets = [], kwSize = 12, kwFuture = 1\<rparr>"
  have p: "prepareUpsert exKVStatic False exKVRow 0 = Inr exKVItem"
    "prepareDelete exKVStatic False [VInt32 300, VString [0x61]] 1 = Inr ?i'" by code_simp+
  have e: "enqueueMutation exKVStatic ?v (Some [4, 172, 2, 1, 97]) [] 0 = Inr exKVItem"
    "enqueueMutation exKVStatic ?v' None [] 1 = Inr ?i'" by code_simp+
  have "\<forall>name. wfValue (valueOf ?v name)" "\<forall>name. wfValue (valueOf ?v' name)"
    by (auto simp: valueOf_def exKVRow_def)
  from mutations_of_key_same_bucket [OF e exKVStatic_valid this] have "kwBucket exKVItem = kwBucket ?i'"
    by (simp add: exKVItem_def)
  with p show ?thesis by blast
qed

section \<open>Flush and close\<close>

text \<open>
  A flush of the upsert writer is complete: when the loop answers a flush or a close (it is in \<^verbatim>\<open>flushAll\<close>
  and no request is in flight), a future without a result belongs to a mutation that has not been taken from
  the queue; and when it answers a close, to a call that has not been let in.
\<close>

theorem upsert_flush_complete:
  assumes "upsert_reachable w s" and "validUpsertStatic w"
    and "usMode s = Flushing err \<or> usMode s = Closing err" and "\<not> inFlight (usSched s) > 0"
    and "f < usNext s" and "futData (usFutures s f) = None"
  shows "f \<in> kwFuture ` (set (usEntering s) \<union> set (kvItemsOf (usCommands s)))
    \<and> (usMode s = Closing err \<longrightarrow> f \<in> kwFuture ` set (usEntering s))"
proof -
  note run = upsert_run [OF assms(1,2)]
  have inv: "upsert_inv w s" using upsert.run_refines [OF run] by blast
  have "\<forall>b. openKV s b = []" using inv assms(3) by (auto simp: upsert_inv_def kv_mode_inv_def)
  moreover have "0 < ucMaxConcurrentRequests (uwConfig w)" using assms(2) by (simp add: validUpsertStatic_def validUpsertConfig_def)
  ultimately have wait: "waiting (upsertParams w) (kvView [] s)
      = futuresOf (upsertParams w) (usEntering s) + futuresOf (upsertParams w) (kvItemsOf (usCommands s))"
    using upsert.run_idle [OF run] assms(4) by simp
  have "count (waiting (upsertParams w) (kvView [] s)) f = 1"
    using upsert.run_conserves [OF run] assms(5,6) by simp
  then have "f \<in># waiting (upsertParams w) (kvView [] s)" by (metis count_inI zero_neq_one)
  then have "f \<in> kwFuture ` (set (usEntering s) \<union> set (kvItemsOf (usCommands s)))" by (auto simp: wait futuresOf_def)
  moreover have "usCommands s = []" if "usMode s = Closing err"
    using inv that by (simp add: upsert_inv_def kv_close_inv_def)
  ultimately show ?thesis by auto
qed

definition exKVClosing :: upsert_state where
  "exKVClosing = takeKVSlot exKVItem (newUpsertState\<lparr>usClosed := True, usMode := Closing None\<rparr>)"

lemma exKVClosing_reachable: "upsert_reachable exKVStatic exKVClosing"
proof -
  let ?s1 = "newUpsertState\<lparr>usClosed := True, usCommands := [UCmdClose]\<rparr>"
  let ?s2 = "newUpsertState\<lparr>usClosed := True, usMode := Closing None\<rparr>"
  have "upsert_step exKVStatic newUpsertState ?s1"
    using upsert_step.close_call [of newUpsertState exKVStatic]
    by (simp add: newUpsertState_def kvQueueFull_def exKVStatic_def defaultUpsertConfig_def)
  moreover have "upsert_step exKVStatic ?s1 ?s2"
    using upsert_step.loop_close [of ?s1 "[]" exKVStatic "\<lambda>_. 0" None "newUpsertState\<lparr>usClosed := True\<rparr>"]
    by (simp add: newUpsertState_def queueAllKV_def stopKVTimer_def exKVStatic_def flushKVBucket_def joinErr_def)
  moreover have "upsert_step exKVStatic ?s2 exKVClosing"
  proof -
    have "prepareUpsert exKVStatic False exKVRow 0 = Inr exKVItem" by code_simp
    then show ?thesis
      unfolding exKVClosing_def by (intro upsert_step.call_slot [where call = "prepareUpsert exKVStatic False exKVRow"])
        (auto simp: mutationBy_def newUpsertState_def exKVStatic_def defaultUpsertConfig_def)
  qed
  ultimately show ?thesis
    unfolding upsert_reachable_def by (meson converse_rtranclp_into_rtranclp rtranclp.rtrancl_refl)
qed

theorem upsert_flush_complete_witness:
  "usMode exKVClosing = Closing None \<and> 0 \<in> kwFuture ` set (usEntering exKVClosing)"
proof -
  have m: "usMode exKVClosing = Closing None" "\<not> inFlight (usSched exKVClosing) > 0" "0 < usNext exKVClosing"
    "futData (usFutures exKVClosing 0) = None" by code_simp+
  then show ?thesis using upsert_flush_complete [OF exKVClosing_reachable exKVStatic_valid _ m(2-4), of None] by simp
qed

end
