(* ===== verification/Transport.thy ===== *)
theory Transport
  imports Server_Errors
begin

text \<open>
  The RPC connection of \<^verbatim>\<open>internal/transport/connection.go\<close>: frames, the registration of requests, the write
  path with its decision to discard the connection, and the read loop. Concurrency is a step relation: any
  number of \<^verbatim>\<open>Request\<close> calls, the read loop and \<^verbatim>\<open>Close\<close> interleave at the points where the code takes and
  releases its locks.
\<close>

section \<open>Frames\<close>

definition requestHeaderSize :: nat where "requestHeaderSize = 8"
definition responseHeaderSize :: nat where "responseHeaderSize = 5"

text \<open>\<^verbatim>\<open>New\<close>: the limits of a connection (frame size, requests in flight).\<close>

definition newConnection :: "bool \<Rightarrow> int \<Rightarrow> int \<Rightarrow> (int \<times> int) result" where
  "newConnection nilConn maxFrameSize maxInFlight =
     guardE nilConn ErrInvalidArgument (
     let maxFrameSize = (if maxFrameSize = 0 then 67108864 else maxFrameSize);
         maxInFlight = (if maxInFlight = 0 then 1024 else maxInFlight)
     in guardE (maxFrameSize < int responseHeaderSize \<or> maxInFlight < 1) ErrInvalidArgument (
        Inr (maxFrameSize, maxInFlight)))"

text \<open>The frame that \<^verbatim>\<open>writeRequest\<close> builds: the four header fields and the body fill it exactly.\<close>

definition requestFrame :: "16 word \<Rightarrow> 16 word \<Rightarrow> 32 word \<Rightarrow> bytes \<Rightarrow> bytes" where
  "requestFrame apiKey version ident body =
     be_bytes 4 (of_nat (requestHeaderSize + length body) :: 32 word)
     @ be_bytes 2 apiKey @ be_bytes 2 version @ be_bytes 4 ident @ body"

text \<open>\<^verbatim>\<open>io.ReadFull\<close> on the bytes that arrive before the connection reports \<open>streamErr\<close>.\<close>

definition readFull :: "nat \<Rightarrow> bytes \<Rightarrow> go_error \<Rightarrow> (bytes \<times> bytes) result" where
  "readFull n stream streamErr =
     (if length stream \<ge> n then Inr (take n stream, drop n stream)
      else Inl (if streamErr = EOF \<and> stream \<noteq> [] then ErrUnexpectedEOF else streamErr))"

definition readFrame :: "int \<Rightarrow> bytes \<Rightarrow> go_error \<Rightarrow> (bytes \<times> bytes) result" where
  "readFrame maxFrame stream streamErr =
     andThen (readFull 4 stream streamErr) (\<lambda>(header, rest).
     let size = uint (be_word header :: 32 word)
     in guardE (size < 1) ErrMalformed (
        guardE (size > maxFrame) ErrFrameTooLarge (
        readFull (nat size) rest streamErr)))"

text \<open>What a request is answered with, and what a frame makes the read loop do. The identifier of the frame
  is kept in the answer. \<open>unmarshal\<close> stands for \<^verbatim>\<open>proto.Unmarshal\<close> of an error response (code and message).\<close>

datatype conn_answer = Body "32 word" bytes | RemoteFailure "32 word" go_error | ConnFailure go_error

datatype frame_effect = Deliver "32 word" conn_answer | FailConn go_error

definition handleFrame :: "(bytes \<Rightarrow> (int \<times> string) result) \<Rightarrow> bytes \<Rightarrow> frame_effect" where
  "handleFrame unmarshal frame =
     (case frame of
        [] \<Rightarrow> FailConn ErrMalformed
      | kind # rest \<Rightarrow>
          if kind = 0 then
            (if length frame < responseHeaderSize then FailConn ErrMalformed
             else (let ident = be_word (take 4 rest) in Deliver ident (Body ident (drop 4 rest))))
          else if kind = 1 then
            (if length frame < responseHeaderSize then FailConn ErrMalformed
             else
               (case unmarshal (drop 4 rest) of
                  Inl _ \<Rightarrow> FailConn ErrMalformed
                | Inr (code, msg) \<Rightarrow>
                    (let ident = be_word (take 4 rest) in Deliver ident (RemoteFailure ident (RemoteError code msg)))))
          else if kind = 2 then
            (case unmarshal rest of
               Inl _ \<Rightarrow> FailConn ErrMalformed
             | Inr (code, msg) \<Rightarrow> FailConn (RemoteError code msg))
          else FailConn ErrMalformed)"

text \<open>\<^verbatim>\<open>readLoop\<close> on the bytes that arrive: what it delivers, in order, and the error that ends it. A frame takes at
  least five bytes of the stream.\<close>

lemma readFrame_shorter: "readFrame maxFrame stream e = Inr (frame, rest) \<Longrightarrow> length rest < length stream"
  by (auto simp: readFrame_def readFull_def Let_def split: if_splits)

function readLoop :: "(bytes \<Rightarrow> (int \<times> string) result) \<Rightarrow> int \<Rightarrow> bytes \<Rightarrow> go_error \<Rightarrow>
  (32 word \<times> conn_answer) list \<times> go_error" where
  "readLoop unmarshal maxFrame stream streamErr =
     (case readFrame maxFrame stream streamErr of
        Inl e \<Rightarrow> ([], e)
      | Inr (frame, rest) \<Rightarrow>
          (case handleFrame unmarshal frame of
             FailConn e \<Rightarrow> ([], e)
           | Deliver ident answer \<Rightarrow>
               (case readLoop unmarshal maxFrame rest streamErr of (ds, e) \<Rightarrow> ((ident, answer) # ds, e))))"
  by pat_completeness auto
termination readLoop
  by (relation "measure (\<lambda>(_, _, stream, _). length stream)") (auto dest: readFrame_shorter)

declare readLoop.simps [simp del]

section \<open>Writing\<close>

text \<open>\<open>conn i\<close> is what the \<open>i\<close>-th \<^verbatim>\<open>Write\<close> returns; \<open>ctxErr\<close> and \<open>late\<close> (the deadline has passed) are read after
  a failed write.\<close>

definition interruptedWriteError :: "go_error option \<Rightarrow> bool \<Rightarrow> go_error \<Rightarrow> go_error" where
  "interruptedWriteError ctxErr late writeErr =
     (case ctxErr of Some e \<Rightarrow> e | None \<Rightarrow> if late then ErrDeadlineExceeded else writeErr)"

function writeFrame :: "(nat \<Rightarrow> int \<times> go_error option) \<Rightarrow> go_error option \<Rightarrow> bool \<Rightarrow> nat \<Rightarrow> int \<Rightarrow> nat \<Rightarrow>
  int \<times> go_error option" where
  "writeFrame conn ctxErr late i sofar remaining =
     (if remaining = 0 then (sofar, None)
      else
        (case conn i of (written, err) \<Rightarrow>
           if written < 0 \<or> written > int remaining then (sofar, Some ErrShortWrite)
           else
             (case err of
                Some e \<Rightarrow> (sofar + written, Some (interruptedWriteError ctxErr late e))
              | None \<Rightarrow>
                  if written = 0 then (sofar, Some ErrShortWrite)
                  else writeFrame conn ctxErr late (Suc i) (sofar + written) (remaining - nat written))))"
  by pat_completeness auto
termination writeFrame
  by (relation "measure (\<lambda>(_, _, _, _, _, remaining). remaining)") auto

declare writeFrame.simps [simp del]

text \<open>What \<^verbatim>\<open>writeRequest\<close> meets: the context before it writes and whether it has a deadline, the answers of
  \<^verbatim>\<open>SetWriteDeadline\<close> when the deadline is set and cleared, whether the context ended meanwhile, and the writes.\<close>

record write_env =
  weCtxErr :: "go_error option"
  weDeadline :: bool
  weSetErr :: "go_error option"
  weInterrupted :: bool
  weClearErr :: "go_error option"
  weConn :: "nat \<Rightarrow> int \<times> go_error option"
  weCtxErrLate :: "go_error option"
  weLate :: bool

definition joinedErr :: "go_error option \<Rightarrow> go_error \<Rightarrow> go_error" where
  "joinedErr a b = (case a of None \<Rightarrow> b | Some e \<Rightarrow> Joined e b)"

text \<open>\<^verbatim>\<open>prepareWrite\<close> (whether the deadline was set) and the function it returns.\<close>

definition prepareWrite :: "write_env \<Rightarrow> bool result" where
  "prepareWrite env =
     (if weDeadline env then (case weSetErr env of Some e \<Rightarrow> Inl e | None \<Rightarrow> Inr True) else Inr False)"

definition finishWrite :: "write_env \<Rightarrow> bool \<Rightarrow> go_error option" where
  "finishWrite env deadlineSet = (if \<not> deadlineSet \<and> \<not> weInterrupted env then None else weClearErr env)"

text \<open>The result: bytes written, whether the connection is to be discarded, the error.\<close>

definition writeRequest :: "write_env \<Rightarrow> bytes \<Rightarrow> int \<times> bool \<times> go_error option" where
  "writeRequest env frame =
     (case weCtxErr env of
        Some e \<Rightarrow> (0, False, Some e)
      | None \<Rightarrow>
          (case prepareWrite env of
             Inl e \<Rightarrow> (0, True, Some e)
           | Inr deadlineSet \<Rightarrow>
               (case writeFrame (weConn env) (weCtxErrLate env) (weLate env) 0 0 (length frame) of
                  (written, writeErr) \<Rightarrow>
                    (case finishWrite env deadlineSet of
                       Some e \<Rightarrow> (written, True, Some (joinedErr writeErr e))
                     | None \<Rightarrow>
                         (case writeErr of
                            None \<Rightarrow> (written, False, None)
                          | Some e \<Rightarrow>
                              (written,
                               written \<noteq> 0 \<or> (\<not> errorsIs e ErrCanceled \<and> \<not> errorsIs e ErrDeadlineExceeded),
                               Some e))))))"

section \<open>The connection\<close>

text \<open>Where a call of \<^verbatim>\<open>Request\<close> is: waiting for a slot, with a slot, registered under an identifier and about to
  write, waiting for its answer, returned.\<close>

datatype call_phase = NoCall | Entering | HasSlot | Registered "32 word" | Waiting "32 word" | Returned conn_answer

text \<open>\<open>cnPending\<close> maps an identifier to the call that owns its channel, \<open>cnInbox\<close> is the content of the channel
  of a call, \<open>cnPosting\<close> holds the answers that have been taken for a call and not been put in its channel yet.\<close>

record conn_state =
  cnNextID :: "32 word"
  cnPending :: "32 word \<rightharpoonup> nat"
  cnInbox :: "nat \<rightharpoonup> conn_answer"
  cnPosting :: "(nat \<times> conn_answer) list"
  cnClosed :: bool
  cnCloseErr :: "go_error option"
  cnSlots :: nat
  cnCalls :: "nat \<Rightarrow> call_phase"
  cnNextCall :: nat

definition newConnState :: conn_state where
  "newConnState = \<lparr>cnNextID = 0, cnPending = Map.empty, cnInbox = Map.empty, cnPosting = [], cnClosed = False,
     cnCloseErr = None, cnSlots = 0, cnCalls = (\<lambda>_. NoCall), cnNextCall = 0\<rparr>"

definition connErr :: "conn_state \<Rightarrow> go_error" where
  "connErr c = (case cnCloseErr c of None \<Rightarrow> ErrTransportClosed | Some e \<Rightarrow> e)"

text \<open>The loop of \<^verbatim>\<open>register\<close>: at most \<^verbatim>\<open>2^32 - 1\<close> identifiers are tried; \<open>n\<close> counts those that are left.\<close>

definition nextID :: "32 word \<Rightarrow> 32 word" where
  "nextID ident = (if sint (ident + 1) \<le> 0 then 1 else ident + 1)"

fun registerLoop :: "nat \<Rightarrow> 32 word \<Rightarrow> (32 word \<Rightarrow> bool) \<Rightarrow> 32 word option \<times> 32 word" where
  "registerLoop 0 ident taken = (None, ident)"
| "registerLoop (Suc n) ident taken =
     (let ident = nextID ident in if \<not> taken ident then (Some ident, ident) else registerLoop n ident taken)"

definition maxRegisterTries :: nat where "maxRegisterTries = 4294967295"

definition register :: "nat \<Rightarrow> conn_state \<Rightarrow> (go_error + 32 word) \<times> conn_state" where
  "register call c =
     (if cnClosed c then (Inl (connErr c), c)
      else
        (case registerLoop maxRegisterTries (cnNextID c) (\<lambda>ident. cnPending c ident \<noteq> None) of
           (None, ident) \<Rightarrow> (Inl ErrTransportClosed, c\<lparr>cnNextID := ident\<rparr>)
         | (Some ident, _) \<Rightarrow> (Inr ident, c\<lparr>cnNextID := ident, cnPending := (cnPending c)(ident \<mapsto> call)\<rparr>)))"

definition unregister :: "32 word \<Rightarrow> conn_state \<Rightarrow> conn_state" where
  "unregister ident c = c\<lparr>cnPending := (cnPending c)(ident := None)\<rparr>"

text \<open>\<^verbatim>\<open>takePending\<close>, the first part of \<^verbatim>\<open>deliver\<close>: an answer nobody waits for is dropped.\<close>

definition takePending :: "32 word \<Rightarrow> conn_answer \<Rightarrow> conn_state \<Rightarrow> conn_state" where
  "takePending ident answer c =
     (case cnPending c ident of
        None \<Rightarrow> c
      | Some call \<Rightarrow> c\<lparr>cnPending := (cnPending c)(ident := None), cnPosting := cnPosting c @ [(call, answer)]\<rparr>)"

text \<open>\<^verbatim>\<open>complete\<close>: a channel holds one answer, a second one is dropped.\<close>

definition postAnswer :: "nat \<Rightarrow> conn_answer \<Rightarrow> conn_state \<Rightarrow> conn_state" where
  "postAnswer call answer c =
     c\<lparr>cnPosting := remove1 (call, answer) (cnPosting c),
       cnInbox := (if cnInbox c call = None then (cnInbox c)(call \<mapsto> answer) else cnInbox c)\<rparr>"

text \<open>\<^verbatim>\<open>fail\<close>. The order in which the map of the pending channels is iterated is \<open>order\<close>.\<close>

definition failOrder :: "conn_state \<Rightarrow> nat list \<Rightarrow> bool" where
  "failOrder c order \<longleftrightarrow> distinct order \<and> set order = ran (cnPending c)"

definition failConn :: "go_error \<Rightarrow> nat list \<Rightarrow> conn_state \<Rightarrow> conn_state" where
  "failConn err order c =
     (if cnClosed c then c
      else c\<lparr>cnClosed := True, cnCloseErr := Some err, cnPending := Map.empty,
             cnPosting := cnPosting c @ map (\<lambda>call. (call, ConnFailure err)) order\<rparr>)"

text \<open>The deferred calls of \<^verbatim>\<open>Request\<close>: the slot is given back, the identifier unregistered.\<close>

definition finishCall :: "nat \<Rightarrow> conn_answer \<Rightarrow> conn_state \<Rightarrow> conn_state" where
  "finishCall call answer c =
     (case cnCalls c call of
        Registered ident \<Rightarrow> (unregister ident c)\<lparr>cnSlots := cnSlots c - 1, cnCalls := (cnCalls c)(call := Returned answer)\<rparr>
      | Waiting ident \<Rightarrow> (unregister ident c)\<lparr>cnSlots := cnSlots c - 1, cnCalls := (cnCalls c)(call := Returned answer)\<rparr>
      | HasSlot \<Rightarrow> c\<lparr>cnSlots := cnSlots c - 1, cnCalls := (cnCalls c)(call := Returned answer)\<rparr>
      | _ \<Rightarrow> c\<lparr>cnCalls := (cnCalls c)(call := Returned answer)\<rparr>)"

inductive conn_step :: "int \<Rightarrow> conn_state \<Rightarrow> conn_state \<Rightarrow> bool" for maxInFlight :: int where
  call: "conn_step maxInFlight c (c\<lparr>cnCalls := (cnCalls c)(cnNextCall c := Entering), cnNextCall := cnNextCall c + 1\<rparr>)"
| give_up: "cnCalls c k = Entering \<Longrightarrow>
     e \<in> {ErrCanceled, ErrDeadlineExceeded} \<or> cnClosed c \<and> e = connErr c \<Longrightarrow>
     conn_step maxInFlight c (finishCall k (ConnFailure e) c)"
| slot: "cnCalls c k = Entering \<Longrightarrow> int (cnSlots c) < maxInFlight \<Longrightarrow>
     conn_step maxInFlight c (c\<lparr>cnSlots := cnSlots c + 1, cnCalls := (cnCalls c)(k := HasSlot)\<rparr>)"
| slot_cancelled: "cnCalls c k = HasSlot \<Longrightarrow> e \<in> {ErrCanceled, ErrDeadlineExceeded} \<Longrightarrow>
     conn_step maxInFlight c (finishCall k (ConnFailure e) c)"
| register_failed: "cnCalls c k = HasSlot \<Longrightarrow> register k c = (Inl e, c') \<Longrightarrow>
     conn_step maxInFlight c (finishCall k (ConnFailure e) c')"
| registered: "cnCalls c k = HasSlot \<Longrightarrow> register k c = (Inr ident, c') \<Longrightarrow>
     conn_step maxInFlight c (c'\<lparr>cnCalls := (cnCalls c')(k := Registered ident)\<rparr>)"
| written: "cnCalls c k = Registered ident \<Longrightarrow> writeRequest env frame = (n, False, None) \<Longrightarrow>
     conn_step maxInFlight c (c\<lparr>cnCalls := (cnCalls c)(k := Waiting ident)\<rparr>)"
| not_written: "cnCalls c k = Registered ident \<Longrightarrow> writeRequest env frame = (n, False, Some e) \<Longrightarrow>
     conn_step maxInFlight c (finishCall k (ConnFailure e) c)"
| discarded: "cnCalls c k = Registered ident \<Longrightarrow> writeRequest env frame = (n, True, Some e) \<Longrightarrow> failOrder c order \<Longrightarrow>
     conn_step maxInFlight c (finishCall k (ConnFailure (Joined e ErrTransportClosed)) (failConn ErrTransportClosed order c))"
| answered: "cnCalls c k = Waiting ident \<Longrightarrow> cnInbox c k = Some answer \<Longrightarrow>
     conn_step maxInFlight c (finishCall k answer c)"
| wait_cancelled: "cnCalls c k = Waiting ident \<Longrightarrow> e \<in> {ErrCanceled, ErrDeadlineExceeded} \<Longrightarrow>
     conn_step maxInFlight c (finishCall k (ConnFailure e) c)"
| wait_closed: "cnCalls c k = Waiting ident \<Longrightarrow> cnClosed c \<Longrightarrow>
     conn_step maxInFlight c (finishCall k (ConnFailure (connErr c)) c)"
| deliver: "handleFrame unmarshal frame = Deliver ident answer \<Longrightarrow> conn_step maxInFlight c (takePending ident answer c)"
| post: "(k, answer) \<in> set (cnPosting c) \<Longrightarrow> conn_step maxInFlight c (postAnswer k answer c)"
| frame_failed: "handleFrame unmarshal frame = FailConn e \<Longrightarrow> failOrder c order \<Longrightarrow>
     conn_step maxInFlight c (failConn e order c)"
| read_failed: "readFrame maxFrame stream streamErr = Inl e \<Longrightarrow> failOrder c order \<Longrightarrow>
     conn_step maxInFlight c (failConn e order c)"
| close: "failOrder c order \<Longrightarrow> conn_step maxInFlight c (failConn ErrTransportClosed order c)"

definition conn_reachable :: "int \<Rightarrow> conn_state \<Rightarrow> bool" where
  "conn_reachable maxInFlight c \<longleftrightarrow> (conn_step maxInFlight)\<^sup>*\<^sup>* newConnState c"

text \<open>The end of \<^verbatim>\<open>Request\<close> and its checks at the start; \<open>unmarshalResponse\<close> is \<^verbatim>\<open>Unmarshal\<close> of the response message
  (\<open>None\<close> when there is no constructor for it).\<close>

definition prepareRequest :: "int \<Rightarrow> bool \<Rightarrow> go_error option \<Rightarrow> bytes result \<Rightarrow> bytes result" where
  "prepareRequest maxFrame nilRequest ctxErr marshal =
     guardE nilRequest ErrInvalidArgument (
     case ctxErr of
       Some e \<Rightarrow> Inl e
     | None \<Rightarrow>
         andThen marshal (\<lambda>body.
         guardE (int (length body) + int requestHeaderSize > maxFrame) ErrFrameTooLarge (Inr body)))"

definition finishRequest :: "(bytes \<Rightarrow> 'm result) option \<Rightarrow> conn_answer \<Rightarrow> 'm result" where
  "finishRequest unmarshalResponse answer =
     (case answer of
        ConnFailure e \<Rightarrow> Inl e
      | RemoteFailure ident e \<Rightarrow> Inl e
      | Body ident body \<Rightarrow>
          (case unmarshalResponse of None \<Rightarrow> Inl ErrMalformed | Some f \<Rightarrow> f body))"

end
