(* ===== verification/Counting.thy ===== *)
theory Counting
  imports Main
begin

text \<open>
  Counting the members of a growing family of goroutines that are in a given phase. Step relations number the
  goroutines they start; a step moves one of them to another phase or starts the next.
\<close>

definition countWhere :: "('a \<Rightarrow> bool) \<Rightarrow> (nat \<Rightarrow> 'a) \<Rightarrow> nat \<Rightarrow> nat" where
  "countWhere P f n = (\<Sum>k < n. if P (f k) then 1 else 0)"

lemma countWhere_update:
  assumes "k < n"
  shows "countWhere P (f(k := p)) n + (if P (f k) then 1 else 0) = countWhere P f n + (if P p then 1 else 0)"
proof -
  have fin: "finite {..<n}" "k \<in> {..<n}" using assms by simp_all
  have "(\<Sum>j \<in> {..<n} - {k}. if P ((f(k := p)) j) then 1 else (0 :: nat)) = (\<Sum>j \<in> {..<n} - {k}. if P (f j) then 1 else 0)"
    by (rule sum.cong) auto
  then show ?thesis by (simp add: countWhere_def sum.remove [OF fin])
qed

lemma countWhere_same: "k < n \<Longrightarrow> P p = P (f k) \<Longrightarrow> countWhere P (f(k := p)) n = countWhere P f n"
  using countWhere_update [of k n P f p] by (simp split: if_splits)

lemma countWhere_leave: "k < n \<Longrightarrow> P (f k) \<Longrightarrow> \<not> P p \<Longrightarrow> Suc (countWhere P (f(k := p)) n) = countWhere P f n"
  using countWhere_update [of k n P f p] by simp

lemma countWhere_Suc: "countWhere P (f(n := p)) (Suc n) = countWhere P f n + (if P p then 1 else 0)"
  by (simp add: countWhere_def)

lemma countWhere_ge: "k < n \<Longrightarrow> P (f k) \<Longrightarrow> 1 \<le> countWhere P f n"
  using sum.remove [of "{..<n}" k "\<lambda>k. if P (f k) then 1 else (0 :: nat)"] by (simp add: countWhere_def)

lemma countWhere_card: "countWhere P f n = card {k. k < n \<and> P (f k)}"
  by (simp add: countWhere_def sum.If_cases lessThan_def Int_def)

lemma countWhere_0_iff: "countWhere P f n = 0 \<longleftrightarrow> (\<forall>k < n. \<not> P (f k))"
  by (auto simp: countWhere_card)

end
