(* ===== verification/Transport_Invariants.thy ===== *)
theory Transport_Invariants
  imports Transport Counting
begin

text \<open>
  The invariant of a connection, for runs in which the identifiers have not wrapped around: registered calls own
  distinct identifiers, every one of them is in exactly one of the pending map, the answers about to be posted
  and its own channel, and the slots in use are those of the calls that hold one.
\<close>

section \<open>Counting calls\<close>

definition regID :: "call_phase \<Rightarrow> 32 word option" where
  "regID p = (case p of Registered i \<Rightarrow> Some i | Waiting i \<Rightarrow> Some i | _ \<Rightarrow> None)"

definition earlyPhase :: "call_phase \<Rightarrow> bool" where "earlyPhase p \<longleftrightarrow> p = Entering \<or> p = HasSlot"

definition slotPhase :: "call_phase \<Rightarrow> bool" where "slotPhase p \<longleftrightarrow> p = HasSlot \<or> regID p \<noteq> None"

definition callsIn :: "(call_phase \<Rightarrow> bool) \<Rightarrow> conn_state \<Rightarrow> nat" where
  "callsIn P c = countWhere P (cnCalls c) (cnNextCall c)"

lemma regID_simps [simp]:
  "regID NoCall = None" "regID Entering = None" "regID HasSlot = None" "regID (Registered i) = Some i"
  "regID (Waiting i) = Some i" "regID (Returned a) = None"
  by (simp_all add: regID_def)

lemma phase_simps [simp]:
  "\<not> earlyPhase NoCall" "earlyPhase Entering" "earlyPhase HasSlot" "\<not> earlyPhase (Registered i)"
  "\<not> earlyPhase (Waiting i)" "\<not> earlyPhase (Returned a)"
  "\<not> slotPhase NoCall" "\<not> slotPhase Entering" "slotPhase HasSlot" "slotPhase (Registered i)"
  "slotPhase (Waiting i)" "\<not> slotPhase (Returned a)"
  by (simp_all add: earlyPhase_def slotPhase_def)

lemma callsIn_cong:
  "cnCalls c' = cnCalls c \<Longrightarrow> cnNextCall c' = cnNextCall c \<Longrightarrow> callsIn P c' = callsIn P c"
  by (simp add: callsIn_def)

lemma callsIn_update:
  assumes "k < cnNextCall c" "cnCalls c' = (cnCalls c)(k := p)" "cnNextCall c' = cnNextCall c"
  shows "callsIn P c' + (if P (cnCalls c k) then 1 else 0) = callsIn P c + (if P p then 1 else 0)"
  by (simp add: callsIn_def assms(2,3) countWhere_update [OF assms(1)])

lemma callsIn_enter:
  assumes "cnCalls c' = (cnCalls c)(cnNextCall c := p)" "cnNextCall c' = Suc (cnNextCall c)"
  shows "callsIn P c' = callsIn P c + (if P p then 1 else 0)"
  by (simp add: callsIn_def assms countWhere_Suc)

lemma callsIn_ge:
  assumes "k < cnNextCall c" "P (cnCalls c k)" shows "1 \<le> callsIn P c"
  unfolding callsIn_def using assms by (rule countWhere_ge)

section \<open>The invariant\<close>

fun answerFits :: "conn_answer \<Rightarrow> 32 word \<Rightarrow> bool" where
  "answerFits (Body j body) i = (j = i)"
| "answerFits (RemoteFailure j e) i = (j = i)"
| "answerFits (ConnFailure e) i = True"

definition conn_ids :: "conn_state \<Rightarrow> bool" where
  "conn_ids c \<longleftrightarrow>
     (\<forall>k \<ge> cnNextCall c. cnCalls c k = NoCall)
     \<and> uint (cnNextID c) + int (callsIn earlyPhase c) \<le> int (cnNextCall c)
     \<and> (\<forall>k i. regID (cnCalls c k) = Some i \<longrightarrow> 0 < uint i \<and> uint i \<le> uint (cnNextID c))
     \<and> (\<forall>k l i. regID (cnCalls c k) = Some i \<and> regID (cnCalls c l) = Some i \<longrightarrow> k = l)
     \<and> (\<forall>i k. cnPending c i = Some k \<longrightarrow> regID (cnCalls c k) = Some i)"

definition conn_answers :: "conn_state \<Rightarrow> bool" where
  "conn_answers c \<longleftrightarrow>
     (\<forall>k i. regID (cnCalls c k) = Some i \<longrightarrow>
        cnPending c i = Some k \<or> (\<exists>a. (k, a) \<in> set (cnPosting c)) \<or> cnInbox c k \<noteq> None)
     \<and> (\<forall>i k a. cnPending c i = Some k \<longrightarrow> (k, a) \<notin> set (cnPosting c) \<and> cnInbox c k = None)
     \<and> (\<forall>k a. (k, a) \<in> set (cnPosting c) \<longrightarrow> cnInbox c k = None)
     \<and> distinct (map fst (cnPosting c))
     \<and> (\<forall>k a. (k, a) \<in> set (cnPosting c) \<or> cnInbox c k = Some a \<longrightarrow>
          (\<exists>r. cnCalls c k = Returned r) \<or> (\<exists>i. regID (cnCalls c k) = Some i \<and> answerFits a i))"

definition conn_slots :: "int \<Rightarrow> conn_state \<Rightarrow> bool" where
  "conn_slots maxInFlight c \<longleftrightarrow> cnSlots c = callsIn slotPhase c \<and> (cnSlots c = 0 \<or> int (cnSlots c) \<le> maxInFlight)
     \<and> (cnClosed c \<longrightarrow> cnPending c = Map.empty) \<and> (cnClosed c \<longleftrightarrow> cnCloseErr c \<noteq> None)"

definition conn_inv :: "int \<Rightarrow> conn_state \<Rightarrow> bool" where
  "conn_inv maxInFlight c \<longleftrightarrow> conn_ids c \<and> conn_answers c \<and> conn_slots maxInFlight c"

lemma conn_inv_init: "conn_inv maxInFlight newConnState"
  by (simp add: conn_inv_def conn_ids_def conn_answers_def conn_slots_def newConnState_def callsIn_def countWhere_def)

lemma conn_inv_known: "conn_inv m c \<Longrightarrow> cnCalls c k \<noteq> NoCall \<Longrightarrow> k < cnNextCall c"
  by (auto simp: conn_inv_def conn_ids_def not_less [symmetric])

lemma pending_reg: "conn_inv m c \<Longrightarrow> cnPending c i = Some k \<Longrightarrow> regID (cnCalls c k) = Some i"
  unfolding conn_inv_def conn_ids_def by blast

lemma reg_inj: "conn_inv m c \<Longrightarrow> regID (cnCalls c k) = Some i \<Longrightarrow> regID (cnCalls c l) = Some i \<Longrightarrow> k = l"
  unfolding conn_inv_def conn_ids_def by blast

lemma reg_bound: "conn_inv m c \<Longrightarrow> regID (cnCalls c k) = Some i \<Longrightarrow> 0 < uint i \<and> uint i \<le> uint (cnNextID c)"
  unfolding conn_inv_def conn_ids_def by blast

lemma reg_somewhere:
  "conn_inv m c \<Longrightarrow> regID (cnCalls c k) = Some i \<Longrightarrow>
     cnPending c i = Some k \<or> (\<exists>a. (k, a) \<in> set (cnPosting c)) \<or> cnInbox c k \<noteq> None"
  unfolding conn_inv_def conn_answers_def by blast

lemma pending_only:
  assumes "conn_inv m c" "cnPending c i = Some k"
  shows "(k, a) \<notin> set (cnPosting c)" "cnInbox c k = None"
  using assms unfolding conn_inv_def conn_answers_def by blast+

lemma posting_only: "conn_inv m c \<Longrightarrow> (k, a) \<in> set (cnPosting c) \<Longrightarrow> cnInbox c k = None"
  unfolding conn_inv_def conn_answers_def by blast

lemma posting_distinct: "conn_inv m c \<Longrightarrow> distinct (map fst (cnPosting c))"
  unfolding conn_inv_def conn_answers_def by blast

lemma answer_owner:
  "conn_inv m c \<Longrightarrow> (k, a) \<in> set (cnPosting c) \<or> cnInbox c k = Some a \<Longrightarrow>
     (\<exists>r. cnCalls c k = Returned r) \<or> (\<exists>i. regID (cnCalls c k) = Some i \<and> answerFits a i)"
  unfolding conn_inv_def conn_answers_def by blast

section \<open>The steps keep it\<close>

text \<open>A returning call gives up its identifier and its slot.\<close>

lemma finishCall_fields:
  "cnCalls (finishCall k a c) = (cnCalls c)(k := Returned a)"
  "cnNextCall (finishCall k a c) = cnNextCall c" "cnNextID (finishCall k a c) = cnNextID c"
  "cnPosting (finishCall k a c) = cnPosting c" "cnInbox (finishCall k a c) = cnInbox c"
  "cnClosed (finishCall k a c) = cnClosed c" "cnCloseErr (finishCall k a c) = cnCloseErr c"
  "cnSlots (finishCall k a c) = (if slotPhase (cnCalls c k) then cnSlots c - 1 else cnSlots c)"
  "cnPending (finishCall k a c) = (case regID (cnCalls c k) of None \<Rightarrow> cnPending c | Some i \<Rightarrow> (cnPending c)(i := None))"
  by (simp_all add: finishCall_def unregister_def split: call_phase.split)

lemma finishCall_inv:
  assumes inv: "conn_inv m c" and k: "k < cnNextCall c"
  shows "conn_inv m (finishCall k a c)"
proof -
  let ?c = "finishCall k a c"
  note ids = inv [unfolded conn_inv_def conn_ids_def] and ans = inv [unfolded conn_inv_def conn_answers_def]
    and slots = inv [unfolded conn_inv_def conn_slots_def]
  have upd: "callsIn P ?c + (if P (cnCalls c k) then 1 else 0) = callsIn P c + (if P (Returned a) then 1 else 0)" for P
    by (rule callsIn_update [OF k]) (simp_all add: finishCall_fields)
  have pend: "cnPending ?c i = Some l \<longleftrightarrow> cnPending c i = Some l \<and> l \<noteq> k" for i l
    using ids by (cases "regID (cnCalls c k)") (auto simp: finishCall_fields)
  have "conn_ids ?c"
    unfolding conn_ids_def pend
    using ids k upd [of earlyPhase] by (auto simp: finishCall_fields split: if_splits)
  moreover have "conn_answers ?c"
    unfolding conn_answers_def pend using ans by (auto simp: finishCall_fields)
  moreover have "conn_slots m ?c"
  proof -
    have "cnSlots ?c = callsIn slotPhase ?c"
      using slots upd [of slotPhase] by (auto simp: finishCall_fields)
    moreover have "cnClosed c \<Longrightarrow> cnPending ?c = Map.empty"
      using slots pend by (intro ext) (metis option.exhaust option.distinct(1))
    moreover have "cnSlots ?c \<le> cnSlots c" by (simp add: finishCall_fields)
    ultimately show ?thesis using slots unfolding conn_slots_def finishCall_fields(6,7) by auto
  qed
  ultimately show ?thesis by (simp add: conn_inv_def)
qed


lemma enter_inv:
  assumes inv: "conn_inv m c"
  shows "conn_inv m (c\<lparr>cnCalls := (cnCalls c)(cnNextCall c := Entering), cnNextCall := cnNextCall c + 1\<rparr>)" (is "conn_inv m ?c")
proof -
  have no: "cnCalls c (cnNextCall c) = NoCall" using inv by (simp add: conn_inv_def conn_ids_def)
  have n: "callsIn P ?c = callsIn P c + (if P Entering then 1 else 0)" for P by (rule callsIn_enter) simp_all
  have reg: "regID (cnCalls ?c k) = regID (cnCalls c k)" for k using no by simp
  have ret: "(\<exists>r. cnCalls ?c k = Returned r) \<longleftrightarrow> (\<exists>r. cnCalls c k = Returned r)" for k using no by simp
  have "conn_ids ?c"
    using inv unfolding conn_inv_def conn_ids_def n reg by simp
  moreover have "conn_answers ?c"
    using inv unfolding conn_inv_def conn_answers_def reg ret by simp
  moreover have "conn_slots m ?c"
    using inv unfolding conn_inv_def conn_slots_def n by (elim conjE) simp
  ultimately show ?thesis by (simp add: conn_inv_def)
qed

text \<open>A call changes its phase and keeps its identifier, or has none before and after.\<close>

lemma phase_inv:
  assumes inv: "conn_inv m c" and p: "regID p = regID (cnCalls c k)" "\<And>r. p \<noteq> Returned r" "\<And>r. cnCalls c k \<noteq> Returned r"
    "cnCalls c k \<noteq> NoCall" "earlyPhase p = earlyPhase (cnCalls c k)"
    and c': "cnCalls c' = (cnCalls c)(k := p)" "cnNextCall c' = cnNextCall c" "cnNextID c' = cnNextID c"
      "cnPending c' = cnPending c" "cnInbox c' = cnInbox c" "cnPosting c' = cnPosting c"
      "cnClosed c' = cnClosed c" "cnCloseErr c' = cnCloseErr c"
    and slots: "cnSlots c' + (if slotPhase (cnCalls c k) then 1 else 0) = cnSlots c + (if slotPhase p then 1 else 0)"
      "cnSlots c' = 0 \<or> int (cnSlots c') \<le> m"
  shows "conn_inv m c'"
proof -
  have k: "k < cnNextCall c" by (rule conn_inv_known [OF inv p(4)])
  have upd: "callsIn P c' + (if P (cnCalls c k) then 1 else 0) = callsIn P c + (if P p then 1 else 0)" for P
    by (rule callsIn_update [OF k c'(1,2)])
  have reg: "regID (cnCalls c' l) = regID (cnCalls c l)" for l using p(1) by (simp add: c'(1))
  have ret: "(\<exists>r. cnCalls c' l = Returned r) \<longleftrightarrow> (\<exists>r. cnCalls c l = Returned r)" for l using p(2,3) by (simp add: c'(1))
  have no: "(\<forall>l \<ge> cnNextCall c. cnCalls c' l = NoCall) \<longleftrightarrow> (\<forall>l \<ge> cnNextCall c. cnCalls c l = NoCall)"
    using k by (auto simp: c'(1))
  have early: "callsIn earlyPhase c' = callsIn earlyPhase c" using upd [of earlyPhase] p(5) by simp
  have slot: "cnSlots c' = callsIn slotPhase c'"
  proof -
    have "cnSlots c = callsIn slotPhase c" using inv by (simp add: conn_inv_def conn_slots_def)
    then show ?thesis using upd [of slotPhase] slots(1) by (simp split: if_splits)
  qed
  have "conn_ids c'"
    using inv unfolding conn_inv_def conn_ids_def c'(2-) reg no early by (elim conjE) (intro conjI)
  moreover have "conn_answers c'"
    using inv unfolding conn_inv_def conn_answers_def c'(2-) reg ret by (elim conjE) (intro conjI)
  moreover have "conn_slots m c'"
    using inv slots(2) slot unfolding conn_inv_def conn_slots_def c'(2-) by blast
  ultimately show ?thesis by (simp add: conn_inv_def)
qed

lemma registerLoop_first:
  "0 < n \<Longrightarrow> \<not> taken (nextID i) \<Longrightarrow> registerLoop n i taken = (Some (nextID i), nextID i)"
  by (cases n) (simp_all add: Let_def)

text \<open>Without wrap-around the next identifier is free at once.\<close>

lemma register_fresh:
  assumes inv: "conn_inv m c" and k: "cnCalls c k = HasSlot" and n: "cnNextCall c < 2 ^ 31"
  shows "register k c = (if cnClosed c then (Inl (connErr c), c)
    else (Inr (cnNextID c + 1), c\<lparr>cnNextID := cnNextID c + 1, cnPending := (cnPending c)(cnNextID c + 1 \<mapsto> k)\<rparr>))"
    and "uint (cnNextID c + 1) = uint (cnNextID c) + 1"
proof -
  note ids = inv [unfolded conn_inv_def conn_ids_def]
  have "k < cnNextCall c" by (rule conn_inv_known [OF inv]) (simp add: k)
  then have "1 \<le> callsIn earlyPhase c" by (rule callsIn_ge) (simp add: k)
  then have le: "uint (cnNextID c) + 1 \<le> int (cnNextCall c)" using ids by linarith
  then have small: "uint (cnNextID c) + 1 < 2 ^ 31" using n by simp
  then show u: "uint (cnNextID c + 1) = uint (cnNextID c) + 1" by (simp add: uint_plus_simple_iff uint_word_ariths)
  have "0 < sint (cnNextID c + 1)"
    using small uint_ge_0 [of "cnNextID c"] by (simp add: sint_uint u signed_take_bit_int_eq_self)
  then have nx: "nextID (cnNextID c) = cnNextID c + 1" by (simp add: nextID_def)
  have "cnPending c (cnNextID c + 1) = None"
  proof (rule ccontr)
    assume "cnPending c (cnNextID c + 1) \<noteq> None"
    then obtain l where "regID (cnCalls c l) = Some (cnNextID c + 1)" using ids by blast
    then have "uint (cnNextID c + 1) \<le> uint (cnNextID c)" using ids by blast
    then show False using u by simp
  qed
  moreover have "registerLoop maxRegisterTries (cnNextID c) taken = (Some (cnNextID c + 1), cnNextID c + 1)"
    if "\<not> taken (cnNextID c + 1)" for taken
    using registerLoop_first [of maxRegisterTries taken "cnNextID c"] that by (simp add: maxRegisterTries_def nx)
  ultimately show "register k c = (if cnClosed c then (Inl (connErr c), c)
    else (Inr (cnNextID c + 1), c\<lparr>cnNextID := cnNextID c + 1, cnPending := (cnPending c)(cnNextID c + 1 \<mapsto> k)\<rparr>))"
    by (simp add: register_def)
qed


lemma registered_inv:
  assumes inv: "conn_inv m c" and k: "cnCalls c k = HasSlot" and n: "cnNextCall c < 2 ^ 31"
    and reg: "register k c = (Inr ident, c')"
  shows "conn_inv m (c'\<lparr>cnCalls := (cnCalls c')(k := Registered ident)\<rparr>)" (is "conn_inv m ?c")
proof -
  note ids = inv [unfolded conn_inv_def conn_ids_def] and ans = inv [unfolded conn_inv_def conn_answers_def]
    and slots = inv [unfolded conn_inv_def conn_slots_def]
  note fresh = register_fresh [OF inv k n]
  have opn: "\<not> cnClosed c" and ident: "ident = cnNextID c + 1"
    and c': "c' = c\<lparr>cnNextID := ident, cnPending := (cnPending c)(ident \<mapsto> k)\<rparr>"
    using reg fresh(1) by (auto split: if_splits)
  have u: "uint ident = uint (cnNextID c) + 1" using fresh(2) by (simp add: ident)
  have new: "regID (cnCalls c l) \<noteq> Some ident" for l using reg_bound [OF inv, of l ident] u by auto
  have free: "cnPending c ident \<noteq> Some l" for l using pending_reg [OF inv, of ident l] new by blast
  have kn: "k < cnNextCall c" by (rule conn_inv_known [OF inv]) (simp add: k)
  have upd: "callsIn P ?c + (if P HasSlot then 1 else 0) = callsIn P c + (if P (Registered ident) then 1 else 0)" for P
    using callsIn_update [OF kn, of ?c "Registered ident" P] by (simp add: c' k)
  have nk: "(k, a) \<notin> set (cnPosting c)" "cnInbox c k \<noteq> Some a" for a using answer_owner [OF inv, of k a] by (auto simp: k)
  have reg: "regID (cnCalls ?c l) = (if l = k then Some ident else regID (cnCalls c l))" for l by (simp add: c')
  have "conn_ids ?c"
    unfolding conn_ids_def reg
  proof (intro conjI allI impI)
    show "uint (cnNextID ?c) + int (callsIn earlyPhase ?c) \<le> int (cnNextCall ?c)"
      using ids upd [of earlyPhase] u by (simp add: c')
    show "0 < uint i" "uint i \<le> uint (cnNextID ?c)" if "(if l = k then Some ident else regID (cnCalls c l)) = Some i" for l i
      using that reg_bound [OF inv, of l i] u uint_ge_0 [of "cnNextID c"] by (auto simp: c' split: if_splits)
    show "(if l = k then Some ident else regID (cnCalls c l)) = Some i" if "cnPending ?c i = Some l" for i l
      using that pending_reg [OF inv, of i l] by (auto simp: c' k split: if_splits)
  qed (use ids kn new reg_inj [OF inv] in \<open>auto simp: c' split: if_splits\<close>)
  moreover have "conn_answers ?c"
    using ans nk free new unfolding conn_answers_def by (auto simp: c' k)
  moreover have "conn_slots m ?c"
    using slots upd [of slotPhase] opn unfolding conn_slots_def by (auto simp: c')
  ultimately show ?thesis by (simp add: conn_inv_def)
qed

lemma takePending_inv:
  assumes inv: "conn_inv m c" and fits: "answerFits answer ident"
  shows "conn_inv m (takePending ident answer c)"
proof (cases "cnPending c ident")
  case (Some k)
  note ids = inv [unfolded conn_inv_def conn_ids_def] and ans = inv [unfolded conn_inv_def conn_answers_def]
    and slots = inv [unfolded conn_inv_def conn_slots_def]
  let ?c = "takePending ident answer c"
  have k: "regID (cnCalls c k) = Some ident" by (rule pending_reg [OF inv Some])
  note nk = pending_only [OF inv Some]
  have pend: "cnPending ?c i = Some l \<longleftrightarrow> cnPending c i = Some l \<and> l \<noteq> k" for i l
    using pending_reg [OF inv, of i l] k Some by (cases "i = ident") (auto simp: takePending_def)
  have f: "cnCalls ?c = cnCalls c" "cnNextCall ?c = cnNextCall c" "cnNextID ?c = cnNextID c" "cnInbox ?c = cnInbox c"
    "cnPosting ?c = cnPosting c @ [(k, answer)]" "cnSlots ?c = cnSlots c" "cnClosed ?c = cnClosed c" "cnCloseErr ?c = cnCloseErr c"
    "callsIn P ?c = callsIn P c" for P
    by (simp_all add: takePending_def Some callsIn_def)
  have "conn_ids ?c" using ids unfolding conn_ids_def f pend by auto
  moreover have "conn_answers ?c"
  proof -
    have mem: "(l, a) \<in> set (cnPosting ?c) \<longleftrightarrow> (l, a) \<in> set (cnPosting c) \<or> l = k \<and> a = answer" for l a by (auto simp: f)
    have "distinct (map fst (cnPosting ?c))" using posting_distinct [OF inv] nk(1) by (auto simp: f)
    then show ?thesis
      unfolding conn_answers_def mem pend f(1,4)
    proof (intro conjI allI impI)
      fix l i
      assume "regID (cnCalls c l) = Some i"
      from reg_somewhere [OF inv this]
      show "cnPending c i = Some l \<and> l \<noteq> k \<or> (\<exists>a. (l, a) \<in> set (cnPosting c) \<or> l = k \<and> a = answer) \<or> cnInbox c l \<noteq> None"
        by blast
    next
      fix l a
      assume "((l, a) \<in> set (cnPosting c) \<or> l = k \<and> a = answer) \<or> cnInbox c l = Some a"
      then show "(\<exists>r. cnCalls c l = Returned r) \<or> (\<exists>i. regID (cnCalls c l) = Some i \<and> answerFits a i)"
        using answer_owner [OF inv, of l a] k fits by auto
    qed (use posting_only [OF inv] pending_only [OF inv] nk in auto)
  qed
  moreover have "conn_slots m ?c"
    using slots Some unfolding conn_slots_def f by auto
  ultimately show ?thesis by (simp add: conn_inv_def)
qed (simp add: takePending_def inv)

lemma postAnswer_inv:
  assumes inv: "conn_inv m c" and k: "(k, answer) \<in> set (cnPosting c)"
  shows "conn_inv m (postAnswer k answer c)"
proof -
  note ids = inv [unfolded conn_inv_def conn_ids_def] and ans = inv [unfolded conn_inv_def conn_answers_def]
    and slots = inv [unfolded conn_inv_def conn_slots_def]
  let ?c = "postAnswer k answer c"
  have box: "cnInbox c k = None" using ans k by blast
  have dist: "distinct (map fst (cnPosting c))" using ans by blast
  then have mem: "(l, a) \<in> set (remove1 (k, answer) (cnPosting c)) \<longleftrightarrow> (l, a) \<in> set (cnPosting c) \<and> l \<noteq> k" for l a
    using k eq_key_imp_eq_value [OF dist, of k a answer] by (auto simp: distinct_map set_remove1_eq)
  have f: "cnCalls ?c = cnCalls c" "cnNextCall ?c = cnNextCall c" "cnNextID ?c = cnNextID c" "cnInbox ?c = (cnInbox c)(k \<mapsto> answer)"
    "cnPosting ?c = remove1 (k, answer) (cnPosting c)" "cnSlots ?c = cnSlots c" "cnClosed ?c = cnClosed c" "cnCloseErr ?c = cnCloseErr c"
    "cnPending ?c = cnPending c" "callsIn P ?c = callsIn P c" for P
    by (simp_all add: postAnswer_def box callsIn_def)
  have "conn_ids ?c" using ids unfolding conn_ids_def f by (elim conjE) (intro conjI)
  moreover have "conn_answers ?c"
  proof -
    have "distinct (map fst (remove1 (k, answer) (cnPosting c)))"
      using dist by (auto simp: distinct_map intro: inj_on_subset)
    then show ?thesis using ans k unfolding conn_answers_def f mem by auto
  qed
  moreover have "conn_slots m ?c" using slots unfolding conn_slots_def f by (elim conjE) (intro conjI)
  ultimately show ?thesis by (simp add: conn_inv_def)
qed

lemma failConn_inv:
  assumes inv: "conn_inv m c" and order: "failOrder c order"
  shows "conn_inv m (failConn e order c)"
proof (cases "cnClosed c")
  case False
  note ids = inv [unfolded conn_inv_def conn_ids_def] and ans = inv [unfolded conn_inv_def conn_answers_def]
    and slots = inv [unfolded conn_inv_def conn_slots_def]
  let ?c = "failConn e order c"
  have o: "distinct order" "l \<in> set order \<longleftrightarrow> (\<exists>i. cnPending c i = Some l)" for l
    using order by (auto simp: failOrder_def ran_def)
  have f: "cnCalls ?c = cnCalls c" "cnNextCall ?c = cnNextCall c" "cnNextID ?c = cnNextID c" "cnInbox ?c = cnInbox c"
    "cnPosting ?c = cnPosting c @ map (\<lambda>call. (call, ConnFailure e)) order" "cnSlots ?c = cnSlots c" "cnClosed ?c"
    "cnCloseErr ?c = Some e" "cnPending ?c = Map.empty" "callsIn P ?c = callsIn P c" for P
    using False by (simp_all add: failConn_def callsIn_def)
  have "conn_ids ?c" using ids unfolding conn_ids_def f by auto
  moreover have "conn_answers ?c"
  proof -
    have mem: "(l, a) \<in> set (cnPosting ?c) \<longleftrightarrow> (l, a) \<in> set (cnPosting c) \<or> a = ConnFailure e \<and> (\<exists>i. cnPending c i = Some l)" for l a
      using o(2) [of l] by (auto simp: f(5))
    have "distinct (map fst (cnPosting ?c))" using ans o by (auto simp: f comp_def)
    then show ?thesis
      unfolding conn_answers_def mem f(1,4,9)
    proof (intro conjI allI impI)
      fix k i
      assume "regID (cnCalls c k) = Some i"
      from reg_somewhere [OF inv this]
      show "Map.empty i = Some k \<or> (\<exists>a. (k, a) \<in> set (cnPosting c) \<or> a = ConnFailure e \<and> (\<exists>i. cnPending c i = Some k)) \<or> cnInbox c k \<noteq> None"
        by blast
    next
      fix k a
      assume "((k, a) \<in> set (cnPosting c) \<or> a = ConnFailure e \<and> (\<exists>i. cnPending c i = Some k)) \<or> cnInbox c k = Some a"
      then show "(\<exists>r. cnCalls c k = Returned r) \<or> (\<exists>i. regID (cnCalls c k) = Some i \<and> answerFits a i)"
        using answer_owner [OF inv, of k a] pending_reg [OF inv, of _ k] by auto
    qed (use posting_only [OF inv] pending_only [OF inv] in auto)
  qed
  moreover have "conn_slots m ?c" using slots f unfolding conn_slots_def by auto
  ultimately show ?thesis by (simp add: conn_inv_def)
qed (simp add: failConn_def inv)


lemma handleFrame_fits: "handleFrame unmarshal frame = Deliver ident answer \<Longrightarrow> answerFits answer ident"
  by (auto simp: handleFrame_def Let_def split: list.splits if_splits sum.splits)

lemma step_next_call: "conn_step m c c' \<Longrightarrow> cnNextCall c \<le> cnNextCall c'"
  by (induction rule: conn_step.induct)
    (auto simp: finishCall_fields register_def takePending_def postAnswer_def failConn_def
      split: if_splits prod.splits option.splits)

lemma conn_step_inv:
  assumes "conn_step m c c'" "conn_inv m c" "cnNextCall c < 2 ^ 31"
  shows "conn_inv m c'"
  using assms
proof (cases rule: conn_step.cases)
  case call
  then show ?thesis using enter_inv [OF assms(2)] by simp
next
  case (slot k)
  then show ?thesis
    by (intro phase_inv [OF assms(2), of HasSlot k]) (simp_all add: of_nat_Suc)
next
  case (register_failed k e c'')
  then have "c'' = c" using register_fresh(1) [OF assms(2) _ assms(3), of k] by (auto split: if_splits)
  with register_failed show ?thesis using finishCall_inv [OF assms(2)] conn_inv_known [OF assms(2), of k] by simp
next
  case (registered k ident c'')
  then show ?thesis using registered_inv [OF assms(2) _ assms(3)] by simp
next
  case (written k ident env frame n)
  then show ?thesis
    using assms(2) by (intro phase_inv [OF assms(2), of "Waiting ident" k]) (auto simp: conn_inv_def conn_slots_def)
next
  case (discarded k ident env frame n e order)
  then have "conn_inv m (failConn ErrTransportClosed order c)" by (intro failConn_inv [OF assms(2)])
  moreover have "k < cnNextCall c" using discarded by (intro conn_inv_known [OF assms(2)]) simp
  then have "k < cnNextCall (failConn ErrTransportClosed order c)" by (simp add: failConn_def)
  ultimately show ?thesis using discarded finishCall_inv by simp
next
  case (deliver unmarshal frame ident answer)
  then show ?thesis using takePending_inv [OF assms(2) handleFrame_fits] by simp
next
  case (post k answer)
  then show ?thesis using postAnswer_inv [OF assms(2)] by simp
qed (use finishCall_inv [OF assms(2)] failConn_inv [OF assms(2)] conn_inv_known [OF assms(2)] in auto)

lemma conn_reachable_inv:
  assumes "conn_reachable m c" "cnNextCall c < 2 ^ 31"
  shows "conn_inv m c"
  using assms(1) [unfolded conn_reachable_def] assms(2)
proof (induction rule: rtranclp_induct)
  case base
  show ?case by (rule conn_inv_init)
next
  case (step c c')
  then show ?case using step_next_call conn_step_inv by (metis le_less_trans)
qed

end
