(* ===== verification/Transport_Properties.thy ===== *)
theory Transport_Properties
  imports Transport_Invariants
begin

text \<open>
  What the connection guarantees: frames survive the stream, a frame is written completely or the connection is
  given up, identifiers are found and unique, and every answer reaches the one call that waits for it.
\<close>

section \<open>Frames\<close>

text \<open>What a server sends for an answer.\<close>

definition responseFrame :: "byte \<Rightarrow> bytes \<Rightarrow> bytes" where
  "responseFrame kind payload = be_bytes 4 (of_nat (Suc (length payload)) :: 32 word) @ kind # payload"

lemma be_word_length:
  assumes "n < 2 ^ 32"
  shows "uint (be_word (be_bytes 4 (of_nat n :: 32 word)) :: 32 word) = int n"
proof -
  have "be_word (be_bytes 4 (of_nat n :: 32 word)) = (of_nat n :: 32 word)" by (rule be_word_be_bytes) simp
  then show ?thesis using assms by (simp add: uint_nat unsigned_of_nat take_bit_nat_eq_self)
qed

lemma readFrame_append:
  assumes "int (Suc (length payload)) \<le> maxFrame" "maxFrame < 2 ^ 32"
  shows "readFrame maxFrame (responseFrame kind payload @ rest) e = Inr (kind # payload, rest)"
proof -
  let ?n = "Suc (length payload)"
  have "?n < 2 ^ 32" using assms by simp
  then have size: "uint (be_word (be_bytes 4 (of_nat ?n :: 32 word)) :: 32 word) = int ?n" by (rule be_word_length)
  have "readFull 4 (responseFrame kind payload @ rest) e = Inr (be_bytes 4 (of_nat ?n :: 32 word), kind # payload @ rest)"
    by (simp add: readFull_def responseFrame_def)
  moreover have "readFull ?n (kind # payload @ rest) e = Inr (kind # payload, rest)" by (simp add: readFull_def)
  moreover have "nat (int ?n) = ?n" by simp
  ultimately show ?thesis using assms(1) unfolding readFrame_def by (simp only: andThen_simps split_conv Let_def size) simp
qed

text \<open>
  C32. Answers survive the stream: when a server sends answers as frames one after the other, each within the
  frame limit, and the stream ends there, the read loop delivers exactly those answers, in order, under their
  identifiers, and ends with the end of file; when the stream ends inside a further frame, it delivers the same
  and ends with an unexpected end of file (a plain one when it stops between length and content of the frame).
\<close>

theorem transport_stream_roundtrip:
  assumes "\<forall>(ident, body) \<in> set answers. int (length body) + 5 \<le> maxFrame" and "maxFrame < 2 ^ 32"
    and "tail = [] \<or> (\<exists>kind payload n. int (Suc (length payload)) \<le> maxFrame
      \<and> tail = take n (responseFrame kind payload) \<and> n < length (responseFrame kind payload))"
  shows "readLoop unmarshal maxFrame (concat (map (\<lambda>(ident, body). responseFrame 0 (be_bytes 4 ident @ body)) answers) @ tail) EOF
    = (map (\<lambda>(ident, body). (ident, Body ident body)) answers, if length tail \<in> {0, 4} then EOF else ErrUnexpectedEOF)"
  using assms(1)
proof (induction answers)
  case Nil
  have "readFrame maxFrame tail EOF = Inl (if length tail \<in> {0, 4} then EOF else ErrUnexpectedEOF)"
  proof (cases "length tail < 4")
    case True
    then show ?thesis by (auto simp: readFrame_def readFull_def)
  next
    case False
    then obtain kind payload n where t: "int (Suc (length payload)) \<le> maxFrame" "tail = take n (responseFrame kind payload)"
      "n < length (responseFrame kind payload)" using assms(3) by auto
    let ?n = "Suc (length payload)"
    have n: "4 \<le> n" "n < 4 + ?n" using False t(2,3) by (auto simp: responseFrame_def)
    have "?n < 2 ^ 32" using t(1) assms(2) by simp
    then have size: "uint (be_word (be_bytes 4 (of_nat ?n :: 32 word)) :: 32 word) = int ?n" by (rule be_word_length)
    have tail: "tail = be_bytes 4 (of_nat ?n :: 32 word) @ take (n - 4) (kind # payload)"
      using n(1) by (simp add: t(2) responseFrame_def take_append)
    have "readFull 4 tail EOF = Inr (be_bytes 4 (of_nat ?n :: 32 word), take (n - 4) (kind # payload))"
      by (simp add: tail readFull_def)
    moreover have "readFull ?n (take (n - 4) (kind # payload)) EOF = Inl (if n = 4 then EOF else ErrUnexpectedEOF)"
      using n by (simp add: readFull_def) linarith
    moreover have "length tail = n" using n by (simp add: tail)
    moreover have "nat (int ?n) = ?n" by simp
    ultimately show ?thesis using n(1) t(1) unfolding readFrame_def by (simp only: andThen_simps split_conv Let_def size) simp
  qed
  then show ?case by (simp add: readLoop.simps)
next
  case (Cons a answers)
  obtain ident body where a: "a = (ident, body)" by (cases a)
  let ?rest = "concat (map (\<lambda>(ident, body). responseFrame 0 (be_bytes 4 ident @ body)) answers) @ tail"
  have "readFrame maxFrame (responseFrame 0 (be_bytes 4 ident @ body) @ ?rest) EOF = Inr (0 # be_bytes 4 ident @ body, ?rest)"
    using Cons.prems assms(2) by (intro readFrame_append) (simp_all add: a)
  moreover have "handleFrame unmarshal (0 # be_bytes 4 ident @ body) = Deliver ident (Body ident body)"
    by (simp add: handleFrame_def responseHeaderSize_def be_word_be_bytes Let_def)
  ultimately show ?case using Cons by (simp add: readLoop.simps [of _ _ "_ @ _"] a)
qed

theorem transport_stream_roundtrip_witness:
  "readLoop (\<lambda>_. Inl ErrMalformed) 100 (responseFrame 0 (be_bytes 4 (7 :: 32 word) @ [1, 2]) @ [0, 0]) EOF
   = ([(7, Body 7 [1, 2])], ErrUnexpectedEOF)"
proof -
  have "[0, 0] = take 2 (responseFrame 3 [])" by code_simp
  then have "\<exists>kind payload n. int (Suc (length payload)) \<le> 100 \<and> [0, 0] = take n (responseFrame kind payload)
      \<and> n < length (responseFrame kind payload)"
    by (intro exI [of _ 3] exI [of _ "[]"] exI [of _ 2]) (simp add: responseFrame_def)
  then show ?thesis
    using transport_stream_roundtrip [of "[(7, [1, 2])]" 100 "[0, 0]" "\<lambda>_. Inl ErrMalformed"] by simp
qed

section \<open>Writing\<close>

lemma writeFrame_total:
  "writeFrame conn ctxErr late i sofar remaining = (n, err) \<Longrightarrow>
     sofar \<le> n \<and> n \<le> sofar + int remaining \<and> (err = None \<longrightarrow> n = sofar + int remaining)"
proof (induction conn ctxErr late i sofar remaining rule: writeFrame.induct)
  case (1 conn ctxErr late i sofar remaining)
  show ?case
  proof (cases "remaining = 0")
    case False
    obtain w e where w: "conn i = (w, e)" by (cases "conn i")
    show ?thesis
    proof (cases "w < 0 \<or> w > int remaining \<or> e \<noteq> None \<or> w = 0")
      case True
      then show ?thesis
        using "1.prems" False w by (subst (asm) writeFrame.simps) (auto split: if_splits option.splits)
    next
      case more: False
      then have "writeFrame conn ctxErr late (Suc i) (sofar + w) (remaining - nat w) = (n, err)"
        using "1.prems" False w by (subst (asm) writeFrame.simps) auto
      from "1.IH" [OF False w [symmetric] _ _ _ this] more show ?thesis by auto
    qed
  qed (use "1.prems" in \<open>simp add: writeFrame.simps\<close>)
qed

lemma option_case_eqE:
  assumes "(case x of None \<Rightarrow> a | Some y \<Rightarrow> f y) = r"
  obtains "x = None" "a = r" | y where "x = Some y" "f y = r"
  using assms by (cases x) simp_all

lemma sum_case_eqE:
  assumes "(case x of Inl a \<Rightarrow> f a | Inr b \<Rightarrow> g b) = r"
  obtains a where "x = Inl a" "f a = r" | b where "x = Inr b" "g b = r"
  using assms by (cases x) simp_all

text \<open>
  A request is written whole or the connection is given up: \<^verbatim>\<open>writeRequest\<close> returns without an error only
  when every byte of the frame was written; and when it fails without discarding the connection, not a single
  byte was written and the context is the cause, so the stream of frames is never left inside one.
\<close>

theorem transport_write_atomic:
  assumes "writeRequest env frame = (n, discard, err)"
  shows "(err = None \<longrightarrow> n = int (length frame) \<and> \<not> discard)
    \<and> (\<forall>e. \<not> discard \<and> err = Some e \<longrightarrow>
          n = 0 \<and> (weCtxErr env = Some e \<or> errorsIs e ErrCanceled \<or> errorsIs e ErrDeadlineExceeded))
    \<and> 0 \<le> n \<and> n \<le> int (length frame)"
proof -
  obtain written werr where w: "writeFrame (weConn env) (weCtxErrLate env) (weLate env) 0 0 (length frame) = (written, werr)"
    by (cases "writeFrame (weConn env) (weCtxErrLate env) (weLate env) 0 0 (length frame)")
  from writeFrame_total [OF w] show ?thesis
    using assms
    unfolding writeRequest_def w prod.case
    by (elim option_case_eqE sum_case_eqE) (simp_all add: prod_eq_iff, auto dest: sym)
qed

definition exWriteEnv :: write_env where
  "exWriteEnv = \<lparr>weCtxErr = None, weDeadline = True, weSetErr = None, weInterrupted = True, weClearErr = None,
     weConn = (\<lambda>i. if i = 0 then (2, None) else (1, Some ErrTimeout)), weCtxErrLate = Some ErrCanceled, weLate = False\<rparr>"

theorem transport_write_atomic_witness:
  "\<exists>n err. writeRequest exWriteEnv [1, 2, 3, 4] = (n, True, err) \<and> err \<noteq> None \<and> n \<le> 4"
proof -
  have "writeRequest exWriteEnv [1, 2, 3, 4] = (3, True, Some ErrCanceled)"
    by (simp add: writeRequest_def prepareWrite_def finishWrite_def exWriteEnv_def writeFrame.simps interruptedWriteError_def)
  from transport_write_atomic [OF this] this show ?thesis by auto
qed


section \<open>Identifiers\<close>

text \<open>The positive identifiers as a cycle.\<close>

definition posID :: "nat \<Rightarrow> 32 word" where "posID n = word_of_int (int (n mod 2147483647) + 1)"

lemma uint_posID: "uint (posID n) = int (n mod 2147483647) + 1"
proof -
  have "int (n mod 2147483647) < 2147483647" by simp
  then show ?thesis unfolding posID_def uint_word_of_int by (simp add: take_bit_int_eq_self)
qed

lemma sint_posID: "sint (posID n) = int (n mod 2147483647) + 1"
proof -
  have "int (n mod 2147483647) < 2147483647" by simp
  then show ?thesis by (simp add: sint_uint uint_posID signed_take_bit_int_eq_self)
qed

lemma nextID_posID: "nextID (posID n) = posID (Suc n)"
proof (cases "n mod 2147483647 = 2147483646")
  case True
  then have "posID n + 1 = word_of_int 2147483648" by (simp add: posID_def)
  moreover have "sint (word_of_int 2147483648 :: 32 word) \<le> 0" by simp
  moreover have "Suc n mod 2147483647 = 0" using True by (simp add: mod_Suc)
  ultimately show ?thesis by (simp add: nextID_def posID_def)
next
  case False
  then have "Suc n mod 2147483647 = Suc (n mod 2147483647)" by (simp add: mod_Suc)
  then have "posID n + 1 = posID (Suc n)" by (simp add: posID_def)
  then show ?thesis using sint_posID [of "Suc n"] by (simp add: nextID_def)
qed

lemma nextID_positive: "\<exists>n. nextID i = posID n"
proof (cases "sint (i + 1) \<le> 0")
  case True
  then show ?thesis by (intro exI [of _ 0]) (simp add: nextID_def posID_def)
next
  case False
  let ?n = "nat (sint (i + 1)) - 1"
  have "sint (i + 1) < 2 ^ 31" using sint_lt [of "i + 1"] by simp
  then have "int (?n mod 2147483647) + 1 = sint (i + 1)" using False by simp
  then have "posID ?n = word_of_int (sint (i + 1))" by (simp only: posID_def)
  then show ?thesis using False by (intro exI [of _ ?n]) (simp add: nextID_def)
qed

lemma registerLoop_result:
  assumes "registerLoop n i taken = (r, lst)"
  shows "(\<exists>ident. r = Some ident \<and> \<not> taken ident \<and> 0 < sint ident) \<or> r = None \<and> (\<forall>j \<in> {1..n}. taken ((nextID ^^ j) i))"
  using assms
proof (induction n arbitrary: i)
  case (Suc n)
  show ?case
  proof (cases "taken (nextID i)")
    case True
    then have "(\<exists>ident. r = Some ident \<and> \<not> taken ident \<and> 0 < sint ident)
        \<or> r = None \<and> (\<forall>j \<in> {1..n}. taken ((nextID ^^ j) (nextID i)))"
      using Suc.IH [of "nextID i"] Suc.prems by (simp add: Let_def)
    moreover have "taken ((nextID ^^ j) i)" if "j \<in> {1..Suc n}" "\<forall>j \<in> {1..n}. taken ((nextID ^^ j) (nextID i))" for j
    proof (cases "j = 1")
      case False
      then have "j - 1 \<in> {1..n}" "j = Suc (j - 1)" using that by auto
      then show ?thesis using that(2) by (metis funpow_Suc_right comp_apply)
    qed (simp add: True)
    ultimately show ?thesis by blast
  next
    case False
    then have "r = Some (nextID i)" using Suc.prems by (auto simp: Let_def)
    moreover have "0 < sint (nextID i)" using nextID_positive [of i] by (auto simp: sint_posID)
    ultimately show ?thesis using False by blast
  qed
qed simp

text \<open>
  Registration ends with an identifier: on an open connection with fewer than \<open>2\<^sup>3\<^sup>1 - 1\<close> requests pending, the
  search of \<^verbatim>\<open>register\<close> (which stops after \<open>2\<^sup>3\<^sup>2 - 1\<close> candidates) finds one; it is positive, also after the counter has
  wrapped around, it was free, and it is pending for the call afterwards.
\<close>

theorem transport_register_total:
  assumes "\<not> cnClosed c" and "card (dom (cnPending c)) < 2 ^ 31 - 1"
  shows "\<exists>ident c'. register k c = (Inr ident, c') \<and> 0 < sint ident \<and> cnPending c ident = None
    \<and> cnPending c' = (cnPending c)(ident \<mapsto> k)"
proof -
  let ?taken = "\<lambda>ident. cnPending c ident \<noteq> None"
  obtain r lst where loop: "registerLoop maxRegisterTries (cnNextID c) ?taken = (r, lst)"
    by (cases "registerLoop maxRegisterTries (cnNextID c) ?taken")
  have "r \<noteq> None"
  proof
    assume "r = None"
    then have all: "?taken ((nextID ^^ j) (cnNextID c))" if "j \<in> {1..maxRegisterTries}" for j
      using registerLoop_result [OF loop] that by blast
    obtain n where n: "nextID (cnNextID c) = posID n" using nextID_positive by blast
    have pos: "(nextID ^^ j) (posID n) = posID (n + j)" for j by (induction j) (simp_all add: nextID_posID)
    have "posID (n + j) \<in> dom (cnPending c)" if "j < 2147483647" for j
    proof -
      have "Suc j \<in> {1..maxRegisterTries}" using that by (simp add: maxRegisterTries_def)
      from all [OF this] show ?thesis by (auto simp: funpow_swap1 n pos)
    qed
    then have "(\<lambda>j. posID (n + j)) ` {..<2147483647} \<subseteq> dom (cnPending c)" by blast
    moreover have "inj_on (\<lambda>j. posID (n + j)) {..<2147483647}"
    proof (rule inj_onI)
      fix x y :: nat
      assume xy: "x \<in> {..<2147483647}" "y \<in> {..<2147483647}" "posID (n + x) = posID (n + y)"
      then have "(n + x) mod 2147483647 = (n + y) mod 2147483647"
        using uint_posID [of "n + x"] uint_posID [of "n + y"] by simp
      then have "int ((n + x) mod 2147483647) = int ((n + y) mod 2147483647)" by (rule arg_cong)
      then have "(int n + int x) mod 2147483647 = (int n + int y) mod 2147483647" by (simp only: of_nat_mod of_nat_add of_nat_numeral)
      then have "2147483647 dvd int x - int y" by (simp add: mod_eq_dvd_iff)
      moreover have "\<bar>int x - int y\<bar> < 2147483647" using xy(1,2) unfolding lessThan_iff by linarith
      ultimately have "int x - int y = 0" using dvd_imp_le_int [of "int x - int y" 2147483647] by linarith
      then show "x = y" by simp
    qed
    ultimately have "2147483647 \<le> card (dom (cnPending c))"
      using card_inj_on_le [of "\<lambda>j. posID (n + j)" "{..<2147483647}" "dom (cnPending c)"] by simp
    then show False using assms(2) by simp
  qed
  then obtain ident where "r = Some ident" "cnPending c ident = None" "0 < sint ident"
    using registerLoop_result [OF loop] by auto
  then show ?thesis using loop assms(1) by (simp add: register_def)
qed

theorem transport_register_total_witness:
  "\<exists>ident c'. register 5 (newConnState\<lparr>cnNextID := 2147483647, cnPending := [1 \<mapsto> 4]\<rparr>) = (Inr ident, c')
     \<and> 0 < sint ident \<and> ident \<noteq> 1"
proof -
  let ?c = "newConnState\<lparr>cnNextID := 2147483647, cnPending := [1 \<mapsto> 4]\<rparr>"
  have "\<not> cnClosed ?c" "card (dom (cnPending ?c)) < 2 ^ 31 - 1" by (simp_all add: newConnState_def)
  from transport_register_total [OF this, of 5] show ?thesis by (auto split: if_splits)
qed

section \<open>Calls and answers\<close>

lemma callsIn_card: "callsIn P c = card {k. k < cnNextCall c \<and> P (cnCalls c k)}"
  by (simp add: callsIn_def countWhere_card)

lemma length_filter_key: "distinct (map fst xs) \<Longrightarrow> length (filter (\<lambda>x. fst x = k) xs) = of_bool (\<exists>a. (k, a) \<in> set xs)"
  by (induction xs) (auto simp: image_iff)

text \<open>
  C31. Calls and answers are matched: in every reachable state, under every interleaving of calls, the read loop
  and \<^verbatim>\<open>Close\<close> (and as long as the identifiers have not wrapped around), the calls that hold an identifier hold
  distinct ones; each of them is registered, or an answer is on its way to it, or the answer is in its channel, and
  never two of these; the answer it finds there is a failure of the connection or carries its own identifier; the
  slots in use are those of the calls that hold one, at most \<^verbatim>\<open>MaxInFlight\<close>; and after the connection has failed
  nothing is registered.
\<close>

theorem transport_calls_matched:
  assumes "conn_reachable maxInFlight c" and "cnNextCall c < 2 ^ 31"
  shows "(\<forall>k l i. regID (cnCalls c k) = Some i \<and> regID (cnCalls c l) = Some i \<longrightarrow> k = l)
    \<and> (\<forall>k i. regID (cnCalls c k) = Some i \<longrightarrow>
         of_bool (cnPending c i = Some k) + length (filter (\<lambda>x. fst x = k) (cnPosting c)) + of_bool (cnInbox c k \<noteq> None) = (1 :: nat))
    \<and> (\<forall>k i answer. cnCalls c k = Waiting i \<and> cnInbox c k = Some answer \<longrightarrow> answerFits answer i)
    \<and> cnSlots c = card {k. slotPhase (cnCalls c k)} \<and> (cnSlots c = 0 \<or> int (cnSlots c) \<le> maxInFlight)
    \<and> (cnClosed c \<longrightarrow> cnPending c = Map.empty)"
proof -
  note inv = conn_reachable_inv [OF assms]
  have "of_bool (cnPending c i = Some k) + length (filter (\<lambda>x. fst x = k) (cnPosting c)) + of_bool (cnInbox c k \<noteq> None) = (1 :: nat)"
    if "regID (cnCalls c k) = Some i" for k i
    using reg_somewhere [OF inv that] pending_only [OF inv, of i k] posting_only [OF inv, of k]
    by (auto simp: length_filter_key [OF posting_distinct [OF inv]] of_bool_def)
  moreover have "answerFits answer i" if "cnCalls c k = Waiting i" "cnInbox c k = Some answer" for k i answer
    using answer_owner [OF inv, of k answer] that by simp
  moreover have "{k. k < cnNextCall c \<and> slotPhase (cnCalls c k)} = {k. slotPhase (cnCalls c k)}"
    using conn_inv_known [OF inv] by force
  then have "cnSlots c = card {k. slotPhase (cnCalls c k)} \<and> (cnSlots c = 0 \<or> int (cnSlots c) \<le> maxInFlight)
      \<and> (cnClosed c \<longrightarrow> cnPending c = Map.empty)"
    using inv callsIn_card [of slotPhase c] unfolding conn_inv_def conn_slots_def by (elim conjE) (simp only: simp_thms)
  ultimately show ?thesis using reg_inj [OF inv] by blast
qed

text \<open>A run with one call: it gets a slot, is registered under 1, writes, and its answer arrives.\<close>

definition exCallState :: "call_phase \<Rightarrow> conn_state" where
  "exCallState p = \<lparr>cnNextID = 1, cnPending = [1 \<mapsto> 0], cnInbox = Map.empty, cnPosting = [], cnClosed = False,
     cnCloseErr = None, cnSlots = 1, cnCalls = (\<lambda>_. NoCall)(0 := p), cnNextCall = 1\<rparr>"

lemma exCall_registered: "conn_reachable 1 (exCallState (Registered 1))"
proof -
  let ?e = "newConnState\<lparr>cnCalls := (cnCalls newConnState)(cnNextCall newConnState := Entering), cnNextCall := cnNextCall newConnState + 1\<rparr>"
  let ?s = "?e\<lparr>cnSlots := cnSlots ?e + 1, cnCalls := (cnCalls ?e)(0 := HasSlot)\<rparr>"
  have 1: "conn_step 1 newConnState ?e" by (rule conn_step.call)
  have 2: "conn_step 1 ?e ?s" by (rule conn_step.slot) (simp_all add: newConnState_def)
  have inv: "conn_inv 1 ?s"
    using conn_step_inv [OF 1 conn_inv_init] conn_step_inv [OF 2] by (simp add: newConnState_def)
  have "conn_step 1 ?s (exCallState (Registered 1))"
    using conn_step.registered [of ?s 0 1 "?s\<lparr>cnNextID := 1, cnPending := [1 \<mapsto> 0]\<rparr>" 1]
      register_fresh(1) [OF inv, of 0] by (simp add: newConnState_def exCallState_def)
  then show ?thesis using 1 2 by (auto simp: conn_reachable_def)
qed

theorem transport_calls_matched_witness:
  "\<exists>c. conn_reachable 1 c \<and> cnCalls c 0 = Waiting 1 \<and> cnInbox c 0 = Some (Body 1 [7]) \<and> cnSlots c = 1
     \<and> cnPending c 1 = None \<and> answerFits (Body 1 [7]) 1"
proof -
  let ?w = "exCallState (Waiting 1)"
  let ?d = "takePending 1 (Body 1 [7]) ?w"
  have "writeRequest (exWriteEnv\<lparr>weConn := \<lambda>_. (2, None)\<rparr>) [1, 2] = (2, False, None)"
    by (simp add: writeRequest_def prepareWrite_def finishWrite_def exWriteEnv_def writeFrame.simps)
  then have "conn_step 1 (exCallState (Registered 1)) ?w"
    using conn_step.written [of "exCallState (Registered 1)" 0 1] by (simp add: exCallState_def)
  moreover have "handleFrame (\<lambda>_. Inl ErrMalformed) [0, 0, 0, 0, 1, 7] = Deliver 1 (Body 1 [7])" by code_simp
  then have "conn_step 1 ?w ?d" by (rule conn_step.deliver)
  moreover have "conn_step 1 ?d (postAnswer 0 (Body 1 [7]) ?d)"
    by (rule conn_step.post) (simp add: takePending_def exCallState_def)
  ultimately have r: "conn_reachable 1 (postAnswer 0 (Body 1 [7]) ?d)"
    using exCall_registered unfolding conn_reachable_def by (meson rtranclp.rtrancl_into_rtrancl)
  have f: "cnCalls (postAnswer 0 (Body 1 [7]) ?d) 0 = Waiting 1" "cnInbox (postAnswer 0 (Body 1 [7]) ?d) 0 = Some (Body 1 [7])"
    "cnSlots (postAnswer 0 (Body 1 [7]) ?d) = 1" "cnPending (postAnswer 0 (Body 1 [7]) ?d) 1 = None"
    "cnNextCall (postAnswer 0 (Body 1 [7]) ?d) < 2 ^ 31"
    by (simp_all add: takePending_def exCallState_def postAnswer_def)
  from transport_calls_matched [OF r f(5)] f(1,2) have "answerFits (Body 1 [7]) 1" by blast
  then show ?thesis using r f by blast
qed

end
