(* ===== verification/Coalescer.thy ===== *)
theory Coalescer
  imports Server_Errors Counting
begin

text \<open>
  The coalescer of \<^verbatim>\<open>pkg/fgo/coalescer.go\<close>: at most one operation per key, shared by every caller that asks for
  the key while it runs. The callers of \<^verbatim>\<open>Do\<close>, the goroutines that run the operations and \<^verbatim>\<open>Close\<close> interleave at
  the critical sections of the mutex. The client, the router, the schema cache and the partition creator use it.
\<close>

section \<open>State\<close>

text \<open>A shared call is an object; the map of the coalescer and the waiting callers refer to it by its number.
  \<open>scKey\<close> is the key captured by its goroutine, \<open>scDispose\<close> whether the caller that started it passed a dispose
  function. \<^verbatim>\<open>close(call.done)\<close> happens exactly when the call is completed.\<close>

record ('k, 'v) shared_call =
  scKey :: 'k
  scValue :: "'v option"
  scErr :: "go_error option"
  scWaiters :: int
  scCompleted :: bool
  scClaimed :: bool
  scSucceeded :: bool
  scCancelled :: bool
  scDispose :: bool

text \<open>Where a caller of \<^verbatim>\<open>Do\<close> is.\<close>

datatype 'v co_caller = NotYet | WaitsOn nat | Got nat 'v | Refused go_error

record ('k, 'v) coalescer =
  coCalls :: "'k \<rightharpoonup> nat"
  coClosed :: bool
  coCloseErr :: go_error
  coObjs :: "('k, 'v) shared_call list"
  coCallers :: "nat \<Rightarrow> 'v co_caller"
  coNextCaller :: nat
  coDisposed :: "nat list"

definition newCoalescer :: "('k, 'v) coalescer" where
  "newCoalescer = \<lparr>coCalls = Map.empty, coClosed = False, coCloseErr = ErrClosed, coObjs = [],
     coCallers = (\<lambda>_. NotYet), coNextCaller = 0, coDisposed = []\<rparr>"

section \<open>Operations\<close>

definition newSharedCall :: "'k \<Rightarrow> bool \<Rightarrow> ('k, 'v) shared_call" where
  "newSharedCall key dispose = \<lparr>scKey = key, scValue = None, scErr = None, scWaiters = 0, scCompleted = False,
     scClaimed = False, scSucceeded = False, scCancelled = False, scDispose = dispose\<rparr>"

text \<open>The first part of \<^verbatim>\<open>Do\<close>: the caller joins the call of the key, which is started when there is none.\<close>

definition startCall :: "'k \<Rightarrow> bool \<Rightarrow> ('k, 'v) coalescer \<Rightarrow> nat \<times> ('k, 'v) coalescer" where
  "startCall key dispose s =
     (case coCalls s key of
        Some c \<Rightarrow> (c, s)
      | None \<Rightarrow> (length (coObjs s), s\<lparr>coCalls := (coCalls s)(key \<mapsto> length (coObjs s)),
            coObjs := coObjs s @ [newSharedCall key dispose]\<rparr>))"

definition setCaller :: "nat \<Rightarrow> 'v co_caller \<Rightarrow> ('k, 'v) coalescer \<Rightarrow> ('k, 'v) coalescer" where
  "setCaller w p s = s\<lparr>coCallers := (coCallers s)(w := p)\<rparr>"

definition setCall :: "nat \<Rightarrow> ('k, 'v) shared_call \<Rightarrow> ('k, 'v) coalescer \<Rightarrow> ('k, 'v) coalescer" where
  "setCall c call s = s\<lparr>coObjs := (coObjs s)[c := call]\<rparr>"

definition enterDo :: "bool \<Rightarrow> bool \<Rightarrow> 'k \<Rightarrow> bool \<Rightarrow> ('k, 'v) coalescer \<Rightarrow> ('k, 'v) coalescer" where
  "enterDo nilCtx nilWork key dispose s =
     (let w = coNextCaller s; s = s\<lparr>coNextCaller := Suc w\<rparr>
      in if nilCtx \<or> nilWork then setCaller w (Refused ErrInvalidConfig) s
         else if coClosed s then setCaller w (Refused (coCloseErr s)) s
         else
           (case startCall key dispose s of (c, s) \<Rightarrow>
              setCaller w (WaitsOn c) (setCall c ((coObjs s ! c)\<lparr>scWaiters := scWaiters (coObjs s ! c) + 1\<rparr>) s)))"

text \<open>\<^verbatim>\<open>releaseLocked\<close>: the result says whether the dispose function is returned.\<close>

definition releaseLocked :: "nat \<Rightarrow> ('k, 'v) coalescer \<Rightarrow> bool \<times> ('k, 'v) coalescer" where
  "releaseLocked c s =
     (let call = (coObjs s ! c)\<lparr>scWaiters := scWaiters (coObjs s ! c) - 1\<rparr>
      in if scWaiters call \<noteq> 0 then (False, setCall c call s)
         else if \<not> scCompleted call then
           (False, (setCall c (call\<lparr>scCancelled := True\<rparr>) s)
              \<lparr>coCalls := (if coCalls s (scKey call) = Some c then (coCalls s)(scKey call := None) else coCalls s)\<rparr>)
         else (\<not> scClaimed call \<and> scSucceeded call \<and> scDispose call, setCall c call s))"

text \<open>The branch \<^verbatim>\<open><-call.done\<close>: what \<^verbatim>\<open>releaseLocked\<close> returns is dropped.\<close>

definition claimResult :: "nat \<Rightarrow> nat \<Rightarrow> ('k, 'v) coalescer \<Rightarrow> ('k, 'v) coalescer" where
  "claimResult w c s =
     (let s = setCall c ((coObjs s ! c)\<lparr>scClaimed := True\<rparr>) s;
          outcome = (case (scErr (coObjs s ! c), scValue (coObjs s ! c)) of
              (Some e, _) \<Rightarrow> Refused e | (None, Some v) \<Rightarrow> Got c v | (None, None) \<Rightarrow> NotYet)
      in setCaller w outcome (snd (releaseLocked c s)))"

text \<open>The branch \<^verbatim>\<open><-ctx.Done()\<close>, with \<^verbatim>\<open>release\<close>.\<close>

definition abandon :: "nat \<Rightarrow> nat \<Rightarrow> go_error \<Rightarrow> ('k, 'v) coalescer \<Rightarrow> ('k, 'v) coalescer" where
  "abandon w c e s =
     (case releaseLocked c s of (dispose, s) \<Rightarrow>
        setCaller w (Refused e) (if dispose then s\<lparr>coDisposed := coDisposed s @ [c]\<rparr> else s))"

text \<open>The end of \<^verbatim>\<open>run\<close>, with the outcome of the operation.\<close>

definition finishRun :: "nat \<Rightarrow> 'v \<Rightarrow> go_error option \<Rightarrow> ('k, 'v) coalescer \<Rightarrow> ('k, 'v) coalescer" where
  "finishRun c v err s =
     (let call = (coObjs s ! c)\<lparr>scCancelled := True, scValue := Some v, scCompleted := True, scSucceeded := (err = None),
            scErr := (if coClosed s then Some (coCloseErr s) else err)\<rparr>;
          dispose = (\<not> scClaimed call \<and> scSucceeded call \<and> scDispose call \<and> (scWaiters call = 0 \<or> coClosed s));
          s = (setCall c call s)\<lparr>coCalls := (if coCalls s (scKey call) = Some c then (coCalls s)(scKey call := None) else coCalls s)\<rparr>
      in if dispose then s\<lparr>coDisposed := coDisposed s @ [c]\<rparr> else s)"

text \<open>\<^verbatim>\<open>Close\<close> cancels the calls of the map, which are the calls that are found under their own key.\<close>

definition closeCoalescer :: "go_error option \<Rightarrow> ('k, 'v) coalescer \<Rightarrow> ('k, 'v) coalescer" where
  "closeCoalescer err s =
     (if coClosed s then s
      else s\<lparr>coClosed := True, coCloseErr := (case err of None \<Rightarrow> ErrClosed | Some e \<Rightarrow> e),
             coObjs := map (\<lambda>c. if coCalls s (scKey (coObjs s ! c)) = Some c then (coObjs s ! c)\<lparr>scCancelled := True\<rparr>
                 else coObjs s ! c) [0..<length (coObjs s)]\<rparr>)"

inductive co_step :: "('k, 'v) coalescer \<Rightarrow> ('k, 'v) coalescer \<Rightarrow> bool" where
  enter: "co_step s (enterDo nilCtx nilWork key dispose s)"
| claim: "coCallers s w = WaitsOn c \<Longrightarrow> scCompleted (coObjs s ! c) \<Longrightarrow> co_step s (claimResult w c s)"
| abandon: "coCallers s w = WaitsOn c \<Longrightarrow> e \<in> {ErrCanceled, ErrDeadlineExceeded} \<Longrightarrow> co_step s (abandon w c e s)"
| finish: "c < length (coObjs s) \<Longrightarrow> \<not> scCompleted (coObjs s ! c) \<Longrightarrow> co_step s (finishRun c v err s)"
| close: "co_step s (closeCoalescer err s)"

definition co_reachable :: "('k, 'v) coalescer \<Rightarrow> bool" where
  "co_reachable s \<longleftrightarrow> co_step\<^sup>*\<^sup>* newCoalescer s"

section \<open>The invariant\<close>

abbreviation waitersOf :: "('k, 'v) coalescer \<Rightarrow> nat \<Rightarrow> nat" where
  "waitersOf s c \<equiv> countWhere (\<lambda>p. p = WaitsOn c) (coCallers s) (coNextCaller s)"

abbreviation disposals :: "('k, 'v) coalescer \<Rightarrow> nat \<Rightarrow> nat" where
  "disposals s c \<equiv> count_list (coDisposed s) c"

definition handedOut :: "(nat \<Rightarrow> 'v co_caller) \<Rightarrow> nat \<Rightarrow> bool" where
  "handedOut callers c \<longleftrightarrow> (\<exists>w v. callers w = Got c v)"

text \<open>What holds of one call: \<open>n\<close> callers wait for it, its value was disposed \<open>d\<close> times, \<open>handed\<close> says whether a
  caller got it, \<open>current\<close> whether it is in the map.\<close>

definition call_ok :: "bool \<Rightarrow> nat \<Rightarrow> nat \<Rightarrow> bool \<Rightarrow> bool \<Rightarrow> ('k, 'v) shared_call \<Rightarrow> bool" where
  "call_ok closed n d handed current call \<longleftrightarrow>
     scWaiters call = int n
     \<and> (current \<longleftrightarrow> \<not> scCompleted call \<and> 0 < n)
     \<and> (\<not> scCompleted call \<longrightarrow> \<not> scClaimed call \<and> d = 0 \<and> \<not> handed \<and> (n = 0 \<longrightarrow> scCancelled call))
     \<and> (scCompleted call \<longrightarrow> scValue call \<noteq> None \<and> (scErr call = None \<longrightarrow> scSucceeded call) \<and> (0 < d \<longrightarrow> scSucceeded call \<and> scDispose call)
          \<and> (scErr call = None \<longrightarrow> d \<le> 1 \<and> (0 < d \<longrightarrow> n = 0 \<and> \<not> scClaimed call) \<and> (scClaimed call \<longleftrightarrow> handed))
          \<and> (scErr call \<noteq> None \<longrightarrow> \<not> handed \<and> (scSucceeded call \<longrightarrow> closed))
          \<and> (scSucceeded call \<and> scDispose call \<and> n = 0 \<longrightarrow> 0 < d \<or> handed)
          \<and> (scErr call \<noteq> None \<and> scSucceeded call \<and> scDispose call \<longrightarrow> 0 < d))"

definition co_inv :: "('k, 'v) coalescer \<Rightarrow> bool" where
  "co_inv s \<longleftrightarrow>
     (\<forall>c < length (coObjs s). call_ok (coClosed s) (waitersOf s c) (disposals s c) (handedOut (coCallers s) c)
        (coCalls s (scKey (coObjs s ! c)) = Some c) (coObjs s ! c))
     \<and> (\<forall>k c. coCalls s k = Some c \<longrightarrow> c < length (coObjs s) \<and> scKey (coObjs s ! c) = k)
     \<and> (\<forall>w c. coCallers s w = WaitsOn c \<longrightarrow> c < length (coObjs s) \<and> w < coNextCaller s)
     \<and> (\<forall>w c v. coCallers s w = Got c v \<longrightarrow> c < length (coObjs s) \<and> w < coNextCaller s \<and> scValue (coObjs s ! c) = Some v)
     \<and> (\<forall>w \<ge> coNextCaller s. coCallers s w = NotYet)
     \<and> set (coDisposed s) \<subseteq> {..<length (coObjs s)}"

lemma co_inv_call:
  "co_inv s \<Longrightarrow> c < length (coObjs s) \<Longrightarrow> call_ok (coClosed s) (waitersOf s c) (disposals s c) (handedOut (coCallers s) c)
     (coCalls s (scKey (coObjs s ! c)) = Some c) (coObjs s ! c)"
  by (simp add: co_inv_def)

lemma co_inv_map: "co_inv s \<Longrightarrow> coCalls s k = Some c \<Longrightarrow> c < length (coObjs s) \<and> scKey (coObjs s ! c) = k"
  unfolding co_inv_def by blast

lemma co_inv_waits: "co_inv s \<Longrightarrow> coCallers s w = WaitsOn c \<Longrightarrow> c < length (coObjs s) \<and> w < coNextCaller s"
  unfolding co_inv_def by blast

lemma co_inv_got:
  "co_inv s \<Longrightarrow> coCallers s w = Got c v \<Longrightarrow> c < length (coObjs s) \<and> w < coNextCaller s \<and> scValue (coObjs s ! c) = Some v"
  unfolding co_inv_def by blast

lemma co_inv_fresh: "co_inv s \<Longrightarrow> coNextCaller s \<le> w \<Longrightarrow> coCallers s w = NotYet"
  unfolding co_inv_def by blast

lemma co_inv_disposed: "co_inv s \<Longrightarrow> c \<in> set (coDisposed s) \<Longrightarrow> c < length (coObjs s)"
  unfolding co_inv_def by blast

lemma co_inv_init: "co_inv newCoalescer"
  by (simp add: co_inv_def newCoalescer_def)

section \<open>The steps keep it\<close>

text \<open>What leaving means for the call: the last caller to leave a completed call disposes of a value nobody took.\<close>

lemma call_ok_leave_done:
  assumes "call_ok closed (Suc n) d handed current call" "scCompleted call"
  shows "call_ok closed n (if n = 0 \<and> \<not> scClaimed call \<and> scSucceeded call \<and> scDispose call then Suc d else d) handed False
    (call\<lparr>scWaiters := int n\<rparr>)"
  using assms by (cases "scErr call"; cases "n = 0"; cases "d = 0") (auto simp: call_ok_def)

lemma call_ok_leave_running:
  assumes "call_ok closed (Suc n) d handed current call" "\<not> scCompleted call"
  shows "call_ok closed n d handed (0 < n) (call\<lparr>scWaiters := int n, scCancelled := scCancelled call \<or> n = 0\<rparr>)"
  using assms by (auto simp: call_ok_def)

text \<open>A caller leaves the call it waits for, with or without its value.\<close>

lemma leave_inv:
  assumes inv: "co_inv s" and w: "coCallers s w = WaitsOn c"
    and call: "scKey call = scKey (coObjs s ! c)" "scValue call = scValue (coObjs s ! c)"
    and p: "(\<exists>e. p = Refused e) \<or> (\<exists>v. p = Got c v \<and> scValue call = Some v)"
    and ds: "ds = [] \<or> ds = [c]"
    and calls: "calls = coCalls s \<or> calls = (coCalls s)(scKey call := None) \<and> coCalls s (scKey call) = Some c"
    and ok: "\<And>n. waitersOf s c = Suc n \<Longrightarrow> call_ok (coClosed s) n (disposals s c + length ds)
      (handedOut (coCallers s) c \<or> (\<exists>v. p = Got c v)) (calls (scKey call) = Some c) call"
  shows "co_inv (s\<lparr>coObjs := (coObjs s)[c := call], coCallers := (coCallers s)(w := p), coCalls := calls,
    coDisposed := coDisposed s @ ds\<rparr>)" (is "co_inv ?s")
proof -
  note wc = co_inv_waits [OF inv w]
  have n: "Suc (waitersOf ?s c) = waitersOf s c"
    using countWhere_leave [where k = w and n = "coNextCaller s" and P = "\<lambda>p. p = WaitsOn c" and f = "coCallers s" and p = p] wc w p by auto
  have n': "waitersOf ?s c' = waitersOf s c'" if "c' \<noteq> c" for c'
    using countWhere_same [where k = w and n = "coNextCaller s" and P = "\<lambda>p. p = WaitsOn c'" and f = "coCallers s" and p = p] wc w p that by auto
  have d: "disposals ?s c' = disposals s c' + (if c' = c then length ds else 0)" for c'
    using ds by auto
  have h: "handedOut (coCallers ?s) c' \<longleftrightarrow> handedOut (coCallers s) c' \<or> (c' = c \<and> (\<exists>v. p = Got c v))" for c'
    using p w unfolding handedOut_def by (elim disjE exE; simp) (metis co_caller.distinct(7))+
  have map: "calls k = Some c' \<longleftrightarrow> coCalls s k = Some c' \<and> (calls = coCalls s \<or> c' \<noteq> c)" for k c'
    using calls co_inv_map [OF inv, of k c'] call(1) by (cases "k = scKey call") auto
  show ?thesis
    unfolding co_inv_def
  proof (intro conjI allI impI)
    fix c' assume c': "c' < length (coObjs ?s)"
    show "call_ok (coClosed ?s) (waitersOf ?s c') (disposals ?s c') (handedOut (coCallers ?s) c')
        (coCalls ?s (scKey (coObjs ?s ! c')) = Some c') (coObjs ?s ! c')"
    proof (cases "c' = c")
      case True
      then show ?thesis using ok [OF n [symmetric]] wc unfolding h d by simp
    next
      case False
      then show ?thesis using co_inv_call [OF inv, of c'] c' unfolding h d n' [OF False] by (simp add: map)
    qed
  next
    fix w' c' assume "coCallers ?s w' = WaitsOn c'"
    then show "c' < length (coObjs ?s)" "w' < coNextCaller ?s"
      using co_inv_waits [OF inv, of w' c'] p by (auto split: if_splits)
  next
    fix w' c' v assume g: "coCallers ?s w' = Got c' v"
    show "c' < length (coObjs ?s)" "w' < coNextCaller ?s" "scValue (coObjs ?s ! c') = Some v"
      using co_inv_got [OF inv, of w' c' v] g p wc call(2) by (auto simp: nth_list_update split: if_splits)
  next
    fix w' assume "coNextCaller ?s \<le> w'"
    then show "coCallers ?s w' = NotYet" using co_inv_fresh [OF inv, of w'] wc by auto
  next
    show "set (coDisposed ?s) \<subseteq> {..<length (coObjs ?s)}" using co_inv_disposed [OF inv] wc ds by auto
  next
    fix k c' assume "coCalls ?s k = Some c'"
    then have m: "coCalls s k = Some c'" by (simp add: map)
    show "c' < length (coObjs ?s)" "scKey (coObjs ?s ! c') = k"
      using co_inv_map [OF inv m] call(1) by (cases "c' = c"; auto simp: nth_list_update)+
  qed
qed

lemma abandon_inv:
  assumes inv: "co_inv s" and w: "coCallers s w = WaitsOn c"
  shows "co_inv (abandon w c e s)"
proof -
  note wc = co_inv_waits [OF inv w]
  note ok = co_inv_call [OF inv conjunct1 [OF wc], unfolded call_ok_def]
  define call where "call = (coObjs s ! c)\<lparr>scWaiters := scWaiters (coObjs s ! c) - 1\<rparr>"
  define last where "last \<longleftrightarrow> scWaiters call = 0 \<and> \<not> scCompleted call"
  define call' where "call' = (if last then call\<lparr>scCancelled := True\<rparr> else call)"
  define calls where "calls = (if last \<and> coCalls s (scKey call) = Some c then (coCalls s)(scKey call := None) else coCalls s)"
  define ds where "ds = (if scWaiters call = 0 \<and> scCompleted call \<and> \<not> scClaimed call \<and> scSucceeded call \<and> scDispose call then [c] else [])"
  have "abandon w c e s = s\<lparr>coObjs := (coObjs s)[c := call'], coCallers := (coCallers s)(w := Refused e), coCalls := calls,
      coDisposed := coDisposed s @ ds\<rparr>"
    unfolding abandon_def releaseLocked_def Let_def call_def [symmetric]
    by (simp add: setCaller_def setCall_def call'_def calls_def ds_def last_def)
  also have "co_inv \<dots>"
  proof (rule leave_inv [OF inv w])
    show "scKey call' = scKey (coObjs s ! c)" "scValue call' = scValue (coObjs s ! c)"
      by (simp_all add: call'_def call_def)
    show "calls = coCalls s \<or> calls = (coCalls s)(scKey call' := None) \<and> coCalls s (scKey call') = Some c"
      by (simp add: calls_def call'_def)
    fix n assume n: "waitersOf s c = Suc n"
    have f: "scWaiters call = int n" "scKey call = scKey (coObjs s ! c)" "scCompleted call = scCompleted (coObjs s ! c)"
      "scClaimed call = scClaimed (coObjs s ! c)" "scSucceeded call = scSucceeded (coObjs s ! c)" "scErr call = scErr (coObjs s ! c)"
      "scValue call = scValue (coObjs s ! c)" "scDispose call = scDispose (coObjs s ! c)"
      using ok n by (simp_all add: call_def)
    show "call_ok (coClosed s) n (disposals s c + length ds)
        (handedOut (coCallers s) c \<or> (\<exists>v. Refused e = Got c v)) (calls (scKey call') = Some c) call'"
    proof (cases "scCompleted (coObjs s ! c)")
      case True
      have "call' = (coObjs s ! c)\<lparr>scWaiters := int n\<rparr>" using ok n True by (simp add: call'_def last_def call_def)
      moreover have "calls (scKey call') \<noteq> Some c" using ok True by (simp add: calls_def call'_def last_def call_def)
      moreover have "disposals s c + length ds =
          (if n = 0 \<and> \<not> scClaimed (coObjs s ! c) \<and> scSucceeded (coObjs s ! c) \<and> scDispose (coObjs s ! c)
           then Suc (disposals s c) else disposals s c)" using True by (simp add: ds_def f)
      ultimately show ?thesis
        using call_ok_leave_done [OF co_inv_call [OF inv conjunct1 [OF wc], unfolded n] True] by simp
    next
      case False
      have "call' = (coObjs s ! c)\<lparr>scWaiters := int n, scCancelled := scCancelled (coObjs s ! c) \<or> n = 0\<rparr>"
        using ok n False by (simp add: call'_def last_def call_def)
      moreover have "calls (scKey call') = Some c \<longleftrightarrow> 0 < n"
        using ok n False by (simp add: calls_def call'_def last_def f)
      moreover have "ds = []" using False by (simp add: ds_def f)
      ultimately show ?thesis
        using call_ok_leave_running [OF co_inv_call [OF inv conjunct1 [OF wc], unfolded n] False] by simp
    qed
  qed (auto simp: ds_def)
  finally show ?thesis .
qed

lemma call_ok_claim:
  assumes "call_ok closed (Suc n) d handed current call" "scCompleted call"
  shows "call_ok closed n d (handed \<or> scErr call = None) False (call\<lparr>scClaimed := True, scWaiters := int n\<rparr>)"
  using assms by (cases "scErr call"; cases "d = 0") (auto simp: call_ok_def)

lemma claimResult_inv:
  assumes inv: "co_inv s" and w: "coCallers s w = WaitsOn c" and fin: "scCompleted (coObjs s ! c)"
  shows "co_inv (claimResult w c s)"
proof -
  note wc = co_inv_waits [OF inv w]
  note ok = co_inv_call [OF inv conjunct1 [OF wc], unfolded call_ok_def]
  obtain v where v: "scValue (coObjs s ! c) = Some v" using ok fin by auto
  define call where "call = (coObjs s ! c)\<lparr>scClaimed := True, scWaiters := scWaiters (coObjs s ! c) - 1\<rparr>"
  define p where "p = (case scErr (coObjs s ! c) of Some e \<Rightarrow> Refused e | None \<Rightarrow> Got c v)"
  have "claimResult w c s = s\<lparr>coObjs := (coObjs s)[c := call], coCallers := (coCallers s)(w := p), coCalls := coCalls s,
      coDisposed := coDisposed s @ []\<rparr>"
    using fin wc v
    by (simp add: claimResult_def releaseLocked_def Let_def setCaller_def setCall_def call_def p_def split: option.split)
  also have "co_inv \<dots>"
  proof (rule leave_inv [OF inv w])
    show "scKey call = scKey (coObjs s ! c)" "scValue call = scValue (coObjs s ! c)" by (simp_all add: call_def)
    show "(\<exists>e. p = Refused e) \<or> (\<exists>v. p = Got c v \<and> scValue call = Some v)"
      by (simp add: p_def call_def v split: option.split)
    fix n assume n: "waitersOf s c = Suc n"
    have "call = (coObjs s ! c)\<lparr>scClaimed := True, scWaiters := int n\<rparr>" using ok n by (simp add: call_def)
    moreover have "coCalls s (scKey call) \<noteq> Some c" using ok fin by (simp add: call_def)
    moreover have "(\<exists>v. p = Got c v) \<longleftrightarrow> scErr (coObjs s ! c) = None" by (simp add: p_def split: option.split)
    ultimately show "call_ok (coClosed s) n (disposals s c + length []) (handedOut (coCallers s) c \<or> (\<exists>v. p = Got c v))
        (coCalls s (scKey call) = Some c) call"
      using call_ok_claim [OF co_inv_call [OF inv conjunct1 [OF wc], unfolded n] fin] by simp
  qed simp_all
  finally show ?thesis .
qed

lemma call_ok_finish:
  assumes "call_ok closed n d handed current call" "\<not> scCompleted call"
  shows "call_ok closed n (if err = None \<and> scDispose call \<and> (n = 0 \<or> closed) then Suc d else d) handed False
    (call\<lparr>scCancelled := True, scValue := Some v, scCompleted := True, scSucceeded := (err = None),
      scErr := (if closed then Some ce else err)\<rparr>)"
  using assms by (cases err; cases closed) (auto simp: call_ok_def)

lemma finishRun_inv:
  assumes inv: "co_inv s" and c: "c < length (coObjs s)" and run: "\<not> scCompleted (coObjs s ! c)"
  shows "co_inv (finishRun c v err s)"
proof -
  note ok = co_inv_call [OF inv c, unfolded call_ok_def]
  define call where "call = (coObjs s ! c)\<lparr>scCancelled := True, scValue := Some v, scCompleted := True, scSucceeded := (err = None),
            scErr := (if coClosed s then Some (coCloseErr s) else err)\<rparr>"
  define ds where "ds = (if err = None \<and> scDispose (coObjs s ! c) \<and> (waitersOf s c = 0 \<or> coClosed s) then [c] else [])"
  define calls where "calls = (if coCalls s (scKey call) = Some c then (coCalls s)(scKey call := None) else coCalls s)"
  have eq: "finishRun c v err s = s\<lparr>coObjs := (coObjs s)[c := call], coCalls := calls, coDisposed := coDisposed s @ ds\<rparr>" (is "_ = ?s")
  proof -
    have f: "\<not> scClaimed call" "scSucceeded call \<longleftrightarrow> err = None" "scDispose call = scDispose (coObjs s ! c)"
      "scWaiters call = int (waitersOf s c)" using ok run by (simp_all add: call_def)
    show ?thesis
      unfolding finishRun_def Let_def call_def [symmetric] f by (simp add: setCall_def ds_def calls_def f)
  qed
  have key: "scKey call = scKey (coObjs s ! c)" by (simp add: call_def)
  have map: "calls k = Some c' \<longleftrightarrow> coCalls s k = Some c' \<and> c' \<noteq> c" for k c'
    using co_inv_map [OF inv, of k c'] key by (cases "k = scKey call") (auto simp: calls_def)
  have d: "disposals ?s c' = disposals s c' + (if c' = c then length ds else 0)" for c' by (auto simp: ds_def)
  have "co_inv ?s"
    unfolding co_inv_def
  proof (intro conjI allI impI)
    fix c' assume c': "c' < length (coObjs ?s)"
    show "call_ok (coClosed ?s) (waitersOf ?s c') (disposals ?s c') (handedOut (coCallers ?s) c')
        (coCalls ?s (scKey (coObjs ?s ! c')) = Some c') (coObjs ?s ! c')"
    proof (cases "c' = c")
      case True
      have "disposals ?s c' = (if err = None \<and> scDispose (coObjs s ! c) \<and> (waitersOf s c = 0 \<or> coClosed s)
          then Suc (disposals s c) else disposals s c)" using True unfolding d by (simp add: ds_def)
      then show ?thesis
        using call_ok_finish [OF co_inv_call [OF inv c] run, where err = err and v = v and ce = "coCloseErr s"] True c by (simp add: map call_def)
    next
      case False
      then show ?thesis using co_inv_call [OF inv, of c'] c' unfolding d by (simp add: map)
    qed
  next
    fix w' c' assume "coCallers ?s w' = WaitsOn c'"
    then show "c' < length (coObjs ?s)" "w' < coNextCaller ?s" using co_inv_waits [OF inv, of w' c'] by auto
  next
    fix w' c' u assume g: "coCallers ?s w' = Got c' u"
    have "c' \<noteq> c" using ok run g by (auto simp: handedOut_def)
    then show "c' < length (coObjs ?s)" "w' < coNextCaller ?s" "scValue (coObjs ?s ! c') = Some u"
      using co_inv_got [OF inv, of w' c' u] g by auto
  next
    fix w' assume "coNextCaller ?s \<le> w'"
    then show "coCallers ?s w' = NotYet" using co_inv_fresh [OF inv, of w'] by auto
  next
    show "set (coDisposed ?s) \<subseteq> {..<length (coObjs ?s)}" using co_inv_disposed [OF inv] c by (auto simp: ds_def)
  next
    fix k c' assume "coCalls ?s k = Some c'"
    then have m: "coCalls s k = Some c'" by (simp add: map)
    show "c' < length (coObjs ?s)" "scKey (coObjs ?s ! c') = k"
      using co_inv_map [OF inv m] key by (cases "c' = c"; auto simp: nth_list_update)+
  qed
  then show ?thesis by (simp only: eq)
qed

lemma startCall_spec:
  assumes inv: "co_inv s" and st: "startCall key dispose s = (c, s')"
  shows "c < length (coObjs s')" "coCalls s' key = Some c"
    "\<And>c'. c' < length (coObjs s) \<Longrightarrow> coObjs s' ! c' = coObjs s ! c'"
    "length (coObjs s') = Suc c \<and> c = length (coObjs s) \<and> coObjs s' ! c = newSharedCall key dispose \<and> coCalls s key = None
      \<and> coCalls s' = (coCalls s)(key \<mapsto> c) \<or> s' = s"
    "coCallers s' = coCallers s" "coNextCaller s' = coNextCaller s" "coClosed s' = coClosed s" "coDisposed s' = coDisposed s"
  using st co_inv_map [OF inv, of key]
  by (auto simp: startCall_def nth_append split: option.splits)

text \<open>A new caller that does not wait changes nothing else.\<close>

lemma refuse_inv:
  assumes inv: "co_inv s"
  shows "co_inv (setCaller (coNextCaller s) (Refused e) (s\<lparr>coNextCaller := Suc (coNextCaller s)\<rparr>))" (is "co_inv ?s")
proof -
  have new: "coCallers s (coNextCaller s) = NotYet" using co_inv_fresh [OF inv] by simp
  have n: "waitersOf ?s c = waitersOf s c" for c by (simp add: setCaller_def countWhere_Suc)
  have h: "handedOut (coCallers ?s) c = handedOut (coCallers s) c" for c
    using new unfolding handedOut_def setCaller_def by simp (metis co_caller.distinct(3))
  have f: "coObjs ?s = coObjs s" "coCalls ?s = coCalls s" "coClosed ?s = coClosed s" "coDisposed ?s = coDisposed s"
    "coNextCaller ?s = Suc (coNextCaller s)" "coCallers ?s = (coCallers s)(coNextCaller s := Refused e)"
    by (simp_all add: setCaller_def)
  show ?thesis
    unfolding co_inv_def n h unfolding f(1-5)
  proof (intro conjI allI impI)
    fix w c assume "coCallers ?s w = WaitsOn c"
    then show "c < length (coObjs s)" "w < Suc (coNextCaller s)" using co_inv_waits [OF inv, of w c] by (auto simp: f split: if_splits)
  next
    fix w c v assume "coCallers ?s w = Got c v"
    then show "c < length (coObjs s)" "w < Suc (coNextCaller s)" "scValue (coObjs s ! c) = Some v"
      using co_inv_got [OF inv, of w c v] by (auto simp: f split: if_splits)
  next
    fix w assume "Suc (coNextCaller s) \<le> w"
    then show "coCallers ?s w = NotYet" using co_inv_fresh [OF inv, of w] by (simp add: f)
  qed (use inv in \<open>simp_all add: co_inv_def\<close>)
qed

lemma join_inv:
  assumes inv: "co_inv s" and opn: "\<not> coClosed s" and st: "startCall key dispose s = (c, s1)"
  shows "co_inv (setCaller (coNextCaller s) (WaitsOn c)
    (setCall c ((coObjs s1 ! c)\<lparr>scWaiters := scWaiters (coObjs s1 ! c) + 1\<rparr>) (s1\<lparr>coNextCaller := Suc (coNextCaller s)\<rparr>)))" (is "co_inv ?s")
proof -
  note start = startCall_spec [OF inv st]
  have new: "coCallers s (coNextCaller s) = NotYet" using co_inv_fresh [OF inv] by simp
  have f: "coObjs ?s = (coObjs s1)[c := (coObjs s1 ! c)\<lparr>scWaiters := scWaiters (coObjs s1 ! c) + 1\<rparr>]" "coCalls ?s = coCalls s1"
    "coClosed ?s = coClosed s" "coDisposed ?s = coDisposed s"
    "coNextCaller ?s = Suc (coNextCaller s)" "coCallers ?s = (coCallers s)(coNextCaller s := WaitsOn c)"
    using start by (simp_all add: setCaller_def setCall_def)
  have n: "waitersOf ?s c' = waitersOf s c' + (if c' = c then 1 else 0)" for c' unfolding f by (simp add: countWhere_Suc)
  have h: "handedOut (coCallers ?s) c' = handedOut (coCallers s) c'" for c'
    using new unfolding handedOut_def f by simp (metis co_caller.distinct(3))
  have len: "length (coObjs s) \<le> length (coObjs s1)" using start(4) by auto
  have old: "c' < length (coObjs s)" if "c' \<noteq> c" "c' < length (coObjs s1)" for c' using that start(4) by auto
  have obj: "coObjs ?s ! c' = coObjs s ! c'" if "c' \<noteq> c" "c' < length (coObjs s1)" for c'
    using start(3) [OF old [OF that]] that by (simp add: f)
  have cur: "coCalls s1 k = Some c' \<longleftrightarrow> coCalls s k = Some c'" if "c' \<noteq> c" for k c' using start(4) that by (auto split: if_splits)
  have c: "call_ok (coClosed s) (waitersOf s c + 1) (disposals s c) (handedOut (coCallers s) c) (coCalls s1 (scKey (coObjs s1 ! c)) = Some c)
      ((coObjs s1 ! c)\<lparr>scWaiters := scWaiters (coObjs s1 ! c) + 1\<rparr>)"
  proof (cases "s1 = s")
    case True
    then have cur: "coCalls s (scKey (coObjs s ! c)) = Some c" "c < length (coObjs s)"
      using start(1,2) co_inv_map [OF inv, of key c] by auto
    from co_inv_call [OF inv cur(2)] show ?thesis unfolding True by (simp add: call_ok_def cur(1))
  next
    case False
    then have c: "c = length (coObjs s)" and o: "coObjs s1 ! c = newSharedCall key dispose" and m: "coCalls s1 key = Some c"
      using start(2,4) by auto
    have "waitersOf s c = 0" using co_inv_waits [OF inv] c unfolding countWhere_0_iff by force
    moreover have "disposals s c = 0" using co_inv_disposed [OF inv] c by (auto simp: count_list_0_iff)
    moreover have "\<not> handedOut (coCallers s) c" using co_inv_got [OF inv] c by (force simp: handedOut_def)
    ultimately show ?thesis using m by (simp add: o call_ok_def newSharedCall_def)
  qed
  show ?thesis
    unfolding co_inv_def n h unfolding f(2-5)
  proof (intro conjI allI impI)
    fix c' assume c': "c' < length (coObjs ?s)"
    show "call_ok (coClosed s) (waitersOf s c' + (if c' = c then 1 else 0)) (disposals s c') (handedOut (coCallers s) c')
        (coCalls s1 (scKey (coObjs ?s ! c')) = Some c') (coObjs ?s ! c')"
    proof (cases "c' = c")
      case True
      then show ?thesis using c start(1) by (simp add: f(1))
    next
      case False
      moreover have "c' < length (coObjs s1)" using c' by (simp add: f(1))
      ultimately show ?thesis using co_inv_call [OF inv old] cur by (simp add: obj)
    qed
  next
    fix k c' assume m: "coCalls s1 k = Some c'"
    show "c' < length (coObjs ?s)" "scKey (coObjs ?s ! c') = k"
      using m start co_inv_map [OF inv, of k c'] by (cases "c' = c"; auto simp: f newSharedCall_def nth_list_update split: if_splits)+
  next
    fix w c' assume "coCallers ?s w = WaitsOn c'"
    then show "c' < length (coObjs ?s)" "w < Suc (coNextCaller s)"
      using co_inv_waits [OF inv, of w c'] len start(1) by (auto simp: f split: if_splits)
  next
    fix w c' v assume g: "coCallers ?s w = Got c' v"
    then have g: "coCallers s w = Got c' v" by (auto simp: f split: if_splits)
    show "c' < length (coObjs ?s)" "w < Suc (coNextCaller s)" using co_inv_got [OF inv g] len by (auto simp: f)
    show "scValue (coObjs ?s ! c') = Some v"
      using co_inv_got [OF inv g] len start(1,3) unfolding f(1) by (cases "c' = c") auto
  next
    fix w assume "Suc (coNextCaller s) \<le> w"
    then show "coCallers ?s w = NotYet" using co_inv_fresh [OF inv, of w] by (simp add: f)
  next
    show "set (coDisposed s) \<subseteq> {..<length (coObjs ?s)}" using co_inv_disposed [OF inv] len by (force simp: f)
  qed
qed

lemma enterDo_inv:
  assumes inv: "co_inv s"
  shows "co_inv (enterDo nilCtx nilWork key dispose s)"
proof -
  obtain c s1 where st: "startCall key dispose s = (c, s1)" by (cases "startCall key dispose s")
  have "startCall key dispose (s\<lparr>coNextCaller := n\<rparr>) = (c, s1\<lparr>coNextCaller := n\<rparr>)" for n
    using st by (auto simp: startCall_def split: option.splits)
  then show ?thesis
    using refuse_inv [OF inv] join_inv [OF inv _ st] by (simp add: enterDo_def Let_def)
qed

lemma call_ok_close:
  assumes "call_ok closed n d handed current call"
  shows "call_ok True n d handed current (call\<lparr>scCancelled := scCancelled call \<or> q\<rparr>)"
  using assms unfolding call_ok_def by (simp (no_asm) del: not_None_eq One_nat_def) blast

lemma closeCoalescer_inv:
  assumes inv: "co_inv s"
  shows "co_inv (closeCoalescer err s)"
proof (cases "coClosed s")
  case False
  let ?s = "closeCoalescer err s"
  have f: "coCalls ?s = coCalls s" "coCallers ?s = coCallers s" "coNextCaller ?s = coNextCaller s" "coDisposed ?s = coDisposed s"
    "coClosed ?s" "length (coObjs ?s) = length (coObjs s)"
    using False by (simp_all add: closeCoalescer_def)
  have obj: "coObjs ?s ! c = (coObjs s ! c)\<lparr>scCancelled := scCancelled (coObjs s ! c) \<or> coCalls s (scKey (coObjs s ! c)) = Some c\<rparr>"
    if "c < length (coObjs s)" for c
    using False that by (simp add: closeCoalescer_def)
  have "call_ok True (waitersOf s c) (disposals s c) (handedOut (coCallers s) c) (coCalls s (scKey (coObjs ?s ! c)) = Some c) (coObjs ?s ! c)"
    if "c < length (coObjs s)" for c
    using call_ok_close [OF co_inv_call [OF inv that]] by (simp add: obj [OF that])
  moreover have "c < length (coObjs s) \<and> scKey (coObjs ?s ! c) = k" if "coCalls s k = Some c" for k c
    using co_inv_map [OF inv that] obj by simp
  moreover have "c < length (coObjs s) \<and> w < coNextCaller s \<and> scValue (coObjs ?s ! c) = Some v" if "coCallers s w = Got c v" for w c v
    using co_inv_got [OF inv that] obj by simp
  ultimately show ?thesis
    unfolding co_inv_def f(1-4,6) eqTrueI [OF f(5)]
  proof (intro conjI allI impI)
    show "set (coDisposed s) \<subseteq> {..<length (coObjs s)}" using co_inv_disposed [OF inv] by blast
  qed (use co_inv_waits [OF inv] co_inv_fresh [OF inv] in blast)+
qed (simp add: closeCoalescer_def inv)

lemma co_step_inv: "co_step s s' \<Longrightarrow> co_inv s \<Longrightarrow> co_inv s'"
  by (induction rule: co_step.induct) (auto intro: enterDo_inv claimResult_inv abandon_inv finishRun_inv closeCoalescer_inv)

lemma co_reachable_inv: "co_reachable s \<Longrightarrow> co_inv s"
  unfolding co_reachable_def by (induction rule: rtranclp_induct) (auto intro: co_inv_init co_step_inv)

section \<open>What the coalescer guarantees\<close>

text \<open>
  C24. Shared operations: in every reachable state, under every interleaving, (1) at most one operation per key
  runs that is neither completed nor cancelled; (2) the callers of a call all get the same value, and a value that a
  caller got is never disposed; (3) until the coalescer is closed no value is disposed twice; (4) a value that
  nobody took and nobody waits for any more has been disposed; (5) the count of a call is the number of callers
  that wait for it, and an operation nobody waits for is cancelled.
\<close>

theorem coalescer_values_owned:
  assumes "co_reachable s" and "c < length (coObjs s)"
  shows "(\<forall>c' < length (coObjs s). scKey (coObjs s ! c') = scKey (coObjs s ! c)
       \<and> \<not> scCompleted (coObjs s ! c) \<and> \<not> scCancelled (coObjs s ! c) \<and> \<not> scCompleted (coObjs s ! c') \<and> \<not> scCancelled (coObjs s ! c')
       \<longrightarrow> c' = c)
    \<and> (\<forall>w v. coCallers s w = Got c v \<longrightarrow> scValue (coObjs s ! c) = Some v \<and> c \<notin> set (coDisposed s))
    \<and> (count_list (coDisposed s) c \<le> 1 \<or> coClosed s)
    \<and> (scCompleted (coObjs s ! c) \<and> scSucceeded (coObjs s ! c) \<and> scDispose (coObjs s ! c) \<and> (\<forall>w. coCallers s w \<noteq> WaitsOn c)
       \<longrightarrow> c \<in> set (coDisposed s) \<or> (\<exists>w v. coCallers s w = Got c v))
    \<and> scWaiters (coObjs s ! c) = int (card {w. coCallers s w = WaitsOn c})
    \<and> (\<not> scCompleted (coObjs s ! c) \<and> (\<forall>w. coCallers s w \<noteq> WaitsOn c) \<longrightarrow> scCancelled (coObjs s ! c))"
proof -
  note inv = co_reachable_inv [OF assms(1)]
  note ok = co_inv_call [OF inv]
  have alive: "coCalls s (scKey (coObjs s ! c')) = Some c'"
    if "c' < length (coObjs s)" "\<not> scCompleted (coObjs s ! c')" "\<not> scCancelled (coObjs s ! c')" for c'
    using ok [OF that(1)] that(2,3) by (auto simp: call_ok_def)
  have none: "waitersOf s c = 0" if "\<forall>w. coCallers s w \<noteq> WaitsOn c" using that by (simp add: countWhere_0_iff)
  have "{w. w < coNextCaller s \<and> coCallers s w = WaitsOn c} = {w. coCallers s w = WaitsOn c}"
    using co_inv_waits [OF inv] by blast
  then have "scWaiters (coObjs s ! c) = int (card {w. coCallers s w = WaitsOn c})"
    using ok [OF assms(2)] by (simp add: call_ok_def countWhere_card)
  moreover have "scValue (coObjs s ! c) = Some v \<and> c \<notin> set (coDisposed s)" if "coCallers s w = Got c v" for w v
  proof -
    have "handedOut (coCallers s) c" using that by (auto simp: handedOut_def)
    then have "disposals s c = 0" using ok [OF assms(2)] by (cases "scErr (coObjs s ! c)") (auto simp: call_ok_def)
    then show ?thesis using co_inv_got [OF inv that] by (simp add: count_list_0_iff)
  qed
  moreover have "disposals s c \<le> 1 \<or> coClosed s"
    using ok [OF assms(2)] by (cases "scErr (coObjs s ! c)"; cases "disposals s c = 0") (auto simp: call_ok_def)
  moreover have "c \<in> set (coDisposed s) \<or> (\<exists>w v. coCallers s w = Got c v)"
    if "scCompleted (coObjs s ! c)" "scSucceeded (coObjs s ! c)" "scDispose (coObjs s ! c)" "\<forall>w. coCallers s w \<noteq> WaitsOn c"
    using ok [OF assms(2)] that none by (auto simp: call_ok_def handedOut_def count_list_0_iff [symmetric])
  moreover have "scCancelled (coObjs s ! c)" if "\<not> scCompleted (coObjs s ! c)" "\<forall>w. coCallers s w \<noteq> WaitsOn c"
    using ok [OF assms(2)] that none by (simp add: call_ok_def)
  moreover have "c' = c" if "c' < length (coObjs s)" "scKey (coObjs s ! c') = scKey (coObjs s ! c)"
    "\<not> scCompleted (coObjs s ! c)" "\<not> scCancelled (coObjs s ! c)" "\<not> scCompleted (coObjs s ! c')" "\<not> scCancelled (coObjs s ! c')" for c'
    using alive [OF assms(2) that(3,4)] alive [OF that(1,5,6)] that(2) by simp
  ultimately show ?thesis by (intro conjI) blast+
qed

text \<open>Two callers share a call; one gives up, the other takes the value.\<close>

definition exShared :: "(nat, nat) coalescer" where
  "exShared = claimResult 1 0 (finishRun 0 42 None (abandon 0 0 ErrCanceled
     (enterDo False False 7 True (enterDo False False 7 True newCoalescer))))"

lemma exShared_reachable: "co_reachable exShared"
proof -
  let ?a = "enterDo False False 7 True newCoalescer :: (nat, nat) coalescer"
  let ?b = "enterDo False False 7 True ?a"
  let ?c = "abandon 0 0 ErrCanceled ?b"
  let ?d = "finishRun 0 42 None ?c"
  have "co_step newCoalescer ?a" "co_step ?a ?b" by (rule co_step.enter)+
  moreover have "co_step ?b ?c" by (rule co_step.abandon) (code_simp, simp)
  moreover have "co_step ?c ?d" by (rule co_step.finish; code_simp)
  moreover have "co_step ?d exShared" unfolding exShared_def by (rule co_step.claim; code_simp)
  ultimately show ?thesis unfolding co_reachable_def by (meson rtranclp.rtrancl_refl rtranclp.rtrancl_into_rtrancl)
qed

theorem coalescer_values_owned_witness:
  "coCallers exShared 0 = Refused ErrCanceled \<and> coCallers exShared 1 = Got 0 42 \<and> 0 \<notin> set (coDisposed exShared)"
proof -
  have "0 < length (coObjs exShared)" "coCallers exShared 1 = Got 0 42" "coCallers exShared 0 = Refused ErrCanceled" by code_simp+
  with coalescer_values_owned [OF exShared_reachable this(1)] show ?thesis by blast
qed

text \<open>After \<^verbatim>\<open>Close\<close> the guarantee of (3) is lost: an operation that completes with callers still waiting is disposed at
  once, and again when the last of them gives up although the result is there.\<close>

lemma coalescer_double_dispose: "\<exists>s :: (nat, nat) coalescer. co_reachable s \<and> count_list (coDisposed s) 0 = 2"
proof -
  let ?a = "enterDo False False 7 True newCoalescer :: (nat, nat) coalescer"
  let ?b = "closeCoalescer None ?a"
  let ?c = "finishRun 0 42 None ?b"
  let ?d = "abandon 0 0 ErrCanceled ?c"
  have "co_step newCoalescer ?a" by (rule co_step.enter)
  moreover have "co_step ?a ?b" by (rule co_step.close)
  moreover have "co_step ?b ?c" by (rule co_step.finish; code_simp)
  moreover have "co_step ?c ?d" by (rule co_step.abandon) (code_simp, simp)
  ultimately have "co_reachable ?d" unfolding co_reachable_def by (meson rtranclp.rtrancl_refl rtranclp.rtrancl_into_rtrancl)
  moreover have "count_list (coDisposed ?d) 0 = 2" by code_simp
  ultimately show ?thesis by blast
qed

end
