(* ===== verification/Client_Auth.thy ===== *)
theory Client_Auth
  imports Protocol
begin

text \<open>
  Authentication of a connection: the challenge exchange of \<^verbatim>\<open>pkg/fgo/client_auth.go\<close> over any authenticator, and the
  SASL PLAIN authenticator of \<^verbatim>\<open>pkg/fgo/auth.go\<close>. An authenticator is its operations on a state; a nil token is
  \<open>None\<close>.
\<close>

section \<open>The exchange\<close>

record 'a authenticator =
  auProtocol :: string
  auInitial :: bool
  auAuthenticate :: "'a \<Rightarrow> bytes \<Rightarrow> bytes option result \<times> 'a"
  auComplete :: "'a \<Rightarrow> bool"

text \<open>An \<^verbatim>\<open>AuthenticationError\<close>: the error, which matches \<^verbatim>\<open>ErrAuthentication\<close> and what it wraps, and whether a new
  connection may try again.\<close>

type_synonym auth_error = "go_error \<times> bool"

definition authenticationError :: "go_error \<Rightarrow> bool \<Rightarrow> auth_error" where
  "authenticationError err retriable = (Joined ErrAuthentication err, retriable)"

definition APIKeyAuthenticate :: int where "APIKeyAuthenticate = 1038"

definition isRetriableAuthenticationError :: "go_error \<Rightarrow> bool" where
  "isRetriableAuthenticationError err \<longleftrightarrow>
     (case asServer err of None \<Rightarrow> False | Some (code, retriable) \<Rightarrow> retriable \<and> code = 51)"

text \<open>\<^verbatim>\<open>authenticateRequest\<close>: \<open>send protocol token\<close> is the answer of the requester, the optional challenge of the
  response.\<close>

definition authenticateRequest :: "physical_client \<Rightarrow> (string \<Rightarrow> bytes \<Rightarrow> bytes option result) \<Rightarrow> string \<Rightarrow> bytes option \<Rightarrow>
  bytes option result" where
  "authenticateRequest c send protocol token =
     guardE (pcClosed c) ErrClosed (
     case pcVersions c APIKeyAuthenticate of
       None \<Rightarrow> Inl ErrUnsupportedAPI
     | Some version \<Rightarrow>
         andThen (validateAPI APIKeyAuthenticate 0 False) (\<lambda>_.
         andThen (validateAPI APIKeyAuthenticate version False) (\<lambda>_.
         send protocol (case token of None \<Rightarrow> [] | Some t \<Rightarrow> t))))"

definition initialAuthenticationToken :: "'a authenticator \<Rightarrow> 'a \<Rightarrow> (auth_error + bytes option) \<times> 'a" where
  "initialAuthenticationToken auth a =
     (if \<not> auInitial auth then (Inr None, a)
      else
        (case auAuthenticate auth a [] of
           (Inl e, a) \<Rightarrow> (Inl (authenticationError e False), a)
         | (Inr None, a) \<Rightarrow> (Inl (authenticationError (Plain ''initial response is missing'') False), a)
         | (Inr (Some token), a) \<Rightarrow> (Inr (Some token), a)))"

text \<open>\<open>Inr None\<close>: the exchange is complete; \<open>Inr (Some challenge)\<close>: it goes on.\<close>

definition authenticationChallenge :: "physical_client \<Rightarrow> (string \<Rightarrow> bytes \<Rightarrow> bytes option result) \<Rightarrow> 'a authenticator \<Rightarrow> 'a \<Rightarrow>
  bytes option \<Rightarrow> auth_error + bytes option" where
  "authenticationChallenge c send auth a token =
     (case authenticateRequest c send (auProtocol auth) token of
        Inl e \<Rightarrow>
          (let classified = serverError e APIKeyAuthenticate (pcAddress c)
           in Inl (authenticationError classified (isRetriableAuthenticationError classified)))
      | Inr challenge \<Rightarrow>
          if auComplete auth a then Inr None
          else (case challenge of
                  Some ch \<Rightarrow> Inr (Some ch)
                | None \<Rightarrow> Inl (authenticationError (Plain ''server completed exchange before authenticator completed'') False)))"

text \<open>\<open>Inr None\<close>: complete without a further token.\<close>

definition authenticationResponseToken :: "'a authenticator \<Rightarrow> 'a \<Rightarrow> bytes \<Rightarrow> (auth_error + bytes option) \<times> 'a" where
  "authenticationResponseToken auth a challenge =
     (case auAuthenticate auth a challenge of
        (Inl e, a) \<Rightarrow> (Inl (authenticationError e False), a)
      | (Inr (Some token), a) \<Rightarrow> (Inr (Some token), a)
      | (Inr None, a) \<Rightarrow>
          if auComplete auth a then (Inr None, a)
          else (Inl (authenticationError (Plain ''authenticator returned no response before completion'') False), a))"

text \<open>The loop of \<^verbatim>\<open>authenticate\<close>; \<open>sends n\<close> answers the request that is sent with \<open>n\<close> rounds left. The last
  component counts the requests.\<close>

fun authLoop :: "nat \<Rightarrow> physical_client \<Rightarrow> (nat \<Rightarrow> string \<Rightarrow> bytes \<Rightarrow> bytes option result) \<Rightarrow> 'a authenticator \<Rightarrow> 'a \<Rightarrow> bytes option \<Rightarrow>
  (auth_error + unit) \<times> 'a \<times> nat" where
  "authLoop 0 c sends auth a token =
     (Inl (authenticationError (Plain ''authentication exchange exceeded 16 steps'') False), a, 0)"
| "authLoop (Suc n) c sends auth a token =
     (case authenticationChallenge c (sends n) auth a token of
        Inl e \<Rightarrow> (Inl e, a, 1)
      | Inr None \<Rightarrow> (Inr (), a, 1)
      | Inr (Some challenge) \<Rightarrow>
          (case authenticationResponseToken auth a challenge of
             (Inl e, a) \<Rightarrow> (Inl e, a, 1)
           | (Inr None, a) \<Rightarrow> (Inr (), a, 1)
           | (Inr (Some token), a) \<Rightarrow>
               (case authLoop n c sends auth a (Some token) of (res, a, k) \<Rightarrow> (res, a, Suc k))))"

definition authenticate :: "physical_client \<Rightarrow> (nat \<Rightarrow> string \<Rightarrow> bytes \<Rightarrow> bytes option result) \<Rightarrow> 'a authenticator \<Rightarrow> 'a \<Rightarrow>
  (auth_error + unit) \<times> 'a \<times> nat" where
  "authenticate c sends auth a =
     (if auProtocol auth = [] then (Inl (authenticationError (Plain ''invalid authenticator'') False), a, 0)
      else
        (case initialAuthenticationToken auth a of
           (Inl e, a) \<Rightarrow> (Inl e, a, 0)
         | (Inr token, a) \<Rightarrow> authLoop 16 c sends auth a token))"

section \<open>SASL PLAIN\<close>

record plain_state =
  plUsername :: bytes
  plPassword :: bytes
  plCompleted :: bool

definition SASLPlainAuthenticator :: "bytes \<Rightarrow> bytes \<Rightarrow> plain_state result" where
  "SASLPlainAuthenticator username password =
     guardE (username = [] \<or> password = []) ErrInvalidConfig (
     Inr \<lparr>plUsername = username, plPassword = password, plCompleted = False\<rparr>)"

definition plainAuthenticate :: "plain_state \<Rightarrow> bytes \<Rightarrow> bytes option result \<times> plain_state" where
  "plainAuthenticate a challenge =
     (if plCompleted a then (Inl (Plain ''SASL PLAIN does not accept a server challenge''), a)
      else if challenge \<noteq> [] then (Inl (Plain ''SASL PLAIN received an unexpected server challenge''), a)
      else (Inr (Some (0 # plUsername a @ 0 # plPassword a)), a\<lparr>plCompleted := True\<rparr>))"

definition plainAuthenticator :: "plain_state authenticator" where
  "plainAuthenticator = \<lparr>auProtocol = ''PLAIN'', auInitial = True, auAuthenticate = plainAuthenticate, auComplete = plCompleted\<rparr>"

definition plainClose :: "plain_state \<Rightarrow> plain_state" where
  "plainClose a = a\<lparr>plUsername := [], plPassword := []\<rparr>"

section \<open>Lemmas\<close>

text \<open>The exchange ends after at most sixteen requests, succeeds only when the authenticator has completed, and
  every failure is an authentication error.\<close>

lemma authenticationResponseToken_fail:
  "authenticationResponseToken auth a challenge = (Inl e, a') \<Longrightarrow> errorsIs (fst e) ErrAuthentication"
  by (auto simp: authenticationResponseToken_def authenticationError_def split: prod.splits sum.splits option.splits if_splits)

lemma authenticationChallenge_fail:
  "authenticationChallenge c send auth a token = Inl e \<Longrightarrow> errorsIs (fst e) ErrAuthentication"
  by (auto simp: authenticationChallenge_def authenticationError_def Let_def split: sum.splits option.splits if_splits)

lemma authLoop_sound:
  "authLoop n c sends auth a token = (res, a', k) \<Longrightarrow>
     k \<le> n \<and> (res = Inr () \<longrightarrow> auComplete auth a') \<and> (\<forall>e. res = Inl e \<longrightarrow> errorsIs (fst e) ErrAuthentication)"
proof (induction n arbitrary: a token k res a')
  case (Suc n)
  show ?case
  proof (cases "authenticationChallenge c (sends n) auth a token")
    case (Inl e)
    then show ?thesis using Suc.prems authenticationChallenge_fail [OF Inl] by auto
  next
    case (Inr r)
    show ?thesis
    proof (cases r)
      case None
      then show ?thesis
        using Inr Suc.prems by (auto simp: authenticationChallenge_def Let_def split: sum.splits option.splits if_splits)
    next
      case (Some challenge)
      obtain x a1 where x: "authenticationResponseToken auth a challenge = (x, a1)"
        by (cases "authenticationResponseToken auth a challenge")
      show ?thesis
      proof (cases x)
        case (Inl e)
        then show ?thesis using Suc.prems Inr Some x authenticationResponseToken_fail [of auth a challenge e a1] by auto
      next
        case r: (Inr t)
        show ?thesis
        proof (cases t)
          case None
          then show ?thesis using Suc.prems Inr Some x r
            by (auto simp: authenticationResponseToken_def split: prod.splits sum.splits option.splits if_splits)
        next
          case t: (Some tok)
          obtain res2 a2 k2 where l: "authLoop n c sends auth a1 (Some tok) = (res2, a2, k2)"
            by (cases "authLoop n c sends auth a1 (Some tok)")
          then have "res = res2" "a' = a2" "k = Suc k2" using Suc.prems Inr Some x r t by auto
          then show ?thesis using Suc.IH [OF l] by auto
        qed
      qed
    qed
  qed
qed (auto simp: authenticationError_def)

lemma authenticate_sound:
  assumes "authenticate c sends auth a = (res, a', k)"
  shows "k \<le> 16 \<and> (res = Inr () \<longrightarrow> auComplete auth a') \<and> (\<forall>e. res = Inl e \<longrightarrow> errorsIs (fst e) ErrAuthentication)"
proof (cases "auProtocol auth = []")
  case True
  then show ?thesis using assms by (auto simp: authenticate_def authenticationError_def)
next
  case False
  obtain x a1 where x: "initialAuthenticationToken auth a = (x, a1)" by (cases "initialAuthenticationToken auth a")
  show ?thesis
  proof (cases x)
    case (Inl e)
    then have "errorsIs (fst e) ErrAuthentication" using x
      by (auto simp: initialAuthenticationToken_def authenticationError_def split: prod.splits sum.splits option.splits if_splits)
    then show ?thesis using assms x Inl False by (auto simp: authenticate_def)
  next
    case (Inr t)
    then have "authLoop 16 c sends auth a1 t = (res, a', k)" using assms x False by (simp add: authenticate_def)
    from authLoop_sound [OF this] show ?thesis .
  qed
qed

text \<open>SASL PLAIN sends one request, with the credentials, and is done with any answer.\<close>

lemma plain_exchange:
  assumes "SASLPlainAuthenticator u p = Inr a" "\<not> pcClosed c" "pcVersions c 1038 = Some v" "0 \<le> v" "v \<le> 0"
    and "sends 15 ''PLAIN'' (0 # u @ 0 # p) = Inr challenge"
  shows "authenticate c sends plainAuthenticator a = (Inr (), a\<lparr>plCompleted := True\<rparr>, 1)"
proof -
  have "validateAPI 1038 0 False = Inr (generatedAPIs ! 38)" by code_simp
  then have "validateAPI APIKeyAuthenticate 0 False = Inr (generatedAPIs ! 38)" by (simp add: APIKeyAuthenticate_def)
  moreover have "v = 0" using assms(4,5) by simp
  moreover have "a = \<lparr>plUsername = u, plPassword = p, plCompleted = False\<rparr>" using assms(1) by (auto simp: SASLPlainAuthenticator_def)
  ultimately show ?thesis
    using assms(2,3,6)
    by (simp add: authenticate_def plainAuthenticator_def initialAuthenticationToken_def plainAuthenticate_def
        authenticationChallenge_def authenticateRequest_def APIKeyAuthenticate_def numeral_eq_Suc)
qed

end
