(* ===== verification/Metadata_Router.thy ===== *)
theory Metadata_Router
  imports Table_Paths Go_Strings Server_Errors "HOL-Library.AList"
begin

text \<open>
  Metadata and routing: the snapshots of \<^verbatim>\<open>pkg/fgo/metadata.go\<close>, their construction from a response of the
  coordinator (\<^verbatim>\<open>pkg/fgo/metadata_client.go\<close>), and the router with its cache. Go maps are association lists with
  distinct keys; a value is immutable, so the deep copies of the source are the identity. The router's methods are
  modelled by what they do to the snapshot under the lock; whatever runs between two critical sections of a
  method is an arbitrary change of the snapshot.
\<close>

section \<open>Data\<close>

definition UnknownServerType :: int where "UnknownServerType = -1"
definition Coordinator :: int where "Coordinator = 1"
definition TabletServer :: int where "TabletServer = 2"

record server_node =
  snID :: int
  snAddress :: string
  snType :: int

definition zeroNode :: server_node where
  "zeroNode = \<lparr>snID = 0, snAddress = '''', snType = 0\<rparr>"

record bucket_metadata =
  bmID :: int
  bmLeader :: "server_node option"
  bmReplicas :: "int list"
  bmISR :: "int list"
  bmLeaderEpoch :: "int option"
  bmBucketEpoch :: "int option"

type_synonym node_map = "(int \<times> server_node) list"

record partition_metadata =
  pmPath :: physical_path
  pmID :: int
  pmBuckets :: node_map
  pmDetails :: "(int \<times> bucket_metadata) list"
  pmBucketCount :: int
  pmCoordinator :: server_node
  pmTablets :: "node_map option"

record table_metadata =
  tmPath :: table_path
  tmID :: int
  tmSchemaID :: int
  tmBuckets :: node_map
  tmDetails :: "(int \<times> bucket_metadata) list"
  tmBucketCount :: int
  tmBucketCountEpoch :: "int option"
  tmRemoteDataDirectory :: string
  tmPartitions :: "(string \<times> partition_metadata) list"
  tmCoordinator :: server_node
  tmTablets :: "node_map option"

text \<open>The snapshot of the router; \<^verbatim>\<open>fetch\<close> and \<^verbatim>\<open>fetchPartition\<close> are what the steps are given.\<close>

record router =
  rtCoordinator :: server_node
  rtTablets :: node_map
  rtTables :: "(table_path \<times> table_metadata) list"

definition NewRouter :: "server_node \<Rightarrow> router" where
  "NewRouter coordinator = \<lparr>rtCoordinator = coordinator, rtTablets = [], rtTables = []\<rparr>"

section \<open>Responses\<close>

text \<open>The fields of the protobuf messages as their getters return them; an absent optional field whose absence
  matters is \<open>None\<close>, and so is a nil message.\<close>

record pb_server_node =
  pbNodeID :: int
  pbHost :: string
  pbPort :: int

record pb_bucket =
  pbBucketID :: "int option"
  pbLeaderID :: "int option"
  pbReplicas :: "int list"
  pbISR :: "int list"
  pbLeaderEpoch :: "int option"
  pbBucketEpoch :: "int option"

record pb_table =
  pbTableDatabase :: string
  pbTableName :: string
  pbTableID :: int
  pbSchemaID :: int
  pbTableBuckets :: "pb_bucket option list"
  pbBucketCountEpoch :: "int option"
  pbRemoteDataDir :: string

record pb_partition =
  pbPartitionTableID :: int
  pbPartitionName :: string
  pbPartitionID :: int
  pbPartitionBuckets :: "pb_bucket option list"
  pbBucketCount :: "int option"

record metadata_response =
  mrTablets :: "pb_server_node option list"
  mrCoordinator :: "pb_server_node option"
  mrTables :: "pb_table list"
  mrPartitions :: "pb_partition list"

text \<open>\<^verbatim>\<open>net.JoinHostPort\<close> and \<^verbatim>\<open>int32(len(m))\<close>.\<close>

definition JoinHostPort :: "string \<Rightarrow> string \<Rightarrow> string" where
  "JoinHostPort host port =
     (if CHR '':'' \<in> set host then ''['' @ host @ '']:'' @ port else host @ '':'' @ port)"

definition int32 :: "int \<Rightarrow> int" where
  "int32 i = sint (word_of_int i :: 32 word)"

definition nodeFromProto :: "pb_server_node option \<Rightarrow> int \<Rightarrow> server_node result" where
  "nodeFromProto server serverType =
     (case server of
        None \<Rightarrow> Inl ErrMetadata
      | Some s \<Rightarrow>
          guardE (pbHost s = [] \<or> pbPort s \<le> 0 \<or> pbPort s > 65535) ErrMetadata (
          Inr \<lparr>snID = pbNodeID s, snAddress = JoinHostPort (pbHost s) (FormatInt (pbPort s)), snType = serverType\<rparr>))"

fun metadataTablets :: "pb_server_node option list \<Rightarrow> node_map \<Rightarrow> node_map result" where
  "metadataTablets [] tablets = Inr tablets"
| "metadataTablets (server # servers) tablets =
     andThen (nodeFromProto server TabletServer) (\<lambda>node. metadataTablets servers (AList.update (snID node) node tablets))"

definition metadataServers :: "metadata_response \<Rightarrow> (server_node \<times> node_map) result" where
  "metadataServers response =
     andThen (metadataTablets (mrTablets response) []) (\<lambda>tablets.
     case mrCoordinator response of
       None \<Rightarrow> Inr (zeroNode, tablets)
     | Some c \<Rightarrow> andThen (nodeFromProto (Some c) Coordinator) (\<lambda>coordinator. Inr (coordinator, tablets)))"

fun bucketMetadata :: "node_map \<Rightarrow> pb_bucket option list \<Rightarrow> node_map \<Rightarrow> (int \<times> bucket_metadata) list \<Rightarrow>
  (node_map \<times> (int \<times> bucket_metadata) list) result" where
  "bucketMetadata tablets [] leaders details = Inr (leaders, details)"
| "bucketMetadata tablets (bucket # buckets) leaders details =
     (case bucket of
        None \<Rightarrow> Inl ErrMetadata
      | Some b \<Rightarrow>
          (case pbBucketID b of
             None \<Rightarrow> Inl ErrMetadata
           | Some i \<Rightarrow>
               guardE (i < 0) ErrMetadata (
               let detail = \<lparr>bmID = i, bmLeader = None, bmReplicas = pbReplicas b, bmISR = pbISR b,
                     bmLeaderEpoch = pbLeaderEpoch b, bmBucketEpoch = pbBucketEpoch b\<rparr>
               in case pbLeaderID b of
                    None \<Rightarrow> bucketMetadata tablets buckets leaders (AList.update i detail details)
                  | Some l \<Rightarrow>
                      (case map_of tablets l of
                         None \<Rightarrow> Inl ErrNoBucketLeader
                       | Some node \<Rightarrow> bucketMetadata tablets buckets (AList.update i node leaders)
                           (AList.update i (detail\<lparr>bmLeader := Some node\<rparr>) details)))))"

text \<open>The bucket count of a partition: the one sent, or the number of its buckets.\<close>

definition partitionCount :: "pb_partition \<Rightarrow> (int \<times> bucket_metadata) list \<Rightarrow> int" where
  "partitionCount p details = (case pbBucketCount p of Some n \<Rightarrow> n | None \<Rightarrow> int32 (int (length details)))"

fun partitionMetadataForTable :: "int \<Rightarrow> table_path \<Rightarrow> server_node \<Rightarrow> node_map \<Rightarrow> pb_partition list \<Rightarrow>
  (string \<times> partition_metadata) list \<Rightarrow> (string \<times> partition_metadata) list result" where
  "partitionMetadataForTable tableID path coordinator tablets [] acc = Inr acc"
| "partitionMetadataForTable tableID path coordinator tablets (p # ps) acc =
     (if pbPartitionTableID p \<noteq> tableID then partitionMetadataForTable tableID path coordinator tablets ps acc
      else
        (let partitionPath = \<lparr>ppTable = path, Partition = pbPartitionName p\<rparr>
         in andThen (bucketMetadata tablets (pbPartitionBuckets p) [] []) (\<lambda>(buckets, details).
            partitionMetadataForTable tableID path coordinator tablets ps
              (AList.update (physicalTableKey partitionPath)
                 \<lparr>pmPath = partitionPath, pmID = pbPartitionID p, pmBuckets = buckets, pmDetails = details,
                  pmBucketCount = partitionCount p details, pmCoordinator = coordinator, pmTablets = Some tablets\<rparr> acc))))"

definition tableMetadataFromResponse :: "metadata_response \<Rightarrow> table_path \<Rightarrow> table_metadata result" where
  "tableMetadataFromResponse response path =
     andThen (metadataServers response) (\<lambda>(coordinator, tablets).
     case find (\<lambda>item. pbTableDatabase item = Database path \<and> pbTableName item = TableName path) (mrTables response) of
       None \<Rightarrow> Inl ErrUnknownTable
     | Some item \<Rightarrow>
         andThen (bucketMetadata tablets (pbTableBuckets item) [] []) (\<lambda>(buckets, details).
         andThen (partitionMetadataForTable (pbTableID item) path coordinator tablets (mrPartitions response) []) (\<lambda>partitions.
         Inr \<lparr>tmPath = path, tmID = pbTableID item, tmSchemaID = pbSchemaID item, tmBuckets = buckets, tmDetails = details,
              tmBucketCount = int32 (int (length details)), tmBucketCountEpoch = pbBucketCountEpoch item,
              tmRemoteDataDirectory = pbRemoteDataDir item, tmPartitions = partitions, tmCoordinator = coordinator,
              tmTablets = Some tablets\<rparr>)))"

definition partitionMetadataFromResponse :: "metadata_response \<Rightarrow> physical_path \<Rightarrow> partition_metadata result" where
  "partitionMetadataFromResponse response path =
     andThen (metadataServers response) (\<lambda>(coordinator, tablets).
     case find (\<lambda>item. pbPartitionName item = Partition path) (mrPartitions response) of
       None \<Rightarrow> Inl ErrUnknownPartition
     | Some item \<Rightarrow>
         andThen (bucketMetadata tablets (pbPartitionBuckets item) [] []) (\<lambda>(buckets, details).
         Inr \<lparr>pmPath = path, pmID = pbPartitionID item, pmBuckets = buckets, pmDetails = details,
              pmBucketCount = partitionCount item details, pmCoordinator = coordinator, pmTablets = Some tablets\<rparr>))"

section \<open>The router\<close>

text \<open>The results are the node (\<^verbatim>\<open>ServerNode{}\<close> when there is none), the count and the error.\<close>

definition routedBucket :: "int \<Rightarrow> int \<Rightarrow> node_map \<Rightarrow> (int \<times> bucket_metadata) list \<Rightarrow> server_node \<times> int \<times> go_error option" where
  "routedBucket bucket count leaders details =
     (let node = map_of leaders bucket
      in if node = None \<and> map_of details bucket = None then (zeroNode, count, None)
         else
           (let count = (if count \<le> 0 then
                  (let n = int32 (int (length details)) in if n = 0 then int32 (int (length leaders)) else n) else count)
            in if count \<le> 0 then (zeroNode, 0, Some ErrMetadata)
               else (case node of Some n \<Rightarrow> (n, count, None) | None \<Rightarrow> (zeroNode, count, Some ErrNoBucketLeader))))"

definition lookupPhysical :: "router \<Rightarrow> physical_path \<Rightarrow> int \<Rightarrow> server_node \<times> int \<times> go_error option" where
  "lookupPhysical r path bucket =
     (case map_of (rtTables r) (ppTable path) of
        None \<Rightarrow> (zeroNode, 0, None)
      | Some table \<Rightarrow>
          if Partition path = [] then routedBucket bucket (tmBucketCount table) (tmBuckets table) (tmDetails table)
          else
            (case map_of (tmPartitions table) (physicalTableKey path) of
               None \<Rightarrow> (zeroNode, 0, None)
             | Some p \<Rightarrow> routedBucket bucket (pmBucketCount p) (pmBuckets p) (pmDetails p)))"

definition lookupPhysicalRequired :: "router \<Rightarrow> physical_path \<Rightarrow> int \<Rightarrow> server_node \<times> int \<times> go_error option" where
  "lookupPhysicalRequired r path bucket =
     (case lookupPhysical r path bucket of (node, count, err) \<Rightarrow>
        if node \<noteq> zeroNode \<or> err \<noteq> None then (node, count, err) else (zeroNode, count, Some ErrUnknownBucket))"

text \<open>\<^verbatim>\<open>routePhysical\<close>: \<open>r\<close> is the snapshot at the first lookup; the refresh (of the table, or of the partition when
  the path names one) returns \<open>refreshErr\<close>; \<open>r'\<close> is the snapshot at the second lookup.\<close>

definition routePhysical :: "router \<Rightarrow> go_error option \<Rightarrow> router \<Rightarrow> physical_path \<Rightarrow> int \<Rightarrow> server_node \<times> int \<times> go_error option" where
  "routePhysical r refreshErr r' path bucket =
     (case PhysicalTablePath_Validate path of
        Inl e \<Rightarrow> (zeroNode, 0, Some e)
      | Inr _ \<Rightarrow>
          (case lookupPhysical r path bucket of (node, count, err) \<Rightarrow>
             if node \<noteq> zeroNode \<or> err \<noteq> None then (node, count, err)
             else (case refreshErr of Some e \<Rightarrow> (zeroNode, 0, Some e) | None \<Rightarrow> lookupPhysicalRequired r' path bucket)))"

definition applyServers :: "server_node \<Rightarrow> node_map option \<Rightarrow> router \<Rightarrow> router" where
  "applyServers coordinator tablets r =
     r\<lparr>rtCoordinator := (if snAddress coordinator \<noteq> [] then coordinator else rtCoordinator r),
       rtTablets := (case tablets of Some t \<Rightarrow> t | None \<Rightarrow> rtTablets r)\<rparr>"

text \<open>The operation that \<^verbatim>\<open>refresh\<close> runs: \<open>fetched\<close> is the answer of the fetcher (\<open>None\<close> when none is configured).\<close>

definition refreshTable :: "bool \<Rightarrow> table_path \<Rightarrow> table_metadata result option \<Rightarrow> router \<Rightarrow> go_error option \<times> router" where
  "refreshTable force path fetched r =
     (case fetched of
        None \<Rightarrow> (Some ErrUnknownTable, r)
      | Some answer \<Rightarrow>
          if \<not> force \<and> map_of (rtTables r) path \<noteq> None then (None, r)
          else
            (case answer of
               Inl e \<Rightarrow> (Some e, r)
             | Inr table \<Rightarrow>
                 if tmPath table \<noteq> path then (Some ErrUnknownTable, r)
                 else (None, (applyServers (tmCoordinator table) (tmTablets table) r)
                        \<lparr>rtTables := AList.update path table (rtTables r)\<rparr>)))"

definition hasTable :: "router \<Rightarrow> table_path \<Rightarrow> bool" where
  "hasTable r path \<longleftrightarrow> map_of (rtTables r) path \<noteq> None"

definition hasPartition :: "router \<Rightarrow> physical_path \<Rightarrow> bool" where
  "hasPartition r path \<longleftrightarrow>
     (case map_of (rtTables r) (ppTable path) of
        None \<Rightarrow> False
      | Some table \<Rightarrow> map_of (tmPartitions table) (physicalTableKey path) \<noteq> None)"

definition applyPhysicalMetadata :: "physical_path \<Rightarrow> partition_metadata \<Rightarrow> router \<Rightarrow> go_error option \<times> router" where
  "applyPhysicalMetadata path p r =
     (case map_of (rtTables r) (ppTable path) of
        None \<Rightarrow> (Some ErrUnknownTable, r)
      | Some table \<Rightarrow>
          (None, (applyServers (pmCoordinator p) (pmTablets p) r)
             \<lparr>rtTables := AList.update (ppTable path)
                (table\<lparr>tmPartitions := AList.update (physicalTableKey path) p (tmPartitions table)\<rparr>) (rtTables r)\<rparr>))"

text \<open>The two parts of \<^verbatim>\<open>refreshPhysicalOnce\<close>: before the fetch, which is skipped when the partition is cached,
  and after it. \<open>Inl\<close> is an answer of the physical fetcher, \<open>Inr\<close> the result of the table refresh that replaces it
  when there is none.\<close>

definition physicalCached :: "bool \<Rightarrow> physical_path \<Rightarrow> router \<Rightarrow> bool" where
  "physicalCached force path r \<longleftrightarrow> \<not> force \<and> hasPartition r path"

definition finishPhysical :: "physical_path \<Rightarrow> partition_metadata result + go_error option \<Rightarrow> router \<Rightarrow> go_error option \<times> router" where
  "finishPhysical path fetched r =
     (let (err, r) =
        (case fetched of
           Inl (Inl e) \<Rightarrow> (Some e, r)
         | Inl (Inr p) \<Rightarrow>
             if physicalTableKey (pmPath p) \<noteq> physicalTableKey path then (Some ErrUnknownPartition, r)
             else applyPhysicalMetadata path p r
         | Inr err \<Rightarrow> (err, r))
      in if err = None \<and> \<not> hasPartition r path then (Some ErrUnknownPartition, r) else (err, r))"

definition Invalidate :: "table_path \<Rightarrow> router \<Rightarrow> router" where
  "Invalidate path r = r\<lparr>rtTables := AList.delete path (rtTables r)\<rparr>"

definition InvalidatePhysical :: "physical_path \<Rightarrow> router \<Rightarrow> router" where
  "InvalidatePhysical path r =
     (if Partition path = [] then Invalidate (ppTable path) r
      else
        (case map_of (rtTables r) (ppTable path) of
           None \<Rightarrow> r
         | Some table \<Rightarrow>
             r\<lparr>rtTables := AList.update (ppTable path)
                (table\<lparr>tmPartitions := AList.delete (physicalTableKey path) (tmPartitions table)\<rparr>) (rtTables r)\<rparr>))"

text \<open>\<^verbatim>\<open>preparePhysicalRefresh\<close>: whether the refresh is handled, and which table refresh it needs first (with its
  \<^verbatim>\<open>force\<close> flag).\<close>

datatype physical_plan = PlanError go_error | PlanTable | PlanPartition | PlanTableThenPartition

definition preparePhysicalRefresh :: "router \<Rightarrow> physical_path \<Rightarrow> physical_plan" where
  "preparePhysicalRefresh r path =
     (case PhysicalTablePath_Validate path of
        Inl e \<Rightarrow> PlanError e
      | Inr _ \<Rightarrow>
          if Partition path = [] then PlanTable
          else if hasTable r (ppTable path) then PlanPartition
          else PlanTableThenPartition)"

definition RouteAfterMetadataError :: "go_error \<Rightarrow> router \<Rightarrow> go_error option \<Rightarrow> router \<Rightarrow> table_path \<Rightarrow> int \<Rightarrow>
  (server_node \<times> go_error option) \<times> router" where
  "RouteAfterMetadataError cause r refreshErr r' path bucket =
     (if \<not> errorsIs cause ErrMetadata then ((zeroNode, Some cause), r)
      else (case routePhysical (Invalidate path r) refreshErr r' \<lparr>ppTable = path, Partition = ''''\<rparr> bucket of
              (node, _, err) \<Rightarrow> ((node, err), Invalidate path r)))"

text \<open>Every change of the snapshot. The fetchers are those of the client, so what they return comes from a response.\<close>

inductive router_step :: "router \<Rightarrow> router \<Rightarrow> bool" where
  table: "answer = Inl e \<or> answer = tableMetadataFromResponse response path \<Longrightarrow>
    router_step r (snd (refreshTable force path (Some answer) r))"
| partition: "answer = Inl e \<or> answer = partitionMetadataFromResponse response path \<Longrightarrow>
    \<not> physicalCached force path r0 \<Longrightarrow> router_step r (snd (finishPhysical path (Inl answer) r))"
| invalidate: "router_step r (Invalidate path r)"
| invalidate_physical: "router_step r (InvalidatePhysical path r)"

definition router_reachable :: "server_node \<Rightarrow> router \<Rightarrow> bool" where
  "router_reachable coordinator r \<longleftrightarrow> router_step\<^sup>*\<^sup>* (NewRouter coordinator) r"

end
