(* ===== verification/Connection_Manager.thy ===== *)
theory Connection_Manager
  imports Client_Auth Metadata_Router Transport
begin

text \<open>
  The connection manager (\<^verbatim>\<open>pkg/fgo/connection_manager.go\<close>): one negotiated and authenticated connection per server,
  opened on demand and replaced when it fails, and the retry loop of a request. Opening is shared between callers
  by the coalescer; here the caller that runs it is modelled. The network is what the environment answers.
\<close>

section \<open>Opening a connection\<close>

definition parseServerType :: "int \<Rightarrow> int result" where
  "parseServerType v = (if v \<noteq> Coordinator \<and> v \<noteq> TabletServer then Inl ErrServerType else Inr v)"

definition closeAfterError :: "go_error option \<Rightarrow> go_error \<Rightarrow> go_error" where
  "closeAfterError closeErr err = (case closeErr of Some e \<Rightarrow> Joined err e | None \<Rightarrow> err)"

text \<open>A client of one server; \<open>mcPhys\<close> holds its connection state.\<close>

record managed_client =
  mcPhys :: physical_client
  mcServerID :: int
  mcServerType :: int

text \<open>The answers met while a connection is opened: the dialer, the TLS handshake when there is one, the transport,
  the version negotiation, the authenticator factory when there is one, and the exchange. \<open>oeClose\<close> is the error of
  closing the raw connection.\<close>

record open_env =
  oeDial :: "go_error option"
  oeTLS :: "go_error option option"
  oeTransport :: "go_error option"
  oeClose :: "go_error option"
  oeNegotiate :: "(server_api list \<times> int) option result"
  oeFactory :: "go_error option option"
  oeAuthenticate :: "auth_error + unit"

datatype resource = NetConn | AuthState

text \<open>\<^verbatim>\<open>open\<close>: the client or the error, the resources acquired and the resources closed.\<close>

definition openConnection :: "open_env \<Rightarrow> string \<Rightarrow> int \<Rightarrow> managed_client result \<times> resource list \<times> resource list" where
  "openConnection env address expected =
     (case oeDial env of
        Some e \<Rightarrow> (Inl e, [], [])
      | None \<Rightarrow>
          (case oeTLS env of
             Some (Some e) \<Rightarrow> (Inl (closeAfterError (oeClose env) e), [NetConn], [NetConn])
           | _ \<Rightarrow>
               (case oeTransport env of
                  Some e \<Rightarrow> (Inl (closeAfterError (oeClose env) e), [NetConn], [NetConn])
                | None \<Rightarrow>
                    (case negotiate (oeNegotiate env) (newPhysicalClient '''') of
                       Inl e \<Rightarrow> (Inl e, [NetConn], [NetConn])
                     | Inr phys \<Rightarrow>
                         (case parseServerType (pcServerTypeID phys) of
                            Inl e \<Rightarrow> (Inl e, [NetConn], [NetConn])
                          | Inr serverType \<Rightarrow>
                              if serverType \<noteq> expected then (Inl ErrServerType, [NetConn], [NetConn])
                              else
                                (let client = \<lparr>mcPhys = phys\<lparr>pcAddress := address\<rparr>, mcServerID = 0, mcServerType = serverType\<rparr>
                                 in case oeFactory env of
                                      None \<Rightarrow> (Inr client, [NetConn], [])
                                    | Some (Some e) \<Rightarrow> (Inl (fst (authenticationError e False)), [NetConn], [NetConn])
                                    | Some None \<Rightarrow>
                                        (case oeAuthenticate env of
                                           Inl (e, _) \<Rightarrow> (Inl e, [NetConn, AuthState], [NetConn, AuthState])
                                         | Inr _ \<Rightarrow> (Inr client, [NetConn, AuthState], []))))))))"

section \<open>The manager\<close>

record connection_key =
  ckID :: int
  ckAddress :: string
  ckType :: int

text \<open>\<open>mgPool\<close> holds every client ever opened; the map refers to them by position.\<close>

record manager =
  mgMaxAttempts :: int
  mgClosed :: bool
  mgClients :: "(connection_key \<times> nat) list"
  mgPool :: "managed_client list"

definition newConnectionManager :: "int \<Rightarrow> manager" where
  "newConnectionManager maxAttempts =
     \<lparr>mgMaxAttempts = (if maxAttempts = 0 then 1 else maxAttempts), mgClosed = False, mgClients = [], mgPool = []\<rparr>"

definition cachedClient :: "connection_key \<Rightarrow> manager \<Rightarrow> nat option result" where
  "cachedClient key m = (if mgClosed m then Inl ErrClosed else Inr (map_of (mgClients m) key))"

text \<open>\<^verbatim>\<open>client.shutdown()\<close> on a client of the pool.\<close>

definition shutdownClient :: "nat \<Rightarrow> manager \<Rightarrow> manager" where
  "shutdownClient c m =
     m\<lparr>mgPool := (mgPool m)[c := (mgPool m ! c)\<lparr>mcPhys := snd (shutdown (mcPhys (mgPool m ! c)))\<rparr>]\<rparr>"

definition closeManager :: "manager \<Rightarrow> manager" where
  "closeManager m =
     (if mgClosed m then m
      else fold (\<lambda>(_, c). shutdownClient c) (mgClients m) (m\<lparr>mgClosed := True\<rparr>))"

text \<open>\<^verbatim>\<open>openManagedConnection\<close>. \<open>closedMeanwhile\<close>: the manager was closed while the connection was opened.\<close>

definition openManagedConnection :: "open_env \<Rightarrow> bool \<Rightarrow> connection_key \<Rightarrow> int \<Rightarrow> manager \<Rightarrow> nat result \<times> manager" where
  "openManagedConnection env closedMeanwhile key serverID m =
     (case cachedClient key m of
        Inl e \<Rightarrow> (Inl e, m)
      | Inr (Some c) \<Rightarrow> (Inr c, m)
      | Inr None \<Rightarrow>
          (let m = (if closedMeanwhile then closeManager m else m)
           in case fst (openConnection env (ckAddress key) (ckType key)) of
                Inl e \<Rightarrow> (Inl e, m)
              | Inr client \<Rightarrow>
                  (let c = length (mgPool m); m = m\<lparr>mgPool := mgPool m @ [client]\<rparr>
                   in if mgClosed m then (Inl ErrClosed, shutdownClient c m)
                      else (Inr c, m\<lparr>mgPool := (mgPool m)[c := client\<lparr>mcServerID := serverID\<rparr>],
                                     mgClients := AList.update key c (mgClients m)\<rparr>))))"

definition getNode :: "open_env \<Rightarrow> bool \<Rightarrow> server_node \<Rightarrow> manager \<Rightarrow> nat result \<times> manager" where
  "getNode env closedMeanwhile node m =
     (if snAddress node = [] then (Inl ErrInvalidConfig, m)
      else
        (case parseServerType (snType node) of
           Inl e \<Rightarrow> (Inl e, m)
         | Inr _ \<Rightarrow>
             (let key = \<lparr>ckID = snID node, ckAddress = snAddress node, ckType = snType node\<rparr>
              in case cachedClient key m of
                   Inl e \<Rightarrow> (Inl e, m)
                 | Inr (Some c) \<Rightarrow> (Inr c, m)
                 | Inr None \<Rightarrow> openManagedConnection env closedMeanwhile key (snID node) m)))"

text \<open>\<^verbatim>\<open>bootstrap\<close>: the addresses in order, each with its environment, until one connects or the context ends.\<close>

fun bootstrap :: "(string \<times> open_env \<times> bool) list \<Rightarrow> manager \<Rightarrow> nat option \<times> manager" where
  "bootstrap [] m = (None, m)"
| "bootstrap ((address, env, ctxEnded) # rest) m =
     (case getNode env False \<lparr>snID = -1, snAddress = address, snType = Coordinator\<rparr> m of
        (Inr c, m) \<Rightarrow> (Some c, m)
      | (Inl _, m) \<Rightarrow> if ctxEnded then (None, m) else bootstrap rest m)"

definition removeClient :: "string \<Rightarrow> int \<Rightarrow> nat \<Rightarrow> manager \<Rightarrow> manager" where
  "removeClient address serverType c m =
     (let key = \<lparr>ckID = mcServerID (mgPool m ! c), ckAddress = address, ckType = serverType\<rparr>
      in if map_of (mgClients m) key = Some c then m\<lparr>mgClients := AList.delete key (mgClients m)\<rparr> else m)"

section \<open>Requests\<close>

definition safeToRetry :: "int \<Rightarrow> bool" where
  "safeToRetry key \<longleftrightarrow> key \<in> {1000, 1007, 1008, 1003, 1004, 1010, 1012, 1011, 1009, 1059, 1021}"

definition shouldRetry :: "int \<Rightarrow> go_error option \<Rightarrow> int \<Rightarrow> go_error \<Rightarrow> int \<Rightarrow> bool" where
  "shouldRetry maxAttempts ctxErr key err attempt \<longleftrightarrow>
     (if ctxErr \<noteq> None \<or> attempt \<ge> maxAttempts \<or> \<not> safeToRetry key then False
      else (case asServer err of Some (_, True) \<Rightarrow> True | _ \<Rightarrow> shouldReplaceConnection err))"

definition waitRetry :: "int \<Rightarrow> go_error option \<Rightarrow> go_error option \<Rightarrow> go_error option" where
  "waitRetry delay ctxErr interrupted = (if delay \<le> 0 then ctxErr else interrupted)"

text \<open>What one attempt meets: how a connection opens, the answer of the requester, the context when the retry is
  decided, the delay, and the context while waiting.\<close>

record ('m, 'r) attempt_env =
  aeOpen :: open_env
  aeClosed :: bool
  aeSend :: "'m message \<Rightarrow> 'r result"
  aeCtxErr :: "go_error option"
  aeDelay :: int
  aeWaitCtx :: "go_error option"
  aeWaitEnd :: "go_error option"

text \<open>The loop of \<^verbatim>\<open>request\<close> with \<open>n\<close> attempts left. The list says on which client \<^verbatim>\<open>request\<close> was called, with the outcome.\<close>

fun requestLoop :: "nat \<Rightarrow> int \<Rightarrow> (int \<Rightarrow> ('m, 'r) attempt_env) \<Rightarrow> server_node \<Rightarrow> 'm message \<Rightarrow> manager \<Rightarrow>
  'r result \<times> manager \<times> (nat \<times> 'r result) list" where
  "requestLoop 0 attempt envs node req m = (Inl (Plain ''retry attempts exhausted''), m, [])"
| "requestLoop (Suc n) attempt envs node req m =
     (let env = envs attempt
      in case getNode (aeOpen env) (aeClosed env) node m of
           (Inl e, m) \<Rightarrow> (Inl e, m, [])
         | (Inr c, m) \<Rightarrow>
             (case client_request (aeSend env) (mcPhys (mgPool m ! c)) (Some req) of
                Inr response \<Rightarrow> (Inr response, m, [(c, Inr response)])
              | Inl e \<Rightarrow>
                  if \<not> shouldRetry (mgMaxAttempts m) (aeCtxErr env) (apiKey (msgAPI req)) e attempt then
                    (Inl e,
                     if shouldReplaceConnection e then shutdownClient c (removeClient (snAddress node) (snType node) c m) else m,
                     [(c, Inl e)])
                  else
                    (let m = shutdownClient c (removeClient (snAddress node) (snType node) c m)
                     in case waitRetry (aeDelay env) (aeWaitCtx env) (aeWaitEnd env) of
                          Some e' \<Rightarrow> (Inl e', m, [(c, Inl e)])
                        | None \<Rightarrow>
                            (case requestLoop n (attempt + 1) envs node req m of (res, m, calls) \<Rightarrow>
                               (res, m, (c, Inl e) # calls)))))"

definition manager_request :: "(int \<Rightarrow> ('m, 'r) attempt_env) \<Rightarrow> server_node \<Rightarrow> 'm message \<Rightarrow> manager \<Rightarrow>
  'r result \<times> manager \<times> (nat \<times> 'r result) list" where
  "manager_request envs node req m = requestLoop (nat (mgMaxAttempts m)) 1 envs node req m"

end
