(* ===== verification/Manager_Properties.thy ===== *)
theory Manager_Properties
  imports Connection_Manager
begin

text \<open>
  What the connection manager guarantees: its map holds open clients of the right servers, a failed opening leaks
  nothing, and a request that is not read-only is never sent twice.
\<close>

section \<open>The map of clients\<close>

definition client_fits :: "connection_key \<Rightarrow> managed_client \<Rightarrow> bool" where
  "client_fits key c \<longleftrightarrow> mcServerID c = ckID key \<and> mcServerType c = ckType key \<and> pcAddress (mcPhys c) = ckAddress key"

definition manager_ok :: "manager \<Rightarrow> bool" where
  "manager_ok m \<longleftrightarrow> distinct (map fst (mgClients m)) \<and> distinct (map snd (mgClients m))
     \<and> (\<forall>(key, c) \<in> set (mgClients m). c < length (mgPool m) \<and> client_fits key (mgPool m ! c)
          \<and> (\<not> mgClosed m \<longrightarrow> \<not> pcClosed (mcPhys (mgPool m ! c))))"

text \<open>A client that was given up: closed, and no longer found by anybody.\<close>

definition gone :: "nat \<Rightarrow> manager \<Rightarrow> bool" where
  "gone c m \<longleftrightarrow> c < length (mgPool m) \<and> pcClosed (mcPhys (mgPool m ! c)) \<and> c \<notin> snd ` set (mgClients m)"

lemma manager_ok_new: "manager_ok (newConnectionManager n)"
  by (simp add: manager_ok_def newConnectionManager_def)

lemma manager_ok_entry:
  "manager_ok m \<Longrightarrow> (key, c) \<in> set (mgClients m) \<Longrightarrow> c < length (mgPool m) \<and> client_fits key (mgPool m ! c)
     \<and> (\<not> mgClosed m \<longrightarrow> \<not> pcClosed (mcPhys (mgPool m ! c)))"
  unfolding manager_ok_def by blast

lemma shutdown_closed: "pcClosed (snd (shutdown p))" "pcAddress (snd (shutdown p)) = pcAddress p"
  by (simp_all add: shutdown_def markClosed_def Let_def)

lemma shutdownClient_fields:
  "mgClients (shutdownClient c m) = mgClients m" "mgClosed (shutdownClient c m) = mgClosed m"
  "length (mgPool (shutdownClient c m)) = length (mgPool m)" "mgMaxAttempts (shutdownClient c m) = mgMaxAttempts m"
  "x < length (mgPool m) \<Longrightarrow> client_fits key (mgPool (shutdownClient c m) ! x) = client_fits key (mgPool m ! x)"
  "x < length (mgPool m) \<Longrightarrow> pcClosed (mcPhys (mgPool (shutdownClient c m) ! x)) = (pcClosed (mcPhys (mgPool m ! x)) \<or> x = c)"
  by (cases "x = c"; simp add: shutdownClient_def client_fits_def shutdown_closed)+

lemma gone_shutdown: "gone x m \<Longrightarrow> gone x (shutdownClient c m)"
  by (simp add: gone_def shutdownClient_fields)

lemma closeManager_induct:
  assumes "\<not> mgClosed m" "P (m\<lparr>mgClosed := True\<rparr>)" "\<And>m c. P m \<Longrightarrow> P (shutdownClient c m)"
  shows "P (closeManager m)"
proof -
  have "P (fold (\<lambda>(_, c). shutdownClient c) xs m)" if "P m" for xs :: "(connection_key \<times> nat) list" and m
    using that assms(3) by (induction xs arbitrary: m) auto
  then show ?thesis using assms(1,2) by (simp add: closeManager_def)
qed

lemma closeManager_keeps:
  "mgClients (closeManager m) = mgClients m \<and> length (mgPool (closeManager m)) = length (mgPool m) \<and> mgClosed (closeManager m)
     \<and> mgMaxAttempts (closeManager m) = mgMaxAttempts m
     \<and> (\<forall>x < length (mgPool m). (\<forall>key. client_fits key (mgPool (closeManager m) ! x) = client_fits key (mgPool m ! x))
          \<and> (pcClosed (mcPhys (mgPool m ! x)) \<longrightarrow> pcClosed (mcPhys (mgPool (closeManager m) ! x))))"
proof (cases "mgClosed m")
  case False
  then show ?thesis by (rule closeManager_induct) (auto simp: shutdownClient_fields)
qed (simp add: closeManager_def)

lemma manager_ok_close: "manager_ok m \<Longrightarrow> manager_ok (closeManager m)"
  using closeManager_keeps [of m] unfolding manager_ok_def by auto

lemma gone_close: "gone c m \<Longrightarrow> gone c (closeManager m)"
  using closeManager_keeps [of m] by (auto simp: gone_def)

section \<open>Opening and giving up clients\<close>

lemma AList_update_new: "k \<notin> fst ` set al \<Longrightarrow> AList.update k v al = al @ [(k, v)]"
  by (induction al) auto

lemma openConnection_fits:
  assumes "fst (openConnection env (ckAddress key) (ckType key)) = Inr client"
  shows "client_fits key (client\<lparr>mcServerID := ckID key\<rparr>)" "\<not> pcClosed (mcPhys client)"
proof -
  have "negotiate answer (newPhysicalClient '''') = Inr phys \<Longrightarrow> \<not> pcClosed phys" for answer phys
    by (auto simp: negotiate_def newPhysicalClient_def Let_def split: sum.splits option.splits if_splits)
  then show "client_fits key (client\<lparr>mcServerID := ckID key\<rparr>)" "\<not> pcClosed (mcPhys client)"
    using assms
    by (auto simp: openConnection_def client_fits_def parseServerType_def Let_def
        split: option.splits sum.splits if_splits prod.splits)
qed

text \<open>Whatever a failed opening acquired it has closed.\<close>

lemma openConnection_no_leak:
  assumes "openConnection env address expected = (res, acquired, released)"
  shows "(\<forall>e. res = Inl e \<longrightarrow> released = acquired) \<and> (\<forall>c. res = Inr c \<longrightarrow> released = [] \<and> NetConn \<in> set acquired)"
  using assms
  by (auto simp: openConnection_def Let_def split: option.splits sum.splits if_splits prod.splits)


lemma openManaged_spec:
  assumes ok: "manager_ok m" and op: "openManagedConnection env cm key (ckID key) m = (res, m')"
  shows "manager_ok m'" "\<And>x. gone x m \<Longrightarrow> gone x m'" "mgMaxAttempts m' = mgMaxAttempts m"
    "\<And>c. res = Inr c \<Longrightarrow> (key, c) \<in> set (mgClients m') \<and> \<not> mgClosed m'"
proof -
  define m1 where "m1 = (if cm then closeManager m else m)"
  have ok1: "manager_ok m1" using ok by (simp add: m1_def manager_ok_close)
  have g1: "gone x m1" if "gone x m" for x using that by (simp add: m1_def gone_close)
  have mx1: "mgMaxAttempts m1 = mgMaxAttempts m" using closeManager_keeps [of m] by (simp add: m1_def)
  have cl1: "mgClients m1 = mgClients m" using closeManager_keeps [of m] by (simp add: m1_def)
  consider (err) e where "cachedClient key m = Inl e" | (hit) c where "cachedClient key m = Inr (Some c)" | (miss) "cachedClient key m = Inr None"
    by (metis (full_types) obj_sumE option.exhaust)
  then have "manager_ok m' \<and> (\<forall>x. gone x m \<longrightarrow> gone x m') \<and> mgMaxAttempts m' = mgMaxAttempts m
      \<and> (\<forall>c. res = Inr c \<longrightarrow> (key, c) \<in> set (mgClients m') \<and> \<not> mgClosed m')"
  proof cases
    case err
    then show ?thesis using op ok by (auto simp: openManagedConnection_def)
  next
    case (hit c)
    then show ?thesis using op ok by (auto simp: openManagedConnection_def cachedClient_def dest: map_of_SomeD split: if_splits)
  next
    case miss
    show ?thesis
    proof (cases "fst (openConnection env (ckAddress key) (ckType key))")
      case (Inl e)
      then show ?thesis using op miss ok1 g1 mx1 by (auto simp add: openManagedConnection_def m1_def [symmetric])
    next
      case (Inr client)
      note fits = openConnection_fits [OF Inr]
      define m2 where "m2 = m1\<lparr>mgPool := mgPool m1 @ [client]\<rparr>"
      have ok2: "manager_ok m2"
        using ok1 unfolding manager_ok_def m2_def by (fastforce simp: nth_append)
      have g2: "gone x m2" if "gone x m1" for x using that by (auto simp: gone_def m2_def nth_append)
      have fresh: "length (mgPool m1) \<notin> snd ` set (mgClients m1)" using ok1 by (fastforce simp: manager_ok_def)
      have nokey: "key \<notin> fst ` set (mgClients m1)"
        using miss by (auto simp: cachedClient_def cl1 map_of_eq_None_iff split: if_splits)
      show ?thesis
      proof (cases "mgClosed m1")
        case True
        then have "m' = shutdownClient (length (mgPool m1)) m2" "res = Inl ErrClosed"
          using op miss Inr by (simp_all add: openManagedConnection_def m1_def [symmetric] m2_def)
        moreover have "manager_ok (shutdownClient (length (mgPool m1)) m2)"
          using ok2 True unfolding manager_ok_def by (auto simp: shutdownClient_fields m2_def)
        ultimately show ?thesis using g1 g2 gone_shutdown mx1 by (simp add: shutdownClient_fields m2_def)
      next
        case False
        then have m': "m' = m1\<lparr>mgPool := mgPool m1 @ [client\<lparr>mcServerID := ckID key\<rparr>],
            mgClients := mgClients m1 @ [(key, length (mgPool m1))]\<rparr>" "res = Inr (length (mgPool m1))"
          using op miss Inr nokey by (simp_all add: openManagedConnection_def Let_def m1_def [symmetric] AList_update_new)
        then have "manager_ok m'"
          using ok1 fresh nokey fits False unfolding manager_ok_def by (fastforce simp: nth_append)
        moreover have "gone x m'" if "gone x m1" for x using that by (auto simp: gone_def m' nth_append)
        ultimately show ?thesis using g1 m' mx1 False by simp
      qed
    qed
  qed
  then show "manager_ok m'" "\<And>x. gone x m \<Longrightarrow> gone x m'" "mgMaxAttempts m' = mgMaxAttempts m"
    "\<And>c. res = Inr c \<Longrightarrow> (key, c) \<in> set (mgClients m') \<and> \<not> mgClosed m'" by blast+
qed


definition nodeKey :: "server_node \<Rightarrow> connection_key" where
  "nodeKey node = \<lparr>ckID = snID node, ckAddress = snAddress node, ckType = snType node\<rparr>"

lemma getNode_spec:
  assumes ok: "manager_ok m" and get: "getNode env cm node m = (res, m')"
  shows "manager_ok m'" "\<And>x. gone x m \<Longrightarrow> gone x m'" "mgMaxAttempts m' = mgMaxAttempts m"
    "\<And>c. res = Inr c \<Longrightarrow> (nodeKey node, c) \<in> set (mgClients m') \<and> \<not> mgClosed m'"
proof -
  have key: "ckID (nodeKey node) = snID node" by (simp add: nodeKey_def)
  consider (same) "m' = m" "\<And>c. res = Inr c \<Longrightarrow> (nodeKey node, c) \<in> set (mgClients m) \<and> \<not> mgClosed m"
    | (opn) "openManagedConnection env cm (nodeKey node) (ckID (nodeKey node)) m = (res, m')"
    using get unfolding getNode_def nodeKey_def [symmetric] key
    by (auto simp: Let_def cachedClient_def dest: map_of_SomeD split: if_splits sum.splits option.splits)
  then show "manager_ok m'" "\<And>x. gone x m \<Longrightarrow> gone x m'" "mgMaxAttempts m' = mgMaxAttempts m"
    "\<And>c. res = Inr c \<Longrightarrow> (nodeKey node, c) \<in> set (mgClients m') \<and> \<not> mgClosed m'"
    using ok openManaged_spec [OF ok, of env cm "nodeKey node" res m'] by (cases; blast)+
qed

text \<open>A client that is given up leaves the map, since it is found there under the key of its node.\<close>

lemma giveUp_spec:
  assumes ok: "manager_ok m" and c: "(nodeKey node, c) \<in> set (mgClients m)"
  defines "m' \<equiv> shutdownClient c (removeClient (snAddress node) (snType node) c m)"
  shows "manager_ok m'" "gone c m'" "\<And>x. gone x m \<Longrightarrow> gone x m'" "mgMaxAttempts m' = mgMaxAttempts m"
proof -
  note e = manager_ok_entry [OF ok c]
  have dist: "distinct (map fst (mgClients m))" "distinct (map snd (mgClients m))" using ok by (simp_all add: manager_ok_def)
  have key: "\<lparr>ckID = mcServerID (mgPool m ! c), ckAddress = snAddress node, ckType = snType node\<rparr> = nodeKey node"
    using e by (simp add: client_fits_def nodeKey_def)
  have "map_of (mgClients m) (nodeKey node) = Some c" using c dist(1) by (simp add: map_of_is_SomeI)
  then have m': "m' = shutdownClient c (m\<lparr>mgClients := AList.delete (nodeKey node) (mgClients m)\<rparr>)"
    by (simp add: m'_def removeClient_def key)
  have mem: "x \<in> set (AList.delete (nodeKey node) (mgClients m)) \<longleftrightarrow> x \<in> set (mgClients m) \<and> fst x \<noteq> nodeKey node" for x
    by (cases x) (auto simp: AList.delete_eq)
  have other: "x \<noteq> c" if "(k, x) \<in> set (AList.delete (nodeKey node) (mgClients m))" for k x
    using that c dist(2) unfolding mem distinct_map inj_on_def by force
  have sub: "distinct (map fst (AList.delete (nodeKey node) (mgClients m)))" "distinct (map snd (AList.delete (nodeKey node) (mgClients m)))"
    using dist by (auto simp: AList.delete_eq distinct_map inj_on_def)
  show "manager_ok m'"
    using ok other sub unfolding manager_ok_def m' by (fastforce simp: shutdownClient_fields mem)
  show "gone c m'" using e other by (fastforce simp: gone_def m' shutdownClient_fields)
  show "gone x m'" if "gone x m" for x using that by (auto simp: gone_def m' shutdownClient_fields mem)
  show "mgMaxAttempts m' = mgMaxAttempts m" by (simp add: m' shutdownClient_fields)
qed


section \<open>Requests\<close>

definition retryError :: "go_error \<Rightarrow> bool" where
  "retryError e \<longleftrightarrow> (\<exists>code. asServer e = Some (code, True)) \<or> shouldReplaceConnection e"

lemma shouldRetry_True:
  "shouldRetry maxAttempts ctxErr key err attempt \<Longrightarrow> attempt < maxAttempts \<and> safeToRetry key \<and> retryError err"
  by (auto simp: shouldRetry_def retryError_def split: if_splits option.splits bool.splits)

text \<open>What a run of the loop leaves behind.\<close>

definition calls_ok :: "'m message \<Rightarrow> manager \<Rightarrow> 'r result \<Rightarrow> (nat \<times> 'r result) list \<Rightarrow> bool" where
  "calls_ok req m res calls \<longleftrightarrow>
     manager_ok m
     \<and> (\<forall>response. res = Inr response \<longrightarrow> calls \<noteq> [] \<and> snd (last calls) = Inr response)
     \<and> (\<forall>(c, r) \<in> set (butlast calls). safeToRetry (apiKey (msgAPI req)) \<and> gone c m \<and> (\<exists>e. r = Inl e \<and> retryError e))"

lemma requestLoop_spec:
  assumes "manager_ok m" "requestLoop n attempt envs node req m = (res, m', calls)"
  shows "calls_ok req m' res calls \<and> length calls \<le> n \<and> (\<forall>x. gone x m \<longrightarrow> gone x m')"
  using assms
proof (induction n arbitrary: attempt m calls)
  case 0
  then show ?case by (auto simp: calls_ok_def)
next
  case (Suc n)
  let ?env = "envs attempt"
  obtain r m1 where g: "getNode (aeOpen ?env) (aeClosed ?env) node m = (r, m1)"
    by (cases "getNode (aeOpen ?env) (aeClosed ?env) node m")
  note get = getNode_spec [OF Suc.prems(1) g]
  show ?case
  proof (cases r)
    case (Inl e)
    then have "res = Inl e" "m' = m1" "calls = []" using Suc.prems(2) g by (auto simp: Let_def)
    then show ?thesis using get(1,2) by (simp add: calls_ok_def)
  next
    case (Inr c)
    have c: "(nodeKey node, c) \<in> set (mgClients m1)" using get(4) [OF Inr] by blast
    define m2 where "m2 = shutdownClient c (removeClient (snAddress node) (snType node) c m1)"
    note up = giveUp_spec [OF get(1) c, folded m2_def]
    show ?thesis
    proof (cases "client_request (aeSend ?env) (mcPhys (mgPool m1 ! c)) (Some req)")
      case resp: (Inr response)
      then have "res = Inr response" "m' = m1" "calls = [(c, Inr response)]" using Suc.prems(2) g Inr by (auto simp: Let_def)
      then show ?thesis using get(1,2) by (simp add: calls_ok_def)
    next
      case err: (Inl e)
      show ?thesis
      proof (cases "shouldRetry (mgMaxAttempts m1) (aeCtxErr ?env) (apiKey (msgAPI req)) e attempt")
        case False
        then have "res = Inl e" "m' = (if shouldReplaceConnection e then m2 else m1)" "calls = [(c, Inl e)]"
          using Suc.prems(2) g Inr err by (auto simp: Let_def m2_def)
        then show ?thesis using get(1,2) up(1,3) by (simp add: calls_ok_def)
      next
        case True
        note retry = shouldRetry_True [OF True]
        show ?thesis
        proof (cases "waitRetry (aeDelay ?env) (aeWaitCtx ?env) (aeWaitEnd ?env)")
          case (Some e')
          then have "res = Inl e'" "m' = m2" "calls = [(c, Inl e)]"
            using Suc.prems(2) g Inr err True by (auto simp: Let_def m2_def)
          then show ?thesis using get(2) up(1,3) by (simp add: calls_ok_def)
        next
          case None
          obtain res2 m3 calls2 where l: "requestLoop n (attempt + 1) envs node req m2 = (res2, m3, calls2)"
            by (cases "requestLoop n (attempt + 1) envs node req m2")
          then have eq: "res = res2" "m' = m3" "calls = (c, Inl e) # calls2"
            using Suc.prems(2) g Inr err True None by (simp_all add: Let_def m2_def)
          have ih: "calls_ok req m' res calls2 \<and> length calls2 \<le> n \<and> (\<forall>x. gone x m2 \<longrightarrow> gone x m')"
            using Suc.IH [OF up(1)] l eq by simp
          have "calls_ok req m' res calls"
            using ih up(2) retry by (cases "calls2 = []") (auto simp: calls_ok_def eq)
          then show ?thesis using ih get(2) up(3) by (auto simp: eq)
        qed
      qed
    qed
  qed
qed


lemma manager_request_calls:
  assumes "manager_ok m" and "manager_request envs node req m = (res, m', calls)"
  shows "calls_ok req m' res calls \<and> length calls \<le> nat (mgMaxAttempts m) \<and> (\<not> safeToRetry (apiKey (msgAPI req)) \<longrightarrow> length calls \<le> 1)
    \<and> manager_ok m'"
proof -
  have spec: "calls_ok req m' res calls" "length calls \<le> nat (mgMaxAttempts m)"
    using requestLoop_spec [OF assms(1) assms(2) [unfolded manager_request_def]] by blast+
  have "length calls \<le> 1" if "\<not> safeToRetry (apiKey (msgAPI req))"
  proof -
    have "butlast calls = []" using spec(1) that unfolding calls_ok_def by (cases "butlast calls") auto
    then show ?thesis by (cases calls) (auto split: if_splits)
  qed
  then show ?thesis using spec unfolding calls_ok_def by blast
qed

text \<open>
  C22. Requests are repeated only when that is safe: \<^verbatim>\<open>request\<close> calls the server at most \<^verbatim>\<open>MaxAttempts\<close> times, and at
  most once for an API that is not in the read-only list; it calls again only after a retriable server error or a broken
  connection, each time on another client, the one that failed being closed and out of the map; its answer is the
  answer of the last call; and the map still holds open clients under the right servers.
\<close>

theorem manager_request_safe:
  assumes "manager_ok m" and "manager_request envs node req m = (res, m', calls)"
  shows "manager_ok m' \<and> length calls \<le> nat (mgMaxAttempts m)
    \<and> (\<not> safeToRetry (apiKey (msgAPI req)) \<longrightarrow> length calls \<le> 1)
    \<and> (\<forall>(c, r) \<in> set (butlast calls). gone c m' \<and> (\<exists>e. r = Inl e \<and> retryError e))
    \<and> (\<forall>response. res = Inr response \<longrightarrow> calls \<noteq> [] \<and> snd (last calls) = Inr response)"
  using manager_request_calls [OF assms] unfolding calls_ok_def by fastforce

definition exOpenEnv :: open_env where
  "exOpenEnv = \<lparr>oeDial = None, oeTLS = None, oeTransport = None, oeClose = None,
     oeNegotiate = Inr (Some ([\<lparr>saKey = 1000, saMin = 0, saMax = 0\<rparr>, \<lparr>saKey = 1012, saMin = 0, saMax = 0\<rparr>], 2)),
     oeFactory = None, oeAuthenticate = Inr ()\<rparr>"

text \<open>The first connection breaks, the second answers.\<close>

definition exAttempt :: "int \<Rightarrow> (unit, nat) attempt_env" where
  "exAttempt i = \<lparr>aeOpen = exOpenEnv, aeClosed = False, aeSend = (\<lambda>_. if i = 1 then Inl EOF else Inr 5), aeCtxErr = None,
     aeDelay = 0, aeWaitCtx = None, aeWaitEnd = None\<rparr>"

definition exTablet :: server_node where
  "exTablet = \<lparr>snID = 3, snAddress = ''h:1'', snType = 2\<rparr>"

definition exMetadataRequest :: "unit message" where
  "exMetadataRequest = \<lparr>msgAPI = generatedAPIs ! 12, msgVersion = 0, msgMessage = Some ()\<rparr>"

theorem manager_request_safe_witness:
  "\<exists>m'. manager_request exAttempt exTablet exMetadataRequest (newConnectionManager 3) = (Inr 5, m', [(0, Inl EOF), (1, Inr 5)])
     \<and> manager_ok m' \<and> gone 0 m'"
proof -
  have "(case manager_request exAttempt exTablet exMetadataRequest (newConnectionManager 3) of
      (res, m', calls) \<Rightarrow> (res, calls)) = (Inr 5, [(0, Inl EOF), (1, Inr 5)])" by code_simp
  then obtain m' where r: "manager_request exAttempt exTablet exMetadataRequest (newConnectionManager 3) = (Inr 5, m', [(0, Inl EOF), (1, Inr 5)])"
    by (auto split: prod.splits)
  from manager_request_safe [OF manager_ok_new r] r show ?thesis by simp
qed

text \<open>Which errors of a dead connection make the manager give it up. A connection that died of a truncated or malformed
  frame answers every later request with that same error, and \<^verbatim>\<open>shouldReplaceConnection\<close> does not know it: the
  client stays in the map and every request to that server fails until the client is closed.\<close>

lemma dead_connection_answer:
  assumes "cnClosed conn" "cnCloseErr conn = Some e"
  shows "register k conn = (Inl e, conn)"
  using assms by (simp add: register_def connErr_def)

lemma dead_connection_kept:
  assumes m: "manager_ok m" "\<not> mgClosed m" "0 < mgMaxAttempts m"
    and c: "(nodeKey node, c) \<in> set (mgClients m)" "snAddress node \<noteq> []" "snType node = TabletServer"
    and req: "pcVersions (mcPhys (mgPool m ! c)) (apiKey (msgAPI req)) = Some v" "SetVersion (Some req) v = Inr req'"
    and dead: "e \<in> {ErrUnexpectedEOF, ErrMalformed, ErrFrameTooLarge}" "\<And>i x. aeSend (envs i) x = Inl e"
  shows "manager_request envs node req m = (Inl e, m, [(c, Inl e)])"
proof -
  have "map_of (mgClients m) (nodeKey node) = Some c"
    using c(1) m(1) by (simp add: manager_ok_def map_of_is_SomeI)
  then have "getNode env cm node m = (Inr c, m)" for env cm
    using m(2) c(2,3) by (simp add: getNode_def parseServerType_def cachedClient_def nodeKey_def)
  moreover have "serverError e api ep = e" for api ep using dead(1) by (auto simp: serverError_def)
  then have "client_request (aeSend (envs i)) (mcPhys (mgPool m ! c)) (Some req) = Inl e" for i
    using manager_ok_entry [OF m(1) c(1)] m(2) req dead(2) by (simp add: client_request_def APIKeyOf_def)
  moreover have "\<not> retryError e" "\<not> shouldReplaceConnection e" using dead(1) by (auto simp: retryError_def shouldReplaceConnection_def)
  then have "\<not> shouldRetry a b d e f" for a b d f using shouldRetry_True [of a b d e f] by blast
  moreover obtain n where "nat (mgMaxAttempts m) = Suc n" using m(3) by (cases "nat (mgMaxAttempts m)") auto
  ultimately show ?thesis using \<open>\<not> shouldReplaceConnection e\<close> by (simp add: manager_request_def Let_def)
qed

end
