(* ===== verification/Router_Properties.thy ===== *)
theory Router_Properties
  imports Metadata_Router
begin

text \<open>
  What the router guarantees: a route is the recorded leader of the bucket, a tablet server with an address; and the
  cache behaves as a map from physical paths to routes, changed by refreshes and invalidations as specified.
\<close>

section \<open>The cache as a map\<close>

text \<open>What a cached path routes by: the bucket count, the leaders and the details.\<close>

type_synonym route = "int \<times> node_map \<times> (int \<times> bucket_metadata) list"

definition tableRoute :: "table_metadata \<Rightarrow> physical_path \<Rightarrow> route option" where
  "tableRoute t path =
     (if Partition path = [] then Some (tmBucketCount t, tmBuckets t, tmDetails t)
      else map_option (\<lambda>p. (pmBucketCount p, pmBuckets p, pmDetails p)) (map_of (tmPartitions t) (physicalTableKey path)))"

definition routeOf :: "router \<Rightarrow> physical_path \<Rightarrow> route option" where
  "routeOf r path = Option.bind (map_of (rtTables r) (ppTable path)) (\<lambda>t. tableRoute t path)"

lemma lookupPhysical_route:
  "lookupPhysical r path bucket =
     (case routeOf r path of None \<Rightarrow> (zeroNode, 0, None)
      | Some (count, leaders, details) \<Rightarrow> routedBucket bucket count leaders details)"
  by (simp add: lookupPhysical_def routeOf_def tableRoute_def split: option.split)

text \<open>The interface of the cache that its client relies on: after an invalidation nothing is found under the paths
  it covers, and everything else is as before.\<close>

locale route_cache =
  fixes lookupRoute :: "'s \<Rightarrow> 'p \<Rightarrow> 'r option"
    and dropRoute :: "'p \<Rightarrow> 's \<Rightarrow> 's"
    and covers :: "'p \<Rightarrow> 'p \<Rightarrow> bool"
  assumes lookup_drop: "lookupRoute (dropRoute p s) q = (if covers p q then None else lookupRoute s q)"
    and covers_refl: "covers p p"
begin

lemma drop_misses: "lookupRoute (dropRoute p s) p = None"
  by (simp add: lookup_drop covers_refl)

lemma drop_idem: "lookupRoute (dropRoute p (dropRoute p s)) q = lookupRoute (dropRoute p s) q"
  by (simp add: lookup_drop)

lemma drop_commute: "lookupRoute (dropRoute p (dropRoute q s)) x = lookupRoute (dropRoute q (dropRoute p s)) x"
  by (simp add: lookup_drop)

end

definition coversPath :: "physical_path \<Rightarrow> physical_path \<Rightarrow> bool" where
  "coversPath p q \<longleftrightarrow> (if Partition p = [] then ppTable q = ppTable p else q = p)"

lemma partition_path_eq: "ppTable q = ppTable p \<Longrightarrow> physicalTableKey q = physicalTableKey p \<Longrightarrow> q = p"
  using physicalTableKey_partition [of q p] by simp

lemma tableRoute_update_partition:
  assumes "ppTable q = ppTable path" "Partition path \<noteq> []"
  shows "tableRoute (t\<lparr>tmPartitions := AList.update (physicalTableKey path) p (tmPartitions t)\<rparr>) q =
    (if q = path then Some (pmBucketCount p, pmBuckets p, pmDetails p) else tableRoute t q)"
  using assms partition_path_eq [OF assms(1)] by (auto simp: tableRoute_def update_conv)

lemma tableRoute_delete_partition:
  assumes "ppTable q = ppTable path" "Partition path \<noteq> []"
  shows "tableRoute (t\<lparr>tmPartitions := AList.delete (physicalTableKey path) (tmPartitions t)\<rparr>) q =
    (if q = path then None else tableRoute t q)"
  using assms partition_path_eq [OF assms(1)] by (auto simp: tableRoute_def delete_conv)

lemma routeOf_invalidate: "routeOf (InvalidatePhysical p r) q = (if coversPath p q then None else routeOf r q)"
proof (cases "Partition p = []")
  case True
  then show ?thesis by (simp add: InvalidatePhysical_def Invalidate_def coversPath_def routeOf_def delete_conv)
next
  case False
  then show ?thesis
    by (cases "ppTable q = ppTable p")
      (auto simp: InvalidatePhysical_def coversPath_def routeOf_def update_conv tableRoute_delete_partition split: option.split)
qed

interpretation router_cache: route_cache routeOf InvalidatePhysical coversPath
  by unfold_locales (simp_all add: routeOf_invalidate coversPath_def)

text \<open>
  C28. The router's cache refines a map from physical paths to routes. A refresh of a table that succeeds replaces
  the routes of the table and of all its partitions by those of the answer and touches no other table; a refresh of
  a partition that succeeds replaces the route of that partition only; an invalidation forgets exactly the table or
  the partition it names; and a refresh that fails changes nothing.
\<close>

theorem router_refines_map:
  "(refreshTable True path (Some (Inr table)) r = (None, r1) \<longrightarrow>
      routeOf r1 q = (if ppTable q = path then tableRoute table q else routeOf r q))
   \<and> (Partition p \<noteq> [] \<and> finishPhysical p (Inl (Inr part)) r = (None, r2) \<longrightarrow>
      routeOf r2 q = (if q = p then Some (pmBucketCount part, pmBuckets part, pmDetails part) else routeOf r q))
   \<and> routeOf (InvalidatePhysical p r) q = (if coversPath p q then None else routeOf r q)
   \<and> (refreshTable force path fetched r = (Some e, r3) \<longrightarrow> r3 = r)
   \<and> (finishPhysical p answer r = (Some e, r4) \<longrightarrow> r4 = r)"
proof (intro conjI impI)
  assume "refreshTable True path (Some (Inr table)) r = (None, r1)"
  then show "routeOf r1 q = (if ppTable q = path then tableRoute table q else routeOf r q)"
    by (auto simp: refreshTable_def routeOf_def update_conv split: if_splits)
next
  assume p: "Partition p \<noteq> [] \<and> finishPhysical p (Inl (Inr part)) r = (None, r2)"
  then obtain table where "map_of (rtTables r) (ppTable p) = Some table"
    and "r2 = (applyServers (pmCoordinator part) (pmTablets part) r)\<lparr>rtTables := AList.update (ppTable p)
                (table\<lparr>tmPartitions := AList.update (physicalTableKey p) part (tmPartitions table)\<rparr>) (rtTables r)\<rparr>"
    by (auto simp: finishPhysical_def applyPhysicalMetadata_def Let_def split: if_splits option.splits prod.splits)
  then show "routeOf r2 q = (if q = p then Some (pmBucketCount part, pmBuckets part, pmDetails part) else routeOf r q)"
    using p by (cases "ppTable q = ppTable p") (auto simp: routeOf_def update_conv tableRoute_update_partition)
next
  show "routeOf (InvalidatePhysical p r) q = (if coversPath p q then None else routeOf r q)" by (rule router_cache.lookup_drop)
next
  assume "refreshTable force path fetched r = (Some e, r3)"
  then show "r3 = r" by (auto simp: refreshTable_def split: option.splits if_splits sum.splits)
next
  assume f: "finishPhysical p answer r = (Some e, r4)"
  have "applyPhysicalMetadata p part r = (None, r') \<Longrightarrow> hasPartition r' p" for part r'
    by (auto simp: applyPhysicalMetadata_def hasPartition_def update_conv split: option.splits)
  then show "r4 = r"
    using f unfolding finishPhysical_def applyPhysicalMetadata_def
    by (auto simp: Let_def split: if_splits option.splits prod.splits sum.splits)
qed

definition exNode :: server_node where
  "exNode = \<lparr>snID = 3, snAddress = ''h:1'', snType = TabletServer\<rparr>"

definition exTableMetadata :: table_metadata where
  "exTableMetadata = \<lparr>tmPath = \<lparr>Database = ''d'', TableName = ''t''\<rparr>, tmID = 1, tmSchemaID = 1, tmBuckets = [(0, exNode)],
     tmDetails = [(0, \<lparr>bmID = 0, bmLeader = Some exNode, bmReplicas = [3], bmISR = [3], bmLeaderEpoch = None, bmBucketEpoch = None\<rparr>)],
     tmBucketCount = 1, tmBucketCountEpoch = None, tmRemoteDataDirectory = '''', tmPartitions = [], tmCoordinator = zeroNode,
     tmTablets = Some [(3, exNode)]\<rparr>"

theorem router_refines_map_witness:
  "\<exists>r1. refreshTable True \<lparr>Database = ''d'', TableName = ''t''\<rparr> (Some (Inr exTableMetadata)) (NewRouter zeroNode) = (None, r1)
     \<and> lookupPhysical r1 \<lparr>ppTable = \<lparr>Database = ''d'', TableName = ''t''\<rparr>, Partition = ''''\<rparr> 0 = (exNode, 1, None)"
proof -
  let ?path = "\<lparr>Database = ''d'', TableName = ''t''\<rparr>"
  let ?q = "\<lparr>ppTable = ?path, Partition = ''''\<rparr>"
  obtain r1 where r1: "refreshTable True ?path (Some (Inr exTableMetadata)) (NewRouter zeroNode) = (None, r1)"
    by (simp add: refreshTable_def exTableMetadata_def)
  then have "routeOf r1 ?q = tableRoute exTableMetadata ?q"
    using router_refines_map [of ?path exTableMetadata "NewRouter zeroNode" r1 ?q] by simp
  then have "lookupPhysical r1 ?q 0 = (exNode, 1, None)"
    by (simp add: lookupPhysical_route tableRoute_def routedBucket_def exTableMetadata_def)
  with r1 show ?thesis by blast
qed

section \<open>Routes lead to leaders\<close>

text \<open>The buckets of a response: leaders are tablet servers with an address, of buckets that have details.\<close>

definition tablets_ok :: "node_map \<Rightarrow> bool" where
  "tablets_ok tablets \<longleftrightarrow> (\<forall>i n. map_of tablets i = Some n \<longrightarrow> snID n = i \<and> snType n = TabletServer \<and> snAddress n \<noteq> [])"

definition route_ok :: "route \<Rightarrow> bool" where
  "route_ok = (\<lambda>(count, leaders, details).
     (\<forall>b n. map_of leaders b = Some n \<longrightarrow> 0 \<le> b \<and> snType n = TabletServer \<and> snAddress n \<noteq> [] \<and> map_of details b \<noteq> None)
     \<and> (\<forall>b d. map_of details b = Some d \<longrightarrow> 0 \<le> b \<and> bmID d = b))"

lemma JoinHostPort_not_empty: "JoinHostPort host port \<noteq> []"
  by (simp add: JoinHostPort_def)

lemma nodeFromProto_ok: "nodeFromProto s t = Inr n \<Longrightarrow> snType n = t \<and> snAddress n \<noteq> []"
  by (auto simp: nodeFromProto_def JoinHostPort_not_empty split: option.splits)

lemma metadataTablets_ok: "metadataTablets servers acc = Inr tablets \<Longrightarrow> tablets_ok acc \<Longrightarrow> tablets_ok tablets"
proof (induction servers acc rule: metadataTablets.induct)
  case (2 server servers acc)
  then obtain n where n: "nodeFromProto server TabletServer = Inr n"
    "metadataTablets servers (AList.update (snID n) n acc) = Inr tablets" by auto
  have "tablets_ok (AList.update (snID n) n acc)"
    using "2.prems"(2) nodeFromProto_ok [OF n(1)] by (simp add: tablets_ok_def update_conv)
  with "2.IH" [OF n] show ?case .
qed simp

lemma metadataServers_ok: "metadataServers response = Inr (coordinator, tablets) \<Longrightarrow> tablets_ok tablets"
  by (auto simp: metadataServers_def split: option.splits dest!: metadataTablets_ok) (simp_all add: tablets_ok_def)

lemma route_ok_detail:
  "route_ok (count, leaders, details) \<Longrightarrow> 0 \<le> i \<Longrightarrow> bmID d = i \<Longrightarrow> route_ok (count, leaders, AList.update i d details)"
  by (auto simp: route_ok_def update_conv)

lemma route_ok_leader:
  "route_ok (count, leaders, details) \<Longrightarrow> map_of details i \<noteq> None \<Longrightarrow> 0 \<le> i \<Longrightarrow> snType n = TabletServer \<Longrightarrow> snAddress n \<noteq> [] \<Longrightarrow>
     route_ok (count, AList.update i n leaders, details)"
  by (auto simp: route_ok_def update_conv)

lemma bucketMetadata_ok:
  assumes "tablets_ok tablets"
  shows "bucketMetadata tablets buckets leaders details = Inr (leaders', details') \<Longrightarrow> route_ok (count, leaders, details) \<Longrightarrow>
    route_ok (count', leaders', details')"
proof (induction buckets arbitrary: leaders details)
  case (Cons bucket buckets)
  then obtain b i where b: "bucket = Some b" "pbBucketID b = Some i" "0 \<le> i"
    by (auto split: option.splits)
  define detail where "detail = \<lparr>bmID = i, bmLeader = None, bmReplicas = pbReplicas b, bmISR = pbISR b,
                     bmLeaderEpoch = pbLeaderEpoch b, bmBucketEpoch = pbBucketEpoch b\<rparr>"
  have d: "bmID detail = i" by (simp add: detail_def)
  show ?case
  proof (cases "pbLeaderID b")
    case None
    then have "bucketMetadata tablets buckets leaders (AList.update i detail details) = Inr (leaders', details')"
      using Cons.prems(1) b by (simp add: detail_def Let_def)
    from Cons.IH [OF this route_ok_detail [OF Cons.prems(2) b(3) d]] show ?thesis .
  next
    case (Some l)
    then obtain n where n: "map_of tablets l = Some n"
      and rest: "bucketMetadata tablets buckets (AList.update i n leaders) (AList.update i (detail\<lparr>bmLeader := Some n\<rparr>) details) = Inr (leaders', details')"
      using Cons.prems(1) b by (auto simp: detail_def Let_def split: option.splits)
    have "snType n = TabletServer" "snAddress n \<noteq> []" using assms n by (auto simp: tablets_ok_def)
    then have "route_ok (count, AList.update i n leaders, AList.update i (detail\<lparr>bmLeader := Some n\<rparr>) details)"
      using Cons.prems(2) b(3) d by (intro route_ok_leader route_ok_detail) (simp_all add: update_conv)
    from Cons.IH [OF rest this] show ?thesis .
  qed
qed (auto simp: route_ok_def)

text \<open>The snapshots of a response and the router that holds them.\<close>

definition table_ok :: "table_path \<Rightarrow> table_metadata \<Rightarrow> bool" where
  "table_ok path t \<longleftrightarrow> tmPath t = path \<and> (\<forall>q route. ppTable q = path \<and> tableRoute t q = Some route \<longrightarrow> route_ok route)"

definition router_ok :: "router \<Rightarrow> bool" where
  "router_ok r \<longleftrightarrow> (\<forall>path t. map_of (rtTables r) path = Some t \<longrightarrow> table_ok path t)"

lemma route_ok_empty: "route_ok (count, [], [])"
  by (simp add: route_ok_def)

lemma partitionMetadataForTable_ok:
  assumes "tablets_ok tablets"
  shows "partitionMetadataForTable tid path coordinator tablets ps acc = Inr res \<Longrightarrow>
    (\<forall>k p. map_of acc k = Some p \<longrightarrow> route_ok (pmBucketCount p, pmBuckets p, pmDetails p)) \<Longrightarrow>
    map_of res k = Some p \<Longrightarrow> route_ok (pmBucketCount p, pmBuckets p, pmDetails p)"
proof (induction ps arbitrary: acc)
  case (Cons x ps)
  show ?case
  proof (cases "pbPartitionTableID x = tid")
    case True
    then obtain buckets details where b: "bucketMetadata tablets (pbPartitionBuckets x) [] [] = Inr (buckets, details)"
      using Cons.prems(1) by (auto simp: Let_def)
    define y where "y = \<lparr>pmPath = \<lparr>ppTable = path, Partition = pbPartitionName x\<rparr>, pmID = pbPartitionID x, pmBuckets = buckets,
      pmDetails = details, pmBucketCount = partitionCount x details, pmCoordinator = coordinator, pmTablets = Some tablets\<rparr>"
    have "partitionMetadataForTable tid path coordinator tablets ps (AList.update (physicalTableKey (pmPath y)) y acc) = Inr res"
      using Cons.prems(1) True b by (simp add: y_def Let_def)
    moreover have "route_ok (pmBucketCount y, pmBuckets y, pmDetails y)"
      using bucketMetadata_ok [OF assms b route_ok_empty] by (simp add: y_def)
    then have "\<forall>k p. map_of (AList.update (physicalTableKey (pmPath y)) y acc) k = Some p \<longrightarrow> route_ok (pmBucketCount p, pmBuckets p, pmDetails p)"
      using Cons.prems(2) by (simp add: update_conv)
    ultimately show ?thesis using Cons.prems(3) by (rule Cons.IH)
  next
    case False
    then show ?thesis using Cons by simp
  qed
qed simp

lemma tableMetadata_ok:
  assumes "tableMetadataFromResponse response path = Inr t"
  shows "table_ok path t"
proof -
  obtain coordinator tablets where sv: "metadataServers response = Inr (coordinator, tablets)"
    using assms by (auto simp: tableMetadataFromResponse_def)
  obtain item where item: "find (\<lambda>item. pbTableDatabase item = Database path \<and> pbTableName item = TableName path) (mrTables response) = Some item"
    using assms by (auto simp: tableMetadataFromResponse_def sv split: option.splits)
  obtain buckets details where b: "bucketMetadata tablets (pbTableBuckets item) [] [] = Inr (buckets, details)"
    using assms by (auto simp: tableMetadataFromResponse_def sv item)
  obtain partitions
    where p: "partitionMetadataForTable (pbTableID item) path coordinator tablets (mrPartitions response) [] = Inr partitions"
      and t: "tmPath t = path" "tmBuckets t = buckets" "tmDetails t = details" "tmPartitions t = partitions"
    using assms by (auto simp: tableMetadataFromResponse_def sv item b)
  note tab = metadataServers_ok [OF sv]
  have "route_ok (tmBucketCount t, buckets, details)" by (rule bucketMetadata_ok [OF tab b route_ok_empty])
  moreover have "route_ok (pmBucketCount q, pmBuckets q, pmDetails q)" if "map_of partitions k = Some q" for k q
    by (rule partitionMetadataForTable_ok [OF tab p _ that]) simp
  ultimately show ?thesis by (auto simp: table_ok_def tableRoute_def t split: if_splits)
qed

lemma partitionMetadata_ok:
  assumes "partitionMetadataFromResponse response path = Inr p"
  shows "route_ok (pmBucketCount p, pmBuckets p, pmDetails p)"
  using assms
  by (auto simp: partitionMetadataFromResponse_def split: option.splits
      intro!: bucketMetadata_ok [OF metadataServers_ok _ route_ok_empty])

lemma router_step_ok: "router_step r r' \<Longrightarrow> router_ok r \<Longrightarrow> router_ok r'"
proof (induction rule: router_step.induct)
  case (table answer e response path r force)
  then show ?case
    by (auto simp: router_ok_def refreshTable_def update_conv dest: tableMetadata_ok tableMetadata_ok [OF sym] split: if_splits sum.splits)
next
  case (partition answer e response path force r0 r)
  show ?case
  proof (cases "map_of (rtTables r) (ppTable path)")
    case (Some t)
    have t: "table_ok (ppTable path) t" using partition.prems Some by (simp add: router_ok_def)
    have "table_ok (ppTable path) (t\<lparr>tmPartitions := AList.update (physicalTableKey path) p (tmPartitions t)\<rparr>)"
      if "answer = Inr p" for p
    proof -
      have "route_ok (pmBucketCount p, pmBuckets p, pmDetails p)" using partition.hyps(1) that partitionMetadata_ok by auto
      then show ?thesis using t by (auto simp: table_ok_def tableRoute_def update_conv split: if_splits)
    qed
    then show ?thesis
      using partition.prems Some
      by (auto simp: router_ok_def finishPhysical_def applyPhysicalMetadata_def Let_def update_conv split: sum.splits if_splits)
  next
    case None
    then show ?thesis using partition.prems by (auto simp: finishPhysical_def applyPhysicalMetadata_def Let_def split: sum.splits)
  qed
next
  case (invalidate r path)
  then show ?case by (auto simp: router_ok_def Invalidate_def delete_conv split: if_splits)
next
  case (invalidate_physical r path)
  have "table_ok p (t\<lparr>tmPartitions := AList.delete k (tmPartitions t)\<rparr>)" if "table_ok p t" for p t k
    using that by (auto simp: table_ok_def tableRoute_def delete_conv split: if_splits)
  then show ?case using invalidate_physical
    by (auto simp: router_ok_def InvalidatePhysical_def Invalidate_def delete_conv update_conv split: if_splits option.splits)
qed

lemma router_reachable_ok: "router_reachable coordinator r \<Longrightarrow> router_ok r"
  unfolding router_reachable_def
proof (induction rule: rtranclp_induct)
  case base
  show ?case by (simp add: router_ok_def NewRouter_def)
qed (rule router_step_ok)

lemma routeOf_ok: "router_ok r \<Longrightarrow> routeOf r path = Some route \<Longrightarrow> route_ok route"
  unfolding router_ok_def table_ok_def routeOf_def bind_eq_Some_conv by blast

lemma routedBucket_found:
  assumes "routedBucket bucket count leaders details = (node, n, None)" "node \<noteq> zeroNode"
  shows "map_of leaders bucket = Some node" "0 < n"
  using assms by (auto simp: routedBucket_def Let_def split: if_splits option.splits)

lemma lookup_found:
  assumes "router_ok r" "lookupPhysical r path bucket = (node, count, None)" "node \<noteq> zeroNode"
  shows "\<exists>n leaders details. routeOf r path = Some (n, leaders, details) \<and> map_of leaders bucket = Some node
    \<and> 0 \<le> bucket \<and> 1 \<le> count \<and> snType node = TabletServer \<and> snAddress node \<noteq> []"
proof -
  obtain n leaders details where r: "routeOf r path = Some (n, leaders, details)"
    "routedBucket bucket n leaders details = (node, count, None)"
    using assms(2,3) by (auto simp: lookupPhysical_route split: option.splits)
  note f = routedBucket_found [OF r(2) assms(3)]
  have "route_ok (n, leaders, details)" by (rule routeOf_ok [OF assms(1) r(1)])
  then have "0 \<le> bucket" "snType node = TabletServer" "snAddress node \<noteq> []" using f(1) by (auto simp: route_ok_def)
  then show ?thesis using f r(1) by auto
qed

lemma routePhysical_found:
  assumes ok: "router_ok r" "router_ok r'"
    and route: "routePhysical r refreshErr r' path bucket = (node, count, err)"
  shows "(err = None \<longrightarrow> 0 \<le> bucket \<and> 1 \<le> count \<and> snType node = TabletServer \<and> snAddress node \<noteq> []
      \<and> (\<exists>s \<in> {r, r'}. \<exists>n leaders details. routeOf s path = Some (n, leaders, details) \<and> map_of leaders bucket = Some node)
      \<and> PhysicalTablePath_Validate path = Inr ())
    \<and> (err \<noteq> None \<or> node \<noteq> zeroNode)"
proof (cases "PhysicalTablePath_Validate path")
  case (Inl e)
  then show ?thesis using route by (auto simp: routePhysical_def)
next
  case (Inr u)
  obtain n c e where l: "lookupPhysical r path bucket = (n, c, e)" by (cases "lookupPhysical r path bucket")
  obtain n' c' e' where l': "lookupPhysical r' path bucket = (n', c', e')" by (cases "lookupPhysical r' path bucket")
  show ?thesis
  proof (cases "n \<noteq> zeroNode \<or> e \<noteq> None")
    case True
    then have "(node, count, err) = (n, c, e)" using route Inr l by (auto simp: routePhysical_def)
    then show ?thesis using lookup_found [OF ok(1), of path bucket n c] l True Inr by auto
  next
    case False
    then have "(node, count, err) = (case refreshErr of Some e \<Rightarrow> (zeroNode, 0, Some e) | None \<Rightarrow> lookupPhysicalRequired r' path bucket)"
      using route Inr l by (auto simp: routePhysical_def)
    then show ?thesis
      using lookup_found [OF ok(2), of path bucket n' c'] l' Inr
      by (auto simp: lookupPhysicalRequired_def split: option.splits if_splits)
  qed
qed


text \<open>
  Requests go to leaders: when \<^verbatim>\<open>routePhysical\<close> returns a node, the bucket is a valid number, the node is a tablet
  server with an address, the routing count is positive, and the node is the leader recorded for that bucket of that
  very table or partition in the snapshot read, before or after the single refresh; and it always returns a node or an
  error.
\<close>

theorem router_routes_to_leader:
  assumes "router_reachable coordinator r" and "router_reachable coordinator r'"
    and "routePhysical r refreshErr r' path bucket = (node, count, err)"
  shows "(err = None \<longrightarrow> 0 \<le> bucket \<and> 1 \<le> count \<and> snType node = TabletServer \<and> snAddress node \<noteq> []
      \<and> (\<exists>s \<in> {r, r'}. \<exists>n leaders details. routeOf s path = Some (n, leaders, details) \<and> map_of leaders bucket = Some node)
      \<and> PhysicalTablePath_Validate path = Inr ())
    \<and> (err \<noteq> None \<or> node \<noteq> zeroNode)"
  using routePhysical_found [OF router_reachable_ok [OF assms(1)] router_reachable_ok [OF assms(2)] assms(3)] .

definition exResponse :: metadata_response where
  "exResponse = \<lparr>mrTablets = [Some \<lparr>pbNodeID = 3, pbHost = ''h'', pbPort = 1\<rparr>], mrCoordinator = None,
     mrTables = [\<lparr>pbTableDatabase = ''d'', pbTableName = ''t'', pbTableID = 1, pbSchemaID = 1,
       pbTableBuckets = [Some \<lparr>pbBucketID = Some 0, pbLeaderID = Some 3, pbReplicas = [3], pbISR = [3], pbLeaderEpoch = None, pbBucketEpoch = None\<rparr>],
       pbBucketCountEpoch = None, pbRemoteDataDir = ''''\<rparr>], mrPartitions = []\<rparr>"

theorem router_routes_to_leader_witness:
  "\<exists>r node count. router_reachable zeroNode r
     \<and> routePhysical (NewRouter zeroNode) None r \<lparr>ppTable = \<lparr>Database = ''d'', TableName = ''t''\<rparr>, Partition = ''''\<rparr> 0 = (node, count, None)
     \<and> snAddress node = ''h:1'' \<and> snType node = TabletServer \<and> 1 \<le> count"
proof -
  let ?path = "\<lparr>Database = ''d'', TableName = ''t''\<rparr>"
  let ?q = "\<lparr>ppTable = ?path, Partition = ''''\<rparr>"
  let ?r = "snd (refreshTable True ?path (Some (tableMetadataFromResponse exResponse ?path)) (NewRouter zeroNode))"
  have "router_step (NewRouter zeroNode) ?r" by (rule router_step.table) (rule disjI2, rule refl)
  then have r: "router_reachable zeroNode (NewRouter zeroNode)" "router_reachable zeroNode ?r" by (auto simp: router_reachable_def)
  have "routePhysical (NewRouter zeroNode) None ?r ?q 0 = (\<lparr>snID = 3, snAddress = ''h:1'', snType = 2\<rparr>, 1, None)" by code_simp
  from router_routes_to_leader [OF r this] this r(2) show ?thesis by auto
qed

end
