(* ===== verification/Client_Routing.thy ===== *)
theory Client_Routing
  imports Manager_Properties Router_Properties
begin

text \<open>
  The requests of a client (\<^verbatim>\<open>pkg/fgo/client.go\<close>): to the coordinator, to a server, and to the leader of a bucket with
  one reroute, and the bucket count that is put in the messages (\<^verbatim>\<open>pkg/fgo/client_routing.go\<close>). Router and manager are
  composed here.
\<close>

section \<open>Messages with a routing count\<close>

text \<open>The messages that carry a routing bucket count, one per bucket entry or one for the request; \<open>'c\<close> is the rest of
  the message.\<close>

datatype 'c routed =
    ProduceLogRequest 'c "int option list"
  | FetchLogRequest 'c "int option list list"
  | PutKvRequest 'c "int option list"
  | LookupRequest 'c "int option list"
  | PrefixLookupRequest 'c "int option list"
  | LimitScanRequest 'c "int option"
  | ScanKvRequest 'c "int option option"
  | ListOffsetsRequest 'c "int option"
  | GetTableStatsRequest 'c "int option list"
  | OtherMessage 'c

definition setCounts :: "int option list \<Rightarrow> int \<Rightarrow> int option list" where
  "setCounts buckets count = map (\<lambda>_. Some count) buckets"

definition setRoutingBucketCount :: "'c routed message \<Rightarrow> int \<Rightarrow> 'c routed message" where
  "setRoutingBucketCount request count =
     (if count \<le> 0 then request
      else
        (case msgMessage request of
           None \<Rightarrow> request
         | Some message \<Rightarrow>
             request\<lparr>msgMessage := Some
               (case message of
                  ProduceLogRequest c bs \<Rightarrow> ProduceLogRequest c (setCounts bs count)
                | FetchLogRequest c ts \<Rightarrow> FetchLogRequest c (map (\<lambda>bs. setCounts bs count) ts)
                | PutKvRequest c bs \<Rightarrow> PutKvRequest c (setCounts bs count)
                | LookupRequest c bs \<Rightarrow> LookupRequest c (setCounts bs count)
                | PrefixLookupRequest c bs \<Rightarrow> PrefixLookupRequest c (setCounts bs count)
                | LimitScanRequest c _ \<Rightarrow> LimitScanRequest c (Some count)
                | ScanKvRequest c b \<Rightarrow> ScanKvRequest c (map_option (\<lambda>_. Some count) b)
                | ListOffsetsRequest c _ \<Rightarrow> ListOffsetsRequest c (Some count)
                | GetTableStatsRequest c bs \<Rightarrow> GetTableStatsRequest c (setCounts bs count)
                | OtherMessage c \<Rightarrow> OtherMessage c)\<rparr>))"

text \<open>All routing counts of a message.\<close>

fun routingCounts :: "'c routed \<Rightarrow> int option list" where
  "routingCounts (ProduceLogRequest c bs) = bs"
| "routingCounts (FetchLogRequest c ts) = concat ts"
| "routingCounts (PutKvRequest c bs) = bs"
| "routingCounts (LookupRequest c bs) = bs"
| "routingCounts (PrefixLookupRequest c bs) = bs"
| "routingCounts (LimitScanRequest c b) = [b]"
| "routingCounts (ScanKvRequest c b) = (case b of None \<Rightarrow> [] | Some x \<Rightarrow> [x])"
| "routingCounts (ListOffsetsRequest c b) = [b]"
| "routingCounts (GetTableStatsRequest c bs) = bs"
| "routingCounts (OtherMessage c) = []"

section \<open>Requests\<close>

text \<open>The calls of one request and its result.\<close>

type_synonym 'r outcome = "'r result \<times> manager \<times> (nat \<times> 'r result) list"

definition RequestTo :: "bool \<Rightarrow> (int \<Rightarrow> ('m, 'r) attempt_env) \<Rightarrow> server_node \<Rightarrow> 'm message option \<Rightarrow> manager option \<Rightarrow>
  'r result \<times> manager option \<times> (nat \<times> 'r result) list" where
  "RequestTo isClosed envs node request mgr =
     (case request of
        None \<Rightarrow> (Inl ErrInvalidArgument, mgr, [])
      | Some req \<Rightarrow>
          if isClosed then (Inl ErrClosed, mgr, [])
          else (case mgr of
                  None \<Rightarrow> (Inl ErrClosed, mgr, [])
                | Some m \<Rightarrow> (case manager_request envs node req m of (res, m, calls) \<Rightarrow> (res, Some m, calls))))"

definition RequestCoordinator :: "bool \<Rightarrow> (int \<Rightarrow> ('m, 'r) attempt_env) \<Rightarrow> router \<Rightarrow> 'm message option \<Rightarrow> manager option \<Rightarrow>
  'r result \<times> manager option \<times> (nat \<times> 'r result) list" where
  "RequestCoordinator isClosed envs r request mgr = RequestTo isClosed envs (rtCoordinator r) request mgr"

text \<open>What a bucket request meets: for each of its two rounds the snapshot of the router when it is read, the outcome of a
  refresh, the snapshot after it, and the environments of the attempts; \<open>bqMid\<close> is the snapshot it invalidates.\<close>

record ('m, 'r) bucket_env =
  bqRouter1 :: router
  bqRefresh1 :: "go_error option"
  bqAfter1 :: router
  bqEnvs1 :: "int \<Rightarrow> ('m, 'r) attempt_env"
  bqMid :: router
  bqRefresh2 :: "go_error option"
  bqAfter2 :: router
  bqEnvs2 :: "int \<Rightarrow> ('m, 'r) attempt_env"

text \<open>\<^verbatim>\<open>RequestBucket\<close>: the result, the manager, the router it leaves (\<open>None\<close> when it did not change it), and the node, the message
  and the calls of each round that sent something.\<close>

definition RequestBucket :: "bool \<Rightarrow> ('c routed, 'r) bucket_env \<Rightarrow> physical_path \<Rightarrow> int \<Rightarrow> 'c routed message \<Rightarrow> manager option \<Rightarrow>
  'r result \<times> manager option \<times> router option \<times> (server_node \<times> 'c routed message \<times> (nat \<times> 'r result) list) list" where
  "RequestBucket isClosed env path bucket request mgr =
     (if isClosed then (Inl ErrClosed, mgr, None, [])
      else
        (case routePhysical (bqRouter1 env) (bqRefresh1 env) (bqAfter1 env) path bucket of
           (_, _, Some e) \<Rightarrow> (Inl e, mgr, None, [])
         | (node, count, None) \<Rightarrow>
             (let request = setRoutingBucketCount request count
              in case RequestTo isClosed (bqEnvs1 env) node (Some request) mgr of
                   (Inr response, mgr, calls) \<Rightarrow> (Inr response, mgr, None, [(node, request, calls)])
                 | (Inl e, mgr, calls) \<Rightarrow>
                     if \<not> errorsIs e ErrMetadata then
                       (Inl e, mgr,
                        if shouldReplaceConnection e then Some (InvalidatePhysical path (bqMid env)) else None,
                        [(node, request, calls)])
                     else
                       (let r = InvalidatePhysical path (bqMid env)
                        in case routePhysical r (bqRefresh2 env) (bqAfter2 env) path bucket of
                             (_, _, Some e) \<Rightarrow> (Inl e, mgr, Some r, [(node, request, calls)])
                           | (node2, count2, None) \<Rightarrow>
                               (let request2 = setRoutingBucketCount request count2
                                in case RequestTo isClosed (bqEnvs2 env) node2 (Some request2) mgr of
                                     (res, mgr, calls2) \<Rightarrow> (res, mgr, Some r, [(node, request, calls), (node2, request2, calls2)]))))))"

definition invalidatePhysicalOnMetadataError :: "physical_path \<Rightarrow> go_error \<Rightarrow> router \<Rightarrow> router" where
  "invalidatePhysicalOnMetadataError path err r = (if errorsIs err ErrMetadata then InvalidatePhysical path r else r)"

section \<open>Lemmas\<close>

lemma routingCounts_set:
  assumes "0 < count" "msgMessage request = Some message" "msgMessage (setRoutingBucketCount request count) = Some message'"
  shows "set (routingCounts message') \<subseteq> {Some count} \<and> length (routingCounts message') = length (routingCounts message)"
  using assms
  by (cases message) (auto simp: setRoutingBucketCount_def setCounts_def length_concat comp_def split: option.splits)

lemma routingCounts_all:
  assumes "1 \<le> count" "msgMessage (setRoutingBucketCount request count) = Some message"
  shows "set (routingCounts message) \<subseteq> {Some count}"
proof (cases "msgMessage request")
  case (Some message0)
  then show ?thesis using routingCounts_set [of count request message0 message] assms by auto
qed (use assms in \<open>simp add: setRoutingBucketCount_def\<close>)

lemma setRoutingBucketCount_api: "msgAPI (setRoutingBucketCount request count) = msgAPI request"
  by (simp add: setRoutingBucketCount_def split: option.split)

lemma lookup_after_invalidate: "lookupPhysical (InvalidatePhysical path r) path bucket = (zeroNode, 0, None)"
  by (simp add: lookupPhysical_route router_cache.drop_misses)

lemma reroute_is_fresh:
  "routePhysical (InvalidatePhysical path r) refreshErr r' path bucket = (node, count, None) \<Longrightarrow>
     refreshErr = None \<and> routePhysical r' refreshErr r' path bucket = (node, count, None)"
  by (auto simp: routePhysical_def lookup_after_invalidate lookupPhysicalRequired_def split: sum.splits option.splits if_splits prod.splits)

lemma single_call:
  assumes "manager_request envs node req m = (res, m', calls)" "\<not> safeToRetry (apiKey (msgAPI req))"
  shows "calls = [] \<or> (\<exists>c. calls = [(c, res)])"
proof (cases "nat (mgMaxAttempts m)")
  case (Suc n)
  have "\<not> shouldRetry a b (apiKey (msgAPI req)) e i" for a b e i using shouldRetry_True assms(2) by blast
  then show ?thesis
    using assms(1) Suc by (auto simp: manager_request_def Let_def split: prod.splits sum.splits if_splits)
qed (use assms in \<open>simp add: manager_request_def\<close>)

lemma RequestTo_calls:
  assumes "RequestTo isClosed envs node (Some req) (Some m) = (res, mgr', calls)" "manager_ok m" "\<not> safeToRetry (apiKey (msgAPI req))"
  shows "(calls = [] \<or> (\<exists>c. calls = [(c, res)])) \<and> (\<exists>m'. mgr' = Some m' \<and> manager_ok m')"
proof (cases isClosed)
  case False
  obtain res0 m0 calls0 where r: "manager_request envs node req m = (res0, m0, calls0)" by (cases "manager_request envs node req m")
  from manager_request_calls [OF assms(2) r] single_call [OF r assms(3)] show ?thesis
    using assms(1) False r by (auto simp: RequestTo_def)
qed (use assms in \<open>auto simp: RequestTo_def\<close>)

text \<open>A round of a bucket request: at most one call, to a tablet server that one of the snapshots records as the leader of the
  bucket, with one positive count in the whole message.\<close>

definition round_ok :: "router set \<Rightarrow> physical_path \<Rightarrow> int \<Rightarrow> server_node \<Rightarrow> 'c routed message \<Rightarrow> (nat \<times> 'r result) list \<Rightarrow> bool" where
  "round_ok snapshots path bucket node msg calls \<longleftrightarrow>
     length calls \<le> 1 \<and> snType node = TabletServer \<and> snAddress node \<noteq> []
     \<and> (\<exists>s \<in> snapshots. \<exists>n leaders details. routeOf s path = Some (n, leaders, details) \<and> map_of leaders bucket = Some node)
     \<and> (\<exists>count \<ge> 1. \<forall>message. msgMessage msg = Some message \<longrightarrow> set (routingCounts message) \<subseteq> {Some count})"

text \<open>
  C18. A bucket request reaches the leader, and a mutation is not applied twice behind the caller's back. When
  \<^verbatim>\<open>RequestBucket\<close> is called for an API that is not read-only, it makes at most two rounds with at most one call each; each
  goes to the leader that a snapshot records for the bucket, with that route's positive bucket count in every entry of the
  message; a second round is made only when the first was refused with a metadata error, and it uses a snapshot read after
  the stale route was dropped and a refresh succeeded. After a broken connection nothing is sent again and the route is
  forgotten.
\<close>

theorem bucket_request_routed:
  assumes "RequestBucket isClosed env path bucket request (Some m) = (res, mgr, r, rounds)"
    and "manager_ok m" and "\<not> safeToRetry (apiKey (msgAPI request))"
    and "\<forall>s \<in> {bqRouter1 env, bqAfter1 env, bqMid env, bqAfter2 env}. router_reachable coordinator s"
  shows "length rounds \<le> 2
    \<and> (\<forall>(node, msg, calls) \<in> set rounds. round_ok {bqRouter1 env, bqAfter1 env, bqAfter2 env} path bucket node msg calls)
    \<and> (length rounds = 2 \<longrightarrow> (\<forall>(c, answer) \<in> set (snd (snd (hd rounds))). \<exists>e. answer = Inl e \<and> errorsIs e ErrMetadata)
        \<and> bqRefresh2 env = None
        \<and> (\<exists>n leaders details. routeOf (bqAfter2 env) path = Some (n, leaders, details) \<and> map_of leaders bucket = Some (fst (last rounds))))
    \<and> (\<forall>e. res = Inl e \<and> length rounds = 1 \<and> shouldReplaceConnection e \<longrightarrow> (\<exists>r'. r = Some r' \<and> routeOf r' path = None))"
proof (cases "length rounds = 0")
  case False
  have ok: "router_ok (bqRouter1 env)" "router_ok (bqAfter1 env)" "router_ok (bqMid env)" "router_ok (bqAfter2 env)"
    using assms(4) router_reachable_ok by blast+
  have opn: "\<not> isClosed" using assms(1) False by (auto simp: RequestBucket_def)
  obtain node count where route: "routePhysical (bqRouter1 env) (bqRefresh1 env) (bqAfter1 env) path bucket = (node, count, None)"
    using assms(1) False opn by (auto simp: RequestBucket_def split: prod.splits option.splits)
  note lead = routePhysical_found [OF ok(1,2) route]
  define msg where "msg = setRoutingBucketCount request count"
  have api: "\<not> safeToRetry (apiKey (msgAPI msg))" using assms(3) by (simp add: msg_def setRoutingBucketCount_api)
  obtain res1 mgr1 calls1 where to1: "RequestTo isClosed (bqEnvs1 env) node (Some msg) (Some m) = (res1, mgr1, calls1)"
    by (cases "RequestTo isClosed (bqEnvs1 env) node (Some msg) (Some m)")
  note c1 = RequestTo_calls [OF to1 assms(2) api]
  have first: "round_ok {bqRouter1 env, bqAfter1 env, bqAfter2 env} path bucket node msg calls1"
    using c1 lead routingCounts_all [of count request] unfolding round_ok_def by (fastforce simp: msg_def)
  show ?thesis
  proof (cases "\<exists>e. res1 = Inl e \<and> errorsIs e ErrMetadata")
    case False
    then have "rounds = [(node, msg, calls1)]" "res = res1"
      "\<And>e. res1 = Inl e \<Longrightarrow> shouldReplaceConnection e \<Longrightarrow> r = Some (InvalidatePhysical path (bqMid env))"
      using assms(1) opn route to1 by (auto simp: RequestBucket_def msg_def Let_def split: sum.splits)
    then show ?thesis using first by (auto simp: router_cache.drop_misses)
  next
    case True
    then obtain e where e: "res1 = Inl e" "errorsIs e ErrMetadata" by blast
    define r1 where "r1 = InvalidatePhysical path (bqMid env)"
    obtain node2 count2 err2 where route2: "routePhysical r1 (bqRefresh2 env) (bqAfter2 env) path bucket = (node2, count2, err2)"
      by (cases "routePhysical r1 (bqRefresh2 env) (bqAfter2 env) path bucket")
    show ?thesis
    proof (cases err2)
      case (Some e2)
      then have "rounds = [(node, msg, calls1)]" "r = Some r1"
        using assms(1) opn route to1 e route2 by (auto simp: RequestBucket_def msg_def Let_def r1_def)
      then show ?thesis using first by (auto simp: r1_def router_cache.drop_misses)
    next
      case None
      define msg2 where "msg2 = setRoutingBucketCount msg count2"
      have api2: "\<not> safeToRetry (apiKey (msgAPI msg2))" using api by (simp add: msg2_def setRoutingBucketCount_api)
      obtain m1 where m1: "mgr1 = Some m1" "manager_ok m1" using c1 by blast
      obtain res2 mgr2 calls2 where to2: "RequestTo isClosed (bqEnvs2 env) node2 (Some msg2) (Some m1) = (res2, mgr2, calls2)"
        by (cases "RequestTo isClosed (bqEnvs2 env) node2 (Some msg2) (Some m1)")
      note c2 = RequestTo_calls [OF to2 m1(2) api2]
      have rounds: "rounds = [(node, msg, calls1), (node2, msg2, calls2)]"
        using assms(1) opn route to1 e route2 None m1(1) to2 by (simp add: RequestBucket_def msg_def msg2_def Let_def r1_def)
      have fresh: "bqRefresh2 env = None" "routePhysical (bqAfter2 env) (bqRefresh2 env) (bqAfter2 env) path bucket = (node2, count2, None)"
        using reroute_is_fresh route2 None unfolding r1_def by blast+
      note lead2 = routePhysical_found [OF ok(4,4) fresh(2)]
      have second: "round_ok {bqRouter1 env, bqAfter1 env, bqAfter2 env} path bucket node2 msg2 calls2"
        using c2 lead2 routingCounts_all [of count2 msg] unfolding round_ok_def by (fastforce simp: msg2_def)
      have "\<forall>(c, answer) \<in> set calls1. \<exists>e. answer = Inl e \<and> errorsIs e ErrMetadata" using c1 e by auto
      moreover have "\<exists>n leaders details. routeOf (bqAfter2 env) path = Some (n, leaders, details) \<and> map_of leaders bucket = Some node2"
        using lead2 by simp
      ultimately show ?thesis using first second fresh(1) unfolding rounds by simp
    qed
  qed
qed auto


definition exPutEnv :: "('c routed message \<Rightarrow> nat result) \<Rightarrow> ('c routed, nat) attempt_env" where
  "exPutEnv send = \<lparr>aeOpen = exOpenEnv\<lparr>oeNegotiate := Inr (Some ([\<lparr>saKey = 1000, saMin = 0, saMax = 0\<rparr>, \<lparr>saKey = 1016, saMin = 0, saMax = 3\<rparr>], 2))\<rparr>,
     aeClosed = False, aeSend = send, aeCtxErr = None, aeDelay = 0, aeWaitCtx = None, aeWaitEnd = None\<rparr>"

definition exRouter :: router where
  "exRouter = snd (refreshTable True \<lparr>Database = ''d'', TableName = ''t''\<rparr>
     (Some (tableMetadataFromResponse exResponse \<lparr>Database = ''d'', TableName = ''t''\<rparr>)) (NewRouter zeroNode))"

text \<open>The first server answers \<^verbatim>\<open>NOT_LEADER_OR_FOLLOWER\<close>, the second round succeeds.\<close>

definition exBucketEnv :: "(unit routed, nat) bucket_env" where
  "exBucketEnv = \<lparr>bqRouter1 = NewRouter zeroNode, bqRefresh1 = None, bqAfter1 = exRouter,
     bqEnvs1 = (\<lambda>_. exPutEnv (\<lambda>_. Inl (RemoteError 12 ''moved''))), bqMid = exRouter, bqRefresh2 = None, bqAfter2 = exRouter,
     bqEnvs2 = (\<lambda>_. exPutEnv (\<lambda>_. Inr 7))\<rparr>"

theorem bucket_request_routed_witness:
  "\<exists>mgr r rounds. RequestBucket False exBucketEnv \<lparr>ppTable = \<lparr>Database = ''d'', TableName = ''t''\<rparr>, Partition = ''''\<rparr> 0
       \<lparr>msgAPI = generatedAPIs ! 16, msgVersion = 0, msgMessage = Some (PutKvRequest () [None])\<rparr> (Some (newConnectionManager 1))
       = (Inr 7, mgr, r, rounds)
     \<and> length rounds = 2 \<and> (\<forall>(node, msg, calls) \<in> set rounds. length calls \<le> 1 \<and> snType node = TabletServer)"
proof -
  let ?path = "\<lparr>ppTable = \<lparr>Database = ''d'', TableName = ''t''\<rparr>, Partition = ''''\<rparr>"
  let ?req = "\<lparr>msgAPI = generatedAPIs ! 16, msgVersion = 0, msgMessage = Some (PutKvRequest () [None])\<rparr>"
  have "(case RequestBucket False exBucketEnv ?path 0 ?req (Some (newConnectionManager 1)) of (res, mgr, r, rounds) \<Rightarrow> (res, length rounds))
      = (Inr 7, 2)" by code_simp
  then obtain mgr r rounds where run: "RequestBucket False exBucketEnv ?path 0 ?req (Some (newConnectionManager 1)) = (Inr 7, mgr, r, rounds)"
    and len: "length rounds = 2" by (auto split: prod.splits)
  have "router_step (NewRouter zeroNode) exRouter" unfolding exRouter_def by (rule router_step.table) (rule disjI2, rule refl)
  then have "\<forall>s \<in> {bqRouter1 exBucketEnv, bqAfter1 exBucketEnv, bqMid exBucketEnv, bqAfter2 exBucketEnv}. router_reachable zeroNode s"
    by (auto simp: exBucketEnv_def router_reachable_def)
  moreover have "\<not> safeToRetry (apiKey (msgAPI ?req))" by code_simp
  ultimately have "\<forall>(node, msg, calls) \<in> set rounds. length calls \<le> 1 \<and> snType node = TabletServer"
    using bucket_request_routed [OF run manager_ok_new] unfolding round_ok_def by fastforce
  with run len show ?thesis by blast
qed

end
