(* ===== verification/Arrow_Schema.thy ===== *)
theory Arrow_Schema
  imports Schema_Model
begin

text \<open>
  The Arrow layout of a table: \<^verbatim>\<open>pkg/fgo/arrow.go\<close>. The types of the Arrow library that the code builds and
  inspects are data: a constructor per Go type with the fields the code sets or reads. \<^verbatim>\<open>arrow.ListOfField\<close>,
  \<^verbatim>\<open>arrow.MapOfFields\<close> and \<^verbatim>\<open>arrow.StructOf\<close> are constructors, and \<^verbatim>\<open>ElemField\<close>, \<^verbatim>\<open>KeyField\<close>, \<^verbatim>\<open>ItemField\<close> and
  \<^verbatim>\<open>Fields\<close> read their arguments back. An Arrow schema is the list of its fields; nil is \<open>None\<close>.
\<close>

section \<open>Arrow types\<close>

datatype time_unit = Second | Millisecond | Microsecond | Nanosecond

datatype arrow_type =
    ABoolean | AInt8 | AInt16 | AInt32 | AInt64 | AFloat32 | AFloat64 | AString | ABinary | ADate32
  | AFixedSizeBinary int
  | ADecimal128 "32 word" "32 word"
  | ATime32 time_unit
  | ATime64 time_unit
  | ATimestamp time_unit string
  | AList arrow_field
  | AMap arrow_field arrow_field
  | AStruct "arrow_field list"
  | AOther string
and arrow_field =
  ArrowField (afName: string) (afType: arrow_type) (afNullable: bool)

type_synonym arrow_schema = "arrow_field list"

section \<open>From a logical type\<close>

definition arrowPrimitiveTypes :: "data_type \<rightharpoonup> arrow_type" where
  "arrowPrimitiveTypes kind = (case kind of
       BoolType \<Rightarrow> Some ABoolean | TinyIntType \<Rightarrow> Some AInt8 | SmallIntType \<Rightarrow> Some AInt16
     | IntType \<Rightarrow> Some AInt32 | BigIntType \<Rightarrow> Some AInt64 | FloatType \<Rightarrow> Some AFloat32
     | DoubleType \<Rightarrow> Some AFloat64 | CharType \<Rightarrow> Some AString | StringType \<Rightarrow> Some AString
     | BytesType \<Rightarrow> Some ABinary | DateType \<Rightarrow> Some ADate32 | _ \<Rightarrow> None)"

definition arrowBinaryType :: "logical_type \<Rightarrow> arrow_type result" where
  "arrowBinaryType t =
     (if ltLength t < 1 then Inl (Plain ''BINARY length is required'')
      else Inr (AFixedSizeBinary (ltLength t)))"

definition arrowDecimalType :: "logical_type \<Rightarrow> arrow_type result" where
  "arrowDecimalType t =
     (if ltPrecision t < 1 \<or> ltPrecision t > 38 then Inl (Plain ''DECIMAL precision must be in [1, 38]'')
      else Inr (ADecimal128 (word_of_int (ltPrecision t)) (word_of_int (ltScale t))))"

definition arrowTimeType :: "int \<Rightarrow> arrow_type result" where
  "arrowTimeType precision =
     (if precision = 0 then Inr (ATime32 Second)
      else if precision \<le> 3 then Inr (ATime32 Millisecond)
      else if precision \<le> 6 then Inr (ATime64 Microsecond)
      else if precision \<le> 9 then Inr (ATime64 Nanosecond)
      else Inl (Plain ''invalid TIME precision''))"

definition arrowUnit :: "int \<Rightarrow> time_unit" where
  "arrowUnit precision =
     (if precision = 0 then Second else if precision \<le> 3 then Millisecond
      else if precision \<le> 6 then Microsecond else Nanosecond)"

definition precisionForUnit :: "time_unit \<Rightarrow> int" where
  "precisionForUnit u = (case u of Second \<Rightarrow> 0 | Millisecond \<Rightarrow> 3 | Microsecond \<Rightarrow> 6 | Nanosecond \<Rightarrow> 9)"

lemma weigh_fields3: "Suc (Suc (3 * size_list size (ltFields t))) < 3 * size t"
  using size_ltFields [of t] by linarith
lemma weigh_field3: "3 * size (fieldType f) < 3 + (3 * size f + n)"
  using size_fieldType [of f] by linarith

text \<open>\<open>arrowRowFields\<close> is the loop of \<^verbatim>\<open>arrowRowType\<close>.\<close>

function arrowField :: "string \<Rightarrow> logical_type \<Rightarrow> arrow_field result"
  and arrowType :: "logical_type \<Rightarrow> arrow_type result"
  and arrowArrayType :: "logical_type \<Rightarrow> arrow_type result"
  and arrowMapType :: "logical_type \<Rightarrow> arrow_type result"
  and arrowRowType :: "logical_type \<Rightarrow> arrow_type result"
  and arrowRowFields :: "logical_field list \<Rightarrow> arrow_field list result" where
  "arrowField name t =
     andThen (arrowType t) (\<lambda>dataType. Inr (ArrowField name dataType (ltNullable t)))"
| "arrowType t =
     (let kind = dataTypeForLogicalType t
      in case arrowPrimitiveTypes kind of
           Some primitive \<Rightarrow> Inr primitive
         | None \<Rightarrow>
             (if kind = BinaryType then arrowBinaryType t
              else if kind = DecimalType then arrowDecimalType t
              else if kind = TimeType then arrowTimeType (ltPrecision t)
              else if kind = TimestampType \<or> kind = TimestampLTZType
                then Inr (ATimestamp (arrowUnit (ltPrecision t)) [])
              else if kind = ArrayType then arrowArrayType t
              else if kind = MapType then arrowMapType t
              else if kind = RowType then arrowRowType t
              else Inl (Plain ''unsupported Arrow conversion'')))"
| "arrowArrayType t =
     (case ltElement t of None \<Rightarrow> Inl (Plain ''ARRAY element type is required'')
      | Some e \<Rightarrow> andThen (arrowField ''element'' e) (\<lambda>element. Inr (AList element)))"
| "arrowMapType t =
     (case ltKey t of None \<Rightarrow> Inl (Plain ''MAP key and value types are required'')
      | Some k \<Rightarrow> (case ltValue t of None \<Rightarrow> Inl (Plain ''MAP key and value types are required'')
         | Some v \<Rightarrow>
             andThen (arrowField ''key'' k) (\<lambda>key.
             andThen (arrowField ''value'' v) (\<lambda>val.
               Inr (AMap (ArrowField (afName key) (afType key) False) val)))))"
| "arrowRowType t = andThen (arrowRowFields (ltFields t)) (\<lambda>fs. Inr (AStruct fs))"
| "arrowRowFields [] = Inr []"
| "arrowRowFields (f # fs) =
     andThen (arrowField (fieldName f) (fieldType f)) (\<lambda>nested.
     andThen (arrowRowFields fs) (\<lambda>rest. Inr (nested # rest)))"
  by pat_completeness auto
termination
  by (relation "measure (\<lambda>s. case s of
        Inl (Inl (_, t)) \<Rightarrow> 3 * size t + 2
      | Inl (Inr (Inl t)) \<Rightarrow> 3 * size t + 1
      | Inl (Inr (Inr t)) \<Rightarrow> 3 * size t
      | Inr (Inl t) \<Rightarrow> 3 * size t
      | Inr (Inr (Inl t)) \<Rightarrow> 3 * size t
      | Inr (Inr (Inr fs)) \<Rightarrow> 3 * size_list size fs + 2)")
    (auto dest: size_ltElement size_ltKey size_ltValue simp: weigh_fields3 weigh_field3)

declare arrowField.simps [simp del] arrowType.simps [simp del] arrowArrayType.simps [simp del]
  arrowMapType.simps [simp del] arrowRowType.simps [simp del]

fun arrowColumns :: "column list \<Rightarrow> arrow_schema result" where
  "arrowColumns [] = Inr []"
| "arrowColumns (c # cs) =
     andThen (rewrap ErrInvalidSchema (arrowField (colName c) (logicalTypeForColumn c))) (\<lambda>field.
     andThen (arrowColumns cs) (\<lambda>fs. Inr (field # fs)))"

definition ArrowSchema :: "schema \<Rightarrow> arrow_schema result" where
  "ArrowSchema s = andThen (Schema_Validate s) (\<lambda>_. arrowColumns (Columns s))"

section \<open>From an Arrow schema\<close>

definition primitiveLogicalRoot :: "arrow_type \<rightharpoonup> string" where
  "primitiveLogicalRoot t = (case t of
       ABoolean \<Rightarrow> Some ''BOOLEAN'' | AInt8 \<Rightarrow> Some ''TINYINT'' | AInt16 \<Rightarrow> Some ''SMALLINT''
     | AInt32 \<Rightarrow> Some ''INTEGER'' | AInt64 \<Rightarrow> Some ''BIGINT'' | AFloat32 \<Rightarrow> Some ''FLOAT''
     | AFloat64 \<Rightarrow> Some ''DOUBLE'' | AString \<Rightarrow> Some ''STRING'' | ABinary \<Rightarrow> Some ''BYTES''
     | ADate32 \<Rightarrow> Some ''DATE'' | _ \<Rightarrow> None)"

text \<open>\<^verbatim>\<open>return logicalType, logicalType.Validate()\<close>: the callers only use the value when there is no error.\<close>

definition validated :: "logical_type \<Rightarrow> logical_type result" where
  "validated t = andThen (LogicalType_Validate t) (\<lambda>_. Inr t)"

text \<open>A composite literal of \<^verbatim>\<open>LogicalType\<close> that sets the given fields.\<close>

definition scalarType :: "string \<Rightarrow> bool \<Rightarrow> int \<Rightarrow> int \<Rightarrow> int \<Rightarrow> logical_type" where
  "scalarType rt nullable len precision scl = LogicalType rt nullable len precision scl None None None []"

definition withNullable :: "bool \<Rightarrow> logical_type \<Rightarrow> logical_type" where
  "withNullable n t = LogicalType (ltRoot t) n (ltLength t) (ltPrecision t) (ltScale t) (ltElement t)
     (ltKey t) (ltValue t) (ltFields t)"

text \<open>\<open>logicalRowFields\<close> is the loop of \<^verbatim>\<open>logicalRowFromArrow\<close>.\<close>

fun logicalTypeFromArrow :: "arrow_field \<Rightarrow> logical_type result"
  and logicalRowFields :: "arrow_field list \<Rightarrow> logical_field list result" where
  "logicalTypeFromArrow (ArrowField name t nullable) =
     (case primitiveLogicalRoot t of
        Some rt \<Rightarrow> validated (scalarType rt nullable 0 0 0)
      | None \<Rightarrow>
          (case t of
             AFixedSizeBinary w \<Rightarrow> validated (scalarType ''BINARY'' nullable w 0 0)
           | ADecimal128 p sc \<Rightarrow> validated (scalarType ''DECIMAL'' nullable 0 (sint p) (sint sc))
           | ATime32 u \<Rightarrow> validated (scalarType ''TIME_WITHOUT_TIME_ZONE'' nullable 0 (precisionForUnit u) 0)
           | ATime64 u \<Rightarrow> validated (scalarType ''TIME_WITHOUT_TIME_ZONE'' nullable 0 (precisionForUnit u) 0)
           | ATimestamp u tz \<Rightarrow>
               validated (scalarType ''TIMESTAMP_WITHOUT_TIME_ZONE'' nullable 0 (precisionForUnit u) 0)
           | AList e \<Rightarrow>
               andThen (logicalTypeFromArrow e) (\<lambda>element.
                 validated (LogicalType ''ARRAY'' nullable 0 0 0 (Some element) None None []))
           | AMap k v \<Rightarrow>
               andThen (logicalTypeFromArrow k) (\<lambda>key.
               andThen (logicalTypeFromArrow v) (\<lambda>val.
                 validated (LogicalType ''MAP'' nullable 0 0 0 None (Some (withNullable False key)) (Some val) [])))
           | AStruct fs \<Rightarrow>
               andThen (logicalRowFields fs) (\<lambda>fields'.
                 validated (LogicalType ''ROW'' nullable 0 0 0 None None None fields'))
           | _ \<Rightarrow> Inl ErrInvalidSchema))"
| "logicalRowFields [] = Inr []"
| "logicalRowFields (f # fs) =
     andThen (logicalTypeFromArrow f) (\<lambda>nestedType.
     andThen (logicalRowFields fs) (\<lambda>rest. Inr (LogicalField (afName f) nestedType [] 0 # rest)))"

declare logicalTypeFromArrow.simps [simp del]

definition arrowColumn :: "string \<Rightarrow> bool \<Rightarrow> logical_type \<Rightarrow> column" where
  "arrowColumn name nullable t =
     \<lparr>colName = name, colType = dataTypeForLogicalType t, colNullable = nullable,
      colLogicalType = Some t, colDescription = [], colID = 0\<rparr>"

fun columnsFromArrow :: "arrow_schema \<Rightarrow> column list result" where
  "columnsFromArrow [] = Inr []"
| "columnsFromArrow (f # fs) =
     andThen (logicalTypeFromArrow f) (\<lambda>t.
     andThen (columnsFromArrow fs) (\<lambda>cs. Inr (arrowColumn (afName f) (afNullable f) t # cs)))"

definition columnsSchema :: "column list \<Rightarrow> schema" where
  "columnsSchema cs = \<lparr>Columns = cs, PrimaryKey = [], BucketKey = [], PartitionKey = [],
     AutoIncrement = [], HighestFieldID = 0\<rparr>"

definition SchemaFromArrow :: "arrow_schema option \<Rightarrow> schema result" where
  "SchemaFromArrow arrow =
     (case arrow of None \<Rightarrow> Inl ErrInvalidSchema
      | Some fs \<Rightarrow> andThen (columnsFromArrow fs) (\<lambda>cs.
          andThen (Schema_Validate (columnsSchema cs)) (\<lambda>_. Inr (columnsSchema cs))))"

section \<open>What Arrow retains of a logical type\<close>

text \<open>The reference normalisation: \<^verbatim>\<open>CHAR\<close> becomes \<^verbatim>\<open>STRING\<close>, a local-zoned timestamp becomes \<^verbatim>\<open>TIMESTAMP\<close>, a
  temporal precision is rounded up to a unit, and only the parameters that the root uses remain.\<close>

definition unitPrecision :: "int \<Rightarrow> int" where
  "unitPrecision p = (if p = 0 then 0 else if p \<le> 3 then 3 else if p \<le> 6 then 6 else 9)"

function arrowNormal :: "logical_type \<Rightarrow> logical_type" where
  "arrowNormal t =
     (let kind = dataTypeForLogicalType t; n = ltNullable t
      in if kind = CharType then scalarType ''STRING'' n 0 0 0
         else if kind = IntType then scalarType ''INTEGER'' n 0 0 0
         else if kind = BinaryType then scalarType ''BINARY'' n (ltLength t) 0 0
         else if kind = DecimalType then scalarType ''DECIMAL'' n 0 (ltPrecision t) (ltScale t)
         else if kind = TimeType
           then scalarType ''TIME_WITHOUT_TIME_ZONE'' n 0 (unitPrecision (ltPrecision t)) 0
         else if kind = TimestampType \<or> kind = TimestampLTZType
           then scalarType ''TIMESTAMP_WITHOUT_TIME_ZONE'' n 0 (unitPrecision (ltPrecision t)) 0
         else if kind = ArrayType
           then LogicalType ''ARRAY'' n 0 0 0 (map_option arrowNormal (ltElement t)) None None []
         else if kind = MapType
           then LogicalType ''MAP'' n 0 0 0 None (map_option (\<lambda>k. withNullable False (arrowNormal k)) (ltKey t))
                  (map_option arrowNormal (ltValue t)) []
         else if kind = RowType
           then LogicalType ''ROW'' n 0 0 0 None None None
                  (map (\<lambda>f. LogicalField (fieldName f) (arrowNormal (fieldType f)) [] 0) (ltFields t))
         else scalarType (ltRoot t) n 0 0 0)"
  by pat_completeness auto
termination
  by (relation "measure size") (auto dest: size_ltElement size_ltKey size_ltValue size_field_type)

declare arrowNormal.simps [simp del]

lemma ltRoot_withNullable [simp]: "ltRoot (withNullable b t) = ltRoot t"
  and ltNullable_withNullable [simp]: "ltNullable (withNullable b t) = b"
  and ltLength_withNullable [simp]: "ltLength (withNullable b t) = ltLength t"
  and ltPrecision_withNullable [simp]: "ltPrecision (withNullable b t) = ltPrecision t"
  and ltScale_withNullable [simp]: "ltScale (withNullable b t) = ltScale t"
  and ltElement_withNullable [simp]: "ltElement (withNullable b t) = ltElement t"
  and ltKey_withNullable [simp]: "ltKey (withNullable b t) = ltKey t"
  and ltValue_withNullable [simp]: "ltValue (withNullable b t) = ltValue t"
  and ltFields_withNullable [simp]: "ltFields (withNullable b t) = ltFields t"
  by (simp_all add: withNullable_def)

lemma withNullable_withNullable [simp]: "withNullable b (withNullable c t) = withNullable b t"
  and withNullable_scalarType [simp]: "withNullable b (scalarType rt n l p s) = scalarType rt b l p s"
  and withNullable_LogicalType [simp]:
    "withNullable b (LogicalType rt n l p s e k v fs) = LogicalType rt b l p s e k v fs"
  by (simp_all add: withNullable_def scalarType_def)

lemma scalarType_sel [simp]:
  "ltRoot (scalarType rt n l p s) = rt" "ltNullable (scalarType rt n l p s) = n"
  "ltLength (scalarType rt n l p s) = l" "ltPrecision (scalarType rt n l p s) = p"
  "ltScale (scalarType rt n l p s) = s" "ltElement (scalarType rt n l p s) = None"
  "ltKey (scalarType rt n l p s) = None" "ltValue (scalarType rt n l p s) = None"
  "ltFields (scalarType rt n l p s) = []"
  by (simp_all add: scalarType_def)

lemma withNullable_same: "withNullable (ltNullable t) t = t"
  by (cases t) simp

lemma ltNullable_arrowNormal [simp]: "ltNullable (arrowNormal t) = ltNullable t"
  by (subst arrowNormal.simps) (simp add: Let_def)

lemma withNullable_arrowNormal [simp]: "withNullable (ltNullable t) (arrowNormal t) = arrowNormal t"
  using withNullable_same [of "arrowNormal t"] by simp

text \<open>Nullability is not part of the Arrow type, nor of what validation looks at.\<close>

lemma dataTypeForLogicalType_withNullable [simp]:
  "dataTypeForLogicalType (withNullable b t) = dataTypeForLogicalType t"
  by (simp add: dataTypeForLogicalType_def)

lemma arrowType_withNullable [simp]: "arrowType (withNullable b t) = arrowType t"
  by (simp add: arrowType.simps [of "withNullable b t"] arrowType.simps [of t] arrowArrayType.simps
      arrowMapType.simps arrowRowType.simps arrowBinaryType_def arrowDecimalType_def Let_def
      cong: if_cong option.case_cong)

lemma LogicalType_Validate_withNullable [simp]:
  "LogicalType_Validate (withNullable b t) = LogicalType_Validate t"
  by (simp add: LogicalType_Validate.simps [of "withNullable b t"] LogicalType_Validate.simps [of t]
      validateArray.simps validateMap.simps validateRow.simps validateLength_def validateDecimal_def
      validateTemporal_def cong: if_cong option.case_cong)

text \<open>What is shown of every type by induction: its Arrow type exists and reads back as the normal form, which is
  valid and has the same Arrow type.\<close>

definition arrow_retained :: "logical_type \<Rightarrow> bool" where
  "arrow_retained t \<longleftrightarrow> (\<exists>a. arrowType t = Inr a
     \<and> (\<forall>name b. logicalTypeFromArrow (ArrowField name a b) = Inr (withNullable b (arrowNormal t)))
     \<and> arrowType (arrowNormal t) = Inr a \<and> LogicalType_Validate (arrowNormal t) = Inr ())"


lemma sint_of_small: "0 \<le> k \<Longrightarrow> k \<le> 38 \<Longrightarrow> sint (word_of_int k :: 32 word) = k"
  by (simp add: signed_of_int signed_take_bit_int_eq_self)

lemma retained_scalar:
  assumes "LogicalType_Validate t = Inr ()" and "ltRoot t \<notin> {''ARRAY'', ''MAP'', ''ROW''}"
  shows "arrow_retained t"
proof -
  have c: "ltRoot t = ''BOOLEAN'' \<or> ltRoot t = ''TINYINT'' \<or> ltRoot t = ''SMALLINT'' \<or> ltRoot t = ''INTEGER''
    \<or> ltRoot t = ''BIGINT'' \<or> ltRoot t = ''FLOAT'' \<or> ltRoot t = ''DOUBLE'' \<or> ltRoot t = ''DATE''
    \<or> ltRoot t = ''STRING'' \<or> ltRoot t = ''BYTES'' \<or> ltRoot t = ''CHAR'' \<or> ltRoot t = ''BINARY'' \<or> ltRoot t = ''DECIMAL''
    \<or> ltRoot t = ''TIME_WITHOUT_TIME_ZONE'' \<or> ltRoot t = ''TIMESTAMP_WITHOUT_TIME_ZONE''
    \<or> ltRoot t = ''TIMESTAMP_WITH_LOCAL_TIME_ZONE''"
    using assms by (auto simp: LogicalType_Validate.simps [of t] split: if_splits)
  show ?thesis
    using c assms
    by (elim disjE)
      (simp_all add: arrow_retained_def arrowNormal.simps [of t] arrowType.simps LogicalType_Validate.simps
        dataTypeForLogicalType_def DataType_def arrowPrimitiveTypes_def primitiveLogicalRoot_def validated_def
        validateLength_def validateDecimal_def validateTemporal_def arrowBinaryType_def arrowDecimalType_def
        arrowTimeType_def arrowUnit_def precisionForUnit_def unitPrecision_def sint_of_small
        logicalTypeFromArrow.simps split: if_splits)
qed


lemmas arrow_composite = arrow_retained_def dataTypeForLogicalType_def DataType_def arrowPrimitiveTypes_def
  primitiveLogicalRoot_def validated_def logicalTypeFromArrow.simps [where t = "AList _"]
  logicalTypeFromArrow.simps [where t = "AMap _ _"] logicalTypeFromArrow.simps [where t = "AStruct _"]

lemma retained_array:
  assumes "ltRoot t = ''ARRAY''" "ltElement t = Some e" "arrow_retained e"
  shows "arrow_retained t"
proof -
  from assms(3) obtain a where a: "arrowType e = Inr a"
    "\<And>name b. logicalTypeFromArrow (ArrowField name a b) = Inr (withNullable b (arrowNormal e))"
    "arrowType (arrowNormal e) = Inr a" "LogicalType_Validate (arrowNormal e) = Inr ()"
    by (auto simp: arrow_retained_def)
  then show ?thesis
    using assms(1,2)
    by (simp add: arrow_composite arrowNormal.simps [of t] arrowType.simps [of t] arrowArrayType.simps
        arrowField.simps LogicalType_Validate.simps [of "LogicalType _ _ _ _ _ _ _ _ _"] validateArray.simps
        arrowType.simps [of "LogicalType _ _ _ _ _ _ _ _ _"])
qed

lemma retained_map:
  assumes "ltRoot t = ''MAP''" "ltKey t = Some k" "ltValue t = Some v" "arrow_retained k" "arrow_retained v"
  shows "arrow_retained t"
proof -
  from assms(4) obtain a where a: "arrowType k = Inr a"
    "\<And>name b. logicalTypeFromArrow (ArrowField name a b) = Inr (withNullable b (arrowNormal k))"
    "arrowType (arrowNormal k) = Inr a" "LogicalType_Validate (arrowNormal k) = Inr ()"
    by (auto simp: arrow_retained_def)
  from assms(5) obtain a' where a': "arrowType v = Inr a'"
    "\<And>name b. logicalTypeFromArrow (ArrowField name a' b) = Inr (withNullable b (arrowNormal v))"
    "arrowType (arrowNormal v) = Inr a'" "LogicalType_Validate (arrowNormal v) = Inr ()"
    by (auto simp: arrow_retained_def)
  from a a' show ?thesis
    using assms(1,2,3)
    by (simp add: arrow_composite arrowNormal.simps [of t] arrowType.simps [of t] arrowMapType.simps
        arrowField.simps LogicalType_Validate.simps [of "LogicalType _ _ _ _ _ _ _ _ _"] validateMap.simps
        arrowType.simps [of "LogicalType _ _ _ _ _ _ _ _ _"])
qed

definition normalField :: "logical_field \<Rightarrow> logical_field" where
  "normalField f = LogicalField (fieldName f) (arrowNormal (fieldType f)) [] 0"

lemma normalField_sel [simp]:
  "fieldName (normalField f) = fieldName f" "fieldType (normalField f) = arrowNormal (fieldType f)"
  by (simp_all add: normalField_def)

lemma retained_fields:
  assumes "\<forall>f\<in>set fs. fieldName f \<noteq> [] \<and> arrow_retained (fieldType f)"
  shows "\<exists>as. arrowRowFields fs = Inr as \<and> logicalRowFields as = Inr (map normalField fs)
    \<and> arrowRowFields (map normalField fs) = Inr as \<and> validateFields (map normalField fs) = Inr ()"
  using assms
proof (induction fs)
  case (Cons f fs)
  then obtain as where "arrowRowFields fs = Inr as" "logicalRowFields as = Inr (map normalField fs)"
    "arrowRowFields (map normalField fs) = Inr as" "validateFields (map normalField fs) = Inr ()" by auto
  moreover from Cons.prems obtain a where "arrowType (fieldType f) = Inr a"
    "\<And>name b. logicalTypeFromArrow (ArrowField name a b) = Inr (withNullable b (arrowNormal (fieldType f)))"
    "arrowType (arrowNormal (fieldType f)) = Inr a" "LogicalType_Validate (arrowNormal (fieldType f)) = Inr ()"
    by (auto simp: arrow_retained_def)
  ultimately show ?case using Cons.prems by (auto simp: arrowField.simps normalField_def [of f])
qed simp

lemma retained_row:
  assumes "ltRoot t = ''ROW''" "ltFields t \<noteq> []"
    and "\<forall>f\<in>set (ltFields t). fieldName f \<noteq> [] \<and> arrow_retained (fieldType f)"
  shows "arrow_retained t"
proof -
  from retained_fields [OF assms(3)] obtain as where "arrowRowFields (ltFields t) = Inr as"
    "logicalRowFields as = Inr (map normalField (ltFields t))"
    "arrowRowFields (map normalField (ltFields t)) = Inr as"
    "validateFields (map normalField (ltFields t)) = Inr ()" by blast
  then show ?thesis
    using assms(1,2)
    by (simp add: arrow_composite arrowNormal.simps [of t] arrowType.simps [of t] arrowRowType.simps
        LogicalType_Validate.simps [of "LogicalType _ _ _ _ _ _ _ _ _"] validateRow.simps
        arrowType.simps [of "LogicalType _ _ _ _ _ _ _ _ _"] normalField_def [symmetric])
qed

lemma validateFields_Inr_D:
  "validateFields fs = Inr () \<Longrightarrow> f \<in> set fs \<Longrightarrow> fieldName f \<noteq> [] \<and> LogicalType_Validate (fieldType f) = Inr ()"
  by (induction fs) (auto split: if_splits)

lemma valid_arrow_retained: "LogicalType_Validate t = Inr () \<Longrightarrow> arrow_retained t"
proof (induction t rule: measure_induct_rule [of size])
  case (less t)
  consider "ltRoot t \<notin> {''ARRAY'', ''MAP'', ''ROW''}" | "ltRoot t = ''ARRAY''" | "ltRoot t = ''MAP''"
    | "ltRoot t = ''ROW''" by blast
  then show ?case
  proof cases
    case 1 then show ?thesis using less.prems by (rule retained_scalar [rotated])
  next
    case 2
    with less.prems obtain e where e: "ltElement t = Some e" "LogicalType_Validate e = Inr ()"
      by (simp add: LogicalType_Validate.simps [of t] validateArray.simps split: option.splits)
    from less.IH [OF size_ltElement] e have "arrow_retained e" by blast
    with 2 e(1) show ?thesis by (rule retained_array)
  next
    case 3
    with less.prems obtain k v where e: "ltKey t = Some k" "ltValue t = Some v"
      "LogicalType_Validate k = Inr ()" "LogicalType_Validate v = Inr ()"
      by (auto simp: LogicalType_Validate.simps [of t] validateMap.simps split: option.splits)
    from less.IH [OF size_ltKey] e have "arrow_retained k" by blast
    moreover from less.IH [OF size_ltValue] e have "arrow_retained v" by blast
    ultimately show ?thesis by (rule retained_map [OF 3 e(1,2)])
  next
    case 4
    with less.prems have e: "ltFields t \<noteq> []" "validateFields (ltFields t) = Inr ()"
      by (auto simp: LogicalType_Validate.simps [of t] validateRow.simps split: if_splits)
    have "\<forall>f\<in>set (ltFields t). fieldName f \<noteq> [] \<and> arrow_retained (fieldType f)"
      using validateFields_Inr_D [OF e(2)] less.IH [OF size_field_type] by blast
    then show ?thesis by (rule retained_row [OF 4 e(1)])
  qed
qed


section \<open>Schemas\<close>

text \<open>A column without a logical type stands for the scalar type of its root. A \<^verbatim>\<open>ROW\<close> column without one gives an
  empty struct, which does not read back.\<close>

lemma retained_bare_column:
  assumes "colLogicalType c = None" "DataType_Validate (colType c) = Inr ()" "colType c \<noteq> RowType"
    and "arrowType (logicalTypeForColumn c) = Inr a"
  shows "arrow_retained (logicalTypeForColumn c)"
  using assms
  by (cases "colType c")
    (auto simp: arrow_retained_def logicalTypeForColumn_def logicalRoot_def DataType_Validate_def
      arrowNormal.simps [of "LogicalType _ _ _ _ _ _ _ _ _"] arrowType.simps LogicalType_Validate.simps
      dataTypeForLogicalType_def DataType_def arrowPrimitiveTypes_def primitiveLogicalRoot_def validated_def
      validateLength_def validateDecimal_def validateTemporal_def arrowBinaryType_def arrowDecimalType_def
      arrowTimeType_def arrowUnit_def precisionForUnit_def unitPrecision_def arrowArrayType.simps
      arrowMapType.simps logicalTypeFromArrow.simps)

definition normalColumn :: "column \<Rightarrow> column" where
  "normalColumn c = arrowColumn (colName c) (ltNullable (logicalTypeForColumn c))
     (arrowNormal (logicalTypeForColumn c))"

lemma normalColumn_sel [simp]:
  "colName (normalColumn c) = colName c"
  "colLogicalType (normalColumn c) = Some (arrowNormal (logicalTypeForColumn c))"
  "logicalTypeForColumn (normalColumn c) = arrowNormal (logicalTypeForColumn c)"
  by (simp_all add: normalColumn_def arrowColumn_def logicalTypeForColumn_def)

lemma arrowColumns_retained:
  assumes "arrowColumns cs = Inr fs"
    and "\<forall>c\<in>set cs. \<forall>a. arrowType (logicalTypeForColumn c) = Inr a \<longrightarrow> arrow_retained (logicalTypeForColumn c)"
  shows "columnsFromArrow fs = Inr (map normalColumn cs) \<and> arrowColumns (map normalColumn cs) = Inr fs
    \<and> (\<forall>c\<in>set cs. LogicalType_Validate (arrowNormal (logicalTypeForColumn c)) = Inr ())"
  using assms
proof (induction cs arbitrary: fs)
  case (Cons c cs)
  from Cons.prems obtain a gs where a: "arrowType (logicalTypeForColumn c) = Inr a"
    and gs: "arrowColumns cs = Inr gs"
    and fs: "fs = ArrowField (colName c) a (ltNullable (logicalTypeForColumn c)) # gs"
    by (auto simp: arrowField.simps)
  from Cons.prems(2) a have "arrow_retained (logicalTypeForColumn c)" by auto
  with a have "\<And>name b. logicalTypeFromArrow (ArrowField name a b)
      = Inr (withNullable b (arrowNormal (logicalTypeForColumn c)))"
    "arrowType (arrowNormal (logicalTypeForColumn c)) = Inr a"
    "LogicalType_Validate (arrowNormal (logicalTypeForColumn c)) = Inr ()"
    by (auto simp: arrow_retained_def)
  then show ?case
    using Cons.IH [OF gs] Cons.prems(2) fs
    by (simp add: arrowField.simps) (simp add: normalColumn_def)
qed simp

lemma validateColumnsLoop_normal:
  assumes "validateColumnsLoop m cs = Inr m'" "dom k = dom m"
    and "\<forall>c\<in>set cs. LogicalType_Validate (arrowNormal (logicalTypeForColumn c)) = Inr ()"
  shows "\<exists>k'. validateColumnsLoop k (map normalColumn cs) = Inr k'"
  using assms
proof (induction cs arbitrary: m k)
  case (Cons c cs)
  from Cons.prems(1) have rest: "validateColumnsLoop (m(colName c \<mapsto> c)) cs = Inr m'"
    and c: "colName c \<noteq> []" "TrimSpace (colName c) = colName c" "m (colName c) = None" by auto
  from c(3) Cons.prems(2) have "k (colName c) = None"
    by (metis domIff)
  moreover have "dom (k(colName c \<mapsto> normalColumn c)) = dom (m(colName c \<mapsto> c))"
    using Cons.prems(2) by (simp only: dom_fun_upd option.distinct if_False)
  then have "\<exists>k'. validateColumnsLoop (k(colName c \<mapsto> normalColumn c)) (map normalColumn cs) = Inr k'"
    by (rule Cons.IH [OF rest]) (use Cons.prems(3) in simp)
  ultimately show ?case using c Cons.prems(3) by simp
qed simp

text \<open>The Arrow schema of a table reads back as the normalised schema: the columns in their order with the
  types of \<open>arrowNormal\<close>, so \<^verbatim>\<open>CHAR\<close> comes back as \<^verbatim>\<open>STRING\<close>, a local-zoned timestamp as \<^verbatim>\<open>TIMESTAMP\<close> and a temporal
  precision as that of its unit; and the schema read back has exactly the same Arrow layout. The one exception is a
  \<^verbatim>\<open>ROW\<close> column with no logical type.\<close>

theorem arrow_schema_roundtrip:
  assumes "ArrowSchema s = Inr fs"
    and "\<forall>c\<in>set (Columns s). colType c = RowType \<longrightarrow> colLogicalType c \<noteq> None"
  shows "SchemaFromArrow (Some fs) = Inr (columnsSchema (map normalColumn (Columns s)))
    \<and> ArrowSchema (columnsSchema (map normalColumn (Columns s))) = Inr fs"
proof -
  from assms(1) obtain m where val: "Schema_Validate s = Inr ()"
    and m: "validateColumnsLoop Map.empty (Columns s) = Inr m" and cols: "arrowColumns (Columns s) = Inr fs"
    by (auto simp: ArrowSchema_def Schema_Validate_def validateColumns_def)
  have "\<forall>c\<in>set (Columns s). \<forall>a. arrowType (logicalTypeForColumn c) = Inr a
      \<longrightarrow> arrow_retained (logicalTypeForColumn c)"
  proof (intro ballI allI impI)
    fix c a
    assume c: "c \<in> set (Columns s)" "arrowType (logicalTypeForColumn c) = Inr a"
    show "arrow_retained (logicalTypeForColumn c)"
    proof (cases "colLogicalType c")
      case None
      then show ?thesis
        using Schema_Validate_Inr_D(4) [OF val] assms(2) c by (intro retained_bare_column [of c a]) auto
    next
      case (Some t)
      then show ?thesis
        using bspec [OF Schema_Validate_Inr_D(4) [OF val] c(1)]
        by (simp add: logicalTypeForColumn_def valid_arrow_retained)
    qed
  qed
  from arrowColumns_retained [OF cols this]
  have r: "columnsFromArrow fs = Inr (map normalColumn (Columns s))"
    "arrowColumns (map normalColumn (Columns s)) = Inr fs"
    "\<forall>c\<in>set (Columns s). LogicalType_Validate (arrowNormal (logicalTypeForColumn c)) = Inr ()" by auto
  from validateColumnsLoop_normal [OF m refl r(3)]
  have "Schema_Validate (columnsSchema (map normalColumn (Columns s))) = Inr ()"
    using Schema_Validate_Inr_D(2) [OF val]
    by (auto simp: Schema_Validate_def validateColumns_def columnsSchema_def validateSchemaKeys_def)
  with r show ?thesis by (simp add: SchemaFromArrow_def ArrowSchema_def) (simp add: columnsSchema_def)
qed


definition arrowSample :: schema where
  "arrowSample = columnsSchema
     [\<lparr>colName = ''c'', colType = CharType, colNullable = True,
        colLogicalType = Some (scalarType ''CHAR'' True 4 0 0), colDescription = ''code'', colID = 1\<rparr>,
      \<lparr>colName = ''m'', colType = MapType, colNullable = False,
        colLogicalType = Some (LogicalType ''MAP'' False 0 0 0 None (Some (scalarType ''INTEGER'' True 0 0 0))
          (Some (scalarType ''TIMESTAMP_WITH_LOCAL_TIME_ZONE'' True 0 2 0)) []),
        colDescription = [], colID = 2\<rparr>]"

lemma arrowSample_fields:
  "ArrowSchema arrowSample = Inr
     [ArrowField ''c'' AString True,
      ArrowField ''m'' (AMap (ArrowField ''key'' AInt32 False)
        (ArrowField ''value'' (ATimestamp Millisecond []) True)) False]"
  by code_simp

theorem arrow_schema_roundtrip_witness:
  "SchemaFromArrow (Some
     [ArrowField ''c'' AString True,
      ArrowField ''m'' (AMap (ArrowField ''key'' AInt32 False)
        (ArrowField ''value'' (ATimestamp Millisecond []) True)) False])
   = Inr (columnsSchema (map normalColumn (Columns arrowSample)))"
proof -
  have "\<forall>c\<in>set (Columns arrowSample). colType c = RowType \<longrightarrow> colLogicalType c \<noteq> None"
    by (simp add: arrowSample_def columnsSchema_def)
  from arrow_schema_roundtrip [OF arrowSample_fields this] show ?thesis by blast
qed

text \<open>The exception: a \<^verbatim>\<open>ROW\<close> column with no logical type passes \<^verbatim>\<open>Validate\<close> and has an Arrow schema that
  \<^verbatim>\<open>SchemaFromArrow\<close> refuses.\<close>

lemma bare_row_not_read_back:
  "ArrowSchema (columnsSchema [\<lparr>colName = ''r'', colType = RowType, colNullable = True, colLogicalType = None,
      colDescription = [], colID = 0\<rparr>]) = Inr [ArrowField ''r'' (AStruct []) True]"
  "SchemaFromArrow (Some [ArrowField ''r'' (AStruct []) True]) = Inl ErrInvalidSchema"
  by code_simp+

end
