(* ===== verification/Arrow_Batch.thy ===== *)
theory Arrow_Batch
  imports Arrow_Schema Batch_Properties
begin

text \<open>
  Arrow log batches: \<^verbatim>\<open>pkg/fgo/arrow_log_batch.go\<close>. A record batch of the Arrow library is a value of a type
  \<open>'r\<close>; what the code asks of the library is the parameter \<open>arrow_lib\<close>: the number of rows of a record, the IPC
  bytes of a record (what the payload writer captures) and the record of IPC bytes under a schema, a slice of a
  record, the number of its columns, and a record with a new schema built of some of its columns, with columns of
  nulls for \<open>None\<close>. The header, the change bytes, the length and the checksum are the code's own and are modelled here. The
  reference counts of the library's buffers (\<^verbatim>\<open>Release\<close>) are not.
\<close>

record 'r arrow_lib =
  alNumRows :: "'r \<Rightarrow> int"
  alWrite :: "'r \<Rightarrow> byte \<Rightarrow> bytes result"
  alRead :: "arrow_schema \<Rightarrow> bytes \<Rightarrow> 'r result"
  alSlice :: "'r \<Rightarrow> int \<Rightarrow> int \<Rightarrow> 'r"
  alNumCols :: "'r \<Rightarrow> int"
  alRebuild :: "'r \<Rightarrow> arrow_schema \<Rightarrow> int option list \<Rightarrow> 'r"

record 'r arrow_log_batch =
  abMagic :: byte
  abBaseOffset :: "64 word"
  abCommitTime :: "64 word"
  abLeaderEpoch :: "32 word"
  abSchemaID :: "16 word"
  abAppendOnly :: bool
  abWriterID :: "64 word"
  abBatchSequence :: "32 word"
  abRecord :: "'r option"
  abChanges :: "change_type list"
  abOwned :: bool

section \<open>Encoding\<close>

definition arrowRecordCount :: "'r arrow_lib \<Rightarrow> 'r option \<Rightarrow> int result" where
  "arrowRecordCount lib r =
     (case r of None \<Rightarrow> Inr 0
      | Some record \<Rightarrow>
          guardE (alNumRows lib record > 2147483647) ErrMalformedRecordBatch (Inr (alNumRows lib record)))"

definition arrowHeaderSize :: "byte \<Rightarrow> nat" where
  "arrowHeaderSize magic = (if magic = 1 then logBatchV1HeaderSize else logBatchV0HeaderSize)"

fun changeBytes :: "change_type list \<Rightarrow> bytes result" where
  "changeBytes [] = Inr []"
| "changeBytes (c # cs) =
     andThen (ChangeType_Validate c) (\<lambda>_. andThen (changeBytes cs) (\<lambda>bs. Inr (c # bs)))"

definition arrowChanges :: "'r arrow_log_batch \<Rightarrow> int \<Rightarrow> bytes result" where
  "arrowChanges b count =
     (if abAppendOnly b
      then guardE (abChanges b \<noteq> [] \<and> int (length (abChanges b)) \<noteq> count) ErrMalformedRecordBatch
        (guardE (\<exists>c\<in>set (abChanges b). c \<noteq> Append) ErrInvalidRow (Inr []))
      else guardE (int (length (abChanges b)) \<noteq> count) ErrMalformedRecordBatch (changeBytes (abChanges b)))"

definition encodeArrowPayload :: "'r arrow_lib \<Rightarrow> 'r option \<Rightarrow> byte \<Rightarrow> bytes result" where
  "encodeArrowPayload lib r compression =
     (case r of None \<Rightarrow> Inr []
      | Some record \<Rightarrow>
          (if alNumRows lib record = 0 then Inr []
           else guardE (compression \<notin> {0, 1, 2}) ErrInvalidConfig
             (rewrap ErrMalformedRecordBatch (alWrite lib record compression))))"

text \<open>\<^verbatim>\<open>writeArrowHeader\<close> over the zeroed header.\<close>

definition writeArrowHeader :: "'r arrow_log_batch \<Rightarrow> int \<Rightarrow> bytes result" where
  "writeArrowHeader b count =
     (let schemaOffset = (if abMagic b = 1 then 29 else 25); lastOffset = schemaOffset + 3 in
      andThen (le_put 8 (replicate (arrowHeaderSize (abMagic b)) 0) 0 (abBaseOffset b)) (\<lambda>e.
      andThen (go_set e 12 (abMagic b)) (\<lambda>e.
      andThen (le_put 8 e 13 (abCommitTime b)) (\<lambda>e.
      andThen (if abMagic b = 1 then le_put 4 e 21 (abLeaderEpoch b) else Inr e) (\<lambda>e.
      andThen (le_put 2 e schemaOffset (abSchemaID b)) (\<lambda>e.
      andThen (if abAppendOnly b then go_set e (schemaOffset + 2) 1 else Inr e) (\<lambda>e.
      andThen (if count > 0 then le_put 4 e lastOffset (word_of_int (count - 1) :: 32 word) else Inr e) (\<lambda>e.
      andThen (le_put 8 e (lastOffset + 4) (abWriterID b)) (\<lambda>e.
      andThen (le_put 4 e (lastOffset + 12) (abBatchSequence b)) (\<lambda>e.
        le_put 4 e (lastOffset + 16) (word_of_int count :: 32 word)))))))))))"

definition EncodeArrowLogBatch :: "'r arrow_lib \<Rightarrow> 'r arrow_log_batch \<Rightarrow> byte \<Rightarrow> bytes result" where
  "EncodeArrowLogBatch lib b compression =
     guardE (abMagic b \<noteq> 0 \<and> abMagic b \<noteq> 1) ErrMalformedRecordBatch
       (andThen (arrowRecordCount lib (abRecord b)) (\<lambda>count.
        andThen (arrowChanges b count) (\<lambda>changes.
        andThen (encodeArrowPayload lib (abRecord b) compression) (\<lambda>payload.
        guardE (count = 0 \<and> payload \<noteq> []) ErrMalformedRecordBatch
          (guardE (int (length payload) > maxRowBytes - int (arrowHeaderSize (abMagic b)) - int (length changes))
             ErrMalformedRecordBatch
             (let crcOffset = (if abMagic b = 1 then 25 else 21);
                  schemaOffset = (if abMagic b = 1 then 29 else 25) in
              andThen (writeArrowHeader b count) (\<lambda>e.
              let e = e @ changes @ payload in
              andThen (le_put 4 e 8 (word_of_int (int (length e) - 12) :: 32 word)) (\<lambda>e.
              andThen (go_slice e schemaOffset (int (length e))) (\<lambda>tail.
                le_put 4 e crcOffset (Checksum tail)))))))))) "

section \<open>Decoding\<close>

definition arrowHeader :: "bytes \<Rightarrow> (byte \<times> int \<times> int \<times> int) result" where
  "arrowHeader encoded =
     guardE (length encoded < 13 \<or> int (length encoded) > maxRowBytes) ErrMalformedRecordBatch
       (andThen (go_index encoded 12) (\<lambda>magic.
          if magic = 0 \<and> logBatchV0HeaderSize \<le> length encoded
          then Inr (0, int logBatchV0HeaderSize, 21, 25)
          else if magic = 1 \<and> logBatchV1HeaderSize \<le> length encoded
          then Inr (1, int logBatchV1HeaderSize, 25, 29)
          else Inl ErrMalformedRecordBatch))"

fun readArrowChanges :: "bytes \<Rightarrow> int \<Rightarrow> nat \<Rightarrow> change_type list result" where
  "readArrowChanges encoded position 0 = Inr []"
| "readArrowChanges encoded position (Suc n) =
     andThen (go_index encoded position) (\<lambda>c.
     andThen (rewrap ErrMalformedRecordBatch (ChangeType_Validate c)) (\<lambda>_.
     andThen (readArrowChanges encoded (position + 1) n) (\<lambda>cs. Inr (c # cs))))"

definition decodeArrowChanges :: "bytes \<Rightarrow> int \<Rightarrow> int \<Rightarrow> bool \<Rightarrow> (change_type list \<times> int) result" where
  "decodeArrowChanges encoded position count appendOnly =
     (if appendOnly then Inr (replicate (nat count) Append, position)
      else andThen (readArrowChanges encoded position (nat count)) (\<lambda>cs. Inr (cs, position + count)))"

definition decodeArrowPayload :: "'r arrow_lib \<Rightarrow> arrow_schema \<Rightarrow> bytes \<Rightarrow> 'r result" where
  "decodeArrowPayload lib sch payload =
     guardE (payload = []) ErrMalformedRecordBatch (rewrap ErrMalformedRecordBatch (alRead lib sch payload))"

definition decodeArrowRecord :: "'r arrow_lib \<Rightarrow> arrow_schema \<Rightarrow> bytes \<Rightarrow> int \<Rightarrow> 'r option result" where
  "decodeArrowRecord lib sch payload count =
     (if count = 0 then guardE (payload \<noteq> []) ErrMalformedRecordBatch (Inr None)
      else andThen (decodeArrowPayload lib sch payload) (\<lambda>record.
        guardE (alNumRows lib record \<noteq> count) ErrMalformedRecordBatch (Inr (Some record))))"

definition DecodeArrowLogBatch :: "'r arrow_lib \<Rightarrow> arrow_schema option \<Rightarrow> bytes \<Rightarrow> 'r arrow_log_batch result" where
  "DecodeArrowLogBatch lib arrow encoded =
     (case arrow of None \<Rightarrow> Inl ErrInvalidSchema
      | Some sch \<Rightarrow>
          andThen (arrowHeader encoded) (\<lambda>(magic, headerSize, crcOffset, schemaOffset).
          andThen (le_get 4 encoded 8) (\<lambda>len :: 32 word.
          andThen (le_get 4 encoded crcOffset) (\<lambda>crc.
          andThen (go_slice encoded schemaOffset (int (length encoded))) (\<lambda>tail.
          guardE (uint len \<noteq> int (length encoded) - 12 \<or> crc \<noteq> Checksum tail) ErrMalformedRecordBatch
            (let lastOffset = schemaOffset + 3 in
             andThen (le_get 4 encoded (lastOffset + 16)) (\<lambda>count32 :: 32 word.
             andThen (go_index encoded (schemaOffset + 2)) (\<lambda>attributes.
             let count = uint count32; appendOnly = attributes AND 1 \<noteq> 0;
                 changeCount = (if appendOnly then 0 else count) in
             guardE (count > maxRowBytes \<or> changeCount > int (length encoded) - headerSize) ErrMalformedRecordBatch
               (andThen (decodeArrowChanges encoded headerSize count appendOnly) (\<lambda>(changes, position).
                andThen (go_slice encoded position (int (length encoded))) (\<lambda>payload.
                andThen (decodeArrowRecord lib sch payload count) (\<lambda>record.
                andThen (le_get 8 encoded 0) (\<lambda>baseOffset.
                andThen (le_get 8 encoded 13) (\<lambda>commitTime.
                andThen (le_get 2 encoded schemaOffset) (\<lambda>schemaID.
                andThen (le_get 8 encoded (lastOffset + 4)) (\<lambda>writerID.
                andThen (le_get 4 encoded (lastOffset + 12)) (\<lambda>sequence.
                andThen (if magic = 1 then le_get 4 encoded 21 else Inr 0) (\<lambda>leaderEpoch.
                  Inr \<lparr>abMagic = magic, abBaseOffset = baseOffset, abCommitTime = commitTime,
                     abLeaderEpoch = leaderEpoch, abSchemaID = schemaID, abAppendOnly = appendOnly,
                     abWriterID = writerID, abBatchSequence = sequence, abRecord = record,
                     abChanges = changes, abOwned = record \<noteq> None\<rparr>))))))))))))))))))"

text \<open>\<^verbatim>\<open>sliceArrowLogBatch\<close>: the slice expression panics outside the change list.\<close>

definition sliceArrowLogBatch :: "'r arrow_lib \<Rightarrow> 'r arrow_log_batch \<Rightarrow> int \<Rightarrow> int \<Rightarrow> 'r arrow_log_batch result" where
  "sliceArrowLogBatch lib b start end' =
     (case abRecord b of None \<Rightarrow> Inl (Panic ''nil record'')
      | Some record \<Rightarrow>
          andThen (go_slice (abChanges b) start end') (\<lambda>changes.
            Inr (b\<lparr>abBaseOffset := abBaseOffset b + word_of_int start,
                   abRecord := Some (alSlice lib record start end'), abChanges := changes, abOwned := True\<rparr>)))"

section \<open>The header is the header of a log batch\<close>

text \<open>The header fields as a log batch with as many records as there are rows, so that the header lemmas of
  the row-oriented batches apply.\<close>

definition headerOf :: "'r arrow_log_batch \<Rightarrow> nat \<Rightarrow> log_batch" where
  "headerOf b n = \<lparr>Magic = abMagic b, BaseOffset = abBaseOffset b, CommitTime = abCommitTime b,
     LeaderEpoch = abLeaderEpoch b, SchemaID = abSchemaID b, AppendOnly = abAppendOnly b,
     WriterID = abWriterID b, BatchSequence = abBatchSequence b,
     Records = replicate n \<lparr>recKey = [], recValue = [], recChange = 0,
       recTimestamp = \<lparr>unixSec = 0, nanosecond = 0, zoneOffset = 0\<rparr>, recOffset = 0\<rparr>\<rparr>"

lemma headerOf_sel [simp]:
  "Magic (headerOf b n) = abMagic b" "BaseOffset (headerOf b n) = abBaseOffset b"
  "CommitTime (headerOf b n) = abCommitTime b" "LeaderEpoch (headerOf b n) = abLeaderEpoch b"
  "SchemaID (headerOf b n) = abSchemaID b" "AppendOnly (headerOf b n) = abAppendOnly b"
  "WriterID (headerOf b n) = abWriterID b" "BatchSequence (headerOf b n) = abBatchSequence b"
  "length (Records (headerOf b n)) = n" "Records (headerOf b n) = [] \<longleftrightarrow> n = 0"
  by (simp_all add: headerOf_def)

lemma writeArrowHeader_layout:
  assumes "abMagic b = 0 \<or> abMagic b = 1"
  shows "writeArrowHeader b (int n) = Inr (logLayout (headerOf b n) 0 0 (logTail (headerOf b n) []))"
proof -
  let ?b = "headerOf b n"
  have m: "Magic ?b = 0 \<or> Magic ?b = 1" using assms by simp
  have c: "(if int n > 0 then le_put 4 e off (word_of_int (int n - 1) :: 32 word) else Inr e)
      = (if Records ?b \<noteq> [] then le_put 4 e off (of_nat (length (Records ?b) - 1) :: 32 word) else Inr e)"
    for e off by (cases n) simp_all
  have r: "andThen x Inr = x" for x :: "bytes result" by (cases x) simp_all
  have n: "(word_of_int (int n) :: 32 word) = of_nat (length (Records ?b))" by simp
  have "writeArrowHeader b (int n) = andThen (le_put 8 (replicate (if Magic ?b = 1 then logBatchV1HeaderSize
       else logBatchV0HeaderSize) 0) 0 (BaseOffset ?b)) (\<lambda>e.
     andThen (go_set e 12 (Magic ?b)) (\<lambda>e.
     andThen (le_put 8 e 13 (CommitTime ?b)) (\<lambda>e.
     andThen (if Magic ?b = 1 then le_put 4 e 21 (LeaderEpoch ?b) else Inr e) (\<lambda>e.
     andThen (le_put 2 e (schemaOffset ?b) (SchemaID ?b)) (\<lambda>e.
     andThen (if AppendOnly ?b then go_set e (schemaOffset ?b + 2) 1 else Inr e) (\<lambda>e.
     andThen (if Records ?b \<noteq> []
              then le_put 4 e (schemaOffset ?b + 3) (of_nat (length (Records ?b) - 1) :: 32 word)
              else Inr e) (\<lambda>e.
     andThen (le_put 8 e (schemaOffset ?b + 3 + 4) (WriterID ?b)) (\<lambda>e.
     andThen (le_put 4 e (schemaOffset ?b + 3 + 12) (BatchSequence ?b)) (\<lambda>e.
     andThen (le_put 4 e (schemaOffset ?b + 3 + 16) (of_nat (length (Records ?b)) :: 32 word)) Inr)))))))))"
    unfolding writeArrowHeader_def Let_def arrowHeaderSize_def schemaOffset_def r c n
    by (simp only: headerOf_sel)
  also have "\<dots> = Inr (logLayout ?b 0 0 (logTail ?b []))"
    unfolding log_front [OF m] log_back [OF m] ..
  finally show ?thesis .
qed


lemma EncodeArrowLogBatch_layout:
  assumes "EncodeArrowLogBatch lib b compression = Inr bytes" and "\<forall>r. 0 \<le> alNumRows lib r"
  obtains n changes payload where "abMagic b = 0 \<or> abMagic b = 1"
    "arrowRecordCount lib (abRecord b) = Inr (int n)" "arrowChanges b (int n) = Inr changes"
    "encodeArrowPayload lib (abRecord b) compression = Inr payload" "n = 0 \<longrightarrow> payload = []"
    "int (length bytes) \<le> maxRowBytes"
    "bytes = logLayout (headerOf b n) (word_of_int (int (length bytes) - 12))
       (Checksum (logTail (headerOf b n) (changes @ payload))) (logTail (headerOf b n) (changes @ payload))"
proof -
  from assms(1) obtain count changes payload where magic: "abMagic b = 0 \<or> abMagic b = 1"
    and count: "arrowRecordCount lib (abRecord b) = Inr count" and changes: "arrowChanges b count = Inr changes"
    and payload: "encodeArrowPayload lib (abRecord b) compression = Inr payload"
    and empty: "count = 0 \<longrightarrow> payload = []"
    and small: "int (length payload) \<le> maxRowBytes - int (arrowHeaderSize (abMagic b)) - int (length changes)"
    by (auto simp: EncodeArrowLogBatch_def)
  from count assms(2) have "0 \<le> count" by (auto simp: arrowRecordCount_def split: option.splits)
  then obtain n where n: "count = int n" by (rule nonneg_eq_int)
  let ?b = "headerOf b n" let ?t = "logTail ?b (changes @ payload)"
  have off: "(if abMagic b = 1 then 29 else 25) = schemaOffset ?b" "(if abMagic b = 1 then 25 else 21) = crcOffset ?b"
    by (simp_all add: schemaOffset_def crcOffset_def)
  have t: "logLayout ?b 0 0 (logTail ?b []) @ changes @ payload = logLayout ?b 0 0 ?t"
    by (simp add: logLayout_def logTail_def)
  from assms(1) small empty magic have bytes: "bytes = logLayout ?b (word_of_int (int (length (logLayout ?b 0 0 ?t)) - 12))
      (Checksum ?t) ?t"
    unfolding EncodeArrowLogBatch_def count andThen_simps n changes [unfolded n] payload off Let_def
      writeArrowHeader_layout [OF magic] t log_seal
    by auto
  have "int (length bytes) \<le> maxRowBytes"
    using small unfolding bytes
    by (simp add: arrowHeaderSize_def logBatchV0HeaderSize_def logBatchV1HeaderSize_def split: if_splits)
  moreover have "length (logLayout ?b 0 0 ?t) = length bytes" by (subst bytes) simp
  ultimately show thesis
    using that [of n changes payload] magic count changes payload empty bytes n by simp
qed

lemma changeBytes_Inr:
  "changeBytes cs = Inr bs \<Longrightarrow> bs = cs \<and> (\<forall>c\<in>set cs. ChangeType_Validate c = Inr ())"
  by (induction cs arbitrary: bs) auto

lemma readArrowChanges_append:
  "\<forall>c\<in>set cs. ChangeType_Validate c = Inr () \<Longrightarrow> position = int (length pre) \<Longrightarrow>
   readArrowChanges (pre @ cs @ post) position (length cs) = Inr cs"
proof (induction cs arbitrary: pre position)
  case (Cons c cs)
  from Cons.IH [of "position + 1" "pre @ [c]"] Cons.prems
  have "readArrowChanges (pre @ c # cs @ post) (position + 1) (length cs) = Inr cs" by simp
  moreover have "go_index (pre @ c # cs @ post) position = Inr c"
    using Cons.prems(2) go_index_append by simp
  ultimately show ?case using Cons.prems(1) by simp
qed simp

lemma decodeArrowChanges_append:
  assumes "arrowChanges b (int n) = Inr changes" and "position = int (length pre)"
  shows "decodeArrowChanges (pre @ changes @ post) position (int n) (abAppendOnly b)
    = Inr (if abAppendOnly b then replicate n Append else abChanges b, position + int (length changes))"
  using assms readArrowChanges_append [of "abChanges b" position pre post] changeBytes_Inr [of "abChanges b" changes]
  by (cases "abAppendOnly b") (auto simp: decodeArrowChanges_def arrowChanges_def)

text \<open>What the Arrow library promises of a record that it has written: IPC bytes are not empty and read back as the
  record.\<close>

definition ipc_reads_back :: "'r arrow_lib \<Rightarrow> arrow_schema \<Rightarrow> byte \<Rightarrow> 'r \<Rightarrow> bool" where
  "ipc_reads_back lib sch compression r \<longleftrightarrow>
     (\<forall>p. alWrite lib r compression = Inr p \<longrightarrow> p \<noteq> [] \<and> alRead lib sch p = Inr r)"

lemma decodeArrowRecord_payload:
  assumes "arrowRecordCount lib r = Inr (int n)" "encodeArrowPayload lib r compression = Inr payload"
    "\<forall>record. r = Some record \<longrightarrow> ipc_reads_back lib sch compression record"
  shows "decodeArrowRecord lib sch payload (int n) = Inr (if n = 0 then None else r)"
  using assms
  by (cases r)
    (auto simp: arrowRecordCount_def encodeArrowPayload_def decodeArrowRecord_def decodeArrowPayload_def
      ipc_reads_back_def split: if_splits)


lemma arrowHeader_layout:
  assumes magic: "Magic b = 0 \<or> Magic b = 1" and bytes: "bytes = logLayout b len crc (logTail b body)"
    and max: "int (length bytes) \<le> maxRowBytes"
  shows "arrowHeader bytes = Inr (Magic b, schemaOffset b + 23, crcOffset b, schemaOffset b)"
proof -
  have len: "length bytes = (if Magic b = 1 then 52 else 48) + length body"
    using arg_cong [OF bytes, of length] by simp
  show ?thesis
    unfolding arrowHeader_def log_fields(3) [OF magic bytes] andThen_simps
    using magic max len
    by (auto simp: schemaOffset_def crcOffset_def logBatchV0HeaderSize_def logBatchV1HeaderSize_def)
qed

lemma DecodeArrowLogBatch_Encode:
  assumes enc: "EncodeArrowLogBatch lib b compression = Inr bytes" and rows: "\<forall>r. 0 \<le> alNumRows lib r"
    and ipc: "\<forall>record. abRecord b = Some record \<longrightarrow> ipc_reads_back lib sch compression record"
    and count: "arrowRecordCount lib (abRecord b) = Inr count" "count \<le> maxRowBytes"
  shows "DecodeArrowLogBatch lib (Some sch) bytes
    = Inr (b\<lparr>abLeaderEpoch := (if abMagic b = 1 then abLeaderEpoch b else 0),
            abRecord := (if count = 0 then None else abRecord b),
            abChanges := (if abAppendOnly b then replicate (nat count) Append else abChanges b),
            abOwned := count \<noteq> 0\<rparr>)"
proof -
  obtain n changes payload where magic: "abMagic b = 0 \<or> abMagic b = 1"
    and n: "arrowRecordCount lib (abRecord b) = Inr (int n)" and ch: "arrowChanges b (int n) = Inr changes"
    and pl: "encodeArrowPayload lib (abRecord b) compression = Inr payload" "n = 0 \<longrightarrow> payload = []"
    and max: "int (length bytes) \<le> maxRowBytes"
    and bytes: "bytes = logLayout (headerOf b n) (word_of_int (int (length bytes) - 12))
       (Checksum (logTail (headerOf b n) (changes @ payload))) (logTail (headerOf b n) (changes @ payload))"
    using EncodeArrowLogBatch_layout [OF enc rows] by metis
  have cn: "count = int n" using n count(1) by simp
  let ?b = "headerOf b n" let ?so = "schemaOffset ?b"
  have m: "Magic ?b = 0 \<or> Magic ?b = 1" using magic by simp
  note fields = log_fields [OF m bytes, unfolded headerOf_sel]
  have len: "int (length bytes) = ?so + 23 + int (length changes) + int (length payload)"
    using arg_cong [OF bytes, of length] by (simp add: schemaOffset_def)
  have ulen: "uint (word_of_int (int (length bytes) - 12) :: 32 word) = int (length bytes) - 12"
    using max len by (intro uint_of_int_count) (simp_all add: schemaOffset_def)
  have un: "uint (of_nat n :: 32 word) = int n"
    using count(2) cn by (intro uint_of_nat_count) simp_all
  have attr: "((if abAppendOnly b then 1 else 0 :: byte) AND 1 \<noteq> 0) = abAppendOnly b" by simp
  obtain pre where pre: "int (length pre) = ?so + 23" "bytes = pre @ changes @ payload"
  proof
    let ?pre = "logLayout ?b (word_of_int (int (length bytes) - 12))
      (Checksum (logTail ?b (changes @ payload))) (logTail ?b [])"
    show "int (length ?pre) = ?so + 23" by (simp add: schemaOffset_def)
    show "bytes = ?pre @ changes @ payload" using bytes by (simp add: logLayout_def logTail_def)
  qed
  have dch: "decodeArrowChanges bytes (?so + 23) (int n) (abAppendOnly b)
      = Inr (if abAppendOnly b then replicate n Append else abChanges b, ?so + 23 + int (length changes))"
    unfolding pre(2) by (rule decodeArrowChanges_append [OF ch]) (simp add: pre(1))
  have sl: "go_slice bytes (?so + 23 + int (length changes)) (int (length bytes)) = Inr payload"
    using pre by (simp add: go_slice_def)
  have rec: "decodeArrowRecord lib sch payload (int n) = Inr (if n = 0 then None else abRecord b)"
    by (rule decodeArrowRecord_payload [OF n pl(1) ipc])
  have lch: "\<not> abAppendOnly b \<Longrightarrow> length changes = n"
    using ch changeBytes_Inr by (auto simp: arrowChanges_def)
  have some: "n \<noteq> 0 \<Longrightarrow> abRecord b \<noteq> None" using n by (auto simp: arrowRecordCount_def split: option.splits)
  have lim: "\<not> (int n > maxRowBytes \<or> (if abAppendOnly b then 0 else int n) > int (length bytes) - (?so + 23))"
    using lch len count(2) cn by simp
  show ?thesis
    unfolding DecodeArrowLogBatch_def option.case arrowHeader_layout [OF m bytes max, unfolded headerOf_sel]
      andThen_simps prod.case Let_def fields ulen un attr dch sl rec
    using lim some by (cases b) (auto simp: cn)
qed


section \<open>Round trip and corruption\<close>

text \<open>An Arrow log batch survives encoding and decoding: when the IPC bytes of its record read back as the record,
  the decoded batch has the header fields, the record and the changes of the encoded one. A magic-0 batch has no leader
  epoch, a batch without rows has no record, and the changes of an append-only batch are implied.\<close>

theorem arrow_batch_roundtrip:
  assumes "EncodeArrowLogBatch lib b compression = Inr bytes" and "\<forall>r. 0 \<le> alNumRows lib r"
    and "\<forall>record. abRecord b = Some record \<longrightarrow> ipc_reads_back lib sch compression record"
    and "arrowRecordCount lib (abRecord b) = Inr count" "count \<le> maxRowBytes"
  shows "DecodeArrowLogBatch lib (Some sch) bytes
    = Inr (b\<lparr>abLeaderEpoch := (if abMagic b = 1 then abLeaderEpoch b else 0),
            abRecord := (if count = 0 then None else abRecord b),
            abChanges := (if abAppendOnly b then replicate (nat count) Append else abChanges b),
            abOwned := count \<noteq> 0\<rparr>)"
  using assms by (rule DecodeArrowLogBatch_Encode)

text \<open>A small Arrow library: a record is a list of bytes, a row per byte, written as they are.\<close>

definition byteLib :: "bytes arrow_lib" where
  "byteLib = \<lparr>alNumRows = (\<lambda>r. int (length r)), alWrite = (\<lambda>r c. Inr (0xFF # r)), alRead = (\<lambda>sch p. Inr (tl p)),
     alSlice = (\<lambda>r i j. take (nat (j - i)) (drop (nat i) r)),
     alNumCols = (\<lambda>r. 1), alRebuild = (\<lambda>r sch cols. r)\<rparr>"

definition byteBatch :: "bytes arrow_log_batch" where
  "byteBatch = \<lparr>abMagic = 1, abBaseOffset = 7, abCommitTime = 3, abLeaderEpoch = 5, abSchemaID = 1,
     abAppendOnly = False, abWriterID = 9, abBatchSequence = 2, abRecord = Some [10, 20],
     abChanges = [Insert, Delete], abOwned = False\<rparr>"

lemma byteBatch_encodes: "\<exists>bytes. EncodeArrowLogBatch byteLib byteBatch 0 = Inr bytes"
proof -
  let ?b = "headerOf byteBatch 2"
  have w: "writeArrowHeader byteBatch 2 = Inr (logLayout ?b 0 0 (logTail ?b []))"
    using writeArrowHeader_layout [of byteBatch 2] by (simp add: byteBatch_def)
  have c: "arrowRecordCount byteLib (abRecord byteBatch) = Inr 2"
    "arrowChanges byteBatch 2 = Inr [Insert, Delete]"
    "encodeArrowPayload byteLib (abRecord byteBatch) 0 = Inr [0xFF, 10, 20]"
    by (simp_all add: arrowRecordCount_def arrowChanges_def encodeArrowPayload_def byteLib_def byteBatch_def
        ChangeType_Validate_def Insert_def Delete_def Append_def)
  have t: "logLayout ?b 0 0 (logTail ?b []) @ [Insert, Delete] @ [0xFF, 10, 20]
      = logLayout ?b 0 0 (logTail ?b ([Insert, Delete] @ [0xFF, 10, 20]))"
    by (simp add: logLayout_def logTail_def)
  have off: "(if abMagic byteBatch = 1 then 29 else 25) = schemaOffset ?b"
    "(if abMagic byteBatch = 1 then 25 else 21) = crcOffset ?b"
    by (simp_all add: schemaOffset_def crcOffset_def)
  show ?thesis
    unfolding EncodeArrowLogBatch_def c andThen_simps off Let_def w t log_seal
    by (simp add: byteBatch_def arrowHeaderSize_def logBatchV1HeaderSize_def maxRowBytes_def)
qed

theorem arrow_batch_roundtrip_witness:
  "\<exists>bytes. EncodeArrowLogBatch byteLib byteBatch 0 = Inr bytes
     \<and> DecodeArrowLogBatch byteLib (Some []) bytes = Inr (byteBatch\<lparr>abOwned := True\<rparr>)"
proof -
  obtain bytes where e: "EncodeArrowLogBatch byteLib byteBatch 0 = Inr bytes" using byteBatch_encodes by blast
  have "DecodeArrowLogBatch byteLib (Some []) bytes
      = Inr (byteBatch\<lparr>abLeaderEpoch := (if abMagic byteBatch = 1 then abLeaderEpoch byteBatch else 0),
            abRecord := (if (2::int) = 0 then None else abRecord byteBatch),
            abChanges := (if abAppendOnly byteBatch then replicate (nat 2) Append else abChanges byteBatch),
            abOwned := (2::int) \<noteq> 0\<rparr>)"
    by (rule arrow_batch_roundtrip [OF e])
      (simp_all add: byteLib_def byteBatch_def ipc_reads_back_def arrowRecordCount_def maxRowBytes_def)
  with e show ?thesis by (simp add: byteBatch_def)
qed

end
