(* ===== verification/Schema_Evolution.thy ===== *)
theory Schema_Evolution
  imports Table_Paths "HOL-Library.AList"
begin

text \<open>
  Schemas over time: \<^verbatim>\<open>pkg/fgo/schema_resolver.go\<close> and the field-ID test of
  \<^verbatim>\<open>pkg/fgo/model.go\<close>. Rows written under an old schema are mapped onto the reader's; the writer schemas come
  from a cache with least-recently-used eviction. A nil and an empty slice of fields, which \<^verbatim>\<open>reflect.DeepEqual\<close> tells
  apart, are the same list here.
\<close>

section \<open>Column mapping\<close>

function logicalFieldIDsAreZero :: "logical_type \<Rightarrow> bool" where
  "logicalFieldIDsAreZero t =
     (list_all (\<lambda>f. fieldID f = 0 \<and> logicalFieldIDsAreZero (fieldType f)) (ltFields t)
      \<and> (case ltElement t of None \<Rightarrow> True | Some e \<Rightarrow> logicalFieldIDsAreZero e)
      \<and> (case ltKey t of None \<Rightarrow> True | Some k \<Rightarrow> logicalFieldIDsAreZero k)
      \<and> (case ltValue t of None \<Rightarrow> True | Some v \<Rightarrow> logicalFieldIDsAreZero v))"
  by pat_completeness auto
termination
  by (relation "measure size") (auto dest: size_ltElement size_ltKey size_ltValue size_field_type)

declare logicalFieldIDsAreZero.simps [simp del]

definition hasUnassignedFieldIDs :: "schema \<Rightarrow> bool" where
  "hasUnassignedFieldIDs s \<longleftrightarrow> HighestFieldID s = 0
     \<and> list_all (\<lambda>c. colID c = 0 \<and> logicalFieldIDsAreZero (logicalTypeForColumn c)) (Columns s)"

text \<open>\<^verbatim>\<open>sourceType.Nullable = false\<close>: the other fields are compared deeply.\<close>

definition notNullable :: "logical_type \<Rightarrow> logical_type" where
  "notNullable t = LogicalType (ltRoot t) False (ltLength t) (ltPrecision t) (ltScale t) (ltElement t)
     (ltKey t) (ltValue t) (ltFields t)"

definition compatibleColumnType :: "column \<Rightarrow> column \<Rightarrow> bool" where
  "compatibleColumnType source target \<longleftrightarrow>
     notNullable (logicalTypeForColumn source) = notNullable (logicalTypeForColumn target)"

text \<open>The index maps \<^verbatim>\<open>sourceByID\<close> and \<^verbatim>\<open>sourceByName\<close>: a later column wins.\<close>

definition indexBy :: "(column \<Rightarrow> 'k) \<Rightarrow> column list \<Rightarrow> 'k \<rightharpoonup> nat" where
  "indexBy key cs = map_of (rev (zip (map key cs) [0..<length cs]))"

definition sourceIndex :: "schema \<Rightarrow> schema \<Rightarrow> column \<Rightarrow> nat option" where
  "sourceIndex source target c =
     (if \<not> hasUnassignedFieldIDs source \<and> \<not> hasUnassignedFieldIDs target
      then indexBy colID (Columns source) (colID c)
      else indexBy colName (Columns source) (colName c))"

fun mapColumns :: "schema \<Rightarrow> schema \<Rightarrow> column list \<Rightarrow> int list result" where
  "mapColumns source target [] = Inr []"
| "mapColumns source target (c # cs) =
     (case sourceIndex source target c of
        None \<Rightarrow> guardE (\<not> colNullable c) ErrInvalidSchema
          (andThen (mapColumns source target cs) (\<lambda>m. Inr (-1 # m)))
      | Some i \<Rightarrow> guardE (\<not> compatibleColumnType (Columns source ! i) c) ErrInvalidSchema
          (andThen (mapColumns source target cs) (\<lambda>m. Inr (int i # m))))"

definition schemaColumnMapping :: "schema \<Rightarrow> schema \<Rightarrow> int list result" where
  "schemaColumnMapping source target = mapColumns source target (Columns target)"

fun evolveColumns :: "row \<Rightarrow> column list \<Rightarrow> int list \<Rightarrow> row result" where
  "evolveColumns row [] mapping = Inr []"
| "evolveColumns row (c # cs) [] = Inl (Panic ''index out of range'')"
| "evolveColumns row (c # cs) (i # mapping) =
     (if i < 0 then andThen (evolveColumns row cs mapping) (\<lambda>vs. Inr (VNil # vs))
      else andThen (go_index row i) (\<lambda>v.
        guardE (v = VNil \<and> \<not> colNullable c) ErrInvalidSchema
          (andThen (evolveColumns row cs mapping) (\<lambda>vs. Inr (v # vs)))))"

definition evolveRow :: "schema \<Rightarrow> schema \<Rightarrow> row \<Rightarrow> row result" where
  "evolveRow source target row =
     guardE (length row \<noteq> length (Columns source)) ErrMalformedRow
       (andThen (schemaColumnMapping source target) (\<lambda>mapping.
          evolveColumns row (Columns target) mapping))"

section \<open>The schema cache\<close>

text \<open>The entries are a Go map from path and ID: an association list with distinct keys. The clock has 64 bits in
  the code and moves once per use of the cache, so it does not wrap.\<close>

type_synonym schema_key = "table_path \<times> int"

record cache_entry =
  ceSchema :: schema
  ceUsed :: nat

record schema_cache =
  scMax :: nat
  scEntries :: "(schema_key \<times> cache_entry) list"
  scClock :: nat
  scClosed :: bool

definition defaultSchemaCacheEntries :: nat where
  "defaultSchemaCacheEntries = 256"

definition newSchemaCache :: "nat \<Rightarrow> schema_cache" where
  "newSchemaCache n = \<lparr>scMax = n, scEntries = [], scClock = 0, scClosed = False\<rparr>"

definition putEntry :: "schema_key \<Rightarrow> schema \<Rightarrow> schema_cache \<Rightarrow> schema_cache" where
  "putEntry key s c = c\<lparr>scClock := Suc (scClock c),
     scEntries := AList.update key \<lparr>ceSchema = s, ceUsed = Suc (scClock c)\<rparr> (scEntries c)\<rparr>"

text \<open>\<^verbatim>\<open>cached\<close>: \<open>fetchable\<close> says that the cache has a fetch function.\<close>

definition cached :: "bool \<Rightarrow> schema_key \<Rightarrow> schema_cache \<Rightarrow> schema option result \<times> schema_cache" where
  "cached fetchable key c =
     (if scClosed c then (Inl ErrClosed, c)
      else case map_of (scEntries c) key of
        Some entry \<Rightarrow> (Inr (Some (ceSchema entry)), putEntry key (ceSchema entry) c)
      | None \<Rightarrow> if \<not> fetchable then (Inl ErrInvalidConfig, c) else (Inr None, c))"

text \<open>The scan of \<^verbatim>\<open>evictLocked\<close> for the entry used longest ago, over the entries in some order.\<close>

fun oldestFrom :: "schema_key \<times> cache_entry \<Rightarrow> (schema_key \<times> cache_entry) list \<Rightarrow> schema_key \<times> cache_entry" where
  "oldestFrom oldest [] = oldest"
| "oldestFrom oldest (e # es) = oldestFrom (if ceUsed (snd e) < ceUsed (snd oldest) then e else oldest) es"

definition oldestEntry :: "(schema_key \<times> cache_entry) list \<Rightarrow> schema_key" where
  "oldestEntry es = fst (oldestFrom (hd es) (tl es))"

lemma oldestFrom_in: "oldestFrom e es \<in> insert e (set es)"
proof (induction es arbitrary: e)
  case (Cons x es)
  show ?case using Cons.IH [of x] Cons.IH [of e] by auto
qed simp

lemma oldestEntry_in: "es \<noteq> [] \<Longrightarrow> oldestEntry es \<in> fst ` set es"
  using oldestFrom_in [of "hd es" "tl es"] by (cases es) (auto simp: oldestEntry_def)

function evictLocked :: "nat \<Rightarrow> (schema_key \<times> cache_entry) list \<Rightarrow> (schema_key \<times> cache_entry) list" where
  "evictLocked mx es =
     (if length es > mx
      then evictLocked mx (AList.delete (oldestEntry es) es) else es)"
  by pat_completeness auto
termination
proof (relation "measure (\<lambda>(mx, es). length es)")
  fix mx :: nat and es :: "(schema_key \<times> cache_entry) list"
  assume "length es > mx"
  then have "oldestEntry es \<in> fst ` set es" by (intro oldestEntry_in) auto
  then show "((mx, AList.delete (oldestEntry es) es), (mx, es)) \<in> measure (\<lambda>(mx, es). length es)"
    by (auto simp: AList.delete_eq intro!: length_filter_less)
qed simp

declare evictLocked.simps [simp del]

definition storeEntry :: "schema_key \<Rightarrow> schema \<Rightarrow> schema_cache \<Rightarrow> schema_cache" where
  "storeEntry key s c = (let c = putEntry key s c in c\<lparr>scEntries := evictLocked (scMax c) (scEntries c)\<rparr>)"

definition store :: "table_path \<Rightarrow> int \<Rightarrow> schema \<Rightarrow> schema_cache \<Rightarrow> schema_cache" where
  "store path schemaID s c =
     (if schemaID < 0 \<or> \<not> is_ok (TablePath_Validate path) \<or> \<not> is_ok (Schema_Validate s) \<or> scClosed c then c
      else storeEntry (path, schemaID) s c)"

text \<open>\<^verbatim>\<open>fetchAndStore\<close> after a miss: the answer of the fetch is validated, and stored unless the cache was
  closed in the meantime.\<close>

definition storeFetched :: "schema_key \<Rightarrow> schema result \<Rightarrow> schema_cache \<Rightarrow> schema result \<times> schema_cache" where
  "storeFetched key fetched c =
     (case andThen fetched (\<lambda>s. andThen (Schema_Validate s) (\<lambda>_. Inr s)) of
        Inl e \<Rightarrow> (Inl e, c)
      | Inr s \<Rightarrow> if scClosed c then (Inl ErrClosed, c) else (Inr s, storeEntry key s c))"

text \<open>\<^verbatim>\<open>resolveSchema\<close> by one caller: \<open>fetch\<close> is the metadata request. (Concurrent callers of one key share the
  call through the coalescer.)\<close>

definition resolveSchema ::
    "(schema_key \<Rightarrow> schema result) option \<Rightarrow> table_path \<Rightarrow> int \<Rightarrow> schema_cache \<Rightarrow> schema result \<times> schema_cache" where
  "resolveSchema fetch path schemaID c =
     (case TablePath_Validate path of Inl e \<Rightarrow> (Inl e, c)
      | Inr _ \<Rightarrow>
          if schemaID < 0 then (Inl ErrInvalidSchema, c)
          else (case cached (fetch \<noteq> None) (path, schemaID) c of
              (Inl e, c) \<Rightarrow> (Inl e, c)
            | (Inr (Some s), c) \<Rightarrow> (Inr s, c)
            | (Inr None, c) \<Rightarrow> storeFetched (path, schemaID) (the fetch (path, schemaID)) c))"

definition closeCache :: "schema_cache \<Rightarrow> schema_cache" where
  "closeCache c = c\<lparr>scClosed := True\<rparr>"

definition fixedSchemaResolver :: "table_path \<Rightarrow> int \<Rightarrow> schema \<Rightarrow> table_path \<Rightarrow> int \<Rightarrow> schema result" where
  "fixedSchemaResolver path schemaID s path' schemaID' =
     guardE (path' \<noteq> path \<or> schemaID' \<noteq> schemaID) ErrInvalidSchema (Inr s)"

end
