(* ===== verification/Scanner_Decode.thy ===== *)
theory Scanner_Decode
  imports Arrow_Batch Schema_Evolution
begin

text \<open>
  From fetched bytes to records: \<^verbatim>\<open>pkg/fgo/log_scanner_decode.go\<close>. A fetch response is a sequence of log batches, the
  last of which may be cut off by the byte limit. Each batch is decoded under the schema it was written with, rows
  before the fetch offset are dropped, and the rest is mapped onto the schema of the table. Offsets are the signed
  readings of the 64-bit fields; the additions that could overflow are guarded as in the code.
\<close>

record scan_record =
  srBucket :: int
  srRecord :: go_record

record 'r scan_arrow =
  saBucket :: int
  saBatch :: "'r arrow_log_batch"

definition maxInt64 :: int where
  "maxInt64 = 2 ^ 63 - 1"

section \<open>Batch boundaries\<close>

definition completeFetchedBatchSize :: "bytes \<Rightarrow> (int \<times> bool) result" where
  "completeFetchedBatchSize encoded =
     (if length encoded < 12 then Inr (0, False)
      else andThen (le_get 4 encoded 8) (\<lambda>len :: 32 word.
        let size = 12 + uint len in
        guardE (size < int logBatchV0HeaderSize) ErrMalformedRecordBatch
          (if size > int (length encoded) then Inr (0, False) else Inr (size, True))))"

definition fetchedBatchSize :: "bytes \<Rightarrow> int result" where
  "fetchedBatchSize encoded =
     andThen (completeFetchedBatchSize encoded) (\<lambda>(size, complete).
       guardE (\<not> complete) ErrMalformedRecordBatch (Inr size))"

definition fetchedBatchOffsets :: "int \<Rightarrow> int \<Rightarrow> int \<Rightarrow> (int \<times> int) result" where
  "fetchedBatchOffsets base count current =
     guardE (count < 0) ErrMalformedRecordBatch
       (if count = 0 then Inr (0, current)
        else guardE (base > maxInt64 - count) ErrMalformedRecordBatch
          (let end' = base + count;
               start = (if current \<ge> end' then count else if current > base then current - base else 0)
           in Inr (start, if end' > current then end' else current)))"

section \<open>One batch\<close>

text \<open>A panic of the row decoder is not an error value, so it does not lead to the Arrow decoder.\<close>

definition decodeFetchedBatch ::
    "'r arrow_lib \<Rightarrow> (int \<Rightarrow> int) \<Rightarrow> schema \<Rightarrow> int \<Rightarrow> int \<Rightarrow> bytes \<Rightarrow> bool
      \<Rightarrow> (int \<times> scan_record list \<times> 'r scan_arrow option) result" where
  "decodeFetchedBatch lib localOffset s bucket current payload compacted =
     (case DecodeLogBatchRows localOffset s payload compacted of
        Inr batch \<Rightarrow>
          andThen (fetchedBatchOffsets (sint (BaseOffset batch)) (int (length (Records batch))) current)
            (\<lambda>(start, nxt).
          andThen (go_slice (Records batch) start (int (length (Records batch)))) (\<lambda>records.
            Inr (nxt, map (\<lambda>r. \<lparr>srBucket = bucket, srRecord = r\<rparr>) records, None)))
      | Inl rowErr \<Rightarrow>
          (if is_panic (Inl rowErr :: unit result) then Inl rowErr
           else andThen (ArrowSchema s) (\<lambda>arrowSchema.
             case DecodeArrowLogBatch lib (Some arrowSchema) payload of
               Inl e \<Rightarrow> Inl (Joined rowErr e)
             | Inr arrowBatch \<Rightarrow>
                 (case abRecord arrowBatch of None \<Rightarrow> Inl (Panic ''nil record'')
                  | Some record \<Rightarrow>
                      (let count = alNumRows lib record in
                       andThen (fetchedBatchOffsets (sint (abBaseOffset arrowBatch)) count current)
                         (\<lambda>(start, nxt).
                           if start = count then Inr (nxt, [], None)
                           else andThen (if start > 0 then sliceArrowLogBatch lib arrowBatch start count
                                         else Inr arrowBatch) (\<lambda>arrowBatch.
                             Inr (nxt, [], Some \<lparr>saBucket = bucket, saBatch = arrowBatch\<rparr>))))))))"

fun evolveScanRecords :: "schema \<Rightarrow> schema \<Rightarrow> scan_record list \<Rightarrow> scan_record list result" where
  "evolveScanRecords source target [] = Inr []"
| "evolveScanRecords source target (r # rs) =
     andThen (evolveRow source target (recValue (srRecord r))) (\<lambda>row.
     andThen (evolveScanRecords source target rs) (\<lambda>rest.
       Inr (r\<lparr>srRecord := (srRecord r)\<lparr>recValue := row\<rparr>\<rparr> # rest)))"

definition evolveArrowBatch :: "'r arrow_lib \<Rightarrow> schema \<Rightarrow> schema \<Rightarrow> 'r arrow_log_batch \<Rightarrow> 'r arrow_log_batch result" where
  "evolveArrowBatch lib source target batch =
     andThen (schemaColumnMapping source target) (\<lambda>mapping.
     andThen (ArrowSchema target) (\<lambda>targetSchema.
       (case abRecord batch of None \<Rightarrow> Inl (Panic ''nil record'')
        | Some record \<Rightarrow>
            Inr (batch\<lparr>abRecord := Some (alRebuild lib record targetSchema
              (map (\<lambda>i. if i < 0 then None else Some i) mapping))\<rparr>))))"

text \<open>The resolver gives the schema that a table had under a schema ID.\<close>

definition decodeEvolvedFetchedBatch ::
    "'r arrow_lib \<Rightarrow> (int \<Rightarrow> int) \<Rightarrow> (table_path \<Rightarrow> int \<Rightarrow> schema result) \<Rightarrow> table \<Rightarrow> int \<Rightarrow> int \<Rightarrow> bytes \<Rightarrow> bool
      \<Rightarrow> (int \<times> scan_record list \<times> 'r scan_arrow option) result" where
  "decodeEvolvedFetchedBatch lib localOffset resolver t bucket offset payload compacted =
     andThen (logBatchHeader payload) (\<lambda>(magic, headerSize, schemaOffset).
     andThen (le_get 2 payload schemaOffset) (\<lambda>schemaID :: 16 word.
     andThen (resolver (tblPath t) (sint schemaID)) (\<lambda>writerSchema.
     andThen (decodeFetchedBatch lib localOffset writerSchema bucket offset payload compacted)
       (\<lambda>(nxt, rows, arrowBatch).
     andThen (evolveScanRecords writerSchema (tblSchema t) rows) (\<lambda>rows.
       (case arrowBatch of None \<Rightarrow> Inr (nxt, rows, None)
        | Some ab \<Rightarrow>
            andThen (evolveArrowBatch lib writerSchema (tblSchema t) (saBatch ab)) (\<lambda>evolved.
              Inr (nxt, rows, Some (ab\<lparr>saBatch := evolved\<rparr>)))))))))"

section \<open>The loop over the batches\<close>

lemma completeFetchedBatchSize_True:
  assumes "completeFetchedBatchSize encoded = Inr (sz, True)"
  shows "48 \<le> sz" "sz \<le> int (length encoded)"
  using assms by (auto simp: completeFetchedBatchSize_def logBatchV0HeaderSize_def Let_def split: if_splits)

function decodeFetchedLogBatches ::
    "'r arrow_lib \<Rightarrow> (int \<Rightarrow> int) \<Rightarrow> (table_path \<Rightarrow> int \<Rightarrow> schema result) \<Rightarrow> table \<Rightarrow> int \<Rightarrow> bool \<Rightarrow> bool
      \<Rightarrow> int \<Rightarrow> scan_record list \<Rightarrow> 'r scan_arrow list \<Rightarrow> bytes
      \<Rightarrow> (int \<times> scan_record list \<times> 'r scan_arrow list) result" where
  "decodeFetchedLogBatches lib localOffset resolver t bucket compacted allowIncompleteTail nxt rows arrows encoded =
     (if encoded = [] then Inr (nxt, rows, arrows)
      else case completeFetchedBatchSize encoded of
        Inl e \<Rightarrow> Inl e
      | Inr (sz, False) \<Rightarrow>
          (if allowIncompleteTail then Inr (nxt, rows, arrows) else Inl ErrMalformedRecordBatch)
      | Inr (sz, True) \<Rightarrow>
          (case decodeEvolvedFetchedBatch lib localOffset resolver t bucket nxt (take (nat sz) encoded) compacted of
             Inl e \<Rightarrow> Inl e
           | Inr (batchNext, batchRows, arrowBatch) \<Rightarrow>
               decodeFetchedLogBatches lib localOffset resolver t bucket compacted allowIncompleteTail batchNext
                 (rows @ batchRows) (arrows @ (case arrowBatch of None \<Rightarrow> [] | Some ab \<Rightarrow> [ab]))
                 (drop (nat sz) encoded)))"
  by pat_completeness auto
termination
  by (relation "measure (\<lambda>(_, _, _, _, _, _, _, _, _, _, encoded). length encoded)")
    (auto dest: completeFetchedBatchSize_True)

declare decodeFetchedLogBatches.simps [simp del]

definition decodeFetchedFetchResponse ::
    "'r arrow_lib \<Rightarrow> (int \<Rightarrow> int) \<Rightarrow> (table_path \<Rightarrow> int \<Rightarrow> schema result) \<Rightarrow> table \<Rightarrow> int \<Rightarrow> int \<Rightarrow> bytes \<Rightarrow> bool
      \<Rightarrow> (int \<times> scan_record list \<times> 'r scan_arrow list) result" where
  "decodeFetchedFetchResponse lib localOffset resolver t bucket fetchOffset encoded compacted =
     decodeFetchedLogBatches lib localOffset resolver t bucket compacted True fetchOffset [] [] encoded"

definition decodeFetchedLog ::
    "'r arrow_lib \<Rightarrow> (int \<Rightarrow> int) \<Rightarrow> (table_path \<Rightarrow> int \<Rightarrow> schema result) \<Rightarrow> table \<Rightarrow> int \<Rightarrow> int \<Rightarrow> bytes \<Rightarrow> bool
      \<Rightarrow> (int \<times> scan_record list \<times> 'r scan_arrow list) result" where
  "decodeFetchedLog lib localOffset resolver t bucket fetchOffset encoded compacted =
     decodeFetchedLogBatches lib localOffset resolver t bucket compacted False fetchOffset [] [] encoded"

section \<open>Projection of decoded rows\<close>

fun projectRow :: "row \<Rightarrow> int list \<Rightarrow> row result" where
  "projectRow row [] = Inr []"
| "projectRow row (position # positions) =
     andThen (go_index row position) (\<lambda>v. andThen (projectRow row positions) (\<lambda>vs. Inr (v # vs)))"

fun projectScanRows :: "int list \<Rightarrow> scan_record list \<Rightarrow> scan_record list result" where
  "projectScanRows projection [] = Inr []"
| "projectScanRows projection (r # rs) =
     (if projection = [] then Inr (r # rs)
      else andThen (projectRow (recValue (srRecord r)) projection) (\<lambda>row.
        andThen (projectScanRows projection rs) (\<lambda>rest.
          Inr (r\<lparr>srRecord := (srRecord r)\<lparr>recValue := row\<rparr>\<rparr> # rest))))"

fun projectArrows :: "'r arrow_lib \<Rightarrow> arrow_schema \<Rightarrow> int list \<Rightarrow> 'r scan_arrow list \<Rightarrow> 'r scan_arrow list result" where
  "projectArrows lib arrowSchema projection [] = Inr []"
| "projectArrows lib arrowSchema projection (b # bs) =
     (case abRecord (saBatch b) of None \<Rightarrow> Inl (Panic ''nil record'')
      | Some record \<Rightarrow>
          guardE (\<exists>p\<in>set projection. p < 0 \<or> p \<ge> alNumCols lib record) ErrInvalidSchema
            (andThen (projectArrows lib arrowSchema projection bs) (\<lambda>rest.
               Inr (b\<lparr>saBatch := (saBatch b)\<lparr>abRecord :=
                 Some (alRebuild lib record arrowSchema (map Some projection))\<rparr>\<rparr> # rest))))"

definition projectScanArrows ::
    "'r arrow_lib \<Rightarrow> schema \<Rightarrow> int list \<Rightarrow> 'r scan_arrow list \<Rightarrow> 'r scan_arrow list result" where
  "projectScanArrows lib s projection batches =
     (if projection = [] then Inr batches
      else andThen (ArrowSchema s) (\<lambda>arrowSchema. projectArrows lib arrowSchema projection batches))"

end
