(* ===== verification/Bounds_Properties.thy ===== *)
theory Bounds_Properties
  imports Scanner_Bounds
begin

text \<open>
  The bounds of a scan cut the offsets of the decoded rows, in ascending order, at the row limit and at the stopping
  offset. An Arrow batch stands for the interval of the offsets of its rows.
\<close>

section \<open>The reference cut\<close>

definition cut :: "int \<Rightarrow> int \<Rightarrow> int list \<Rightarrow> int list" where
  "cut remaining stop E = take (nat remaining) (takeWhile (\<lambda>x. x < stop) E)"

lemma cut_append:
  assumes "sorted_wrt (<) (F @ E)" "0 \<le> remaining"
  shows "cut remaining stop (F @ E) = cut remaining stop F @ cut (remaining - int (length (cut remaining stop F))) stop E"
proof (cases "\<forall>x\<in>set F. x < stop")
  case True
  then have F: "takeWhile (\<lambda>x. x < stop) F = F" by (simp add: takeWhile_eq_all_conv)
  from True have FE: "takeWhile (\<lambda>x. x < stop) (F @ E) = F @ takeWhile (\<lambda>x. x < stop) E" by simp
  show ?thesis unfolding cut_def F FE using assms(2) by (simp add: nat_diff_distrib min_def)
next
  case False
  then obtain y where y: "y \<in> set F" "stop \<le> y" by force
  then have FE: "takeWhile (\<lambda>x. x < stop) (F @ E) = takeWhile (\<lambda>x. x < stop) F"
    by (auto simp: takeWhile_append)
  have "takeWhile (\<lambda>x. x < stop) E = []"
    using assms(1) y by (cases E) (auto simp: sorted_wrt_append)
  then show ?thesis by (simp add: cut_def FE)
qed

lemma takeWhile_upto: "takeWhile (\<lambda>x. x < stop) [a..b] = [a..min b (stop - 1)]"
proof (induction a b rule: upto.induct)
  case (1 a b)
  show ?case
  proof (cases "a \<le> b")
    case True
    with 1 show ?thesis by (cases "a < stop") (simp_all add: upto.simps [of a])
  qed simp
qed

lemma take_upto: "take n [a..b] = [a..min b (a + int n - 1)]"
proof (induction n arbitrary: a)
  case (Suc n)
  show ?case
  proof (cases "a \<le> b")
    case True
    then have "take (Suc n) [a..b] = a # take n [a + 1..b]" by (simp add: upto_rec1)
    also have "\<dots> = a # [a + 1..min b (a + 1 + int n - 1)]" by (simp only: Suc.IH)
    also have "\<dots> = [a..min b (a + int (Suc n) - 1)]"
      using True upto_rec1 [of a "min b (a + int n)"] by simp
    finally show ?thesis .
  qed simp
qed simp

lemma last_upto: "a \<le> b \<Longrightarrow> last [a..b] = b"
  by (subst upto_rec2) simp_all

lemma cut_upto: "0 \<le> remaining \<Longrightarrow> cut remaining stop [a..b] = [a..min (min b (stop - 1)) (a + remaining - 1)]"
  by (simp add: cut_def takeWhile_upto take_upto)

lemma cut_single: "0 \<le> remaining \<Longrightarrow> cut remaining stop [x] = (if 0 < remaining \<and> x < stop then [x] else [])"
  by (auto simp: cut_def)

lemma cut_length: "0 \<le> remaining \<Longrightarrow> int (length (cut remaining stop E)) \<le> remaining"
  by (simp add: cut_def)

lemma set_cut: "x \<in> set (cut remaining stop E) \<Longrightarrow> x \<in> set E \<and> x < stop"
  by (auto simp: cut_def dest: in_set_takeD set_takeWhileD)

section \<open>Offsets of rows and batches\<close>

definition arrowRange :: "'r arrow_lib \<Rightarrow> 'r scan_arrow \<Rightarrow> int list" where
  "arrowRange lib a = [arrowOffset a .. arrowOffset a + arrowRows lib a - 1]"

definition scanOffsets :: "'r arrow_lib \<Rightarrow> scan_record list \<Rightarrow> 'r scan_arrow list \<Rightarrow> int set" where
  "scanOffsets lib rows arrows = rowOffset ` set rows \<union> (\<Union>a\<in>set arrows. set (arrowRange lib a))"

definition segmentOffsets :: "'r arrow_lib \<Rightarrow> scan_record list \<Rightarrow> 'r scan_arrow list \<Rightarrow> scan_segment \<Rightarrow> int list" where
  "segmentOffsets lib rows arrows seg =
     (if segRow seg \<ge> 0 then [rowOffset (rows ! nat (segRow seg))] else arrowRange lib (arrows ! nat (segArrow seg)))"

definition orderedOffsets :: "'r arrow_lib \<Rightarrow> scan_record list \<Rightarrow> 'r scan_arrow list \<Rightarrow> int list" where
  "orderedOffsets lib rows arrows = concat (map (segmentOffsets lib rows arrows) (orderedScanSegments rows arrows))"

text \<open>What the Arrow library promises of slices, and what the decoder promises of its batches.\<close>

definition slices_count :: "'r arrow_lib \<Rightarrow> bool" where
  "slices_count lib \<longleftrightarrow> (\<forall>r i j. 0 \<le> i \<and> i \<le> j \<and> j \<le> alNumRows lib r \<longrightarrow> alNumRows lib (alSlice lib r i j) = j - i)"

definition arrow_ok :: "'r arrow_lib \<Rightarrow> 'r scan_arrow \<Rightarrow> bool" where
  "arrow_ok lib a \<longleftrightarrow> abRecord (saBatch a) \<noteq> None \<and> int (length (abChanges (saBatch a))) = arrowRows lib a
     \<and> 0 < arrowRows lib a"

definition segment_ok :: "scan_record list \<Rightarrow> 'r scan_arrow list \<Rightarrow> scan_segment \<Rightarrow> bool" where
  "segment_ok rows arrows seg \<longleftrightarrow> (if segRow seg \<ge> 0
     then segRow seg < int (length rows) \<and> segOffset seg = rowOffset (rows ! nat (segRow seg))
     else 0 \<le> segArrow seg \<and> segArrow seg < int (length arrows)
       \<and> segOffset seg = arrowOffset (arrows ! nat (segArrow seg)))"

lemma orderedScanSegments_ok: "seg \<in> set (orderedScanSegments rows arrows) \<Longrightarrow> segment_ok rows arrows seg"
  by (auto simp: orderedScanSegments_def segment_ok_def)

text \<open>One segment.\<close>

definition bounded_by :: "'r arrow_lib \<Rightarrow> int list \<Rightarrow> 'r bounded_scan \<Rightarrow> 'r bounded_scan \<Rightarrow> bool" where
  "bounded_by lib K b b' \<longleftrightarrow> bsStop b' = bsStop b \<and> bsRemaining b' = bsRemaining b - int (length K)
     \<and> bsDelivered b' = bsDelivered b + int (length K)
     \<and> bsNext b' = (if K = [] then bsNext b else last K + 1)
     \<and> scanOffsets lib (bsRows b') (bsArrows b') = scanOffsets lib (bsRows b) (bsArrows b) \<union> set K
     \<and> scanResultRows lib (bsRows b') (bsArrows b') = scanResultRows lib (bsRows b) (bsArrows b) + int (length K)"

lemma appendRow_bounded:
  assumes "0 \<le> bsRemaining b"
  shows "bounded_by lib (cut (bsRemaining b) (bsStop b) [rowOffset row]) b (appendRow row b)"
  using assms by (auto simp: bounded_by_def cut_single appendRow_def scanOffsets_def scanResultRows_def)

lemma sliced_range:
  assumes "arrow_ok lib item" "slices_count lib" "0 \<le> n" "n \<le> arrowRows lib item"
  shows "\<exists>sliced. sliceArrowLogBatch lib (saBatch item) 0 n = Inr sliced
    \<and> arrowRange lib \<lparr>saBucket = k, saBatch = sliced\<rparr> = [arrowOffset item .. arrowOffset item + n - 1]
    \<and> arrowRows lib \<lparr>saBucket = k, saBatch = sliced\<rparr> = n"
  using assms
  by (auto simp: arrow_ok_def slices_count_def arrowRows_def sliceArrowLogBatch_def go_slice_def arrowRange_def
      split: option.splits)

lemma appendArrow_bounded:
  assumes "0 \<le> bsRemaining b" "arrow_ok lib item" "slices_count lib"
  shows "\<exists>b'. appendArrow lib bucket (arrowOffset item) item b = Inr b'
    \<and> bounded_by lib (cut (bsRemaining b) (bsStop b) (arrowRange lib item)) b b'"
proof -
  let ?o = "arrowOffset item" let ?n = "arrowRows lib item"
  define allowed where "allowed = min (bsRemaining b) (min (bsStop b - ?o) ?n)"
  have allowed': "(if bsRemaining b < (if bsStop b - ?o < ?n then bsStop b - ?o else ?n) then bsRemaining b
      else (if bsStop b - ?o < ?n then bsStop b - ?o else ?n)) = allowed"
    by (simp add: allowed_def min_def)
  have cut: "cut (bsRemaining b) (bsStop b) (arrowRange lib item) = [?o .. ?o + allowed - 1]"
    unfolding arrowRange_def cut_upto [OF assms(1)] by (rule arg_cong [of _ _ "upto ?o"]) (simp add: allowed_def min_def)
  have len: "int (length [?o .. ?o + allowed - 1]) = max 0 allowed" by simp
  show ?thesis
  proof (cases "allowed \<le> 0")
    case True
    then show ?thesis unfolding appendArrow_def Let_def allowed' cut by (simp add: bounded_by_def)
  next
    case False
    have le: "allowed \<le> ?n" by (simp add: allowed_def)
    obtain kept where kept: "(if allowed = ?n then Inr item
        else andThen (sliceArrowLogBatch lib (saBatch item) 0 allowed) (\<lambda>sliced.
               Inr \<lparr>saBucket = bucket, saBatch = sliced\<rparr>)) = Inr kept"
      "arrowRange lib kept = [?o .. ?o + allowed - 1]" "arrowRows lib kept = allowed"
    proof (cases "allowed = ?n")
      case True
      then show thesis by (intro that [of item]) (simp_all add: arrowRange_def)
    next
      case ne: False
      have "0 \<le> allowed" using False by simp
      then obtain sliced where s: "sliceArrowLogBatch lib (saBatch item) 0 allowed = Inr sliced"
        "arrowRange lib \<lparr>saBucket = bucket, saBatch = sliced\<rparr> = [?o .. ?o + allowed - 1]"
        "arrowRows lib \<lparr>saBucket = bucket, saBatch = sliced\<rparr> = allowed"
        using sliced_range [OF assms(2,3) _ le, of bucket] by blast
      show thesis by (rule that [OF _ s(2,3)]) (simp add: ne s(1))
    qed
    have "last [?o .. ?o + allowed - 1] = ?o + allowed - 1" "[?o .. ?o + allowed - 1] \<noteq> []"
      using False by (simp_all add: last_upto)
    then show ?thesis
      unfolding appendArrow_def Let_def allowed' cut kept(1) using False kept(2,3)
      by (auto simp: bounded_by_def scanOffsets_def scanResultRows_def)
  qed
qed

text \<open>All segments.\<close>

lemma bounded_by_refl: "bounded_by lib [] b b"
  by (simp add: bounded_by_def)

lemma bounded_by_trans: "bounded_by lib K b b1 \<Longrightarrow> bounded_by lib K' b1 b2 \<Longrightarrow> bounded_by lib (K @ K') b b2"
  by (auto simp: bounded_by_def)

lemma appendSegments_bounded:
  assumes "0 \<le> bsRemaining b" "\<forall>seg\<in>set segs. segment_ok rows arrows seg" "\<forall>a\<in>set arrows. arrow_ok lib a"
    and "slices_count lib" "sorted_wrt (<) (concat (map (segmentOffsets lib rows arrows) segs))"
  shows "\<exists>b'. appendSegments lib bucket rows arrows segs b = Inr b'
    \<and> bounded_by lib (cut (bsRemaining b) (bsStop b) (concat (map (segmentOffsets lib rows arrows) segs))) b b'"
  using assms(1,2,5)
proof (induction segs arbitrary: b)
  case Nil
  then show ?case by (simp add: cut_def bounded_by_refl)
next
  case (Cons seg segs)
  let ?E = "concat (map (segmentOffsets lib rows arrows) segs)" let ?F = "segmentOffsets lib rows arrows seg"
  let ?K = "cut (bsRemaining b) (bsStop b) ?F"
  have ok: "segment_ok rows arrows seg" using Cons.prems(2) by simp
  obtain b1 where b1: "(if segRow seg \<ge> 0
              then andThen (go_index rows (segRow seg)) (\<lambda>row. Inr (appendRow row b))
              else andThen (go_index arrows (segArrow seg)) (\<lambda>item.
                appendArrow lib bucket (segOffset seg) item b)) = Inr b1" "bounded_by lib ?K b b1"
  proof (cases "segRow seg \<ge> 0")
    case True
    then show thesis
      using ok that [of "appendRow (rows ! nat (segRow seg)) b"] appendRow_bounded [OF Cons.prems(1)]
      by (simp add: segment_ok_def segmentOffsets_def go_index_ok)
  next
    case False
    let ?a = "arrows ! nat (segArrow seg)"
    have "?a \<in> set arrows" using ok False by (auto simp: segment_ok_def)
    then obtain b1 where "appendArrow lib bucket (arrowOffset ?a) ?a b = Inr b1"
      "bounded_by lib (cut (bsRemaining b) (bsStop b) (arrowRange lib ?a)) b b1"
      using appendArrow_bounded [OF Cons.prems(1) _ assms(4)] assms(3) by blast
    with False ok that [of b1] show thesis by (simp add: segment_ok_def segmentOffsets_def go_index_ok)
  qed
  have rem: "bsRemaining b1 = bsRemaining b - int (length ?K)" "bsStop b1 = bsStop b" "0 \<le> bsRemaining b1"
    using b1(2) cut_length [OF Cons.prems(1), of "bsStop b" ?F] by (auto simp: bounded_by_def)
  obtain b2 where b2: "appendSegments lib bucket rows arrows segs b1 = Inr b2"
    "bounded_by lib (cut (bsRemaining b1) (bsStop b1) ?E) b1 b2"
    using Cons.IH [OF rem(3)] Cons.prems(2,3) by (auto simp: sorted_wrt_append)
  have "cut (bsRemaining b) (bsStop b) (?F @ ?E) = ?K @ cut (bsRemaining b1) (bsStop b1) ?E"
    using cut_append [of ?F ?E "bsRemaining b" "bsStop b"] Cons.prems(1,3) rem by simp
  with b1 b2 bounded_by_trans [OF b1(2) b2(2)] show ?case by simp
qed

lemma applyBounds_cut:
  assumes "scanBounds config delivered bucket = (remaining, stop)" "0 \<le> remaining"
    and "lcRowLimit config \<noteq> 0 \<or> lcStoppingOffsets config \<noteq> None"
    and "sorted_wrt (<) (orderedOffsets lib rows arrows)" "\<forall>a\<in>set arrows. arrow_ok lib a" "slices_count lib"
  shows "\<exists>rows' arrows'. let K = cut remaining stop (orderedOffsets lib rows arrows) in
    applyBounds lib config delivered bucket rows arrows decodedNext = Inr (rows', arrows', int (length K),
      min (if K = [] then decodedNext else last K + 1) stop)
    \<and> scanOffsets lib rows' arrows' = set K \<and> scanResultRows lib rows' arrows' = int (length K)"
proof -
  let ?b = "\<lparr>bsStop = stop, bsRemaining = remaining, bsDelivered = 0, bsNext = decodedNext, bsRows = [],
    bsArrows = []\<rparr>"
  let ?K = "cut remaining stop (orderedOffsets lib rows arrows)"
  obtain b' where b': "appendSegments lib bucket rows arrows (orderedScanSegments rows arrows) ?b = Inr b'"
    "bounded_by lib ?K ?b b'"
    using appendSegments_bounded [of ?b "orderedScanSegments rows arrows" rows arrows lib bucket] assms
      orderedScanSegments_ok [of _ rows arrows] by (auto simp: orderedOffsets_def)
  have "applyBounds lib config delivered bucket rows arrows decodedNext
      = Inr (bsRows b', bsArrows b', int (length ?K), min (if ?K = [] then decodedNext else last ?K + 1) stop)"
    using assms(1,3) b' by (auto simp: applyBounds_def bounded_by_def min_def)
  moreover have "scanOffsets lib (bsRows b') (bsArrows b') = set ?K"
    "scanResultRows lib (bsRows b') (bsArrows b') = int (length ?K)"
    using b'(2) by (simp_all add: bounded_by_def scanOffsets_def scanResultRows_def)
  ultimately show ?thesis by (auto simp: Let_def)
qed

text \<open>C16. The bounds of a scan are exact: of the decoded rows and Arrow rows, in ascending offset order, a poll keeps
  those before the stopping offset and no more than remain of the row limit; it counts exactly the kept ones, and the
  next offset is right behind the last kept one, or the end of the fetched window when none is kept, but never past the
  stopping offset.\<close>

theorem scan_bounds_exact:
  assumes "scanBounds config delivered bucket = (remaining, stop)" "0 \<le> remaining"
    and "lcRowLimit config \<noteq> 0 \<or> lcStoppingOffsets config \<noteq> None"
    and "sorted_wrt (<) (orderedOffsets lib rows arrows)" "\<forall>a\<in>set arrows. arrow_ok lib a" "slices_count lib"
  shows "\<exists>rows' arrows'. let K = cut remaining stop (orderedOffsets lib rows arrows) in
    applyBounds lib config delivered bucket rows arrows decodedNext = Inr (rows', arrows', int (length K),
      min (if K = [] then decodedNext else last K + 1) stop)
    \<and> scanOffsets lib rows' arrows' = set K \<and> scanResultRows lib rows' arrows' = int (length K)"
  using assms by (rule applyBounds_cut)

definition boundRow :: "int \<Rightarrow> scan_record" where
  "boundRow offset = \<lparr>srBucket = 0, srRecord = \<lparr>recKey = [], recValue = [], recChange = Append,
     recTimestamp = zeroTime, recOffset = word_of_int offset\<rparr>\<rparr>"

text \<open>Two of three rows remain of the limit, and the third one is past the stopping offset.\<close>

theorem scan_bounds_exact_witness:
  "\<exists>rows'. applyBounds byteLib (defaultScannerConfig\<lparr>lcRowLimit := 12, lcStoppingOffsets := Some [(0, 7)]\<rparr>
       :: unit scanner_config) 10 0 [boundRow 5, boundRow 6, boundRow 7] [] 8 = Inr (rows', [], 2, 7)
     \<and> rowOffset ` set rows' = {5, 6}"
proof -
  let ?c = "defaultScannerConfig\<lparr>lcRowLimit := 12, lcStoppingOffsets := Some [(0, 7)]\<rparr> :: unit scanner_config"
  let ?rows = "[boundRow 5, boundRow 6, boundRow 7]" let ?arrows = "[] :: bytes scan_arrow list"
  have b: "scanBounds ?c 10 0 = (2, 7)" by (simp add: scanBounds_def defaultScannerConfig_def)
  have s: "orderedScanSegments ?rows ?arrows = [\<lparr>segOffset = 5, segRow = 0, segArrow = -1\<rparr>,
      \<lparr>segOffset = 6, segRow = 1, segArrow = -1\<rparr>, \<lparr>segOffset = 7, segRow = 2, segArrow = -1\<rparr>]"
    by (simp add: orderedScanSegments_def boundRow_def upt_rec)
  have o: "orderedOffsets byteLib ?rows ?arrows = [5, 6, 7]"
    unfolding orderedOffsets_def s by (simp add: segmentOffsets_def boundRow_def)
  have k: "cut 2 7 [5, 6, 7] = [5, 6]" by (simp add: cut_def)
  have sl: "slices_count byteLib" by (auto simp: slices_count_def byteLib_def min_def)
  obtain rows' arrows' where r: "applyBounds byteLib ?c 10 0 ?rows ?arrows 8 = Inr (rows', arrows', 2, 7)"
    "scanOffsets byteLib rows' arrows' = {5, 6}" "scanResultRows byteLib rows' arrows' = 2"
    using scan_bounds_exact [OF b, of byteLib ?rows ?arrows 8] sl by (auto simp: o k Let_def)
  from r(1) have "arrows' = []"
    unfolding applyBounds_def b prod.case s
    by (auto simp: appendRow_def boundRow_def go_index_def defaultScannerConfig_def)
  with r show ?thesis by (auto simp: scanOffsets_def)
qed

end
