(* ===== verification/Log_Scanner.thy ===== *)
theory Log_Scanner
  imports Bounds_Properties Connection_Manager
begin

text \<open>
  The log scanner of \<^verbatim>\<open>pkg/fgo/log_scanner.go\<close>. Its fields that never change are the record \<open>scanner_static\<close>, the
  fields under its mutex are \<open>scanner\<close>. \<^verbatim>\<open>Poll\<close> copies the offsets and goes through the buckets; \<^verbatim>\<open>Subscribe\<close>,
  \<^verbatim>\<open>Unsubscribe\<close>, \<^verbatim>\<open>Wakeup\<close> and \<^verbatim>\<open>Close\<close> interleave with it at the critical sections, which is the step relation at
  the end. The backend's answers (metadata, list offsets, fetch) are arguments.
\<close>

section \<open>State\<close>

text \<open>The parts of the environment that do not change: the Arrow library, the offset of the local zone at an instant,
  and the schema resolver.\<close>

record 'r scan_env =
  seLib :: "'r arrow_lib"
  seLocalOffset :: "int \<Rightarrow> int"
  seResolver :: "table_path \<Rightarrow> int \<Rightarrow> schema result"

record ('p, 'f) scanner_static =
  ssTable :: table
  ssPath :: physical_path
  ssConfig :: "'p scanner_config"
  ssFilter :: "('f \<times> int) option"
  ssTableID :: int
  ssPartitionID :: int
  ssBuckets :: "int list"
  ssSchema :: schema
  ssProjection :: "int list"
  ssCompacted :: bool
  ssDynamic :: bool

text \<open>\<open>lsOffset\<close> is a Go map: an association list with distinct keys.\<close>

record scanner =
  lsOffset :: "(int \<times> int) list"
  lsDelivered :: int
  lsDone :: bool
  lsClosed :: bool
  lsWakePending :: bool

record scanner_fetch =
  sfRecords :: bytes
  sfHighWatermark :: int
  sfFilteredEndOffset :: int
  sfFilteredEndOffsetKnown :: bool

record 'r scan_result =
  rsRecords :: "scan_record list"
  rsArrowBatches :: "'r scan_arrow list"
  rsBucketErrors :: "(int \<times> go_error) list"
  rsHighWatermark :: "(int \<times> int) list"
  rsDone :: bool

definition emptyResult :: "'r scan_result" where
  "emptyResult = \<lparr>rsRecords = [], rsArrowBatches = [], rsBucketErrors = [], rsHighWatermark = [], rsDone = False\<rparr>"

section \<open>Completion\<close>

definition updateDoneLocked :: "('p, 'f) scanner_static \<Rightarrow> scanner \<Rightarrow> scanner" where
  "updateDoneLocked st s =
     s\<lparr>lsDone :=
         (if lcRowLimit (ssConfig st) > 0 \<and> lsDelivered s \<ge> lcRowLimit (ssConfig st) then True
          else case lcStoppingOffsets (ssConfig st) of
            None \<Rightarrow> False
          | Some stops \<Rightarrow> lsOffset s \<noteq> []
              \<and> list_all (\<lambda>(bucket, offset). case map_of stops bucket of None \<Rightarrow> False | Some stop \<Rightarrow> stop \<le> offset)
                  (lsOffset s))\<rparr>"

definition LogScanner_hasBucket :: "('p, 'f) scanner_static \<Rightarrow> int \<Rightarrow> bool" where
  "LogScanner_hasBucket st bucket \<longleftrightarrow> bucket \<in> set (ssBuckets st)"

definition validateStoppingOffsets :: "('p, 'f) scanner_static \<Rightarrow> unit result" where
  "validateStoppingOffsets st =
     (case lcStoppingOffsets (ssConfig st) of None \<Rightarrow> Inr ()
      | Some stops \<Rightarrow>
          guardE (\<exists>bucket\<in>set (ssBuckets st). map_of stops bucket = None) ErrInvalidConfig
            (guardE (\<exists>(bucket, stop)\<in>set stops. \<not> LogScanner_hasBucket st bucket) ErrInvalidConfig (Inr ())))"

section \<open>Construction\<close>

text \<open>What the backend answers while a scanner is constructed; the last one is the answer to a list-offsets request
  for a bucket. \<open>saResolver\<close> says whether the backend provides a schema resolver.\<close>

record scanner_answers =
  saMetadata :: "(int \<times> int list) result"
  saResolver :: bool
  saListOffset :: "int \<Rightarrow> scan_offset \<Rightarrow> int result"

definition validateFilterLogFormat :: "table \<Rightarrow> unit result" where
  "validateFilterLogFormat t =
     (let format = TrimSpace (case map_of (tblProperties t) ''table.log.format'' of None \<Rightarrow> [] | Some v \<Rightarrow> v)
      in if format = [] \<or> equalFold format LogFormatArrow then Inr () else Inl ErrInvalidConfig)"

definition scannerFilter :: "('p \<Rightarrow> schema \<Rightarrow> 'f result) \<Rightarrow> table \<Rightarrow> 'p scanner_config \<Rightarrow> ('f \<times> int) option result" where
  "scannerFilter compilePredicate t config =
     (case lcFilter config of None \<Rightarrow> Inr None
      | Some p \<Rightarrow> andThen (validateFilterLogFormat t) (\<lambda>_.
          andThen (compilePredicate p (tblSchema t)) (\<lambda>f. Inr (Some (f, tblSchemaID t)))))"

definition positions :: "schema \<Rightarrow> string \<rightharpoonup> nat" where
  "positions s = indexBy colName (Columns s)"

definition configureProjection :: "('p, 'f) scanner_static \<Rightarrow> ('p, 'f) scanner_static result" where
  "configureProjection st =
     (if lcProjection (ssConfig st) = [] then Inr st
      else guardE (\<not> ssCompacted st) ErrInvalidConfig
        (andThen (projectSchema (tblSchema (ssTable st)) (lcProjection (ssConfig st))) (\<lambda>projected.
          Inr (st\<lparr>ssSchema := projected, ssProjection := map (\<lambda>name. case positions (tblSchema (ssTable st)) name of
            None \<Rightarrow> 0 | Some i \<Rightarrow> int i) (lcProjection (ssConfig st))\<rparr>))))"

definition resolveOffset :: "scanner_answers \<Rightarrow> int \<Rightarrow> scan_offset \<Rightarrow> int result" where
  "resolveOffset answers bucket start =
     (if soKind start = ScanFromOffset then Inr (soOffset start) else saListOffset answers bucket start)"

fun initializeOffsets :: "scanner_answers \<Rightarrow> scan_offset \<Rightarrow> int list \<Rightarrow> (int \<times> int) list result" where
  "initializeOffsets answers start [] = Inr []"
| "initializeOffsets answers start (bucket # buckets) =
     andThen (resolveOffset answers bucket start) (\<lambda>offset.
     andThen (initializeOffsets answers start buckets) (\<lambda>rest. Inr ((bucket, offset) # rest)))"

definition newLogScanner :: "('p \<Rightarrow> schema \<Rightarrow> 'f result) \<Rightarrow> scanner_answers \<Rightarrow> table \<Rightarrow> scan_offset
    \<Rightarrow> 'p scanner_option option list \<Rightarrow> (('p, 'f) scanner_static \<times> scanner) result" where
  "newLogScanner compilePredicate answers t start options =
     andThen (Schema_Validate (tblSchema t)) (\<lambda>_.
     andThen (ScanOffset_Validate start) (\<lambda>_.
     andThen (scannerConfig options) (\<lambda>config.
     andThen (scannerFilter compilePredicate t config) (\<lambda>filt.
     let path = \<lparr>ppTable = tblPath t, Partition = lcPartition config\<rparr> in
     andThen (saMetadata answers) (\<lambda>(physicalID, locations).
     guardE (Partition path = [] \<and> physicalID \<noteq> tblID t) ErrMetadata (
     andThen (sortedBuckets locations) (\<lambda>buckets.
     let compacted = \<not> equalFold (TrimSpace (case map_of (tblProperties t) ''table.log.format'' of
           None \<Rightarrow> [] | Some v \<Rightarrow> v)) LogFormatIndexed;
         st = \<lparr>ssTable = t, ssPath = path, ssConfig = config, ssFilter = filt, ssTableID = tblID t,
           ssPartitionID = (if Partition path \<noteq> [] then physicalID else -1), ssBuckets = buckets,
           ssSchema = tblSchema t, ssProjection = [], ssCompacted = compacted, ssDynamic = saResolver answers\<rparr> in
     andThen (configureProjection st) (\<lambda>st.
     andThen (initializeOffsets answers start buckets) (\<lambda>offsets.
     andThen (validateStoppingOffsets st) (\<lambda>_.
       Inr (st, updateDoneLocked st \<lparr>lsOffset = offsets, lsDelivered = 0, lsDone = False, lsClosed = False,
         lsWakePending = False\<rparr>)))))))))))"

section \<open>Subscriptions, wakeup and close\<close>

text \<open>\<^verbatim>\<open>Subscribe\<close> first resolves the start without the lock (\<open>resolved\<close>) and then sets the offset.\<close>

definition Subscribe :: "('p, 'f) scanner_static \<Rightarrow> int \<Rightarrow> scan_offset \<Rightarrow> int result \<Rightarrow> scanner \<Rightarrow> unit result \<times> scanner" where
  "Subscribe st bucket start resolved s =
     (if \<not> LogScanner_hasBucket st bucket then (Inl ErrUnknownBucket, s)
      else case ScanOffset_Validate start of Inl e \<Rightarrow> (Inl e, s)
      | Inr _ \<Rightarrow>
          (case resolved of Inl e \<Rightarrow> (Inl e, s)
           | Inr offset \<Rightarrow>
               if lsClosed s then (Inl ErrClosed, s)
               else (Inr (), updateDoneLocked st (s\<lparr>lsOffset := AList.update bucket offset (lsOffset s)\<rparr>))))"

definition Unsubscribe :: "('p, 'f) scanner_static \<Rightarrow> int \<Rightarrow> scanner \<Rightarrow> scanner" where
  "Unsubscribe st bucket s = updateDoneLocked st (s\<lparr>lsOffset := AList.delete bucket (lsOffset s)\<rparr>)"

definition Wakeup :: "scanner \<Rightarrow> scanner" where
  "Wakeup s = (if \<not> lsClosed s \<and> \<not> lsDone s then s\<lparr>lsWakePending := True\<rparr> else s)"

definition closeScanner :: "scanner \<Rightarrow> scanner" where
  "closeScanner s = s\<lparr>lsClosed := True, lsOffset := []\<rparr>"

section \<open>Polling\<close>

datatype poll_start = PollError go_error | PollDone | PollOffsets "(int \<times> int) list"

definition beginPoll :: "scanner \<Rightarrow> poll_start \<times> scanner" where
  "beginPoll s =
     (if lsClosed s then (PollError ErrClosed, s)
      else if lsDone s then (PollDone, s)
      else if lsWakePending s then (PollError ErrWakeup, s\<lparr>lsWakePending := False\<rparr>)
      else (PollOffsets (lsOffset s), s))"

definition advanceOffset :: "('p, 'f) scanner_static \<Rightarrow> int \<Rightarrow> int \<Rightarrow> int \<Rightarrow> int \<Rightarrow> scanner \<Rightarrow> scanner" where
  "advanceOffset st bucket previous nxt delivered s =
     updateDoneLocked st (s\<lparr>
       lsOffset := (if map_of (lsOffset s) bucket = Some previous then AList.update bucket nxt (lsOffset s) else lsOffset s),
       lsDelivered := lsDelivered s + delivered\<rparr>)"

text \<open>\<^verbatim>\<open>recordFetchError\<close>: \<open>ctxErr\<close> is the error of the caller's context, if it has one.\<close>

definition recordFetchError :: "go_error option \<Rightarrow> int \<Rightarrow> go_error \<Rightarrow> 'r scan_result \<Rightarrow> scanner
    \<Rightarrow> 'r scan_result result \<times> scanner" where
  "recordFetchError ctxErr bucket fetchErr result s =
     (case ctxErr of Some e \<Rightarrow> (Inl e, s)
      | None \<Rightarrow>
          (let closed = lsClosed s; woken = lsWakePending s; s = (if woken then s\<lparr>lsWakePending := False\<rparr> else s)
           in if closed then (Inl ErrClosed, s)
              else if woken then (Inl ErrWakeup, s)
              else (Inr (result\<lparr>rsBucketErrors := rsBucketErrors result @ [(bucket, fetchErr)]\<rparr>), s)))"

text \<open>\<^verbatim>\<open>pollBucket\<close> after its fetch: decoding, the filtered end offset, projection, bounds and the new offset. Every
  early return of the code is a branch; the metrics are left out.\<close>

definition projectedTable :: "('p, 'f) scanner_static \<Rightarrow> table" where
  "projectedTable st = (if \<not> ssDynamic st \<and> ssProjection st \<noteq> [] then (ssTable st)\<lparr>tblSchema := ssSchema st\<rparr> else ssTable st)"

definition scanResolver :: "'r scan_env \<Rightarrow> ('p, 'f) scanner_static \<Rightarrow> table_path \<Rightarrow> int \<Rightarrow> schema result" where
  "scanResolver env st =
     (if \<not> ssDynamic st \<and> ssProjection st \<noteq> []
      then fixedSchemaResolver (tblPath (ssTable st)) (tblSchemaID (ssTable st)) (ssSchema st) else seResolver env)"

definition decodeFetch :: "'r scan_env \<Rightarrow> ('p, 'f) scanner_static \<Rightarrow> int \<Rightarrow> int \<Rightarrow> scanner_fetch
    \<Rightarrow> (int \<times> scan_record list \<times> 'r scan_arrow list) result" where
  "decodeFetch env st bucket offset fetched =
     decodeFetchedFetchResponse (seLib env) (seLocalOffset env) (scanResolver env st) (projectedTable st) bucket offset
       (sfRecords fetched) (ssCompacted st)"

definition filteredEnd :: "int \<Rightarrow> int \<Rightarrow> scanner_fetch \<Rightarrow> int result" where
  "filteredEnd offset nxt fetched =
     (if \<not> sfFilteredEndOffsetKnown fetched then Inr nxt
      else guardE (sfFilteredEndOffset fetched < offset) ErrValidation
        (Inr (if sfFilteredEndOffset fetched > nxt then sfFilteredEndOffset fetched else nxt)))"

definition projectScan :: "'r scan_env \<Rightarrow> ('p, 'f) scanner_static \<Rightarrow> scan_record list \<Rightarrow> 'r scan_arrow list
    \<Rightarrow> (scan_record list \<times> 'r scan_arrow list) result" where
  "projectScan env st rows arrows =
     (if \<not> ssDynamic st then Inr (rows, arrows)
      else andThen (projectScanRows (ssProjection st) rows) (\<lambda>rows.
        andThen (projectScanArrows (seLib env) (ssSchema st) (ssProjection st) arrows) (\<lambda>arrows. Inr (rows, arrows))))"

definition pollBucket :: "'r scan_env \<Rightarrow> ('p, 'f) scanner_static \<Rightarrow> go_error option \<Rightarrow> int \<Rightarrow> int \<Rightarrow> scanner_fetch result
    \<Rightarrow> 'r scan_result \<Rightarrow> scanner \<Rightarrow> 'r scan_result result \<times> scanner" where
  "pollBucket env st ctxErr bucket offset answer result s =
     (case answer of
        Inl e \<Rightarrow> recordFetchError ctxErr bucket e result s
      | Inr fetched \<Rightarrow>
          (case andThen (decodeFetch env st bucket offset fetched) (\<lambda>(nxt, rows, arrows).
                andThen (filteredEnd offset nxt fetched) (\<lambda>nxt. Inr (nxt, rows, arrows))) of
             Inl e \<Rightarrow> (if is_panic (Inl e :: unit result) then Inl e
                else Inr (result\<lparr>rsBucketErrors := rsBucketErrors result @ [(bucket, e)]\<rparr>), s)
           | Inr (nxt, rows, arrows) \<Rightarrow>
               (case andThen (projectScan env st rows arrows) (\<lambda>(rows, arrows).
                     applyBounds (seLib env) (ssConfig st) (lsDelivered s) bucket rows arrows nxt) of
                  Inl e \<Rightarrow> (Inl e, s)
                | Inr (rows, arrows, delivered, boundedNext) \<Rightarrow>
                    (Inr (result\<lparr>rsRecords := rsRecords result @ rows, rsArrowBatches := rsArrowBatches result @ arrows,
                       rsHighWatermark := AList.update bucket (sfHighWatermark fetched) (rsHighWatermark result)\<rparr>),
                     advanceOffset st bucket offset boundedNext delivered s))))"

text \<open>The test that skips a bucket in the loop of \<^verbatim>\<open>Poll\<close>.\<close>

definition skipBucket :: "('p, 'f) scanner_static \<Rightarrow> int \<Rightarrow> int \<Rightarrow> bool" where
  "skipBucket st bucket offset =
     (case lcStoppingOffsets (ssConfig st) of None \<Rightarrow> False
      | Some stops \<Rightarrow> (case map_of stops bucket of None \<Rightarrow> False | Some stop \<Rightarrow> stop \<le> offset))"

end
