(* ===== verification/Scanner_Steps.thy ===== *)
theory Scanner_Steps
  imports Log_Scanner
begin

text \<open>
  The interleavings of a log scanner. One goroutine polls at a time; the others subscribe, unsubscribe, wake it up or
  close it. Ghost fields record the window of the log that was taken for the current subscription of a bucket, the
  results that were returned to callers, and the offsets of rows that a poll had taken when it ended in an error.
\<close>

section \<open>Steps\<close>

datatype 'r poll_phase =
    NoPoll
  | AtBucket "(int \<times> int) list" "int list" "'r scan_result"
  | AfterBucket "(int \<times> int) list" "int list" "'r scan_result"

record 'r scan_state =
  ckScanner :: scanner
  ckPoll :: "'r poll_phase"
  ckStart :: "int \<Rightarrow> int"
  ckTaken :: "int \<Rightarrow> int set"
  ckReturned :: "'r scan_result list"
  ckLost :: "int \<Rightarrow> int set"
  ckLostRows :: int

definition resultRows :: "'r arrow_lib \<Rightarrow> 'r scan_result \<Rightarrow> int" where
  "resultRows lib r = scanResultRows lib (rsRecords r) (rsArrowBatches r)"

text \<open>The offsets of the rows of a bucket in a result.\<close>

definition resultOffsets :: "'r arrow_lib \<Rightarrow> int \<Rightarrow> 'r scan_result \<Rightarrow> int set" where
  "resultOffsets lib b r = scanOffsets lib (filter (\<lambda>x. srBucket x = b) (rsRecords r))
     (filter (\<lambda>x. saBucket x = b) (rsArrowBatches r))"

definition phaseOffsets :: "'r arrow_lib \<Rightarrow> int \<Rightarrow> 'r poll_phase \<Rightarrow> int set" where
  "phaseOffsets lib b p = (case p of NoPoll \<Rightarrow> {} | AtBucket _ _ r \<Rightarrow> resultOffsets lib b r
     | AfterBucket _ _ r \<Rightarrow> resultOffsets lib b r)"

definition phaseRows :: "'r arrow_lib \<Rightarrow> 'r poll_phase \<Rightarrow> int" where
  "phaseRows lib p = (case p of NoPoll \<Rightarrow> 0 | AtBucket _ _ r \<Rightarrow> resultRows lib r | AfterBucket _ _ r \<Rightarrow> resultRows lib r)"

text \<open>The answers of a backend that serves a log: what is decoded of a fetch at an offset is the part of the log from
  there up to the end of the fetched (or filtered) window, in ascending order.\<close>

definition serves :: "'r scan_env \<Rightarrow> ('p, 'f) scanner_static \<Rightarrow> (int \<Rightarrow> int set) \<Rightarrow> int \<Rightarrow> int \<Rightarrow> scanner_fetch result \<Rightarrow> bool" where
  "serves env st blog b offset answer \<longleftrightarrow>
     (\<forall>fetched nxt rows arrows nxt'. answer = Inr fetched \<longrightarrow> decodeFetch env st b offset fetched = Inr (nxt, rows, arrows)
        \<longrightarrow> filteredEnd offset nxt fetched = Inr nxt' \<longrightarrow>
        offset \<le> nxt' \<and> nxt' \<le> maxInt64 \<and> scanOffsets (seLib env) rows arrows = {x \<in> blog b. offset \<le> x \<and> x < nxt'}
        \<and> sorted_wrt (<) (orderedOffsets (seLib env) rows arrows) \<and> (\<forall>a\<in>set arrows. arrow_ok (seLib env) a))"

definition newOffsets :: "'r arrow_lib \<Rightarrow> 'r scan_result \<Rightarrow> 'r scan_result \<Rightarrow> int set" where
  "newOffsets lib r r' = scanOffsets lib (drop (length (rsRecords r)) (rsRecords r'))
     (drop (length (rsArrowBatches r)) (rsArrowBatches r'))"

inductive scan_step :: "'r scan_env \<Rightarrow> ('p, 'f) scanner_static \<Rightarrow> (int \<Rightarrow> int set) \<Rightarrow> 'r scan_state \<Rightarrow> 'r scan_state \<Rightarrow> bool"
  for env st blog where
  subscribe: "Subscribe st b start (Inr offset) (ckScanner c) = (Inr (), s') \<Longrightarrow> offset \<le> maxInt64 \<Longrightarrow>
    scan_step env st blog c (c\<lparr>ckScanner := s', ckStart := (ckStart c)(b := offset), ckTaken := (ckTaken c)(b := {})\<rparr>)"
| unsubscribe: "scan_step env st blog c (c\<lparr>ckScanner := Unsubscribe st b (ckScanner c)\<rparr>)"
| wakeup: "scan_step env st blog c (c\<lparr>ckScanner := Wakeup (ckScanner c)\<rparr>)"
| close: "scan_step env st blog c (c\<lparr>ckScanner := closeScanner (ckScanner c)\<rparr>)"
| poll_none: "ckPoll c = NoPoll \<Longrightarrow> beginPoll (ckScanner c) = (p, s') \<Longrightarrow> (\<forall>os. p = PollOffsets os \<longrightarrow> os = []) \<Longrightarrow>
    scan_step env st blog c (c\<lparr>ckScanner := s'\<rparr>)"
| poll_begin: "ckPoll c = NoPoll \<Longrightarrow> beginPoll (ckScanner c) = (PollOffsets offsets, s') \<Longrightarrow> offsets \<noteq> [] \<Longrightarrow>
    scan_step env st blog c (c\<lparr>ckScanner := s', ckPoll := AtBucket offsets (ssBuckets st) emptyResult\<rparr>)"
| poll_skip: "ckPoll c = AtBucket offsets (b # todo) r \<Longrightarrow>
    (case map_of offsets b of None \<Rightarrow> True | Some offset \<Rightarrow> skipBucket st b offset) \<Longrightarrow>
    scan_step env st blog c (c\<lparr>ckPoll := AtBucket offsets todo r\<rparr>)"
| poll_bucket: "ckPoll c = AtBucket offsets (b # todo) r \<Longrightarrow> map_of offsets b = Some offset \<Longrightarrow>
    \<not> skipBucket st b offset \<Longrightarrow> serves env st blog b offset answer \<Longrightarrow>
    pollBucket env st ctxErr b offset answer r (ckScanner c) = (Inr r', s') \<Longrightarrow>
    scan_step env st blog c (c\<lparr>ckScanner := s', ckPoll := AfterBucket offsets todo r',
      ckTaken := (if map_of (lsOffset (ckScanner c)) b = Some offset
        then (ckTaken c)(b := ckTaken c b \<union> newOffsets (seLib env) r r') else ckTaken c)\<rparr>)"
| poll_fail: "ckPoll c = AtBucket offsets (b # todo) r \<Longrightarrow> map_of offsets b = Some offset \<Longrightarrow>
    \<not> skipBucket st b offset \<Longrightarrow> pollBucket env st ctxErr b offset answer r (ckScanner c) = (Inl e, s') \<Longrightarrow>
    scan_step env st blog c (c\<lparr>ckScanner := s', ckPoll := NoPoll,
      ckLost := (\<lambda>b. ckLost c b \<union> resultOffsets (seLib env) b r), ckLostRows := ckLostRows c + resultRows (seLib env) r\<rparr>)"
| poll_continue: "ckPoll c = AfterBucket offsets todo r \<Longrightarrow> \<not> lsDone (ckScanner c) \<Longrightarrow>
    scan_step env st blog c (c\<lparr>ckPoll := AtBucket offsets todo r\<rparr>)"
| poll_stop: "ckPoll c = AfterBucket offsets todo r \<Longrightarrow> lsDone (ckScanner c) \<Longrightarrow>
    scan_step env st blog c (c\<lparr>ckPoll := NoPoll, ckReturned := ckReturned c @ [r\<lparr>rsDone := True\<rparr>]\<rparr>)"
| poll_end: "ckPoll c = AtBucket offsets [] r \<Longrightarrow>
    scan_step env st blog c (c\<lparr>ckPoll := NoPoll, ckReturned := ckReturned c @ [r\<lparr>rsDone := lsDone (ckScanner c)\<rparr>]\<rparr>)"

definition initialScan :: "scanner \<Rightarrow> 'r scan_state" where
  "initialScan s = \<lparr>ckScanner = s, ckPoll = NoPoll, ckStart = (\<lambda>b. case map_of (lsOffset s) b of None \<Rightarrow> 0 | Some x \<Rightarrow> x),
     ckTaken = (\<lambda>_. {}), ckReturned = [], ckLost = (\<lambda>_. {}), ckLostRows = 0\<rparr>"

inductive scan_reach :: "'r scan_env \<Rightarrow> ('p, 'f) scanner_static \<Rightarrow> (int \<Rightarrow> int set) \<Rightarrow> scanner \<Rightarrow> 'r scan_state \<Rightarrow> bool"
  for env st blog s0 where
  start: "scan_reach env st blog s0 (initialScan s0)"
| step: "scan_reach env st blog s0 c \<Longrightarrow> scan_step env st blog c c' \<Longrightarrow> scan_reach env st blog s0 c'"

inductive_cases scan_stepE: "scan_step env st blog c c'"

section \<open>Rows keep their bucket and their offsets\<close>

text \<open>What the Arrow library promises: a slice and a rebuilt record have the expected number of rows.\<close>

definition arrow_laws :: "'r arrow_lib \<Rightarrow> bool" where
  "arrow_laws lib \<longleftrightarrow> slices_count lib \<and> (\<forall>r sch cols. alNumRows lib (alRebuild lib r sch cols) = alNumRows lib r)"

definition in_bucket :: "int \<Rightarrow> scan_record list \<Rightarrow> 'r scan_arrow list \<Rightarrow> bool" where
  "in_bucket b rows arrows \<longleftrightarrow> (\<forall>r\<in>set rows. srBucket r = b) \<and> (\<forall>a\<in>set arrows. saBucket a = b)"

lemma evolveScanRecords_bucket:
  "evolveScanRecords source target rows = Inr rows' \<Longrightarrow> \<forall>r\<in>set rows. srBucket r = b \<Longrightarrow> \<forall>r\<in>set rows'. srBucket r = b"
  by (induction rows arbitrary: rows') auto

lemma decodeFetchedBatch_bucket:
  assumes "decodeFetchedBatch lib lo s b current payload compacted = Inr (nxt, rows, ab)"
  shows "(\<forall>r\<in>set rows. srBucket r = b) \<and> (\<forall>a. ab = Some a \<longrightarrow> saBucket a = b)"
proof (cases "DecodeLogBatchRows lo s payload compacted")
  case (Inr batch)
  with assms show ?thesis by (auto simp: decodeFetchedBatch_def)
next
  case (Inl e)
  with assms obtain sch where sch: "ArrowSchema s = Inr sch" "\<not> is_panic (Inl e :: unit result)"
    by (cases "ArrowSchema s") (auto simp: decodeFetchedBatch_def split: if_splits)
  with assms Inl obtain a where a: "DecodeArrowLogBatch lib (Some sch) payload = Inr a"
    by (cases "DecodeArrowLogBatch lib (Some sch) payload") (auto simp: decodeFetchedBatch_def split: if_splits)
  with assms Inl sch obtain r where r: "abRecord a = Some r"
    by (cases "abRecord a") (auto simp: decodeFetchedBatch_def split: if_splits)
  from assms show ?thesis
    by (auto simp: decodeFetchedBatch_def Inl sch a r Let_def split: if_splits)
qed

lemma decodeEvolved_bucket:
  assumes "decodeEvolvedFetchedBatch lib lo resolver t b current payload compacted = Inr (nxt, rows, ab)"
  shows "(\<forall>r\<in>set rows. srBucket r = b) \<and> (\<forall>a. ab = Some a \<longrightarrow> saBucket a = b)"
  using assms
  by (auto simp: decodeEvolvedFetchedBatch_def split: option.splits
      dest!: decodeFetchedBatch_bucket evolveScanRecords_bucket)

lemma decodeFetchedLogBatches_bucket:
  "decodeFetchedLogBatches lib lo resolver t b compacted allow nxt rows arrows encoded = Inr (nxt', rows', arrows') \<Longrightarrow>
   in_bucket b rows arrows \<Longrightarrow> in_bucket b rows' arrows'"
proof (induction lib lo resolver t b compacted allow nxt rows arrows encoded rule: decodeFetchedLogBatches.induct)
  case (1 lib lo resolver t b compacted allow nxt rows arrows encoded)
  show ?case
  proof (cases "encoded = [] \<or> (\<exists>n. completeFetchedBatchSize encoded = Inr (n, False))")
    case True
    with 1(2,3) show ?thesis by (auto simp: decodeFetchedLogBatches.simps split: if_splits)
  next
    case False
    with 1(2) obtain n batchNext batchRows ab where n: "completeFetchedBatchSize encoded = Inr (n, True)" "encoded \<noteq> []"
      and d: "decodeEvolvedFetchedBatch lib lo resolver t b nxt (take (nat n) encoded) compacted = Inr (batchNext, batchRows, ab)"
      and rest: "decodeFetchedLogBatches lib lo resolver t b compacted allow batchNext (rows @ batchRows)
        (arrows @ (case ab of None \<Rightarrow> [] | Some ab \<Rightarrow> [ab])) (drop (nat n) encoded) = Inr (nxt', rows', arrows')"
      by (auto simp: decodeFetchedLogBatches.simps [of lib lo resolver t b compacted allow nxt rows arrows encoded]
          split: sum.splits bool.splits prod.splits)
    have "in_bucket b (rows @ batchRows) (arrows @ (case ab of None \<Rightarrow> [] | Some ab \<Rightarrow> [ab]))"
      using decodeEvolved_bucket [OF d] 1(3) by (auto simp: in_bucket_def split: option.splits)
    from 1(1) [OF n(2,1) refl refl d refl refl rest this] show ?thesis .
  qed
qed

lemma decodeFetch_bucket: "decodeFetch env st b offset fetched = Inr (nxt, rows, arrows) \<Longrightarrow> in_bucket b rows arrows"
  unfolding decodeFetch_def decodeFetchedFetchResponse_def
  by (erule decodeFetchedLogBatches_bucket) (simp add: in_bucket_def)

text \<open>What the bounds look at: bucket and offset of a row; bucket, offset, number of rows of a batch.\<close>

definition rowView :: "scan_record list \<Rightarrow> (int \<times> int) list" where
  "rowView rows = map (\<lambda>r. (srBucket r, rowOffset r)) rows"

definition arrowView :: "'r arrow_lib \<Rightarrow> 'r scan_arrow list \<Rightarrow> (int \<times> int \<times> int \<times> bool) list" where
  "arrowView lib arrows = map (\<lambda>a. (saBucket a, arrowOffset a, arrowRows lib a, arrow_ok lib a)) arrows"

lemma projectScanRows_view: "projectScanRows projection rows = Inr rows' \<Longrightarrow> rowView rows' = rowView rows"
  by (induction rows arbitrary: rows') (auto simp: rowView_def split: if_splits)

lemma projectArrows_view:
  assumes "arrow_laws lib"
  shows "projectArrows lib sch projection arrows = Inr arrows' \<Longrightarrow> arrowView lib arrows' = arrowView lib arrows"
proof (induction arrows arbitrary: arrows')
  case (Cons a arrows)
  then obtain r where r: "abRecord (saBatch a) = Some r" by (cases "abRecord (saBatch a)") auto
  with Cons assms show ?case
    by (auto simp: arrowView_def arrowRows_def arrow_ok_def arrow_laws_def)
qed (simp add: arrowView_def)

lemma projectScan_view:
  assumes "projectScan env st rows arrows = Inr (rows', arrows')" "arrow_laws (seLib env)"
  shows "rowView rows' = rowView rows" "arrowView (seLib env) arrows' = arrowView (seLib env) arrows"
  using assms projectScanRows_view [of "ssProjection st" rows rows']
    projectArrows_view [OF assms(2), of _ "ssProjection st" arrows arrows']
  by (auto simp: projectScan_def projectScanArrows_def split: if_splits)

lemma rowView_nth: "rowView rows = rowView rows' \<Longrightarrow> length rows = length rows' \<and>
    (\<forall>i<length rows. srBucket (rows ! i) = srBucket (rows' ! i) \<and> rowOffset (rows ! i) = rowOffset (rows' ! i))"
  by (auto simp: rowView_def list_eq_iff_nth_eq)

lemma arrowView_nth: "arrowView lib arrows = arrowView lib arrows' \<Longrightarrow> length arrows = length arrows' \<and>
    (\<forall>i<length arrows. saBucket (arrows ! i) = saBucket (arrows' ! i) \<and> arrowOffset (arrows ! i) = arrowOffset (arrows' ! i)
       \<and> arrowRows lib (arrows ! i) = arrowRows lib (arrows' ! i) \<and> arrow_ok lib (arrows ! i) = arrow_ok lib (arrows' ! i))"
  by (auto simp: arrowView_def list_eq_iff_nth_eq)

lemma orderedOffsets_view:
  assumes "rowView rows = rowView rows'" "arrowView lib arrows = arrowView lib arrows'"
  shows "orderedOffsets lib rows arrows = orderedOffsets lib rows' arrows'"
proof -
  note r = rowView_nth [OF assms(1)] and a = arrowView_nth [OF assms(2)]
  have seg: "orderedScanSegments rows arrows = orderedScanSegments rows' arrows'"
    using r a unfolding orderedScanSegments_def by (intro arg_cong [of _ _ "sort_key segOffset"]) auto
  have "segmentOffsets lib rows arrows x = segmentOffsets lib rows' arrows' x"
    if "segment_ok rows arrows x" for x
    using that r a by (auto simp: segment_ok_def segmentOffsets_def arrowRange_def)
  then show ?thesis
    using orderedScanSegments_ok [of _ rows arrows] unfolding orderedOffsets_def seg [symmetric]
    by (intro arg_cong [of _ _ concat] map_cong) auto
qed

lemma set_nth_image: "set xs = (\<lambda>i. xs ! i) ` {..<length xs}"
  by (auto simp: set_conv_nth)

lemma scanOffsets_ordered: "scanOffsets lib rows arrows = set (orderedOffsets lib rows arrows)"
proof -
  let ?A = "\<lambda>i. \<lparr>segOffset = rowOffset (rows ! i), segRow = int i, segArrow = -1\<rparr>"
  let ?B = "\<lambda>i. \<lparr>segOffset = arrowOffset (arrows ! i), segRow = -1, segArrow = int i\<rparr>"
  have "set (orderedOffsets lib rows arrows)
      = (\<Union>x\<in>?A ` {..<length rows} \<union> ?B ` {..<length arrows}. set (segmentOffsets lib rows arrows x))"
    unfolding orderedOffsets_def orderedScanSegments_def set_concat set_map set_sort set_append set_upt
      atLeast0LessThan by (simp add: image_Un image_image)
  also have "\<dots> = (\<Union>i<length rows. {rowOffset (rows ! i)}) \<union> (\<Union>i<length arrows. set (arrowRange lib (arrows ! i)))"
    by (simp add: UN_Un segmentOffsets_def)
  also have "\<dots> = scanOffsets lib rows arrows"
    unfolding scanOffsets_def set_nth_image [of rows] set_nth_image [of arrows] by auto
  finally show ?thesis by simp
qed

lemma in_bucket_view:
  assumes "rowView rows = rowView rows'" "arrowView lib arrows = arrowView lib arrows'" "in_bucket b rows arrows"
  shows "in_bucket b rows' arrows'"
  using rowView_nth [OF assms(1)] arrowView_nth [OF assms(2)] assms(3)
  unfolding in_bucket_def by (metis in_set_conv_nth)

lemma arrow_ok_view:
  assumes "arrowView lib arrows = arrowView lib arrows'" "\<forall>a\<in>set arrows. arrow_ok lib a"
  shows "\<forall>a\<in>set arrows'. arrow_ok lib a"
  using arrowView_nth [OF assms(1)] assms(2) by (metis in_set_conv_nth)


text \<open>Slices of a batch stay in the bucket.\<close>

lemma go_index_in_set: "go_index xs i = Inr x \<Longrightarrow> x \<in> set xs"
  by (auto simp: go_index_def split: if_splits)

lemma appendSegments_bucket:
  "appendSegments lib bucket rows arrows segs b = Inr b' \<Longrightarrow> in_bucket bucket rows arrows \<Longrightarrow>
   in_bucket bucket (bsRows b) (bsArrows b) \<Longrightarrow> in_bucket bucket (bsRows b') (bsArrows b')"
proof (induction segs arbitrary: b)
  case (Cons seg segs)
  from Cons.prems(1) obtain b1 where b1: "(if segRow seg \<ge> 0
              then andThen (go_index rows (segRow seg)) (\<lambda>row. Inr (appendRow row b))
              else andThen (go_index arrows (segArrow seg)) (\<lambda>item.
                appendArrow lib bucket (segOffset seg) item b)) = Inr b1"
    and rest: "appendSegments lib bucket rows arrows segs b1 = Inr b'" by auto
  have "in_bucket bucket (bsRows b1) (bsArrows b1)"
  proof (cases "segRow seg \<ge> 0")
    case True
    with b1 obtain row where "row \<in> set rows" "b1 = appendRow row b" by (auto dest: go_index_in_set)
    with Cons.prems(2,3) show ?thesis by (auto simp: in_bucket_def appendRow_def)
  next
    case False
    with b1 obtain item where "item \<in> set arrows" "appendArrow lib bucket (segOffset seg) item b = Inr b1"
      by (auto dest: go_index_in_set)
    with Cons.prems(2,3) show ?thesis by (auto simp: in_bucket_def appendArrow_def Let_def split: if_splits)
  qed
  from Cons.IH [OF rest Cons.prems(2) this] show ?case .
qed simp

lemma applyBounds_bucket:
  assumes "applyBounds lib config delivered b rows arrows nxt = Inr (rows', arrows', n, nxt')" "in_bucket b rows arrows"
  shows "in_bucket b rows' arrows'"
proof (cases "lcRowLimit config = 0 \<and> lcStoppingOffsets config = None")
  case True
  with assms show ?thesis by (simp add: applyBounds_def)
next
  case False
  obtain remaining stop where "scanBounds config delivered b = (remaining, stop)" by fastforce
  with False assms(1) obtain b' where "rows' = bsRows b'" "arrows' = bsArrows b'"
    and a: "appendSegments lib b rows arrows (orderedScanSegments rows arrows) \<lparr>bsStop = stop, bsRemaining = remaining,
      bsDelivered = 0, bsNext = nxt, bsRows = [], bsArrows = []\<rparr> = Inr b'"
    by (auto simp: applyBounds_def)
  with appendSegments_bucket [OF a assms(2)] show ?thesis by (simp add: in_bucket_def)
qed

section \<open>A poll of a bucket takes a window of the log\<close>

lemma cut_window:
  assumes "sorted_wrt (<) E" "set E = {x \<in> L. offset \<le> x \<and> x < nxt}" "0 < remaining" "offset \<le> nxt" "offset \<le> stop"
  defines "K \<equiv> cut remaining stop E"
  defines "nxt' \<equiv> min (if K = [] then nxt else last K + 1) stop"
  shows "set K = {x \<in> L. offset \<le> x \<and> x < nxt'} \<and> offset \<le> nxt' \<and> nxt' \<le> nxt"
proof (cases "K = []")
  case True
  with assms(3) have tw: "takeWhile (\<lambda>x. x < stop) E = []" by (simp add: K_def cut_def)
  have "\<forall>x\<in>set E. stop \<le> x" using tw assms(1) by (cases E) (auto split: if_splits)
  with True assms show ?thesis by (auto simp: nxt'_def)
next
  case False
  obtain R where E: "E = K @ R" unfolding K_def cut_def by (metis append_assoc append_take_drop_id takeWhile_dropWhile_id)
  have l: "last K \<in> set K" "last K < stop" "last K \<in> set E"
    using False set_cut [of "last K" remaining stop E] by (auto simp: K_def)
  obtain K' l' where KK: "K = K' @ [l']" using False by (cases K rule: rev_cases) auto
  have le: "\<forall>x\<in>set K. x \<le> last K" using assms(1) unfolding E KK by (simp add: sorted_wrt_append less_imp_le)
  have gt: "\<forall>x\<in>set R. last K < x" using assms(1) l(1) unfolding E by (auto simp: sorted_wrt_append)
  have nx: "nxt' = last K + 1" using False l(2) by (simp add: nxt'_def)
  have lw: "offset \<le> last K" "last K < nxt" using l(3) unfolding assms(2) by simp_all
  have "set K = {x \<in> set E. x \<le> last K}" using le gt unfolding E by force
  also have "\<dots> = {x \<in> L. offset \<le> x \<and> x < nxt'}" unfolding assms(2) nx using lw by auto
  finally show ?thesis using lw nx by simp
qed


text \<open>The remaining rows of the limit and the stopping offset of a bucket.\<close>

definition within_limit :: "('p, 'f) scanner_static \<Rightarrow> scanner \<Rightarrow> bool" where
  "within_limit st s \<longleftrightarrow> (lcRowLimit (ssConfig st) > 0 \<longrightarrow> lsDelivered s < lcRowLimit (ssConfig st))"

definition stopOf :: "('p, 'f) scanner_static \<Rightarrow> int \<Rightarrow> int" where
  "stopOf st b = snd (scanBounds (ssConfig st) 0 b)"

lemma scanBounds_eq: "scanBounds (ssConfig st) d b
    = (if lcRowLimit (ssConfig st) > 0 then lcRowLimit (ssConfig st) - d else maxInt64, stopOf st b)"
  by (simp add: scanBounds_def stopOf_def)

lemma not_skip_stop: "\<not> skipBucket st b offset \<Longrightarrow> offset \<le> maxInt64 \<Longrightarrow> offset \<le> stopOf st b"
  by (auto simp: skipBucket_def stopOf_def scanBounds_def split: option.splits)

text \<open>A window of the log that a poll takes for a bucket: rows and Arrow rows of the bucket at the log's offsets from
  the fetch offset up to the new one, counted, within the limit and before the stopping offset.\<close>

definition takes_window :: "'r scan_env \<Rightarrow> ('p, 'f) scanner_static \<Rightarrow> (int \<Rightarrow> int set) \<Rightarrow> int \<Rightarrow> int \<Rightarrow> scanner
    \<Rightarrow> scan_record list \<Rightarrow> 'r scan_arrow list \<Rightarrow> int \<Rightarrow> int \<Rightarrow> bool" where
  "takes_window env st blog b offset s rows arrows n nxt \<longleftrightarrow> in_bucket b rows arrows \<and> offset \<le> nxt \<and> nxt \<le> maxInt64
     \<and> scanOffsets (seLib env) rows arrows = {x \<in> blog b. offset \<le> x \<and> x < nxt}
     \<and> n = scanResultRows (seLib env) rows arrows \<and> 0 \<le> n
     \<and> (lcRowLimit (ssConfig st) > 0 \<longrightarrow> lsDelivered s + n \<le> lcRowLimit (ssConfig st))
     \<and> (lcStoppingOffsets (ssConfig st) \<noteq> None \<longrightarrow> nxt \<le> stopOf st b)"

lemma applyBounds_window:
  assumes laws: "arrow_laws (seLib env)" and lim: "within_limit st s" and off: "offset \<le> stopOf st b" "offset \<le> nxt" "nxt \<le> maxInt64"
    and bucket: "in_bucket b rows arrows" and ok: "\<forall>a\<in>set arrows. arrow_ok (seLib env) a"
    and sorted: "sorted_wrt (<) (orderedOffsets (seLib env) rows arrows)"
    and win: "scanOffsets (seLib env) rows arrows = {x \<in> blog b. offset \<le> x \<and> x < nxt}"
    and res: "applyBounds (seLib env) (ssConfig st) (lsDelivered s) b rows arrows nxt = Inr (rows', arrows', n, nxt')"
  shows "takes_window env st blog b offset s rows' arrows' n nxt'"
proof (cases "lcRowLimit (ssConfig st) = 0 \<and> lcStoppingOffsets (ssConfig st) = None")
  case True
  have "0 \<le> sum_list (map (arrowRows (seLib env)) arrows)"
    using ok by (intro sum_list_nonneg) (auto simp: arrow_ok_def)
  then have nn: "0 \<le> scanResultRows (seLib env) rows arrows" by (simp add: scanResultRows_def)
  from True res have eq: "rows' = rows" "arrows' = arrows" "n = scanResultRows (seLib env) rows arrows" "nxt' = nxt"
    by (auto simp: applyBounds_def)
  show ?thesis unfolding takes_window_def eq by (intro conjI bucket off win refl nn) (use True in simp_all)
next
  case False
  let ?rem = "if lcRowLimit (ssConfig st) > 0 then lcRowLimit (ssConfig st) - lsDelivered s else maxInt64"
  let ?E = "orderedOffsets (seLib env) rows arrows" let ?K = "cut ?rem (stopOf st b) ?E"
  have rem: "0 < ?rem" using lim by (simp add: within_limit_def maxInt64_def)
  have sl: "slices_count (seLib env)" using laws by (simp add: arrow_laws_def)
  have bd: "scanBounds (ssConfig st) (lsDelivered s) b = (?rem, stopOf st b)" by (rule scanBounds_eq)
  obtain rows2 arrows2 where "applyBounds (seLib env) (ssConfig st) (lsDelivered s) b rows arrows nxt
      = Inr (rows2, arrows2, int (length ?K), min (if ?K = [] then nxt else last ?K + 1) (stopOf st b))"
    and s2: "scanOffsets (seLib env) rows2 arrows2 = set ?K" "scanResultRows (seLib env) rows2 arrows2 = int (length ?K)"
    using applyBounds_cut [OF bd less_imp_le [OF rem] _ sorted ok sl, where decodedNext = nxt] False
    by (auto simp: Let_def)
  with res have eq: "rows' = rows2" "arrows' = arrows2" "n = int (length ?K)"
    "nxt' = min (if ?K = [] then nxt else last ?K + 1) (stopOf st b)" by auto
  have w: "set ?K = {x \<in> blog b. offset \<le> x \<and> x < nxt'} \<and> offset \<le> nxt' \<and> nxt' \<le> nxt"
    unfolding eq(4) by (rule cut_window [OF sorted _ rem off(2,1)]) (simp add: win scanOffsets_ordered [symmetric])
  have "in_bucket b rows' arrows'" by (rule applyBounds_bucket [OF res bucket])
  moreover have "int (length ?K) \<le> ?rem" by (rule cut_length) (use rem in simp)
  moreover have "nxt' \<le> stopOf st b" unfolding eq(4) by simp
  moreover have "nxt' \<le> maxInt64" using w off(3) by simp
  ultimately show ?thesis
    unfolding takes_window_def using w s2 unfolding eq(1-3) by (intro conjI) (simp_all split: if_splits)
qed


text \<open>A poll of a bucket that does not end the poll either leaves rows and offsets alone, or takes a window.\<close>

definition same_rows :: "'r scan_result \<Rightarrow> 'r scan_result \<Rightarrow> bool" where
  "same_rows r r' \<longleftrightarrow> rsRecords r' = rsRecords r \<and> rsArrowBatches r' = rsArrowBatches r"

definition same_scan :: "scanner \<Rightarrow> scanner \<Rightarrow> bool" where
  "same_scan s s' \<longleftrightarrow> lsOffset s' = lsOffset s \<and> lsDelivered s' = lsDelivered s \<and> lsDone s' = lsDone s"

lemma recordFetchError_same:
  assumes "recordFetchError ctxErr b e r s = (res, s')"
  shows "same_scan s s' \<and> (\<forall>r'. res = Inr r' \<longrightarrow> same_rows r r')"
  using assms by (auto simp: recordFetchError_def same_scan_def same_rows_def Let_def split: option.splits if_splits)

lemma pollBucket_window:
  assumes laws: "arrow_laws (seLib env)" and lim: "within_limit st s" and off: "offset \<le> stopOf st b"
    and srv: "serves env st blog b offset answer"
    and poll: "pollBucket env st ctxErr b offset answer r s = (Inr r', s')"
  shows "(same_rows r r' \<and> same_scan s s')
    \<or> (\<exists>rows arrows n nxt. takes_window env st blog b offset s rows arrows n nxt
         \<and> rsRecords r' = rsRecords r @ rows \<and> rsArrowBatches r' = rsArrowBatches r @ arrows
         \<and> s' = advanceOffset st b offset nxt n s)"
proof (cases answer)
  case (Inl e)
  with poll have "recordFetchError ctxErr b e r s = (Inr r', s')" by (simp add: pollBucket_def)
  with recordFetchError_same show ?thesis by blast
next
  case (Inr fetched)
  show ?thesis
  proof (cases "andThen (decodeFetch env st b offset fetched) (\<lambda>(nxt, rows, arrows).
      andThen (filteredEnd offset nxt fetched) (\<lambda>nxt. Inr (nxt, rows, arrows)))")
    case err: (Inl e)
    with poll Inr show ?thesis by (auto simp: pollBucket_def same_rows_def same_scan_def split: if_splits)
  next
    case dec: (Inr t)
    then obtain nxt0 rows arrows nxt where d: "decodeFetch env st b offset fetched = Inr (nxt0, rows, arrows)"
      "filteredEnd offset nxt0 fetched = Inr nxt" "t = (nxt, rows, arrows)" by auto
    have sv: "offset \<le> nxt" "nxt \<le> maxInt64" "scanOffsets (seLib env) rows arrows = {x \<in> blog b. offset \<le> x \<and> x < nxt}"
      "sorted_wrt (<) (orderedOffsets (seLib env) rows arrows)" "\<forall>a\<in>set arrows. arrow_ok (seLib env) a"
      using srv d Inr unfolding serves_def by blast+
    from poll Inr dec d obtain rows1 arrows1 rows2 arrows2 n nxt2 where
      p: "projectScan env st rows arrows = Inr (rows1, arrows1)"
        "applyBounds (seLib env) (ssConfig st) (lsDelivered s) b rows1 arrows1 nxt = Inr (rows2, arrows2, n, nxt2)"
      and r': "rsRecords r' = rsRecords r @ rows2" "rsArrowBatches r' = rsArrowBatches r @ arrows2"
        "s' = advanceOffset st b offset nxt2 n s"
      by (cases "andThen (projectScan env st rows arrows) (\<lambda>(rows, arrows).
            applyBounds (seLib env) (ssConfig st) (lsDelivered s) b rows arrows nxt)")
        (auto simp: pollBucket_def)
    note v = projectScan_view [OF p(1) laws]
    have v': "rowView rows = rowView rows1" "arrowView (seLib env) arrows = arrowView (seLib env) arrows1"
      using v by simp_all
    have b1: "in_bucket b rows1 arrows1" by (rule in_bucket_view [OF v' decodeFetch_bucket [OF d(1)]])
    have ok1: "\<forall>a\<in>set arrows1. arrow_ok (seLib env) a" by (rule arrow_ok_view [OF v'(2) sv(5)])
    have o1: "orderedOffsets (seLib env) rows arrows = orderedOffsets (seLib env) rows1 arrows1"
      by (rule orderedOffsets_view [OF v'])
    have "takes_window env st blog b offset s rows2 arrows2 n nxt2"
      by (rule applyBounds_window [OF laws lim off sv(1,2) b1 ok1 _ _ p(2)])
        (use sv(3,4) o1 in \<open>simp_all add: scanOffsets_ordered\<close>)
    with r' show ?thesis by blast
  qed
qed

end
