(* ===== verification/Evolution_Properties.thy ===== *)
theory Evolution_Properties
  imports Schema_Evolution "HOL-Library.Multiset"
begin

text \<open>
  Schema evolution keeps rows well typed, and the schema cache is a least-recently-used cache: the clock and the
  scan for the oldest entry implement a list of entries in the order of their last use.
\<close>

section \<open>Evolved rows\<close>

lemma indexBy_Some:
  assumes "indexBy key cs k = Some i"
  shows "i < length cs \<and> key (cs ! i) = k"
  using map_of_SomeD [OF assms [unfolded indexBy_def]] by (auto simp: set_zip)

lemma sourceIndex_Some: "sourceIndex source target c = Some i \<Longrightarrow> i < length (Columns source)"
  by (auto simp: sourceIndex_def dest: indexBy_Some split: if_splits)

lemma mapColumns_Inr:
  "mapColumns source target cs = Inr m \<Longrightarrow> list_all2 (\<lambda>c i. case sourceIndex source target c of
       None \<Rightarrow> i = -1 \<and> colNullable c
     | Some j \<Rightarrow> i = int j \<and> compatibleColumnType (Columns source ! j) c) cs m"
proof (induction cs arbitrary: m)
  case (Cons c cs)
  then show ?case by (cases "sourceIndex source target c") auto
qed simp

lemma evolveColumns_Inr:
  assumes "evolveColumns row cs m = Inr r" "list_all2 (\<lambda>c i. case ix c of
       None \<Rightarrow> i = -1 \<and> colNullable c | Some j \<Rightarrow> i = int j \<and> ok j c) cs m"
    and "\<And>c j. ix c = Some j \<Longrightarrow> j < length row"
  shows "list_all2 (\<lambda>c v. case ix c of None \<Rightarrow> v = VNil \<and> colNullable c
      | Some j \<Rightarrow> v = row ! j \<and> ok j c \<and> (v = VNil \<longrightarrow> colNullable c)) cs r"
  using assms(1,2)
proof (induction row cs m arbitrary: r rule: evolveColumns.induct)
  case (3 row c cs i m)
  from "3.prems"(2) have c: "case ix c of None \<Rightarrow> i = -1 \<and> colNullable c | Some j \<Rightarrow> i = int j \<and> ok j c"
    and rest: "list_all2 (\<lambda>c i. case ix c of None \<Rightarrow> i = -1 \<and> colNullable c | Some j \<Rightarrow> i = int j \<and> ok j c) cs m"
    by simp_all
  show ?case
  proof (cases "ix c")
    case None
    with c "3.prems"(1) obtain vs where "evolveColumns row cs m = Inr vs" "r = VNil # vs" "i < 0" by auto
    with "3.IH"(1) [OF _ _ rest] None c show ?thesis by simp
  next
    case (Some j)
    with c "3.prems"(1) obtain v vs where v: "go_index row (int j) = Inr v" "v = VNil \<longrightarrow> colNullable c"
      "evolveColumns row cs m = Inr vs" "r = v # vs" by auto
    with "3.IH"(2) [of v vs] Some c rest show ?thesis by (auto simp: go_index_def split: if_splits)
  qed
qed simp_all

lemma evolveRow_Inr:
  assumes "evolveRow source target row = Inr r"
  shows "list_all2 (\<lambda>c v. case sourceIndex source target c of
       None \<Rightarrow> v = VNil \<and> colNullable c
     | Some j \<Rightarrow> v = row ! j \<and> compatibleColumnType (Columns source ! j) c \<and> (v = VNil \<longrightarrow> colNullable c))
     (Columns target) r"
proof -
  from assms obtain m where len: "length row = length (Columns source)"
    and m: "mapColumns source target (Columns target) = Inr m" "evolveColumns row (Columns target) m = Inr r"
    by (auto simp: evolveRow_def schemaColumnMapping_def)
  show ?thesis
    by (rule evolveColumns_Inr [OF m(2) mapColumns_Inr [OF m(1)]]) (simp add: len sourceIndex_Some)
qed

text \<open>A value of a column is a value of any compatible column.\<close>

abbreviation columnTypeValid :: "column \<Rightarrow> bool" where
  "columnTypeValid c \<equiv> (case colLogicalType c of Some lt \<Rightarrow> LogicalType_Validate lt
     | None \<Rightarrow> DataType_Validate (colType c)) = Inr ()"

lemma dataType_of_root: "DataType_Validate t = Inr () \<Longrightarrow>
    dataTypeForLogicalType (LogicalType (logicalRoot t) n 0 0 0 None None None []) = t"
  by (cases t) (simp_all add: dataTypeForLogicalType_def logicalRoot_def DataType_def DataType_Validate_def)

lemma notNullable_sel [simp]:
  "ltRoot (notNullable t) = ltRoot t" "ltElement (notNullable t) = ltElement t" "ltKey (notNullable t) = ltKey t"
  "ltValue (notNullable t) = ltValue t" "ltFields (notNullable t) = ltFields t"
  by (simp_all add: notNullable_def)

lemma dataType_notNullable [simp]: "dataTypeForLogicalType (notNullable t) = dataTypeForLogicalType t"
  by (simp add: dataTypeForLogicalType_def)

lemma validLogicalValue_notNullable:
  "v \<noteq> VNil \<Longrightarrow> validLogicalValue (notNullable t) v = validLogicalValue t v"
  by (simp add: validLogicalValue.simps [of t] validLogicalValue.simps [of "notNullable t"]
      split: data_type.splits)

lemma bare_compatible:
  assumes "DataType_Validate X = Inr ()" "LogicalType_Validate t = Inr ()" "v \<noteq> VNil"
    and "notNullable t = notNullable (LogicalType (logicalRoot X) n 0 0 0 None None None [])"
  shows "validLogicalValue t v = validUntypedValue X v"
proof -
  have sel: "ltRoot t = logicalRoot X" "ltElement t = None" "ltKey t = None" "ltValue t = None" "ltFields t = []"
    using arg_cong [OF assms(4), of ltRoot] arg_cong [OF assms(4), of ltElement] arg_cong [OF assms(4), of ltKey]
      arg_cong [OF assms(4), of ltValue] arg_cong [OF assms(4), of ltFields] by simp_all
  have k: "dataTypeForLogicalType t = X"
    using dataType_of_root [OF assms(1), of n] arg_cong [OF assms(4), of dataTypeForLogicalType] by simp
  have "X \<noteq> ArrayType \<and> X \<noteq> MapType \<and> X \<noteq> RowType"
    using assms(2) sel by (auto simp: logicalRoot_def LogicalType_Validate.simps [of t] validateArray.simps
        validateMap.simps validateRow.simps)
  then show ?thesis
    unfolding validLogicalValue.simps [of t] k using assms(3) by (simp split: data_type.splits)
qed

lemma validateColumnValue_some:
  "v \<noteq> VNil \<Longrightarrow> validateColumnValue c v = Inr () \<longleftrightarrow>
     (case colLogicalType c of Some t \<Rightarrow> validLogicalValue t v | None \<Rightarrow> validUntypedValue (colType c) v)"
  by (simp add: validateColumnValue_def split: option.splits)

lemma compatible_value:
  assumes "compatibleColumnType c d" "columnTypeValid c" "columnTypeValid d" "v \<noteq> VNil"
    and "validateColumnValue c v = Inr ()"
  shows "validateColumnValue d v = Inr ()"
proof (cases "colLogicalType c"; cases "colLogicalType d")
  fix t u
  assume "colLogicalType c = Some t" "colLogicalType d = Some u"
  then show ?thesis
    using assms validLogicalValue_notNullable [of v t] validLogicalValue_notNullable [of v u]
    by (simp add: validateColumnValue_some compatibleColumnType_def logicalTypeForColumn_def)
next
  fix u
  assume "colLogicalType c = None" "colLogicalType d = Some u"
  then show ?thesis
    using assms bare_compatible [of "colType c" u v "colNullable c"]
    by (simp add: validateColumnValue_some compatibleColumnType_def logicalTypeForColumn_def)
next
  fix t
  assume "colLogicalType c = Some t" "colLogicalType d = None"
  then show ?thesis
    using assms bare_compatible [of "colType d" t v "colNullable d"]
    by (simp add: validateColumnValue_some compatibleColumnType_def logicalTypeForColumn_def)
next
  assume n: "colLogicalType c = None" "colLogicalType d = None"
  then have "dataTypeForLogicalType (logicalTypeForColumn c) = dataTypeForLogicalType (logicalTypeForColumn d)"
    using assms(1) dataType_notNullable by (metis compatibleColumnType_def)
  then have "colType c = colType d"
    using n assms(2,3) by (simp add: logicalTypeForColumn_def dataType_of_root)
  then show ?thesis using n assms(4,5) by (simp add: validateColumnValue_some)
qed

lemma validateRowLoop_Inr_I:
  "list_all2 (\<lambda>name v. \<exists>c. m name = Some c \<and> validateColumnValue c v = Inr ()) names row \<Longrightarrow>
   validateRowLoop m names row = Inr ()"
  by (induction names row rule: list_all2_induct) auto

lemma ValidateRow_Inr_I:
  assumes "Schema_Validate s = Inr ()" "list_all2 (\<lambda>c v. validateColumnValue c v = Inr ()) (Columns s) row"
  shows "ValidateRow s row [] = Inr ()"
proof -
  have "list_all2 (\<lambda>name v. \<exists>c. columnsByName s name = Some c \<and> validateColumnValue c v = Inr ())
      (map colName (Columns s)) row"
    using assms(2) columnsByName_Some [OF Schema_Validate_Inr_D(1) [OF assms(1)]]
    by (auto simp: list_all2_conv_all_nth)
  with validateRowLoop_Inr_I [OF this] show ?thesis
    using assms by (simp add: ValidateRow_def selectedColumns_def list_all2_lengthD)
qed

text \<open>C23. Schema evolution is type safe: a row that is valid for the schema it was written under and that maps onto
  the reader's schema is valid for that one, and every reader column holds the value of its writer column, found by
  field ID when both schemas have assigned IDs and by name otherwise, or nil when the writer did not have it.\<close>

theorem evolved_row_valid:
  assumes "ValidateRow source row [] = Inr ()" "Schema_Validate target = Inr ()"
    and "evolveRow source target row = Inr r"
  shows "ValidateRow target r [] = Inr () \<and> length r = length (Columns target)
    \<and> (\<forall>n < length (Columns target). r ! n =
         (case sourceIndex source target (Columns target ! n) of None \<Rightarrow> VNil | Some i \<Rightarrow> row ! i))"
proof (intro conjI)
  note ev = evolveRow_Inr [OF assms(3)] and src = ValidateRow_Inr_D [OF assms(1)]
  have "list_all2 (\<lambda>c v. validateColumnValue c v = Inr ()) (Columns target) r"
    unfolding list_all2_conv_all_nth
  proof (intro conjI allI impI)
    show "length (Columns target) = length r" using ev by (rule list_all2_lengthD)
    fix n
    assume n: "n < length (Columns target)"
    let ?c = "Columns target ! n"
    have e: "case sourceIndex source target ?c of None \<Rightarrow> r ! n = VNil \<and> colNullable ?c
      | Some j \<Rightarrow> r ! n = row ! j \<and> compatibleColumnType (Columns source ! j) ?c \<and> (r ! n = VNil \<longrightarrow> colNullable ?c)"
      using ev n by (simp add: list_all2_conv_all_nth)
    show "validateColumnValue ?c (r ! n) = Inr ()"
    proof (cases "r ! n = VNil")
      case True
      with e have "colNullable ?c" by (cases "sourceIndex source target ?c") simp_all
      with True show ?thesis by (simp add: validateColumnValue_def)
    next
      case False
      with e obtain j where j: "sourceIndex source target ?c = Some j" "r ! n = row ! j"
        "compatibleColumnType (Columns source ! j) ?c" by (cases "sourceIndex source target ?c") simp_all
      have jl: "j < length (Columns source)" using j(1) by (rule sourceIndex_Some)
      show ?thesis unfolding j(2)
      proof (rule compatible_value [OF j(3)])
        show "columnTypeValid (Columns source ! j)"
          using Schema_Validate_Inr_D(4) [OF src(1)] nth_mem [OF jl] by (rule bspec)
        show "columnTypeValid ?c"
          using Schema_Validate_Inr_D(4) [OF assms(2)] nth_mem [OF n] by (rule bspec)
        show "validateColumnValue (Columns source ! j) (row ! j) = Inr ()"
          using src(2) jl by (rule list_all2_nthD)
        show "row ! j \<noteq> VNil" using False j(2) by simp
      qed
    qed
  qed
  then show "ValidateRow target r [] = Inr ()" by (rule ValidateRow_Inr_I [OF assms(2)])
  show "length r = length (Columns target)" using list_all2_lengthD [OF ev] by simp
  show "\<forall>n < length (Columns target). r ! n =
         (case sourceIndex source target (Columns target ! n) of None \<Rightarrow> VNil | Some i \<Rightarrow> row ! i)"
  proof (intro allI impI)
    fix n
    assume "n < length (Columns target)"
    with list_all2_nthD [OF ev this]
    show "r ! n = (case sourceIndex source target (Columns target ! n) of None \<Rightarrow> VNil | Some i \<Rightarrow> row ! i)"
      by (cases "sourceIndex source target (Columns target ! n)") simp_all
  qed
qed

definition intColumn :: "string \<Rightarrow> data_type \<Rightarrow> int \<Rightarrow> column" where
  "intColumn name t i = \<lparr>colName = name, colType = t, colNullable = True, colLogicalType = None,
     colDescription = [], colID = i\<rparr>"

definition columnsWithIDs :: "column list \<Rightarrow> schema" where
  "columnsWithIDs cs = \<lparr>Columns = cs, PrimaryKey = [], BucketKey = [], PartitionKey = [], AutoIncrement = [],
     HighestFieldID = int (length cs)\<rparr>"

text \<open>A renamed column is found by its ID, and a new one is nil.\<close>

theorem evolved_row_valid_witness:
  "ValidateRow (columnsWithIDs [intColumn ''renamed'' StringType 2, intColumn ''new'' IntType 3])
     [VString [120], VNil] [] = Inr ()"
proof -
  let ?source = "columnsWithIDs [intColumn ''a'' IntType 1, intColumn ''b'' StringType 2]"
  let ?target = "columnsWithIDs [intColumn ''renamed'' StringType 2, intColumn ''new'' IntType 3]"
  have "ValidateRow ?source [VInt32 5, VString [120]] [] = Inr ()" by code_simp
  moreover have "Schema_Validate ?target = Inr ()" by code_simp
  moreover have "evolveRow ?source ?target [VInt32 5, VString [120]] = Inr [VString [120], VNil]" by code_simp
  ultimately show ?thesis using evolved_row_valid by blast
qed


section \<open>The cache as a list in the order of last use\<close>

abbreviation usedAt :: "schema_key \<times> cache_entry \<Rightarrow> nat" where
  "usedAt e \<equiv> ceUsed (snd e)"

definition entriesByUse :: "(schema_key \<times> cache_entry) list \<Rightarrow> (schema_key \<times> cache_entry) list" where
  "entriesByUse es = rev (sort_key usedAt es)"

definition recency :: "schema_cache \<Rightarrow> (schema_key \<times> schema) list" where
  "recency c = map (\<lambda>(k, e). (k, ceSchema e)) (entriesByUse (scEntries c))"

definition entries_ok :: "nat \<Rightarrow> (schema_key \<times> cache_entry) list \<Rightarrow> bool" where
  "entries_ok clock es \<longleftrightarrow> distinct (map fst es) \<and> inj_on usedAt (set es) \<and> (\<forall>e\<in>set es. usedAt e \<le> clock)"

definition cache_inv :: "schema_cache \<Rightarrow> bool" where
  "cache_inv c \<longleftrightarrow> entries_ok (scClock c) (scEntries c) \<and> length (scEntries c) \<le> scMax c"

lemma set_entriesByUse [simp]: "set (entriesByUse es) = set es"
  and length_entriesByUse [simp]: "length (entriesByUse es) = length es"
  by (simp_all add: entriesByUse_def)

lemma entriesByUse_filter: "entriesByUse (filter P es) = filter P (entriesByUse es)"
  by (simp add: entriesByUse_def filter_sort [symmetric] rev_filter)

lemma entries_ok_filter: "entries_ok clock es \<Longrightarrow> entries_ok clock (filter P es)"
  by (auto simp: entries_ok_def inj_on_def distinct_map_filter)

lemma entriesByUse_eqI:
  assumes "mset es = mset ys" "inj_on usedAt (set es)" "sorted (map usedAt (rev ys))"
  shows "entriesByUse es = ys"
  using sort_key_inj_key_eq [of es "rev ys" usedAt] assms by (simp add: entriesByUse_def)

lemma sorted_entriesByUse: "sorted (map usedAt (rev (entriesByUse es)))"
  by (simp add: entriesByUse_def)

text \<open>An updated entry moves to the front.\<close>

lemma mset_update:
  "distinct (map fst es) \<Longrightarrow> mset (AList.update k v es) = add_mset (k, v) (mset (filter (\<lambda>e. fst e \<noteq> k) es))"
proof (induction es)
  case (Cons e es)
  have "k \<notin> fst ` set es \<Longrightarrow> filter (\<lambda>e. fst e \<noteq> k) es = es" by (auto simp: filter_id_conv)
  with Cons show ?case by (cases e) (auto simp: mset_filter [symmetric] simp del: mset_filter)
qed simp

lemma entriesByUse_update:
  assumes "entries_ok clock es" "clock < ceUsed v"
  shows "entries_ok (ceUsed v) (AList.update k v es)"
    and "entriesByUse (AList.update k v es) = (k, v) # filter (\<lambda>e. fst e \<noteq> k) (entriesByUse es)"
proof -
  let ?f = "filter (\<lambda>e. fst e \<noteq> k) es"
  have d: "distinct (map fst es)" using assms(1) by (simp add: entries_ok_def)
  have ms: "mset (AList.update k v es) = mset ((k, v) # ?f)" using mset_update [OF d] by simp
  have st: "set (AList.update k v es) = set ((k, v) # ?f)" by (rule mset_eq_setD [OF ms])
  have small: "\<forall>e\<in>set es. usedAt e < ceUsed v" using assms by (auto simp: entries_ok_def)
  have inj: "inj_on usedAt (set (AList.update k v es))"
    unfolding st using assms(1) small by (auto simp: entries_ok_def inj_on_def)
  have "\<forall>e\<in>set (AList.update k v es). usedAt e \<le> ceUsed v"
    unfolding st using small by (auto intro: less_imp_le)
  then show "entries_ok (ceUsed v) (AList.update k v es)"
    using inj d distinct_update [of es k v] by (simp add: entries_ok_def)
  show "entriesByUse (AList.update k v es) = (k, v) # filter (\<lambda>e. fst e \<noteq> k) (entriesByUse es)"
  proof (rule entriesByUse_eqI [OF _ inj])
    show "mset (AList.update k v es) = mset ((k, v) # filter (\<lambda>e. fst e \<noteq> k) (entriesByUse es))"
      unfolding ms by (simp add: entriesByUse_filter [symmetric]) (simp add: entriesByUse_def)
    show "sorted (map usedAt (rev ((k, v) # filter (\<lambda>e. fst e \<noteq> k) (entriesByUse es))))"
      using sorted_entriesByUse [of ?f] small
      by (auto simp: sorted_append entriesByUse_filter [symmetric] intro: less_imp_le)
  qed
qed

text \<open>The scan finds the last entry of the list, and eviction cuts the list off.\<close>

lemma oldestFrom_le: "usedAt (oldestFrom e es) \<le> usedAt e \<and> (\<forall>x\<in>set es. usedAt (oldestFrom e es) \<le> usedAt x)"
proof (induction es arbitrary: e)
  case (Cons x es)
  show ?case using Cons.IH [of x] Cons.IH [of e] by (auto intro: order_trans)
qed simp

lemma oldestEntry_last:
  assumes "entries_ok clock es" "es \<noteq> []"
  shows "oldestEntry es = fst (last (entriesByUse es))"
proof -
  let ?o = "oldestFrom (hd es) (tl es)"
  have o: "?o \<in> set es" "\<forall>x\<in>set es. usedAt ?o \<le> usedAt x"
    using oldestFrom_in [of "hd es" "tl es"] oldestFrom_le [of "hd es" "tl es"] assms(2) by (cases es; auto)+
  have ne: "sort_key usedAt es \<noteq> []" using assms(2) by (metis set_empty set_sort)
  then have h: "hd (sort_key usedAt es) \<in> set es" by (metis hd_in_set set_sort)
  have "usedAt (hd (sort_key usedAt es)) \<le> usedAt ?o"
    using sorted_sort_key [of usedAt es] o(1) ne
    by (cases "sort_key usedAt es") (auto simp: set_sort [of usedAt es, symmetric])
  with o h have "usedAt (hd (sort_key usedAt es)) = usedAt ?o" by (meson le_antisym)
  then have "hd (sort_key usedAt es) = ?o"
    using assms(1) o(1) h by (auto simp: entries_ok_def dest: inj_onD)
  then show ?thesis using ne by (simp add: oldestEntry_def entriesByUse_def last_rev)
qed


lemma filter_not_last:
  assumes "distinct (map fst xs)" "xs \<noteq> []"
  shows "filter (\<lambda>e. fst e \<noteq> fst (last xs)) xs = butlast xs"
proof -
  obtain ys y where xs: "xs = ys @ [y]" using assms(2) by (metis append_butlast_last_id)
  with assms(1) have "fst y \<notin> fst ` set ys" by simp
  then have "filter (\<lambda>e. fst e \<noteq> fst y) ys = ys" by (intro filter_True) (metis image_eqI)
  then show ?thesis by (simp add: xs)
qed

lemma distinct_entriesByUse: "distinct (map fst es) \<Longrightarrow> distinct (map fst (entriesByUse es))"
proof -
  assume d: "distinct (map fst es)"
  have "mset (map fst (entriesByUse es)) = mset (map fst es)" by (simp add: entriesByUse_def)
  from mset_eq_imp_distinct_iff [OF this] d show "distinct (map fst (entriesByUse es))" by blast
qed

lemma delete_filter: "AList.delete k es = filter (\<lambda>e. fst e \<noteq> k) es"
  unfolding AList.delete_eq by (rule filter_cong) auto

lemma evictLocked_cut:
  assumes "entries_ok clock es"
  shows "entries_ok clock (evictLocked mx es) \<and> length (evictLocked mx es) \<le> mx
    \<and> entriesByUse (evictLocked mx es) = take mx (entriesByUse es)"
  using assms
proof (induction mx es rule: evictLocked.induct)
  case (1 mx es)
  show ?case
  proof (cases "mx < length es")
    case True
    let ?es = "AList.delete (oldestEntry es) es"
    have ok: "entries_ok clock ?es" using 1(2) by (simp add: delete_filter entries_ok_filter)
    have ne: "es \<noteq> []" using True by auto
    have "entriesByUse ?es = filter (\<lambda>e. fst e \<noteq> fst (last (entriesByUse es))) (entriesByUse es)"
      by (simp add: delete_filter entriesByUse_filter oldestEntry_last [OF 1(2) ne])
    also have "\<dots> = butlast (entriesByUse es)"
      using distinct_entriesByUse 1(2) ne length_entriesByUse [of es]
      by (intro filter_not_last) (auto simp: entries_ok_def simp del: length_entriesByUse)
    finally have "take mx (entriesByUse ?es) = take mx (entriesByUse es)"
      using True by (simp add: take_butlast)
    with 1(1) [OF True ok] True show ?thesis by (simp add: evictLocked.simps [of mx es])
  next
    case False
    with 1(2) show ?thesis by (simp add: evictLocked.simps [of mx es])
  qed
qed

section \<open>Equivalence with the reference\<close>

text \<open>The reference: a list of keys with their schemas, the most recently used first, cut at the capacity.\<close>

definition lruPut :: "nat \<Rightarrow> schema_key \<Rightarrow> schema \<Rightarrow> (schema_key \<times> schema) list \<Rightarrow> (schema_key \<times> schema) list" where
  "lruPut mx k s xs = take mx ((k, s) # filter (\<lambda>e. fst e \<noteq> k) xs)"

lemma map_of_recency:
  assumes "entries_ok clock (scEntries c)"
  shows "map_of (recency c) k = map_option ceSchema (map_of (scEntries c) k)"
proof -
  have "map_of (entriesByUse (scEntries c)) = map_of (scEntries c)"
    using assms distinct_entriesByUse [of "scEntries c"]
    by (intro map_of_inject_set [THEN iffD2]) (simp_all add: entries_ok_def)
  then show ?thesis by (simp add: recency_def map_of_map case_prod_beta' [symmetric])
qed

lemma recency_putEntry:
  assumes "entries_ok (scClock c) (scEntries c)"
  shows "entries_ok (scClock (putEntry k s c)) (scEntries (putEntry k s c))"
    "recency (putEntry k s c) = (k, s) # filter (\<lambda>e. fst e \<noteq> k) (recency c)"
  using entriesByUse_update [OF assms, of "\<lparr>ceSchema = s, ceUsed = Suc (scClock c)\<rparr>" k]
  by (simp_all add: putEntry_def recency_def filter_map comp_def case_prod_beta')

lemma storeEntry_lru:
  assumes "cache_inv c"
  shows "cache_inv (storeEntry k s c) \<and> recency (storeEntry k s c) = lruPut (scMax c) k s (recency c)
    \<and> scMax (storeEntry k s c) = scMax c \<and> scClosed (storeEntry k s c) = scClosed c"
proof -
  note p = recency_putEntry [of c k s]
  have ok: "entries_ok (scClock c) (scEntries c)" using assms by (simp add: cache_inv_def)
  have sel: "scMax (putEntry k s c) = scMax c" "scClosed (putEntry k s c) = scClosed c"
    by (simp_all add: putEntry_def)
  note e = evictLocked_cut [OF p(1) [OF ok], of "scMax c"]
  have "recency (storeEntry k s c) = take (scMax c) (recency (putEntry k s c))"
    using e by (simp add: storeEntry_def Let_def sel recency_def take_map)
  then show ?thesis
    using e by (simp add: p(2) [OF ok] lruPut_def storeEntry_def Let_def sel cache_inv_def)
qed


lemma putEntry_hit:
  assumes "cache_inv c" "map_of (scEntries c) k = Some e"
  shows "cache_inv (putEntry k s c) \<and> recency (putEntry k s c) = lruPut (scMax c) k s (recency c)
    \<and> scMax (putEntry k s c) = scMax c \<and> scClosed (putEntry k s c) = scClosed c"
proof -
  have ok: "entries_ok (scClock c) (scEntries c)" and len: "length (scEntries c) \<le> scMax c"
    using assms(1) by (simp_all add: cache_inv_def)
  note p = recency_putEntry [OF ok, of k s]
  have "(k, e) \<in> set (scEntries c)" using assms(2) by (rule map_of_SomeD)
  then have "(k, ceSchema e) \<in> set (recency c)" by (force simp: recency_def)
  then have "length (filter (\<lambda>x. fst x \<noteq> k) (recency c)) < length (recency c)"
    by (rule length_filter_less) simp
  then have short: "length (recency (putEntry k s c)) \<le> scMax c"
    using len unfolding p(2) by (simp add: recency_def)
  have "length (scEntries (putEntry k s c)) = length (recency (putEntry k s c))" by (simp add: recency_def)
  then show ?thesis
    using p short by (simp add: cache_inv_def lruPut_def putEntry_def)
qed

datatype cache_op = ResolveOp "schema result option" table_path int | StoreOp table_path int schema | CloseOp

definition cacheStep :: "cache_op \<Rightarrow> schema_cache \<Rightarrow> schema result option \<times> schema_cache" where
  "cacheStep op c = (case op of
       ResolveOp fetch path schemaID \<Rightarrow>
         (case resolveSchema (map_option (\<lambda>r _. r) fetch) path schemaID c of (r, c) \<Rightarrow> (Some r, c))
     | StoreOp path schemaID s \<Rightarrow> (None, store path schemaID s c)
     | CloseOp \<Rightarrow> (None, closeCache c))"

text \<open>The reference: closed or not, and the list.\<close>

definition lruResolve :: "nat \<Rightarrow> schema result option \<Rightarrow> table_path \<Rightarrow> int \<Rightarrow> bool \<times> (schema_key \<times> schema) list
    \<Rightarrow> schema result \<times> (bool \<times> (schema_key \<times> schema) list)" where
  "lruResolve mx fetch path schemaID st =
     (if \<not> is_ok (TablePath_Validate path) then (Inl ErrInvalidConfig, st)
      else if schemaID < 0 then (Inl ErrInvalidSchema, st)
      else if fst st then (Inl ErrClosed, st)
      else case map_of (snd st) (path, schemaID) of
        Some s \<Rightarrow> (Inr s, (False, lruPut mx (path, schemaID) s (snd st)))
      | None \<Rightarrow>
          (case fetch of None \<Rightarrow> (Inl ErrInvalidConfig, st)
           | Some (Inl e) \<Rightarrow> (Inl e, st)
           | Some (Inr s) \<Rightarrow>
               (case Schema_Validate s of Inl e \<Rightarrow> (Inl e, st)
                | Inr _ \<Rightarrow> (Inr s, (False, lruPut mx (path, schemaID) s (snd st))))))"

definition lruStep :: "nat \<Rightarrow> cache_op \<Rightarrow> bool \<times> (schema_key \<times> schema) list
    \<Rightarrow> schema result option \<times> (bool \<times> (schema_key \<times> schema) list)" where
  "lruStep mx op st = (case op of
       ResolveOp fetch path schemaID \<Rightarrow> (case lruResolve mx fetch path schemaID st of (r, st) \<Rightarrow> (Some r, st))
     | StoreOp path schemaID s \<Rightarrow>
         (None, if \<not> fst st \<and> 0 \<le> schemaID \<and> is_ok (TablePath_Validate path) \<and> is_ok (Schema_Validate s)
                then (False, lruPut mx (path, schemaID) s (snd st)) else st)
     | CloseOp \<Rightarrow> (None, (True, snd st)))"

fun runOps :: "('op \<Rightarrow> 's \<Rightarrow> 'a \<times> 's) \<Rightarrow> 'op list \<Rightarrow> 's \<Rightarrow> 'a list \<times> 's" where
  "runOps step [] s = ([], s)"
| "runOps step (op # ops) s =
     (case step op s of (a, s) \<Rightarrow> (case runOps step ops s of (as, s) \<Rightarrow> (a # as, s)))"

abbreviation cacheView :: "schema_cache \<Rightarrow> bool \<times> (schema_key \<times> schema) list" where
  "cacheView c \<equiv> (scClosed c, recency c)"

lemma resolve_is_lru:
  assumes "cache_inv c" "resolveSchema (map_option (\<lambda>r _. r) fetch) path schemaID c = (r, c')"
  shows "lruResolve (scMax c) fetch path schemaID (cacheView c) = (r, cacheView c')
    \<and> cache_inv c' \<and> scMax c' = scMax c"
proof -
  have ok: "entries_ok (scClock c) (scEntries c)" using assms(1) by (simp add: cache_inv_def)
  have path: "TablePath_Validate path = Inl ErrInvalidConfig \<or> TablePath_Validate path = Inr ()"
    by (simp add: TablePath_Validate_def)
  note m = map_of_recency [OF ok, of "(path, schemaID)"]
  consider "TablePath_Validate path = Inl ErrInvalidConfig \<or> schemaID < 0 \<or> scClosed c"
    | e where "map_of (scEntries c) (path, schemaID) = Some e"
        "TablePath_Validate path = Inr ()" "\<not> schemaID < 0" "\<not> scClosed c"
    | "map_of (scEntries c) (path, schemaID) = None"
        "TablePath_Validate path = Inr ()" "\<not> schemaID < 0" "\<not> scClosed c"
    using path by fastforce
  then show ?thesis
  proof cases
    case 1
    with assms path show ?thesis
      by (auto simp: resolveSchema_def lruResolve_def cached_def split: if_splits)
  next
    case (2 e)
    with assms m putEntry_hit [OF assms(1) 2(1), of "ceSchema e"] show ?thesis
      by (auto simp: resolveSchema_def lruResolve_def cached_def)
  next
    case 3
    show ?thesis
    proof (cases fetch)
      case None
      with 3 assms m show ?thesis by (simp add: resolveSchema_def lruResolve_def cached_def)
    next
      case (Some answer)
      with 3 assms(2) have "storeFetched (path, schemaID) answer c = (r, c')"
        by (simp add: resolveSchema_def cached_def)
      with 3 Some assms(1) m storeEntry_lru [OF assms(1), of "(path, schemaID)"] show ?thesis
        by (cases answer; cases "Schema_Validate (projr answer)")
          (auto simp: lruResolve_def storeFetched_def)
    qed
  qed
qed

lemma cacheStep_is_lru:
  assumes "cache_inv c" "cacheStep op c = (a, c')"
  shows "lruStep (scMax c) op (cacheView c) = (a, cacheView c') \<and> cache_inv c' \<and> scMax c' = scMax c"
proof (cases op)
  case (ResolveOp fetch path i)
  obtain r c'' where r: "resolveSchema (map_option (\<lambda>r _. r) fetch) path i c = (r, c'')" by fastforce
  with assms(2) ResolveOp have "a = Some r" "c' = c''" by (simp_all add: cacheStep_def)
  with resolve_is_lru [OF assms(1) r] ResolveOp show ?thesis by (simp add: lruStep_def)
next
  case (StoreOp path i s)
  with assms storeEntry_lru [OF assms(1), of "(path, i)" s] show ?thesis
    by (auto simp: cacheStep_def lruStep_def store_def split: if_splits)
next
  case CloseOp
  with assms show ?thesis by (auto simp: cacheStep_def lruStep_def closeCache_def cache_inv_def recency_def)
qed

lemma cache_run_is_lru:
  "cache_inv c \<Longrightarrow> fst (runOps cacheStep ops c) = fst (runOps (lruStep (scMax c)) ops (cacheView c))
     \<and> cacheView (snd (runOps cacheStep ops c)) = snd (runOps (lruStep (scMax c)) ops (cacheView c))
     \<and> length (scEntries (snd (runOps cacheStep ops c))) \<le> scMax c"
proof (induction ops arbitrary: c)
  case Nil
  then show ?case by (simp add: cache_inv_def)
next
  case (Cons op ops)
  obtain a c' where s: "cacheStep op c = (a, c')" by fastforce
  from cacheStep_is_lru [OF Cons.prems s]
  have l: "lruStep (scMax c) op (cacheView c) = (a, cacheView c')" and "cache_inv c'" and m: "scMax c' = scMax c"
    by simp_all
  from Cons.IH [OF this(2)] show ?case
    unfolding m by (simp only: runOps.simps s l prod.case case_prod_beta fst_conv snd_conv)
qed

text \<open>C25. The schema cache is an LRU cache: over every sequence of resolutions (with any answers of the metadata
  request), stores and closes, it gives the answers of a list kept in the order of last use and cut at the capacity,
  holds the same schemas in the same order of use, and never more of them than its capacity.\<close>

theorem schema_cache_equals_lru:
  "fst (runOps cacheStep ops (newSchemaCache n)) = fst (runOps (lruStep n) ops (False, []))
   \<and> cacheView (snd (runOps cacheStep ops (newSchemaCache n))) = snd (runOps (lruStep n) ops (False, []))
   \<and> length (scEntries (snd (runOps cacheStep ops (newSchemaCache n)))) \<le> n"
proof -
  have "cache_inv (newSchemaCache n)" by (simp add: cache_inv_def newSchemaCache_def entries_ok_def)
  moreover have "cacheView (newSchemaCache n) = (False, [])" "scMax (newSchemaCache n) = n"
    by (simp_all add: newSchemaCache_def recency_def entriesByUse_def)
  ultimately show ?thesis using cache_run_is_lru [of "newSchemaCache n" ops] by metis
qed

end
