(* ===== verification/Decode_Properties.thy ===== *)
theory Decode_Properties
  imports Scanner_Decode Evolution_Properties
begin

text \<open>
  Decoding of fetched bytes is exact: what the log encoder wrote is what the scanner delivers, from the fetch offset
  on, with the next offset right behind the last delivered record; a batch cut off by the byte limit is left for the
  next fetch.
\<close>

section \<open>Reading rows under the schema they were written with\<close>

lemma indexBy_nth:
  assumes "distinct (map key cs)" "i < length cs"
  shows "indexBy key cs (key (cs ! i)) = Some i"
proof -
  have "(key (cs ! i), i) \<in> set (zip (map key cs) [0..<length cs])"
    using assms(2) by (auto simp: set_zip intro!: exI [of _ i])
  then show ?thesis
    using assms(1) unfolding indexBy_def by (intro map_of_is_SomeI) (simp_all add: rev_map [symmetric])
qed

definition evolvable :: "schema \<Rightarrow> bool" where
  "evolvable s \<longleftrightarrow> Schema_Validate s = Inr () \<and> (hasUnassignedFieldIDs s \<or> distinct (map colID (Columns s)))"

lemma sourceIndex_self:
  assumes "evolvable s" "i < length (Columns s)"
  shows "sourceIndex s s (Columns s ! i) = Some i"
  using assms Schema_Validate_Inr_D(1) [of s] indexBy_nth [of colID "Columns s" i] indexBy_nth [of colName "Columns s" i]
  by (auto simp: sourceIndex_def evolvable_def)

lemma mapColumns_self:
  assumes "evolvable s" "k + length cs = length (Columns s)" "\<forall>i<length cs. cs ! i = Columns s ! (k + i)"
  shows "mapColumns s s cs = Inr (map int [k..<k + length cs])"
  using assms(2,3)
proof (induction cs arbitrary: k)
  case (Cons c cs)
  from Cons.prems(2) have c: "c = Columns s ! k" by force
  have "sourceIndex s s c = Some k"
    unfolding c by (rule sourceIndex_self [OF assms(1)]) (use Cons.prems(1) in simp)
  moreover have "mapColumns s s cs = Inr (map int [Suc k..<Suc k + length cs])"
  proof (rule Cons.IH)
    show "\<forall>i<length cs. cs ! i = Columns s ! (Suc k + i)"
      using Cons.prems(2) by (auto dest: spec [of _ "Suc _"])
  qed (use Cons.prems(1) in simp)
  ultimately show ?case
    using c by (simp add: compatibleColumnType_def upt_conv_Cons del: upt_Suc)
qed simp

lemma evolveColumns_self:
  assumes "k + length cs = length row" "\<forall>i<length cs. row ! (k + i) = VNil \<longrightarrow> colNullable (cs ! i)"
  shows "evolveColumns row cs (map int [k..<k + length cs]) = Inr (drop k row)"
  using assms
proof (induction cs arbitrary: k)
  case (Cons c cs)
  have "evolveColumns row cs (map int [Suc k..<Suc k + length cs]) = Inr (drop (Suc k) row)"
  proof (rule Cons.IH)
    show "\<forall>i<length cs. row ! (Suc k + i) = VNil \<longrightarrow> colNullable (cs ! i)"
      using Cons.prems(2) by (auto dest: spec [of _ "Suc _"])
  qed (use Cons.prems(1) in simp)
  moreover have "row ! k = VNil \<longrightarrow> colNullable c" using Cons.prems(2) by force
  moreover have "drop k row = row ! k # drop (Suc k) row"
    using Cons.prems(1) by (intro Cons_nth_drop_Suc [symmetric]) simp
  ultimately show ?case
    using Cons.prems(1) by (simp add: upt_conv_Cons go_index_def del: upt_Suc)
qed simp

lemma evolveRow_self:
  assumes "evolvable s" "length row = length (Columns s)"
    and "\<forall>i<length row. row ! i = VNil \<longrightarrow> colNullable (Columns s ! i)"
  shows "evolveRow s s row = Inr row"
  using assms mapColumns_self [of s 0 "Columns s"] evolveColumns_self [of 0 "Columns s" row]
  by (simp add: evolveRow_def schemaColumnMapping_def)

lemma canon_VNil_iff: "canon arr enc lt v = VNil \<longleftrightarrow> v = VNil"
  by (subst canon.simps) (auto simp: mapEntries_def split: go_value.splits option.splits data_type.splits)

lemma evolve_decoded:
  assumes "evolvable s" "encodeRow s row enc = Inr bytes"
  shows "evolveRow s s (canonRow e (Columns s) row) = Inr (canonRow e (Columns s) row)"
proof -
  from assms(2) have v: "ValidateRow s row [] = Inr ()" by (auto simp: encodeRow.simps)
  have ok: "list_all2 (\<lambda>c v. validateColumnValue c v = Inr ()) (Columns s) row" by (rule ValidateRow_Inr_D(2) [OF v])
  then have len: "length row = length (Columns s)" using list_all2_lengthD by fastforce
  show ?thesis
  proof (rule evolveRow_self [OF assms(1)])
    show "length (canonRow e (Columns s) row) = length (Columns s)" by (simp add: canonRow_def len)
    show "\<forall>i<length (canonRow e (Columns s) row). canonRow e (Columns s) row ! i = VNil
        \<longrightarrow> colNullable (Columns s ! i)"
      using ok len by (auto simp: canonRow_def canon_VNil_iff list_all2_conv_all_nth validateColumnValue_def
          split: if_splits)
  qed
qed

section \<open>One encoded batch\<close>

text \<open>The records that decoding gives back, and the offset behind the last one.\<close>

definition decodedRecords :: "(int \<Rightarrow> int) \<Rightarrow> schema \<Rightarrow> bool \<Rightarrow> log_batch \<Rightarrow> go_record list" where
  "decodedRecords localOffset s compacted b =
     map (\<lambda>(i, r). logRecordAt localOffset s compacted b i r) (zip [0..<length (Records b)] (Records b))"

definition batchEnd :: "log_batch \<Rightarrow> int" where
  "batchEnd b = sint (BaseOffset b) + int (length (Records b))"

definition nextAfter :: "int \<Rightarrow> go_record list \<Rightarrow> int" where
  "nextAfter current rs = (if rs = [] then current else sint (recOffset (last rs)) + 1)"

abbreviation fromOffset :: "int \<Rightarrow> go_record list \<Rightarrow> go_record list" where
  "fromOffset offset rs \<equiv> filter (\<lambda>r. offset \<le> sint (recOffset r)) rs"

text \<open>A batch that the log encoder wrote for the reader's schema, small enough and with offsets in range.\<close>

definition written :: "(table_path \<Rightarrow> int \<Rightarrow> schema result) \<Rightarrow> table \<Rightarrow> bool \<Rightarrow> log_batch \<Rightarrow> bytes \<Rightarrow> bool" where
  "written resolver t compacted b p \<longleftrightarrow> EncodeRows b (tblSchema t) compacted = Inr p
     \<and> (\<forall>r \<in> set (Records b). \<forall>v \<in> set (recValue r). wfValue v) \<and> int (length p) \<le> maxRowBytes
     \<and> resolver (tblPath t) (sint (SchemaID b)) = Inr (tblSchema t)
     \<and> 0 \<le> sint (BaseOffset b) \<and> batchEnd b \<le> maxInt64"

lemma length_decodedRecords [simp]: "length (decodedRecords lo s compacted b) = length (Records b)"
  by (simp add: decodedRecords_def)

lemma offset_of_decoded:
  assumes "0 \<le> sint (BaseOffset b)" "batchEnd b \<le> maxInt64" "i < length (Records b)"
  shows "sint (recOffset (decodedRecords lo s compacted b ! i)) = sint (BaseOffset b) + int i"
proof -
  have i: "int i < 2 ^ 63" using assms by (simp add: batchEnd_def maxInt64_def)
  then have "sint (of_nat i :: 64 word) = int i" by (simp add: signed_of_nat signed_take_bit_int_eq_self)
  then have "sint (BaseOffset b + of_nat i) = sint (BaseOffset b) + int i"
    using assms i
    by (simp add: sint_word_ariths(1) signed_take_bit_int_eq_self batchEnd_def maxInt64_def)
  then show ?thesis using assms(3) by (simp add: decodedRecords_def logRecordAt_def)
qed


lemma decoded_offset_bounds:
  assumes "0 \<le> sint (BaseOffset b)" "batchEnd b \<le> maxInt64" "r \<in> set (decodedRecords lo s compacted b)"
  shows "sint (BaseOffset b) \<le> sint (recOffset r) \<and> sint (recOffset r) < batchEnd b"
proof -
  from assms(3) obtain i where "i < length (Records b)" "r = decodedRecords lo s compacted b ! i"
    by (auto simp: in_set_conv_nth)
  with offset_of_decoded [OF assms(1,2)] show ?thesis by (simp add: batchEnd_def)
qed

lemma filter_from:
  assumes "\<And>i. i < length xs \<Longrightarrow> f (xs ! i) = base + int i"
  shows "filter (\<lambda>x. current \<le> f x) xs = drop (nat (current - base)) xs"
  using assms
proof (induction xs arbitrary: base)
  case (Cons x xs)
  have x: "f x = base" using Cons.prems [of 0] by simp
  have IH: "filter (\<lambda>x. current \<le> f x) xs = drop (nat (current - (base + 1))) xs"
    by (rule Cons.IH) (use Cons.prems [of "Suc _"] in simp)
  show ?case
  proof (cases "current \<le> base")
    case True
    with x IH show ?thesis by simp
  next
    case False
    then have "nat (current - base) = Suc (nat (current - (base + 1)))" by linarith
    with False x IH show ?thesis by simp
  qed
qed simp

lemma batch_from_offset:
  fixes lo s compacted
  assumes "0 \<le> sint (BaseOffset b)" "batchEnd b \<le> maxInt64"
  defines "rs \<equiv> decodedRecords lo s compacted b"
  shows "\<exists>start nxt. fetchedBatchOffsets (sint (BaseOffset b)) (int (length rs)) current = Inr (start, nxt)
    \<and> go_slice rs start (int (length rs)) = Inr (fromOffset current rs) \<and> nxt = nextAfter current (fromOffset current rs)"
proof (cases "rs = []")
  case True
  then show ?thesis by (simp add: fetchedBatchOffsets_def nextAfter_def go_slice_def)
next
  case False
  let ?base = "sint (BaseOffset b)" let ?n = "int (length rs)"
  have off: "sint (recOffset (rs ! i)) = ?base + int i" if "i < length rs" for i
    using offset_of_decoded [OF assms(1,2)] that by (simp add: rs_def)
  have n: "?n = batchEnd b - ?base" by (simp add: rs_def batchEnd_def)
  define start where "start = (if current \<ge> ?base + ?n then ?n else if current > ?base then current - ?base else 0)"
  have sl: "drop (nat start) rs = fromOffset current rs"
    using filter_from [of rs "\<lambda>r. sint (recOffset r)" ?base current, OF off] by (auto simp: start_def)
  have bounds: "0 \<le> start" "start \<le> ?n" by (auto simp: start_def)
  have "go_slice rs start ?n = Inr (fromOffset current rs)"
    using bounds unfolding sl [symmetric] by (simp add: go_slice_ok)
  moreover have "fetchedBatchOffsets ?base ?n current = Inr (start, if ?base + ?n > current then ?base + ?n else current)"
  proof -
    have "?n \<noteq> 0" "\<not> ?n < 0" "\<not> ?base > maxInt64 - ?n" using False assms(2) n by auto
    then show ?thesis unfolding fetchedBatchOffsets_def start_def Let_def by (simp only: if_False guardE_simps)
  qed
  moreover have "(if ?base + ?n > current then ?base + ?n else current) = nextAfter current (fromOffset current rs)"
  proof (cases "?base + ?n > current")
    case True
    then have "nat start < length rs" using False by (auto simp: start_def)
    then have "fromOffset current rs \<noteq> []" "last (fromOffset current rs) = rs ! (length rs - 1)"
      unfolding sl [symmetric] by (simp_all add: last_drop last_conv_nth False)
    then show ?thesis using True off [of "length rs - 1"] False
      by (cases "length rs") (simp_all add: nextAfter_def)
  next
    case False
    then have "fromOffset current rs = []" unfolding sl [symmetric] by (simp add: start_def)
    with False show ?thesis by (simp add: nextAfter_def)
  qed
  ultimately show ?thesis by blast
qed


lemma written_layout:
  assumes "written resolver t compacted b p"
  obtains body where "p = logLayout b (word_of_int (int (length p) - 12)) (Checksum (logTail b body)) (logTail b body)"
    "Magic b = 0 \<or> Magic b = 1"
proof -
  from assms have "EncodeRows b (tblSchema t) compacted = Inr p" by (simp add: written_def)
  from EncodeRows_layout [OF this] obtain parts where "Magic b = 0 \<or> Magic b = 1"
    "p = logLayout b (word_of_int (int (length p) - 12)) (Checksum (logTail b (concat parts))) (logTail b (concat parts))"
    by metis
  then show thesis using that [of "concat parts"] by blast
qed

lemma written_size:
  assumes "written resolver t compacted b p"
  shows "completeFetchedBatchSize (p @ rest) = Inr (int (length p), True)" "48 \<le> length p"
proof -
  obtain body where p: "p = logLayout b (word_of_int (int (length p) - 12)) (Checksum (logTail b body)) (logTail b body)"
    and m: "Magic b = 0 \<or> Magic b = 1" using assms by (rule written_layout)
  show len: "48 \<le> length p" by (subst p) simp
  have max: "int (length p) \<le> maxRowBytes" using assms by (simp add: written_def)
  have "uint (word_of_int (int (length p) - 12) :: 32 word) = int (length p) - 12"
    using max len by (intro uint_of_int_count) simp_all
  moreover have "le_get 4 (p @ rest) 8 = Inr (word_of_int (int (length p) - 12) :: 32 word)"
    using log_fields(2) [OF m p] len by (simp add: le_get_def go_slice_def)
  ultimately show "completeFetchedBatchSize (p @ rest) = Inr (int (length p), True)"
    using len by (simp add: completeFetchedBatchSize_def logBatchV0HeaderSize_def)
qed

lemma evolveScanRecords_self:
  assumes "\<forall>r\<in>set rs. evolveRow s s (recValue r) = Inr (recValue r)"
  shows "evolveScanRecords s s (map (\<lambda>r. \<lparr>srBucket = k, srRecord = r\<rparr>) rs)
    = Inr (map (\<lambda>r. \<lparr>srBucket = k, srRecord = r\<rparr>) rs)"
  using assms by (induction rs) simp_all

lemma decoded_evolve:
  assumes "evolvable (tblSchema t)" "written resolver t compacted b p"
    and "r \<in> set (decodedRecords lo (tblSchema t) compacted b)"
  shows "evolveRow (tblSchema t) (tblSchema t) (recValue r) = Inr (recValue r)"
proof -
  let ?s = "tblSchema t"
  from assms(2) have "EncodeRows b ?s compacted = Inr p" by (simp add: written_def)
  from EncodeRows_layout [OF this] obtain parts where
    "list_all2 (logRecordBytes ?s compacted) (Records b) parts" by metis
  then have "\<forall>x\<in>set (Records b). \<exists>p. logRecordBytes ?s compacted x p"
    by (induction rule: list_all2_induct) auto
  then have enc: "\<forall>x\<in>set (Records b). \<exists>bytes. encodeRow ?s (recValue x) (if compacted then CompactedEncoding
      else IndexedEncoding) = Inr bytes"
    unfolding logRecordBytes_def by blast
  from assms(3) obtain i x where x: "x \<in> set (Records b)" "r = logRecordAt lo ?s compacted b i x"
    by (auto simp: decodedRecords_def dest: set_zip_rightD)
  with enc evolve_decoded [OF assms(1)] show ?thesis by (auto simp: logRecordAt_def)
qed

lemma written_decodes:
  fixes current lo
  assumes "evolvable (tblSchema t)" "written resolver t compacted b p"
  defines "rs \<equiv> fromOffset current (decodedRecords lo (tblSchema t) compacted b)"
  shows "decodeEvolvedFetchedBatch lib lo resolver t bucket current p compacted
    = Inr (nextAfter current rs, map (\<lambda>r. \<lparr>srBucket = bucket, srRecord = r\<rparr>) rs, None)"
proof -
  let ?s = "tblSchema t" let ?rs = "decodedRecords lo ?s compacted b"
  obtain body where p: "p = logLayout b (word_of_int (int (length p) - 12)) (Checksum (logTail b body)) (logTail b body)"
    and m: "Magic b = 0 \<or> Magic b = 1" using assms(2) by (rule written_layout)
  from assms(2) have w: "EncodeRows b ?s compacted = Inr p" "\<forall>r \<in> set (Records b). \<forall>v \<in> set (recValue r). wfValue v"
    "int (length p) \<le> maxRowBytes" "resolver (tblPath t) (sint (SchemaID b)) = Inr ?s"
    "0 \<le> sint (BaseOffset b)" "batchEnd b \<le> maxInt64" by (simp_all add: written_def)
  have dec: "DecodeLogBatchRows lo ?s p compacted = Inr (b\<lparr>LeaderEpoch := (if Magic b = 1 then LeaderEpoch b else 0),
      Records := ?rs\<rparr>)"
    using DecodeLogBatchRows_EncodeRows [OF w(1-3)] by (simp add: decodedRecords_def)
  obtain start nxt where o: "fetchedBatchOffsets (sint (BaseOffset b)) (int (length ?rs)) current = Inr (start, nxt)"
    "go_slice ?rs start (int (length ?rs)) = Inr rs" "nxt = nextAfter current rs"
    using batch_from_offset [OF w(5,6)] unfolding rs_def by blast
  have "decodeFetchedBatch lib lo ?s bucket current p compacted
      = Inr (nextAfter current rs, map (\<lambda>r. \<lparr>srBucket = bucket, srRecord = r\<rparr>) rs, None)"
    using o by (simp add: decodeFetchedBatch_def dec)
  moreover have "evolveScanRecords ?s ?s (map (\<lambda>r. \<lparr>srBucket = bucket, srRecord = r\<rparr>) rs)
      = Inr (map (\<lambda>r. \<lparr>srBucket = bucket, srRecord = r\<rparr>) rs)"
    using decoded_evolve [OF assms(1,2)] by (intro evolveScanRecords_self) (auto simp: rs_def)
  ultimately show ?thesis
    by (simp add: decodeEvolvedFetchedBatch_def logBatchHeader_layout [OF m p w(3)] log_fields(8) [OF m p] w(4))
qed


section \<open>The whole response\<close>

lemma nextAfter_append: "nextAfter current (xs @ ys) = nextAfter (nextAfter current xs) ys"
  by (simp add: nextAfter_def)

lemma fromOffset_later:
  fixes lo
  assumes "written resolver t compacted b p" "written resolver t compacted b' p'"
    and "batchEnd b \<le> sint (BaseOffset b')"
  defines "rs \<equiv> decodedRecords lo (tblSchema t) compacted b"
  shows "fromOffset (nextAfter current (fromOffset current rs)) (decodedRecords lo' s' c' b')
    = fromOffset current (decodedRecords lo' s' c' b')"
proof (rule filter_cong [OF refl])
  fix r
  assume "r \<in> set (decodedRecords lo' s' c' b')"
  with assms(2,3) decoded_offset_bounds [of b' r lo' s' c'] have r: "batchEnd b \<le> sint (recOffset r)"
    by (auto simp: written_def)
  show "(nextAfter current (fromOffset current rs) \<le> sint (recOffset r)) = (current \<le> sint (recOffset r))"
  proof (cases "fromOffset current rs = []")
    case False
    then have "last (fromOffset current rs) \<in> set rs" "current \<le> sint (recOffset (last (fromOffset current rs)))"
      using last_in_set [OF False] by auto
    moreover then have "sint (recOffset (last (fromOffset current rs))) < batchEnd b"
      using assms(1) decoded_offset_bounds [of b] unfolding rs_def written_def by blast
    ultimately show ?thesis using r False by (simp add: nextAfter_def)
  qed (simp add: nextAfter_def)
qed

lemma decode_written:
  assumes "evolvable (tblSchema t)" "list_all2 (written resolver t compacted) bs ps"
    and "sorted_wrt (\<lambda>b b'. batchEnd b \<le> sint (BaseOffset b')) bs"
    and "completeFetchedBatchSize tail = Inr (0, False)"
  shows "decodeFetchedLogBatches lib lo resolver t bucket compacted True current rows arrows (concat ps @ tail)
    = (let rs = fromOffset current (concat (map (decodedRecords lo (tblSchema t) compacted) bs))
       in Inr (nextAfter current rs, rows @ map (\<lambda>r. \<lparr>srBucket = bucket, srRecord = r\<rparr>) rs, arrows))"
  using assms(2,3)
proof (induction bs ps arbitrary: current rows rule: list_all2_induct)
  case Nil
  then show ?case using assms(4) by (simp add: decodeFetchedLogBatches.simps nextAfter_def)
next
  case (Cons b bs p ps)
  let ?dec = "decodedRecords lo (tblSchema t) compacted"
  let ?rs = "fromOffset current (?dec b)" let ?cur = "nextAfter current ?rs"
  note sz = written_size(1) [OF Cons.hyps(1), of "concat ps @ tail"] written_size(2) [OF Cons.hyps(1)]
  have later: "fromOffset ?cur (?dec b') = fromOffset current (?dec b')" if b': "b' \<in> set bs" for b'
  proof -
    obtain p' where "written resolver t compacted b' p'"
      using Cons.hyps(2) b' by (auto simp: list_all2_conv_all_nth in_set_conv_nth)
    with Cons.hyps(1) Cons.prems b' show ?thesis by (intro fromOffset_later) auto
  qed
  have rest: "fromOffset ?cur (concat (map ?dec bs)) = fromOffset current (concat (map ?dec bs))"
    using later by (simp add: filter_concat cong: map_cong)
  have "decodeFetchedLogBatches lib lo resolver t bucket compacted True current rows arrows (concat (p # ps) @ tail)
    = decodeFetchedLogBatches lib lo resolver t bucket compacted True ?cur
        (rows @ map (\<lambda>r. \<lparr>srBucket = bucket, srRecord = r\<rparr>) ?rs) arrows (concat ps @ tail)"
    using sz written_decodes [OF assms(1) Cons.hyps(1), of lib lo bucket current]
    by (subst decodeFetchedLogBatches.simps) auto
  also have "\<dots> = (let rs = fromOffset ?cur (concat (map ?dec bs))
       in Inr (nextAfter ?cur rs, (rows @ map (\<lambda>r. \<lparr>srBucket = bucket, srRecord = r\<rparr>) ?rs)
            @ map (\<lambda>r. \<lparr>srBucket = bucket, srRecord = r\<rparr>) rs, arrows))"
    using Cons.prems by (intro Cons.IH) simp
  also have "\<dots> = (let rs = fromOffset current (concat (map ?dec (b # bs)))
       in Inr (nextAfter current rs, rows @ map (\<lambda>r. \<lparr>srBucket = bucket, srRecord = r\<rparr>) rs, arrows))"
    unfolding rest Let_def by (simp add: nextAfter_append)
  finally show ?case .
qed

text \<open>C15. Decoding a fetch response is exact: for batches that the log encoder wrote in ascending offset order, followed
  by a batch that the byte limit cut off, the scanner gets exactly the records from the fetch offset on, in order and
  with their bucket, and the next offset is right behind the last of them. The cut-off batch is ignored, so nothing of
  it is lost or delivered twice.\<close>

theorem fetch_response_exact:
  fixes fetchOffset localOffset
  assumes "evolvable (tblSchema t)" "list_all2 (written resolver t compacted) bs ps"
    and "sorted_wrt (\<lambda>b b'. batchEnd b \<le> sint (BaseOffset b')) bs"
    and "completeFetchedBatchSize tail = Inr (0, False)"
  defines "rs \<equiv> fromOffset fetchOffset (concat (map (decodedRecords localOffset (tblSchema t) compacted) bs))"
  shows "decodeFetchedFetchResponse lib localOffset resolver t bucket fetchOffset (concat ps @ tail) compacted
    = Inr (nextAfter fetchOffset rs, map (\<lambda>r. \<lparr>srBucket = bucket, srRecord = r\<rparr>) rs, [])"
  unfolding decodeFetchedFetchResponse_def decode_written [OF assms(1-4)] rs_def by (simp add: Let_def)


definition scanTable :: table where
  "scanTable = \<lparr>tblID = 1, tblSchemaID = 1, tblPath = \<lparr>Database = ''d'', TableName = ''t''\<rparr>, tblKind = LogTable,
     tblSchema = exSchema, tblBucketCount = 1, tblProperties = []\<rparr>"

theorem fetch_response_exact_witness:
  "\<exists>bytes. EncodeRows exLog exSchema True = Inr bytes
     \<and> decodeFetchedFetchResponse byteLib (\<lambda>_. 0) (\<lambda>_ _. Inr exSchema) scanTable 3 100 (bytes @ [1, 2, 3]) True
       = Inr (101, map (\<lambda>r. \<lparr>srBucket = 3, srRecord = r\<rparr>) (decodedRecords (\<lambda>_. 0) exSchema True exLog), [])"
proof -
  obtain bytes where b: "EncodeRows exLog exSchema True = Inr bytes" "length bytes = 85"
    using exLog_encode by blast
  have s: "tblSchema scanTable = exSchema" by (simp add: scanTable_def)
  have e: "evolvable (tblSchema scanTable)" unfolding s evolvable_def by code_simp
  have w: "list_all2 (written (\<lambda>_ _. Inr exSchema) scanTable True) [exLog] [bytes]"
    by (simp add: written_def s b maxRowBytes_def maxInt64_def batchEnd_def) (simp add: exLog_def exRow_def)
  have o: "sint (recOffset (decodedRecords (\<lambda>_. 0) exSchema True exLog ! 0)) = 100"
    by (subst offset_of_decoded) (simp_all add: exLog_def batchEnd_def maxInt64_def)
  obtain r where r: "decodedRecords (\<lambda>_. 0) exSchema True exLog = [r]"
    by (simp add: decodedRecords_def exLog_def)
  have t: "completeFetchedBatchSize [1, 2, 3] = Inr (0, False)" by (simp add: completeFetchedBatchSize_def)
  from fetch_response_exact [OF e w _ t, of byteLib "\<lambda>_. 0" 3 100] b o show ?thesis
    by (simp add: s r nextAfter_def)
qed


section \<open>An Arrow batch that is tried after the row decoder has rows\<close>

text \<open>A batch without rows has no record, but it is a row batch as well, so the row decoder takes it: the record that
  \<^verbatim>\<open>decodeFetchedBatch\<close> counts is never nil.\<close>

lemma arrowHeader_logBatchHeader:
  assumes "arrowHeader encoded = Inr (magic, headerSize, crcOff, schemaOff)" "le_get 4 encoded 8 = Inr (len :: 32 word)"
    and "le_get 4 encoded crcOff = Inr crc" "go_slice encoded schemaOff (int (length encoded)) = Inr tail"
    and "uint len = int (length encoded) - 12" "crc = Checksum tail"
  shows "logBatchHeader encoded = Inr (magic, headerSize, schemaOff) \<and> (magic = 0 \<or> magic = 1)
    \<and> headerSize \<le> int (length encoded) \<and> headerSize = schemaOff + 23 \<and> schemaOff \<in> {25, 29}"
proof -
  from assms(1) obtain m where m: "\<not> length encoded < 13" "\<not> int (length encoded) > maxRowBytes"
    "go_index encoded 12 = Inr m" by (auto simp: arrowHeader_def)
  consider "m = 0" "magic = 0" "48 \<le> length encoded" "headerSize = 48" "crcOff = 21" "schemaOff = 25"
    | "m = 1" "magic = 1" "52 \<le> length encoded" "headerSize = 52" "crcOff = 25" "schemaOff = 29"
    using assms(1) m
    by (auto simp: arrowHeader_def logBatchV0HeaderSize_def logBatchV1HeaderSize_def split: if_splits)
  then show ?thesis
    by cases (use assms m in \<open>simp_all add: logBatchHeader_def logBatchV0HeaderSize_def logBatchV1HeaderSize_def\<close>)
qed

lemma le_get_in:
  "0 \<le> off \<Longrightarrow> off + int n \<le> int (length bs) \<Longrightarrow> le_get n bs off = Inr (le_word (take n (drop (nat off) bs)))"
  by (simp add: le_get_def go_slice_def)

lemma arrow_record_present:
  assumes "DecodeArrowLogBatch lib (Some sch) payload = Inr b" "abRecord b = None"
  shows "\<exists>batch. DecodeLogBatchRows localOffset s payload compacted = Inr batch"
proof -
  from assms(1) obtain magic headerSize crcOff schemaOff len crc tail count32 attributes changes position p rcd where
    hdr: "arrowHeader payload = Inr (magic, headerSize, crcOff, schemaOff)" "le_get 4 payload 8 = Inr (len :: 32 word)"
      "le_get 4 payload crcOff = Inr crc" "go_slice payload schemaOff (int (length payload)) = Inr tail"
      "uint len = int (length payload) - 12" "crc = Checksum tail"
    and count: "le_get 4 payload (schemaOff + 3 + 16) = Inr (count32 :: 32 word)"
    and attr: "go_index payload (schemaOff + 2) = Inr attributes"
    and ch: "decodeArrowChanges payload headerSize (uint count32) (attributes AND 1 \<noteq> 0) = Inr (changes, position)"
    and sl: "go_slice payload position (int (length payload)) = Inr p"
    and rec: "decodeArrowRecord lib sch p (uint count32) = Inr rcd" and b: "abRecord b = rcd"
    by (auto simp: DecodeArrowLogBatch_def Let_def)
  note h = arrowHeader_logBatchHeader [OF hdr]
  from rec b assms(2) have z: "uint count32 = 0" "p = []"
    by (auto simp: decodeArrowRecord_def split: if_splits)
  with ch have "position = headerSize" by (auto simp: decodeArrowChanges_def split: if_splits)
  with sl z h have len: "int (length payload) = headerSize" by (auto simp: go_slice_def split: if_splits)
  have "count32 = 0" using z(1) by (simp add: uint_0_iff)
  then show ?thesis
    using h attr count len by (auto simp: DecodeLogBatchRows_def Let_def le_get_in)
qed

end
