(* ===== verification/Scanner_Properties.thy ===== *)
theory Scanner_Properties
  imports Scanner_Steps Decode_Properties
begin

text \<open>
  What a log scanner delivers. The invariant has four parts: the taken rows of a subscription are a window of the log;
  every taken row is in a result, in the poll under way or was dropped with an interrupted poll; the delivered count is
  the number of those rows; and the bounds hold.
\<close>

section \<open>The invariant\<close>

definition window_inv :: "(int \<Rightarrow> int set) \<Rightarrow> 'r scan_state \<Rightarrow> bool" where
  "window_inv blog c \<longleftrightarrow> (\<forall>b offset. map_of (lsOffset (ckScanner c)) b = Some offset \<longrightarrow> offset \<le> maxInt64
     \<and> ckStart c b \<le> offset \<and> ckTaken c b = {x \<in> blog b. ckStart c b \<le> x \<and> x < offset})"

definition returnedOffsets :: "'r arrow_lib \<Rightarrow> int \<Rightarrow> 'r scan_state \<Rightarrow> int set" where
  "returnedOffsets lib b c = (\<Union>r\<in>set (ckReturned c). resultOffsets lib b r)"

definition cover_inv :: "'r arrow_lib \<Rightarrow> 'r scan_state \<Rightarrow> bool" where
  "cover_inv lib c \<longleftrightarrow> (\<forall>b. ckTaken c b \<subseteq> returnedOffsets lib b c \<union> phaseOffsets lib b (ckPoll c) \<union> ckLost c b)"

definition returnedRows :: "'r arrow_lib \<Rightarrow> 'r scan_state \<Rightarrow> int" where
  "returnedRows lib c = sum_list (map (resultRows lib) (ckReturned c))"

definition count_inv :: "'r arrow_lib \<Rightarrow> 'r scan_state \<Rightarrow> bool" where
  "count_inv lib c \<longleftrightarrow> lsDelivered (ckScanner c) = returnedRows lib c + phaseRows lib (ckPoll c) + ckLostRows c
     \<and> 0 \<le> ckLostRows c \<and> 0 \<le> phaseRows lib (ckPoll c)"

definition poll_offsets_ok :: "'r poll_phase \<Rightarrow> bool" where
  "poll_offsets_ok p = (case p of NoPoll \<Rightarrow> True
     | AtBucket offsets _ _ \<Rightarrow> \<forall>b offset. map_of offsets b = Some offset \<longrightarrow> offset \<le> maxInt64
     | AfterBucket offsets _ _ \<Rightarrow> \<forall>b offset. map_of offsets b = Some offset \<longrightarrow> offset \<le> maxInt64)"

definition limit_inv :: "('p, 'f) scanner_static \<Rightarrow> 'r scan_state \<Rightarrow> bool" where
  "limit_inv st c \<longleftrightarrow> poll_offsets_ok (ckPoll c)
     \<and> (lcRowLimit (ssConfig st) > 0 \<longrightarrow> lsDelivered (ckScanner c) \<le> lcRowLimit (ssConfig st))
     \<and> (\<not> lsDone (ckScanner c) \<longrightarrow> within_limit st (ckScanner c))
     \<and> (\<forall>offsets todo r. ckPoll c = AtBucket offsets todo r \<longrightarrow> within_limit st (ckScanner c))
     \<and> (lcStoppingOffsets (ssConfig st) \<noteq> None \<longrightarrow> (\<forall>b. \<forall>x\<in>ckTaken c b. x < stopOf st b))"

definition scan_inv :: "'r scan_env \<Rightarrow> ('p, 'f) scanner_static \<Rightarrow> (int \<Rightarrow> int set) \<Rightarrow> 'r scan_state \<Rightarrow> bool" where
  "scan_inv env st blog c \<longleftrightarrow> window_inv blog c \<and> cover_inv (seLib env) c \<and> count_inv (seLib env) c \<and> limit_inv st c"

section \<open>Scanner operations\<close>

lemma updateDoneLocked_sel [simp]:
  "lsOffset (updateDoneLocked st s) = lsOffset s" "lsDelivered (updateDoneLocked st s) = lsDelivered s"
  "lsClosed (updateDoneLocked st s) = lsClosed s"
  by (simp_all add: updateDoneLocked_def)

lemma updateDoneLocked_limit: "\<not> lsDone (updateDoneLocked st s) \<Longrightarrow> within_limit st s"
  by (auto simp: updateDoneLocked_def within_limit_def split: if_splits)

lemma within_limit_cong: "lsDelivered s = lsDelivered s' \<Longrightarrow> within_limit st s = within_limit st s'"
  by (simp add: within_limit_def)

lemma Subscribe_ok:
  assumes "Subscribe st b start (Inr offset) s = (Inr (), s')"
  shows "s' = updateDoneLocked st (s\<lparr>lsOffset := AList.update b offset (lsOffset s)\<rparr>)"
  using assms by (auto simp: Subscribe_def split: if_splits sum.splits)

lemma beginPoll_same:
  assumes "beginPoll s = (p, s')"
  shows "same_scan s s'" and "p = PollOffsets offsets \<Longrightarrow> offsets = lsOffset s \<and> \<not> lsDone s"
  using assms by (auto simp: beginPoll_def same_scan_def split: if_splits)

lemma pollBucket_error_same:
  assumes "pollBucket env st ctxErr b offset answer r s = (Inl e, s')"
  shows "same_scan s s'"
proof (cases answer)
  case (Inl e')
  with assms recordFetchError_same [of ctxErr b e' r s] show ?thesis by (simp add: pollBucket_def)
next
  case (Inr fetched)
  with assms show ?thesis by (auto simp: pollBucket_def same_scan_def split: sum.splits prod.splits)
qed

lemma wakeup_close_same:
  "same_scan s (Wakeup s)" "lsDelivered (closeScanner s) = lsDelivered s" "lsDone (closeScanner s) = lsDone s"
  "lsOffset (closeScanner s) = []"
  by (simp_all add: same_scan_def Wakeup_def closeScanner_def)

lemma newOffsets_append:
  "rsRecords r' = rsRecords r @ rows \<Longrightarrow> rsArrowBatches r' = rsArrowBatches r @ arrows \<Longrightarrow>
   newOffsets lib r r' = scanOffsets lib rows arrows"
  by (simp add: newOffsets_def)

lemma resultOffsets_append:
  assumes "rsRecords r' = rsRecords r @ rows" "rsArrowBatches r' = rsArrowBatches r @ arrows" "in_bucket b rows arrows"
  shows "resultOffsets lib b r' = resultOffsets lib b r \<union> scanOffsets lib rows arrows"
    "resultOffsets lib b' r \<subseteq> resultOffsets lib b' r'"
    "resultRows lib r' = resultRows lib r + scanResultRows lib rows arrows"
proof -
  have "filter (\<lambda>x. srBucket x = b) rows = rows" "filter (\<lambda>x. saBucket x = b) arrows = arrows"
    using assms(3) by (simp_all add: in_bucket_def)
  then show "resultOffsets lib b r' = resultOffsets lib b r \<union> scanOffsets lib rows arrows"
    by (auto simp: resultOffsets_def scanOffsets_def assms(1,2))
  show "resultOffsets lib b' r \<subseteq> resultOffsets lib b' r'"
    by (auto simp: resultOffsets_def scanOffsets_def assms(1,2))
  show "resultRows lib r' = resultRows lib r + scanResultRows lib rows arrows"
    by (simp add: resultRows_def scanResultRows_def assms(1,2))
qed

lemma same_rows_result:
  "same_rows r r' \<Longrightarrow> resultOffsets lib b r' = resultOffsets lib b r \<and> resultRows lib r' = resultRows lib r
     \<and> newOffsets lib r r' = {}"
  by (simp add: same_rows_def resultOffsets_def resultRows_def newOffsets_def scanOffsets_def)

lemma resultRows_done [simp]: "resultRows lib (r\<lparr>rsDone := d\<rparr>) = resultRows lib r"
  and resultOffsets_done [simp]: "resultOffsets lib b (r\<lparr>rsDone := d\<rparr>) = resultOffsets lib b r"
  by (simp_all add: resultRows_def resultOffsets_def)

section \<open>Preservation\<close>

text \<open>The invariant only reads the scanner through its offsets, count and flag. Each part is shown to be preserved by
  the steps that change what it reads.\<close>

lemma window_inv_cong:
  "lsOffset (ckScanner c') = lsOffset (ckScanner c) \<Longrightarrow> ckStart c' = ckStart c \<Longrightarrow> ckTaken c' = ckTaken c \<Longrightarrow>
   window_inv blog c' = window_inv blog c"
  by (simp add: window_inv_def)

lemma window_inv_fewer:
  "window_inv blog c \<Longrightarrow> (\<And>b. map_of (lsOffset (ckScanner c')) b = None \<or> map_of (lsOffset (ckScanner c')) b = map_of (lsOffset (ckScanner c)) b)
   \<Longrightarrow> ckStart c' = ckStart c \<Longrightarrow> ckTaken c' = ckTaken c \<Longrightarrow> window_inv blog c'"
  unfolding window_inv_def by (metis option.distinct(1))

lemma cover_inv_cong:
  "ckTaken c' = ckTaken c \<Longrightarrow> ckReturned c' = ckReturned c \<Longrightarrow> ckLost c' = ckLost c \<Longrightarrow>
   (\<And>b. phaseOffsets lib b (ckPoll c') = phaseOffsets lib b (ckPoll c)) \<Longrightarrow> cover_inv lib c' = cover_inv lib c"
  by (simp add: cover_inv_def returnedOffsets_def)

lemma count_inv_cong:
  "lsDelivered (ckScanner c') = lsDelivered (ckScanner c) \<Longrightarrow> ckReturned c' = ckReturned c \<Longrightarrow>
   ckLostRows c' = ckLostRows c \<Longrightarrow> phaseRows lib (ckPoll c') = phaseRows lib (ckPoll c) \<Longrightarrow>
   count_inv lib c' = count_inv lib c"
  by (simp add: count_inv_def returnedRows_def)

lemma limit_inv_keep:
  assumes "limit_inv st c" "lsDelivered (ckScanner c') = lsDelivered (ckScanner c)" "poll_offsets_ok (ckPoll c')"
    "\<not> lsDone (ckScanner c') \<Longrightarrow> within_limit st (ckScanner c')"
    "\<And>offsets todo r. ckPoll c' = AtBucket offsets todo r \<Longrightarrow> within_limit st (ckScanner c')"
    "\<And>b. ckTaken c' b \<subseteq> ckTaken c b"
  shows "limit_inv st c'"
proof -
  have "lcStoppingOffsets (ssConfig st) \<noteq> None \<Longrightarrow> \<forall>b. \<forall>x\<in>ckTaken c' b. x < stopOf st b"
    using assms(1,6) unfolding limit_inv_def by blast
  moreover have "lcRowLimit (ssConfig st) > 0 \<longrightarrow> lsDelivered (ckScanner c') \<le> lcRowLimit (ssConfig st)"
    using assms(1) unfolding assms(2) limit_inv_def by blast
  ultimately show ?thesis using assms(3-5) unfolding limit_inv_def by blast
qed

lemma limit_invD:
  assumes "limit_inv st c"
  shows "\<not> lsDone (ckScanner c) \<Longrightarrow> within_limit st (ckScanner c)"
    and "ckPoll c = AtBucket offsets todo r \<Longrightarrow> within_limit st (ckScanner c)"
    and "poll_offsets_ok (ckPoll c)"
  using assms unfolding limit_inv_def by blast+

text \<open>Steps of other goroutines, and the beginning of a poll.\<close>

lemma scan_inv_subscribe:
  assumes inv: "scan_inv env st blog c" and "Subscribe st b start (Inr offset) (ckScanner c) = (Inr (), s')"
    and max: "offset \<le> maxInt64"
  shows "scan_inv env st blog (c\<lparr>ckScanner := s', ckStart := (ckStart c)(b := offset), ckTaken := (ckTaken c)(b := {})\<rparr>)"
    (is "scan_inv env st blog ?c")
proof -
  have s': "s' = updateDoneLocked st ((ckScanner c)\<lparr>lsOffset := AList.update b offset (lsOffset (ckScanner c))\<rparr>)"
    by (rule Subscribe_ok [OF assms(2)])
  have d: "lsDelivered s' = lsDelivered (ckScanner c)" by (simp add: s')
  have "window_inv blog ?c" using inv max by (auto simp: scan_inv_def window_inv_def s' update_conv')
  moreover have "cover_inv (seLib env) ?c"
    using inv by (auto simp: scan_inv_def cover_inv_def returnedOffsets_def)
  moreover have "count_inv (seLib env) ?c"
    using inv count_inv_cong [of ?c c "seLib env"] d by (simp add: scan_inv_def)
  moreover have "limit_inv st ?c"
  proof (rule limit_inv_keep)
    show "limit_inv st c" using inv by (simp add: scan_inv_def)
    note L = limit_invD [OF this]
    show "poll_offsets_ok (ckPoll ?c)" using L(3) by simp
    show "within_limit st (ckScanner ?c)" if "\<not> lsDone (ckScanner ?c)"
      using that updateDoneLocked_limit by (fastforce simp: s' within_limit_def)
    show "within_limit st (ckScanner ?c)" if "ckPoll ?c = AtBucket offsets todo r" for offsets todo r
      using L(2) [of offsets todo r] that within_limit_cong [OF d, of st] by simp
  qed (simp_all add: d)
  ultimately show ?thesis by (simp add: scan_inv_def)
qed

lemma scan_inv_other:
  assumes inv: "scan_inv env st blog c" and d: "lsDelivered s' = lsDelivered (ckScanner c)"
    and off: "\<And>b. map_of (lsOffset s') b = None \<or> map_of (lsOffset s') b = map_of (lsOffset (ckScanner c)) b"
    and lim: "\<not> lsDone s' \<Longrightarrow> within_limit st s'"
  shows "scan_inv env st blog (c\<lparr>ckScanner := s'\<rparr>)" (is "scan_inv env st blog ?c")
proof -
  have "window_inv blog ?c" using window_inv_fewer [of blog c ?c] inv off by (simp add: scan_inv_def)
  moreover have "cover_inv (seLib env) ?c"
    using inv cover_inv_cong [of ?c c "seLib env"] by (simp add: scan_inv_def)
  moreover have "count_inv (seLib env) ?c"
    using inv count_inv_cong [of ?c c "seLib env"] d by (simp add: scan_inv_def)
  moreover have "limit_inv st ?c"
  proof (rule limit_inv_keep)
    show "limit_inv st c" using inv by (simp add: scan_inv_def)
    note L = limit_invD [OF this]
    show "poll_offsets_ok (ckPoll ?c)" using L(3) by simp
    show "within_limit st (ckScanner ?c)" if "ckPoll ?c = AtBucket offsets todo r" for offsets todo r
      using L(2) [of offsets todo r] that within_limit_cong [OF d, of st] by simp
  qed (simp_all add: d lim)
  ultimately show ?thesis by (simp add: scan_inv_def)
qed

lemma scan_inv_same:
  assumes "scan_inv env st blog c" "same_scan (ckScanner c) s'"
  shows "scan_inv env st blog (c\<lparr>ckScanner := s'\<rparr>)"
proof (rule scan_inv_other [OF assms(1)])
  have "limit_inv st c" using assms(1) by (simp add: scan_inv_def)
  from limit_invD(1) [OF this] show "\<not> lsDone s' \<Longrightarrow> within_limit st s'"
    using assms(2) within_limit_cong [of s' "ckScanner c" st] by (simp add: same_scan_def)
qed (use assms(2) in \<open>simp_all add: same_scan_def\<close>)

lemma scan_inv_begin:
  assumes inv: "scan_inv env st blog c" and "ckPoll c = NoPoll" "\<not> lsDone (ckScanner c)"
  shows "scan_inv env st blog (c\<lparr>ckPoll := AtBucket (lsOffset (ckScanner c)) todo emptyResult\<rparr>)"
    (is "scan_inv env st blog ?c")
proof -
  have "window_inv blog ?c" using window_inv_cong [of ?c c blog] inv by (simp add: scan_inv_def)
  moreover have "cover_inv (seLib env) ?c"
    using inv cover_inv_cong [of ?c c "seLib env"] assms(2)
    by (simp add: scan_inv_def phaseOffsets_def resultOffsets_def scanOffsets_def emptyResult_def)
  moreover have "count_inv (seLib env) ?c"
    using inv count_inv_cong [of ?c c "seLib env"] assms(2)
    by (simp add: scan_inv_def phaseRows_def resultRows_def emptyResult_def scanResultRows_def)
  moreover have "limit_inv st ?c"
  proof (rule limit_inv_keep)
    show "limit_inv st c" using inv by (simp add: scan_inv_def)
    note L = limit_invD [OF this]
    show "poll_offsets_ok (ckPoll ?c)" using inv by (auto simp: scan_inv_def poll_offsets_ok_def window_inv_def)
    show "within_limit st (ckScanner ?c)" using L(1) assms(3) by simp
    then show "within_limit st (ckScanner ?c)" .
  qed simp_all
  ultimately show ?thesis by (simp add: scan_inv_def)
qed

text \<open>Steps of the poll that move to another bucket or end the poll.\<close>

lemma scan_inv_move:
  assumes inv: "scan_inv env st blog c" and ph: "\<And>b. phaseOffsets (seLib env) b p = phaseOffsets (seLib env) b (ckPoll c)"
    and rows: "phaseRows (seLib env) p = phaseRows (seLib env) (ckPoll c)"
    and po: "poll_offsets_ok p" and w: "within_limit st (ckScanner c)"
  shows "scan_inv env st blog (c\<lparr>ckPoll := p\<rparr>)" (is "scan_inv env st blog ?c")
proof -
  have "window_inv blog ?c" using window_inv_cong [of ?c c blog] inv by (simp add: scan_inv_def)
  moreover have "cover_inv (seLib env) ?c"
    using inv cover_inv_cong [of ?c c "seLib env"] ph by (simp add: scan_inv_def)
  moreover have "count_inv (seLib env) ?c"
    using inv count_inv_cong [of ?c c "seLib env"] rows by (simp add: scan_inv_def)
  moreover have "limit_inv st ?c"
    by (rule limit_inv_keep [of st c]) (use inv in \<open>simp_all add: scan_inv_def po w\<close>)
  ultimately show ?thesis by (simp add: scan_inv_def)
qed

lemma scan_inv_return:
  assumes inv: "scan_inv env st blog c"
    and ph: "\<And>b. phaseOffsets (seLib env) b (ckPoll c) = resultOffsets (seLib env) b r"
    and rows: "phaseRows (seLib env) (ckPoll c) = resultRows (seLib env) r"
  shows "scan_inv env st blog (c\<lparr>ckPoll := NoPoll, ckReturned := ckReturned c @ [r\<lparr>rsDone := d\<rparr>]\<rparr>)"
    (is "scan_inv env st blog ?c")
proof -
  have "window_inv blog ?c" using window_inv_cong [of ?c c blog] inv by (simp add: scan_inv_def)
  moreover have "cover_inv (seLib env) ?c"
    using inv ph by (auto simp: scan_inv_def cover_inv_def returnedOffsets_def phaseOffsets_def)
  moreover have "count_inv (seLib env) ?c"
    using inv rows by (auto simp: scan_inv_def count_inv_def returnedRows_def phaseRows_def)
  moreover have "limit_inv st ?c"
    by (rule limit_inv_keep [of st c]) (use inv limit_invD(1) [of st c] in \<open>simp_all add: scan_inv_def poll_offsets_ok_def\<close>)
  ultimately show ?thesis by (simp add: scan_inv_def)
qed

lemma scan_inv_fail:
  assumes inv: "scan_inv env st blog c" and p: "ckPoll c = AtBucket offsets todo r"
  shows "scan_inv env st blog (c\<lparr>ckPoll := NoPoll, ckLost := (\<lambda>b. ckLost c b \<union> resultOffsets (seLib env) b r),
     ckLostRows := ckLostRows c + resultRows (seLib env) r\<rparr>)"
    (is "scan_inv env st blog ?c")
proof -
  have "window_inv blog ?c" using window_inv_cong [of ?c c blog] inv by (simp add: scan_inv_def)
  moreover have "cover_inv (seLib env) ?c"
    using inv p by (auto simp: scan_inv_def cover_inv_def returnedOffsets_def phaseOffsets_def)
  moreover have "count_inv (seLib env) ?c"
    using inv p by (auto simp: scan_inv_def count_inv_def returnedRows_def phaseRows_def)
  moreover have "limit_inv st ?c"
    by (rule limit_inv_keep [of st c]) (use inv limit_invD(1) [of st c] in \<open>simp_all add: scan_inv_def poll_offsets_ok_def\<close>)
  ultimately show ?thesis by (simp add: scan_inv_def)
qed

text \<open>A poll of a bucket: the window that is taken extends the window of the subscription.\<close>

lemma scan_inv_take:
  fixes c :: "'r scan_state" and blog :: "int \<Rightarrow> int set"
  assumes inv: "scan_inv env st blog c" and p: "ckPoll c = AtBucket offsets (b # todo) r"
    and m: "map_of offsets b = Some offset"
    and tw: "takes_window env st blog b offset (ckScanner c) rows arrows n nxt"
    and r': "rsRecords r' = rsRecords r @ rows" "rsArrowBatches r' = rsArrowBatches r @ arrows"
  defines "s' \<equiv> advanceOffset st b offset nxt n (ckScanner c)"
  defines "c' \<equiv> c\<lparr>ckScanner := s', ckPoll := AfterBucket offsets todo r',
      ckTaken := (if map_of (lsOffset (ckScanner c)) b = Some offset
        then (ckTaken c)(b := ckTaken c b \<union> newOffsets (seLib env) r r') else ckTaken c)\<rparr>"
  shows "scan_inv env st blog c'"
proof -
  have tb: "in_bucket b rows arrows" "offset \<le> nxt" "nxt \<le> maxInt64" "n = scanResultRows (seLib env) rows arrows" "0 \<le> n"
    "scanOffsets (seLib env) rows arrows = {x \<in> blog b. offset \<le> x \<and> x < nxt}"
    "lcRowLimit (ssConfig st) > 0 \<Longrightarrow> lsDelivered (ckScanner c) + n \<le> lcRowLimit (ssConfig st)"
    "lcStoppingOffsets (ssConfig st) \<noteq> None \<Longrightarrow> nxt \<le> stopOf st b"
    using tw unfolding takes_window_def by blast+
  note ra = resultOffsets_append [OF r' tb(1)]
  have new: "newOffsets (seLib env) r r' = {x \<in> blog b. offset \<le> x \<and> x < nxt}"
    by (simp add: newOffsets_append [OF r'] tb(6))
  have iv: "window_inv blog c" "cover_inv (seLib env) c" "count_inv (seLib env) c" "limit_inv st c"
    using inv by (simp_all add: scan_inv_def)
  have d: "lsDelivered s' = lsDelivered (ckScanner c) + n" by (simp add: s'_def advanceOffset_def)
  have o: "lsOffset s' = (if map_of (lsOffset (ckScanner c)) b = Some offset
      then AList.update b nxt (lsOffset (ckScanner c)) else lsOffset (ckScanner c))"
    by (simp add: s'_def advanceOffset_def)
  have win: "window_inv blog c'"
  proof (cases "map_of (lsOffset (ckScanner c)) b = Some offset")
    case True
    then have w: "ckStart c b \<le> offset" "ckTaken c b = {x \<in> blog b. ckStart c b \<le> x \<and> x < offset}"
      using iv(1) unfolding window_inv_def by blast+
    have "ckTaken c b \<union> newOffsets (seLib env) r r' = {x \<in> blog b. ckStart c b \<le> x \<and> x < nxt}"
      unfolding w(2) new using w(1) tb(2) by auto
    moreover have "ckStart c b \<le> nxt" using w(1) tb(2) by simp
    ultimately show ?thesis using True tb(3) iv(1)
      unfolding window_inv_def c'_def by (simp add: o update_conv')
  next
    case False
    then show ?thesis using iv(1) unfolding window_inv_def c'_def by (simp add: o)
  qed
  have cov: "cover_inv (seLib env) c'"
    unfolding cover_inv_def
  proof
    fix x
    have "ckTaken c' x \<subseteq> ckTaken c x \<union> (if x = b then newOffsets (seLib env) r r' else {})"
      by (auto simp: c'_def)
    moreover have "ckTaken c x \<subseteq> returnedOffsets (seLib env) x c \<union> resultOffsets (seLib env) x r \<union> ckLost c x"
      using iv(2) p by (simp add: cover_inv_def phaseOffsets_def)
    moreover have "resultOffsets (seLib env) x r \<subseteq> resultOffsets (seLib env) x r'" by (rule ra(2))
    moreover have "(if x = b then newOffsets (seLib env) r r' else {}) \<subseteq> resultOffsets (seLib env) x r'"
      using ra(1) by (simp add: newOffsets_append [OF r'])
    ultimately show "ckTaken c' x \<subseteq> returnedOffsets (seLib env) x c' \<union> phaseOffsets (seLib env) x (ckPoll c') \<union> ckLost c' x"
      by (auto simp: c'_def phaseOffsets_def returnedOffsets_def)
  qed
  have cnt: "count_inv (seLib env) c'"
  proof -
    have "resultRows (seLib env) r' = resultRows (seLib env) r + n" using ra(3) tb(4) by simp
    with iv(3) p tb(5) show ?thesis by (simp add: count_inv_def c'_def d phaseRows_def returnedRows_def)
  qed
  have lim: "limit_inv st c'"
  proof -
    have "poll_offsets_ok (ckPoll c')" using limit_invD(3) [OF iv(4)] p by (simp add: c'_def poll_offsets_ok_def)
    moreover have "\<not> lsDone s' \<longrightarrow> within_limit st s'"
      using updateDoneLocked_limit unfolding s'_def advanceOffset_def by (fastforce simp: within_limit_def)
    moreover have "x < stopOf st b'" if "lcStoppingOffsets (ssConfig st) \<noteq> None" "x \<in> ckTaken c' b'" for x b'
    proof (cases "x \<in> ckTaken c b'")
      case True
      then show ?thesis using iv(4) that(1) unfolding limit_inv_def by blast
    next
      case False
      with that(2) new have "b' = b" "x < nxt" by (auto simp: c'_def split: if_splits)
      with tb(8) [OF that(1)] show ?thesis by simp
    qed
    ultimately show ?thesis using tb(7) unfolding limit_inv_def by (simp add: c'_def d)
  qed
  from win cov cnt lim show ?thesis by (simp add: scan_inv_def)
qed

text \<open>A poll of a bucket, with the window it takes.\<close>

lemma scan_inv_bucket:
  assumes laws: "arrow_laws (seLib env)" and inv: "scan_inv env st blog c" and p: "ckPoll c = AtBucket offsets (b # todo) r"
    and m: "map_of offsets b = Some offset" and ns: "\<not> skipBucket st b offset"
    and srv: "serves env st blog b offset answer"
    and poll: "pollBucket env st ctxErr b offset answer r (ckScanner c) = (Inr r', s')"
  shows "(same_rows r r' \<and> same_scan (ckScanner c) s')
    \<or> (\<exists>rows arrows n nxt. takes_window env st blog b offset (ckScanner c) rows arrows n nxt
         \<and> rsRecords r' = rsRecords r @ rows \<and> rsArrowBatches r' = rsArrowBatches r @ arrows
         \<and> s' = advanceOffset st b offset nxt n (ckScanner c))"
proof -
  have lim: "limit_inv st c" using inv by (simp add: scan_inv_def)
  have "offset \<le> maxInt64" using limit_invD(3) [OF lim] p m by (auto simp: poll_offsets_ok_def)
  with ns have "offset \<le> stopOf st b" by (rule not_skip_stop)
  from pollBucket_window [OF laws limit_invD(2) [OF lim p] this srv poll] show ?thesis .
qed

lemma scan_inv_step:
  assumes laws: "arrow_laws (seLib env)" and step: "scan_step env st blog c c'" and inv: "scan_inv env st blog c"
  shows "scan_inv env st blog c'"
  using step
proof cases
  case (subscribe b start offset s')
  with scan_inv_subscribe [OF inv] show ?thesis by blast
next
  case (unsubscribe b)
  have "within_limit st (Unsubscribe st b (ckScanner c))" if "\<not> lsDone (Unsubscribe st b (ckScanner c))"
    using that updateDoneLocked_limit unfolding Unsubscribe_def by (fastforce simp: within_limit_def)
  then show ?thesis unfolding unsubscribe
    by (intro scan_inv_other [OF inv]) (auto simp: Unsubscribe_def delete_conv')
next
  case wakeup
  then show ?thesis using scan_inv_same [OF inv wakeup_close_same(1)] by simp
next
  case close
  have "limit_inv st c" using inv by (simp add: scan_inv_def)
  from limit_invD(1) [OF this] show ?thesis unfolding close
    by (intro scan_inv_other [OF inv]) (auto simp: wakeup_close_same within_limit_def)
next
  case (poll_none p s')
  then show ?thesis using scan_inv_same [OF inv beginPoll_same(1)] by simp
next
  case (poll_begin offsets s')
  note bp = beginPoll_same [OF poll_begin(3)]
  have o: "offsets = lsOffset (ckScanner c)" "\<not> lsDone (ckScanner c)" using bp(2) by simp_all
  have "scan_inv env st blog (c\<lparr>ckPoll := AtBucket offsets (ssBuckets st) emptyResult\<rparr>)"
    unfolding o(1) by (rule scan_inv_begin [OF inv poll_begin(2) o(2)])
  from scan_inv_same [OF this, of s'] bp(1) show ?thesis unfolding poll_begin(1) by (cases c) simp
next
  case (poll_skip offsets b todo r)
  have lim: "limit_inv st c" using inv by (simp add: scan_inv_def)
  have "poll_offsets_ok (AtBucket offsets todo r)" using limit_invD(3) [OF lim] poll_skip(2) by (simp add: poll_offsets_ok_def)
  then show ?thesis unfolding poll_skip(1)
    by (intro scan_inv_move [OF inv] limit_invD(2) [OF lim poll_skip(2)])
      (simp_all add: poll_skip(2) phaseOffsets_def phaseRows_def)
next
  case (poll_bucket offsets b todo r offset answer ctxErr r' s')
  from scan_inv_bucket [OF laws inv poll_bucket(2-6)] show ?thesis
  proof
    assume sm: "same_rows r r' \<and> same_scan (ckScanner c) s'"
    have lim: "limit_inv st c" using inv by (simp add: scan_inv_def)
    have e: "newOffsets (seLib env) r r' = {}" "\<And>b. resultOffsets (seLib env) b r' = resultOffsets (seLib env) b r"
      "resultRows (seLib env) r' = resultRows (seLib env) r" using sm same_rows_result by blast+
    have "poll_offsets_ok (AfterBucket offsets todo r')"
      using limit_invD(3) [OF lim] poll_bucket(2) by (simp add: poll_offsets_ok_def)
    then have "scan_inv env st blog (c\<lparr>ckPoll := AfterBucket offsets todo r'\<rparr>)"
      by (intro scan_inv_move [OF inv] limit_invD(2) [OF lim poll_bucket(2)])
        (simp_all add: poll_bucket(2) phaseOffsets_def phaseRows_def e)
    from scan_inv_same [OF this, of s'] sm show ?thesis unfolding poll_bucket(1) by (cases c) (simp add: e)
  next
    assume "\<exists>rows arrows n nxt. takes_window env st blog b offset (ckScanner c) rows arrows n nxt
         \<and> rsRecords r' = rsRecords r @ rows \<and> rsArrowBatches r' = rsArrowBatches r @ arrows
         \<and> s' = advanceOffset st b offset nxt n (ckScanner c)"
    then show ?thesis unfolding poll_bucket(1) using scan_inv_take [OF inv poll_bucket(2,3)] by blast
  qed
next
  case (poll_fail offsets b todo r offset ctxErr answer e s')
  from scan_inv_same [OF scan_inv_fail [OF inv poll_fail(2)], of s'] pollBucket_error_same [OF poll_fail(5)]
  show ?thesis unfolding poll_fail(1) by (cases c) simp
next
  case (poll_continue offsets todo r)
  have lim: "limit_inv st c" using inv by (simp add: scan_inv_def)
  have "poll_offsets_ok (AtBucket offsets todo r)" using limit_invD(3) [OF lim] poll_continue(2) by (simp add: poll_offsets_ok_def)
  then show ?thesis unfolding poll_continue(1)
    by (intro scan_inv_move [OF inv] limit_invD(1) [OF lim poll_continue(3)])
      (simp_all add: poll_continue(2) phaseOffsets_def phaseRows_def)
next
  case (poll_stop offsets todo r)
  show ?thesis unfolding poll_stop(1)
    by (rule scan_inv_return [OF inv]) (simp_all add: poll_stop(2) phaseOffsets_def phaseRows_def)
next
  case (poll_end offsets r)
  show ?thesis unfolding poll_end(1)
    by (rule scan_inv_return [OF inv]) (simp_all add: poll_end(2) phaseOffsets_def phaseRows_def)
qed

section \<open>Results only hold rows of the log\<close>

definition sound_inv :: "'r arrow_lib \<Rightarrow> (int \<Rightarrow> int set) \<Rightarrow> 'r scan_state \<Rightarrow> bool" where
  "sound_inv lib blog c \<longleftrightarrow> (\<forall>b. returnedOffsets lib b c \<union> phaseOffsets lib b (ckPoll c) \<subseteq> blog b)"

lemma sound_inv_same:
  assumes "sound_inv lib blog c" "ckReturned c' = ckReturned c" "\<And>b. phaseOffsets lib b (ckPoll c') \<subseteq> phaseOffsets lib b (ckPoll c)"
  shows "sound_inv lib blog c'"
  using assms unfolding sound_inv_def returnedOffsets_def by (metis Un_subset_iff order_trans)

lemma sound_inv_return:
  assumes "sound_inv lib blog c" "ckReturned c' = ckReturned c @ [r\<lparr>rsDone := d\<rparr>]" "ckPoll c' = NoPoll"
    "\<And>b. phaseOffsets lib b (ckPoll c) = resultOffsets lib b r"
  shows "sound_inv lib blog c'"
  using assms unfolding sound_inv_def returnedOffsets_def by (auto simp: phaseOffsets_def)

lemma resultOffsets_other:
  assumes "rsRecords r' = rsRecords r @ rows" "rsArrowBatches r' = rsArrowBatches r @ arrows" "in_bucket b rows arrows" "b' \<noteq> b"
  shows "resultOffsets lib b' r' = resultOffsets lib b' r"
proof -
  have "filter (\<lambda>x. srBucket x = b') rows = []" "filter (\<lambda>x. saBucket x = b') arrows = []"
    using assms(3,4) by (auto simp: in_bucket_def filter_empty_conv)
  then show ?thesis by (simp add: resultOffsets_def assms(1,2))
qed

lemma sound_inv_take:
  assumes "sound_inv lib blog c" "ckPoll c = AtBucket offsets todo r" "ckPoll c' = AfterBucket offsets todo' r'" "ckReturned c' = ckReturned c"
    "rsRecords r' = rsRecords r @ rows" "rsArrowBatches r' = rsArrowBatches r @ arrows" "in_bucket b rows arrows"
    "scanOffsets lib rows arrows \<subseteq> blog b"
  shows "sound_inv lib blog c'"
proof -
  have "resultOffsets lib x r' \<subseteq> blog x" for x
  proof (cases "x = b")
    case True
    with assms(1,2,8) show ?thesis
      by (auto simp: resultOffsets_append(1) [OF assms(5,6,7)] sound_inv_def phaseOffsets_def)
  next
    case False
    with assms(1,2) show ?thesis
      by (auto simp: resultOffsets_other [OF assms(5,6,7)] sound_inv_def phaseOffsets_def)
  qed
  with assms(1,3,4) show ?thesis by (simp add: sound_inv_def returnedOffsets_def phaseOffsets_def)
qed

lemma sound_inv_step:
  assumes laws: "arrow_laws (seLib env)" and step: "scan_step env st blog c c'" and inv: "scan_inv env st blog c"
    and snd: "sound_inv (seLib env) blog c"
  shows "sound_inv (seLib env) blog c'"
  using step
proof cases
  case (poll_bucket offsets b todo r offset answer ctxErr r' s')
  from scan_inv_bucket [OF laws inv poll_bucket(2-6)] show ?thesis
  proof
    assume "same_rows r r' \<and> same_scan (ckScanner c) s'"
    then have "resultOffsets (seLib env) b r' = resultOffsets (seLib env) b r" for b using same_rows_result by blast
    then show ?thesis by (intro sound_inv_same [OF snd]) (simp_all add: poll_bucket phaseOffsets_def)
  next
    assume "\<exists>rows arrows n nxt. takes_window env st blog b offset (ckScanner c) rows arrows n nxt
         \<and> rsRecords r' = rsRecords r @ rows \<and> rsArrowBatches r' = rsArrowBatches r @ arrows
         \<and> s' = advanceOffset st b offset nxt n (ckScanner c)"
    then obtain rows arrows where "in_bucket b rows arrows" "scanOffsets (seLib env) rows arrows \<subseteq> blog b"
      "rsRecords r' = rsRecords r @ rows" "rsArrowBatches r' = rsArrowBatches r @ arrows"
      unfolding takes_window_def by blast
    with sound_inv_take [OF snd poll_bucket(2)] show ?thesis by (simp add: poll_bucket(1))
  qed
next
  case (poll_stop offsets todo r)
  then show ?thesis by (intro sound_inv_return [OF snd]) (simp_all add: phaseOffsets_def)
next
  case (poll_end offsets r)
  then show ?thesis by (intro sound_inv_return [OF snd]) (simp_all add: phaseOffsets_def)
qed (rule sound_inv_same [OF snd]; simp add: phaseOffsets_def resultOffsets_def scanOffsets_def emptyResult_def)+

section \<open>Reachable states\<close>

lemma newLogScanner_fresh:
  assumes "newLogScanner compilePredicate answers t start options = Inr (st, s)"
  shows "lsDelivered s = 0" "\<not> lsDone s \<Longrightarrow> within_limit st s"
proof -
  from assms obtain offsets where "s = updateDoneLocked st \<lparr>lsOffset = offsets, lsDelivered = 0, lsDone = False,
      lsClosed = False, lsWakePending = False\<rparr>"
    by (auto simp: newLogScanner_def Let_def)
  with updateDoneLocked_limit show "lsDelivered s = 0" "\<not> lsDone s \<Longrightarrow> within_limit st s"
    by (fastforce simp: within_limit_def)+
qed

lemma scan_inv_initial:
  assumes "lsDelivered s = 0" "\<not> lsDone s \<Longrightarrow> within_limit st s" "\<forall>b x. map_of (lsOffset s) b = Some x \<longrightarrow> x \<le> maxInt64"
  shows "scan_inv env st blog (initialScan s)" "sound_inv (seLib env) blog (initialScan s)"
proof -
  have "window_inv blog (initialScan s)" using assms(3) by (auto simp: window_inv_def initialScan_def)
  moreover have "cover_inv (seLib env) (initialScan s)" by (simp add: cover_inv_def initialScan_def)
  moreover have "count_inv (seLib env) (initialScan s)"
    using assms(1) by (simp add: count_inv_def initialScan_def returnedRows_def phaseRows_def)
  moreover have "limit_inv st (initialScan s)"
    using assms(1,2) by (simp add: limit_inv_def initialScan_def poll_offsets_ok_def)
  ultimately show "scan_inv env st blog (initialScan s)" by (simp add: scan_inv_def)
  show "sound_inv (seLib env) blog (initialScan s)"
    by (simp add: sound_inv_def initialScan_def returnedOffsets_def phaseOffsets_def)
qed

lemma scan_reach_inv:
  assumes "scan_reach env st blog s c" "arrow_laws (seLib env)" "scan_inv env st blog (initialScan s)"
    "sound_inv (seLib env) blog (initialScan s)"
  shows "scan_inv env st blog c \<and> sound_inv (seLib env) blog c"
  using assms(1)
proof induction
  case start
  then show ?case using assms(3,4) by blast
next
  case (step c c')
  then show ?case using scan_inv_step [OF assms(2)] sound_inv_step [OF assms(2)] by blast
qed

text \<open>C13. A log scanner skips nothing and makes nothing up, under every interleaving of polls with Subscribe, Unsubscribe,
  Wakeup and Close. While a bucket is subscribed, every row of its log between the start of the subscription and the
  bucket's offset is in a result that Poll returned, in the poll under way, or was in a poll that ended in an error; the
  offset never passes a row that was not taken. Results only hold rows of the log. The rows in all results never exceed
  the row limit, and no taken row is at or past a stopping offset. The hypotheses are that record batches keep their
  number of rows when they are sliced or rebuilt, and that every fetch answer serves the log.\<close>

theorem scanner_complete:
  assumes "newLogScanner compilePredicate answers t start options = Inr (st, s0)"
    and "\<forall>b x. map_of (lsOffset s0) b = Some x \<longrightarrow> x \<le> maxInt64" and "arrow_laws (seLib env)"
    and "scan_reach env st blog s0 c"
  shows "(\<forall>b offset. map_of (lsOffset (ckScanner c)) b = Some offset \<longrightarrow>
      {x \<in> blog b. ckStart c b \<le> x \<and> x < offset} = ckTaken c b
      \<and> ckTaken c b \<subseteq> returnedOffsets (seLib env) b c \<union> phaseOffsets (seLib env) b (ckPoll c) \<union> ckLost c b)
    \<and> (\<forall>b. returnedOffsets (seLib env) b c \<subseteq> blog b)
    \<and> lsDelivered (ckScanner c) = returnedRows (seLib env) c + phaseRows (seLib env) (ckPoll c) + ckLostRows c
    \<and> (lcRowLimit (ssConfig st) > 0 \<longrightarrow> returnedRows (seLib env) c \<le> lcRowLimit (ssConfig st))
    \<and> (lcStoppingOffsets (ssConfig st) \<noteq> None \<longrightarrow> (\<forall>b. \<forall>x\<in>ckTaken c b. x < stopOf st b))"
proof -
  note init = scan_inv_initial [OF newLogScanner_fresh [OF assms(1)] assms(2), of env blog]
  have inv: "window_inv blog c" "cover_inv (seLib env) c" "count_inv (seLib env) c" "limit_inv st c" "sound_inv (seLib env) blog c"
    using scan_reach_inv [OF assms(4,3) init] unfolding scan_inv_def by blast+
  have "returnedRows (seLib env) c \<le> lsDelivered (ckScanner c)" using inv(3) unfolding count_inv_def by linarith
  then have "lcRowLimit (ssConfig st) > 0 \<longrightarrow> returnedRows (seLib env) c \<le> lcRowLimit (ssConfig st)"
    using inv(4) unfolding limit_inv_def by linarith
  moreover have "\<forall>b. returnedOffsets (seLib env) b c \<subseteq> blog b" using inv(5) unfolding sound_inv_def by blast
  moreover have "lcStoppingOffsets (ssConfig st) \<noteq> None \<longrightarrow> (\<forall>b. \<forall>x\<in>ckTaken c b. x < stopOf st b)"
    using inv(4) unfolding limit_inv_def by blast
  moreover have "lsDelivered (ckScanner c) = returnedRows (seLib env) c + phaseRows (seLib env) (ckPoll c) + ckLostRows c"
    using inv(3) unfolding count_inv_def by blast
  ultimately show ?thesis using inv(1,2) unfolding window_inv_def cover_inv_def by blast
qed

section \<open>A poll that is woken up after its first bucket\<close>

definition exEnv :: "bytes scan_env" where
  "exEnv = \<lparr>seLib = byteLib, seLocalOffset = (\<lambda>_. 0), seResolver = (\<lambda>_ _. Inr exSchema)\<rparr>"

definition exAnswers :: scanner_answers where
  "exAnswers = \<lparr>saMetadata = Inr (1, [1, 0]), saResolver = True, saListOffset = (\<lambda>_ _. Inl ErrTimeout)\<rparr>"

definition exScanner :: "(unit, unit) scanner_static" where
  "exScanner = \<lparr>ssTable = scanTable, ssPath = \<lparr>ppTable = tblPath scanTable, Partition = []\<rparr>, ssConfig = defaultScannerConfig,
     ssFilter = None, ssTableID = 1, ssPartitionID = -1, ssBuckets = [0, 1], ssSchema = exSchema, ssProjection = [],
     ssCompacted = True, ssDynamic = True\<rparr>"

definition exStart :: scanner where
  "exStart = \<lparr>lsOffset = [(0, 100), (1, 100)], lsDelivered = 0, lsDone = False, lsClosed = False, lsWakePending = False\<rparr>"

lemma exScanner_new:
  "newLogScanner (\<lambda>_ _. Inr ()) exAnswers scanTable \<lparr>soKind = 0, soOffset = 100, soTimestamp = zeroTime\<rparr> []
   = Inr (exScanner, exStart)"
  by code_simp

lemma exLog_fetch:
  assumes "EncodeRows exLog exSchema True = Inr bytes"
  defines "fetched \<equiv> \<lparr>sfRecords = bytes @ [1], sfHighWatermark = 101, sfFilteredEndOffset = 0, sfFilteredEndOffsetKnown = False\<rparr>"
  shows "\<exists>r. decodeFetch exEnv exScanner 0 100 fetched = Inr (101, [\<lparr>srBucket = 0, srRecord = r\<rparr>], []) \<and> sint (recOffset r) = 100
    \<and> \<not> sfFilteredEndOffsetKnown fetched"
proof -
  have s: "tblSchema scanTable = exSchema" by (simp add: scanTable_def)
  have e: "evolvable (tblSchema scanTable)" unfolding s evolvable_def by code_simp
  have w: "list_all2 (written (\<lambda>_ _. Inr exSchema) scanTable True) [exLog] [bytes]"
    using assms(1) exLog_encode by (auto simp: written_def s maxRowBytes_def maxInt64_def batchEnd_def exLog_def exRow_def)
  have o: "sint (recOffset (decodedRecords (\<lambda>_. 0) exSchema True exLog ! 0)) = 100"
    by (subst offset_of_decoded) (simp_all add: exLog_def batchEnd_def maxInt64_def)
  obtain r where r: "decodedRecords (\<lambda>_. 0) exSchema True exLog = [r]" by (simp add: decodedRecords_def exLog_def)
  have "completeFetchedBatchSize [1] = Inr (0, False)" by (simp add: completeFetchedBatchSize_def)
  from decode_written [OF e w _ this, of byteLib "\<lambda>_. 0" 0 100 "[]" "[]"] o show ?thesis
    by (simp add: fetched_def decodeFetch_def decodeFetchedFetchResponse_def exEnv_def exScanner_def projectedTable_def scanResolver_def
        s r nextAfter_def)
qed


lemma exScanner_sel [simp]:
  "ssConfig exScanner = defaultScannerConfig" "ssDynamic exScanner" "ssProjection exScanner = []" "ssBuckets exScanner = [0, 1]"
  "lcRowLimit defaultScannerConfig = 0" "lcStoppingOffsets defaultScannerConfig = None"
  by (simp_all add: exScanner_def defaultScannerConfig_def)

lemma exPoll:
  assumes d: "decodeFetch exEnv exScanner 0 100 fetched = Inr (101, [\<lparr>srBucket = 0, srRecord = r\<rparr>], [])"
    and k: "\<not> sfFilteredEndOffsetKnown fetched" and w: "\<not> lsWakePending s"
  shows "pollBucket exEnv exScanner None 0 100 (Inr fetched) emptyResult s
    = (Inr (emptyResult\<lparr>rsRecords := [\<lparr>srBucket = 0, srRecord = r\<rparr>], rsHighWatermark := [(0, sfHighWatermark fetched)]\<rparr>),
       advanceOffset exScanner 0 100 101 1 s)"
  using k by (simp add: pollBucket_def d filteredEnd_def projectScan_def applyBounds_def scanResultRows_def emptyResult_def
      projectScanArrows_def)

lemma exServes:
  assumes "decodeFetch exEnv exScanner 0 100 fetched = Inr (101, [\<lparr>srBucket = 0, srRecord = r\<rparr>], [])"
    and "sint (recOffset r) = 100" "\<not> sfFilteredEndOffsetKnown fetched"
  shows "serves exEnv exScanner (\<lambda>_. {100}) 0 100 (Inr fetched)"
proof -
  have "orderedOffsets byteLib [\<lparr>srBucket = 0, srRecord = r\<rparr>] [] = [100]"
    using assms(2) by (simp add: orderedOffsets_def orderedScanSegments_def segmentOffsets_def)
  then show ?thesis
    using assms by (auto simp: serves_def filteredEnd_def scanOffsets_def maxInt64_def exEnv_def)
qed

text \<open>The poll takes the row at 100 of the first bucket and is woken up while it fetches from the second one. The next
  poll starts at 101: the row is in no result.\<close>

definition lostRow :: "'r scan_state \<Rightarrow> bool" where
  "lostRow c \<longleftrightarrow> ckReturned c = [] \<and> ckPoll c = NoPoll \<and> lsOffset (ckScanner c) = [(0, 101), (1, 100)]
     \<and> ckLost c 0 = {100} \<and> ckStart c 0 = 100 \<and> lsDelivered (ckScanner c) = 1 \<and> ckLostRows c = 1
     \<and> \<not> lsClosed (ckScanner c) \<and> \<not> lsDone (ckScanner c)"

lemma woken_poll_loses_row: "\<exists>c. scan_reach exEnv exScanner (\<lambda>_. {100}) exStart c \<and> lostRow c"
proof -
  let ?reach = "scan_reach exEnv exScanner (\<lambda>_. {100}) exStart"
  obtain bytes where "EncodeRows exLog exSchema True = Inr bytes" using exLog_encode by blast
  from exLog_fetch [OF this] obtain fetched r where f: "\<not> sfFilteredEndOffsetKnown fetched"
    "decodeFetch exEnv exScanner 0 100 fetched = Inr (101, [\<lparr>srBucket = 0, srRecord = r\<rparr>], [])" "sint (recOffset r) = 100"
    by blast
  let ?offsets = "[(0, 100), (1, 100)] :: (int \<times> int) list"
  let ?res = "(emptyResult :: bytes scan_result)\<lparr>rsRecords := [\<lparr>srBucket = 0, srRecord = r\<rparr>], rsHighWatermark := [(0, sfHighWatermark fetched)]\<rparr>"
  let ?s = "advanceOffset exScanner 0 100 101 1 exStart"
  let ?c1 = "(initialScan exStart :: bytes scan_state)\<lparr>ckScanner := exStart, ckPoll := AtBucket ?offsets (ssBuckets exScanner) emptyResult\<rparr>"
  have 1: "?reach ?c1"
    by (rule scan_reach.step [OF scan_reach.start scan_step.poll_begin])
      (simp_all add: initialScan_def beginPoll_def exStart_def)
  let ?c2 = "?c1\<lparr>ckScanner := ?s, ckPoll := AfterBucket ?offsets [1] ?res, ckTaken := (if map_of (lsOffset (ckScanner ?c1)) 0 = Some 100
        then (ckTaken ?c1)(0 := ckTaken ?c1 0 \<union> newOffsets (seLib exEnv) emptyResult ?res) else ckTaken ?c1)\<rparr>"
  have 2: "?reach ?c2"
  proof (rule scan_reach.step [OF 1 scan_step.poll_bucket [where answer = "Inr fetched :: scanner_fetch result" and ctxErr = None]])
    show "pollBucket exEnv exScanner None 0 100 (Inr fetched) emptyResult (ckScanner ?c1) = (Inr ?res, ?s)"
      using exPoll [OF f(2,1), of exStart] by (simp add: exStart_def)
    show "serves exEnv exScanner (\<lambda>_. {100}) 0 100 (Inr fetched)" by (rule exServes [OF f(2,3,1)])
  qed (simp_all add: skipBucket_def)
  let ?c3 = "?c2\<lparr>ckPoll := AtBucket ?offsets [1] ?res\<rparr>"
  have s: "?s = \<lparr>lsOffset = [(0, 101), (1, 100)], lsDelivered = 1, lsDone = False, lsClosed = False, lsWakePending = False\<rparr>"
    by (simp add: advanceOffset_def exStart_def updateDoneLocked_def)
  have 3: "?reach ?c3" by (rule scan_reach.step [OF 2 scan_step.poll_continue]) (simp_all add: s)
  let ?c4 = "?c3\<lparr>ckScanner := Wakeup (ckScanner ?c3)\<rparr>"
  have 4: "?reach ?c4" by (rule scan_reach.step [OF 3 scan_step.wakeup])
  let ?c5 = "?c4\<lparr>ckScanner := ?s, ckPoll := NoPoll, ckLost := (\<lambda>b. ckLost ?c4 b \<union> resultOffsets (seLib exEnv) b ?res),
      ckLostRows := ckLostRows ?c4 + resultRows (seLib exEnv) ?res\<rparr>"
  have 5: "?reach ?c5"
  proof (rule scan_reach.step [OF 4 scan_step.poll_fail [where b = 1 and offsets = ?offsets and todo = "[]"]])
    show "pollBucket exEnv exScanner None 1 100 (Inl ErrTimeout) ?res (ckScanner ?c4) = (Inl ErrWakeup, ?s)"
      by (simp add: pollBucket_def recordFetchError_def Wakeup_def s)
    show "map_of ?offsets 1 = Some 100" by simp
  qed (simp_all add: skipBucket_def)
  have st: "map_of (lsOffset exStart) 0 = Some 100" by (simp add: exStart_def)
  have "lostRow ?c5"
    using f(3) by (simp add: st lostRow_def initialScan_def s resultOffsets_def resultRows_def scanOffsets_def
        scanResultRows_def emptyResult_def)
  with 5 show ?thesis by blast
qed


theorem scanner_complete_witness:
  "\<exists>c. scan_reach exEnv exScanner (\<lambda>_. {100}) exStart c \<and> lsOffset (ckScanner c) = [(0, 101), (1, 100)]
     \<and> ckTaken c 0 = {100} \<and> 100 \<in> returnedOffsets byteLib 0 c \<union> phaseOffsets byteLib 0 (ckPoll c) \<union> ckLost c 0"
proof -
  obtain c where c: "scan_reach exEnv exScanner (\<lambda>_. {100}) exStart c" "lostRow c" using woken_poll_loses_row by blast
  have l: "arrow_laws (seLib exEnv)"
    by (auto simp: arrow_laws_def slices_count_def exEnv_def byteLib_def min_def)
  have m: "\<forall>b x. map_of (lsOffset exStart) b = Some x \<longrightarrow> x \<le> maxInt64" by (auto simp: exStart_def maxInt64_def)
  have o: "lsOffset (ckScanner c) = [(0, 101), (1, 100)]" "ckStart c 0 = 100" using c(2) by (simp_all add: lostRow_def)
  have "map_of (lsOffset (ckScanner c)) 0 = Some 101" by (simp add: o(1))
  with scanner_complete [OF exScanner_new m l c(1)]
  have w: "{x \<in> {100}. ckStart c 0 \<le> x \<and> x < 101} = ckTaken c 0"
    "ckTaken c 0 \<subseteq> returnedOffsets (seLib exEnv) 0 c \<union> phaseOffsets (seLib exEnv) 0 (ckPoll c) \<union> ckLost c 0" by blast+
  have t: "ckTaken c 0 = {100}" unfolding w(1) [symmetric] o(2) by auto
  have "100 \<in> returnedOffsets byteLib 0 c \<union> phaseOffsets byteLib 0 (ckPoll c) \<union> ckLost c 0"
    using w(2) unfolding t by (simp add: exEnv_def)
  with c(1) o(1) t show ?thesis by blast
qed

end
