(* ===== verification/Lookup.thy ===== *)
theory Lookup
  imports Upsert_Writer Schema_Evolution
begin

text \<open>
  Point and prefix lookups: \<^verbatim>\<open>pkg/fgo/lookup_options.go\<close>, the sequential parts of \<^verbatim>\<open>pkg/fgo/lookup.go\<close> and of
  \<^verbatim>\<open>pkg/fgo/lookup_scheduler.go\<close>, and \<^verbatim>\<open>pkg/fgo/lookup_backend.go\<close>. The scheduler goroutine and its workers are in
  \<open>Lookup_Steps\<close>. Answers of the backend and of contexts are arguments.
\<close>

section \<open>Options\<close>

abbreviation ErrNotFound :: go_error where
  "ErrNotFound \<equiv> Plain ''record not found''"

record lookup_config =
  qcMaxBatchKeys :: int
  qcMaxInFlightRequests :: int
  qcMaxQueuedKeys :: int
  qcBatchTimeout :: int
  qcRetryPolicy :: retry_policy
  qcPartition :: string
  qcInsertIfNotExists :: bool
  qcRequestTimeout :: int
  qcAcks :: int

type_synonym lookup_option = "lookup_config \<Rightarrow> lookup_config result"

definition WithLookupBatchLimits :: "int \<Rightarrow> int \<Rightarrow> lookup_option" where
  "WithLookupBatchLimits keys inFlightRequests config =
     guardE (keys \<le> 0 \<or> inFlightRequests \<le> 0) ErrInvalidConfig
       (Inr (config\<lparr>qcMaxBatchKeys := keys, qcMaxInFlightRequests := inFlightRequests\<rparr>))"

definition WithLookupQueue :: "int \<Rightarrow> int \<Rightarrow> lookup_option" where
  "WithLookupQueue keys batchTimeout config =
     guardE (keys \<le> 0 \<or> batchTimeout < 0) ErrInvalidConfig
       (Inr (config\<lparr>qcMaxQueuedKeys := keys, qcBatchTimeout := batchTimeout\<rparr>))"

definition WithLookupRetryPolicy :: "retry_policy \<Rightarrow> lookup_option" where
  "WithLookupRetryPolicy policy config =
     guardE (MaxAttempts policy < 1 \<or> MaxAttempts policy > maxWriterAttempts) ErrInvalidConfig
       (Inr (config\<lparr>qcRetryPolicy := policy\<rparr>))"

definition WithLookupRequestTimeout :: "int \<Rightarrow> lookup_option" where
  "WithLookupRequestTimeout timeout config =
     guardE (timeout \<le> 0 \<or> timeout div millisecond > maxInt32) ErrInvalidConfig
       (Inr (config\<lparr>qcRequestTimeout := timeout\<rparr>))"

definition WithLookupPartition :: "string \<Rightarrow> lookup_option" where
  "WithLookupPartition part config =
     andThen (PhysicalTablePath_Validate
       \<lparr>ppTable = \<lparr>Database = ''d'', TableName = ''t''\<rparr>, Partition = part\<rparr>) (\<lambda>_.
     Inr (config\<lparr>qcPartition := part\<rparr>))"

definition WithLookupInsertIfNotExists :: "int \<Rightarrow> int \<Rightarrow> lookup_option" where
  "WithLookupInsertIfNotExists timeout acks config =
     guardE (timeout \<le> 0 \<or> timeout div millisecond > maxInt32 \<or> (acks \<noteq> 0 \<and> acks \<noteq> 1 \<and> acks \<noteq> -1)) ErrInvalidConfig
       (Inr (config\<lparr>qcInsertIfNotExists := True, qcRequestTimeout := timeout, qcAcks := acks\<rparr>))"

definition defaultLookupConfig :: lookup_config where
  "defaultLookupConfig =
     \<lparr>qcMaxBatchKeys = 1000, qcMaxInFlightRequests = 8, qcMaxQueuedKeys = 10000, qcBatchTimeout = millisecond,
      qcRetryPolicy = \<lparr>MaxAttempts = 1, Backoff = None\<rparr>, qcPartition = [], qcInsertIfNotExists = False,
      qcRequestTimeout = 30 * second, qcAcks = -1\<rparr>"

definition lookupConfig :: "lookup_option option list \<Rightarrow> lookup_config result" where
  "lookupConfig options =
     andThen (applyOptions options defaultLookupConfig) (\<lambda>config.
     guardE (qcInsertIfNotExists config \<and> MaxAttempts (qcRetryPolicy config) > 1) ErrInvalidConfig
       (Inr config))"

section \<open>Construction\<close>

definition validateLookupInsertSchema :: "schema \<Rightarrow> lookup_config \<Rightarrow> unit result" where
  "validateLookupInsertSchema s config =
     (if \<not> qcInsertIfNotExists config then Inr ()
      else guardE (\<exists>c \<in> set (Columns s). \<not> colNullable c \<and> colName c \<notin> set (PrimaryKey s)
          \<and> colName c \<notin> set (AutoIncrement s)) ErrInvalidSchema (Inr ()))"

text \<open>The fields of \<^verbatim>\<open>Lookuper\<close> that do not change after construction. \<open>lkResolver\<close> is the resolver that
  \<^verbatim>\<open>resolverFor\<close> chose.\<close>

record lookup_static =
  lkTable :: table
  lkPath :: physical_path
  lkConfig :: lookup_config
  lkTableID :: int
  lkPartitionID :: int
  lkBuckets :: "int list"
  lkResolver :: "table_path \<Rightarrow> int \<Rightarrow> schema result"

text \<open>\<^verbatim>\<open>resolverFor\<close>: the resolver of the backend if it has one, else the one that only knows the opened table.\<close>

definition resolverFor :: "(table_path \<Rightarrow> int \<Rightarrow> schema result) option \<Rightarrow> table \<Rightarrow> table_path \<Rightarrow> int \<Rightarrow> schema result" where
  "resolverFor source t =
     (case source of Some resolver \<Rightarrow> resolver
      | None \<Rightarrow> fixedSchemaResolver (tblPath t) (tblSchemaID t) (tblSchema t))"

definition newLookuper :: "(int \<times> int list) result \<Rightarrow> (table_path \<Rightarrow> int \<Rightarrow> schema result) option \<Rightarrow> table
    \<Rightarrow> lookup_option option list \<Rightarrow> lookup_static result" where
  "newLookuper metadata source t options =
     andThen (RequirePrimaryKey t) (\<lambda>_.
     andThen (Schema_Validate (tblSchema t)) (\<lambda>_.
     andThen (lookupConfig options) (\<lambda>config.
     andThen (validateLookupInsertSchema (tblSchema t) config) (\<lambda>_.
     let path = \<lparr>ppTable = tblPath t, Partition = qcPartition config\<rparr> in
     andThen metadata (\<lambda>(physicalID, locations).
     guardE (Partition path = [] \<and> physicalID \<noteq> tblID t) ErrMetadata (
     andThen (sortedBuckets locations) (\<lambda>buckets.
     Inr \<lparr>lkTable = t, lkPath = path, lkConfig = config, lkTableID = tblID t,
          lkPartitionID = (if Partition path \<noteq> [] then physicalID else -1), lkBuckets = buckets,
          lkResolver = resolverFor source t\<rparr>)))))))"

section \<open>Keys and buckets\<close>

definition bucketForValues :: "lookup_static \<Rightarrow> (string \<rightharpoonup> go_value) \<Rightarrow> int result" where
  "bucketForValues l vals =
     (let s = tblSchema (lkTable l); names = (if BucketKey s = [] then PrimaryKey s else BucketKey s) in
      andThen (encodeKeyColumns s names (map (valueOf vals) names)) (\<lambda>encoded.
      andThen (flussBucket encoded (int (length (lkBuckets l)))) (\<lambda>bucket.
      go_index (lkBuckets l) (sint bucket))))"

definition encodePoint :: "lookup_static \<Rightarrow> row \<Rightarrow> (bytes \<times> int) result" where
  "encodePoint l key =
     (let s = tblSchema (lkTable l) in
      andThen (EncodeLookupKey s key 1) (\<lambda>encoded.
      guardE (length key < length (PrimaryKey s)) (Panic ''index out of range'') (
      andThen (bucketForValues l (map_of (rev (zip (PrimaryKey s) key)))) (\<lambda>bucket.
      Inr (encoded, bucket)))))"

text \<open>The keys of the loop that compares the bucket key with the primary key: the first name that differs is an error,
  and so is a bucket key that is longer.\<close>

definition encodePrefix :: "lookup_static \<Rightarrow> row \<Rightarrow> (bytes \<times> int) result" where
  "encodePrefix l prefix =
     (let s = tblSchema (lkTable l); names = (if BucketKey s = [] then PrimaryKey s else BucketKey s) in
      guardE (length prefix < length names) ErrInvalidRow (
      guardE (take (length names) (PrimaryKey s) \<noteq> names) ErrInvalidSchema (
      andThen (EncodePrefixLookupKey s prefix 1) (\<lambda>encoded.
      guardE (length (PrimaryKey s) < length prefix) (Panic ''index out of range'') (
      andThen (bucketForValues l (map_of (rev (zip (PrimaryKey s) prefix)))) (\<lambda>bucket.
      Inr (encoded, bucket)))))))"

text \<open>\<^verbatim>\<open>decodeLookupValueWithResolver\<close>: a stored value is the schema ID it was written with and a compacted row.\<close>

definition decodeLookupValue :: "(table_path \<Rightarrow> int \<Rightarrow> schema result) \<Rightarrow> table \<Rightarrow> bytes \<Rightarrow> row result" where
  "decodeLookupValue resolver t v =
     guardE (length v < 2) ErrMalformedRow (
     andThen (le_get 2 v 0) (\<lambda>schemaID :: 16 word.
     andThen (resolver (tblPath t) (sint schemaID)) (\<lambda>s.
     andThen (go_slice v 2 (int (length v))) (\<lambda>rest.
     andThen (DecodeCompactedRow s rest) (\<lambda>row.
     evolveRow s (tblSchema t) row)))))"

section \<open>Requests to a bucket\<close>

record lookup_bucket_request =
  lbBucketId :: int
  lbPartitionId :: "int option"
  lbKeys :: "bytes list"

record lookup_message =
  lmTableId :: int
  lmInsertIfNotExists :: "bool option"
  lmTimeoutMs :: "int option"
  lmAcks :: "int option"
  lmBucketsReq :: "lookup_bucket_request list"

record lookup_request =
  lqPath :: physical_path
  lqBucket :: int
  lqTableID :: int
  lqPartitionID :: int
  lqKeys :: "bytes list"
  lqInsertIfNotExist :: bool
  lqTimeout :: int
  lqAcks :: int

definition cloneBytesList :: "bytes list \<Rightarrow> bytes list" where
  "cloneBytesList vals = map (\<lambda>v. [] @ v) vals"

definition lookupMessage :: "lookup_request \<Rightarrow> lookup_message" where
  "lookupMessage input =
     \<lparr>lmTableId = lqTableID input,
      lmInsertIfNotExists = (if lqInsertIfNotExist input then Some True else None),
      lmTimeoutMs = (if lqInsertIfNotExist input
        then Some (sint (word_of_int (lqTimeout input sdiv millisecond) :: 32 word)) else None),
      lmAcks = (if lqInsertIfNotExist input then Some (lqAcks input) else None),
      lmBucketsReq = [\<lparr>lbBucketId = lqBucket input,
        lbPartitionId = (if lqPartitionID input \<ge> 0 then Some (lqPartitionID input) else None),
        lbKeys = cloneBytesList (lqKeys input)\<rparr>]\<rparr>"

text \<open>A bucket of a response, with one entry per key: \<open>None\<close> is a nil entry or an entry without a value. A response that
  is not of the expected message is \<open>None\<close>.\<close>

record 'v bucket_response =
  brBucketId :: int
  brErrorCode :: int
  brErrorMessage :: string
  brValues :: "'v list"

definition bucketValues :: "int \<Rightarrow> int \<Rightarrow> nat \<Rightarrow> 'v bucket_response list option result \<Rightarrow> 'v list result" where
  "bucketValues api bucket keys response =
     andThen response (\<lambda>message.
     (case message of None \<Rightarrow> Inl (Plain ''unexpected response'')
      | Some buckets \<Rightarrow>
          (case buckets of [r] \<Rightarrow>
              guardE (brBucketId r \<noteq> bucket) ErrValidation (
              case responseServerError (brErrorCode r) (brErrorMessage r) api of Some e \<Rightarrow> Inl e
              | None \<Rightarrow> guardE (length (brValues r) \<noteq> keys) ErrValidation (Inr (brValues r)))
           | _ \<Rightarrow> Inl ErrValidation)))"

text \<open>\<^verbatim>\<open>append([]byte(nil), v...)\<close> of an empty value is nil.\<close>

definition cloneBytes :: "bytes option \<Rightarrow> bytes option" where
  "cloneBytes v = (case v of None \<Rightarrow> None | Some v \<Rightarrow> if v = [] then None else Some v)"

definition lookupBucket :: "int \<Rightarrow> lookup_request \<Rightarrow> bytes option bucket_response list option result \<Rightarrow> bytes option list result" where
  "lookupBucket apiLookup input response =
     andThen (bucketValues apiLookup (lqBucket input) (length (lqKeys input)) response) (\<lambda>vals.
     Inr (map cloneBytes vals))"

definition prefixLookupMessage :: "int \<Rightarrow> int \<Rightarrow> int \<Rightarrow> bytes list \<Rightarrow> lookup_message" where
  "prefixLookupMessage bucket tableID partitionID keys =
     \<lparr>lmTableId = tableID, lmInsertIfNotExists = None, lmTimeoutMs = None, lmAcks = None,
      lmBucketsReq = [\<lparr>lbBucketId = bucket, lbPartitionId = (if partitionID \<ge> 0 then Some partitionID else None),
        lbKeys = cloneBytesList keys\<rparr>]\<rparr>"

definition prefixLookupBucket :: "int \<Rightarrow> int \<Rightarrow> bytes list \<Rightarrow> bytes list bucket_response list option result \<Rightarrow> bytes list list result" where
  "prefixLookupBucket apiPrefixLookup bucket keys response =
     andThen (bucketValues apiPrefixLookup bucket (length keys) response) (\<lambda>lists.
     Inr (map cloneBytesList lists))"

section \<open>Retries\<close>

text \<open>\<^verbatim>\<open>retryLookup\<close>: what the calls return, what \<^verbatim>\<open>ctx.Err()\<close> is after each and what ends each wait are functions of the
  attempt. The result comes with the number of calls that were made.\<close>

fun retryLoop :: "(int \<Rightarrow> 'a result) \<Rightarrow> (int \<Rightarrow> go_error option) \<Rightarrow> (int \<Rightarrow> go_error option) \<Rightarrow> retry_policy \<Rightarrow> bool
    \<Rightarrow> nat \<Rightarrow> int \<Rightarrow> 'a result \<times> int" where
  "retryLoop call ctxErr waitErr policy mutation 0 attempt = (Inl ErrValidation, attempt - 1)"
| "retryLoop call ctxErr waitErr policy mutation (Suc n) attempt =
     (case call attempt of
        Inr v \<Rightarrow> (Inr v, attempt)
      | Inl e \<Rightarrow>
          if mutation \<or> attempt = MaxAttempts policy \<or> \<not> writerRetryable e \<or> ctxErr attempt \<noteq> None then (Inl e, attempt)
          else (let delay = (case Backoff policy of None \<Rightarrow> 0 | Some f \<Rightarrow> f (attempt + 1))
                in case waitContext (waitErr attempt) delay of
                     Some w \<Rightarrow> (Inl w, attempt)
                   | None \<Rightarrow> retryLoop call ctxErr waitErr policy mutation n (attempt + 1)))"

definition retryLookup :: "(int \<Rightarrow> 'a result) \<Rightarrow> (int \<Rightarrow> go_error option) \<Rightarrow> (int \<Rightarrow> go_error option) \<Rightarrow> retry_policy \<Rightarrow> bool
    \<Rightarrow> 'a result \<times> int" where
  "retryLookup call ctxErr waitErr policy mutation =
     retryLoop call ctxErr waitErr policy mutation (nat (MaxAttempts policy)) 1"

section \<open>Tasks and their results\<close>

datatype lookup_mode = PointMode | PrefixMode

record lookup_task =
  ltMode :: lookup_mode
  ltBucket :: int
  ltEncoded :: bytes

record raw_lookup =
  rlValue :: "bytes option"
  rlRows :: "bytes list"
  rlErr :: "go_error option"

definition rawError :: "go_error \<Rightarrow> raw_lookup" where
  "rawError e = \<lparr>rlValue = None, rlRows = [], rlErr = Some e\<rparr>"

definition encodedLookupTasks :: "lookup_task list \<Rightarrow> bytes list" where
  "encodedLookupTasks tasks = map ltEncoded tasks"

text \<open>\<^verbatim>\<open>completePointLookupBatch\<close> and \<^verbatim>\<open>completePrefixLookupBatch\<close>: the result of each task of a batch.\<close>

definition completePointLookupBatch :: "nat \<Rightarrow> bytes option list result \<Rightarrow> raw_lookup list" where
  "completePointLookupBatch tasks answer =
     (case answer of
        Inl e \<Rightarrow> replicate tasks (rawError e)
      | Inr vals \<Rightarrow>
          if length vals \<noteq> tasks then replicate tasks (rawError ErrValidation)
          else map (\<lambda>v. \<lparr>rlValue = v, rlRows = [], rlErr = None\<rparr>) vals)"

definition completePrefixLookupBatch :: "nat \<Rightarrow> bytes list list result \<Rightarrow> raw_lookup list" where
  "completePrefixLookupBatch tasks answer =
     (case answer of
        Inl e \<Rightarrow> replicate tasks (rawError e)
      | Inr vals \<Rightarrow>
          if length vals \<noteq> tasks then replicate tasks (rawError ErrValidation)
          else map (\<lambda>rows. \<lparr>rlValue = None, rlRows = rows, rlErr = None\<rparr>) vals)"

section \<open>Lookup and PrefixLookup\<close>

record lookup_result =
  lrKey :: row
  lrRow :: row
  lrFound :: bool
  lrBucket :: int
  lrErr :: "go_error option"

text \<open>What a call meets: whether the context is nil, closed, the error of the context at its start; for each key the
  error of \<^verbatim>\<open>enqueueLookup\<close>, and what the wait for its task gives, a raw result or the error of the context.\<close>

record lookup_env =
  leNilContext :: bool
  leClosed :: bool
  leCtxErr :: "go_error option"
  leEnqueue :: "nat \<Rightarrow> go_error option"
  leAwait :: "nat \<Rightarrow> raw_lookup result"

definition lookupContextError :: "lookup_env \<Rightarrow> go_error option" where
  "lookupContextError env =
     (if leNilContext env then Some ErrInvalidConfig else if leClosed env then Some ErrClosed else leCtxErr env)"

definition pointResult :: "lookup_static \<Rightarrow> lookup_env \<Rightarrow> nat \<Rightarrow> row \<Rightarrow> lookup_result" where
  "pointResult l env i key =
     (let r = \<lparr>lrKey = key, lrRow = [], lrFound = False, lrBucket = 0, lrErr = None\<rparr> in
      case encodePoint l key of
        Inl e \<Rightarrow> r\<lparr>lrErr := Some e\<rparr>
      | Inr (encoded, bucket) \<Rightarrow>
          (let r = r\<lparr>lrBucket := bucket\<rparr> in
           case leEnqueue env i of
             Some e \<Rightarrow> r\<lparr>lrErr := Some e\<rparr>
           | None \<Rightarrow>
               (case leAwait env i of
                  Inl e \<Rightarrow> r\<lparr>lrErr := Some e\<rparr>
                | Inr raw \<Rightarrow>
                    (case rlErr raw of
                       Some e \<Rightarrow> r\<lparr>lrErr := Some e\<rparr>
                     | None \<Rightarrow>
                         (case rlValue raw of
                            None \<Rightarrow> r\<lparr>lrErr := Some ErrNotFound\<rparr>
                          | Some v \<Rightarrow>
                              (case decodeLookupValue (lkResolver l) (lkTable l) v of
                                 Inl e \<Rightarrow> r\<lparr>lrErr := Some e\<rparr>
                               | Inr row \<Rightarrow> r\<lparr>lrRow := row, lrFound := True\<rparr>))))))"

definition lookupKeys :: "lookup_static \<Rightarrow> lookup_env \<Rightarrow> row list \<Rightarrow> lookup_result list" where
  "lookupKeys l env keys =
     (case lookupContextError env of
        Some e \<Rightarrow> map (\<lambda>key. \<lparr>lrKey = key, lrRow = [], lrFound = False, lrBucket = 0, lrErr = Some e\<rparr>) keys
      | None \<Rightarrow> map (\<lambda>(i, key). pointResult l env i key) (zip [0..<length keys] keys))"

record prefix_result =
  prPrefix :: row
  prRows :: "row list"
  prBucket :: int
  prErr :: "go_error option"

text \<open>\<^verbatim>\<open>awaitPrefixLookup\<close>: the rows before the one that does not decode stay in the result.\<close>

fun decodeRows :: "lookup_static \<Rightarrow> bytes list \<Rightarrow> row list \<times> go_error option" where
  "decodeRows l [] = ([], None)"
| "decodeRows l (v # vs) =
     (case decodeLookupValue (lkResolver l) (lkTable l) v of
        Inl e \<Rightarrow> ([], Some e)
      | Inr row \<Rightarrow> (case decodeRows l vs of (rows, err) \<Rightarrow> (row # rows, err)))"

definition prefixResult :: "lookup_static \<Rightarrow> lookup_env \<Rightarrow> nat \<Rightarrow> row \<Rightarrow> prefix_result" where
  "prefixResult l env i prefix =
     (let r = \<lparr>prPrefix = prefix, prRows = [], prBucket = 0, prErr = None\<rparr> in
      case encodePrefix l prefix of
        Inl e \<Rightarrow> r\<lparr>prErr := Some e\<rparr>
      | Inr (encoded, bucket) \<Rightarrow>
          (let r = r\<lparr>prBucket := bucket\<rparr> in
           case leEnqueue env i of
             Some e \<Rightarrow> r\<lparr>prErr := Some e\<rparr>
           | None \<Rightarrow>
               (case leAwait env i of
                  Inl e \<Rightarrow> r\<lparr>prErr := Some e\<rparr>
                | Inr raw \<Rightarrow>
                    (case rlErr raw of
                       Some e \<Rightarrow> r\<lparr>prErr := Some e\<rparr>
                     | None \<Rightarrow> (case decodeRows l (rlRows raw) of (rows, err) \<Rightarrow> r\<lparr>prRows := rows, prErr := err\<rparr>)))))"

definition prefixLookup :: "lookup_static \<Rightarrow> lookup_env \<Rightarrow> row list \<Rightarrow> prefix_result list" where
  "prefixLookup l env prefixes =
     (if qcInsertIfNotExists (lkConfig l)
      then map (\<lambda>prefix. \<lparr>prPrefix = prefix, prRows = [], prBucket = 0, prErr = Some ErrInvalidConfig\<rparr>) prefixes
      else case lookupContextError env of
        Some e \<Rightarrow> map (\<lambda>prefix. \<lparr>prPrefix = prefix, prRows = [], prBucket = 0, prErr = Some e\<rparr>) prefixes
      | None \<Rightarrow> map (\<lambda>(i, prefix). prefixResult l env i prefix) (zip [0..<length prefixes] prefixes))"

end
