(* ===== verification/Batch_Scanner.thy ===== *)
theory Batch_Scanner
  imports Log_Scanner Lookup
begin

text \<open>
  Bounded scans of one bucket: \<^verbatim>\<open>pkg/fgo/batch_scanner.go\<close>, \<^verbatim>\<open>batch_scanner_options.go\<close>, \<^verbatim>\<open>batch_scanner_decode.go\<close> and
  \<^verbatim>\<open>batch_scanner_backend.go\<close>, and the requests of the log scanner's backend (\<^verbatim>\<open>log_scanner_backend.go\<close>). The answers of
  the servers and of a snapshot reader are arguments.
\<close>

section \<open>Options and settings\<close>

record batch_scanner_config =
  bcLimit :: int
  bcProjection :: "string list"
  bcBatchSizeBytes :: int

type_synonym batch_scanner_option = "batch_scanner_config \<Rightarrow> batch_scanner_config result"

definition WithBatchLimit :: "int \<Rightarrow> batch_scanner_option" where
  "WithBatchLimit limit config =
     guardE (limit \<le> 0 \<or> limit > maxInt32) ErrInvalidConfig (Inr (config\<lparr>bcLimit := limit\<rparr>))"

definition WithBatchProjection :: "string list \<Rightarrow> batch_scanner_option" where
  "WithBatchProjection columns config =
     guardE (columns = []) ErrInvalidConfig (Inr (config\<lparr>bcProjection := columns\<rparr>))"

definition WithBatchSizeBytes :: "int \<Rightarrow> batch_scanner_option" where
  "WithBatchSizeBytes n config =
     guardE (n \<le> 0) ErrInvalidConfig (Inr (config\<lparr>bcBatchSizeBytes := n\<rparr>))"

record table_bucket =
  tbTableID :: int
  tbPartitionID :: int
  tbBucketID :: int
  tbBucketCount :: int
  tbLeader :: server_node

definition TableBucket_Validate :: "table_bucket \<Rightarrow> unit result" where
  "TableBucket_Validate b =
     guardE (tbTableID b < 0 \<or> tbPartitionID b < -1 \<or> tbBucketID b < 0 \<or> snAddress (tbLeader b) = []
       \<or> snType (tbLeader b) \<noteq> TabletServer) ErrInvalidConfig (Inr ())"

definition batchProjection :: "schema \<Rightarrow> string list \<Rightarrow> int list result" where
  "batchProjection s names =
     (if names = [] then Inr []
      else andThen (projectSchema s names) (\<lambda>_.
        Inr (map (\<lambda>name. case positions s name of None \<Rightarrow> 0 | Some i \<Rightarrow> int i) names)))"

definition defaultBatchConfig :: batch_scanner_config where
  "defaultBatchConfig = \<lparr>bcLimit = 1024, bcProjection = [], bcBatchSizeBytes = 1048576\<rparr>"

definition batchScannerSettings :: "table \<Rightarrow> table_bucket \<Rightarrow> batch_scanner_option option list
    \<Rightarrow> (batch_scanner_config \<times> int list) result" where
  "batchScannerSettings t bucket options =
     andThen (Schema_Validate (tblSchema t)) (\<lambda>_.
     andThen (TableBucket_Validate bucket) (\<lambda>_.
     guardE (tbTableID bucket \<noteq> tblID t) ErrInvalidConfig (
     andThen (applyOptions options defaultBatchConfig) (\<lambda>config.
     andThen (batchProjection (tblSchema t) (bcProjection config)) (\<lambda>projection.
     Inr (config, projection))))))"

text \<open>The fields of \<^verbatim>\<open>BatchScanner\<close> that do not change. \<open>bsSession\<close> says whether the backend serves KV scan sessions,
  \<open>bsSnapshot\<close> whether the scanner reads a snapshot.\<close>

record batch_static =
  bsTable :: table
  bsBucket :: table_bucket
  bsConfig :: batch_scanner_config
  bsProjection :: "int list"
  bsResolver :: "table_path \<Rightarrow> int \<Rightarrow> schema result"
  bsSession :: bool
  bsSnapshot :: bool

definition newBatchScanner :: "bool \<Rightarrow> bool \<Rightarrow> bool \<Rightarrow> (table_path \<Rightarrow> int \<Rightarrow> schema result) option \<Rightarrow> table \<Rightarrow> table_bucket
    \<Rightarrow> batch_scanner_option option list \<Rightarrow> batch_static result" where
  "newBatchScanner nilBackend session nilSnapshot source t bucket options =
     andThen (batchScannerSettings t bucket options) (\<lambda>(config, projection).
     guardE (nilBackend \<and> nilSnapshot) ErrInvalidConfig (
     Inr \<lparr>bsTable = t,
          bsBucket = (if tbBucketCount bucket \<le> 0 \<and> tblBucketCount t > 0
            then bucket\<lparr>tbBucketCount := sint (word_of_int (tblBucketCount t) :: 32 word)\<rparr> else bucket),
          bsConfig = config, bsProjection = projection, bsResolver = resolverFor source t, bsSession = session,
          bsSnapshot = (\<not> nilSnapshot)\<rparr>))"

text \<open>\<^verbatim>\<open>NewSnapshotBatchScanner\<close>: \<open>opened\<close> is the answer of the snapshot provider, if there is one.\<close>

definition NewSnapshotBatchScanner :: "go_error option \<Rightarrow> unit result option \<Rightarrow> table \<Rightarrow> table_bucket \<Rightarrow> int
    \<Rightarrow> batch_scanner_option option list \<Rightarrow> batch_static result" where
  "NewSnapshotBatchScanner openErr provider t bucket snapshotID options =
     (case openErr of Some e \<Rightarrow> Inl e
      | None \<Rightarrow>
          (case provider of None \<Rightarrow> Inl ErrUnsupportedAPI
           | Some opened \<Rightarrow>
               andThen (batchScannerSettings t bucket options) (\<lambda>(config, projection).
               guardE (snapshotID < 0 \<or> tblKind t \<noteq> PrimaryKeyTable) ErrInvalidConfig (
               andThen opened (\<lambda>_.
               Inr \<lparr>bsTable = t, bsBucket = bucket, bsConfig = config, bsProjection = projection,
                    bsResolver = (\<lambda>_ _. Inl (Panic ''nil resolver'')), bsSession = False, bsSnapshot = True\<rparr>)))))"

section \<open>Value batches\<close>

definition decodeValueRecord :: "(table_path \<Rightarrow> int \<Rightarrow> schema result) \<Rightarrow> table \<Rightarrow> bytes \<Rightarrow> int \<Rightarrow> (row \<times> int) result" where
  "decodeValueRecord resolver t encoded position =
     guardE (int (length encoded) - position < 6) ErrMalformedRecordBatch (
     andThen (le_get 4 encoded position) (\<lambda>size32 :: 32 word.
     let sz = uint size32; position = position + 4 in
     guardE (sz < 2 \<or> sz > int (length encoded) - position) ErrMalformedRecordBatch (
     andThen (le_get 2 encoded position) (\<lambda>schemaID :: 16 word.
     andThen (resolver (tblPath t) (sint schemaID)) (\<lambda>s.
     andThen (go_slice encoded (position + 2) (position + sz)) (\<lambda>body.
     andThen (DecodeCompactedRow s body) (\<lambda>row.
     andThen (evolveRow s (tblSchema t) row) (\<lambda>row.
     Inr (row, position + sz)))))))))"

fun decodeValueRecords :: "(table_path \<Rightarrow> int \<Rightarrow> schema result) \<Rightarrow> table \<Rightarrow> bytes \<Rightarrow> nat \<Rightarrow> int \<Rightarrow> (row list \<times> int) result" where
  "decodeValueRecords resolver t encoded 0 position = Inr ([], position)"
| "decodeValueRecords resolver t encoded (Suc n) position =
     andThen (decodeValueRecord resolver t encoded position) (\<lambda>(row, nxt).
     andThen (decodeValueRecords resolver t encoded n nxt) (\<lambda>(rows, final).
     Inr (row # rows, final)))"

definition decodeValueRecordBatch :: "(table_path \<Rightarrow> int \<Rightarrow> schema result) \<Rightarrow> table \<Rightarrow> bytes \<Rightarrow> row list result" where
  "decodeValueRecordBatch resolver t encoded =
     guardE (length encoded < 9) ErrMalformedRecordBatch (
     andThen (le_get 4 encoded 0) (\<lambda>size32 :: 32 word.
     andThen (go_index encoded 4) (\<lambda>magic.
     guardE (uint size32 \<noteq> int (length encoded) - 4 \<or> magic \<noteq> 0) ErrMalformedRecordBatch (
     andThen (le_get 4 encoded 5) (\<lambda>count32 :: 32 word.
     guardE (uint count32 > (int (length encoded) - 9) div 6) ErrMalformedRecordBatch (
     andThen (decodeValueRecords resolver t encoded (unat count32) 9) (\<lambda>(rows, position).
     guardE (position \<noteq> int (length encoded)) ErrMalformedRecordBatch (
     Inr rows))))))))"

section \<open>Limits and projection\<close>

text \<open>The loop of \<^verbatim>\<open>limitLatestLogRecords\<close>: the rows to skip, and what is kept.\<close>

fun skipSegments :: "'r arrow_lib \<Rightarrow> scan_record list \<Rightarrow> 'r scan_arrow list \<Rightarrow> scan_segment list \<Rightarrow> int
    \<Rightarrow> (scan_record list \<times> 'r scan_arrow list) result" where
  "skipSegments lib rows arrows [] skip = Inr ([], [])"
| "skipSegments lib rows arrows (segment # segments) skip =
     (if segRow segment \<ge> 0
      then if skip > 0 then skipSegments lib rows arrows segments (skip - 1)
        else andThen (go_index rows (segRow segment)) (\<lambda>row.
          andThen (skipSegments lib rows arrows segments skip) (\<lambda>(rs, as). Inr (row # rs, as)))
      else andThen (go_index arrows (segArrow segment)) (\<lambda>item.
        let count = arrowRows lib item in
        if skip \<ge> count then skipSegments lib rows arrows segments (skip - count)
        else andThen (if skip > 0 then andThen (sliceArrowLogBatch lib (saBatch item) skip count) (\<lambda>sliced.
              Inr (item\<lparr>saBatch := sliced\<rparr>)) else Inr item) (\<lambda>item.
          andThen (skipSegments lib rows arrows segments (if skip > 0 then 0 else skip)) (\<lambda>(rs, as). Inr (rs, item # as)))))"

definition limitLatestLogRecords :: "'r arrow_lib \<Rightarrow> scan_record list \<Rightarrow> 'r scan_arrow list \<Rightarrow> int
    \<Rightarrow> (scan_record list \<times> 'r scan_arrow list) result" where
  "limitLatestLogRecords lib rows arrows limit =
     (let skip = scanResultRows lib rows arrows - limit in
      if skip \<le> 0 then Inr (rows, arrows)
      else skipSegments lib rows arrows (orderedScanSegments rows arrows) skip)"

fun projectRows :: "int list \<Rightarrow> row list \<Rightarrow> row list result" where
  "projectRows projection [] = Inr []"
| "projectRows projection (row # rows) =
     (if projection = [] then Inr (row # rows)
      else andThen (projectRow row projection) (\<lambda>p.
        andThen (projectRows projection rows) (\<lambda>ps. Inr (p # ps))))"

definition projectArrowBatches :: "'r arrow_lib \<Rightarrow> batch_static \<Rightarrow> 'r scan_arrow list \<Rightarrow> 'r scan_arrow list result" where
  "projectArrowBatches lib st batches =
     (if bsProjection st = [] then Inr batches
      else andThen (projectSchema (tblSchema (bsTable st)) (bcProjection (bsConfig st))) (\<lambda>projected.
        andThen (ArrowSchema projected) (\<lambda>arrowSchema. projectArrows lib arrowSchema (bsProjection st) batches)))"

record 'r batch_result =
  btRows :: "row list"
  btArrowBatches :: "'r arrow_log_batch list"
  btDone :: bool

definition decodeCurrent :: "'r arrow_lib \<Rightarrow> (int \<Rightarrow> int) \<Rightarrow> batch_static \<Rightarrow> bool \<Rightarrow> bytes \<Rightarrow> 'r batch_result result" where
  "decodeCurrent lib localOffset st isLog encoded =
     guardE (isLog \<noteq> (tblKind (bsTable st) = LogTable)) ErrValidation (
     if encoded = [] then Inr \<lparr>btRows = [], btArrowBatches = [], btDone = False\<rparr>
     else if \<not> isLog then
       andThen (decodeValueRecordBatch (bsResolver st) (bsTable st) encoded) (\<lambda>rows.
       let rows = (if int (length rows) > bcLimit (bsConfig st) then drop (length rows - nat (bcLimit (bsConfig st))) rows else rows) in
       andThen (projectRows (bsProjection st) rows) (\<lambda>rows.
       Inr \<lparr>btRows = rows, btArrowBatches = [], btDone = False\<rparr>))
     else
       let compacted = \<not> equalFold (TrimSpace (case map_of (tblProperties (bsTable st)) ''table.log.format'' of
             None \<Rightarrow> [] | Some v \<Rightarrow> v)) LogFormatIndexed in
       andThen (decodeFetchedLog lib localOffset (bsResolver st) (bsTable st) (tbBucketID (bsBucket st)) 0 encoded compacted)
         (\<lambda>(nxt, records, arrows).
       andThen (limitLatestLogRecords lib records arrows (bcLimit (bsConfig st))) (\<lambda>(records, arrows).
       andThen (projectArrowBatches lib st arrows) (\<lambda>arrows.
       andThen (projectRows (bsProjection st) (map (\<lambda>r. recValue (srRecord r)) records)) (\<lambda>rows.
       Inr \<lparr>btRows = rows, btArrowBatches = map saBatch arrows, btDone = False\<rparr>)))))"

section \<open>Polling\<close>

text \<open>The changing fields; \<^verbatim>\<open>sequence\<close> is an \<^verbatim>\<open>int32\<close>.\<close>

record batch_state =
  bzScannerID :: bytes
  bzSequence :: "32 word"
  bzDone :: bool
  bzClosed :: bool

definition newBatchState :: batch_state where
  "newBatchState = \<lparr>bzScannerID = [], bzSequence = 0, bzDone = False, bzClosed = False\<rparr>"

record kv_session_batch =
  ksbScannerID :: bytes
  ksbHasMore :: bool
  ksbRecords :: bytes

definition pollKVSession :: "batch_static \<Rightarrow> kv_session_batch result \<Rightarrow> batch_state \<Rightarrow> 'r batch_result result \<times> batch_state" where
  "pollKVSession st answer z =
     (case answer of
        Inl e \<Rightarrow> (Inl e, z)
      | Inr batch \<Rightarrow>
          if ksbScannerID batch = [] then
            (if ksbHasMore batch \<or> ksbRecords batch \<noteq> [] \<or> bzScannerID z \<noteq> [] then (Inl ErrValidation, z)
             else (Inr \<lparr>btRows = [], btArrowBatches = [], btDone = True\<rparr>, z\<lparr>bzDone := True\<rparr>))
          else if bzScannerID z \<noteq> [] \<and> bzScannerID z \<noteq> ksbScannerID batch then (Inl ErrValidation, z)
          else
            (let z = z\<lparr>bzScannerID := ksbScannerID batch, bzSequence := bzSequence z + 1\<rparr> in
             case andThen (if ksbRecords batch \<noteq> [] then decodeValueRecordBatch (bsResolver st) (bsTable st) (ksbRecords batch) else Inr [])
                   (projectRows (bsProjection st)) of
               Inl e \<Rightarrow> (Inl e, z)
             | Inr rows \<Rightarrow>
                 (Inr \<lparr>btRows = rows, btArrowBatches = [], btDone = \<not> ksbHasMore batch\<rparr>,
                  if ksbHasMore batch then z else z\<lparr>bzDone := True\<rparr>)))"

text \<open>A snapshot reader returns rows and, at the end or on failure, an error.\<close>

definition pollSnapshot :: "batch_static \<Rightarrow> row list \<times> go_error option \<Rightarrow> batch_state \<Rightarrow> 'r batch_result result \<times> batch_state" where
  "pollSnapshot st answer z =
     (case answer of (rows, err) \<Rightarrow>
        let tooMany = int (length rows) > bcLimit (bsConfig st);
            result = (\<lambda>d. andThen (projectRows (bsProjection st) rows) (\<lambda>rows. Inr \<lparr>btRows = rows, btArrowBatches = [], btDone = d\<rparr>))
        in case err of
             None \<Rightarrow> (if tooMany then Inl ErrValidation else result False, z)
           | Some e \<Rightarrow>
               if errorsIs e EOF then (if tooMany then (Inl ErrValidation, z) else (result True, z\<lparr>bzDone := True\<rparr>))
               else (Inl e, z))"

text \<open>The answers of one \<^verbatim>\<open>Poll\<close>: exactly one of them is asked for.\<close>

record poll_answers =
  paSnapshot :: "row list \<times> go_error option"
  paSession :: "kv_session_batch result"
  paLimitScan :: "(bool \<times> bytes) result"

definition batchPoll :: "'r arrow_lib \<Rightarrow> (int \<Rightarrow> int) \<Rightarrow> batch_static \<Rightarrow> poll_answers \<Rightarrow> batch_state
    \<Rightarrow> 'r batch_result result \<times> batch_state" where
  "batchPoll lib localOffset st answers z =
     (if bzClosed z then (Inl ErrClosed, z)
      else if bzDone z then (Inr \<lparr>btRows = [], btArrowBatches = [], btDone = True\<rparr>, z)
      else if bsSnapshot st then pollSnapshot st (paSnapshot answers) z
      else if tblKind (bsTable st) = PrimaryKeyTable \<and> bsSession st then pollKVSession st (paSession answers) z
      else
        (case paLimitScan answers of
           Inl e \<Rightarrow> (Inl e, z)
         | Inr (isLog, encoded) \<Rightarrow>
             (case decodeCurrent lib localOffset st isLog encoded of
                Inl e \<Rightarrow> (Inl e, z)
              | Inr result \<Rightarrow> (Inr (result\<lparr>btDone := True\<rparr>), z\<lparr>bzDone := True\<rparr>))))"

text \<open>\<^verbatim>\<open>Close\<close>: whether it sends a closing request for the session.\<close>

definition batchClose :: "batch_static \<Rightarrow> batch_state \<Rightarrow> bool \<times> batch_state" where
  "batchClose st z =
     (if bzClosed z then (False, z)
      else (\<not> bsSnapshot st \<and> bsSession st \<and> bzScannerID z \<noteq> [] \<and> \<not> bzDone z, z\<lparr>bzClosed := True\<rparr>))"

end
