(* ===== verification/Scan_Backends.thy ===== *)
theory Scan_Backends
  imports Batch_Scanner
begin

text \<open>
  The requests that scanners send and what they take from the responses: \<^verbatim>\<open>pkg/fgo/batch_scanner_backend.go\<close> and
  \<^verbatim>\<open>pkg/fgo/log_scanner_backend.go\<close>. A response is an argument; \<open>None\<close> is a response of another message type. The API keys
  are arguments too, they only appear in the errors.
\<close>

section \<open>Batch scans\<close>

definition resolvedTableBuckets :: "int \<Rightarrow> int \<Rightarrow> int \<Rightarrow> (int \<times> server_node) list \<Rightarrow> table_bucket list result" where
  "resolvedTableBuckets tableID partitionID bucketCount locations =
     andThen (sortedBuckets (map fst locations)) (\<lambda>buckets.
     Inr (map (\<lambda>b. \<lparr>tbTableID = tableID, tbPartitionID = partitionID, tbBucketID = b, tbBucketCount = bucketCount,
       tbLeader = (case map_of locations b of None \<Rightarrow> zeroNode | Some n \<Rightarrow> n)\<rparr>) buckets))"

record limit_scan_message =
  lsmTableId :: int
  lsmBucketId :: int
  lsmLimit :: int
  lsmPartitionId :: "int option"

definition limitScanMessage :: "table_bucket \<Rightarrow> int \<Rightarrow> limit_scan_message" where
  "limitScanMessage bucket limit =
     \<lparr>lsmTableId = tbTableID bucket, lsmBucketId = tbBucketID bucket, lsmLimit = limit,
      lsmPartitionId = (if tbPartitionID bucket \<ge> 0 then Some (tbPartitionID bucket) else None)\<rparr>"

record scan_response =
  srErrorCode :: int
  srErrorMessage :: string
  srIsLogTable :: bool
  srScannerId :: bytes
  srHasMore :: bool
  srRecords :: bytes

definition scanResponse :: "int \<Rightarrow> scan_response option result \<Rightarrow> scan_response result" where
  "scanResponse requestAPI response =
     andThen response (\<lambda>message.
     (case message of None \<Rightarrow> Inl (Plain ''unexpected response'')
      | Some r \<Rightarrow>
          (case responseServerError (srErrorCode r) (srErrorMessage r) requestAPI of Some e \<Rightarrow> Inl e | None \<Rightarrow> Inr r)))"

definition limitScan :: "int \<Rightarrow> scan_response option result \<Rightarrow> (bool \<times> bytes) result" where
  "limitScan requestAPI response = andThen (scanResponse requestAPI response) (\<lambda>r. Inr (srIsLogTable r, srRecords r))"

text \<open>A request of a KV scan session: the first one names the bucket, later ones the session.\<close>

record scan_kv_message =
  skCallSeqId :: int
  skBatchSizeBytes :: int
  skCloseScanner :: bool
  skScannerId :: "bytes option"
  skBucketScanReq :: "(int \<times> int \<times> int \<times> int \<times> int option) option"

definition scanKVMessage :: "table_bucket \<Rightarrow> int \<Rightarrow> int \<Rightarrow> bytes \<Rightarrow> 32 word \<Rightarrow> bool \<Rightarrow> scan_kv_message result" where
  "scanKVMessage bucket limit batchSize scannerID sequence close =
     (let m = \<lparr>skCallSeqId = sint sequence, skBatchSizeBytes = batchSize, skCloseScanner = close, skScannerId = None,
         skBucketScanReq = None\<rparr> in
      if scannerID \<noteq> [] then Inr (m\<lparr>skScannerId := Some scannerID\<rparr>)
      else guardE (tbBucketCount bucket \<le> 0) ErrMetadata
        (Inr (m\<lparr>skBucketScanReq := Some (tbTableID bucket, tbBucketID bucket, limit, tbBucketCount bucket,
           if tbPartitionID bucket \<ge> 0 then Some (tbPartitionID bucket) else None)\<rparr>)))"

definition scanKV :: "int \<Rightarrow> scan_kv_message result \<Rightarrow> (scan_kv_message \<Rightarrow> scan_response option result) \<Rightarrow> kv_session_batch result" where
  "scanKV requestAPI message send =
     andThen message (\<lambda>m.
     andThen (scanResponse requestAPI (send m)) (\<lambda>r.
     Inr \<lparr>ksbScannerID = srScannerId r, ksbHasMore = srHasMore r, ksbRecords = srRecords r\<rparr>))"

section \<open>Log scans\<close>

record list_offsets_message =
  loFollowerServerId :: int
  loTableId :: int
  loBucketIds :: "int list"
  loOffsetType :: int
  loStartTimestamp :: "int option"
  loPartitionId :: "int option"

text \<open>\<^verbatim>\<open>UnixMilli\<close> of the start time.\<close>

definition UnixMilli :: "go_time \<Rightarrow> int" where
  "UnixMilli t = sint (word_of_int (unixSec t * 1000 + nanosecond t div 1000000) :: 64 word)"

definition listOffsetsMessage :: "int \<Rightarrow> int \<Rightarrow> int \<Rightarrow> scan_offset \<Rightarrow> list_offsets_message result" where
  "listOffsetsMessage bucket tableID partitionID start =
     (let m = \<lparr>loFollowerServerId = -1, loTableId = tableID, loBucketIds = [bucket], loOffsetType = 0,
         loStartTimestamp = None, loPartitionId = (if partitionID \<ge> 0 then Some partitionID else None)\<rparr> in
      if soKind start = ScanFromEarliest then Inr (m\<lparr>loOffsetType := 0\<rparr>)
      else if soKind start = ScanFromLatest then Inr (m\<lparr>loOffsetType := 1\<rparr>)
      else if soKind start = ScanFromTimestamp
      then Inr (m\<lparr>loOffsetType := 2, loStartTimestamp := Some (UnixMilli (soTimestamp start))\<rparr>)
      else Inl ErrInvalidConfig)"

record list_offsets_response =
  orBucketId :: int
  orErrorCode :: int
  orErrorMessage :: string
  orOffset :: int

definition listOffset :: "int \<Rightarrow> int \<Rightarrow> list_offsets_response list option result \<Rightarrow> int result" where
  "listOffset requestAPI bucket response =
     andThen response (\<lambda>message.
     (case message of None \<Rightarrow> Inl (Plain ''unexpected response'')
      | Some buckets \<Rightarrow>
          (case buckets of [r] \<Rightarrow>
              guardE (orBucketId r \<noteq> bucket) ErrValidation (
              case responseServerError (orErrorCode r) (orErrorMessage r) requestAPI of Some e \<Rightarrow> Inl e
              | None \<Rightarrow> Inr (orOffset r))
           | _ \<Rightarrow> Inl ErrValidation)))"

record 'f log_fetch_request =
  lfBucket :: int
  lfTableID :: int
  lfPartitionID :: int
  lfOffset :: int
  lfProjection :: "int list"
  lfFilter :: "('f \<times> int) option"

record 'f fetch_log_message =
  fmFollowerServerId :: int
  fmMaxBytes :: int
  fmMaxWaitMs :: int
  fmMinBytes :: int
  fmTableId :: int
  fmProjectionPushdown :: bool
  fmProjectedFields :: "int list"
  fmFilter :: "('f \<times> int) option"
  fmBucketId :: int
  fmFetchOffset :: int
  fmMaxFetchBytes :: int
  fmPartitionId :: "int option"

definition fetchLogMessage :: "'p scanner_config \<Rightarrow> 'f log_fetch_request \<Rightarrow> 'f fetch_log_message" where
  "fetchLogMessage config input =
     \<lparr>fmFollowerServerId = -1, fmMaxBytes = lcFetchMaxBytes config,
      fmMaxWaitMs = sint (word_of_int (lcFetchWaitMaxTime config sdiv millisecond) :: 32 word),
      fmMinBytes = lcFetchMinBytes config, fmTableId = lfTableID input,
      fmProjectionPushdown = (lfProjection input \<noteq> []), fmProjectedFields = lfProjection input, fmFilter = lfFilter input,
      fmBucketId = lfBucket input, fmFetchOffset = lfOffset input, fmMaxFetchBytes = lcFetchMaxBytesForBucket config,
      fmPartitionId = (if lfPartitionID input \<ge> 0 then Some (lfPartitionID input) else None)\<rparr>"

record remote_log_segment =
  rsID :: string
  rsStartOffset :: int
  rsEndOffset :: int
  rsSizeBytes :: int

record remote_log_info =
  riTabletDirectory :: string
  riPartitionName :: string
  riFirstStartPosition :: int
  riSegments :: "remote_log_segment list"

record fetch_bucket_response =
  fbBucketId :: int
  fbErrorCode :: int
  fbErrorMessage :: string
  fbRecords :: bytes
  fbHighWatermark :: int
  fbFilteredEndOffset :: "int option"
  fbRemote :: "remote_log_info option"

text \<open>\<^verbatim>\<open>fetch\<close>: the tables of the response with their buckets; \<open>readRemote\<close> reads the tiered segments, whose records come
  before those of the response.\<close>

definition fetchLog :: "int \<Rightarrow> 'f log_fetch_request \<Rightarrow> (remote_log_info \<Rightarrow> bytes result)
    \<Rightarrow> (int \<times> fetch_bucket_response list) list option result \<Rightarrow> scanner_fetch result" where
  "fetchLog requestAPI input readRemote response =
     andThen response (\<lambda>message.
     (case message of None \<Rightarrow> Inl (Plain ''unexpected response'')
      | Some tables \<Rightarrow>
          (case tables of [(tableID, [r])] \<Rightarrow>
              guardE (tableID \<noteq> lfTableID input \<or> fbBucketId r \<noteq> lfBucket input) ErrValidation (
              case responseServerError (fbErrorCode r) (fbErrorMessage r) requestAPI of Some e \<Rightarrow> Inl e
              | None \<Rightarrow>
                  andThen (case fbRemote r of None \<Rightarrow> Inr [] | Some info \<Rightarrow> readRemote info) (\<lambda>remote.
                  Inr \<lparr>sfRecords = remote @ fbRecords r, sfHighWatermark = fbHighWatermark r,
                    sfFilteredEndOffset = (case fbFilteredEndOffset r of None \<Rightarrow> 0 | Some x \<Rightarrow> x),
                    sfFilteredEndOffsetKnown = (fbFilteredEndOffset r \<noteq> None)\<rparr>))
           | _ \<Rightarrow> Inl ErrValidation)))"

end
