(* ===== verification/Lookup_Steps.thy ===== *)
theory Lookup_Steps
  imports Lookup
begin

text \<open>
  The goroutines of a lookuper (\<^verbatim>\<open>pkg/fgo/lookup.go\<close> and \<^verbatim>\<open>pkg/fgo/lookup_scheduler.go\<close>): callers that acquire a slot and
  queue a task, the scheduler that groups tasks and hands batches to the workers, and the workers. A step is a critical
  section, a channel operation or a worker's pass over its batch. \<^verbatim>\<open>Close\<close> sets the flag and cancels the life context
  under the lock, so \<open>ksClosed\<close> stands for both.
\<close>

section \<open>State\<close>

datatype lookup_group = LookupGroup (groupMode: lookup_mode) (groupBucket: int)

type_synonym lookup_batch = "lookup_group \<times> nat list"

text \<open>Where the scheduler is: at its select, in \<^verbatim>\<open>dispatchGroup\<close> (the group, the tasks that are left, the groups that
  follow), draining the queue, waiting for the workers, or finished.\<close>

datatype lookup_phase = Selecting | Dispatching lookup_group "nat list" "lookup_group list" | Draining | Waiting | Stopped

record lookup_state =
  ksClosed :: bool
  ksSlots :: nat
  ksReserved :: nat
  ksNext :: nat
  ksTask :: "nat \<Rightarrow> lookup_task"
  ksQueue :: "nat list"
  ksGroups :: "lookup_group \<Rightarrow> nat list"
  ksTimer :: bool
  ksPhase :: lookup_phase
  ksJobs :: "lookup_batch list"
  ksActive :: "lookup_batch list"
  ksResult :: "nat \<rightharpoonup> raw_lookup"

definition newLookupState :: lookup_state where
  "newLookupState = \<lparr>ksClosed = False, ksSlots = 0, ksReserved = 0, ksNext = 0,
     ksTask = (\<lambda>_. \<lparr>ltMode = PointMode, ltBucket = 0, ltEncoded = []\<rparr>), ksQueue = [], ksGroups = (\<lambda>_. []), ksTimer = False,
     ksPhase = Selecting, ksJobs = [], ksActive = [], ksResult = Map.empty\<rparr>"

definition groupOf :: "lookup_task \<Rightarrow> lookup_group" where
  "groupOf task = LookupGroup (ltMode task) (ltBucket task)"

section \<open>Completion\<close>

text \<open>\<^verbatim>\<open>complete\<close>: the first result counts, and it releases the slot.\<close>

definition completeTask :: "nat \<Rightarrow> raw_lookup \<Rightarrow> lookup_state \<Rightarrow> lookup_state" where
  "completeTask t raw s =
     (case ksResult s t of Some _ \<Rightarrow> s
      | None \<Rightarrow> s\<lparr>ksResult := (ksResult s)(t \<mapsto> raw), ksSlots := ksSlots s - 1\<rparr>)"

definition completeEach :: "(nat \<times> raw_lookup) list \<Rightarrow> lookup_state \<Rightarrow> lookup_state" where
  "completeEach rs s = fold (\<lambda>(t, raw). completeTask t raw) rs s"

definition completeLookupTasks :: "nat list \<Rightarrow> raw_lookup \<Rightarrow> lookup_state \<Rightarrow> lookup_state" where
  "completeLookupTasks tasks raw s = completeEach (map (\<lambda>t. (t, raw)) tasks) s"

section \<open>The scheduler\<close>

definition startGroups :: "(lookup_group \<Rightarrow> nat list) \<Rightarrow> lookup_group list \<Rightarrow> lookup_phase" where
  "startGroups groups order = (case order of [] \<Rightarrow> Selecting | g # gs \<Rightarrow> Dispatching g (groups g) gs)"

text \<open>The case of \<^verbatim>\<open>run\<close> that receives a task whose context is not done.\<close>

definition acceptTask :: "lookup_config \<Rightarrow> nat \<Rightarrow> lookup_state \<Rightarrow> lookup_state" where
  "acceptTask config t s =
     (let g = groupOf (ksTask s t); tasks = ksGroups s g @ [t];
          full = (int (length tasks) \<ge> qcMaxBatchKeys config \<or> qcBatchTimeout config = 0)
      in s\<lparr>ksGroups := (ksGroups s)(g := tasks),
           ksPhase := (if full then Dispatching g tasks [] else Selecting),
           ksTimer := (if full then ksTimer s else True)\<rparr>)"

definition shutdownLookup :: "lookup_group list \<Rightarrow> lookup_state \<Rightarrow> lookup_state" where
  "shutdownLookup order s =
     (completeLookupTasks (concat (map (ksGroups s) order)) (rawError ErrClosed) s)\<lparr>ksTimer := False, ksPhase := Draining\<rparr>"

text \<open>A worker's batch: the tasks whose context is done are completed, the others are looked up.\<close>

definition activeTasks :: "(nat \<Rightarrow> go_error option) \<Rightarrow> nat list \<Rightarrow> nat list" where
  "activeTasks errs tasks = filter (\<lambda>t. errs t = None) tasks"

definition cancelledTasks :: "(nat \<Rightarrow> go_error option) \<Rightarrow> nat list \<Rightarrow> (nat \<times> raw_lookup) list" where
  "cancelledTasks errs tasks = map (\<lambda>t. (t, rawError (the (errs t)))) (filter (\<lambda>t. errs t \<noteq> None) tasks)"

text \<open>The results of a batch, from the answer to its lookup; \<open>pointOk\<close> and \<open>prefixOk\<close> say which values the server may
  return for a key of a bucket.\<close>

definition pointAnswer :: "(int \<Rightarrow> bytes \<Rightarrow> bytes option \<Rightarrow> bool) \<Rightarrow> int \<Rightarrow> bytes list \<Rightarrow> bytes option list result \<Rightarrow> bool" where
  "pointAnswer pointOk bucket keys answer \<longleftrightarrow>
     (\<forall>vals. answer = Inr vals \<longrightarrow> (\<forall>(k, v) \<in> set (zip keys vals). pointOk bucket k v))"

definition prefixAnswer :: "(int \<Rightarrow> bytes \<Rightarrow> bytes list \<Rightarrow> bool) \<Rightarrow> int \<Rightarrow> bytes list \<Rightarrow> bytes list list result \<Rightarrow> bool" where
  "prefixAnswer prefixOk bucket keys answer \<longleftrightarrow>
     (\<forall>vals. answer = Inr vals \<longrightarrow> (\<forall>(k, v) \<in> set (zip keys vals). prefixOk bucket k v))"

section \<open>Steps\<close>

datatype lookup_actor = Caller | Scheduler | Worker

inductive lookup_step :: "lookup_config \<Rightarrow> (int \<Rightarrow> bytes \<Rightarrow> bytes option \<Rightarrow> bool) \<Rightarrow> (int \<Rightarrow> bytes \<Rightarrow> bytes list \<Rightarrow> bool)
    \<Rightarrow> lookup_actor \<Rightarrow> lookup_state \<Rightarrow> lookup_state \<Rightarrow> bool" for config pointOk prefixOk where
  call_slot: "ksSlots s < nat (qcMaxQueuedKeys config) \<Longrightarrow>
    lookup_step config pointOk prefixOk Caller s (s\<lparr>ksSlots := ksSlots s + 1, ksReserved := ksReserved s + 1\<rparr>)"
| call_refused: "ksReserved s > 0 \<Longrightarrow> ksClosed s \<or> ctxDone \<Longrightarrow>
    lookup_step config pointOk prefixOk Caller s (s\<lparr>ksSlots := ksSlots s - 1, ksReserved := ksReserved s - 1\<rparr>)"
| call_queue: "ksReserved s > 0 \<Longrightarrow> \<not> ksClosed s \<Longrightarrow> length (ksQueue s) < nat (qcMaxQueuedKeys config) \<Longrightarrow>
    lookup_step config pointOk prefixOk Caller s (s\<lparr>ksReserved := ksReserved s - 1, ksNext := Suc (ksNext s),
      ksTask := (ksTask s)(ksNext s := task), ksQueue := ksQueue s @ [ksNext s]\<rparr>)"
| call_close: "lookup_step config pointOk prefixOk Caller s (s\<lparr>ksClosed := True\<rparr>)"
| take_cancelled: "ksPhase s = Selecting \<Longrightarrow> ksQueue s = t # queue \<Longrightarrow>
    lookup_step config pointOk prefixOk Scheduler s (completeTask t (rawError e) (s\<lparr>ksQueue := queue\<rparr>))"
| take_task: "ksPhase s = Selecting \<Longrightarrow> ksQueue s = t # queue \<Longrightarrow>
    lookup_step config pointOk prefixOk Scheduler s (acceptTask config t (s\<lparr>ksQueue := queue\<rparr>))"
| timer: "ksPhase s = Selecting \<Longrightarrow> ksTimer s \<Longrightarrow> distinct order \<Longrightarrow> set order = {g. ksGroups s g \<noteq> []} \<Longrightarrow>
    lookup_step config pointOk prefixOk Scheduler s (s\<lparr>ksTimer := False, ksPhase := startGroups (ksGroups s) order\<rparr>)"
| send: "ksPhase s = Dispatching g tasks todo \<Longrightarrow> tasks \<noteq> [] \<Longrightarrow> length (ksJobs s) < nat (qcMaxInFlightRequests config) \<Longrightarrow>
    lookup_step config pointOk prefixOk Scheduler s (s\<lparr>ksJobs := ksJobs s @ [(g, take (nat (qcMaxBatchKeys config)) tasks)],
      ksPhase := Dispatching g (drop (nat (qcMaxBatchKeys config)) tasks) todo\<rparr>)"
| sent: "ksPhase s = Dispatching g [] todo \<Longrightarrow>
    lookup_step config pointOk prefixOk Scheduler s (s\<lparr>ksGroups := (ksGroups s)(g := []),
      ksPhase := startGroups ((ksGroups s)(g := [])) todo\<rparr>)"
| stop_dispatch: "ksPhase s = Dispatching g tasks todo \<Longrightarrow> tasks \<noteq> [] \<Longrightarrow> ksClosed s \<Longrightarrow>
    distinct order \<Longrightarrow> set order = {g. ksGroups s g \<noteq> []} \<Longrightarrow>
    lookup_step config pointOk prefixOk Scheduler s (shutdownLookup order
      (completeLookupTasks (take (nat (qcMaxBatchKeys config)) tasks) (rawError ErrClosed) s))"
| stop: "ksPhase s = Selecting \<Longrightarrow> ksClosed s \<Longrightarrow> distinct order \<Longrightarrow> set order = {g. ksGroups s g \<noteq> []} \<Longrightarrow>
    lookup_step config pointOk prefixOk Scheduler s (shutdownLookup order s)"
| drain: "ksPhase s = Draining \<Longrightarrow> ksQueue s = t # queue \<Longrightarrow>
    lookup_step config pointOk prefixOk Scheduler s (completeTask t (rawError ErrClosed) (s\<lparr>ksQueue := queue\<rparr>))"
| drained: "ksPhase s = Draining \<Longrightarrow> ksQueue s = [] \<Longrightarrow>
    lookup_step config pointOk prefixOk Scheduler s (s\<lparr>ksPhase := Waiting\<rparr>)"
| stopped: "ksPhase s = Waiting \<Longrightarrow> ksJobs s = [] \<Longrightarrow> ksActive s = [] \<Longrightarrow>
    lookup_step config pointOk prefixOk Scheduler s (s\<lparr>ksPhase := Stopped\<rparr>)"
| work: "ksJobs s = (g, tasks) # jobs \<Longrightarrow> length (ksActive s) < nat (qcMaxInFlightRequests config) \<Longrightarrow>
    lookup_step config pointOk prefixOk Worker s (completeEach (cancelledTasks errs tasks) (s\<lparr>ksJobs := jobs,
      ksActive := (if activeTasks errs tasks = [] then ksActive s else ksActive s @ [(g, activeTasks errs tasks)])\<rparr>))"
| finish_point: "ksActive s = before @ (LookupGroup PointMode bucket, tasks) # after \<Longrightarrow>
    pointAnswer pointOk bucket (encodedLookupTasks (map (ksTask s) tasks)) answer \<Longrightarrow>
    lookup_step config pointOk prefixOk Worker s (completeEach (zip tasks (completePointLookupBatch (length tasks) answer))
      (s\<lparr>ksActive := before @ after\<rparr>))"
| finish_prefix: "ksActive s = before @ (LookupGroup PrefixMode bucket, tasks) # after \<Longrightarrow>
    prefixAnswer prefixOk bucket (encodedLookupTasks (map (ksTask s) tasks)) answer \<Longrightarrow>
    lookup_step config pointOk prefixOk Worker s (completeEach (zip tasks (completePrefixLookupBatch (length tasks) answer))
      (s\<lparr>ksActive := before @ after\<rparr>))"

inductive lookup_reach :: "lookup_config \<Rightarrow> (int \<Rightarrow> bytes \<Rightarrow> bytes option \<Rightarrow> bool) \<Rightarrow> (int \<Rightarrow> bytes \<Rightarrow> bytes list \<Rightarrow> bool)
    \<Rightarrow> lookup_state \<Rightarrow> bool" for config pointOk prefixOk where
  start: "lookup_reach config pointOk prefixOk newLookupState"
| step: "lookup_reach config pointOk prefixOk s \<Longrightarrow> lookup_step config pointOk prefixOk a s s' \<Longrightarrow>
    lookup_reach config pointOk prefixOk s'"

end
