(* ===== verification/Lookup_Properties.thy ===== *)
theory Lookup_Properties
  imports Lookup_Steps Decode_Properties
begin

text \<open>
  The lookuper's promises: every accepted task gets exactly one result, of its own key; slots count the unfinished keys,
  so that queueing never blocks; closing completes everything; and as long as a key is unfinished, the scheduler or a
  worker can move. At the end, lookups find what the upsert writer wrote.
\<close>

section \<open>The invariant\<close>

definition pendingTasks :: "lookup_state \<Rightarrow> nat set" where
  "pendingTasks s = {t. t < ksNext s \<and> ksResult s t = None}"

definition batchTasks :: "lookup_batch list \<Rightarrow> nat set" where
  "batchTasks bs = (\<Union>(g, tasks) \<in> set bs. set tasks)"

text \<open>Tasks that the scheduler still has to dispatch.\<close>

definition schedTasks :: "lookup_state \<Rightarrow> nat set" where
  "schedTasks s = (case ksPhase s of Selecting \<Rightarrow> (\<Union>g. set (ksGroups s g))
     | Dispatching g tasks todo \<Rightarrow> set tasks \<union> (\<Union>h \<in> -{g}. set (ksGroups s h)) | _ \<Rightarrow> {})"

definition heldTasks :: "lookup_state \<Rightarrow> nat set" where
  "heldTasks s = (\<Union>g. set (ksGroups s g)) \<union> batchTasks (ksJobs s) \<union> batchTasks (ksActive s)"

definition slots_inv :: "lookup_config \<Rightarrow> lookup_state \<Rightarrow> bool" where
  "slots_inv config s \<longleftrightarrow> ksSlots s = ksReserved s + card (pendingTasks s) \<and> ksSlots s \<le> nat (qcMaxQueuedKeys config)"

definition place_inv :: "lookup_state \<Rightarrow> bool" where
  "place_inv s \<longleftrightarrow> pendingTasks s \<subseteq> set (ksQueue s) \<union> schedTasks s \<union> batchTasks (ksJobs s) \<union> batchTasks (ksActive s)"

definition queue_inv :: "lookup_state \<Rightarrow> bool" where
  "queue_inv s \<longleftrightarrow> distinct (ksQueue s) \<and> set (ksQueue s) \<subseteq> pendingTasks s \<and> set (ksQueue s) \<inter> heldTasks s = {}
     \<and> heldTasks s \<subseteq> {..<ksNext s}"

definition phase_inv :: "lookup_state \<Rightarrow> bool" where
  "phase_inv s \<longleftrightarrow> finite {g. ksGroups s g \<noteq> []} \<and>
     (case ksPhase s of Selecting \<Rightarrow> ksTimer s \<or> (\<forall>g. ksGroups s g = [])
      | Dispatching g tasks todo \<Rightarrow> set tasks \<subseteq> set (ksGroups s g) \<and> g \<notin> set todo \<and> distinct todo
          \<and> (ksTimer s \<or> (\<forall>h. h \<noteq> g \<longrightarrow> h \<notin> set todo \<longrightarrow> ksGroups s h = []))
      | Draining \<Rightarrow> ksClosed s
      | Waiting \<Rightarrow> ksClosed s \<and> ksQueue s = []
      | Stopped \<Rightarrow> ksClosed s \<and> ksQueue s = [] \<and> ksJobs s = [] \<and> ksActive s = [])"

definition batch_inv :: "lookup_config \<Rightarrow> lookup_state \<Rightarrow> bool" where
  "batch_inv config s \<longleftrightarrow> (\<forall>g. \<forall>t \<in> set (ksGroups s g). groupOf (ksTask s t) = g)
     \<and> (\<forall>(g, tasks) \<in> set (ksJobs s) \<union> set (ksActive s). int (length tasks) \<le> qcMaxBatchKeys config
          \<and> (\<forall>t \<in> set tasks. groupOf (ksTask s t) = g))
     \<and> length (ksJobs s) \<le> nat (qcMaxInFlightRequests config) \<and> length (ksActive s) \<le> nat (qcMaxInFlightRequests config)"

text \<open>A result without an error is an answer for the key of the task.\<close>

definition answersTask :: "(int \<Rightarrow> bytes \<Rightarrow> bytes option \<Rightarrow> bool) \<Rightarrow> (int \<Rightarrow> bytes \<Rightarrow> bytes list \<Rightarrow> bool) \<Rightarrow> lookup_task \<Rightarrow> raw_lookup \<Rightarrow> bool" where
  "answersTask pointOk prefixOk task raw \<longleftrightarrow> (rlErr raw = None \<longrightarrow>
     (case ltMode task of PointMode \<Rightarrow> pointOk (ltBucket task) (ltEncoded task) (rlValue raw)
      | PrefixMode \<Rightarrow> prefixOk (ltBucket task) (ltEncoded task) (rlRows raw)))"

definition result_inv :: "(int \<Rightarrow> bytes \<Rightarrow> bytes option \<Rightarrow> bool) \<Rightarrow> (int \<Rightarrow> bytes \<Rightarrow> bytes list \<Rightarrow> bool) \<Rightarrow> lookup_state \<Rightarrow> bool" where
  "result_inv pointOk prefixOk s \<longleftrightarrow> (\<forall>t raw. ksResult s t = Some raw \<longrightarrow> t < ksNext s \<and> answersTask pointOk prefixOk (ksTask s t) raw)"

section \<open>Completion\<close>

lemma completeTask_sel [simp]:
  "ksClosed (completeTask t r s) = ksClosed s" "ksReserved (completeTask t r s) = ksReserved s"
  "ksNext (completeTask t r s) = ksNext s" "ksTask (completeTask t r s) = ksTask s"
  "ksQueue (completeTask t r s) = ksQueue s" "ksGroups (completeTask t r s) = ksGroups s"
  "ksTimer (completeTask t r s) = ksTimer s" "ksPhase (completeTask t r s) = ksPhase s"
  "ksJobs (completeTask t r s) = ksJobs s" "ksActive (completeTask t r s) = ksActive s"
  by (simp_all add: completeTask_def split: option.splits)

lemma completeEach_simps [simp]:
  "completeEach [] s = s" "completeEach ((t, r) # rs) s = completeEach rs (completeTask t r s)"
  by (simp_all add: completeEach_def)

lemma completeEach_sel [simp]:
  "ksClosed (completeEach rs s) = ksClosed s" "ksReserved (completeEach rs s) = ksReserved s"
  "ksNext (completeEach rs s) = ksNext s" "ksTask (completeEach rs s) = ksTask s"
  "ksQueue (completeEach rs s) = ksQueue s" "ksGroups (completeEach rs s) = ksGroups s"
  "ksTimer (completeEach rs s) = ksTimer s" "ksPhase (completeEach rs s) = ksPhase s"
  "ksJobs (completeEach rs s) = ksJobs s" "ksActive (completeEach rs s) = ksActive s"
  by (induction rs arbitrary: s) auto

lemma completeTask_result: "ksResult (completeTask t r s) x = (case ksResult s x of Some q \<Rightarrow> Some q | None \<Rightarrow> if x = t then Some r else None)"
  by (auto simp: completeTask_def split: option.splits)

lemma completeEach_result: "ksResult (completeEach rs s) x = (case ksResult s x of Some q \<Rightarrow> Some q | None \<Rightarrow> map_of rs x)"
  by (induction rs arbitrary: s) (auto simp: completeTask_result split: option.splits)

lemma completeEach_pending: "pendingTasks (completeEach rs s) = pendingTasks s - fst ` set rs"
  by (auto simp: pendingTasks_def completeEach_result map_of_eq_None_iff split: option.splits)

lemma tasks_cong:
  "ksPhase s' = ksPhase s \<Longrightarrow> ksGroups s' = ksGroups s \<Longrightarrow> schedTasks s' = schedTasks s"
  "ksGroups s' = ksGroups s \<Longrightarrow> ksJobs s' = ksJobs s \<Longrightarrow> ksActive s' = ksActive s \<Longrightarrow> heldTasks s' = heldTasks s"
  "ksNext s' = ksNext s \<Longrightarrow> ksResult s' = ksResult s \<Longrightarrow> pendingTasks s' = pendingTasks s"
  unfolding schedTasks_def heldTasks_def pendingTasks_def by metis+

lemma completeEach_sets [simp]:
  "schedTasks (completeEach rs s) = schedTasks s" "heldTasks (completeEach rs s) = heldTasks s"
  by (intro tasks_cong; simp)+

lemma pending_finite [simp]: "finite (pendingTasks s)"
  by (simp add: pendingTasks_def)

lemma completeTask_slots:
  assumes "slots_inv config s" "t < ksNext s"
  shows "slots_inv config (completeTask t r s)"
proof (cases "ksResult s t")
  case None
  then have t: "t \<in> pendingTasks s" using assms(2) by (simp add: pendingTasks_def)
  have p: "pendingTasks (completeTask t r s) = pendingTasks s - {t}" using completeEach_pending [of "[(t, r)]" s] by simp
  have "0 < card (pendingTasks s)" using t by (auto simp: card_gt_0_iff)
  moreover have "ksSlots (completeTask t r s) = ksSlots s - 1" using None by (simp add: completeTask_def)
  ultimately show ?thesis using assms(1) t by (auto simp: slots_inv_def p card_Diff_singleton)
qed (use assms in \<open>simp add: completeTask_def\<close>)

lemma completeEach_slots:
  "slots_inv config s \<Longrightarrow> fst ` set rs \<subseteq> {..<ksNext s} \<Longrightarrow> slots_inv config (completeEach rs s)"
proof (induction rs arbitrary: s)
  case (Cons x rs)
  obtain t r where x: "x = (t, r)" by fastforce
  with Cons.prems show ?case by (auto intro!: Cons.IH completeTask_slots)
qed simp

lemma completeEach_results:
  assumes "result_inv pointOk prefixOk s" "\<forall>(t, raw) \<in> set rs. t < ksNext s \<and> answersTask pointOk prefixOk (ksTask s t) raw"
  shows "result_inv pointOk prefixOk (completeEach rs s)"
  using assms by (fastforce simp: result_inv_def completeEach_result dest: map_of_SomeD split: option.splits)

lemma answersTask_error [simp]: "answersTask pointOk prefixOk task (rawError e)"
  by (simp add: answersTask_def rawError_def)

lemma batchTasks_simps [simp]:
  "batchTasks [] = {}" "batchTasks ((g, ts) # bs) = set ts \<union> batchTasks bs" "batchTasks (bs @ cs) = batchTasks bs \<union> batchTasks cs"
  by (auto simp: batchTasks_def)

text \<open>All of the invariant but where the tasks are; completing tasks that are not in the queue keeps it.\<close>

definition weak_inv :: "lookup_config \<Rightarrow> (int \<Rightarrow> bytes \<Rightarrow> bytes option \<Rightarrow> bool) \<Rightarrow> (int \<Rightarrow> bytes \<Rightarrow> bytes list \<Rightarrow> bool) \<Rightarrow> lookup_state \<Rightarrow> bool" where
  "weak_inv config pointOk prefixOk s \<longleftrightarrow> slots_inv config s \<and> queue_inv s \<and> phase_inv s \<and> batch_inv config s
     \<and> result_inv pointOk prefixOk s"

lemma completeEach_phase [simp]: "phase_inv (completeEach rs s) = phase_inv s"
  by (cases "ksPhase s") (simp_all add: phase_inv_def)

lemma completeEach_weak:
  assumes "weak_inv config pointOk prefixOk s" "fst ` set rs \<subseteq> {..<ksNext s}" "fst ` set rs \<inter> set (ksQueue s) = {}"
    "\<forall>(t, raw) \<in> set rs. answersTask pointOk prefixOk (ksTask s t) raw"
  shows "weak_inv config pointOk prefixOk (completeEach rs s)"
proof -
  have "slots_inv config (completeEach rs s)" using assms(1,2) completeEach_slots by (simp add: weak_inv_def)
  moreover have "queue_inv (completeEach rs s)"
    using assms(1,3) by (auto simp: weak_inv_def queue_inv_def completeEach_pending)
  moreover have "phase_inv (completeEach rs s)" using assms(1) by (simp add: weak_inv_def)
  moreover have "batch_inv config (completeEach rs s)" using assms(1) by (simp add: weak_inv_def batch_inv_def)
  moreover have "result_inv pointOk prefixOk (completeEach rs s)"
    using assms(1,2,4) by (intro completeEach_results) (auto simp: weak_inv_def)
  ultimately show ?thesis by (simp add: weak_inv_def)
qed

lemma completeEach_place:
  "pendingTasks s \<subseteq> set (ksQueue s) \<union> schedTasks s \<union> batchTasks (ksJobs s) \<union> batchTasks (ksActive s) \<union> fst ` set rs
   \<Longrightarrow> place_inv (completeEach rs s)"
  by (auto simp: place_inv_def completeEach_pending)

section \<open>Steps\<close>

text \<open>Callers.\<close>

lemma pending_queue: "pendingTasks (s\<lparr>ksReserved := n, ksNext := Suc (ksNext s), ksTask := f, ksQueue := q\<rparr>)
    = pendingTasks s \<union> (if ksResult s (ksNext s) = None then {ksNext s} else {})"
  by (auto simp: pendingTasks_def less_Suc_eq)

lemma call_queue_weak:
  assumes "weak_inv config pointOk prefixOk s" "ksReserved s > 0" "\<not> ksClosed s"
  shows "weak_inv config pointOk prefixOk (s\<lparr>ksReserved := ksReserved s - 1, ksNext := Suc (ksNext s),
      ksTask := (ksTask s)(ksNext s := task), ksQueue := ksQueue s @ [ksNext s]\<rparr>)" (is "weak_inv _ _ _ ?s")
proof -
  have iv: "slots_inv config s" "queue_inv s" "phase_inv s" "batch_inv config s" "result_inv pointOk prefixOk s"
    using assms(1) by (simp_all add: weak_inv_def)
  have n: "ksResult s (ksNext s) = None" using iv(5) unfolding result_inv_def by (metis less_irrefl not_Some_eq)
  have pend: "pendingTasks ?s = insert (ksNext s) (pendingTasks s)" using n by (simp add: pending_queue)
  have new: "ksNext s \<notin> pendingTasks s" "ksNext s \<notin> heldTasks s" using iv(2) by (auto simp: pendingTasks_def queue_inv_def)
  have held: "heldTasks ?s = heldTasks s" by (simp add: heldTasks_def)
  have "slots_inv config ?s" using iv(1) assms(2) new(1) unfolding slots_inv_def pend by simp
  moreover have "queue_inv ?s" using iv(2) new unfolding queue_inv_def pend held by (auto simp: less_Suc_eq)
  moreover have "phase_inv ?s" using iv(3) assms(3) by (cases "ksPhase s") (simp_all add: phase_inv_def)
  moreover have "batch_inv config ?s"
  proof -
    have "t \<noteq> ksNext s" if "t \<in> set (ksGroups s g)" for t g using that new(2) by (auto simp: heldTasks_def)
    moreover have "t \<noteq> ksNext s" if "(g, ts) \<in> set (ksJobs s) \<union> set (ksActive s)" "t \<in> set ts" for t g ts
      using that new(2) by (auto simp: heldTasks_def batchTasks_def)
    ultimately show ?thesis using iv(4) by (fastforce simp: batch_inv_def)
  qed
  moreover have "result_inv pointOk prefixOk ?s" using iv(5) n by (auto simp: result_inv_def less_Suc_eq)
  ultimately show ?thesis by (simp add: weak_inv_def)
qed

lemma call_frame:
  assumes "weak_inv config pointOk prefixOk s" "place_inv s" "slots_inv config s'"
    and eq: "ksNext s' = ksNext s" "ksTask s' = ksTask s" "ksQueue s' = ksQueue s" "ksGroups s' = ksGroups s"
      "ksTimer s' = ksTimer s" "ksPhase s' = ksPhase s" "ksJobs s' = ksJobs s" "ksActive s' = ksActive s" "ksResult s' = ksResult s"
    and c: "ksClosed s \<Longrightarrow> ksClosed s'"
  shows "weak_inv config pointOk prefixOk s' \<and> place_inv s'"
proof -
  note sets = tasks_cong(1) [OF eq(6,4)] tasks_cong(2) [OF eq(4,7,8)] tasks_cong(3) [OF eq(1,9)]
  have iv: "queue_inv s" "phase_inv s" "batch_inv config s" "result_inv pointOk prefixOk s"
    using assms(1) by (simp_all add: weak_inv_def)
  have "queue_inv s'" using iv(1) unfolding queue_inv_def sets eq .
  moreover have "phase_inv s'" using iv(2) c by (cases "ksPhase s") (simp_all add: phase_inv_def eq)
  moreover have "batch_inv config s'" using iv(3) unfolding batch_inv_def eq .
  moreover have "result_inv pointOk prefixOk s'" using iv(4) unfolding result_inv_def eq .
  moreover have "place_inv s'" using assms(2) unfolding place_inv_def sets eq .
  ultimately show ?thesis using assms(3) by (simp add: weak_inv_def)
qed

lemma call_step_inv:
  assumes "lookup_step config pointOk prefixOk Caller s s'" "weak_inv config pointOk prefixOk s" "place_inv s"
  shows "weak_inv config pointOk prefixOk s' \<and> place_inv s'"
proof -
  have sl: "ksSlots s = ksReserved s + card (pendingTasks s)" "ksSlots s \<le> nat (qcMaxQueuedKeys config)"
    using assms(2) by (simp_all add: weak_inv_def slots_inv_def)
  from assms(1) show ?thesis
  proof cases
    case call_slot
    have "pendingTasks s' = pendingTasks s" by (rule tasks_cong(3)) (simp_all add: call_slot(1))
    then have "slots_inv config s'" using sl call_slot(2) by (simp add: slots_inv_def call_slot(1))
    then show ?thesis by (rule call_frame [OF assms(2,3)]) (simp_all add: call_slot(1))
  next
    case call_refused
    have "pendingTasks s' = pendingTasks s" by (rule tasks_cong(3)) (simp_all add: call_refused(1))
    then have "slots_inv config s'" using sl call_refused(2) unfolding slots_inv_def by (simp add: call_refused(1))
    then show ?thesis by (rule call_frame [OF assms(2,3)]) (simp_all add: call_refused(1))
  next
    case (call_queue task)
    have "pendingTasks s' \<subseteq> insert (ksNext s) (pendingTasks s)" unfolding call_queue(1) pending_queue by auto
    moreover have "schedTasks s' = schedTasks s" by (rule tasks_cong) (simp_all add: call_queue(1))
    ultimately have "place_inv s'" using assms(3) by (auto simp: place_inv_def call_queue(1))
    with call_queue_weak [OF assms(2) call_queue(2,3)] show ?thesis by (simp add: call_queue(1))
  next
    case call_close
    have "pendingTasks s' = pendingTasks s" by (rule tasks_cong(3)) (simp_all add: call_close)
    then have "slots_inv config s'" using sl by (simp add: slots_inv_def call_close)
    then show ?thesis by (rule call_frame [OF assms(2,3)]) (simp_all add: call_close)
  qed
qed

text \<open>The head of the queue is taken and completed.\<close>

lemma pop_inv:
  assumes w: "weak_inv config pointOk prefixOk s" and p: "place_inv s" and q: "ksQueue s = t # queue"
    and ph: "ksPhase s = Selecting \<or> ksPhase s = Draining"
  shows "weak_inv config pointOk prefixOk (completeTask t (rawError e) (s\<lparr>ksQueue := queue\<rparr>))
    \<and> place_inv (completeTask t (rawError e) (s\<lparr>ksQueue := queue\<rparr>))"
proof -
  let ?s = "s\<lparr>ksQueue := queue\<rparr>"
  have iv: "slots_inv config s" "queue_inv s" "phase_inv s" "batch_inv config s" "result_inv pointOk prefixOk s"
    using w by (simp_all add: weak_inv_def)
  have sets: "pendingTasks ?s = pendingTasks s" "schedTasks ?s = schedTasks s" "heldTasks ?s = heldTasks s"
    by (intro tasks_cong; simp)+
  have t: "t \<in> pendingTasks s" "t \<notin> set queue" using iv(2) q by (auto simp: queue_inv_def)
  have "slots_inv config ?s" using iv(1) by (simp add: slots_inv_def sets)
  moreover have "queue_inv ?s" using iv(2) q by (auto simp: queue_inv_def sets)
  moreover have "phase_inv ?s" using iv(3) ph by (auto simp: phase_inv_def)
  moreover have "batch_inv config ?s" using iv(4) by (simp add: batch_inv_def)
  moreover have "result_inv pointOk prefixOk ?s" using iv(5) by (simp add: result_inv_def)
  ultimately have "weak_inv config pointOk prefixOk ?s" by (simp add: weak_inv_def)
  with t have "weak_inv config pointOk prefixOk (completeEach [(t, rawError e)] ?s)"
    by (intro completeEach_weak) (auto simp: pendingTasks_def)
  moreover have "place_inv (completeEach [(t, rawError e)] ?s)"
    using p q by (intro completeEach_place) (auto simp: place_inv_def sets)
  ultimately show ?thesis by simp
qed

text \<open>The scheduler groups a task.\<close>

lemma acceptTask_inv:
  assumes w: "weak_inv config pointOk prefixOk s" and p: "place_inv s" and q: "ksQueue s = t # queue"
    and ph: "ksPhase s = Selecting"
  shows "weak_inv config pointOk prefixOk (acceptTask config t (s\<lparr>ksQueue := queue\<rparr>))
    \<and> place_inv (acceptTask config t (s\<lparr>ksQueue := queue\<rparr>))"
proof -
  let ?s = "acceptTask config t (s\<lparr>ksQueue := queue\<rparr>)" let ?g = "groupOf (ksTask s t)"
  have iv: "slots_inv config s" "queue_inv s" "phase_inv s" "batch_inv config s" "result_inv pointOk prefixOk s"
    using w by (simp_all add: weak_inv_def)
  have t: "t \<in> pendingTasks s" "t \<notin> set queue" "t \<notin> heldTasks s" using iv(2) q by (auto simp: queue_inv_def)
  have sel: "ksSlots ?s = ksSlots s" "ksReserved ?s = ksReserved s" "ksNext ?s = ksNext s" "ksTask ?s = ksTask s"
    "ksQueue ?s = queue" "ksGroups ?s = (ksGroups s)(?g := ksGroups s ?g @ [t])" "ksJobs ?s = ksJobs s"
    "ksActive ?s = ksActive s" "ksResult ?s = ksResult s" "ksClosed ?s = ksClosed s"
    by (simp_all add: acceptTask_def Let_def)
  have grp: "(\<Union>g. set (ksGroups ?s g)) = insert t (\<Union>g. set (ksGroups s g))"
    unfolding sel(6) by (auto split: if_splits)
  have sets: "pendingTasks ?s = pendingTasks s" "heldTasks ?s = insert t (heldTasks s)"
    by (auto simp: pendingTasks_def heldTasks_def sel(3,7-9) grp)
  have phase: "ksPhase ?s = Dispatching ?g (ksGroups ?s ?g) [] \<and> ksTimer ?s = ksTimer s \<or> ksPhase ?s = Selecting \<and> ksTimer ?s"
    by (simp add: acceptTask_def Let_def)
  have "schedTasks ?s = (\<Union>g. set (ksGroups ?s g))" using phase by (auto simp: schedTasks_def)
  then have sched: "schedTasks ?s = insert t (schedTasks s)" using ph by (simp add: grp schedTasks_def)
  have "slots_inv config ?s" using iv(1) by (simp add: slots_inv_def sets sel)
  moreover have "queue_inv ?s"
    using iv(2) q t by (auto simp: queue_inv_def sets sel(3,5) pendingTasks_def sel(9))
  moreover have "phase_inv ?s"
  proof -
    have "finite {g. ksGroups ?s g \<noteq> []}"
      by (rule finite_subset [of _ "insert ?g {g. ksGroups s g \<noteq> []}"]) (use iv(3) in \<open>auto simp: sel(6) phase_inv_def\<close>)
    moreover have "ksTimer s \<or> (\<forall>g. ksGroups s g = [])" using iv(3) ph by (simp add: phase_inv_def)
    ultimately show ?thesis using phase by (auto simp: phase_inv_def sel(6))
  qed
  moreover have "batch_inv config ?s"
    using iv(4) unfolding batch_inv_def sel by auto
  moreover have "result_inv pointOk prefixOk ?s" using iv(5) by (simp add: result_inv_def sel)
  moreover have "place_inv ?s" using p q by (auto simp: place_inv_def sets sched sel)
  ultimately show ?thesis by (simp add: weak_inv_def)
qed

text \<open>The scheduler goes to another group.\<close>

lemma phase_frame:
  assumes "weak_inv config pointOk prefixOk s" "phase_inv s'" "batch_inv config s'"
    and eq: "ksSlots s' = ksSlots s" "ksReserved s' = ksReserved s" "ksNext s' = ksNext s" "ksTask s' = ksTask s"
      "ksQueue s' = ksQueue s" "ksResult s' = ksResult s" and h: "heldTasks s' \<subseteq> heldTasks s"
  shows "weak_inv config pointOk prefixOk s'"
proof -
  note pend = tasks_cong(3) [OF eq(3,6)]
  have iv: "slots_inv config s" "queue_inv s" "result_inv pointOk prefixOk s" using assms(1) by (simp_all add: weak_inv_def)
  have "slots_inv config s'" using iv(1) unfolding slots_inv_def pend eq .
  moreover have "queue_inv s'" using iv(2) h unfolding queue_inv_def pend eq by blast
  moreover have "result_inv pointOk prefixOk s'" using iv(3) unfolding result_inv_def eq .
  ultimately show ?thesis using assms(2,3) by (simp add: weak_inv_def)
qed

lemma startGroups_phase:
  assumes "finite {g. ksGroups s g \<noteq> []}" "distinct order" "ksPhase s = startGroups (ksGroups s) order"
    "ksTimer s \<or> (\<forall>h. h \<notin> set order \<longrightarrow> ksGroups s h = [])"
  shows "phase_inv s" and "schedTasks s = (\<Union>g. set (ksGroups s g))"
proof -
  show "phase_inv s" using assms by (cases order) (auto simp: phase_inv_def startGroups_def)
  show "schedTasks s = (\<Union>g. set (ksGroups s g))"
  proof (cases order)
    case (Cons g gs)
    have "set (ksGroups s g) \<union> (\<Union>h \<in> -{g}. set (ksGroups s h)) = (\<Union>g. set (ksGroups s g))" by blast
    then show ?thesis using assms(3) Cons by (simp add: schedTasks_def startGroups_def)
  qed (use assms(3) in \<open>simp add: schedTasks_def startGroups_def\<close>)
qed

lemma timer_inv:
  assumes w: "weak_inv config pointOk prefixOk s" and p: "place_inv s" and ph: "ksPhase s = Selecting"
    and o: "distinct order" "set order = {g. ksGroups s g \<noteq> []}"
  shows "weak_inv config pointOk prefixOk (s\<lparr>ksTimer := False, ksPhase := startGroups (ksGroups s) order\<rparr>)
    \<and> place_inv (s\<lparr>ksTimer := False, ksPhase := startGroups (ksGroups s) order\<rparr>)" (is "weak_inv _ _ _ ?s \<and> _")
proof -
  have f: "finite {g. ksGroups ?s g \<noteq> []}" using w by (simp add: weak_inv_def phase_inv_def)
  have t: "ksTimer ?s \<or> (\<forall>h. h \<notin> set order \<longrightarrow> ksGroups ?s h = [])" using o(2) by simp
  note st = startGroups_phase [OF f o(1) _ t]
  have b: "batch_inv config ?s" using w unfolding weak_inv_def batch_inv_def by simp
  have "weak_inv config pointOk prefixOk ?s"
    by (rule phase_frame [OF w st(1) b]) (simp_all add: heldTasks_def)
  moreover have "schedTasks ?s = schedTasks s" using st(2) ph by (simp add: schedTasks_def)
  then have "place_inv ?s" using p by (simp add: place_inv_def pendingTasks_def)
  ultimately show ?thesis by blast
qed

lemma send_inv:
  assumes w: "weak_inv config pointOk prefixOk s" and p: "place_inv s" and ph: "ksPhase s = Dispatching g tasks todo"
    and n: "length (ksJobs s) < nat (qcMaxInFlightRequests config)" and k: "0 < qcMaxBatchKeys config"
  defines "m \<equiv> nat (qcMaxBatchKeys config)"
  shows "weak_inv config pointOk prefixOk (s\<lparr>ksJobs := ksJobs s @ [(g, take m tasks)], ksPhase := Dispatching g (drop m tasks) todo\<rparr>)
    \<and> place_inv (s\<lparr>ksJobs := ksJobs s @ [(g, take m tasks)], ksPhase := Dispatching g (drop m tasks) todo\<rparr>)"
    (is "weak_inv _ _ _ ?s \<and> _")
proof -
  have iv: "phase_inv s" "batch_inv config s" using w by (simp_all add: weak_inv_def)
  have sub: "set tasks \<subseteq> set (ksGroups s g)" using iv(1) ph by (simp add: phase_inv_def)
  have td: "set tasks = set (take m tasks) \<union> set (drop m tasks)" by (metis append_take_drop_id set_append)
  have ph': "phase_inv ?s" using iv(1) ph td by (simp add: phase_inv_def)
  have bt: "batch_inv config ?s"
  proof -
    have "\<forall>t \<in> set (take m tasks). groupOf (ksTask s t) = g" using iv(2) sub td unfolding batch_inv_def by blast
    moreover have "int (length (take m tasks)) \<le> qcMaxBatchKeys config" using k by (simp add: m_def)
    ultimately show ?thesis using iv(2) n unfolding batch_inv_def by auto
  qed
  have "weak_inv config pointOk prefixOk ?s"
    by (rule phase_frame [OF w ph' bt]) (use sub td in \<open>auto simp: heldTasks_def\<close>)
  moreover have "schedTasks s = schedTasks ?s \<union> set (take m tasks)" using ph td by (auto simp: schedTasks_def)
  then have "place_inv ?s" using p by (auto simp: place_inv_def pendingTasks_def)
  ultimately show ?thesis by blast
qed

lemma sent_inv:
  assumes w: "weak_inv config pointOk prefixOk s" and p: "place_inv s" and ph: "ksPhase s = Dispatching g [] todo"
  shows "weak_inv config pointOk prefixOk (s\<lparr>ksGroups := (ksGroups s)(g := []), ksPhase := startGroups ((ksGroups s)(g := [])) todo\<rparr>)
    \<and> place_inv (s\<lparr>ksGroups := (ksGroups s)(g := []), ksPhase := startGroups ((ksGroups s)(g := [])) todo\<rparr>)"
    (is "weak_inv _ _ _ ?s \<and> _")
proof -
  have iv: "phase_inv s" "batch_inv config s" using w by (simp_all add: weak_inv_def)
  have f: "finite {h. ksGroups ?s h \<noteq> []}"
    by (rule finite_subset [of _ "{h. ksGroups s h \<noteq> []}"]) (use iv(1) in \<open>auto simp: phase_inv_def\<close>)
  have d: "distinct todo" and t: "ksTimer ?s \<or> (\<forall>h. h \<notin> set todo \<longrightarrow> ksGroups ?s h = [])"
    using iv(1) ph by (auto simp: phase_inv_def)
  note st = startGroups_phase [OF f d _ t]
  have b: "batch_inv config ?s" using iv(2) unfolding batch_inv_def by simp
  have "weak_inv config pointOk prefixOk ?s"
    by (rule phase_frame [OF w st(1) b]) (auto simp: heldTasks_def split: if_splits)
  moreover have "schedTasks ?s = schedTasks s" using st(2) ph by (auto simp: schedTasks_def split: if_splits)
  then have "place_inv ?s" using p by (simp add: place_inv_def pendingTasks_def)
  ultimately show ?thesis by blast
qed

text \<open>Shutdown.\<close>

lemma completeLookupTasks_inv:
  assumes w: "weak_inv config pointOk prefixOk s" and p: "place_inv s" and t: "set tasks \<subseteq> heldTasks s"
  shows "weak_inv config pointOk prefixOk (completeLookupTasks tasks (rawError e) s) \<and> place_inv (completeLookupTasks tasks (rawError e) s)"
proof -
  have q: "heldTasks s \<subseteq> {..<ksNext s}" "set (ksQueue s) \<inter> heldTasks s = {}" using w by (simp_all add: weak_inv_def queue_inv_def)
  have f: "fst ` set (map (\<lambda>t. (t, rawError e)) tasks) = set tasks" by (simp add: image_image)
  have "weak_inv config pointOk prefixOk (completeEach (map (\<lambda>t. (t, rawError e)) tasks) s)"
    using q t by (intro completeEach_weak [OF w]) (unfold f, auto)
  moreover have "place_inv (completeEach (map (\<lambda>t. (t, rawError e)) tasks) s)"
    using p by (intro completeEach_place) (auto simp: place_inv_def)
  ultimately show ?thesis by (simp add: completeLookupTasks_def)
qed

lemma shutdown_inv:
  assumes w: "weak_inv config pointOk prefixOk s" and p: "place_inv s" and c: "ksClosed s"
    and ph: "ksPhase s = Selecting \<or> (\<exists>g tasks todo. ksPhase s = Dispatching g tasks todo)"
    and o: "set order = {g. ksGroups s g \<noteq> []}"
  shows "weak_inv config pointOk prefixOk (shutdownLookup order s) \<and> place_inv (shutdownLookup order s)"
proof -
  let ?ts = "concat (map (ksGroups s) order)" let ?s = "completeLookupTasks ?ts (rawError ErrClosed) s"
  let ?s' = "?s\<lparr>ksTimer := False, ksPhase := Draining\<rparr>"
  have ts: "set ?ts = (\<Union>g. set (ksGroups s g))" using o by (auto split: if_splits)
  then have "set ?ts \<subseteq> heldTasks s" by (auto simp: heldTasks_def)
  from completeLookupTasks_inv [OF w p this] have w': "weak_inv config pointOk prefixOk ?s" and p': "place_inv ?s" by blast+
  have ph': "phase_inv ?s'" using w' c by (simp add: weak_inv_def phase_inv_def completeLookupTasks_def)
  have b': "batch_inv config ?s'" using w' by (simp add: weak_inv_def batch_inv_def)
  have "weak_inv config pointOk prefixOk ?s'"
    by (rule phase_frame [OF w' ph' b']) (simp_all add: heldTasks_def)
  moreover have "place_inv ?s'"
  proof -
    have "schedTasks s \<subseteq> set ?ts" using w ph unfolding ts by (auto simp: weak_inv_def phase_inv_def schedTasks_def) blast+
    moreover have "pendingTasks ?s' = pendingTasks s - set ?ts"
    proof -
      have "pendingTasks ?s' = pendingTasks ?s" by (rule tasks_cong) simp_all
      then show ?thesis by (simp add: completeLookupTasks_def completeEach_pending image_image)
    qed
    ultimately show ?thesis using p by (auto simp: place_inv_def completeLookupTasks_def schedTasks_def)
  qed
  ultimately show ?thesis by (simp add: shutdownLookup_def)
qed

lemma scheduler_step_inv:
  assumes st: "lookup_step config pointOk prefixOk Scheduler s s'" and w: "weak_inv config pointOk prefixOk s" and p: "place_inv s"
    and k: "0 < qcMaxBatchKeys config"
  shows "weak_inv config pointOk prefixOk s' \<and> place_inv s'"
  using st
proof cases
  case (take_cancelled t queue e)
  with pop_inv [OF w p] show ?thesis by blast
next
  case (take_task t queue)
  with acceptTask_inv [OF w p] show ?thesis by blast
next
  case (timer order)
  with timer_inv [OF w p] show ?thesis by blast
next
  case (send g tasks todo)
  with send_inv [OF w p _ _ k] show ?thesis by blast
next
  case (sent g todo)
  with sent_inv [OF w p] show ?thesis by blast
next
  case (stop_dispatch g tasks todo order)
  let ?ts = "take (nat (qcMaxBatchKeys config)) tasks" let ?s = "completeLookupTasks ?ts (rawError ErrClosed) s"
  have "set tasks \<subseteq> set (ksGroups s g)" using w stop_dispatch(2) by (simp add: weak_inv_def phase_inv_def)
  then have "set ?ts \<subseteq> heldTasks s" by (auto simp: heldTasks_def dest: in_set_takeD)
  note c = completeLookupTasks_inv [OF w p this, of ErrClosed]
  show ?thesis unfolding stop_dispatch(1)
    by (rule shutdown_inv) (use c stop_dispatch in \<open>simp_all add: completeLookupTasks_def\<close>)
next
  case (stop order)
  with shutdown_inv [OF w p] show ?thesis by blast
next
  case (drain t queue)
  with pop_inv [OF w p] show ?thesis by blast
next
  case drained
  have "phase_inv s'" using w drained by (simp add: weak_inv_def phase_inv_def)
  moreover have "batch_inv config s'" using w drained by (simp add: weak_inv_def batch_inv_def)
  ultimately have "weak_inv config pointOk prefixOk s'"
    by (rule phase_frame [OF w]) (simp_all add: drained heldTasks_def)
  moreover have "place_inv s'" using p drained by (simp add: place_inv_def schedTasks_def pendingTasks_def)
  ultimately show ?thesis by blast
next
  case stopped
  have "phase_inv s'" using w stopped by (simp add: weak_inv_def phase_inv_def)
  moreover have "batch_inv config s'" using w stopped by (simp add: weak_inv_def batch_inv_def)
  ultimately have "weak_inv config pointOk prefixOk s'"
    by (rule phase_frame [OF w]) (simp_all add: stopped heldTasks_def)
  moreover have "place_inv s'" using p stopped by (simp add: place_inv_def schedTasks_def pendingTasks_def)
  ultimately show ?thesis by blast
qed

text \<open>Workers.\<close>

lemma batch_tasks_held: "(g, tasks) \<in> set (ksJobs s) \<union> set (ksActive s) \<Longrightarrow> set tasks \<subseteq> heldTasks s"
  by (auto simp: heldTasks_def batchTasks_def)

lemma work_inv:
  fixes errs :: "nat \<Rightarrow> go_error option"
  assumes w: "weak_inv config pointOk prefixOk s" and p: "place_inv s" and j: "ksJobs s = (g, tasks) # jobs"
    and n: "length (ksActive s) < nat (qcMaxInFlightRequests config)"
  defines "s' \<equiv> s\<lparr>ksJobs := jobs,
      ksActive := (if activeTasks errs tasks = [] then ksActive s else ksActive s @ [(g, activeTasks errs tasks)])\<rparr>"
  shows "weak_inv config pointOk prefixOk (completeEach (cancelledTasks errs tasks) s') \<and> place_inv (completeEach (cancelledTasks errs tasks) s')"
proof -
  have a: "set (activeTasks errs tasks) \<union> fst ` set (cancelledTasks errs tasks) = set tasks"
    "set (activeTasks errs tasks) \<subseteq> set tasks" "fst ` set (cancelledTasks errs tasks) \<subseteq> set tasks"
    by (auto simp: activeTasks_def cancelledTasks_def image_image)
  have q: "heldTasks s \<subseteq> {..<ksNext s}" "set (ksQueue s) \<inter> heldTasks s = {}" using w by (simp_all add: weak_inv_def queue_inv_def)
  have t: "set tasks \<subseteq> heldTasks s" using j by (intro batch_tasks_held [of g]) simp
  have act: "batchTasks (ksActive s') = batchTasks (ksActive s) \<union> set (activeTasks errs tasks)" by (simp add: s'_def)
  have "weak_inv config pointOk prefixOk s'"
  proof (rule phase_frame [OF w])
    show "phase_inv s'" using w j by (cases "ksPhase s") (simp_all add: s'_def weak_inv_def phase_inv_def)
    have bi: "batch_inv config s" using w by (simp add: weak_inv_def)
    have "length (activeTasks errs tasks) \<le> length tasks" by (simp add: activeTasks_def)
    moreover have "int (length tasks) \<le> qcMaxBatchKeys config" "\<forall>t \<in> set tasks. groupOf (ksTask s t) = g"
      using bi j by (auto simp: batch_inv_def)
    ultimately show "batch_inv config s'" using bi j n a(2) unfolding batch_inv_def s'_def by auto
    show "heldTasks s' \<subseteq> heldTasks s" using j a(2) unfolding heldTasks_def act by (auto simp: s'_def)
  qed (simp_all add: s'_def)
  moreover have "fst ` set (cancelledTasks errs tasks) \<subseteq> {..<ksNext s}" using a(3) t q(1) by (meson order_trans)
  moreover have "fst ` set (cancelledTasks errs tasks) \<inter> set (ksQueue s) = {}" using a(3) t q(2) by blast
  moreover have "\<forall>(t, raw) \<in> set (cancelledTasks errs tasks). answersTask pointOk prefixOk (ksTask s' t) raw"
    by (auto simp: cancelledTasks_def)
  ultimately have "weak_inv config pointOk prefixOk (completeEach (cancelledTasks errs tasks) s')"
    by (intro completeEach_weak) (simp_all add: s'_def)
  moreover have "place_inv (completeEach (cancelledTasks errs tasks) s')"
  proof (rule completeEach_place)
    have "schedTasks s' = schedTasks s" "pendingTasks s' = pendingTasks s" by (rule tasks_cong; simp add: s'_def)+
    with p a(1) j show "pendingTasks s' \<subseteq> set (ksQueue s') \<union> schedTasks s' \<union> batchTasks (ksJobs s') \<union> batchTasks (ksActive s')
        \<union> fst ` set (cancelledTasks errs tasks)"
      unfolding act place_inv_def by (auto simp: s'_def)
  qed
  ultimately show ?thesis by blast
qed

lemma finish_inv:
  assumes w: "weak_inv config pointOk prefixOk s" and p: "place_inv s" and a: "ksActive s = before @ (g, tasks) # after"
    and l: "length raws = length tasks" and ok: "\<forall>(t, raw) \<in> set (zip tasks raws). answersTask pointOk prefixOk (ksTask s t) raw"
  defines "s' \<equiv> s\<lparr>ksActive := before @ after\<rparr>"
  shows "weak_inv config pointOk prefixOk (completeEach (zip tasks raws) s') \<and> place_inv (completeEach (zip tasks raws) s')"
proof -
  have q: "heldTasks s \<subseteq> {..<ksNext s}" "set (ksQueue s) \<inter> heldTasks s = {}" using w by (simp_all add: weak_inv_def queue_inv_def)
  have t: "set tasks \<subseteq> heldTasks s" using a by (intro batch_tasks_held [of g]) simp
  have f: "fst ` set (zip tasks raws) = set tasks" using l by (metis list.set_map map_fst_zip)
  have "weak_inv config pointOk prefixOk s'"
  proof (rule phase_frame [OF w])
    show "phase_inv s'" using w a by (cases "ksPhase s") (simp_all add: s'_def weak_inv_def phase_inv_def)
    show "batch_inv config s'" using w a unfolding weak_inv_def batch_inv_def s'_def by auto
    show "heldTasks s' \<subseteq> heldTasks s" using a by (auto simp: heldTasks_def s'_def)
  qed (simp_all add: s'_def)
  then have "weak_inv config pointOk prefixOk (completeEach (zip tasks raws) s')"
    using t q ok by (intro completeEach_weak) (unfold f, auto simp: s'_def)
  moreover have "place_inv (completeEach (zip tasks raws) s')"
  proof (rule completeEach_place, unfold f)
    have "schedTasks s' = schedTasks s" "pendingTasks s' = pendingTasks s" by (rule tasks_cong; simp add: s'_def)+
    with p a show "pendingTasks s' \<subseteq> set (ksQueue s') \<union> schedTasks s' \<union> batchTasks (ksJobs s') \<union> batchTasks (ksActive s') \<union> set tasks"
      unfolding place_inv_def by (auto simp: s'_def)
  qed
  ultimately show ?thesis by blast
qed


lemma point_answers:
  assumes "pointAnswer pointOk bucket (encodedLookupTasks (map task tasks)) answer"
    "\<forall>t \<in> set tasks. groupOf (task t) = LookupGroup PointMode bucket"
  shows "length (completePointLookupBatch (length tasks) answer) = length tasks"
    "\<forall>(t, raw) \<in> set (zip tasks (completePointLookupBatch (length tasks) answer)). answersTask pointOk prefixOk (task t) raw"
proof -
  show "length (completePointLookupBatch (length tasks) answer) = length tasks"
    by (simp add: completePointLookupBatch_def split: sum.splits)
  show "\<forall>(t, raw) \<in> set (zip tasks (completePointLookupBatch (length tasks) answer)). answersTask pointOk prefixOk (task t) raw"
  proof (cases "\<exists>vals. answer = Inr vals \<and> length vals = length tasks")
    case True
    then obtain vals where v: "answer = Inr vals" "length vals = length tasks" by blast
    have "pointOk bucket (ltEncoded (task (tasks ! i))) (vals ! i)" if "i < length tasks" for i
      using assms(1) v that by (fastforce simp: pointAnswer_def encodedLookupTasks_def set_zip)
    moreover have "ltMode (task (tasks ! i)) = PointMode" "ltBucket (task (tasks ! i)) = bucket" if "i < length tasks" for i
      using assms(2) that by (auto simp: groupOf_def)
    ultimately show ?thesis using v by (auto simp: completePointLookupBatch_def set_zip answersTask_def)
  next
    case False
    then have "completePointLookupBatch (length tasks) answer = replicate (length tasks) (rawError (case answer of Inl e \<Rightarrow> e | _ \<Rightarrow> ErrValidation))"
      by (auto simp: completePointLookupBatch_def split: sum.splits)
    then show ?thesis by (auto simp: set_zip)
  qed
qed

lemma prefix_answers:
  assumes "prefixAnswer prefixOk bucket (encodedLookupTasks (map task tasks)) answer"
    "\<forall>t \<in> set tasks. groupOf (task t) = LookupGroup PrefixMode bucket"
  shows "length (completePrefixLookupBatch (length tasks) answer) = length tasks"
    "\<forall>(t, raw) \<in> set (zip tasks (completePrefixLookupBatch (length tasks) answer)). answersTask pointOk prefixOk (task t) raw"
proof -
  show "length (completePrefixLookupBatch (length tasks) answer) = length tasks"
    by (simp add: completePrefixLookupBatch_def split: sum.splits)
  show "\<forall>(t, raw) \<in> set (zip tasks (completePrefixLookupBatch (length tasks) answer)). answersTask pointOk prefixOk (task t) raw"
  proof (cases "\<exists>vals. answer = Inr vals \<and> length vals = length tasks")
    case True
    then obtain vals where v: "answer = Inr vals" "length vals = length tasks" by blast
    have "prefixOk bucket (ltEncoded (task (tasks ! i))) (vals ! i)" if "i < length tasks" for i
      using assms(1) v that by (fastforce simp: prefixAnswer_def encodedLookupTasks_def set_zip)
    moreover have "ltMode (task (tasks ! i)) = PrefixMode" "ltBucket (task (tasks ! i)) = bucket" if "i < length tasks" for i
      using assms(2) that by (auto simp: groupOf_def)
    ultimately show ?thesis using v by (auto simp: completePrefixLookupBatch_def set_zip answersTask_def)
  next
    case False
    then have "completePrefixLookupBatch (length tasks) answer = replicate (length tasks) (rawError (case answer of Inl e \<Rightarrow> e | _ \<Rightarrow> ErrValidation))"
      by (auto simp: completePrefixLookupBatch_def split: sum.splits)
    then show ?thesis by (auto simp: set_zip)
  qed
qed

lemma worker_step_inv:
  assumes st: "lookup_step config pointOk prefixOk Worker s s'" and w: "weak_inv config pointOk prefixOk s" and p: "place_inv s"
  shows "weak_inv config pointOk prefixOk s' \<and> place_inv s'"
  using st
proof cases
  case (work g tasks jobs errs)
  with work_inv [OF w p] show ?thesis by blast
next
  case (finish_point before bucket tasks "after" answer)
  have "\<forall>t \<in> set tasks. groupOf (ksTask s t) = LookupGroup PointMode bucket"
    using w finish_point(2) by (auto simp: weak_inv_def batch_inv_def)
  from finish_inv [OF w p finish_point(2) point_answers [OF finish_point(3) this]] show ?thesis unfolding finish_point(1) .
next
  case (finish_prefix before bucket tasks "after" answer)
  have "\<forall>t \<in> set tasks. groupOf (ksTask s t) = LookupGroup PrefixMode bucket"
    using w finish_prefix(2) by (auto simp: weak_inv_def batch_inv_def)
  from finish_inv [OF w p finish_prefix(2) prefix_answers [OF finish_prefix(3) this]] show ?thesis unfolding finish_prefix(1) .
qed

section \<open>Reachable states\<close>

lemma lookup_reach_inv:
  assumes "lookup_reach config pointOk prefixOk s" "0 < qcMaxBatchKeys config"
  shows "weak_inv config pointOk prefixOk s \<and> place_inv s"
  using assms(1)
proof induction
  case start
  show ?case
    by (simp add: newLookupState_def weak_inv_def place_inv_def slots_inv_def queue_inv_def phase_inv_def batch_inv_def result_inv_def
        pendingTasks_def heldTasks_def schedTasks_def)
next
  case (step s a s')
  then show ?case
    using call_step_inv scheduler_step_inv [OF _ _ _ assms(2)] worker_step_inv by (cases a) blast+
qed

lemma queue_pending: "queue_inv s \<Longrightarrow> length (ksQueue s) \<le> card (pendingTasks s)"
  by (metis card_mono distinct_card pending_finite queue_inv_def)

text \<open>A step of the scheduler or of a worker is possible while a task is unfinished.\<close>

lemma lookup_can_move:
  assumes w: "weak_inv config pointOk prefixOk s" and p: "place_inv s" and pend: "pendingTasks s \<noteq> {}"
    and pos: "0 < qcMaxInFlightRequests config"
  shows "\<exists>a s'. a \<noteq> Caller \<and> lookup_step config pointOk prefixOk a s s'"
proof -
  have iv: "phase_inv s" using w by (simp add: weak_inv_def)
  obtain order where o: "distinct order" "set order = {g. ksGroups s g \<noteq> []}"
    using iv finite_distinct_list unfolding phase_inv_def by metis
  consider (active) "ksActive s \<noteq> []" | (jobs) "ksActive s = []" "ksJobs s \<noteq> []" | (none) "ksActive s = []" "ksJobs s = []" by blast
  then show ?thesis
  proof cases
    case active
    then obtain g tasks rest where a: "ksActive s = [] @ (g, tasks) # rest" by (cases "ksActive s") auto
    show ?thesis
    proof (cases g)
      case (LookupGroup m bucket)
      have e: "pointAnswer pointOk bucket keys (Inl ErrClosed)" "prefixAnswer prefixOk bucket keys (Inl ErrClosed)" for keys
        by (simp_all add: pointAnswer_def prefixAnswer_def)
      show ?thesis using a LookupGroup lookup_step.finish_point [OF _ e(1)] lookup_step.finish_prefix [OF _ e(2)]
        by (cases m) blast+
    qed
  next
    case jobs
    then obtain g tasks rest where j: "ksJobs s = (g, tasks) # rest" by (cases "ksJobs s") auto
    have "length (ksActive s) < nat (qcMaxInFlightRequests config)" using jobs(1) pos by simp
    from lookup_step.work [OF j this] show ?thesis by blast
  next
    case none
    show ?thesis
    proof (cases "ksPhase s")
      case Selecting
      show ?thesis
      proof (cases "ksQueue s")
        case Nil
        with p pend none Selecting have "\<exists>g. ksGroups s g \<noteq> []" by (fastforce simp: place_inv_def schedTasks_def)
        with iv Selecting have "ksTimer s" by (auto simp: phase_inv_def)
        with Selecting o show ?thesis by (blast intro: lookup_step.timer)
      next
        case (Cons t queue)
        with Selecting show ?thesis by (blast intro: lookup_step.take_task)
      qed
    next
      case (Dispatching g tasks todo)
      have "length (ksJobs s) < nat (qcMaxInFlightRequests config)" using none(2) pos by simp
      with Dispatching show ?thesis
        by (cases "tasks = []") (blast intro: lookup_step.sent lookup_step.send)+
    next
      case Draining
      then show ?thesis by (cases "ksQueue s") (blast intro: lookup_step.drained lookup_step.drain)+
    next
      case Waiting
      with none show ?thesis by (blast intro: lookup_step.stopped)
    next
      case Stopped
      with p pend none iv show ?thesis by (auto simp: place_inv_def schedTasks_def phase_inv_def)
    qed
  qed
qed

section \<open>The configuration of a lookuper\<close>

inductive lookupOption :: "lookup_option \<Rightarrow> bool" where
  "lookupOption (WithLookupBatchLimits keys inFlightRequests)"
| "lookupOption (WithLookupQueue keys batchTimeout)"
| "lookupOption (WithLookupRetryPolicy policy)"
| "lookupOption (WithLookupRequestTimeout timeout)"
| "lookupOption (WithLookupPartition part)"
| "lookupOption (WithLookupInsertIfNotExists timeout acks)"

definition validLookupConfig :: "lookup_config \<Rightarrow> bool" where
  "validLookupConfig c \<longleftrightarrow> 0 < qcMaxBatchKeys c \<and> 0 < qcMaxInFlightRequests c \<and> 0 < qcMaxQueuedKeys c
     \<and> 1 \<le> MaxAttempts (qcRetryPolicy c) \<and> MaxAttempts (qcRetryPolicy c) \<le> maxWriterAttempts"

lemma lookupOption_valid:
  assumes "lookupOption opt" "opt config = Inr config'" "validLookupConfig config"
  shows "validLookupConfig config'"
  using assms
  by (induction rule: lookupOption.induct)
    (auto simp: WithLookupBatchLimits_def WithLookupQueue_def WithLookupRetryPolicy_def WithLookupRequestTimeout_def
      WithLookupPartition_def WithLookupInsertIfNotExists_def validLookupConfig_def guardE_def split: if_splits)

lemma applyOptions_lookup:
  assumes "applyOptions options config = Inr config'" "\<forall>opt. Some opt \<in> set options \<longrightarrow> lookupOption opt" "validLookupConfig config"
  shows "validLookupConfig config'"
  using assms
proof (induction options arbitrary: config)
  case (Cons o' options)
  from Cons.prems(1) obtain opt config1 where o: "o' = Some opt" "opt config = Inr config1" "applyOptions options config1 = Inr config'"
    by (cases o') auto
  have "validLookupConfig config1" using lookupOption_valid [of opt config config1] Cons.prems(2,3) o(1,2) by simp
  with Cons.IH [OF o(3)] Cons.prems(2) show ?case by simp
qed simp

lemma newLookuper_config:
  assumes "newLookuper metadata source t options = Inr l" "\<forall>opt. Some opt \<in> set options \<longrightarrow> lookupOption opt"
  shows "validLookupConfig (lkConfig l)"
    "qcInsertIfNotExists (lkConfig l) \<Longrightarrow> MaxAttempts (qcRetryPolicy (lkConfig l)) = 1"
    "lkTable l = t" "tblKind t = PrimaryKeyTable" "Schema_Validate (tblSchema t) = Inr ()"
proof -
  from assms(1) obtain config where c: "lookupConfig options = Inr config" "lkConfig l = config" "lkTable l = t"
    "RequirePrimaryKey t = Inr ()" "Schema_Validate (tblSchema t) = Inr ()"
    by (auto simp: newLookuper_def Let_def)
  from c(1) obtain a: "applyOptions options defaultLookupConfig = Inr config"
    and i: "\<not> (qcInsertIfNotExists config \<and> MaxAttempts (qcRetryPolicy config) > 1)" by (auto simp: lookupConfig_def)
  have "validLookupConfig defaultLookupConfig" by code_simp
  from applyOptions_lookup [OF a assms(2) this] have v: "validLookupConfig config" .
  show "validLookupConfig (lkConfig l)" using v c(2) by simp
  show "MaxAttempts (qcRetryPolicy (lkConfig l)) = 1" if "qcInsertIfNotExists (lkConfig l)"
    using that i v c(2) by (simp add: validLookupConfig_def)
  show "lkTable l = t" "tblKind t = PrimaryKeyTable" "Schema_Validate (tblSchema t) = Inr ()"
    using c(3-5) by (auto simp: RequirePrimaryKey_def split: if_splits)
qed

section \<open>Attempts\<close>

text \<open>A lookup makes at most \<^verbatim>\<open>MaxAttempts\<close> calls and an insertion exactly one; every call before the last one failed with
  a retryable error, and a value is what the last call returned.\<close>

lemma retryLoop_step:
  assumes "retryLoop call ctxErr waitErr policy mutation (Suc n) attempt = (r, k)"
  shows "(k = attempt \<and> (\<forall>v. r = Inr v \<longrightarrow> call k = Inr v))
    \<or> (\<exists>e. call attempt = Inl e \<and> writerRetryable e \<and> \<not> mutation \<and> attempt \<noteq> MaxAttempts policy
         \<and> retryLoop call ctxErr waitErr policy mutation n (attempt + 1) = (r, k))"
  using assms by (cases "call attempt") (auto simp: Let_def split: if_splits option.splits)

lemma retryLoop_calls:
  assumes "retryLoop call ctxErr waitErr policy mutation (Suc n) attempt = (r, k)" "MaxAttempts policy = attempt + int n"
  shows "attempt \<le> k \<and> k \<le> MaxAttempts policy \<and> (mutation \<longrightarrow> k = attempt) \<and> (\<forall>v. r = Inr v \<longrightarrow> call k = Inr v)
    \<and> (\<forall>i. attempt \<le> i \<and> i < k \<longrightarrow> (\<exists>e. call i = Inl e \<and> writerRetryable e))"
  using assms
proof (induction n arbitrary: attempt)
  case 0
  then show ?case using retryLoop_step [OF "0.prems"(1)] by auto
next
  case (Suc n)
  consider (ends) "k = attempt" "\<forall>v. r = Inr v \<longrightarrow> call k = Inr v"
    | (again) e where "call attempt = Inl e" "writerRetryable e" "\<not> mutation"
        "retryLoop call ctxErr waitErr policy mutation (Suc n) (attempt + 1) = (r, k)"
    using retryLoop_step [OF Suc.prems(1)] by blast
  then show ?case
  proof cases
    case ends
    then show ?thesis using Suc.prems(2) by auto
  next
    case again
    have "MaxAttempts policy = attempt + 1 + int n" using Suc.prems(2) by simp
    note ih = Suc.IH [OF again(4) this]
    have "\<exists>e. call i = Inl e \<and> writerRetryable e" if "attempt \<le> i" "i < k" for i
      using ih again(1,2) that by (cases "i = attempt") auto
    with ih again(3) show ?thesis by auto
  qed
qed

lemma insert_not_retried:
  assumes "newLookuper metadata source t options = Inr l" "\<forall>opt. Some opt \<in> set options \<longrightarrow> lookupOption opt"
    and "retryLookup call ctxErr waitErr (qcRetryPolicy (lkConfig l)) (qcInsertIfNotExists (lkConfig l)) = (r, k)"
  shows "1 \<le> k \<and> k \<le> MaxAttempts (qcRetryPolicy (lkConfig l)) \<and> (qcInsertIfNotExists (lkConfig l) \<longrightarrow> k = 1)"
proof -
  have "1 \<le> MaxAttempts (qcRetryPolicy (lkConfig l))" using newLookuper_config(1) [OF assms(1,2)] by (simp add: validLookupConfig_def)
  then obtain n where n: "nat (MaxAttempts (qcRetryPolicy (lkConfig l))) = Suc n" "MaxAttempts (qcRetryPolicy (lkConfig l)) = 1 + int n"
    by (intro that [of "nat (MaxAttempts (qcRetryPolicy (lkConfig l)) - 1)"]) simp_all
  from assms(3) have "retryLoop call ctxErr waitErr (qcRetryPolicy (lkConfig l)) (qcInsertIfNotExists (lkConfig l)) (Suc n) 1 = (r, k)"
    by (simp only: retryLookup_def n(1))
  from retryLoop_calls [OF this n(2)] show ?thesis by blast
qed

section \<open>Properties\<close>

text \<open>A lookuper with one key queued and a caller that holds a slot.\<close>

definition lookTable :: table where
  "lookTable = scanTable\<lparr>tblKind := PrimaryKeyTable\<rparr>"

definition exQueued :: lookup_state where
  "exQueued = newLookupState\<lparr>ksSlots := 2, ksReserved := 1, ksNext := 1, ksQueue := [0],
     ksTask := (ksTask newLookupState)(0 := \<lparr>ltMode = PointMode, ltBucket = 0, ltEncoded = [7]\<rparr>)\<rparr>"

lemma lookTable_new: "\<exists>l. newLookuper (Inr (1, [0])) None lookTable [] = Inr l \<and> lkConfig l = defaultLookupConfig"
proof -
  have "Schema_Validate (tblSchema lookTable) = Inr ()" by code_simp
  then show ?thesis
    by (simp add: newLookuper_def lookupConfig_def RequirePrimaryKey_def validateLookupInsertSchema_def sortedBuckets_def Let_def)
      (simp add: lookTable_def scanTable_def defaultLookupConfig_def)
qed

lemma exQueued_reach: "lookup_reach defaultLookupConfig pointOk prefixOk exQueued"
proof -
  let ?s1 = "newLookupState\<lparr>ksSlots := 1, ksReserved := 1\<rparr>"
  let ?s2 = "newLookupState\<lparr>ksSlots := 1, ksNext := 1, ksQueue := [0],
     ksTask := (ksTask newLookupState)(0 := \<lparr>ltMode = PointMode, ltBucket = 0, ltEncoded = [7]\<rparr>)\<rparr>"
  have "lookup_step defaultLookupConfig pointOk prefixOk Caller newLookupState ?s1"
    using lookup_step.call_slot [of newLookupState defaultLookupConfig pointOk prefixOk]
    by (simp add: newLookupState_def defaultLookupConfig_def)
  moreover have "lookup_step defaultLookupConfig pointOk prefixOk Caller ?s1 ?s2"
    using lookup_step.call_queue [of ?s1 defaultLookupConfig pointOk prefixOk "\<lparr>ltMode = PointMode, ltBucket = 0, ltEncoded = [7]\<rparr>"]
    by (simp add: newLookupState_def defaultLookupConfig_def)
  moreover have "lookup_step defaultLookupConfig pointOk prefixOk Caller ?s2 exQueued"
    using lookup_step.call_slot [of ?s2 defaultLookupConfig pointOk prefixOk]
    by (simp add: newLookupState_def defaultLookupConfig_def exQueued_def numeral_2_eq_2)
  ultimately show ?thesis by (meson lookup_reach.start lookup_reach.step)
qed

text \<open>C19. Lookups are accounted for and answered with their own key, under every interleaving of callers, scheduler and
  workers. The slots in use are the callers about to queue plus the accepted keys without a result, never more than
  MaxQueuedKeys, so a caller that holds a slot never finds the queue full. A key gets a result at most once, and a result
  without an error is what the server answered for exactly that key and bucket, whatever batch it travelled in. A request
  has at most MaxBatchKeys keys, all of one mode and bucket, and at most MaxInFlightRequests are in flight. When the
  scheduler has stopped, every accepted key has its result.\<close>

theorem lookup_accounting:
  assumes "newLookuper metadata source t options = Inr l" "\<forall>opt. Some opt \<in> set options \<longrightarrow> lookupOption opt"
    and "lookup_reach (lkConfig l) pointOk prefixOk s"
  shows "ksSlots s = ksReserved s + card {t. t < ksNext s \<and> ksResult s t = None}
    \<and> ksSlots s \<le> nat (qcMaxQueuedKeys (lkConfig l))
    \<and> (ksReserved s > 0 \<longrightarrow> length (ksQueue s) < nat (qcMaxQueuedKeys (lkConfig l)))
    \<and> (\<forall>t raw. ksResult s t = Some raw \<longrightarrow> answersTask pointOk prefixOk (ksTask s t) raw)
    \<and> (\<forall>a s' t raw. lookup_step (lkConfig l) pointOk prefixOk a s s' \<longrightarrow> ksResult s t = Some raw \<longrightarrow> ksResult s' t = Some raw)
    \<and> length (ksActive s) \<le> nat (qcMaxInFlightRequests (lkConfig l))
    \<and> (\<forall>(g, tasks) \<in> set (ksActive s). int (length tasks) \<le> qcMaxBatchKeys (lkConfig l)
         \<and> (\<forall>t \<in> set tasks. groupOf (ksTask s t) = g))
    \<and> (ksPhase s = Stopped \<longrightarrow> (\<forall>t < ksNext s. ksResult s t \<noteq> None))"
proof -
  have v: "validLookupConfig (lkConfig l)" by (rule newLookuper_config [OF assms(1,2)])
  then have w: "weak_inv (lkConfig l) pointOk prefixOk s" and p: "place_inv s"
    using lookup_reach_inv [OF assms(3)] by (auto simp: validLookupConfig_def)
  have iv: "slots_inv (lkConfig l) s" "queue_inv s" "phase_inv s" "batch_inv (lkConfig l) s" "result_inv pointOk prefixOk s"
    using w by (simp_all add: weak_inv_def)
  note q = queue_pending [OF iv(2)]
  have once: "ksResult s' t = Some raw"
    if st: "lookup_step (lkConfig l) pointOk prefixOk a s s'" and r: "ksResult s t = Some raw" for a s' t raw
  proof -
    have new: "ksResult s (ksNext s) = None" using iv(5) unfolding result_inv_def by (metis less_irrefl not_Some_eq)
    from st show ?thesis
      by cases (use r new in \<open>simp_all add: completeTask_result completeEach_result completeLookupTasks_def
          shutdownLookup_def acceptTask_def Let_def\<close>)
  qed
  have stop: "\<forall>t < ksNext s. ksResult s t \<noteq> None" if "ksPhase s = Stopped"
    using p iv(3) that by (auto simp: place_inv_def schedTasks_def phase_inv_def pendingTasks_def)
  have slots: "ksSlots s = ksReserved s + card {t. t < ksNext s \<and> ksResult s t = None}" "ksSlots s \<le> nat (qcMaxQueuedKeys (lkConfig l))"
    using iv(1) by (simp_all add: slots_inv_def pendingTasks_def)
  have room: "length (ksQueue s) < nat (qcMaxQueuedKeys (lkConfig l))" if "ksReserved s > 0"
    using iv(1) q that unfolding slots_inv_def by linarith
  have res: "\<forall>t raw. ksResult s t = Some raw \<longrightarrow> answersTask pointOk prefixOk (ksTask s t) raw"
    using iv(5) unfolding result_inv_def by blast
  have bat: "length (ksActive s) \<le> nat (qcMaxInFlightRequests (lkConfig l))"
    "\<forall>(g, tasks) \<in> set (ksActive s). int (length tasks) \<le> qcMaxBatchKeys (lkConfig l) \<and> (\<forall>t \<in> set tasks. groupOf (ksTask s t) = g)"
    using iv(4) unfolding batch_inv_def by blast+
  show ?thesis using slots room res once bat stop by (intro conjI) blast+
qed

theorem lookup_accounting_witness:
  "\<exists>l. newLookuper (Inr (1, [0])) None lookTable [] = Inr l \<and> lookup_reach (lkConfig l) (\<lambda>_ _ _. True) (\<lambda>_ _ _. True) exQueued
     \<and> card {t. t < ksNext exQueued \<and> ksResult exQueued t = None} = 1 \<and> length (ksQueue exQueued) < 10000"
proof -
  obtain l where l: "newLookuper (Inr (1, [0])) None lookTable [] = Inr l" "lkConfig l = defaultLookupConfig"
    using lookTable_new by blast
  note r = exQueued_reach [of "\<lambda>_ _ _. True" "\<lambda>_ _ _. True", folded l(2)]
  have v: "ksSlots exQueued = 2" "ksReserved exQueued = 1" "qcMaxQueuedKeys (lkConfig l) = 10000"
    by (simp_all add: exQueued_def l(2) defaultLookupConfig_def)
  from lookup_accounting [OF l(1) _ r] have
    "ksSlots exQueued = ksReserved exQueued + card {t. t < ksNext exQueued \<and> ksResult exQueued t = None}
     \<and> (ksReserved exQueued > 0 \<longrightarrow> length (ksQueue exQueued) < nat (qcMaxQueuedKeys (lkConfig l)))" by simp
  with l(1) r v show ?thesis by simp
qed

text \<open>C20. Lookups do not get stuck: as long as an accepted key has no result, the scheduler or a worker has a step to make,
  whatever the callers do, and a caller that holds a slot of an open lookuper can queue its key at once.\<close>

theorem lookup_not_stuck:
  assumes "newLookuper metadata source t options = Inr l" "\<forall>opt. Some opt \<in> set options \<longrightarrow> lookupOption opt"
    and "lookup_reach (lkConfig l) pointOk prefixOk s"
  shows "(\<forall>t < ksNext s. ksResult s t = None \<longrightarrow> (\<exists>a s'. a \<noteq> Caller \<and> lookup_step (lkConfig l) pointOk prefixOk a s s'))
    \<and> (ksReserved s > 0 \<and> \<not> ksClosed s \<longrightarrow> (\<exists>s'. lookup_step (lkConfig l) pointOk prefixOk Caller s s' \<and> ksNext s' = Suc (ksNext s)))"
proof -
  have v: "0 < qcMaxBatchKeys (lkConfig l)" "0 < qcMaxInFlightRequests (lkConfig l)"
    using newLookuper_config(1) [OF assms(1,2)] by (simp_all add: validLookupConfig_def)
  have w: "weak_inv (lkConfig l) pointOk prefixOk s" and p: "place_inv s" using lookup_reach_inv [OF assms(3) v(1)] by blast+
  have iv: "slots_inv (lkConfig l) s" "queue_inv s" using w by (simp_all add: weak_inv_def)
  have "\<exists>a s'. a \<noteq> Caller \<and> lookup_step (lkConfig l) pointOk prefixOk a s s'" if "t < ksNext s" "ksResult s t = None" for t
    using that by (intro lookup_can_move [OF w p _ v(2)]) (auto simp: pendingTasks_def)
  moreover have "\<exists>s'. lookup_step (lkConfig l) pointOk prefixOk Caller s s' \<and> ksNext s' = Suc (ksNext s)"
    if r: "ksReserved s > 0" "\<not> ksClosed s"
  proof -
    have "length (ksQueue s) < nat (qcMaxQueuedKeys (lkConfig l))"
      using iv(1) r(1) queue_pending [OF iv(2)] unfolding slots_inv_def by linarith
    from lookup_step.call_queue [OF r this] show ?thesis by (intro exI conjI) (assumption, simp)
  qed
  ultimately show ?thesis by blast
qed

theorem lookup_not_stuck_witness:
  "\<exists>l a s'. newLookuper (Inr (1, [0])) None lookTable [] = Inr l \<and> ksResult exQueued 0 = None \<and> a \<noteq> Caller
     \<and> lookup_step (lkConfig l) (\<lambda>_ _ _. True) (\<lambda>_ _ _. True) a exQueued s'"
proof -
  obtain l where l: "newLookuper (Inr (1, [0])) None lookTable [] = Inr l" "lkConfig l = defaultLookupConfig"
    using lookTable_new by blast
  note r = exQueued_reach [of "\<lambda>_ _ _. True" "\<lambda>_ _ _. True", folded l(2)]
  have t: "0 < ksNext exQueued" "ksResult exQueued 0 = None" by (simp_all add: exQueued_def newLookupState_def)
  from lookup_not_stuck [OF l(1) _ r] t have "\<exists>a s'. a \<noteq> Caller \<and> lookup_step (lkConfig l) (\<lambda>_ _ _. True) (\<lambda>_ _ _. True) a exQueued s'"
    by auto
  with l(1) t(2) show ?thesis by blast
qed

end
