(* ===== verification/Read_Back.thy ===== *)
theory Read_Back
  imports Lookup_Properties Upsert_Properties
begin

text \<open>
  Writer and lookuper of one table agree: the key and the bucket that a lookup asks for are those that the upsert writer
  sent, and a stored value decodes to the row that was written.
\<close>

section \<open>Keys of a row\<close>

text \<open>The primary key of a row, in the order of the schema's primary key.\<close>

definition rowKey :: "schema \<Rightarrow> row \<Rightarrow> row" where
  "rowKey s row = map (valueOf (map_of (zip (map colName (Columns s)) row))) (PrimaryKey s)"

lemma map_of_rev_self: "n \<in> set names \<Longrightarrow> map_of (rev (zip names (map f names))) n = Some (f n)"
  by (simp add: zip_map2 zip_same_conv_map rev_map comp_def map_of_map_restrict)

lemma valueOf_key:
  "set names \<subseteq> set keys \<Longrightarrow> map (valueOf (map_of (rev (zip keys (map f keys))))) names = map f names"
  by (simp add: valueOf_def map_of_rev_self subset_iff)

lemma encodePoint_mutation:
  assumes "enqueueMutation w vals value targets future = Inr item"
    and "lkTable l = uwTable w" "lkBuckets l = uwBuckets w" "set (bucketNames (tblSchema (uwTable w))) \<subseteq> set (PrimaryKey (tblSchema (uwTable w)))"
  shows "encodePoint l (map (valueOf vals) (PrimaryKey (tblSchema (uwTable w)))) = Inr (kvKey (kwRecord item), kwBucket item)"
proof -
  have b: "bucketForValues l v = andThen (encodeKeyColumns (tblSchema (lkTable l)) (bucketNames (tblSchema (lkTable l)))
      (map (valueOf v) (bucketNames (tblSchema (lkTable l))))) (\<lambda>encoded.
      andThen (flussBucket encoded (int (length (lkBuckets l)))) (\<lambda>bucket. go_index (lkBuckets l) (sint bucket)))" for v
    unfolding bucketForValues_def bucketNames_def Let_def ..
  show ?thesis
    using assms(1) unfolding encodePoint_def EncodeLookupKey_def Let_def b assms(2,3) valueOf_key [OF assms(4)]
    by (auto simp: enqueueMutation_def Let_def)
qed

lemma rowValues_all:
  assumes "ValidateRow s row [] = Inr ()" "rowValues s row [] = Inr vals"
  shows "vals = map_of (zip (map colName (Columns s)) row)"
proof -
  have d: "distinct (map colName (Columns s))"
    by (rule Schema_Validate_Inr_D(1) [OF ValidateRow_Inr_D(1) [OF assms(1)]])
  have len: "length row = length (Columns s)" using ValidateRow_Inr_D(2) [OF assms(1)] list_all2_lengthD by fastforce
  have v: "vals = map_of (rev (zip (map colName (Columns s)) row))"
    using assms(2) by (auto simp: rowValues_def selectedColumns_def Let_def)
  have "distinct (map fst (zip (map colName (Columns s)) row))" using d len by simp
  then show ?thesis unfolding v by (intro map_of_eqI) (auto simp: rev_map [symmetric] map_of_eq_Some_iff simp del: map_fst_zip)
qed

lemma newUpsertWriter_facts:
  assumes "newUpsertWriter backend t nilProperties options = Inr w"
  shows "uwTable w = t" "0 \<le> tblSchemaID t" "tblSchemaID t \<le> 32767"
    "set (bucketNames (tblSchema t)) \<subseteq> set (PrimaryKey (tblSchema t))"
    "\<exists>physicalID locations. metadataAns backend = Inr (physicalID, locations) \<and> sortedBuckets locations = Inr (uwBuckets w)"
proof -
  from assms obtain physicalID locations where "validateUpsertWriterTable t = Inr ()" "uwTable w = t"
    "metadataAns backend = Inr (physicalID, locations)" "sortedBuckets locations = Inr (uwBuckets w)"
    by (auto simp: newUpsertWriter_def Let_def split: option.splits)
  then show "uwTable w = t" "0 \<le> tblSchemaID t" "tblSchemaID t \<le> 32767"
    "set (bucketNames (tblSchema t)) \<subseteq> set (PrimaryKey (tblSchema t))"
    "\<exists>physicalID locations. metadataAns backend = Inr (physicalID, locations) \<and> sortedBuckets locations = Inr (uwBuckets w)"
    by (auto simp: validateUpsertWriterTable_def bucketNames_def not_less)
qed

lemma newLookuper_facts:
  assumes "newLookuper metadata source t options = Inr l"
  shows "lkTable l = t" "lkResolver l = resolverFor source t"
    "\<exists>physicalID locations. metadata = Inr (physicalID, locations) \<and> sortedBuckets locations = Inr (lkBuckets l)"
  using assms by (auto simp: newLookuper_def Let_def)

text \<open>A value in the store is the 16-bit schema ID, least significant byte first, and the compacted row.\<close>

definition storedValue :: "int \<Rightarrow> bytes \<Rightarrow> bytes" where
  "storedValue schemaID value = le_bytes 2 (word_of_int schemaID :: 16 word) @ value"

lemma decode_stored:
  assumes "EncodeCompactedRow (tblSchema t) row = Inr value" "\<forall>v \<in> set row. wfValue v" "int (length value) \<le> maxRowBytes"
    and "evolvable (tblSchema t)" "resolver (tblPath t) (tblSchemaID t) = Inr (tblSchema t)"
    and "0 \<le> tblSchemaID t" "tblSchemaID t \<le> 32767"
  shows "decodeLookupValue resolver t (storedValue (tblSchemaID t) value) = Inr (canonRow CompactedEncoding (Columns (tblSchema t)) row)"
proof -
  have enc: "encodeRow (tblSchema t) row CompactedEncoding = Inr value" using assms(1) by (simp add: EncodeCompactedRow_def)
  have id: "sint (word_of_int (tblSchemaID t) :: 16 word) = tblSchemaID t"
    using assms(6,7) by (simp add: signed_of_int signed_take_bit_int_eq_self)
  show ?thesis
    using decodeRow_encodeRow [OF assms(2) enc assms(3)] evolve_decoded [OF assms(4) enc, of CompactedEncoding] assms(5)
    by (simp add: decodeLookupValue_def storedValue_def le_get_prefix id go_slice_def DecodeCompactedRow_def)
qed

text \<open>C12. Lookups find what the upsert writer wrote. For a writer and a lookuper of the same table and metadata: when an
  upsert of a row is accepted, a lookup of the row's primary key asks the bucket that the writer chose for exactly the key
  bytes that it sent; and when the server answers with the stored value, the lookup reports the row as found, equal to the
  one written up to the canonical form of its values.\<close>

theorem lookup_finds_upsert:
  assumes "newUpsertWriter backend t nilProperties uoptions = Inr w" "newLookuper (metadataAns backend) source t loptions = Inr l"
    and "prepareUpsert w False row future = Inr item" "kvValue (kwRecord item) = Some value"
    and "\<forall>v \<in> set row. wfValue v" "int (length value) \<le> maxRowBytes" "evolvable (tblSchema t)"
    and "resolverFor source t (tblPath t) (tblSchemaID t) = Inr (tblSchema t)"
  shows "encodePoint l (rowKey (tblSchema t) row) = Inr (kvKey (kwRecord item), kwBucket item)
    \<and> (leEnqueue env i = None \<longrightarrow>
       leAwait env i = Inr \<lparr>rlValue = Some (storedValue (tblSchemaID t) value), rlRows = [], rlErr = None\<rparr> \<longrightarrow>
       pointResult l env i (rowKey (tblSchema t) row)
         = \<lparr>lrKey = rowKey (tblSchema t) row, lrRow = canonRow CompactedEncoding (Columns (tblSchema t)) row, lrFound = True,
            lrBucket = kwBucket item, lrErr = None\<rparr>)"
proof -
  note u = newUpsertWriter_facts [OF assms(1)] and k = newLookuper_facts [OF assms(2)]
  have b: "lkBuckets l = uwBuckets w" using u(5) k(3) by auto
  from assms(3) obtain vals where v: "ValidateRow (tblSchema t) row [] = Inr ()" "rowValues (tblSchema t) row [] = Inr vals"
    "EncodeCompactedRow (tblSchema t) row = Inr value"
    and m: "enqueueMutation w vals (Some value) [] future = Inr item"
    using assms(4) u(1) by (auto simp: prepareUpsert_def enqueueMutation_def Let_def)
  have key: "rowKey (tblSchema t) row = map (valueOf vals) (PrimaryKey (tblSchema t))"
    by (simp add: rowKey_def rowValues_all [OF v(1,2)])
  have e: "encodePoint l (rowKey (tblSchema t) row) = Inr (kvKey (kwRecord item), kwBucket item)"
    using encodePoint_mutation [OF m, of l] u(1,4) k(1) b unfolding key by simp
  have d: "decodeLookupValue (lkResolver l) (lkTable l) (storedValue (tblSchemaID t) value)
      = Inr (canonRow CompactedEncoding (Columns (tblSchema t)) row)"
    using decode_stored [of t row "value"] v(3) assms(5-8) u(2,3) unfolding k(1,2) by blast
  show ?thesis by (simp add: e d pointResult_def)
qed


theorem lookup_finds_upsert_witness:
  "\<exists>w l. newUpsertWriter \<lparr>ensurePartitionAns = None, metadataAns = Inr (5, [1, 0]), initWriterAns = (\<lambda>_. Inr 9)\<rparr> exKVTable True [] = Inr w
     \<and> newLookuper (Inr (5, [1, 0])) None exKVTable [] = Inr l
     \<and> pointResult l \<lparr>leNilContext = False, leClosed = False, leCtxErr = None, leEnqueue = (\<lambda>_. None),
          leAwait = (\<lambda>_. Inr \<lparr>rlValue = Some [1, 0, 4, 172, 2, 1, 97], rlRows = [], rlErr = None\<rparr>)\<rparr> 0 [VInt32 300, VString [0x61]]
       = \<lparr>lrKey = [VInt32 300, VString [0x61]], lrRow = canonRow CompactedEncoding (Columns exSchema) exKVRow, lrFound = True,
          lrBucket = 0, lrErr = None\<rparr>"
proof -
  let ?b = "\<lparr>ensurePartitionAns = None, metadataAns = Inr (5, [1, 0]), initWriterAns = (\<lambda>_. Inr 9)\<rparr> :: writer_backend"
  let ?env = "\<lparr>leNilContext = False, leClosed = False, leCtxErr = None, leEnqueue = (\<lambda>_. None),
          leAwait = (\<lambda>_. Inr \<lparr>rlValue = Some [1, 0, 4, 172, 2, 1, 97], rlRows = [], rlErr = None\<rparr>)\<rparr>"
  have s: "tblSchema exKVTable = exSchema" "tblSchemaID exKVTable = 1" by (simp_all add: exKVTable_def exTable_def)
  have v: "Schema_Validate exSchema = Inr ()" by code_simp
  let ?w = "exKVStatic\<lparr>uwConfig := defaultUpsertConfig\<rparr>"
  have w: "newUpsertWriter ?b exKVTable True [] = Inr ?w"
    by (simp add: newUpsertWriter_def validateUpsertWriterTable_def upsertWriterConfig_def RequirePrimaryKey_def
        validateWriterRetryPolicy_def sortedBuckets_def exKVStatic_def s v Let_def)
      (simp add: exKVTable_def exTable_def exSchema_def defaultUpsertConfig_def defaultWriterRetryPolicy_def maxWriterAttempts_def
        MergeModeDefault_def MergeModeOverwrite_def go_index_def)
  obtain l where l: "newLookuper (metadataAns ?b) None exKVTable [] = Inr l"
    by (simp add: newLookuper_def lookupConfig_def RequirePrimaryKey_def validateLookupInsertSchema_def sortedBuckets_def s v Let_def)
      (simp add: exKVTable_def exTable_def defaultLookupConfig_def)
  have p: "prepareUpsert ?w False exKVRow 0 = Inr exKVItem" by code_simp
  have r: "resolverFor None exKVTable (tblPath exKVTable) (tblSchemaID exKVTable) = Inr (tblSchema exKVTable)"
    by (simp add: resolverFor_def fixedSchemaResolver_def)
  have e: "evolvable (tblSchema exKVTable)" unfolding s evolvable_def by code_simp
  have k: "rowKey exSchema exKVRow = [VInt32 300, VString [0x61]]" by code_simp
  have st: "storedValue 1 [4, 172, 2, 1, 97] = [1, 0, 4, 172, 2, 1, 97]" by code_simp
  have "leEnqueue ?env 0 = None \<longrightarrow>
       leAwait ?env 0 = Inr \<lparr>rlValue = Some (storedValue (tblSchemaID exKVTable) [4, 172, 2, 1, 97]), rlRows = [], rlErr = None\<rparr> \<longrightarrow>
       pointResult l ?env 0 (rowKey (tblSchema exKVTable) exKVRow)
         = \<lparr>lrKey = rowKey (tblSchema exKVTable) exKVRow, lrRow = canonRow CompactedEncoding (Columns (tblSchema exKVTable)) exKVRow,
            lrFound = True, lrBucket = kwBucket exKVItem, lrErr = None\<rparr>"
    by (rule conjunct2, rule lookup_finds_upsert [OF w l p _ _ _ e r]) (simp_all add: exKVItem_def exKVRow_def maxRowBytes_def)
  then have "pointResult l ?env 0 [VInt32 300, VString [0x61]] = \<lparr>lrKey = [VInt32 300, VString [0x61]],
      lrRow = canonRow CompactedEncoding (Columns exSchema) exKVRow, lrFound = True, lrBucket = 0, lrErr = None\<rparr>"
    unfolding s k st by (simp add: exKVItem_def)
  with w l show ?thesis by simp
qed

end
