(* ===== verification/Batch_Scan_Properties.thy ===== *)
theory Batch_Scan_Properties
  imports Scan_Backends Scanner_Steps Read_Back
begin

text \<open>
  Bounded scans return exactly what they promise: a value batch decodes like its values, a limit keeps the latest rows, and
  a scan session delivers the server's batches in order, each once.
\<close>

section \<open>Value batches\<close>

text \<open>The layout of a value batch: the length behind the first field, a magic byte, the number of values, and the values
  with their lengths.\<close>

definition valueRecord :: "bytes \<Rightarrow> bytes" where
  "valueRecord v = le_bytes 4 (word_of_nat (length v) :: 32 word) @ v"

definition valueBatch :: "bytes list \<Rightarrow> bytes" where
  "valueBatch vs = (let body = concat (map valueRecord vs) in
     le_bytes 4 (word_of_nat (5 + length body) :: 32 word) @ [0] @ le_bytes 4 (word_of_nat (length vs) :: 32 word) @ body)"

lemma uint_word_of_nat: "n < 2 ^ 32 \<Longrightarrow> uint (word_of_nat n :: 32 word) = int n"
  by (simp add: unsigned_of_nat take_bit_nat_eq_self)

lemma length_valueRecord [simp]: "length (valueRecord v) = 4 + length v"
  by (simp add: valueRecord_def)

lemma decodeValueRecord_at:
  assumes "2 \<le> length v" "length v < 2 ^ 32"
  shows "decodeValueRecord resolver t (pre @ valueRecord v @ post) (int (length pre))
    = andThen (decodeLookupValue resolver t v) (\<lambda>row. Inr (row, int (length pre + length (valueRecord v))))"
proof -
  let ?e = "pre @ valueRecord v @ post"
  have sz: "le_get 4 ?e (int (length pre)) = Inr (word_of_nat (length v) :: 32 word)"
    by (simp add: valueRecord_def le_get_append)
  have id: "le_get 2 ?e (int (length pre) + 4) = (le_get 2 v 0 :: 16 word result)"
    using assms(1) by (simp add: valueRecord_def le_get_def go_slice_def nat_add_distrib)
  have body: "go_slice ?e (int (length pre) + 4 + 2) (int (length pre) + 4 + int (length v)) = go_slice v 2 (int (length v))"
    using assms(1) by (simp add: valueRecord_def go_slice_def nat_add_distrib)
  show ?thesis
    using assms(1) unfolding decodeValueRecord_def sz andThen_simps Let_def uint_word_of_nat [OF assms(2)] id body
    by (simp add: decodeLookupValue_def andThen_assoc add.assoc)
qed

lemma decodeValueRecords_at:
  assumes "\<forall>v \<in> set vs. 2 \<le> length v \<and> length v < 2 ^ 32"
  shows "decodeValueRecords resolver t (pre @ concat (map valueRecord vs)) (length vs) (int (length pre))
    = andThen (mapResult (decodeLookupValue resolver t) vs)
        (\<lambda>rows. Inr (rows, int (length (pre @ concat (map valueRecord vs)))))"
  using assms
proof (induction vs arbitrary: pre)
  case (Cons v vs)
  have e: "pre @ concat (map valueRecord (v # vs)) = pre @ valueRecord v @ concat (map valueRecord vs)"
    "pre @ valueRecord v @ concat (map valueRecord vs) = (pre @ valueRecord v) @ concat (map valueRecord vs)" by simp_all
  have rest: "decodeValueRecords resolver t (pre @ valueRecord v @ concat (map valueRecord vs)) (length vs) (int (length (pre @ valueRecord v)))
      = andThen (mapResult (decodeLookupValue resolver t) vs)
          (\<lambda>rows. Inr (rows, int (length ((pre @ valueRecord v) @ concat (map valueRecord vs)))))"
    unfolding e(2) by (rule Cons.IH) (use Cons.prems in simp)
  have "decodeValueRecords resolver t (pre @ concat (map valueRecord (v # vs))) (length (v # vs)) (int (length pre))
      = andThen (decodeLookupValue resolver t v) (\<lambda>row. andThen (decodeValueRecords resolver t
          (pre @ valueRecord v @ concat (map valueRecord vs)) (length vs) (int (length (pre @ valueRecord v))))
          (\<lambda>(rows, final). Inr (row # rows, final)))"
    using Cons.prems unfolding e(1) by (simp add: decodeValueRecord_at andThen_assoc)
  also have "\<dots> = andThen (mapResult (decodeLookupValue resolver t) (v # vs))
        (\<lambda>rows. Inr (rows, int (length (pre @ concat (map valueRecord (v # vs))))))"
    unfolding rest by (simp add: andThen_assoc)
  finally show ?case .
qed simp

text \<open>A batch of values is decoded exactly like its values one by one, each under the schema it was written with: the
  rows come in order, the first value that cannot be decoded gives its error, and no byte of the batch is left over.\<close>

theorem value_batch_exact:
  assumes "\<forall>v \<in> set vs. 2 \<le> length v" "length (valueBatch vs) < 2 ^ 32"
  shows "decodeValueRecordBatch resolver t (valueBatch vs) = mapResult (decodeLookupValue resolver t) vs"
proof -
  let ?body = "concat (map valueRecord vs)"
  let ?pre = "le_bytes 4 (word_of_nat (5 + length ?body) :: 32 word) @ [0] @ le_bytes 4 (word_of_nat (length vs) :: 32 word)"
  have e: "valueBatch vs = ?pre @ ?body" by (simp add: valueBatch_def Let_def)
  have len: "length (valueBatch vs) = 9 + length ?body" "length ?pre = 9" by (simp_all add: e)
  have six: "6 * length vs \<le> length ?body"
    using assms(1) by (induction vs) auto
  have small: "length v < 2 ^ 32" if "v \<in> set vs" for v
  proof -
    have "length (valueRecord v) \<le> length ?body"
      using that by (auto simp: length_concat intro!: member_le_sum_list)
    then show ?thesis using assms(2) len(1) by simp
  qed
  have h: "le_get 4 (valueBatch vs) 0 = Inr (word_of_nat (5 + length ?body) :: 32 word)"
    unfolding e by (simp add: le_get_prefix)
  have magic: "go_index (valueBatch vs) 4 = Inr 0"
    unfolding e by (simp add: go_index_def nth_append)
  have count: "le_get 4 (valueBatch vs) 5 = Inr (word_of_nat (length vs) :: 32 word)"
    using le_get_append [of 4 "le_bytes 4 (word_of_nat (5 + length ?body) :: 32 word) @ [0]" "word_of_nat (length vs) :: 32 word" ?body]
    unfolding e by simp
  have n: "uint (word_of_nat (5 + length ?body) :: 32 word) = int (5 + length ?body)"
    "uint (word_of_nat (length vs) :: 32 word) = int (length vs)" "unat (word_of_nat (length vs) :: 32 word) = length vs"
    using assms(2) len(1) six by (intro uint_word_of_nat; linarith | simp add: unsigned_of_nat take_bit_nat_eq_self)+
  have rs: "decodeValueRecords resolver t (valueBatch vs) (length vs) 9
      = andThen (mapResult (decodeLookupValue resolver t) vs) (\<lambda>rows. Inr (rows, int (length (valueBatch vs))))"
    using decodeValueRecords_at [of vs resolver t ?pre] assms(1) small unfolding e len(2) by simp
  have "int (length vs) \<le> int (length ?body) div 6" using six by linarith
  then show ?thesis
    unfolding decodeValueRecordBatch_def h magic count andThen_simps n rs len(1)
    by (simp add: andThen_assoc) (simp add: andThen_def split: sum.splits)
qed

theorem value_batch_exact_witness:
  "decodeValueRecordBatch (\<lambda>_ _. Inr exSchema) exKVTable (valueBatch [[1, 0, 4, 172, 2, 1, 97], [1, 0, 4, 1, 1, 98]])
   = Inr [[VInt32 300, VString [97], VNil], [VInt32 1, VString [98], VNil]]"
proof -
  have "decodeValueRecordBatch (\<lambda>_ _. Inr exSchema) exKVTable (valueBatch [[1, 0, 4, 172, 2, 1, 97], [1, 0, 4, 1, 1, 98]])
    = mapResult (decodeLookupValue (\<lambda>_ _. Inr exSchema) exKVTable) [[1, 0, 4, 172, 2, 1, 97], [1, 0, 4, 1, 1, 98]]"
    by (rule value_batch_exact) (simp_all add: valueBatch_def Let_def)
  also have "\<dots> = Inr [[VInt32 300, VString [97], VNil], [VInt32 1, VString [98], VNil]]" by code_simp
  finally show ?thesis .
qed

section \<open>The latest rows\<close>

text \<open>Offsets of Arrow rows stay below the largest offset, as the decoder checks.\<close>

definition arrow_fits :: "'r arrow_lib \<Rightarrow> 'r scan_arrow \<Rightarrow> bool" where
  "arrow_fits lib a \<longleftrightarrow> arrow_ok lib a \<and> 0 \<le> arrowOffset a \<and> arrowOffset a \<le> maxInt64 - arrowRows lib a"

lemma slice_tail:
  assumes "arrow_fits lib a" "slices_count lib" "0 < skip" "skip < arrowRows lib a"
  shows "\<exists>b. sliceArrowLogBatch lib (saBatch a) skip (arrowRows lib a) = Inr b
    \<and> arrowRange lib (a\<lparr>saBatch := b\<rparr>) = drop (nat skip) (arrowRange lib a) \<and> arrowRows lib (a\<lparr>saBatch := b\<rparr>) = arrowRows lib a - skip"
proof -
  obtain r where r: "abRecord (saBatch a) = Some r" using assms(1) by (auto simp: arrow_fits_def arrow_ok_def)
  have n: "alNumRows lib r = arrowRows lib a" using r by (simp add: arrowRows_def)
  have c: "int (length (abChanges (saBatch a))) = arrowRows lib a" using assms(1) by (simp add: arrow_fits_def arrow_ok_def)
  have o: "sint (abBaseOffset (saBatch a) + word_of_int skip) = arrowOffset a + skip"
  proof -
    have "signed_take_bit 63 skip = skip"
      using assms by (intro signed_take_bit_int_eq_self) (simp_all add: arrow_fits_def maxInt64_def)
    then have "sint (abBaseOffset (saBatch a) + word_of_int skip) = signed_take_bit 63 (arrowOffset a + skip)"
      by (simp add: sint_word_ariths signed_of_int signed_take_bit_add)
    also have "\<dots> = arrowOffset a + skip"
      using assms by (intro signed_take_bit_int_eq_self) (simp_all add: arrow_fits_def maxInt64_def)
    finally show ?thesis .
  qed
  let ?b = "(saBatch a)\<lparr>abBaseOffset := abBaseOffset (saBatch a) + word_of_int skip,
    abRecord := Some (alSlice lib r skip (arrowRows lib a)), abChanges := drop (nat skip) (abChanges (saBatch a)), abOwned := True\<rparr>"
  have rows: "arrowRows lib (a\<lparr>saBatch := ?b\<rparr>) = arrowRows lib a - skip"
    using assms(2-4) n by (simp add: arrowRows_def slices_count_def)
  have "sliceArrowLogBatch lib (saBatch a) skip (arrowRows lib a) = Inr ?b"
    using r c assms(3,4) by (simp add: sliceArrowLogBatch_def go_slice_def)
  moreover have "arrowRange lib (a\<lparr>saBatch := ?b\<rparr>) = drop (nat skip) (arrowRange lib a)"
    using assms(3,4) rows o by (intro nth_equalityI) (simp_all add: arrowRange_def)
  ultimately show ?thesis using rows by blast
qed

lemma length_arrowRange: "arrow_fits lib a \<Longrightarrow> length (arrowRange lib a) = nat (arrowRows lib a)"
  by (simp add: arrowRange_def arrow_fits_def arrow_ok_def)

lemma scanOffsets_Cons:
  "scanOffsets lib (r # rs) as = insert (rowOffset r) (scanOffsets lib rs as)"
  "scanOffsets lib rs (a # as) = set (arrowRange lib a) \<union> scanOffsets lib rs as"
  "scanResultRows lib (r # rs) as = 1 + scanResultRows lib rs as"
  "scanResultRows lib rs (a # as) = arrowRows lib a + scanResultRows lib rs as"
  by (auto simp: scanOffsets_def scanResultRows_def)

lemma skipSegments_exact:
  assumes "\<forall>seg \<in> set segs. segment_ok rows arrows seg" "\<forall>a \<in> set arrows. arrow_fits lib a" "slices_count lib" "0 \<le> skip"
  defines "E \<equiv> \<lambda>segs. concat (map (segmentOffsets lib rows arrows) segs)"
  shows "\<exists>rs as. skipSegments lib rows arrows segs skip = Inr (rs, as)
    \<and> scanOffsets lib rs as = set (drop (nat skip) (E segs)) \<and> scanResultRows lib rs as = int (length (drop (nat skip) (E segs)))"
  using assms(1,4)
proof (induction segs arbitrary: skip)
  case Nil
  then show ?case by (simp add: E_def scanOffsets_def scanResultRows_def)
next
  case (Cons seg segs)
  note ok = Cons.prems(1)
  have E: "E (seg # segs) = segmentOffsets lib rows arrows seg @ E segs" by (simp add: E_def)
  show ?case
  proof (cases "segRow seg \<ge> 0")
    case True
    have idx: "go_index rows (segRow seg) = Inr (rows ! nat (segRow seg))" using ok True by (simp add: segment_ok_def go_index_def)
    have so: "segmentOffsets lib rows arrows seg = [rowOffset (rows ! nat (segRow seg))]" using True by (simp add: segmentOffsets_def)
    show ?thesis
    proof (cases "skip > 0")
      case pos: True
      then obtain k where "nat skip = Suc k" "nat (skip - 1) = k" by (cases "nat skip") auto
      with Cons.IH [of "skip - 1"] ok pos True show ?thesis by (simp add: E so)
    next
      case False
      with Cons.prems(2) have z: "skip = 0" by simp
      from Cons.IH [of 0] ok obtain rs as where "skipSegments lib rows arrows segs 0 = Inr (rs, as)"
        "scanOffsets lib rs as = set (E segs)" "scanResultRows lib rs as = int (length (E segs))" by auto
      with True idx show ?thesis by (simp add: z E so scanOffsets_Cons)
    qed
  next
    case False
    let ?a = "arrows ! nat (segArrow seg)"
    have idx: "go_index arrows (segArrow seg) = Inr ?a" and a: "?a \<in> set arrows"
      using ok False by (auto simp: segment_ok_def go_index_def)
    have fit: "arrow_fits lib ?a" using a assms(2) by blast
    have so: "segmentOffsets lib rows arrows seg = arrowRange lib ?a" using False by (simp add: segmentOffsets_def)
    note len = length_arrowRange [OF fit]
    have pos: "0 < arrowRows lib ?a" using fit by (simp add: arrow_fits_def arrow_ok_def)
    show ?thesis
    proof (cases "skip \<ge> arrowRows lib ?a")
      case True
      from Cons.IH [of "skip - arrowRows lib ?a"] ok True obtain rs as where
        "skipSegments lib rows arrows segs (skip - arrowRows lib ?a) = Inr (rs, as)"
        "scanOffsets lib rs as = set (drop (nat (skip - arrowRows lib ?a)) (E segs))"
        "scanResultRows lib rs as = int (length (drop (nat (skip - arrowRows lib ?a)) (E segs)))" by auto
      moreover have "drop (nat skip) (arrowRange lib ?a @ E segs) = drop (nat (skip - arrowRows lib ?a)) (E segs)"
        using True pos len by (simp add: nat_diff_distrib)
      ultimately show ?thesis using False idx True by (simp add: E so Let_def)
    next
      case less: False
      have d: "drop (nat skip) (arrowRange lib ?a @ E segs) = drop (nat skip) (arrowRange lib ?a) @ E segs"
        using less Cons.prems(2) len by simp
      from Cons.IH [of 0] ok obtain rs as where r: "skipSegments lib rows arrows segs 0 = Inr (rs, as)"
        "scanOffsets lib rs as = set (E segs)" "scanResultRows lib rs as = int (length (E segs))" by auto
      show ?thesis
      proof (cases "skip > 0")
        case True
        from slice_tail [OF fit assms(3) True] less obtain b where b: "sliceArrowLogBatch lib (saBatch ?a) skip (arrowRows lib ?a) = Inr b"
          "arrowRange lib (?a\<lparr>saBatch := b\<rparr>) = drop (nat skip) (arrowRange lib ?a)" "arrowRows lib (?a\<lparr>saBatch := b\<rparr>) = arrowRows lib ?a - skip"
          by auto
        have "skipSegments lib rows arrows (seg # segs) skip = Inr (rs, ?a\<lparr>saBatch := b\<rparr> # as)"
          using False idx less True b(1) r(1) by (simp add: Let_def)
        then show ?thesis
          using r(2,3) len less True by (simp add: E so d scanOffsets_Cons b(2,3) del: skipSegments.simps)
      next
        case zero: False
        with Cons.prems(2) have z: "skip = 0" by simp
        have "skipSegments lib rows arrows (seg # segs) skip = Inr (rs, ?a # as)"
          using False idx less r(1) by (simp add: z Let_def)
        then show ?thesis
          using r(2,3) len pos by (simp add: E so z scanOffsets_Cons del: skipSegments.simps)
      qed
    qed
  qed
qed

lemma sum_list_sort_key: "sum_list (map f (sort_key k xs)) = sum_list (map f xs)" for f :: "_ \<Rightarrow> nat"
  by (metis mset_map mset_sort sum_mset_sum_list)

lemma length_orderedOffsets:
  assumes "\<forall>a \<in> set arrows. arrow_fits lib a"
  shows "int (length (orderedOffsets lib rows arrows)) = scanResultRows lib rows arrows"
proof -
  have "length (orderedOffsets lib rows arrows)
      = sum_list (map (\<lambda>i. 1) [0..<length rows]) + sum_list (map (\<lambda>i. length (arrowRange lib (arrows ! i))) [0..<length arrows])"
    by (simp add: orderedOffsets_def orderedScanSegments_def length_concat comp_def sum_list_sort_key segmentOffsets_def)
  also have "map (\<lambda>i. length (arrowRange lib (arrows ! i))) [0..<length arrows] = map (\<lambda>a. nat (arrowRows lib a)) arrows"
    using assms by (intro nth_equalityI) (simp_all add: length_arrowRange)
  also have "int (sum_list (map (\<lambda>i. 1) [0..<length rows]) + sum_list (map (\<lambda>a. nat (arrowRows lib a)) arrows)) = scanResultRows lib rows arrows"
    using assms by (induction arrows) (simp_all add: scanResultRows_def arrow_fits_def arrow_ok_def sum_list_triv)
  finally show ?thesis .
qed

text \<open>The limit of a bounded scan keeps exactly the latest rows: of the decoded rows and Arrow rows in offset order, the
  last ones up to the limit remain, Arrow batches being cut where the limit falls inside of them.\<close>

theorem limit_latest_exact:
  assumes "\<forall>a \<in> set arrows. arrow_fits lib a" "slices_count lib" "0 \<le> limit" "sorted_wrt (<) (orderedOffsets lib rows arrows)"
  defines "E \<equiv> orderedOffsets lib rows arrows"
  shows "\<exists>rs as. limitLatestLogRecords lib rows arrows limit = Inr (rs, as)
    \<and> scanOffsets lib rs as = set (drop (length E - nat limit) E) \<and> scanResultRows lib rs as = int (min (nat limit) (length E))
    \<and> (\<forall>x \<in> scanOffsets lib rows arrows - scanOffsets lib rs as. \<forall>y \<in> scanOffsets lib rs as. x < y)"
proof -
  note n = length_orderedOffsets [OF assms(1), of rows, folded E_def]
  have all: "scanOffsets lib rows arrows = set E" by (simp add: E_def scanOffsets_ordered)
  let ?k = "length E - nat limit"
  obtain rs as where r: "limitLatestLogRecords lib rows arrows limit = Inr (rs, as)"
    "scanOffsets lib rs as = set (drop ?k E)" "scanResultRows lib rs as = int (length (drop ?k E))"
  proof (cases "scanResultRows lib rows arrows - limit \<le> 0")
    case True
    with n assms(3) have k: "?k = 0" by linarith
    have "limitLatestLogRecords lib rows arrows limit = Inr (rows, arrows)" using True by (simp add: limitLatestLogRecords_def)
    then show thesis by (rule that) (simp_all only: k drop_0 all n)
  next
    case False
    have ok: "\<forall>seg \<in> set (orderedScanSegments rows arrows). segment_ok rows arrows seg" by (simp add: orderedScanSegments_ok)
    have k: "nat (scanResultRows lib rows arrows - limit) = ?k" using n assms(3) by linarith
    from skipSegments_exact [OF ok assms(1,2), of "scanResultRows lib rows arrows - limit"] False that show thesis
      by (auto simp: limitLatestLogRecords_def k E_def orderedOffsets_def)
  qed
  have "\<forall>x \<in> set (take ?k E). \<forall>y \<in> set (drop ?k E). x < y"
    using assms(4) unfolding E_def [symmetric] by (metis append_take_drop_id sorted_wrt_append)
  moreover have "set E - set (drop ?k E) \<subseteq> set (take ?k E)" by (metis Diff_subset_conv append_take_drop_id set_append sup_commute order_refl)
  ultimately have "\<forall>x \<in> scanOffsets lib rows arrows - scanOffsets lib rs as. \<forall>y \<in> scanOffsets lib rs as. x < y"
    unfolding all r(2) by blast
  with r show ?thesis by auto
qed

theorem limit_latest_exact_witness:
  "\<exists>rs as. limitLatestLogRecords byteLib [boundRow 5, boundRow 6, boundRow 7] [] 2 = Inr (rs, as) \<and> scanOffsets byteLib rs as = {6, 7}"
proof -
  let ?rows = "[boundRow 5, boundRow 6, boundRow 7]" let ?arrows = "[] :: bytes scan_arrow list"
  have s: "orderedScanSegments ?rows ?arrows = [\<lparr>segOffset = 5, segRow = 0, segArrow = -1\<rparr>,
      \<lparr>segOffset = 6, segRow = 1, segArrow = -1\<rparr>, \<lparr>segOffset = 7, segRow = 2, segArrow = -1\<rparr>]"
    by (simp add: orderedScanSegments_def boundRow_def upt_rec)
  have o: "orderedOffsets byteLib ?rows ?arrows = [5, 6, 7]"
    unfolding orderedOffsets_def s by (simp add: segmentOffsets_def boundRow_def)
  have sl: "slices_count byteLib" by (auto simp: slices_count_def byteLib_def min_def)
  from limit_latest_exact [of ?arrows byteLib 2 ?rows] sl obtain rs as where
    "limitLatestLogRecords byteLib ?rows ?arrows 2 = Inr (rs, as)" "scanOffsets byteLib rs as = set (drop (3 - 2) [5, 6, 7])"
    unfolding o by auto
  then show ?thesis by auto
qed

section \<open>Scan sessions\<close>

text \<open>A server that holds the batches of a session: the call with number \<open>k\<close> gets the \<open>k\<close>-th batch if it opens the session
  (\<open>k = 0\<close>) or names it.\<close>

definition sessionServer :: "bytes \<Rightarrow> bytes list \<Rightarrow> scan_kv_message \<Rightarrow> scan_response option result" where
  "sessionServer sid bs m =
     (let k = nat (skCallSeqId m) in
      if 0 \<le> skCallSeqId m \<and> k < length bs \<and> \<not> skCloseScanner m
         \<and> (if k = 0 then skScannerId m = None \<and> skBucketScanReq m \<noteq> None else skScannerId m = Some sid)
      then Inr (Some \<lparr>srErrorCode = 0, srErrorMessage = [], srIsLogTable = False, srScannerId = sid,
             srHasMore = (Suc k < length bs), srRecords = bs ! k\<rparr>)
      else Inl ErrServerFailure)"

text \<open>\<^verbatim>\<open>Poll\<close> with the request that it sends, and a number of polls in a row.\<close>

definition sessionPoll :: "'r arrow_lib \<Rightarrow> (int \<Rightarrow> int) \<Rightarrow> int \<Rightarrow> (scan_kv_message \<Rightarrow> scan_response option result) \<Rightarrow> batch_static
    \<Rightarrow> batch_state \<Rightarrow> 'r batch_result result \<times> batch_state" where
  "sessionPoll lib localOffset requestAPI send st z =
     batchPoll lib localOffset st \<lparr>paSnapshot = ([], None),
       paSession = scanKV requestAPI (scanKVMessage (bsBucket st) (bcLimit (bsConfig st)) (bcBatchSizeBytes (bsConfig st))
         (bzScannerID z) (bzSequence z) False) send,
       paLimitScan = Inl ErrUnsupportedAPI\<rparr> z"

fun sessionPolls :: "'r arrow_lib \<Rightarrow> (int \<Rightarrow> int) \<Rightarrow> int \<Rightarrow> (scan_kv_message \<Rightarrow> scan_response option result) \<Rightarrow> batch_static
    \<Rightarrow> nat \<Rightarrow> batch_state \<Rightarrow> 'r batch_result result list \<times> batch_state" where
  "sessionPolls lib localOffset requestAPI send st 0 z = ([], z)"
| "sessionPolls lib localOffset requestAPI send st (Suc n) z =
     (case sessionPoll lib localOffset requestAPI send st z of (r, z) \<Rightarrow>
        (case sessionPolls lib localOffset requestAPI send st n z of (rs, z) \<Rightarrow> (r # rs, z)))"

definition sessionState :: "bytes \<Rightarrow> nat \<Rightarrow> nat \<Rightarrow> batch_state" where
  "sessionState sid n k = (if k = 0 then newBatchState
     else \<lparr>bzScannerID = sid, bzSequence = word_of_nat (min k n), bzDone = (n \<le> k), bzClosed = False\<rparr>)"

definition sessionResult :: "row list list \<Rightarrow> nat \<Rightarrow> 'r batch_result" where
  "sessionResult rss k = \<lparr>btRows = (if k < length rss then rss ! k else []), btArrowBatches = [], btDone = (length rss \<le> Suc k)\<rparr>"

definition decodesTo :: "batch_static \<Rightarrow> bytes \<Rightarrow> row list \<Rightarrow> bool" where
  "decodesTo st b rows \<longleftrightarrow> andThen (if b \<noteq> [] then decodeValueRecordBatch (bsResolver st) (bsTable st) b else Inr [])
     (projectRows (bsProjection st)) = Inr rows"

lemma sessionPoll_step:
  assumes st: "\<not> bsSnapshot st" "bsSession st" "tblKind (bsTable st) = PrimaryKeyTable" "0 < tbBucketCount (bsBucket st)"
    and bs: "sid \<noteq> []" "bs \<noteq> []" "length bs < 2 ^ 31" "list_all2 (decodesTo st) bs rss"
  shows "sessionPoll lib localOffset requestAPI (sessionServer sid bs) st (sessionState sid (length bs) k)
    = (Inr (sessionResult rss k), sessionState sid (length bs) (Suc k))"
proof -
  have len: "length rss = length bs" using bs(4) list_all2_lengthD by fastforce
  show ?thesis
  proof (cases "k < length bs")
    case True
    let ?z = "sessionState sid (length bs) k"
    have z: "bzScannerID ?z = (if k = 0 then [] else sid)" "bzSequence ?z = word_of_nat k" "\<not> bzDone ?z" "\<not> bzClosed ?z"
      using True by (simp_all add: sessionState_def newBatchState_def)
    have seq: "sint (word_of_nat k :: 32 word) = int k"
      using True bs(3) by (simp add: signed_of_nat signed_take_bit_int_eq_self)
    have "\<exists>m. scanKVMessage (bsBucket st) (bcLimit (bsConfig st)) (bcBatchSizeBytes (bsConfig st)) (bzScannerID ?z) (bzSequence ?z) False = Inr m
        \<and> skCallSeqId m = int k \<and> \<not> skCloseScanner m
        \<and> (if k = 0 then skScannerId m = None \<and> skBucketScanReq m \<noteq> None else skScannerId m = Some sid)"
      using st(4) bs(1) seq unfolding z(1,2) scanKVMessage_def Let_def by (cases "k = 0") auto
    then obtain m where m: "scanKVMessage (bsBucket st) (bcLimit (bsConfig st)) (bcBatchSizeBytes (bsConfig st)) (bzScannerID ?z) (bzSequence ?z) False = Inr m"
      "skCallSeqId m = int k" "\<not> skCloseScanner m" "if k = 0 then skScannerId m = None \<and> skBucketScanReq m \<noteq> None else skScannerId m = Some sid" by blast
    have srv: "sessionServer sid bs m = Inr (Some \<lparr>srErrorCode = 0, srErrorMessage = [], srIsLogTable = False, srScannerId = sid,
             srHasMore = (Suc k < length bs), srRecords = bs ! k\<rparr>)"
      using m(2-4) True by (simp add: sessionServer_def)
    have ans: "scanKV requestAPI (Inr m) (sessionServer sid bs) = Inr \<lparr>ksbScannerID = sid, ksbHasMore = (Suc k < length bs), ksbRecords = bs ! k\<rparr>"
      by (simp add: scanKV_def srv scanResponse_def responseServerError_def)
    have d: "andThen (if bs ! k \<noteq> [] then decodeValueRecordBatch (bsResolver st) (bsTable st) (bs ! k) else Inr [])
        (projectRows (bsProjection st)) = Inr (rss ! k)"
      using bs(4) True by (simp add: list_all2_conv_all_nth decodesTo_def)
    have p: "pollKVSession st (Inr \<lparr>ksbScannerID = sid, ksbHasMore = (Suc k < length bs), ksbRecords = bs ! k\<rparr>) ?z
        = (Inr (sessionResult rss k), sessionState sid (length bs) (Suc k))"
      using True bs(1) z d len by (auto simp: pollKVSession_def Let_def sessionResult_def sessionState_def newBatchState_def min_def)
    show ?thesis
      unfolding sessionPoll_def m(1) ans batchPoll_def using st z(3,4) p by simp
  next
    case False
    then have "sessionState sid (length bs) (Suc k) = sessionState sid (length bs) k" "bzDone (sessionState sid (length bs) k)"
      "\<not> bzClosed (sessionState sid (length bs) k)"
      using bs(2) by (auto simp: sessionState_def min_def)
    then show ?thesis using False len by (simp add: sessionPoll_def batchPoll_def sessionResult_def)
  qed
qed

lemma sessionPolls_all:
  assumes "\<And>k. sessionPoll lib localOffset requestAPI send st (state k) = (Inr (res k), state (Suc k))"
  shows "sessionPolls lib localOffset requestAPI send st m (state k) = (map (\<lambda>i. Inr (res i)) [k..<k + m], state (k + m))"
  by (induction m arbitrary: k) (simp_all add: assms upt_conv_Cons del: upt_Suc)

text \<open>C21. A scan session delivers every batch of the server exactly once and in order, whatever the number of polls: each poll
  asks for the next call number, only the first one opens the session, the last batch marks the scan done, and polls after
  that return no rows and send nothing.\<close>

theorem kv_session_exact:
  assumes "newBatchScanner nilBackend True True source t bucket options = Inr st" "tblKind t = PrimaryKeyTable"
    and "0 < tbBucketCount bucket" "sid \<noteq> []" "bs \<noteq> []" "length bs < 2 ^ 31" "list_all2 (decodesTo st) bs rss"
  shows "sessionPolls lib localOffset requestAPI (sessionServer sid bs) st m newBatchState
    = (map (\<lambda>i. Inr \<lparr>btRows = (if i < length bs then rss ! i else []), btArrowBatches = [], btDone = (length bs \<le> Suc i)\<rparr>) [0..<m],
       sessionState sid (length bs) m)"
proof -
  have len: "length rss = length bs" using assms(7) list_all2_lengthD by fastforce
  have s: "\<not> bsSnapshot st" "bsSession st" "bsTable st = t" "bsBucket st = bucket"
    using assms(1,3) by (auto simp: newBatchScanner_def)
  have "sessionPolls lib localOffset requestAPI (sessionServer sid bs) st m (sessionState sid (length bs) 0)
      = (map (\<lambda>i. Inr (sessionResult rss i)) [0..<0 + m], sessionState sid (length bs) (0 + m))"
    by (rule sessionPolls_all) (rule sessionPoll_step, use s assms in simp_all)
  then show ?thesis by (simp add: sessionState_def sessionResult_def len)
qed


definition exBucket :: table_bucket where
  "exBucket = \<lparr>tbTableID = 5, tbPartitionID = -1, tbBucketID = 0, tbBucketCount = 2,
     tbLeader = \<lparr>snID = 1, snAddress = ''a:1'', snType = TabletServer\<rparr>\<rparr>"

theorem kv_session_exact_witness:
  "\<exists>st. newBatchScanner False True True None exKVTable exBucket [] = Inr st
     \<and> sessionPolls byteLib (\<lambda>_. 0) 0 (sessionServer [9] [valueBatch [[1, 0, 4, 172, 2, 1, 97]], []]) st 3 newBatchState
       = ([Inr \<lparr>btRows = [[VInt32 300, VString [97], VNil]], btArrowBatches = [], btDone = False\<rparr>,
           Inr \<lparr>btRows = [], btArrowBatches = [], btDone = True\<rparr>, Inr \<lparr>btRows = [], btArrowBatches = [], btDone = True\<rparr>],
          sessionState [9] 2 3)"
proof -
  have "Schema_Validate (tblSchema exKVTable) = Inr ()" by code_simp
  then obtain st where st: "newBatchScanner False True True None exKVTable exBucket [] = Inr st"
    "bsResolver st = resolverFor None exKVTable" "bsTable st = exKVTable" "bsProjection st = []"
    by (simp add: newBatchScanner_def batchScannerSettings_def TableBucket_Validate_def batchProjection_def)
      (simp add: exBucket_def exKVTable_def exTable_def defaultBatchConfig_def)
  have r: "resolverFor None exKVTable = fixedSchemaResolver (tblPath exKVTable) 1 exSchema"
    by (simp add: resolverFor_def exKVTable_def exTable_def)
  have b: "decodeValueRecordBatch (fixedSchemaResolver (tblPath exKVTable) 1 exSchema) exKVTable (valueBatch [[1, 0, 4, 172, 2, 1, 97]])
      = Inr [[VInt32 300, VString [97], VNil]]" by code_simp
  have "decodesTo st (valueBatch [[1, 0, 4, 172, 2, 1, 97]]) [[VInt32 300, VString [97], VNil]]" "decodesTo st [] []"
    by (simp_all add: decodesTo_def st(2-4) r b) (simp add: valueBatch_def Let_def)
  then have "list_all2 (decodesTo st) [valueBatch [[1, 0, 4, 172, 2, 1, 97]], []] [[[VInt32 300, VString [97], VNil]], []]" by simp
  from kv_session_exact [OF st(1) _ _ _ _ _ this, of "[9]" byteLib "\<lambda>_. 0" 0 3] st(1) show ?thesis
    by (simp add: exKVTable_def exBucket_def upt_rec sessionState_def)
qed

text \<open>When a batch cannot be decoded, the poll fails after the call number has advanced: the next poll asks for the batch
  behind it.\<close>

lemma kv_poll_error_advances:
  assumes "ksbScannerID batch \<noteq> []" "bzScannerID z = [] \<or> bzScannerID z = ksbScannerID batch" "ksbRecords batch \<noteq> []"
    and "decodeValueRecordBatch (bsResolver st) (bsTable st) (ksbRecords batch) = Inl e"
  shows "pollKVSession st (Inr batch) z = (Inl e, z\<lparr>bzScannerID := ksbScannerID batch, bzSequence := bzSequence z + 1\<rparr>)"
  using assms by (auto simp: pollKVSession_def)

end
