(* ===== verification/Remote_Files.thy ===== *)
theory Remote_Files
  imports Scan_Backends
begin

text \<open>
  Reads of tiered log segments and snapshot files: \<^verbatim>\<open>pkg/fgo/remote_file.go\<close>, \<^verbatim>\<open>remote_download.go\<close> and the validation of
  \<^verbatim>\<open>remote_snapshot.go\<close>. The storage is behind a reader, whose answers are arguments. Sizes are \<^verbatim>\<open>int64\<close>; the code subtracts
  before it compares, so that nothing overflows.
\<close>

section \<open>Settings\<close>

record remote_config =
  rmMaxAttempts :: int
  rmRetryBackoff :: int
  rmMaxFileBytes :: int
  rmMaxTotalBytes :: int
  rmMaxFiles :: int
  rmMaxConcurrentReads :: int
  rmMaxConcurrentBytes :: int

definition defaultRemoteMaxFileBytes :: int where
  "defaultRemoteMaxFileBytes = 256 * 1048576"

definition orDefault :: "int \<Rightarrow> int \<Rightarrow> int" where
  "orDefault v d = (if v = 0 then d else v)"

definition normalized :: "remote_config \<Rightarrow> remote_config result" where
  "normalized c =
     (let c = \<lparr>rmMaxAttempts = orDefault (rmMaxAttempts c) 3,
        rmRetryBackoff = orDefault (rmRetryBackoff c) (50 * millisecond),
        rmMaxFileBytes = orDefault (rmMaxFileBytes c) defaultRemoteMaxFileBytes,
        rmMaxTotalBytes = orDefault (rmMaxTotalBytes c) (512 * 1048576),
        rmMaxFiles = orDefault (rmMaxFiles c) 4096,
        rmMaxConcurrentReads = orDefault (rmMaxConcurrentReads c) 4,
        rmMaxConcurrentBytes = orDefault (rmMaxConcurrentBytes c) defaultRemoteMaxFileBytes\<rparr>
      in guardE (rmMaxAttempts c < 1 \<or> rmMaxAttempts c > 10 \<or> rmRetryBackoff c < 0 \<or> rmRetryBackoff c > minute
           \<or> rmMaxFileBytes c < 1 \<or> rmMaxTotalBytes c < 1 \<or> rmMaxFiles c < 1 \<or> rmMaxFiles c > 1000000
           \<or> rmMaxConcurrentReads c < 1 \<or> rmMaxConcurrentReads c > 1024 \<or> rmMaxConcurrentBytes c < 1) ErrInvalidConfig
         (Inr c))"

section \<open>Planning\<close>

text \<open>The loop of \<^verbatim>\<open>planRemoteLogSegments\<close> over the sorted segments: the position in the first one, the end of the previous one
  (-1 for none) and the bytes so far.\<close>

fun planSegments :: "remote_config \<Rightarrow> int \<Rightarrow> int \<Rightarrow> int \<Rightarrow> remote_log_segment list \<Rightarrow> int result" where
  "planSegments config start previousEnd outputBytes [] = Inr outputBytes"
| "planSegments config start previousEnd outputBytes (segment # segments) =
     guardE (rsID segment = [] \<or> rsStartOffset segment < 0 \<or> rsEndOffset segment \<le> rsStartOffset segment
       \<or> rsSizeBytes segment \<le> 0 \<or> rsSizeBytes segment > rmMaxFileBytes config) ErrValidation (
     guardE (previousEnd \<ge> 0 \<and> previousEnd \<noteq> rsStartOffset segment) ErrValidation (
     guardE (start > rsSizeBytes segment) ErrMalformedRecordBatch (
     guardE (rsSizeBytes segment - start > rmMaxTotalBytes config - outputBytes) ErrValidation (
     planSegments config 0 (rsEndOffset segment) (outputBytes + (rsSizeBytes segment - start)) segments))))"

text \<open>\<^verbatim>\<open>slices.SortFunc\<close> is not stable, but two segments with one start offset are refused by the loop.\<close>

definition planRemoteLogSegments :: "remote_config \<Rightarrow> remote_log_info \<Rightarrow> (remote_log_segment list \<times> int) result" where
  "planRemoteLogSegments config info =
     guardE (int (length (riSegments info)) > rmMaxFiles config) ErrValidation (
     let segments = sort_key rsStartOffset (riSegments info) in
     andThen (planSegments config (riFirstStartPosition info) (-1) 0 segments) (\<lambda>outputBytes.
     Inr (segments, outputBytes)))"

record snapshot_file =
  sfPath :: string
  sfSize :: int

fun validateSnapshotFiles :: "remote_config \<Rightarrow> int \<Rightarrow> snapshot_file list \<Rightarrow> unit result" where
  "validateSnapshotFiles config sofar [] = Inr ()"
| "validateSnapshotFiles config sofar (f # fs) =
     guardE (sfPath f = [] \<or> sfSize f \<le> 0 \<or> sfSize f > rmMaxFileBytes config) ErrValidation (
     guardE (sfSize f > rmMaxTotalBytes config - sofar) ErrValidation (
     validateSnapshotFiles config (sofar + sfSize f) fs))"

definition validateRemoteSnapshotFiles :: "remote_config \<Rightarrow> snapshot_file list \<Rightarrow> unit result" where
  "validateRemoteSnapshotFiles config files =
     guardE (int (length files) > rmMaxFiles config) ErrValidation (validateSnapshotFiles config 0 files)"

text \<open>\<^verbatim>\<open>%020d\<close> of an offset that is not negative.\<close>

definition paddedOffset :: "int \<Rightarrow> string" where
  "paddedOffset i = (let s = FormatInt i in replicate (20 - length s) CHR ''0'' @ s)"

definition remoteLogSegmentPath :: "string \<Rightarrow> remote_log_segment \<Rightarrow> string" where
  "remoteLogSegmentPath directory segment =
     rev (dropWhile (\<lambda>c. c = CHR ''/'') (rev directory)) @ ''/'' @ rsID segment @ ''/''
       @ paddedOffset (rsStartOffset segment) @ ''.log''"

section \<open>One read\<close>

record remote_request =
  rqPath :: string
  rqExpectedSize :: int
  rqMaxBytes :: int
  rqOffset :: int
  rqLength :: int

text \<open>A stream: its bytes, the error that ends it if it is not the end of file, and the error of \<^verbatim>\<open>Close\<close>. A reader either
  returns whole objects or opens streams.\<close>

record remote_stream =
  stData :: bytes
  stEndErr :: "go_error option"
  stCloseErr :: "go_error option"

datatype remote_answer = WholeObject "bytes result" | OpenedStream "remote_stream result"

text \<open>\<^verbatim>\<open>io.ReadFull\<close> into a buffer of \<open>n\<close> bytes.\<close>

definition ReadFull :: "remote_stream \<Rightarrow> nat \<Rightarrow> bytes result" where
  "ReadFull s n =
     (if n \<le> length (stData s) then Inr (take n (stData s))
      else case stEndErr s of Some e \<Rightarrow> Inl e | None \<Rightarrow> Inl (if stData s = [] then EOF else ErrUnexpectedEOF))"

definition validateRemoteStreamEnd :: "remote_stream \<Rightarrow> nat \<Rightarrow> unit result" where
  "validateRemoteStreamEnd s n =
     guardE (drop n (stData s) \<noteq> []) ErrValidation
       (case stEndErr s of Some e \<Rightarrow> if errorsIs e EOF then Inr () else Inl e | None \<Rightarrow> Inr ())"

definition readRemoteFileStreamAttempt :: "remote_stream result \<Rightarrow> nat \<Rightarrow> bytes result" where
  "readRemoteFileStreamAttempt opened n =
     andThen opened (\<lambda>s.
     andThen (ReadFull s n) (\<lambda>data.
     andThen (validateRemoteStreamEnd s n) (\<lambda>_.
     (case stCloseErr s of Some e \<Rightarrow> Inl e | None \<Rightarrow> Inr data))))"

definition readRemoteFileLegacyAttempt :: "remote_request \<Rightarrow> bytes result \<Rightarrow> nat \<Rightarrow> bytes result" where
  "readRemoteFileLegacyAttempt request answer n =
     andThen answer (\<lambda>data.
     guardE (int (length data) \<noteq> rqExpectedSize request) (Joined ErrValidation ErrUnexpectedEOF) (
     guardE (rqOffset request + int n > int (length data)) ErrValidation (
     go_slice data (rqOffset request) (rqOffset request + int n))))"

definition readRemoteFileAttempt :: "remote_request \<Rightarrow> remote_answer \<Rightarrow> nat \<Rightarrow> bytes result" where
  "readRemoteFileAttempt request answer n =
     guardE (rqOffset request < 0 \<or> rqExpectedSize request < 0 \<or> rqOffset request > rqExpectedSize request
       \<or> int n > rqExpectedSize request - rqOffset request) ErrValidation
       (case answer of OpenedStream opened \<Rightarrow> readRemoteFileStreamAttempt opened n
        | WholeObject whole \<Rightarrow> readRemoteFileLegacyAttempt request whole n)"

text \<open>The classes of errors that the operating system and the network give: \<^verbatim>\<open>os.ErrNotExist\<close>, \<^verbatim>\<open>os.ErrPermission\<close>, what
  \<^verbatim>\<open>Temporary()\<close> returns for an error that has it, and whether an error is a network timeout.\<close>

record error_classes =
  ecNotExist :: "go_error \<Rightarrow> bool"
  ecPermission :: "go_error \<Rightarrow> bool"
  ecTemporary :: "go_error \<Rightarrow> bool option"
  ecTimeout :: "go_error \<Rightarrow> bool"

definition remoteReadTemporary :: "error_classes \<Rightarrow> go_error \<Rightarrow> bool" where
  "remoteReadTemporary ec e =
     (if errorsIs e ErrCanceled \<or> errorsIs e ErrDeadlineExceeded \<or> errorsIs e ErrInvalidConfig \<or> errorsIs e ErrValidation
         \<or> errorsIs e ErrUnsupportedAPI \<or> ecNotExist ec e \<or> ecPermission ec e then errorsIs e ErrUnexpectedEOF
      else if errorsIs e ErrUnexpectedEOF then True
      else case ecTemporary ec e of Some b \<Rightarrow> b | None \<Rightarrow> ecTimeout ec e)"

text \<open>\<^verbatim>\<open>readRemoteFileIntoWithRetry\<close>: the answers, the state of the context and the ends of the waits by attempt.\<close>

fun readRetries :: "error_classes \<Rightarrow> remote_config \<Rightarrow> remote_request \<Rightarrow> nat \<Rightarrow> (int \<Rightarrow> remote_answer) \<Rightarrow> (int \<Rightarrow> go_error option)
    \<Rightarrow> (int \<Rightarrow> go_error option) \<Rightarrow> nat \<Rightarrow> int \<Rightarrow> go_error \<Rightarrow> bytes result" where
  "readRetries ec config request n answers ctxErr waitErr 0 attempt lastErr = Inl lastErr"
| "readRetries ec config request n answers ctxErr waitErr (Suc fuel) attempt lastErr =
     (case readRemoteFileAttempt (request\<lparr>rqMaxBytes := rmMaxFileBytes config\<rparr>) (answers attempt) n of
        Inr data \<Rightarrow> Inr data
      | Inl e \<Rightarrow>
          (case ctxErr attempt of Some c \<Rightarrow> Inl c
           | None \<Rightarrow>
               if \<not> remoteReadTemporary ec e then Inl e
               else if attempt \<noteq> rmMaxAttempts config then
                 (case waitContext (waitErr attempt) (rmRetryBackoff config) of Some w \<Rightarrow> Inl w
                  | None \<Rightarrow> readRetries ec config request n answers ctxErr waitErr fuel (attempt + 1) e)
               else readRetries ec config request n answers ctxErr waitErr fuel (attempt + 1) e))"

definition readRemoteFileIntoWithRetry :: "error_classes \<Rightarrow> remote_config \<Rightarrow> remote_request \<Rightarrow> nat \<Rightarrow> (int \<Rightarrow> remote_answer)
    \<Rightarrow> (int \<Rightarrow> go_error option) \<Rightarrow> (int \<Rightarrow> go_error option) \<Rightarrow> bytes result" where
  "readRemoteFileIntoWithRetry ec config request n answers ctxErr waitErr =
     readRetries ec config request n answers ctxErr waitErr (nat (rmMaxAttempts config)) 1 (Plain ''remote file read failed'')"

section \<open>The downloads\<close>

text \<open>A job: the position of its slice in the result and its size, and the read behind it.\<close>

record download_job =
  djPosition :: nat
  djSize :: nat
  djRequest :: remote_request

fun remoteLogJobs :: "string \<Rightarrow> nat \<Rightarrow> int \<Rightarrow> remote_log_segment list \<Rightarrow> download_job list" where
  "remoteLogJobs directory position start [] = []"
| "remoteLogJobs directory position start (segment # segments) =
     (let n = nat (rsSizeBytes segment - start) in
      \<lparr>djPosition = position, djSize = n,
       djRequest = \<lparr>rqPath = remoteLogSegmentPath directory segment, rqExpectedSize = rsSizeBytes segment, rqMaxBytes = 0,
         rqOffset = start, rqLength = rsSizeBytes segment - start\<rparr>\<rparr>
      # remoteLogJobs directory (position + n) 0 segments)"

datatype download_phase = Starting | Awaiting | Returned "go_error option"

record download_state =
  dsNext :: nat
  dsActive :: "nat list"
  dsActiveBytes :: int
  dsFirstErr :: "go_error option"
  dsContext :: bool
  dsBuffer :: bytes
  dsPhase :: download_phase

definition newDownloads :: "nat \<Rightarrow> nat \<Rightarrow> download_state" where
  "newDownloads jobs outputBytes = \<lparr>dsNext = 0, dsActive = [], dsActiveBytes = 0, dsFirstErr = None, dsContext = True,
     dsBuffer = replicate outputBytes 0, dsPhase = (if jobs = 0 then Returned None else Starting)\<rparr>"

definition writeAt :: "nat \<Rightarrow> bytes \<Rightarrow> bytes \<Rightarrow> bytes" where
  "writeAt position data buffer = take position buffer @ data @ drop (position + length data) buffer"

text \<open>The condition of the loop of \<^verbatim>\<open>startReady\<close>.\<close>

definition canStart :: "remote_config \<Rightarrow> download_job list \<Rightarrow> download_state \<Rightarrow> bool" where
  "canStart config jobs s \<longleftrightarrow> dsFirstErr s = None \<and> dsNext s < length jobs
     \<and> int (length (dsActive s)) < rmMaxConcurrentReads config
     \<and> int (djSize (jobs ! dsNext s)) \<le> rmMaxConcurrentBytes config - dsActiveBytes s"

definition startJob :: "download_job list \<Rightarrow> download_state \<Rightarrow> download_state" where
  "startJob jobs s = s\<lparr>dsNext := Suc (dsNext s), dsActive := dsActive s @ [dsNext s],
     dsActiveBytes := dsActiveBytes s + int (djSize (jobs ! dsNext s))\<rparr>"

definition idleError :: "download_state \<Rightarrow> go_error" where
  "idleError s = (case dsFirstErr s of Some e \<Rightarrow> e | None \<Rightarrow> ErrValidation)"

text \<open>The head of the loop of \<^verbatim>\<open>runRemoteDownloads\<close>: go on while there is work.\<close>

definition nextRound :: "download_job list \<Rightarrow> download_state \<Rightarrow> download_state" where
  "nextRound jobs s = s\<lparr>dsPhase := (if dsNext s < length jobs \<or> dsActive s \<noteq> [] then Starting else Returned (dsFirstErr s))\<rparr>"

definition setFirstErr :: "go_error \<Rightarrow> download_state \<Rightarrow> download_state" where
  "setFirstErr e s = (if dsFirstErr s = None then s\<lparr>dsFirstErr := Some e\<rparr> else s)"

text \<open>\<open>readable\<close> says which bytes a successful read of a job gives.\<close>

inductive download_step :: "remote_config \<Rightarrow> download_job list \<Rightarrow> (download_job \<Rightarrow> bytes \<Rightarrow> bool) \<Rightarrow> download_state \<Rightarrow> download_state \<Rightarrow> bool"
  for config jobs readable where
  start: "dsPhase s = Starting \<Longrightarrow> canStart config jobs s \<Longrightarrow> download_step config jobs readable s (startJob jobs s)"
| idle: "dsPhase s = Starting \<Longrightarrow> \<not> canStart config jobs s \<Longrightarrow> dsActive s = [] \<Longrightarrow>
    download_step config jobs readable s (s\<lparr>dsPhase := Returned (Some (idleError s))\<rparr>)"
| await: "dsPhase s = Starting \<Longrightarrow> \<not> canStart config jobs s \<Longrightarrow> dsActive s \<noteq> [] \<Longrightarrow>
    download_step config jobs readable s (s\<lparr>dsPhase := Awaiting\<rparr>)"
| completed: "dsPhase s = Awaiting \<Longrightarrow> dsActive s = before @ i # after \<Longrightarrow> readable (jobs ! i) data \<Longrightarrow>
    download_step config jobs readable s (nextRound jobs (s\<lparr>dsActive := before @ after,
      dsActiveBytes := dsActiveBytes s - int (djSize (jobs ! i)), dsBuffer := writeAt (djPosition (jobs ! i)) data (dsBuffer s)\<rparr>))"
| failed: "dsPhase s = Awaiting \<Longrightarrow> dsActive s = before @ i # after \<Longrightarrow> length data = djSize (jobs ! i) \<Longrightarrow>
    download_step config jobs readable s (nextRound jobs (setFirstErr e (s\<lparr>dsActive := before @ after,
      dsActiveBytes := dsActiveBytes s - int (djSize (jobs ! i)), dsBuffer := writeAt (djPosition (jobs ! i)) data (dsBuffer s)\<rparr>)))"
| cancelled: "dsPhase s = Awaiting \<Longrightarrow> dsContext s \<Longrightarrow>
    download_step config jobs readable s (nextRound jobs (setFirstErr e (s\<lparr>dsContext := False\<rparr>)))"

section \<open>Remote logs\<close>

text \<open>\<^verbatim>\<open>readRemoteLogSegments\<close> up to the downloads: the jobs and the size of the result.\<close>

definition remoteLogPlan :: "remote_config \<Rightarrow> remote_log_info \<Rightarrow> (remote_config \<times> download_job list \<times> int) result" where
  "remoteLogPlan settings info =
     andThen (normalized settings) (\<lambda>config.
     guardE (TrimSpace (riTabletDirectory info) = [] \<or> riFirstStartPosition info < 0) ErrValidation (
     andThen (planRemoteLogSegments config info) (\<lambda>(segments, outputBytes).
     guardE (outputBytes > maxInt64) ErrValidation (
     Inr (config, remoteLogJobs (riTabletDirectory info) 0 (riFirstStartPosition info) segments, outputBytes)))))"

end
