(* ===== verification/Remote_Properties.thy ===== *)
theory Remote_Properties
  imports Remote_Files "HOL-Library.Sublist"
begin

text \<open>
  A remote log read returns the bytes of its segments in offset order, whatever the order in which the downloads complete; the
  downloads stay within their limits and always come to an end.
\<close>

section \<open>Planning\<close>

text \<open>What the plan promises of the sorted segments: valid, back to back, and no more bytes than allowed.\<close>

fun contiguous :: "int \<Rightarrow> remote_log_segment list \<Rightarrow> bool" where
  "contiguous previousEnd [] \<longleftrightarrow> True"
| "contiguous previousEnd (s # ss) \<longleftrightarrow> (0 \<le> previousEnd \<longrightarrow> rsStartOffset s = previousEnd) \<and> 0 \<le> rsStartOffset s
     \<and> rsStartOffset s < rsEndOffset s \<and> 0 < rsSizeBytes s \<and> contiguous (rsEndOffset s) ss"

lemma planSegments_ok:
  assumes "planSegments config start previousEnd out segments = Inr total'" "0 \<le> start" "out \<le> rmMaxTotalBytes config"
  shows "contiguous previousEnd segments \<and> total' \<le> rmMaxTotalBytes config
    \<and> total' = out + (if segments = [] then 0 else sum_list (map rsSizeBytes segments) - start)
    \<and> (segments \<noteq> [] \<longrightarrow> start \<le> rsSizeBytes (hd segments)) \<and> (\<forall>s \<in> set segments. rsSizeBytes s \<le> rmMaxFileBytes config)"
  using assms
proof (induction segments arbitrary: start previousEnd out)
  case (Cons s segments)
  then have g: "\<not> (rsID s = [] \<or> rsStartOffset s < 0 \<or> rsEndOffset s \<le> rsStartOffset s \<or> rsSizeBytes s \<le> 0
       \<or> rsSizeBytes s > rmMaxFileBytes config)" "\<not> (previousEnd \<ge> 0 \<and> previousEnd \<noteq> rsStartOffset s)"
    "\<not> start > rsSizeBytes s" "\<not> rsSizeBytes s - start > rmMaxTotalBytes config - out"
    and rest: "planSegments config 0 (rsEndOffset s) (out + (rsSizeBytes s - start)) segments = Inr total'" by auto
  have "out + (rsSizeBytes s - start) \<le> rmMaxTotalBytes config" using g(4) by simp
  from Cons.IH [OF rest _ this] g show ?case by (cases segments) auto
qed simp

section \<open>Slices of the result\<close>

definition sliceOf :: "download_job \<Rightarrow> bytes \<Rightarrow> bytes" where
  "sliceOf j buffer = take (djSize j) (drop (djPosition j) buffer)"

text \<open>Jobs with consecutive slices.\<close>

fun layout :: "nat \<Rightarrow> download_job list \<Rightarrow> bool" where
  "layout position [] \<longleftrightarrow> True"
| "layout position (j # js) \<longleftrightarrow> djPosition j = position \<and> layout (position + djSize j) js"

lemma layout_jobs: "layout position (remoteLogJobs directory position start segments)"
  by (induction segments arbitrary: position start) (simp_all add: Let_def)

lemma layout_positions:
  "layout position js \<Longrightarrow> i < length js \<Longrightarrow> djPosition (js ! i) = position + sum_list (map djSize (take i js))"
proof (induction js arbitrary: position i)
  case (Cons j js)
  then show ?case by (cases i) auto
qed simp

lemma layout_ends:
  assumes "layout position js" "i < k" "k < length js"
  shows "djPosition (js ! i) + djSize (js ! i) \<le> djPosition (js ! k)"
proof -
  have "take k js = take i js @ drop i (take k js)" by (metis append_take_drop_id min.absorb1 assms(2) less_imp_le take_take)
  moreover have "drop i (take k js) = js ! i # drop (Suc i) (take k js)"
    using assms(2,3) by (metis Cons_nth_drop_Suc length_take min.absorb2 min.commute less_imp_le nth_take)
  ultimately have "map djSize (take k js) = map djSize (take i js) @ djSize (js ! i) # map djSize (drop (Suc i) (take k js))"
    by (metis list.simps(9) map_append)
  then have "sum_list (map djSize (take i js)) + djSize (js ! i) \<le> sum_list (map djSize (take k js))" by simp
  then show ?thesis using layout_positions [OF assms(1)] assms(2,3) by simp
qed

lemma layout_concat:
  assumes "layout position js" "length buffer = position + sum_list (map djSize js)"
  shows "drop position buffer = concat (map (\<lambda>j. sliceOf j buffer) js)"
  using assms
proof (induction js arbitrary: position)
  case (Cons j js)
  have "drop position buffer = take (djSize j) (drop position buffer) @ drop (position + djSize j) buffer"
    by (metis append_take_drop_id drop_drop add.commute)
  with Cons show ?case by (simp add: sliceOf_def add.assoc)
qed simp

lemma length_writeAt: "position + length data \<le> length buffer \<Longrightarrow> length (writeAt position data buffer) = length buffer"
  by (simp add: writeAt_def)

lemma sliceOf_writeAt_same:
  "djPosition j + djSize j \<le> length buffer \<Longrightarrow> length data = djSize j \<Longrightarrow> sliceOf j (writeAt (djPosition j) data buffer) = data"
  by (simp add: sliceOf_def writeAt_def)

lemma sliceOf_writeAt_other:
  assumes "djPosition j + djSize j \<le> djPosition k \<or> djPosition k + length data \<le> djPosition j" "djPosition k + length data \<le> length buffer"
  shows "sliceOf j (writeAt (djPosition k) data buffer) = sliceOf j buffer"
proof -
  have "writeAt (djPosition k) data buffer ! m = buffer ! m"
    if "djPosition j \<le> m" "m < djPosition j + djSize j" "m < length buffer" for m
    using assms that by (auto simp: writeAt_def nth_append)
  then show ?thesis
    using assms(2) by (intro nth_equalityI) (auto simp: sliceOf_def length_writeAt)
qed

section \<open>The scheduler\<close>

definition active_inv :: "remote_config \<Rightarrow> download_job list \<Rightarrow> download_state \<Rightarrow> bool" where
  "active_inv config jobs s \<longleftrightarrow> distinct (dsActive s) \<and> set (dsActive s) \<subseteq> {..<dsNext s} \<and> dsNext s \<le> length jobs
     \<and> int (length (dsActive s)) \<le> rmMaxConcurrentReads config
     \<and> dsActiveBytes s = sum_list (map (\<lambda>i. int (djSize (jobs ! i))) (dsActive s)) \<and> dsActiveBytes s \<le> rmMaxConcurrentBytes config"

definition buffer_inv :: "download_job list \<Rightarrow> (download_job \<Rightarrow> bytes \<Rightarrow> bool) \<Rightarrow> download_state \<Rightarrow> bool" where
  "buffer_inv jobs readable s \<longleftrightarrow> length (dsBuffer s) = sum_list (map djSize jobs)
     \<and> (dsFirstErr s = None \<longrightarrow> (\<forall>i < dsNext s. i \<notin> set (dsActive s) \<longrightarrow> readable (jobs ! i) (sliceOf (jobs ! i) (dsBuffer s))))"

definition download_phase_inv :: "download_job list \<Rightarrow> download_state \<Rightarrow> bool" where
  "download_phase_inv jobs s \<longleftrightarrow> (case dsPhase s of Starting \<Rightarrow> dsNext s < length jobs \<or> dsActive s \<noteq> []
     | Awaiting \<Rightarrow> dsActive s \<noteq> [] | Returned r \<Rightarrow> r = None \<longrightarrow> dsFirstErr s = None \<and> dsNext s = length jobs \<and> dsActive s = [])"

definition download_inv :: "remote_config \<Rightarrow> download_job list \<Rightarrow> (download_job \<Rightarrow> bytes \<Rightarrow> bool) \<Rightarrow> download_state \<Rightarrow> bool" where
  "download_inv config jobs readable s \<longleftrightarrow> active_inv config jobs s \<and> buffer_inv jobs readable s \<and> download_phase_inv jobs s"

lemma nextRound_sel [simp]:
  "dsNext (nextRound jobs s) = dsNext s" "dsActive (nextRound jobs s) = dsActive s" "dsActiveBytes (nextRound jobs s) = dsActiveBytes s"
  "dsFirstErr (nextRound jobs s) = dsFirstErr s" "dsContext (nextRound jobs s) = dsContext s" "dsBuffer (nextRound jobs s) = dsBuffer s"
  by (simp_all add: nextRound_def)

lemma setFirstErr_sel [simp]:
  "dsNext (setFirstErr e s) = dsNext s" "dsActive (setFirstErr e s) = dsActive s" "dsActiveBytes (setFirstErr e s) = dsActiveBytes s"
  "dsContext (setFirstErr e s) = dsContext s" "dsBuffer (setFirstErr e s) = dsBuffer s" "dsFirstErr (setFirstErr e s) \<noteq> None"
  by (auto simp: setFirstErr_def)

lemma nextRound_phase: "dsNext s \<le> length jobs \<Longrightarrow> download_phase_inv jobs (nextRound jobs s)"
  by (auto simp: download_phase_inv_def nextRound_def)

lemma removed_inv:
  assumes "active_inv config jobs s" "dsActive s = before @ i # after" "dsNext s' = dsNext s" "dsActive s' = before @ after"
    "dsActiveBytes s' = dsActiveBytes s - int (djSize (jobs ! i))"
  shows "active_inv config jobs s'"
  using assms by (auto simp: active_inv_def)

lemma written_inv:
  assumes lay: "layout 0 jobs" and inv: "active_inv config jobs s" "buffer_inv jobs readable s"
    and a: "dsActive s = before @ i # after" and d: "length data = djSize (jobs ! i)"
    and eq: "dsNext s' = dsNext s" "dsActive s' = before @ after" "dsBuffer s' = writeAt (djPosition (jobs ! i)) data (dsBuffer s)"
    and ok: "dsFirstErr s' = None \<Longrightarrow> dsFirstErr s = None \<and> readable (jobs ! i) data"
  shows "buffer_inv jobs readable s'"
proof -
  have len: "length (dsBuffer s) = sum_list (map djSize jobs)" using inv(2) by (simp add: buffer_inv_def)
  have i: "i < dsNext s" "dsNext s \<le> length jobs" "i \<notin> set before" "i \<notin> set after" using inv(1) a by (auto simp: active_inv_def)
  have fits: "djPosition (jobs ! k) + djSize (jobs ! k) \<le> length (dsBuffer s)" if "k < length jobs" for k
  proof -
    have "sum_list (map djSize jobs) = sum_list (map djSize (take k jobs)) + (djSize (jobs ! k) + sum_list (map djSize (drop (Suc k) jobs)))"
      by (metis append_take_drop_id id_take_nth_drop list.simps(9) map_append sum_list.Cons sum_list_append that)
    then show ?thesis using layout_positions [OF lay that] len by simp
  qed
  have "readable (jobs ! k) (sliceOf (jobs ! k) (dsBuffer s'))"
    if k: "dsFirstErr s' = None" "k < dsNext s" "k \<notin> set (before @ after)" for k
  proof (cases "k = i")
    case True
    then show ?thesis using ok [OF k(1)] sliceOf_writeAt_same [OF fits d] i unfolding eq(3) by simp
  next
    case False
    have "djPosition (jobs ! k) + djSize (jobs ! k) \<le> djPosition (jobs ! i) \<or> djPosition (jobs ! i) + length data \<le> djPosition (jobs ! k)"
      using layout_ends [OF lay, of k i] layout_ends [OF lay, of i k] False i k(2) d by (auto simp: nat_neq_iff)
    then have "sliceOf (jobs ! k) (dsBuffer s') = sliceOf (jobs ! k) (dsBuffer s)"
      unfolding eq(3) by (rule sliceOf_writeAt_other) (use fits [of i] i d in simp)
    moreover have "k \<notin> set (dsActive s)" using False k(3) a by simp
    ultimately show ?thesis using inv(2) ok [OF k(1)] k(2) by (simp add: buffer_inv_def)
  qed
  moreover have "length (dsBuffer s') = sum_list (map djSize jobs)"
    unfolding eq(3) using fits [of i] i d len by (simp add: length_writeAt)
  ultimately show ?thesis by (simp add: buffer_inv_def eq)
qed

lemma download_step_inv:
  assumes "download_step config jobs readable s s'" "download_inv config jobs readable s" "layout 0 jobs"
    and r: "\<And>j data. readable j data \<Longrightarrow> length data = djSize j"
  shows "download_inv config jobs readable s'"
proof -
  have inv: "active_inv config jobs s" "buffer_inv jobs readable s" "download_phase_inv jobs s"
    using assms(2) by (simp_all add: download_inv_def)
  have n: "dsNext s \<le> length jobs" using inv(1) by (simp add: active_inv_def)
  from assms(1) show ?thesis
  proof cases
    case start
    have "active_inv config jobs s'" using inv(1) start(3) by (auto simp: start(1) startJob_def active_inv_def canStart_def)
    moreover have "buffer_inv jobs readable s'" using inv(2) by (auto simp: start(1) startJob_def buffer_inv_def less_Suc_eq)
    moreover have "download_phase_inv jobs s'" using start(2) by (simp add: start(1) startJob_def download_phase_inv_def)
    ultimately show ?thesis by (simp add: download_inv_def)
  next
    case idle
    then show ?thesis using inv by (simp add: download_inv_def active_inv_def buffer_inv_def download_phase_inv_def)
  next
    case await
    then show ?thesis using inv by (simp add: download_inv_def active_inv_def buffer_inv_def download_phase_inv_def)
  next
    case (completed before i "after" data)
    have "active_inv config jobs s'" by (rule removed_inv [OF inv(1) completed(3)]) (simp_all add: completed(1))
    moreover have "buffer_inv jobs readable s'"
      by (rule written_inv [OF assms(3) inv(1,2) completed(3) r [OF completed(4)]]) (simp_all add: completed(1,4))
    ultimately show ?thesis using nextRound_phase n by (simp add: download_inv_def completed(1))
  next
    case (failed before i "after" data e)
    have "active_inv config jobs s'" by (rule removed_inv [OF inv(1) failed(3)]) (simp_all add: failed(1))
    moreover have "buffer_inv jobs readable s'"
      by (rule written_inv [OF assms(3) inv(1,2) failed(3,4)]) (simp_all add: failed(1))
    ultimately show ?thesis using nextRound_phase n by (simp add: download_inv_def failed(1))
  next
    case (cancelled e)
    have "active_inv config jobs s'" using inv(1) by (simp add: active_inv_def cancelled(1))
    moreover have "buffer_inv jobs readable s'" using inv(2) by (simp add: buffer_inv_def cancelled(1))
    ultimately show ?thesis using nextRound_phase n by (simp add: download_inv_def cancelled(1))
  qed
qed

lemma downloads_inv:
  assumes "(download_step config jobs readable)\<^sup>*\<^sup>* (newDownloads (length jobs) (sum_list (map djSize jobs))) s" "layout 0 jobs"
    and "\<And>j data. readable j data \<Longrightarrow> length data = djSize j" "1 \<le> rmMaxConcurrentReads config" "1 \<le> rmMaxConcurrentBytes config"
  shows "download_inv config jobs readable s"
  using assms(1)
proof induction
  case base
  show ?case using assms(4,5)
    by (simp add: newDownloads_def download_inv_def active_inv_def buffer_inv_def download_phase_inv_def)
next
  case (step s s')
  then show ?case by (blast intro: download_step_inv assms(2,3))
qed

section \<open>A read gives a range of its object\<close>

text \<open>What the storage promises: a whole object, or a stream that starts at the requested offset; either may be cut short.\<close>

definition servedFrom :: "bytes \<Rightarrow> remote_request \<Rightarrow> remote_answer \<Rightarrow> bool" where
  "servedFrom object request answer \<longleftrightarrow> (case answer of WholeObject (Inr data) \<Rightarrow> prefix data object
     | OpenedStream (Inr s) \<Rightarrow> prefix (stData s) (drop (nat (rqOffset request)) object) | _ \<Rightarrow> True)"

definition rangeOf :: "bytes \<Rightarrow> remote_request \<Rightarrow> nat \<Rightarrow> bytes" where
  "rangeOf object request n = take n (drop (nat (rqOffset request)) object)"

lemma stream_attempt_range:
  assumes "readRemoteFileStreamAttempt opened n = Inr data" "servedFrom object request (OpenedStream opened)"
  shows "data = rangeOf object request n \<and> length data = n"
  using assms
  by (auto simp: readRemoteFileStreamAttempt_def ReadFull_def servedFrom_def rangeOf_def prefix_def andThen_Inr_iff
      split: if_splits option.splits)

lemma legacy_attempt_range:
  assumes "readRemoteFileLegacyAttempt request whole n = Inr data" "servedFrom object request (WholeObject whole)" "0 \<le> rqOffset request"
  shows "data = rangeOf object request n \<and> length data = n"
proof -
  obtain obj where w: "whole = Inr obj" and fits: "rqOffset request + int n \<le> int (length obj)"
    and sl: "go_slice obj (rqOffset request) (rqOffset request + int n) = Inr data"
    using assms(1) by (auto simp: readRemoteFileLegacyAttempt_def andThen_Inr_iff split: if_splits)
  obtain rest where o': "object = obj @ rest" using assms(2) by (auto simp: w servedFrom_def prefix_def)
  have d: "data = take n (drop (nat (rqOffset request)) obj)"
    using sl fits assms(3) by (auto simp: go_slice_def nat_add_distrib drop_take split: if_splits)
  then show ?thesis using fits assms(3) by (simp add: rangeOf_def o')
qed

lemma readRetries_range:
  assumes "readRetries ec config request n answers ctxErr waitErr fuel attempt e = Inr data" "\<And>k. servedFrom object request (answers k)"
  shows "data = rangeOf object request n \<and> length data = n"
  using assms(1)
proof (induction fuel arbitrary: attempt e)
  case (Suc fuel)
  let ?r = "request\<lparr>rqMaxBytes := rmMaxFileBytes config\<rparr>"
  show ?case
  proof (cases "readRemoteFileAttempt ?r (answers attempt) n")
    case (Inl e')
    then show ?thesis using Suc by (auto split: option.splits if_splits)
  next
    case (Inr d)
    have s: "servedFrom object ?r (answers attempt)"
      using assms(2) [of attempt] by (auto simp: servedFrom_def split: remote_answer.splits sum.splits)
    have "d = rangeOf object ?r n \<and> length d = n"
    proof (cases "answers attempt")
      case (WholeObject w)
      then show ?thesis using Inr s legacy_attempt_range [of ?r w n d object]
        by (auto simp: readRemoteFileAttempt_def split: if_splits)
    next
      case (OpenedStream w)
      then show ?thesis using Inr s stream_attempt_range [of w n d object ?r]
        by (auto simp: readRemoteFileAttempt_def split: if_splits)
    qed
    then show ?thesis using Inr Suc.prems by (auto simp: rangeOf_def)
  qed
qed simp

text \<open>The reads of the jobs against a storage that holds \<open>objects\<close>.\<close>

definition readsFrom :: "error_classes \<Rightarrow> remote_config \<Rightarrow> (string \<Rightarrow> bytes) \<Rightarrow> download_job \<Rightarrow> bytes \<Rightarrow> bool" where
  "readsFrom ec config objects j data \<longleftrightarrow> (\<exists>answers ctxErr waitErr.
     (\<forall>k. servedFrom (objects (rqPath (djRequest j))) (djRequest j) (answers k))
     \<and> readRemoteFileIntoWithRetry ec config (djRequest j) (djSize j) answers ctxErr waitErr = Inr data)"

lemma readsFromI:
  assumes "\<And>k. servedFrom (objects (rqPath (djRequest j))) (djRequest j) (answers k)"
    and "readRemoteFileIntoWithRetry ec config (djRequest j) (djSize j) answers ctxErr waitErr = Inr data"
  shows "readsFrom ec config objects j data"
  unfolding readsFrom_def using assms by blast

lemma readsFrom_range:
  "readsFrom ec config objects j data \<Longrightarrow> data = rangeOf (objects (rqPath (djRequest j))) (djRequest j) (djSize j) \<and> length data = djSize j"
  unfolding readsFrom_def readRemoteFileIntoWithRetry_def using readRetries_range by blast

section \<open>The result of a remote log read\<close>

text \<open>The specification: the objects of the segments in offset order, the first one from the start position.\<close>

fun remoteLogBytes :: "(string \<Rightarrow> bytes) \<Rightarrow> string \<Rightarrow> int \<Rightarrow> remote_log_segment list \<Rightarrow> bytes" where
  "remoteLogBytes objects directory start [] = []"
| "remoteLogBytes objects directory start (segment # segments) =
     drop (nat start) (take (nat (rsSizeBytes segment)) (objects (remoteLogSegmentPath directory segment)))
     @ remoteLogBytes objects directory 0 segments"

definition jobRange :: "(string \<Rightarrow> bytes) \<Rightarrow> download_job \<Rightarrow> bytes" where
  "jobRange objects j = rangeOf (objects (rqPath (djRequest j))) (djRequest j) (djSize j)"

lemma jobs_bytes:
  assumes "planSegments config start previousEnd out segments = Inr t" "0 \<le> start"
  shows "concat (map (jobRange objects) (remoteLogJobs directory position start segments)) = remoteLogBytes objects directory start segments
    \<and> int (sum_list (map djSize (remoteLogJobs directory position start segments))) = t - out"
  using assms
proof (induction segments arbitrary: start previousEnd out position)
  case (Cons s segments)
  then have "\<not> start > rsSizeBytes s" and rest: "planSegments config 0 (rsEndOffset s) (out + (rsSizeBytes s - start)) segments = Inr t"
    by auto
  then show ?case using Cons.IH [OF rest, of "position + nat (rsSizeBytes s - start)"] Cons.prems(2)
    by (simp add: Let_def jobRange_def rangeOf_def drop_take nat_diff_distrib')
qed simp

lemma remoteLogPlan_ok:
  assumes "remoteLogPlan settings info = Inr (config, jobs, outputBytes)"
  defines "segments \<equiv> sort_key rsStartOffset (riSegments info)"
  shows "normalized settings = Inr config" "0 \<le> riFirstStartPosition info"
    "planSegments config (riFirstStartPosition info) (-1) 0 segments = Inr outputBytes"
    "jobs = remoteLogJobs (riTabletDirectory info) 0 (riFirstStartPosition info) segments"
  using assms(1) by (auto simp: remoteLogPlan_def planRemoteLogSegments_def Let_def segments_def split: if_splits)

lemma normalized_limits:
  "normalized settings = Inr config \<Longrightarrow> 1 \<le> rmMaxConcurrentReads config \<and> 1 \<le> rmMaxConcurrentBytes config \<and> 1 \<le> rmMaxTotalBytes config"
  by (auto simp: normalized_def Let_def)

lemma planned_downloads_inv:
  assumes p: "remoteLogPlan settings info = Inr (config, jobs, outputBytes)"
    and r: "(download_step config jobs (readsFrom ec config objects))\<^sup>*\<^sup>* (newDownloads (length jobs) (nat outputBytes)) s"
  shows "download_inv config jobs (readsFrom ec config objects) s" "int (length (dsBuffer s)) = outputBytes"
    "layout 0 jobs" "length (dsBuffer s) = sum_list (map djSize jobs)"
proof -
  note ok = remoteLogPlan_ok [OF p]
  have sz: "int (sum_list (map djSize jobs)) = outputBytes" using jobs_bytes [OF ok(3,2)] ok(4) by simp
  show lay: "layout 0 jobs" using layout_jobs ok(4) by simp
  have r': "(download_step config jobs (readsFrom ec config objects))\<^sup>*\<^sup>* (newDownloads (length jobs) (sum_list (map djSize jobs))) s"
    using r sz by (metis nat_int)
  show inv: "download_inv config jobs (readsFrom ec config objects) s"
    by (rule downloads_inv [OF r' lay]) (use readsFrom_range normalized_limits [OF ok(1)] in blast)+
  then show "length (dsBuffer s) = sum_list (map djSize jobs)" by (simp add: download_inv_def buffer_inv_def)
  with sz show "int (length (dsBuffer s)) = outputBytes" by simp
qed

text \<open>
  C17. A remote log read that succeeds returns exactly the bytes of its segments in offset order, the first segment from the start
  position: whatever the order in which the concurrent downloads complete, whichever attempts are needed, and whether the storage
  returns whole objects or streams, cut short or not. The segments are back to back and the result has the planned size, within the
  limit.
\<close>

theorem remote_log_exact:
  assumes plan: "remoteLogPlan settings info = Inr (config, jobs, outputBytes)"
    and run: "(download_step config jobs (readsFrom ec config objects))\<^sup>*\<^sup>* (newDownloads (length jobs) (nat outputBytes)) s"
    and ok: "dsPhase s = Returned None"
  shows "dsBuffer s = remoteLogBytes objects (riTabletDirectory info) (riFirstStartPosition info) (sort_key rsStartOffset (riSegments info))
    \<and> contiguous (-1) (sort_key rsStartOffset (riSegments info))
    \<and> int (length (dsBuffer s)) = outputBytes \<and> outputBytes \<le> rmMaxTotalBytes config"
proof -
  note plan_ok = remoteLogPlan_ok [OF plan] and inv = planned_downloads_inv [OF plan run]
  have all: "readsFrom ec config objects (jobs ! i) (sliceOf (jobs ! i) (dsBuffer s))" if "i < length jobs" for i
    using inv(1) ok that by (simp add: download_inv_def buffer_inv_def download_phase_inv_def)
  have "sliceOf j (dsBuffer s) = jobRange objects j" if "j \<in> set jobs" for j
    using all that readsFrom_range by (metis in_set_conv_nth jobRange_def)
  then have "map (\<lambda>j. sliceOf j (dsBuffer s)) jobs = map (jobRange objects) jobs" by simp
  moreover have "dsBuffer s = concat (map (\<lambda>j. sliceOf j (dsBuffer s)) jobs)"
    using layout_concat [OF inv(3), of "dsBuffer s"] inv(4) by simp
  ultimately have "dsBuffer s = concat (map (jobRange objects) jobs)" by (simp only:)
  also have "\<dots> = remoteLogBytes objects (riTabletDirectory info) (riFirstStartPosition info) (sort_key rsStartOffset (riSegments info))"
    using jobs_bytes [OF plan_ok(3,2)] plan_ok(4) by simp
  finally show ?thesis
    using planSegments_ok [OF plan_ok(3,2)] normalized_limits [OF plan_ok(1)] inv(2) by simp
qed

section \<open>The downloads end\<close>

text \<open>Each step starts a job, ends one, uses up the cancellation, or moves to the next phase.\<close>

definition remaining :: "download_job list \<Rightarrow> download_state \<Rightarrow> nat" where
  "remaining jobs s = 4 * (length jobs - dsNext s) + 2 * length (dsActive s) + (if dsContext s then 2 else 0)
     + (case dsPhase s of Starting \<Rightarrow> 2 | Awaiting \<Rightarrow> 1 | Returned _ \<Rightarrow> 0)"

lemma remaining_nextRound: "remaining jobs (nextRound jobs s) \<le> 4 * (length jobs - dsNext s) + 2 * length (dsActive s) + (if dsContext s then 2 else 0) + 2"
  by (simp add: remaining_def nextRound_def)

lemma download_step_remaining: "download_step config jobs readable s s' \<Longrightarrow> remaining jobs s' < remaining jobs s"
proof (induction rule: download_step.induct)
  case (start s)
  then have "length jobs - dsNext s = Suc (length jobs - Suc (dsNext s))" by (auto simp: canStart_def)
  with start show ?case by (simp add: remaining_def startJob_def)
next
  case (completed s before i "after" data)
  then show ?case by (intro le_less_trans [OF remaining_nextRound]) (simp add: remaining_def)
next
  case (failed s before i "after" data e)
  then show ?case by (intro le_less_trans [OF remaining_nextRound]) (simp add: remaining_def)
next
  case (cancelled s e)
  then show ?case by (intro le_less_trans [OF remaining_nextRound]) (simp add: remaining_def)
qed (simp_all add: remaining_def)

lemma download_progress:
  assumes "download_phase_inv jobs s" "\<forall>r. dsPhase s \<noteq> Returned r"
  shows "\<exists>s'. download_step config jobs readable s s'"
proof (cases "dsPhase s")
  case Starting
  then show ?thesis by (metis download_step.start download_step.idle download_step.await)
next
  case Awaiting
  then obtain i rest where "dsActive s = [] @ i # rest" using assms(1) by (auto simp: download_phase_inv_def neq_Nil_conv)
  from download_step.failed [OF Awaiting this, of "replicate (djSize (jobs ! i)) 0"] show ?thesis by fastforce
qed (use assms in simp)

text \<open>
  C26. The downloads come to an end: each step of the scheduler and of the workers makes a bounded measure smaller, and before the
  call has returned some step is possible. All the while no more reads run, and no more bytes are in flight, than the settings
  allow, and the bytes in flight are those of the running reads.
\<close>

theorem remote_downloads_end:
  assumes plan: "remoteLogPlan settings info = Inr (config, jobs, outputBytes)"
    and run: "(download_step config jobs (readsFrom ec config objects))\<^sup>*\<^sup>* (newDownloads (length jobs) (nat outputBytes)) s"
  shows "(\<forall>s'. download_step config jobs (readsFrom ec config objects) s s' \<longrightarrow> remaining jobs s' < remaining jobs s)
    \<and> ((\<forall>r. dsPhase s \<noteq> Returned r) \<longrightarrow> (\<exists>s'. download_step config jobs (readsFrom ec config objects) s s'))
    \<and> int (length (dsActive s)) \<le> rmMaxConcurrentReads config \<and> dsActiveBytes s \<le> rmMaxConcurrentBytes config
    \<and> dsActiveBytes s = sum_list (map (\<lambda>i. int (djSize (jobs ! i))) (dsActive s))"
  using planned_downloads_inv(1) [OF plan run] download_step_remaining download_progress
  by (auto simp: download_inv_def active_inv_def)

section \<open>A concrete read\<close>

definition exampleLog :: remote_log_info where
  "exampleLog = \<lparr>riTabletDirectory = ''d/'', riPartitionName = [], riFirstStartPosition = 1,
     riSegments = [\<lparr>rsID = ''b'', rsStartOffset = 5, rsEndOffset = 7, rsSizeBytes = 2\<rparr>,
       \<lparr>rsID = ''a'', rsStartOffset = 0, rsEndOffset = 5, rsSizeBytes = 3\<rparr>]\<rparr>"

definition exampleSettings :: remote_config where
  "exampleSettings = \<lparr>rmMaxAttempts = 0, rmRetryBackoff = 0, rmMaxFileBytes = 0, rmMaxTotalBytes = 0, rmMaxFiles = 0,
     rmMaxConcurrentReads = 0, rmMaxConcurrentBytes = 0\<rparr>"

definition exampleObjects :: "string \<Rightarrow> bytes" where
  "exampleObjects path = (if path = ''d/a/00000000000000000000.log'' then [1, 2, 3] else [4, 5])"

definition exampleConfig :: remote_config where
  "exampleConfig = \<lparr>rmMaxAttempts = 3, rmRetryBackoff = 50 * millisecond, rmMaxFileBytes = defaultRemoteMaxFileBytes,
     rmMaxTotalBytes = 536870912, rmMaxFiles = 4096, rmMaxConcurrentReads = 4, rmMaxConcurrentBytes = defaultRemoteMaxFileBytes\<rparr>"

definition exampleJobs :: "download_job list" where
  "exampleJobs =
     [\<lparr>djPosition = 0, djSize = 2, djRequest = \<lparr>rqPath = ''d/a/00000000000000000000.log'', rqExpectedSize = 3, rqMaxBytes = 0,
         rqOffset = 1, rqLength = 2\<rparr>\<rparr>,
      \<lparr>djPosition = 2, djSize = 2, djRequest = \<lparr>rqPath = ''d/b/00000000000000000005.log'', rqExpectedSize = 2, rqMaxBytes = 0,
         rqOffset = 0, rqLength = 2\<rparr>\<rparr>]"

definition exampleClasses :: error_classes where
  "exampleClasses = \<lparr>ecNotExist = (\<lambda>_. False), ecPermission = (\<lambda>_. False), ecTemporary = (\<lambda>_. None), ecTimeout = (\<lambda>_. False)\<rparr>"

lemma example_plan: "remoteLogPlan exampleSettings exampleLog = Inr (exampleConfig, exampleJobs, 4)"
  by code_simp

text \<open>The second object comes whole; the stream of the first is cut short once.\<close>

lemma example_reads:
  "readsFrom exampleClasses exampleConfig exampleObjects (exampleJobs ! 0) [2, 3]"
  "readsFrom exampleClasses exampleConfig exampleObjects (exampleJobs ! 1) [4, 5]"
proof -
  let ?answers = "\<lambda>k::int. OpenedStream (Inr \<lparr>stData = (if k = 1 then [2] else [2, 3]), stEndErr = None, stCloseErr = None\<rparr>)"
  have "servedFrom (exampleObjects (rqPath (djRequest (exampleJobs ! 0)))) (djRequest (exampleJobs ! 0)) (?answers k)" for k
    by (simp add: servedFrom_def exampleObjects_def exampleJobs_def)
  moreover have "readRemoteFileIntoWithRetry exampleClasses exampleConfig (djRequest (exampleJobs ! 0)) (djSize (exampleJobs ! 0))
    ?answers (\<lambda>_. None) (\<lambda>_. None) = Inr [2, 3]" by code_simp
  ultimately show "readsFrom exampleClasses exampleConfig exampleObjects (exampleJobs ! 0) [2, 3]" by (rule readsFromI)
  have "servedFrom (exampleObjects (rqPath (djRequest (exampleJobs ! 1)))) (djRequest (exampleJobs ! 1)) (WholeObject (Inr [4, 5]))"
    by (simp add: servedFrom_def exampleObjects_def exampleJobs_def)
  moreover have "readRemoteFileIntoWithRetry exampleClasses exampleConfig (djRequest (exampleJobs ! 1)) (djSize (exampleJobs ! 1))
    (\<lambda>_. WholeObject (Inr [4, 5])) (\<lambda>_. None) (\<lambda>_. None) = Inr [4, 5]" by code_simp
  ultimately show "readsFrom exampleClasses exampleConfig exampleObjects (exampleJobs ! 1) [4, 5]" by (rule readsFromI)
qed

definition exampleState :: "nat \<Rightarrow> nat list \<Rightarrow> bytes \<Rightarrow> download_phase \<Rightarrow> download_state" where
  "exampleState k started buffer phase = \<lparr>dsNext = k, dsActive = started, dsActiveBytes = 2 * int (length started), dsFirstErr = None,
     dsContext = True, dsBuffer = buffer, dsPhase = phase\<rparr>"

lemmas example_defs = exampleState_def newDownloads_def exampleJobs_def canStart_def startJob_def nextRound_def writeAt_def
  exampleConfig_def defaultRemoteMaxFileBytes_def

abbreviation "exampleStep \<equiv> download_step exampleConfig exampleJobs (readsFrom exampleClasses exampleConfig exampleObjects)"

lemma example_start:
  "exampleStep\<^sup>*\<^sup>* (newDownloads (length exampleJobs) (nat 4)) (exampleState 2 [0, 1] [0, 0, 0, 0] Awaiting)"
proof -
  have "exampleStep (newDownloads (length exampleJobs) (nat 4)) (startJob exampleJobs (newDownloads (length exampleJobs) (nat 4)))"
    by (rule download_step.start) (simp_all add: example_defs)
  also have "startJob exampleJobs (newDownloads (length exampleJobs) (nat 4)) = exampleState 1 [0] [0, 0, 0, 0] Starting"
    by (simp add: example_defs numeral_eq_Suc)
  finally have 1: "exampleStep (newDownloads (length exampleJobs) (nat 4)) (exampleState 1 [0] [0, 0, 0, 0] Starting)" .
  have "exampleStep (exampleState 1 [0] [0, 0, 0, 0] Starting) (startJob exampleJobs (exampleState 1 [0] [0, 0, 0, 0] Starting))"
    by (rule download_step.start) (simp_all add: example_defs)
  also have "startJob exampleJobs (exampleState 1 [0] [0, 0, 0, 0] Starting) = exampleState 2 [0, 1] [0, 0, 0, 0] Starting"
    by (simp add: example_defs)
  finally have 2: "exampleStep (exampleState 1 [0] [0, 0, 0, 0] Starting) (exampleState 2 [0, 1] [0, 0, 0, 0] Starting)" .
  have "exampleStep (exampleState 2 [0, 1] [0, 0, 0, 0] Starting) (exampleState 2 [0, 1] [0, 0, 0, 0] Starting\<lparr>dsPhase := Awaiting\<rparr>)"
    by (rule download_step.await) (simp_all add: example_defs)
  then have 3: "exampleStep (exampleState 2 [0, 1] [0, 0, 0, 0] Starting) (exampleState 2 [0, 1] [0, 0, 0, 0] Awaiting)"
    by (simp add: exampleState_def)
  from 1 2 3 show ?thesis by (meson converse_rtranclp_into_rtranclp rtranclp.rtrancl_refl)
qed

lemma example_end:
  "exampleStep\<^sup>*\<^sup>* (exampleState 2 [0, 1] [0, 0, 0, 0] Awaiting) (exampleState 2 [] [2, 3, 4, 5] (Returned None))"
proof -
  have "exampleStep (exampleState 2 [0, 1] [0, 0, 0, 0] Awaiting) (exampleState 2 [0] [0, 0, 4, 5] Starting)"
    using download_step.completed [where s = "exampleState 2 [0, 1] [0, 0, 0, 0] Awaiting" and before = "[0]" and ?after = "[]"
      and jobs = exampleJobs and readable = "readsFrom exampleClasses exampleConfig exampleObjects" and config = exampleConfig, OF _ _ example_reads(2)]
    by (simp add: example_defs)
  moreover have "exampleStep (exampleState 2 [0] [0, 0, 4, 5] Starting) (exampleState 2 [0] [0, 0, 4, 5] Awaiting)"
    using download_step.await [of "exampleState 2 [0] [0, 0, 4, 5] Starting" exampleConfig exampleJobs]
    by (simp add: example_defs)
  moreover have "exampleStep (exampleState 2 [0] [0, 0, 4, 5] Awaiting) (exampleState 2 [] [2, 3, 4, 5] (Returned None))"
    using download_step.completed [where s = "exampleState 2 [0] [0, 0, 4, 5] Awaiting" and before = "[]" and ?after = "[]"
      and jobs = exampleJobs and readable = "readsFrom exampleClasses exampleConfig exampleObjects" and config = exampleConfig, OF _ _ example_reads(1)]
    by (simp add: example_defs)
  ultimately show ?thesis by (meson converse_rtranclp_into_rtranclp rtranclp.rtrancl_refl)
qed

theorem remote_log_exact_witness:
  "remoteLogPlan exampleSettings exampleLog = Inr (exampleConfig, exampleJobs, 4)
   \<and> exampleStep\<^sup>*\<^sup>* (newDownloads (length exampleJobs) (nat 4)) (exampleState 2 [] [2, 3, 4, 5] (Returned None))
   \<and> remoteLogBytes exampleObjects ''d/'' 1 (sort_key rsStartOffset (riSegments exampleLog)) = [2, 3, 4, 5]"
proof -
  have run: "exampleStep\<^sup>*\<^sup>* (newDownloads (length exampleJobs) (nat 4)) (exampleState 2 [] [2, 3, 4, 5] (Returned None))"
    using example_start example_end by (rule rtranclp_trans)
  moreover have "dsPhase (exampleState 2 [] [2, 3, 4, 5] (Returned None)) = Returned None" by (simp add: exampleState_def)
  from remote_log_exact [OF example_plan run this]
  have "remoteLogBytes exampleObjects ''d/'' 1 (sort_key rsStartOffset (riSegments exampleLog)) = [2, 3, 4, 5]"
    by (simp add: exampleState_def exampleLog_def)
  ultimately show ?thesis using example_plan by blast
qed

theorem remote_downloads_end_witness:
  "remoteLogPlan exampleSettings exampleLog = Inr (exampleConfig, exampleJobs, 4)
   \<and> exampleStep\<^sup>*\<^sup>* (newDownloads (length exampleJobs) (nat 4)) (exampleState 2 [0, 1] [0, 0, 0, 0] Awaiting)
   \<and> (\<exists>s'. exampleStep (exampleState 2 [0, 1] [0, 0, 0, 0] Awaiting) s')"
proof -
  have "\<forall>r. dsPhase (exampleState 2 [0, 1] [0, 0, 0, 0] Awaiting) \<noteq> Returned r" by (simp add: exampleState_def)
  then show ?thesis using example_plan example_start remote_downloads_end [OF example_plan example_start] by blast
qed

end
