(* ===== verification/Float_Bits.thy ===== *)
theory Float_Bits
  imports Backpressure
begin

text \<open>
  IEEE 754 numbers by their bits, as far as the client converts them: \<^verbatim>\<open>float64(n)\<close> of an integer that is exact,
  \<^verbatim>\<open>float64(f)\<close> of a \<^verbatim>\<open>float32\<close> and \<^verbatim>\<open>float32(f)\<close> of a \<^verbatim>\<open>float64\<close>, rounded to the nearest, ties to even.
\<close>

section \<open>Conversions\<close>

definition sign64 :: "64 word \<Rightarrow> nat" where "sign64 w = unat w div 2 ^ 63"
definition exp64 :: "64 word \<Rightarrow> nat" where "exp64 w = unat w div 2 ^ 52 mod 2 ^ 11"
definition man64 :: "64 word \<Rightarrow> nat" where "man64 w = unat w mod 2 ^ 52"
definition bits64 :: "nat \<Rightarrow> nat \<Rightarrow> nat \<Rightarrow> 64 word" where "bits64 s e m = word_of_nat (s * 2 ^ 63 + e * 2 ^ 52 + m)"

definition sign32 :: "32 word \<Rightarrow> nat" where "sign32 w = unat w div 2 ^ 31"
definition exp32 :: "32 word \<Rightarrow> nat" where "exp32 w = unat w div 2 ^ 23 mod 2 ^ 8"
definition man32 :: "32 word \<Rightarrow> nat" where "man32 w = unat w mod 2 ^ 23"

definition floatOfInt :: "int \<Rightarrow> 64 word" where
  "floatOfInt n =
     (if n = 0 then 0
      else let N = nat \<bar>n\<bar>; b = bitLen N - 1 in bits64 (if n < 0 then 1 else 0) (b + 1023) ((N - 2 ^ b) * 2 ^ (52 - b)))"

definition floatWiden :: "32 word \<Rightarrow> 64 word" where
  "floatWiden w =
     (let s = sign32 w; e = exp32 w; m = man32 w in
      if e = 255 then bits64 s 2047 (if m = 0 then 0 else 2 ^ 51 + m * 2 ^ 29 mod 2 ^ 51)
      else if e = 0 then
        (if m = 0 then bits64 s 0 0
         else let b = bitLen m - 1 in bits64 s (b + 874) ((m - 2 ^ b) * 2 ^ (52 - b)))
      else bits64 s (e + 896) (m * 2 ^ 29))"

definition roundHalfEven :: "nat \<Rightarrow> nat \<Rightarrow> nat" where
  "roundHalfEven n k =
     (let q = n div 2 ^ k; r = n mod 2 ^ k in
      if 2 * r > 2 ^ k \<or> (2 * r = 2 ^ k \<and> odd q) then Suc q else q)"

text \<open>A normal number is \<open>(2^52 + m) * 2^(e - 1075)\<close>; the result is a multiple of \<open>2^(e - 1046)\<close>, and of \<open>2^-149\<close> at the
  least. Below the normal \<^verbatim>\<open>float64\<close> numbers everything rounds to zero.\<close>

definition floatNarrow :: "64 word \<Rightarrow> 32 word" where
  "floatNarrow w =
     (let s = sign64 w; e = exp64 w; m = man64 w in
      word_of_nat (s * 2 ^ 31 +
        (if e = 2047 then 255 * 2 ^ 23 + (if m = 0 then 0 else 2 ^ 22 + m div 2 ^ 29 mod 2 ^ 22)
         else if e = 0 then 0
         else let q = max e 897 - 897 in
           min (255 * 2 ^ 23) (q * 2 ^ 23 + roundHalfEven (2 ^ 52 + m) (29 + (897 - e))))))"

definition IsNaN :: "64 word \<Rightarrow> bool" where "IsNaN w \<longleftrightarrow> exp64 w = 2047 \<and> man64 w \<noteq> 0"
definition IsInf :: "64 word \<Rightarrow> bool" where "IsInf w \<longleftrightarrow> exp64 w = 2047 \<and> man64 w = 0"

section \<open>Values\<close>

datatype float_value = NotANumber | Infinite bool | Finite rat

definition signed :: "nat \<Rightarrow> rat \<Rightarrow> rat" where "signed s x = (if s = 0 then x else - x)"

definition scaled64 :: "nat \<Rightarrow> nat \<Rightarrow> rat" where "scaled64 m e = of_nat m * 2 ^ e / 2 ^ 1075"
definition scaled32 :: "nat \<Rightarrow> nat \<Rightarrow> rat" where "scaled32 m e = of_nat m * 2 ^ e / 2 ^ 150"

definition value64 :: "64 word \<Rightarrow> float_value" where
  "value64 w =
     (if exp64 w = 2047 then if man64 w = 0 then Infinite (sign64 w = 1) else NotANumber
      else Finite (signed (sign64 w) (if exp64 w = 0 then scaled64 (man64 w) 1 else scaled64 (2 ^ 52 + man64 w) (exp64 w))))"

definition value32 :: "32 word \<Rightarrow> float_value" where
  "value32 w =
     (if exp32 w = 255 then if man32 w = 0 then Infinite (sign32 w = 1) else NotANumber
      else Finite (signed (sign32 w) (if exp32 w = 0 then scaled32 (man32 w) 1 else scaled32 (2 ^ 23 + man32 w) (exp32 w))))"

lemma scaled_eq: "k + e = f + 925 \<Longrightarrow> scaled64 (m * 2 ^ k) e = scaled32 m f"
proof -
  assume "k + e = f + 925"
  then have "(2 :: rat) ^ k * 2 ^ e = 2 ^ f * 2 ^ 925" by (simp only: power_add [symmetric])
  then have "scaled64 (m * 2 ^ k) e = of_nat m * (2 ^ f * 2 ^ 925) / 2 ^ 1075"
    by (simp only: scaled64_def of_nat_mult of_nat_power of_nat_numeral mult.assoc)
  then show ?thesis by (simp add: scaled32_def)
qed

lemma unat_word_of_nat: "n < 2 ^ LENGTH('a) \<Longrightarrow> unat (word_of_nat n :: 'a :: len word) = n"
  by (simp add: unsigned_of_nat take_bit_nat_eq_self)

lemma bits64_parts:
  assumes "s < 2" "e < 2 ^ 11" "m < 2 ^ 52"
  shows "sign64 (bits64 s e m) = s" "exp64 (bits64 s e m) = e" "man64 (bits64 s e m) = m"
proof -
  let ?n = "s * 2 ^ 63 + e * 2 ^ 52 + m"
  have "?n < 2 ^ LENGTH(64)" using assms by (auto simp: less_2_cases_iff)
  then have u: "unat (bits64 s e m) = ?n" unfolding bits64_def by (simp only: unat_word_of_nat len_bit0 len_num1)
  have low: "e * 2 ^ 52 + m < 2 ^ 63" using assms by simp
  show "sign64 (bits64 s e m) = s" unfolding sign64_def u using low by (simp add: add.assoc)
  show "man64 (bits64 s e m) = m"
    unfolding man64_def u using assms(3) mod_mult_self3 [of "s * 2 ^ 11 + e" "2 ^ 52" m] by (simp add: algebra_simps)
  have "?n div 2 ^ 52 = s * 2 ^ 11 + e" using assms by simp
  then show "exp64 (bits64 s e m) = e" unfolding exp64_def u using assms by simp
qed

lemma parts32:
  fixes n :: nat
  assumes "s < 2" "n < 2 ^ 31"
  shows "sign32 (word_of_nat (s * 2 ^ 31 + n)) = s" "exp32 (word_of_nat (s * 2 ^ 31 + n)) = n div 2 ^ 23"
    "man32 (word_of_nat (s * 2 ^ 31 + n)) = n mod 2 ^ 23"
proof -
  have "s * 2 ^ 31 + n < 2 ^ 32" using assms by (simp add: less_2_cases_iff) linarith
  then have u: "unat (word_of_nat (s * 2 ^ 31 + n) :: 32 word) = s * 2 ^ 31 + n" by (intro unat_word_of_nat) simp
  show "sign32 (word_of_nat (s * 2 ^ 31 + n)) = s" unfolding sign32_def u using assms by simp
  have "(s * 2 ^ 31 + n) div 2 ^ 23 = s * 2 ^ 8 + n div 2 ^ 23" by simp
  moreover have "n div 2 ^ 23 < 2 ^ 8" using assms by (simp add: div_less_iff_less_mult)
  ultimately show "exp32 (word_of_nat (s * 2 ^ 31 + n)) = n div 2 ^ 23" unfolding exp32_def u by simp
  show "man32 (word_of_nat (s * 2 ^ 31 + n)) = n mod 2 ^ 23" unfolding man32_def u
    using mod_mult_self3 [of "s * 2 ^ 8" "2 ^ 23" n] by (simp add: mult.commute)
qed

lemma bits32_small: "exp32 w < 2 ^ 8" "man32 w < 2 ^ 23" "sign32 w < 2"
  using unsigned_less [of w] by (simp_all add: exp32_def man32_def sign32_def div_less_iff_less_mult)

lemma leading_bit:
  assumes "0 < m" "bitLen m - 1 = b"
  shows "2 ^ b \<le> m" "m < 2 * 2 ^ b"
proof -
  show "2 ^ b \<le> m" using bitLen_lower assms by blast
  have "bitLen m \<noteq> 0" using assms(1) bitLen.simps [of m] by simp
  then have "bitLen m = Suc b" using assms(2) by simp
  then show "m < 2 * 2 ^ b" using bitLen_bound [of m] by simp
qed

text \<open>A mantissa moved up to 53 bits.\<close>

lemma moved_up:
  fixes m b :: nat
  assumes "2 ^ b \<le> m" "m < 2 * 2 ^ b" "b \<le> 52"
  shows "2 ^ 52 + (m - 2 ^ b) * 2 ^ (52 - b) = m * 2 ^ (52 - b)" "(m - 2 ^ b) * 2 ^ (52 - b) < 2 ^ 52"
proof -
  have p: "(2 :: nat) ^ b * 2 ^ (52 - b) = 2 ^ 52" using assms(3) by (simp flip: power_add)
  show *: "2 ^ 52 + (m - 2 ^ b) * 2 ^ (52 - b) = m * 2 ^ (52 - b)"
    using assms(1) by (simp only: diff_mult_distrib p [symmetric]) simp
  have "m * 2 ^ (52 - b) < 2 * 2 ^ b * 2 ^ (52 - b)" using assms(2) by simp
  then show "(m - 2 ^ b) * 2 ^ (52 - b) < 2 ^ 52" using * p by (simp only: mult.assoc)
qed

section \<open>Exact conversions\<close>

text \<open>A narrowed number has the same value when it is a multiple of the unit of the result.\<close>

lemma narrow_exact:
  assumes e: "0 < exp64 w" "exp64 w \<le> 1150" and d: "2 ^ (29 + (897 - exp64 w)) dvd 2 ^ 52 + man64 w"
  shows "value32 (floatNarrow w) = value64 w"
proof -
  let ?e = "exp64 w" and ?k = "29 + (897 - exp64 w)" and ?q = "max (exp64 w) 897 - 897"
  define R where "R = (2 ^ 52 + man64 w) div 2 ^ ?k"
  have M: "2 ^ 52 + man64 w = R * 2 ^ ?k" using d by (simp add: R_def)
  have m: "man64 w < 2 ^ 52" "sign64 w < 2"
    using unsigned_less [of w] by (simp_all add: man64_def sign64_def div_less_iff_less_mult)
  have "R * 2 ^ 29 \<le> R * 2 ^ ?k" by (intro mult_le_mono2 power_increasing) simp_all
  also have "\<dots> < 2 ^ 53" using m unfolding M [symmetric] by simp
  finally have R: "R < 2 ^ 24" by simp
  have r: "roundHalfEven (2 ^ 52 + man64 w) ?k = R" using d by (simp add: roundHalfEven_def Let_def R_def)
  have small: "?q * 2 ^ 23 + R < 255 * 2 ^ 23"
  proof (cases "?e \<le> 897")
    case False
    then show ?thesis using R e by simp
  qed (use R in simp)
  have nw: "floatNarrow w = word_of_nat (sign64 w * 2 ^ 31 + (?q * 2 ^ 23 + R))"
    using e small by (simp only: floatNarrow_def Let_def r) simp
  note p = parts32 [OF m(2), of "?q * 2 ^ 23 + R", folded nw]
  show ?thesis
  proof (cases "?e \<le> 897")
    case True
    then have v: "scaled64 (2 ^ 52 + man64 w) ?e = scaled32 R 1" unfolding M by (intro scaled_eq) simp
    note v = v [simplified]
    have x: "exp32 (floatNarrow w) = R div 2 ^ 23" "man32 (floatNarrow w) = R mod 2 ^ 23" "sign32 (floatNarrow w) = sign64 w"
      using p True R by simp_all
    show ?thesis
    proof (cases "R < 2 ^ 23")
      case True
      then show ?thesis using e x by (simp add: value32_def value64_def v)
    next
      case False
      then have "R div 2 ^ 23 = 1" "R mod 2 ^ 23 = R - 2 ^ 23"
        using R by (auto simp: div_nat_eqI mod_nat_eqI)
      then have "R div 2 ^ 23 = 1" "2 ^ 23 + R mod 2 ^ 23 = R" using False by simp_all
      then show ?thesis using e x by (simp add: value32_def value64_def v)
    qed
  next
    case False
    then have v: "scaled64 (2 ^ 52 + man64 w) ?e = scaled32 R (?e - 896)" unfolding M by (intro scaled_eq) simp
    have "2 ^ 23 \<le> R" using False by (simp add: R_def)
    then have x: "(?q * 2 ^ 23 + R) div 2 ^ 23 = ?e - 896" "(?q * 2 ^ 23 + R) mod 2 ^ 23 = R - 2 ^ 23"
      using R False by (auto simp: div_nat_eqI mod_nat_eqI)
    then have "exp32 (floatNarrow w) = ?e - 896" "man32 (floatNarrow w) = R - 2 ^ 23" "sign32 (floatNarrow w) = sign64 w"
      using p small by simp_all
    moreover have "2 ^ 23 + (R - 2 ^ 23) = R" using \<open>2 ^ 23 \<le> R\<close> by simp
    ultimately show ?thesis using e False by (simp add: value32_def value64_def v [simplified])
  qed
qed

lemma widen_cases:
  obtains (special) "exp32 w = 255" "exp64 (floatWiden w) = 2047" "man64 (floatWiden w) = 0 \<longleftrightarrow> man32 w = 0" "sign64 (floatWiden w) = sign32 w"
  | (zero) "exp32 w = 0" "man32 w = 0" "exp64 (floatWiden w) = 0" "man64 (floatWiden w) = 0"
      "sign64 (floatWiden w) = sign32 w"
  | (subnormal) b where "exp32 w = 0" "man32 w \<noteq> 0" "b < 23" "exp64 (floatWiden w) = b + 874"
      "2 ^ 52 + man64 (floatWiden w) = man32 w * 2 ^ (52 - b)" "sign64 (floatWiden w) = sign32 w"
  | (normal) "0 < exp32 w" "exp32 w < 255" "exp64 (floatWiden w) = exp32 w + 896"
      "2 ^ 52 + man64 (floatWiden w) = (2 ^ 23 + man32 w) * 2 ^ 29" "sign64 (floatWiden w) = sign32 w"
proof (cases "exp32 w = 255")
  case True
  have "2 ^ 51 + man32 w * 2 ^ 29 mod 2 ^ 51 < (2 :: nat) ^ 52" using mod_less_divisor [of "2 ^ 51" "man32 w * 2 ^ 29"] by simp
  then show thesis using True by (intro special) (auto simp: floatWiden_def Let_def bits64_parts bits32_small)
next
  case False
  show thesis
  proof (cases "exp32 w = 0")
    case True
    show thesis
    proof (cases "man32 w = 0")
      case z: True
      show thesis using True z by (intro zero) (auto simp: floatWiden_def Let_def bits64_parts bits32_small)
    next
      case m: False
      define b where "b = bitLen (man32 w) - 1"
      have lb: "2 ^ b \<le> man32 w" "man32 w < 2 * 2 ^ b" using leading_bit m b_def by auto
      have "b < 23"
      proof (rule ccontr)
        assume "\<not> b < 23"
        then have "(2 :: nat) ^ 23 \<le> 2 ^ b" by (intro power_increasing) auto
        then show False using lb(1) bits32_small(2) [of w] by linarith
      qed
      moreover have "floatWiden w = bits64 (sign32 w) (b + 874) ((man32 w - 2 ^ b) * 2 ^ (52 - b))"
        using True m by (simp add: floatWiden_def Let_def b_def)
      ultimately show thesis using moved_up [OF lb] True m by (intro subnormal [of b]) (auto simp: bits64_parts bits32_small)
    qed
  next
    case e: False
    have "exp32 w < 255" "man32 w * 2 ^ 29 < 2 ^ 52" using False bits32_small [of w] by auto
    then show thesis using e False by (intro normal) (auto simp: floatWiden_def Let_def bits64_parts bits32_small)
  qed
qed

text \<open>Widening keeps the value; narrowing undoes it.\<close>

lemma widen_value: "value64 (floatWiden w) = value32 w"
proof (cases w rule: widen_cases)
  case special
  then show ?thesis by (simp add: value64_def value32_def)
next
  case zero
  then show ?thesis by (simp add: value64_def value32_def scaled64_def scaled32_def)
next
  case (subnormal b)
  have "scaled64 (man32 w * 2 ^ (52 - b)) (b + 874) = scaled32 (man32 w) 1" using subnormal(3) by (intro scaled_eq) simp
  then show ?thesis using subnormal by (simp add: value64_def value32_def)
next
  case normal
  have "scaled64 ((2 ^ 23 + man32 w) * 2 ^ 29) (exp32 w + 896) = scaled32 (2 ^ 23 + man32 w) (exp32 w)" by (intro scaled_eq) simp
  then show ?thesis using normal by (simp only: value64_def value32_def) simp
qed

lemma narrow_special:
  assumes "exp64 w = 2047"
  shows "value32 (floatNarrow w) = value64 w"
proof -
  define k where "k = (if man64 w = 0 then 0 else 2 ^ 22 + man64 w div 2 ^ 29 mod 2 ^ 22 :: nat)"
  have s: "sign64 w < 2" using unsigned_less [of w] by (simp add: sign64_def div_less_iff_less_mult)
  have k: "k < 2 ^ 23" "k = 0 \<longleftrightarrow> man64 w = 0"
    using mod_less_divisor [of "2 ^ 22" "man64 w div 2 ^ 29"] by (auto simp: k_def)
  have n: "floatNarrow w = word_of_nat (sign64 w * 2 ^ 31 + (255 * 2 ^ 23 + k))"
    using assms by (simp add: floatNarrow_def Let_def k_def)
  have "(255 * 2 ^ 23 + k) div 2 ^ 23 = 255" "(255 * 2 ^ 23 + k) mod 2 ^ 23 = k" using k(1) by (simp_all add: div_nat_eqI mod_nat_eqI)
  then show ?thesis using parts32 [OF s, of "255 * 2 ^ 23 + k"] k assms unfolding n by (simp add: value32_def value64_def)
qed

lemma narrow_widen: "value32 (floatNarrow (floatWiden w)) = value32 w"
proof (cases w rule: widen_cases)
  case special
  then show ?thesis using narrow_special widen_value by metis
next
  case zero
  have "floatNarrow (floatWiden w) = word_of_nat (sign32 w * 2 ^ 31 + 0)" using zero by (simp add: floatNarrow_def Let_def)
  then show ?thesis using parts32 [OF bits32_small(3), of 0 w] zero by (simp add: value32_def)
next
  case (subnormal b)
  have "value32 (floatNarrow (floatWiden w)) = value64 (floatWiden w)"
    using subnormal by (intro narrow_exact) simp_all
  then show ?thesis by (simp only: widen_value)
next
  case normal
  have "value32 (floatNarrow (floatWiden w)) = value64 (floatWiden w)"
  proof (intro narrow_exact)
    have "2 ^ 29 dvd 2 ^ 52 + man64 (floatWiden w)" unfolding normal(4) by (rule dvd_triv_right)
    then show "2 ^ (29 + (897 - exp64 (floatWiden w))) dvd 2 ^ 52 + man64 (floatWiden w)" using normal(1,3) by simp
  qed (use normal in simp_all)
  then show ?thesis by (simp only: widen_value)
qed

lemma narrow_checked: "floatWiden (floatNarrow w) = w \<Longrightarrow> value32 (floatNarrow w) = value64 w"
  by (metis widen_value)

text \<open>Integers within the significand.\<close>

lemma floatOfInt_parts:
  assumes "n \<noteq> 0" "\<bar>n\<bar> \<le> 2 ^ 53"
  obtains b where "b \<le> 53" "2 ^ b \<le> nat \<bar>n\<bar>" "nat \<bar>n\<bar> < 2 * 2 ^ b" "exp64 (floatOfInt n) = b + 1023"
    "sign64 (floatOfInt n) = (if n < 0 then 1 else 0)"
    "if b = 53 then man64 (floatOfInt n) = 0 \<and> nat \<bar>n\<bar> = 2 ^ 53 else 2 ^ 52 + man64 (floatOfInt n) = nat \<bar>n\<bar> * 2 ^ (52 - b)"
proof -
  define N where "N = nat \<bar>n\<bar>"
  define b where "b = bitLen N - 1"
  have N: "0 < N" "N \<le> 2 ^ 53" using assms by (auto simp: N_def nat_le_iff)
  have lb: "2 ^ b \<le> N" "N < 2 * 2 ^ b" using leading_bit N(1) b_def by auto
  have "(2 :: nat) ^ b \<le> 2 ^ 53" using lb(1) N(2) by linarith
  then have b: "b \<le> 53" by (rule power_le_imp_le_exp [rotated]) simp
  have f: "floatOfInt n = bits64 (if n < 0 then 1 else 0) (b + 1023) ((N - 2 ^ b) * 2 ^ (52 - b))"
    using assms(1) by (simp add: floatOfInt_def Let_def N_def b_def)
  show thesis
  proof (cases "b = 53")
    case True
    then have "N = 2 ^ 53" using lb(1) N(2) by simp
    then show thesis using f True b by (intro that [of 53]) (auto simp: bits64_parts simp flip: N_def)
  next
    case False
    then show thesis using f b lb moved_up [OF lb] by (intro that [of b]) (auto simp: bits64_parts simp flip: N_def)
  qed
qed

lemma scaled64_nat: "k + e = 1075 \<Longrightarrow> scaled64 (m * 2 ^ k) e = of_nat m"
proof -
  assume "k + e = 1075"
  then have "(2 :: rat) ^ k * 2 ^ e = 2 ^ 1075" by (simp only: power_add [symmetric])
  then have "scaled64 (m * 2 ^ k) e = of_nat m * 2 ^ 1075 / 2 ^ 1075"
    by (simp only: scaled64_def of_nat_mult of_nat_power of_nat_numeral mult.assoc)
  then show ?thesis by simp
qed

lemma floatOfInt_value:
  assumes "\<bar>n\<bar> \<le> 2 ^ 53"
  shows "value64 (floatOfInt n) = Finite (of_int n)"
proof (cases "n = 0")
  case True
  then show ?thesis by (simp add: floatOfInt_def value64_def exp64_def man64_def sign64_def signed_def scaled64_def)
next
  case False
  from this assms obtain b where b: "b \<le> 53" "exp64 (floatOfInt n) = b + 1023" "sign64 (floatOfInt n) = (if n < 0 then 1 else 0)"
    "if b = 53 then man64 (floatOfInt n) = 0 \<and> nat \<bar>n\<bar> = 2 ^ 53 else 2 ^ 52 + man64 (floatOfInt n) = nat \<bar>n\<bar> * 2 ^ (52 - b)"
    by (rule floatOfInt_parts)
  have "scaled64 (2 ^ 52 + man64 (floatOfInt n)) (b + 1023) = of_nat (nat \<bar>n\<bar>)"
  proof (cases "b = 53")
    case True
    have "scaled64 (2 ^ 52) 1076 = of_nat (2 ^ 53)" by (simp add: scaled64_def)
    then show ?thesis using True b(4) by simp
  next
    case False
    then show ?thesis using b scaled64_nat [of "52 - b" "b + 1023" "nat \<bar>n\<bar>"] by simp
  qed
  then show ?thesis using b(1-3) by (simp add: value64_def signed_def)
qed

lemma narrow_int:
  assumes "\<bar>n\<bar> \<le> 2 ^ 24"
  shows "value32 (floatNarrow (floatOfInt n)) = Finite (of_int n)"
proof (cases "n = 0")
  case True
  then show ?thesis
    by (simp add: floatOfInt_def floatNarrow_def Let_def exp64_def sign64_def value32_def exp32_def man32_def sign32_def signed_def scaled32_def)
next
  case False
  from this have "\<bar>n\<bar> \<le> 2 ^ 53" using assms by simp
  with False obtain b where b: "2 ^ b \<le> nat \<bar>n\<bar>" "exp64 (floatOfInt n) = b + 1023"
    "if b = 53 then man64 (floatOfInt n) = 0 \<and> nat \<bar>n\<bar> = 2 ^ 53 else 2 ^ 52 + man64 (floatOfInt n) = nat \<bar>n\<bar> * 2 ^ (52 - b)"
    by (rule floatOfInt_parts)
  have N: "nat \<bar>n\<bar> \<le> 2 ^ 24" using assms by (simp add: nat_le_iff)
  then have "(2 :: nat) ^ b \<le> 2 ^ 24" using b(1) by linarith
  then have b24: "b \<le> 24" by (rule power_le_imp_le_exp [rotated]) simp
  then have m: "2 ^ 52 + man64 (floatOfInt n) = nat \<bar>n\<bar> * 2 ^ (52 - b)" using b(3) by simp
  have "2 ^ 29 dvd 2 ^ 52 + man64 (floatOfInt n)"
  proof (cases "b = 24")
    case True
    then have "nat \<bar>n\<bar> = 2 ^ 24" using b(1) N by simp
    then show ?thesis unfolding m using True by simp
  next
    case False
    then have "(2 :: nat) ^ 29 dvd 2 ^ (52 - b)" using b24 by (intro le_imp_power_dvd) simp
    then show ?thesis unfolding m by (rule dvd_mult)
  qed
  then have "value32 (floatNarrow (floatOfInt n)) = value64 (floatOfInt n)"
    using b(2) b24 by (intro narrow_exact) simp_all
  then show ?thesis using floatOfInt_value assms by simp
qed

end
