(* ===== verification/Scan_Predicate.thy ===== *)
theory Scan_Predicate
  imports Float_Bits Log_Scanner
begin

text \<open>
  Scan filters: \<^verbatim>\<open>pkg/fgo/predicate.go\<close>. A predicate is built from columns and literals of any Go type and compiled against
  the schema of a table into the message that the server evaluates.
\<close>

section \<open>Building predicates\<close>

text \<open>The dynamic types of a literal that the code distinguishes; \<open>LRat None\<close> is a nil \<^verbatim>\<open>*big.Rat\<close>, \<open>LOther\<close> a value of
  any other type.\<close>

datatype literal = LNil | LBool bool
  | LInt "64 word" | LInt8 "8 word" | LInt16 "16 word" | LInt32 "32 word" | LInt64 "64 word"
  | LUint "64 word" | LUint8 "8 word" | LUint16 "16 word" | LUint32 "32 word" | LUint64 "64 word"
  | LFloat32 "32 word" | LFloat64 "64 word" | LString bytes | LBytes bytes | LTime go_time | LRat "rat option" | LOther

datatype predicate = Predicate (prCompound: bool) (prFunction: int) (prColumn: string) (prLiterals: "literal list")
  (prChildren: "predicate list") (prErr: "go_error option")

definition predicateTypeLeaf :: int where "predicateTypeLeaf = 0"
definition predicateTypeCompound :: int where "predicateTypeCompound = 1"

definition leafEqual :: int where "leafEqual = 0"
definition leafNotEqual :: int where "leafNotEqual = 1"
definition leafLessThan :: int where "leafLessThan = 2"
definition leafLessOrEqual :: int where "leafLessOrEqual = 3"
definition leafGreaterThan :: int where "leafGreaterThan = 4"
definition leafGreaterOrEqual :: int where "leafGreaterOrEqual = 5"
definition leafIsNull :: int where "leafIsNull = 6"
definition leafIsNotNull :: int where "leafIsNotNull = 7"
definition leafStartsWith :: int where "leafStartsWith = 8"
definition leafContains :: int where "leafContains = 9"
definition leafEndsWith :: int where "leafEndsWith = 10"
definition leafIn :: int where "leafIn = 11"
definition leafNotIn :: int where "leafNotIn = 12"
definition compoundAnd :: int where "compoundAnd = 0"
definition compoundOr :: int where "compoundOr = 1"

lemmas leaf_codes = leafEqual_def leafNotEqual_def leafLessThan_def leafLessOrEqual_def leafGreaterThan_def leafGreaterOrEqual_def
  leafIsNull_def leafIsNotNull_def leafStartsWith_def leafContains_def leafEndsWith_def leafIn_def leafNotIn_def

datatype predicate_column = Col (pcName: string)

definition leaf :: "predicate_column \<Rightarrow> int \<Rightarrow> literal list \<Rightarrow> predicate" where
  "leaf c function literals = Predicate False function (pcName c) literals [] None"

definition Eq :: "predicate_column \<Rightarrow> literal \<Rightarrow> predicate" where "Eq c v = leaf c leafEqual [v]"
definition Ne :: "predicate_column \<Rightarrow> literal \<Rightarrow> predicate" where "Ne c v = leaf c leafNotEqual [v]"
definition Lt :: "predicate_column \<Rightarrow> literal \<Rightarrow> predicate" where "Lt c v = leaf c leafLessThan [v]"
definition Le :: "predicate_column \<Rightarrow> literal \<Rightarrow> predicate" where "Le c v = leaf c leafLessOrEqual [v]"
definition Gt :: "predicate_column \<Rightarrow> literal \<Rightarrow> predicate" where "Gt c v = leaf c leafGreaterThan [v]"
definition Ge :: "predicate_column \<Rightarrow> literal \<Rightarrow> predicate" where "Ge c v = leaf c leafGreaterOrEqual [v]"
definition IsNull :: "predicate_column \<Rightarrow> predicate" where "IsNull c = leaf c leafIsNull []"
definition IsNotNull :: "predicate_column \<Rightarrow> predicate" where "IsNotNull c = leaf c leafIsNotNull []"
definition In :: "predicate_column \<Rightarrow> literal list \<Rightarrow> predicate" where "In c vs = leaf c leafIn vs"
definition NotIn :: "predicate_column \<Rightarrow> literal list \<Rightarrow> predicate" where "NotIn c vs = leaf c leafNotIn vs"
definition StartsWith :: "predicate_column \<Rightarrow> bytes \<Rightarrow> predicate" where "StartsWith c s = leaf c leafStartsWith [LString s]"
definition EndsWith :: "predicate_column \<Rightarrow> bytes \<Rightarrow> predicate" where "EndsWith c s = leaf c leafEndsWith [LString s]"
definition Contains :: "predicate_column \<Rightarrow> bytes \<Rightarrow> predicate" where "Contains c s = leaf c leafContains [LString s]"

lemmas leaf_builders = Eq_def Ne_def Lt_def Le_def Gt_def Ge_def IsNull_def IsNotNull_def In_def NotIn_def StartsWith_def
  EndsWith_def Contains_def leaf_def

definition combine :: "int \<Rightarrow> predicate list \<Rightarrow> predicate" where
  "combine function predicates =
     (case predicates of [p] \<Rightarrow> p | _ \<Rightarrow> Predicate True function [] [] predicates None)"

definition And :: "predicate list \<Rightarrow> predicate" where "And = combine compoundAnd"
definition Or :: "predicate list \<Rightarrow> predicate" where "Or = combine compoundOr"

section \<open>Messages\<close>

text \<open>\<^verbatim>\<open>PbLiteralValue\<close>: the fields are optional; a byte field that is empty and a byte field that is not set are the same
  nil slice.\<close>

record pb_literal =
  plType :: int
  plIsNull :: bool
  plBoolean :: "bool option"
  plInt :: "32 word option"
  plBigint :: "64 word option"
  plFloat :: "32 word option"
  plDouble :: "64 word option"
  plString :: "bytes option"
  plBinary :: "bytes option"
  plDecimal :: "64 word option"
  plDecimalBytes :: "bytes option"
  plTimestampMillis :: "64 word option"
  plTimestampNanos :: "32 word option"

datatype pb_predicate = PbLeaf (pbFunction: int) (pbFieldId: "32 word") (pbLiterals: "pb_literal list")
  | PbCompound (pbFunction: int) (pbChildren: "pb_predicate list")

definition bytesField :: "bytes \<Rightarrow> bytes option" where
  "bytesField bs = (if bs = [] then None else Some bs)"

section \<open>Literals\<close>

text \<open>The text of an error is dropped by \<^verbatim>\<open>predicateError\<close>, which keeps \<^verbatim>\<open>ErrInvalidConfig\<close> only.\<close>

definition literalTypeError :: go_error where "literalTypeError = Plain ''literal does not match column''"
definition literalOverflow :: go_error where "literalOverflow = Plain ''literal overflows''"
definition literalInexact :: go_error where "literalInexact = Plain ''literal is not exactly representable''"

definition predicateLiteralType :: "data_type \<Rightarrow> int option" where
  "predicateLiteralType kind = (case kind of
       BoolType \<Rightarrow> Some 0 | TinyIntType \<Rightarrow> Some 1 | SmallIntType \<Rightarrow> Some 2 | IntType \<Rightarrow> Some 3 | BigIntType \<Rightarrow> Some 4
     | FloatType \<Rightarrow> Some 5 | DoubleType \<Rightarrow> Some 6 | CharType \<Rightarrow> Some 7 | StringType \<Rightarrow> Some 8 | DecimalType \<Rightarrow> Some 9
     | DateType \<Rightarrow> Some 10 | TimeType \<Rightarrow> Some 11 | TimestampType \<Rightarrow> Some 12 | TimestampLTZType \<Rightarrow> Some 13
     | BinaryType \<Rightarrow> Some 14 | BytesType \<Rightarrow> Some 15 | _ \<Rightarrow> None)"

definition integerOf :: "literal \<Rightarrow> int result" where
  "integerOf v = (case v of
       LInt n \<Rightarrow> Inr (sint n) | LInt8 n \<Rightarrow> Inr (sint n) | LInt16 n \<Rightarrow> Inr (sint n) | LInt32 n \<Rightarrow> Inr (sint n)
     | LInt64 n \<Rightarrow> Inr (sint n)
     | LUint n \<Rightarrow> guardE (uint n > maxInt64) literalOverflow (Inr (uint n))
     | LUint8 n \<Rightarrow> Inr (uint n) | LUint16 n \<Rightarrow> Inr (uint n) | LUint32 n \<Rightarrow> Inr (uint n)
     | LUint64 n \<Rightarrow> guardE (uint n > maxInt64) literalOverflow (Inr (uint n))
     | _ \<Rightarrow> Inl literalTypeError)"

definition integerBits :: "data_type \<Rightarrow> nat" where
  "integerBits kind = (case kind of TinyIntType \<Rightarrow> 7 | SmallIntType \<Rightarrow> 15 | IntType \<Rightarrow> 31 | _ \<Rightarrow> 63)"

definition integerLiteral :: "literal \<Rightarrow> data_type \<Rightarrow> int result" where
  "integerLiteral value kind =
     andThen (integerOf value) (\<lambda>v.
     guardE (v < - (2 ^ integerBits kind) \<or> v > 2 ^ integerBits kind - 1) literalOverflow (Inr v))"

definition floatLiteral :: "literal \<Rightarrow> nat \<Rightarrow> (64 word) result" where
  "floatLiteral value mantissaBits = (case value of
       LFloat32 n \<Rightarrow> Inr (floatWiden n)
     | LFloat64 n \<Rightarrow> guardE (mantissaBits = 24 \<and> \<not> IsNaN n \<and> \<not> IsInf n \<and> floatWiden (floatNarrow n) \<noteq> n) literalInexact (Inr n)
     | _ \<Rightarrow> (case integerLiteral value BigIntType of Inl _ \<Rightarrow> Inl literalTypeError
         | Inr i \<Rightarrow> guardE (i > 2 ^ mantissaBits \<or> i < - (2 ^ mantissaBits)) literalInexact (Inr (floatOfInt i))))"

definition encodeScalarLiteral :: "pb_literal \<Rightarrow> literal \<Rightarrow> data_type \<Rightarrow> pb_literal result" where
  "encodeScalarLiteral l value kind = (case kind of
       BoolType \<Rightarrow> (case value of LBool v \<Rightarrow> Inr (l\<lparr>plBoolean := Some v\<rparr>) | _ \<Rightarrow> Inl literalTypeError)
     | TinyIntType \<Rightarrow> andThen (integerLiteral value kind) (\<lambda>v. Inr (l\<lparr>plInt := Some (word_of_int v)\<rparr>))
     | SmallIntType \<Rightarrow> andThen (integerLiteral value kind) (\<lambda>v. Inr (l\<lparr>plInt := Some (word_of_int v)\<rparr>))
     | IntType \<Rightarrow> andThen (integerLiteral value kind) (\<lambda>v. Inr (l\<lparr>plInt := Some (word_of_int v)\<rparr>))
     | BigIntType \<Rightarrow> andThen (integerLiteral value kind) (\<lambda>v. Inr (l\<lparr>plBigint := Some (word_of_int v)\<rparr>))
     | FloatType \<Rightarrow> andThen (floatLiteral value 24) (\<lambda>v. Inr (l\<lparr>plFloat := Some (floatNarrow v)\<rparr>))
     | DoubleType \<Rightarrow> andThen (floatLiteral value 53) (\<lambda>v. Inr (l\<lparr>plDouble := Some v\<rparr>))
     | StringType \<Rightarrow> (case value of LString v \<Rightarrow> Inr (l\<lparr>plString := Some v\<rparr>) | _ \<Rightarrow> Inl literalTypeError)
     | CharType \<Rightarrow> (case value of LString v \<Rightarrow> Inr (l\<lparr>plString := Some v\<rparr>) | _ \<Rightarrow> Inl literalTypeError)
     | BinaryType \<Rightarrow> (case value of LBytes v \<Rightarrow> Inr (l\<lparr>plBinary := bytesField v\<rparr>) | _ \<Rightarrow> Inl literalTypeError)
     | BytesType \<Rightarrow> (case value of LBytes v \<Rightarrow> Inr (l\<lparr>plBinary := bytesField v\<rparr>) | _ \<Rightarrow> Inl literalTypeError)
     | _ \<Rightarrow> Inr l)"

definition encodeDecimalLiteral :: "pb_literal \<Rightarrow> literal \<Rightarrow> logical_type \<Rightarrow> pb_literal result" where
  "encodeDecimalLiteral l value logical =
     andThen (case value of
         LRat v \<Rightarrow> (case v of None \<Rightarrow> Inl literalTypeError | Some r \<Rightarrow> Inr r)
       | _ \<Rightarrow> (case integerLiteral value BigIntType of Inl _ \<Rightarrow> Inl literalTypeError | Inr i \<Rightarrow> Inr (of_int i))) (\<lambda>r.
     andThen (decimalUnscaled r logical) (\<lambda>unscaled.
     Inr (if ltPrecision logical \<le> 18 then l\<lparr>plDecimal := Some (word_of_int unscaled)\<rparr>
          else l\<lparr>plDecimalBytes := bytesField (signedBigEndian unscaled)\<rparr>)))"

definition timestampGranularity :: "int \<Rightarrow> int result" where
  "timestampGranularity precision =
     guardE (precision < 0 \<or> precision > 9) (Plain ''invalid precision'') (
     Inr (if precision \<le> 3 then 1000000 else 10 ^ nat (9 - precision)))"

definition encodeTemporalLiteral :: "pb_literal \<Rightarrow> literal \<Rightarrow> data_type \<Rightarrow> logical_type \<Rightarrow> pb_literal result" where
  "encodeTemporalLiteral l value kind logical = (case value of
       LTime v \<Rightarrow>
         (if kind = DateType then
            guardE (Hour v \<noteq> 0 \<or> Minute v \<noteq> 0 \<or> Value_Codec.Second v \<noteq> 0 \<or> nanosecond v \<noteq> 0) (Plain ''DATE literal must be at midnight'')
              (Inr (l\<lparr>plBigint := Some (word_of_int (sint (temporalInt DateType v)))\<rparr>))
          else if kind = TimeType then
            guardE (nanosecond v smod 1000000 \<noteq> 0) (Plain ''TIME literal has sub-millisecond precision'')
              (Inr (l\<lparr>plInt := Some (temporalInt TimeType v)\<rparr>))
          else
            andThen (timestampGranularity (ltPrecision logical)) (\<lambda>granularity.
            guardE (nanosecond v smod 1000000 smod granularity \<noteq> 0) (Plain ''literal exceeds column precision'') (
            case timestampParts kind v of (millis, nanos) \<Rightarrow>
              Inr (l\<lparr>plTimestampMillis := Some millis, plTimestampNanos := Some nanos\<rparr>))))
     | _ \<Rightarrow> Inl literalTypeError)"

definition emptyLiteral :: "int \<Rightarrow> bool \<Rightarrow> pb_literal" where
  "emptyLiteral code isNull = \<lparr>plType = code, plIsNull = isNull, plBoolean = None, plInt = None, plBigint = None, plFloat = None,
     plDouble = None, plString = None, plBinary = None, plDecimal = None, plDecimalBytes = None, plTimestampMillis = None,
     plTimestampNanos = None\<rparr>"

definition encodeLiteral :: "literal \<Rightarrow> int \<Rightarrow> data_type \<Rightarrow> logical_type \<Rightarrow> pb_literal result" where
  "encodeLiteral value code kind logical =
     (let l = emptyLiteral code (value = LNil) in
      if value = LNil then Inr l
      else if kind = DecimalType then encodeDecimalLiteral l value logical
      else if kind \<in> {DateType, TimeType, TimestampType, TimestampLTZType} then encodeTemporalLiteral l value kind logical
      else encodeScalarLiteral l value kind)"

section \<open>Compiling\<close>

definition checkLeafShape :: "predicate \<Rightarrow> data_type \<Rightarrow> unit result" where
  "checkLeafShape p kind =
     (let f = prFunction p; count = length (prLiterals p);
          comparison = guardE (count \<noteq> 1) ErrInvalidConfig (guardE (hd (prLiterals p) = LNil) ErrInvalidConfig (Inr ()))
      in if f = leafIsNull \<or> f = leafIsNotNull then guardE (count \<noteq> 0) ErrInvalidConfig (Inr ())
         else if f = leafIn \<or> f = leafNotIn then guardE (count = 0) ErrInvalidConfig (Inr ())
         else if f = leafStartsWith \<or> f = leafContains \<or> f = leafEndsWith
           then guardE (kind \<noteq> StringType \<and> kind \<noteq> CharType) ErrInvalidConfig comparison
         else comparison)"

fun encodeLiterals :: "int \<Rightarrow> data_type \<Rightarrow> logical_type \<Rightarrow> literal list \<Rightarrow> pb_literal list result" where
  "encodeLiterals code kind logical [] = Inr []"
| "encodeLiterals code kind logical (v # vs) =
     (case encodeLiteral v code kind logical of Inl _ \<Rightarrow> Inl ErrInvalidConfig
      | Inr l \<Rightarrow> andThen (encodeLiterals code kind logical vs) (\<lambda>ls. Inr (l # ls)))"

definition idCount :: "schema \<Rightarrow> int \<Rightarrow> nat" where
  "idCount s k = length (filter (\<lambda>c. colID c = k) (Columns s))"

definition encodeLeaf :: "schema \<Rightarrow> predicate \<Rightarrow> pb_predicate result" where
  "encodeLeaf s p =
     guardE (prColumn p = [] \<and> prFunction p = 0 \<and> prLiterals p = []) ErrInvalidConfig (
     case columnsByName s (prColumn p) of None \<Rightarrow> Inl ErrInvalidConfig
     | Some column \<Rightarrow>
         guardE (colID column < 0 \<or> idCount s (colID column) \<noteq> 1) ErrInvalidConfig (
         let logical = logicalTypeForColumn column; kind = dataTypeForLogicalType logical in
         case predicateLiteralType kind of None \<Rightarrow> Inl ErrInvalidConfig
         | Some code \<Rightarrow>
             andThen (checkLeafShape p kind) (\<lambda>_.
             andThen (encodeLiterals code kind logical (prLiterals p)) (\<lambda>literals.
             Inr (PbLeaf (prFunction p) (word_of_int (colID column)) literals)))))"

fun encodePredicate :: "schema \<Rightarrow> predicate \<Rightarrow> pb_predicate result"
  and encodeChildren :: "schema \<Rightarrow> predicate list \<Rightarrow> pb_predicate list result" where
  "encodePredicate s (Predicate isCompound function column literals children err) =
     (case err of Some e \<Rightarrow> Inl e
      | None \<Rightarrow>
          if \<not> isCompound then encodeLeaf s (Predicate isCompound function column literals children err)
          else guardE (children = []) ErrInvalidConfig (
            andThen (encodeChildren s children) (\<lambda>cs. Inr (PbCompound function cs))))"
| "encodeChildren s [] = Inr []"
| "encodeChildren s (p # ps) =
     andThen (encodePredicate s p) (\<lambda>c. andThen (encodeChildren s ps) (\<lambda>cs. Inr (c # cs)))"

definition compilePredicate :: "predicate \<Rightarrow> schema \<Rightarrow> pb_predicate result" where
  "compilePredicate p s = encodePredicate s p"

end
