(* ===== verification/Predicate_Properties.thy ===== *)
theory Predicate_Properties
  imports Scan_Predicate Time_Values
begin

text \<open>
  A compiled filter says what the predicate says: the same tree, the same columns by their field IDs, and literals of the same
  value, whatever the Go type they were given in.
\<close>

section \<open>What a literal says\<close>

text \<open>Dates, times of day and timestamps are counted in nanoseconds.\<close>

datatype meaning = MNull | MBool bool | MInteger int | MFloat float_value | MText bytes | MBinary bytes | MDecimal rat | MNanos int

definition integerMeaning :: "literal \<Rightarrow> int option" where
  "integerMeaning v = (case v of
       LInt n \<Rightarrow> Some (sint n) | LInt8 n \<Rightarrow> Some (sint n) | LInt16 n \<Rightarrow> Some (sint n) | LInt32 n \<Rightarrow> Some (sint n)
     | LInt64 n \<Rightarrow> Some (sint n) | LUint n \<Rightarrow> Some (uint n) | LUint8 n \<Rightarrow> Some (uint n) | LUint16 n \<Rightarrow> Some (uint n)
     | LUint32 n \<Rightarrow> Some (uint n) | LUint64 n \<Rightarrow> Some (uint n) | _ \<Rightarrow> None)"

definition literalMeaning :: "data_type \<Rightarrow> literal \<Rightarrow> meaning option" where
  "literalMeaning kind v = (case v of
       LNil \<Rightarrow> Some MNull
     | LBool b \<Rightarrow> Some (MBool b)
     | LFloat32 w \<Rightarrow> Some (MFloat (value32 w))
     | LFloat64 w \<Rightarrow> Some (MFloat (value64 w))
     | LString s \<Rightarrow> Some (MText s)
     | LBytes b \<Rightarrow> Some (MBinary b)
     | LRat r \<Rightarrow> map_option MDecimal r
     | LTime t \<Rightarrow> Some (MNanos (if kind = TimeType then nanoOfDay t else keptNanos kind t))
     | _ \<Rightarrow> map_option (\<lambda>i. if kind \<in> {FloatType, DoubleType} then MFloat (Finite (of_int i))
              else if kind = DecimalType then MDecimal (of_int i) else MInteger i) (integerMeaning v))"

text \<open>The type of a literal by its code, and its value; a field that is not set reads as its default.\<close>

definition literalKinds :: "data_type list" where
  "literalKinds = [BoolType, TinyIntType, SmallIntType, IntType, BigIntType, FloatType, DoubleType, CharType, StringType, DecimalType,
     DateType, TimeType, TimestampType, TimestampLTZType, BinaryType, BytesType]"

definition orZero :: "'a :: zero option \<Rightarrow> 'a" where "orZero x = (case x of None \<Rightarrow> 0 | Some v \<Rightarrow> v)"
definition orEmpty :: "bytes option \<Rightarrow> bytes" where "orEmpty x = (case x of None \<Rightarrow> [] | Some v \<Rightarrow> v)"

definition readLiteral :: "logical_type \<Rightarrow> pb_literal \<Rightarrow> meaning option" where
  "readLiteral logical l =
     (if plIsNull l then Some MNull
      else case find (\<lambda>k. predicateLiteralType k = Some (plType l)) literalKinds of None \<Rightarrow> None
      | Some kind \<Rightarrow> Some (
          if kind = BoolType then MBool (plBoolean l = Some True)
          else if kind \<in> {TinyIntType, SmallIntType, IntType} then MInteger (sint (orZero (plInt l)))
          else if kind = BigIntType then MInteger (sint (orZero (plBigint l)))
          else if kind = FloatType then MFloat (value32 (orZero (plFloat l)))
          else if kind = DoubleType then MFloat (value64 (orZero (plDouble l)))
          else if kind \<in> {StringType, CharType} then MText (orEmpty (plString l))
          else if kind \<in> {BinaryType, BytesType} then MBinary (orEmpty (plBinary l))
          else if kind = DecimalType then MDecimal (scaledRat (if ltPrecision logical \<le> 18 then sint (orZero (plDecimal l))
            else signedBigInt (orEmpty (plDecimalBytes l))) (ltScale logical))
          else if kind = DateType then MNanos (sint (orZero (plBigint l)) * 86400 * 1000000000)
          else if kind = TimeType then MNanos (sint (orZero (plInt l)) * 1000000)
          else MNanos (sint (orZero (plTimestampMillis l)) * 1000000 + sint (orZero (plTimestampNanos l)))))"

text \<open>The times that fit the fields: a date within \<^verbatim>\<open>int32\<close> days, a timestamp within \<^verbatim>\<open>int64\<close> milliseconds of 1970.\<close>

definition literalInRange :: "data_type \<Rightarrow> literal \<Rightarrow> bool" where
  "literalInRange kind v = (case v of
       LTime t \<Rightarrow> 0 \<le> nanosecond t \<and> nanosecond t < 1000000000
         \<and> (if kind = DateType then - (2 ^ 31) \<le> civilDay t \<and> civilDay t < 2 ^ 31
            else kind = TimeType \<or> (- (2 ^ 63) \<le> keptNanos kind t div 1000000 \<and> keptNanos kind t div 1000000 < 2 ^ 63))
     | _ \<Rightarrow> True)"

section \<open>Literals keep their value\<close>

lemma literalKinds_find: "predicateLiteralType kind = Some code \<Longrightarrow> find (\<lambda>k. predicateLiteralType k = Some code) literalKinds = Some kind"
  by (cases kind) (auto simp: predicateLiteralType_def literalKinds_def)

lemma integerOf_meaning: "integerOf v = Inr i \<Longrightarrow> integerMeaning v = Some i"
  by (cases v) (auto simp: integerOf_def integerMeaning_def split: if_splits)

lemma integerMeaning_literal:
  "integerMeaning v = Some i \<Longrightarrow> literalMeaning kind v = Some (if kind \<in> {FloatType, DoubleType} then MFloat (Finite (of_int i))
     else if kind = DecimalType then MDecimal (of_int i) else MInteger i)"
  by (cases v) (auto simp: integerMeaning_def literalMeaning_def)

lemma integerLiteral_ok:
  assumes "integerLiteral v kind = Inr i"
  shows "integerMeaning v = Some i" "- (2 ^ integerBits kind) \<le> i" "i < 2 ^ integerBits kind"
  using assms integerOf_meaning by (auto simp: integerLiteral_def)

lemma sint_literal:
  "- (2 ^ (LENGTH('a) - 1)) \<le> i \<Longrightarrow> i < 2 ^ (LENGTH('a) - 1) \<Longrightarrow> sint (word_of_int i :: 'a :: len word) = i"
  by (simp add: signed_of_int signed_take_bit_int_eq_self)

lemma float_literal:
  assumes "floatLiteral v bits = Inr w" "bits = 24 \<or> bits = 53" "kind \<in> {FloatType, DoubleType}"
  shows "literalMeaning kind v = Some (MFloat (if bits = 24 then value32 (floatNarrow w) else value64 w))"
proof (cases "(\<exists>n. v = LFloat32 n) \<or> (\<exists>n. v = LFloat64 n)")
  case True
  then consider n where "v = LFloat32 n" | n where "v = LFloat64 n" by blast
  then show ?thesis
  proof cases
    case (1 n)
    then show ?thesis using assms by (auto simp: floatLiteral_def literalMeaning_def narrow_widen widen_value)
  next
    case (2 n)
    then have w: "w = n" "bits = 24 \<longrightarrow> exp64 n = 2047 \<or> floatWiden (floatNarrow n) = n"
      using assms by (auto simp: floatLiteral_def IsNaN_def IsInf_def)
    have "value32 (floatNarrow n) = value64 n" if "bits = 24"
      using w(2) that narrow_special [of n] narrow_checked [of n] by blast
    then show ?thesis using 2 w(1) by (auto simp: literalMeaning_def)
  qed
next
  case False
  then obtain i where i: "integerLiteral v BigIntType = Inr i" "\<bar>i\<bar> \<le> 2 ^ bits" "w = floatOfInt i"
    using assms(1) by (cases v) (auto simp: floatLiteral_def split: sum.splits)
  have "\<bar>i\<bar> \<le> 2 ^ 53" using i(2) assms(2) by auto
  then have "(if bits = 24 then value32 (floatNarrow w) else value64 w) = Finite (of_int i)"
    using i assms(2) narrow_int floatOfInt_value by auto
  then show ?thesis using integerMeaning_literal [OF integerLiteral_ok(1) [OF i(1)], of kind] assms(3) by auto
qed

lemma scalar_literal:
  assumes "encodeScalarLiteral l v kind = Inr l'" "v \<noteq> LNil" "predicateLiteralType kind = Some (plType l)" "\<not> plIsNull l"
    "kind \<notin> {DecimalType, DateType, TimeType, TimestampType, TimestampLTZType}"
  shows "readLiteral logical l' = literalMeaning kind v"
proof -
  note find = literalKinds_find [OF assms(3)]
  have int: "sint (word_of_int i :: 32 word) = i" if "integerLiteral v kind = Inr i" "kind \<in> {TinyIntType, SmallIntType, IntType}" for i
    using integerLiteral_ok [OF that(1)] that(2) by (intro sint_literal) (auto simp: integerBits_def)
  have big: "sint (word_of_int i :: 64 word) = i" if "integerLiteral v BigIntType = Inr i" for i
    using integerLiteral_ok [OF that] by (intro sint_literal) (auto simp: integerBits_def)
  note im = integerMeaning_literal [OF integerLiteral_ok(1)]
  show ?thesis
  proof (cases kind)
    case BoolType
    then show ?thesis using assms find by (cases v) (auto simp: encodeScalarLiteral_def readLiteral_def literalMeaning_def)
  next
    case TinyIntType
    then show ?thesis using assms find int im [of v TinyIntType] by (auto simp: encodeScalarLiteral_def readLiteral_def orZero_def)
  next
    case SmallIntType
    then show ?thesis using assms find int im [of v SmallIntType] by (auto simp: encodeScalarLiteral_def readLiteral_def orZero_def)
  next
    case IntType
    then show ?thesis using assms find int im [of v IntType] by (auto simp: encodeScalarLiteral_def readLiteral_def orZero_def)
  next
    case BigIntType
    then show ?thesis using assms find big im [of v BigIntType] by (auto simp: encodeScalarLiteral_def readLiteral_def orZero_def)
  next
    case FloatType
    then show ?thesis using assms find float_literal [of v 24 _ FloatType]
      by (auto simp: encodeScalarLiteral_def readLiteral_def orZero_def)
  next
    case DoubleType
    then show ?thesis using assms find float_literal [of v 53 _ DoubleType]
      by (auto simp: encodeScalarLiteral_def readLiteral_def orZero_def)
  next
    case StringType
    then show ?thesis using assms find by (cases v) (auto simp: encodeScalarLiteral_def readLiteral_def literalMeaning_def orEmpty_def)
  next
    case CharType
    then show ?thesis using assms find by (cases v) (auto simp: encodeScalarLiteral_def readLiteral_def literalMeaning_def orEmpty_def)
  next
    case BinaryType
    then show ?thesis using assms find
      by (cases v) (auto simp: encodeScalarLiteral_def readLiteral_def literalMeaning_def orEmpty_def bytesField_def)
  next
    case BytesType
    then show ?thesis using assms find
      by (cases v) (auto simp: encodeScalarLiteral_def readLiteral_def literalMeaning_def orEmpty_def bytesField_def)
  qed (use assms in \<open>auto simp: predicateLiteralType_def\<close>)
qed

lemma decimal_literal:
  assumes "encodeDecimalLiteral l v logical = Inr l'" "plType l = 9" "\<not> plIsNull l"
  shows "readLiteral logical l' = literalMeaning DecimalType v"
proof -
  obtain r u where m: "literalMeaning DecimalType v = Some (MDecimal r)" and u: "decimalUnscaled r logical = Inr u"
    and l': "l' = (if ltPrecision logical \<le> 18 then l\<lparr>plDecimal := Some (word_of_int u)\<rparr>
          else l\<lparr>plDecimalBytes := bytesField (signedBigEndian u)\<rparr>)"
    using assms(1) integerMeaning_literal [OF integerLiteral_ok(1), of v BigIntType _ DecimalType]
    by (cases v) (auto simp: encodeDecimalLiteral_def literalMeaning_def split: sum.splits option.splits)
  note d = decimalUnscaled_Inr_D [OF u]
  have small: "sint (word_of_int u :: 64 word) = u" if "ltPrecision logical \<le> 18"
  proof (rule sint_literal)
    have "\<bar>u\<bar> < 10 ^ nat (ltPrecision logical)" by (rule d(2))
    also have "\<dots> \<le> (10 :: int) ^ 18" using that d(3) by (intro power_increasing) auto
    finally show "- (2 ^ (LENGTH(64) - 1)) \<le> u" "u < 2 ^ (LENGTH(64) - 1)" by auto
  qed
  have "orEmpty (bytesField bs) = bs" for bs by (simp add: orEmpty_def bytesField_def)
  moreover have "find (\<lambda>k. predicateLiteralType k = Some 9) literalKinds = Some DecimalType"
    by (rule literalKinds_find) (simp add: predicateLiteralType_def)
  ultimately show ?thesis
    using assms(2,3) small d(1) by (auto simp: m l' readLiteral_def orZero_def signedBigInt_signedBigEndian)
qed

lemma temporal_literal:
  assumes "encodeTemporalLiteral l v kind logical = Inr l'" "predicateLiteralType kind = Some (plType l)" "\<not> plIsNull l"
    "kind \<in> {DateType, TimeType, TimestampType, TimestampLTZType}" "literalInRange kind v"
  shows "readLiteral logical l' = literalMeaning kind v"
proof -
  obtain t where v: "v = LTime t" using assms(1) by (cases v) (auto simp: encodeTemporalLiteral_def)
  note find = literalKinds_find [OF assms(2)]
  have t: "0 \<le> nanosecond t" "nanosecond t < 1000000000" using assms(5) by (auto simp: v literalInRange_def)
  consider "kind = DateType" | "kind = TimeType" | "kind = TimestampType \<or> kind = TimestampLTZType" using assms(4) by auto
  then show ?thesis
  proof cases
    case 1
    have mid: "Hour t = 0" "Minute t = 0" "Value_Codec.Second t = 0" "nanosecond t = 0"
      and l': "l' = l\<lparr>plBigint := Some (word_of_int (sint (temporalInt DateType t)))\<rparr>"
      using assms(1) 1 by (auto simp: v encodeTemporalLiteral_def)
    have "nanoOfDay t = 0" using mid by (simp add: nanoOfDay_def)
    then have "wallSec t mod 86400 = 0" using nanoOfDay_wall [of t] mid(4) by simp
    then have "civilDay t * 86400 = wallSec t" unfolding civilDay_def using div_mult_mod_eq [of "wallSec t" 86400] by simp
    moreover have "sint (temporalInt DateType t) = civilDay t"
    proof -
      have "midnightUnix (civilDay t) sdiv 86400 = civilDay t"
        by (simp add: midnightUnix_def signed_divide_int_def sgn_mult abs_mult mult_sgn_abs)
      then show ?thesis using assms(5) 1 by (simp add: temporalInt_def sint_literal v literalInRange_def)
    qed
    moreover have "sint (word_of_int (civilDay t) :: 64 word) = civilDay t"
      using assms(5) 1 by (intro sint_literal) (auto simp: v literalInRange_def)
    ultimately show ?thesis using 1 assms(3) find mid(4)
      by (simp add: l' v readLiteral_def literalMeaning_def orZero_def keptNanos_def)
  next
    case 2
    have ms: "nanosecond t smod 1000000 = 0" and l': "l' = l\<lparr>plInt := Some (temporalInt TimeType t)\<rparr>"
      using assms(1) 2 by (auto simp: v encodeTemporalLiteral_def)
    have n: "0 \<le> nanoOfDay t" using t(1) by (rule nanoOfDay_nonneg)
    have "nanosecond t mod 1000000 = 0" using ms t by (simp add: smod_nonneg)
    then have "nanoOfDay t mod 1000000 = 0" unfolding nanoOfDay_wall
      using mod_mult_self4 [of 1000000 "(wallSec t mod 86400) * 1000" "nanosecond t"] by (simp add: algebra_simps)
    then have d: "nanoOfDay t div 1000000 * 1000000 = nanoOfDay t" using div_mult_mod_eq [of "nanoOfDay t" 1000000] by simp
    have "nanoOfDay t \<le> 86399 * 1000000000 + 999999999"
      using t pos_mod_bound [of 86400 "wallSec t"] by (simp add: nanoOfDay_wall)
    then have "nanoOfDay t div 1000000 \<le> 86399999" by simp
    then have "sint (temporalInt TimeType t) = nanoOfDay t div 1000000"
      using n by (simp add: temporalInt_def sdiv_nonneg sint_literal)
    then show ?thesis using 2 assms(3) find d by (simp add: l' v readLiteral_def literalMeaning_def orZero_def)
  next
    case 3
    have l': "l' = l\<lparr>plTimestampMillis := Some (fst (timestampParts kind t)), plTimestampNanos := Some (snd (timestampParts kind t))\<rparr>"
      using assms(1) 3 by (auto simp: v encodeTemporalLiteral_def split: prod.splits)
    have "sint (word_of_int (keptNanos kind t div 1000000) :: 64 word) = keptNanos kind t div 1000000"
      using assms(5) 3 by (intro sint_literal) (auto simp: v literalInRange_def)
    moreover have "sint (word_of_int (keptNanos kind t mod 1000000) :: 32 word) = keptNanos kind t mod 1000000"
    proof -
      have "0 \<le> keptNanos kind t mod 1000000" "keptNanos kind t mod 1000000 < 1000000" by simp_all
      then show ?thesis by (intro sint_literal) auto
    qed
    ultimately have "sint (fst (timestampParts kind t)) * 1000000 + sint (snd (timestampParts kind t)) = keptNanos kind t"
      by (simp add: timestampParts_kept [OF t])
    then show ?thesis using 3 assms(3) find by (auto simp: l' v readLiteral_def literalMeaning_def orZero_def)
  qed
qed

lemma encodeLiteral_meaning:
  assumes "encodeLiteral v code kind logical = Inr l" "predicateLiteralType kind = Some code" "literalInRange kind v"
  shows "readLiteral logical l = literalMeaning kind v"
proof (cases "v = LNil")
  case True
  then show ?thesis using assms(1) by (auto simp: encodeLiteral_def Let_def readLiteral_def literalMeaning_def emptyLiteral_def)
next
  case False
  let ?l = "emptyLiteral code False"
  have e: "plType ?l = code" "\<not> plIsNull ?l" by (simp_all add: emptyLiteral_def)
  consider "kind = DecimalType" | "kind \<in> {DateType, TimeType, TimestampType, TimestampLTZType}"
    | "kind \<notin> {DecimalType, DateType, TimeType, TimestampType, TimestampLTZType}" by auto
  then show ?thesis
  proof cases
    case 1
    then show ?thesis using assms False e by (auto simp: encodeLiteral_def Let_def predicateLiteralType_def intro!: decimal_literal)
  next
    case 2
    then show ?thesis using assms False e by (intro temporal_literal [of ?l v kind logical l]) (auto simp: encodeLiteral_def Let_def)
  next
    case 3
    then show ?thesis using assms False e by (intro scalar_literal [of ?l v kind l]) (auto simp: encodeLiteral_def Let_def)
  qed
qed

section \<open>Filters\<close>

text \<open>A filter as a tree over column names, from the predicate and from the message.\<close>

datatype filter_tree = FLeaf int string "meaning option list" | FCompound int "filter_tree list"

definition columnKind :: "column \<Rightarrow> data_type" where
  "columnKind c = dataTypeForLogicalType (logicalTypeForColumn c)"

definition kindOf :: "schema \<Rightarrow> string \<Rightarrow> data_type" where
  "kindOf s name = (case columnsByName s name of None \<Rightarrow> OtherType [] | Some c \<Rightarrow> columnKind c)"

fun predicateMeaning :: "schema \<Rightarrow> predicate \<Rightarrow> filter_tree" where
  "predicateMeaning s (Predicate isCompound function column literals children err) =
     (if isCompound then FCompound function (map (predicateMeaning s) children)
      else FLeaf function column (map (literalMeaning (kindOf s column)) literals))"

fun readPredicate :: "schema \<Rightarrow> pb_predicate \<Rightarrow> filter_tree" where
  "readPredicate s (PbLeaf function fieldId literals) =
     (case find (\<lambda>c. colID c = sint fieldId) (Columns s) of None \<Rightarrow> FLeaf function [] []
      | Some c \<Rightarrow> FLeaf function (colName c) (map (readLiteral (logicalTypeForColumn c)) literals))"
| "readPredicate s (PbCompound function children) = FCompound function (map (readPredicate s) children)"

fun literalsInRange :: "schema \<Rightarrow> predicate \<Rightarrow> bool" where
  "literalsInRange s (Predicate isCompound function column literals children err) \<longleftrightarrow>
     (\<forall>v \<in> set literals. literalInRange (kindOf s column) v) \<and> (\<forall>c \<in> set children. literalsInRange s c)"

lemma columnsByName_in: "columnsByName s name = Some c \<Longrightarrow> c \<in> set (Columns s) \<and> colName c = name"
  by (auto simp: columnsByName_def dest: map_of_SomeD)

lemma find_filter: "find P cs = (case filter P cs of [] \<Rightarrow> None | y # _ \<Rightarrow> Some y)"
  by (induction cs) auto

lemma unique_find:
  assumes "c \<in> set cs" "length (filter (\<lambda>c'. f c' = f c) cs) = 1"
  shows "find (\<lambda>c'. f c' = f c) cs = Some c"
proof -
  obtain y where y: "filter (\<lambda>c'. f c' = f c) cs = [y]" using assms(2) by (auto simp: length_Suc_conv)
  have "c \<in> set (filter (\<lambda>c'. f c' = f c) cs)" using assms(1) by simp
  then show ?thesis unfolding find_filter y by simp
qed

lemma encodeLiterals_meaning:
  assumes "encodeLiterals code kind logical vs = Inr ls" "predicateLiteralType kind = Some code" "\<forall>v \<in> set vs. literalInRange kind v"
  shows "map (readLiteral logical) ls = map (literalMeaning kind) vs"
  using assms(1,3)
proof (induction vs arbitrary: ls)
  case (Cons v vs)
  then show ?case using encodeLiteral_meaning [OF _ assms(2), of v logical] by (auto split: sum.splits)
qed simp

lemma encodeLeaf_meaning:
  assumes "encodeLeaf s (Predicate False f column literals children None) = Inr pb" "\<forall>c \<in> set (Columns s). colID c < 2 ^ 31"
    "\<forall>v \<in> set literals. literalInRange (kindOf s column) v"
  shows "readPredicate s pb = FLeaf f column (map (literalMeaning (kindOf s column)) literals)"
proof -
  obtain c code ls where c: "columnsByName s column = Some c" and k: "0 \<le> colID c" "idCount s (colID c) = 1"
    and code: "predicateLiteralType (columnKind c) = Some code"
    and ls: "encodeLiterals code (columnKind c) (logicalTypeForColumn c) literals = Inr ls"
    and pb: "pb = PbLeaf f (word_of_int (colID c)) ls"
    using assms(1) by (auto simp: encodeLeaf_def Let_def columnKind_def split: option.splits if_splits)
  note cs = columnsByName_in [OF c]
  have "sint (word_of_int (colID c) :: 32 word) = colID c" using k(1) assms(2) cs by (intro sint_literal) auto
  then have "find (\<lambda>c'. colID c' = sint (word_of_int (colID c) :: 32 word)) (Columns s) = Some c"
    using unique_find [of c "Columns s" colID] cs k(2) by (simp add: idCount_def)
  moreover have "kindOf s column = columnKind c" by (simp add: kindOf_def c)
  ultimately show ?thesis using encodeLiterals_meaning [OF ls code] assms(3) cs by (simp add: pb)
qed

lemma encodePredicate_meaning:
  "encodePredicate s p = Inr pb \<Longrightarrow> literalsInRange s p \<Longrightarrow> \<forall>c \<in> set (Columns s). colID c < 2 ^ 31 \<Longrightarrow>
     readPredicate s pb = predicateMeaning s p"
  "encodeChildren s ps = Inr pbs \<Longrightarrow> \<forall>p \<in> set ps. literalsInRange s p \<Longrightarrow> \<forall>c \<in> set (Columns s). colID c < 2 ^ 31 \<Longrightarrow>
     map (readPredicate s) pbs = map (predicateMeaning s) ps"
proof (induction s p and s ps arbitrary: pb and pbs rule: encodePredicate_encodeChildren.induct)
  case (1 s isCompound f column literals children err)
  then have err: "err = None" by (auto split: option.splits)
  show ?case
  proof (cases isCompound)
    case False
    then show ?thesis using 1(2-4) encodeLeaf_meaning [of s f column literals children pb] by (simp add: err)
  next
    case True
    then show ?thesis using 1 by (auto simp: err)
  qed
qed auto

text \<open>
  C29. A filter that compiles says exactly what the predicate says: the same tree of conjunctions and disjunctions, the same
  comparison on the column the predicate names, found by a field ID that no other column has, and for every literal, whatever Go
  type it was given in, a value that reads as that literal, without rounding, truncation or wrap-around. Dates and timestamps are
  assumed to lie within their wire fields.
\<close>

theorem predicate_compiled_exact:
  assumes "compilePredicate p s = Inr pb" "literalsInRange s p" "\<forall>c \<in> set (Columns s). colID c < 2 ^ 31"
  shows "readPredicate s pb = predicateMeaning s p"
  using encodePredicate_meaning(1) assms by (simp add: compilePredicate_def)

section \<open>A concrete filter\<close>

definition exampleColumn :: "string \<Rightarrow> data_type \<Rightarrow> logical_type option \<Rightarrow> int \<Rightarrow> column" where
  "exampleColumn name kind logical k =
     \<lparr>colName = name, colType = kind, colNullable = True, colLogicalType = logical, colDescription = [], colID = k\<rparr>"

definition exampleSchema :: schema where
  "exampleSchema = \<lparr>Columns = [exampleColumn ''n'' SmallIntType None 0, exampleColumn ''f'' FloatType None 1,
       exampleColumn ''d'' DecimalType (Some (LogicalType ''DECIMAL'' True 0 10 2 None None None [])) 2,
       exampleColumn ''t'' TimestampType (Some (LogicalType ''TIMESTAMP_WITHOUT_TIME_ZONE'' True 0 6 0 None None None [])) 3],
     PrimaryKey = [], BucketKey = [], PartitionKey = [], AutoIncrement = [], HighestFieldID = 3\<rparr>"

definition exampleLeaves :: "predicate list" where
  "exampleLeaves = [Ge (Col ''n'') (LUint8 200), In (Col ''d'') [LRat (Some (5 / 4)), LNil, LInt (-3)],
     Eq (Col ''t'') (LTime \<lparr>unixSec = -1, nanosecond = 5000, zoneOffset = 3600\<rparr>), Lt (Col ''f'') (LInt64 16777216)]"

definition examplePredicate :: predicate where
  "examplePredicate = And [exampleLeaves ! 0, exampleLeaves ! 1, Or [exampleLeaves ! 2, exampleLeaves ! 3]]"

definition exampleMeaning :: filter_tree where
  "exampleMeaning = FCompound 0 [FLeaf 5 ''n'' [Some (MInteger 200)],
     FLeaf 11 ''d'' [Some (MDecimal (5 / 4)), Some MNull, Some (MDecimal (-3))],
     FCompound 1 [FLeaf 0 ''t'' [Some (MNanos 3599000005000)], FLeaf 2 ''f'' [Some (MFloat (Finite 16777216))]]]"

lemma example_leaves:
  "list_all (\<lambda>p. case encodePredicate exampleSchema p of Inl _ \<Rightarrow> False | Inr _ \<Rightarrow> True) (take 3 exampleLeaves)"
  by code_simp

lemma example_float_leaf: "\<exists>pb. encodePredicate exampleSchema (exampleLeaves ! 3) = Inr pb"
proof -
  have "encodeLiteral (LInt64 16777216) 5 FloatType l = Inr (emptyLiteral 5 False\<lparr>plFloat := Some (floatNarrow (floatOfInt 16777216))\<rparr>)" for l
    by (simp add: encodeLiteral_def encodeScalarLiteral_def floatLiteral_def integerLiteral_def integerOf_def integerBits_def)
  moreover have "encodeLeaf exampleSchema (Predicate False 2 ''f'' [LInt64 16777216] [] None) = (case encodeLiteral (LInt64 16777216) 5 FloatType
      (LogicalType ''FLOAT'' True 0 0 0 None None None []) of Inl _ \<Rightarrow> Inl ErrInvalidConfig | Inr l \<Rightarrow> Inr (PbLeaf 2 1 [l]))"
    by (simp add: encodeLeaf_def exampleSchema_def exampleColumn_def columnsByName_def idCount_def logicalTypeForColumn_def logicalRoot_def
        dataTypeForLogicalType_def DataType_def predicateLiteralType_def checkLeafShape_def leaf_codes Let_def split: sum.splits)
  ultimately show ?thesis by (simp add: exampleLeaves_def leaf_builders leaf_codes)
qed

theorem predicate_compiled_exact_witness:
  "(\<exists>pb. compilePredicate examplePredicate exampleSchema = Inr pb \<and> readPredicate exampleSchema pb = exampleMeaning)"
proof -
  obtain pb where pb: "compilePredicate examplePredicate exampleSchema = Inr pb"
    using example_leaves example_float_leaf
    by (auto simp: compilePredicate_def examplePredicate_def exampleLeaves_def And_def Or_def combine_def split: sum.splits)
  have "literalsInRange exampleSchema examplePredicate" by code_simp
  moreover have "\<forall>c \<in> set (Columns exampleSchema). colID c < 2 ^ 31" by code_simp
  ultimately have "readPredicate exampleSchema pb = predicateMeaning exampleSchema examplePredicate"
    by (rule predicate_compiled_exact [OF pb])
  also have "\<dots> = exampleMeaning" by code_simp
  finally show ?thesis using pb by blast
qed

text \<open>An empty binary literal is sent without a value: a copy of an empty slice is nil, which the message leaves out.\<close>

lemma empty_binary_literal_unset:
  "encodeLiteral (LBytes []) 15 BytesType logical = Inr (emptyLiteral 15 False)"
  by (simp add: encodeLiteral_def encodeScalarLiteral_def emptyLiteral_def bytesField_def)

end
