(* ===== verification/Security_Token.thy ===== *)
theory Security_Token
  imports Backpressure Time_Values Upsert_Config Go_Strings
begin

text \<open>
  The manager of temporary filesystem credentials: \<^verbatim>\<open>pkg/fgo/security_token.go\<close>. One goroutine acquires tokens, offers them
  to the receivers, publishes them, and sleeps until the next renewal; callers read the current token at any time. What the
  provider, the receivers, the clock and the random numbers answer are arguments of a refresh.
\<close>

section \<open>Tokens\<close>

record security_token =
  tkSchema :: string
  tkToken :: bytes
  tkExpiresAt :: go_time
  tkAdditionalInfo :: "string \<rightharpoonup> string"
  tkRevoked :: bool

definition zeroTime :: go_time where
  "zeroTime = \<lparr>unixSec = - 62135596800, nanosecond = 0, zoneOffset = 0\<rparr>"

definition emptyToken :: security_token where
  "emptyToken = \<lparr>tkSchema = [], tkToken = [], tkExpiresAt = zeroTime, tkAdditionalInfo = (\<lambda>_. None), tkRevoked = False\<rparr>"

definition IsZero :: "go_time \<Rightarrow> bool" where
  "IsZero t \<longleftrightarrow> totalNanos t = totalNanos zeroTime"

text \<open>Instants compare by their nanoseconds.\<close>

definition tokenExpired :: "security_token \<Rightarrow> go_time \<Rightarrow> int \<Rightarrow> bool" where
  "tokenExpired token now skew \<longleftrightarrow> \<not> IsZero (tkExpiresAt token) \<and> \<not> totalNanos now + skew < totalNanos (tkExpiresAt token)"

definition ErrFileSystemSecurityToken :: go_error where
  "ErrFileSystemSecurityToken = Plain ''fgo: filesystem security token unavailable''"

definition ErrSecurityTokenProviderDisabled :: go_error where
  "ErrSecurityTokenProviderDisabled = Plain ''fgo: filesystem security token provider disabled''"

definition validateSecurityToken :: "security_token \<Rightarrow> go_time \<Rightarrow> int \<Rightarrow> unit result" where
  "validateSecurityToken token now skew =
     guardE (TrimSpace (tkSchema token) = []) ErrFileSystemSecurityToken (
     guardE (\<not> tkRevoked token \<and> tokenExpired token now skew) ErrFileSystemSecurityToken (Inr ()))"

text \<open>\<^verbatim>\<open>fetchFileSystemSecurityToken\<close>: the answer of the coordinator, \<open>None\<close> for a message of another type. The expiration
  is in milliseconds.\<close>

record token_response =
  trSchema :: string
  trToken :: bytes
  trExpirationTime :: "int option"
  trAdditionInfo :: "(string \<times> string) list"

definition fetchFileSystemSecurityToken :: "token_response option result \<Rightarrow> security_token result" where
  "fetchFileSystemSecurityToken answer =
     andThen answer (\<lambda>message. case message of None \<Rightarrow> Inl ErrFileSystemSecurityToken
     | Some m \<Rightarrow> Inr \<lparr>tkSchema = trSchema m, tkToken = trToken m,
         tkExpiresAt = (case trExpirationTime m of None \<Rightarrow> zeroTime | Some ms \<Rightarrow> timeUnix (ms div 1000) (ms mod 1000 * 1000000)),
         tkAdditionalInfo = map_of (rev (trAdditionInfo m)), tkRevoked = False\<rparr>)"

section \<open>Settings\<close>

text \<open>A \<^verbatim>\<open>float64\<close> setting: \<open>Dyadic m k\<close> is \<open>m / 2^k\<close>, and every finite number that is not negative has that form.
  \<open>OutOfRange\<close> stands for the negative numbers and the infinities.\<close>

datatype setting_float = Dyadic nat nat | OutOfRange | SettingNaN

record refresh_config =
  rfRenewalTimeRatio :: setting_float
  rfRenewalRetryBackoff :: int
  rfMaxRenewalRetryBackoff :: int
  rfClockSkew :: int
  rfJitter :: setting_float

definition isZeroFloat :: "setting_float \<Rightarrow> bool" where
  "isZeroFloat f = (case f of Dyadic m k \<Rightarrow> m = 0 | _ \<Rightarrow> False)"

text \<open>\<^verbatim>\<open>f <= 0 || f >= 1\<close> and \<^verbatim>\<open>f < 0 || f > 1\<close>: every comparison with NaN is false.\<close>

definition notBetween :: "setting_float \<Rightarrow> bool" where
  "notBetween f = (case f of Dyadic m k \<Rightarrow> m = 0 \<or> m \<ge> 2 ^ k | OutOfRange \<Rightarrow> True | SettingNaN \<Rightarrow> False)"

definition notWithin :: "setting_float \<Rightarrow> bool" where
  "notWithin f = (case f of Dyadic m k \<Rightarrow> m > 2 ^ k | OutOfRange \<Rightarrow> True | SettingNaN \<Rightarrow> False)"

definition hour :: int where "hour = 60 * minute"

definition refreshNormalized :: "refresh_config \<Rightarrow> refresh_config result" where
  "refreshNormalized c =
     (let c = c\<lparr>rfRenewalTimeRatio := (if isZeroFloat (rfRenewalTimeRatio c) then Dyadic 3 2 else rfRenewalTimeRatio c),
        rfRenewalRetryBackoff := (if rfRenewalRetryBackoff c = 0 then minute else rfRenewalRetryBackoff c),
        rfMaxRenewalRetryBackoff := (if rfMaxRenewalRetryBackoff c = 0 then hour else rfMaxRenewalRetryBackoff c),
        rfClockSkew := (if rfClockSkew c = 0 then 30 * second else rfClockSkew c)\<rparr>
      in guardE (notBetween (rfRenewalTimeRatio c) \<or> rfRenewalRetryBackoff c \<le> 0
           \<or> rfMaxRenewalRetryBackoff c < rfRenewalRetryBackoff c \<or> rfClockSkew c < 0 \<or> notWithin (rfJitter c)) ErrInvalidConfig (Inr c))"

section \<open>Delays\<close>

text \<open>Go leaves the conversion of a float that does not fit \<^verbatim>\<open>int64\<close>, or is NaN, to the implementation: \<open>unfit\<close> is what
  it gives. Products are rounded to 53 bits.\<close>

definition toDuration :: "int \<Rightarrow> nat \<Rightarrow> nat \<Rightarrow> int" where
  "toDuration unfit m k = (let d = int (m div 2 ^ k) in if d \<ge> 2 ^ 63 then unfit else d)"

definition scaleDuration :: "int \<Rightarrow> int \<Rightarrow> setting_float \<Rightarrow> int" where
  "scaleDuration unfit d f = (case f of Dyadic m k \<Rightarrow> toDuration unfit (round53 (round53 (nat d) * m)) k | _ \<Rightarrow> unfit)"

text \<open>\<^verbatim>\<open>1 + (random*2-1)*Jitter\<close> for \<open>random = n / 2^53\<close>, as \<^verbatim>\<open>rand.Float64\<close> draws it; \<open>random*2-1\<close> is exact.\<close>

definition jitterFactor :: "nat \<Rightarrow> nat \<Rightarrow> nat \<Rightarrow> setting_float" where
  "jitterFactor n m k =
     (if 2 * n \<ge> 2 ^ 53 then Dyadic (round53 (2 ^ (53 + k) + round53 ((2 * n - 2 ^ 53) * m))) (53 + k)
      else Dyadic (round53 (2 ^ (53 + k) - round53 ((2 ^ 53 - 2 * n) * m))) (53 + k))"

definition jitter :: "int \<Rightarrow> refresh_config \<Rightarrow> nat \<Rightarrow> int \<Rightarrow> int" where
  "jitter unfit c n delay =
     (if isZeroFloat (rfJitter c) then delay
      else let jittered = scaleDuration unfit delay (case rfJitter c of Dyadic m k \<Rightarrow> jitterFactor n m k | f \<Rightarrow> f)
           in if jittered < 0 then 0 else jittered)"

definition retryBackoff :: "int \<Rightarrow> refresh_config \<Rightarrow> int \<Rightarrow> int" where
  "retryBackoff unfit c failures =
     (let exponent = (if failures - 1 > 30 then 30 else failures - 1);
          delay = toDuration unfit (round53 (nat (rfRenewalRetryBackoff c)) * 2 ^ nat exponent) 0
      in if delay > rfMaxRenewalRetryBackoff c \<or> delay < 0 then rfMaxRenewalRetryBackoff c else delay)"

text \<open>\<^verbatim>\<open>Time.Sub\<close> saturates.\<close>

definition durationBetween :: "int \<Rightarrow> int \<Rightarrow> int" where
  "durationBetween t u = max (- (2 ^ 63)) (min (2 ^ 63 - 1) (t - u))"

definition renewalDelay :: "int \<Rightarrow> refresh_config \<Rightarrow> nat \<Rightarrow> go_time \<Rightarrow> go_time \<Rightarrow> int" where
  "renewalDelay unfit c n now expiresAt =
     (let lifetime = durationBetween (totalNanos expiresAt - rfClockSkew c) (totalNanos now)
      in if lifetime \<le> 0 then jitter unfit c n (rfRenewalRetryBackoff c)
         else jitter unfit c n (scaleDuration unfit lifetime (rfRenewalTimeRatio c)))"

section \<open>The manager\<close>

record token_manager =
  tmCurrent :: security_token
  tmAvailable :: bool
  tmDisabled :: bool
  tmFailures :: int
  tmStarted :: bool
  tmStopped :: bool
  tmCancelled :: bool
  tmDone :: bool

definition newSecurityTokenManager :: token_manager where
  "newSecurityTokenManager = \<lparr>tmCurrent = emptyToken, tmAvailable = False, tmDisabled = False, tmFailures = 0, tmStarted = False,
     tmStopped = False, tmCancelled = False, tmDone = False\<rparr>"

definition disable :: "token_manager \<Rightarrow> token_manager" where
  "disable m = m\<lparr>tmCurrent := emptyToken, tmAvailable := False, tmDisabled := True\<rparr>"

definition Current :: "refresh_config \<Rightarrow> go_time \<Rightarrow> token_manager \<Rightarrow> security_token option" where
  "Current c now m = (if \<not> tmAvailable m \<or> tokenExpired (tmCurrent m) now (rfClockSkew c) then None else Some (tmCurrent m))"

definition setPublished :: "security_token \<Rightarrow> token_manager \<Rightarrow> token_manager" where
  "setPublished token m =
     (if tkRevoked token then m\<lparr>tmCurrent := emptyToken, tmAvailable := False\<rparr> else m\<lparr>tmCurrent := token, tmAvailable := True\<rparr>)"

text \<open>What the world answers during one refresh: the token, the clock at the two readings, the receivers in turn (a receiver
  that panics gives \<^verbatim>\<open>ErrFileSystemSecurityToken\<close>, a cancelled context the error of the context), whether the context is
  found cancelled after a refusal, and the random number.\<close>

record refresh_world =
  rwToken :: "security_token result"
  rwNow :: go_time
  rwReceivers :: "go_error option list"
  rwCancelledSeen :: bool
  rwLater :: go_time
  rwRandom :: nat

definition publish :: "refresh_world \<Rightarrow> security_token \<Rightarrow> token_manager \<Rightarrow> bool \<times> token_manager" where
  "publish w token m = (if \<exists>e \<in> set (rwReceivers w). e \<noteq> None then (False, m) else (True, setPublished token m))"

definition failedDelay :: "int \<Rightarrow> refresh_config \<Rightarrow> nat \<Rightarrow> token_manager \<Rightarrow> int \<times> token_manager" where
  "failedDelay unfit c n m = (jitter unfit c n (retryBackoff unfit c (tmFailures m + 1)), m\<lparr>tmFailures := tmFailures m + 1\<rparr>)"

text \<open>The delay until the next refresh, or \<open>None\<close> to stop.\<close>

definition refreshOnce :: "int \<Rightarrow> refresh_config \<Rightarrow> refresh_world \<Rightarrow> token_manager \<Rightarrow> int option \<times> token_manager" where
  "refreshOnce unfit c w m =
     (let failed = (case failedDelay unfit c (rwRandom w) m of (d, m) \<Rightarrow> (Some d, m)) in
      case rwToken w of
        Inl e \<Rightarrow> if errorsIs e ErrSecurityTokenProviderDisabled then (None, disable m) else failed
      | Inr token \<Rightarrow>
          if validateSecurityToken token (rwNow w) (rfClockSkew c) \<noteq> Inr () then failed
          else (case publish w token m of
              (False, m) \<Rightarrow> if rwCancelledSeen w then (None, m) else failed
            | (True, m) \<Rightarrow>
                let m = m\<lparr>tmFailures := 0\<rparr> in
                if tkRevoked token then (Some (jitter unfit c (rwRandom w) (rfRenewalRetryBackoff c)), m)
                else if IsZero (tkExpiresAt token) then (None, m)
                else (Some (renewalDelay unfit c (rwRandom w) (rwLater w) (tkExpiresAt token)), m)))"

section \<open>The loop and its callers\<close>

text \<open>\<^verbatim>\<open>run\<close> waits, refreshes and waits again; \<^verbatim>\<open>Start\<close> and \<^verbatim>\<open>Stop\<close> come from other goroutines. \<open>trAccepted\<close>
  remembers the refreshes whose token every receiver took.\<close>

datatype token_phase = NotStarted | TokenWaiting int | TokenRefreshing | TokenEnded

record token_run =
  trManager :: token_manager
  trPhase :: token_phase
  trAccepted :: "refresh_world list"

definition newTokenRun :: token_run where
  "newTokenRun = \<lparr>trManager = newSecurityTokenManager, trPhase = NotStarted, trAccepted = []\<rparr>"

definition endRun :: "token_manager \<Rightarrow> token_run \<Rightarrow> token_run" where
  "endRun m s = s\<lparr>trManager := m\<lparr>tmDone := True\<rparr>, trPhase := TokenEnded\<rparr>"

definition acceptedToken :: "refresh_config \<Rightarrow> refresh_world \<Rightarrow> security_token option" where
  "acceptedToken c w = (case rwToken w of Inl _ \<Rightarrow> None
     | Inr token \<Rightarrow> if validateSecurityToken token (rwNow w) (rfClockSkew c) = Inr () \<and> (\<forall>e \<in> set (rwReceivers w). e = None)
         then Some token else None)"

definition afterRefresh :: "int \<Rightarrow> refresh_config \<Rightarrow> refresh_world \<Rightarrow> token_run \<Rightarrow> token_run" where
  "afterRefresh unfit c w s =
     (let s' = s\<lparr>trAccepted := trAccepted s @ (if acceptedToken c w = None then [] else [w])\<rparr> in
      case refreshOnce unfit c w (trManager s) of
        (None, m) \<Rightarrow> endRun m s'
      | (Some delay, m) \<Rightarrow> s'\<lparr>trManager := m, trPhase := TokenWaiting delay\<rparr>)"

definition stopManager :: "token_manager \<Rightarrow> token_manager" where
  "stopManager m = (if tmStarted m then m\<lparr>tmStopped := True, tmCancelled := True\<rparr> else m\<lparr>tmStopped := True, tmDone := True\<rparr>)"

inductive token_step :: "int \<Rightarrow> refresh_config \<Rightarrow> token_run \<Rightarrow> token_run \<Rightarrow> bool"
  for unfit c where
  start: "\<not> tmStarted (trManager s) \<Longrightarrow> \<not> tmStopped (trManager s) \<Longrightarrow>
    token_step unfit c s (s\<lparr>trManager := trManager s\<lparr>tmStarted := True\<rparr>, trPhase := TokenWaiting 0\<rparr>)"
| stop: "\<not> tmStopped (trManager s) \<Longrightarrow> token_step unfit c s (s\<lparr>trManager := stopManager (trManager s)\<rparr>)"
| waited: "trPhase s = TokenWaiting delay \<Longrightarrow> 0 < delay \<or> \<not> tmCancelled (trManager s) \<Longrightarrow>
    token_step unfit c s (s\<lparr>trPhase := TokenRefreshing\<rparr>)"
| cancelled: "trPhase s = TokenWaiting delay \<Longrightarrow> tmCancelled (trManager s) \<Longrightarrow> token_step unfit c s (endRun (trManager s) s)"
| refresh: "trPhase s = TokenRefreshing \<Longrightarrow> rwRandom w < 2 ^ 53 \<Longrightarrow> (rwCancelledSeen w \<longrightarrow> tmCancelled (trManager s)) \<Longrightarrow>
    token_step unfit c s (afterRefresh unfit c w s)"

end
