(* ===== verification/Token_Properties.thy ===== *)
theory Token_Properties
  imports Security_Token
begin

text \<open>
  What the token manager promises: callers only see the last accepted token while it is valid, the renewals only end for a good
  reason, and without jitter a renewal is due before the token expires.
\<close>

section \<open>The current token\<close>

definition token_inv :: "refresh_config \<Rightarrow> token_run \<Rightarrow> bool" where
  "token_inv c s \<longleftrightarrow> (let m = trManager s in
     (tmAvailable m \<longrightarrow> trAccepted s \<noteq> [] \<and> acceptedToken c (last (trAccepted s)) = Some (tmCurrent m) \<and> \<not> tkRevoked (tmCurrent m)
       \<and> \<not> tmDisabled m)
     \<and> (tmDisabled m \<longrightarrow> trPhase s = TokenEnded)
     \<and> (trPhase s = TokenEnded \<longrightarrow> tmDone m \<and> (tmCancelled m \<or> tmDisabled m \<or> tmAvailable m \<and> IsZero (tkExpiresAt (tmCurrent m))))
     \<and> (trPhase s = NotStarted \<longleftrightarrow> \<not> tmStarted m) \<and> (tmCancelled m \<longrightarrow> tmStopped m)
     \<and> (tmDone m \<longrightarrow> trPhase s = TokenEnded \<or> tmStopped m \<and> \<not> tmStarted m) \<and> 0 \<le> tmFailures m)"

lemma refreshOnce_cases:
  assumes "refreshOnce unfit c w m = (next_delay, m')"
  obtains (disabled) e where "rwToken w = Inl e" "next_delay = None" "m' = disable m" "acceptedToken c w = None"
  | (failed) "acceptedToken c w = None" "next_delay \<noteq> None" "m' = m\<lparr>tmFailures := tmFailures m + 1\<rparr>"
      "next_delay = Some (jitter unfit c (rwRandom w) (retryBackoff unfit c (tmFailures m + 1)))"
  | (cancelled) "acceptedToken c w = None" "next_delay = None" "m' = m" "rwCancelledSeen w"
  | (revoked) t where "acceptedToken c w = Some t" "tkRevoked t" "m' = (setPublished t m)\<lparr>tmFailures := 0\<rparr>"
      "next_delay = Some (jitter unfit c (rwRandom w) (rfRenewalRetryBackoff c))"
  | (unlimited) t where "acceptedToken c w = Some t" "\<not> tkRevoked t" "IsZero (tkExpiresAt t)" "next_delay = None"
      "m' = (setPublished t m)\<lparr>tmFailures := 0\<rparr>"
  | (renewal) t where "acceptedToken c w = Some t" "\<not> tkRevoked t" "\<not> IsZero (tkExpiresAt t)" "m' = (setPublished t m)\<lparr>tmFailures := 0\<rparr>"
      "next_delay = Some (renewalDelay unfit c (rwRandom w) (rwLater w) (tkExpiresAt t))"
proof (cases "rwToken w")
  case (Inl e)
  then have a: "acceptedToken c w = None" by (simp add: acceptedToken_def)
  show thesis
  proof (cases "errorsIs e ErrSecurityTokenProviderDisabled")
    case True
    show thesis by (rule disabled [OF Inl]) (use assms Inl True a in \<open>simp_all add: refreshOnce_def Let_def\<close>)
  next
    case False
    show thesis by (rule failed [OF a]) (use assms Inl False in \<open>auto simp: refreshOnce_def Let_def failedDelay_def\<close>)
  qed
next
  case (Inr t)
  show thesis
  proof (cases "validateSecurityToken t (rwNow w) (rfClockSkew c) = Inr ()")
    case False
    then have a: "acceptedToken c w = None" using Inr by (simp add: acceptedToken_def)
    show thesis by (rule failed [OF a]) (use assms Inr False in \<open>auto simp: refreshOnce_def Let_def failedDelay_def\<close>)
  next
    case v: True
    show thesis
    proof (cases "\<exists>e \<in> set (rwReceivers w). e \<noteq> None")
      case True
      then have a: "acceptedToken c w = None" "publish w t m = (False, m)" using Inr by (auto simp: acceptedToken_def publish_def)
      show thesis
      proof (cases "rwCancelledSeen w")
        case True
        show thesis by (rule cancelled [OF a(1)]) (use assms Inr v a True in \<open>auto simp: refreshOnce_def Let_def\<close>)
      next
        case False
        show thesis by (rule failed [OF a(1)]) (use assms Inr v a False in \<open>auto simp: refreshOnce_def Let_def failedDelay_def\<close>)
      qed
    next
      case False
      then have a: "acceptedToken c w = Some t" "publish w t m = (True, setPublished t m)"
        using Inr v by (auto simp: acceptedToken_def publish_def)
      consider "tkRevoked t" | "\<not> tkRevoked t" "IsZero (tkExpiresAt t)" | "\<not> tkRevoked t" "\<not> IsZero (tkExpiresAt t)" by blast
      then show thesis
      proof cases
        case 1
        show thesis by (rule revoked [OF a(1) 1]) (use assms Inr v a 1 in \<open>auto simp: refreshOnce_def Let_def\<close>)
      next
        case 2
        show thesis by (rule unlimited [OF a(1) 2]) (use assms Inr v a 2 in \<open>auto simp: refreshOnce_def Let_def\<close>)
      next
        case 3
        show thesis by (rule renewal [OF a(1) 3]) (use assms Inr v a 3 in \<open>auto simp: refreshOnce_def Let_def\<close>)
      qed
    qed
  qed
qed

lemma token_step_inv:
  assumes "token_step unfit c s s'" "token_inv c s"
  shows "token_inv c s'"
  using assms
proof cases
  case start
  then show ?thesis using assms(2) by (auto simp: token_inv_def Let_def)
next
  case stop
  then show ?thesis using assms(2) by (auto simp: token_inv_def Let_def stopManager_def)
next
  case (waited delay)
  then show ?thesis using assms(2) by (auto simp: token_inv_def Let_def)
next
  case (cancelled delay)
  then show ?thesis using assms(2) by (auto simp: token_inv_def Let_def endRun_def)
next
  case (refresh w)
  obtain d m' where r: "refreshOnce unfit c w (trManager s) = (d, m')" by fastforce
  from r show ?thesis
    by (cases rule: refreshOnce_cases)
      (use refresh assms(2) r in \<open>auto simp: token_inv_def Let_def afterRefresh_def endRun_def disable_def setPublished_def split: option.splits\<close>)
qed

lemma token_run_inv: "(token_step unfit c)\<^sup>*\<^sup>* newTokenRun s \<Longrightarrow> token_inv c s"
proof (induction rule: rtranclp_induct)
  case base
  show ?case by (simp add: token_inv_def newTokenRun_def newSecurityTokenManager_def)
next
  case (step s s')
  then show ?case by (blast intro: token_step_inv)
qed

text \<open>
  C27. Under every interleaving of \<^verbatim>\<open>Start\<close>, \<^verbatim>\<open>Stop\<close>, refreshes and readers, a reader only gets the token that was
  accepted last: acquired from the provider, valid then, taken by every receiver, not revoked, and not expired at the time of the
  call. The renewals only end when the manager was stopped, the provider is disabled, or the current token never expires; a
  disabled provider leaves no token behind.
\<close>

theorem token_current_valid:
  assumes "(token_step unfit c)\<^sup>*\<^sup>* newTokenRun s"
  shows "(\<forall>now t. Current c now (trManager s) = Some t \<longrightarrow>
      (\<exists>earlier w. trAccepted s = earlier @ [w] \<and> rwToken w = Inr t \<and> (\<forall>e \<in> set (rwReceivers w). e = None)
        \<and> validateSecurityToken t (rwNow w) (rfClockSkew c) = Inr ())
      \<and> \<not> tkRevoked t \<and> \<not> tokenExpired t now (rfClockSkew c))
    \<and> (trPhase s = TokenEnded \<longrightarrow> tmStopped (trManager s) \<or> tmDisabled (trManager s)
        \<or> tmAvailable (trManager s) \<and> IsZero (tkExpiresAt (tmCurrent (trManager s))))
    \<and> (tmDisabled (trManager s) \<longrightarrow> (\<forall>now. Current c now (trManager s) = None))"
proof -
  have inv: "token_inv c s" by (rule token_run_inv [OF assms])
  have "(\<exists>earlier w. trAccepted s = earlier @ [w] \<and> rwToken w = Inr t \<and> (\<forall>e \<in> set (rwReceivers w). e = None)
        \<and> validateSecurityToken t (rwNow w) (rfClockSkew c) = Inr ())
      \<and> \<not> tkRevoked t \<and> \<not> tokenExpired t now (rfClockSkew c)" if "Current c now (trManager s) = Some t" for now t
  proof -
    have t: "tmAvailable (trManager s)" "tmCurrent (trManager s) = t" "\<not> tokenExpired t now (rfClockSkew c)"
      using that by (auto simp: Current_def split: if_splits)
    then have a: "trAccepted s \<noteq> []" "acceptedToken c (last (trAccepted s)) = Some t" "\<not> tkRevoked t"
      using inv by (auto simp: token_inv_def Let_def)
    have "trAccepted s = butlast (trAccepted s) @ [last (trAccepted s)]" using a(1) by simp
    moreover have "rwToken (last (trAccepted s)) = Inr t \<and> (\<forall>e \<in> set (rwReceivers (last (trAccepted s))). e = None)
        \<and> validateSecurityToken t (rwNow (last (trAccepted s))) (rfClockSkew c) = Inr ()"
      using a(2) by (auto simp: acceptedToken_def split: sum.splits if_splits)
    ultimately show ?thesis using a(3) t(3) by blast
  qed
  moreover have "trPhase s = TokenEnded \<longrightarrow> tmStopped (trManager s) \<or> tmDisabled (trManager s)
        \<or> tmAvailable (trManager s) \<and> IsZero (tkExpiresAt (tmCurrent (trManager s)))"
    using inv by (auto simp: token_inv_def Let_def)
  moreover have "tmDisabled (trManager s) \<longrightarrow> (\<forall>now. Current c now (trManager s) = None)"
    using inv by (auto simp: token_inv_def Let_def Current_def)
  ultimately show ?thesis by blast
qed

section \<open>Delays\<close>

lemma round53_small: "n < 2 ^ 53 \<Longrightarrow> round53 n = n"
  using bitLen_le [of n 53] by (simp add: round53_def)

lemma scaleDuration_le:
  assumes "0 \<le> d" "d < 2 ^ 53" "m \<le> 2 ^ j * 2 ^ k" "j \<le> 1"
  shows "0 \<le> scaleDuration unfit d (Dyadic m k) \<and> scaleDuration unfit d (Dyadic m k) \<le> 2 ^ j * d"
proof -
  have n: "nat d < 2 ^ 53" using assms(1,2) by (simp add: nat_less_iff)
  have "round53 (nat d * m) \<le> nat d * 2 ^ (j + k)"
    using round53_le [of "nat d * m" "nat d" "j + k"] n assms(3) by (simp add: power_add)
  then have "round53 (nat d * m) div 2 ^ k \<le> nat d * 2 ^ (j + k) div 2 ^ k" by (rule div_le_mono)
  also have "\<dots> = nat d * 2 ^ j" by (simp add: power_add)
  finally have le: "int (round53 (nat d * m) div 2 ^ k) \<le> d * 2 ^ j" using assms(1) by (simp flip: of_nat_le_iff [where 'a = int])
  also have "\<dots> \<le> d * 2 ^ 1" using assms(1,4) by (intro mult_left_mono power_increasing) auto
  finally have "int (round53 (nat d * m) div 2 ^ k) < 2 ^ 63" using assms(2) by simp
  then show ?thesis using le by (simp add: scaleDuration_def toDuration_def Let_def round53_small [OF n] mult.commute)
qed

lemma jitterFactor_le:
  assumes "m \<le> 2 ^ k" "n < 2 ^ 53"
  obtains a where "jitterFactor n m k = Dyadic a (53 + k)" "a \<le> 2 ^ 1 * 2 ^ (53 + k)"
proof (cases "2 * n \<ge> 2 ^ 53")
  case True
  have "(2 * n - 2 ^ 53) * m \<le> 2 ^ 53 * 2 ^ k" using assms by (intro mult_le_mono) auto
  then have "round53 ((2 * n - 2 ^ 53) * m) \<le> 1 * 2 ^ (53 + k)" by (intro round53_le) (simp_all add: power_add)
  then have "round53 (2 ^ (53 + k) + round53 ((2 * n - 2 ^ 53) * m)) \<le> 1 * 2 ^ (54 + k)"
    by (intro round53_le) (simp_all add: power_add)
  then show thesis using True by (intro that) (auto simp: jitterFactor_def power_add)
next
  case False
  have "round53 (2 ^ (53 + k) - round53 ((2 ^ 53 - 2 * n) * m)) \<le> 1 * 2 ^ (53 + k)" by (intro round53_le) simp_all
  then show thesis using False by (intro that) (auto simp: jitterFactor_def)
qed

lemma jitter_le:
  assumes "rfJitter c = Dyadic m k" "m \<le> 2 ^ k" "n < 2 ^ 53" "0 \<le> d" "d < 2 ^ 53"
  shows "0 \<le> jitter unfit c n d \<and> jitter unfit c n d \<le> 2 * d \<and> (m = 0 \<longrightarrow> jitter unfit c n d = d)"
proof -
  from assms(2,3) obtain a where a: "jitterFactor n m k = Dyadic a (53 + k)" "a \<le> 2 ^ 1 * 2 ^ (53 + k)" by (rule jitterFactor_le)
  show ?thesis
    using scaleDuration_le [OF assms(4,5) a(2)] assms(1,4) by (auto simp: jitter_def isZeroFloat_def Let_def a(1))
qed

lemma normalized_settings:
  assumes "refreshNormalized settings = Inr c"
  shows "0 < rfRenewalRetryBackoff c" "rfRenewalRetryBackoff c \<le> rfMaxRenewalRetryBackoff c" "0 \<le> rfClockSkew c"
    "rfJitter c = Dyadic m k \<Longrightarrow> m \<le> 2 ^ k" "rfRenewalTimeRatio c = Dyadic a j \<Longrightarrow> 0 < a \<and> a < 2 ^ j"
  using assms by (auto simp: refreshNormalized_def Let_def notBetween_def notWithin_def)

text \<open>After a failed acquisition or a revoked token the next attempt comes within twice the maximal backoff, within the maximal
  backoff without jitter.\<close>

lemma retry_bounded:
  assumes "refreshNormalized settings = Inr c" "rfJitter c = Dyadic m k" "rfMaxRenewalRetryBackoff c < 2 ^ 53" "n < 2 ^ 53" "0 \<le> failures"
  shows "0 \<le> jitter unfit c n (retryBackoff unfit c failures)"
    "jitter unfit c n (retryBackoff unfit c failures) \<le> 2 * rfMaxRenewalRetryBackoff c"
proof -
  note s = normalized_settings [OF assms(1)]
  have d: "0 \<le> retryBackoff unfit c failures" "retryBackoff unfit c failures \<le> rfMaxRenewalRetryBackoff c"
    using s(1,2) by (auto simp: retryBackoff_def Let_def)
  have "retryBackoff unfit c failures < 2 ^ 53" using d(2) assms(3) by simp
  from jitter_le [OF assms(2) s(4) [OF assms(2)] assms(4) d(1) this, of unfit] d(2)
  show "0 \<le> jitter unfit c n (retryBackoff unfit c failures)"
    "jitter unfit c n (retryBackoff unfit c failures) \<le> 2 * rfMaxRenewalRetryBackoff c" by auto
qed

text \<open>
  C30. Without jitter an expiring token is renewed in time: the delay until its renewal is not negative and lies within its
  remaining lifetime less the clock skew, so that the token is current at every instant before the renewal is due. The remaining
  lifetime is assumed to be below \<open>2^53\<close> nanoseconds, some hundred days, within which the floating-point product is exact enough.
\<close>

theorem token_renewed_in_time:
  assumes "refreshNormalized settings = Inr c" "isZeroFloat (rfJitter c)" "rfRenewalTimeRatio c = Dyadic a k"
    and "refreshOnce unfit c w m = (Some d, m')" "acceptedToken c w = Some t" "\<not> tkRevoked t"
    and lifetime: "0 < totalNanos (tkExpiresAt t) - rfClockSkew c - totalNanos (rwLater w)"
      "totalNanos (tkExpiresAt t) - rfClockSkew c - totalNanos (rwLater w) < 2 ^ 53"
  shows "0 \<le> d \<and> totalNanos (rwLater w) + d \<le> totalNanos (tkExpiresAt t) - rfClockSkew c
    \<and> (\<forall>now. totalNanos now < totalNanos (rwLater w) + d \<longrightarrow> Current c now m' = Some t)"
proof -
  let ?L = "totalNanos (tkExpiresAt t) - rfClockSkew c - totalNanos (rwLater w)"
  from assms(4) have d: "d = renewalDelay unfit c (rwRandom w) (rwLater w) (tkExpiresAt t)" and m': "m' = (setPublished t m)\<lparr>tmFailures := 0\<rparr>"
    using assms(5,6) by (cases rule: refreshOnce_cases; simp)+
  have dur: "durationBetween (totalNanos (tkExpiresAt t) - rfClockSkew c) (totalNanos (rwLater w)) = ?L"
    using lifetime by (simp add: durationBetween_def)
  have "d = scaleDuration unfit ?L (Dyadic a k)" using lifetime(1) assms(2,3) by (simp add: d renewalDelay_def Let_def dur jitter_def)
  moreover have "a \<le> 2 ^ 0 * 2 ^ k" using normalized_settings(5) [OF assms(1,3)] by simp
  ultimately have "0 \<le> d \<and> d \<le> ?L" using scaleDuration_le [of ?L a 0 k unfit] lifetime by simp
  moreover have "Current c now m' = Some t" if "totalNanos now < totalNanos (rwLater w) + d" "d \<le> ?L" for now
    using that assms(6) by (simp add: m' Current_def setPublished_def tokenExpired_def)
  ultimately show ?thesis by auto
qed

section \<open>A concrete refresh\<close>

definition exampleRefresh :: refresh_config where
  "exampleRefresh = \<lparr>rfRenewalTimeRatio = Dyadic 3 2, rfRenewalRetryBackoff = minute, rfMaxRenewalRetryBackoff = hour,
     rfClockSkew = 30 * second, rfJitter = Dyadic 0 0\<rparr>"

definition exampleToken :: security_token where
  "exampleToken = \<lparr>tkSchema = ''s3'', tkToken = [1, 2], tkExpiresAt = timeUnix 3600 0, tkAdditionalInfo = (\<lambda>_. None), tkRevoked = False\<rparr>"

definition exampleWorld :: refresh_world where
  "exampleWorld = \<lparr>rwToken = Inr exampleToken, rwNow = timeUnix 0 0, rwReceivers = [None], rwCancelledSeen = False,
     rwLater = timeUnix 1 0, rwRandom = 0\<rparr>"

lemmas example_token_defs = exampleRefresh_def exampleToken_def exampleWorld_def timeUnix_def zeroTime_def IsZero_def totalNanos_def
  tokenExpired_def validateSecurityToken_def second_def minute_def hour_def

lemma example_schema: "TrimSpace ''s3'' = ''s3''" by code_simp

lemma example_accepted: "acceptedToken exampleRefresh exampleWorld = Some exampleToken"
  by (simp add: acceptedToken_def example_token_defs example_schema)

lemma example_refresh:
  "refreshOnce unfit exampleRefresh exampleWorld m =
     (Some (renewalDelay unfit exampleRefresh 0 (timeUnix 1 0) (timeUnix 3600 0)), (setPublished exampleToken m)\<lparr>tmFailures := 0\<rparr>)"
  by (simp add: refreshOnce_def publish_def example_token_defs example_schema)

definition exampleRun :: token_run where
  "exampleRun = newTokenRun\<lparr>trManager := newSecurityTokenManager\<lparr>tmStarted := True\<rparr>, trPhase := TokenRefreshing\<rparr>"

theorem token_current_valid_witness:
  "(token_step 0 exampleRefresh)\<^sup>*\<^sup>* newTokenRun (afterRefresh 0 exampleRefresh exampleWorld exampleRun)
   \<and> Current exampleRefresh (timeUnix 3000 0) (trManager (afterRefresh 0 exampleRefresh exampleWorld exampleRun)) = Some exampleToken
   \<and> \<not> tokenExpired exampleToken (timeUnix 3000 0) (30 * second)"
proof -
  let ?s = "newTokenRun\<lparr>trManager := newSecurityTokenManager\<lparr>tmStarted := True\<rparr>, trPhase := TokenWaiting 0\<rparr>"
  have "token_step 0 exampleRefresh newTokenRun ?s"
    using token_step.start [of newTokenRun] by (simp add: newTokenRun_def newSecurityTokenManager_def)
  moreover have "token_step 0 exampleRefresh ?s exampleRun"
    using token_step.waited [of ?s 0] by (simp add: exampleRun_def newTokenRun_def newSecurityTokenManager_def)
  moreover have "token_step 0 exampleRefresh exampleRun (afterRefresh 0 exampleRefresh exampleWorld exampleRun)"
    by (rule token_step.refresh) (simp_all add: exampleRun_def exampleWorld_def)
  ultimately have run: "(token_step 0 exampleRefresh)\<^sup>*\<^sup>* newTokenRun (afterRefresh 0 exampleRefresh exampleWorld exampleRun)"
    by (meson converse_rtranclp_into_rtranclp rtranclp.rtrancl_refl)
  have cur: "Current exampleRefresh (timeUnix 3000 0) (trManager (afterRefresh 0 exampleRefresh exampleWorld exampleRun)) = Some exampleToken"
    by (simp add: afterRefresh_def example_refresh Current_def setPublished_def) (simp add: example_token_defs)
  have "\<not> tokenExpired exampleToken (timeUnix 3000 0) (rfClockSkew exampleRefresh)"
    using token_current_valid [OF run] cur by blast
  then show ?thesis using run cur by (simp add: exampleRefresh_def)
qed

theorem token_renewed_in_time_witness:
  "\<exists>d m'. refreshOnce 0 exampleRefresh exampleWorld newSecurityTokenManager = (Some d, m') \<and> 0 \<le> d
     \<and> (\<forall>now. totalNanos now < totalNanos (timeUnix 1 0) + d \<longrightarrow> Current exampleRefresh now m' = Some exampleToken)"
proof -
  have n: "refreshNormalized exampleRefresh = Inr exampleRefresh"
    by (simp add: refreshNormalized_def exampleRefresh_def isZeroFloat_def notBetween_def notWithin_def second_def minute_def hour_def)
  have z: "isZeroFloat (rfJitter exampleRefresh)" "rfRenewalTimeRatio exampleRefresh = Dyadic 3 2" "\<not> tkRevoked exampleToken"
    "0 < totalNanos (tkExpiresAt exampleToken) - rfClockSkew exampleRefresh - totalNanos (rwLater exampleWorld)"
    "totalNanos (tkExpiresAt exampleToken) - rfClockSkew exampleRefresh - totalNanos (rwLater exampleWorld) < 2 ^ 53"
    by (simp_all add: example_token_defs isZeroFloat_def)
  show ?thesis
    using token_renewed_in_time [OF n z(1,2) example_refresh example_accepted z(3-5), of 0 newSecurityTokenManager] example_refresh
    by (auto simp: exampleWorld_def)
qed

text \<open>A ratio that is not a number passes the validation of the settings.\<close>

lemma nan_ratio_accepted: "refreshNormalized (exampleRefresh\<lparr>rfRenewalTimeRatio := SettingNaN\<rparr>) = Inr (exampleRefresh\<lparr>rfRenewalTimeRatio := SettingNaN\<rparr>)"
  by (simp add: refreshNormalized_def exampleRefresh_def isZeroFloat_def notBetween_def notWithin_def second_def minute_def hour_def)

text \<open>The delay it gives is the unspecified conversion of NaN; where that is negative, the renewals do not wait at all.\<close>

lemma nan_ratio_delay:
  assumes "rfRenewalTimeRatio c = SettingNaN" "isZeroFloat (rfJitter c)" "0 < totalNanos expiresAt - rfClockSkew c - totalNanos now"
  shows "renewalDelay unfit c n now expiresAt = unfit"
  using assms by (auto simp: renewalDelay_def durationBetween_def scaleDuration_def jitter_def Let_def)

end
