(* ===== verification/Schema_Json.thy ===== *)
theory Schema_Json
  imports Append_Config Schema_Evolution
begin

text \<open>
  The JSON of logical types, schemas and table descriptors: \<^verbatim>\<open>pkg/fgo/logical_type.go\<close>, \<^verbatim>\<open>Schema.JSON\<close>,
  \<^verbatim>\<open>ParseSchemaJSON\<close> and \<^verbatim>\<open>GetTable\<close> of \<^verbatim>\<open>pkg/fgo/model.go\<close>, and \<^verbatim>\<open>TableDescriptor.JSON\<close> of
  \<^verbatim>\<open>pkg/fadm/client.go\<close>. Documents are trees; their text, and the replacement of invalid UTF-8 in it, are below this model.
  Decoding follows \<^verbatim>\<open>encoding/json\<close>: names match without case, unknown names are ignored, null leaves a field as it is, a
  value of another type is an error. The names of an object are taken to be distinct; of equal ones the last is read here.
\<close>

section \<open>Documents\<close>

text \<open>\<open>JNumber\<close> is a number that is no \<^verbatim>\<open>int\<close>.\<close>

datatype json = JNull | JBool bool | JInt int | JNumber | JString string | JArray "json list" | JObject "(string \<times> json) list"

text \<open>Case folding as far as it reaches ASCII: capital letters, the long s (\<^verbatim>\<open>U+017F\<close>) and the Kelvin sign (\<^verbatim>\<open>U+212A\<close>), in
  UTF-8. The names of the documents are in lower case.\<close>

fun foldName :: "string \<Rightarrow> string" where
  "foldName [] = []"
| "foldName (c # s) =
     (if c = CHR 0xC5 \<and> take 1 s = [CHR 0xBF] then CHR ''s'' # foldName (drop 1 s)
      else if c = CHR 0xE2 \<and> take 2 s = [CHR 0x84, CHR 0xAA] then CHR ''k'' # foldName (drop 2 s)
      else asciiLower c # foldName s)"

declare foldName.simps(2) [simp del]

definition jsonField :: "string \<Rightarrow> (string \<times> json) list \<Rightarrow> json option" where
  "jsonField name ms = map_option snd (find (\<lambda>(k, _). foldName k = name) (rev ms))"

definition ErrJSON :: go_error where "ErrJSON = Plain ''json: cannot unmarshal''"

definition decodeOr :: "'a \<Rightarrow> (json \<Rightarrow> 'a result) \<Rightarrow> json option \<Rightarrow> 'a result" where
  "decodeOr d f j = (case j of None \<Rightarrow> Inr d | Some JNull \<Rightarrow> Inr d | Some v \<Rightarrow> f v)"

definition jsonString :: "json \<Rightarrow> string result" where "jsonString j = (case j of JString s \<Rightarrow> Inr s | _ \<Rightarrow> Inl ErrJSON)"
definition jsonInt :: "json \<Rightarrow> int result" where "jsonInt j = (case j of JInt i \<Rightarrow> Inr i | _ \<Rightarrow> Inl ErrJSON)"
definition jsonBool :: "json \<Rightarrow> bool result" where "jsonBool j = (case j of JBool b \<Rightarrow> Inr b | _ \<Rightarrow> Inl ErrJSON)"

definition jsonStrings :: "json \<Rightarrow> string list result" where
  "jsonStrings j = (case j of JArray js \<Rightarrow> mapResult (\<lambda>v. decodeOr [] jsonString (Some v)) js | _ \<Rightarrow> Inl ErrJSON)"

definition jsonStringMap :: "json \<Rightarrow> (string \<times> string) list result" where
  "jsonStringMap j = (case j of JObject fs \<Rightarrow> andThen (mapResult (\<lambda>v. decodeOr [] jsonString (Some v)) (map snd fs)) (\<lambda>vs. Inr (zip (map fst fs) vs))
     | _ \<Rightarrow> Inl ErrJSON)"

text \<open>\<^verbatim>\<open>omitempty\<close>.\<close>

definition omitEmpty :: "bool \<Rightarrow> string \<Rightarrow> json \<Rightarrow> (string \<times> json) list" where
  "omitEmpty isEmpty name j = (if isEmpty then [] else [(name, j)])"

section \<open>Logical types\<close>

fun marshalLogicalType :: "logical_type \<Rightarrow> json"
  and marshalOptional :: "string \<Rightarrow> logical_type option \<Rightarrow> (string \<times> json) list"
  and marshalFields :: "logical_field list \<Rightarrow> json list" where
  "marshalLogicalType (LogicalType rt nullable len precision scale element key val fs) =
     JObject ([(''type'', JString rt)] @ omitEmpty nullable ''nullable'' (JBool False)
       @ omitEmpty (len = 0) ''length'' (JInt len) @ omitEmpty (precision = 0) ''precision'' (JInt precision)
       @ omitEmpty (scale = 0) ''scale'' (JInt scale) @ marshalOptional ''element_type'' element
       @ marshalOptional ''key_type'' key @ marshalOptional ''value_type'' val
       @ omitEmpty (fs = []) ''fields'' (JArray (marshalFields fs)))"
| "marshalOptional name None = []"
| "marshalOptional name (Some t) = [(name, marshalLogicalType t)]"
| "marshalFields [] = []"
| "marshalFields (LogicalField name ty description fid # fs) =
     JObject ([(''name'', JString name), (''field_type'', marshalLogicalType ty)]
       @ omitEmpty (description = []) ''description'' (JString description) @ [(''field_id'', JInt fid)]) # marshalFields fs"

lemma jsonField_in: "jsonField name ms = Some j \<Longrightarrow> \<exists>k. (k, j) \<in> set ms"
  by (auto simp: jsonField_def find_Some_iff) (metis length_rev nth_mem set_rev)

lemma jsonField_size: "jsonField name ms = Some j \<Longrightarrow> size j < size (JObject ms)"
proof -
  assume "jsonField name ms = Some j"
  then obtain k where "(k, j) \<in> set ms" using jsonField_in by blast
  then show ?thesis using size_list_estimation' [of "(k, j)" ms "size j" "size_prod (\<lambda>_. 0) size"] by simp
qed

lemma jsonField_weight: "(case jsonField name ms of None \<Rightarrow> 0 | Some j \<Rightarrow> Suc (2 * size j)) < 2 * size (JObject ms)"
  using jsonField_size [of name ms] by (auto split: option.splits)

lemma array_weight: "size (JArray js) < n \<Longrightarrow> Suc (2 * size_list size js) < 2 * n"
  by simp

definition zeroLogicalType :: logical_type where
  "zeroLogicalType = LogicalType [] False 0 0 0 None None None []"

text \<open>\<^verbatim>\<open>UnmarshalJSON\<close>, which is also called for null, but not for a name that is missing.\<close>

function unmarshalLogicalType :: "json \<Rightarrow> logical_type result"
  and unmarshalOptional :: "json option \<Rightarrow> logical_type option result"
  and unmarshalField :: "json \<Rightarrow> logical_field result"
  and unmarshalFields :: "json list \<Rightarrow> logical_field list result" where
  "unmarshalLogicalType j = (case j of
       JNull \<Rightarrow> Inr (LogicalType [] True 0 0 0 None None None [])
     | JObject ms \<Rightarrow>
         andThen (decodeOr [] jsonString (jsonField ''type'' ms)) (\<lambda>rt.
         andThen (decodeOr True jsonBool (jsonField ''nullable'' ms)) (\<lambda>nullable.
         andThen (decodeOr 0 jsonInt (jsonField ''length'' ms)) (\<lambda>len.
         andThen (decodeOr 0 jsonInt (jsonField ''precision'' ms)) (\<lambda>precision.
         andThen (decodeOr 0 jsonInt (jsonField ''scale'' ms)) (\<lambda>scale.
         andThen (unmarshalOptional (jsonField ''element_type'' ms)) (\<lambda>element.
         andThen (unmarshalOptional (jsonField ''key_type'' ms)) (\<lambda>key.
         andThen (unmarshalOptional (jsonField ''value_type'' ms)) (\<lambda>val.
         andThen (case jsonField ''fields'' ms of None \<Rightarrow> Inr [] | Some JNull \<Rightarrow> Inr []
           | Some (JArray js) \<Rightarrow> unmarshalFields js | Some _ \<Rightarrow> Inl ErrJSON) (\<lambda>fs.
         Inr (LogicalType rt nullable len precision scale element key val fs))))))))))
     | _ \<Rightarrow> Inl ErrJSON)"
| "unmarshalOptional m = (case m of None \<Rightarrow> Inr None | Some JNull \<Rightarrow> Inr None
     | Some j \<Rightarrow> andThen (unmarshalLogicalType j) (\<lambda>t. Inr (Some t)))"
| "unmarshalField j = (case j of
       JNull \<Rightarrow> Inr (LogicalField [] zeroLogicalType [] 0)
     | JObject ms \<Rightarrow>
         andThen (decodeOr [] jsonString (jsonField ''name'' ms)) (\<lambda>name.
         andThen (case jsonField ''field_type'' ms of None \<Rightarrow> Inr zeroLogicalType | Some t \<Rightarrow> unmarshalLogicalType t) (\<lambda>ty.
         andThen (decodeOr [] jsonString (jsonField ''description'' ms)) (\<lambda>description.
         andThen (decodeOr 0 jsonInt (jsonField ''field_id'' ms)) (\<lambda>fid.
         Inr (LogicalField name ty description fid)))))
     | _ \<Rightarrow> Inl ErrJSON)"
| "unmarshalFields [] = Inr []"
| "unmarshalFields (j # js) = andThen (unmarshalField j) (\<lambda>f. andThen (unmarshalFields js) (\<lambda>fs. Inr (f # fs)))"
  by pat_completeness auto
termination
  by (relation "measure (\<lambda>x. case x of Inl (Inl j) \<Rightarrow> 2 * size j | Inl (Inr m) \<Rightarrow> (case m of None \<Rightarrow> 0 | Some j \<Rightarrow> Suc (2 * size j))
      | Inr (Inl j) \<Rightarrow> 2 * size j | Inr (Inr js) \<Rightarrow> Suc (2 * size_list size js))")
    (auto simp: jsonField_weight simp del: json.size dest!: jsonField_size intro: array_weight split: option.splits)

declare unmarshalLogicalType.simps [simp del] unmarshalOptional.simps [simp del] unmarshalField.simps [simp del]

definition LogicalType_JSON :: "logical_type \<Rightarrow> json result" where
  "LogicalType_JSON t = andThen (LogicalType_Validate t) (\<lambda>_. Inr (marshalLogicalType t))"

definition ParseLogicalTypeJSON :: "json \<Rightarrow> logical_type result" where
  "ParseLogicalTypeJSON j = (case unmarshalLogicalType j of Inl _ \<Rightarrow> Inl ErrInvalidSchema
     | Inr t \<Rightarrow> andThen (LogicalType_Validate t) (\<lambda>_. Inr t))"

section \<open>Field IDs\<close>

text \<open>The type with its IDs, and the next free ID.\<close>

fun assignLogicalFieldIDs :: "logical_type \<Rightarrow> int \<Rightarrow> logical_type \<times> int"
  and assignOptional :: "logical_type option \<Rightarrow> int \<Rightarrow> logical_type option \<times> int"
  and assignFields :: "logical_field list \<Rightarrow> int \<Rightarrow> logical_field list \<times> int" where
  "assignLogicalFieldIDs (LogicalType rt nullable len precision scale element key val fs) n =
     (case assignFields fs n of (fs, n) \<Rightarrow>
      case assignOptional element n of (element, n) \<Rightarrow>
      case assignOptional key n of (key, n) \<Rightarrow>
      case assignOptional val n of (val, n) \<Rightarrow> (LogicalType rt nullable len precision scale element key val fs, n))"
| "assignOptional None n = (None, n)"
| "assignOptional (Some t) n = (case assignLogicalFieldIDs t n of (t, n) \<Rightarrow> (Some t, n))"
| "assignFields [] n = ([], n)"
| "assignFields (LogicalField name ty description fid # fs) n =
     (case assignLogicalFieldIDs ty (n + 1) of (ty, m) \<Rightarrow>
      case assignFields fs m of (fs, m) \<Rightarrow> (LogicalField name ty description n # fs, m))"

section \<open>Schemas\<close>

record schema_column_json =
  scName :: string
  scDataType :: logical_type
  scComment :: string
  scID :: int

text \<open>The loop over the columns. The copy of a logical type shares its nested fields with the schema of the caller, so that the IDs
  are also written there: the last component is the schema's columns afterwards.\<close>

fun jsonColumns :: "bool \<Rightarrow> column list \<Rightarrow> int \<Rightarrow> schema_column_json list \<times> int \<times> column list" where
  "jsonColumns assign [] n = ([], n, [])"
| "jsonColumns assign (c # cs) n =
     (if assign then
        (case assignLogicalFieldIDs (logicalTypeForColumn c) (n + 1) of (lt, m) \<Rightarrow>
         case jsonColumns assign cs m of (js, m, cs) \<Rightarrow>
           (\<lparr>scName = colName c, scDataType = lt, scComment = colDescription c, scID = n\<rparr> # js, m,
            c\<lparr>colLogicalType := map_option (\<lambda>_. lt) (colLogicalType c)\<rparr> # cs))
      else
        (case jsonColumns assign cs n of (js, m, cs) \<Rightarrow>
           (\<lparr>scName = colName c, scDataType = logicalTypeForColumn c, scComment = colDescription c, scID = colID c\<rparr> # js, m, c # cs)))"

definition marshalColumn :: "schema_column_json \<Rightarrow> json" where
  "marshalColumn c = JObject ([(''name'', JString (scName c)), (''data_type'', marshalLogicalType (scDataType c))]
     @ omitEmpty (scComment c = []) ''comment'' (JString (scComment c)) @ [(''id'', JInt (scID c))])"

definition Schema_JSON :: "schema \<Rightarrow> (json \<times> schema) result" where
  "Schema_JSON s =
     andThen (Schema_Validate s) (\<lambda>_.
     let assign = hasUnassignedFieldIDs s in
     case jsonColumns assign (Columns s) 0 of (columns, n, after') \<Rightarrow>
       Inr (JObject ([(''version'', JInt 1), (''columns'', JArray (map marshalColumn columns))]
         @ omitEmpty (PrimaryKey s = []) ''primary_key'' (JArray (map JString (PrimaryKey s)))
         @ omitEmpty (AutoIncrement s = []) ''auto_increment_column'' (JArray (map JString (AutoIncrement s)))
         @ [(''highest_field_id'', JInt (if assign then n - 1 else HighestFieldID s))]), s\<lparr>Columns := after'\<rparr>))"

definition unmarshalColumn :: "json \<Rightarrow> schema_column_json result" where
  "unmarshalColumn j = (case j of
       JNull \<Rightarrow> Inr \<lparr>scName = [], scDataType = zeroLogicalType, scComment = [], scID = 0\<rparr>
     | JObject ms \<Rightarrow>
         andThen (decodeOr [] jsonString (jsonField ''name'' ms)) (\<lambda>name.
         andThen (case jsonField ''data_type'' ms of None \<Rightarrow> Inr zeroLogicalType | Some t \<Rightarrow> unmarshalLogicalType t) (\<lambda>ty.
         andThen (decodeOr [] jsonString (jsonField ''comment'' ms)) (\<lambda>comment.
         andThen (decodeOr 0 jsonInt (jsonField ''id'' ms)) (\<lambda>k.
         Inr \<lparr>scName = name, scDataType = ty, scComment = comment, scID = k\<rparr>))))
     | _ \<Rightarrow> Inl ErrJSON)"

definition columnFromJSON :: "schema_column_json \<Rightarrow> column" where
  "columnFromJSON c = \<lparr>colName = scName c, colType = dataTypeForLogicalType (scDataType c), colNullable = ltNullable (scDataType c),
     colLogicalType = Some (scDataType c), colDescription = scComment c, colID = scID c\<rparr>"

fun validateEncoded :: "schema_column_json list \<Rightarrow> unit result" where
  "validateEncoded [] = Inr ()"
| "validateEncoded (c # cs) = andThen (LogicalType_Validate (scDataType c)) (\<lambda>_. validateEncoded cs)"

definition unmarshalSchema :: "json \<Rightarrow> (schema_column_json list \<times> string list \<times> string list \<times> int) result" where
  "unmarshalSchema j = (case j of
       JNull \<Rightarrow> Inr ([], [], [], 0)
     | JObject ms \<Rightarrow>
         andThen (decodeOr 0 jsonInt (jsonField ''version'' ms)) (\<lambda>_.
         andThen (decodeOr [] (\<lambda>v. case v of JArray js \<Rightarrow> mapResult unmarshalColumn js | _ \<Rightarrow> Inl ErrJSON) (jsonField ''columns'' ms)) (\<lambda>columns.
         andThen (decodeOr [] jsonStrings (jsonField ''primary_key'' ms)) (\<lambda>primaryKey.
         andThen (decodeOr [] jsonStrings (jsonField ''auto_increment_column'' ms)) (\<lambda>autoIncrement.
         andThen (decodeOr 0 jsonInt (jsonField ''highest_field_id'' ms)) (\<lambda>highest.
         Inr (columns, primaryKey, autoIncrement, highest))))))
     | _ \<Rightarrow> Inl ErrJSON)"

definition ParseSchemaJSON :: "json \<Rightarrow> schema result" where
  "ParseSchemaJSON j = (case unmarshalSchema j of Inl _ \<Rightarrow> Inl ErrInvalidSchema
     | Inr (columns, primaryKey, autoIncrement, highest) \<Rightarrow>
         andThen (validateEncoded columns) (\<lambda>_.
         let s = \<lparr>Columns = map columnFromJSON columns, PrimaryKey = primaryKey, BucketKey = [], PartitionKey = [],
           AutoIncrement = autoIncrement, HighestFieldID = highest\<rparr> in
         andThen (Schema_Validate s) (\<lambda>_. Inr s)))"

section \<open>Table descriptors\<close>

record table_descriptor =
  tdSchema :: schema
  tdComment :: string
  tdBucketCount :: int
  tdProperties :: "(string \<times> string) list"
  tdCustomProperties :: "(string \<times> string) list"

text \<open>A map is written in the order of its keys; a nil list of keys is written as null.\<close>

definition jsonMap :: "(string \<times> string) list \<Rightarrow> json" where
  "jsonMap kvs = JObject (map (\<lambda>(k, v). (k, JString v)) kvs)"

definition jsonKeys :: "string list \<Rightarrow> json" where
  "jsonKeys ks = (if ks = [] then JNull else JArray (map JString ks))"

definition TableDescriptor_JSON :: "table_descriptor \<Rightarrow> (json \<times> schema) result" where
  "TableDescriptor_JSON d =
     andThen (Schema_Validate (tdSchema d)) (\<lambda>_.
     guardE (tdBucketCount d \<le> 0) ErrInvalidConfig (
     andThen (Schema_JSON (tdSchema d)) (\<lambda>(schemaDoc, after').
     Inr (JObject ([(''version'', JInt 1), (''schema'', schemaDoc)]
       @ omitEmpty (tdComment d = []) ''comment'' (JString (tdComment d))
       @ [(''partition_key'', jsonKeys (PartitionKey (tdSchema d))), (''bucket_key'', jsonKeys (BucketKey (tdSchema d))),
          (''bucket_count'', JInt (tdBucketCount d)), (''properties'', jsonMap (tdProperties d)),
          (''custom_properties'', jsonMap (tdCustomProperties d))]), after'))))"

text \<open>\<^verbatim>\<open>GetTable\<close> after the response: the schema it resolved, and the descriptor, which may be missing.\<close>

record table_info =
  inTableID :: int
  inSchemaID :: int
  inTableJson :: "json option"

definition tableFromInfo :: "table_path \<Rightarrow> table_info \<Rightarrow> schema result \<Rightarrow> table result" where
  "tableFromInfo path info resolved =
     andThen resolved (\<lambda>s.
     andThen (case inTableJson info of
         None \<Rightarrow> Inr (s, 0, [])
       | Some j \<Rightarrow>
           (case (case j of JNull \<Rightarrow> Inr ([], [], 0, [])
             | JObject ms \<Rightarrow>
                 andThen (decodeOr [] jsonStrings (jsonField ''bucket_key'' ms)) (\<lambda>bucketKey.
                 andThen (decodeOr [] jsonStrings (jsonField ''partition_key'' ms)) (\<lambda>partitionKey.
                 andThen (decodeOr 0 jsonInt (jsonField ''bucket_count'' ms)) (\<lambda>bucketCount.
                 andThen (decodeOr [] jsonStringMap (jsonField ''properties'' ms)) (\<lambda>properties.
                 Inr (bucketKey, partitionKey, bucketCount, properties)))))
             | _ \<Rightarrow> Inl ErrJSON) of Inl _ \<Rightarrow> Inl ErrInvalidSchema
            | Inr (bucketKey, partitionKey, bucketCount, properties) \<Rightarrow>
                let s = s\<lparr>BucketKey := bucketKey, PartitionKey := partitionKey\<rparr> in
                andThen (Schema_Validate s) (\<lambda>_. Inr (s, bucketCount, properties)))) (\<lambda>(s, bucketCount, properties).
     Inr \<lparr>tblID = inTableID info, tblSchemaID = inSchemaID info, tblPath = path,
       tblKind = (if PrimaryKey s \<noteq> [] then PrimaryKeyTable else LogTable), tblSchema = s, tblBucketCount = bucketCount,
       tblProperties = properties\<rparr>))"

text \<open>\<^verbatim>\<open>fetchSchema\<close>: the response holds an ID and a document.\<close>

definition fetchSchema :: "int \<Rightarrow> (int \<times> json) option result \<Rightarrow> schema result" where
  "fetchSchema schemaID response =
     andThen response (\<lambda>message. case message of None \<Rightarrow> Inl (Plain ''unexpected response'')
     | Some (k, doc) \<Rightarrow> guardE (k \<noteq> schemaID) ErrInvalidSchema (ParseSchemaJSON doc))"

end
