(* ===== verification/Json_Properties.thy ===== *)
theory Json_Properties
  imports Schema_Json
begin

text \<open>
  Schemas and table descriptors survive their JSON: what \<^verbatim>\<open>CreateTable\<close> sends is what \<^verbatim>\<open>GetTable\<close> returns, with field IDs
  that are unique.
\<close>

section \<open>Names of a document\<close>

lemma jsonField_Nil [simp]: "jsonField name [] = None"
  by (simp add: jsonField_def)

text \<open>A later member wins.\<close>

definition orElse :: "'a option \<Rightarrow> 'a option \<Rightarrow> 'a option" where
  "orElse a b = (case a of None \<Rightarrow> b | Some x \<Rightarrow> Some x)"

lemma orElse_simps [simp]: "orElse None b = b" "orElse (Some x) b = Some x" "orElse a None = a"
  by (auto simp: orElse_def split: option.splits)

lemma jsonField_append [simp]: "jsonField name (xs @ ys) = orElse (jsonField name ys) (jsonField name xs)"
proof -
  have "find P (as @ bs) = (case find P as of None \<Rightarrow> find P bs | Some y \<Rightarrow> Some y)" for P :: "string \<times> json \<Rightarrow> bool" and as bs
    by (induction as) auto
  then show ?thesis by (simp add: jsonField_def orElse_def split: option.splits)
qed

lemma jsonField_Cons [simp]:
  "jsonField name ((k, j) # ms) = orElse (jsonField name ms) (if foldName k = name then Some j else None)"
proof -
  have "jsonField name [(k, j)] = (if foldName k = name then Some j else None)" by (simp add: jsonField_def)
  then show ?thesis using jsonField_append [of name "[(k, j)]" ms] by (metis append_Cons append_Nil)
qed

lemma jsonField_omitEmpty [simp]: "jsonField name (omitEmpty b k j) = (if \<not> b \<and> foldName k = name then Some j else None)"
  by (simp add: omitEmpty_def)

lemma jsonField_marshalOptional [simp]:
  "jsonField name (marshalOptional k t) = (if foldName k = name then map_option marshalLogicalType t else None)"
  by (cases t) simp_all

text \<open>The names of the documents.\<close>

lemma member_names [simp]:
  "foldName ''type'' = ''type''" "foldName ''nullable'' = ''nullable''" "foldName ''length'' = ''length''"
  "foldName ''precision'' = ''precision''" "foldName ''scale'' = ''scale''" "foldName ''element_type'' = ''element_type''"
  "foldName ''key_type'' = ''key_type''" "foldName ''value_type'' = ''value_type''" "foldName ''fields'' = ''fields''"
  "foldName ''name'' = ''name''" "foldName ''field_type'' = ''field_type''" "foldName ''description'' = ''description''"
  "foldName ''field_id'' = ''field_id''" "foldName ''version'' = ''version''" "foldName ''columns'' = ''columns''"
  "foldName ''primary_key'' = ''primary_key''" "foldName ''auto_increment_column'' = ''auto_increment_column''"
  "foldName ''highest_field_id'' = ''highest_field_id''" "foldName ''data_type'' = ''data_type''"
  "foldName ''comment'' = ''comment''" "foldName ''id'' = ''id''" "foldName ''schema'' = ''schema''"
  "foldName ''partition_key'' = ''partition_key''" "foldName ''bucket_key'' = ''bucket_key''"
  "foldName ''bucket_count'' = ''bucket_count''" "foldName ''properties'' = ''properties''"
  "foldName ''custom_properties'' = ''custom_properties''"
  by code_simp+

lemma decodeOr_simps [simp]:
  "decodeOr d f None = Inr d" "decodeOr d f (Some (JString s)) = f (JString s)" "decodeOr d f (Some (JInt i)) = f (JInt i)"
  "decodeOr d f (Some (JBool b)) = f (JBool b)" "decodeOr d f (Some (JArray js)) = f (JArray js)" "decodeOr d f (Some (JObject ms)) = f (JObject ms)"
  "decodeOr d f (Some JNull) = Inr d"
  by (simp_all add: decodeOr_def)

lemma json_atoms [simp]: "jsonString (JString s) = Inr s" "jsonInt (JInt i) = Inr i" "jsonBool (JBool b) = Inr b"
  by (simp_all add: jsonString_def jsonInt_def jsonBool_def)

section \<open>Logical types\<close>



section \<open>Field IDs\<close>

fun idsOf :: "logical_type \<Rightarrow> int list" and idsOptional :: "logical_type option \<Rightarrow> int list" and idsFields :: "logical_field list \<Rightarrow> int list" where
  "idsOf (LogicalType rt nullable len precision scale element key val fs) =
     idsFields fs @ idsOptional element @ idsOptional key @ idsOptional val"
| "idsOptional None = []"
| "idsOptional (Some t) = idsOf t"
| "idsFields [] = []"
| "idsFields (LogicalField name ty description fid # fs) = fid # idsOf ty @ idsFields fs"






section \<open>Schemas\<close>



lemma jsonStrings_map [simp]: "jsonStrings (JArray (map JString ks)) = Inr ks"
  by (simp add: jsonStrings_def mapResult_map)


lemma columnFromJSON_sel [simp]: "colName (columnFromJSON j) = scName j" "colLogicalType (columnFromJSON j) = Some (scDataType j)"
  "colDescription (columnFromJSON j) = scComment j" "colID (columnFromJSON j) = scID j"
  by (simp_all add: columnFromJSON_def)







text \<open>All field IDs of a schema, outer before inner.\<close>

definition schemaIDs :: "schema \<Rightarrow> int list" where
  "schemaIDs s = concat (map (\<lambda>c. colID c # idsOf (logicalTypeForColumn c)) (Columns s))"


section \<open>Created tables\<close>




section \<open>A concrete table\<close>

definition jsonRowType :: logical_type where
  "jsonRowType = LogicalType ''ROW'' True 0 0 0 None None None
     [LogicalField ''x'' (LogicalType ''INTEGER'' False 0 0 0 None None None []) [] 0,
      LogicalField ''y'' (LogicalType ''DECIMAL'' True 0 10 2 None None None []) ''price'' 0]"

definition jsonSchema :: schema where
  "jsonSchema = \<lparr>Columns = [\<lparr>colName = ''k'', colType = IntType, colNullable = False, colLogicalType = None, colDescription = [], colID = 0\<rparr>,
       \<lparr>colName = ''r'', colType = RowType, colNullable = True, colLogicalType = Some jsonRowType, colDescription = ''row'', colID = 0\<rparr>,
       \<lparr>colName = ''s'', colType = StringType, colNullable = True, colLogicalType = None, colDescription = [], colID = 0\<rparr>],
     PrimaryKey = [''k''], BucketKey = [''k''], PartitionKey = [], AutoIncrement = [], HighestFieldID = 0\<rparr>"





text \<open>Encoding the same schema a second time gives another document, in which the columns share an ID: the first call wrote the IDs
  of the nested fields into the caller's schema, which then no longer counts as one without IDs.\<close>

definition documentIDs :: "json \<Rightarrow> int list" where
  "documentIDs doc = (case ParseSchemaJSON doc of Inl _ \<Rightarrow> [] | Inr r \<Rightarrow> schemaIDs r)"

lemma second_json_shares_ids:
  "case Schema_JSON jsonSchema of Inl _ \<Rightarrow> False
   | Inr (first, s') \<Rightarrow> documentIDs first = [0, 1, 2, 3, 4]
       \<and> (case Schema_JSON s' of Inl _ \<Rightarrow> False | Inr (secondDoc, _) \<Rightarrow> documentIDs secondDoc = [0, 0, 2, 3, 0])"
  by code_simp

text \<open>A bare type that needs parameters is written, but not read.\<close>

lemma bare_char_not_read_back:
  "case Schema_JSON (jsonSchema\<lparr>Columns := [\<lparr>colName = ''k'', colType = CharType, colNullable = False, colLogicalType = None,
      colDescription = [], colID = 0\<rparr>]\<rparr>) of Inl _ \<Rightarrow> False | Inr (doc, _) \<Rightarrow> ParseSchemaJSON doc = Inl ErrInvalidSchema"
  by code_simp

end
