(* ===== verification/Spec2Isabelle.thy ===== *)
theory Spec2Isabelle
  imports Codec_Properties Batch_Properties Bucketing Partitions Protocol Writer_Retry Append_Properties Upsert_Properties
    Transport_Properties Coalescer Client_Routing Arrow_Batch Scanner_Properties Batch_Scan_Properties Remote_Properties Predicate_Properties Token_Properties Json_Properties
begin

text \<open>
  A verification library for \<^verbatim>\<open>fluss-go\<close>, the Go client of the Fluss streaming store.
\<close>

section \<open>Writers and codecs together\<close>

text \<open>
  C14. What a server reads from an upsert writer: take the requests sent for a bucket, in the order sent, and
  any encodings of them. Each decodes; the batches carry the identifier of the writer and the sequence numbers
  0, 1, 2, ...; and their records, one after the other, are a prefix of the mutations accepted for the bucket.
\<close>

theorem upsert_wire_order:
  assumes "upsert_reachable w s" and "validUpsertStatic w"
    and "list_all2 (\<lambda>(b, batch, sequence) bytes. encodeKVBatch w batch sequence = Inr bytes) (requestsOf (usSched s) b) wires"
  shows "\<exists>ds. list_all2 (\<lambda>bytes d. DecodeKVBatch bytes = Inr d) wires ds
    \<and> map kvSequence ds = map of_nat [0..<length wires]
    \<and> (\<forall>d \<in> set ds. kvWriterID d = word_of_int (uwWriterID w) \<and> kvSchemaID d = word_of_int (tblSchemaID (uwTable w)))
    \<and> prefix (concat (map kvRecords ds)) (map (normKV \<circ> kwRecord) (usAccepted s b))"
proof -
  note run = upsert_run [OF assms(1,2)]
  let ?reqs = "requestsOf (usSched s) b"
  define out where "out = (\<lambda>(b :: int, bt :: kv_pending_batch, sq). \<lparr>kvSchemaID = word_of_int (tblSchemaID (uwTable w)),
    kvWriterID = word_of_int (uwWriterID w), kvSequence = sq, kvRecords = map normKV (kbRecords bt)\<rparr> :: kv_batch)"
  have decode: "list_all2 (\<lambda>bytes d. DecodeKVBatch bytes = Inr d) wires (map out ?reqs)"
    using assms(3) by (fastforce simp: list_all2_conv_all_nth encodeKVBatch_def out_def split_beta dest: DecodeKVBatch_Encode)
  have len: "length ?reqs = length wires" using assms(3) by (rule list_all2_lengthD)
  have "map kvSequence (map out ?reqs) = seqsOf (usSched s) b" by (simp add: seqsOf_def out_def split_beta comp_def)
  moreover have "length (seqsOf (usSched s) b) = length wires" using len by (simp add: seqsOf_def)
  ultimately have "map kvSequence (map out ?reqs) = map of_nat [0..<length wires]"
    using upsert.loop.run_sequences [OF run, of b] by (simp only: kvView_simps)
  moreover have "kbRecords bt = map kwRecord (kbItems bt)" if "(c, bt, sq) \<in> set ?reqs" for c bt sq
    using upsert.run_good [OF run, of c bt sq] that by (auto simp: requestsOf_def kv_batch_ok_def)
  then have "map kvRecords (map out ?reqs) = map (map (normKV \<circ> kwRecord) \<circ> kbItems) (sentOf (usSched s) b)"
    by (fastforce simp: sentOf_def out_def)
  then have "concat (map kvRecords (map out ?reqs)) = map (normKV \<circ> kwRecord) (concat (map kbItems (sentOf (usSched s) b)))"
    by (simp add: map_concat)
  then have "prefix (concat (map kvRecords (map out ?reqs))) (map (normKV \<circ> kwRecord) (usAccepted s b))"
    using upsert.run_order [OF run, of b] by (simp add: map_mono_prefix)
  moreover have "\<forall>d \<in> set (map out ?reqs). kvWriterID d = word_of_int (uwWriterID w)
      \<and> kvSchemaID d = word_of_int (tblSchemaID (uwTable w))"
    by (auto simp: out_def)
  ultimately show ?thesis using decode by blast
qed

theorem upsert_wire_order_witness:
  "\<exists>bytes d. encodeKVBatch exKVStatic exKVBatch 0 = Inr bytes \<and> DecodeKVBatch bytes = Inr d
     \<and> kvSequence d = 0 \<and> kvWriterID d = 9"
proof -
  have v: "appendVar32 [] (4 :: 32 word) = [4]" by code_simp
  have "\<exists>bytes. encodeKVBatch exKVStatic exKVBatch 0 = Inr bytes"
    unfolding encodeKVBatch_def KVBatch_Encode_def
    by (simp add: exKVBatch_def exKVItem_def appendKVRecord_def valueBytes_def Let_def v maxRowBytes_def
        kvBatchHeaderSize_def le_put_def go_slice_def go_set_def)
  then obtain bytes where b: "encodeKVBatch exKVStatic exKVBatch 0 = Inr bytes" by blast
  have "requestsOf (usSched exKVSent) 0 = [(0, exKVBatch, 0)]" by code_simp
  then have "list_all2 (\<lambda>(b, batch, sequence) bytes. encodeKVBatch exKVStatic batch sequence = Inr bytes)
      (requestsOf (usSched exKVSent) 0) [bytes]" using b by simp
  from upsert_wire_order [OF exKVSent_reachable exKVStatic_valid this] obtain d where
    "DecodeKVBatch bytes = Inr d" "kvSequence d = 0" "kvWriterID d = word_of_int (uwWriterID exKVStatic)"
    by (auto simp: list_all2_Cons1)
  then show ?thesis using b by (auto simp: exKVStatic_def)
qed

text \<open>
  C6. What a server reads from an append writer: a request of rows, encoded in the compacted or the indexed
  layout, decodes to a batch with the identifier of the writer and the sequence number of the request, whose
  records are the rows of the batch, in order and all appends, up to what the column types keep of a value.
\<close>

theorem append_wire_rows:
  assumes "append_reachable enc w s" and "validAppendStatic w" and "(b, bt, sq) \<in> set (dispatched (asSched s))"
    and "\<forall>i \<in> set (bbItems bt). pwArrow i = None \<and> (\<forall>v \<in> set (pwRow i). wfValue v)"
    and "encodeBatch enc w bt sq = Inr bytes" and "int (length bytes) \<le> maxRowBytes"
    and "compacted \<longleftrightarrow> acFormat (awConfig w) \<noteq> LogFormatIndexed"
  shows "\<exists>lb. DecodeLogBatchRows localOffset (tblSchema (awTable w)) bytes compacted = Inr lb
    \<and> WriterID lb = word_of_int (awWriterID w) \<and> BatchSequence lb = sq
    \<and> map recValue (Records lb) =
        map (canonRow (rowLayout compacted) (Columns (tblSchema (awTable w))) \<circ> pwRow) (bbItems bt)
    \<and> (\<forall>r \<in> set (Records lb). recChange r = Append)"
proof -
  have "limits_inv w s" using append_reachable_inv [OF assms(1,2)] by (simp add: append_inv_def loop_inv_def)
  moreover have "bt \<in> set (lineOf (asSched s) b)"
    using assms(3) by (force simp: lineOf_def sentOf_def requestsOf_def)
  ultimately have "batch_ok w bt" by (auto simp: limits_inv_def)
  moreover have "\<not> arrow_batch bt" using assms(4) by (auto simp: arrow_batch_def)
  ultimately have recs: "bbRecords bt = map (appendRecord \<circ> pwRow) (bbItems bt)" by (simp add: batch_ok_def row_batch_def)
  have "encodeBatch enc w bt sq = encodeRowsBatch w bt sq"
    using assms(4) by (auto simp: encodeBatch_def split: list.split option.split)
  then have enc: "EncodeRows \<lparr>Magic = 0, BaseOffset = -1, CommitTime = 0, LeaderEpoch = 0,
      SchemaID = word_of_int (tblSchemaID (awTable w)), AppendOnly = True, WriterID = word_of_int (awWriterID w),
      BatchSequence = sq, Records = bbRecords bt\<rparr> (tblSchema (awTable w)) compacted = Inr bytes"
    using assms(5,7) by (simp add: encodeRowsBatch_def)
  have vals: "map recValue (map (\<lambda>(i, r). logRecordAt lo sc c lb i r) (zip [0..<length rs] rs))
      = map (canonRow (rowLayout c) (Columns sc) \<circ> recValue) rs" for lo sc c lb rs
    by (rule nth_equalityI) (simp_all add: logRecordAt_def)
  let ?lb = "\<lparr>Magic = 0, BaseOffset = -1, CommitTime = 0, LeaderEpoch = 0,
      SchemaID = word_of_int (tblSchemaID (awTable w)), AppendOnly = True, WriterID = word_of_int (awWriterID w),
      BatchSequence = sq, Records = bbRecords bt\<rparr> :: log_batch"
  let ?out = "map (\<lambda>(i, r). logRecordAt localOffset (tblSchema (awTable w)) compacted ?lb i r)
      (zip [0..<length (bbRecords bt)] (bbRecords bt))"
  have wf: "\<forall>r \<in> set (Records ?lb). \<forall>v \<in> set (recValue r). wfValue v"
    using assms(4) by (auto simp: recs appendRecord_def)
  have "DecodeLogBatchRows localOffset (tblSchema (awTable w)) bytes compacted = Inr (?lb\<lparr>Records := ?out\<rparr>)"
    using DecodeLogBatchRows_EncodeRows [OF enc wf assms(6), of localOffset] by simp
  moreover have "map recValue ?out = map (canonRow (rowLayout compacted) (Columns (tblSchema (awTable w))) \<circ> pwRow) (bbItems bt)"
    unfolding vals by (simp add: recs appendRecord_def)
  moreover have "\<forall>r \<in> set ?out. recChange r = Append"
    by (auto simp: recs logRecordAt_def appendRecord_def dest!: set_zip_rightD)
  ultimately show ?thesis by (intro exI [of _ "?lb\<lparr>Records := ?out\<rparr>"]) simp
qed

lemma exSent_encode:
  "\<exists>bytes. encodeBatch noArrow exStatic \<lparr>bbItems = [exItem 0], bbRecords = [appendRecord exRow], bbBytes = 33\<rparr> 0 = Inr bytes
     \<and> length bytes = 81"
proof -
  let ?row = "[2, 172, 2, 24, 2, 0, 0, 0, 2, 0, 0, 0, 97, 98, 0, 0, 0, 0, 0, 130, 0, 0, 0, 0, 0, 0, 0, 0] :: bytes"
  let ?lb = "\<lparr>Magic = 0, BaseOffset = -1, CommitTime = 0, LeaderEpoch = 0,
      SchemaID = word_of_int (tblSchemaID (awTable exStatic)), AppendOnly = True, WriterID = word_of_int (awWriterID exStatic),
      BatchSequence = 0, Records = [appendRecord exRow]\<rparr> :: log_batch"
  have row: "EncodeCompactedRow exSchema exRow = Inr ?row" by code_simp
  have change: "ChangeType_Validate Append = Inr ()" by code_simp
  have magic: "Magic ?lb = 0 \<or> Magic ?lb = 1" by simp
  have "appendLogRecords exSchema True e (Records ?lb) = Inr (e @ le_bytes 4 (29 :: 32 word) @ [Append] @ ?row)" for e
    by (simp add: appendRecord_def appendLogRecord_def row change)
  then have "\<exists>bytes. EncodeRows ?lb exSchema True = Inr bytes \<and> length bytes = 81"
    unfolding EncodeRows_def Let_def schemaOffset_def [symmetric] crcOffset_def [symmetric]
      log_front [OF magic] log_back [OF magic]
    by (simp add: le_put_def go_slice_def schemaOffset_def crcOffset_def)
  moreover have "tblSchema (awTable exStatic) = exSchema" "acFormat (awConfig exStatic) \<noteq> LogFormatIndexed" by code_simp+
  ultimately show ?thesis by (simp add: encodeBatch_def exItem_def encodeRowsBatch_def)
qed

theorem append_wire_rows_witness:
  "\<exists>bytes lb. encodeBatch noArrow exStatic \<lparr>bbItems = [exItem 0], bbRecords = [appendRecord exRow], bbBytes = 33\<rparr> 0 = Inr bytes
     \<and> DecodeLogBatchRows (\<lambda>_. 0) exSchema bytes True = Inr lb \<and> BatchSequence lb = 0 \<and> WriterID lb = 9"
proof -
  let ?bt = "\<lparr>bbItems = [exItem 0], bbRecords = [appendRecord exRow], bbBytes = 33\<rparr>"
  have d: "(0, ?bt, 0) \<in> set (dispatched (asSched exSent))" by code_simp
  obtain bytes where b: "encodeBatch noArrow exStatic ?bt 0 = Inr bytes" "length bytes = 81" using exSent_encode by blast
  have "tblSchema (awTable exStatic) = exSchema" "acFormat (awConfig exStatic) \<noteq> LogFormatIndexed" "awWriterID exStatic = 9"
    by code_simp+
  then show ?thesis
    using append_wire_rows [OF exSent_reachable exStatic_valid d _ b(1), of True "\<lambda>_. 0"] b
    by (auto simp: exItem_def exRow_def maxRowBytes_def)
qed

end
